(* ===== verification/Prelude.thy ===== *)
theory Prelude
  imports Main "HOL-Library.Word"
begin

text \<open>
  Shared vocabulary of the development: the Rust integer types as words, the
  casts the sources use between them, \<^verbatim>\<open>Result\<close> as a sum type with the combinators
  the code calls on it, little- and big-endian byte encodings, and the SQL table
  abstraction (rows in insertion order under a \<^verbatim>\<open>BIGSERIAL\<close> key) every storage
  component is written over.
\<close>

section \<open>Integers, bytes and casts\<close>

type_synonym u8 = "8 word"
type_synonym u16 = "16 word"
type_synonym u32 = "32 word"
type_synonym u64 = "64 word"
type_synonym u128 = "128 word"
type_synonym i64 = int
type_synonym i32 = int
type_synonym bytes = "u8 list"

named_theorems res_simps \<open>unfolding rules of the Result combinators\<close>
named_theorems err_simps \<open>where an error of a Result comes from\<close>
named_theorems table_simps \<open>rewriting of SQL table operations\<close>

text \<open>
  An \<^verbatim>\<open>i64\<close> or \<^verbatim>\<open>i32\<close> value is the integer it denotes. \<^verbatim>\<open>x as i64\<close> on a \<^verbatim>\<open>u64\<close>
  reinterprets the bits, and \<^verbatim>\<open>x as u64\<close> on an \<^verbatim>\<open>i64\<close> takes them back.
\<close>

definition as_i64 :: "u64 \<Rightarrow> i64" where
  "as_i64 w = sint w"

definition as_u64 :: "i64 \<Rightarrow> u64" where
  "as_u64 i = word_of_int i"

definition u64_try_from :: "i64 \<Rightarrow> u64 option" where
  "u64_try_from i = (if i < 0 then None else Some (word_of_int i))"

definition saturating_sub :: "'a::len word \<Rightarrow> 'a word \<Rightarrow> 'a word" where
  "saturating_sub a b = (if a < b then 0 else a - b)"

text \<open>
  The two builds of every component: \<^verbatim>\<open>cloud\<close> (PostgreSQL, NATS) and \<^verbatim>\<open>standalone\<close> (SQLite,
  in-memory messages). Where a Cargo feature selects the code, the model takes it as an argument.
\<close>

datatype feature = Cloud | Standalone

section \<open>Results\<close>

text \<open>
  \<^verbatim>\<open>Result<T, E>\<close> is \<open>'e + 't\<close> with \<open>Inl\<close> for \<^verbatim>\<open>Err\<close>. \<open>and_then\<close> is the method of that
  name and the \<^verbatim>\<open>?\<close> operator; \<open>try_map\<close> is \<^verbatim>\<open>iter.map(f).collect::<Result<Vec<_>, _>>()\<close>;
  \<open>try_fold\<close> threads a state through a loop whose body may return early with \<^verbatim>\<open>?\<close>.
\<close>

definition and_then :: "'e + 'a \<Rightarrow> ('a \<Rightarrow> 'e + 'b) \<Rightarrow> 'e + 'b" where
  "and_then r f = (case r of Inl e \<Rightarrow> Inl e | Inr a \<Rightarrow> f a)"

definition map_err :: "('e \<Rightarrow> 'f) \<Rightarrow> 'e + 'a \<Rightarrow> 'f + 'a" where
  "map_err f r = (case r of Inl e \<Rightarrow> Inl (f e) | Inr a \<Rightarrow> Inr a)"

definition map_ok :: "('a \<Rightarrow> 'b) \<Rightarrow> 'e + 'a \<Rightarrow> 'e + 'b" where
  "map_ok f r = (case r of Inl e \<Rightarrow> Inl e | Inr a \<Rightarrow> Inr (f a))"

fun try_map :: "('a \<Rightarrow> 'e + 'b) \<Rightarrow> 'a list \<Rightarrow> 'e + 'b list" where
  "try_map f [] = Inr []"
| "try_map f (x # xs) =
     (case f x of
        Inl e \<Rightarrow> Inl e
      | Inr y \<Rightarrow> (case try_map f xs of Inl e \<Rightarrow> Inl e | Inr ys \<Rightarrow> Inr (y # ys)))"

fun try_fold :: "('s \<Rightarrow> 'a \<Rightarrow> 'e + 's) \<Rightarrow> 's \<Rightarrow> 'a list \<Rightarrow> 'e + 's" where
  "try_fold f s [] = Inr s"
| "try_fold f s (x # xs) = (case f s x of Inl e \<Rightarrow> Inl e | Inr s' \<Rightarrow> try_fold f s' xs)"

definition is_ok :: "'e + 'a \<Rightarrow> bool" where
  "is_ok r = (case r of Inl _ \<Rightarrow> False | Inr _ \<Rightarrow> True)"

section \<open>Byte encodings\<close>

text \<open>The bytes of a number, \<open>n\<close> of them, least significant first, and back.\<close>

fun nat_to_le :: "nat \<Rightarrow> nat \<Rightarrow> bytes" where
  "nat_to_le 0 v = []"
| "nat_to_le (Suc n) v = word_of_nat (v mod 256) # nat_to_le n (v div 256)"

fun le_to_nat :: "bytes \<Rightarrow> nat" where
  "le_to_nat [] = 0"
| "le_to_nat (b # bs) = unat b + 256 * le_to_nat bs"

definition nat_to_be :: "nat \<Rightarrow> nat \<Rightarrow> bytes" where
  "nat_to_be n v = rev (nat_to_le n v)"

definition be_to_nat :: "bytes \<Rightarrow> nat" where
  "be_to_nat bs = le_to_nat (rev bs)"

text \<open>\<^verbatim>\<open>slice.get(from..to)\<close>: \<^verbatim>\<open>None\<close> when the range is not inside the slice.\<close>

definition slice_get :: "'a list \<Rightarrow> nat \<Rightarrow> nat \<Rightarrow> 'a list option" where
  "slice_get xs i j = (if i \<le> j \<and> j \<le> length xs then Some (take (j - i) (drop i xs)) else None)"

definition index_get :: "'a list \<Rightarrow> nat \<Rightarrow> 'a option" where
  "index_get xs i = (if i < length xs then Some (xs ! i) else None)"

section \<open>SQL tables\<close>

text \<open>
  A table with a \<^verbatim>\<open>BIGSERIAL\<close> (PostgreSQL) or \<^verbatim>\<open>INTEGER PRIMARY KEY\<close> (SQLite) id: the
  next id of its sequence and its rows in insertion order. A sequence that skipped ids,
  as PostgreSQL leaves it after a rolled back transaction, is a larger \<open>tab_next\<close>.
\<close>

record 'r table =
  tab_next :: i64
  tab_rows :: "(i64 \<times> 'r) list"

definition empty_table :: "'r table" where
  "empty_table = \<lparr>tab_next = 1, tab_rows = []\<rparr>"

text \<open>\<^verbatim>\<open>INSERT INTO t VALUES (..) RETURNING id\<close>, for one row and for a multi-row insert.\<close>

definition insert_row :: "'r \<Rightarrow> 'r table \<Rightarrow> i64 \<times> 'r table" where
  "insert_row r t = (tab_next t, \<lparr>tab_next = tab_next t + 1, tab_rows = tab_rows t @ [(tab_next t, r)]\<rparr>)"

fun insert_rows :: "'r list \<Rightarrow> 'r table \<Rightarrow> i64 list \<times> 'r table" where
  "insert_rows [] t = ([], t)"
| "insert_rows (r # rs) t =
     (let (i, t1) = insert_row r t; (is, t2) = insert_rows rs t1 in (i # is, t2))"

text \<open>\<^verbatim>\<open>UPDATE t SET .. WHERE p\<close> with the number of rows it affected.\<close>

definition update_where :: "(i64 \<times> 'r \<Rightarrow> bool) \<Rightarrow> ('r \<Rightarrow> 'r) \<Rightarrow> 'r table \<Rightarrow> nat \<times> 'r table" where
  "update_where p f t =
     (length (filter p (tab_rows t)),
      t\<lparr>tab_rows := map (\<lambda>(i, r). if p (i, r) then (i, f r) else (i, r)) (tab_rows t)\<rparr>)"

text \<open>\<^verbatim>\<open>SELECT .. WHERE p\<close> in insertion order, and \<^verbatim>\<open>ORDER BY k DESC\<close>.\<close>

definition select_where :: "(i64 \<times> 'r \<Rightarrow> bool) \<Rightarrow> 'r table \<Rightarrow> (i64 \<times> 'r) list" where
  "select_where p t = filter p (tab_rows t)"

definition order_by_desc :: "('a \<Rightarrow> int) \<Rightarrow> 'a list \<Rightarrow> 'a list" where
  "order_by_desc k xs = sort_key (\<lambda>x. - k x) xs"

definition row_by_id :: "'r table \<Rightarrow> i64 \<Rightarrow> 'r option" where
  "row_by_id t i = map_of (tab_rows t) i"

definition table_ids :: "'r table \<Rightarrow> i64 set" where
  "table_ids t = fst ` set (tab_rows t)"

text \<open>Ids are positive, strictly increasing in insertion order and below the sequence's next value.\<close>

definition table_ok :: "'r table \<Rightarrow> bool" where
  "table_ok t \<longleftrightarrow> 0 < tab_next t \<and> sorted_wrt (<) (map fst (tab_rows t))
     \<and> list_all (\<lambda>i. 0 < i \<and> i < tab_next t) (map fst (tab_rows t))"

section \<open>Lemmas on casts\<close>

lemma as_u64_as_i64 [simp]: "as_u64 (as_i64 w) = w"
  by (simp add: as_u64_def as_i64_def)

lemma as_i64_inject [simp]: "as_i64 a = as_i64 b \<longleftrightarrow> a = b"
  by (metis as_u64_as_i64)

lemma as_i64_nonneg:
  assumes "unat w < 2 ^ 63"
  shows "as_i64 w = int (unat w)"
proof -
  have "uint w < 2 ^ 63"
    using assms by (metis of_nat_less_iff of_nat_numeral of_nat_power uint_nat)
  moreover have "- (2 ^ 63) \<le> uint w"
    by (rule order_trans [OF _ uint_ge_0]) simp
  ultimately have "signed_take_bit 63 (uint w) = uint w"
    by (intro signed_take_bit_int_eq_self) auto
  then show ?thesis by (simp add: as_i64_def sint_uint)
qed

lemma unat_saturating_sub: "unat (saturating_sub a b) = unat a - unat b"
  by (auto simp: saturating_sub_def unat_sub word_less_nat_alt word_le_nat_alt)

section \<open>Lemmas on results\<close>

lemma and_then_simps [simp]:
  "and_then (Inl e) f = Inl e"
  "and_then (Inr a) f = f a"
  by (simp_all add: and_then_def)

lemma and_then_Inr_iff [res_simps]:
  "and_then r f = Inr b \<longleftrightarrow> (\<exists>a. r = Inr a \<and> f a = Inr b)"
  by (cases r) auto

lemma map_err_simps [simp]:
  "map_err f (Inl e) = Inl (f e)"
  "map_err f (Inr a) = Inr a"
  by (simp_all add: map_err_def)

lemma map_err_Inr_iff [res_simps]: "map_err f r = Inr a \<longleftrightarrow> r = Inr a"
  by (cases r) auto

lemma map_ok_simps [simp]:
  "map_ok f (Inl e) = Inl e"
  "map_ok f (Inr a) = Inr (f a)"
  by (simp_all add: map_ok_def)

lemma map_ok_Inr_iff [res_simps]: "map_ok f r = Inr b \<longleftrightarrow> (\<exists>a. r = Inr a \<and> b = f a)"
  by (cases r) auto

lemma and_then_Inl_iff [err_simps]:
  "and_then r f = Inl e \<longleftrightarrow> r = Inl e \<or> (\<exists>a. r = Inr a \<and> f a = Inl e)"
  by (cases r) auto

lemma map_err_Inl_iff [err_simps]: "map_err f r = Inl e \<longleftrightarrow> (\<exists>e'. r = Inl e' \<and> e = f e')"
  by (cases r) auto

lemma map_ok_Inl_iff [err_simps]: "map_ok f r = Inl e \<longleftrightarrow> r = Inl e"
  by (cases r) auto

lemma is_ok_simps [simp]: "\<not> is_ok (Inl e)" "is_ok (Inr a)"
  by (simp_all add: is_ok_def)

lemma try_map_length: "try_map f xs = Inr ys \<Longrightarrow> length ys = length xs"
  by (induction xs arbitrary: ys) (auto split: sum.splits)

lemma try_map_total: "(\<And>x. x \<in> set xs \<Longrightarrow> f x = Inr (g x)) \<Longrightarrow> try_map f xs = Inr (map g xs)"
  by (induction xs) auto

text \<open>A loop with early return keeps every property its body keeps.\<close>

lemma try_fold_invariant:
  assumes "try_fold f s xs = Inr s'" and "P s"
    and "\<And>s x s'. x \<in> set xs \<Longrightarrow> P s \<Longrightarrow> f s x = Inr s' \<Longrightarrow> P s'"
  shows "P s'"
  using assms
proof (induction xs arbitrary: s)
  case (Cons x xs)
  then obtain s1 where "f s x = Inr s1" and "try_fold f s1 xs = Inr s'"
    by (auto split: sum.splits)
  with Cons show ?case by (meson list.set_intros)
qed simp

lemma try_fold_append:
  "try_fold f s (xs @ ys) = and_then (try_fold f s xs) (\<lambda>s'. try_fold f s' ys)"
  by (induction xs arbitrary: s) (auto split: sum.splits)

lemma try_fold_snoc:
  "try_fold f s (xs @ [x]) = Inr s' \<longleftrightarrow> (\<exists>s1. try_fold f s xs = Inr s1 \<and> f s1 x = Inr s')"
  by (cases "try_fold f s xs") (auto simp: try_fold_append split: sum.splits)

section \<open>Lemmas on byte encodings\<close>

lemma length_nat_to_le [simp]: "length (nat_to_le n v) = n"
  by (induction n arbitrary: v) auto

lemma length_nat_to_be [simp]: "length (nat_to_be n v) = n"
  by (simp add: nat_to_be_def)

lemma unat_u8_bound: "unat (b :: u8) < 256"
  by (rule order_less_le_trans [OF unsigned_less]) simp

lemma le_to_nat_bound: "le_to_nat bs < 256 ^ length bs"
proof (induction bs)
  case Nil
  then show ?case by simp
next
  case (Cons b bs)
  have "unat b < 256" by (rule unat_u8_bound)
  with Cons.IH show ?case by simp
qed

lemma le_to_nat_nat_to_le: "le_to_nat (nat_to_le n v) = v mod 256 ^ n"
proof (induction n arbitrary: v)
  case 0
  then show ?case by simp
next
  case (Suc n)
  have "unat (word_of_nat (v mod 256) :: u8) = v mod 256"
    by (simp add: unat_of_nat take_bit_eq_mod)
  with Suc show ?case by (simp add: mod_mult2_eq mult.commute)
qed

lemma nat_to_le_le_to_nat: "nat_to_le (length bs) (le_to_nat bs) = bs"
proof (induction bs)
  case Nil
  then show ?case by simp
next
  case (Cons b bs)
  have b: "unat b < 256" by (rule unat_u8_bound)
  then have "(unat b + 256 * le_to_nat bs) mod 256 = unat b"
    and "(unat b + 256 * le_to_nat bs) div 256 = le_to_nat bs" by simp_all
  with Cons.IH show ?case by simp
qed

lemma be_to_nat_nat_to_be: "be_to_nat (nat_to_be n v) = v mod 256 ^ n"
  by (simp add: be_to_nat_def nat_to_be_def le_to_nat_nat_to_le)

lemma nat_to_be_be_to_nat: "nat_to_be (length bs) (be_to_nat bs) = bs"
  using nat_to_le_le_to_nat [of "rev bs"] by (simp add: be_to_nat_def nat_to_be_def)

lemma le_to_nat_append: "le_to_nat (xs @ ys) = le_to_nat xs + 256 ^ length xs * le_to_nat ys"
  by (induction xs) (auto simp: algebra_simps)

lemma be_to_nat_Cons: "be_to_nat (b # bs) = unat b * 256 ^ length bs + be_to_nat bs"
  by (simp add: be_to_nat_def le_to_nat_append)

lemma be_to_nat_bound: "be_to_nat bs < 256 ^ length bs"
  using le_to_nat_bound [of "rev bs"] by (simp add: be_to_nat_def)

lemma slice_get_Some:
  "i + n \<le> length xs \<Longrightarrow> slice_get xs i (i + n) = Some (take n (drop i xs))"
  by (simp add: slice_get_def)

lemma slice_get_append:
  "length xs = i \<Longrightarrow> length ys = n \<Longrightarrow> slice_get (xs @ ys @ zs) i (i + n) = Some ys"
  by (simp add: slice_get_def)

section \<open>Lemmas on tables\<close>

lemma table_ok_empty [simp]: "table_ok empty_table"
  by (simp add: table_ok_def empty_table_def)

lemma insert_row_simps [table_simps]:
  "fst (insert_row r t) = tab_next t"
  "tab_next (snd (insert_row r t)) = tab_next t + 1"
  "tab_rows (snd (insert_row r t)) = tab_rows t @ [(tab_next t, r)]"
  by (simp_all add: insert_row_def)

lemma table_ok_insert_row: "table_ok t \<Longrightarrow> table_ok (snd (insert_row r t))"
  by (auto simp: table_ok_def insert_row_def sorted_wrt_append list_all_iff)

lemma table_ok_update_where: "table_ok t \<Longrightarrow> table_ok (snd (update_where p f t))"
proof -
  have "map fst (tab_rows (snd (update_where p f t))) = map fst (tab_rows t)"
    by (auto simp: update_where_def)
  moreover have "tab_next (snd (update_where p f t)) = tab_next t"
    by (simp add: update_where_def)
  ultimately show "table_ok t \<Longrightarrow> table_ok (snd (update_where p f t))"
    by (simp only: table_ok_def)
qed

lemma table_ids_insert_row [table_simps]:
  "table_ids (snd (insert_row r t)) = insert (tab_next t) (table_ids t)"
  by (auto simp: table_ids_def insert_row_def)

lemma table_ids_update_where [table_simps]: "table_ids (snd (update_where p f t)) = table_ids t"
  by (force simp: table_ids_def update_where_def image_iff)

lemma table_ids_fresh: "table_ok t \<Longrightarrow> tab_next t \<notin> table_ids t"
  by (auto simp: table_ok_def table_ids_def list_all_iff)

lemma row_by_id_None: "row_by_id t i = None \<longleftrightarrow> i \<notin> table_ids t"
  by (simp add: row_by_id_def table_ids_def map_of_eq_None_iff)

lemma row_by_id_insert_row:
  assumes "table_ok t"
  shows "row_by_id (snd (insert_row r t)) = (row_by_id t)(tab_next t \<mapsto> r)"
proof
  fix i
  have "map_of (tab_rows t) (tab_next t) = None"
    using table_ids_fresh [OF assms] by (simp add: row_by_id_None [symmetric] row_by_id_def)
  then show "row_by_id (snd (insert_row r t)) i = ((row_by_id t)(tab_next t \<mapsto> r)) i"
    by (auto simp: row_by_id_def insert_row_def map_of_append map_add_def split: option.splits)
qed

section \<open>The contract of a table, and what multi-row inserts promise\<close>

text \<open>
  What the storage code relies on when it inserts rows and keeps the returned ids: the
  id is fresh, the new row is found under it, and every other row stays as it is.
\<close>

locale id_table =
  fixes ins :: "'r \<Rightarrow> 't \<Rightarrow> i64 \<times> 't"
    and look :: "'t \<Rightarrow> i64 \<Rightarrow> 'r option"
    and ok :: "'t \<Rightarrow> bool"
  assumes ins_ok: "ok t \<Longrightarrow> ok (snd (ins r t))"
    and ins_fresh: "ok t \<Longrightarrow> look t (fst (ins r t)) = None"
    and ins_look: "ok t \<Longrightarrow> look (snd (ins r t)) = (look t)(fst (ins r t) \<mapsto> r)"
begin

fun ins_all :: "'r list \<Rightarrow> 't \<Rightarrow> i64 list \<times> 't" where
  "ins_all [] t = ([], t)"
| "ins_all (r # rs) t = (let (i, t1) = ins r t; (is, t2) = ins_all rs t1 in (i # is, t2))"

lemma ins_all_ok: "ok t \<Longrightarrow> ok (snd (ins_all rs t))"
proof (induction rs arbitrary: t)
  case (Cons r rs)
  from Cons.prems have "ok (snd (ins r t))" by (rule ins_ok)
  then show ?case using Cons.IH by (auto simp: split_def Let_def)
qed simp

lemma ins_all_length: "length (fst (ins_all rs t)) = length rs"
  by (induction rs arbitrary: t) (auto simp: split_def Let_def)

lemma ins_all_keeps: "ok t \<Longrightarrow> look t i = Some r \<Longrightarrow> look (snd (ins_all rs t)) i = Some r"
proof (induction rs arbitrary: t)
  case (Cons r' rs)
  have "look (snd (ins r' t)) i = Some r"
    using Cons.prems ins_look [of t r'] ins_fresh [of t r'] by auto
  then show ?case using Cons ins_ok by (auto simp: split_def Let_def)
qed simp

lemma ins_all_fresh: "ok t \<Longrightarrow> i \<in> set (fst (ins_all rs t)) \<Longrightarrow> look t i = None"
proof (induction rs arbitrary: t)
  case (Cons r rs)
  show ?case
  proof (cases "i = fst (ins r t)")
    case True
    then show ?thesis using ins_fresh [OF Cons.prems(1)] by simp
  next
    case False
    then have "i \<in> set (fst (ins_all rs (snd (ins r t))))"
      using Cons.prems(2) by (auto simp: split_def Let_def)
    then have "look (snd (ins r t)) i = None"
      using Cons.IH ins_ok [OF Cons.prems(1)] by blast
    then show ?thesis using False ins_look [OF Cons.prems(1)] by simp
  qed
qed simp

lemma ins_all_look:
  "ok t \<Longrightarrow> k < length rs \<Longrightarrow> look (snd (ins_all rs t)) (fst (ins_all rs t) ! k) = Some (rs ! k)"
proof (induction rs arbitrary: t k)
  case (Cons r rs)
  have ok1: "ok (snd (ins r t))" using Cons.prems(1) by (rule ins_ok)
  show ?case
  proof (cases k)
    case 0
    have "look (snd (ins r t)) (fst (ins r t)) = Some r"
      using ins_look [OF Cons.prems(1)] by simp
    then show ?thesis using 0 ins_all_keeps [OF ok1] by (simp add: split_def Let_def)
  next
    case (Suc k')
    then show ?thesis using Cons.IH [OF ok1, of k'] Cons.prems(2) by (simp add: split_def Let_def)
  qed
qed simp

end

interpretation tab: id_table insert_row row_by_id table_ok
proof unfold_locales
  show "table_ok t \<Longrightarrow> table_ok (snd (insert_row r t))" for t :: "'a table" and r
    by (rule table_ok_insert_row)
  show "table_ok t \<Longrightarrow> row_by_id t (fst (insert_row r t)) = None" for t :: "'a table" and r
    by (simp add: row_by_id_None insert_row_simps table_ids_fresh)
  show "table_ok t \<Longrightarrow>
      row_by_id (snd (insert_row r t)) = (row_by_id t)(fst (insert_row r t) \<mapsto> r)"
    for t :: "'a table" and r
    by (simp add: row_by_id_insert_row insert_row_simps)
qed

lemma insert_rows_ins_all: "insert_rows rs t = tab.ins_all rs t"
  by (induction rs arbitrary: t) (auto simp: split_def Let_def)

lemma insert_rows_length: "length (fst (insert_rows rs t)) = length rs"
  by (simp add: insert_rows_ins_all tab.ins_all_length)

lemma table_ok_insert_rows: "table_ok t \<Longrightarrow> table_ok (snd (insert_rows rs t))"
  by (simp add: insert_rows_ins_all tab.ins_all_ok)

lemma insert_rows_look:
  "table_ok t \<Longrightarrow> k < length rs \<Longrightarrow>
     row_by_id (snd (insert_rows rs t)) (fst (insert_rows rs t) ! k) = Some (rs ! k)"
  by (simp add: insert_rows_ins_all tab.ins_all_look)

lemma insert_rows_eq:
  "fst (insert_rows rs t) = map (\<lambda>k. tab_next t + int k) [0..<length rs]
   \<and> tab_rows (snd (insert_rows rs t)) = tab_rows t @ zip (fst (insert_rows rs t)) rs
   \<and> tab_next (snd (insert_rows rs t)) = tab_next t + int (length rs)"
proof (induction rs arbitrary: t)
  case (Cons r rs)
  have "map (\<lambda>k. tab_next t + int k) [0..<length (r # rs)]
      = tab_next t # map (\<lambda>k. tab_next t + 1 + int k) [0..<length rs]"
    by (subst upt_conv_Cons) (auto simp: map_Suc_upt [symmetric] simp del: upt_Suc)
  with Cons [of "snd (insert_row r t)"] show ?case
    by (auto simp: split_def Let_def insert_row_simps simp del: upt_Suc)
qed simp

lemma insert_rows_rows:
  "tab_rows (snd (insert_rows rs t)) = tab_rows t @ zip (fst (insert_rows rs t)) rs"
  using insert_rows_eq by blast

end
