(* ===== verification/Common_Domain.thy ===== *)
theory Common_Domain
  imports Prelude
begin

text \<open>
  The domain types of \<^verbatim>\<open>indexer-common\<close>: protocol, ledger and node versions
  (\<^verbatim>\<open>domain/protocol_version.rs\<close>), fixed-size byte arrays (\<^verbatim>\<open>domain/bytes.rs\<close>), timestamps,
  ledger events with their contract-event payloads and the fields indexed for them
  (\<^verbatim>\<open>domain.rs\<close>), dust data (\<^verbatim>\<open>domain/dust.rs\<close>), bridge events (\<^verbatim>\<open>domain/bridge.rs\<close>), and the
  big-endian column encoding of \<^verbatim>\<open>u128\<close> amounts (\<^verbatim>\<open>infra/sqlx.rs\<close>). A \<^verbatim>\<open>String\<close> is the list of
  its UTF-8 bytes, a \<^verbatim>\<open>ByteArray<N>\<close> or \<^verbatim>\<open>ByteVec\<close> the list of its bytes.
\<close>

section \<open>Versions\<close>

datatype ledger_version = LV8 | LV9

datatype node_version = NV0_22 | NV1_0 | NV2_0 | NV2_1

datatype protocol_version = V0_22 u32 | V1_0 u32 | V2_0 u32 | V2_1 u32

datatype protocol_version_error = ScaleDecode | Unsupported u32 | TryFromI64 i64

definition OLDEST :: ledger_version where "OLDEST = LV8"

definition LATEST :: ledger_version where "LATEST = LV9"

fun pv_ledger_version :: "protocol_version \<Rightarrow> ledger_version" where
  "pv_ledger_version (V0_22 _) = LV8"
| "pv_ledger_version (V1_0 _) = LV8"
| "pv_ledger_version (V2_0 _) = LV9"
| "pv_ledger_version (V2_1 _) = LV9"

fun pv_node_version :: "protocol_version \<Rightarrow> node_version" where
  "pv_node_version (V0_22 _) = NV0_22"
| "pv_node_version (V1_0 _) = NV1_0"
| "pv_node_version (V2_0 _) = NV2_0"
| "pv_node_version (V2_1 _) = NV2_1"

fun u32_from :: "protocol_version \<Rightarrow> u32" where
  "u32_from (V0_22 n) = n"
| "u32_from (V1_0 n) = n"
| "u32_from (V2_0 n) = n"
| "u32_from (V2_1 n) = n"

definition into_i64 :: "protocol_version \<Rightarrow> i64" where
  "into_i64 v = int (unat (u32_from v))"

definition try_from_u32 :: "u32 \<Rightarrow> protocol_version_error + protocol_version" where
  "try_from_u32 version =
     (if 22000 \<le> version \<and> version < 23000 then Inr (V0_22 version)
      else if 1000000 \<le> version \<and> version < 1001000 then Inr (V1_0 version)
      else if 2000000 \<le> version \<and> version < 2001000 then Inr (V2_0 version)
      else if 2001000 \<le> version \<and> version < 2002000 then Inr (V2_1 version)
      else Inl (Unsupported version))"

text \<open>\<open>decode_u32\<close> is \<^verbatim>\<open>parity_scale_codec\<close>'s \<^verbatim>\<open>u32::decode\<close>.\<close>

definition try_from_bytes ::
  "(bytes \<Rightarrow> u32 option) \<Rightarrow> bytes \<Rightarrow> protocol_version_error + protocol_version" where
  "try_from_bytes decode_u32 bs =
     (case decode_u32 bs of None \<Rightarrow> Inl ScaleDecode | Some version \<Rightarrow> try_from_u32 version)"

definition try_from_i64 :: "i64 \<Rightarrow> protocol_version_error + protocol_version" where
  "try_from_i64 version =
     (if 0 \<le> version \<and> version < 2 ^ 32 then try_from_u32 (word_of_int version)
      else Inl (TryFromI64 version))"

section \<open>Byte arrays and timestamps\<close>

datatype byte_array_len_error = ByteArrayLenError nat nat

text \<open>\<^verbatim>\<open>ByteArray::<N>::try_from(&[u8])\<close>.\<close>

definition byte_array_try_from :: "nat \<Rightarrow> bytes \<Rightarrow> byte_array_len_error + bytes" where
  "byte_array_try_from n bs =
     (if length bs = n then Inr bs else Inl (ByteArrayLenError n (length bs)))"

text \<open>\<^verbatim>\<open>ByteArray::default()\<close>: \<open>N\<close> zero bytes.\<close>

definition byte_array_default :: "nat \<Rightarrow> bytes" where
  "byte_array_default n = replicate n 0"

definition to_ms :: "u64 \<Rightarrow> u64" where
  "to_ms secs = secs * 1000"

definition elapsed_seconds_since :: "u64 \<Rightarrow> u64 \<Rightarrow> u64" where
  "elapsed_seconds_since self earlier = saturating_sub self earlier div 1000"

text \<open>\<^verbatim>\<open>U128BeBytes\<close>, the 16-byte column value of a \<^verbatim>\<open>u128\<close>, in both directions.\<close>

definition U128BeBytes :: "u128 \<Rightarrow> bytes" where
  "U128BeBytes v = nat_to_be 16 (unat v)"

definition u128_from_be_bytes :: "bytes \<Rightarrow> u128" where
  "u128_from_be_bytes bs = word_of_nat (be_to_nat bs)"

section \<open>Transactions, contract actions and UTXOs\<close>

datatype transaction_result = Success | PartialSuccess "(u16 \<times> bool) list" | Failure

datatype transaction_variant = RegularVariant | SystemVariant

datatype contract_attributes = Deploy | Call bytes | Update

record contract_balance =
  cb_token_type :: bytes
  cb_amount :: u128

record unshielded_utxo =
  utxo_owner :: bytes
  utxo_token_type :: bytes
  utxo_value :: u128
  utxo_intent_hash :: bytes
  utxo_output_index :: u32
  utxo_ctime :: "u64 option"
  utxo_initial_nonce :: bytes
  utxo_registered_for_dust_generation :: bool

section \<open>Dust\<close>

record qualified_dust_output =
  qdo_initial_value :: u128
  qdo_owner :: bytes
  qdo_nonce :: bytes
  qdo_seq :: u32
  qdo_ctime :: u64
  qdo_backing_night :: bytes
  qdo_mt_index :: u64

record dust_generation_info =
  dgi_night_utxo_hash :: bytes
  dgi_value :: u128
  dgi_owner :: bytes
  dgi_nonce :: bytes
  dgi_ctime :: u64
  dgi_dtime :: u64

section \<open>Ledger events\<close>

datatype ledger_event_grouping = Zswap | Dust | Contract

datatype address_or_contract = User bytes | ContractAddress bytes

text \<open>Field order as in the source; \<open>u32\<close> is the version, the first \<open>bytes\<close> the entry point.\<close>

datatype ledger_event_attributes =
    ZswapInput bytes
  | ZswapOutput
  | ParamChange
  | DustInitialUtxo qualified_dust_output dust_generation_info u64
  | DustGenerationDtimeUpdate dust_generation_info u64 bytes
  | DustSpendProcessed bytes bytes
  | ContractShieldedSpend u32 bytes bytes
  | ContractShieldedReceive u32 bytes bytes "bytes option" "bytes option"
  | ContractShieldedMint u32 bytes bytes bytes "string option"
  | ContractShieldedBurn u32 bytes bytes "string option"
  | ContractUnshieldedSpend u32 bytes address_or_contract bytes bytes string
  | ContractUnshieldedReceive u32 bytes address_or_contract bytes bytes string
  | ContractUnshieldedMint u32 bytes bytes bytes string
  | ContractUnshieldedBurn u32 bytes address_or_contract bytes string
  | ContractPaused u32 bytes
  | ContractUnpaused u32 bytes
  | ContractMisc u32 bytes bytes bytes

record ledger_event =
  le_grouping :: ledger_event_grouping
  le_raw :: bytes
  le_attributes :: ledger_event_attributes
  le_contract_action_id :: "u64 option"
  le_contract_address :: "bytes option"

definition zswap_input :: "bytes \<Rightarrow> bytes \<Rightarrow> ledger_event" where
  "zswap_input raw nullifier =
     \<lparr>le_grouping = Zswap, le_raw = raw, le_attributes = ZswapInput nullifier,
      le_contract_action_id = None, le_contract_address = None\<rparr>"

definition zswap_output :: "bytes \<Rightarrow> ledger_event" where
  "zswap_output raw =
     \<lparr>le_grouping = Zswap, le_raw = raw, le_attributes = ZswapOutput,
      le_contract_action_id = None, le_contract_address = None\<rparr>"

definition param_change :: "bytes \<Rightarrow> ledger_event" where
  "param_change raw =
     \<lparr>le_grouping = Dust, le_raw = raw, le_attributes = ParamChange,
      le_contract_action_id = None, le_contract_address = None\<rparr>"

definition dust_initial_utxo ::
  "bytes \<Rightarrow> qualified_dust_output \<Rightarrow> dust_generation_info \<Rightarrow> u64 \<Rightarrow> ledger_event" where
  "dust_initial_utxo raw output generation_info generation_index =
     \<lparr>le_grouping = Dust, le_raw = raw,
      le_attributes = DustInitialUtxo output generation_info generation_index,
      le_contract_action_id = None, le_contract_address = None\<rparr>"

definition dust_generation_dtime_update ::
  "bytes \<Rightarrow> dust_generation_info \<Rightarrow> u64 \<Rightarrow> bytes \<Rightarrow> ledger_event" where
  "dust_generation_dtime_update raw generation_info generation_index tree_insertion_path =
     \<lparr>le_grouping = Dust, le_raw = raw,
      le_attributes = DustGenerationDtimeUpdate generation_info generation_index tree_insertion_path,
      le_contract_action_id = None, le_contract_address = None\<rparr>"

definition dust_spend_processed :: "bytes \<Rightarrow> bytes \<Rightarrow> bytes \<Rightarrow> ledger_event" where
  "dust_spend_processed raw nullifier commitment =
     \<lparr>le_grouping = Dust, le_raw = raw, le_attributes = DustSpendProcessed nullifier commitment,
      le_contract_action_id = None, le_contract_address = None\<rparr>"

definition contract_event ::
  "bytes \<Rightarrow> bytes \<Rightarrow> u64 option \<Rightarrow> ledger_event_attributes \<Rightarrow> ledger_event" where
  "contract_event raw contract_address contract_action_id attributes =
     \<lparr>le_grouping = Contract, le_raw = raw, le_attributes = attributes,
      le_contract_action_id = contract_action_id, le_contract_address = Some contract_address\<rparr>"

fun to_bytes :: "address_or_contract \<Rightarrow> bytes" where
  "to_bytes (User bs) = bs"
| "to_bytes (ContractAddress bs) = bs"

primrec contract_entry_point :: "ledger_event_attributes \<Rightarrow> bytes option" where
  "contract_entry_point (ContractShieldedSpend _ ep _) = Some ep"
| "contract_entry_point (ContractShieldedReceive _ ep _ _ _) = Some ep"
| "contract_entry_point (ContractShieldedMint _ ep _ _ _) = Some ep"
| "contract_entry_point (ContractShieldedBurn _ ep _ _) = Some ep"
| "contract_entry_point (ContractUnshieldedSpend _ ep _ _ _ _) = Some ep"
| "contract_entry_point (ContractUnshieldedReceive _ ep _ _ _ _) = Some ep"
| "contract_entry_point (ContractUnshieldedMint _ ep _ _ _) = Some ep"
| "contract_entry_point (ContractUnshieldedBurn _ ep _ _ _) = Some ep"
| "contract_entry_point (ContractPaused _ ep) = Some ep"
| "contract_entry_point (ContractUnpaused _ ep) = Some ep"
| "contract_entry_point (ContractMisc _ ep _ _) = Some ep"
| "contract_entry_point (ZswapInput _) = None"
| "contract_entry_point ZswapOutput = None"
| "contract_entry_point ParamChange = None"
| "contract_entry_point (DustInitialUtxo _ _ _) = None"
| "contract_entry_point (DustGenerationDtimeUpdate _ _ _) = None"
| "contract_entry_point (DustSpendProcessed _ _) = None"

primrec indexable_fields :: "ledger_event_attributes \<Rightarrow> (string \<times> bytes) list" where
  "indexable_fields (ContractShieldedSpend _ _ nullifier) = [(''nullifier'', nullifier)]"
| "indexable_fields (ContractShieldedReceive _ _ commitment ciphertext _) =
     (''commitment'', commitment) #
     (case ciphertext of None \<Rightarrow> [] | Some c \<Rightarrow> [(''ciphertext'', c)])"
| "indexable_fields (ContractShieldedMint _ _ commitment domain_sep _) =
     [(''commitment'', commitment), (''domainSep'', domain_sep)]"
| "indexable_fields (ContractShieldedBurn _ _ nullifier _) = [(''nullifier'', nullifier)]"
| "indexable_fields (ContractUnshieldedSpend _ _ sender domain_sep token_type _) =
     [(''sender'', to_bytes sender), (''domainSep'', domain_sep), (''tokenType'', token_type)]"
| "indexable_fields (ContractUnshieldedReceive _ _ recipient domain_sep token_type _) =
     [(''recipient'', to_bytes recipient), (''domainSep'', domain_sep), (''tokenType'', token_type)]"
| "indexable_fields (ContractUnshieldedMint _ _ domain_sep token_type _) =
     [(''domainSep'', domain_sep), (''tokenType'', token_type)]"
| "indexable_fields (ContractUnshieldedBurn _ _ sender token_type _) =
     [(''sender'', to_bytes sender), (''tokenType'', token_type)]"
| "indexable_fields (ContractPaused _ _) = []"
| "indexable_fields (ContractUnpaused _ _) = []"
| "indexable_fields (ContractMisc _ _ _ _) = []"
| "indexable_fields (ZswapInput _) = []"
| "indexable_fields ZswapOutput = []"
| "indexable_fields ParamChange = []"
| "indexable_fields (DustInitialUtxo _ _ _) = []"
| "indexable_fields (DustGenerationDtimeUpdate _ _ _) = []"
| "indexable_fields (DustSpendProcessed _ _) = []"

definition indexable_contract_fields :: "ledger_event \<Rightarrow> (string \<times> bytes) list" where
  "indexable_contract_fields e = indexable_fields (le_attributes e)"

definition INDEXABLE_CONTRACT_FIELD_NAMES :: "string list" where
  "INDEXABLE_CONTRACT_FIELD_NAMES =
     [''nullifier'', ''commitment'', ''ciphertext'', ''domainSep'', ''tokenType'', ''sender'',
      ''recipient'']"

section \<open>Bridge events\<close>

datatype bridge_recipient_error = TooLong nat nat

definition BRIDGE_RECIPIENT_MAX_BYTES :: nat where
  "BRIDGE_RECIPIENT_MAX_BYTES = 32"

definition bridge_recipient_new :: "bytes \<Rightarrow> bridge_recipient_error + bytes" where
  "bridge_recipient_new bs =
     (if BRIDGE_RECIPIENT_MAX_BYTES < length bs
      then Inl (TooLong BRIDGE_RECIPIENT_MAX_BYTES (length bs)) else Inr bs)"

datatype bridge_event_variant =
    UserTransferVariant | ReserveTransferVariant | InvalidTransferVariant
  | UnapprovedTransferVariant | SubminimalFlushTransferVariant

datatype bridge_event =
    UserTransfer bytes u64 bytes bytes
  | ReserveTransfer bytes u64 bytes
  | InvalidTransfer bytes u64 bytes
  | UnapprovedTransfer bytes u64 bytes bytes
  | SubminimalFlushTransfer u64 u32 bytes

fun be_variant :: "bridge_event \<Rightarrow> bridge_event_variant" where
  "be_variant (UserTransfer _ _ _ _) = UserTransferVariant"
| "be_variant (ReserveTransfer _ _ _) = ReserveTransferVariant"
| "be_variant (InvalidTransfer _ _ _) = InvalidTransferVariant"
| "be_variant (UnapprovedTransfer _ _ _ _) = UnapprovedTransferVariant"
| "be_variant (SubminimalFlushTransfer _ _ _) = SubminimalFlushTransferVariant"

fun be_mc_tx_hash :: "bridge_event \<Rightarrow> bytes option" where
  "be_mc_tx_hash (UserTransfer h _ _ _) = Some h"
| "be_mc_tx_hash (ReserveTransfer h _ _) = Some h"
| "be_mc_tx_hash (InvalidTransfer h _ _) = Some h"
| "be_mc_tx_hash (UnapprovedTransfer h _ _ _) = Some h"
| "be_mc_tx_hash (SubminimalFlushTransfer _ _ _) = None"

fun be_recipient :: "bridge_event \<Rightarrow> bytes option" where
  "be_recipient (UserTransfer _ _ r _) = Some r"
| "be_recipient (UnapprovedTransfer _ _ r _) = Some r"
| "be_recipient _ = None"

fun be_amount :: "bridge_event \<Rightarrow> u64" where
  "be_amount (UserTransfer _ a _ _) = a"
| "be_amount (ReserveTransfer _ a _) = a"
| "be_amount (InvalidTransfer _ a _) = a"
| "be_amount (UnapprovedTransfer _ a _ _) = a"
| "be_amount (SubminimalFlushTransfer a _ _) = a"

fun be_midnight_tx_hash :: "bridge_event \<Rightarrow> bytes" where
  "be_midnight_tx_hash (UserTransfer _ _ _ m) = m"
| "be_midnight_tx_hash (ReserveTransfer _ _ m) = m"
| "be_midnight_tx_hash (InvalidTransfer _ _ m) = m"
| "be_midnight_tx_hash (UnapprovedTransfer _ _ _ m) = m"
| "be_midnight_tx_hash (SubminimalFlushTransfer _ _ m) = m"

record bridge_claim =
  bc_recipient :: bytes
  bc_amount :: u128

section \<open>Properties\<close>

lemma try_from_u32_u32_from: "try_from_u32 v = Inr p \<Longrightarrow> u32_from p = v"
  by (auto simp: try_from_u32_def split: if_splits)

lemma try_from_i64_into_i64_eq:
  "try_from_i64 (into_i64 p) = try_from_u32 (u32_from p)"
proof -
  have "unat (u32_from p) < 2 ^ 32"
    by (rule order_less_le_trans [OF unsigned_less]) simp
  then have "int (unat (u32_from p)) < 2 ^ 32"
    by (metis of_nat_less_iff of_nat_numeral of_nat_power)
  moreover have "(word_of_int (int (unat (u32_from p))) :: u32) = u32_from p"
    by simp
  ultimately show ?thesis by (simp add: try_from_i64_def into_i64_def)
qed

lemma indexable_fields_names:
  "(n, v) \<in> set (indexable_fields a) \<Longrightarrow> n \<in> set INDEXABLE_CONTRACT_FIELD_NAMES"
  by (cases a) (auto simp: INDEXABLE_CONTRACT_FIELD_NAMES_def split: option.splits)

lemma indexable_fields_contract:
  "contract_entry_point a = None \<Longrightarrow> indexable_fields a = []"
  by (cases a) auto

lemma U128BeBytes_length: "length (U128BeBytes v) = 16"
  by (simp add: U128BeBytes_def)

lemma u128_bound: "unat (v :: u128) < 256 ^ 16"
  by (rule order_less_le_trans [OF unsigned_less]) simp

lemma u128_from_be_bytes_inverse: "u128_from_be_bytes (U128BeBytes v) = v"
  using u128_bound [of v] by (simp add: u128_from_be_bytes_def U128BeBytes_def be_to_nat_nat_to_be)

text \<open>
  A \<^verbatim>\<open>BYTEA\<close> or \<^verbatim>\<open>BLOB\<close> column compares byte by byte. On equal-length big-endian
  encodings that is the comparison of the numbers.
\<close>

fun bytes_less :: "bytes \<Rightarrow> bytes \<Rightarrow> bool" where
  "bytes_less [] [] = False"
| "bytes_less [] (_ # _) = True"
| "bytes_less (_ # _) [] = False"
| "bytes_less (a # as) (b # bs) = (if a = b then bytes_less as bs else a < b)"

lemma bytes_less_be_to_nat:
  "length as = length bs \<Longrightarrow> bytes_less as bs \<longleftrightarrow> be_to_nat as < be_to_nat bs"
proof (induction as bs rule: bytes_less.induct)
  case (4 a as b bs)
  then have len: "length as = length bs" by simp
  let ?M = "(256::nat) ^ length bs"
  have la: "be_to_nat as < ?M" and lb: "be_to_nat bs < ?M"
    using be_to_nat_bound [of as] be_to_nat_bound [of bs] len by simp_all
  show ?case
  proof (cases "a = b")
    case True
    with 4 len show ?thesis by (simp add: be_to_nat_Cons)
  next
    case False
    have "unat a * ?M + be_to_nat as < unat b * ?M + be_to_nat bs \<longleftrightarrow> unat a < unat b"
    proof (cases "unat a < unat b")
      case True
      then have "(unat a + 1) * ?M \<le> unat b * ?M" by (intro mult_le_mono1) simp
      with True la show ?thesis by simp
    next
      case ge: False
      with \<open>a \<noteq> b\<close> have "unat b + 1 \<le> unat a"
        by (metis Suc_eq_plus1 Suc_leI nat_neq_iff word_unat_eq_iff)
      then have "(unat b + 1) * ?M \<le> unat a * ?M" by (intro mult_le_mono1)
      with ge lb show ?thesis by simp
    qed
    with False len show ?thesis by (simp add: be_to_nat_Cons word_less_nat_alt)
  qed
qed (simp_all add: be_to_nat_def)

text \<open>
  Decoding a stored protocol version gives back the version it was stored from:
  \<^verbatim>\<open>into_i64\<close> followed by \<^verbatim>\<open>TryFrom<i64>\<close> is the identity on every version that
  \<^verbatim>\<open>TryFrom<u32>\<close> accepts, and the accepted version carries the number it was made from.
\<close>

theorem protocol_version_roundtrip:
  "try_from_u32 v = Inr p \<Longrightarrow> u32_from p = v \<and> try_from_i64 (into_i64 p) = Inr p"
  by (simp add: try_from_u32_u32_from try_from_i64_into_i64_eq)

theorem protocol_version_roundtrip_witness:
  "try_from_u32 2001000 = Inr (V2_1 2001000) \<and> u32_from (V2_1 2001000) = 2001000
   \<and> try_from_i64 (into_i64 (V2_1 2001000)) = Inr (V2_1 2001000)"
proof -
  have h: "try_from_u32 2001000 = Inr (V2_1 2001000)" by (simp add: try_from_u32_def)
  show ?thesis using h protocol_version_roundtrip [OF h] by blast
qed

text \<open>
  The column encoding of \<^verbatim>\<open>u128\<close> amounts is 16 bytes long, is inverted by the
  decoder, and orders the encoded amounts as the numbers are ordered.
\<close>

theorem u128_column_roundtrip:
  "u128_from_be_bytes (U128BeBytes v) = v \<and> length (U128BeBytes v) = 16
   \<and> bytes_less (U128BeBytes v) (U128BeBytes w) = (v < w)"
proof -
  have "bytes_less (U128BeBytes v) (U128BeBytes w) = (unat v < unat w)"
    using u128_bound [of v] u128_bound [of w]
    by (simp add: bytes_less_be_to_nat U128BeBytes_def be_to_nat_nat_to_be)
  then show ?thesis
    by (simp add: u128_from_be_bytes_inverse U128BeBytes_length word_less_nat_alt)
qed

text \<open>
  Only contract events have indexed fields, and every field name they emit is one
  of the names the contract-events field filter accepts.
\<close>

theorem indexable_fields_closed:
  "fst ` set (indexable_contract_fields e) \<subseteq> set INDEXABLE_CONTRACT_FIELD_NAMES
   \<and> (contract_entry_point (le_attributes e) = None \<longrightarrow> indexable_contract_fields e = [])"
  using indexable_fields_names indexable_fields_contract
  by (force simp: indexable_contract_fields_def)

theorem indexable_fields_closed_witness:
  "contract_entry_point (le_attributes (zswap_input [1] [2])) = None
   \<and> indexable_contract_fields (zswap_input [1] [2]) = []"
proof -
  have h: "contract_entry_point (le_attributes (zswap_input [1] [2])) = None"
    by (simp add: zswap_input_def)
  show ?thesis using h indexable_fields_closed [of "zswap_input [1] [2]"] by blast
qed

end
