(* ===== verification/Event_Decoder.thy ===== *)
theory Event_Decoder
  imports Common_Domain
begin

text \<open>
  Decoding of contract log items into contract events, \<^verbatim>\<open>make_contract_event_attributes\<close> and
  its helpers in \<^verbatim>\<open>indexer-common/src/domain/ledger/ledger_state.rs\<close>. The wire format that
  the comments of that function document (fixed-width fields, the trailing zero bytes of the
  atom stripped) is stated as an encoder, and the decoder is proved to invert it.
\<close>

section \<open>The decoder\<close>

datatype log_event_type =
    ShieldedSpend | ShieldedReceive | ShieldedMint | ShieldedBurn
  | UnshieldedSpend | UnshieldedReceive | UnshieldedMint | UnshieldedBurn
  | Paused | Unpaused | Misc

text \<open>
  A \<^verbatim>\<open>StateValue\<close> of the ledger as far as the decoder looks at it: a \<^verbatim>\<open>Cell\<close> holds the atoms
  (byte strings) of its aligned value, every other variant is rejected.
\<close>

datatype state_value = Cell "bytes list" | OtherStateValue

record versioned_log_item =
  vli_version :: u32
  vli_event_type :: log_event_type
  vli_data :: state_value

abbreviation SHIELDED_SPEND_SIZE :: nat where "SHIELDED_SPEND_SIZE \<equiv> 32"
abbreviation SHIELDED_RECEIVE_SIZE :: nat where "SHIELDED_RECEIVE_SIZE \<equiv> 578"
abbreviation SHIELDED_MINT_SIZE :: nat where "SHIELDED_MINT_SIZE \<equiv> 81"
abbreviation SHIELDED_BURN_SIZE :: nat where "SHIELDED_BURN_SIZE \<equiv> 49"
abbreviation UNSHIELDED_SPEND_SIZE :: nat where "UNSHIELDED_SPEND_SIZE \<equiv> 145"
abbreviation UNSHIELDED_RECEIVE_SIZE :: nat where "UNSHIELDED_RECEIVE_SIZE \<equiv> 145"
abbreviation UNSHIELDED_MINT_SIZE :: nat where "UNSHIELDED_MINT_SIZE \<equiv> 80"
abbreviation UNSHIELDED_BURN_SIZE :: nat where "UNSHIELDED_BURN_SIZE \<equiv> 113"
abbreviation MISC_SIZE :: nat where "MISC_SIZE \<equiv> 288"
abbreviation BYTES_32_SIZE :: nat where "BYTES_32_SIZE \<equiv> 32"
abbreviation UINT_128_SIZE :: nat where "UINT_128_SIZE \<equiv> 16"
abbreviation EITHER_SIZE :: nat where "EITHER_SIZE \<equiv> 65"
abbreviation MAYBE_512_SIZE :: nat where "MAYBE_512_SIZE \<equiv> 513"

text \<open>\<^verbatim>\<open>u128::to_string\<close>: the decimal digits.\<close>

fun nat_to_string :: "nat \<Rightarrow> string" where
  "nat_to_string n =
     (if n < 10 then [char_of (48 + n)] else nat_to_string (n div 10) @ [char_of (48 + n mod 10)])"

declare nat_to_string.simps [simp del]

definition unwrap_or :: "'a option \<Rightarrow> 'a \<Rightarrow> 'a" where
  "unwrap_or x d = (case x of None \<Rightarrow> d | Some a \<Rightarrow> a)"

definition extract_flat_bytes :: "state_value \<Rightarrow> nat \<Rightarrow> nat \<Rightarrow> bytes option" where
  "extract_flat_bytes data mn mx =
     (case data of
        OtherStateValue \<Rightarrow> None
      | Cell atoms \<Rightarrow>
          if length atoms \<noteq> 1 then None
          else let atom_bytes = hd atoms; atom_len = length atom_bytes in
            if mx < atom_len then None
            else if atom_len < mn then None
            else Some (atom_bytes @ replicate (mx - atom_len) 0))"

definition take_bytes :: "bytes \<Rightarrow> nat \<Rightarrow> nat \<Rightarrow> bytes option" where
  "take_bytes bs offset len = slice_get bs offset (offset + len)"

definition take_uint_128_le :: "bytes \<Rightarrow> nat \<Rightarrow> string option" where
  "take_uint_128_le bs offset =
     map_option (\<lambda>slice. nat_to_string (le_to_nat slice)) (slice_get bs offset (offset + UINT_128_SIZE))"

definition take_maybe_bytes :: "bytes \<Rightarrow> nat \<Rightarrow> nat \<Rightarrow> bytes option" where
  "take_maybe_bytes bs offset value_len =
     (case index_get bs offset of
        None \<Rightarrow> None
      | Some tag \<Rightarrow>
          if tag = 0 then None else slice_get bs (offset + 1) (offset + 1 + value_len))"

definition take_maybe_uint_128_le :: "bytes \<Rightarrow> nat \<Rightarrow> string option" where
  "take_maybe_uint_128_le bs offset =
     (case index_get bs offset of
        None \<Rightarrow> None
      | Some tag \<Rightarrow>
          if tag = 0 then None
          else map_option (\<lambda>slice. nat_to_string (le_to_nat slice))
                 (slice_get bs (offset + 1) (offset + 1 + UINT_128_SIZE)))"

definition take_either_address :: "bytes \<Rightarrow> nat \<Rightarrow> address_or_contract option" where
  "take_either_address bs offset =
     (case index_get bs offset of
        None \<Rightarrow> None
      | Some is_left \<Rightarrow>
          let left = offset + 1; right = left + BYTES_32_SIZE in
          if is_left = 0
          then map_option ContractAddress (slice_get bs right (right + BYTES_32_SIZE))
          else map_option User (slice_get bs left (left + BYTES_32_SIZE)))"

text \<open>
  The arms of \<^verbatim>\<open>make_contract_event_attributes\<close>, one definition per shielded, unshielded and
  untyped group, each field taken from the flat bytes or replaced by its default.
\<close>

definition decode_shielded ::
  "log_event_type \<Rightarrow> state_value \<Rightarrow> u32 \<Rightarrow> bytes \<Rightarrow> ledger_event_attributes option" where
  "decode_shielded ty data version entry_point =
     (case ty of
        ShieldedSpend \<Rightarrow>
          let bs = extract_flat_bytes data SHIELDED_SPEND_SIZE SHIELDED_SPEND_SIZE;
              nullifier = unwrap_or (Option.bind bs (\<lambda>b. take_bytes b 0 BYTES_32_SIZE)) []
          in Some (ContractShieldedSpend version entry_point nullifier)
      | ShieldedReceive \<Rightarrow>
          let bs = extract_flat_bytes data BYTES_32_SIZE SHIELDED_RECEIVE_SIZE;
              commitment = unwrap_or (Option.bind bs (\<lambda>b. take_bytes b 0 BYTES_32_SIZE)) [];
              ciphertext = Option.bind bs (\<lambda>b. take_maybe_bytes b BYTES_32_SIZE 512);
              receiving_contract_address =
                Option.bind bs (\<lambda>b. take_maybe_bytes b (BYTES_32_SIZE + MAYBE_512_SIZE) BYTES_32_SIZE)
          in Some (ContractShieldedReceive version entry_point commitment ciphertext
                     receiving_contract_address)
      | ShieldedMint \<Rightarrow>
          let bs = extract_flat_bytes data (2 * BYTES_32_SIZE) SHIELDED_MINT_SIZE;
              commitment = unwrap_or (Option.bind bs (\<lambda>b. take_bytes b 0 BYTES_32_SIZE)) [];
              domain_sep = unwrap_or (Option.bind bs (\<lambda>b. take_bytes b BYTES_32_SIZE BYTES_32_SIZE)) [];
              amount = Option.bind bs (\<lambda>b. take_maybe_uint_128_le b (2 * BYTES_32_SIZE))
          in Some (ContractShieldedMint version entry_point commitment domain_sep amount)
      | ShieldedBurn \<Rightarrow>
          let bs = extract_flat_bytes data BYTES_32_SIZE SHIELDED_BURN_SIZE;
              nullifier = unwrap_or (Option.bind bs (\<lambda>b. take_bytes b 0 BYTES_32_SIZE)) [];
              amount = Option.bind bs (\<lambda>b. take_maybe_uint_128_le b BYTES_32_SIZE)
          in Some (ContractShieldedBurn version entry_point nullifier amount)
      | _ \<Rightarrow> None)"

definition decode_unshielded ::
  "log_event_type \<Rightarrow> state_value \<Rightarrow> u32 \<Rightarrow> bytes \<Rightarrow> ledger_event_attributes option" where
  "decode_unshielded ty data version entry_point =
     (case ty of
        UnshieldedSpend \<Rightarrow>
          let bs = extract_flat_bytes data (UNSHIELDED_SPEND_SIZE - UINT_128_SIZE) UNSHIELDED_SPEND_SIZE;
              sender = unwrap_or (Option.bind bs (\<lambda>b. take_either_address b 0)) (User []);
              domain_sep = unwrap_or (Option.bind bs (\<lambda>b. take_bytes b EITHER_SIZE BYTES_32_SIZE)) [];
              token_type =
                unwrap_or (Option.bind bs (\<lambda>b. take_bytes b (EITHER_SIZE + BYTES_32_SIZE) BYTES_32_SIZE)) [];
              amount =
                unwrap_or (Option.bind bs (\<lambda>b. take_uint_128_le b (EITHER_SIZE + 2 * BYTES_32_SIZE))) ''0''
          in Some (ContractUnshieldedSpend version entry_point sender domain_sep token_type amount)
      | UnshieldedReceive \<Rightarrow>
          let bs = extract_flat_bytes data (UNSHIELDED_RECEIVE_SIZE - UINT_128_SIZE) UNSHIELDED_RECEIVE_SIZE;
              recipient = unwrap_or (Option.bind bs (\<lambda>b. take_either_address b 0)) (User []);
              domain_sep = unwrap_or (Option.bind bs (\<lambda>b. take_bytes b EITHER_SIZE BYTES_32_SIZE)) [];
              token_type =
                unwrap_or (Option.bind bs (\<lambda>b. take_bytes b (EITHER_SIZE + BYTES_32_SIZE) BYTES_32_SIZE)) [];
              amount =
                unwrap_or (Option.bind bs (\<lambda>b. take_uint_128_le b (EITHER_SIZE + 2 * BYTES_32_SIZE))) ''0''
          in Some (ContractUnshieldedReceive version entry_point recipient domain_sep token_type amount)
      | UnshieldedMint \<Rightarrow>
          let bs = extract_flat_bytes data (UNSHIELDED_MINT_SIZE - UINT_128_SIZE) UNSHIELDED_MINT_SIZE;
              domain_sep = unwrap_or (Option.bind bs (\<lambda>b. take_bytes b 0 BYTES_32_SIZE)) [];
              token_type = unwrap_or (Option.bind bs (\<lambda>b. take_bytes b BYTES_32_SIZE BYTES_32_SIZE)) [];
              amount = unwrap_or (Option.bind bs (\<lambda>b. take_uint_128_le b (2 * BYTES_32_SIZE))) ''0''
          in Some (ContractUnshieldedMint version entry_point domain_sep token_type amount)
      | UnshieldedBurn \<Rightarrow>
          let bs = extract_flat_bytes data (UNSHIELDED_BURN_SIZE - UINT_128_SIZE) UNSHIELDED_BURN_SIZE;
              sender = unwrap_or (Option.bind bs (\<lambda>b. take_either_address b 0)) (User []);
              token_type = unwrap_or (Option.bind bs (\<lambda>b. take_bytes b EITHER_SIZE BYTES_32_SIZE)) [];
              amount =
                unwrap_or (Option.bind bs (\<lambda>b. take_uint_128_le b (EITHER_SIZE + BYTES_32_SIZE))) ''0''
          in Some (ContractUnshieldedBurn version entry_point sender token_type amount)
      | _ \<Rightarrow> None)"

definition decode_misc :: "state_value \<Rightarrow> u32 \<Rightarrow> bytes \<Rightarrow> ledger_event_attributes" where
  "decode_misc data version entry_point =
     (let bs = extract_flat_bytes data BYTES_32_SIZE MISC_SIZE;
          name = unwrap_or (Option.bind bs (\<lambda>b. take_bytes b 0 BYTES_32_SIZE)) [];
          payload = unwrap_or (Option.bind bs (\<lambda>b. take_bytes b BYTES_32_SIZE 256)) []
      in ContractMisc version entry_point name payload)"

definition make_contract_event_attributes ::
  "versioned_log_item \<Rightarrow> bytes \<Rightarrow> ledger_event_attributes" where
  "make_contract_event_attributes item entry_point =
     (let version = vli_version item; ty = vli_event_type item; data = vli_data item in
      case decode_shielded ty data version entry_point of
        Some attributes \<Rightarrow> attributes
      | None \<Rightarrow>
          (case decode_unshielded ty data version entry_point of
             Some attributes \<Rightarrow> attributes
           | None \<Rightarrow>
               (case ty of
                  Paused \<Rightarrow> ContractPaused version entry_point
                | Unpaused \<Rightarrow> ContractUnpaused version entry_point
                | _ \<Rightarrow> decode_misc data version entry_point)))"

section \<open>The documented wire format, as an encoder\<close>

text \<open>
  The payloads of CoIP-442 and MIP-0002 as the comments of the decoder give them:
  \<^verbatim>\<open>Bytes<N>\<close> raw, \<^verbatim>\<open>Uint<128>\<close> as 16 little-endian bytes, \<^verbatim>\<open>Maybe<T>\<close> as a tag byte and the
  value (zeroed when absent), the address as \<^verbatim>\<open>[is_left][left:32][right:32]\<close>, and the atom
  with its trailing zero bytes stripped.
\<close>

datatype log_payload =
    PShieldedSpend bytes
  | PShieldedReceive bytes "bytes option" "bytes option"
  | PShieldedMint bytes bytes "u128 option"
  | PShieldedBurn bytes "u128 option"
  | PUnshieldedSpend address_or_contract bytes bytes u128
  | PUnshieldedReceive address_or_contract bytes bytes u128
  | PUnshieldedMint bytes bytes u128
  | PUnshieldedBurn address_or_contract bytes u128
  | PPaused
  | PUnpaused
  | PMisc bytes bytes

definition enc_u128 :: "u128 \<Rightarrow> bytes" where
  "enc_u128 v = nat_to_le 16 (unat v)"

definition enc_maybe :: "nat \<Rightarrow> ('a \<Rightarrow> bytes) \<Rightarrow> 'a option \<Rightarrow> bytes" where
  "enc_maybe n f m = (case m of None \<Rightarrow> 0 # replicate n 0 | Some v \<Rightarrow> 1 # f v)"

fun enc_either :: "address_or_contract \<Rightarrow> bytes" where
  "enc_either (User u) = 1 # u @ replicate 32 0"
| "enc_either (ContractAddress c) = 0 # replicate 32 0 @ c"

primrec flat :: "log_payload \<Rightarrow> bytes" where
  "flat (PShieldedSpend n) = n"
| "flat (PShieldedReceive c ct ca) = c @ enc_maybe 512 id ct @ enc_maybe 32 id ca"
| "flat (PShieldedMint c d a) = c @ d @ enc_maybe 16 enc_u128 a"
| "flat (PShieldedBurn n a) = n @ enc_maybe 16 enc_u128 a"
| "flat (PUnshieldedSpend s d t a) = enc_either s @ d @ t @ enc_u128 a"
| "flat (PUnshieldedReceive r d t a) = enc_either r @ d @ t @ enc_u128 a"
| "flat (PUnshieldedMint d t a) = d @ t @ enc_u128 a"
| "flat (PUnshieldedBurn s t a) = enc_either s @ t @ enc_u128 a"
| "flat PPaused = []"
| "flat PUnpaused = []"
| "flat (PMisc n p) = n @ p"

definition strip_zeros :: "bytes \<Rightarrow> bytes" where
  "strip_zeros bs = rev (dropWhile (\<lambda>b. b = 0) (rev bs))"

primrec payload_type :: "log_payload \<Rightarrow> log_event_type" where
  "payload_type (PShieldedSpend _) = ShieldedSpend"
| "payload_type (PShieldedReceive _ _ _) = ShieldedReceive"
| "payload_type (PShieldedMint _ _ _) = ShieldedMint"
| "payload_type (PShieldedBurn _ _) = ShieldedBurn"
| "payload_type (PUnshieldedSpend _ _ _ _) = UnshieldedSpend"
| "payload_type (PUnshieldedReceive _ _ _ _) = UnshieldedReceive"
| "payload_type (PUnshieldedMint _ _ _) = UnshieldedMint"
| "payload_type (PUnshieldedBurn _ _ _) = UnshieldedBurn"
| "payload_type PPaused = Paused"
| "payload_type PUnpaused = Unpaused"
| "payload_type (PMisc _ _) = Misc"

text \<open>The least atom length the decoder accepts for each event type.\<close>

primrec payload_min :: "log_payload \<Rightarrow> nat" where
  "payload_min (PShieldedSpend _) = 32"
| "payload_min (PShieldedReceive _ _ _) = 32"
| "payload_min (PShieldedMint _ _ _) = 64"
| "payload_min (PShieldedBurn _ _) = 32"
| "payload_min (PUnshieldedSpend _ _ _ _) = 129"
| "payload_min (PUnshieldedReceive _ _ _ _) = 129"
| "payload_min (PUnshieldedMint _ _ _) = 64"
| "payload_min (PUnshieldedBurn _ _ _) = 97"
| "payload_min PPaused = 0"
| "payload_min PUnpaused = 0"
| "payload_min (PMisc _ _) = 32"

definition opt_len :: "nat \<Rightarrow> bytes option \<Rightarrow> bool" where
  "opt_len n m = (case m of None \<Rightarrow> True | Some v \<Rightarrow> length v = n)"

primrec payload_ok :: "log_payload \<Rightarrow> bool" where
  "payload_ok (PShieldedSpend n) = (length n = 32)"
| "payload_ok (PShieldedReceive c ct ca) = (length c = 32 \<and> opt_len 512 ct \<and> opt_len 32 ca)"
| "payload_ok (PShieldedMint c d a) = (length c = 32 \<and> length d = 32)"
| "payload_ok (PShieldedBurn n a) = (length n = 32)"
| "payload_ok (PUnshieldedSpend s d t a) = (length (to_bytes s) = 32 \<and> length d = 32 \<and> length t = 32)"
| "payload_ok (PUnshieldedReceive r d t a) = (length (to_bytes r) = 32 \<and> length d = 32 \<and> length t = 32)"
| "payload_ok (PUnshieldedMint d t a) = (length d = 32 \<and> length t = 32)"
| "payload_ok (PUnshieldedBurn s t a) = (length (to_bytes s) = 32 \<and> length t = 32)"
| "payload_ok PPaused = True"
| "payload_ok PUnpaused = True"
| "payload_ok (PMisc n p) = (length n = 32 \<and> length p = 256)"

abbreviation show_u128 :: "u128 \<Rightarrow> string" where
  "show_u128 a \<equiv> nat_to_string (unat a)"

primrec payload_attributes :: "log_payload \<Rightarrow> u32 \<Rightarrow> bytes \<Rightarrow> ledger_event_attributes" where
  "payload_attributes (PShieldedSpend n) v ep = ContractShieldedSpend v ep n"
| "payload_attributes (PShieldedReceive c ct ca) v ep = ContractShieldedReceive v ep c ct ca"
| "payload_attributes (PShieldedMint c d a) v ep = ContractShieldedMint v ep c d (map_option show_u128 a)"
| "payload_attributes (PShieldedBurn n a) v ep = ContractShieldedBurn v ep n (map_option show_u128 a)"
| "payload_attributes (PUnshieldedSpend s d t a) v ep = ContractUnshieldedSpend v ep s d t (show_u128 a)"
| "payload_attributes (PUnshieldedReceive r d t a) v ep =
     ContractUnshieldedReceive v ep r d t (show_u128 a)"
| "payload_attributes (PUnshieldedMint d t a) v ep = ContractUnshieldedMint v ep d t (show_u128 a)"
| "payload_attributes (PUnshieldedBurn s t a) v ep = ContractUnshieldedBurn v ep s t (show_u128 a)"
| "payload_attributes PPaused v ep = ContractPaused v ep"
| "payload_attributes PUnpaused v ep = ContractUnpaused v ep"
| "payload_attributes (PMisc n p) v ep = ContractMisc v ep n p"

definition wire_item :: "u32 \<Rightarrow> log_payload \<Rightarrow> versioned_log_item" where
  "wire_item version p =
     \<lparr>vli_version = version, vli_event_type = payload_type p, vli_data = Cell [strip_zeros (flat p)]\<rparr>"

section \<open>Helper lemmas\<close>

lemma strip_zeros_pad: "strip_zeros bs @ replicate (length bs - length (strip_zeros bs)) 0 = bs"
proof -
  have tw: "takeWhile (\<lambda>b. b = 0) (rev bs) = replicate (length (takeWhile (\<lambda>b. b = 0) (rev bs))) 0"
    by (metis (mono_tags, lifting) replicate_length_same set_takeWhileD)
  have "rev bs = takeWhile (\<lambda>b. b = 0) (rev bs) @ dropWhile (\<lambda>b. b = 0) (rev bs)" by simp
  then have eq: "bs = strip_zeros bs @ rev (takeWhile (\<lambda>b. b = 0) (rev bs))"
    by (metis strip_zeros_def rev_append rev_rev_ident)
  have "length bs - length (strip_zeros bs) = length (takeWhile (\<lambda>b. b = 0) (rev bs))"
    using arg_cong [OF eq, of length] by simp
  then show ?thesis using eq tw by (metis rev_replicate)
qed

lemma strip_zeros_length: "length (strip_zeros bs) \<le> length bs"
  by (simp add: strip_zeros_def length_dropWhile_le [of _ "rev bs", simplified])

lemma extract_strip:
  assumes "length bs = mx" and "mn \<le> length (strip_zeros bs)"
  shows "extract_flat_bytes (Cell [strip_zeros bs]) mn mx = Some bs"
  using assms strip_zeros_pad [of bs] strip_zeros_length [of bs]
  by (auto simp: extract_flat_bytes_def Let_def)

lemma extract_flat_bytes_length: "extract_flat_bytes data mn mx = Some bs \<Longrightarrow> length bs = mx"
  by (auto simp: extract_flat_bytes_def Let_def split: state_value.splits if_splits)

lemma length_enc_u128 [simp]: "length (enc_u128 a) = 16"
  by (simp add: enc_u128_def)

lemma le_to_nat_enc_u128 [simp]: "le_to_nat (enc_u128 a) = unat a"
  using u128_bound [of a] by (simp add: enc_u128_def le_to_nat_nat_to_le)

lemma length_enc_either: "length (to_bytes s) = 32 \<Longrightarrow> length (enc_either s) = 65"
  by (cases s) auto

lemma length_enc_maybe_bytes: "opt_len n m \<Longrightarrow> length (enc_maybe n id m) = Suc n"
  by (auto simp: enc_maybe_def opt_len_def split: option.splits)

lemma length_enc_maybe_u128: "length (enc_maybe 16 enc_u128 a) = 17"
  by (auto simp: enc_maybe_def split: option.splits)

lemmas enc_lengths = length_enc_either length_enc_maybe_bytes length_enc_maybe_u128

text \<open>Reading a field that starts where the fields before it end.\<close>

lemma take_bytes_at: "length pre = i \<Longrightarrow> length x = n \<Longrightarrow> take_bytes (pre @ x @ post) i n = Some x"
  by (simp add: take_bytes_def slice_get_append)

lemma take_uint_128_le_at:
  "length pre = i \<Longrightarrow> take_uint_128_le (pre @ enc_u128 a @ post) i = Some (show_u128 a)"
  using slice_get_append [of pre i "enc_u128 a" 16 post] by (simp add: take_uint_128_le_def)

lemma slice_get_after_tag:
  "length pre = i \<Longrightarrow> length x = n \<Longrightarrow> slice_get (pre @ (t # x) @ post) (i + 1) (i + 1 + n) = Some x"
  using slice_get_append [of "pre @ [t]" "i + 1" x n post] by simp

lemma index_get_at: "length pre = i \<Longrightarrow> index_get (pre @ (t # x) @ post) i = Some t"
  by (auto simp: index_get_def)

lemma take_maybe_bytes_at:
  assumes "length pre = i" and "opt_len n m"
  shows "take_maybe_bytes (pre @ enc_maybe n id m @ post) i n = m"
proof (cases m)
  case None
  then show ?thesis using assms index_get_at [of pre i 0 "replicate n 0" post]
    by (simp add: take_maybe_bytes_def enc_maybe_def)
next
  case (Some v)
  then show ?thesis
    using assms index_get_at [of pre i 1 v post] slice_get_after_tag [of pre i v n 1 post]
    by (simp add: take_maybe_bytes_def enc_maybe_def opt_len_def)
qed

lemma take_maybe_uint_128_le_at:
  assumes "length pre = i"
  shows "take_maybe_uint_128_le (pre @ enc_maybe 16 enc_u128 a @ post) i = map_option show_u128 a"
proof (cases a)
  case None
  then show ?thesis using assms index_get_at [of pre i 0 "replicate 16 0" post]
    by (simp add: take_maybe_uint_128_le_def enc_maybe_def)
next
  case (Some v)
  then show ?thesis
    using assms index_get_at [of pre i 1 "enc_u128 v" post]
      slice_get_after_tag [of pre i "enc_u128 v" 16 1 post]
    by (simp add: take_maybe_uint_128_le_def enc_maybe_def)
qed

lemma take_either_address_at:
  assumes "length pre = i" and "length (to_bytes s) = 32"
  shows "take_either_address (pre @ enc_either s @ post) i = Some s"
proof (cases s)
  case (User u)
  then show ?thesis
    using assms index_get_at [of pre i 1 "u @ replicate 32 0" post]
      slice_get_append [of "pre @ [1]" "i + 1" u 32 "replicate 32 0 @ post"]
    by (simp add: take_either_address_def Let_def)
next
  case (ContractAddress c)
  then show ?thesis
    using assms index_get_at [of pre i 0 "replicate 32 0 @ c" post]
      slice_get_append [of "pre @ [0] @ replicate 32 0" "i + 33" c 32 post]
    by (simp add: take_either_address_def Let_def add.commute)
qed

lemma unwrap_or_Some [simp]: "unwrap_or (Some a) d = a"
  by (simp add: unwrap_or_def)

lemma unwrap_or_None [simp]: "unwrap_or None d = d"
  by (simp add: unwrap_or_def)

lemma take_bytes_start: "length x = n \<Longrightarrow> take_bytes (x @ post) 0 n = Some x"
  using take_bytes_at [of "[]" 0 x n post] by simp

section \<open>Every field comes back\<close>

lemma decode_shielded_spend:
  "payload_ok (PShieldedSpend n) \<Longrightarrow> 32 \<le> length (strip_zeros n) \<Longrightarrow>
     decode_shielded ShieldedSpend (Cell [strip_zeros n]) v ep = Some (ContractShieldedSpend v ep n)"
  using take_bytes_start [of n 32 "[]"] by (simp add: decode_shielded_def extract_strip)

lemma decode_shielded_receive:
  assumes "payload_ok (PShieldedReceive c ct ca)"
    and "32 \<le> length (strip_zeros (flat (PShieldedReceive c ct ca)))"
  shows "decode_shielded ShieldedReceive (Cell [strip_zeros (flat (PShieldedReceive c ct ca))]) v ep
    = Some (ContractShieldedReceive v ep c ct ca)"
proof -
  have ok: "length c = 32" "opt_len 512 ct" "opt_len 32 ca" using assms(1) by simp_all
  let ?b = "flat (PShieldedReceive c ct ca)"
  have x: "extract_flat_bytes (Cell [strip_zeros ?b]) 32 578 = Some ?b"
    using ok assms(2) by (intro extract_strip) (simp_all add: enc_lengths)
  have "take_bytes ?b 0 32 = Some c" using ok by (simp add: take_bytes_start)
  moreover have "take_maybe_bytes ?b 32 512 = ct"
    using ok take_maybe_bytes_at [of c 32 512 ct "enc_maybe 32 id ca"] by simp
  moreover have "take_maybe_bytes ?b 545 32 = ca"
    using ok take_maybe_bytes_at [of "c @ enc_maybe 512 id ct" 545 32 ca "[]"]
    by (simp add: enc_lengths)
  ultimately show ?thesis using x by (simp add: decode_shielded_def Let_def del: flat.simps)
qed

lemma decode_shielded_mint:
  assumes "payload_ok (PShieldedMint c d a)"
    and "64 \<le> length (strip_zeros (flat (PShieldedMint c d a)))"
  shows "decode_shielded ShieldedMint (Cell [strip_zeros (flat (PShieldedMint c d a))]) v ep
    = Some (ContractShieldedMint v ep c d (map_option show_u128 a))"
proof -
  have ok: "length c = 32" "length d = 32" using assms(1) by simp_all
  let ?b = "flat (PShieldedMint c d a)"
  have x: "extract_flat_bytes (Cell [strip_zeros ?b]) 64 81 = Some ?b"
    using ok assms(2) by (intro extract_strip) (simp_all add: enc_lengths)
  have "take_bytes ?b 0 32 = Some c" using ok by (simp add: take_bytes_start)
  moreover have "take_bytes ?b 32 32 = Some d" using ok by (simp add: take_bytes_at)
  moreover have "take_maybe_uint_128_le ?b 64 = map_option show_u128 a"
    using ok take_maybe_uint_128_le_at [of "c @ d" 64 a "[]"] by simp
  ultimately show ?thesis using x by (simp add: decode_shielded_def Let_def del: flat.simps)
qed

lemma decode_shielded_burn:
  assumes "payload_ok (PShieldedBurn n a)"
    and "32 \<le> length (strip_zeros (flat (PShieldedBurn n a)))"
  shows "decode_shielded ShieldedBurn (Cell [strip_zeros (flat (PShieldedBurn n a))]) v ep
    = Some (ContractShieldedBurn v ep n (map_option show_u128 a))"
proof -
  have ok: "length n = 32" using assms(1) by simp
  let ?b = "flat (PShieldedBurn n a)"
  have x: "extract_flat_bytes (Cell [strip_zeros ?b]) 32 49 = Some ?b"
    using ok assms(2) by (intro extract_strip) (simp_all add: enc_lengths)
  have "take_bytes ?b 0 32 = Some n" using ok by (simp add: take_bytes_start)
  moreover have "take_maybe_uint_128_le ?b 32 = map_option show_u128 a"
    using ok take_maybe_uint_128_le_at [of n 32 a "[]"] by simp
  ultimately show ?thesis using x by (simp add: decode_shielded_def Let_def del: flat.simps)
qed

text \<open>The spend and receive layouts are the same; so is the reading of their fields.\<close>

lemma unshielded_fields:
  assumes "length (to_bytes s) = 32" and "length d = 32" and "length t = 32"
  shows "take_either_address (enc_either s @ d @ t @ enc_u128 a) 0 = Some s"
    and "take_bytes (enc_either s @ d @ t @ enc_u128 a) 65 32 = Some d"
    and "take_bytes (enc_either s @ d @ t @ enc_u128 a) 97 32 = Some t"
    and "take_uint_128_le (enc_either s @ d @ t @ enc_u128 a) 129 = Some (show_u128 a)"
proof -
  note len = length_enc_either [OF assms(1)] assms(2,3)
  show "take_either_address (enc_either s @ d @ t @ enc_u128 a) 0 = Some s"
    using assms take_either_address_at [of "[]" 0 s "d @ t @ enc_u128 a"] by simp
  show "take_bytes (enc_either s @ d @ t @ enc_u128 a) 65 32 = Some d"
    using len by (simp add: take_bytes_at)
  show "take_bytes (enc_either s @ d @ t @ enc_u128 a) 97 32 = Some t"
    using len take_bytes_at [of "enc_either s @ d" 97 t 32 "enc_u128 a"] by simp
  show "take_uint_128_le (enc_either s @ d @ t @ enc_u128 a) 129 = Some (show_u128 a)"
    using len take_uint_128_le_at [of "enc_either s @ d @ t" 129 a "[]"] by simp
qed

lemma decode_unshielded_spend_receive:
  assumes "length (to_bytes s) = 32" and "length d = 32" and "length t = 32"
    and "129 \<le> length (strip_zeros (enc_either s @ d @ t @ enc_u128 a))"
  defines "b \<equiv> enc_either s @ d @ t @ enc_u128 a"
  shows "decode_unshielded UnshieldedSpend (Cell [strip_zeros b]) v ep
      = Some (ContractUnshieldedSpend v ep s d t (show_u128 a))"
    and "decode_unshielded UnshieldedReceive (Cell [strip_zeros b]) v ep
      = Some (ContractUnshieldedReceive v ep s d t (show_u128 a))"
proof -
  have x: "extract_flat_bytes (Cell [strip_zeros b]) 129 145 = Some b"
    using assms by (intro extract_strip) (simp_all add: enc_lengths)
  note f = unshielded_fields [OF assms(1-3), of a, folded b_def]
  show "decode_unshielded UnshieldedSpend (Cell [strip_zeros b]) v ep
      = Some (ContractUnshieldedSpend v ep s d t (show_u128 a))"
    using x f by (simp add: decode_unshielded_def Let_def)
  show "decode_unshielded UnshieldedReceive (Cell [strip_zeros b]) v ep
      = Some (ContractUnshieldedReceive v ep s d t (show_u128 a))"
    using x f by (simp add: decode_unshielded_def Let_def)
qed

lemma decode_unshielded_mint:
  assumes "length d = 32" and "length t = 32"
    and "64 \<le> length (strip_zeros (d @ t @ enc_u128 a))"
  shows "decode_unshielded UnshieldedMint (Cell [strip_zeros (d @ t @ enc_u128 a)]) v ep
      = Some (ContractUnshieldedMint v ep d t (show_u128 a))"
proof -
  let ?b = "d @ t @ enc_u128 a"
  have x: "extract_flat_bytes (Cell [strip_zeros ?b]) 64 80 = Some ?b"
    using assms by (intro extract_strip) simp_all
  have "take_bytes ?b 0 32 = Some d" using assms by (simp add: take_bytes_start)
  moreover have "take_bytes ?b 32 32 = Some t" using assms by (simp add: take_bytes_at)
  moreover have "take_uint_128_le ?b 64 = Some (show_u128 a)"
    using assms take_uint_128_le_at [of "d @ t" 64 a "[]"] by simp
  ultimately show ?thesis using x by (simp add: decode_unshielded_def Let_def)
qed

lemma decode_unshielded_burn:
  assumes "length (to_bytes s) = 32" and "length t = 32"
    and "97 \<le> length (strip_zeros (enc_either s @ t @ enc_u128 a))"
  shows "decode_unshielded UnshieldedBurn (Cell [strip_zeros (enc_either s @ t @ enc_u128 a)]) v ep
      = Some (ContractUnshieldedBurn v ep s t (show_u128 a))"
proof -
  let ?b = "enc_either s @ t @ enc_u128 a"
  note len = length_enc_either [OF assms(1)] assms(2)
  have x: "extract_flat_bytes (Cell [strip_zeros ?b]) 97 113 = Some ?b"
    using assms by (intro extract_strip) (simp_all add: enc_lengths)
  have "take_either_address ?b 0 = Some s"
    using assms take_either_address_at [of "[]" 0 s "t @ enc_u128 a"] by simp
  moreover have "take_bytes ?b 65 32 = Some t" using len by (simp add: take_bytes_at)
  moreover have "take_uint_128_le ?b 97 = Some (show_u128 a)"
    using len take_uint_128_le_at [of "enc_either s @ t" 97 a "[]"] by simp
  ultimately show ?thesis using x by (simp add: decode_unshielded_def Let_def)
qed

lemma decode_misc_payload:
  assumes "length n = 32" and "length p = 256" and "32 \<le> length (strip_zeros (n @ p))"
  shows "decode_misc (Cell [strip_zeros (n @ p)]) v ep = ContractMisc v ep n p"
proof -
  have x: "extract_flat_bytes (Cell [strip_zeros (n @ p)]) 32 288 = Some (n @ p)"
    using assms by (intro extract_strip) simp_all
  have "take_bytes (n @ p) 0 32 = Some n" using assms by (simp add: take_bytes_start)
  moreover have "take_bytes (n @ p) 32 256 = Some p"
    using assms take_bytes_at [of n 32 p 256 "[]"] by simp
  ultimately show ?thesis using x by (simp add: decode_misc_def Let_def)
qed

lemma decode_none_simps:
  "decode_shielded UnshieldedSpend d v ep = None"
  "decode_shielded UnshieldedReceive d v ep = None"
  "decode_shielded UnshieldedMint d v ep = None"
  "decode_shielded UnshieldedBurn d v ep = None"
  "decode_shielded Paused d v ep = None" "decode_unshielded Paused d v ep = None"
  "decode_shielded Unpaused d v ep = None" "decode_unshielded Unpaused d v ep = None"
  "decode_shielded Misc d v ep = None" "decode_unshielded Misc d v ep = None"
  by (simp_all add: decode_shielded_def decode_unshielded_def)

lemmas decode_lemmas = decode_shielded_spend decode_shielded_receive [simplified]
  decode_shielded_mint [simplified] decode_shielded_burn [simplified] decode_unshielded_spend_receive decode_unshielded_mint
  decode_unshielded_burn decode_misc_payload decode_none_simps

text \<open>The payload that stands for an event whose atom is too short: every field at the decoder's default.\<close>

primrec emptied :: "log_payload \<Rightarrow> log_payload" where
  "emptied (PShieldedSpend _) = PShieldedSpend []"
| "emptied (PShieldedReceive _ _ _) = PShieldedReceive [] None None"
| "emptied (PShieldedMint _ _ _) = PShieldedMint [] [] None"
| "emptied (PShieldedBurn _ _) = PShieldedBurn [] None"
| "emptied (PUnshieldedSpend _ _ _ _) = PUnshieldedSpend (User []) [] [] 0"
| "emptied (PUnshieldedReceive _ _ _ _) = PUnshieldedReceive (User []) [] [] 0"
| "emptied (PUnshieldedMint _ _ _) = PUnshieldedMint [] [] 0"
| "emptied (PUnshieldedBurn _ _ _) = PUnshieldedBurn (User []) [] 0"
| "emptied PPaused = PPaused"
| "emptied PUnpaused = PUnpaused"
| "emptied (PMisc _ _) = PMisc [] []"

lemma nat_to_string_zero: "nat_to_string 0 = ''0''"
  by code_simp

lemma extract_flat_bytes_short: "length a < mn \<Longrightarrow> extract_flat_bytes (Cell [a]) mn mx = None"
  by (simp add: extract_flat_bytes_def Let_def)

text \<open>
  C33. For every payload whose fields have their documented widths, with an address laid out as the comment of
  \<^verbatim>\<open>take_either_address\<close> gives it, decoding the log item yields exactly the version, the entry point and the fields that
  were emitted if the atom, from which the wire format strips the trailing zero bytes, still has the minimum
  length the decoder requires for the event type; otherwise it yields the event of that type with every field empty.
  An emission whose last required field ends in zero bytes falls in the second case: the stored event loses its
  payload (\<open>shielded_spend_trailing_zero_lost\<close>).
\<close>

theorem decoder_inverts_wire_format:
  assumes "payload_ok p"
  shows "make_contract_event_attributes (wire_item version p) entry_point
    = payload_attributes (if payload_min p \<le> length (strip_zeros (flat p)) then p else emptied p) version entry_point"
proof (cases "payload_min p \<le> length (strip_zeros (flat p))")
  case True
  then show ?thesis using assms
    by (cases p) (simp_all add: wire_item_def make_contract_event_attributes_def Let_def decode_lemmas)
next
  case False
  then show ?thesis
    by (cases p) (simp_all add: wire_item_def make_contract_event_attributes_def Let_def decode_shielded_def decode_unshielded_def
        decode_misc_def extract_flat_bytes_short nat_to_string_zero)
qed

theorem decoder_inverts_wire_format_witness:
  "make_contract_event_attributes
     (wire_item 1 (PUnshieldedSpend (ContractAddress (replicate 32 7)) (replicate 32 2) (replicate 32 3) 5)) [9]
   = ContractUnshieldedSpend 1 [9] (ContractAddress (replicate 32 7)) (replicate 32 2) (replicate 32 3) ''5''
   \<and> make_contract_event_attributes (wire_item 1 (PShieldedSpend (replicate 31 7 @ [0]))) [9] = ContractShieldedSpend 1 [9] []"
proof -
  let ?p = "PUnshieldedSpend (ContractAddress (replicate 32 7)) (replicate 32 2) (replicate 32 3) 5"
    and ?q = "PShieldedSpend (replicate 31 7 @ [0])"
  have ok: "payload_ok ?p" "payload_ok ?q" by simp_all
  have "payload_min ?p \<le> length (strip_zeros (flat ?p))" "\<not> payload_min ?q \<le> length (strip_zeros (flat ?q))" by code_simp+
  moreover have "show_u128 5 = ''5''" by code_simp
  ultimately show ?thesis
    using decoder_inverts_wire_format [OF ok(1), of 1 "[9]"] decoder_inverts_wire_format [OF ok(2), of 1 "[9]"] by simp
qed

definition field_ok :: "nat \<Rightarrow> bytes \<Rightarrow> bool" where
  "field_ok n bs \<longleftrightarrow> bs = [] \<or> length bs = n"

primrec attribute_widths :: "ledger_event_attributes \<Rightarrow> bool" where
  "attribute_widths (ContractShieldedSpend _ _ n) = field_ok 32 n"
| "attribute_widths (ContractShieldedReceive _ _ c ct ca) = (field_ok 32 c \<and> opt_len 512 ct \<and> opt_len 32 ca)"
| "attribute_widths (ContractShieldedMint _ _ c d _) = (field_ok 32 c \<and> field_ok 32 d)"
| "attribute_widths (ContractShieldedBurn _ _ n _) = field_ok 32 n"
| "attribute_widths (ContractUnshieldedSpend _ _ s d t _) = (field_ok 32 (to_bytes s) \<and> field_ok 32 d \<and> field_ok 32 t)"
| "attribute_widths (ContractUnshieldedReceive _ _ s d t _) = (field_ok 32 (to_bytes s) \<and> field_ok 32 d \<and> field_ok 32 t)"
| "attribute_widths (ContractUnshieldedMint _ _ d t _) = (field_ok 32 d \<and> field_ok 32 t)"
| "attribute_widths (ContractUnshieldedBurn _ _ s t _) = (field_ok 32 (to_bytes s) \<and> field_ok 32 t)"
| "attribute_widths (ContractPaused _ _) = True"
| "attribute_widths (ContractUnpaused _ _) = True"
| "attribute_widths (ContractMisc _ _ n p) = (field_ok 32 n \<and> field_ok 256 p)"
| "attribute_widths (ZswapInput _) = False"
| "attribute_widths ZswapOutput = False"
| "attribute_widths ParamChange = False"
| "attribute_widths (DustInitialUtxo _ _ _) = False"
| "attribute_widths (DustGenerationDtimeUpdate _ _ _) = False"
| "attribute_widths (DustSpendProcessed _ _) = False"

lemma field_ok_take_bytes: "field_ok n (unwrap_or (Option.bind bs (\<lambda>b. take_bytes b i n)) [])"
  by (cases bs) (auto simp: field_ok_def take_bytes_def slice_get_def)

lemma field_ok_either:
  "field_ok 32 (to_bytes (unwrap_or (Option.bind bs (\<lambda>b. take_either_address b i)) (User [])))"
  by (cases bs) (auto simp: field_ok_def take_either_address_def slice_get_def Let_def split: option.splits)

lemma opt_len_take_maybe_bytes: "opt_len n (Option.bind bs (\<lambda>b. take_maybe_bytes b i n))"
  by (cases bs) (auto simp: opt_len_def take_maybe_bytes_def slice_get_def split: option.splits if_splits)

lemmas width_lemmas = field_ok_take_bytes field_ok_either opt_len_take_maybe_bytes

text \<open>
  Whatever the log item carries, decoding is total: it yields a contract event of the
  entry point it was given (so \<^verbatim>\<open>LedgerEvent::contract_event\<close>'s assertion holds), and every
  byte field it yields has its documented width or is empty. A cell whose shape or length does
  not fit yields the empty payload, never a partially read one.
\<close>

theorem decoder_total:
  "contract_entry_point (make_contract_event_attributes item ep) = Some ep
   \<and> attribute_widths (make_contract_event_attributes item ep)"
  by (cases "vli_event_type item")
    (simp_all add: make_contract_event_attributes_def decode_shielded_def decode_unshielded_def
      decode_misc_def Let_def width_lemmas)

text \<open>
  The minimum length of \<^verbatim>\<open>ShieldedSpend\<close> equals its full length, so a nullifier whose last
  byte is zero, which the wire format strips, is not read back: the event is stored with an
  empty nullifier.
\<close>

theorem shielded_spend_trailing_zero_lost:
  assumes "length n = 31"
  shows "make_contract_event_attributes (wire_item version (PShieldedSpend (n @ [0]))) ep
    = ContractShieldedSpend version ep []"
proof -
  have "length (strip_zeros (n @ [0])) \<le> 31"
    using strip_zeros_length [of n] assms by (simp add: strip_zeros_def)
  then show ?thesis
    by (simp add: wire_item_def make_contract_event_attributes_def decode_shielded_def
        extract_flat_bytes_def Let_def)
qed

theorem shielded_spend_trailing_zero_lost_witness:
  "make_contract_event_attributes (wire_item 1 (PShieldedSpend (replicate 31 170 @ [0]))) [112]
   = ContractShieldedSpend 1 [112] []"
proof -
  have h: "length (replicate 31 170 :: bytes) = 31" by simp
  show ?thesis using shielded_spend_trailing_zero_lost [OF h, of 1 "[112]"] .
qed

end
