(* ===== verification/Chain_Domain.thy ===== *)
theory Chain_Domain
  imports Common_Domain
begin

text \<open>
  The domain of the chain indexer, \<^verbatim>\<open>chain-indexer/src/domain\<close>: blocks and transactions as the
  node delivers them (\<^verbatim>\<open>node.rs\<close>) and as they are stored (\<^verbatim>\<open>block.rs\<close>, \<^verbatim>\<open>transaction.rs\<close>,
  \<^verbatim>\<open>contract_action.rs\<close>), dust registrations (\<^verbatim>\<open>dust.rs\<close>), system parameters, and the application
  of a block's transactions to the ledger state (\<^verbatim>\<open>ledger_state.rs\<close>). The ledger itself is a
  record of functions.
\<close>

section \<open>Blocks and transactions\<close>

record contract_action =
  ca_address :: bytes
  ca_state :: bytes
  ca_zswap_state :: bytes
  ca_extracted_balances :: "contract_balance list"
  ca_attributes :: contract_attributes

datatype dust_registration_event =
    Registration bytes bytes
  | Deregistration bytes bytes
  | MappingAdded bytes bytes bytes u32
  | MappingRemoved bytes bytes bytes u32

record d_parameter =
  num_permissioned_candidates :: u16
  num_registered_candidates :: u16

record terms_and_conditions =
  tc_hash :: bytes
  tc_url :: string

record system_parameters_change =
  spc_block_height :: u64
  spc_block_hash :: bytes
  spc_timestamp :: u64
  spc_d_parameter :: "d_parameter option"
  spc_terms_and_conditions :: "terms_and_conditions option"

record block_ref =
  br_hash :: bytes
  br_height :: u64

record block =
  bl_hash :: bytes
  bl_height :: u64
  bl_protocol_version :: protocol_version
  bl_parent_hash :: bytes
  bl_author :: "bytes option"
  bl_timestamp :: u64
  bl_zswap_merkle_tree_root :: bytes
  bl_ledger_state_root :: "bytes option"
  bl_dust_registration_events :: "dust_registration_event list"
  bl_bridge_events :: "bridge_event list"
  bl_ledger_parameters :: bytes
  bl_zswap_end_index :: u64
  bl_dust_commitment_end_index :: u64
  bl_dust_generation_end_index :: u64
  bl_dust_commitment_merkle_tree_root :: bytes
  bl_dust_generation_merkle_tree_root :: bytes

record node_regular_transaction =
  nr_hash :: bytes
  nr_protocol_version :: protocol_version
  nr_raw :: bytes
  nr_identifiers :: "bytes list"
  nr_contract_actions :: "contract_action list"

record node_system_transaction =
  ns_hash :: bytes
  ns_protocol_version :: protocol_version
  ns_raw :: bytes

datatype node_transaction = NodeRegular node_regular_transaction | NodeSystem node_system_transaction

text \<open>\<open>'r\<close> is the node's \<^verbatim>\<open>ZswapMerkleTreeRoot\<close> before serialization.\<close>

record 'r node_block =
  nb_hash :: bytes
  nb_height :: u64
  nb_protocol_version :: protocol_version
  nb_parent_hash :: bytes
  nb_author :: "bytes option"
  nb_timestamp :: u64
  nb_zswap_merkle_tree_root :: 'r
  nb_ledger_state_root :: "bytes option"
  nb_transactions :: "node_transaction list"
  nb_dust_registration_events :: "dust_registration_event list"
  nb_bridge_events :: "bridge_event list"

record regular_transaction =
  rt_hash :: bytes
  rt_protocol_version :: protocol_version
  rt_raw :: bytes
  rt_identifiers :: "bytes list"
  rt_contract_actions :: "contract_action list"
  rt_paid_fees :: u128
  rt_estimated_fees :: u128
  rt_transaction_result :: transaction_result
  rt_zswap_merkle_tree_root :: bytes
  rt_zswap_start_index :: u64
  rt_zswap_end_index :: u64
  rt_dust_commitment_start_index :: u64
  rt_dust_commitment_end_index :: u64
  rt_dust_generation_start_index :: u64
  rt_dust_generation_end_index :: u64
  rt_created_unshielded_utxos :: "unshielded_utxo list"
  rt_spent_unshielded_utxos :: "unshielded_utxo list"
  rt_ledger_events :: "ledger_event list"
  rt_bridge_claim :: "bridge_claim option"

record system_transaction =
  st_hash :: bytes
  st_protocol_version :: protocol_version
  st_raw :: bytes
  st_created_unshielded_utxos :: "unshielded_utxo list"
  st_ledger_events :: "ledger_event list"

datatype transaction = Regular regular_transaction | System system_transaction

fun tx_variant :: "transaction \<Rightarrow> transaction_variant" where
  "tx_variant (Regular _) = RegularVariant"
| "tx_variant (System _) = SystemVariant"

fun tx_hash :: "transaction \<Rightarrow> bytes" where
  "tx_hash (Regular t) = rt_hash t"
| "tx_hash (System t) = st_hash t"

fun tx_protocol_version :: "transaction \<Rightarrow> protocol_version" where
  "tx_protocol_version (Regular t) = rt_protocol_version t"
| "tx_protocol_version (System t) = st_protocol_version t"

fun tx_raw :: "transaction \<Rightarrow> bytes" where
  "tx_raw (Regular t) = rt_raw t"
| "tx_raw (System t) = st_raw t"

definition contract_action_from :: "bytes \<Rightarrow> bytes \<Rightarrow> contract_attributes \<Rightarrow> contract_action" where
  "contract_action_from address state attributes =
     \<lparr>ca_address = address, ca_state = state, ca_zswap_state = [], ca_extracted_balances = [],
      ca_attributes = attributes\<rparr>"

definition regular_transaction_from :: "node_regular_transaction \<Rightarrow> regular_transaction" where
  "regular_transaction_from t =
     \<lparr>rt_hash = nr_hash t, rt_protocol_version = nr_protocol_version t, rt_raw = nr_raw t,
      rt_identifiers = nr_identifiers t, rt_contract_actions = nr_contract_actions t,
      rt_paid_fees = 0, rt_estimated_fees = 0, rt_transaction_result = Failure,
      rt_zswap_merkle_tree_root = [], rt_zswap_start_index = 0, rt_zswap_end_index = 0,
      rt_dust_commitment_start_index = 0, rt_dust_commitment_end_index = 0,
      rt_dust_generation_start_index = 0, rt_dust_generation_end_index = 0,
      rt_created_unshielded_utxos = [], rt_spent_unshielded_utxos = [], rt_ledger_events = [],
      rt_bridge_claim = None\<rparr>"

definition system_transaction_from :: "node_system_transaction \<Rightarrow> system_transaction" where
  "system_transaction_from t =
     \<lparr>st_hash = ns_hash t, st_protocol_version = ns_protocol_version t, st_raw = ns_raw t,
      st_created_unshielded_utxos = [], st_ledger_events = []\<rparr>"

definition block_ref_from :: "'r node_block \<Rightarrow> block_ref" where
  "block_ref_from b = \<lparr>br_hash = nb_hash b, br_height = nb_height b\<rparr>"

text \<open>\<^verbatim>\<open>TryFrom<node::Block> for (Block, Vec<Transaction>)\<close>; \<open>ser_root\<close> serializes the Merkle tree root.\<close>

definition block_try_from ::
  "('r \<Rightarrow> 'e + bytes) \<Rightarrow> 'r node_block \<Rightarrow> 'e + block \<times> node_transaction list" where
  "block_try_from ser_root b =
     and_then (ser_root (nb_zswap_merkle_tree_root b)) (\<lambda>root. Inr
       (\<lparr>bl_hash = nb_hash b, bl_height = nb_height b, bl_protocol_version = nb_protocol_version b,
         bl_parent_hash = nb_parent_hash b, bl_author = nb_author b, bl_timestamp = nb_timestamp b,
         bl_zswap_merkle_tree_root = root, bl_ledger_state_root = nb_ledger_state_root b,
         bl_dust_registration_events = nb_dust_registration_events b,
         bl_bridge_events = nb_bridge_events b, bl_ledger_parameters = [], bl_zswap_end_index = 0,
         bl_dust_commitment_end_index = 0, bl_dust_generation_end_index = 0,
         bl_dust_commitment_merkle_tree_root = [], bl_dust_generation_merkle_tree_root = []\<rparr>,
        nb_transactions b))"

section \<open>Applying a block's transactions to the ledger\<close>

record apply_regular_outcome =
  ro_transaction_result :: transaction_result
  ro_created_unshielded_utxos :: "unshielded_utxo list"
  ro_spent_unshielded_utxos :: "unshielded_utxo list"
  ro_ledger_events :: "ledger_event list"
  ro_fees :: u128
  ro_bridge_claim :: "bridge_claim option"

record apply_system_outcome =
  so_created_unshielded_utxos :: "unshielded_utxo list"
  so_ledger_events :: "ledger_event list"

text \<open>
  The operations of \<^verbatim>\<open>indexer_common::domain::ledger::LedgerState\<close> and \<^verbatim>\<open>ContractState\<close> that applying a
  block uses: \<open>'l\<close> the ledger state, \<open>'e\<close> its errors, \<open>'c\<close> a contract state and \<open>'p\<close> the ledger
  parameters. The arguments of \<open>ld_apply_regular\<close> are those of \<^verbatim>\<open>apply_regular_transaction\<close>: the raw
  transaction, the parent block hash, the block time, the parent block time and the time of the
  well-formedness check.
\<close>

record ('l, 'e, 'c, 'p) ledger_ops =
  ld_zswap_first_free :: "'l \<Rightarrow> u64"
  ld_dust_commitments_first_free :: "'l \<Rightarrow> u64"
  ld_dust_generations_first_free :: "'l \<Rightarrow> u64"
  ld_apply_regular :: "'l \<Rightarrow> bytes \<Rightarrow> bytes \<Rightarrow> u64 \<Rightarrow> u64 \<Rightarrow> u64 \<Rightarrow> 'e + apply_regular_outcome \<times> 'l"
  ld_apply_system :: "'l \<Rightarrow> bytes \<Rightarrow> u64 \<Rightarrow> 'e + apply_system_outcome \<times> 'l"
  ld_finalize :: "'l \<Rightarrow> u64 \<Rightarrow> 'e + 'p \<times> 'l"
  ld_zswap_merkle_tree_root :: "'l \<Rightarrow> 'e + bytes"
  ld_extract_contract_zswap_state :: "'l \<Rightarrow> bytes \<Rightarrow> 'e + bytes"
  ld_contract_state_deserialize :: "bytes \<Rightarrow> ledger_version \<Rightarrow> 'e + 'c"
  ld_contract_state_balances :: "'c \<Rightarrow> 'e + contract_balance list"

datatype 'e ledger_state_error =
    Create 'e
  | Load 'e
  | Translate 'e
  | Unpersist 'e
  | ApplyRegularTransaction "bytes option" 'e
  | ApplySystemTransaction "bytes option" 'e
  | PostApplyTransactions 'e
  | SerializeMerkleTreeRoot bytes 'e
  | ExtractContractZswapState bytes 'e
  | DeserializeContractState bytes bytes 'e
  | GetContractBalances bytes bytes 'e

definition MEMPOOL_TBLOCK_BUMP_MILLIS :: u64 where
  "MEMPOOL_TBLOCK_BUMP_MILLIS = 2 * 6000"

text \<open>The body of the loop over a transaction's contract actions.\<close>

definition update_contract_action ::
  "('l, 'e, 'c, 'p) ledger_ops \<Rightarrow> 'l \<Rightarrow> bytes \<Rightarrow> protocol_version \<Rightarrow> contract_action
     \<Rightarrow> 'e ledger_state_error + contract_action" where
  "update_contract_action ops l hash version action =
     and_then (map_err (ExtractContractZswapState hash)
         (ld_extract_contract_zswap_state ops l (ca_address action))) (\<lambda>zswap_state.
     let action = action\<lparr>ca_zswap_state := zswap_state\<rparr> in
     if ca_state action \<noteq> [] then
       and_then (map_err (DeserializeContractState hash (ca_address action))
           (ld_contract_state_deserialize ops (ca_state action) (pv_ledger_version version)))
         (\<lambda>contract_state.
       and_then (map_err (GetContractBalances hash (ca_address action))
           (ld_contract_state_balances ops contract_state))
         (\<lambda>balances. Inr (action\<lparr>ca_extracted_balances := balances\<rparr>)))
     else Inr action)"

definition apply_regular_transaction ::
  "('l, 'e, 'c, 'p) ledger_ops \<Rightarrow> 'l \<Rightarrow> node_regular_transaction \<Rightarrow> bytes \<Rightarrow> u64 \<Rightarrow> u64 \<Rightarrow> u64
     \<Rightarrow> 'e ledger_state_error + transaction \<times> 'l" where
  "apply_regular_transaction ops l node_tx parent_block_hash block_timestamp parent_block_timestamp
       well_formed_timestamp =
     (let t = regular_transaction_from node_tx;
          start_index = ld_zswap_first_free ops l;
          dust_commitment_start_index = ld_dust_commitments_first_free ops l;
          dust_generation_start_index = ld_dust_generations_first_free ops l in
      and_then (map_err (ApplyRegularTransaction (Some (rt_hash t)))
          (ld_apply_regular ops l (rt_raw t) parent_block_hash block_timestamp parent_block_timestamp
             well_formed_timestamp)) (\<lambda>(outcome, l').
      and_then (map_err (SerializeMerkleTreeRoot (rt_hash t)) (ld_zswap_merkle_tree_root ops l'))
        (\<lambda>root.
      and_then (try_map (update_contract_action ops l' (rt_hash t) (rt_protocol_version t))
          (rt_contract_actions t)) (\<lambda>actions.
        Inr (Regular (t\<lparr>
               rt_transaction_result := ro_transaction_result outcome,
               rt_zswap_merkle_tree_root := root,
               rt_zswap_start_index := start_index,
               rt_zswap_end_index := ld_zswap_first_free ops l',
               rt_dust_commitment_start_index := dust_commitment_start_index,
               rt_dust_commitment_end_index := ld_dust_commitments_first_free ops l',
               rt_dust_generation_start_index := dust_generation_start_index,
               rt_dust_generation_end_index := ld_dust_generations_first_free ops l',
               rt_created_unshielded_utxos := ro_created_unshielded_utxos outcome,
               rt_spent_unshielded_utxos := ro_spent_unshielded_utxos outcome,
               rt_ledger_events := ro_ledger_events outcome,
               rt_paid_fees := ro_fees outcome,
               rt_estimated_fees := ro_fees outcome,
               rt_bridge_claim := ro_bridge_claim outcome,
               rt_contract_actions := actions\<rparr>), l')))))"

definition apply_system_transaction ::
  "('l, 'e, 'c, 'p) ledger_ops \<Rightarrow> 'l \<Rightarrow> node_system_transaction \<Rightarrow> u64
     \<Rightarrow> 'e ledger_state_error + transaction \<times> 'l" where
  "apply_system_transaction ops l node_tx block_timestamp =
     (let t = system_transaction_from node_tx in
      and_then (map_err (ApplySystemTransaction (Some (st_hash t)))
          (ld_apply_system ops l (st_raw t) block_timestamp)) (\<lambda>(outcome, l').
        Inr (System (t\<lparr>
               st_created_unshielded_utxos := so_created_unshielded_utxos outcome,
               st_ledger_events := so_ledger_events outcome\<rparr>), l')))"

text \<open>The iteration of \<^verbatim>\<open>apply_transactions\<close> with its flag for the first regular transaction.\<close>

fun apply_transactions_loop ::
  "('l, 'e, 'c, 'p) ledger_ops \<Rightarrow> bytes \<Rightarrow> u64 \<Rightarrow> u64 \<Rightarrow> bool \<Rightarrow> bool \<Rightarrow> 'l \<Rightarrow> node_transaction list
     \<Rightarrow> 'e ledger_state_error + transaction list \<times> 'l" where
  "apply_transactions_loop ops parent_hash ts parent_ts bump first l [] = Inr ([], l)"
| "apply_transactions_loop ops parent_hash ts parent_ts bump first l (NodeRegular t # txs) =
     (let well_formed_timestamp =
            (if first \<and> bump then parent_ts + MEMPOOL_TBLOCK_BUMP_MILLIS else ts) in
      and_then (apply_regular_transaction ops l t parent_hash ts parent_ts well_formed_timestamp)
        (\<lambda>(tx, l').
      and_then (apply_transactions_loop ops parent_hash ts parent_ts bump False l' txs)
        (\<lambda>(rest, l''). Inr (tx # rest, l''))))"
| "apply_transactions_loop ops parent_hash ts parent_ts bump first l (NodeSystem t # txs) =
     and_then (apply_system_transaction ops l t ts) (\<lambda>(tx, l').
     and_then (apply_transactions_loop ops parent_hash ts parent_ts bump first l' txs)
       (\<lambda>(rest, l''). Inr (tx # rest, l'')))"

definition apply_transactions ::
  "('l, 'e, 'c, 'p) ledger_ops \<Rightarrow> 'l \<Rightarrow> node_transaction list \<Rightarrow> bytes \<Rightarrow> u64 \<Rightarrow> u64 \<Rightarrow> bool
     \<Rightarrow> 'e ledger_state_error + (transaction list \<times> 'p) \<times> 'l" where
  "apply_transactions ops l txs parent_block_hash block_timestamp parent_block_timestamp bump =
     and_then (apply_transactions_loop ops parent_block_hash block_timestamp parent_block_timestamp
         bump True l txs) (\<lambda>(transactions, l').
     and_then (map_err PostApplyTransactions (ld_finalize ops l' block_timestamp))
       (\<lambda>(ledger_parameters, l''). Inr ((transactions, ledger_parameters), l'')))"

definition highest_zswap_state_index :: "('l, 'e, 'c, 'p) ledger_ops \<Rightarrow> 'l \<Rightarrow> u64 option" where
  "highest_zswap_state_index ops l =
     (if ld_zswap_first_free ops l \<noteq> 0 then Some (ld_zswap_first_free ops l - 1) else None)"

section \<open>Reference definitions\<close>

fun node_tx_key :: "node_transaction \<Rightarrow> transaction_variant \<times> bytes \<times> protocol_version \<times> bytes" where
  "node_tx_key (NodeRegular t) = (RegularVariant, nr_hash t, nr_protocol_version t, nr_raw t)"
| "node_tx_key (NodeSystem t) = (SystemVariant, ns_hash t, ns_protocol_version t, ns_raw t)"

definition tx_key :: "transaction \<Rightarrow> transaction_variant \<times> bytes \<times> protocol_version \<times> bytes" where
  "tx_key t = (tx_variant t, tx_hash t, tx_protocol_version t, tx_raw t)"

fun is_node_regular :: "node_transaction \<Rightarrow> bool" where
  "is_node_regular (NodeRegular _) = True"
| "is_node_regular (NodeSystem _) = False"

text \<open>One transaction applied with the given time for its well-formedness check.\<close>

definition apply_one ::
  "('l, 'e, 'c, 'p) ledger_ops \<Rightarrow> bytes \<Rightarrow> u64 \<Rightarrow> u64 \<Rightarrow> 'l \<Rightarrow> node_transaction \<times> u64
     \<Rightarrow> 'e ledger_state_error + transaction \<times> 'l" where
  "apply_one ops parent_hash ts parent_ts l = (\<lambda>(tx, wf_ts).
     case tx of
       NodeRegular t \<Rightarrow> apply_regular_transaction ops l t parent_hash ts parent_ts wf_ts
     | NodeSystem t \<Rightarrow> apply_system_transaction ops l t ts)"

definition apply_all ::
  "('l, 'e, 'c, 'p) ledger_ops \<Rightarrow> bytes \<Rightarrow> u64 \<Rightarrow> u64 \<Rightarrow> 'l \<Rightarrow> (node_transaction \<times> u64) list
     \<Rightarrow> 'e ledger_state_error + transaction list \<times> 'l" where
  "apply_all ops parent_hash ts parent_ts l txs =
     try_fold (\<lambda>(done, l) tx. map_ok (\<lambda>(t, l'). (done @ [t], l')) (apply_one ops parent_hash ts parent_ts l tx))
       ([], l) txs"

text \<open>The time the first regular transaction, and every other one, is checked against.\<close>

definition with_tblock :: "u64 \<Rightarrow> u64 \<Rightarrow> node_transaction list \<Rightarrow> (node_transaction \<times> u64) list" where
  "with_tblock first_ts ts txs =
     (let pre = takeWhile (\<lambda>t. \<not> is_node_regular t) txs;
          post = dropWhile (\<lambda>t. \<not> is_node_regular t) txs
      in map (\<lambda>t. (t, ts)) pre @
         (case post of [] \<Rightarrow> [] | t # rest \<Rightarrow> (t, first_ts) # map (\<lambda>t. (t, ts)) rest))"

text \<open>Intervals in order from \<open>lo\<close> to \<open>hi\<close>, none overlapping another.\<close>

fun interval_chain :: "u64 \<Rightarrow> (u64 \<times> u64) list \<Rightarrow> u64 \<Rightarrow> bool" where
  "interval_chain lo [] hi = (lo \<le> hi)"
| "interval_chain lo ((s, e) # is) hi = (lo \<le> s \<and> s \<le> e \<and> interval_chain e is hi)"

definition regular_intervals ::
  "(regular_transaction \<Rightarrow> u64) \<Rightarrow> (regular_transaction \<Rightarrow> u64) \<Rightarrow> transaction list \<Rightarrow> (u64 \<times> u64) list" where
  "regular_intervals start stop txs =
     concat (map (\<lambda>t. case t of Regular r \<Rightarrow> [(start r, stop r)] | System _ \<Rightarrow> []) txs)"

text \<open>The ledger's append-only trees: no operation lowers a first-free index.\<close>

definition never_shrinks :: "('l, 'e, 'c, 'p) ledger_ops \<Rightarrow> ('l \<Rightarrow> u64) \<Rightarrow> bool" where
  "never_shrinks ops ff \<longleftrightarrow>
     (\<forall>l raw ph ts pts wts out l'. ld_apply_regular ops l raw ph ts pts wts = Inr (out, l') \<longrightarrow> ff l \<le> ff l')
   \<and> (\<forall>l raw ts out l'. ld_apply_system ops l raw ts = Inr (out, l') \<longrightarrow> ff l \<le> ff l')
   \<and> (\<forall>l ts p l'. ld_finalize ops l ts = Inr (p, l') \<longrightarrow> ff l \<le> ff l')"

section \<open>One transaction\<close>

lemma apply_regular_transaction_ok:
  assumes "apply_regular_transaction ops l t ph ts pts wts = Inr (tx, l')"
  shows "\<exists>r out. tx = Regular r \<and> ld_apply_regular ops l (nr_raw t) ph ts pts wts = Inr (out, l')
    \<and> rt_hash r = nr_hash t \<and> rt_protocol_version r = nr_protocol_version t \<and> rt_raw r = nr_raw t
    \<and> rt_zswap_start_index r = ld_zswap_first_free ops l \<and> rt_zswap_end_index r = ld_zswap_first_free ops l'
    \<and> rt_dust_commitment_start_index r = ld_dust_commitments_first_free ops l
    \<and> rt_dust_commitment_end_index r = ld_dust_commitments_first_free ops l'
    \<and> rt_dust_generation_start_index r = ld_dust_generations_first_free ops l
    \<and> rt_dust_generation_end_index r = ld_dust_generations_first_free ops l'"
  using assms
  by (auto simp: apply_regular_transaction_def regular_transaction_from_def Let_def res_simps)

lemma apply_system_transaction_ok:
  assumes "apply_system_transaction ops l t ts = Inr (tx, l')"
  shows "\<exists>s out. tx = System s \<and> ld_apply_system ops l (ns_raw t) ts = Inr (out, l')
    \<and> st_hash s = ns_hash t \<and> st_protocol_version s = ns_protocol_version t \<and> st_raw s = ns_raw t"
  using assms
  by (auto simp: apply_system_transaction_def system_transaction_from_def Let_def res_simps)

lemma apply_one_key: "apply_one ops ph ts pts l (t, w) = Inr (tx, l') \<Longrightarrow> tx_key tx = node_tx_key t"
  by (cases t)
    (auto simp: apply_one_def tx_key_def dest!: apply_regular_transaction_ok apply_system_transaction_ok)

section \<open>The loop\<close>

lemma apply_all_Cons:
  "apply_all ops ph ts pts l (tx # txs) =
     and_then (apply_one ops ph ts pts l tx) (\<lambda>(t, l').
     and_then (apply_all ops ph ts pts l' txs) (\<lambda>(rest, l''). Inr (t # rest, l'')))"
proof -
  let ?f = "\<lambda>(done, l) tx. map_ok (\<lambda>(t, l'). (done @ [t], l')) (apply_one ops ph ts pts l tx)"
  have gen: "try_fold ?f (acc, l) xs = map_ok (\<lambda>(ys, l'). (acc @ ys, l')) (try_fold ?f ([], l) xs)" for acc l xs
  proof (induction xs arbitrary: acc l)
    case (Cons x xs)
    show ?case
    proof (cases "apply_one ops ph ts pts l x")
      case (Inr tl)
      then show ?thesis using Cons [of "acc @ [fst tl]" "snd tl"] Cons [of "[fst tl]" "snd tl"]
        by (auto simp: split_def map_ok_def split: sum.splits)
    qed simp
  qed simp
  show ?thesis
  proof (cases "apply_one ops ph ts pts l tx")
    case (Inr p)
    obtain t l1 where p: "p = (t, l1)" by (cases p)
    show ?thesis using Inr gen [of "[t]" l1 txs]
      by (cases "try_fold ?f ([], l1) txs") (auto simp: p apply_all_def)
  qed (simp add: apply_all_def)
qed

lemma apply_all_Nil: "apply_all ops ph ts pts l [] = Inr ([], l)"
  by (simp add: apply_all_def)

lemma apply_loop_plain:
  "\<not> (first \<and> bump) \<Longrightarrow>
     apply_transactions_loop ops ph ts pts bump first l txs = apply_all ops ph ts pts l (map (\<lambda>t. (t, ts)) txs)"
proof (induction txs arbitrary: l first)
  case (Cons t txs)
  then show ?case by (cases t) (auto simp: apply_all_Cons apply_one_def Let_def)
qed (simp add: apply_all_Nil)

lemma apply_loop_tblock:
  "apply_transactions_loop ops ph ts pts bump True l txs =
     apply_all ops ph ts pts l
       (with_tblock (if bump then pts + MEMPOOL_TBLOCK_BUMP_MILLIS else ts) ts txs)"
proof (induction txs arbitrary: l)
  case (Cons t txs)
  then show ?case
    by (cases t) (auto simp: apply_all_Cons apply_one_def with_tblock_def apply_loop_plain Let_def
        split del: if_split)
qed (simp add: apply_all_Nil with_tblock_def)

lemma apply_all_keys:
  "apply_all ops ph ts pts l txs = Inr (ts', l') \<Longrightarrow> map tx_key ts' = map (node_tx_key \<circ> fst) txs"
proof (induction txs arbitrary: l ts')
  case (Cons tw txs)
  then obtain t l1 rest where "apply_one ops ph ts pts l tw = Inr (t, l1)" "ts' = t # rest"
    "apply_all ops ph ts pts l1 txs = Inr (rest, l')"
    by (auto simp: apply_all_Cons res_simps)
  then show ?case using Cons.IH apply_one_key by (cases tw) auto
qed (simp add: apply_all_Nil)

lemma map_fst_with_tblock: "map fst (with_tblock f ts txs) = txs"
  by (auto simp: with_tblock_def comp_def Let_def split: list.splits) (metis takeWhile_dropWhile_id)+

lemma apply_all_chain:
  assumes "never_shrinks ops ff"
    and idx: "\<And>l t w l' r. apply_one ops ph ts pts l (NodeRegular t, w) = Inr (Regular r, l') \<Longrightarrow>
      start r = ff l \<and> stop r = ff l'"
  shows "lo \<le> ff l \<Longrightarrow> ff l' \<le> hi \<Longrightarrow> apply_all ops ph ts pts l txs = Inr (ts', l') \<Longrightarrow>
    interval_chain lo (regular_intervals start stop ts') hi"
proof (induction txs arbitrary: l ts' lo)
  case Nil
  then show ?case by (simp add: apply_all_Nil regular_intervals_def)
next
  case (Cons tw txs)
  obtain t w where tw: "tw = (t, w)" by (cases tw)
  from Cons.prems(3) obtain tx l1 rest where one: "apply_one ops ph ts pts l (t, w) = Inr (tx, l1)"
    and ts': "ts' = tx # rest" and all: "apply_all ops ph ts pts l1 txs = Inr (rest, l')"
    by (auto simp: tw apply_all_Cons res_simps)
  show ?case
  proof (cases t)
    case (NodeRegular t')
    then obtain r out where tx: "tx = Regular r" and ap: "ld_apply_regular ops l (nr_raw t') ph ts pts w = Inr (out, l1)"
      using one by (auto simp: apply_one_def dest!: apply_regular_transaction_ok)
    have "ff l \<le> ff l1" using assms(1) ap by (auto simp: never_shrinks_def)
    then show ?thesis using Cons.IH [of "ff l1" l1 rest] Cons.prems all idx one NodeRegular
      by (auto simp: ts' tx regular_intervals_def)
  next
    case (NodeSystem t')
    then obtain s out where tx: "tx = System s" and ap: "ld_apply_system ops l (ns_raw t') ts = Inr (out, l1)"
      using one by (auto simp: apply_one_def dest!: apply_system_transaction_ok)
    have "ff l \<le> ff l1" using assms(1) ap by (auto simp: never_shrinks_def)
    then have "lo \<le> ff l1" using Cons.prems(1) by (rule order_trans [rotated])
    then show ?thesis using Cons.IH [of lo l1 rest] Cons.prems all
      by (auto simp: ts' tx regular_intervals_def)
  qed
qed

section \<open>Properties\<close>

text \<open>
  C18. \<^verbatim>\<open>apply_transactions\<close> checks the well-formedness of exactly the first regular transaction of the
  block against the parent block's time bumped by two slots, when bumping is asked for, and of every
  other transaction against the block's own time: it is the stateless run over the transactions
  annotated with those times, followed by the ledger's post-processing.
\<close>

theorem apply_transactions_tblock:
  "apply_transactions ops l txs ph ts pts bump =
     and_then (apply_all ops ph ts pts l
         (with_tblock (if bump then pts + MEMPOOL_TBLOCK_BUMP_MILLIS else ts) ts txs)) (\<lambda>(transactions, l').
     and_then (map_err PostApplyTransactions (ld_finalize ops l' ts))
       (\<lambda>(params, l''). Inr ((transactions, params), l'')))"
  by (simp add: apply_transactions_def apply_loop_tblock)

text \<open>
  One domain transaction per node transaction, in the same order, with the same variant, hash,
  protocol version and raw bytes; and the index intervals recorded for the block's regular
  transactions in the zswap, dust commitment and dust generation trees follow each other without
  overlap, between the ledger's first free indices before and after the block. That the ledger never
  lowers a first free index is a hypothesis.
\<close>

theorem apply_transactions_indices:
  assumes "apply_transactions ops l txs ph ts pts bump = Inr ((transactions, params), l')"
    and "never_shrinks ops (ld_zswap_first_free ops)"
    and "never_shrinks ops (ld_dust_commitments_first_free ops)"
    and "never_shrinks ops (ld_dust_generations_first_free ops)"
  shows "map tx_key transactions = map node_tx_key txs
    \<and> interval_chain (ld_zswap_first_free ops l)
        (regular_intervals rt_zswap_start_index rt_zswap_end_index transactions) (ld_zswap_first_free ops l')
    \<and> interval_chain (ld_dust_commitments_first_free ops l)
        (regular_intervals rt_dust_commitment_start_index rt_dust_commitment_end_index transactions)
        (ld_dust_commitments_first_free ops l')
    \<and> interval_chain (ld_dust_generations_first_free ops l)
        (regular_intervals rt_dust_generation_start_index rt_dust_generation_end_index transactions)
        (ld_dust_generations_first_free ops l')"
proof -
  let ?w = "with_tblock (if bump then pts + MEMPOOL_TBLOCK_BUMP_MILLIS else ts) ts txs"
  obtain l1 where all: "apply_all ops ph ts pts l ?w = Inr (transactions, l1)"
    and fin: "ld_finalize ops l1 ts = Inr (params, l')"
    using assms(1) by (auto simp: apply_transactions_def apply_loop_tblock res_simps split del: if_split)
  have keys: "map tx_key transactions = map node_tx_key txs"
    using apply_all_keys [OF all] by (simp only: list.map_comp [symmetric] map_fst_with_tblock)
  have chain: "interval_chain (ff l) (regular_intervals start stop transactions) (ff l')"
    if ns: "never_shrinks ops ff"
      and "\<And>l t w l' r. apply_one ops ph ts pts l (NodeRegular t, w) = Inr (Regular r, l') \<Longrightarrow>
        start r = ff l \<and> stop r = ff l'" for ff start stop
  proof (rule apply_all_chain [OF ns that(2) order_refl _ all])
    show "ff l1 \<le> ff l'" using ns fin by (auto simp: never_shrinks_def)
  qed
  show ?thesis
    using keys by (intro conjI chain assms(2-4)) (auto simp: apply_one_def dest!: apply_regular_transaction_ok)
qed

text \<open>A ledger that only counts, to run the definitions on.\<close>

definition counting_ledger :: "(u64, unit, unit, unit) ledger_ops" where
  "counting_ledger =
     \<lparr>ld_zswap_first_free = id, ld_dust_commitments_first_free = (\<lambda>l. 0),
      ld_dust_generations_first_free = (\<lambda>l. 0),
      ld_apply_regular = (\<lambda>l raw ph ts pts wts.
        if ts < wts then Inl () else
        Inr (\<lparr>ro_transaction_result = Success, ro_created_unshielded_utxos = [], ro_spent_unshielded_utxos = [],
              ro_ledger_events = [], ro_fees = 0, ro_bridge_claim = None\<rparr>, if l < 100 then l + 2 else l)),
      ld_apply_system = (\<lambda>l raw ts. Inr (\<lparr>so_created_unshielded_utxos = [], so_ledger_events = []\<rparr>, l)),
      ld_finalize = (\<lambda>l ts. Inr ((), l)),
      ld_zswap_merkle_tree_root = (\<lambda>l. Inr []),
      ld_extract_contract_zswap_state = (\<lambda>l a. Inr []),
      ld_contract_state_deserialize = (\<lambda>s v. Inr ()),
      ld_contract_state_balances = (\<lambda>c. Inr [])\<rparr>"

definition sample_tx :: "u8 \<Rightarrow> node_regular_transaction" where
  "sample_tx h = \<lparr>nr_hash = [h], nr_protocol_version = V2_1 2001000, nr_raw = [h], nr_identifiers = [],
     nr_contract_actions = []\<rparr>"

lemma counting_never_shrinks:
  "never_shrinks counting_ledger (ld_zswap_first_free counting_ledger)"
  "never_shrinks counting_ledger (ld_dust_commitments_first_free counting_ledger)"
  "never_shrinks counting_ledger (ld_dust_generations_first_free counting_ledger)"
proof -
  have "l \<le> l + 2" if "l < 100" for l :: u64
  proof -
    have "unat l < 100" using that by (simp add: word_less_nat_alt)
    then show ?thesis by (simp add: word_le_nat_alt unat_word_ariths)
  qed
  then show "never_shrinks counting_ledger (ld_zswap_first_free counting_ledger)"
    by (auto simp: never_shrinks_def counting_ledger_def split: if_splits)
qed (auto simp: never_shrinks_def counting_ledger_def)

theorem apply_transactions_indices_witness:
  "\<exists>transactions. apply_transactions counting_ledger 5 [NodeRegular (sample_tx 1), NodeRegular (sample_tx 2)] [7] 20000 6000 True
     = Inr ((transactions, ()), 9)
   \<and> regular_intervals rt_zswap_start_index rt_zswap_end_index transactions = [(5, 7), (7, 9)]
   \<and> interval_chain 5 (regular_intervals rt_zswap_start_index rt_zswap_end_index transactions) 9"
proof -
  define run where "run = apply_transactions counting_ledger 5
      [NodeRegular (sample_tx 1), NodeRegular (sample_tx 2)] [7] 20000 6000 True"
  obtain transactions where r: "run = Inr ((transactions, ()), 9)"
    and iv: "regular_intervals rt_zswap_start_index rt_zswap_end_index transactions = [(5, 7), (7, 9)]"
    by (simp add: run_def apply_transactions_def apply_regular_transaction_def counting_ledger_def sample_tx_def
        regular_transaction_from_def MEMPOOL_TBLOCK_BUMP_MILLIS_def regular_intervals_def Let_def)
  have "ld_zswap_first_free counting_ledger l = l" for l by (simp add: counting_ledger_def)
  then show ?thesis
    using r iv apply_transactions_indices [OF r [unfolded run_def] counting_never_shrinks]
    unfolding run_def by auto
qed

end
