(* ===== verification/Chain_Schema.thy ===== *)
theory Chain_Schema
  imports Chain_Domain
begin

text \<open>
  The tables of the chain indexer's database, from the schema of \<^verbatim>\<open>indexer-common/migrations\<close> and the
  columns bound in \<^verbatim>\<open>chain-indexer/src/infra/storage.rs\<close>, with inserts under the schema's unique
  constraints, foreign keys as predicates on tables, and the well-formedness of a database.
  \<^verbatim>\<open>Json(..)\<close> columns hold the value itself.
\<close>

section \<open>Rows and tables\<close>

datatype sqlx_error =
    UniqueViolation string | ForeignKeyViolation string | Protocol nat nat | Decode | Encode | RowNotFound
  | InvalidOffset

record block_row =
  b_hash :: bytes
  b_height :: i64
  b_protocol_version :: i64
  b_parent_hash :: bytes
  b_author :: "bytes option"
  b_timestamp :: i64
  b_zswap_merkle_tree_root :: bytes
  b_ledger_parameters :: bytes
  b_ledger_state_key :: bytes
  b_zswap_end_index :: i64
  b_dust_commitment_end_index :: i64
  b_dust_generation_end_index :: i64
  b_dust_commitment_merkle_tree_root :: bytes
  b_dust_generation_merkle_tree_root :: bytes

record transaction_row =
  t_block_id :: i64
  t_variant :: transaction_variant
  t_hash :: bytes
  t_protocol_version :: i64
  t_raw :: bytes

record regular_transaction_row =
  r_id :: i64
  r_transaction_result :: transaction_result
  r_zswap_merkle_tree_root :: bytes
  r_zswap_start_index :: i64
  r_zswap_end_index :: i64
  r_dust_commitment_start_index :: i64
  r_dust_commitment_end_index :: i64
  r_dust_generation_start_index :: i64
  r_dust_generation_end_index :: i64
  r_paid_fees :: bytes
  r_estimated_fees :: bytes
  r_identifiers :: "bytes list"

datatype contract_action_variant = DeployVariant | CallVariant | UpdateVariant

record contract_action_row =
  a_transaction_id :: i64
  a_variant :: contract_action_variant
  a_address :: bytes
  a_state :: bytes
  a_zswap_state :: bytes
  a_attributes :: contract_attributes

record contract_balance_row =
  cbr_contract_action_id :: i64
  cbr_token_type :: bytes
  cbr_amount :: bytes

record unshielded_utxo_row =
  u_creating_transaction_id :: i64
  u_spending_transaction_id :: "i64 option"
  u_owner :: bytes
  u_token_type :: bytes
  u_value :: bytes
  u_intent_hash :: bytes
  u_output_index :: i64
  u_ctime :: "i64 option"
  u_initial_nonce :: bytes
  u_registered_for_dust_generation :: bool

datatype ledger_event_variant =
    VZswapInput | VZswapOutput | VParamChange | VDustInitialUtxo | VDustGenerationDtimeUpdate
  | VDustSpendProcessed | VShieldedSpend | VShieldedReceive | VShieldedMint | VShieldedBurn
  | VUnshieldedSpend | VUnshieldedReceive | VUnshieldedMint | VUnshieldedBurn | VPaused | VUnpaused
  | VMisc

record ledger_event_row =
  e_transaction_id :: i64
  e_variant :: ledger_event_variant
  e_grouping :: ledger_event_grouping
  e_raw :: bytes
  e_attributes :: ledger_event_attributes
  e_contract_address :: "bytes option"
  e_contract_action_id :: "i64 option"

record indexed_field_row =
  f_ledger_event_id :: i64
  f_name :: string
  f_value :: bytes

record dust_generation_row =
  g_night_utxo_hash :: bytes
  g_value :: bytes
  g_owner :: bytes
  g_nonce :: bytes
  g_ctime :: i64
  g_merkle_index :: i64
  g_generation_index :: i64
  g_backing_night :: bytes
  g_initial_value :: bytes
  g_dtime :: "i64 option"
  g_transaction_id :: i64

record nullifier_row =
  n_nullifier :: bytes
  n_commitment :: "bytes option"
  n_transaction_id :: i64
  n_block_id :: i64

record registration_row =
  c_cardano_stake_key :: bytes
  c_dust_address :: bytes
  c_valid :: bool
  c_registered_at :: i64
  c_removed_at :: "i64 option"
  c_block_id :: i64
  c_utxo_tx_hash :: "bytes option"
  c_utxo_output_index :: "i64 option"

record d_parameter_row =
  d_block_height :: i64
  d_block_hash :: bytes
  d_timestamp :: i64
  d_num_permissioned :: i32
  d_num_registered :: i32

record terms_row =
  tc_block_height :: i64
  tc_block_hash :: bytes
  tc_timestamp :: i64
  tc_row_hash :: bytes
  tc_row_url :: string

record bridge_claim_row =
  bcr_transaction_id :: i64
  bcr_recipient :: bytes
  bcr_amount :: bytes

record bridge_event_row =
  ber_block_id :: i64
  ber_transaction_id :: "i64 option"
  ber_variant :: bridge_event_variant
  ber_mc_tx_hash :: "bytes option"
  ber_amount :: bytes
  ber_recipient :: "bytes option"
  ber_midnight_tx_hash :: bytes
  ber_count :: "i32 option"

record chain_db =
  blocks :: "block_row table"
  transactions :: "transaction_row table"
  regular_transactions :: "regular_transaction_row list"
  transaction_identifiers :: "(i64 \<times> bytes) table"
  contract_actions :: "contract_action_row table"
  contract_balances :: "contract_balance_row table"
  unshielded_utxos :: "unshielded_utxo_row table"
  ledger_events :: "ledger_event_row table"
  indexed_fields :: "indexed_field_row table"
  dust_generation_infos :: "dust_generation_row table"
  dust_nullifiers :: "nullifier_row table"
  zswap_nullifiers :: "nullifier_row table"
  cnight_registrations :: "registration_row table"
  system_parameters_d :: "d_parameter_row table"
  system_parameters_tc :: "terms_row table"
  bridge_claims :: "bridge_claim_row table"
  bridge_events :: "bridge_event_row table"

definition empty_chain_db :: chain_db where
  "empty_chain_db =
     \<lparr>blocks = empty_table, transactions = empty_table, regular_transactions = [],
      transaction_identifiers = empty_table, contract_actions = empty_table,
      contract_balances = empty_table, unshielded_utxos = empty_table, ledger_events = empty_table,
      indexed_fields = empty_table, dust_generation_infos = empty_table,
      dust_nullifiers = empty_table, zswap_nullifiers = empty_table,
      cnight_registrations = empty_table, system_parameters_d = empty_table,
      system_parameters_tc = empty_table, bridge_claims = empty_table, bridge_events = empty_table\<rparr>"

definition utxo_key :: "unshielded_utxo_row \<Rightarrow> bytes \<times> i64" where
  "utxo_key r = (u_intent_hash r, u_output_index r)"

section \<open>Inserting under constraints\<close>

definition conflicts :: "('r \<Rightarrow> 'k) \<Rightarrow> 'r list \<Rightarrow> 'r table \<Rightarrow> bool" where
  "conflicts key rs t \<longleftrightarrow>
     \<not> distinct (map key rs) \<or> (\<exists>r \<in> set rs. key r \<in> set (map (key \<circ> snd) (tab_rows t)))"

definition insert_unique ::
  "string \<Rightarrow> ('r \<Rightarrow> 'k) \<Rightarrow> 'r list \<Rightarrow> 'r table \<Rightarrow> sqlx_error + i64 list \<times> 'r table" where
  "insert_unique constraint key rs t =
     (if conflicts key rs t then Inl (UniqueViolation constraint) else Inr (insert_rows rs t))"

text \<open>\<^verbatim>\<open>x as i32\<close> on a \<^verbatim>\<open>u32\<close> and on a \<^verbatim>\<open>u16\<close>.\<close>

definition as_i32 :: "u32 \<Rightarrow> i32" where
  "as_i32 w = sint w"

definition u16_as_i32 :: "u16 \<Rightarrow> i32" where
  "u16_as_i32 w = uint w"

definition u32_as_i64 :: "u32 \<Rightarrow> i64" where
  "u32_as_i64 w = uint w"

section \<open>Well-formed databases\<close>

definition fk :: "('r \<Rightarrow> i64) \<Rightarrow> 'r table \<Rightarrow> i64 set \<Rightarrow> bool" where
  "fk f t ids \<longleftrightarrow> (\<forall>r \<in> snd ` set (tab_rows t). f r \<in> ids)"

definition fk_opt :: "('r \<Rightarrow> i64 option) \<Rightarrow> 'r table \<Rightarrow> i64 set \<Rightarrow> bool" where
  "fk_opt f t ids \<longleftrightarrow> (\<forall>r \<in> snd ` set (tab_rows t). set_option (f r) \<subseteq> ids)"

definition unique :: "('r \<Rightarrow> 'k) \<Rightarrow> 'r table \<Rightarrow> bool" where
  "unique key t \<longleftrightarrow> distinct (map (key \<circ> snd) (tab_rows t))"

text \<open>Ids are assigned in order, unique constraints hold, and every reference has its row.\<close>

definition tables_ok :: "chain_db \<Rightarrow> bool" where
  "tables_ok db \<longleftrightarrow>
     table_ok (blocks db) \<and> table_ok (transactions db) \<and> table_ok (transaction_identifiers db)
   \<and> table_ok (contract_actions db) \<and> table_ok (contract_balances db)
   \<and> table_ok (unshielded_utxos db) \<and> table_ok (ledger_events db) \<and> table_ok (indexed_fields db)
   \<and> table_ok (dust_generation_infos db) \<and> table_ok (dust_nullifiers db)
   \<and> table_ok (zswap_nullifiers db) \<and> table_ok (cnight_registrations db)
   \<and> table_ok (system_parameters_d db) \<and> table_ok (system_parameters_tc db)
   \<and> table_ok (bridge_claims db) \<and> table_ok (bridge_events db)"

definition keys_ok :: "chain_db \<Rightarrow> bool" where
  "keys_ok db \<longleftrightarrow>
     unique b_hash (blocks db) \<and> unique b_height (blocks db)
   \<and> distinct (map r_id (regular_transactions db))
   \<and> unique (\<lambda>r. (cbr_contract_action_id r, cbr_token_type r)) (contract_balances db)
   \<and> unique utxo_key (unshielded_utxos db)
   \<and> unique (\<lambda>r. (c_cardano_stake_key r, c_dust_address r)) (cnight_registrations db)"

definition refs_ok :: "chain_db \<Rightarrow> bool" where
  "refs_ok db \<longleftrightarrow>
     fk t_block_id (transactions db) (table_ids (blocks db))
   \<and> r_id ` set (regular_transactions db) \<subseteq> table_ids (transactions db)
   \<and> fk fst (transaction_identifiers db) (table_ids (transactions db))
   \<and> fk a_transaction_id (contract_actions db) (table_ids (transactions db))
   \<and> fk cbr_contract_action_id (contract_balances db) (table_ids (contract_actions db))
   \<and> fk u_creating_transaction_id (unshielded_utxos db) (table_ids (transactions db))
   \<and> fk_opt u_spending_transaction_id (unshielded_utxos db) (table_ids (transactions db))
   \<and> fk e_transaction_id (ledger_events db) (table_ids (transactions db))
   \<and> fk_opt e_contract_action_id (ledger_events db) (table_ids (contract_actions db))
   \<and> fk f_ledger_event_id (indexed_fields db) (table_ids (ledger_events db))
   \<and> fk g_transaction_id (dust_generation_infos db) (table_ids (transactions db))
   \<and> fk n_transaction_id (dust_nullifiers db) (table_ids (transactions db))
   \<and> fk n_block_id (dust_nullifiers db) (table_ids (blocks db))
   \<and> fk n_transaction_id (zswap_nullifiers db) (table_ids (transactions db))
   \<and> fk n_block_id (zswap_nullifiers db) (table_ids (blocks db))
   \<and> fk c_block_id (cnight_registrations db) (table_ids (blocks db))
   \<and> fk bcr_transaction_id (bridge_claims db) (table_ids (transactions db))
   \<and> fk ber_block_id (bridge_events db) (table_ids (blocks db))
   \<and> fk_opt ber_transaction_id (bridge_events db) (table_ids (transactions db))"

definition db_ok :: "chain_db \<Rightarrow> bool" where
  "db_ok db \<longleftrightarrow> tables_ok db \<and> keys_ok db \<and> refs_ok db"

lemmas db_ok_defs = db_ok_def tables_ok_def keys_ok_def refs_ok_def

lemma db_ok_empty: "db_ok empty_chain_db"
  by (simp add: db_ok_defs empty_chain_db_def fk_def fk_opt_def unique_def)
    (simp add: empty_table_def)

section \<open>Lemmas on constraints\<close>

lemma fk_mono: "fk f t A \<Longrightarrow> A \<subseteq> B \<Longrightarrow> fk f t B"
  by (auto simp: fk_def)

lemma fk_opt_mono: "fk_opt f t A \<Longrightarrow> A \<subseteq> B \<Longrightarrow> fk_opt f t B"
  by (auto simp: fk_opt_def)

lemma rows_insert_rows:
  "snd ` set (tab_rows (snd (insert_rows rs t))) = snd ` set (tab_rows t) \<union> set rs"
proof -
  have "map snd (tab_rows (snd (insert_rows rs t))) = map snd (tab_rows t) @ rs"
    by (simp add: insert_rows_rows insert_rows_length)
  then show ?thesis by (metis image_set set_append)
qed

lemma ids_insert_rows:
  "table_ids (snd (insert_rows rs t)) = table_ids t \<union> set (fst (insert_rows rs t))"
proof -
  have "map fst (tab_rows (snd (insert_rows rs t))) = map fst (tab_rows t) @ fst (insert_rows rs t)"
    by (simp add: insert_rows_rows insert_rows_length)
  then show ?thesis by (metis image_set set_append table_ids_def)
qed

lemma fk_insert_rows: "fk f (snd (insert_rows rs t)) A \<longleftrightarrow> fk f t A \<and> f ` set rs \<subseteq> A"
  by (auto simp: fk_def rows_insert_rows)

lemma fk_opt_insert_rows:
  "fk_opt f (snd (insert_rows rs t)) A \<longleftrightarrow> fk_opt f t A \<and> (\<forall>r \<in> set rs. set_option (f r) \<subseteq> A)"
  by (auto simp: fk_opt_def rows_insert_rows)

lemma unique_insert_rows:
  "unique key t \<Longrightarrow> \<not> conflicts key rs t \<Longrightarrow> unique key (snd (insert_rows rs t))"
proof -
  assume "unique key t" "\<not> conflicts key rs t"
  moreover have "map (key \<circ> snd) (tab_rows (snd (insert_rows rs t)))
      = map (key \<circ> snd) (tab_rows t) @ map key rs"
    by (simp add: insert_rows_rows insert_rows_length flip: map_map)
  ultimately show ?thesis by (force simp: unique_def conflicts_def)
qed

lemma insert_unique_Inr:
  "insert_unique c key rs t = Inr (ids, t') \<longleftrightarrow>
     \<not> conflicts key rs t \<and> ids = fst (insert_rows rs t) \<and> t' = snd (insert_rows rs t)"
  by (auto simp: insert_unique_def)

lemma update_where_rows:
  "map snd (tab_rows (snd (update_where p f t)))
     = map (\<lambda>x. if p x then f (snd x) else snd x) (tab_rows t)"
  by (auto simp: update_where_def)

lemma fk_update_where:
  "(\<And>r. g (f r) = g r) \<Longrightarrow> fk g (snd (update_where p f t)) A = fk g t A"
proof -
  assume g: "\<And>r. g (f r) = g r"
  have "map g (map snd (tab_rows (snd (update_where p f t)))) = map g (map snd (tab_rows t))"
    by (auto simp: update_where_rows g)
  then have eq: "g ` snd ` set (tab_rows (snd (update_where p f t))) = g ` snd ` set (tab_rows t)"
    by (metis image_set)
  have "fk g t' A \<longleftrightarrow> g ` snd ` set (tab_rows t') \<subseteq> A" for t' by (auto simp: fk_def)
  then show ?thesis by (simp only: eq)
qed

lemma unique_update_where:
  "(\<And>r. key (f r) = key r) \<Longrightarrow> unique key (snd (update_where p f t)) = unique key t"
proof -
  assume g: "\<And>r. key (f r) = key r"
  have "map (key \<circ> snd) (tab_rows (snd (update_where p f t))) = map (key \<circ> snd) (tab_rows t)"
    by (auto simp: g update_where_def)
  then show ?thesis by (simp only: unique_def)
qed

lemma fk_opt_update_where:
  "fk_opt g t A \<Longrightarrow> (\<And>r. set_option (g (f r)) \<subseteq> A) \<Longrightarrow> fk_opt g (snd (update_where p f t)) A"
  unfolding fk_opt_def update_where_def by fastforce

lemmas constraint_simps = fk_insert_rows fk_opt_insert_rows ids_insert_rows table_ok_insert_rows
  table_ok_update_where table_ids_update_where

end
