(* ===== verification/Chain_Storage.thy ===== *)
theory Chain_Storage
  imports Chain_Schema
begin

text \<open>
  The storage of the chain indexer, \<^verbatim>\<open>chain-indexer/src/infra/storage.rs\<close>, over the tables of
  \<open>Chain_Schema\<close>. Every query is its effect on the tables, with the constraints of the schema as
  errors; a block is saved in one SQL transaction. Failures of the connection are not modelled.
\<close>

section \<open>Saving\<close>

fun contract_action_variant_from :: "contract_attributes \<Rightarrow> contract_action_variant" where
  "contract_action_variant_from Deploy = DeployVariant"
| "contract_action_variant_from (Call _) = CallVariant"
| "contract_action_variant_from Update = UpdateVariant"

primrec ledger_event_variant_from :: "ledger_event_attributes \<Rightarrow> ledger_event_variant" where
  "ledger_event_variant_from (ZswapInput _) = VZswapInput"
| "ledger_event_variant_from ZswapOutput = VZswapOutput"
| "ledger_event_variant_from ParamChange = VParamChange"
| "ledger_event_variant_from (DustInitialUtxo _ _ _) = VDustInitialUtxo"
| "ledger_event_variant_from (DustGenerationDtimeUpdate _ _ _) = VDustGenerationDtimeUpdate"
| "ledger_event_variant_from (DustSpendProcessed _ _) = VDustSpendProcessed"
| "ledger_event_variant_from (ContractShieldedSpend _ _ _) = VShieldedSpend"
| "ledger_event_variant_from (ContractShieldedReceive _ _ _ _ _) = VShieldedReceive"
| "ledger_event_variant_from (ContractShieldedMint _ _ _ _ _) = VShieldedMint"
| "ledger_event_variant_from (ContractShieldedBurn _ _ _ _) = VShieldedBurn"
| "ledger_event_variant_from (ContractUnshieldedSpend _ _ _ _ _ _) = VUnshieldedSpend"
| "ledger_event_variant_from (ContractUnshieldedReceive _ _ _ _ _ _) = VUnshieldedReceive"
| "ledger_event_variant_from (ContractUnshieldedMint _ _ _ _ _) = VUnshieldedMint"
| "ledger_event_variant_from (ContractUnshieldedBurn _ _ _ _ _) = VUnshieldedBurn"
| "ledger_event_variant_from (ContractPaused _ _) = VPaused"
| "ledger_event_variant_from (ContractUnpaused _ _) = VUnpaused"
| "ledger_event_variant_from (ContractMisc _ _ _ _) = VMisc"

text \<open>\<^verbatim>\<open>save_contract_balances\<close>: one multi-row insert under \<^verbatim>\<open>UNIQUE (contract_action_id, token_type)\<close>.\<close>

definition save_contract_balances ::
  "(i64 \<times> contract_balance) list \<Rightarrow> chain_db \<Rightarrow> sqlx_error + chain_db" where
  "save_contract_balances balances db =
     (if balances = [] then Inr db
      else map_ok (\<lambda>(_, t). db\<lparr>contract_balances := t\<rparr>)
        (insert_unique ''contract_balances'' (\<lambda>r. (cbr_contract_action_id r, cbr_token_type r))
           (map (\<lambda>(action_id, b). \<lparr>cbr_contract_action_id = action_id, cbr_token_type = cb_token_type b,
                  cbr_amount = U128BeBytes (cb_amount b)\<rparr>) balances)
           (contract_balances db)))"

definition contract_action_row_of :: "i64 \<Rightarrow> contract_action \<Rightarrow> contract_action_row" where
  "contract_action_row_of transaction_id action =
     \<lparr>a_transaction_id = transaction_id,
      a_variant = contract_action_variant_from (ca_attributes action),
      a_address = ca_address action, a_state = ca_state action,
      a_zswap_state = ca_zswap_state action, a_attributes = ca_attributes action\<rparr>"

definition save_contract_actions ::
  "contract_action list \<Rightarrow> i64 \<Rightarrow> chain_db \<Rightarrow> sqlx_error + i64 list \<times> chain_db" where
  "save_contract_actions actions transaction_id db =
     (if actions = [] then Inr ([], db)
      else let (ids, t) = insert_rows (map (contract_action_row_of transaction_id) actions)
                            (contract_actions db);
               balances = concat (map (\<lambda>(action, action_id). map (Pair action_id) (ca_extracted_balances action))
                            (zip actions ids))
        in map_ok (Pair ids) (save_contract_balances balances (db\<lparr>contract_actions := t\<rparr>)))"

definition utxo_row_of :: "i64 \<Rightarrow> unshielded_utxo \<Rightarrow> unshielded_utxo_row" where
  "utxo_row_of transaction_id utxo =
     \<lparr>u_creating_transaction_id = transaction_id, u_spending_transaction_id = None,
      u_owner = utxo_owner utxo, u_token_type = utxo_token_type utxo,
      u_value = U128BeBytes (utxo_value utxo), u_intent_hash = utxo_intent_hash utxo,
      u_output_index = u32_as_i64 (utxo_output_index utxo),
      u_ctime = map_option as_i64 (utxo_ctime utxo), u_initial_nonce = utxo_initial_nonce utxo,
      u_registered_for_dust_generation = utxo_registered_for_dust_generation utxo\<rparr>"

definition save_created_unshielded_utxos ::
  "unshielded_utxo list \<Rightarrow> i64 \<Rightarrow> chain_db \<Rightarrow> sqlx_error + chain_db" where
  "save_created_unshielded_utxos utxos transaction_id db =
     (if utxos = [] then Inr db
      else map_ok (\<lambda>(_, t). db\<lparr>unshielded_utxos := t\<rparr>)
        (insert_unique ''unshielded_utxos'' utxo_key (map (utxo_row_of transaction_id) utxos)
           (unshielded_utxos db)))"

text \<open>The \<^verbatim>\<open>UPDATE .. WHERE (intent_hash, output_index) IN .. AND spending_transaction_id IS NULL\<close> of both builds.\<close>

definition save_spent_unshielded_utxos ::
  "unshielded_utxo list \<Rightarrow> i64 \<Rightarrow> chain_db \<Rightarrow> sqlx_error + chain_db" where
  "save_spent_unshielded_utxos utxos transaction_id db =
     (if utxos = [] then Inr db
      else let pairs = map (\<lambda>u. (utxo_intent_hash u, u32_as_i64 (utxo_output_index u))) utxos;
               (rows_affected, t) = update_where
                 (\<lambda>(_, r). utxo_key r \<in> set pairs \<and> u_spending_transaction_id r = None)
                 (\<lambda>r. r\<lparr>u_spending_transaction_id := Some transaction_id\<rparr>) (unshielded_utxos db)
        in if rows_affected \<noteq> length utxos then Inl (Protocol (length utxos) rows_affected)
           else Inr (db\<lparr>unshielded_utxos := t\<rparr>))"

text \<open>
  \<^verbatim>\<open>correlate_contract_action_ids\<close> for one event. Entry points are compared as bytes; a
  \<^verbatim>\<open>Call\<close> keeps its entry point as the bytes of the string.
\<close>

definition action_matches :: "bytes \<Rightarrow> bytes \<Rightarrow> contract_action \<Rightarrow> bool" where
  "action_matches contract_address entry_point action =
     ((case ca_attributes action of Call ep \<Rightarrow> ep = entry_point | _ \<Rightarrow> False)
      \<and> ca_address action = contract_address)"

definition correlate_contract_action_id ::
  "contract_action list \<Rightarrow> i64 list \<Rightarrow> ledger_event \<Rightarrow> i64 option" where
  "correlate_contract_action_id actions ids e =
     (case le_contract_address e of
        None \<Rightarrow> None
      | Some contract_address \<Rightarrow>
          (case contract_entry_point (le_attributes e) of
             None \<Rightarrow> None
           | Some entry_point \<Rightarrow>
               (case filter (\<lambda>(action, _). action_matches contract_address entry_point action)
                       (zip actions ids) of
                  [] \<Rightarrow> None
                | (_, contract_action_id) # rest \<Rightarrow>
                    if rest = [] then Some contract_action_id else None)))"

definition correlate_contract_action_ids ::
  "ledger_event list \<Rightarrow> contract_action list \<Rightarrow> i64 list \<Rightarrow> i64 option list" where
  "correlate_contract_action_ids events actions ids =
     map (correlate_contract_action_id actions ids) events"

definition ledger_event_row_of :: "i64 \<Rightarrow> ledger_event \<Rightarrow> i64 option \<Rightarrow> ledger_event_row" where
  "ledger_event_row_of transaction_id e correlated =
     \<lparr>e_transaction_id = transaction_id, e_variant = ledger_event_variant_from (le_attributes e),
      e_grouping = le_grouping e, e_raw = le_raw e, e_attributes = le_attributes e,
      e_contract_address = le_contract_address e,
      e_contract_action_id =
        (case correlated of Some i \<Rightarrow> Some i | None \<Rightarrow> map_option as_i64 (le_contract_action_id e))\<rparr>"

definition save_contract_event_indexed_fields ::
  "ledger_event list \<Rightarrow> i64 list \<Rightarrow> chain_db \<Rightarrow> chain_db" where
  "save_contract_event_indexed_fields events ids db =
     (let pairs = filter (\<lambda>(_, fields). fields \<noteq> [])
            (map (\<lambda>(e, i). (i, indexable_contract_fields e))
               (filter (\<lambda>(e, _). le_grouping e = Contract) (zip events ids)))
      in if pairs = [] then db
         else db\<lparr>indexed_fields := snd (insert_rows
           (concat (map (\<lambda>(i, fields). map (\<lambda>(name, value).
                \<lparr>f_ledger_event_id = i, f_name = name, f_value = value\<rparr>) fields) pairs))
           (indexed_fields db))\<rparr>)"

text \<open>
  \<^verbatim>\<open>save_ledger_events\<close>. The column \<^verbatim>\<open>contract_action_id\<close> references \<^verbatim>\<open>contract_actions\<close>: a row whose
  reference is missing is refused. The insert returns one id per row, so the length check of the
  code holds.
\<close>

definition save_ledger_events ::
  "ledger_event list \<Rightarrow> contract_action list \<Rightarrow> i64 list \<Rightarrow> i64 \<Rightarrow> chain_db \<Rightarrow> sqlx_error + chain_db" where
  "save_ledger_events events actions action_ids transaction_id db =
     (if events = [] then Inr db
      else let rows = map (\<lambda>(e, c). ledger_event_row_of transaction_id e c)
                 (zip events (correlate_contract_action_ids events actions action_ids))
        in if list_ex (\<lambda>r. case e_contract_action_id r of
                None \<Rightarrow> False | Some i \<Rightarrow> i \<notin> table_ids (contract_actions db)) rows
           then Inl (ForeignKeyViolation ''ledger_events'')
           else let (ids, t) = insert_rows rows (ledger_events db) in
             if length ids \<noteq> length events then Inl (Protocol (length events) (length ids))
             else Inr (save_contract_event_indexed_fields events ids (db\<lparr>ledger_events := t\<rparr>)))"

text \<open>\<^verbatim>\<open>save_dust_generation_info\<close>: one query per dust event, in order.\<close>

definition dust_generation_row_of ::
  "i64 \<Rightarrow> qualified_dust_output \<Rightarrow> dust_generation_info \<Rightarrow> u64 \<Rightarrow> dust_generation_row" where
  "dust_generation_row_of transaction_id output generation_info generation_index =
     \<lparr>g_night_utxo_hash = dgi_night_utxo_hash generation_info,
      g_value = U128BeBytes (dgi_value generation_info), g_owner = dgi_owner generation_info,
      g_nonce = dgi_nonce generation_info, g_ctime = as_i64 (dgi_ctime generation_info),
      g_merkle_index = as_i64 (qdo_mt_index output), g_generation_index = as_i64 generation_index,
      g_backing_night = qdo_backing_night output,
      g_initial_value = U128BeBytes (qdo_initial_value output),
      g_dtime = (if dgi_dtime generation_info = - 1 then None else Some (as_i64 (dgi_dtime generation_info))),
      g_transaction_id = transaction_id\<rparr>"

definition save_dust_generation_event :: "i64 \<Rightarrow> ledger_event \<Rightarrow> chain_db \<Rightarrow> chain_db" where
  "save_dust_generation_event transaction_id e db =
     (case le_attributes e of
        DustInitialUtxo output generation_info generation_index \<Rightarrow>
          db\<lparr>dust_generation_infos := snd (insert_row
            (dust_generation_row_of transaction_id output generation_info generation_index)
            (dust_generation_infos db))\<rparr>
      | DustGenerationDtimeUpdate generation_info _ _ \<Rightarrow>
          db\<lparr>dust_generation_infos := snd (update_where
            (\<lambda>(_, r). g_night_utxo_hash r = dgi_night_utxo_hash generation_info)
            (\<lambda>r. r\<lparr>g_dtime := Some (as_i64 (dgi_dtime generation_info))\<rparr>)
            (dust_generation_infos db))\<rparr>
      | _ \<Rightarrow> db)"

definition save_dust_generation_info :: "ledger_event list \<Rightarrow> i64 \<Rightarrow> chain_db \<Rightarrow> chain_db" where
  "save_dust_generation_info events transaction_id db =
     (if events = [] then db else fold (save_dust_generation_event transaction_id) events db)"

fun dust_nullifier_of :: "ledger_event_attributes \<Rightarrow> (bytes \<times> bytes) option" where
  "dust_nullifier_of (DustSpendProcessed nullifier commitment) = Some (nullifier, commitment)"
| "dust_nullifier_of _ = None"

fun zswap_nullifier_of :: "ledger_event_attributes \<Rightarrow> bytes option" where
  "zswap_nullifier_of (ZswapInput nullifier) = Some nullifier"
| "zswap_nullifier_of _ = None"

definition filter_map :: "('a \<Rightarrow> 'b option) \<Rightarrow> 'a list \<Rightarrow> 'b list" where
  "filter_map f xs = concat (map (\<lambda>x. case f x of None \<Rightarrow> [] | Some y \<Rightarrow> [y]) xs)"

definition save_dust_nullifiers :: "ledger_event list \<Rightarrow> i64 \<Rightarrow> i64 \<Rightarrow> chain_db \<Rightarrow> chain_db" where
  "save_dust_nullifiers events transaction_id block_id db =
     (let nullifiers = filter_map (\<lambda>e. dust_nullifier_of (le_attributes e)) events
      in if nullifiers = [] then db
         else db\<lparr>dust_nullifiers := snd (insert_rows
           (map (\<lambda>(nullifier, commitment). \<lparr>n_nullifier = nullifier, n_commitment = Some commitment,
                  n_transaction_id = transaction_id, n_block_id = block_id\<rparr>) nullifiers)
           (dust_nullifiers db))\<rparr>)"

definition save_zswap_nullifiers :: "ledger_event list \<Rightarrow> i64 \<Rightarrow> i64 \<Rightarrow> chain_db \<Rightarrow> chain_db" where
  "save_zswap_nullifiers events transaction_id block_id db =
     (let nullifiers = filter_map (\<lambda>e. zswap_nullifier_of (le_attributes e)) events
      in if nullifiers = [] then db
         else db\<lparr>zswap_nullifiers := snd (insert_rows
           (map (\<lambda>nullifier. \<lparr>n_nullifier = nullifier, n_commitment = None,
                  n_transaction_id = transaction_id, n_block_id = block_id\<rparr>) nullifiers)
           (zswap_nullifiers db))\<rparr>)"

definition save_identifiers :: "bytes list \<Rightarrow> i64 \<Rightarrow> chain_db \<Rightarrow> chain_db" where
  "save_identifiers identifiers transaction_id db =
     (if identifiers = [] then db
      else db\<lparr>transaction_identifiers :=
        snd (insert_rows (map (Pair transaction_id) identifiers) (transaction_identifiers db))\<rparr>)"

definition save_bridge_claim :: "i64 \<Rightarrow> bridge_claim \<Rightarrow> chain_db \<Rightarrow> chain_db" where
  "save_bridge_claim transaction_id claim db =
     db\<lparr>bridge_claims := snd (insert_row
       \<lparr>bcr_transaction_id = transaction_id, bcr_recipient = bc_recipient claim,
        bcr_amount = U128BeBytes (bc_amount claim)\<rparr> (bridge_claims db))\<rparr>"

definition regular_transaction_row_of :: "feature \<Rightarrow> i64 \<Rightarrow> regular_transaction \<Rightarrow> regular_transaction_row" where
  "regular_transaction_row_of feat transaction_id t =
     \<lparr>r_id = transaction_id, r_transaction_result = rt_transaction_result t,
      r_zswap_merkle_tree_root = rt_zswap_merkle_tree_root t,
      r_zswap_start_index = as_i64 (rt_zswap_start_index t),
      r_zswap_end_index = as_i64 (rt_zswap_end_index t),
      r_dust_commitment_start_index = as_i64 (rt_dust_commitment_start_index t),
      r_dust_commitment_end_index = as_i64 (rt_dust_commitment_end_index t),
      r_dust_generation_start_index = as_i64 (rt_dust_generation_start_index t),
      r_dust_generation_end_index = as_i64 (rt_dust_generation_end_index t),
      r_paid_fees = U128BeBytes (rt_paid_fees t),
      r_estimated_fees = U128BeBytes (rt_estimated_fees t),
      r_identifiers = (if feat = Cloud then rt_identifiers t else [])\<rparr>"

definition save_regular_transaction ::
  "feature \<Rightarrow> regular_transaction \<Rightarrow> i64 \<Rightarrow> i64 \<Rightarrow> chain_db \<Rightarrow> sqlx_error + u64 \<times> chain_db" where
  "save_regular_transaction feat t transaction_id block_id db =
     (if transaction_id \<in> set (map r_id (regular_transactions db))
      then Inl (UniqueViolation ''regular_transactions'')
      else
        let db = db\<lparr>regular_transactions :=
                   regular_transactions db @ [regular_transaction_row_of feat transaction_id t]\<rparr>;
            db = (if feat = Standalone then save_identifiers (rt_identifiers t) transaction_id db else db)
        in
        and_then (save_contract_actions (rt_contract_actions t) transaction_id db) (\<lambda>(action_ids, db).
        and_then (save_created_unshielded_utxos (rt_created_unshielded_utxos t) transaction_id db) (\<lambda>db.
        and_then (save_spent_unshielded_utxos (rt_spent_unshielded_utxos t) transaction_id db) (\<lambda>db.
        and_then (save_ledger_events (rt_ledger_events t) (rt_contract_actions t) action_ids
            transaction_id db) (\<lambda>db.
          let db = save_dust_generation_info (rt_ledger_events t) transaction_id db;
              db = save_dust_nullifiers (rt_ledger_events t) transaction_id block_id db;
              db = save_zswap_nullifiers (rt_ledger_events t) transaction_id block_id db;
              db = (case rt_bridge_claim t of
                      None \<Rightarrow> db
                    | Some claim \<Rightarrow> save_bridge_claim transaction_id claim db)
          in Inr (as_u64 transaction_id, db))))))"

definition save_system_transaction ::
  "system_transaction \<Rightarrow> i64 \<Rightarrow> chain_db \<Rightarrow> sqlx_error + chain_db" where
  "save_system_transaction t transaction_id db =
     and_then (save_created_unshielded_utxos (st_created_unshielded_utxos t) transaction_id db) (\<lambda>db.
     and_then (save_ledger_events (st_ledger_events t) [] [] transaction_id db) (\<lambda>db.
       Inr (save_dust_generation_info (st_ledger_events t) transaction_id db)))"

definition transaction_row_of :: "i64 \<Rightarrow> transaction \<Rightarrow> transaction_row" where
  "transaction_row_of block_id t =
     \<lparr>t_block_id = block_id, t_variant = tx_variant t, t_hash = tx_hash t,
      t_protocol_version = into_i64 (tx_protocol_version t), t_raw = tx_raw t\<rparr>"

text \<open>The body of the loop of \<^verbatim>\<open>save_transactions\<close>, and the loop.\<close>

definition save_transaction ::
  "feature \<Rightarrow> i64 \<Rightarrow> u64 option \<times> chain_db \<Rightarrow> transaction \<Rightarrow> sqlx_error + u64 option \<times> chain_db" where
  "save_transaction feat block_id = (\<lambda>(highest, db) t.
     let (transaction_id, txs) = insert_row (transaction_row_of block_id t) (transactions db);
         db = db\<lparr>transactions := txs\<rparr>
     in case t of
          Regular r \<Rightarrow>
            map_ok (\<lambda>(i, db). (Some i, db)) (save_regular_transaction feat r transaction_id block_id db)
        | System s \<Rightarrow> map_ok (Pair highest) (save_system_transaction s transaction_id db))"

definition save_transactions ::
  "feature \<Rightarrow> transaction list \<Rightarrow> i64 \<Rightarrow> chain_db \<Rightarrow> sqlx_error + u64 option \<times> chain_db" where
  "save_transactions feat txs block_id db = try_fold (save_transaction feat block_id) (None, db) txs"

text \<open>
  \<^verbatim>\<open>save_dust_registration_events\<close>. The upsert of a registration replaces the row under its key,
  keeping its id and its UTXO columns.
\<close>

definition registration_is :: "bytes \<Rightarrow> bytes \<Rightarrow> i64 \<times> registration_row \<Rightarrow> bool" where
  "registration_is stake_key address =
     (\<lambda>(_, r). c_cardano_stake_key r = stake_key \<and> c_dust_address r = address)"

definition upsert_registration ::
  "bytes \<Rightarrow> bytes \<Rightarrow> i64 \<Rightarrow> i64 \<Rightarrow> registration_row table \<Rightarrow> registration_row table" where
  "upsert_registration stake_key address registered_at block_id t =
     (if list_ex (registration_is stake_key address) (tab_rows t)
      then snd (update_where (registration_is stake_key address)
             (\<lambda>r. r\<lparr>c_valid := True, c_registered_at := registered_at, c_removed_at := None,
                    c_block_id := block_id\<rparr>) t)
      else snd (insert_row
             \<lparr>c_cardano_stake_key = stake_key, c_dust_address = address, c_valid = True,
              c_registered_at = registered_at, c_removed_at = None, c_block_id = block_id,
              c_utxo_tx_hash = None, c_utxo_output_index = None\<rparr> t))"

definition save_dust_registration_event ::
  "i64 \<Rightarrow> u64 \<Rightarrow> dust_registration_event \<Rightarrow> registration_row table \<Rightarrow> registration_row table" where
  "save_dust_registration_event block_id block_timestamp event t =
     (case event of
        Registration stake_key address \<Rightarrow>
          upsert_registration stake_key address (as_i64 block_timestamp) block_id t
      | Deregistration stake_key address \<Rightarrow>
          snd (update_where (registration_is stake_key address)
            (\<lambda>r. r\<lparr>c_valid := False, c_removed_at := Some (as_i64 block_timestamp),
                   c_block_id := block_id\<rparr>) t)
      | MappingAdded stake_key address utxo_id utxo_index \<Rightarrow>
          snd (update_where (registration_is stake_key address)
            (\<lambda>r. r\<lparr>c_utxo_tx_hash := Some utxo_id,
                   c_utxo_output_index := Some (u32_as_i64 utxo_index)\<rparr>) t)
      | MappingRemoved stake_key address _ _ \<Rightarrow>
          snd (update_where (registration_is stake_key address)
            (\<lambda>r. r\<lparr>c_utxo_tx_hash := None, c_utxo_output_index := None\<rparr>) t))"

definition save_dust_registration_events ::
  "dust_registration_event list \<Rightarrow> i64 \<Rightarrow> u64 \<Rightarrow> chain_db \<Rightarrow> chain_db" where
  "save_dust_registration_events events block_id block_timestamp db =
     db\<lparr>cnight_registrations :=
       fold (save_dust_registration_event block_id block_timestamp) events (cnight_registrations db)\<rparr>"

text \<open>\<^verbatim>\<open>save_bridge_events\<close>: each event is linked to the transaction of this block with its hash.\<close>

definition bridge_event_count :: "bridge_event \<Rightarrow> i32 option" where
  "bridge_event_count event =
     (case event of SubminimalFlushTransfer _ count _ \<Rightarrow> Some (as_i32 count) | _ \<Rightarrow> None)"

definition find_transaction :: "i64 \<Rightarrow> bytes \<Rightarrow> chain_db \<Rightarrow> i64 option" where
  "find_transaction block_id hash db =
     (case select_where (\<lambda>(_, r). t_block_id r = block_id \<and> t_hash r = hash) (transactions db) of
        [] \<Rightarrow> None
      | (i, _) # _ \<Rightarrow> Some i)"

definition save_bridge_event :: "i64 \<Rightarrow> bridge_event \<Rightarrow> chain_db \<Rightarrow> chain_db" where
  "save_bridge_event block_id event db =
     db\<lparr>bridge_events := snd (insert_row
       \<lparr>ber_block_id = block_id,
        ber_transaction_id = find_transaction block_id (be_midnight_tx_hash event) db,
        ber_variant = be_variant event, ber_mc_tx_hash = be_mc_tx_hash event,
        ber_amount = nat_to_be 8 (unat (be_amount event)), ber_recipient = be_recipient event,
        ber_midnight_tx_hash = be_midnight_tx_hash event, ber_count = bridge_event_count event\<rparr>
       (bridge_events db))\<rparr>"

definition save_bridge_events :: "bridge_event list \<Rightarrow> i64 \<Rightarrow> chain_db \<Rightarrow> chain_db" where
  "save_bridge_events events block_id db = fold (save_bridge_event block_id) events db"

definition block_row_of :: "block \<Rightarrow> bytes \<Rightarrow> block_row" where
  "block_row_of b ledger_state_key =
     \<lparr>b_hash = bl_hash b, b_height = as_i64 (bl_height b),
      b_protocol_version = into_i64 (bl_protocol_version b), b_parent_hash = bl_parent_hash b,
      b_author = bl_author b, b_timestamp = as_i64 (bl_timestamp b),
      b_zswap_merkle_tree_root = bl_zswap_merkle_tree_root b,
      b_ledger_parameters = bl_ledger_parameters b, b_ledger_state_key = ledger_state_key,
      b_zswap_end_index = as_i64 (bl_zswap_end_index b),
      b_dust_commitment_end_index = as_i64 (bl_dust_commitment_end_index b),
      b_dust_generation_end_index = as_i64 (bl_dust_generation_end_index b),
      b_dust_commitment_merkle_tree_root = bl_dust_commitment_merkle_tree_root b,
      b_dust_generation_merkle_tree_root = bl_dust_generation_merkle_tree_root b\<rparr>"

definition insert_block :: "block_row \<Rightarrow> chain_db \<Rightarrow> sqlx_error + i64 \<times> chain_db" where
  "insert_block row db =
     (if conflicts b_hash [row] (blocks db) then Inl (UniqueViolation ''blocks_hash'')
      else if conflicts b_height [row] (blocks db) then Inl (UniqueViolation ''blocks_height'')
      else let (i, t) = insert_row row (blocks db) in Inr (i, db\<lparr>blocks := t\<rparr>))"

text \<open>The free function \<^verbatim>\<open>save_block\<close>, inside the SQL transaction.\<close>

definition save_block_tx ::
  "feature \<Rightarrow> block \<Rightarrow> transaction list \<Rightarrow> dust_registration_event list \<Rightarrow> bytes \<Rightarrow> chain_db
     \<Rightarrow> sqlx_error + u64 option \<times> chain_db" where
  "save_block_tx feat b txs registrations ledger_state_key db =
     and_then (insert_block (block_row_of b ledger_state_key) db) (\<lambda>(block_id, db).
     and_then (save_transactions feat txs block_id db) (\<lambda>(max_transaction_id, db).
       let db = save_dust_registration_events registrations block_id (bl_timestamp b) db;
           db = save_bridge_events (bl_bridge_events b) block_id db
       in Inr (max_transaction_id, db)))"

definition save_system_parameters_change :: "system_parameters_change \<Rightarrow> chain_db \<Rightarrow> chain_db" where
  "save_system_parameters_change change db =
     (let db = (case spc_d_parameter change of
                  None \<Rightarrow> db
                | Some d \<Rightarrow> db\<lparr>system_parameters_d := snd (insert_row
                    \<lparr>d_block_height = as_i64 (spc_block_height change), d_block_hash = spc_block_hash change,
                     d_timestamp = as_i64 (spc_timestamp change),
                     d_num_permissioned = u16_as_i32 (num_permissioned_candidates d),
                     d_num_registered = u16_as_i32 (num_registered_candidates d)\<rparr>
                    (system_parameters_d db))\<rparr>)
      in case spc_terms_and_conditions change of
           None \<Rightarrow> db
         | Some tc \<Rightarrow> db\<lparr>system_parameters_tc := snd (insert_row
             \<lparr>tc_block_height = as_i64 (spc_block_height change), tc_block_hash = spc_block_hash change,
              tc_timestamp = as_i64 (spc_timestamp change), tc_row_hash = tc_hash tc, tc_row_url = tc_url tc\<rparr>
             (system_parameters_tc db))\<rparr>)"

text \<open>
  \<^verbatim>\<open>Storage::save_block\<close>: begin, save, commit. An error drops the SQL transaction, which rolls the
  database back to its rows before.
\<close>

definition save_block ::
  "feature \<Rightarrow> block \<Rightarrow> transaction list \<Rightarrow> dust_registration_event list \<Rightarrow> bytes
     \<Rightarrow> system_parameters_change option \<Rightarrow> chain_db \<Rightarrow> (sqlx_error + u64 option) \<times> chain_db" where
  "save_block feat b txs registrations ledger_state_key change db =
     (case save_block_tx feat b txs registrations ledger_state_key db of
        Inl e \<Rightarrow> (Inl e, db)
      | Inr (max_transaction_id, db') \<Rightarrow>
          (Inr max_transaction_id,
           case change of None \<Rightarrow> db' | Some c \<Rightarrow> save_system_parameters_change c db'))"

section \<open>Reading\<close>

definition first_row :: "'a list \<Rightarrow> 'a option" where
  "first_row xs = (case xs of [] \<Rightarrow> None | x # _ \<Rightarrow> Some x)"

definition blocks_desc :: "chain_db \<Rightarrow> block_row list" where
  "blocks_desc db = order_by_desc b_height (map snd (tab_rows (blocks db)))"

definition get_highest_block ::
  "chain_db \<Rightarrow> sqlx_error + (block_ref \<times> protocol_version \<times> bytes) option" where
  "get_highest_block db =
     (case first_row (blocks_desc db) of
        None \<Rightarrow> Inr None
      | Some r \<Rightarrow>
          and_then (map_err (\<lambda>_. Decode) (byte_array_try_from 32 (b_hash r))) (\<lambda>hash.
          and_then (map_err (\<lambda>_. Decode) (try_from_i64 (b_protocol_version r))) (\<lambda>protocol_version.
            Inr (Some (\<lparr>br_hash = hash, br_height = as_u64 (b_height r)\<rparr>, protocol_version,
                       b_ledger_state_key r)))))"

definition get_highest_block_timestamp :: "chain_db \<Rightarrow> u64 option" where
  "get_highest_block_timestamp db = map_option (\<lambda>r. as_u64 (b_timestamp r)) (first_row (blocks_desc db))"

definition get_newest_ledger_state_keys ::
  "nat \<Rightarrow> chain_db \<Rightarrow> sqlx_error + (protocol_version \<times> bytes) list" where
  "get_newest_ledger_state_keys limit db =
     map_ok rev (try_map (\<lambda>r. map_ok (\<lambda>v. (v, b_ledger_state_key r))
         (map_err (\<lambda>_. Decode) (try_from_i64 (b_protocol_version r))))
       (take limit (blocks_desc db)))"

definition get_transaction_count :: "chain_db \<Rightarrow> u64" where
  "get_transaction_count db = word_of_nat (length (tab_rows (transactions db)))"

definition count_contract_actions :: "contract_action_variant \<Rightarrow> chain_db \<Rightarrow> nat" where
  "count_contract_actions variant db =
     length (select_where (\<lambda>(_, r). a_variant r = variant) (contract_actions db))"

definition get_contract_action_count :: "chain_db \<Rightarrow> u64 \<times> u64 \<times> u64" where
  "get_contract_action_count db =
     (word_of_nat (count_contract_actions DeployVariant db),
      word_of_nat (count_contract_actions CallVariant db),
      word_of_nat (count_contract_actions UpdateVariant db))"

definition get_latest_d_parameter :: "chain_db \<Rightarrow> d_parameter option" where
  "get_latest_d_parameter db =
     map_option (\<lambda>r. \<lparr>num_permissioned_candidates = word_of_int (d_num_permissioned r),
                      num_registered_candidates = word_of_int (d_num_registered r)\<rparr>)
       (first_row (order_by_desc d_block_height (map snd (tab_rows (system_parameters_d db)))))"

definition get_latest_terms_and_conditions :: "chain_db \<Rightarrow> sqlx_error + terms_and_conditions option" where
  "get_latest_terms_and_conditions db =
     (case first_row (order_by_desc tc_block_height (map snd (tab_rows (system_parameters_tc db)))) of
        None \<Rightarrow> Inr None
      | Some r \<Rightarrow>
          map_ok (\<lambda>h. Some \<lparr>tc_hash = h, tc_url = tc_row_url r\<rparr>)
            (map_err (\<lambda>_. Decode) (byte_array_try_from 32 (tc_row_hash r))))"

section \<open>Replacing one table keeps the rest well formed\<close>

lemma db_ok_set_regular_transactions:
  "db_ok db \<Longrightarrow> distinct (map r_id rs) \<Longrightarrow> r_id ` set rs \<subseteq> table_ids (transactions db) \<Longrightarrow>
     db_ok (db\<lparr>regular_transactions := rs\<rparr>)"
  by (simp add: db_ok_defs)

lemma db_ok_set_identifiers:
  "db_ok db \<Longrightarrow> table_ok t \<Longrightarrow> fk fst t (table_ids (transactions db)) \<Longrightarrow>
     db_ok (db\<lparr>transaction_identifiers := t\<rparr>)"
  by (simp add: db_ok_defs)

lemma db_ok_set_contract_actions:
  "db_ok db \<Longrightarrow> table_ok t \<Longrightarrow> fk a_transaction_id t (table_ids (transactions db)) \<Longrightarrow>
     table_ids (contract_actions db) \<subseteq> table_ids t \<Longrightarrow> db_ok (db\<lparr>contract_actions := t\<rparr>)"
  by (auto simp: db_ok_defs elim: fk_mono fk_opt_mono)

lemma db_ok_set_contract_balances:
  "db_ok db \<Longrightarrow> table_ok t \<Longrightarrow> fk cbr_contract_action_id t (table_ids (contract_actions db)) \<Longrightarrow>
     unique (\<lambda>r. (cbr_contract_action_id r, cbr_token_type r)) t \<Longrightarrow> db_ok (db\<lparr>contract_balances := t\<rparr>)"
  by (simp add: db_ok_defs)

lemma db_ok_set_utxos:
  "db_ok db \<Longrightarrow> table_ok t \<Longrightarrow> unique utxo_key t \<Longrightarrow>
     fk u_creating_transaction_id t (table_ids (transactions db)) \<Longrightarrow>
     fk_opt u_spending_transaction_id t (table_ids (transactions db)) \<Longrightarrow> db_ok (db\<lparr>unshielded_utxos := t\<rparr>)"
  by (simp add: db_ok_defs)

lemma db_ok_set_ledger_events:
  "db_ok db \<Longrightarrow> table_ok t \<Longrightarrow> fk e_transaction_id t (table_ids (transactions db)) \<Longrightarrow>
     fk_opt e_contract_action_id t (table_ids (contract_actions db)) \<Longrightarrow>
     table_ids (ledger_events db) \<subseteq> table_ids t \<Longrightarrow> db_ok (db\<lparr>ledger_events := t\<rparr>)"
  by (auto simp: db_ok_defs elim: fk_mono fk_opt_mono)

lemma db_ok_set_indexed_fields:
  "db_ok db \<Longrightarrow> table_ok t \<Longrightarrow> fk f_ledger_event_id t (table_ids (ledger_events db)) \<Longrightarrow>
     db_ok (db\<lparr>indexed_fields := t\<rparr>)"
  by (simp add: db_ok_defs)

lemma db_ok_set_dust_generation_infos:
  "db_ok db \<Longrightarrow> table_ok t \<Longrightarrow> fk g_transaction_id t (table_ids (transactions db)) \<Longrightarrow>
     db_ok (db\<lparr>dust_generation_infos := t\<rparr>)"
  by (simp add: db_ok_defs)

lemma db_ok_set_dust_nullifiers:
  "db_ok db \<Longrightarrow> table_ok t \<Longrightarrow> fk n_transaction_id t (table_ids (transactions db)) \<Longrightarrow>
     fk n_block_id t (table_ids (blocks db)) \<Longrightarrow> db_ok (db\<lparr>dust_nullifiers := t\<rparr>)"
  by (simp add: db_ok_defs)

lemma db_ok_set_zswap_nullifiers:
  "db_ok db \<Longrightarrow> table_ok t \<Longrightarrow> fk n_transaction_id t (table_ids (transactions db)) \<Longrightarrow>
     fk n_block_id t (table_ids (blocks db)) \<Longrightarrow> db_ok (db\<lparr>zswap_nullifiers := t\<rparr>)"
  by (simp add: db_ok_defs)

lemma db_ok_set_registrations:
  "db_ok db \<Longrightarrow> table_ok t \<Longrightarrow> fk c_block_id t (table_ids (blocks db)) \<Longrightarrow>
     unique (\<lambda>r. (c_cardano_stake_key r, c_dust_address r)) t \<Longrightarrow> db_ok (db\<lparr>cnight_registrations := t\<rparr>)"
  by (simp add: db_ok_defs)

lemma db_ok_set_bridge_claims:
  "db_ok db \<Longrightarrow> table_ok t \<Longrightarrow> fk bcr_transaction_id t (table_ids (transactions db)) \<Longrightarrow>
     db_ok (db\<lparr>bridge_claims := t\<rparr>)"
  by (simp add: db_ok_defs)

lemma db_ok_set_bridge_events:
  "db_ok db \<Longrightarrow> table_ok t \<Longrightarrow> fk ber_block_id t (table_ids (blocks db)) \<Longrightarrow>
     fk_opt ber_transaction_id t (table_ids (transactions db)) \<Longrightarrow> db_ok (db\<lparr>bridge_events := t\<rparr>)"
  by (simp add: db_ok_defs)

lemma db_ok_set_system_parameters:
  "db_ok db \<Longrightarrow> table_ok t \<Longrightarrow> db_ok (db\<lparr>system_parameters_d := t\<rparr>)"
  "db_ok db \<Longrightarrow> table_ok t' \<Longrightarrow> db_ok (db\<lparr>system_parameters_tc := t'\<rparr>)"
  by (simp_all add: db_ok_defs)

lemma db_ok_set_transactions:
  "db_ok db \<Longrightarrow> table_ok t \<Longrightarrow> fk t_block_id t (table_ids (blocks db)) \<Longrightarrow>
     table_ids (transactions db) \<subseteq> table_ids t \<Longrightarrow> db_ok (db\<lparr>transactions := t\<rparr>)"
  by (auto simp: db_ok_defs elim!: fk_mono fk_opt_mono)

lemma db_ok_set_blocks:
  "db_ok db \<Longrightarrow> table_ok t \<Longrightarrow> unique b_hash t \<Longrightarrow> unique b_height t \<Longrightarrow>
     table_ids (blocks db) \<subseteq> table_ids t \<Longrightarrow> db_ok (db\<lparr>blocks := t\<rparr>)"
  by (auto simp: db_ok_defs elim!: fk_mono fk_opt_mono)

text \<open>Single-row inserts as multi-row ones, and the parts of \<open>db_ok\<close> each operation starts from.\<close>

lemma insert_row_rows: "snd (insert_row r t) = snd (insert_rows [r] t)" "fst (insert_row r t) = hd (fst (insert_rows [r] t))"
  by (simp_all add: split_def Let_def)

lemma db_okD:
  assumes "db_ok db"
  shows "table_ok (blocks db)" "table_ok (transactions db)" "table_ok (transaction_identifiers db)"
    "table_ok (contract_actions db)" "table_ok (contract_balances db)" "table_ok (unshielded_utxos db)"
    "table_ok (ledger_events db)" "table_ok (indexed_fields db)" "table_ok (dust_generation_infos db)"
    "table_ok (dust_nullifiers db)" "table_ok (zswap_nullifiers db)" "table_ok (cnight_registrations db)"
    "table_ok (system_parameters_d db)" "table_ok (system_parameters_tc db)" "table_ok (bridge_claims db)"
    "table_ok (bridge_events db)"
    "unique b_hash (blocks db)" "unique b_height (blocks db)" "distinct (map r_id (regular_transactions db))"
    "unique utxo_key (unshielded_utxos db)"
    "unique (\<lambda>r. (cbr_contract_action_id r, cbr_token_type r)) (contract_balances db)"
    "unique (\<lambda>r. (c_cardano_stake_key r, c_dust_address r)) (cnight_registrations db)"
    "fk t_block_id (transactions db) (table_ids (blocks db))"
    "r_id ` set (regular_transactions db) \<subseteq> table_ids (transactions db)"
    "fk fst (transaction_identifiers db) (table_ids (transactions db))"
    "fk a_transaction_id (contract_actions db) (table_ids (transactions db))"
    "fk cbr_contract_action_id (contract_balances db) (table_ids (contract_actions db))"
    "fk u_creating_transaction_id (unshielded_utxos db) (table_ids (transactions db))"
    "fk_opt u_spending_transaction_id (unshielded_utxos db) (table_ids (transactions db))"
    "fk e_transaction_id (ledger_events db) (table_ids (transactions db))"
    "fk_opt e_contract_action_id (ledger_events db) (table_ids (contract_actions db))"
    "fk f_ledger_event_id (indexed_fields db) (table_ids (ledger_events db))"
    "fk g_transaction_id (dust_generation_infos db) (table_ids (transactions db))"
    "fk n_transaction_id (dust_nullifiers db) (table_ids (transactions db))"
    "fk n_block_id (dust_nullifiers db) (table_ids (blocks db))"
    "fk n_transaction_id (zswap_nullifiers db) (table_ids (transactions db))"
    "fk n_block_id (zswap_nullifiers db) (table_ids (blocks db))"
    "fk c_block_id (cnight_registrations db) (table_ids (blocks db))"
    "fk bcr_transaction_id (bridge_claims db) (table_ids (transactions db))"
    "fk ber_block_id (bridge_events db) (table_ids (blocks db))"
    "fk_opt ber_transaction_id (bridge_events db) (table_ids (transactions db))"
  using assms by (simp_all add: db_ok_defs)

section \<open>Every save keeps the database well formed\<close>

text \<open>What the saves of one transaction leave alone: the blocks and the transactions.\<close>

definition same_chain :: "chain_db \<Rightarrow> chain_db \<Rightarrow> bool" where
  "same_chain db db' \<longleftrightarrow> blocks db' = blocks db \<and> transactions db' = transactions db"

lemma same_chain_refl [simp]: "same_chain db db"
  by (simp add: same_chain_def)

lemma same_chain_trans: "same_chain a b \<Longrightarrow> same_chain b c \<Longrightarrow> same_chain a c"
  by (simp add: same_chain_def)

lemma save_contract_balances_ok:
  assumes "save_contract_balances bs db = Inr db'" and "db_ok db"
    and "fst ` set bs \<subseteq> table_ids (contract_actions db)"
  shows "db_ok db' \<and> same_chain db db' \<and> contract_actions db' = contract_actions db
    \<and> ledger_events db' = ledger_events db"
proof (cases "bs = []")
  case False
  let ?rows = "map (\<lambda>(action_id, b). \<lparr>cbr_contract_action_id = action_id, cbr_token_type = cb_token_type b,
                  cbr_amount = U128BeBytes (cb_amount b)\<rparr>) bs"
  have nc: "\<not> conflicts (\<lambda>r. (cbr_contract_action_id r, cbr_token_type r)) ?rows (contract_balances db)"
    and db': "db' = db\<lparr>contract_balances := snd (insert_rows ?rows (contract_balances db))\<rparr>"
    using assms(1) False by (auto simp: save_contract_balances_def res_simps insert_unique_Inr)
  have "db_ok db'" unfolding db'
    using assms(2,3) nc
    by (intro db_ok_set_contract_balances unique_insert_rows)
      (auto simp: constraint_simps db_okD split_def)
  then show ?thesis by (simp add: db' same_chain_def)
qed (use assms in \<open>simp add: save_contract_balances_def\<close>)

lemma save_contract_actions_ok:
  assumes "save_contract_actions as tid db = Inr (ids, db')" and "db_ok db" and "tid \<in> table_ids (transactions db)"
  shows "db_ok db' \<and> same_chain db db' \<and> set ids \<subseteq> table_ids (contract_actions db') \<and> length ids = length as"
proof (cases "as = []")
  case False
  let ?rows = "map (contract_action_row_of tid) as"
  let ?t = "snd (insert_rows ?rows (contract_actions db))"
  let ?ids = "fst (insert_rows ?rows (contract_actions db))"
  let ?db = "db\<lparr>contract_actions := ?t\<rparr>"
  let ?bs = "concat (map (\<lambda>(action, action_id). map (Pair action_id) (ca_extracted_balances action)) (zip as ?ids))"
  have r: "save_contract_balances ?bs ?db = Inr db'" and ids: "ids = ?ids"
    using assms(1) False by (auto simp: save_contract_actions_def Let_def split_def res_simps)
  have ok: "db_ok ?db" using assms(2,3)
    by (intro db_ok_set_contract_actions) (auto simp: constraint_simps db_okD contract_action_row_of_def)
  have "fst ` set ?bs \<subseteq> table_ids (contract_actions ?db)"
    by (auto simp: ids_insert_rows dest: set_zip_rightD)
  from save_contract_balances_ok [OF r ok this] show ?thesis
    by (auto simp: same_chain_def ids ids_insert_rows insert_rows_length)
qed (use assms in \<open>simp add: save_contract_actions_def\<close>)

lemma save_created_unshielded_utxos_ok:
  assumes "save_created_unshielded_utxos us tid db = Inr db'" and "db_ok db" and "tid \<in> table_ids (transactions db)"
  shows "db_ok db' \<and> same_chain db db' \<and> contract_actions db' = contract_actions db"
proof (cases "us = []")
  case False
  let ?rows = "map (utxo_row_of tid) us"
  have nc: "\<not> conflicts utxo_key ?rows (unshielded_utxos db)"
    and db': "db' = db\<lparr>unshielded_utxos := snd (insert_rows ?rows (unshielded_utxos db))\<rparr>"
    using assms(1) False by (auto simp: save_created_unshielded_utxos_def res_simps insert_unique_Inr)
  have "db_ok db'" unfolding db'
    using assms(2,3) nc
    by (intro db_ok_set_utxos unique_insert_rows) (auto simp: constraint_simps db_okD utxo_row_of_def)
  then show ?thesis by (simp add: db' same_chain_def)
qed (use assms in \<open>simp add: save_created_unshielded_utxos_def\<close>)

lemma save_spent_unshielded_utxos_ok:
  assumes "save_spent_unshielded_utxos us tid db = Inr db'" and "db_ok db" and "tid \<in> table_ids (transactions db)"
  shows "db_ok db' \<and> same_chain db db' \<and> contract_actions db' = contract_actions db"
proof (cases "us = []")
  case False
  obtain p where db': "db' = db\<lparr>unshielded_utxos := snd (update_where p
      (\<lambda>r. r\<lparr>u_spending_transaction_id := Some tid\<rparr>) (unshielded_utxos db))\<rparr>"
    using assms(1) False by (auto simp: save_spent_unshielded_utxos_def Let_def split_def split: if_splits)
  have "db_ok db'" unfolding db'
    using assms(2,3)
    by (intro db_ok_set_utxos fk_opt_update_where)
      (auto simp: constraint_simps db_okD fk_update_where unique_update_where utxo_key_def)
  then show ?thesis by (simp add: db' same_chain_def)
qed (use assms in \<open>simp add: save_spent_unshielded_utxos_def\<close>)

lemma save_contract_event_indexed_fields_ok:
  assumes "db_ok db" and "set ids \<subseteq> table_ids (ledger_events db)"
  shows "db_ok (save_contract_event_indexed_fields es ids db)
    \<and> same_chain db (save_contract_event_indexed_fields es ids db)"
proof -
  have "fk f_ledger_event_id (indexed_fields db) (table_ids (ledger_events db))" "table_ok (indexed_fields db)"
    using assms(1) by (simp_all add: db_okD)
  moreover have "i \<in> table_ids (ledger_events db)" if "(e, i) \<in> set (zip es ids)" for e i
    using that assms(2) set_zip_rightD by fast
  ultimately show ?thesis using assms(1)
    by (auto simp: save_contract_event_indexed_fields_def Let_def constraint_simps same_chain_def
        intro!: db_ok_set_indexed_fields)
qed

lemma save_ledger_events_ok:
  assumes "save_ledger_events es as aids tid db = Inr db'" and "db_ok db" and "tid \<in> table_ids (transactions db)"
  shows "db_ok db' \<and> same_chain db db'"
proof (cases "es = []")
  case False
  let ?rows = "map (\<lambda>(e, c). ledger_event_row_of tid e c) (zip es (correlate_contract_action_ids es as aids))"
  let ?t = "snd (insert_rows ?rows (ledger_events db))" and ?ids = "fst (insert_rows ?rows (ledger_events db))"
  let ?db = "db\<lparr>ledger_events := ?t\<rparr>"
  have refs: "\<forall>r \<in> set ?rows. set_option (e_contract_action_id r) \<subseteq> table_ids (contract_actions db)"
    and db': "db' = save_contract_event_indexed_fields es ?ids ?db"
    using assms(1) False
    by (auto simp: save_ledger_events_def Let_def split_def list_ex_iff split: if_splits option.splits)
  have tids: "e_transaction_id ` set ?rows \<subseteq> table_ids (transactions db)"
    using assms(3) by (auto simp: ledger_event_row_of_def)
  have "db_ok ?db"
    using assms(2) refs tids by (intro db_ok_set_ledger_events) (auto simp: constraint_simps db_okD)
  then show ?thesis
    using save_contract_event_indexed_fields_ok [of ?db ?ids es]
    by (simp add: db' ids_insert_rows same_chain_def)
qed (use assms in \<open>simp add: save_ledger_events_def\<close>)

lemma save_dust_generation_event_ok:
  assumes "db_ok db" and "tid \<in> table_ids (transactions db)"
  shows "db_ok (save_dust_generation_event tid e db) \<and> same_chain db (save_dust_generation_event tid e db)"
proof -
  have "fk g_transaction_id (dust_generation_infos db) (table_ids (transactions db))"
    "table_ok (dust_generation_infos db)" using assms(1) by (simp_all add: db_okD)
  with assms show ?thesis
    by (auto simp: save_dust_generation_event_def insert_row_rows constraint_simps same_chain_def
        fk_update_where dust_generation_row_of_def simp del: insert_rows.simps
        intro!: db_ok_set_dust_generation_infos split: ledger_event_attributes.splits)
qed

lemma save_dust_generation_info_ok:
  assumes "db_ok db" and "tid \<in> table_ids (transactions db)"
  shows "db_ok (save_dust_generation_info es tid db) \<and> same_chain db (save_dust_generation_info es tid db)"
proof -
  have "db_ok (fold (save_dust_generation_event tid) es db) \<and> same_chain db (fold (save_dust_generation_event tid) es db)"
    using assms
  proof (induction es arbitrary: db)
    case (Cons e es)
    have "db_ok (save_dust_generation_event tid e db)" "same_chain db (save_dust_generation_event tid e db)"
      using save_dust_generation_event_ok [OF Cons.prems] by auto
    then show ?case using Cons.IH [of "save_dust_generation_event tid e db"] Cons.prems
      by (auto simp: same_chain_def)
  qed simp
  then show ?thesis using assms by (simp add: save_dust_generation_info_def)
qed

lemma save_nullifiers_ok:
  assumes "db_ok db" and "tid \<in> table_ids (transactions db)" and "bid \<in> table_ids (blocks db)"
  shows "db_ok (save_dust_nullifiers es tid bid db) \<and> same_chain db (save_dust_nullifiers es tid bid db)"
    and "db_ok (save_zswap_nullifiers es tid bid db) \<and> same_chain db (save_zswap_nullifiers es tid bid db)"
proof -
  have a: "fk n_transaction_id (dust_nullifiers db) (table_ids (transactions db))"
    "fk n_block_id (dust_nullifiers db) (table_ids (blocks db))" "table_ok (dust_nullifiers db)"
    "fk n_transaction_id (zswap_nullifiers db) (table_ids (transactions db))"
    "fk n_block_id (zswap_nullifiers db) (table_ids (blocks db))" "table_ok (zswap_nullifiers db)"
    using assms(1) by (simp_all add: db_okD)
  show "db_ok (save_dust_nullifiers es tid bid db) \<and> same_chain db (save_dust_nullifiers es tid bid db)"
    using assms a by (auto simp: save_dust_nullifiers_def Let_def constraint_simps same_chain_def split_def
        intro!: db_ok_set_dust_nullifiers)
  show "db_ok (save_zswap_nullifiers es tid bid db) \<and> same_chain db (save_zswap_nullifiers es tid bid db)"
    using assms a by (auto simp: save_zswap_nullifiers_def Let_def constraint_simps same_chain_def
        intro!: db_ok_set_zswap_nullifiers)
qed

lemma save_identifiers_ok:
  assumes "db_ok db" and "tid \<in> table_ids (transactions db)"
  shows "db_ok (save_identifiers ids tid db) \<and> same_chain db (save_identifiers ids tid db)"
proof -
  have "fk fst (transaction_identifiers db) (table_ids (transactions db))" "table_ok (transaction_identifiers db)"
    using assms(1) by (simp_all add: db_okD)
  with assms show ?thesis
    by (auto simp: save_identifiers_def constraint_simps same_chain_def intro!: db_ok_set_identifiers)
qed

lemma save_bridge_claim_ok:
  assumes "db_ok db" and "tid \<in> table_ids (transactions db)"
  shows "db_ok (save_bridge_claim tid c db) \<and> same_chain db (save_bridge_claim tid c db)"
proof -
  have "fk bcr_transaction_id (bridge_claims db) (table_ids (transactions db))" "table_ok (bridge_claims db)"
    using assms(1) by (simp_all add: db_okD)
  with assms show ?thesis
    by (auto simp: save_bridge_claim_def insert_row_rows constraint_simps same_chain_def
        simp del: insert_rows.simps intro!: db_ok_set_bridge_claims)
qed

lemma save_regular_transaction_ok:
  assumes "save_regular_transaction feat t tid bid db = Inr (i, db')" and ok: "db_ok db"
    and tid: "tid \<in> table_ids (transactions db)" and bid: "bid \<in> table_ids (blocks db)"
  shows "db_ok db' \<and> same_chain db db' \<and> i = as_u64 tid"
proof -
  let ?db1 = "db\<lparr>regular_transactions := regular_transactions db @ [regular_transaction_row_of feat tid t]\<rparr>"
  let ?db2 = "if feat = Standalone then save_identifiers (rt_identifiers t) tid ?db1 else ?db1"
  obtain aids db3 db4 db5 db6 where fresh: "tid \<notin> set (map r_id (regular_transactions db))"
    and s3: "save_contract_actions (rt_contract_actions t) tid ?db2 = Inr (aids, db3)"
    and s4: "save_created_unshielded_utxos (rt_created_unshielded_utxos t) tid db3 = Inr db4"
    and s5: "save_spent_unshielded_utxos (rt_spent_unshielded_utxos t) tid db4 = Inr db5"
    and s6: "save_ledger_events (rt_ledger_events t) (rt_contract_actions t) aids tid db5 = Inr db6"
    and i: "i = as_u64 tid"
    and db': "db' = (let db = save_dust_generation_info (rt_ledger_events t) tid db6;
              db = save_dust_nullifiers (rt_ledger_events t) tid bid db;
              db = save_zswap_nullifiers (rt_ledger_events t) tid bid db
          in case rt_bridge_claim t of None \<Rightarrow> db | Some claim \<Rightarrow> save_bridge_claim tid claim db)"
    using assms(1) by (auto simp: save_regular_transaction_def Let_def res_simps split: if_splits)
  have ok1: "db_ok ?db1" using ok tid fresh
    by (intro db_ok_set_regular_transactions)
      (auto simp: regular_transaction_row_of_def db_okD dest!: db_okD(24))
  have "db_ok ?db2 \<and> same_chain ?db1 ?db2"
    using ok1 tid save_identifiers_ok [OF ok1, of tid] by (cases feat) auto
  then have 2: "db_ok ?db2" "same_chain db ?db2" by (auto simp: same_chain_def)
  have 3: "db_ok db3" "same_chain db db3"
    using save_contract_actions_ok [OF s3 2(1)] 2(2) tid by (auto simp: same_chain_def)
  have 4: "db_ok db4" "same_chain db db4"
    using save_created_unshielded_utxos_ok [OF s4 3(1)] 3(2) tid by (auto simp: same_chain_def)
  have 5: "db_ok db5" "same_chain db db5"
    using save_spent_unshielded_utxos_ok [OF s5 4(1)] 4(2) tid by (auto simp: same_chain_def)
  have 6: "db_ok db6" "same_chain db db6"
    using save_ledger_events_ok [OF s6 5(1)] 5(2) tid by (auto simp: same_chain_def)
  define db7 where "db7 = save_dust_generation_info (rt_ledger_events t) tid db6"
  have 7: "db_ok db7" "same_chain db db7"
    using save_dust_generation_info_ok [OF 6(1)] 6(2) tid by (auto simp: same_chain_def db7_def)
  define db8 where "db8 = save_dust_nullifiers (rt_ledger_events t) tid bid db7"
  have 8: "db_ok db8" "same_chain db db8"
    using save_nullifiers_ok(1) [OF 7(1)] 7(2) tid bid by (auto simp: same_chain_def db8_def)
  define db9 where "db9 = save_zswap_nullifiers (rt_ledger_events t) tid bid db8"
  have 9: "db_ok db9" "same_chain db db9"
    using save_nullifiers_ok(2) [OF 8(1)] 8(2) tid bid by (auto simp: same_chain_def db9_def)
  show ?thesis
    using save_bridge_claim_ok [OF 9(1)] 9 tid i
    by (auto simp: db' Let_def db7_def [symmetric] db8_def [symmetric] db9_def [symmetric] same_chain_def
        split: option.splits)
qed

lemma save_system_transaction_ok:
  assumes "save_system_transaction t tid db = Inr db'" and "db_ok db" and tid: "tid \<in> table_ids (transactions db)"
  shows "db_ok db' \<and> same_chain db db'"
proof -
  obtain db1 db2 where s1: "save_created_unshielded_utxos (st_created_unshielded_utxos t) tid db = Inr db1"
    and s2: "save_ledger_events (st_ledger_events t) [] [] tid db1 = Inr db2"
    and db': "db' = save_dust_generation_info (st_ledger_events t) tid db2"
    using assms(1) by (auto simp: save_system_transaction_def res_simps)
  have 1: "db_ok db1" "same_chain db db1" using save_created_unshielded_utxos_ok [OF s1 assms(2,3)] by auto
  have 2: "db_ok db2" "same_chain db db2"
    using save_ledger_events_ok [OF s2 1(1)] 1(2) tid by (auto simp: same_chain_def)
  show ?thesis using save_dust_generation_info_ok [OF 2(1)] 2(2) tid by (auto simp: db' same_chain_def)
qed

text \<open>Saving a transaction adds its row; the blocks stay as they are.\<close>

definition adds_transactions :: "i64 \<Rightarrow> transaction list \<Rightarrow> chain_db \<Rightarrow> chain_db \<Rightarrow> bool" where
  "adds_transactions bid txs db db' \<longleftrightarrow> blocks db' = blocks db
     \<and> transactions db' = snd (insert_rows (map (transaction_row_of bid) txs) (transactions db))"

lemma save_transaction_ok:
  assumes "save_transaction feat bid (h, db) t = Inr (h', db')" and ok: "db_ok db" and bid: "bid \<in> table_ids (blocks db)"
  shows "db_ok db' \<and> adds_transactions bid [t] db db'
    \<and> h' = (case t of Regular _ \<Rightarrow> Some (as_u64 (tab_next (transactions db))) | System _ \<Rightarrow> h)"
proof -
  let ?tid = "tab_next (transactions db)"
  let ?txs = "snd (insert_row (transaction_row_of bid t) (transactions db))"
  let ?db = "db\<lparr>transactions := ?txs\<rparr>"
  have row: "insert_row (transaction_row_of bid t) (transactions db) = (?tid, ?txs)"
    by (simp add: insert_row_def)
  have "t_block_id (transaction_row_of bid t) = bid" by (simp add: transaction_row_of_def)
  then have okd: "db_ok ?db" using ok bid
    by (intro db_ok_set_transactions)
      (auto simp: insert_row_rows constraint_simps db_okD simp del: insert_rows.simps)
  have tid: "?tid \<in> table_ids (transactions ?db)" by (simp add: table_ids_insert_row)
  have adds: "adds_transactions bid [t] db db'" if "same_chain ?db db'"
    using that by (simp add: adds_transactions_def same_chain_def split_def Let_def)
  show ?thesis
  proof (cases t)
    case (Regular r)
    then obtain i where "save_regular_transaction feat r ?tid bid ?db = Inr (i, db')" and h': "h' = Some i"
      using assms(1) row by (auto simp: save_transaction_def Let_def split_def insert_row_simps res_simps)
    from save_regular_transaction_ok [OF this(1) okd tid] bid show ?thesis
      using adds h' Regular by simp
  next
    case (System s)
    then have "save_system_transaction s ?tid ?db = Inr db'" and h': "h' = h"
      using assms(1) row by (auto simp: save_transaction_def Let_def split_def insert_row_simps res_simps)
    from save_system_transaction_ok [OF this(1) okd tid] show ?thesis
      using adds h' System by simp
  qed
qed

text \<open>The id of the last regular one of the transactions that get the ids from \<open>next\<close> on.\<close>

fun last_regular_id :: "i64 \<Rightarrow> transaction list \<Rightarrow> u64 option" where
  "last_regular_id next [] = None"
| "last_regular_id next (t # txs) =
     (case last_regular_id (next + 1) txs of
        Some i \<Rightarrow> Some i
      | None \<Rightarrow> if tx_variant t = RegularVariant then Some (as_u64 next) else None)"

lemma save_transactions_fold_ok:
  assumes "try_fold (save_transaction feat bid) (h, db) txs = Inr (h', db')" and "db_ok db"
    and "bid \<in> table_ids (blocks db)"
  shows "db_ok db' \<and> adds_transactions bid txs db db'
    \<and> h' = (case last_regular_id (tab_next (transactions db)) txs of None \<Rightarrow> h | Some i \<Rightarrow> Some i)"
  using assms
proof (induction txs arbitrary: h db)
  case Nil
  then show ?case by (simp add: adds_transactions_def)
next
  case (Cons t txs)
  obtain h1 db1 where s1: "save_transaction feat bid (h, db) t = Inr (h1, db1)"
    and s2: "try_fold (save_transaction feat bid) (h1, db1) txs = Inr (h', db')"
    using Cons.prems(1) by (auto split: sum.splits)
  note 1 = save_transaction_ok [OF s1 Cons.prems(2,3)]
  then have bid: "bid \<in> table_ids (blocks db1)" and next1: "tab_next (transactions db1) = tab_next (transactions db) + 1"
    using Cons.prems(3) by (simp_all add: adds_transactions_def split_def Let_def insert_row_simps)
  note 2 = Cons.IH [OF s2 _ bid]
  have "adds_transactions bid (t # txs) db db'"
    using 1 2 by (simp add: adds_transactions_def split_def Let_def)
  then show ?case using 1 2 next1 by (cases t) (auto split: option.splits)
qed

section \<open>Registrations and bridge events\<close>

abbreviation registration_key :: "registration_row \<Rightarrow> bytes \<times> bytes" where
  "registration_key \<equiv> \<lambda>r. (c_cardano_stake_key r, c_dust_address r)"

lemma fk_update_where_set:
  "fk g t A \<Longrightarrow> (\<And>r. g (f r) \<in> A \<or> g (f r) = g r) \<Longrightarrow> fk g (snd (update_where p f t)) A"
  by (auto simp: fk_def update_where_def) (metis snd_conv)+

lemma save_dust_registration_event_ok:
  assumes "table_ok t" and "unique registration_key t" and "fk c_block_id t A" and "bid \<in> A"
  shows "table_ok (save_dust_registration_event bid ts ev t)
    \<and> unique registration_key (save_dust_registration_event bid ts ev t)
    \<and> fk c_block_id (save_dust_registration_event bid ts ev t) A"
proof -
  have upd: "table_ok (snd (update_where p f t)) \<and> unique registration_key (snd (update_where p f t))
      \<and> fk c_block_id (snd (update_where p f t)) A"
    if "\<And>r. registration_key (f r) = registration_key r" "\<And>r. c_block_id (f r) \<in> A \<or> c_block_id (f r) = c_block_id r"
    for p f
    using assms that by (auto intro: fk_update_where_set simp: table_ok_update_where unique_update_where)
  have "unique registration_key (snd (insert_row r t))"
    if "\<not> list_ex (registration_is (c_cardano_stake_key r) (c_dust_address r)) (tab_rows t)" for r
    using assms(2) that unfolding insert_row_rows
    by (intro unique_insert_rows) (auto simp: conflicts_def registration_is_def list_ex_iff)
  then show ?thesis using assms upd
    by (auto simp: save_dust_registration_event_def upsert_registration_def insert_row_rows constraint_simps
        simp del: insert_rows.simps split: dust_registration_event.splits)
qed

lemma save_dust_registration_events_ok:
  assumes "db_ok db" and "bid \<in> table_ids (blocks db)"
  shows "db_ok (save_dust_registration_events es bid ts db) \<and> same_chain db (save_dust_registration_events es bid ts db)"
proof -
  have "table_ok (fold (save_dust_registration_event bid ts) es t)
      \<and> unique registration_key (fold (save_dust_registration_event bid ts) es t)
      \<and> fk c_block_id (fold (save_dust_registration_event bid ts) es t) (table_ids (blocks db))"
    if "table_ok t" "unique registration_key t" "fk c_block_id t (table_ids (blocks db))" for t
    using that
  proof (induction es arbitrary: t)
    case (Cons e es)
    then show ?case using save_dust_registration_event_ok [of t "table_ids (blocks db)" bid ts e] assms(2) by simp
  qed simp
  then show ?thesis using assms(1)
    by (auto simp: save_dust_registration_events_def same_chain_def db_okD intro!: db_ok_set_registrations)
qed

lemma find_transaction_ids: "find_transaction bid h db = Some i \<Longrightarrow> i \<in> table_ids (transactions db)"
  by (force simp: find_transaction_def select_where_def table_ids_def split: list.splits
      dest!: arg_cong [where f = set])

lemma save_bridge_event_ok:
  assumes "db_ok db" and "bid \<in> table_ids (blocks db)"
  shows "db_ok (save_bridge_event bid e db) \<and> same_chain db (save_bridge_event bid e db)"
proof -
  have "fk ber_block_id (bridge_events db) (table_ids (blocks db))" "table_ok (bridge_events db)"
    "fk_opt ber_transaction_id (bridge_events db) (table_ids (transactions db))"
    using assms(1) by (simp_all add: db_okD)
  then show ?thesis using assms find_transaction_ids
    by (auto simp: save_bridge_event_def insert_row_rows constraint_simps same_chain_def
        simp del: insert_rows.simps intro!: db_ok_set_bridge_events)
qed

lemma save_bridge_events_ok:
  "db_ok db \<Longrightarrow> bid \<in> table_ids (blocks db) \<Longrightarrow>
     db_ok (save_bridge_events es bid db) \<and> same_chain db (save_bridge_events es bid db)"
proof (induction es arbitrary: db)
  case (Cons e es)
  show ?case using save_bridge_event_ok [OF Cons.prems, of e] Cons.IH [of "save_bridge_event bid e db"] Cons.prems
    by (auto simp: save_bridge_events_def same_chain_def)
qed (simp add: save_bridge_events_def)

lemma save_system_parameters_change_ok:
  "db_ok db \<Longrightarrow> db_ok (save_system_parameters_change c db) \<and> same_chain db (save_system_parameters_change c db)"
proof -
  assume ok: "db_ok db"
  have "table_ok (system_parameters_d db)" "table_ok (system_parameters_tc db)" using ok by (simp_all add: db_okD)
  then show ?thesis using ok
    by (auto simp: save_system_parameters_change_def Let_def same_chain_def table_ok_insert_row
        intro!: db_ok_set_system_parameters split: option.splits)
qed

section \<open>Saving a block\<close>

lemma insert_block_ok:
  assumes "insert_block row db = Inr (i, db')" and ok: "db_ok db"
  shows "db_ok db' \<and> i = tab_next (blocks db) \<and> i \<in> table_ids (blocks db')
    \<and> blocks db' = snd (insert_row row (blocks db)) \<and> transactions db' = transactions db"
proof -
  have nc: "\<not> conflicts b_hash [row] (blocks db)" "\<not> conflicts b_height [row] (blocks db)"
    and db': "db' = db\<lparr>blocks := snd (insert_row row (blocks db))\<rparr>" and i: "i = tab_next (blocks db)"
    using assms(1) by (auto simp: insert_block_def Let_def split_def insert_row_simps split: if_splits)
  have "db_ok db'" unfolding db' insert_row_rows
    using ok nc by (intro db_ok_set_blocks unique_insert_rows)
      (auto simp: constraint_simps db_okD simp del: insert_rows.simps)
  then show ?thesis using i by (simp add: db' table_ids_insert_row)
qed

lemma save_block_tx_ok:
  assumes "save_block_tx feat b txs regs key db = Inr (mx, db')" and ok: "db_ok db"
  shows "db_ok db' \<and> blocks db' = snd (insert_row (block_row_of b key) (blocks db))
    \<and> transactions db' = snd (insert_rows (map (transaction_row_of (tab_next (blocks db))) txs) (transactions db))
    \<and> mx = last_regular_id (tab_next (transactions db)) txs"
proof -
  obtain bid db1 db2 where s1: "insert_block (block_row_of b key) db = Inr (bid, db1)"
    and s2: "save_transactions feat txs bid db1 = Inr (mx, db2)"
    and db': "db' = save_bridge_events (bl_bridge_events b) bid
        (save_dust_registration_events regs bid (bl_timestamp b) db2)"
    using assms(1) by (auto simp: save_block_tx_def Let_def res_simps)
  note 1 = insert_block_ok [OF s1 ok]
  have 2: "db_ok db2 \<and> adds_transactions bid txs db1 db2
      \<and> mx = last_regular_id (tab_next (transactions db1)) txs"
    using save_transactions_fold_ok [OF s2 [unfolded save_transactions_def]] 1 by (auto split: option.splits)
  have bid2: "bid \<in> table_ids (blocks db2)" using 1 2 unfolding adds_transactions_def by metis
  define db3 where "db3 = save_dust_registration_events regs bid (bl_timestamp b) db2"
  have 3: "db_ok db3" "same_chain db2 db3"
    using save_dust_registration_events_ok [OF _ bid2] 2 by (auto simp: db3_def)
  have 4: "db_ok db'" "same_chain db3 db'"
    using save_bridge_events_ok [OF 3(1), of bid "bl_bridge_events b"] 3(2) bid2
    by (simp_all add: db' db3_def [symmetric] same_chain_def)
  show ?thesis using 1 2 3 4 by (auto simp: same_chain_def adds_transactions_def)
qed

end
