(* ===== verification/Chain_App.thy ===== *)
theory Chain_App
  imports Chain_Storage
begin

text \<open>
  The chain indexer's application, \<^verbatim>\<open>chain-indexer/src/application.rs\<close>: the stream of node blocks,
  indexing of one block, the detection of changed system parameters, the retention window of
  persisted ledger states, and startup. Node, storage, publisher and ledger are records of
  functions, as the code takes them as \<^verbatim>\<open>impl\<close> traits; \<open>chain_storage\<close> is the storage of
  \<open>Chain_Storage\<close>. Metrics, logging and tracing are left out.
\<close>

section \<open>Interfaces\<close>

datatype message =
    BlockIndexed u64 "u64 option" bool
  | UnshieldedUtxoIndexed bytes
  | BridgeEventIndexed u64 bridge_event
  | WalletIndexed bytes

datatype app_error =
    Context string
  | SaveBlockError sqlx_error
  | LedgerStateRootMismatch bytes u64 bytes bytes
  | ZswapStateRootMismatch bytes u64
  | LedgerParametersError
  | NoPersistedLedgerState

text \<open>
  The rest of \<^verbatim>\<open>LedgerState\<close>: \<open>'r\<close> is a zswap Merkle tree root and \<open>'g\<close> the ledger database behind
  \<^verbatim>\<open>persist\<close>, \<^verbatim>\<open>unpersist\<close> and \<^verbatim>\<open>gc\<close>.
\<close>

record ('l, 'e, 'c, 'p, 'r, 'g) ledger_env =
  la_ops :: "('l, 'e, 'c, 'p) ledger_ops"
  la_new :: "ledger_version \<Rightarrow> 'e + 'l"
  la_load :: "bytes \<Rightarrow> ledger_version \<Rightarrow> 'g \<Rightarrow> 'e + 'l"
  la_ledger_version :: "'l \<Rightarrow> ledger_version"
  la_translate :: "'l \<Rightarrow> ledger_version \<Rightarrow> 'e + 'l"
  la_from_genesis :: "bytes \<Rightarrow> ledger_version \<Rightarrow> 'e + 'l"
  la_root :: "'l \<Rightarrow> 'e + bytes"
  la_zswap_root :: "'l \<Rightarrow> 'r"
  la_ser_root :: "'r \<Rightarrow> 'e + bytes"
  la_dust_commitment_root :: "'l \<Rightarrow> 'e + bytes"
  la_dust_generation_root :: "'l \<Rightarrow> 'e + bytes"
  la_ser_params :: "'p \<Rightarrow> 'e + bytes"
  la_persist :: "'l \<Rightarrow> 'g \<Rightarrow> 'e + ('l \<times> bytes) \<times> 'g"
  la_unpersist :: "bytes \<Rightarrow> ledger_version \<Rightarrow> 'g \<Rightarrow> 'e + 'g"
  la_gc :: "'g \<Rightarrow> 'g"

record 's storage_ops =
  so_save_block :: "block \<Rightarrow> transaction list \<Rightarrow> dust_registration_event list \<Rightarrow> bytes
     \<Rightarrow> system_parameters_change option \<Rightarrow> 's \<Rightarrow> (sqlx_error + u64 option) \<times> 's"
  so_get_highest_block :: "'s \<Rightarrow> sqlx_error + (block_ref \<times> protocol_version \<times> bytes) option"
  so_get_highest_block_timestamp :: "'s \<Rightarrow> sqlx_error + u64 option"
  so_get_newest_ledger_state_keys :: "nat \<Rightarrow> 's \<Rightarrow> sqlx_error + (protocol_version \<times> bytes) list"
  so_get_latest_d_parameter :: "'s \<Rightarrow> sqlx_error + d_parameter option"
  so_get_latest_terms_and_conditions :: "'s \<Rightarrow> sqlx_error + terms_and_conditions option"

definition chain_storage :: "feature \<Rightarrow> chain_db storage_ops" where
  "chain_storage feat =
     \<lparr>so_save_block = save_block feat,
      so_get_highest_block = get_highest_block,
      so_get_highest_block_timestamp = (\<lambda>db. Inr (get_highest_block_timestamp db)),
      so_get_newest_ledger_state_keys = get_newest_ledger_state_keys,
      so_get_latest_d_parameter = (\<lambda>db. Inr (get_latest_d_parameter db)),
      so_get_latest_terms_and_conditions = get_latest_terms_and_conditions\<rparr>"

record 'ne node_ops =
  no_fetch_genesis_ledger_state :: "'ne + bytes"
  no_fetch_system_parameters :: "bytes \<Rightarrow> u64 \<Rightarrow> u64 \<Rightarrow> node_version \<Rightarrow> 'ne + system_parameters_change"

text \<open>
  What indexing a block is given: the configuration, the four parts above, the height of the node's
  highest block as the other task last wrote it, and the order a \<^verbatim>\<open>HashSet\<close> is iterated in.
\<close>

record ('l, 'e, 'c, 'p, 'r, 'g, 's, 'ne, 'q, 'pe) app_env =
  ae_caught_up_max_distance :: u32
  ae_caught_up_leeway :: u32
  ae_ledger :: "('l, 'e, 'c, 'p, 'r, 'g) ledger_env"
  ae_storage :: "'s storage_ops"
  ae_node :: "'ne node_ops"
  ae_publish :: "message \<Rightarrow> 'q \<Rightarrow> 'pe + 'q"
  ae_highest_block_on_node :: "block_ref option"
  ae_hash_order :: "bytes set \<Rightarrow> bytes list"

text \<open>What it changes: its \<^verbatim>\<open>&mut\<close> arguments, the ledger database and the messages sent.\<close>

record ('s, 'g, 'q) app_state =
  as_caught_up :: bool
  as_parent_block_timestamp :: u64
  as_storage :: 's
  as_ledger_db :: 'g
  as_publisher :: 'q

abbreviation context_err :: "string \<Rightarrow> 'e + 'a \<Rightarrow> app_error + 'a" where
  "context_err msg \<equiv> map_err (\<lambda>_. Context msg)"

section \<open>The stream of node blocks\<close>

definition highest_hash_or_default :: "block_ref option \<Rightarrow> bytes" where
  "highest_hash_or_default highest =
     (case highest of None \<Rightarrow> byte_array_default 32 | Some r \<Rightarrow> br_hash r)"

text \<open>The inner loop on one stream of finalized blocks: what it yields, and the highest block after it.\<close>

fun node_blocks_inner ::
  "block_ref option \<Rightarrow> ('ne + 'r node_block) list \<Rightarrow> ('ne + 'r node_block) list \<times> block_ref option" where
  "node_blocks_inner highest [] = ([], highest)"
| "node_blocks_inner highest (Inl e # items) =
     (let (ys, highest') = node_blocks_inner highest items in (Inl e # ys, highest'))"
| "node_blocks_inner highest (Inr b # items) =
     (if nb_parent_hash b \<noteq> highest_hash_or_default highest then ([], highest)
      else let (ys, highest') = node_blocks_inner (Some (block_ref_from b)) items
        in (Inr b # ys, highest'))"

text \<open>
  The outer loop restarts the node's stream after the highest block seen so far. \<open>finalized k after\<close>
  is the stream the node gives on the \<open>k\<close>-th call; the result is what the first \<open>n\<close> calls yield.
\<close>

fun node_blocks ::
  "(nat \<Rightarrow> block_ref option \<Rightarrow> ('ne + 'r node_block) list) \<Rightarrow> nat \<Rightarrow> nat \<Rightarrow> block_ref option
     \<Rightarrow> ('ne + 'r node_block) list" where
  "node_blocks finalized k 0 highest = []"
| "node_blocks finalized k (Suc n) highest =
     (let (ys, highest') = node_blocks_inner highest (finalized k highest)
      in ys @ node_blocks finalized (Suc k) n highest')"

section \<open>System parameters\<close>

definition determine_system_parameters_change ::
  "'s storage_ops \<Rightarrow> 'ne node_ops \<Rightarrow> block \<Rightarrow> 's \<Rightarrow> app_error + system_parameters_change option" where
  "determine_system_parameters_change storage node b s =
     and_then (context_err ''fetch system parameters''
         (no_fetch_system_parameters node (bl_hash b) (bl_height b) (bl_timestamp b)
            (pv_node_version (bl_protocol_version b)))) (\<lambda>current.
     and_then (context_err ''get latest D-parameter'' (so_get_latest_d_parameter storage s))
       (\<lambda>stored_d_param.
     and_then (context_err ''get latest terms and conditions'' (so_get_latest_terms_and_conditions storage s))
       (\<lambda>stored_tc.
       let d_param_changed =
             (case spc_d_parameter current of
                None \<Rightarrow> False
              | Some current_d \<Rightarrow>
                  (case stored_d_param of
                     None \<Rightarrow> True
                   | Some stored_d \<Rightarrow>
                       num_permissioned_candidates current_d \<noteq> num_permissioned_candidates stored_d
                     \<or> num_registered_candidates current_d \<noteq> num_registered_candidates stored_d));
           tc_changed =
             (case (spc_terms_and_conditions current, stored_tc) of
                (Some current_tc, Some stored_tc) \<Rightarrow>
                  tc_hash current_tc \<noteq> tc_hash stored_tc \<or> tc_url current_tc \<noteq> tc_url stored_tc
              | (Some _, None) \<Rightarrow> True
              | (None, Some _) \<Rightarrow> False
              | (None, None) \<Rightarrow> False)
       in Inr (if d_param_changed \<or> tc_changed
               then Some \<lparr>spc_block_height = bl_height b, spc_block_hash = bl_hash b,
                          spc_timestamp = bl_timestamp b,
                          spc_d_parameter = (if d_param_changed then spc_d_parameter current else None),
                          spc_terms_and_conditions =
                            (if tc_changed then spc_terms_and_conditions current else None)\<rparr>
               else None))))"

section \<open>Indexing a block\<close>

text \<open>The ledger state a block's transactions are applied to, before genesis handling.\<close>

definition prepare_ledger_state ::
  "('l, 'e, 'c, 'p, 'r, 'g) ledger_env \<Rightarrow> block \<Rightarrow> 'l \<Rightarrow> app_error + 'l" where
  "prepare_ledger_state le b l =
     (let ledger_version = pv_ledger_version (bl_protocol_version b) in
      if bl_height b = 0 then context_err ''create ledger state'' (la_new le ledger_version)
      else context_err ''translate ledger state'' (la_translate le l ledger_version))"

text \<open>
  Applying the transactions, with the comparison of ledger state roots at genesis that tells whether
  the genesis state already includes the block's transactions.
\<close>

definition apply_block ::
  "('l, 'e, 'c, 'p, 'r, 'g) ledger_env \<Rightarrow> 'ne node_ops \<Rightarrow> block \<Rightarrow> node_transaction list \<Rightarrow> u64 \<Rightarrow> 'l
     \<Rightarrow> app_error + (transaction list \<times> 'p) \<times> 'l" where
  "apply_block le node b txs parent_block_timestamp l =
     (let apply = (\<lambda>l. context_err ''apply transactions to ledger state''
            (apply_transactions (la_ops le) l txs (bl_parent_hash b) (bl_timestamp b)
               parent_block_timestamp (0 < bl_height b)))
      in if bl_height b = 0 then
           (case bl_ledger_state_root b of
              Some ledger_state_root \<Rightarrow>
                and_then (context_err ''fetch genesis ledger state'' (no_fetch_genesis_ledger_state node))
                  (\<lambda>raw.
                and_then (context_err ''create ledger state from genesis''
                    (la_from_genesis le raw (pv_ledger_version (bl_protocol_version b)))) (\<lambda>genesis.
                and_then (context_err ''compute genesis ledger state root'' (la_root le genesis))
                  (\<lambda>genesis_root.
                  if ledger_state_root = genesis_root
                  then map_ok (\<lambda>(r, _). (r, genesis)) (apply l)
                  else apply genesis)))
            | None \<Rightarrow> apply l)
         else apply l)"

text \<open>The fields set from the ledger state after the block.\<close>

definition complete_block ::
  "('l, 'e, 'c, 'p, 'r, 'g) ledger_env \<Rightarrow> block \<Rightarrow> 'p \<Rightarrow> 'l \<Rightarrow> app_error + block" where
  "complete_block le b params l =
     and_then (map_err (\<lambda>_. LedgerParametersError) (la_ser_params le params)) (\<lambda>ledger_parameters.
     and_then (context_err ''get dust commitment merkle tree root'' (la_dust_commitment_root le l))
       (\<lambda>dust_commitment_root.
     and_then (context_err ''get dust generation merkle tree root'' (la_dust_generation_root le l))
       (\<lambda>dust_generation_root.
       Inr (b\<lparr>bl_ledger_parameters := ledger_parameters,
              bl_zswap_end_index := ld_zswap_first_free (la_ops le) l,
              bl_dust_commitment_end_index := ld_dust_commitments_first_free (la_ops le) l,
              bl_dust_generation_end_index := ld_dust_generations_first_free (la_ops le) l,
              bl_dust_commitment_merkle_tree_root := dust_commitment_root,
              bl_dust_generation_merkle_tree_root := dust_generation_root\<rparr>))))"

definition validate_ledger_state ::
  "('l, 'e, 'c, 'p, 'r, 'g) ledger_env \<Rightarrow> block \<Rightarrow> 'r \<Rightarrow> 'l \<Rightarrow> app_error + unit" where
  "validate_ledger_state le b zswap_merkle_tree_root l =
     and_then (context_err ''get ledger state root'' (la_root le l)) (\<lambda>ledger_state_root.
       if (case bl_ledger_state_root b of None \<Rightarrow> False | Some r \<Rightarrow> r \<noteq> ledger_state_root)
       then Inl (LedgerStateRootMismatch (bl_hash b) (bl_height b)
              (the (bl_ledger_state_root b)) ledger_state_root)
       else if la_zswap_root le l \<noteq> zswap_merkle_tree_root
       then Inl (ZswapStateRootMismatch (bl_hash b) (bl_height b))
       else Inr ())"

text \<open>
  Caught up or not, with the leeway once caught up. \<^verbatim>\<open>caught_up_max_distance + caught_up_leeway\<close> is
  a \<^verbatim>\<open>u32\<close> addition.
\<close>

definition next_caught_up :: "u32 \<Rightarrow> u32 \<Rightarrow> block_ref option \<Rightarrow> u64 \<Rightarrow> bool \<Rightarrow> bool" where
  "next_caught_up max_distance leeway highest_on_node height caught_up =
     (let node_block_height = (case highest_on_node of None \<Rightarrow> - 1 | Some r \<Rightarrow> br_height r);
          distance = saturating_sub node_block_height height;
          limit = (if caught_up then max_distance + leeway else max_distance)
      in unat distance \<le> unat limit)"

definition affected_addresses :: "transaction list \<Rightarrow> bytes list" where
  "affected_addresses txs =
     map utxo_owner (concat (map (\<lambda>t. case t of
         Regular r \<Rightarrow> rt_created_unshielded_utxos r @ rt_spent_unshielded_utxos r
       | System s \<Rightarrow> st_created_unshielded_utxos s) txs))"

primrec publish_context :: "message \<Rightarrow> string" where
  "publish_context (BlockIndexed _ _ _) = ''publish BlockIndexed event''"
| "publish_context (UnshieldedUtxoIndexed _) = ''publish UnshieldedUtxoIndexed event''"
| "publish_context (BridgeEventIndexed _ _) = ''publish BridgeEventIndexed event''"
| "publish_context (WalletIndexed _) = ''publish WalletIndexed event''"

fun publish_all :: "(message \<Rightarrow> 'q \<Rightarrow> 'pe + 'q) \<Rightarrow> message list \<Rightarrow> 'q \<Rightarrow> (app_error + unit) \<times> 'q" where
  "publish_all publish [] q = (Inr (), q)"
| "publish_all publish (m # ms) q =
     (case publish m q of
        Inl _ \<Rightarrow> (Inl (Context (publish_context m)), q)
      | Inr q' \<Rightarrow> publish_all publish ms q')"

definition block_messages ::
  "(bytes set \<Rightarrow> bytes list) \<Rightarrow> block \<Rightarrow> transaction list \<Rightarrow> u64 option \<Rightarrow> bool \<Rightarrow> message list" where
  "block_messages hash_order b txs max_transaction_id caught_up =
     BlockIndexed (bl_height b) max_transaction_id caught_up
     # map UnshieldedUtxoIndexed (hash_order (set (affected_addresses txs)))
     @ map (BridgeEventIndexed (bl_height b)) (bl_bridge_events b)"

text \<open>Everything of \<^verbatim>\<open>index_block\<close> up to the validation, which has no effect outside the process.\<close>

definition process_block ::
  "('l, 'e, 'c, 'p, 'r, 'g) ledger_env \<Rightarrow> 'ne node_ops \<Rightarrow> 'r node_block \<Rightarrow> u64 \<Rightarrow> 'l
     \<Rightarrow> app_error + block \<times> transaction list \<times> 'l" where
  "process_block le node nb parent_block_timestamp l =
     and_then (context_err ''convert node block into domain'' (block_try_from (la_ser_root le) nb))
       (\<lambda>(b, txs).
     and_then (prepare_ledger_state le b l) (\<lambda>l.
     let parent_ts = (if parent_block_timestamp = 0 then bl_timestamp b else parent_block_timestamp) in
     and_then (apply_block le node b txs parent_ts l) (\<lambda>((txs', params), l).
     and_then (complete_block le b params l) (\<lambda>b.
     and_then (validate_ledger_state le b (nb_zswap_merkle_tree_root nb) l) (\<lambda>_.
       Inr (b, txs', l))))))"

text \<open>
  \<^verbatim>\<open>index_block\<close>: process, then persist the ledger state, save the block, publish. The result is
  paired with the state the steps before an error leave behind; an error ends the process, so
  what it leaves in the process's own variables does not matter.
\<close>

definition index_block ::
  "('l, 'e, 'c, 'p, 'r, 'g, 's, 'ne, 'q, 'pe) app_env \<Rightarrow> 'r node_block \<Rightarrow> 'l
     \<Rightarrow> ('s, 'g, 'q) app_state \<Rightarrow> (app_error + 'l \<times> bytes) \<times> ('s, 'g, 'q) app_state" where
  "index_block env nb l st =
     (case process_block (ae_ledger env) (ae_node env) nb (as_parent_block_timestamp st) l of
        Inl e \<Rightarrow> (Inl e, st)
      | Inr (b, txs', l) \<Rightarrow>
          let caught_up = next_caught_up (ae_caught_up_max_distance env) (ae_caught_up_leeway env)
                (ae_highest_block_on_node env) (bl_height b) (as_caught_up st);
              st = st\<lparr>as_parent_block_timestamp := bl_timestamp b, as_caught_up := caught_up\<rparr>
          in (case la_persist (ae_ledger env) l (as_ledger_db st) of
               Inl _ \<Rightarrow> (Inl (Context ''persist ledger state''), st)
             | Inr ((l, ledger_state_key), g) \<Rightarrow>
                 let st = st\<lparr>as_ledger_db := g\<rparr> in
                 (case determine_system_parameters_change (ae_storage env) (ae_node env) b (as_storage st) of
                    Inl e \<Rightarrow> (Inl e, st)
                  | Inr change \<Rightarrow>
                      (case so_save_block (ae_storage env) b txs'
                              (bl_dust_registration_events b) ledger_state_key change (as_storage st) of
                         (Inl e, s) \<Rightarrow> (Inl (SaveBlockError e), st\<lparr>as_storage := s\<rparr>)
                       | (Inr max_transaction_id, s) \<Rightarrow>
                           let st = st\<lparr>as_storage := s\<rparr> in
                           (case publish_all (ae_publish env)
                                   (block_messages (ae_hash_order env) b txs'
                                      max_transaction_id caught_up) (as_publisher st) of
                              (Inl e, q) \<Rightarrow> (Inl e, st\<lparr>as_publisher := q\<rparr>)
                            | (Inr _, q) \<Rightarrow>
                                (Inr (l, ledger_state_key), st\<lparr>as_publisher := q\<rparr>))))))"

section \<open>The indexing loop and its retention window\<close>

text \<open>The \<^verbatim>\<open>while\<close> loop that trims the window, oldest key first.\<close>

fun trim_window ::
  "('l, 'e, 'c, 'p, 'r, 'g) ledger_env \<Rightarrow> nat \<Rightarrow> (bytes \<times> ledger_version) list \<Rightarrow> 'g
     \<Rightarrow> (app_error + (bytes \<times> ledger_version) list) \<times> 'g" where
  "trim_window le retention [] g = (Inr [], g)"
| "trim_window le retention ((key, version) # window) g =
     (if retention < length ((key, version) # window) then
        (case la_unpersist le key version g of
           Inl _ \<Rightarrow> (Inl (Context ''unpersist ledger state beyond retention window''), g)
         | Inr g' \<Rightarrow> trim_window le retention window g')
      else (Inr ((key, version) # window), g))"

definition get_next_block :: "('ne + 'r node_block) option \<Rightarrow> app_error + 'r node_block" where
  "get_next_block item =
     (case item of
        None \<Rightarrow> Inl (Context ''no more block from node'')
      | Some r \<Rightarrow> context_err ''get next block from node'' r)"

definition get_and_index_block ::
  "('l, 'e, 'c, 'p, 'r, 'g, 's, 'ne, 'q, 'pe) app_env \<Rightarrow> ('ne + 'r node_block) option \<Rightarrow> 'l
     \<Rightarrow> ('s, 'g, 'q) app_state \<Rightarrow> (app_error + 'l \<times> bytes) \<times> ('s, 'g, 'q) app_state" where
  "get_and_index_block env item l st =
     (case get_next_block item of
        Inl e \<Rightarrow> (Inl e, st)
      | Inr nb \<Rightarrow> index_block env nb l st)"

text \<open>One iteration: take the next item, index it, advance the window, collect garbage.\<close>

definition index_iteration ::
  "('l, 'e, 'c, 'p, 'r, 'g, 's, 'ne, 'q, 'pe) app_env \<Rightarrow> nat \<Rightarrow> bool \<Rightarrow> 'ne + 'r node_block
     \<Rightarrow> 'l \<times> (bytes \<times> ledger_version) list \<Rightarrow> ('s, 'g, 'q) app_state
     \<Rightarrow> (app_error + 'l \<times> (bytes \<times> ledger_version) list) \<times> ('s, 'g, 'q) app_state" where
  "index_iteration env retention gc_enabled item = (\<lambda>(l, window) st.
     case get_and_index_block env (Some item) l st of
       (Inl e, st) \<Rightarrow> (Inl e, st)
     | (Inr (l, key), st) \<Rightarrow>
         (case trim_window (ae_ledger env) retention
                 (window @ [(key, la_ledger_version (ae_ledger env) l)]) (as_ledger_db st) of
            (Inl e, g) \<Rightarrow> (Inl e, st\<lparr>as_ledger_db := g\<rparr>)
          | (Inr window, g) \<Rightarrow>
              (Inr (l, window),
               st\<lparr>as_ledger_db := (if gc_enabled then la_gc (ae_ledger env) g else g)\<rparr>)))"

text \<open>
  The loop on the items the block stream has yielded so far. \<open>env_at k\<close> is what the \<open>k\<close>-th iteration
  finds: the height of the node's highest block changes between iterations.
\<close>

fun index_blocks ::
  "(nat \<Rightarrow> ('l, 'e, 'c, 'p, 'r, 'g, 's, 'ne, 'q, 'pe) app_env) \<Rightarrow> nat \<Rightarrow> nat \<Rightarrow> bool
     \<Rightarrow> ('ne + 'r node_block) list \<Rightarrow> 'l \<times> (bytes \<times> ledger_version) list \<Rightarrow> ('s, 'g, 'q) app_state
     \<Rightarrow> (app_error + 'l \<times> (bytes \<times> ledger_version) list) \<times> ('s, 'g, 'q) app_state" where
  "index_blocks env_at k retention gc_enabled [] lw st = (Inr lw, st)"
| "index_blocks env_at k retention gc_enabled (item # items) lw st =
     (case index_iteration (env_at k) retention gc_enabled item lw st of
        (Inl e, st) \<Rightarrow> (Inl e, st)
      | (Inr lw, st) \<Rightarrow> index_blocks env_at (Suc k) retention gc_enabled items lw st)"

section \<open>Startup\<close>

text \<open>
  \<^verbatim>\<open>run\<close> up to the spawning of its tasks. \<open>root_hash\<close> is \<^verbatim>\<open>LedgerState::root_hash_bytes\<close>, \<open>repair\<close> is
  \<^verbatim>\<open>LedgerState::repair_root_counts\<close> and \<open>persisted_roots\<close> is \<^verbatim>\<open>LedgerState::persisted_root_hashes\<close>
  (the walk inside the repair may not end: \<^verbatim>\<open>None\<close>). The counts read for the metrics are left out.
\<close>

definition unwrap_or_zero :: "u64 option \<Rightarrow> u64" where
  "unwrap_or_zero x = (case x of None \<Rightarrow> 0 | Some v \<Rightarrow> v)"

record 'l startup =
  su_highest_block_ref :: "block_ref option"
  su_parent_block_timestamp :: u64
  su_window :: "(bytes \<times> ledger_version) list"
  su_ledger_state :: 'l

definition seed_window ::
  "bytes list \<Rightarrow> (bytes \<times> ledger_version \<times> bytes) list \<Rightarrow> (bytes \<times> ledger_version) list" where
  "seed_window persisted newest =
     map (\<lambda>(key, version, _). (key, version)) (filter (\<lambda>(_, _, root_hash). root_hash \<in> set persisted) newest)"

definition initial_ledger_state ::
  "('l, 'e, 'c, 'p, 'r, 'g) ledger_env \<Rightarrow> block_ref option \<Rightarrow> (bytes \<times> ledger_version) list \<Rightarrow> 'g
     \<Rightarrow> app_error + 'l" where
  "initial_ledger_state le highest window g =
     (if window \<noteq> [] then context_err ''load ledger state''
        (la_load le (fst (last window)) (snd (last window)) g)
      else if highest \<noteq> None then Inl NoPersistedLedgerState
      else context_err ''create ledger state'' (la_new le OLDEST))"

definition run_startup ::
  "('l, 'e, 'c, 'p, 'r, 'g) ledger_env \<Rightarrow> 's storage_ops \<Rightarrow> (bytes \<Rightarrow> ledger_version \<Rightarrow> 'e + bytes)
     \<Rightarrow> ((bytes \<times> ledger_version) list \<Rightarrow> 'g \<Rightarrow> ('e + 'rep \<times> 'g) option) \<Rightarrow> ('g \<Rightarrow> bytes list) \<Rightarrow> nat \<Rightarrow> 's \<Rightarrow> 'g
     \<Rightarrow> (app_error + 'l startup \<times> 'g) option" where
  "run_startup le storage root_hash repair persisted_roots retention s g =
     (case and_then (context_err ''get highest block'' (so_get_highest_block storage s)) (\<lambda>highest.
           and_then (context_err ''get highest block timestamp'' (so_get_highest_block_timestamp storage s))
             (\<lambda>timestamp.
           and_then (context_err ''get newest ledger state keys''
               (so_get_newest_ledger_state_keys storage retention s)) (\<lambda>keys.
           and_then (context_err ''get ledger state root hashes''
               (try_map (\<lambda>(version, key). map_ok (\<lambda>h. (key, pv_ledger_version version, h))
                    (root_hash key (pv_ledger_version version))) keys)) (\<lambda>newest.
             Inr (map_option fst highest, unwrap_or_zero timestamp, newest))))) of
        Inl e \<Rightarrow> Some (Inl e)
      | Inr (highest, timestamp, newest) \<Rightarrow>
          (case repair (map (\<lambda>(key, version, _). (key, version)) newest) g of
             None \<Rightarrow> None
           | Some (Inl _) \<Rightarrow> Some (Inl (Context ''repair ledger state root counts''))
           | Some (Inr (_, g)) \<Rightarrow>
               let window = seed_window (persisted_roots g) newest in
               Some (map_ok (\<lambda>l. (\<lparr>su_highest_block_ref = highest, su_parent_block_timestamp = timestamp,
                                   su_window = window, su_ledger_state = l\<rparr>, g))
                 (initial_ledger_state le highest window g))))"

section \<open>The next item\<close>

lemma get_and_index_block_simps [simp]:
  "get_and_index_block env (Some (Inl e)) l st = (Inl (Context ''get next block from node''), st)"
  "get_and_index_block env (Some (Inr nb)) l st = index_block env nb l st"
  by (simp_all add: get_and_index_block_def get_next_block_def)

end
