(* ===== verification/Ledger_Db.thy ===== *)
theory Ledger_Db
  imports Prelude "HOL-Library.AList" "HOL-Library.List_Lexorder"
begin

text \<open>
  The ledger database, \<^verbatim>\<open>indexer-common/src/infra/ledger_db/v1_1.rs\<close>: the \<^verbatim>\<open>DB\<close> implementation
  that the ledger's storage arena runs on. Two tables with a primary key, the arena nodes and
  the garbage-collection root counts, are association lists in insertion order; \<^verbatim>\<open>ON CONFLICT\<close>
  upserts are \<open>AList.update\<close>. Node objects are third-party values: \<open>ser\<close> and \<open>de\<close> stand for their
  \<^verbatim>\<open>Serializable\<close> and \<^verbatim>\<open>Deserializable\<close> instances. An arena hash is its bytes, ordered as the
  \<^verbatim>\<open>BYTEA\<close> and \<^verbatim>\<open>BLOB\<close> columns are. Every failure of this code is a panic.
\<close>

section \<open>State and operations\<close>

datatype panic = Panic string

record ledger_db =
  ldb_nodes :: "(bytes \<times> bytes) list"
  ldb_roots :: "(bytes \<times> i64) list"

datatype 'o update = InsertNode 'o | DeleteNode | SetRootCount u32

definition decode_object :: "(bytes \<Rightarrow> 'o option) \<Rightarrow> string \<Rightarrow> bytes \<Rightarrow> panic + 'o" where
  "decode_object de msg object =
     (case de object of None \<Rightarrow> Inl (Panic msg) | Some node \<Rightarrow> Inr node)"

definition get_node :: "(bytes \<Rightarrow> 'o option) \<Rightarrow> ledger_db \<Rightarrow> bytes \<Rightarrow> panic + 'o option" where
  "get_node de db key =
     (case map_of (ldb_nodes db) key of
        None \<Rightarrow> Inr None
      | Some object \<Rightarrow> map_ok Some (decode_object de ''cannot deserialize node as OnDiskObject'' object))"

definition insert_node :: "('o \<Rightarrow> bytes) \<Rightarrow> bytes \<Rightarrow> 'o \<Rightarrow> ledger_db \<Rightarrow> ledger_db" where
  "insert_node ser key object db = db\<lparr>ldb_nodes := AList.update key (ser object) (ldb_nodes db)\<rparr>"

definition delete_node :: "bytes \<Rightarrow> ledger_db \<Rightarrow> ledger_db" where
  "delete_node key db = db\<lparr>ldb_nodes := AList.delete key (ldb_nodes db)\<rparr>"

definition set_root_count :: "bytes \<Rightarrow> u32 \<Rightarrow> ledger_db \<Rightarrow> ledger_db" where
  "set_root_count key count db =
     (if 0 < count
      then db\<lparr>ldb_roots := AList.update key (uint count) (ldb_roots db)\<rparr>
      else db\<lparr>ldb_roots := AList.delete key (ldb_roots db)\<rparr>)"

definition get_root_count :: "ledger_db \<Rightarrow> bytes \<Rightarrow> u32" where
  "get_root_count db key =
     (case map_of (ldb_roots db) key of None \<Rightarrow> 0 | Some count \<Rightarrow> word_of_int count)"

definition get_roots :: "ledger_db \<Rightarrow> (bytes \<times> u32) list" where
  "get_roots db = map (\<lambda>(key, count). (key, word_of_int count)) (ldb_roots db)"

definition ldb_size :: "ledger_db \<Rightarrow> nat" where
  "ldb_size db = length (ldb_nodes db)"

definition BATCH_INSERT_SIZE :: nat where
  "BATCH_INSERT_SIZE = 1000"

text \<open>\<^verbatim>\<open>slice.chunks(n)\<close>.\<close>

function chunks :: "nat \<Rightarrow> 'a list \<Rightarrow> 'a list list" where
  "chunks n xs = (if xs = [] \<or> n = 0 then [] else take n xs # chunks n (drop n xs))"
  by pat_completeness auto
termination
  by (relation "measure (\<lambda>(n, xs). length xs)") auto

declare chunks.simps [simp del]

text \<open>
  One multi-row upsert. PostgreSQL refuses a statement that would update a row twice;
  SQLite applies the rows in order.
\<close>

definition upsert_chunk ::
  "feature \<Rightarrow> ('o \<Rightarrow> bytes) \<Rightarrow> (bytes \<times> 'o) list \<Rightarrow> ledger_db \<Rightarrow> panic + ledger_db" where
  "upsert_chunk feat ser chunk db =
     (if feat = Cloud \<and> \<not> distinct (map fst chunk)
      then Inl (Panic ''cannot batch insert nodes'')
      else Inr (fold (\<lambda>(key, object). insert_node ser key object) chunk db))"

definition flush_inserts ::
  "feature \<Rightarrow> ('o \<Rightarrow> bytes) \<Rightarrow> (bytes \<times> 'o) list \<Rightarrow> ledger_db \<Rightarrow> panic + ledger_db" where
  "flush_inserts feat ser inserts db =
     try_fold (\<lambda>db chunk. upsert_chunk feat ser chunk db) db (chunks BATCH_INSERT_SIZE inserts)"

text \<open>The loop of \<^verbatim>\<open>batch_update\<close> with its buffer of pending inserts, then the last flush.\<close>

fun batch_update_loop ::
  "feature \<Rightarrow> ('o \<Rightarrow> bytes) \<Rightarrow> (bytes \<times> 'o update) list \<Rightarrow> (bytes \<times> 'o) list \<Rightarrow> ledger_db
     \<Rightarrow> panic + ledger_db" where
  "batch_update_loop feat ser [] inserts db = flush_inserts feat ser inserts db"
| "batch_update_loop feat ser ((key, u) # updates) inserts db =
     (case u of
        InsertNode object \<Rightarrow> batch_update_loop feat ser updates (inserts @ [(key, object)]) db
      | DeleteNode \<Rightarrow>
          and_then (flush_inserts feat ser inserts db)
            (\<lambda>db. batch_update_loop feat ser updates [] (delete_node key db))
      | SetRootCount count \<Rightarrow>
          and_then (flush_inserts feat ser inserts db)
            (\<lambda>db. batch_update_loop feat ser updates [] (set_root_count key count db)))"

definition batch_update ::
  "feature \<Rightarrow> ('o \<Rightarrow> bytes) \<Rightarrow> (bytes \<times> 'o update) list \<Rightarrow> ledger_db \<Rightarrow> panic + ledger_db" where
  "batch_update feat ser updates db = batch_update_loop feat ser updates [] db"

text \<open>
  \<^verbatim>\<open>batch_get_nodes\<close> reads the rows of all keys into a hash map and then \<^emph>\<open>removes\<close> from it the
  entry of each key in turn.
\<close>

fun take_nodes :: "bytes list \<Rightarrow> (bytes \<rightharpoonup> 'o) \<Rightarrow> (bytes \<times> 'o option) list" where
  "take_nodes [] nodes = []"
| "take_nodes (key # keys) nodes = (key, nodes key) # take_nodes keys (nodes(key := None))"

definition batch_get_nodes ::
  "(bytes \<Rightarrow> 'o option) \<Rightarrow> ledger_db \<Rightarrow> bytes list \<Rightarrow> panic + (bytes \<times> 'o option) list" where
  "batch_get_nodes de db keys =
     (if keys = [] then Inr []
      else map_ok (\<lambda>nodes. take_nodes keys (map_of nodes))
             (try_map (\<lambda>(key, object). map_ok (Pair key) (decode_object de ''cannot batch get nodes'' object))
                (filter (\<lambda>(key, _). key \<in> set keys) (ldb_nodes db))))"

text \<open>\<^verbatim>\<open>scan\<close>: the next batch in key order after the resume handle, and the handle to go on from.\<close>

definition scan_rows :: "ledger_db \<Rightarrow> bytes option \<Rightarrow> (bytes \<times> bytes) list" where
  "scan_rows db resume_from =
     sort_key fst
       (filter (\<lambda>(key, _). case resume_from of None \<Rightarrow> True | Some handle \<Rightarrow> handle < key) (ldb_nodes db))"

definition scan ::
  "(bytes \<Rightarrow> 'o option) \<Rightarrow> ledger_db \<Rightarrow> bytes option \<Rightarrow> nat
     \<Rightarrow> panic + (bytes \<times> 'o) list \<times> bytes option" where
  "scan de db resume_from batch_size =
     map_ok (\<lambda>batch. (batch, if batch = [] then None else Some (fst (last batch))))
       (try_map (\<lambda>(key, object). map_ok (Pair key)
            (decode_object de ''cannot deserialize node as OnDiskObject'' object))
          (take batch_size (scan_rows db resume_from)))"

text \<open>Primary keys are distinct, and a root row holds a positive count that fits \<^verbatim>\<open>u32\<close>.\<close>

definition ledger_db_ok :: "ledger_db \<Rightarrow> bool" where
  "ledger_db_ok db \<longleftrightarrow> distinct (map fst (ldb_nodes db)) \<and> distinct (map fst (ldb_roots db))
     \<and> list_all (\<lambda>(_, count). 0 < count \<and> count < 2 ^ 32) (ldb_roots db)"

section \<open>Reference definitions\<close>

text \<open>
  One update at a time; what the last of a batch's updates to write a key writes there; and
  a whole sweep, scanning from each returned handle until none is left.
\<close>

primrec apply_update :: "('o \<Rightarrow> bytes) \<Rightarrow> bytes \<Rightarrow> 'o update \<Rightarrow> ledger_db \<Rightarrow> ledger_db" where
  "apply_update ser key (InsertNode object) db = insert_node ser key object db"
| "apply_update ser key DeleteNode db = delete_node key db"
| "apply_update ser key (SetRootCount count) db = set_root_count key count db"

definition insert_keys :: "(bytes \<times> 'o update) list \<Rightarrow> bytes list" where
  "insert_keys updates =
     map fst (filter (\<lambda>(_, u). case u of InsertNode _ \<Rightarrow> True | _ \<Rightarrow> False) updates)"

fun last_write :: "('u \<Rightarrow> 'w option) \<Rightarrow> 'k \<Rightarrow> ('k \<times> 'u) list \<Rightarrow> 'w option" where
  "last_write writes k [] = None"
| "last_write writes k ((k', u) # us) =
     (case last_write writes k us of
        Some w \<Rightarrow> Some w
      | None \<Rightarrow> if k' = k then writes u else None)"

primrec node_write :: "'o update \<Rightarrow> 'o option option" where
  "node_write (InsertNode object) = Some (Some object)"
| "node_write DeleteNode = Some None"
| "node_write (SetRootCount count) = None"

primrec root_write :: "'o update \<Rightarrow> u32 option" where
  "root_write (InsertNode object) = None"
| "root_write DeleteNode = None"
| "root_write (SetRootCount count) = Some count"

definition root_row :: "u32 \<Rightarrow> i64 option" where
  "root_row count = (if 0 < count then Some (uint count) else None)"

fun sweep ::
  "nat \<Rightarrow> (bytes \<Rightarrow> 'o option) \<Rightarrow> ledger_db \<Rightarrow> bytes option \<Rightarrow> nat \<Rightarrow> (bytes \<times> 'o) list option" where
  "sweep 0 de db handle batch_size = None"
| "sweep (Suc fuel) de db handle batch_size =
     (case scan de db handle batch_size of
        Inl _ \<Rightarrow> None
      | Inr (batch, None) \<Rightarrow> Some batch
      | Inr (batch, Some handle') \<Rightarrow> map_option ((@) batch) (sweep fuel de db (Some handle') batch_size))"

section \<open>Batch updates\<close>

lemma concat_chunks: "0 < n \<Longrightarrow> concat (chunks n xs) = xs"
proof (induction n xs rule: chunks.induct)
  case (1 n xs)
  then show ?case by (subst chunks.simps) auto
qed

lemma distinct_chunks: "distinct (map fst xs) \<Longrightarrow> chunk \<in> set (chunks n xs) \<Longrightarrow> distinct (map fst chunk)"
proof (induction n xs rule: chunks.induct)
  case (1 n xs)
  show ?case
  proof (cases "xs = [] \<or> n = 0")
    case True
    then show ?thesis using 1 by (simp add: chunks.simps)
  next
    case False
    have d: "distinct (map fst (take n xs))" "distinct (map fst (drop n xs))"
      using "1.prems"(1) by (simp_all add: take_map [symmetric] drop_map [symmetric] distinct_take distinct_drop)
    have "chunk = take n xs \<or> chunk \<in> set (chunks n (drop n xs))"
      using "1.prems"(2) False by (subst (asm) chunks.simps) auto
    then show ?thesis using d "1.IH" [OF False] by auto
  qed
qed

abbreviation insert_all :: "('o \<Rightarrow> bytes) \<Rightarrow> (bytes \<times> 'o) list \<Rightarrow> ledger_db \<Rightarrow> ledger_db" where
  "insert_all ser \<equiv> fold (\<lambda>(key, object). insert_node ser key object)"

lemma upsert_chunks_fold:
  assumes "\<And>c. c \<in> set cs \<Longrightarrow> feat = Standalone \<or> distinct (map fst c)"
  shows "try_fold (\<lambda>db chunk. upsert_chunk feat ser chunk db) db cs = Inr (insert_all ser (concat cs) db)"
  using assms
proof (induction cs arbitrary: db)
  case (Cons c cs)
  have "upsert_chunk feat ser c db = Inr (insert_all ser c db)"
    using Cons.prems [of c] by (auto simp: upsert_chunk_def)
  then show ?case using Cons by simp
qed simp

lemma flush_inserts_fold:
  "feat = Standalone \<or> distinct (map fst inserts) \<Longrightarrow>
     flush_inserts feat ser inserts db = Inr (insert_all ser inserts db)"
  unfolding flush_inserts_def
  using upsert_chunks_fold [of "chunks BATCH_INSERT_SIZE inserts" feat ser db]
  by (auto simp: concat_chunks BATCH_INSERT_SIZE_def dest: distinct_chunks)

lemma insert_keys_Cons:
  "insert_keys ((key, u) # ups) = (case u of InsertNode _ \<Rightarrow> key # insert_keys ups | _ \<Rightarrow> insert_keys ups)"
  by (cases u) (simp_all add: insert_keys_def)

lemma batch_update_loop_eq:
  assumes "feat = Standalone \<or> distinct (map fst inserts @ insert_keys updates)"
  shows "batch_update_loop feat ser updates inserts db =
    Inr (fold (\<lambda>(key, u). apply_update ser key u) updates (insert_all ser inserts db))"
  using assms
proof (induction updates arbitrary: inserts db)
  case Nil
  then show ?case by (simp add: flush_inserts_fold insert_keys_def)
next
  case (Cons ku updates)
  obtain key u where ku: "ku = (key, u)" by (cases ku)
  have fl: "flush_inserts feat ser inserts db = Inr (insert_all ser inserts db)"
    using Cons.prems by (intro flush_inserts_fold) auto
  show ?case
  proof (cases u)
    case (InsertNode object)
    have "feat = Standalone \<or> distinct (map fst (inserts @ [(key, object)]) @ insert_keys updates)"
      using Cons.prems by (auto simp: ku InsertNode insert_keys_Cons)
    from Cons.IH [OF this] show ?thesis by (simp add: ku InsertNode)
  next
    case DeleteNode
    then show ?thesis using Cons.prems Cons.IH [of "[]"] fl by (auto simp: ku insert_keys_Cons)
  next
    case (SetRootCount count)
    then show ?thesis using Cons.prems Cons.IH [of "[]"] fl by (auto simp: ku insert_keys_Cons)
  qed
qed

text \<open>
  The buffered, chunked \<^verbatim>\<open>batch_update\<close> does what applying the updates one at a time in
  order does: always in the standalone build, and in the cloud build whenever no key is
  inserted twice in the batch (PostgreSQL refuses an upsert that meets a row twice).
\<close>

theorem batch_update_sequential:
  "batch_update Standalone ser updates db
     = Inr (fold (\<lambda>(key, u). apply_update ser key u) updates db)
   \<and> (distinct (insert_keys updates) \<longrightarrow>
       batch_update Cloud ser updates db
         = Inr (fold (\<lambda>(key, u). apply_update ser key u) updates db))"
  using batch_update_loop_eq [of Standalone "[]" updates ser db]
    batch_update_loop_eq [of Cloud "[]" updates ser db]
  by (simp add: batch_update_def)

theorem batch_update_sequential_witness:
  "batch_update Cloud id [([1], InsertNode [5]), ([1], SetRootCount 2), ([2], InsertNode [6]), ([1], DeleteNode)]
     \<lparr>ldb_nodes = [], ldb_roots = []\<rparr>
   = Inr \<lparr>ldb_nodes = [([2], [6])], ldb_roots = [([1], 2)]\<rparr>"
proof -
  let ?ups = "[([1], InsertNode [5]), ([1], SetRootCount 2), ([2], InsertNode [6]), ([1], DeleteNode)]
    :: (bytes \<times> bytes update) list"
  let ?db = "\<lparr>ldb_nodes = [], ldb_roots = []\<rparr> :: ledger_db"
  have "distinct (insert_keys ?ups)" by (simp add: insert_keys_def)
  moreover have "fold (\<lambda>(key, u). apply_update id key u) ?ups ?db
      = \<lparr>ldb_nodes = [([2], [6])], ldb_roots = [([1], 2)]\<rparr>"
    by (simp add: insert_node_def delete_node_def set_root_count_def)
  ultimately show ?thesis using batch_update_sequential [of id ?ups ?db] by simp
qed

section \<open>Last write wins\<close>

text \<open>
  A keyed store whose updates write at most their own key: after a batch, every key holds what
  the last update to write it wrote, or what it held before. The node table and the root table
  are two such stores under the same updates.
\<close>

locale update_log =
  fixes look :: "'s \<Rightarrow> 'k \<Rightarrow> 'v option"
    and upd :: "'k \<Rightarrow> 'u \<Rightarrow> 's \<Rightarrow> 's"
    and writes :: "'u \<Rightarrow> 'v option option"
  assumes look_upd: "look (upd k u s) k' =
    (if k' = k then case writes u of None \<Rightarrow> look s k' | Some v \<Rightarrow> v else look s k')"
begin

lemma look_batch:
  "look (fold (\<lambda>(k, u). upd k u) us s) k
     = (case last_write writes k us of None \<Rightarrow> look s k | Some v \<Rightarrow> v)"
proof (induction us arbitrary: s)
  case (Cons ku us)
  obtain k' u where "ku = (k', u)" by (cases ku)
  then show ?case using Cons.IH [of "upd k' u s"] by (auto simp: look_upd split: option.splits)
qed simp

lemma look_batch_untouched:
  "\<forall>(k', u) \<in> set us. k' = k \<longrightarrow> writes u = None \<Longrightarrow>
     look (fold (\<lambda>(k, u). upd k u) us s) k = look s k"
proof -
  assume "\<forall>(k', u) \<in> set us. k' = k \<longrightarrow> writes u = None"
  then have "last_write writes k us = None"
    by (induction us) auto
  then show ?thesis by (simp add: look_batch)
qed

end

interpretation node_log: update_log "\<lambda>db. map_of (ldb_nodes db)" "apply_update ser"
  "\<lambda>u. map_option (map_option ser) (node_write u)"
  for ser :: "'o \<Rightarrow> bytes"
proof
  show "map_of (ldb_nodes (apply_update ser k u db)) k' =
      (if k' = k then case map_option (map_option ser) (node_write u) of None \<Rightarrow> map_of (ldb_nodes db) k' | Some v \<Rightarrow> v
       else map_of (ldb_nodes db) k')" for k k' db and u :: "'o update"
    by (cases u) (auto simp: insert_node_def delete_node_def set_root_count_def update_conv' delete_conv')
qed

interpretation root_log: update_log "\<lambda>db. map_of (ldb_roots db)" "apply_update ser"
  "\<lambda>u. map_option root_row (root_write u)"
  for ser :: "'o \<Rightarrow> bytes"
proof
  show "map_of (ldb_roots (apply_update ser k u db)) k' =
      (if k' = k then case map_option root_row (root_write u) of None \<Rightarrow> map_of (ldb_roots db) k' | Some v \<Rightarrow> v
       else map_of (ldb_roots db) k')" for k k' db and u :: "'o update"
    by (cases u) (auto simp: insert_node_def delete_node_def set_root_count_def root_row_def update_conv'
        delete_conv')
qed

lemma last_write_map_option: "last_write (\<lambda>u. map_option g (w u)) k us = map_option g (last_write w k us)"
  by (induction w k us rule: last_write.induct) (auto split: option.splits)

lemma list_all_alist_update:
  "list_all (\<lambda>(_, v). P v) al \<Longrightarrow> P v \<Longrightarrow> list_all (\<lambda>(_, v). P v) (AList.update k v al)"
  by (induction al) auto

lemma list_all_alist_delete:
  "list_all (\<lambda>(_, v). P v) al \<Longrightarrow> list_all (\<lambda>(_, v). P v) (AList.delete k al)"
  by (auto simp: AList.delete_eq list_all_iff)

lemma ledger_db_ok_apply_update: "ledger_db_ok db \<Longrightarrow> ledger_db_ok (apply_update ser k u db)"
proof (cases u)
  case (SetRootCount count)
  have "uint count < 2 ^ 32" using uint_lt2p [of count] by simp
  moreover assume "ledger_db_ok db"
  ultimately show ?thesis
    using list_all_alist_update [of "\<lambda>c. 0 < c \<and> c < 2 ^ 32" "ldb_roots db" "uint count" k]
      list_all_alist_delete [of "\<lambda>c. 0 < c \<and> c < 2 ^ 32" "ldb_roots db" k]
    by (auto simp: SetRootCount ledger_db_ok_def set_root_count_def distinct_update distinct_delete
        word_less_def)
qed (auto simp: ledger_db_ok_def insert_node_def delete_node_def distinct_update distinct_delete)

lemma ledger_db_ok_batch:
  "ledger_db_ok db \<Longrightarrow> ledger_db_ok (fold (\<lambda>(k, u). apply_update ser k u) us db)"
  by (induction us arbitrary: db) (auto simp: ledger_db_ok_apply_update)

lemma get_node_batch:
  assumes "\<And>ob. de (ser ob) = Some ob"
  shows "get_node de (fold (\<lambda>(k, u). apply_update ser k u) us db) k
    = (case last_write node_write k us of None \<Rightarrow> get_node de db k | Some n \<Rightarrow> Inr n)"
  by (auto simp: get_node_def node_log.look_batch last_write_map_option decode_object_def assms
      split: option.splits)

lemma get_root_count_batch:
  "get_root_count (fold (\<lambda>(k, u). apply_update ser k u) us db) k
    = (case last_write root_write k us of None \<Rightarrow> get_root_count db k | Some c \<Rightarrow> c)"
  by (auto simp: get_root_count_def root_log.look_batch last_write_map_option root_row_def
      word_neq_0_conv [symmetric] split: option.splits)

section \<open>Reading many nodes\<close>

lemma take_nodes_distinct: "distinct keys \<Longrightarrow> take_nodes keys m = map (\<lambda>k. (k, m k)) keys"
  by (induction keys arbitrary: m) auto

lemma map_of_try_map:
  assumes "try_map (\<lambda>(k, v). map_ok (Pair k) (f v)) xs = Inr ys"
  shows "map_of xs k = None \<and> map_of ys k = None
    \<or> (\<exists>v w. map_of xs k = Some v \<and> f v = Inr w \<and> map_of ys k = Some w)"
  using assms
proof (induction xs arbitrary: ys)
  case (Cons x xs)
  obtain k' v where x: "x = (k', v)" by (cases x)
  from Cons.prems obtain w zs where w: "f v = Inr w" and ys: "ys = (k', w) # zs"
    and zs: "try_map (\<lambda>(k, v). map_ok (Pair k) (f v)) xs = Inr zs"
    by (auto simp: x res_simps split: sum.splits)
  show ?case using Cons.IH [OF zs] w by (auto simp: x ys)
qed simp

lemma map_of_filter_mem: "k \<in> A \<Longrightarrow> map_of (filter (\<lambda>(k, _). k \<in> A) xs) k = map_of xs k"
  by (induction xs) auto

lemma batch_get_nodes_get_node:
  assumes "distinct keys" and "batch_get_nodes de db keys = Inr nodes"
  shows "map fst nodes = keys \<and> (\<forall>(k, n) \<in> set nodes. get_node de db k = Inr n)"
proof (cases "keys = []")
  case False
  then obtain ns where ns:
      "try_map (\<lambda>(k, ob). map_ok (Pair k) (decode_object de ''cannot batch get nodes'' ob))
         (filter (\<lambda>(k, _). k \<in> set keys) (ldb_nodes db)) = Inr ns"
    and nodes: "nodes = map (\<lambda>k. (k, map_of ns k)) keys"
    using assms by (auto simp: batch_get_nodes_def res_simps take_nodes_distinct)
  have "get_node de db k = Inr (map_of ns k)" if "k \<in> set keys" for k
    using map_of_try_map [OF ns, of k] that
    by (auto simp: get_node_def map_of_filter_mem decode_object_def split: option.splits)
  then show ?thesis by (auto simp: nodes comp_def)
qed (use assms in \<open>simp add: batch_get_nodes_def\<close>)

section \<open>Scanning\<close>

lemma scan_rows_all: "scan_rows db None = sort_key fst (ldb_nodes db)"
  by (simp add: scan_rows_def)

lemma scan_rows_after:
  assumes "sort_key fst (ldb_nodes db) = pre @ p # rest" and "distinct (map fst (ldb_nodes db))"
  shows "scan_rows db (Some (fst p)) = rest"
proof -
  let ?S = "sort_key fst (ldb_nodes db)"
  have "distinct (map fst ?S)" using assms(2) by (simp add: distinct_map distinct_sort inj_on_def)
  then have "sorted_wrt (<) (map fst ?S)"
    by (simp add: strict_sorted_iff)
  then have "\<forall>x \<in> set pre. fst x < fst p" and "\<forall>x \<in> set rest. fst p < fst x"
    unfolding assms(1) by (auto simp: sorted_wrt_append)
  then have "filter (\<lambda>(k, _). fst p < k) pre = []" and "filter (\<lambda>(k, _). fst p < k) rest = rest"
    by (auto simp: filter_empty_conv filter_id_conv)
  then have "filter (\<lambda>(k, _). fst p < k) ?S = rest" by (simp add: assms(1) split_def)
  then show ?thesis by (simp add: scan_rows_def filter_sort)
qed

lemma try_map_append:
  "try_map f (xs @ ys) = and_then (try_map f xs) (\<lambda>as. map_ok ((@) as) (try_map f ys))"
  by (induction xs) (auto split: sum.splits simp: map_ok_def)

abbreviation decode_row :: "(bytes \<Rightarrow> 'o option) \<Rightarrow> bytes \<times> bytes \<Rightarrow> panic + bytes \<times> 'o" where
  "decode_row de \<equiv> \<lambda>(key, object). map_ok (Pair key)
     (decode_object de ''cannot deserialize node as OnDiskObject'' object)"

lemma decode_row_keys: "try_map (decode_row de) xs = Inr ys \<Longrightarrow> map fst ys = map fst xs"
  by (induction xs arbitrary: ys) (auto simp: res_simps split: sum.splits)

lemma sweep_from:
  assumes ok: "ledger_db_ok db" and bs: "0 < batch_size"
    and "scan_rows db h = rows" and "\<exists>pre. sort_key fst (ldb_nodes db) = pre @ rows"
    and "try_map (decode_row de) rows = Inr nodes" and "length rows < fuel"
  shows "sweep fuel de db h batch_size = Some nodes"
  using assms(3-)
proof (induction fuel arbitrary: h rows nodes)
  case (Suc fuel)
  show ?case
  proof (cases "rows = []")
    case True
    then show ?thesis using Suc.prems by (simp add: scan_def)
  next
    case False
    let ?b = "take batch_size rows" and ?r = "drop batch_size rows"
    obtain nb nr where nb: "try_map (decode_row de) ?b = Inr nb"
      and nr: "try_map (decode_row de) ?r = Inr nr" and nodes: "nodes = nb @ nr"
    proof -
      have "and_then (try_map (decode_row de) ?b) (\<lambda>as. map_ok ((@) as) (try_map (decode_row de) ?r)) = Inr nodes"
        using Suc.prems(3) try_map_append [of "decode_row de" ?b ?r] by simp
      then show ?thesis using that by (auto simp: res_simps)
    qed
    have ne: "?b \<noteq> []" "nb \<noteq> []"
      using False bs decode_row_keys [OF nb] by (cases rows; auto)+
    obtain pre where pre: "sort_key fst (ldb_nodes db) = pre @ rows" using Suc.prems(2) by blast
    also have "\<dots> = (pre @ butlast ?b) @ last ?b # ?r"
      using append_butlast_last_id [OF ne(1)] append_take_drop_id [of batch_size rows]
      by (metis append.assoc append_Cons append_Nil)
    finally have after: "scan_rows db (Some (fst (last ?b))) = ?r"
      using scan_rows_after ok by (auto simp: ledger_db_ok_def)
    have "fst (last nb) = fst (last ?b)"
      using decode_row_keys [OF nb] ne by (metis last_map)
    moreover have "sweep fuel de db (Some (fst (last ?b))) batch_size = Some nr"
    proof (rule Suc.IH [OF after _ nr])
      show "\<exists>pre. sort_key fst (ldb_nodes db) = pre @ ?r"
        using pre by (metis append.assoc append_take_drop_id)
      show "length ?r < fuel" using Suc.prems(4) bs False by (cases rows) auto
    qed
    ultimately show ?thesis using nb ne(2) Suc.prems(1) by (simp add: scan_def nodes)
  qed
qed simp

section \<open>What the ledger database promises\<close>

text \<open>
  Reading after a batch of updates: the update keeps the tables well formed, every node reads
  as the last insert or delete of its key left it, every root count as the last \<^verbatim>\<open>SetRootCount\<close>
  of its key left it, and keys the batch does not write read as before. The round trip of the
  node objects' own serialization is a hypothesis.
\<close>

theorem batch_update_reads:
  assumes ser_de: "\<forall>ob. de (ser ob) = Some ob"
    and "feat = Standalone \<or> distinct (insert_keys updates)" and "ledger_db_ok db"
  shows "\<exists>db'. batch_update feat ser updates db = Inr db' \<and> ledger_db_ok db'
    \<and> (\<forall>k. get_node de db' k
          = (case last_write node_write k updates of None \<Rightarrow> get_node de db k | Some n \<Rightarrow> Inr n))
    \<and> (\<forall>k. get_root_count db' k
          = (case last_write root_write k updates of None \<Rightarrow> get_root_count db k | Some c \<Rightarrow> c))"
  using batch_update_loop_eq [of feat "[]" updates ser db] assms
  by (simp add: batch_update_def get_node_batch get_root_count_batch ledger_db_ok_batch)

theorem batch_update_reads_witness:
  "\<exists>db'. batch_update Cloud id [([1], InsertNode [5]), ([2], SetRootCount 3), ([1], DeleteNode)]
       \<lparr>ldb_nodes = [([1], [4])], ldb_roots = []\<rparr> = Inr db'
     \<and> get_node Some db' [1] = Inr None \<and> get_root_count db' [2] = 3"
proof -
  let ?us = "[([1], InsertNode [5]), ([2], SetRootCount 3), ([1], DeleteNode)] :: (bytes \<times> bytes update) list"
  let ?db = "\<lparr>ldb_nodes = [([1], [4])], ldb_roots = []\<rparr> :: ledger_db"
  have "\<forall>ob :: bytes. Some (id ob) = Some ob" by simp
  moreover have "Cloud = Standalone \<or> distinct (insert_keys ?us)" by (simp add: insert_keys_def)
  moreover have "ledger_db_ok ?db" by (simp add: ledger_db_ok_def)
  ultimately obtain db' where "batch_update Cloud id ?us ?db = Inr db'"
    and "\<forall>k. get_node Some db' k
          = (case last_write node_write k ?us of None \<Rightarrow> get_node Some ?db k | Some n \<Rightarrow> Inr n)"
    and "\<forall>k. get_root_count db' k
          = (case last_write root_write k ?us of None \<Rightarrow> get_root_count ?db k | Some c \<Rightarrow> c)"
    using batch_update_reads [of Some id Cloud ?us ?db] by blast
  then show ?thesis by simp
qed

text \<open>
  Reading many nodes at once agrees with reading each of them, key by key and in order,
  whenever the keys are distinct.
\<close>

theorem batch_get_nodes_pointwise:
  assumes "distinct keys" and "batch_get_nodes de db keys = Inr nodes"
  shows "map fst nodes = keys \<and> (\<forall>k n. (k, n) \<in> set nodes \<longrightarrow> get_node de db k = Inr n)"
  using batch_get_nodes_get_node [OF assms] by auto

theorem batch_get_nodes_pointwise_witness:
  "batch_get_nodes Some \<lparr>ldb_nodes = [([1], [7])], ldb_roots = []\<rparr> [[2], [1]] = Inr [([2], None), ([1], Some [7])]
   \<and> get_node Some \<lparr>ldb_nodes = [([1], [7])], ldb_roots = []\<rparr> [1] = Inr (Some [7])"
proof -
  let ?db = "\<lparr>ldb_nodes = [([1], [7])], ldb_roots = []\<rparr> :: ledger_db"
  have r: "batch_get_nodes Some ?db [[2], [1]] = Inr [([2], None), ([1], Some [7])]"
    by (simp add: batch_get_nodes_def decode_object_def)
  have "distinct [[2], [1] :: bytes]" by simp
  from batch_get_nodes_pointwise [OF this r] r show ?thesis by simp
qed

text \<open>
  C34. A sweep that keeps scanning from the handle it was given visits every node of the database
  exactly once, in key order, whatever the (positive) batch size, and ends.
\<close>

theorem sweep_visits_all:
  assumes "ledger_db_ok db" and "0 < batch_size" and "ldb_size db < fuel"
    and "try_map (decode_row de) (sort_key fst (ldb_nodes db)) = Inr nodes"
  shows "sweep fuel de db None batch_size = Some nodes
    \<and> sorted_wrt (<) (map fst nodes) \<and> set (map fst nodes) = set (map fst (ldb_nodes db))"
proof -
  have "sweep fuel de db None batch_size = Some nodes"
    using assms by (intro sweep_from [where rows = "sort_key fst (ldb_nodes db)"])
      (auto simp: scan_rows_all ldb_size_def)
  moreover have "sorted_wrt (<) (map fst (sort_key fst (ldb_nodes db)))"
    using assms(1) by (simp add: ledger_db_ok_def strict_sorted_iff distinct_map distinct_sort inj_on_def)
  ultimately show ?thesis using decode_row_keys [OF assms(4)] by simp
qed

theorem sweep_visits_all_witness:
  "sweep 4 Some \<lparr>ldb_nodes = [([3], [30]), ([1], [10]), ([2], [20])], ldb_roots = []\<rparr> None 2
   = Some [([1], [10]), ([2], [20]), ([3], [30])]"
proof -
  let ?db = "\<lparr>ldb_nodes = [([3], [30]), ([1], [10]), ([2], [20])], ldb_roots = []\<rparr> :: ledger_db"
  have "ledger_db_ok ?db" by (simp add: ledger_db_ok_def)
  moreover have "ldb_size ?db < 4" by (simp add: ldb_size_def)
  moreover have "try_map (decode_row Some) (sort_key fst (ldb_nodes ?db))
      = Inr [([1], [10]), ([2], [20]), ([3], [30])]"
    by (simp add: decode_object_def)
  ultimately show ?thesis using sweep_visits_all [of ?db 2 4 Some] by simp
qed

end
