(* ===== verification/Root_Repair.thy ===== *)
theory Root_Repair
  imports Ledger_Db Common_Domain
begin

text \<open>
  Repair of the garbage-collection root counts at startup: \<^verbatim>\<open>repair_root_counts\<close>,
  \<^verbatim>\<open>window_root_counts\<close>, \<^verbatim>\<open>raise_root_counts\<close> and \<^verbatim>\<open>dag_is_complete\<close> of
  \<^verbatim>\<open>indexer-common/src/domain/ledger/ledger_state.rs\<close>. The storage backend they run on is
  third-party code: its operations are a record of functions, and what the code relies on is the
  locale \<open>storage_backend\<close>, which the ledger database of \<^verbatim>\<open>ledger_db/v1_1.rs\<close>, written through,
  is shown to satisfy.
\<close>

section \<open>Operations\<close>

text \<open>
  \<open>bk_refs\<close> is \<^verbatim>\<open>node.children.iter().flat_map(|child| child.refs())\<close>; \<open>bk_get\<close> takes the backend
  mutably because it caches.
\<close>

record ('b, 'n) backend =
  bk_get_roots :: "'b \<Rightarrow> (bytes \<times> u32) list"
  bk_persist :: "bytes \<Rightarrow> 'b \<Rightarrow> 'b"
  bk_get :: "bytes \<Rightarrow> 'b \<Rightarrow> 'n option \<times> 'b"
  bk_flush :: "'b \<Rightarrow> 'b"
  bk_refs :: "'n \<Rightarrow> bytes list"

record root_count_repair =
  raised_roots :: nat
  raised_total :: u32
  culled_roots :: nat
  strays :: nat

text \<open>A \<^verbatim>\<open>BTreeMap\<close> of counts is an association list in key order.\<close>

type_synonym root_counts = "(bytes \<times> u32) list"

fun bump_count :: "bytes \<Rightarrow> root_counts \<Rightarrow> root_counts" where
  "bump_count h [] = [(h, 1)]"
| "bump_count h ((h', c) # wanted) =
     (if h < h' then (h, 1) # (h', c) # wanted
      else if h = h' then (h', c + 1) # wanted
      else (h', c) # bump_count h wanted)"

text \<open>\<open>arena_root_hash\<close>, the deserialization of an arena key, is a parameter.\<close>

definition window_root_counts ::
  "(bytes \<Rightarrow> ledger_version \<Rightarrow> 'e + bytes) \<Rightarrow> (bytes \<times> ledger_version) list \<Rightarrow> 'e + root_counts" where
  "window_root_counts arena_root_hash window =
     try_fold (\<lambda>wanted (key, ledger_version).
         map_ok (\<lambda>hash. bump_count hash wanted) (arena_root_hash key ledger_version))
       [] window"

text \<open>The depth-first walk: \<^verbatim>\<open>None\<close> is the walk that does not end.\<close>

partial_function (option) dag_walk ::
  "('b, 'n) backend \<Rightarrow> bytes set \<Rightarrow> bytes list \<Rightarrow> 'b \<Rightarrow> (bool \<times> 'b) option" where
  "dag_walk ops visited frontier b =
     (if frontier = [] then Some (True, b)
      else let hash = last frontier; frontier = butlast frontier in
        if hash \<in> visited then dag_walk ops visited frontier b
        else case bk_get ops hash b of
            (Some node, b') \<Rightarrow> dag_walk ops (insert hash visited) (frontier @ bk_refs ops node) b'
          | (None, b') \<Rightarrow> Some (False, b'))"

definition dag_is_complete :: "('b, 'n) backend \<Rightarrow> bytes \<Rightarrow> 'b \<Rightarrow> (bool \<times> 'b) option" where
  "dag_is_complete ops hash b = dag_walk ops {} [hash] b"

text \<open>The body of the loop over the wanted counts, and the loop.\<close>

definition raise_one ::
  "('b, 'n) backend \<Rightarrow> root_counts \<Rightarrow> bytes \<Rightarrow> u32 \<Rightarrow> root_count_repair \<Rightarrow> 'b
     \<Rightarrow> (root_count_repair \<times> 'b) option" where
  "raise_one ops stored hash want repair b =
     (let have = (case map_of stored hash of None \<Rightarrow> 0 | Some c \<Rightarrow> c);
          missing = saturating_sub want have;
          raise = (\<lambda>b. Some (repair\<lparr>raised_roots := raised_roots repair + 1,
                                      raised_total := raised_total repair + missing\<rparr>,
                             (bk_persist ops hash ^^ unat missing) b))
      in if missing = 0 then Some (repair, b)
         else if have = 0 then
           (case dag_is_complete ops hash b of
              None \<Rightarrow> None
            | Some (complete, b') \<Rightarrow>
                if \<not> complete then Some (repair\<lparr>culled_roots := culled_roots repair + 1\<rparr>, b')
                else raise b')
         else raise b)"

fun raise_loop ::
  "('b, 'n) backend \<Rightarrow> root_counts \<Rightarrow> root_counts \<Rightarrow> root_count_repair \<Rightarrow> 'b
     \<Rightarrow> (root_count_repair \<times> 'b) option" where
  "raise_loop ops stored [] repair b = Some (repair, b)"
| "raise_loop ops stored ((hash, want) # wanted) repair b =
     (case raise_one ops stored hash want repair b of
        None \<Rightarrow> None
      | Some (repair', b') \<Rightarrow> raise_loop ops stored wanted repair' b')"

definition raise_root_counts ::
  "('b, 'n) backend \<Rightarrow> root_counts \<Rightarrow> 'b \<Rightarrow> (root_count_repair \<times> 'b) option" where
  "raise_root_counts ops wanted b =
     (let stored = bk_get_roots ops b;
          repair = \<lparr>raised_roots = 0, raised_total = 0, culled_roots = 0,
                    strays = length (filter (\<lambda>(hash, _). hash \<notin> set (map fst wanted)) stored)\<rparr>
      in map_option (\<lambda>(repair, b). (repair, bk_flush ops b)) (raise_loop ops stored wanted repair b))"

definition repair_root_counts ::
  "('b, 'n) backend \<Rightarrow> (bytes \<Rightarrow> ledger_version \<Rightarrow> 'e + bytes) \<Rightarrow> (bytes \<times> ledger_version) list \<Rightarrow> 'b
     \<Rightarrow> ('e + root_count_repair \<times> 'b) option" where
  "repair_root_counts ops arena_root_hash window b =
     (case window_root_counts arena_root_hash window of
        Inl e \<Rightarrow> Some (Inl e)
      | Inr wanted \<Rightarrow> map_option Inr (raise_root_counts ops wanted b))"

section \<open>The contract of the backend\<close>

text \<open>Edges of the stored node graph, and completeness of the graph below a node.\<close>

definition child_rel :: "('n \<Rightarrow> bytes list) \<Rightarrow> (bytes \<Rightarrow> 'n option) \<Rightarrow> (bytes \<times> bytes) set" where
  "child_rel refs nd = {(a, c). \<exists>n. nd a = Some n \<and> c \<in> set (refs n)}"

definition dag_complete :: "('n \<Rightarrow> bytes list) \<Rightarrow> (bytes \<Rightarrow> 'n option) \<Rightarrow> bytes \<Rightarrow> bool" where
  "dag_complete refs nd h \<longleftrightarrow> (\<forall>a. (h, a) \<in> (child_rel refs nd)\<^sup>* \<longrightarrow> nd a \<noteq> None)"

definition needs_raise :: "(bytes \<Rightarrow> nat) \<Rightarrow> (bytes \<Rightarrow> bool) \<Rightarrow> bytes \<times> u32 \<Rightarrow> bool" where
  "needs_raise c complete = (\<lambda>(h, w). c h < unat w \<and> (c h \<noteq> 0 \<or> complete h))"

definition is_culled :: "(bytes \<Rightarrow> nat) \<Rightarrow> (bytes \<Rightarrow> bool) \<Rightarrow> bytes \<times> u32 \<Rightarrow> bool" where
  "is_culled c complete = (\<lambda>(h, w). c h < unat w \<and> c h = 0 \<and> \<not> complete h)"

text \<open>The count a root has after the repair, and the change of the report for it.\<close>

definition repaired_count :: "(bytes \<Rightarrow> nat) \<Rightarrow> (bytes \<Rightarrow> bool) \<Rightarrow> bytes \<Rightarrow> u32 \<Rightarrow> nat" where
  "repaired_count c complete h w = (if needs_raise c complete (h, w) then unat w else c h)"

definition tally ::
  "(bytes \<Rightarrow> nat) \<Rightarrow> (bytes \<Rightarrow> bool) \<Rightarrow> bytes \<times> u32 \<Rightarrow> root_count_repair \<Rightarrow> root_count_repair" where
  "tally c complete hw repair =
     (if needs_raise c complete hw
      then repair\<lparr>raised_roots := raised_roots repair + 1,
                  raised_total := raised_total repair + (snd hw - word_of_nat (c (fst hw)))\<rparr>
      else if is_culled c complete hw then repair\<lparr>culled_roots := culled_roots repair + 1\<rparr>
      else repair)"

lemma fold_tally:
  "raised_roots (fold (tally c complete) ws r) = raised_roots r + length (filter (needs_raise c complete) ws)
   \<and> culled_roots (fold (tally c complete) ws r) = culled_roots r + length (filter (is_culled c complete) ws)
   \<and> strays (fold (tally c complete) ws r) = strays r"
proof (induction ws arbitrary: r)
  case (Cons w ws)
  have "\<not> (needs_raise c complete w \<and> is_culled c complete w)"
    by (auto simp: needs_raise_def is_culled_def)
  then show ?case using Cons by (auto simp: tally_def)
qed simp

text \<open>
  What the repair relies on. \<open>cnt\<close> is a root's count including changes not flushed yet and \<open>nd\<close> the
  stored nodes: \<^verbatim>\<open>persist\<close> increments one count, \<^verbatim>\<open>get\<close> and \<^verbatim>\<open>flush_all_changes_to_db\<close> change
  neither, and on a flushed backend \<^verbatim>\<open>get_roots\<close> lists exactly the roots with a positive count.
\<close>

locale storage_backend =
  fixes ops :: "('b, 'n) backend"
    and cnt :: "'b \<Rightarrow> bytes \<Rightarrow> nat"
    and nd :: "'b \<Rightarrow> bytes \<Rightarrow> 'n option"
    and ok :: "'b \<Rightarrow> bool"
    and flushed :: "'b \<Rightarrow> bool"
  assumes persist: "ok b \<Longrightarrow> cnt b h + 1 < 2 ^ 32 \<Longrightarrow>
      ok (bk_persist ops h b) \<and> cnt (bk_persist ops h b) = (cnt b)(h := cnt b h + 1)
      \<and> nd (bk_persist ops h b) = nd b"
    and get: "ok b \<Longrightarrow> fst (bk_get ops h b) = nd b h \<and> ok (snd (bk_get ops h b))
      \<and> cnt (snd (bk_get ops h b)) = cnt b \<and> nd (snd (bk_get ops h b)) = nd b"
    and flush: "ok b \<Longrightarrow> ok (bk_flush ops b) \<and> flushed (bk_flush ops b)
      \<and> cnt (bk_flush ops b) = cnt b \<and> nd (bk_flush ops b) = nd b"
    and get_roots: "ok b \<Longrightarrow> flushed b \<Longrightarrow>
      map_of (bk_get_roots ops b) h = (if cnt b h = 0 then None else Some (word_of_nat (cnt b h)))"
    and cnt_bound: "ok b \<Longrightarrow> cnt b h < 2 ^ 32"
begin

definition same :: "'b \<Rightarrow> 'b \<Rightarrow> bool" where
  "same b b' \<longleftrightarrow> ok b' \<and> cnt b' = cnt b \<and> nd b' = nd b"

text \<open>The walk's invariant: what is visited is stored, and its children are visited or pending.\<close>

definition walk_inv :: "bytes \<Rightarrow> bytes set \<Rightarrow> bytes list \<Rightarrow> (bytes \<Rightarrow> 'n option) \<Rightarrow> bool" where
  "walk_inv h0 visited frontier n \<longleftrightarrow>
     visited \<subseteq> dom n \<and> h0 \<in> visited \<union> set frontier
     \<and> child_rel (bk_refs ops) n `` visited \<subseteq> visited \<union> set frontier
     \<and> visited \<union> set frontier \<subseteq> (child_rel (bk_refs ops) n)\<^sup>* `` {h0}"

lemma walk_inv_done:
  assumes "walk_inv h0 visited [] n"
  shows "dag_complete (bk_refs ops) n h0"
proof -
  have "a \<in> visited" if "(h0, a) \<in> (child_rel (bk_refs ops) n)\<^sup>*" for a
    using that
  proof (induction rule: rtrancl_induct)
    case base
    then show ?case using assms by (simp add: walk_inv_def)
  next
    case (step y z)
    then show ?case using assms by (auto simp: walk_inv_def)
  qed
  then show ?thesis using assms by (auto simp: dag_complete_def walk_inv_def)
qed

lemma walk_inv_skip:
  "walk_inv h0 visited (frontier @ [h]) n \<Longrightarrow> h \<in> visited \<Longrightarrow> walk_inv h0 visited frontier n"
  unfolding walk_inv_def by auto

lemma walk_inv_visit:
  assumes "walk_inv h0 visited (frontier @ [h]) n" and "n h = Some node"
  shows "walk_inv h0 (insert h visited) (frontier @ bk_refs ops node) n"
proof -
  have h: "(h0, h) \<in> (child_rel (bk_refs ops) n)\<^sup>*" using assms(1) by (auto simp: walk_inv_def)
  have ch: "child_rel (bk_refs ops) n `` {h} = set (bk_refs ops node)"
    using assms(2) by (auto simp: child_rel_def)
  then have "(h0, c) \<in> (child_rel (bk_refs ops) n)\<^sup>*" if "c \<in> set (bk_refs ops node)" for c
    using h that by (blast intro: rtrancl_into_rtrancl)
  then show ?thesis using assms ch unfolding walk_inv_def by auto
qed

lemma walk_inv_missing:
  assumes "walk_inv h0 visited (frontier @ [h]) n" and "n h = None"
  shows "\<not> dag_complete (bk_refs ops) n h0"
  using assms by (auto simp: walk_inv_def dag_complete_def)

lemma dag_walk_correct:
  assumes "ok b" and "finite (dom (nd b))" and "walk_inv h0 visited frontier (nd b)"
  shows "\<exists>b'. dag_walk ops visited frontier b = Some (dag_complete (bk_refs ops) (nd b) h0, b') \<and> same b b'"
  using assms
proof (induction "(card (dom (nd b) - visited), length frontier)" arbitrary: visited frontier b
    rule: wf_induct_rule [OF wf_lex_prod [OF wf_less wf_less]])
  case 1
  show ?case
  proof (cases frontier rule: rev_cases)
    case Nil
    then show ?thesis using 1(2,4) walk_inv_done [of h0 visited "nd b"]
      by (subst dag_walk.simps) (simp add: same_def)
  next
    case (snoc rest h)
    show ?thesis
    proof (cases "h \<in> visited")
      case True
      have "\<exists>b'. dag_walk ops visited rest b = Some (dag_complete (bk_refs ops) (nd b) h0, b') \<and> same b b'"
        using 1 snoc walk_inv_skip [of h0 visited rest h] True by (intro 1(1)) auto
      then show ?thesis using True snoc by (subst dag_walk.simps) simp
    next
      case False
      obtain r b1 where g: "bk_get ops h b = (r, b1)" by (cases "bk_get ops h b")
      have r: "r = nd b h" and s1: "ok b1" "cnt b1 = cnt b" "nd b1 = nd b"
        using get [OF 1(2), of h] g by auto
      show ?thesis
      proof (cases r)
        case None
        then show ?thesis using False snoc g r s1 1(4) walk_inv_missing [of h0 visited rest h "nd b"]
          by (subst dag_walk.simps) (auto simp: same_def)
      next
        case (Some node)
        have "card (dom (nd b) - insert h visited) < card (dom (nd b) - visited)"
          using False Some r 1(3) by (intro psubset_card_mono) auto
        then have "\<exists>b'. dag_walk ops (insert h visited) (rest @ bk_refs ops node) b1
            = Some (dag_complete (bk_refs ops) (nd b1) h0, b') \<and> same b1 b'"
          using 1 snoc s1 walk_inv_visit [of h0 visited rest h "nd b" node] Some r
          by (intro 1(1)) auto
        then show ?thesis using False snoc g Some s1
          by (subst dag_walk.simps) (auto simp: same_def)
      qed
    qed
  qed
qed

lemma dag_is_complete_correct:
  assumes "ok b" and "finite (dom (nd b))"
  shows "\<exists>b'. dag_is_complete ops h b = Some (dag_complete (bk_refs ops) (nd b) h, b') \<and> same b b'"
  unfolding dag_is_complete_def
  using assms by (intro dag_walk_correct) (auto simp: walk_inv_def)

lemma persist_many:
  assumes "ok b" and "cnt b h + k < 2 ^ 32"
  shows "ok ((bk_persist ops h ^^ k) b) \<and> cnt ((bk_persist ops h ^^ k) b) = (cnt b)(h := cnt b h + k)
    \<and> nd ((bk_persist ops h ^^ k) b) = nd b"
  using assms(2)
proof (induction k)
  case 0
  then show ?case using assms(1) by simp
next
  case (Suc k)
  then show ?case using persist [of "(bk_persist ops h ^^ k) b" h] by auto
qed

abbreviation complete_in :: "'b \<Rightarrow> bytes \<Rightarrow> bool" where
  "complete_in b \<equiv> dag_complete (bk_refs ops) (nd b)"

lemma raise_one_correct:
  assumes "ok b" and "finite (dom (nd b))"
    and st: "map_of stored h = (if cnt b h = 0 then None else Some (word_of_nat (cnt b h)))"
  shows "\<exists>b'. raise_one ops stored h w r b = Some (tally (cnt b) (complete_in b) (h, w) r, b')
    \<and> ok b' \<and> nd b' = nd b \<and> cnt b' = (cnt b)(h := repaired_count (cnt b) (complete_in b) h w)"
proof -
  define hv where "hv = (case map_of stored h of None \<Rightarrow> 0 | Some c \<Rightarrow> c)"
  have hv: "unat hv = cnt b h" and hv_w: "hv = word_of_nat (cnt b h)"
    using st cnt_bound [OF assms(1), of h] by (auto simp: hv_def unat_of_nat take_bit_eq_mod)
  define ms where "ms = saturating_sub w hv"
  have ms: "unat ms = unat w - cnt b h" by (simp add: ms_def unat_saturating_sub hv)
  then have ms0: "ms = 0 \<longleftrightarrow> unat w \<le> cnt b h" by (auto simp: unat_eq_0 [symmetric])
  have w: "unat w < 2 ^ 32" using unsigned_less [of w] by simp
  have raise: "\<exists>b''. (bk_persist ops h ^^ unat ms) b' = b'' \<and> ok b'' \<and> nd b'' = nd b
      \<and> cnt b'' = (cnt b)(h := unat w)" if "same b b'" "cnt b h < unat w" for b'
    using persist_many [of b' h "unat ms"] that w by (auto simp: same_def ms)
  have ms_w: "ms = w - word_of_nat (cnt b h)" if "cnt b h < unat w"
    using that hv by (auto simp: ms_def saturating_sub_def word_less_nat_alt hv_w [symmetric])
  show ?thesis
  proof (cases "cnt b h < unat w")
    case False
    then show ?thesis using ms0 assms(1)
      by (auto simp: raise_one_def Let_def hv_def [symmetric] ms_def [symmetric] tally_def needs_raise_def
          is_culled_def repaired_count_def)
  next
    case lt: True
    obtain bd where bd: "dag_is_complete ops h b = Some (complete_in b h, bd)" "same b bd"
      using dag_is_complete_correct [OF assms(1,2), of h] by blast
    have sb: "same b b" using assms(1) by (simp add: same_def)
    have hv0: "hv = 0 \<longleftrightarrow> cnt b h = 0" using hv by (auto simp: unat_eq_0 [symmetric])
    show ?thesis
      using lt ms0 hv0 bd raise [OF bd(2) lt] raise [OF sb lt] ms_w [OF lt]
      by (auto simp: raise_one_def Let_def hv_def [symmetric] ms_def [symmetric] tally_def needs_raise_def
          is_culled_def repaired_count_def same_def)
  qed
qed

lemma raise_loop_correct:
  assumes "ok b" and "finite (dom (nd b))" and "distinct (map fst ws)"
    and "\<And>h. h \<in> fst ` set ws \<Longrightarrow>
      map_of stored h = (if cnt b h = 0 then None else Some (word_of_nat (cnt b h)))"
  shows "\<exists>b'. raise_loop ops stored ws r b = Some (fold (tally (cnt b) (complete_in b)) ws r, b')
    \<and> ok b' \<and> nd b' = nd b
    \<and> (\<forall>h. cnt b' h = (case map_of ws h of
          None \<Rightarrow> cnt b h | Some w \<Rightarrow> repaired_count (cnt b) (complete_in b) h w))"
  using assms
proof (induction ws arbitrary: r b)
  case (Cons hw ws)
  obtain h w where hw: "hw = (h, w)" by (cases hw)
  obtain b1 where b1: "raise_one ops stored h w r b = Some (tally (cnt b) (complete_in b) (h, w) r, b1)"
    "ok b1" "nd b1 = nd b" "cnt b1 = (cnt b)(h := repaired_count (cnt b) (complete_in b) h w)"
    using raise_one_correct [of b stored h w r] Cons.prems by (auto simp: hw)
  have other: "cnt b1 h' = cnt b h'" if "h' \<in> fst ` set ws" for h'
    using that Cons.prems(3) b1(4) by (auto simp: hw)
  then have tl: "fold (tally (cnt b1) (complete_in b1)) ws r' = fold (tally (cnt b) (complete_in b)) ws r'" for r'
    using b1(3) by (intro fold_cong refl) (force simp: tally_def needs_raise_def is_culled_def)
  have "\<exists>b'. raise_loop ops stored ws (tally (cnt b) (complete_in b) (h, w) r) b1
      = Some (fold (tally (cnt b1) (complete_in b1)) ws (tally (cnt b) (complete_in b) (h, w) r), b')
    \<and> ok b' \<and> nd b' = nd b1
    \<and> (\<forall>h. cnt b' h = (case map_of ws h of
          None \<Rightarrow> cnt b1 h | Some w \<Rightarrow> repaired_count (cnt b1) (complete_in b1) h w))"
    using Cons.prems b1 other by (intro Cons.IH) (auto simp: hw)
  then obtain b' where b': "raise_loop ops stored ws (tally (cnt b) (complete_in b) (h, w) r) b1
      = Some (fold (tally (cnt b) (complete_in b)) ws (tally (cnt b) (complete_in b) (h, w) r), b')"
    "ok b'" "nd b' = nd b"
    and c': "\<forall>h. cnt b' h = (case map_of ws h of
          None \<Rightarrow> cnt b1 h | Some w \<Rightarrow> repaired_count (cnt b1) (complete_in b1) h w)"
    using b1(3) tl by auto
  have "cnt b' x = (case map_of (hw # ws) x of
      None \<Rightarrow> cnt b x | Some w \<Rightarrow> repaired_count (cnt b) (complete_in b) x w)" for x
  proof (cases "x \<in> fst ` set ws")
    case True
    then obtain w' where "map_of ws x = Some w'" by (metis map_of_eq_None_iff not_None_eq)
    moreover have "x \<noteq> h" using True Cons.prems(3) by (auto simp: hw)
    ultimately show ?thesis using c' other [OF True] b1(3)
      by (simp add: hw repaired_count_def needs_raise_def)
  next
    case False
    then have "map_of ws x = None" by (simp add: map_of_eq_None_iff)
    then show ?thesis using c' b1(4) by (simp add: hw)
  qed
  then show ?case using b1(1) b' by (simp add: hw)
qed simp

lemma raise_root_counts_correct:
  assumes "ok b" and "flushed b" and "finite (dom (nd b))" and "distinct (map fst ws)"
  shows "\<exists>r b'. raise_root_counts ops ws b = Some (r, b') \<and> ok b' \<and> flushed b' \<and> nd b' = nd b
    \<and> (\<forall>h. cnt b' h = (case map_of ws h of
          None \<Rightarrow> cnt b h | Some w \<Rightarrow> repaired_count (cnt b) (complete_in b) h w))
    \<and> raised_roots r = length (filter (needs_raise (cnt b) (complete_in b)) ws)
    \<and> culled_roots r = length (filter (is_culled (cnt b) (complete_in b)) ws)
    \<and> strays r = length (filter (\<lambda>(h, _). h \<notin> set (map fst ws)) (bk_get_roots ops b))"
proof -
  let ?r0 = "\<lparr>raised_roots = 0, raised_total = 0, culled_roots = 0,
      strays = length (filter (\<lambda>(hash, _). hash \<notin> set (map fst ws)) (bk_get_roots ops b))\<rparr>"
  obtain b' where "raise_loop ops (bk_get_roots ops b) ws ?r0 b
      = Some (fold (tally (cnt b) (complete_in b)) ws ?r0, b')"
    "ok b'" "nd b' = nd b" "\<forall>h. cnt b' h = (case map_of ws h of
          None \<Rightarrow> cnt b h | Some w \<Rightarrow> repaired_count (cnt b) (complete_in b) h w)"
    using raise_loop_correct [of b ws "bk_get_roots ops b" ?r0] assms get_roots [OF assms(1,2)] by auto
  then show ?thesis using flush [of b'] fold_tally [of "cnt b" "complete_in b" ws ?r0]
    by (simp add: raise_root_counts_def Let_def)
qed

end

section \<open>The ledger database as a backend\<close>

text \<open>The backend that writes every change through to the ledger database at once.\<close>

definition ledger_backend :: "(bytes \<Rightarrow> bytes list) \<Rightarrow> (ledger_db, bytes) backend" where
  "ledger_backend refs =
     \<lparr>bk_get_roots = get_roots,
      bk_persist = (\<lambda>h db. set_root_count h (get_root_count db h + 1) db),
      bk_get = (\<lambda>h db. (map_of (ldb_nodes db) h, db)),
      bk_flush = id,
      bk_refs = refs\<rparr>"

lemma get_root_count_set:
  "get_root_count (set_root_count h c db) h' = (if h' = h then c else get_root_count db h')"
  by (auto simp: get_root_count_def set_root_count_def update_conv' delete_conv' word_neq_0_conv [symmetric]
      split: option.splits)

lemma ledger_db_ok_set_root_count: "ledger_db_ok db \<Longrightarrow> ledger_db_ok (set_root_count h c db)"
  using ledger_db_ok_apply_update [of db undefined h "SetRootCount c"] by simp

lemma get_roots_count:
  assumes "ledger_db_ok db"
  shows "map_of (get_roots db) h
    = (if get_root_count db h = 0 then None else Some (get_root_count db h))"
proof -
  have m: "map_of (get_roots db) h = map_option word_of_int (map_of (ldb_roots db) h)"
    by (simp add: get_roots_def map_of_map)
  show ?thesis
  proof (cases "map_of (ldb_roots db) h")
    case None
    then show ?thesis using m by (simp add: get_root_count_def)
  next
    case (Some c)
    then have "(h, c) \<in> set (ldb_roots db)" by (rule map_of_SomeD)
    then have "0 < c \<and> c < 2 ^ 32" using assms by (auto simp: ledger_db_ok_def list_all_iff)
    then have "(word_of_int c :: u32) \<noteq> 0"
      using uint_word_of_int_eq [of c, where ?'a = 32] by (auto simp: take_bit_int_eq_self)
    then show ?thesis using Some m by (simp add: get_root_count_def)
  qed
qed

interpretation ldb: storage_backend "ledger_backend refs" "\<lambda>db h. unat (get_root_count db h)"
  "\<lambda>db. map_of (ldb_nodes db)" ledger_db_ok "\<lambda>_. True"
  for refs
proof
  fix b :: ledger_db and h
  assume ok: "ledger_db_ok b"
  show "unat (get_root_count b h) < 2 ^ 32" using unsigned_less [of "get_root_count b h"] by simp
  show "map_of (bk_get_roots (ledger_backend refs) b) h = (if unat (get_root_count b h) = 0 then None
      else Some (word_of_nat (unat (get_root_count b h))))"
    using get_roots_count [OF ok] by (simp add: ledger_backend_def unat_eq_0)
  assume lt: "unat (get_root_count b h) + 1 < 2 ^ 32"
  then have "unat (get_root_count b h + 1) = unat (get_root_count b h) + 1"
    by (simp add: unat_word_ariths)
  moreover have "ldb_nodes (set_root_count h c b) = ldb_nodes b" for c
    by (simp add: set_root_count_def)
  ultimately show "ledger_db_ok (bk_persist (ledger_backend refs) h b) \<and>
      (\<lambda>ha. unat (get_root_count (bk_persist (ledger_backend refs) h b) ha)) =
        (\<lambda>ha. unat (get_root_count b ha))(h := unat (get_root_count b h) + 1) \<and>
      map_of (ldb_nodes (bk_persist (ledger_backend refs) h b)) = map_of (ldb_nodes b)"
    using ledger_db_ok_set_root_count [OF ok]
    by (auto simp: ledger_backend_def get_root_count_set fun_eq_iff)
qed (auto simp: ledger_backend_def)

section \<open>The counts the window asks for\<close>

lemma bump_count_keys: "fst ` set (bump_count h ws) = insert h (fst ` set ws)"
  by (induction h ws rule: bump_count.induct) auto

lemma bump_count_sorted:
  "sorted_wrt (<) (map fst ws) \<Longrightarrow> sorted_wrt (<) (map fst (bump_count h ws))"
proof (induction h ws rule: bump_count.induct)
  case (2 h k c ws)
  have "\<forall>x \<in> fst ` set (bump_count h ws). k < x" if "\<not> h < k" "h \<noteq> k"
    using 2(2) that by (auto simp: bump_count_keys)
  then show ?case using 2 by auto
qed simp

definition count_of :: "root_counts \<Rightarrow> bytes \<Rightarrow> u32" where
  "count_of ws h = (case map_of ws h of None \<Rightarrow> 0 | Some c \<Rightarrow> c)"

lemma count_of_bump:
  "sorted_wrt (<) (map fst ws) \<Longrightarrow>
     count_of (bump_count h ws) h' = count_of ws h' + (if h' = h then 1 else 0)"
proof (induction h ws rule: bump_count.induct)
  case (2 h k c ws)
  have "map_of ws h = None" if "h < k"
    using 2(2) that by (force simp: map_of_eq_None_iff)
  then show ?case using 2 by (auto simp: count_of_def)
qed (simp add: count_of_def)

lemma window_root_counts_correct:
  assumes "try_map (\<lambda>(key, v). hash key v) window = Inr hs"
  shows "\<exists>ws. window_root_counts hash window = Inr ws \<and> sorted_wrt (<) (map fst ws)
    \<and> (\<forall>h. count_of ws h = word_of_nat (count_list hs h))"
proof -
  let ?f = "\<lambda>ws (key, v). map_ok (\<lambda>h. bump_count h ws) (hash key v)"
  have "\<exists>ws. try_fold ?f ws0 window = Inr ws \<and> sorted_wrt (<) (map fst ws)
      \<and> (\<forall>h. count_of ws h = count_of ws0 h + word_of_nat (count_list hs h))"
    if "sorted_wrt (<) (map fst ws0)" for ws0
    using assms that
  proof (induction window arbitrary: ws0 hs)
    case (Cons kv window)
    obtain k v where kv: "kv = (k, v)" by (cases kv)
    from Cons.prems(1) obtain h hs' where h: "hash k v = Inr h" and hs: "hs = h # hs'"
      and hs': "try_map (\<lambda>(key, v). hash key v) window = Inr hs'"
      by (auto simp: kv split: sum.splits)
    show ?case using Cons.IH [OF hs', of "bump_count h ws0"] Cons.prems(2) h
      by (auto simp: kv hs bump_count_sorted count_of_bump)
  qed simp
  from this [of "[]"] show ?thesis by (simp add: window_root_counts_def count_of_def)
qed

section \<open>The repair is correct\<close>

lemma repair_root_counts_run:
  assumes be: "storage_backend ops cnt nd ok flushed" and "ok b" and "flushed b" and "finite (dom (nd b))"
    and hs: "try_map (\<lambda>(key, v). hash key v) window = Inr hs" and len: "length window < 2 ^ 32"
  shows "\<exists>r b' ws. repair_root_counts ops hash window b = Some (Inr (r, b'))
    \<and> ok b' \<and> flushed b' \<and> nd b' = nd b
    \<and> (\<forall>h. cnt b' h = (if cnt b h = 0 \<and> \<not> dag_complete (bk_refs ops) (nd b) h then 0
                       else max (cnt b h) (count_list hs h)))
    \<and> raised_roots r = length (filter (needs_raise (cnt b) (dag_complete (bk_refs ops) (nd b))) ws)
    \<and> (\<forall>h w. (h, w) \<in> set ws \<longrightarrow> unat w = count_list hs h)"
proof -
  let ?c = "dag_complete (bk_refs ops) (nd b)"
  obtain ws where ws: "window_root_counts hash window = Inr ws" and srt: "sorted_wrt (<) (map fst ws)"
    and cnts: "\<forall>h. count_of ws h = word_of_nat (count_list hs h)"
    using window_root_counts_correct [OF hs] by blast
  have bound: "count_list hs h < 2 ^ 32" for h
    using len try_map_length [OF hs] count_le_length [of hs h] by simp
  then have unat_count: "unat (count_of ws h) = count_list hs h" for h
    using cnts by (simp add: unat_of_nat take_bit_eq_mod)
  have dist: "distinct (map fst ws)" using srt by (simp add: strict_sorted_iff)
  obtain r b' where r: "raise_root_counts ops ws b = Some (r, b')" "ok b'" "flushed b'" "nd b' = nd b"
    "raised_roots r = length (filter (needs_raise (cnt b) ?c) ws)"
    and cnt': "\<forall>h. cnt b' h = (case map_of ws h of None \<Rightarrow> cnt b h | Some w \<Rightarrow> repaired_count (cnt b) ?c h w)"
    using storage_backend.raise_root_counts_correct [OF be assms(2-4) dist] by blast
  have "cnt b' h = (if cnt b h = 0 \<and> \<not> ?c h then 0 else max (cnt b h) (count_list hs h))" for h
    using cnt' unat_count [of h]
    by (auto simp: count_of_def repaired_count_def needs_raise_def split: option.splits)
  moreover have "\<forall>h w. (h, w) \<in> set ws \<longrightarrow> unat w = count_list hs h"
    using unat_count dist by (metis count_of_def map_of_is_SomeI option.simps(5))
  ultimately show ?thesis using r ws by (auto simp: repair_root_counts_def)
qed

text \<open>
  C15. The repair ends, and raises every root of the retention window to the number of window blocks
  that reference it. It never lowers a count, leaves every other root alone, and does not bring
  back a root whose count was zero when a node below it is missing.
\<close>

theorem repair_root_counts_correct:
  assumes "storage_backend ops cnt nd ok flushed" and "ok b" and "flushed b" and "finite (dom (nd b))"
    and "try_map (\<lambda>(key, v). arena_root_hash key v) window = Inr hs" and "length window < 2 ^ 32"
  shows "\<exists>r b'. repair_root_counts ops arena_root_hash window b = Some (Inr (r, b')) \<and> nd b' = nd b
    \<and> (\<forall>h. cnt b' h = (if cnt b h = 0 \<and> \<not> dag_complete (bk_refs ops) (nd b) h then 0
                       else max (cnt b h) (count_list hs h)))"
  using repair_root_counts_run [OF assms] by blast

definition sample_db :: ledger_db where
  "sample_db = \<lparr>ldb_nodes = [([1], [2]), ([2], []), ([3], [9])], ldb_roots = [([1], 1)]\<rparr>"

definition sample_backend :: "(ledger_db, bytes) backend" where
  "sample_backend = ledger_backend (map (\<lambda>b. [b]))"

definition sample_window :: "(bytes \<times> ledger_version) list" where
  "sample_window = [([1], LV9), ([3], LV9), ([1], LV9)]"

lemma sample_ok: "ledger_db_ok sample_db" "finite (dom (map_of (ldb_nodes sample_db)))"
  by (simp_all add: ledger_db_ok_def finite_dom_map_of sample_db_def)

lemma sample_hashes:
  "try_map (\<lambda>(key, v). (\<lambda>k _. Inr k :: unit + bytes) key v) sample_window = Inr [[1], [3], [1]]"
  "length sample_window < 2 ^ 32"
  by (simp_all add: sample_window_def)

lemma sample_incomplete:
  "\<not> dag_complete (bk_refs sample_backend) (map_of (ldb_nodes sample_db)) [3]"
proof -
  have "([3], [9]) \<in> child_rel (bk_refs sample_backend) (map_of (ldb_nodes sample_db))"
    by (simp add: child_rel_def ledger_backend_def sample_db_def sample_backend_def)
  then have "([3], [9]) \<in> (child_rel (bk_refs sample_backend) (map_of (ldb_nodes sample_db)))\<^sup>*" ..
  moreover have "map_of (ldb_nodes sample_db) [9] = None" by (simp add: sample_db_def)
  ultimately show ?thesis unfolding dag_complete_def by blast
qed

lemmas sample_facts = ldb.storage_backend_axioms [of "map (\<lambda>b. [b])", folded sample_backend_def]
  sample_ok(1) TrueI sample_ok(2) sample_hashes

theorem repair_root_counts_correct_witness:
  "\<exists>r b'. repair_root_counts sample_backend (\<lambda>k _. Inr k :: unit + bytes) sample_window sample_db = Some (Inr (r, b'))
     \<and> unat (get_root_count b' [1]) = 2 \<and> unat (get_root_count b' [3]) = 0"
proof -
  obtain r b' where run: "repair_root_counts sample_backend (\<lambda>k _. Inr k :: unit + bytes) sample_window sample_db
      = Some (Inr (r, b'))"
    and c: "\<forall>h. unat (get_root_count b' h) = (if unat (get_root_count sample_db h) = 0
          \<and> \<not> dag_complete (bk_refs sample_backend) (map_of (ldb_nodes sample_db)) h then 0
        else max (unat (get_root_count sample_db h)) (count_list [[1], [3], [1]] h))"
    using repair_root_counts_correct [OF sample_facts] by blast
  have "get_root_count sample_db [1] = 1" "get_root_count sample_db [3] = 0"
    by (simp_all add: get_root_count_def sample_db_def)
  then show ?thesis using run c sample_incomplete by simp
qed

text \<open>
  A second repair for the same window raises nothing: the counts it finds are the counts it
  would write.
\<close>

theorem repair_root_counts_idempotent:
  assumes be: "storage_backend ops cnt nd ok flushed" and "ok b" and "flushed b" and "finite (dom (nd b))"
    and hs: "try_map (\<lambda>(key, v). arena_root_hash key v) window = Inr hs" and len: "length window < 2 ^ 32"
    and run: "repair_root_counts ops arena_root_hash window b = Some (Inr (r, b'))"
  shows "\<exists>r' b''. repair_root_counts ops arena_root_hash window b' = Some (Inr (r', b''))
    \<and> raised_roots r' = 0 \<and> cnt b'' = cnt b'"
proof -
  have b': "ok b'" "flushed b'" "nd b' = nd b"
    and c': "\<forall>h. cnt b' h = (if cnt b h = 0 \<and> \<not> dag_complete (bk_refs ops) (nd b) h then 0
                       else max (cnt b h) (count_list hs h))"
    using repair_root_counts_run [OF assms(1-6)] run by auto
  have fin: "finite (dom (nd b'))" using assms(4) b'(3) by simp
  obtain r' b'' ws where r': "repair_root_counts ops arena_root_hash window b' = Some (Inr (r', b''))"
    and c'': "\<forall>h. cnt b'' h = (if cnt b' h = 0 \<and> \<not> dag_complete (bk_refs ops) (nd b') h then 0
                       else max (cnt b' h) (count_list hs h))"
    and rr: "raised_roots r' = length (filter (needs_raise (cnt b') (dag_complete (bk_refs ops) (nd b'))) ws)"
    and ws: "\<forall>h w. (h, w) \<in> set ws \<longrightarrow> unat w = count_list hs h"
    using repair_root_counts_run [OF be b'(1,2) fin hs len] by blast
  have "\<not> needs_raise (cnt b') (dag_complete (bk_refs ops) (nd b')) hw" if "hw \<in> set ws" for hw
    using ws c' b'(3) that by (cases hw) (auto simp: needs_raise_def)
  then have "raised_roots r' = 0" using rr by (simp add: filter_empty_conv)
  moreover have "cnt b'' = cnt b'" using c'' c' b'(3) by (auto simp: fun_eq_iff)
  ultimately show ?thesis using r' by blast
qed

theorem repair_root_counts_idempotent_witness:
  "\<exists>r b' r' b''. repair_root_counts sample_backend (\<lambda>k _. Inr k :: unit + bytes) sample_window sample_db = Some (Inr (r, b'))
     \<and> repair_root_counts sample_backend (\<lambda>k _. Inr k :: unit + bytes) sample_window b' = Some (Inr (r', b''))
     \<and> raised_roots r' = 0"
proof -
  obtain r b' where run: "repair_root_counts sample_backend (\<lambda>k _. Inr k :: unit + bytes) sample_window sample_db
      = Some (Inr (r, b'))"
    using repair_root_counts_run [OF sample_facts] by blast
  then show ?thesis using repair_root_counts_idempotent [OF sample_facts run] by blast
qed

end
