(* ===== verification/Retention.thy ===== *)
theory Retention
  imports Chain_App Root_Repair
begin

text \<open>
  The retention window of persisted ledger states: every key the indexing loop keeps stands for one
  persist that is not balanced yet, so the loop never unpersists a root more often than it was
  persisted, and startup hands the loop a window for which this holds. What the loop relies on of
  the ledger's garbage-collection roots is the locale \<open>root_store\<close>; \<open>Ledger_Retention\<close> shows it for the persisting and
  unpersisting of the ledger state.
\<close>

section \<open>Persisted roots\<close>

text \<open>Every key of the window is backed by a persist of its own, \<open>c\<close> being the root counts.\<close>

definition backed ::
  "(bytes \<Rightarrow> ledger_version \<Rightarrow> 'e + bytes) \<Rightarrow> (bytes \<Rightarrow> nat) \<Rightarrow> (bytes \<times> ledger_version) list \<Rightarrow> bool" where
  "backed hash c window \<longleftrightarrow>
     (\<exists>hs. try_map (\<lambda>(key, v). hash key v) window = Inr hs \<and> (\<forall>h. count_list hs h \<le> c h))"

text \<open>
  \<open>cnt\<close> is a root's count and \<open>hash\<close> the root of a serialized key: a successful \<^verbatim>\<open>persist\<close> returns a key
  of the root whose count, a 32-bit number, it raised, \<^verbatim>\<open>unpersist\<close> of a root with a positive count lowers it, and garbage
  collection keeps the counts.
\<close>

locale root_store =
  fixes persist :: "'l \<Rightarrow> 'g \<Rightarrow> 'e + ('l \<times> bytes) \<times> 'g"
    and version :: "'l \<Rightarrow> ledger_version"
    and unpersist :: "bytes \<Rightarrow> ledger_version \<Rightarrow> 'g \<Rightarrow> 'e + 'g"
    and gc :: "'g \<Rightarrow> 'g"
    and hash :: "bytes \<Rightarrow> ledger_version \<Rightarrow> 'e + bytes"
    and cnt :: "'g \<Rightarrow> bytes \<Rightarrow> nat"
    and ok :: "'g \<Rightarrow> bool"
  assumes persist_cnt: "ok g \<Longrightarrow> \<forall>h. cnt g h + 1 < 2 ^ 32 \<Longrightarrow> persist l g = Inr ((l', key), g') \<Longrightarrow>
      ok g' \<and> (\<exists>h. hash key (version l') = Inr h \<and> cnt g' = (cnt g)(h := cnt g h + 1))"
    and unpersist_cnt: "ok g \<Longrightarrow> hash key v = Inr h \<Longrightarrow> 0 < cnt g h \<Longrightarrow>
      \<exists>g'. unpersist key v g = Inr g' \<and> ok g' \<and> cnt g' = (cnt g)(h := cnt g h - 1)"
    and gc_cnt: "ok g \<Longrightarrow> ok (gc g) \<and> cnt (gc g) = cnt g"
begin

lemma backed_Nil: "backed hash (cnt g) []"
  by (simp add: backed_def)

lemma backed_persist:
  assumes "ok g" and "backed hash (cnt g) window" and "persist l g = Inr ((l', key), g')" and "\<forall>h. cnt g h + Suc n < 2 ^ 32"
  shows "ok g' \<and> backed hash (cnt g') (window @ [(key, version l')]) \<and> (\<forall>h. cnt g' h + n < 2 ^ 32)"
proof -
  have room: "cnt g h + 1 < 2 ^ 32" "cnt g h + n < 2 ^ 32" for h using assms(4) [rule_format, of h] by simp_all
  obtain h where h: "ok g'" "hash key (version l') = Inr h" "cnt g' = (cnt g)(h := cnt g h + 1)"
    using persist_cnt [OF assms(1) _ assms(3)] room(1) by blast
  obtain hs where hs: "try_map (\<lambda>(key, v). hash key v) window = Inr hs" "\<forall>x. count_list hs x \<le> cnt g x"
    using assms(2) by (auto simp: backed_def)
  have "try_map (\<lambda>(key, v). hash key v) (window @ [(key, version l')]) = Inr (hs @ [h])"
    using hs(1) h(2) by (simp add: try_map_append)
  then have "backed hash (cnt g') (window @ [(key, version l')])" using h hs(2) by (auto simp: backed_def intro!: exI [of _ "hs @ [h]"])
  moreover have "cnt g' x + n < 2 ^ 32" for x using h(3) assms(4) room(2) [of x] by (auto split: if_splits)
  ultimately show ?thesis using h(1) by blast
qed

lemma backed_unpersist:
  assumes "ok g" and "backed hash (cnt g) ((key, v) # window)"
  shows "\<exists>g'. unpersist key v g = Inr g' \<and> ok g' \<and> backed hash (cnt g') window \<and> (\<forall>h. cnt g' h \<le> cnt g h)"
proof -
  obtain h hs where h: "hash key v = Inr h" and hs: "try_map (\<lambda>(key, v). hash key v) window = Inr hs"
    and le: "\<forall>x. count_list (h # hs) x \<le> cnt g x"
    using assms(2) by (auto simp: backed_def split: sum.splits)
  have pos: "0 < cnt g h" using le [rule_format, of h] by simp
  obtain g' where g': "unpersist key v g = Inr g'" "ok g'" "cnt g' = (cnt g)(h := cnt g h - 1)"
    using unpersist_cnt [OF assms(1) h pos] by blast
  have "count_list hs x \<le> cnt g' x" for x
    using le [rule_format, of x] g'(3) by (auto split: if_splits)
  then show ?thesis using g' hs by (auto simp: backed_def)
qed

lemma backed_gc: "ok g \<Longrightarrow> backed hash (cnt g) window \<Longrightarrow> ok (gc g) \<and> backed hash (cnt (gc g)) window \<and> cnt (gc g) = cnt g"
  using gc_cnt by (simp add: backed_def)

end

text \<open>The contract for a ledger environment.\<close>

abbreviation env_roots ::
  "('l, 'e, 'c, 'p, 'r, 'g) ledger_env \<Rightarrow> (bytes \<Rightarrow> ledger_version \<Rightarrow> 'e + bytes) \<Rightarrow> ('g \<Rightarrow> bytes \<Rightarrow> nat)
     \<Rightarrow> ('g \<Rightarrow> bool) \<Rightarrow> bool" where
  "env_roots le \<equiv> root_store (la_persist le) (la_ledger_version le) (la_unpersist le) (la_gc le)"

lemma trim_window_backed:
  assumes rs: "env_roots le hash cnt ok" and "ok g" and "backed hash (cnt g) window"
  shows "\<exists>g'. trim_window le retention window g = (Inr (drop (length window - retention) window), g')
    \<and> ok g' \<and> backed hash (cnt g') (drop (length window - retention) window) \<and> (\<forall>h. cnt g' h \<le> cnt g h)"
  using assms(2,3)
proof (induction window arbitrary: g)
  case (Cons kv window)
  obtain key v where kv: "kv = (key, v)" by (cases kv)
  show ?case
  proof (cases "retention < length (kv # window)")
    case True
    obtain g1 where g1: "la_unpersist le key v g = Inr g1" "ok g1" "backed hash (cnt g1) window" "\<forall>h. cnt g1 h \<le> cnt g h"
      using root_store.backed_unpersist [OF rs Cons.prems(1)] Cons.prems(2) kv by blast
    have "length (kv # window) - retention = Suc (length window - retention)" using True by simp
    moreover obtain g' where "trim_window le retention window g1 = (Inr (drop (length window - retention) window), g')" "ok g'"
        "backed hash (cnt g') (drop (length window - retention) window)" "\<forall>h. cnt g' h \<le> cnt g1 h"
      using Cons.IH [OF g1(2,3)] by blast
    moreover from this(4) g1(4) have "\<forall>h. cnt g' h \<le> cnt g h" by (meson order_trans)
    ultimately show ?thesis using g1(1) True by (simp add: kv)
  next
    case False
    then show ?thesis using Cons.prems by (simp add: kv)
  qed
qed simp

text \<open>Indexing a block never reports the error of the trimming step.\<close>

abbreviation unpersist_error :: app_error where
  "unpersist_error \<equiv> Context ''unpersist ledger state beyond retention window''"

lemma process_block_error: "process_block le node nb ts l \<noteq> Inl unpersist_error"
  by (auto simp: process_block_def prepare_ledger_state_def apply_block_def complete_block_def
      validate_ledger_state_def Let_def err_simps split: if_splits option.splits prod.splits)

lemma determine_system_parameters_change_error:
  "determine_system_parameters_change storage node b s \<noteq> Inl unpersist_error"
  by (auto simp: determine_system_parameters_change_def Let_def err_simps)

lemma publish_all_error: "publish_all pub ms q = (r, q') \<Longrightarrow> r \<noteq> Inl unpersist_error"
proof (induction pub ms q rule: publish_all.induct)
  case (2 pub m ms q)
  then show ?case by (cases m) (auto split: sum.splits)
qed auto

lemma index_block_run:
  assumes "index_block env nb l st = (r, st')"
  shows "r \<noteq> Inl unpersist_error
    \<and> (\<forall>l' key. r = Inr (l', key) \<longrightarrow> (\<exists>l1. la_persist (ae_ledger env) l1 (as_ledger_db st) = Inr ((l', key), as_ledger_db st')))"
  using assms process_block_error determine_system_parameters_change_error publish_all_error
  by (fastforce simp: index_block_def Let_def split: sum.splits prod.splits)

lemma index_iteration_backed:
  assumes rs: "env_roots (ae_ledger env) hash cnt ok" and "ok (as_ledger_db st)"
    and "backed hash (cnt (as_ledger_db st)) window" and room: "\<forall>h. cnt (as_ledger_db st) h + Suc n < 2 ^ 32"
    and it: "index_iteration env retention gc_enabled item (l, window) st = (r, st')"
  shows "r \<noteq> Inl unpersist_error
    \<and> (\<forall>l' w'. r = Inr (l', w') \<longrightarrow> ok (as_ledger_db st') \<and> backed hash (cnt (as_ledger_db st')) w'
         \<and> length w' = min retention (Suc (length window)) \<and> (\<forall>h. cnt (as_ledger_db st') h + n < 2 ^ 32))"
proof (cases item)
  case (Inl e)
  then show ?thesis using it by (auto simp: index_iteration_def)
next
  case (Inr nb)
  obtain r1 st1 where ib: "index_block env nb l st = (r1, st1)" by (cases "index_block env nb l st")
  note run = index_block_run [OF ib]
  show ?thesis
  proof (cases r1)
    case (Inl e)
    then show ?thesis using it ib run Inr by (auto simp: index_iteration_def)
  next
    case r1: (Inr lk)
    obtain l1 key where lk: "lk = (l1, key)" by (cases lk)
    obtain l0 where "la_persist (ae_ledger env) l0 (as_ledger_db st) = Inr ((l1, key), as_ledger_db st1)"
      using run r1 lk by blast
    then have ok1: "ok (as_ledger_db st1)"
      and bk1: "backed hash (cnt (as_ledger_db st1)) (window @ [(key, la_ledger_version (ae_ledger env) l1)])"
      and room1: "\<forall>h. cnt (as_ledger_db st1) h + n < 2 ^ 32"
      using root_store.backed_persist [OF rs assms(2,3) _ room] by blast+
    let ?w = "window @ [(key, la_ledger_version (ae_ledger env) l1)]"
    obtain g2 where tw: "trim_window (ae_ledger env) retention ?w (as_ledger_db st1)
          = (Inr (drop (length ?w - retention) ?w), g2)"
      and ok2: "ok g2" and bk2: "backed hash (cnt g2) (drop (length ?w - retention) ?w)"
      and le2: "\<forall>h. cnt g2 h \<le> cnt (as_ledger_db st1) h"
      using trim_window_backed [OF rs ok1 bk1] by blast
    have "r = Inr (l1, drop (length ?w - retention) ?w)"
      and "as_ledger_db st' = (if gc_enabled then la_gc (ae_ledger env) g2 else g2)"
      using it ib r1 lk tw Inr by (auto simp: index_iteration_def)
    moreover have "\<forall>h. cnt g2 h + n < 2 ^ 32" using room1 le2 by (meson add_le_mono1 order_le_less_trans)
    ultimately show ?thesis using root_store.backed_gc [OF rs ok2 bk2] ok2 bk2 by auto
  qed
qed

lemma index_blocks_backed:
  assumes "\<And>k. env_roots (ae_ledger (env_at k)) hash cnt ok" and "0 < retention"
    and "ok (as_ledger_db st)" and "backed hash (cnt (as_ledger_db st)) window" and "length window \<le> retention"
    and "\<forall>h. cnt (as_ledger_db st) h + length items < 2 ^ 32"
    and "index_blocks env_at k retention gc_enabled items (l, window) st = (r, st')"
  shows "r \<noteq> Inl unpersist_error
    \<and> (\<forall>l' w'. r = Inr (l', w') \<longrightarrow> backed hash (cnt (as_ledger_db st')) w' \<and> length w' \<le> retention)"
  using assms(3-)
proof (induction items arbitrary: k l window st)
  case (Cons item items)
  obtain r1 st1 where it: "index_iteration (env_at k) retention gc_enabled item (l, window) st = (r1, st1)"
    by (cases "index_iteration (env_at k) retention gc_enabled item (l, window) st")
  have room: "\<forall>h. cnt (as_ledger_db st) h + Suc (length items) < 2 ^ 32" using Cons.prems(4) by simp
  note one = index_iteration_backed [OF assms(1) Cons.prems(1,2) room it]
  show ?case
  proof (cases r1)
    case (Inl e)
    then show ?thesis using Cons.prems(5) it one by auto
  next
    case (Inr lw)
    obtain l1 w1 where lw: "lw = (l1, w1)" by (cases lw)
    have "index_blocks env_at (Suc k) retention gc_enabled items (l1, w1) st1 = (r, st')"
      using Cons.prems(5) it Inr lw by simp
    then show ?thesis using Cons.IH [of st1 w1 "Suc k" l1] one Inr lw by auto
  qed
qed auto

section \<open>Startup hands over a backed window\<close>

lemma count_list_filter: "count_list (filter P xs) x = (if P x then count_list xs x else 0)"
  by (induction xs) auto

lemma newest_hashes:
  assumes "try_map (\<lambda>(version, key). map_ok (\<lambda>h. (key, pv_ledger_version version, h))
      (hash key (pv_ledger_version version))) keys = Inr newest" and "set xs \<subseteq> set newest"
  shows "try_map (\<lambda>(key, v). hash key v) (map (\<lambda>(key, v, _). (key, v)) xs) = Inr (map (\<lambda>(_, _, h). h) xs)"
proof -
  have each: "hash key v = Inr h" if "(key, v, h) \<in> set newest" for key v h
    using assms(1) that
    by (induction keys arbitrary: newest) (auto simp: res_simps split: sum.splits)
  show ?thesis using assms(2)
  proof (induction xs)
    case (Cons x xs)
    then show ?case using each by (cases x) auto
  qed simp
qed

lemma seed_window_backed:
  assumes newest: "try_map (\<lambda>(version, key). map_ok (\<lambda>h. (key, pv_ledger_version version, h))
                    (hash key (pv_ledger_version version))) keys = Inr newest"
    and "\<And>h. 0 < c h \<Longrightarrow> count_list (map (\<lambda>(_, _, h). h) newest) h \<le> c h"
    and "\<And>h. h \<in> set persisted \<longleftrightarrow> 0 < c h"
  shows "backed hash c (seed_window persisted newest) \<and> length (seed_window persisted newest) \<le> length keys"
proof -
  let ?f = "filter (\<lambda>(_, _, h). h \<in> set persisted)"
  have hs: "try_map (\<lambda>(key, v). hash key v) (seed_window persisted newest)
      = Inr (map (\<lambda>(_, _, h). h) (?f newest))"
    unfolding seed_window_def by (rule newest_hashes [OF newest]) auto
  have fm: "map (\<lambda>(_, _, h). h) (?f newest) = filter (\<lambda>h. h \<in> set persisted) (map (\<lambda>(_, _, h). h) newest)"
    by (simp add: filter_map comp_def split_def)
  have "count_list (map (\<lambda>(_, _, h). h) (?f newest)) h \<le> c h" for h
    using assms(2,3) [of h] by (auto simp: fm count_list_filter)
  moreover have "length (seed_window persisted newest) \<le> length keys"
    using try_map_length [OF newest] length_filter_le [of "\<lambda>(_, _, h). h \<in> set persisted" newest]
    by (simp add: seed_window_def)
  ultimately show ?thesis using hs by (auto simp: backed_def)
qed

lemma run_startup_backed:
  assumes be: "storage_backend ops cnt nd ok flushed" and g: "ok g" "flushed g" "finite (dom (nd g))"
    and "retention < 2 ^ 32"
    and su: "run_startup le (chain_storage feat) hash (repair_root_counts ops hash)
      (\<lambda>g. map fst (bk_get_roots ops g)) retention db g = Some (Inr (su, g'))"
  shows "ok g' \<and> backed hash (cnt g') (su_window su) \<and> length (su_window su) \<le> retention"
proof -
  obtain keys newest r where keys: "get_newest_ledger_state_keys retention db = Inr keys"
    and newest: "try_map (\<lambda>(version, key). map_ok (\<lambda>h. (key, pv_ledger_version version, h))
                    (hash key (pv_ledger_version version))) keys = Inr newest"
    and rep: "repair_root_counts ops hash (map (\<lambda>(key, version, _). (key, version)) newest) g = Some (Inr (r, g'))"
    and w: "su_window su = seed_window (map fst (bk_get_roots ops g')) newest"
    using su by (auto simp: run_startup_def chain_storage_def Let_def res_simps err_simps
        split: sum.splits option.splits prod.splits)
  have len: "length keys \<le> retention"
    using keys by (auto simp: get_newest_ledger_state_keys_def res_simps dest!: try_map_length)
  have hs: "try_map (\<lambda>(key, v). hash key v) (map (\<lambda>(key, version, _). (key, version)) newest)
      = Inr (map (\<lambda>(_, _, h). h) newest)"
    by (rule newest_hashes [OF newest]) simp
  have short: "length (map (\<lambda>(key, version, _). (key, version)) newest) < 2 ^ 32"
    using try_map_length [OF newest] len assms(5) by simp
  obtain r0 b0 ws where run: "repair_root_counts ops hash (map (\<lambda>(key, version, _). (key, version)) newest) g = Some (Inr (r0, b0))"
    "ok b0" "flushed b0"
    and c': "\<forall>h. cnt b0 h = (if cnt g h = 0 \<and> \<not> dag_complete (bk_refs ops) (nd g) h then 0
        else max (cnt g h) (count_list (map (\<lambda>(_, _, h). h) newest) h))"
    using repair_root_counts_run [OF be g hs short] by blast
  then have g': "ok g'" "flushed g'"
    and cnt': "\<forall>h. cnt g' h = (if cnt g h = 0 \<and> \<not> dag_complete (bk_refs ops) (nd g) h then 0
        else max (cnt g h) (count_list (map (\<lambda>(_, _, h). h) newest) h))"
    using rep by auto
  have roots: "h \<in> set (map fst (bk_get_roots ops g')) \<longleftrightarrow> 0 < cnt g' h" for h
    using storage_backend.get_roots [OF be g'] by (metis map_of_eq_None_iff image_set neq0_conv option.distinct(1))
  have "backed hash (cnt g') (su_window su) \<and> length (su_window su) \<le> length keys"
    unfolding w
  proof (rule seed_window_backed [OF newest _ roots])
    show "0 < cnt g' h \<Longrightarrow> count_list (map (\<lambda>(_, _, h). h) newest) h \<le> cnt g' h" for h
      using cnt' [rule_format, of h] by (auto split: if_splits)
  qed
  then show ?thesis using g'(1) len by simp
qed

section \<open>A small ledger\<close>

text \<open>A counting ledger on the ledger database, to run the definitions on.\<close>

definition demo_persist :: "('l \<Rightarrow> bytes) \<Rightarrow> 'l \<Rightarrow> ledger_db \<Rightarrow> unit + ('l \<times> bytes) \<times> ledger_db" where
  "demo_persist ser l db =
     (let c = get_root_count db (ser l) in
      if c = - 1 then Inl () else Inr ((l, ser l), set_root_count (ser l) (c + 1) db))"

definition demo_unpersist :: "bytes \<Rightarrow> ledger_version \<Rightarrow> ledger_db \<Rightarrow> unit + ledger_db" where
  "demo_unpersist key v db =
     (let c = get_root_count db key in if c = 0 then Inl () else Inr (set_root_count key (c - 1) db))"

definition demo_ledger_env :: "(u64, unit, unit, unit, unit, ledger_db) ledger_env" where
  "demo_ledger_env =
     \<lparr>la_ops = counting_ledger, la_new = (\<lambda>v. Inr 0), la_load = (\<lambda>key v g. Inr 0),
      la_ledger_version = (\<lambda>l. LV9), la_translate = (\<lambda>l v. Inr l), la_from_genesis = (\<lambda>raw v. Inr 0),
      la_root = (\<lambda>l. Inr []), la_zswap_root = (\<lambda>l. ()), la_ser_root = (\<lambda>r. Inr []),
      la_dust_commitment_root = (\<lambda>l. Inr []), la_dust_generation_root = (\<lambda>l. Inr []),
      la_ser_params = (\<lambda>p. Inr []), la_persist = demo_persist (\<lambda>l. nat_to_be 8 (unat l)),
      la_unpersist = demo_unpersist, la_gc = id\<rparr>"

definition demo_env ::
  "(u64, unit, unit, unit, unit, ledger_db, chain_db, unit, message list, unit) app_env" where
  "demo_env =
     \<lparr>ae_caught_up_max_distance = 10, ae_caught_up_leeway = 5, ae_ledger = demo_ledger_env,
      ae_storage = chain_storage Standalone,
      ae_node = \<lparr>no_fetch_genesis_ledger_state = Inr [],
                 no_fetch_system_parameters = (\<lambda>hash height ts v. Inr \<lparr>spc_block_height = height,
                   spc_block_hash = hash, spc_timestamp = ts, spc_d_parameter = None,
                   spc_terms_and_conditions = None\<rparr>)\<rparr>,
      ae_publish = (\<lambda>m q. Inr (q @ [m])), ae_highest_block_on_node = None,
      ae_hash_order = sorted_list_of_set\<rparr>"

definition demo_block :: "u64 \<Rightarrow> u8 \<Rightarrow> u8 \<Rightarrow> unit node_block" where
  "demo_block height hash parent =
     \<lparr>nb_hash = replicate 32 hash, nb_height = height, nb_protocol_version = V2_1 2001000,
      nb_parent_hash = replicate 32 parent, nb_author = None, nb_timestamp = 6000 * height,
      nb_zswap_merkle_tree_root = (), nb_ledger_state_root = None,
      nb_transactions = [NodeRegular (sample_tx hash)], nb_dust_registration_events = [],
      nb_bridge_events = []\<rparr>"

definition demo_state :: "(chain_db, ledger_db, message list) app_state" where
  "demo_state = \<lparr>as_caught_up = False, as_parent_block_timestamp = 0, as_storage = empty_chain_db,
     as_ledger_db = \<lparr>ldb_nodes = [], ldb_roots = []\<rparr>, as_publisher = []\<rparr>"

definition demo_startup :: "u64 startup" where
  "demo_startup = \<lparr>su_highest_block_ref = None, su_parent_block_timestamp = 0, su_window = [],
     su_ledger_state = 0\<rparr>"

lemma demo_startup_run:
  "run_startup demo_ledger_env (chain_storage Standalone) (\<lambda>key _. Inr key)
     (repair_root_counts (ledger_backend (\<lambda>_. [])) (\<lambda>key _. Inr key))
     (\<lambda>g. map fst (bk_get_roots (ledger_backend (\<lambda>_. [])) g)) 1 empty_chain_db (as_ledger_db demo_state)
   = Some (Inr (demo_startup, as_ledger_db demo_state))"
  by (simp add: run_startup_def chain_storage_def get_highest_block_def get_highest_block_timestamp_def
      get_newest_ledger_state_keys_def blocks_desc_def order_by_desc_def first_row_def empty_chain_db_def
      empty_table_def repair_root_counts_def window_root_counts_def raise_root_counts_def ledger_backend_def
      get_roots_def demo_state_def seed_window_def initial_ledger_state_def demo_ledger_env_def
      demo_startup_def unwrap_or_zero_def Let_def)

end
