(* ===== verification/Chain_Storage_Props.thy ===== *)
theory Chain_Storage_Props
  imports Chain_Storage "HOL-Library.Sublist"
begin

text \<open>
  What the chain indexer's storage promises: every saved block keeps the database well formed and
  only adds to its history, no UTXO is spent twice, contract events are attributed to the one call
  that can have emitted them, and the readers return what was saved last.
\<close>

section \<open>Spending\<close>

lemma filter_distinct_keys:
  assumes "distinct (map k xs)"
  shows "length (filter (\<lambda>x. k x \<in> A \<and> P x) xs) = card {a \<in> A. \<exists>x \<in> set xs. k x = a \<and> P x}"
proof -
  have "distinct (map k (filter (\<lambda>x. k x \<in> A \<and> P x) xs))"
    using assms by (rule distinct_map_filter)
  then have "length (filter (\<lambda>x. k x \<in> A \<and> P x) xs) = card (k ` set (filter (\<lambda>x. k x \<in> A \<and> P x) xs))"
    by (metis distinct_card length_map set_map)
  also have "k ` set (filter (\<lambda>x. k x \<in> A \<and> P x) xs) = {a \<in> A. \<exists>x \<in> set xs. k x = a \<and> P x}"
    by auto
  finally show ?thesis .
qed

definition utxo_keys :: "unshielded_utxo list \<Rightarrow> (bytes \<times> i64) list" where
  "utxo_keys us = map (\<lambda>u. (utxo_intent_hash u, u32_as_i64 (utxo_output_index u))) us"

definition is_unspent :: "chain_db \<Rightarrow> bytes \<times> i64 \<Rightarrow> bool" where
  "is_unspent db k \<longleftrightarrow>
     list_ex (\<lambda>(_, r). utxo_key r = k \<and> u_spending_transaction_id r = None) (tab_rows (unshielded_utxos db))"

lemma card_eq_length_iff:
  "card {a \<in> set xs. P a} = length xs \<longleftrightarrow> distinct xs \<and> (\<forall>a \<in> set xs. P a)"
proof
  assume eq: "card {a \<in> set xs. P a} = length xs"
  have "card {a \<in> set xs. P a} \<le> card (set xs)" by (rule card_mono) auto
  then have full: "card (set xs) = length xs" using eq card_length [of xs] by simp
  then have "{a \<in> set xs. P a} = set xs" using eq by (intro card_subset_eq) auto
  then show "distinct xs \<and> (\<forall>a \<in> set xs. P a)" using full by (auto intro: card_distinct)
next
  assume *: "distinct xs \<and> (\<forall>a \<in> set xs. P a)"
  then have "{a \<in> set xs. P a} = set xs" by auto
  then show "card {a \<in> set xs. P a} = length xs" using * by (simp add: distinct_card)
qed

lemma spent_count:
  assumes "unique utxo_key (unshielded_utxos db)"
  shows "fst (update_where (\<lambda>(_, r). utxo_key r \<in> set (utxo_keys us) \<and> u_spending_transaction_id r = None) f
      (unshielded_utxos db)) = length us
    \<longleftrightarrow> distinct (utxo_keys us) \<and> (\<forall>k \<in> set (utxo_keys us). is_unspent db k)"
proof -
  have "fst (update_where (\<lambda>(_, r). utxo_key r \<in> set (utxo_keys us) \<and> u_spending_transaction_id r = None) f
      (unshielded_utxos db))
    = card {k \<in> set (utxo_keys us). is_unspent db k}"
    using filter_distinct_keys [of "utxo_key \<circ> snd" "tab_rows (unshielded_utxos db)" "set (utxo_keys us)"
        "\<lambda>x. u_spending_transaction_id (snd x) = None"] assms
    by (auto simp: update_where_def unique_def is_unspent_def list_ex_iff split_def)
  then show ?thesis using card_eq_length_iff [of "utxo_keys us" "is_unspent db"]
    by (simp add: utxo_keys_def)
qed

lemma save_spent_def2:
  "save_spent_unshielded_utxos us tid db =
     (let (n, t) = update_where
        (\<lambda>(_, r). utxo_key r \<in> set (utxo_keys us) \<and> u_spending_transaction_id r = None)
        (\<lambda>r. r\<lparr>u_spending_transaction_id := Some tid\<rparr>) (unshielded_utxos db)
      in if n \<noteq> length us then Inl (Protocol (length us) n) else Inr (db\<lparr>unshielded_utxos := t\<rparr>))"
proof (cases "us = []")
  case True
  have "map (\<lambda>(i, r). if False then (i, r\<lparr>u_spending_transaction_id := Some tid\<rparr>) else (i, r)) xs = xs" for xs
    by (induction xs) auto
  then show ?thesis using True
    by (simp add: save_spent_unshielded_utxos_def utxo_keys_def update_where_def map_idI split_def)
qed (simp add: save_spent_unshielded_utxos_def utxo_keys_def Let_def)

section \<open>History only grows\<close>

text \<open>
  The append-only tables keep their rows and order; a UTXO row keeps its place and its columns, and
  its spending transaction once set.
\<close>

definition utxo_evolves :: "i64 \<times> unshielded_utxo_row \<Rightarrow> i64 \<times> unshielded_utxo_row \<Rightarrow> bool" where
  "utxo_evolves = (\<lambda>(i, r) (i', r'). i' = i \<and>
     (r' = r \<or> (u_spending_transaction_id r = None \<and>
                 (\<exists>tid. r' = r\<lparr>u_spending_transaction_id := Some tid\<rparr>))))"

definition extends :: "chain_db \<Rightarrow> chain_db \<Rightarrow> bool" where
  "extends db db' \<longleftrightarrow>
     prefix (tab_rows (blocks db)) (tab_rows (blocks db'))
   \<and> prefix (tab_rows (transactions db)) (tab_rows (transactions db'))
   \<and> prefix (regular_transactions db) (regular_transactions db')
   \<and> prefix (tab_rows (contract_actions db)) (tab_rows (contract_actions db'))
   \<and> prefix (tab_rows (contract_balances db)) (tab_rows (contract_balances db'))
   \<and> prefix (tab_rows (ledger_events db)) (tab_rows (ledger_events db'))
   \<and> prefix (tab_rows (indexed_fields db)) (tab_rows (indexed_fields db'))
   \<and> prefix (tab_rows (dust_nullifiers db)) (tab_rows (dust_nullifiers db'))
   \<and> prefix (tab_rows (zswap_nullifiers db)) (tab_rows (zswap_nullifiers db'))
   \<and> prefix (tab_rows (bridge_claims db)) (tab_rows (bridge_claims db'))
   \<and> prefix (tab_rows (bridge_events db)) (tab_rows (bridge_events db'))
   \<and> (\<exists>new. prefix new (tab_rows (unshielded_utxos db'))
        \<and> list_all2 utxo_evolves (tab_rows (unshielded_utxos db)) new)"

lemma utxo_evolves_refl [simp]: "utxo_evolves x x"
  by (cases x) (simp add: utxo_evolves_def)

lemma utxo_evolves_trans: "utxo_evolves x y \<Longrightarrow> utxo_evolves y z \<Longrightarrow> utxo_evolves x z"
  by (cases x; cases y; cases z) (auto simp: utxo_evolves_def)

lemma list_all2_evolves_refl [simp]: "list_all2 utxo_evolves xs xs"
  by (simp add: list_all2_refl)

lemma extends_utxos_trans:
  assumes "prefix n1 b" "list_all2 utxo_evolves a n1" "prefix n2 c" "list_all2 utxo_evolves b n2"
  shows "\<exists>new. prefix new c \<and> list_all2 utxo_evolves a new"
proof -
  obtain b' where b: "b = n1 @ b'" using assms(1) by (auto simp: prefix_def)
  then obtain m m' where n2: "n2 = m @ m'" and m: "list_all2 utxo_evolves n1 m"
    using assms(4) by (auto simp: list_all2_append1)
  have "prefix m c" using assms(3) by (auto simp: n2 prefix_def)
  moreover have "list_all2 utxo_evolves a m"
    by (rule list_all2_trans [OF _ assms(2) m]) (rule utxo_evolves_trans)
  ultimately show ?thesis by blast
qed

lemma extends_refl [simp]: "extends db db"
  by (auto simp: extends_def)

lemma extends_trans: "extends a b \<Longrightarrow> extends b c \<Longrightarrow> extends a c"
  unfolding extends_def by (meson prefix_order.trans extends_utxos_trans)

lemma prefix_insert_rows [simp]: "prefix (tab_rows t) (tab_rows (snd (insert_rows rs t)))"
  by (simp add: insert_rows_rows)

lemma prefix_insert_row [simp]: "prefix (tab_rows t) (tab_rows (snd (insert_row r t)))"
  by (simp add: insert_row_simps)

lemma update_where_evolves:
  "list_all2 utxo_evolves (tab_rows t)
     (tab_rows (snd (update_where (\<lambda>(_, r). P r \<and> u_spending_transaction_id r = None)
        (\<lambda>r. r\<lparr>u_spending_transaction_id := Some tid\<rparr>) t)))"
  by (auto simp: update_where_def list_all2_map2 utxo_evolves_def split: if_splits intro!: list_all2_refl)

text \<open>
  The other tables: the identifiers and the system parameters are only added to, a dust generation may get another
  \<^verbatim>\<open>dtime\<close> and keeps all else, and a cNIGHT registration keeps its id, its stake key and its dust address.
\<close>

definition generation_evolves :: "i64 \<times> dust_generation_row \<Rightarrow> i64 \<times> dust_generation_row \<Rightarrow> bool" where
  "generation_evolves = (\<lambda>(i, r) (i', r'). i' = i \<and> (\<exists>dtime. r' = r\<lparr>g_dtime := dtime\<rparr>))"

definition registration_evolves :: "i64 \<times> registration_row \<Rightarrow> i64 \<times> registration_row \<Rightarrow> bool" where
  "registration_evolves = (\<lambda>(i, r) (i', r'). i' = i \<and> c_cardano_stake_key r' = c_cardano_stake_key r \<and> c_dust_address r' = c_dust_address r)"

definition rows_evolve :: "(i64 \<times> 'r \<Rightarrow> i64 \<times> 'r \<Rightarrow> bool) \<Rightarrow> 'r table \<Rightarrow> 'r table \<Rightarrow> bool" where
  "rows_evolve E t t' \<longleftrightarrow> (\<exists>new. prefix new (tab_rows t') \<and> list_all2 E (tab_rows t) new)"

definition others_extend :: "chain_db \<Rightarrow> chain_db \<Rightarrow> bool" where
  "others_extend db db' \<longleftrightarrow>
     prefix (tab_rows (transaction_identifiers db)) (tab_rows (transaction_identifiers db'))
   \<and> prefix (tab_rows (system_parameters_d db)) (tab_rows (system_parameters_d db'))
   \<and> prefix (tab_rows (system_parameters_tc db)) (tab_rows (system_parameters_tc db'))
   \<and> rows_evolve generation_evolves (dust_generation_infos db) (dust_generation_infos db')
   \<and> rows_evolve registration_evolves (cnight_registrations db) (cnight_registrations db')"

lemma rows_evolve_trans:
  assumes "\<And>x y z. E x y \<Longrightarrow> E y z \<Longrightarrow> E x z" and "rows_evolve E a b" "rows_evolve E b c"
  shows "rows_evolve E a c"
proof -
  obtain n1 n2 where n: "prefix n1 (tab_rows b)" "list_all2 E (tab_rows a) n1" "prefix n2 (tab_rows c)" "list_all2 E (tab_rows b) n2"
    using assms(2,3) by (auto simp: rows_evolve_def)
  obtain b' where b: "tab_rows b = n1 @ b'" using n(1) by (auto simp: prefix_def)
  then obtain m m' where n2: "n2 = m @ m'" and m: "list_all2 E n1 m" using n(4) by (auto simp: list_all2_append1)
  have "prefix m (tab_rows c)" using n(3) by (auto simp: n2 prefix_def)
  moreover have "list_all2 E (tab_rows a) m" by (rule list_all2_trans [OF assms(1) n(2) m])
  ultimately show ?thesis unfolding rows_evolve_def by blast
qed

lemma rows_evolve_prefix: "(\<And>x. E x x) \<Longrightarrow> prefix (tab_rows t) (tab_rows t') \<Longrightarrow> rows_evolve E t t'"
  unfolding rows_evolve_def by (blast intro: list_all2_refl)

lemma rows_evolve_update:
  "(\<And>x. E x x) \<Longrightarrow> (\<And>i r. E (i, r) (i, f r)) \<Longrightarrow> rows_evolve E t (snd (update_where P f t))"
  unfolding rows_evolve_def
  by (rule exI [of _ "tab_rows (snd (update_where P f t))"]) (auto simp: update_where_def list_all2_map2 split_def intro!: list_all2_refl)

lemma evolves_refl [simp]: "generation_evolves x x" "registration_evolves y y"
proof -
  have "r = r\<lparr>g_dtime := g_dtime r\<rparr>" for r :: dust_generation_row by simp
  then show "generation_evolves x x" unfolding generation_evolves_def by (cases x) blast
qed (auto simp: registration_evolves_def)

lemma evolves_trans:
  "generation_evolves a b \<Longrightarrow> generation_evolves b c \<Longrightarrow> generation_evolves a c"
  "registration_evolves a' b' \<Longrightarrow> registration_evolves b' c' \<Longrightarrow> registration_evolves a' c'"
  by (fastforce simp: generation_evolves_def registration_evolves_def)+

lemma rows_evolve_refl [simp]: "rows_evolve generation_evolves t t" "rows_evolve registration_evolves t' t'"
  by (simp_all add: rows_evolve_prefix)

lemma others_extend_refl [simp]: "others_extend db db"
  by (simp add: others_extend_def)

lemma others_extend_trans: "others_extend a b \<Longrightarrow> others_extend b c \<Longrightarrow> others_extend a c"
  unfolding others_extend_def by (meson prefix_order.trans rows_evolve_trans evolves_trans)

lemma generation_event_evolves:
  "rows_evolve generation_evolves (dust_generation_infos db) (dust_generation_infos (save_dust_generation_event tid e db))"
proof -
  have "rows_evolve generation_evolves t (snd (update_where P (\<lambda>r. r\<lparr>g_dtime := d\<rparr>) t))" for t P d
    by (rule rows_evolve_update [OF evolves_refl(1)]) (auto simp: generation_evolves_def)
  then show ?thesis
    by (simp add: save_dust_generation_event_def rows_evolve_prefix split: ledger_event_attributes.split)
qed

lemma registration_event_evolves: "rows_evolve registration_evolves t (save_dust_registration_event bid ts e t)"
proof -
  have u: "rows_evolve registration_evolves t (snd (update_where P f t))"
    if "\<And>r. c_cardano_stake_key (f r) = c_cardano_stake_key r \<and> c_dust_address (f r) = c_dust_address r" for P f
    by (rule rows_evolve_update) (use that in \<open>auto simp: registration_evolves_def split: prod.split\<close>)
  show ?thesis
    by (auto simp: save_dust_registration_event_def upsert_registration_def rows_evolve_prefix intro!: u split: dust_registration_event.split)
qed

lemma registration_events_evolve: "rows_evolve registration_evolves t (fold (save_dust_registration_event bid ts) es t)"
  by (induction es arbitrary: t) (auto intro: rows_evolve_trans evolves_trans registration_event_evolves)

text \<open>Most of saving a block also leaves the recorded system parameters alone.\<close>

definition grows :: "chain_db \<Rightarrow> chain_db \<Rightarrow> bool" where
  "grows db db' \<longleftrightarrow> extends db db' \<and> others_extend db db' \<and> system_parameters_d db' = system_parameters_d db
     \<and> system_parameters_tc db' = system_parameters_tc db"

lemma grows_refl [simp]: "grows db db"
  by (simp add: grows_def)

lemma grows_trans: "grows a b \<Longrightarrow> grows b c \<Longrightarrow> grows a c"
  unfolding grows_def by (metis extends_trans others_extend_trans)

lemma save_contract_actions_grows:
  "save_contract_actions as tid db = Inr (ids, db') \<Longrightarrow> grows db db'"
  by (auto simp: save_contract_actions_def save_contract_balances_def Let_def split_def res_simps
      insert_unique_Inr grows_def extends_def others_extend_def split: if_splits)

lemma save_created_unshielded_utxos_grows:
  "save_created_unshielded_utxos us tid db = Inr db' \<Longrightarrow> grows db db'"
  by (auto simp: save_created_unshielded_utxos_def res_simps insert_unique_Inr grows_def extends_def others_extend_def
      intro!: exI [of _ "tab_rows (unshielded_utxos db)"] split: if_splits)

lemma save_spent_unshielded_utxos_grows:
  "save_spent_unshielded_utxos us tid db = Inr db' \<Longrightarrow> grows db db'"
  by (auto simp: save_spent_def2 Let_def split_def grows_def extends_def others_extend_def split: if_splits
      intro!: exI [where P = "\<lambda>new. prefix new _ \<and> list_all2 utxo_evolves _ new"]
      update_where_evolves [unfolded split_def])

lemma save_ledger_events_grows:
  "save_ledger_events es as aids tid db = Inr db' \<Longrightarrow> grows db db'"
  by (auto simp: save_ledger_events_def save_contract_event_indexed_fields_def Let_def split_def grows_def extends_def others_extend_def
      split: if_splits)

lemma save_dust_generation_info_grows: "grows db (save_dust_generation_info es tid db)"
proof -
  have "grows db (save_dust_generation_event tid e db)" for e db
    using generation_event_evolves [of db tid e] by (auto simp: save_dust_generation_event_def grows_def extends_def others_extend_def split: ledger_event_attributes.splits)
  then have "grows db (fold (save_dust_generation_event tid) es db)"
    by (induction es arbitrary: db) (auto intro: grows_trans)
  then show ?thesis by (simp add: save_dust_generation_info_def)
qed

lemma save_tables_grows:
  "grows db (save_dust_nullifiers es tid bid db)"
  "grows db (save_zswap_nullifiers es tid bid db)"
  "grows db (save_bridge_claim tid c db)"
  "grows db (save_identifiers ids tid db)"
  "grows db (db\<lparr>regular_transactions := regular_transactions db @ [r]\<rparr>)"
  "grows db (save_dust_registration_events regs bid ts db)"
  "grows db (save_bridge_event bid e db)"
  "grows db (db\<lparr>transactions := snd (insert_row tr (transactions db))\<rparr>)"
  "grows db (db\<lparr>blocks := snd (insert_row br (blocks db))\<rparr>)"
  by (auto simp: registration_events_evolve grows_def extends_def others_extend_def save_dust_nullifiers_def save_zswap_nullifiers_def save_bridge_claim_def
      save_identifiers_def save_dust_registration_events_def save_bridge_event_def Let_def)

lemma save_bridge_events_grows: "grows db (save_bridge_events es bid db)"
  by (induction es arbitrary: db)
    (auto simp: save_bridge_events_def intro: grows_trans save_tables_grows(7))

lemma save_regular_transaction_grows:
  assumes "save_regular_transaction feat t tid bid db = Inr (i, db')"
  shows "grows db db'"
proof -
  let ?db1 = "db\<lparr>regular_transactions := regular_transactions db @ [regular_transaction_row_of feat tid t]\<rparr>"
  let ?db2 = "if feat = Standalone then save_identifiers (rt_identifiers t) tid ?db1 else ?db1"
  obtain aids db3 db4 db5 db6 where
        s3: "save_contract_actions (rt_contract_actions t) tid ?db2 = Inr (aids, db3)"
    and s4: "save_created_unshielded_utxos (rt_created_unshielded_utxos t) tid db3 = Inr db4"
    and s5: "save_spent_unshielded_utxos (rt_spent_unshielded_utxos t) tid db4 = Inr db5"
    and s6: "save_ledger_events (rt_ledger_events t) (rt_contract_actions t) aids tid db5 = Inr db6"
    and db': "db' = (let db = save_dust_generation_info (rt_ledger_events t) tid db6;
              db = save_dust_nullifiers (rt_ledger_events t) tid bid db;
              db = save_zswap_nullifiers (rt_ledger_events t) tid bid db
          in case rt_bridge_claim t of None \<Rightarrow> db | Some claim \<Rightarrow> save_bridge_claim tid claim db)"
    using assms by (auto simp: save_regular_transaction_def Let_def res_simps split: if_splits)
  have "grows db ?db1" by (rule save_tables_grows)
  moreover have "grows ?db1 ?db2" using save_tables_grows(4) by (cases feat) simp_all
  moreover note save_contract_actions_grows [OF s3] save_created_unshielded_utxos_grows [OF s4]
    save_spent_unshielded_utxos_grows [OF s5] save_ledger_events_grows [OF s6]
  moreover have "grows db6 db'"
  proof -
    let ?D = "save_zswap_nullifiers (rt_ledger_events t) tid bid (save_dust_nullifiers (rt_ledger_events t) tid bid
        (save_dust_generation_info (rt_ledger_events t) tid db6))"
    have D: "grows db6 ?D"
      by (rule grows_trans [OF grows_trans [OF save_dust_generation_info_grows save_tables_grows(1)]
            save_tables_grows(2)])
    then show ?thesis using grows_trans [OF D save_tables_grows(3)]
      by (cases "rt_bridge_claim t") (simp_all add: db' Let_def)
  qed
  ultimately show ?thesis by (meson grows_trans)
qed

lemma save_transaction_grows:
  "save_transaction feat bid (h, db) t = Inr (h', db') \<Longrightarrow> grows db db'"
proof (cases t)
  case (Regular r)
  assume "save_transaction feat bid (h, db) t = Inr (h', db')"
  then obtain i where "save_regular_transaction feat r (tab_next (transactions db)) bid
      (db\<lparr>transactions := snd (insert_row (transaction_row_of bid t) (transactions db))\<rparr>) = Inr (i, db')"
    using Regular by (auto simp: save_transaction_def Let_def split_def insert_row_simps res_simps)
  from save_regular_transaction_grows [OF this] show ?thesis
    using save_tables_grows(8) grows_trans by blast
next
  case (System s)
  let ?db = "db\<lparr>transactions := snd (insert_row (transaction_row_of bid t) (transactions db))\<rparr>"
  assume "save_transaction feat bid (h, db) t = Inr (h', db')"
  then obtain db1 db2 where "save_created_unshielded_utxos (st_created_unshielded_utxos s) (tab_next (transactions db)) ?db = Inr db1"
    "save_ledger_events (st_ledger_events s) [] [] (tab_next (transactions db)) db1 = Inr db2"
    "db' = save_dust_generation_info (st_ledger_events s) (tab_next (transactions db)) db2"
    using System by (auto simp: save_transaction_def save_system_transaction_def Let_def split_def insert_row_simps res_simps)
  then show ?thesis
    using save_created_unshielded_utxos_grows save_ledger_events_grows save_dust_generation_info_grows
      save_tables_grows(8) grows_trans by meson
qed

lemma save_transactions_grows: "save_transactions feat txs bid db = Inr (mx, db') \<Longrightarrow> grows db db'"
  unfolding save_transactions_def
  using try_fold_invariant [where P = "\<lambda>(h, d). grows db d" and f = "save_transaction feat bid" and xs = txs]
    save_transaction_grows grows_trans by (fastforce split: prod.splits)

lemma save_block_tx_grows:
  assumes "save_block_tx feat b txs regs key db = Inr (mx, db')"
  shows "grows db db'"
proof -
  obtain bid db1 db2 where "db1 = db\<lparr>blocks := snd (insert_row (block_row_of b key) (blocks db))\<rparr>"
    "save_transactions feat txs bid db1 = Inr (mx, db2)"
    "db' = save_bridge_events (bl_bridge_events b) bid (save_dust_registration_events regs bid (bl_timestamp b) db2)"
    using assms by (auto simp: save_block_tx_def insert_block_def Let_def split_def res_simps split: if_splits)
  then show ?thesis
    using save_tables_grows(9) save_transactions_grows save_tables_grows(6) save_bridge_events_grows grows_trans
    by meson
qed

lemma save_system_parameters_change_extends: "extends db (save_system_parameters_change c db)"
  by (auto simp: save_system_parameters_change_def extends_def Let_def split: option.splits)

lemma save_system_parameters_change_others: "others_extend db (save_system_parameters_change c db)"
  by (auto simp: save_system_parameters_change_def others_extend_def Let_def split: option.splits)

lemma save_block_others_extend: "others_extend db (snd (save_block feat b txs regs key change db))"
proof (cases "save_block_tx feat b txs regs key db")
  case (Inr r)
  obtain mx db' where r: "r = (mx, db')" by (cases r)
  then have "others_extend db db'" using save_block_tx_grows Inr by (simp add: grows_def)
  then show ?thesis using save_system_parameters_change_others others_extend_trans Inr r
    by (auto simp: save_block_def split: option.splits)
qed (simp add: save_block_def)

lemma save_block_extends: "extends db (snd (save_block feat b txs regs key change db))"
proof (cases "save_block_tx feat b txs regs key db")
  case (Inr r)
  obtain mx db' where r: "r = (mx, db')" by (cases r)
  then have "extends db db'" using save_block_tx_grows Inr by (simp add: grows_def)
  then show ?thesis using save_system_parameters_change_extends extends_trans Inr r
    by (auto simp: save_block_def split: option.splits)
qed (simp add: save_block_def)

section \<open>Reading back\<close>

lemma order_by_desc_snoc:
  "(\<And>y. y \<in> set xs \<Longrightarrow> k y < k x) \<Longrightarrow> order_by_desc k (xs @ [x]) = x # order_by_desc k xs"
  unfolding order_by_desc_def
proof (induction xs)
  case (Cons y ys)
  then have "sort_key (\<lambda>x. - k x) (ys @ [x]) = x # sort_key (\<lambda>x. - k x) ys" by simp
  moreover have "- k x < - k y" using Cons.prems [of y] by simp
  ultimately show ?case by simp
qed simp

definition above_all :: "i64 \<Rightarrow> ('r \<Rightarrow> i64) \<Rightarrow> 'r table \<Rightarrow> bool" where
  "above_all h k t = list_all (\<lambda>(_, r). k r < h) (tab_rows t)"

lemma order_by_desc_insert_row:
  "above_all (k r) k t \<Longrightarrow>
     order_by_desc k (map snd (tab_rows (snd (insert_row r t)))) = r # order_by_desc k (map snd (tab_rows t))"
  by (simp add: insert_row_simps) (rule order_by_desc_snoc, auto simp: above_all_def list_all_iff)

lemma save_block_Inr:
  assumes "save_block feat b txs regs key change db = (Inr mx, db')" and "db_ok db"
  shows "db_ok db' \<and> blocks db' = snd (insert_row (block_row_of b key) (blocks db))
    \<and> transactions db' = snd (insert_rows (map (transaction_row_of (tab_next (blocks db))) txs) (transactions db))
    \<and> mx = last_regular_id (tab_next (transactions db)) txs"
proof -
  obtain db1 where s: "save_block_tx feat b txs regs key db = Inr (mx, db1)"
    and db': "db' = (case change of None \<Rightarrow> db1 | Some c \<Rightarrow> save_system_parameters_change c db1)"
    using assms(1) by (auto simp: save_block_def split: sum.splits prod.splits)
  have "db_ok db' \<and> same_chain db1 db'"
    using save_block_tx_ok [OF s assms(2)] save_system_parameters_change_ok [of db1] db'
    by (auto split: option.splits)
  then show ?thesis using save_block_tx_ok [OF s assms(2)] by (simp add: same_chain_def)
qed

lemma save_block_failed: "save_block feat b txs regs key change db = (Inl e, db') \<Longrightarrow> db' = db"
  by (auto simp: save_block_def split: sum.splits prod.splits)

section \<open>Properties\<close>

text \<open>A block with a system transaction that creates a UTXO and a regular one that spends it.\<close>

definition sample_utxo :: unshielded_utxo where
  "sample_utxo = \<lparr>utxo_owner = [1], utxo_token_type = [2], utxo_value = 5, utxo_intent_hash = [3],
     utxo_output_index = 0, utxo_ctime = None, utxo_initial_nonce = [4],
     utxo_registered_for_dust_generation = False\<rparr>"

definition sample_system_tx :: transaction where
  "sample_system_tx = System \<lparr>st_hash = [10], st_protocol_version = V2_1 2001000, st_raw = [],
     st_created_unshielded_utxos = [sample_utxo], st_ledger_events = []\<rparr>"

definition sample_regular_tx :: transaction where
  "sample_regular_tx = Regular ((regular_transaction_from (sample_tx 11))\<lparr>
     rt_spent_unshielded_utxos := [sample_utxo]\<rparr>)"

definition sample_block :: "u8 \<Rightarrow> u64 \<Rightarrow> block" where
  "sample_block h height = \<lparr>bl_hash = replicate 32 h, bl_height = height, bl_protocol_version = V2_1 2001000,
     bl_parent_hash = [], bl_author = None, bl_timestamp = 6000 * height, bl_zswap_merkle_tree_root = [],
     bl_ledger_state_root = None, bl_dust_registration_events = [], bl_bridge_events = [],
     bl_ledger_parameters = [], bl_zswap_end_index = 0, bl_dust_commitment_end_index = 0,
     bl_dust_generation_end_index = 0, bl_dust_commitment_merkle_tree_root = [],
     bl_dust_generation_merkle_tree_root = []\<rparr>"

definition sample_save :: "(sqlx_error + u64 option) \<times> chain_db" where
  "sample_save = save_block Standalone (sample_block 1 0) [sample_system_tx, sample_regular_tx] [] [77] None empty_chain_db"

lemmas sample_defs = sample_save_def save_block_def save_block_tx_def insert_block_def conflicts_def
  save_transactions_def save_transaction_def save_system_transaction_def save_regular_transaction_def
  save_created_unshielded_utxos_def save_spent_unshielded_utxos_def save_ledger_events_def
  save_dust_generation_info_def save_dust_nullifiers_def save_zswap_nullifiers_def save_contract_actions_def
  save_identifiers_def save_dust_registration_events_def save_bridge_events_def filter_map_def
  insert_unique_def insert_row_def update_where_def empty_chain_db_def empty_table_def
  sample_block_def sample_system_tx_def sample_regular_tx_def sample_utxo_def sample_tx_def
  regular_transaction_from_def transaction_row_of_def utxo_row_of_def utxo_key_def u32_as_i64_def
  block_row_of_def regular_transaction_row_of_def as_u64_def

lemma sample_save_ok:
  "\<exists>db'. sample_save = (Inr (Some 2), db') \<and> \<not> is_unspent db' ([3], 0)"
  by (simp add: sample_defs is_unspent_def Let_def)

text \<open>
  C3. Saving a block keeps the database well formed, whether it succeeds or fails: ids in order,
  unique block hashes and heights, unique UTXO keys, contract balances and registrations, and every
  reference to a block, transaction, contract action or ledger event with its row. A failed save
  leaves the database as it was.
\<close>

theorem save_block_keeps_db_ok:
  assumes "db_ok db" and "save_block feat b txs regs key change db = (r, db')"
  shows "db_ok db' \<and> (case r of Inl _ \<Rightarrow> db' = db | Inr _ \<Rightarrow> True)"
proof (cases r)
  case (Inl e)
  then have "db' = db" using assms(2) save_block_failed by blast
  then show ?thesis using Inl assms(1) by simp
next
  case (Inr mx)
  then show ?thesis using save_block_Inr [OF assms(2) [unfolded Inr] assms(1)] by simp
qed

theorem save_block_keeps_db_ok_witness:
  "\<exists>db'. sample_save = (Inr (Some 2), db') \<and> db_ok db'"
proof -
  obtain db' where r: "sample_save = (Inr (Some 2), db')" using sample_save_ok by blast
  show ?thesis using r save_block_keeps_db_ok [OF db_ok_empty r [unfolded sample_save_def]] by blast
qed

text \<open>
  C9. A block saved successfully adds one block row and one transaction row per transaction, in
  order and with consecutive ids, all referencing the new block; the id returned is that of the last
  regular transaction of the block, or none when it has no regular transaction.
\<close>

theorem save_block_effect:
  assumes "db_ok db" and "save_block feat b txs regs key change db = (Inr mx, db')"
  shows "tab_rows (blocks db') = tab_rows (blocks db) @ [(tab_next (blocks db), block_row_of b key)]
    \<and> tab_rows (transactions db') = tab_rows (transactions db)
        @ zip (map (\<lambda>k. tab_next (transactions db) + int k) [0..<length txs])
              (map (transaction_row_of (tab_next (blocks db))) txs)
    \<and> mx = last_regular_id (tab_next (transactions db)) txs"
  using save_block_Inr [OF assms(2,1)]
    insert_rows_eq [of "map (transaction_row_of (tab_next (blocks db))) txs" "transactions db"]
  by (simp add: insert_row_simps)

theorem save_block_effect_witness:
  "\<exists>db'. sample_save = (Inr (Some 2), db') \<and> map fst (tab_rows (transactions db')) = [1, 2]
     \<and> map fst (tab_rows (blocks db')) = [1]"
proof -
  obtain db' where r: "sample_save = (Inr (Some 2), db')" using sample_save_ok by blast
  note e = save_block_effect [OF db_ok_empty r [unfolded sample_save_def]]
  have "map fst (tab_rows (transactions db')) = [1, 2]"
    using e [THEN conjunct2, THEN conjunct1] by (simp add: empty_chain_db_def empty_table_def)
  moreover have "map fst (tab_rows (blocks db')) = [1]"
    using e [THEN conjunct1] by (simp add: empty_chain_db_def empty_table_def)
  ultimately show ?thesis using r by (intro exI [of _ db'] conjI)
qed

text \<open>
  C10. Saving a block only adds to the history. In all tables but three the stored rows stay as they are, with their ids and their
  order. A UTXO row stays the same except that its spending transaction may be set, once: a spent UTXO never becomes unspent and
  is never attributed to another transaction. A dust generation stays the same except for its \<^verbatim>\<open>dtime\<close>. A cNIGHT registration, which
  is updated in place by later registration events, keeps its id, stake key and dust address and is never removed.
\<close>

theorem save_block_only_extends:
  "extends db (snd (save_block feat b txs regs key change db))
   \<and> others_extend db (snd (save_block feat b txs regs key change db))"
  by (intro conjI save_block_extends save_block_others_extend)

text \<open>
  C4. Spending succeeds exactly when the spent UTXOs are pairwise different and each of them is
  stored and unspent; otherwise it reports an error. When it succeeds, exactly the rows of those UTXOs
  get the spending transaction, so no UTXO is ever spent twice.
\<close>

theorem save_spent_exact:
  assumes "db_ok db"
  shows "(is_ok (save_spent_unshielded_utxos us tid db)
           = (distinct (utxo_keys us) \<and> list_all (is_unspent db) (utxo_keys us)))
    \<and> (\<forall>db'. save_spent_unshielded_utxos us tid db = Inr db' \<longrightarrow>
          tab_rows (unshielded_utxos db')
            = map (\<lambda>(i, r). if utxo_key r \<in> set (utxo_keys us)
                             then (i, r\<lparr>u_spending_transaction_id := Some tid\<rparr>) else (i, r))
                (tab_rows (unshielded_utxos db)))"
proof -
  let ?p = "\<lambda>(_ :: i64, r). utxo_key r \<in> set (utxo_keys us) \<and> u_spending_transaction_id r = None"
  let ?f = "\<lambda>r. r\<lparr>u_spending_transaction_id := Some tid\<rparr>"
  have u: "unique utxo_key (unshielded_utxos db)" using assms by (simp add: db_okD)
  note cnt = spent_count [OF u, of us ?f]
  have ok: "is_ok (save_spent_unshielded_utxos us tid db)
      \<longleftrightarrow> distinct (utxo_keys us) \<and> list_all (is_unspent db) (utxo_keys us)"
    using cnt by (simp add: save_spent_def2 Let_def split_def list_all_iff)
  have "tab_rows (unshielded_utxos db') = map (\<lambda>(i, r). if utxo_key r \<in> set (utxo_keys us)
        then (i, ?f r) else (i, r)) (tab_rows (unshielded_utxos db))"
    if s: "save_spent_unshielded_utxos us tid db = Inr db'" for db'
  proof -
    have unsp: "\<forall>k \<in> set (utxo_keys us). is_unspent db k"
      using ok s by (simp add: list_all_iff)
    have "u_spending_transaction_id r = None"
      if ir: "(i, r) \<in> set (tab_rows (unshielded_utxos db))" and k: "utxo_key r \<in> set (utxo_keys us)" for i r
    proof -
      obtain j r' where j: "(j, r') \<in> set (tab_rows (unshielded_utxos db))" "utxo_key r' = utxo_key r"
        "u_spending_transaction_id r' = None"
        using unsp k by (auto simp: is_unspent_def list_ex_iff)
      have "(j, r') = (i, r)"
        using u j ir unfolding unique_def by (metis (no_types, lifting) comp_apply inj_onD distinct_map snd_conv)
      then show ?thesis using j(3) by simp
    qed
    then show ?thesis using s
      by (auto simp: save_spent_def2 Let_def split_def update_where_def split: if_splits)
  qed
  then show ?thesis using ok by blast
qed

theorem save_spent_exact_witness:
  "\<exists>db'. sample_save = (Inr (Some 2), db') \<and> db_ok db'
     \<and> \<not> is_ok (save_spent_unshielded_utxos [sample_utxo] 3 db')"
proof -
  obtain db' where r: "sample_save = (Inr (Some 2), db')" and sp: "\<not> is_unspent db' ([3], 0)"
    using sample_save_ok by blast
  have ok: "db_ok db'" using save_block_Inr [OF r [unfolded sample_save_def] db_ok_empty] by blast
  have "utxo_keys [sample_utxo] = [([3], 0)]" by (simp add: utxo_keys_def sample_utxo_def u32_as_i64_def)
  then show ?thesis using r ok sp save_spent_exact [OF ok, of "[sample_utxo]" 3] by auto
qed

text \<open>
  Reading after saving: when the block is higher than every stored one, it is the highest block
  with the given ledger state key, its time is the highest block's time, and the newest ledger state
  keys are those before with its key appended, so the retention window can be seeded from them.
\<close>

theorem highest_block_after_save:
  assumes "db_ok db" and "save_block feat b txs regs key change db = (Inr mx, db')"
    and "above_all (as_i64 (bl_height b)) b_height (blocks db)" and "length (bl_hash b) = 32"
    and "try_from_u32 v = Inr (bl_protocol_version b)"
  shows "get_highest_block db'
      = Inr (Some (\<lparr>br_hash = bl_hash b, br_height = bl_height b\<rparr>, bl_protocol_version b, key))
    \<and> get_highest_block_timestamp db' = Some (bl_timestamp b)
    \<and> get_newest_ledger_state_keys (Suc n) db'
      = map_ok (\<lambda>keys. keys @ [(bl_protocol_version b, key)]) (get_newest_ledger_state_keys n db)"
proof -
  have v: "try_from_i64 (into_i64 (bl_protocol_version b)) = Inr (bl_protocol_version b)"
    using try_from_u32_u32_from [OF assms(5)] assms(5) by (simp add: try_from_i64_into_i64_eq)
  have rows: "blocks_desc db' = block_row_of b key # blocks_desc db"
    using save_block_Inr [OF assms(2,1)] order_by_desc_insert_row [of b_height "block_row_of b key" "blocks db"] assms(3)
    by (simp add: blocks_desc_def block_row_of_def)
  have "get_newest_ledger_state_keys (Suc n) db'
      = map_ok (\<lambda>keys. keys @ [(bl_protocol_version b, key)]) (get_newest_ledger_state_keys n db)"
    by (simp add: get_newest_ledger_state_keys_def rows block_row_of_def v map_ok_def split: sum.splits)
  then show ?thesis using rows v assms(4)
    by (simp add: get_highest_block_def get_highest_block_timestamp_def first_row_def block_row_of_def
        byte_array_try_from_def)
qed

theorem highest_block_after_save_witness:
  "\<exists>db'. sample_save = (Inr (Some 2), db')
     \<and> get_highest_block db' = Inr (Some (\<lparr>br_hash = replicate 32 1, br_height = 0\<rparr>, V2_1 2001000, [77]))"
proof -
  obtain db' where r: "sample_save = (Inr (Some 2), db')" using sample_save_ok by blast
  have "above_all (as_i64 (bl_height (sample_block 1 0))) b_height (blocks empty_chain_db)"
    by (simp add: above_all_def empty_chain_db_def empty_table_def)
  moreover have "length (bl_hash (sample_block 1 0)) = 32" by (simp add: sample_block_def)
  moreover have "try_from_u32 2001000 = Inr (bl_protocol_version (sample_block 1 0))"
    by (simp add: sample_block_def try_from_u32_def)
  ultimately have "get_highest_block db' = Inr (Some (\<lparr>br_hash = bl_hash (sample_block 1 0),
      br_height = bl_height (sample_block 1 0)\<rparr>, bl_protocol_version (sample_block 1 0), [77]))"
    using highest_block_after_save [OF db_ok_empty r [unfolded sample_save_def]] by blast
  then have "get_highest_block db' = Inr (Some (\<lparr>br_hash = replicate 32 1, br_height = 0\<rparr>, V2_1 2001000, [77]))"
    by (simp add: sample_block_def)
  then show ?thesis using r by blast
qed

lemma filter_singleton:
  "distinct ks \<Longrightarrow> filter Q ks = [k] \<longleftrightarrow> k \<in> set ks \<and> Q k \<and> (\<forall>j \<in> set ks. Q j \<longrightarrow> j = k)"
proof (induction ks)
  case (Cons a ks)
  show ?case
  proof (cases "Q a")
    case True
    then have "filter Q (a # ks) = [k] \<longleftrightarrow> a = k \<and> (\<forall>j \<in> set ks. \<not> Q j)"
      by (auto simp: filter_empty_conv)
    then show ?thesis using Cons.prems True by auto
  next
    case False
    then show ?thesis using Cons by auto
  qed
qed simp

lemma filter_zip_nth:
  "length xs = length ys \<Longrightarrow> filter (\<lambda>(a, _). P a) (zip xs ys)
     = map (\<lambda>k. (xs ! k, ys ! k)) (filter (\<lambda>k. P (xs ! k)) [0..<length xs])"
proof (induction xs ys rule: rev_induct2)
  case (4 x xs y ys)
  then have "length xs = length ys" by simp
  moreover have "filter (\<lambda>k. P ((xs @ [x]) ! k)) [0..<length xs] = filter (\<lambda>k. P (xs ! k)) [0..<length xs]"
    by (intro filter_cong) (auto simp: nth_append)
  ultimately show ?case using "4.IH" by (auto simp: nth_append)
qed auto

lemma filter_singleton_nth:
  assumes "length xs = length ys"
  shows "filter (\<lambda>(a, _). P a) (zip xs ys) = [(x, y)] \<longleftrightarrow>
    (\<exists>k < length xs. xs ! k = x \<and> ys ! k = y \<and> P x \<and> (\<forall>j < length xs. P (xs ! j) \<longrightarrow> j = k))"
proof -
  have "filter (\<lambda>(a, _). P a) (zip xs ys) = [(x, y)]
      \<longleftrightarrow> (\<exists>k. filter (\<lambda>k. P (xs ! k)) [0..<length xs] = [k] \<and> xs ! k = x \<and> ys ! k = y)"
    by (auto simp: filter_zip_nth [OF assms] map_eq_Cons_conv)
  also have "\<dots> \<longleftrightarrow> (\<exists>k. (k < length xs \<and> P (xs ! k) \<and> (\<forall>j < length xs. P (xs ! j) \<longrightarrow> j = k))
      \<and> xs ! k = x \<and> ys ! k = y)"
    by (simp add: filter_singleton Ball_def)
  finally show ?thesis by metis
qed

text \<open>
  A contract event is attributed to a contract action exactly when one and only one call of its
  transaction has the event's contract address and entry point; with none or several, and for
  events without an address or entry point, it stays unattributed.
\<close>

theorem correlate_unique:
  assumes "length ids = length actions"
  shows "correlate_contract_action_id actions ids e = Some i \<longleftrightarrow>
    (\<exists>a ep k. le_contract_address e = Some a \<and> contract_entry_point (le_attributes e) = Some ep
       \<and> k < length actions \<and> ids ! k = i \<and> action_matches a ep (actions ! k)
       \<and> (\<forall>j < length actions. action_matches a ep (actions ! j) \<longrightarrow> j = k))"
proof (cases "le_contract_address e"; cases "contract_entry_point (le_attributes e)")
  fix a ep
  assume *: "le_contract_address e = Some a" "contract_entry_point (le_attributes e) = Some ep"
  have "correlate_contract_action_id actions ids e = Some i \<longleftrightarrow>
      (\<exists>x. filter (\<lambda>(action, _). action_matches a ep action) (zip actions ids) = [(x, i)])"
    using * by (auto simp: correlate_contract_action_id_def split: list.splits)
  then show ?thesis using * filter_singleton_nth [OF assms [symmetric], of "action_matches a ep"] by auto
qed (auto simp: correlate_contract_action_id_def)

theorem correlate_unique_witness:
  "correlate_contract_action_id
     [contract_action_from [5] [1] (Call [9]), contract_action_from [5] [1] (Call [8])] [41, 42]
     (contract_event [0] [5] None (ContractPaused 1 [8])) = Some 42"
proof -
  have len: "length [41, 42 :: i64] = length [contract_action_from [5] [1] (Call [9]), contract_action_from [5] [1] (Call [8])]"
    by simp
  have "\<exists>a ep k. le_contract_address (contract_event [0] [5] None (ContractPaused 1 [8])) = Some a
      \<and> contract_entry_point (le_attributes (contract_event [0] [5] None (ContractPaused 1 [8]))) = Some ep
      \<and> k < length [contract_action_from [5] [1] (Call [9]), contract_action_from [5] [1] (Call [8])]
      \<and> [41, 42] ! k = (42 :: i64)
      \<and> action_matches a ep ([contract_action_from [5] [1] (Call [9]), contract_action_from [5] [1] (Call [8])] ! k)
      \<and> (\<forall>j < length [contract_action_from [5] [1] (Call [9]), contract_action_from [5] [1] (Call [8])].
           action_matches a ep ([contract_action_from [5] [1] (Call [9]), contract_action_from [5] [1] (Call [8])] ! j) \<longrightarrow> j = k)"
    by (intro exI [of _ "[5]"] exI [of _ "[8]"] exI [of _ 1])
      (simp add: contract_event_def action_matches_def contract_action_from_def less_Suc_eq nth_Cons' numeral_2_eq_2)
  with correlate_unique [OF len] show ?thesis by blast
qed

end
