(* ===== verification/Chain_App_Props.thy ===== *)
theory Chain_App_Props
  imports Retention Chain_Storage_Props
begin

text \<open>
  Properties of the chain indexer's application: the stream of node blocks is a linked chain and makes
  progress, the caught-up flag, what indexing one block leaves behind on every path, recorded changes
  of system parameters, and the chain of blocks the database holds after any number of runs.
\<close>

section \<open>Linked blocks\<close>

text \<open>Each block's parent is the one before it, the first one's is \<open>h\<close>.\<close>

fun linked :: "('b \<Rightarrow> bytes) \<Rightarrow> ('b \<Rightarrow> bytes) \<Rightarrow> bytes \<Rightarrow> 'b list \<Rightarrow> bool" where
  "linked hash parent h [] \<longleftrightarrow> True"
| "linked hash parent h (b # bs) \<longleftrightarrow> parent b = h \<and> linked hash parent (hash b) bs"

definition tip :: "('b \<Rightarrow> bytes) \<Rightarrow> bytes \<Rightarrow> 'b list \<Rightarrow> bytes" where
  "tip hash h bs = (if bs = [] then h else hash (last bs))"

lemma tip_simps [simp]: "tip hash h [] = h" "tip hash h (bs @ [b]) = hash b"
  "tip hash h (b # bs) = tip hash (hash b) bs"
  by (simp_all add: tip_def)

lemma linked_append: "linked hash parent h (xs @ ys) \<longleftrightarrow> linked hash parent h xs \<and> linked hash parent (tip hash h xs) ys"
  by (induction xs arbitrary: h) auto

lemma linked_take: "linked hash parent h xs \<Longrightarrow> linked hash parent h (take n xs)"
  by (metis append_take_drop_id linked_append)

abbreviation nb_linked :: "bytes \<Rightarrow> 'r node_block list \<Rightarrow> bool" where
  "nb_linked \<equiv> linked nb_hash nb_parent_hash"

definition oks :: "('e + 'a) list \<Rightarrow> 'a list" where
  "oks items = concat (map (case_sum (\<lambda>_. []) (\<lambda>b. [b])) items)"

lemma oks_simps [simp]: "oks [] = []" "oks (Inl e # items) = oks items" "oks (Inr b # items) = b # oks items"
  "oks (xs @ ys) = oks xs @ oks ys" "oks (map Inr bs) = bs"
  by (simp_all add: oks_def) (induction bs, auto)

lemma set_oks: "b \<in> set (oks items) \<longleftrightarrow> Inr b \<in> set items"
  by (induction items) (auto simp: oks_def split: sum.splits)

section \<open>The stream of node blocks\<close>

lemma highest_hash_simps [simp]:
  "highest_hash_or_default (Some (block_ref_from b)) = nb_hash b"
  "highest_hash_or_default None = byte_array_default 32"
  by (simp_all add: highest_hash_or_default_def block_ref_from_def)

lemma node_blocks_inner_linked:
  "node_blocks_inner highest items = (ys, highest') \<Longrightarrow>
     nb_linked (highest_hash_or_default highest) (oks ys)
     \<and> highest_hash_or_default highest' = tip nb_hash (highest_hash_or_default highest) (oks ys)
     \<and> set ys \<subseteq> set items"
proof (induction highest items arbitrary: ys rule: node_blocks_inner.induct)
  case (3 highest b items)
  then show ?case by (fastforce split: if_splits prod.splits)
qed (fastforce split: prod.splits)+

lemma node_blocks_linked_from:
  "nb_linked (highest_hash_or_default highest) (oks (node_blocks finalized k n highest))"
proof (induction n arbitrary: k highest)
  case (Suc n)
  obtain ys highest' where i: "node_blocks_inner highest (finalized k highest) = (ys, highest')"
    by (cases "node_blocks_inner highest (finalized k highest)")
  then show ?case
    using node_blocks_inner_linked [OF i] Suc.IH [where highest = highest' and k = "Suc k"]
    by (simp add: linked_append)
qed simp

lemma node_blocks_delivered:
  "Inr b \<in> set (node_blocks finalized k n highest) \<Longrightarrow> \<exists>j after. Inr b \<in> set (finalized j after)"
proof (induction n arbitrary: k highest)
  case (Suc n)
  obtain ys highest' where i: "node_blocks_inner highest (finalized k highest) = (ys, highest')"
    by (cases "node_blocks_inner highest (finalized k highest)")
  have "Inr b \<in> set ys \<or> Inr b \<in> set (node_blocks finalized (Suc k) n highest')"
    using i Suc.prems by simp
  then show ?case using node_blocks_inner_linked [OF i] Suc.IH by blast
qed simp

text \<open>The reference to the block before position \<open>j\<close> of a chain of blocks.\<close>

definition ref_at :: "block_ref option \<Rightarrow> 'r node_block list \<Rightarrow> nat \<Rightarrow> block_ref option" where
  "ref_at highest cs j = (if j = 0 then highest else Some (block_ref_from (cs ! (j - 1))))"

text \<open>What stops the inner loop: the end of the stream, or a block that does not link to \<open>h\<close>.\<close>

fun stops_at :: "bytes \<Rightarrow> ('e + 'r node_block) list \<Rightarrow> bool" where
  "stops_at h [] \<longleftrightarrow> True"
| "stops_at h (Inr b # _) \<longleftrightarrow> nb_parent_hash b \<noteq> h"
| "stops_at h (Inl _ # _) \<longleftrightarrow> False"

lemma node_blocks_inner_chain:
  "nb_linked (highest_hash_or_default highest) bs \<Longrightarrow>
   stops_at (tip nb_hash (highest_hash_or_default highest) bs) junk \<Longrightarrow>
   node_blocks_inner highest (map Inr bs @ junk)
     = (map Inr bs, if bs = [] then highest else Some (block_ref_from (last bs)))"
proof (induction bs arbitrary: highest)
  case Nil
  then show ?case by (cases "(highest_hash_or_default highest, junk)" rule: stops_at.cases) auto
next
  case (Cons b bs)
  then show ?case using Cons.IH [of "Some (block_ref_from b)"] by simp
qed

lemma node_blocks_progress_from:
  assumes chain: "nb_linked (highest_hash_or_default highest) cs"
    and node: "\<And>k j. j < length cs \<Longrightarrow> \<exists>m junk. finalized k (ref_at highest cs j) = map Inr (take (Suc m) (drop j cs)) @ junk
      \<and> stops_at (tip nb_hash (highest_hash_or_default (ref_at highest cs j)) (take (Suc m) (drop j cs))) junk"
  shows "j \<le> length cs \<Longrightarrow>
    \<exists>zs. node_blocks finalized k n (ref_at highest cs j) = map Inr (take n (drop j cs)) @ zs"
proof (induction n arbitrary: k j)
  case (Suc n)
  show ?case
  proof (cases "j = length cs")
    case False
    then have j: "j < length cs" using Suc.prems by simp
    obtain m junk where f: "finalized k (ref_at highest cs j) = map Inr (take (Suc m) (drop j cs)) @ junk"
      and stop: "stops_at (tip nb_hash (highest_hash_or_default (ref_at highest cs j)) (take (Suc m) (drop j cs))) junk"
      using node [OF j] by blast
    have "highest_hash_or_default (ref_at highest cs j) = tip nb_hash (highest_hash_or_default highest) (take j cs)"
      using j by (cases j) (simp_all add: ref_at_def take_Suc_conv_app_nth)
    then have "nb_linked (highest_hash_or_default (ref_at highest cs j)) (drop j cs)"
      using chain linked_append [of nb_hash nb_parent_hash _ "take j cs" "drop j cs"] by simp
    then have lk: "nb_linked (highest_hash_or_default (ref_at highest cs j)) (take (Suc m) (drop j cs))"
      by (rule linked_take)
    let ?j = "min (length cs) (j + Suc m)"
    have ne: "take (Suc m) (drop j cs) \<noteq> []" using j by simp
    have "last (take (Suc m) (drop j cs)) = cs ! (?j - 1)"
      using j by (simp add: last_conv_nth ne min_def)
    moreover have "?j \<noteq> 0" using j by auto
    ultimately have "ref_at highest cs ?j = Some (block_ref_from (last (take (Suc m) (drop j cs))))"
      by (simp only: ref_at_def if_False)
    then have inner: "node_blocks_inner (ref_at highest cs j) (finalized k (ref_at highest cs j))
        = (map Inr (take (Suc m) (drop j cs)), ref_at highest cs ?j)"
      using node_blocks_inner_chain [OF lk stop] ne by (simp only: f if_False)
    obtain zs where zs: "node_blocks finalized (Suc k) n (ref_at highest cs ?j) = map Inr (take n (drop ?j cs)) @ zs"
      using Suc.IH [of ?j "Suc k"] by auto
    have "take (Suc m) (drop j cs) @ take n (drop ?j cs) = take (Suc m + n) (drop j cs)"
      using take_add [of "Suc m" n "drop j cs"] by (simp add: min_def add.commute)
    then have "node_blocks finalized k (Suc n) (ref_at highest cs j) = map Inr (take (Suc m + n) (drop j cs)) @ zs"
      using inner zs by (simp flip: map_append append_assoc)
    moreover have "take (Suc m + n) (drop j cs) = take (Suc n) (drop j cs) @ take m (drop (Suc n) (drop j cs))"
      using take_add [of "Suc n" m "drop j cs"] by (simp add: add.commute)
    ultimately show ?thesis by (metis append_assoc map_append)
  qed simp
qed simp

section \<open>What indexing one block leaves behind\<close>

lemma process_block_Inr:
  assumes "process_block le node nb ts l = Inr (b, txs, l')"
  shows "bl_hash b = nb_hash nb \<and> bl_height b = nb_height nb \<and> bl_parent_hash b = nb_parent_hash nb
    \<and> bl_timestamp b = nb_timestamp nb \<and> bl_protocol_version b = nb_protocol_version nb
    \<and> bl_bridge_events b = nb_bridge_events nb
    \<and> bl_zswap_end_index b = ld_zswap_first_free (la_ops le) l'
    \<and> bl_dust_commitment_end_index b = ld_dust_commitments_first_free (la_ops le) l'
    \<and> bl_dust_generation_end_index b = ld_dust_generations_first_free (la_ops le) l'
    \<and> la_zswap_root le l' = nb_zswap_merkle_tree_root nb
    \<and> (\<exists>root. la_root le l' = Inr root \<and> nb_ledger_state_root nb \<in> {None, Some root})"
proof -
  obtain b0 txs0 l0 txs1 params where b0: "block_try_from (la_ser_root le) nb = Inr (b0, txs0)"
    and c: "complete_block le b0 params l' = Inr b"
    and v: "validate_ledger_state le b (nb_zswap_merkle_tree_root nb) l' = Inr ()"
    using assms by (auto simp: process_block_def res_simps Let_def split: prod.splits)
  have "bl_hash b0 = nb_hash nb \<and> bl_height b0 = nb_height nb \<and> bl_parent_hash b0 = nb_parent_hash nb
    \<and> bl_timestamp b0 = nb_timestamp nb \<and> bl_protocol_version b0 = nb_protocol_version nb
    \<and> bl_bridge_events b0 = nb_bridge_events nb \<and> bl_ledger_state_root b0 = nb_ledger_state_root nb"
    using b0 by (auto simp: block_try_from_def res_simps)
  moreover have "\<exists>params dc dg. b = b0\<lparr>bl_ledger_parameters := params,
      bl_zswap_end_index := ld_zswap_first_free (la_ops le) l',
      bl_dust_commitment_end_index := ld_dust_commitments_first_free (la_ops le) l',
      bl_dust_generation_end_index := ld_dust_generations_first_free (la_ops le) l',
      bl_dust_commitment_merkle_tree_root := dc, bl_dust_generation_merkle_tree_root := dg\<rparr>"
    using c by (auto simp: complete_block_def res_simps)
  moreover have "la_zswap_root le l' = nb_zswap_merkle_tree_root nb
    \<and> (\<exists>root. la_root le l' = Inr root \<and> bl_ledger_state_root b \<in> {None, Some root})"
    using v by (auto simp: validate_ledger_state_def res_simps split: if_splits option.splits)
  ultimately show ?thesis by auto
qed

text \<open>The three outcomes of \<open>index_block\<close>: nothing stored, stored but not announced, stored and announced.\<close>

lemma index_block_cases:
  assumes "index_block env nb l st = (r, st')"
  obtains (failed) e where "r = Inl e" "as_publisher st' = as_publisher st"
      "as_storage st' = as_storage st
        \<or> (\<exists>b txs key change e'. so_save_block (ae_storage env) b txs (bl_dust_registration_events b) key change
              (as_storage st) = (Inl e', as_storage st'))"
  | (stored) b txs l0 l1 key change mx where
      "process_block (ae_ledger env) (ae_node env) nb (as_parent_block_timestamp st) l = Inr (b, txs, l0)"
      "la_persist (ae_ledger env) l0 (as_ledger_db st) = Inr ((l1, key), as_ledger_db st')"
      "determine_system_parameters_change (ae_storage env) (ae_node env) b (as_storage st) = Inr change"
      "so_save_block (ae_storage env) b txs (bl_dust_registration_events b) key change (as_storage st)
         = (Inr mx, as_storage st')"
      "as_caught_up st' = next_caught_up (ae_caught_up_max_distance env) (ae_caught_up_leeway env)
         (ae_highest_block_on_node env) (bl_height b) (as_caught_up st)"
      "publish_all (ae_publish env) (block_messages (ae_hash_order env) b txs mx (as_caught_up st')) (as_publisher st)
         = (map_ok (\<lambda>_. ()) r, as_publisher st')"
      "r \<in> {Inl e |e. True} \<union> {Inr (l1, key)}"
      "as_parent_block_timestamp st' = bl_timestamp b"
proof (cases "process_block (ae_ledger env) (ae_node env) nb (as_parent_block_timestamp st) l")
  case (Inl e)
  then show ?thesis using assms failed by (auto simp: index_block_def)
next
  case (Inr x)
  obtain b txs l0 where x: "x = (b, txs, l0)" by (cases x)
  show ?thesis
  proof (cases "la_persist (ae_ledger env) l0 (as_ledger_db st)")
    case (Inl e)
    then show ?thesis using assms Inr x failed by (auto simp: index_block_def Let_def)
  next
    case p: (Inr y)
    obtain l1 key g where y: "y = ((l1, key), g)" by (metis prod.exhaust)
    show ?thesis
    proof (cases "determine_system_parameters_change (ae_storage env) (ae_node env) b (as_storage st)")
      case (Inl e)
      then show ?thesis using assms Inr x p y failed by (auto simp: index_block_def Let_def)
    next
      case d: (Inr change)
      obtain sr s where s: "so_save_block (ae_storage env) b txs (bl_dust_registration_events b) key change
         (as_storage st) = (sr, s)" by (metis prod.exhaust)
      show ?thesis
      proof (cases sr)
        case (Inl e)
        then have "r = Inl (SaveBlockError e)" "as_publisher st' = as_publisher st" "as_storage st' = s"
          using assms Inr x p y d s by (auto simp: index_block_def Let_def)
        then show ?thesis using failed s Inl by blast
      next
        case mx: (Inr mx)
        show ?thesis using assms Inr x p y d s mx
          by (intro stored [of b txs l0 l1 key change mx]) (auto simp: index_block_def Let_def map_ok_def
              split: prod.splits sum.splits)
      qed
    qed
  qed
qed

section \<open>Caught up\<close>

lemma next_caught_up_iff:
  "next_caught_up d lw highest h c \<longleftrightarrow>
     (case highest of None \<Rightarrow> 2 ^ 64 - 1 | Some r \<Rightarrow> unat (br_height r))
       \<le> unat h + (if c then unat (d + lw) else unat d)"
proof -
  have "unat (- 1 :: u64) = 2 ^ 64 - 1" by (simp add: unsigned_minus_1_eq_mask mask_eq_exp_minus_1)
  then show ?thesis by (auto simp: next_caught_up_def unat_saturating_sub Let_def split: option.splits)
qed

section \<open>Recorded system parameters\<close>

lemma first_row_insert_row:
  assumes "above_all (k r) k t"
  shows "first_row (order_by_desc k (map snd (tab_rows (snd (insert_row r t))))) = Some r"
  by (simp add: order_by_desc_insert_row [OF assms] first_row_def)

lemma u16_as_i32_inverse [simp]: "word_of_int (u16_as_i32 w) = (w :: u16)"
  by (simp add: u16_as_i32_def)

lemma get_latest_after_change:
  assumes "above_all (as_i64 (spc_block_height c)) d_block_height (system_parameters_d db)"
    and "above_all (as_i64 (spc_block_height c)) tc_block_height (system_parameters_tc db)"
    and "\<And>tc. spc_terms_and_conditions c = Some tc \<Longrightarrow> length (tc_hash tc) = 32"
  shows "get_latest_d_parameter (save_system_parameters_change c db)
      = (case spc_d_parameter c of None \<Rightarrow> get_latest_d_parameter db | Some d \<Rightarrow> Some d)"
    and "get_latest_terms_and_conditions (save_system_parameters_change c db)
      = (case spc_terms_and_conditions c of None \<Rightarrow> get_latest_terms_and_conditions db | Some tc \<Rightarrow> Inr (Some tc))"
  using assms
  by (auto simp: save_system_parameters_change_def get_latest_d_parameter_def
      get_latest_terms_and_conditions_def first_row_insert_row byte_array_try_from_def Let_def
      split: option.splits)

lemma determine_system_parameters_change_Inr:
  assumes "determine_system_parameters_change (chain_storage feat) node b db = Inr change"
    and "get_latest_terms_and_conditions db = Inr stored_tc"
  shows "\<exists>current. no_fetch_system_parameters node (bl_hash b) (bl_height b) (bl_timestamp b)
        (pv_node_version (bl_protocol_version b)) = Inr current
    \<and> change = (let d = (if spc_d_parameter current \<noteq> get_latest_d_parameter db then spc_d_parameter current else None);
                    tc = (if spc_terms_and_conditions current \<noteq> stored_tc then spc_terms_and_conditions current else None)
               in if d = None \<and> tc = None then None
                  else Some \<lparr>spc_block_height = bl_height b, spc_block_hash = bl_hash b,
                             spc_timestamp = bl_timestamp b, spc_d_parameter = d, spc_terms_and_conditions = tc\<rparr>)"
proof -
  have d: "(case stored of None \<Rightarrow> True | Some s \<Rightarrow> num_permissioned_candidates d \<noteq> num_permissioned_candidates s
      \<or> num_registered_candidates d \<noteq> num_registered_candidates s) \<longleftrightarrow> Some d \<noteq> stored" for d :: d_parameter and stored
    by (auto split: option.splits)
  have t: "tc_hash x \<noteq> tc_hash y \<or> tc_url x \<noteq> tc_url y \<longleftrightarrow> x \<noteq> y" for x y :: terms_and_conditions
    by auto
  obtain current where c: "no_fetch_system_parameters node (bl_hash b) (bl_height b) (bl_timestamp b)
        (pv_node_version (bl_protocol_version b)) = Inr current"
    using assms(1) by (auto simp: determine_system_parameters_change_def res_simps)
  note change = assms(1) [unfolded determine_system_parameters_change_def chain_storage_def c, simplified,
      unfolded assms(2) map_err_simps and_then_simps Let_def d t]
  show ?thesis
    using change [symmetric] c
    by (cases "spc_d_parameter current"; cases "spc_terms_and_conditions current"; cases stored_tc) simp_all
qed

lemma latest_parameters_after_save:
  assumes "determine_system_parameters_change (chain_storage feat) node b db = Inr change"
    and "no_fetch_system_parameters node (bl_hash b) (bl_height b) (bl_timestamp b)
      (pv_node_version (bl_protocol_version b)) = Inr current"
    and "save_block feat b txs regs key change db = (Inr mx, db')"
    and "above_all (as_i64 (bl_height b)) d_block_height (system_parameters_d db)"
    and "above_all (as_i64 (bl_height b)) tc_block_height (system_parameters_tc db)"
    and "\<And>tc. spc_terms_and_conditions current = Some tc \<Longrightarrow> length (tc_hash tc) = 32"
  shows "get_latest_d_parameter db' = (case spc_d_parameter current of None \<Rightarrow> get_latest_d_parameter db | Some d \<Rightarrow> Some d)
    \<and> get_latest_terms_and_conditions db'
      = (case spc_terms_and_conditions current of None \<Rightarrow> get_latest_terms_and_conditions db | Some tc \<Rightarrow> Inr (Some tc))
    \<and> is_ok (get_latest_terms_and_conditions db)"
proof -
  obtain stored_tc where tc: "get_latest_terms_and_conditions db = Inr stored_tc"
    using assms(1) by (auto simp: determine_system_parameters_change_def chain_storage_def res_simps)
  note change = determine_system_parameters_change_Inr [OF assms(1) tc]
  obtain db1 where s: "save_block_tx feat b txs regs key db = Inr (mx, db1)"
    and db': "db' = (case change of None \<Rightarrow> db1 | Some c \<Rightarrow> save_system_parameters_change c db1)"
    using assms(3) by (auto simp: save_block_def split: sum.splits prod.splits)
  have same: "system_parameters_d db1 = system_parameters_d db" "system_parameters_tc db1 = system_parameters_tc db"
    using save_block_tx_grows [OF s] by (simp_all add: grows_def)
  then have latest: "get_latest_d_parameter db1 = get_latest_d_parameter db"
      "get_latest_terms_and_conditions db1 = Inr stored_tc"
    using tc by (simp_all add: get_latest_d_parameter_def get_latest_terms_and_conditions_def)
  have "get_latest_d_parameter db' = (case spc_d_parameter current of None \<Rightarrow> get_latest_d_parameter db | Some d \<Rightarrow> Some d)
    \<and> get_latest_terms_and_conditions db'
      = (case spc_terms_and_conditions current of None \<Rightarrow> Inr stored_tc | Some tc \<Rightarrow> Inr (Some tc))"
  proof (cases change)
    case None
    then show ?thesis using change latest db' assms(2)
      by (auto simp: Let_def split: option.splits if_splits)
  next
    case (Some c)
    have c: "spc_block_height c = bl_height b"
      "spc_d_parameter c = (if spc_d_parameter current \<noteq> get_latest_d_parameter db then spc_d_parameter current else None)"
      "spc_terms_and_conditions c = (if spc_terms_and_conditions current \<noteq> stored_tc then spc_terms_and_conditions current else None)"
      using change Some assms(2) by (auto simp: Let_def split: if_splits)
    have "above_all (as_i64 (spc_block_height c)) d_block_height (system_parameters_d db1)"
        "above_all (as_i64 (spc_block_height c)) tc_block_height (system_parameters_tc db1)"
      using assms(4,5) by (simp_all add: c(1) same)
    moreover have "length (tc_hash tc) = 32" if "spc_terms_and_conditions c = Some tc" for tc
      using that assms(6) by (simp add: c(3) split: if_splits)
    ultimately have "get_latest_d_parameter db' = (case spc_d_parameter c of None \<Rightarrow> get_latest_d_parameter db | Some d \<Rightarrow> Some d)"
      and "get_latest_terms_and_conditions db'
        = (case spc_terms_and_conditions c of None \<Rightarrow> Inr stored_tc | Some tc \<Rightarrow> Inr (Some tc))"
      using get_latest_after_change [of c db1] latest Some db' by (simp_all split: option.splits)
    then show ?thesis by (auto simp: c split: option.splits)
  qed
  then show ?thesis using tc by (simp split: option.splits)
qed

lemma determine_unchanged:
  assumes "no_fetch_system_parameters node (bl_hash b) (bl_height b) (bl_timestamp b)
      (pv_node_version (bl_protocol_version b)) = Inr current"
    and "get_latest_terms_and_conditions db = Inr stored_tc"
    and "spc_d_parameter current \<in> {None, get_latest_d_parameter db}"
    and "spc_terms_and_conditions current \<in> {None, stored_tc}"
  shows "determine_system_parameters_change (chain_storage feat) node b db = Inr None"
  using assms
  by (auto simp: determine_system_parameters_change_def chain_storage_def Let_def split: option.splits)

section \<open>Announcing a block\<close>

lemma publish_all_recording:
  "publish_all (\<lambda>m q. Inr (q @ [m])) ms q = (Inr (), q @ ms)"
  by (induction ms arbitrary: q) auto

section \<open>A block indexed by the demonstration ledger\<close>

lemmas demo_defs = process_block_def demo_ledger_env_def demo_env_def demo_block_def block_try_from_def
  prepare_ledger_state_def apply_block_def complete_block_def validate_ledger_state_def
  apply_transactions_def apply_regular_transaction_def counting_ledger_def MEMPOOL_TBLOCK_BUMP_MILLIS_def
  demo_state_def demo_persist_def get_root_count_def determine_system_parameters_change_def
  chain_storage_def get_latest_d_parameter_def get_latest_terms_and_conditions_def order_by_desc_def
  first_row_def next_caught_up_iff block_messages_def affected_addresses_def

lemma demo_index:
  "\<exists>st'. index_block demo_env (demo_block 0 1 0) 0 demo_state = (Inr (2, nat_to_be 8 2), st')
     \<and> as_publisher st' = [BlockIndexed 0 (Some 1) False]"
  by (simp add: index_block_def demo_defs sample_defs Let_def)

section \<open>Properties\<close>

text \<open>
  C12. Whatever the node delivers, over any number of restarted streams, the blocks \<^verbatim>\<open>node_blocks\<close>
  yields follow each other by parent hash, starting at the highest block already stored (or at a block
  without a parent), and each of them was delivered by the node: no gap, no duplicate, no other block.
\<close>

theorem node_blocks_linked:
  "nb_linked (highest_hash_or_default highest) (oks (node_blocks finalized k n highest))
   \<and> set (oks (node_blocks finalized k n highest)) \<subseteq> {b. \<exists>j after. Inr b \<in> set (finalized j after)}"
  using node_blocks_linked_from node_blocks_delivered by (fastforce simp: set_oks)

text \<open>
  C14. The stream makes progress: when each call of the node's stream after a block of a chain starts
  with at least the next block of that chain, whatever unlinked block ends it, then \<open>n\<close> calls yield
  at least the first \<open>n\<close> blocks of the chain, in order.
\<close>

theorem node_blocks_progress:
  assumes "nb_linked (highest_hash_or_default highest) cs"
    and "\<And>k j. j < length cs \<Longrightarrow> \<exists>m junk. finalized k (ref_at highest cs j) = map Inr (take (Suc m) (drop j cs)) @ junk
      \<and> stops_at (tip nb_hash (highest_hash_or_default (ref_at highest cs j)) (take (Suc m) (drop j cs))) junk"
  shows "\<exists>zs. node_blocks finalized 0 n highest = map Inr (take n cs) @ zs"
  using node_blocks_progress_from [where k = 0 and n = n and j = 0, OF assms] by (simp add: ref_at_def)

definition lagging_node :: "nat \<Rightarrow> block_ref option \<Rightarrow> (unit + unit node_block) list" where
  "lagging_node k after =
     (if after = None then [Inr (demo_block 0 1 0)] else [Inr (demo_block 1 2 1), Inr (demo_block 0 1 0)])"

theorem node_blocks_progress_witness:
  "\<exists>zs. node_blocks lagging_node 0 2 None = map Inr [demo_block 0 1 0, demo_block 1 2 1] @ zs"
proof -
  let ?cs = "[demo_block 0 1 0, demo_block 1 2 1]"
  have l: "nb_linked (highest_hash_or_default None) ?cs"
    by (simp add: demo_block_def byte_array_default_def)
  have "\<exists>m junk. lagging_node k (ref_at None ?cs j) = map Inr (take (Suc m) (drop j ?cs)) @ junk
      \<and> stops_at (tip nb_hash (highest_hash_or_default (ref_at None ?cs j)) (take (Suc m) (drop j ?cs))) junk"
    if "j < length ?cs" for k j
  proof (cases j)
    case 0
    then show ?thesis
      by (intro exI [of _ 0] exI [of _ "[]"]) (simp add: lagging_node_def ref_at_def)
  next
    case (Suc i)
    then show ?thesis using that
      by (intro exI [of _ 0] exI [of _ "[Inr (demo_block 0 1 0)]"])
        (simp add: lagging_node_def ref_at_def demo_block_def)
  qed
  from node_blocks_progress [where n = 2, OF l this] show ?thesis by (simp add: numeral_2_eq_2)
qed

text \<open>
  Caught up means within the configured distance of the node's highest block, extended by the
  leeway while caught up, so the flag does not flicker: a block that makes it true would keep it true.
  As long as the node's height is unknown the flag is false. The sum of distance and leeway must fit
  its 32 bits.
\<close>

theorem caught_up_hysteresis:
  assumes "unat d + unat lw < 2 ^ 32" and "unat h + unat d + unat lw < 2 ^ 64 - 1"
  shows "(next_caught_up d lw (Some r) h c
      \<longleftrightarrow> unat (br_height r) \<le> unat h + unat d + (if c then unat lw else 0))
    \<and> (next_caught_up d lw highest h False \<longrightarrow> next_caught_up d lw highest h True)
    \<and> \<not> next_caught_up d lw None h c"
proof -
  have "unat (d + lw) = unat d + unat lw"
    using assms(1) by (simp add: unat_word_ariths)
  then show ?thesis using assms(2) by (auto simp: next_caught_up_iff)
qed

theorem caught_up_hysteresis_witness:
  "next_caught_up 10 5 (Some \<lparr>br_hash = [], br_height = 112\<rparr>) 100 True
   \<and> \<not> next_caught_up 10 5 (Some \<lparr>br_hash = [], br_height = 112\<rparr>) 100 False"
  using caught_up_hysteresis [of 10 5 100 "\<lparr>br_hash = [], br_height = 112\<rparr>"] by simp

text \<open>
  C11. Indexing a block is all or nothing for the database. Either it fails, with the database and the
  published messages as before; or the block, with the node's hash, height, parent and time, is saved
  together with its transactions, after the ledger state that resulted from it has been persisted and
  has been found to have the node's zswap root and, where the node gives one, the node's ledger state
  root. A block whose roots differ is never saved or announced.
\<close>

theorem index_block_all_or_nothing:
  assumes "index_block env nb l st = (r, st')" and "ae_storage env = chain_storage feat"
  shows "(\<not> is_ok r \<and> as_storage st' = as_storage st \<and> as_publisher st' = as_publisher st)
    \<or> (\<exists>b txs l0 l1 key change mx root.
          save_block feat b txs (bl_dust_registration_events b) key change (as_storage st) = (Inr mx, as_storage st')
        \<and> bl_hash b = nb_hash nb \<and> bl_height b = nb_height nb \<and> bl_parent_hash b = nb_parent_hash nb
        \<and> bl_timestamp b = nb_timestamp nb
        \<and> la_persist (ae_ledger env) l0 (as_ledger_db st) = Inr ((l1, key), as_ledger_db st')
        \<and> la_zswap_root (ae_ledger env) l0 = nb_zswap_merkle_tree_root nb
        \<and> la_root (ae_ledger env) l0 = Inr root \<and> nb_ledger_state_root nb \<in> {None, Some root}
        \<and> (is_ok r \<longrightarrow> r = Inr (l1, key)))"
  using assms(1)
proof (cases rule: index_block_cases)
  case (failed e)
  then have "as_storage st' = as_storage st"
    using assms(2) save_block_failed by (auto simp: chain_storage_def)
  then show ?thesis using failed by simp
next
  case (stored b txs l0 l1 key change mx)
  have "save_block feat b txs (bl_dust_registration_events b) key change (as_storage st) = (Inr mx, as_storage st')"
    using stored(4) assms(2) by (simp add: chain_storage_def)
  moreover have "is_ok r \<longrightarrow> r = Inr (l1, key)" using stored(7) by auto
  ultimately show ?thesis using process_block_Inr [OF stored(1)] stored(2) by blast
qed

theorem index_block_all_or_nothing_witness:
  "\<exists>st' b txs key change mx. index_block demo_env (demo_block 0 1 0) 0 demo_state = (Inr (2, nat_to_be 8 2), st')
     \<and> save_block Standalone b txs (bl_dust_registration_events b) key change empty_chain_db = (Inr mx, as_storage st')
     \<and> bl_hash b = replicate 32 1"
proof -
  obtain st' where run: "index_block demo_env (demo_block 0 1 0) 0 demo_state = (Inr (2, nat_to_be 8 2), st')"
    using demo_index by blast
  have env: "ae_storage demo_env = chain_storage Standalone" by (simp add: demo_env_def)
  have "nb_hash (demo_block 0 1 0) = replicate 32 1" "as_storage demo_state = empty_chain_db"
    by (simp_all add: demo_block_def demo_state_def)
  then show ?thesis using run index_block_all_or_nothing [OF run env] by fastforce
qed

text \<open>
  What a successfully indexed block announces, in order: the block with the caught-up flag, every
  address that owns a UTXO its transactions created or spent exactly once, and the block's bridge
  events in the node's order. Nothing is announced before the block is stored.
\<close>

theorem index_block_announces:
  assumes "index_block env nb l st = (Inr (l', key), st')"
    and "ae_publish env = (\<lambda>m q. Inr (q @ [m]))"
    and "\<And>A. finite A \<Longrightarrow> set (ae_hash_order env A) = A \<and> distinct (ae_hash_order env A)"
  shows "\<exists>b txs mx addrs.
      as_publisher st' = as_publisher st @ BlockIndexed (nb_height nb) mx (as_caught_up st')
        # map UnshieldedUtxoIndexed addrs @ map (BridgeEventIndexed (nb_height nb)) (nb_bridge_events nb)
    \<and> distinct addrs \<and> set addrs = set (affected_addresses txs)
    \<and> (\<exists>change. so_save_block (ae_storage env) b txs (bl_dust_registration_events b) key change (as_storage st)
          = (Inr mx, as_storage st'))"
  using assms(1)
proof (cases rule: index_block_cases)
  case (stored b txs l0 l1 key' change mx)
  have "as_publisher st' = as_publisher st @ block_messages (ae_hash_order env) b txs mx (as_caught_up st')"
    using stored(6) by (simp add: assms(2) publish_all_recording)
  moreover have "bl_height b = nb_height nb" "bl_bridge_events b = nb_bridge_events nb" "key' = key"
    using process_block_Inr [OF stored(1)] stored(7) by auto
  ultimately show ?thesis using stored(4) assms(3) [of "set (affected_addresses txs)"]
    by (auto simp: block_messages_def)
qed simp

theorem index_block_announces_witness:
  "\<exists>st'. index_block demo_env (demo_block 0 1 0) 0 demo_state = (Inr (2, nat_to_be 8 2), st')
     \<and> hd (as_publisher st') = BlockIndexed 0 (Some 1) False"
proof -
  obtain st' where run: "index_block demo_env (demo_block 0 1 0) 0 demo_state = (Inr (2, nat_to_be 8 2), st')"
    and q: "as_publisher st' = [BlockIndexed 0 (Some 1) False]"
    using demo_index by blast
  have "ae_publish demo_env = (\<lambda>m q. Inr (q @ [m]))"
    and "\<And>A. finite A \<Longrightarrow> set (ae_hash_order demo_env A) = A \<and> distinct (ae_hash_order demo_env A)"
    by (simp_all add: demo_env_def)
  from index_block_announces [OF run this] show ?thesis using run q by fastforce
qed

text \<open>
  A change of the system parameters is recorded exactly once: after a block is saved with the
  change determined for it, the latest stored parameters are those the node reported (a parameter the
  node does not report keeps its stored value), and asking again while the node reports the same
  values determines no change.
\<close>

theorem system_parameters_recorded_once:
  assumes "determine_system_parameters_change (chain_storage feat) node b db = Inr change"
    and "no_fetch_system_parameters node (bl_hash b) (bl_height b) (bl_timestamp b)
      (pv_node_version (bl_protocol_version b)) = Inr current"
    and "save_block feat b txs regs key change db = (Inr mx, db')"
    and "above_all (as_i64 (bl_height b)) d_block_height (system_parameters_d db)"
    and "above_all (as_i64 (bl_height b)) tc_block_height (system_parameters_tc db)"
    and "\<And>tc. spc_terms_and_conditions current = Some tc \<Longrightarrow> length (tc_hash tc) = 32"
    and "no_fetch_system_parameters node (bl_hash b') (bl_height b') (bl_timestamp b')
      (pv_node_version (bl_protocol_version b')) = Inr current'"
    and "spc_d_parameter current' = spc_d_parameter current"
    and "spc_terms_and_conditions current' = spc_terms_and_conditions current"
  shows "get_latest_d_parameter db' = (case spc_d_parameter current of None \<Rightarrow> get_latest_d_parameter db | Some d \<Rightarrow> Some d)
    \<and> get_latest_terms_and_conditions db'
      = (case spc_terms_and_conditions current of None \<Rightarrow> get_latest_terms_and_conditions db | Some tc \<Rightarrow> Inr (Some tc))
    \<and> determine_system_parameters_change (chain_storage feat) node b' db' = Inr None"
proof -
  note latest = latest_parameters_after_save [OF assms(1-6)]
  obtain tc where "get_latest_terms_and_conditions db' = Inr tc"
      "spc_terms_and_conditions current \<in> {None, tc}"
    using latest by (cases "get_latest_terms_and_conditions db") (auto split: option.splits)
  then have "determine_system_parameters_change (chain_storage feat) node b' db' = Inr None"
    using determine_unchanged [OF assms(7)] latest assms(8,9) by (auto split: option.splits)
  then show ?thesis using latest by blast
qed

definition sample_params :: "u16 \<Rightarrow> unit node_ops" where
  "sample_params n =
     \<lparr>no_fetch_genesis_ledger_state = Inr [],
      no_fetch_system_parameters = (\<lambda>hash height ts v. Inr \<lparr>spc_block_height = height, spc_block_hash = hash,
        spc_timestamp = ts, spc_d_parameter = Some \<lparr>num_permissioned_candidates = n, num_registered_candidates = 1\<rparr>,
        spc_terms_and_conditions = None\<rparr>)\<rparr>"

theorem system_parameters_recorded_once_witness:
  "\<exists>change db'. determine_system_parameters_change (chain_storage Standalone) (sample_params 7) (sample_block 1 0)
        empty_chain_db = Inr (Some change)
     \<and> save_block Standalone (sample_block 1 0) [] [] [77] (Some change) empty_chain_db = (Inr None, db')
     \<and> determine_system_parameters_change (chain_storage Standalone) (sample_params 7) (sample_block 2 1) db' = Inr None"
proof -
  let ?node = "sample_params 7" and ?b = "sample_block 1 0" and ?b' = "sample_block 2 1"
  obtain change where d: "determine_system_parameters_change (chain_storage Standalone) ?node ?b empty_chain_db
      = Inr (Some change)"
    by (simp add: determine_system_parameters_change_def sample_params_def chain_storage_def empty_chain_db_def
        empty_table_def get_latest_d_parameter_def get_latest_terms_and_conditions_def order_by_desc_def first_row_def)
  obtain db' where s: "save_block Standalone ?b [] [] [77] (Some change) empty_chain_db = (Inr None, db')"
    by (simp add: sample_defs Let_def)
  obtain current where c: "no_fetch_system_parameters ?node (bl_hash ?b) (bl_height ?b) (bl_timestamp ?b)
      (pv_node_version (bl_protocol_version ?b)) = Inr current"
      "spc_d_parameter current = Some \<lparr>num_permissioned_candidates = 7, num_registered_candidates = 1\<rparr>"
      "spc_terms_and_conditions current = None"
    by (simp add: sample_params_def)
  obtain current' where c': "no_fetch_system_parameters ?node (bl_hash ?b') (bl_height ?b') (bl_timestamp ?b')
      (pv_node_version (bl_protocol_version ?b')) = Inr current'"
      "spc_d_parameter current' = spc_d_parameter current"
      "spc_terms_and_conditions current' = spc_terms_and_conditions current"
    using c by (simp add: sample_params_def)
  have "above_all (as_i64 (bl_height ?b)) d_block_height (system_parameters_d empty_chain_db)"
      "above_all (as_i64 (bl_height ?b)) tc_block_height (system_parameters_tc empty_chain_db)"
    by (simp_all add: above_all_def empty_chain_db_def empty_table_def)
  from system_parameters_recorded_once [OF d c(1) s this _ c'] c(3) d s show ?thesis by auto
qed

end
