(* ===== verification/Stored_Chain.thy ===== *)
theory Stored_Chain
  imports Chain_App_Props
begin

text \<open>
  The chain of blocks in the database after any number of runs of the chain indexer, each of which
  starts up, indexes what the node delivers and stops anywhere: an inductive predicate of the states
  the database can be in, with the invariant that it holds one linked chain from genesis.
\<close>

section \<open>What the node promises\<close>

text \<open>
  Block hashes have 32 bytes and are not all zero, and \<open>height\<close> gives every block its height: a block
  without a parent is at height 0, any other one above its parent.
\<close>

definition node_block_ok :: "(bytes \<Rightarrow> nat) \<Rightarrow> 'r node_block \<Rightarrow> bool" where
  "node_block_ok height b \<longleftrightarrow>
     length (nb_hash b) = 32 \<and> nb_hash b \<noteq> byte_array_default 32
   \<and> unat (nb_height b) = height (nb_hash b) \<and> height (nb_hash b) < 2 ^ 63
   \<and> height (nb_hash b) = (if nb_parent_hash b = byte_array_default 32 then 0 else height (nb_parent_hash b) + 1)"

definition node_heights :: "(bytes \<Rightarrow> nat) \<Rightarrow> (nat \<Rightarrow> block_ref option \<Rightarrow> ('ne + 'r node_block) list) \<Rightarrow> bool" where
  "node_heights height finalized \<longleftrightarrow> (\<forall>k after b. Inr b \<in> set (finalized k after) \<longrightarrow> node_block_ok height b)"

section \<open>States of the database\<close>

inductive reachable_db ::
  "('l, 'e, 'c, 'p, 'r, 'g, chain_db, 'ne, 'q, 'pe) app_env set
     \<Rightarrow> ((bytes \<times> ledger_version) list \<Rightarrow> 'g \<Rightarrow> ('e + 'rep \<times> 'g) option)
     \<Rightarrow> (bytes \<Rightarrow> nat) \<Rightarrow> feature \<Rightarrow> chain_db \<Rightarrow> bool"
  for envs repair height feat where
  migrated: "reachable_db envs repair height feat empty_chain_db"
| run: "reachable_db envs repair height feat db \<Longrightarrow>
    (\<And>k. env_at k \<in> envs \<and> ae_storage (env_at k) = chain_storage feat) \<Longrightarrow>
    node_heights height finalized \<Longrightarrow>
    run_startup (ae_ledger (env_at 0)) (chain_storage feat) root_hash repair persisted_roots retention db g
      = Some (Inr (su, g')) \<Longrightarrow>
    index_blocks env_at 0 retention gc_enabled
      (take m (node_blocks finalized 0 n (su_highest_block_ref su)))
      (su_ledger_state su, su_window su)
      \<lparr>as_caught_up = False, as_parent_block_timestamp = su_parent_block_timestamp su, as_storage = db,
       as_ledger_db = g', as_publisher = q\<rparr> = (r, st') \<Longrightarrow>
    reachable_db envs repair height feat (as_storage st')"

section \<open>The invariant\<close>

abbreviation block_rows :: "chain_db \<Rightarrow> block_row list" where
  "block_rows db \<equiv> map snd (tab_rows (blocks db))"

definition chain_inv :: "(bytes \<Rightarrow> nat) \<Rightarrow> chain_db \<Rightarrow> bool" where
  "chain_inv height db \<longleftrightarrow> db_ok db
     \<and> linked b_hash b_parent_hash (byte_array_default 32) (block_rows db)
     \<and> list_all (\<lambda>r. length (b_hash r) = 32 \<and> b_hash r \<noteq> byte_array_default 32) (block_rows db)
     \<and> map (\<lambda>r. height (b_hash r)) (block_rows db) = [0..<length (block_rows db)]
     \<and> map b_height (block_rows db) = map int [0..<length (block_rows db)]"

abbreviation chain_tip :: "chain_db \<Rightarrow> bytes" where
  "chain_tip db \<equiv> tip b_hash (byte_array_default 32) (block_rows db)"

lemma chain_inv_empty: "chain_inv height empty_chain_db"
  using db_ok_empty by (simp add: chain_inv_def empty_chain_db_def empty_table_def)

lemma chain_inv_save:
  assumes inv: "chain_inv height db"
    and s: "save_block feat b txs regs key change db = (Inr mx, db')"
    and b: "bl_hash b = nb_hash nb" "bl_height b = nb_height nb" "bl_parent_hash b = nb_parent_hash nb"
    and nb: "nb_parent_hash nb = chain_tip db" "node_block_ok height nb"
  shows "chain_inv height db' \<and> chain_tip db' = bl_hash b"
proof -
  let ?n = "length (block_rows db)"
  note h = nb(2) [unfolded node_block_ok_def, folded b]
  have rows: "block_rows db' = block_rows db @ [block_row_of b key]" and ok: "db_ok db'"
    using save_block_Inr [OF s] inv by (simp_all add: chain_inv_def insert_row_simps)
  have hs: "map (\<lambda>r. height (b_hash r)) (block_rows db) = [0..<?n]"
    using inv by (simp add: chain_inv_def)
  have "height (bl_hash b) = ?n"
  proof (cases "block_rows db" rule: rev_cases)
    case Nil
    then show ?thesis using b(3) nb(1) h by simp
  next
    case (snoc rs r)
    then have "bl_parent_hash b = b_hash r" "b_hash r \<noteq> byte_array_default 32"
      using b(3) nb(1) inv by (simp_all add: chain_inv_def tip_def)
    moreover have "height (b_hash r) = length rs"
      using hs by (simp add: snoc)
    ultimately show ?thesis using h by (simp add: snoc)
  qed
  moreover have "as_i64 (bl_height b) = int (height (bl_hash b))"
    using as_i64_nonneg [of "bl_height b"] h by simp
  ultimately show ?thesis using inv ok h nb(1) b(3)
    by (simp add: chain_inv_def rows block_row_of_def linked_append)
qed

lemma chain_inv_index_block:
  assumes "chain_inv height (as_storage st)" and "index_block env nb l st = (r, st')"
    and "ae_storage env = chain_storage feat" and "nb_parent_hash nb = chain_tip (as_storage st)"
    and "node_block_ok height nb"
  shows "chain_inv height (as_storage st') \<and> (is_ok r \<longrightarrow> chain_tip (as_storage st') = nb_hash nb)"
  using assms(2)
proof (cases rule: index_block_cases)
  case (failed e)
  then have "as_storage st' = as_storage st"
    using assms(3) save_block_failed by (auto simp: chain_storage_def)
  then show ?thesis using failed assms(1) by simp
next
  case (stored b txs l0 l1 key change mx)
  have "save_block feat b txs (bl_dust_registration_events b) key change (as_storage st) = (Inr mx, as_storage st')"
    using stored(4) assms(3) by (simp add: chain_storage_def)
  then show ?thesis
    using chain_inv_save [OF assms(1) _ _ _ _ assms(4,5)] process_block_Inr [OF stored(1)] by metis
qed

lemma index_iteration_storage:
  assumes "index_iteration env retention gc_enabled (Inr nb) (l, window) st = (r, st')"
  obtains r1 st1 where "index_block env nb l st = (r1, st1)" "as_storage st' = as_storage st1" "is_ok r \<Longrightarrow> is_ok r1"
  using assms by (fastforce simp: index_iteration_def split: prod.splits sum.splits)

lemma chain_inv_index_blocks:
  assumes env: "\<And>k. ae_storage (env_at k) = chain_storage feat"
    and good: "\<And>b. b \<in> set (oks items) \<Longrightarrow> node_block_ok height b"
    and "chain_inv height (as_storage st)" and "nb_linked (chain_tip (as_storage st)) (oks items)"
    and "index_blocks env_at k retention gc_enabled items lw st = (r, st')"
  shows "chain_inv height (as_storage st')"
  using assms(2-)
proof (induction items arbitrary: k lw st)
  case (Cons item items)
  obtain l window where lw: "lw = (l, window)" by (cases lw)
  obtain r1 st1 where it: "index_iteration (env_at k) retention gc_enabled item (l, window) st = (r1, st1)"
    by (cases "index_iteration (env_at k) retention gc_enabled item (l, window) st")
  show ?case
  proof (cases item)
    case (Inl e)
    then show ?thesis using Cons.prems(2,4) by (auto simp: lw index_iteration_def)
  next
    case (Inr nb)
    obtain r2 st2 where ib: "index_block (env_at k) nb l st = (r2, st2)" "as_storage st1 = as_storage st2"
        "is_ok r1 \<Longrightarrow> is_ok r2"
      using index_iteration_storage it Inr by metis
    have inv: "chain_inv height (as_storage st1) \<and> (is_ok r2 \<longrightarrow> chain_tip (as_storage st1) = nb_hash nb)"
      using chain_inv_index_block [OF Cons.prems(2) ib(1) env] Cons.prems(1) [of nb] Cons.prems(3) ib(2) Inr by simp
    show ?thesis
    proof (cases r1)
      case (Inl e)
      then show ?thesis using Cons.prems(4) it inv by (simp add: lw)
    next
      case r1: (Inr lw1)
      have "nb_linked (chain_tip (as_storage st1)) (oks items)"
        using inv ib(3) r1 Cons.prems(3) Inr by simp
      moreover have "index_blocks env_at (Suc k) retention gc_enabled items lw1 st1 = (r, st')"
        using Cons.prems(4) it r1 by (simp add: lw)
      ultimately show ?thesis
        using Cons.IH [of st1 "Suc k" lw1] Cons.prems(1) inv Inr by simp
    qed
  qed
qed simp

text \<open>Startup finds the tip of the stored chain.\<close>

lemma blocks_desc_rev:
  assumes "map b_height rows = map int [0..<length rows]"
  shows "order_by_desc b_height rows = rev rows"
  using assms
proof (induction rows rule: rev_induct)
  case (snoc r rows)
  then have h: "map b_height rows = map int [0..<length rows]" "b_height r = int (length rows)" by simp_all
  have "b_height y < b_height r" if "y \<in> set rows" for y
  proof -
    have "b_height y \<in> set (map int [0..<length rows])"
      using that h(1) by (metis image_eqI list.set_map)
    then show ?thesis by (auto simp: h(2))
  qed
  then have "order_by_desc b_height (rows @ [r]) = r # order_by_desc b_height rows"
    by (rule order_by_desc_snoc)
  then show ?case using snoc.IH h(1) by simp
qed (simp add: order_by_desc_def)

lemma highest_hash_stored:
  assumes "chain_inv height db" and "get_highest_block db = Inr hb"
  shows "highest_hash_or_default (map_option fst hb) = chain_tip db"
proof -
  have "blocks_desc db = rev (block_rows db)"
    using assms(1) blocks_desc_rev [of "block_rows db"] unfolding blocks_desc_def chain_inv_def by blast
  then show ?thesis using assms(2)
    by (cases "block_rows db" rule: rev_cases)
      (auto simp: get_highest_block_def first_row_def tip_def res_simps byte_array_try_from_def
        highest_hash_or_default_def split: if_splits)
qed

lemma run_startup_highest:
  assumes "run_startup le (chain_storage feat) root_hash repair persisted_roots retention db g = Some (Inr (su, g'))"
  shows "\<exists>hb. get_highest_block db = Inr hb \<and> su_highest_block_ref su = map_option fst hb"
  using assms
  by (auto simp: run_startup_def chain_storage_def res_simps Let_def split: sum.splits option.splits prod.splits)

lemma reachable_chain_inv: "reachable_db envs repair height feat db \<Longrightarrow> chain_inv height db"
proof (induction rule: reachable_db.induct)
  case migrated
  show ?case by (rule chain_inv_empty)
next
  case (run db env_at finalized root_hash persisted_roots retention g su g' gc_enabled m n q r st')
  let ?items = "node_blocks finalized 0 n (su_highest_block_ref su)"
  obtain hb where hb: "get_highest_block db = Inr hb" "su_highest_block_ref su = map_option fst hb"
    using run_startup_highest [OF run.hyps(4)] by blast
  have split: "?items = take m ?items @ drop m ?items" by simp
  have "nb_linked (chain_tip db) (oks ?items)"
    using node_blocks_linked_from [of "su_highest_block_ref su"] highest_hash_stored [OF run.IH hb(1)] hb(2) by simp
  then have "nb_linked (chain_tip db) (oks (take m ?items))"
    using linked_append oks_simps(4) by (metis split)
  moreover have "\<exists>k after. Inr b \<in> set (finalized k after)" if "b \<in> set (oks (take m ?items))" for b
    using that node_blocks_delivered by (metis set_oks in_set_takeD)
  ultimately show ?case
    using chain_inv_index_blocks [OF _ _ _ _ run.hyps(5), of feat height] run.IH run.hyps(2,3)
    unfolding node_heights_def by (metis app_state.select_convs(3))
qed

section \<open>Property\<close>

text \<open>
  C1. However often the chain indexer is started, stopped or fails, at any block, with the node's
  stream in any disorder, the database is well formed and its blocks are one chain from genesis: the
  first block has no parent, every other block's parent is the block stored before it, and the heights
  are 0, 1, 2 and so on without a gap; the highest block read at the next startup is the last of them.
\<close>

theorem stored_blocks_are_a_chain:
  assumes "reachable_db envs repair height feat db"
  shows "db_ok db \<and> linked b_hash b_parent_hash (byte_array_default 32) (block_rows db)
    \<and> map b_height (block_rows db) = map int [0..<length (block_rows db)]
    \<and> (\<forall>hb. get_highest_block db = Inr hb \<longrightarrow> highest_hash_or_default (map_option fst hb) = chain_tip db)"
proof -
  have inv: "chain_inv height db" by (rule reachable_chain_inv [OF assms])
  then show ?thesis using highest_hash_stored by (simp add: chain_inv_def)
qed

definition demo_height :: "bytes \<Rightarrow> nat" where
  "demo_height hash = 0"

text \<open>A run that indexes one block of the demonstration node.\<close>

lemma demo_reachable:
  "\<exists>st'. index_block demo_env (demo_block 0 1 0) 0 demo_state = (Inr (2, nat_to_be 8 2), st')
     \<and> reachable_db {demo_env} (repair_root_counts (ledger_backend (\<lambda>_. [])) (\<lambda>key _. Inr key))
         demo_height Standalone (as_storage st')"
proof -
  obtain st' where ib: "index_block demo_env (demo_block 0 1 0) 0 demo_state = (Inr (2, nat_to_be 8 2), st')"
    using demo_index by blast
  let ?finalized = "\<lambda>(k :: nat) (after :: block_ref option). [Inr (demo_block 0 1 0)] :: (unit + unit node_block) list"
  have env: "\<And>k :: nat. demo_env \<in> {demo_env} \<and> ae_storage demo_env = chain_storage Standalone"
    by (simp add: demo_env_def)
  have heights: "node_heights demo_height ?finalized"
    by (simp add: node_heights_def node_block_ok_def demo_height_def demo_block_def byte_array_default_def
        replicate_eq_replicate)
  have le: "ae_ledger demo_env = demo_ledger_env" by (simp add: demo_env_def)
  have blocks: "take 1 (node_blocks ?finalized 0 1 (su_highest_block_ref demo_startup)) = [Inr (demo_block 0 1 0)]"
    by (simp add: demo_startup_def demo_block_def byte_array_default_def)
  have st: "\<lparr>as_caught_up = False, as_parent_block_timestamp = su_parent_block_timestamp demo_startup,
      as_storage = empty_chain_db, as_ledger_db = as_ledger_db demo_state, as_publisher = []\<rparr> = demo_state"
    by (simp add: demo_startup_def demo_state_def)
  obtain r st2 where run: "index_blocks (\<lambda>_. demo_env) 0 1 True [Inr (demo_block 0 1 0)]
      (su_ledger_state demo_startup, su_window demo_startup) demo_state = (r, st2)"
    and same: "as_storage st2 = as_storage st'"
    using ib by (fastforce simp: index_iteration_def demo_startup_def split: prod.splits sum.splits)
  from reachable_db.run [where env_at = "\<lambda>_. demo_env" and m = 1 and n = 1 and q = "[]" and retention = 1
      and gc_enabled = True, OF reachable_db.migrated env heights demo_startup_run [folded le], unfolded blocks st, OF run]
  show ?thesis using ib same by auto
qed

theorem stored_blocks_are_a_chain_witness:
  "\<exists>st'. index_block demo_env (demo_block 0 1 0) 0 demo_state = (Inr (2, nat_to_be 8 2), st')
     \<and> linked b_hash b_parent_hash (byte_array_default 32) (block_rows (as_storage st'))"
  using demo_reachable stored_blocks_are_a_chain by blast

end
