(* ===== verification/Ledger_Transaction.thy ===== *)
theory Ledger_Transaction
  imports Common_Domain
begin

text \<open>
  Ledger transactions as the indexers look at them,
  \<^verbatim>\<open>indexer-common/src/domain/ledger/transaction.rs\<close>, and viewing keys,
  \<^verbatim>\<open>indexer-common/src/domain/viewing_key.rs\<close>. The transaction types of the ledger crates are
  given by the parts the code reads; decryption, serialization and the cipher are arguments.
\<close>

section \<open>Transactions of the ledger\<close>

text \<open>
  An offer's outputs and transients with their optional ciphertexts; contract actions with an address
  \<open>'a\<close>; \<^verbatim>\<open>guaranteed_coins\<close>, \<^verbatim>\<open>fallible_coins\<close> by segment and \<^verbatim>\<open>actions()\<close> of a standard transaction.
\<close>

record 'ct offer =
  of_outputs :: "'ct option list"
  of_transient :: "'ct option list"

datatype 'a action = DeployAction 'a | CallAction 'a bytes | MaintainAction 'a

datatype ('ct, 'a) ledger_tx =
    Standard "'ct offer option" "(u16 \<times> 'ct offer) list" "(u16 \<times> 'a action) list"
  | ClaimRewards

datatype ('ct, 'a) versioned_tx = TxV8 "('ct, 'a) ledger_tx" | TxV9 "('ct, 'a) ledger_tx"

definition deserialize ::
  "(bytes \<Rightarrow> 'e + ('ct, 'a) ledger_tx) \<Rightarrow> (bytes \<Rightarrow> 'e + ('ct, 'a) ledger_tx) \<Rightarrow> bytes \<Rightarrow> ledger_version
     \<Rightarrow> 'e + ('ct, 'a) versioned_tx" where
  "deserialize tagged_v8 tagged_v9 raw version =
     (case version of
        LV8 \<Rightarrow> map_ok TxV8 (tagged_v8 raw)
      | LV9 \<Rightarrow> map_ok TxV9 (tagged_v9 raw))"

section \<open>Relevance for a viewing key\<close>

fun filter_some :: "'a option list \<Rightarrow> 'a list" where
  "filter_some [] = []"
| "filter_some (None # xs) = filter_some xs"
| "filter_some (Some x # xs) = x # filter_some xs"

text \<open>\<^verbatim>\<open>can_decrypt_v8\<close> and \<^verbatim>\<open>can_decrypt_v9\<close>, \<open>decrypts\<close> being \<^verbatim>\<open>key.decrypt(..).is_some()\<close>.\<close>

definition can_decrypt :: "('ct \<Rightarrow> bool) \<Rightarrow> 'ct offer \<Rightarrow> bool" where
  "can_decrypt decrypts offer =
     list_ex decrypts (filter_some (of_outputs offer) @ filter_some (of_transient offer))"

fun ledger_tx_relevant :: "('ct \<Rightarrow> bool) \<Rightarrow> ('ct, 'a) ledger_tx \<Rightarrow> bool" where
  "ledger_tx_relevant decrypts (Standard guaranteed_coins fallible_coins _) \<longleftrightarrow>
     (case guaranteed_coins of None \<Rightarrow> False | Some offer \<Rightarrow> can_decrypt decrypts offer)
     \<or> list_ex (\<lambda>(_, offer). can_decrypt decrypts offer) fallible_coins"
| "ledger_tx_relevant decrypts ClaimRewards \<longleftrightarrow> False"

text \<open>\<^verbatim>\<open>Transaction::relevant\<close>; the two versions have their own secret keys and decryption.\<close>

fun relevant :: "(bytes \<Rightarrow> 'ct \<Rightarrow> bool) \<Rightarrow> (bytes \<Rightarrow> 'ct \<Rightarrow> bool) \<Rightarrow> ('ct, 'a) versioned_tx \<Rightarrow> bytes \<Rightarrow> bool" where
  "relevant decrypt_v8 decrypt_v9 (TxV8 t) viewing_key = ledger_tx_relevant (decrypt_v8 viewing_key) t"
| "relevant decrypt_v8 decrypt_v9 (TxV9 t) viewing_key = ledger_tx_relevant (decrypt_v9 viewing_key) t"

section \<open>Contract actions\<close>

text \<open>
  \<^verbatim>\<open>String::from_utf8\<close> on the entry point: well-formed UTF-8 in the sense of the Unicode standard, table
  3-7; the string is kept as its bytes.
\<close>

definition cont :: "u8 \<Rightarrow> bool" where
  "cont b \<longleftrightarrow> 128 \<le> b \<and> b \<le> 191"

function utf8_valid :: "bytes \<Rightarrow> bool" where
  "utf8_valid [] \<longleftrightarrow> True"
| "utf8_valid (b # bs) \<longleftrightarrow>
     (if b < 128 then utf8_valid bs
      else if 194 \<le> b \<and> b \<le> 223 then
        (case bs of c # bs' \<Rightarrow> cont c \<and> utf8_valid bs' | _ \<Rightarrow> False)
      else if 224 \<le> b \<and> b \<le> 239 then
        (case bs of c # d # bs' \<Rightarrow>
           cont c \<and> (b = 224 \<longrightarrow> 160 \<le> c) \<and> (b = 237 \<longrightarrow> c \<le> 159) \<and> cont d \<and> utf8_valid bs'
         | _ \<Rightarrow> False)
      else if 240 \<le> b \<and> b \<le> 244 then
        (case bs of c # d # e # bs' \<Rightarrow>
           cont c \<and> (b = 240 \<longrightarrow> 144 \<le> c) \<and> (b = 244 \<longrightarrow> c \<le> 143) \<and> cont d \<and> cont e \<and> utf8_valid bs'
         | _ \<Rightarrow> False)
      else False)"
  by pat_completeness auto
termination by (relation "measure length") auto

datatype 'e ledger_error = SerializeError 'e | GetContractState bytes 'e | FromUtf8

record contract_action_data =
  cad_address :: bytes
  cad_state :: bytes
  cad_attributes :: contract_attributes

definition from_utf8 :: "bytes \<Rightarrow> 'e ledger_error + bytes" where
  "from_utf8 bs = (if utf8_valid bs then Inr bs else Inl FromUtf8)"

text \<open>The closure of \<^verbatim>\<open>contract_actions\<close>: the address is serialized and the state fetched first.\<close>

definition contract_action_of ::
  "('a \<Rightarrow> 'e + bytes) \<Rightarrow> (bytes \<Rightarrow> 'e + bytes) \<Rightarrow> 'a action \<Rightarrow> 'e ledger_error + contract_action_data" where
  "contract_action_of serialize_address get_contract_state action =
     (let with_state = (\<lambda>addr k.
            and_then (map_err SerializeError (serialize_address addr)) (\<lambda>address.
            and_then (map_err (GetContractState address) (get_contract_state address)) (\<lambda>state.
            map_ok (\<lambda>attributes. \<lparr>cad_address = address, cad_state = state, cad_attributes = attributes\<rparr>) k)))
      in case action of
           DeployAction addr \<Rightarrow> with_state addr (Inr Deploy)
         | CallAction addr entry_point \<Rightarrow> with_state addr (map_ok Call (from_utf8 entry_point))
         | MaintainAction addr \<Rightarrow> with_state addr (Inr Update))"

fun ledger_tx_contract_actions ::
  "('a \<Rightarrow> 'e + bytes) \<Rightarrow> (bytes \<Rightarrow> 'e + bytes) \<Rightarrow> ('ct, 'a) ledger_tx
     \<Rightarrow> 'e ledger_error + contract_action_data list" where
  "ledger_tx_contract_actions serialize_address get_contract_state (Standard _ _ actions) =
     try_map (\<lambda>(_, action). contract_action_of serialize_address get_contract_state action) actions"
| "ledger_tx_contract_actions serialize_address get_contract_state ClaimRewards = Inr []"

text \<open>\<^verbatim>\<open>Transaction::contract_actions\<close>, with the address serialization of each version.\<close>

fun contract_actions_of ::
  "('a \<Rightarrow> 'e + bytes) \<Rightarrow> ('a \<Rightarrow> 'e + bytes) \<Rightarrow> (bytes \<Rightarrow> 'e + bytes) \<Rightarrow> ('ct, 'a) versioned_tx
     \<Rightarrow> 'e ledger_error + contract_action_data list" where
  "contract_actions_of ser_v8 ser_v9 get_contract_state (TxV8 t) =
     ledger_tx_contract_actions ser_v8 get_contract_state t"
| "contract_actions_of ser_v8 ser_v9 get_contract_state (TxV9 t) =
     ledger_tx_contract_actions ser_v9 get_contract_state t"

section \<open>Viewing keys\<close>

text \<open>
  \<open>seal nonce msg aad\<close> and \<open>unseal nonce ciphertext aad\<close> are the cipher's \<^verbatim>\<open>encrypt\<close> and \<^verbatim>\<open>decrypt\<close>. Slicing
  \<^verbatim>\<open>[0..12]\<close> of a shorter value panics.
\<close>

datatype 'e decrypt_error = CipherError 'e | ViewingKeyLen nat | DecryptPanic

definition VIEWING_KEY_LEN :: nat where
  "VIEWING_KEY_LEN = 32"

definition encrypt ::
  "(bytes \<Rightarrow> bytes \<Rightarrow> bytes \<Rightarrow> 'e + bytes) \<Rightarrow> bytes \<Rightarrow> bytes \<Rightarrow> bytes \<Rightarrow> 'e + bytes" where
  "encrypt seal nonce viewing_key wallet_id =
     map_ok (\<lambda>ciphertext. nonce @ ciphertext) (seal nonce viewing_key wallet_id)"

definition decrypt ::
  "(bytes \<Rightarrow> bytes \<Rightarrow> bytes \<Rightarrow> 'e + bytes) \<Rightarrow> bytes \<Rightarrow> bytes \<Rightarrow> 'e decrypt_error + bytes" where
  "decrypt unseal nonce_and_ciphertext wallet_id =
     (if length nonce_and_ciphertext < 12 then Inl DecryptPanic
      else let nonce = take 12 nonce_and_ciphertext; ciphertext = drop 12 nonce_and_ciphertext in
        and_then (map_err CipherError (unseal nonce ciphertext wallet_id)) (\<lambda>bytes.
          if length bytes = VIEWING_KEY_LEN then Inr bytes else Inl (ViewingKeyLen (length bytes))))"

section \<open>Lemmas and properties\<close>

lemma set_filter_some [simp]: "set (filter_some xs) = {x. Some x \<in> set xs}"
  by (induction xs rule: filter_some.induct) auto

text \<open>The ciphertexts a transaction carries.\<close>

fun tx_offers :: "('ct, 'a) ledger_tx \<Rightarrow> 'ct offer set" where
  "tx_offers (Standard g fs _) = set_option g \<union> snd ` set fs"
| "tx_offers ClaimRewards = {}"

definition tx_ciphertexts :: "('ct, 'a) ledger_tx \<Rightarrow> 'ct set" where
  "tx_ciphertexts t = {c. \<exists>offer \<in> tx_offers t. Some c \<in> set (of_outputs offer) \<union> set (of_transient offer)}"

lemma ledger_tx_relevant_iff: "ledger_tx_relevant decrypts t \<longleftrightarrow> (\<exists>c \<in> tx_ciphertexts t. decrypts c)"
proof (cases t)
  case (Standard g fs acts)
  have "can_decrypt decrypts offer \<longleftrightarrow> (\<exists>c. Some c \<in> set (of_outputs offer) \<union> set (of_transient offer) \<and> decrypts c)"
    for offer by (auto simp: can_decrypt_def list_ex_iff)
  then show ?thesis using Standard
    by (fastforce simp: tx_ciphertexts_def list_ex_iff split: option.splits)
qed (simp add: tx_ciphertexts_def)

text \<open>
  A transaction is relevant for a viewing key exactly when the key decrypts the ciphertext of one
  of its outputs or transients, in the guaranteed or in any fallible offer, with the decryption of the
  transaction's ledger version; reward claims are never relevant.
\<close>

theorem relevant_iff_decryptable:
  "relevant decrypt_v8 decrypt_v9 (TxV8 t) vk = (\<exists>c \<in> tx_ciphertexts t. decrypt_v8 vk c)
   \<and> relevant decrypt_v8 decrypt_v9 (TxV9 t) vk = (\<exists>c \<in> tx_ciphertexts t. decrypt_v9 vk c)"
  by (simp add: ledger_tx_relevant_iff)

text \<open>
  A viewing key encrypted for a wallet decrypts to itself for that wallet, for every cipher that
  undoes its own encryption and every nonce of 12 bytes.
\<close>

theorem viewing_key_roundtrip:
  assumes "\<And>nonce msg aad ct. seal nonce msg aad = Inr ct \<Longrightarrow> unseal nonce ct aad = Inr msg"
    and "length nonce = 12" and "length vk = VIEWING_KEY_LEN"
    and "encrypt seal nonce vk wallet_id = Inr stored"
  shows "decrypt unseal stored wallet_id = Inr vk"
proof -
  obtain ct where "seal nonce vk wallet_id = Inr ct" "stored = nonce @ ct"
    using assms(4) by (auto simp: encrypt_def res_simps)
  then show ?thesis using assms(1-3) by (simp add: decrypt_def)
qed

definition rev_seal :: "bytes \<Rightarrow> bytes \<Rightarrow> bytes \<Rightarrow> unit + bytes" where
  "rev_seal nonce msg aad = Inr (rev msg @ aad)"

definition rev_unseal :: "bytes \<Rightarrow> bytes \<Rightarrow> bytes \<Rightarrow> unit + bytes" where
  "rev_unseal nonce ct aad =
     (if aad = drop (length ct - length aad) ct then Inr (rev (take (length ct - length aad) ct)) else Inl ())"

theorem viewing_key_roundtrip_witness:
  "decrypt rev_unseal (replicate 12 0 @ replicate 32 7 @ [1, 2]) [1, 2] = Inr (replicate 32 7)"
proof -
  have law: "rev_unseal nonce ct aad = Inr msg" if "rev_seal nonce msg aad = Inr ct" for nonce msg aad ct
    using that by (auto simp: rev_seal_def rev_unseal_def)
  have "encrypt rev_seal (replicate 12 0) (replicate 32 7) [1, 2] = Inr (replicate 12 0 @ replicate 32 7 @ [1, 2])"
    by (simp add: encrypt_def rev_seal_def)
  from viewing_key_roundtrip [OF law _ _ this] show ?thesis by (simp add: VIEWING_KEY_LEN_def)
qed

end
