(* ===== verification/Wallet_Indexer.thy ===== *)
theory Wallet_Indexer
  imports Chain_Schema Chain_Storage Ledger_Transaction
begin

text \<open>
  The wallet indexer: its domain (\<^verbatim>\<open>wallet-indexer/src/domain.rs\<close>), its storage
  (\<^verbatim>\<open>wallet-indexer/src/infra/storage.rs\<close>), the wallet part of the API's storage
  (\<^verbatim>\<open>indexer-api/src/infra/storage/wallet.rs\<close>), which creates the rows it works on, and indexing of
  one wallet (\<^verbatim>\<open>wallet-indexer/src/application.rs\<close>). Times are integers; new ids, session ids, nonces and the
  current time are arguments.
\<close>

section \<open>Tables\<close>

record wallet_row =
  w_id :: bytes
  w_viewing_key_hash :: bytes
  w_viewing_key :: bytes
  w_wanted_start_index :: i64
  w_first_indexed :: i64
  w_last_indexed :: i64
  w_last_active :: int
  w_session_id :: "bytes option"

record relevant_row =
  rv_wallet_id :: bytes
  rv_transaction_id :: i64

record wallet_db =
  wallets :: "wallet_row list"
  relevant_transactions :: "relevant_row table"

definition empty_wallet_db :: wallet_db where
  "empty_wallet_db = \<lparr>wallets = [], relevant_transactions = empty_table\<rparr>"

definition relevant_key :: "relevant_row \<Rightarrow> bytes \<times> i64" where
  "relevant_key r = (rv_wallet_id r, rv_transaction_id r)"

section \<open>Domain\<close>

record wallet =
  wa_viewing_key :: bytes
  wa_wanted_start_index :: u64
  wa_first_indexed_transaction_id :: u64
  wa_last_indexed_transaction_id :: u64

record wallet_transaction =
  wt_id :: u64
  wt_protocol_version :: protocol_version
  wt_raw :: bytes

text \<open>
  What the indexer is given: \<^verbatim>\<open>Sha256\<close> of a viewing key, its encryption for and decryption with a wallet id,
  the deserialization of ledger transactions and the two decryptions of the ledger.
\<close>

record ('e, 'ct, 'a, 'd) wallet_env =
  we_hash :: "bytes \<Rightarrow> bytes"
  we_encrypt :: "bytes \<Rightarrow> bytes \<Rightarrow> 'd + bytes"
  we_decrypt :: "bytes \<Rightarrow> bytes \<Rightarrow> 'd + bytes"
  we_deserialize :: "bytes \<Rightarrow> ledger_version \<Rightarrow> 'e + ('ct, 'a) versioned_tx"
  we_decrypt_v8 :: "bytes \<Rightarrow> 'ct \<Rightarrow> bool"
  we_decrypt_v9 :: "bytes \<Rightarrow> 'ct \<Rightarrow> bool"

definition wallet_transaction_relevant ::
  "('e, 'ct, 'a, 'd) wallet_env \<Rightarrow> wallet_transaction \<Rightarrow> wallet \<Rightarrow> 'e + bool" where
  "wallet_transaction_relevant env t w =
     map_ok (\<lambda>tx. relevant (we_decrypt_v8 env) (we_decrypt_v9 env) tx (wa_viewing_key w))
       (we_deserialize env (wt_raw t) (pv_ledger_version (wt_protocol_version t)))"

section \<open>The wallet indexer's storage\<close>

definition wallet_transaction_from_row :: "i64 \<times> transaction_row \<Rightarrow> sqlx_error + wallet_transaction" where
  "wallet_transaction_from_row = (\<lambda>(i, r).
     case u64_try_from i of
       None \<Rightarrow> Inl Decode
     | Some tid \<Rightarrow>
         map_ok (\<lambda>v. \<lparr>wt_id = tid, wt_protocol_version = v, wt_raw = t_raw r\<rparr>)
           (map_err (\<lambda>_. Decode) (try_from_i64 (t_protocol_version r))))"

text \<open>
  The two queries for regular transactions. A batch size is positive and below \<^verbatim>\<open>i32::MAX\<close>, so
  that \<^verbatim>\<open>LIMIT\<close> takes that many rows.
\<close>

definition get_transactions :: "u64 \<Rightarrow> nat \<Rightarrow> chain_db \<Rightarrow> sqlx_error + wallet_transaction list" where
  "get_transactions from limit db =
     try_map wallet_transaction_from_row
       (take limit (sort_key fst (select_where (\<lambda>(i, r). as_i64 from \<le> i \<and> t_variant r = RegularVariant)
          (transactions db))))"

definition get_transactions_in_range ::
  "u64 \<Rightarrow> u64 \<Rightarrow> nat \<Rightarrow> chain_db \<Rightarrow> sqlx_error + wallet_transaction list" where
  "get_transactions_in_range from to limit db =
     try_map wallet_transaction_from_row
       (take limit (order_by_desc fst (select_where (\<lambda>(i, r). as_i64 from \<le> i \<and> i < as_i64 to
          \<and> t_variant r = RegularVariant) (transactions db))))"

definition insert_relevant :: "bytes \<Rightarrow> wallet_transaction list \<Rightarrow> wallet_db \<Rightarrow> sqlx_error + wallet_db" where
  "insert_relevant wallet_id txs db =
     (if txs = [] then Inr db
      else let rows = map (\<lambda>t. \<lparr>rv_wallet_id = wallet_id, rv_transaction_id = as_i64 (wt_id t)\<rparr>) txs in
        if conflicts relevant_key rows (relevant_transactions db)
        then Inl (UniqueViolation ''relevant_transactions'')
        else Inr (db\<lparr>relevant_transactions := snd (insert_rows rows (relevant_transactions db))\<rparr>))"

text \<open>
  \<^verbatim>\<open>save_relevant_transactions\<close>: an upsert of the wallet by its viewing key hash that returns the id
  of the row, then the relevant transactions.
\<close>

definition upsert_last_indexed :: "wallet_row \<Rightarrow> wallet_db \<Rightarrow> sqlx_error + bytes \<times> wallet_db" where
  "upsert_last_indexed new db =
     (case find (\<lambda>r. w_viewing_key_hash r = w_viewing_key_hash new) (wallets db) of
        Some r \<Rightarrow>
          Inr (w_id r, db\<lparr>wallets := map (\<lambda>r. if w_viewing_key_hash r = w_viewing_key_hash new
                 then r\<lparr>w_last_indexed := w_last_indexed new\<rparr> else r) (wallets db)\<rparr>)
      | None \<Rightarrow>
          if w_id new \<in> w_id ` set (wallets db) then Inl (UniqueViolation ''wallets_pkey'')
          else Inr (w_id new, db\<lparr>wallets := wallets db @ [new]\<rparr>))"

definition save_relevant_transactions ::
  "('e, 'ct, 'a, 'd) wallet_env \<Rightarrow> bytes \<Rightarrow> int \<Rightarrow> bytes \<Rightarrow> wallet_transaction list \<Rightarrow> u64 \<Rightarrow> wallet_db
     \<Rightarrow> sqlx_error + wallet_db" where
  "save_relevant_transactions env new_id now viewing_key txs last_indexed_transaction_id db =
     and_then (map_err (\<lambda>_. Encode) (we_encrypt env viewing_key new_id)) (\<lambda>ciphertext.
     and_then (upsert_last_indexed
         \<lparr>w_id = new_id, w_viewing_key_hash = we_hash env viewing_key, w_viewing_key = ciphertext,
          w_wanted_start_index = 0, w_first_indexed = 0, w_last_indexed = as_i64 last_indexed_transaction_id,
          w_last_active = now, w_session_id = None\<rparr> db) (\<lambda>(wallet_id, db).
       insert_relevant wallet_id txs db))"

definition save_backward_relevant_transactions ::
  "bytes \<Rightarrow> wallet_transaction list \<Rightarrow> u64 \<Rightarrow> wallet_db \<Rightarrow> sqlx_error + wallet_db" where
  "save_backward_relevant_transactions wallet_id txs first_indexed_transaction_id db =
     insert_relevant wallet_id txs
       (db\<lparr>wallets := map (\<lambda>r. if w_id r = wallet_id
              then r\<lparr>w_first_indexed := as_i64 first_indexed_transaction_id\<rparr> else r) (wallets db)\<rparr>)"

text \<open>
  \<^verbatim>\<open>active_wallet_ids\<close>: the sessions are read first, then the outdated ones are closed unless they have
  become active since. Ignored deadlocks and a busy SQLite leave sessions open until the next call.
\<close>

definition outdated_wallet_ids :: "int \<Rightarrow> wallet_db \<Rightarrow> bytes list" where
  "outdated_wallet_ids min_last_active db =
     map w_id (filter (\<lambda>r. w_session_id r \<noteq> None \<and> w_last_active r < min_last_active) (wallets db))"

definition close_sessions :: "bytes list \<Rightarrow> int \<Rightarrow> wallet_db \<Rightarrow> wallet_db" where
  "close_sessions ids min_last_active db =
     db\<lparr>wallets := map (\<lambda>r. if w_id r \<in> set ids \<and> w_last_active r < min_last_active
           then r\<lparr>w_session_id := None\<rparr> else r) (wallets db)\<rparr>"

definition active_wallet_ids :: "int \<Rightarrow> int \<Rightarrow> wallet_db \<Rightarrow> bytes list \<times> wallet_db" where
  "active_wallet_ids now ttl db =
     (let min_last_active = now - ttl in
      (map w_id (filter (\<lambda>r. w_session_id r \<noteq> None \<and> min_last_active \<le> w_last_active r) (wallets db)),
       close_sessions (outdated_wallet_ids min_last_active db) min_last_active db))"

definition wallet_try_from :: "('e, 'ct, 'a, 'd) wallet_env \<Rightarrow> wallet_row \<Rightarrow> sqlx_error + wallet" where
  "wallet_try_from env r =
     (case (u64_try_from (w_wanted_start_index r), u64_try_from (w_first_indexed r), u64_try_from (w_last_indexed r)) of
        (Some wanted, Some first_id, Some last_id) \<Rightarrow>
          map_ok (\<lambda>vk. \<lparr>wa_viewing_key = vk, wa_wanted_start_index = wanted,
                        wa_first_indexed_transaction_id = first_id, wa_last_indexed_transaction_id = last_id\<rparr>)
            (map_err (\<lambda>_. Decode) (we_decrypt env (w_viewing_key r) (w_id r)))
      | _ \<Rightarrow> Inl Decode)"

definition get_wallet_by_id :: "('e, 'ct, 'a, 'd) wallet_env \<Rightarrow> bytes \<Rightarrow> wallet_db \<Rightarrow> sqlx_error + wallet" where
  "get_wallet_by_id env wallet_id db =
     (case find (\<lambda>r. w_id r = wallet_id) (wallets db) of
        None \<Rightarrow> Inl RowNotFound
      | Some r \<Rightarrow> wallet_try_from env r)"

section \<open>The API's wallet storage\<close>

definition connect_wallet ::
  "('e, 'ct, 'a, 'd) wallet_env \<Rightarrow> bytes \<Rightarrow> bytes \<Rightarrow> int \<Rightarrow> bytes \<Rightarrow> u64 option \<Rightarrow> wallet_db
     \<Rightarrow> sqlx_error + bytes \<times> wallet_db" where
  "connect_wallet env new_id session_id now viewing_key start_index db =
     and_then (map_err (\<lambda>_. Encode) (we_encrypt env viewing_key new_id)) (\<lambda>ciphertext.
     let start = (case start_index of None \<Rightarrow> 0 | Some i \<Rightarrow> i);
         hash = we_hash env viewing_key in
     if 2 ^ 63 \<le> unat start then Inl Encode
     else if find (\<lambda>r. w_viewing_key_hash r = hash) (wallets db) = None \<and> new_id \<in> w_id ` set (wallets db)
     then Inl (UniqueViolation ''wallets_pkey'')
     else if \<exists>r \<in> set (wallets db). w_session_id r = Some session_id \<and> w_viewing_key_hash r \<noteq> hash
     then Inl (UniqueViolation ''session_id'')
     else Inr (session_id, db\<lparr>wallets :=
       (if find (\<lambda>r. w_viewing_key_hash r = hash) (wallets db) = None
        then wallets db @ [\<lparr>w_id = new_id, w_viewing_key_hash = hash, w_viewing_key = ciphertext,
               w_wanted_start_index = as_i64 start, w_first_indexed = as_i64 start,
               w_last_indexed = as_i64 start, w_last_active = now, w_session_id = Some session_id\<rparr>]
        else map (\<lambda>r. if w_viewing_key_hash r = hash
               then r\<lparr>w_last_active := now, w_session_id := Some session_id,
                      w_wanted_start_index := (if w_wanted_start_index r \<le> as_i64 start
                        then w_wanted_start_index r else as_i64 start)\<rparr>
               else r) (wallets db))\<rparr>))"

definition disconnect_wallet :: "bytes \<Rightarrow> wallet_db \<Rightarrow> wallet_db" where
  "disconnect_wallet session_id db =
     db\<lparr>wallets := map (\<lambda>r. if w_session_id r = Some session_id then r\<lparr>w_session_id := None\<rparr> else r) (wallets db)\<rparr>"

definition resolve_session_id :: "bytes \<Rightarrow> wallet_db \<Rightarrow> bytes option" where
  "resolve_session_id session_id db =
     map_option w_id (find (\<lambda>r. w_session_id r = Some session_id) (wallets db))"

definition keep_wallet_active :: "int \<Rightarrow> bytes \<Rightarrow> wallet_db \<Rightarrow> wallet_db" where
  "keep_wallet_active now wallet_id db =
     db\<lparr>wallets := map (\<lambda>r. if w_id r = wallet_id \<and> w_session_id r \<noteq> None then r\<lparr>w_last_active := now\<rparr> else r)
          (wallets db)\<rparr>"

section \<open>Indexing a wallet\<close>

datatype wallet_error = WalletContext string | WalletStorage string sqlx_error

text \<open>
  The highest transaction id seen in \<^verbatim>\<open>BlockIndexed\<close> messages, \<^verbatim>\<open>u64::MAX\<close> at first; the handler of a message.
\<close>

definition initial_max_transaction_id :: u64 where
  "initial_max_transaction_id = - 1"

definition on_block_indexed :: "u64 option \<Rightarrow> u64 \<Rightarrow> u64" where
  "on_block_indexed max_transaction_id max_id =
     (case max_transaction_id of
        None \<Rightarrow> max_id
      | Some i \<Rightarrow> if max_id = - 1 \<or> max_id < i then i else max_id)"

text \<open>
  \<^verbatim>\<open>index_wallet\<close> in two parts: what it reads, which ends with what it is going to write, and the write
  with the commit. Between them other connections may change the database; the advisory lock keeps
  other indexers off the same wallet.
\<close>

datatype plan =
    Backward bytes "wallet_transaction list" u64
  | Forward bytes bytes "wallet_transaction list" u64

definition relevant_transactions_of ::
  "('e, 'ct, 'a, 'd) wallet_env \<Rightarrow> wallet \<Rightarrow> wallet_transaction list \<Rightarrow> wallet_error + wallet_transaction list" where
  "relevant_transactions_of env w txs =
     map_ok (\<lambda>rs. map snd (filter fst rs))
       (try_map (\<lambda>t. map_ok (\<lambda>rel. (rel, t))
           (map_err (\<lambda>_. WalletContext ''check transaction relevance'') (wallet_transaction_relevant env t w))) txs)"

definition plan_backward ::
  "('e, 'ct, 'a, 'd) wallet_env \<Rightarrow> nat \<Rightarrow> bytes \<Rightarrow> wallet \<Rightarrow> chain_db \<Rightarrow> wallet_error + plan option" where
  "plan_backward env batch wallet_id w chain =
     and_then (map_err (WalletStorage ''get backward transactions'')
         (get_transactions_in_range (wa_wanted_start_index w) (wa_first_indexed_transaction_id w) batch chain))
       (\<lambda>txs.
     let first = (if txs = [] then wa_wanted_start_index w else wt_id (last txs)) in
     map_ok (\<lambda>rel. Some (Backward wallet_id rel first)) (relevant_transactions_of env w txs))"

definition plan_forward ::
  "('e, 'ct, 'a, 'd) wallet_env \<Rightarrow> nat \<Rightarrow> bytes \<Rightarrow> wallet \<Rightarrow> chain_db \<Rightarrow> wallet_error + plan option" where
  "plan_forward env batch wallet_id w chain =
     and_then (map_err (WalletStorage ''get transactions'')
         (get_transactions (wa_last_indexed_transaction_id w + 1) batch chain)) (\<lambda>txs.
     if txs = [] then Inr None
     else map_ok (\<lambda>rel. Some (Forward wallet_id (wa_viewing_key w) rel (wt_id (last txs))))
            (relevant_transactions_of env w txs))"

definition index_wallet_read ::
  "('e, 'ct, 'a, 'd) wallet_env \<Rightarrow> nat \<Rightarrow> u64 \<Rightarrow> bytes \<Rightarrow> chain_db \<Rightarrow> wallet_db \<Rightarrow> wallet_error + plan option" where
  "index_wallet_read env batch max_transaction_id wallet_id chain db =
     and_then (map_err (WalletStorage ''get wallet'') (get_wallet_by_id env wallet_id db)) (\<lambda>w.
     if wa_first_indexed_transaction_id w > wa_wanted_start_index w then plan_backward env batch wallet_id w chain
     else if wa_last_indexed_transaction_id w < max_transaction_id then plan_forward env batch wallet_id w chain
     else Inr None)"

fun index_wallet_write ::
  "('e, 'ct, 'a, 'd) wallet_env \<Rightarrow> bytes \<Rightarrow> int \<Rightarrow> plan \<Rightarrow> wallet_db \<Rightarrow> wallet_error + wallet_db" where
  "index_wallet_write env new_id now (Backward wallet_id rel first) db =
     map_err (WalletStorage ''save backward relevant transactions'')
       (save_backward_relevant_transactions wallet_id rel first db)"
| "index_wallet_write env new_id now (Forward _ viewing_key rel last_id) db =
     map_err (WalletStorage ''save relevant transactions'')
       (save_relevant_transactions env new_id now viewing_key rel last_id db)"

fun plan_relevant :: "plan \<Rightarrow> wallet_transaction list" where
  "plan_relevant (Backward _ rel _) = rel"
| "plan_relevant (Forward _ _ rel _) = rel"

text \<open>
  The whole of \<^verbatim>\<open>index_wallet\<close> with nothing in between. \<open>locked\<close> tells whether \<^verbatim>\<open>acquire_lock\<close> got the lock,
  \<open>publish\<close> sends \<^verbatim>\<open>WalletIndexed\<close>; an error before the commit rolls back.
\<close>

definition index_wallet ::
  "('e, 'ct, 'a, 'd) wallet_env \<Rightarrow> bool \<Rightarrow> nat \<Rightarrow> u64 \<Rightarrow> (bytes \<Rightarrow> 'q \<Rightarrow> 'pe + 'q) \<Rightarrow> bytes \<Rightarrow> int \<Rightarrow> bytes \<Rightarrow> chain_db
     \<Rightarrow> wallet_db \<times> 'q \<Rightarrow> (wallet_error + unit) \<times> wallet_db \<times> 'q" where
  "index_wallet env locked batch max_transaction_id publish new_id now wallet_id chain = (\<lambda>(db, q).
     if \<not> locked then (Inr (), db, q)
     else case index_wallet_read env batch max_transaction_id wallet_id chain db of
         Inl e \<Rightarrow> (Inl e, db, q)
       | Inr None \<Rightarrow> (Inr (), db, q)
       | Inr (Some plan) \<Rightarrow>
           (case index_wallet_write env new_id now plan db of
              Inl e \<Rightarrow> (Inl e, db, q)
            | Inr db' \<Rightarrow>
                if plan_relevant plan = [] then (Inr (), db', q)
                else case publish wallet_id q of
                    Inl _ \<Rightarrow> (Inl (WalletContext ''publish WalletIndexed event''), db', q)
                  | Inr q' \<Rightarrow> (Inr (), db', q')))"

end
