(* ===== verification/Wallet_Props.thy ===== *)
theory Wallet_Props
  imports Wallet_Indexer Chain_Storage_Props
begin

text \<open>
  Wallet indexing under interleaving: the chain indexer adds transactions, the API connects and
  disconnects wallets and keeps them active, sessions are closed, and indexers of wallets read, then
  write or fail, in any order, one at a time for each wallet. What is recorded as relevant for a
  wallet is exactly what its indexed range contains.
\<close>

section \<open>Batches of transactions\<close>

lemma strict_take:
  fixes f :: "'a \<Rightarrow> int"
  assumes "sorted_wrt (\<lambda>x y. f x < f y) xs" and "take n xs \<noteq> []"
  shows "set (take n xs) = {x \<in> set xs. f x \<le> f (last (take n xs))}"
proof -
  let ?a = "take n xs" and ?b = "drop n xs"
  have s: "sorted_wrt (\<lambda>x y. f x < f y) (?a @ ?b)" using assms(1) by simp
  have le: "f x \<le> f (last ?a)" if "x \<in> set ?a" for x
  proof -
    obtain ys z where ys: "?a = ys @ [z]" using assms(2) by (metis append_butlast_last_id)
    then have "\<forall>y \<in> set ys. f y < f z" using s by (auto simp: sorted_wrt_append)
    then show ?thesis using that by (auto simp: ys)
  qed
  have gt: "f (last ?a) < f x" if "x \<in> set ?b" for x
    using s that last_in_set [OF assms(2)] unfolding sorted_wrt_append by blast
  have "x \<in> set ?a" if "x \<in> set xs" "f x \<le> f (last ?a)" for x
  proof -
    have "x \<in> set ?a \<or> x \<in> set ?b" using that(1) by (metis Un_iff append_take_drop_id set_append)
    then show ?thesis using gt that(2) by (meson not_less)
  qed
  then show ?thesis using le by (auto dest: in_set_takeD)
qed

definition is_regular :: "i64 \<times> transaction_row \<Rightarrow> bool" where
  "is_regular p \<longleftrightarrow> t_variant (snd p) = RegularVariant"

text \<open>Ids of a \<^verbatim>\<open>BIGSERIAL\<close> key, positive and ascending, within \<^verbatim>\<open>i64\<close>.\<close>

definition chain_ids_ok :: "chain_db \<Rightarrow> bool" where
  "chain_ids_ok chain \<longleftrightarrow> table_ok (transactions chain) \<and> tab_next (transactions chain) < 2 ^ 63 - 1"

abbreviation tx_rows :: "chain_db \<Rightarrow> (i64 \<times> transaction_row) list" where
  "tx_rows chain \<equiv> tab_rows (transactions chain)"

lemma tx_rows_strict: "chain_ids_ok chain \<Longrightarrow> sorted_wrt (\<lambda>x y. fst x < fst y) (tx_rows chain)"
  by (simp add: chain_ids_ok_def table_ok_def sorted_wrt_map)

lemma sort_key_strict:
  fixes f :: "'a \<Rightarrow> int"
  shows "sorted_wrt (\<lambda>x y. f x < f y) xs \<Longrightarrow> sort_key f xs = xs"
  by (rule sort_key_id_if_sorted) (auto simp: sorted_map elim: sorted_wrt_mono_rel [rotated])

lemma order_by_desc_strict:
  "sorted_wrt (\<lambda>x y. f x < f y) xs \<Longrightarrow> order_by_desc f xs = rev xs"
proof (induction xs rule: rev_induct)
  case (snoc x xs)
  then show ?case by (simp add: order_by_desc_snoc sorted_wrt_append)
qed (simp add: order_by_desc_def)

lemma sorted_filter: "sorted_wrt P xs \<Longrightarrow> sorted_wrt P (filter Q xs)"
  by (induction xs) auto

lemma as_i64_of_id: "0 < i \<Longrightarrow> i < 2 ^ 63 \<Longrightarrow> as_i64 (word_of_int i) = i"
proof -
  assume i: "0 < i" "i < 2 ^ 63"
  then have "uint (word_of_int i :: u64) = i" by (simp add: uint_word_of_int_eq take_bit_int_eq_self)
  then have "int (unat (word_of_int i :: u64)) = i" by simp
  moreover have "int (unat (word_of_int i :: u64)) < int (2 ^ 63)" using i calculation by simp
  then have "unat (word_of_int i :: u64) < 2 ^ 63" by (simp only: of_nat_less_iff)
  ultimately show ?thesis using as_i64_nonneg by simp
qed

text \<open>What a batch is: rows of the wanted range, each as its transaction, and cut at the last id.\<close>

definition tx_of :: "i64 \<times> transaction_row \<Rightarrow> wallet_transaction" where
  "tx_of p = (case wallet_transaction_from_row p of Inl _ \<Rightarrow> undefined | Inr t \<Rightarrow> t)"

lemma try_map_from_rows:
  assumes "try_map wallet_transaction_from_row rows = Inr txs"
    and "\<And>i r. (i, r) \<in> set rows \<Longrightarrow> 0 < i \<and> i < 2 ^ 63"
  shows "txs = map tx_of rows \<and> list_all (\<lambda>p. wallet_transaction_from_row p = Inr (tx_of p)) rows
    \<and> map (\<lambda>t. as_i64 (wt_id t)) txs = map fst rows"
  using assms
proof (induction rows arbitrary: txs)
  case (Cons p rows)
  obtain i r where p: "p = (i, r)" by (cases p)
  obtain t ts where t: "wallet_transaction_from_row p = Inr t" "try_map wallet_transaction_from_row rows = Inr ts"
      "txs = t # ts"
    using Cons.prems(1) by (auto split: sum.splits)
  have i: "0 < i" "i < 2 ^ 63" using Cons.prems(2) p by auto
  then have "as_i64 (wt_id t) = i"
    using t(1) as_i64_of_id by (auto simp: p wallet_transaction_from_row_def u64_try_from_def res_simps split: option.splits if_splits)
  moreover have "tx_of p = t" using t(1) by (simp add: tx_of_def)
  ultimately show ?case using Cons.IH [OF t(2)] Cons.prems(2) t p by auto
qed simp

lemma tx_rows_bounds: "chain_ids_ok chain \<Longrightarrow> (i, r) \<in> set (tx_rows chain) \<Longrightarrow> 0 < i \<and> i < tab_next (transactions chain) \<and> i < 2 ^ 63"
  by (force simp: chain_ids_ok_def table_ok_def list_all_iff)

lemma batch_take:
  fixes f :: "'a \<Rightarrow> int"
  assumes st: "sorted_wrt (\<lambda>x y. f x < f y) sel" and "0 < limit"
  shows "distinct (map f (take limit sel))
    \<and> (if take limit sel = [] then set sel = {}
       else set (take limit sel) = {p \<in> set sel. f p \<le> f (last (take limit sel))})"
proof -
  have "distinct (map f xs)" if "sorted_wrt (\<lambda>x y. f x < f y) xs" for xs
    using that by (induction xs) auto
  then have "distinct (map f (take limit sel))" using st by (simp add: sorted_wrt_take)
  then show ?thesis using strict_take [OF st] assms(2) by auto
qed

definition rows_batch :: "(i64 \<times> transaction_row) list \<Rightarrow> wallet_transaction list \<Rightarrow> bool" where
  "rows_batch rows txs \<longleftrightarrow> txs = map tx_of rows
     \<and> list_all (\<lambda>p. wallet_transaction_from_row p = Inr (tx_of p)) rows
     \<and> map (\<lambda>t. as_i64 (wt_id t)) txs = map fst rows \<and> distinct (map fst rows)"

lemma rows_batchI:
  assumes "chain_ids_ok chain" and "try_map wallet_transaction_from_row rows = Inr txs"
    and "set rows \<subseteq> set (tx_rows chain)" and "distinct (map fst rows)"
  shows "rows_batch rows txs"
proof -
  have bounds: "0 < i \<and> i < 2 ^ 63" if "(i, r) \<in> set rows" for i r
    using that assms(3) tx_rows_bounds [OF assms(1)] by blast
  show ?thesis
    using try_map_from_rows [OF assms(2)] bounds assms(4) unfolding rows_batch_def by blast
qed

lemma get_transactions_batch:
  assumes ok: "chain_ids_ok chain" and "get_transactions from limit chain = Inr txs" and "0 < limit"
  shows "\<exists>rows. rows_batch rows txs
    \<and> (if rows = [] then {p \<in> set (tx_rows chain). is_regular p \<and> as_i64 from \<le> fst p} = {}
       else set rows = {p \<in> set (tx_rows chain). is_regular p \<and> as_i64 from \<le> fst p \<and> fst p \<le> fst (last rows)})"
proof -
  let ?sel = "filter (\<lambda>(i, r). as_i64 from \<le> i \<and> t_variant r = RegularVariant) (tx_rows chain)"
  have st: "sorted_wrt (\<lambda>x y. fst x < fst y) ?sel" by (rule sorted_filter [OF tx_rows_strict [OF ok]])
  have sel: "set ?sel = {p \<in> set (tx_rows chain). is_regular p \<and> as_i64 from \<le> fst p}"
    by (auto simp: is_regular_def)
  have "try_map wallet_transaction_from_row (take limit ?sel) = Inr txs"
    using assms(2) by (simp add: get_transactions_def select_where_def sort_key_strict [OF st])
  moreover have "set (take limit ?sel) \<subseteq> set (tx_rows chain)" by (auto dest!: in_set_takeD)
  ultimately have "rows_batch (take limit ?sel) txs"
    using rows_batchI [OF ok] batch_take [OF st assms(3)] by blast
  moreover note batch_take [OF st assms(3), unfolded sel]
  ultimately show ?thesis by (intro exI [of _ "take limit ?sel"]) auto
qed

lemma get_transactions_in_range_batch:
  assumes ok: "chain_ids_ok chain" and "get_transactions_in_range from to limit chain = Inr txs" and "0 < limit"
  shows "\<exists>rows. rows_batch rows txs
    \<and> (if rows = [] then {p \<in> set (tx_rows chain). is_regular p \<and> as_i64 from \<le> fst p \<and> fst p < as_i64 to} = {}
       else as_i64 from \<le> fst (last rows) \<and> fst (last rows) < as_i64 to
         \<and> set rows = {p \<in> set (tx_rows chain). is_regular p \<and> fst (last rows) \<le> fst p \<and> fst p < as_i64 to})"
proof -
  let ?sel = "filter (\<lambda>(i, r). as_i64 from \<le> i \<and> i < as_i64 to \<and> t_variant r = RegularVariant) (tx_rows chain)"
  let ?rows = "take limit (rev ?sel)"
  have st: "sorted_wrt (\<lambda>x y. fst x < fst y) ?sel" by (rule sorted_filter [OF tx_rows_strict [OF ok]])
  then have st': "sorted_wrt (\<lambda>x y. - fst x < - fst y) (rev ?sel)" by (simp add: sorted_wrt_rev)
  have sel: "set (rev ?sel) = {p \<in> set (tx_rows chain). is_regular p \<and> as_i64 from \<le> fst p \<and> fst p < as_i64 to}"
    by (auto simp: is_regular_def)
  note batch = batch_take [OF st' assms(3)]
  have "try_map wallet_transaction_from_row ?rows = Inr txs"
    using assms(2) by (simp add: get_transactions_in_range_def select_where_def order_by_desc_strict [OF st])
  moreover have "distinct (map fst ?rows)" using batch by (simp add: distinct_map inj_on_def)
  moreover have "set ?rows \<subseteq> set (tx_rows chain)" by (auto dest!: in_set_takeD)
  ultimately have "rows_batch ?rows txs" using rows_batchI [OF ok] by blast
  moreover have "if ?rows = [] then {p \<in> set (tx_rows chain). is_regular p \<and> as_i64 from \<le> fst p \<and> fst p < as_i64 to} = {}
       else as_i64 from \<le> fst (last ?rows) \<and> fst (last ?rows) < as_i64 to
         \<and> set ?rows = {p \<in> set (tx_rows chain). is_regular p \<and> fst (last ?rows) \<le> fst p \<and> fst p < as_i64 to}"
  proof (cases "?rows = []")
    case True
    then have "set (rev ?sel) = {}" using batch by (simp only: if_True)
    then show ?thesis using True unfolding sel by (simp only: simp_thms if_True)
  next
    case False
    have "last ?rows \<in> set (rev ?sel)" using last_in_set [OF False] by (rule in_set_takeD)
    then have last_rows: "as_i64 from \<le> fst (last ?rows)" "fst (last ?rows) < as_i64 to" unfolding sel by simp_all
    have "set ?rows = {p \<in> set (rev ?sel). fst (last ?rows) \<le> fst p}"
      using batch [THEN conjunct2] by (simp only: False if_False neg_le_iff_le)
    then have "set ?rows = {p \<in> set (tx_rows chain). is_regular p \<and> fst (last ?rows) \<le> fst p \<and> fst p < as_i64 to}"
      unfolding sel using last_rows(1) by (simp only: mem_Collect_eq) (rule Collect_cong, linarith)
    then show ?thesis using last_rows by (simp only: False if_False simp_thms)
  qed
  ultimately show ?thesis by blast
qed

section \<open>Relevance\<close>

text \<open>A row of \<^verbatim>\<open>transactions\<close> is relevant for a row of \<^verbatim>\<open>wallets\<close>.\<close>

definition row_relevant :: "('e, 'ct, 'a, 'd) wallet_env \<Rightarrow> bytes \<Rightarrow> i64 \<times> transaction_row \<Rightarrow> bool" where
  "row_relevant env vk p \<longleftrightarrow>
     (case wallet_transaction_from_row p of
        Inl _ \<Rightarrow> False
      | Inr t \<Rightarrow> (case we_deserialize env (wt_raw t) (pv_ledger_version (wt_protocol_version t)) of
          Inl _ \<Rightarrow> False
        | Inr tx \<Rightarrow> relevant (we_decrypt_v8 env) (we_decrypt_v9 env) tx vk))"

text \<open>The ids of the regular transactions between \<open>lo\<close> and \<open>hi\<close> that are relevant for a viewing key.\<close>

definition relevant_ids ::
  "('e, 'ct, 'a, 'd) wallet_env \<Rightarrow> chain_db \<Rightarrow> bytes \<Rightarrow> i64 \<Rightarrow> i64 \<Rightarrow> i64 set" where
  "relevant_ids env chain vk lo hi =
     {i. \<exists>r. (i, r) \<in> set (tx_rows chain) \<and> is_regular (i, r) \<and> row_relevant env vk (i, r) \<and> lo \<le> i \<and> i \<le> hi}"

lemma relevant_transactions_of_Inr:
  "relevant_transactions_of env w txs = Inr rel \<Longrightarrow>
     rel = filter (\<lambda>t. wallet_transaction_relevant env t w = Inr True) txs"
proof (induction txs arbitrary: rel)
  case (Cons t txs)
  then show ?case
    by (auto simp: relevant_transactions_of_def res_simps split: sum.splits)
qed (simp add: relevant_transactions_of_def)

abbreviation ids_of :: "wallet_transaction list \<Rightarrow> i64 list" where
  "ids_of txs \<equiv> map (\<lambda>t. as_i64 (wt_id t)) txs"

lemma batch_relevant_ids:
  assumes b: "rows_batch rows txs" and r: "relevant_transactions_of env w txs = Inr rel"
  shows "distinct (ids_of rel) \<and> set (ids_of rel) = {i. \<exists>r. (i, r) \<in> set rows \<and> row_relevant env (wa_viewing_key w) (i, r)}"
proof -
  have txs: "txs = map tx_of rows" and ids: "\<And>p. p \<in> set rows \<Longrightarrow> as_i64 (wt_id (tx_of p)) = fst p"
    and conv: "\<And>p. p \<in> set rows \<Longrightarrow> wallet_transaction_from_row p = Inr (tx_of p)"
    using b by (auto simp: rows_batch_def list_all_iff)
  let ?Q = "\<lambda>p. wallet_transaction_relevant env (tx_of p) w = Inr True"
  have rel: "rel = map tx_of (filter ?Q rows)"
    using relevant_transactions_of_Inr [OF r] by (simp add: txs filter_map comp_def)
  have q: "?Q p \<longleftrightarrow> row_relevant env (wa_viewing_key w) p" if "p \<in> set rows" for p
    using conv [OF that] by (auto simp: row_relevant_def wallet_transaction_relevant_def res_simps split: sum.splits)
  have "ids_of rel = map fst (filter ?Q rows)" using ids by (simp add: rel)
  moreover have "distinct (map fst (filter ?Q rows))" using b by (simp add: rows_batch_def distinct_map_filter)
  moreover have "fst ` {p \<in> set rows. ?Q p} = {i. \<exists>r. (i, r) \<in> set rows \<and> row_relevant env (wa_viewing_key w) (i, r)}"
    using q by force
  ultimately show ?thesis by simp
qed

section \<open>Plans\<close>

text \<open>
  What a plan will write, with respect to the wallet's row as it was read: the relevant transactions of
  the range by which it moves the first or the last indexed id.
\<close>

fun plan_ok :: "('e, 'ct, 'a, 'd) wallet_env \<Rightarrow> chain_db \<Rightarrow> bytes \<Rightarrow> i64 \<Rightarrow> i64 \<Rightarrow> bytes \<Rightarrow> plan \<Rightarrow> bool" where
  "plan_ok env chain wallet_id first_id last_id vk (Backward wid rel f) \<longleftrightarrow>
     wid = wallet_id \<and> 0 \<le> as_i64 f \<and> as_i64 f \<le> first_id \<and> distinct (ids_of rel)
     \<and> set (ids_of rel) = relevant_ids env chain vk (as_i64 f) (first_id - 1)"
| "plan_ok env chain wallet_id first_id last_id vk (Forward wid vk' rel l) \<longleftrightarrow>
     wid = wallet_id \<and> vk' = vk \<and> last_id < as_i64 l \<and> as_i64 l < tab_next (transactions chain) \<and> distinct (ids_of rel)
     \<and> set (ids_of rel) = relevant_ids env chain vk (last_id + 1) (as_i64 l)"

lemma as_i64_u64_try_from: "u64_try_from i = Some w \<Longrightarrow> i < 2 ^ 63 \<Longrightarrow> as_i64 w = i \<and> 0 \<le> i"
  using as_i64_of_id [of i] by (cases "i = 0") (auto simp: u64_try_from_def as_i64_def split: if_splits)

lemma as_i64_less: "u64_try_from i = Some w \<Longrightarrow> u64_try_from j = Some v \<Longrightarrow> i < 2 ^ 63 \<Longrightarrow> j < 2 ^ 63 \<Longrightarrow> w < v \<longleftrightarrow> i < j"
proof -
  assume a: "u64_try_from i = Some w" "u64_try_from j = Some v" "i < 2 ^ 63" "j < 2 ^ 63"
  then have "uint w = i" "uint v = j"
    by (auto simp: u64_try_from_def uint_word_of_int_eq take_bit_int_eq_self split: if_splits)
  then show ?thesis by (simp add: word_less_def)
qed

lemma plan_backward_ok:
  assumes ok: "chain_ids_ok chain" and batch: "0 < batch"
    and p: "plan_backward env batch wid w chain = Inr (Some plan)"
    and r: "as_i64 (wa_wanted_start_index w) = wanted" "as_i64 (wa_first_indexed_transaction_id w) = first_id"
      "0 \<le> wanted" "wanted < first_id"
  shows "plan_ok env chain wid first_id last_id (wa_viewing_key w) plan
    \<and> (\<exists>rel f. plan = Backward wid rel f \<and> wanted \<le> as_i64 f \<and> as_i64 f < first_id
        \<and> (as_i64 f = wanted \<or> as_i64 f \<in> {i. \<exists>t. (i, t) \<in> set (tx_rows chain) \<and> is_regular (i, t)}))"
proof -
  obtain txs rel where g: "get_transactions_in_range (wa_wanted_start_index w) (wa_first_indexed_transaction_id w) batch chain = Inr txs"
    and rel: "relevant_transactions_of env w txs = Inr rel"
    and plan: "plan = Backward wid rel (if txs = [] then wa_wanted_start_index w else wt_id (last txs))"
    using p by (auto simp: plan_backward_def res_simps Let_def)
  obtain rows where b: "rows_batch rows txs" and rows:
    "if rows = [] then {p \<in> set (tx_rows chain). is_regular p \<and> wanted \<le> fst p \<and> fst p < first_id} = {}
     else wanted \<le> fst (last rows) \<and> fst (last rows) < first_id
       \<and> set rows = {p \<in> set (tx_rows chain). is_regular p \<and> fst (last rows) \<le> fst p \<and> fst p < first_id}"
    using get_transactions_in_range_batch [OF ok g batch] r by blast
  note ids = batch_relevant_ids [OF b rel]
  show ?thesis
  proof (cases "rows = []")
    case True
    then have "txs = []" using b by (simp add: rows_batch_def)
    moreover have "relevant_ids env chain (wa_viewing_key w) wanted (first_id - 1) = {}"
      using rows True by (fastforce simp: relevant_ids_def)
    ultimately show ?thesis using ids True r by (simp add: plan)
  next
    case False
    then have f: "txs \<noteq> []" "as_i64 (wt_id (last txs)) = fst (last rows)"
      using b by (auto simp: rows_batch_def last_map list_all_iff)
    have "set (ids_of rel) = relevant_ids env chain (wa_viewing_key w) (fst (last rows)) (first_id - 1)"
      using ids rows False by (auto simp: relevant_ids_def)
    moreover have "last rows \<in> set (tx_rows chain) \<and> is_regular (last rows)"
      using rows False last_in_set by fastforce
    ultimately show ?thesis using f ids rows False r by (auto simp: plan) (metis prod.collapse)
  qed
qed

lemma plan_forward_ok:
  assumes ok: "chain_ids_ok chain" and batch: "0 < batch"
    and p: "plan_forward env batch wid w chain = Inr (Some plan)"
    and r: "as_i64 (wa_last_indexed_transaction_id w + 1) = last_id + 1"
  shows "plan_ok env chain wid first_id last_id (wa_viewing_key w) plan
    \<and> (\<exists>rel l. plan = Forward wid (wa_viewing_key w) rel l \<and> last_id < as_i64 l
        \<and> as_i64 l \<in> {i. \<exists>t. (i, t) \<in> set (tx_rows chain) \<and> is_regular (i, t)})"
proof -
  obtain txs rel where g: "get_transactions (wa_last_indexed_transaction_id w + 1) batch chain = Inr txs"
    and rel: "relevant_transactions_of env w txs = Inr rel" and ne: "txs \<noteq> []"
    and plan: "plan = Forward wid (wa_viewing_key w) rel (wt_id (last txs))"
    using p by (auto simp: plan_forward_def res_simps split: if_splits)
  obtain rows where b: "rows_batch rows txs" and rows: "rows \<noteq> [] \<Longrightarrow>
     set rows = {p \<in> set (tx_rows chain). is_regular p \<and> last_id + 1 \<le> fst p \<and> fst p \<le> fst (last rows)}"
    using get_transactions_batch [OF ok g batch] r by auto
  have False: "rows \<noteq> []" using b ne by (auto simp: rows_batch_def)
  have l: "as_i64 (wt_id (last txs)) = fst (last rows)"
    using b False by (auto simp: rows_batch_def last_map)
  have in_chain: "last rows \<in> set (tx_rows chain)" "is_regular (last rows)" "last_id < fst (last rows)"
    using rows [OF False] last_in_set [OF False] by auto
  then have "fst (last rows) < tab_next (transactions chain)"
    using tx_rows_bounds [OF ok] by (metis prod.collapse)
  moreover have "set (ids_of rel) = relevant_ids env chain (wa_viewing_key w) (last_id + 1) (fst (last rows))"
    using batch_relevant_ids [OF b rel] rows [OF False] by (auto simp: relevant_ids_def)
  ultimately show ?thesis using batch_relevant_ids [OF b rel] in_chain l by (auto simp: plan) (metis prod.collapse)
qed

section \<open>What is recorded\<close>

definition recorded :: "wallet_db \<Rightarrow> bytes \<Rightarrow> i64 set" where
  "recorded db wid = rv_transaction_id ` {r \<in> snd ` set (tab_rows (relevant_transactions db)). rv_wallet_id r = wid}"

lemma recorded_wallets [simp]: "recorded (db\<lparr>wallets := ws\<rparr>) = recorded db"
  by (simp add: recorded_def fun_eq_iff)

lemma insert_relevant_Inr:
  assumes u: "unique relevant_key (relevant_transactions db)" and ins: "insert_relevant wid txs db = Inr db'"
  shows "\<exists>t. db' = db\<lparr>relevant_transactions := t\<rparr> \<and> unique relevant_key t
    \<and> recorded (db\<lparr>relevant_transactions := t\<rparr>) = (\<lambda>w. recorded db w \<union> (if w = wid then set (ids_of txs) else {}))
    \<and> rv_wallet_id ` snd ` set (tab_rows t) \<subseteq> insert wid (rv_wallet_id ` snd ` set (tab_rows (relevant_transactions db)))"
proof (cases "txs = []")
  case True
  then show ?thesis using u ins
    by (intro exI [of _ "relevant_transactions db"]) (auto simp: insert_relevant_def fun_eq_iff)
next
  case False
  let ?rows = "map (\<lambda>t. \<lparr>rv_wallet_id = wid, rv_transaction_id = as_i64 (wt_id t)\<rparr>) txs"
  let ?t = "snd (insert_rows ?rows (relevant_transactions db))"
  have nc: "\<not> conflicts relevant_key ?rows (relevant_transactions db)" and db': "db' = db\<lparr>relevant_transactions := ?t\<rparr>"
    using ins False by (auto simp: insert_relevant_def Let_def split: if_splits)
  have rows: "snd ` set (tab_rows ?t) = snd ` set (tab_rows (relevant_transactions db)) \<union> set ?rows"
    by (rule rows_insert_rows)
  have "{r \<in> set ?rows. rv_wallet_id r = w} = (if w = wid then set ?rows else {})" for w by auto
  then have "rv_transaction_id ` {r \<in> set ?rows. rv_wallet_id r = w} = (if w = wid then set (ids_of txs) else {})" for w
    by (simp add: image_image)
  then have "recorded (db\<lparr>relevant_transactions := ?t\<rparr>) w = recorded db w \<union> (if w = wid then set (ids_of txs) else {})" for w
    unfolding recorded_def by (simp add: rows Un_iff conj_disj_distribR Collect_disj_eq image_Un)
  then have "recorded (db\<lparr>relevant_transactions := ?t\<rparr>) = (\<lambda>w. recorded db w \<union> (if w = wid then set (ids_of txs) else {}))"
    by (rule ext)
  moreover have "rv_wallet_id ` snd ` set (tab_rows ?t) \<subseteq> insert wid (rv_wallet_id ` snd ` set (tab_rows (relevant_transactions db)))"
    unfolding rows by auto
  ultimately show ?thesis using unique_insert_rows [OF u nc] db' by blast
qed

lemma insert_relevant_ok:
  assumes d: "distinct (ids_of txs)" and new: "set (ids_of txs) \<inter> recorded db wid = {}"
  shows "\<exists>db'. insert_relevant wid txs db = Inr db'"
proof -
  let ?rows = "map (\<lambda>t. \<lparr>rv_wallet_id = wid, rv_transaction_id = as_i64 (wt_id t)\<rparr>) txs"
  have "distinct (map relevant_key ?rows)"
    using d by (auto simp: distinct_map comp_def relevant_key_def inj_on_def)
  moreover have "relevant_key r \<notin> set (map (relevant_key \<circ> snd) (tab_rows (relevant_transactions db)))"
    if "r \<in> set ?rows" for r
  proof
    assume "relevant_key r \<in> set (map (relevant_key \<circ> snd) (tab_rows (relevant_transactions db)))"
    then have "rv_transaction_id r \<in> recorded db wid"
      using that by (force simp: recorded_def relevant_key_def)
    then show False using new that by auto
  qed
  ultimately have "\<not> conflicts relevant_key ?rows (relevant_transactions db)" by (auto simp: conflicts_def)
  then show ?thesis by (simp add: insert_relevant_def Let_def)
qed

section \<open>The system\<close>

text \<open>
  The shared database, the chain's part of it, what each running indexer of a wallet is about to write
  (at most one for each wallet: the advisory lock), and, as history variables, the start index each wallet was
  created with and whether that was beyond the next transaction id at the time, which \<^verbatim>\<open>connect_wallet\<close> does not rule out.
\<close>

record wallet_sys =
  sy_db :: wallet_db
  sy_chain :: chain_db
  sy_pending :: "bytes \<Rightarrow> plan option"
  sy_start :: "bytes \<Rightarrow> i64"
  sy_ahead :: "bytes \<Rightarrow> bool"

definition start_of :: "u64 option \<Rightarrow> i64" where
  "start_of start_index = as_i64 (case start_index of None \<Rightarrow> 0 | Some i \<Rightarrow> i)"

inductive wallet_step :: "('e, 'ct, 'a, 'd) wallet_env \<Rightarrow> nat \<Rightarrow> wallet_sys \<Rightarrow> wallet_sys \<Rightarrow> bool"
  for env batch where
  connect: "connect_wallet env new_id session_id now vk start_index (sy_db s) = Inr (sid, db) \<Longrightarrow>
    wallet_step env batch s (s\<lparr>sy_db := db,
      sy_start := (\<lambda>w. if w \<in> w_id ` set (wallets (sy_db s)) then sy_start s w else start_of start_index),
      sy_ahead := (\<lambda>w. if w \<in> w_id ` set (wallets (sy_db s)) then sy_ahead s w
        else tab_next (transactions (sy_chain s)) < start_of start_index)\<rparr>)"
| disconnect: "wallet_step env batch s (s\<lparr>sy_db := disconnect_wallet session_id (sy_db s)\<rparr>)"
| keep_active: "wallet_step env batch s (s\<lparr>sy_db := keep_wallet_active now wid (sy_db s)\<rparr>)"
| close: "wallet_step env batch s (s\<lparr>sy_db := close_sessions ids min_last_active (sy_db s)\<rparr>)"
| grow: "prefix (tx_rows (sy_chain s)) (tx_rows chain) \<Longrightarrow> chain_ids_ok chain \<Longrightarrow>
    tab_next (transactions (sy_chain s)) \<le> tab_next (transactions chain) \<Longrightarrow>
    (\<And>p. p \<in> set (tx_rows chain) - set (tx_rows (sy_chain s)) \<Longrightarrow> tab_next (transactions (sy_chain s)) \<le> fst p) \<Longrightarrow>
    wallet_step env batch s (s\<lparr>sy_chain := chain\<rparr>)"
| read: "sy_pending s wid = None \<Longrightarrow>
    index_wallet_read env batch max_id wid (sy_chain s) (sy_db s) = Inr (Some plan) \<Longrightarrow>
    wallet_step env batch s (s\<lparr>sy_pending := (sy_pending s)(wid \<mapsto> plan)\<rparr>)"
| commit: "sy_pending s wid = Some plan \<Longrightarrow> index_wallet_write env new_id now plan (sy_db s) = Inr db \<Longrightarrow>
    wallet_step env batch s (s\<lparr>sy_db := db, sy_pending := (sy_pending s)(wid := None)\<rparr>)"
| abort: "wallet_step env batch s (s\<lparr>sy_pending := (sy_pending s)(wid := None)\<rparr>)"

definition initial_sys :: "chain_db \<Rightarrow> wallet_sys" where
  "initial_sys chain = \<lparr>sy_db = empty_wallet_db, sy_chain = chain, sy_pending = Map.empty, sy_start = (\<lambda>_. 0), sy_ahead = (\<lambda>_. False)\<rparr>"

inductive wallet_reachable :: "('e, 'ct, 'a, 'd) wallet_env \<Rightarrow> nat \<Rightarrow> wallet_sys \<Rightarrow> bool"
  for env batch where
  initial: "chain_ids_ok chain \<Longrightarrow> wallet_reachable env batch (initial_sys chain)"
| step: "wallet_reachable env batch s \<Longrightarrow> wallet_step env batch s s' \<Longrightarrow> wallet_reachable env batch s'"

section \<open>The invariant\<close>

definition row_ok :: "('e, 'ct, 'a, 'd) wallet_env \<Rightarrow> chain_db \<Rightarrow> i64 set \<Rightarrow> plan option \<Rightarrow> i64 \<Rightarrow> wallet_row \<Rightarrow> bool" where
  "row_ok env chain rec pending start r \<longleftrightarrow>
     (\<exists>vk. we_decrypt env (w_viewing_key r) (w_id r) = Inr vk \<and> w_viewing_key_hash r = we_hash env vk
      \<and> rec = relevant_ids env chain vk (w_first_indexed r) (w_last_indexed r) - {start}
      \<and> (\<forall>plan. pending = Some plan \<longrightarrow>
           plan_ok env chain (w_id r) (w_first_indexed r) (w_last_indexed r) vk plan))
   \<and> 0 \<le> w_wanted_start_index r \<and> w_wanted_start_index r \<le> w_first_indexed r \<and> w_first_indexed r \<le> start
   \<and> start \<le> w_last_indexed r \<and> start \<le> tab_next (transactions chain)
   \<and> (w_last_indexed r = start \<or> w_last_indexed r < tab_next (transactions chain))
   \<and> (\<forall>wid rel f. pending = Some (Backward wid rel f) \<longrightarrow> w_wanted_start_index r \<le> as_i64 f)"

text \<open>Of a wallet created ahead of the chain it is only known that plans are for its id and its viewing key.\<close>

fun plan_fits :: "bytes \<Rightarrow> bytes \<Rightarrow> plan \<Rightarrow> bool" where
  "plan_fits wallet_id vk (Backward wid rel f) \<longleftrightarrow> wid = wallet_id"
| "plan_fits wallet_id vk (Forward wid vk' rel l) \<longleftrightarrow> wid = wallet_id \<and> vk' = vk"

definition row_base :: "('e, 'ct, 'a, 'd) wallet_env \<Rightarrow> plan option \<Rightarrow> wallet_row \<Rightarrow> bool" where
  "row_base env pending r \<longleftrightarrow>
     (\<exists>vk. we_decrypt env (w_viewing_key r) (w_id r) = Inr vk \<and> w_viewing_key_hash r = we_hash env vk
      \<and> (\<forall>plan. pending = Some plan \<longrightarrow> plan_fits (w_id r) vk plan))"

definition row_inv ::
  "('e, 'ct, 'a, 'd) wallet_env \<Rightarrow> chain_db \<Rightarrow> i64 set \<Rightarrow> plan option \<Rightarrow> i64 \<Rightarrow> bool \<Rightarrow> wallet_row \<Rightarrow> bool" where
  "row_inv env chain rec pending start ahead r \<longleftrightarrow>
     (if ahead then row_base env pending r else row_ok env chain rec pending start r)"

lemma row_inv_base: "row_inv env chain rec pending start ahead r \<Longrightarrow> row_base env pending r"
proof -
  have "plan_fits wid vk plan" if "plan_ok env chain wid a b vk plan" for wid a b vk plan using that by (cases plan) auto
  then show "row_inv env chain rec pending start ahead r \<Longrightarrow> row_base env pending r"
    unfolding row_inv_def row_ok_def row_base_def by (auto split: if_splits)
qed

definition wallet_inv :: "('e, 'ct, 'a, 'd) wallet_env \<Rightarrow> wallet_sys \<Rightarrow> bool" where
  "wallet_inv env s \<longleftrightarrow> chain_ids_ok (sy_chain s)
     \<and> distinct (map w_id (wallets (sy_db s))) \<and> distinct (map w_viewing_key_hash (wallets (sy_db s)))
     \<and> unique relevant_key (relevant_transactions (sy_db s))
     \<and> rv_wallet_id ` snd ` set (tab_rows (relevant_transactions (sy_db s))) \<subseteq> w_id ` set (wallets (sy_db s))
     \<and> dom (sy_pending s) \<subseteq> w_id ` set (wallets (sy_db s))
     \<and> (\<forall>r \<in> set (wallets (sy_db s)). row_inv env (sy_chain s) (recorded (sy_db s) (w_id r))
           (sy_pending s (w_id r)) (sy_start s (w_id r)) (sy_ahead s (w_id r)) r)"

lemma wallet_inv_row:
  assumes "wallet_inv env s" "r \<in> set (wallets (sy_db s))"
  shows "row_inv env (sy_chain s) (recorded (sy_db s) (w_id r)) (sy_pending s (w_id r)) (sy_start s (w_id r)) (sy_ahead s (w_id r)) r"
  using assms unfolding wallet_inv_def by blast

lemma wallet_inv_row_ok:
  assumes "wallet_inv env s" "r \<in> set (wallets (sy_db s))" "\<not> sy_ahead s (w_id r)"
  shows "row_ok env (sy_chain s) (recorded (sy_db s) (w_id r)) (sy_pending s (w_id r)) (sy_start s (w_id r)) r"
  using wallet_inv_row [OF assms(1,2)] assms(3) by (simp add: row_inv_def)

lemma wallet_inv_initial: "chain_ids_ok chain \<Longrightarrow> wallet_inv env (initial_sys chain)"
  by (simp add: wallet_inv_def initial_sys_def empty_wallet_db_def empty_table_def unique_def)

text \<open>Steps that only touch a wallet's session, its activity or lower its wanted start.\<close>

definition touches :: "(wallet_row \<Rightarrow> wallet_row) \<Rightarrow> wallet_row \<Rightarrow> bool" where
  "touches f r \<longleftrightarrow> w_id (f r) = w_id r \<and> w_viewing_key_hash (f r) = w_viewing_key_hash r
     \<and> w_viewing_key (f r) = w_viewing_key r \<and> w_first_indexed (f r) = w_first_indexed r
     \<and> w_last_indexed (f r) = w_last_indexed r
     \<and> w_wanted_start_index (f r) \<le> w_wanted_start_index r
     \<and> (0 \<le> w_wanted_start_index r \<longrightarrow> 0 \<le> w_wanted_start_index (f r))"

lemma row_okD:
  assumes "row_ok env chain rec pending start r"
  shows "0 \<le> w_wanted_start_index r" "w_wanted_start_index r \<le> w_first_indexed r" "w_first_indexed r \<le> start"
    "start \<le> w_last_indexed r" "start \<le> tab_next (transactions chain)"
    "w_last_indexed r = start \<or> w_last_indexed r < tab_next (transactions chain)"
    "pending = Some (Backward wid rel f) \<Longrightarrow> w_wanted_start_index r \<le> as_i64 f"
  using assms unfolding row_ok_def by blast+

lemma row_ok_touch:
  assumes t: "touches f r" and ok: "row_ok env chain rec pending start r"
  shows "row_ok env chain rec pending start (f r)"
proof -
  have le: "w_wanted_start_index (f r) \<le> w_wanted_start_index r" "0 \<le> w_wanted_start_index (f r)"
    using t row_okD(1) [OF ok] by (simp_all add: touches_def)
  have "w_wanted_start_index (f r) \<le> as_i64 g" if "pending = Some (Backward wid rel g)" for wid rel g
    using le(1) row_okD(7) [OF ok that] by (rule order_trans)
  moreover have "w_wanted_start_index (f r) \<le> w_first_indexed r"
    using le(1) row_okD(2) [OF ok] by (rule order_trans)
  ultimately show ?thesis using t ok le(2) unfolding row_ok_def touches_def by simp
qed

lemma row_inv_touch:
  "touches f r \<Longrightarrow> row_inv env chain rec pending start ahead r \<Longrightarrow> row_inv env chain rec pending start ahead (f r)"
  using row_ok_touch [of f r env chain rec pending start] by (auto simp: row_inv_def row_base_def touches_def)

lemma wallet_inv_touch:
  assumes "wallet_inv env s" and "\<And>r. r \<in> set (wallets (sy_db s)) \<Longrightarrow> touches f r"
  shows "wallet_inv env (s\<lparr>sy_db := (sy_db s)\<lparr>wallets := map f (wallets (sy_db s))\<rparr>\<rparr>)"
proof -
  have maps: "map (w_id \<circ> f) (wallets (sy_db s)) = map w_id (wallets (sy_db s))"
    "map (w_viewing_key_hash \<circ> f) (wallets (sy_db s)) = map w_viewing_key_hash (wallets (sy_db s))"
    using assms(2) by (simp_all add: touches_def)
  have "distinct (map (w_id \<circ> f) (wallets (sy_db s)))" "distinct (map (w_viewing_key_hash \<circ> f) (wallets (sy_db s)))"
    unfolding maps using assms(1) by (simp_all add: wallet_inv_def)
  moreover have "w_id ` f ` set (wallets (sy_db s)) = w_id ` set (wallets (sy_db s))"
    using assms(2) by (force simp: touches_def image_image)
  moreover have "row_inv env (sy_chain s) (recorded (sy_db s) (w_id (f r))) (sy_pending s (w_id (f r)))
      (sy_start s (w_id (f r))) (sy_ahead s (w_id (f r))) (f r)" if "r \<in> set (wallets (sy_db s))" for r
    using row_inv_touch [OF assms(2) [OF that] wallet_inv_row [OF assms(1) that]] assms(2) [OF that] by (simp add: touches_def)
  ultimately show ?thesis using assms(1) unfolding wallet_inv_def by simp
qed

subsection \<open>Connecting\<close>

definition wallet_cipher :: "('e, 'ct, 'a, 'd) wallet_env \<Rightarrow> bool" where
  "wallet_cipher env \<longleftrightarrow> (\<forall>vk wid c. we_encrypt env vk wid = Inr c \<longrightarrow> we_decrypt env c wid = Inr vk)"

lemma start_of_nonneg: "unat (case start_index of None \<Rightarrow> 0 | Some i \<Rightarrow> i) < 2 ^ 63 \<Longrightarrow> 0 \<le> start_of start_index"
  using as_i64_nonneg [of "case start_index of None \<Rightarrow> 0 | Some i \<Rightarrow> i"] by (simp add: start_of_def)

lemma connect_wallet_cases:
  assumes "connect_wallet env new_id session_id now vk start_index db = Inr (sid, db')"
  obtains (created) c where "we_encrypt env vk new_id = Inr c" "we_hash env vk \<notin> w_viewing_key_hash ` set (wallets db)"
      "new_id \<notin> w_id ` set (wallets db)" "0 \<le> start_of start_index"
      "db' = db\<lparr>wallets := wallets db @ [\<lparr>w_id = new_id, w_viewing_key_hash = we_hash env vk, w_viewing_key = c,
         w_wanted_start_index = start_of start_index, w_first_indexed = start_of start_index,
         w_last_indexed = start_of start_index, w_last_active = now, w_session_id = Some session_id\<rparr>]\<rparr>"
  | (reconnected) f where "\<And>r. touches f r" "db' = db\<lparr>wallets := map f (wallets db)\<rparr>"
proof -
  obtain c where enc: "we_encrypt env vk new_id = Inr c" and small: "unat (case start_index of None \<Rightarrow> 0 | Some i \<Rightarrow> i) < 2 ^ 63"
    using assms by (auto simp: connect_wallet_def res_simps Let_def split: if_splits)
  note start = start_of_nonneg [OF small]
  show thesis
  proof (cases "find (\<lambda>r. w_viewing_key_hash r = we_hash env vk) (wallets db)")
    case None
    then have "we_hash env vk \<notin> w_viewing_key_hash ` set (wallets db)" by (auto simp: find_None_iff)
    then show ?thesis using assms enc start created None
      by (auto simp: connect_wallet_def Let_def start_of_def split: if_splits)
  next
    case (Some r0)
    let ?f = "\<lambda>r. if w_viewing_key_hash r = we_hash env vk
               then r\<lparr>w_last_active := now, w_session_id := Some session_id,
                      w_wanted_start_index := (if w_wanted_start_index r \<le> start_of start_index
                        then w_wanted_start_index r else start_of start_index)\<rparr>
               else r"
    have "touches ?f r" for r using start by (simp add: touches_def)
    moreover have "db' = db\<lparr>wallets := map ?f (wallets db)\<rparr>"
      using assms enc Some by (auto simp: connect_wallet_def Let_def start_of_def split: if_splits)
    ultimately show ?thesis by (rule reconnected)
  qed
qed

lemma wallet_inv_connect:
  assumes inv: "wallet_inv env s" and cipher: "wallet_cipher env"
    and c: "connect_wallet env new_id session_id now vk start_index (sy_db s) = Inr (sid, db)"
  shows "wallet_inv env (s\<lparr>sy_db := db,
      sy_start := (\<lambda>w. if w \<in> w_id ` set (wallets (sy_db s)) then sy_start s w else start_of start_index),
      sy_ahead := (\<lambda>w. if w \<in> w_id ` set (wallets (sy_db s)) then sy_ahead s w
        else tab_next (transactions (sy_chain s)) < start_of start_index)\<rparr>)"
  using c
proof (cases rule: connect_wallet_cases)
  case (created ct)
  let ?r = "\<lparr>w_id = new_id, w_viewing_key_hash = we_hash env vk, w_viewing_key = ct,
         w_wanted_start_index = start_of start_index, w_first_indexed = start_of start_index,
         w_last_indexed = start_of start_index, w_last_active = now, w_session_id = Some session_id\<rparr>"
  let ?ahead = "tab_next (transactions (sy_chain s)) < start_of start_index"
  have "recorded (sy_db s) new_id = {}"
    using inv created(3) unfolding wallet_inv_def recorded_def by blast
  moreover have "relevant_ids env (sy_chain s) vk (start_of start_index) (start_of start_index) - {start_of start_index} = {}"
    by (auto simp: relevant_ids_def)
  moreover have "sy_pending s new_id = None" using inv created(3) unfolding wallet_inv_def by blast
  moreover have "we_decrypt env ct new_id = Inr vk" using cipher created(1) by (simp add: wallet_cipher_def)
  ultimately have "row_inv env (sy_chain s) (recorded (sy_db s) new_id) (sy_pending s new_id) (start_of start_index) ?ahead ?r"
    using created(4) by (simp add: row_inv_def row_base_def row_ok_def)
  then have rows: "\<forall>r \<in> set (wallets (sy_db s) @ [?r]). row_inv env (sy_chain s) (recorded (sy_db s) (w_id r))
      (sy_pending s (w_id r)) (if w_id r \<in> w_id ` set (wallets (sy_db s)) then sy_start s (w_id r) else start_of start_index)
      (if w_id r \<in> w_id ` set (wallets (sy_db s)) then sy_ahead s (w_id r) else ?ahead) r"
    using created(3) wallet_inv_row [OF inv] by simp
  show ?thesis using inv created(2,3) rows
    by (simp add: wallet_inv_def created(5) subset_insertI2 del: ball_simps)
next
  case (reconnected f)
  have "wallet_inv env (s\<lparr>sy_db := db\<rparr>)"
    using wallet_inv_touch [OF inv reconnected(1)] reconnected(2) by simp
  moreover have "w_id ` set (wallets db) = w_id ` set (wallets (sy_db s))"
    using reconnected by (force simp: touches_def image_image)
  ultimately show ?thesis unfolding wallet_inv_def by auto
qed

subsection \<open>A growing chain\<close>

lemma relevant_ids_grow:
  assumes "set (tx_rows chain) \<subseteq> set (tx_rows chain')"
    and "\<And>p. p \<in> set (tx_rows chain') - set (tx_rows chain) \<Longrightarrow> n \<le> fst p" and "hi < n"
  shows "relevant_ids env chain' vk lo hi = relevant_ids env chain vk lo hi"
  using assms unfolding relevant_ids_def by force

lemma plan_ok_grow:
  assumes "set (tx_rows chain) \<subseteq> set (tx_rows chain')"
    and "\<And>p. p \<in> set (tx_rows chain') - set (tx_rows chain) \<Longrightarrow> tab_next (transactions chain) \<le> fst p"
    and "tab_next (transactions chain) \<le> tab_next (transactions chain')"
    and "first_id \<le> tab_next (transactions chain)" and "plan_ok env chain wid first_id last_id vk plan"
  shows "plan_ok env chain' wid first_id last_id vk plan"
proof (cases plan)
  case (Backward wid' rel f)
  have "relevant_ids env chain' vk (as_i64 f) (first_id - 1) = relevant_ids env chain vk (as_i64 f) (first_id - 1)"
    by (rule relevant_ids_grow [OF assms(1,2)]) (use assms(4) in simp_all)
  then show ?thesis using assms(5) Backward by simp
next
  case (Forward wid' vk' rel l)
  have "relevant_ids env chain' vk (last_id + 1) (as_i64 l) = relevant_ids env chain vk (last_id + 1) (as_i64 l)"
    by (rule relevant_ids_grow [OF assms(1,2)]) (use assms(5) Forward in simp_all)
  then show ?thesis using assms(3,5) Forward by simp
qed

lemma row_ok_grow:
  assumes chain: "set (tx_rows chain) \<subseteq> set (tx_rows chain')"
      "\<And>p. p \<in> set (tx_rows chain') - set (tx_rows chain) \<Longrightarrow> tab_next (transactions chain) \<le> fst p"
      "tab_next (transactions chain) \<le> tab_next (transactions chain')"
    and ok: "row_ok env chain rec pending start r"
  shows "row_ok env chain' rec pending start r"
proof -
  note d = row_okD [OF ok]
  have first_id: "w_first_indexed r \<le> tab_next (transactions chain)" using d(3,5) by linarith
  have "relevant_ids env chain' vk (w_first_indexed r) (w_last_indexed r) - {start}
      = relevant_ids env chain vk (w_first_indexed r) (w_last_indexed r) - {start}" for vk
  proof (cases "w_last_indexed r < tab_next (transactions chain)")
    case True
    then have "relevant_ids env chain' vk (w_first_indexed r) (w_last_indexed r)
        = relevant_ids env chain vk (w_first_indexed r) (w_last_indexed r)"
      by (intro relevant_ids_grow [OF chain(1,2)])
    then show ?thesis by simp
  next
    case False
    then have last_id: "w_last_indexed r = start" using d(6) by blast
    have "i = start" if "(i, t) \<in> set (tx_rows chain') - set (tx_rows chain)" "i \<le> start" for i t
      using chain(2) [OF that(1)] that(2) d(5) by simp
    then show ?thesis using chain(1) unfolding last_id relevant_ids_def by blast
  qed
  moreover have "plan_ok env chain' (w_id r) (w_first_indexed r) (w_last_indexed r) vk plan"
    if "plan_ok env chain (w_id r) (w_first_indexed r) (w_last_indexed r) vk plan" for vk plan
    by (rule plan_ok_grow [OF chain first_id that])
  moreover have "start \<le> tab_next (transactions chain')"
    "w_last_indexed r = start \<or> w_last_indexed r < tab_next (transactions chain')"
    using d(5,6) chain(3) by linarith+
  ultimately show ?thesis using ok unfolding row_ok_def by metis
qed

lemma wallet_inv_grow:
  assumes "wallet_inv env s" and "prefix (tx_rows (sy_chain s)) (tx_rows chain)" and "chain_ids_ok chain"
    and "tab_next (transactions (sy_chain s)) \<le> tab_next (transactions chain)"
    and "\<And>p. p \<in> set (tx_rows chain) - set (tx_rows (sy_chain s)) \<Longrightarrow> tab_next (transactions (sy_chain s)) \<le> fst p"
  shows "wallet_inv env (s\<lparr>sy_chain := chain\<rparr>)"
proof -
  have "row_inv env chain rec pending start ahead r" if "row_inv env (sy_chain s) rec pending start ahead r" for rec pending start ahead r
    using row_ok_grow [OF set_mono_prefix [OF assms(2)] assms(5,4), of env rec pending start r] that by (auto simp: row_inv_def)
  then show ?thesis using assms(1,3) by (simp add: wallet_inv_def)
qed

subsection \<open>Reading, writing and aborting\<close>

text \<open>The wallet that is read is the one stored, with its indices as unsigned integers.\<close>

lemma get_wallet_by_id_Inr:
  assumes "get_wallet_by_id env wid db = Inr w"
  obtains r where "r \<in> set (wallets db)" "w_id r = wid"
    "we_decrypt env (w_viewing_key r) wid = Inr (wa_viewing_key w)"
    "u64_try_from (w_wanted_start_index r) = Some (wa_wanted_start_index w)"
    "u64_try_from (w_first_indexed r) = Some (wa_first_indexed_transaction_id w)"
    "u64_try_from (w_last_indexed r) = Some (wa_last_indexed_transaction_id w)"
proof -
  obtain r where r: "find (\<lambda>r. w_id r = wid) (wallets db) = Some r" and w: "wallet_try_from env r = Inr w"
    using assms by (auto simp: get_wallet_by_id_def split: option.splits)
  have "r \<in> set (wallets db)" "w_id r = wid"
    using r by (auto simp: find_Some_iff in_set_conv_nth)
  then show thesis using w that [of r] by (auto simp: wallet_try_from_def res_simps split: option.splits)
qed

lemma as_i64_Suc: "u64_try_from i = Some w \<Longrightarrow> i < 2 ^ 63 - 1 \<Longrightarrow> as_i64 (w + 1) = i + 1"
proof -
  assume i: "u64_try_from i = Some w" "i < 2 ^ 63 - 1"
  then have "w + 1 = word_of_int (i + 1)" "0 < i + 1" by (auto simp: u64_try_from_def split: if_splits)
  then show ?thesis using as_i64_of_id [of "i + 1"] i(2) by simp
qed

lemma index_wallet_read_ok:
  assumes inv: "wallet_inv env s" and batch: "0 < batch"
    and rd: "index_wallet_read env batch max_id wid (sy_chain s) (sy_db s) = Inr (Some plan)" and ahead: "\<not> sy_ahead s wid"
  obtains r vk where "r \<in> set (wallets (sy_db s))" "w_id r = wid" "we_decrypt env (w_viewing_key r) wid = Inr vk"
    "plan_ok env (sy_chain s) wid (w_first_indexed r) (w_last_indexed r) vk plan"
    "\<forall>rel f. plan = Backward wid rel f \<longrightarrow> w_wanted_start_index r \<le> as_i64 f \<and> as_i64 f < w_first_indexed r"
proof -
  obtain w where gw: "get_wallet_by_id env wid (sy_db s) = Inr w"
    and br: "if wa_wanted_start_index w < wa_first_indexed_transaction_id w
        then plan_backward env batch wid w (sy_chain s) = Inr (Some plan)
        else plan_forward env batch wid w (sy_chain s) = Inr (Some plan)"
    using rd by (auto simp: index_wallet_read_def res_simps split: if_splits)
  from gw obtain r where r: "r \<in> set (wallets (sy_db s))" "w_id r = wid"
      "we_decrypt env (w_viewing_key r) wid = Inr (wa_viewing_key w)"
    and u: "u64_try_from (w_wanted_start_index r) = Some (wa_wanted_start_index w)"
      "u64_try_from (w_first_indexed r) = Some (wa_first_indexed_transaction_id w)"
      "u64_try_from (w_last_indexed r) = Some (wa_last_indexed_transaction_id w)"
    by (rule get_wallet_by_id_Inr)
  have chain: "chain_ids_ok (sy_chain s)" using inv by (simp add: wallet_inv_def)
  have ok: "row_ok env (sy_chain s) (recorded (sy_db s) wid) (sy_pending s wid) (sy_start s wid) r"
    using wallet_inv_row_ok [OF inv r(1)] r(2) ahead by simp
  note d = row_okD(1-6) [OF ok]
  have small: "w_wanted_start_index r < 2 ^ 63" "w_first_indexed r < 2 ^ 63" "w_last_indexed r < 2 ^ 63 - 1"
    using d chain unfolding chain_ids_ok_def by linarith+
  show thesis
  proof (cases "wa_wanted_start_index w < wa_first_indexed_transaction_id w")
    case True
    then have lt: "w_wanted_start_index r < w_first_indexed r" using as_i64_less [OF u(1,2) small(1,2)] by simp
    have p: "plan_backward env batch wid w (sy_chain s) = Inr (Some plan)" using br True by simp
    note pk = plan_backward_ok [OF chain batch p, of "w_wanted_start_index r" "w_first_indexed r" "w_last_indexed r"]
    have "as_i64 (wa_wanted_start_index w) = w_wanted_start_index r" "as_i64 (wa_first_indexed_transaction_id w) = w_first_indexed r"
      using as_i64_u64_try_from [OF u(1) small(1)] as_i64_u64_try_from [OF u(2) small(2)] by simp_all
    from pk [OF this d(1) lt] show ?thesis using that [OF r(1,2,3)] by auto
  next
    case False
    then have p: "plan_forward env batch wid w (sy_chain s) = Inr (Some plan)" using br by simp
    from plan_forward_ok [OF chain batch p as_i64_Suc [OF u(3) small(3)]] show ?thesis
      using that [OF r(1,2,3)] by auto
  qed
qed

lemma index_wallet_read_fits:
  assumes "index_wallet_read env batch max_id wid chain db = Inr (Some plan)"
  obtains r vk where "r \<in> set (wallets db)" "w_id r = wid" "we_decrypt env (w_viewing_key r) wid = Inr vk" "plan_fits wid vk plan"
proof -
  obtain w where w: "get_wallet_by_id env wid db = Inr w"
    and p: "plan_backward env batch wid w chain = Inr (Some plan) \<or> plan_forward env batch wid w chain = Inr (Some plan)"
    using assms by (auto simp: index_wallet_read_def res_simps split: if_splits)
  have "plan_fits wid (wa_viewing_key w) plan"
    using p by (auto simp: plan_backward_def plan_forward_def Let_def res_simps split: if_splits)
  then show thesis using get_wallet_by_id_Inr [OF w] that by metis
qed

lemma wallet_inv_pending:
  assumes inv: "wallet_inv env s" and "dom pend \<subseteq> w_id ` set (wallets (sy_db s))"
    and "\<And>r. r \<in> set (wallets (sy_db s)) \<Longrightarrow> row_inv env (sy_chain s) (recorded (sy_db s) (w_id r))
      (pend (w_id r)) (sy_start s (w_id r)) (sy_ahead s (w_id r)) r"
  shows "wallet_inv env (s\<lparr>sy_pending := pend\<rparr>)"
  using assms by (simp add: wallet_inv_def)

lemma row_inv_no_plan: "row_inv env chain rec pending start ahead r \<Longrightarrow> row_inv env chain rec None start ahead r"
  unfolding row_inv_def row_ok_def row_base_def by (auto split: if_splits)

lemma row_ok_plan:
  assumes "row_ok env chain rec None start r" and "we_decrypt env (w_viewing_key r) (w_id r) = Inr vk"
    and "plan_ok env chain (w_id r) (w_first_indexed r) (w_last_indexed r) vk plan"
    and "\<And>wid rel f. plan = Backward wid rel f \<Longrightarrow> w_wanted_start_index r \<le> as_i64 f"
  shows "row_ok env chain rec (Some plan) start r"
  using assms unfolding row_ok_def by auto

lemma wallet_inv_same_id:
  assumes "wallet_inv env s" "r \<in> set (wallets (sy_db s))" "r' \<in> set (wallets (sy_db s))" "w_id r' = w_id r"
  shows "r' = r"
  using assms unfolding wallet_inv_def by (metis distinct_map inj_onD)

lemma row_inv_read:
  assumes inv: "wallet_inv env s" and batch: "0 < batch"
    and rd: "index_wallet_read env batch max_id (w_id r) (sy_chain s) (sy_db s) = Inr (Some plan)" and r: "r \<in> set (wallets (sy_db s))"
  shows "row_inv env (sy_chain s) (recorded (sy_db s) (w_id r)) (Some plan) (sy_start s (w_id r)) (sy_ahead s (w_id r)) r"
proof (cases "sy_ahead s (w_id r)")
  case True
  obtain r' vk where r': "r' \<in> set (wallets (sy_db s))" "w_id r' = w_id r" "we_decrypt env (w_viewing_key r') (w_id r) = Inr vk" "plan_fits (w_id r) vk plan"
    by (rule index_wallet_read_fits [OF rd])
  then have "r' = r" using wallet_inv_same_id [OF inv r] by blast
  then show ?thesis using True row_inv_base [OF wallet_inv_row [OF inv r]] r' by (auto simp: row_inv_def row_base_def)
next
  case False
  obtain r' vk where r': "r' \<in> set (wallets (sy_db s))" "w_id r' = w_id r" "we_decrypt env (w_viewing_key r') (w_id r) = Inr vk"
    "plan_ok env (sy_chain s) (w_id r) (w_first_indexed r') (w_last_indexed r') vk plan"
    and b: "\<forall>rel f. plan = Backward (w_id r) rel f \<longrightarrow> w_wanted_start_index r' \<le> as_i64 f \<and> as_i64 f < w_first_indexed r'"
    using index_wallet_read_ok [OF inv batch rd False] by blast
  have "r' = r" using wallet_inv_same_id [OF inv r] r' by blast
  have "w_wanted_start_index r \<le> as_i64 f" if "plan = Backward wid' rel f" for wid' rel f
    using b that r'(4) \<open>r' = r\<close> by simp
  moreover have "row_ok env (sy_chain s) (recorded (sy_db s) (w_id r)) None (sy_start s (w_id r)) r"
    using row_inv_no_plan [OF wallet_inv_row [OF inv r]] False by (simp add: row_inv_def)
  ultimately show ?thesis using row_ok_plan [of env "sy_chain s" _ _ r vk plan] r' \<open>r' = r\<close> False by (simp add: row_inv_def)
qed

lemma wallet_inv_read:
  assumes inv: "wallet_inv env s" and batch: "0 < batch"
    and rd: "index_wallet_read env batch max_id wid (sy_chain s) (sy_db s) = Inr (Some plan)"
  shows "wallet_inv env (s\<lparr>sy_pending := (sy_pending s)(wid \<mapsto> plan)\<rparr>)"
proof (rule wallet_inv_pending [OF inv])
  obtain r vk where "r \<in> set (wallets (sy_db s))" "w_id r = wid" by (rule index_wallet_read_fits [OF rd])
  then show "dom ((sy_pending s)(wid \<mapsto> plan)) \<subseteq> w_id ` set (wallets (sy_db s))"
    using inv by (auto simp: wallet_inv_def)
next
  fix r assume r: "r \<in> set (wallets (sy_db s))"
  show "row_inv env (sy_chain s) (recorded (sy_db s) (w_id r)) (((sy_pending s)(wid \<mapsto> plan)) (w_id r))
      (sy_start s (w_id r)) (sy_ahead s (w_id r)) r"
    using row_inv_read [OF inv batch _ r] rd wallet_inv_row [OF inv r] by (cases "w_id r = wid") auto
qed

lemma wallet_inv_abort:
  assumes inv: "wallet_inv env s"
  shows "wallet_inv env (s\<lparr>sy_pending := (sy_pending s)(wid := None)\<rparr>)"
proof (rule wallet_inv_pending [OF inv])
  show "dom ((sy_pending s)(wid := None)) \<subseteq> w_id ` set (wallets (sy_db s))"
    using inv by (auto simp: wallet_inv_def)
next
  fix r assume r: "r \<in> set (wallets (sy_db s))"
  then show "row_inv env (sy_chain s) (recorded (sy_db s) (w_id r)) (((sy_pending s)(wid := None)) (w_id r))
      (sy_start s (w_id r)) (sy_ahead s (w_id r)) r"
    using row_inv_no_plan [OF wallet_inv_row [OF inv r]] wallet_inv_row [OF inv r] by (cases "w_id r = wid") simp_all
qed

text \<open>
  Writing a plan: the wallet's row moves its first or last indexed id and the plan's transactions are
  recorded. Nothing else changes.
\<close>

definition moved :: "plan \<Rightarrow> wallet_row \<Rightarrow> wallet_row" where
  "moved plan r = (case plan of Backward _ _ f \<Rightarrow> r\<lparr>w_first_indexed := as_i64 f\<rparr>
                             | Forward _ _ _ l \<Rightarrow> r\<lparr>w_last_indexed := as_i64 l\<rparr>)"

lemma moved_simps [simp]: "w_id (moved plan r) = w_id r" "w_viewing_key_hash (moved plan r) = w_viewing_key_hash r"
  "w_viewing_key (moved plan r) = w_viewing_key r" "w_wanted_start_index (moved plan r) = w_wanted_start_index r"
  by (simp_all add: moved_def split: plan.splits)

definition relevant_all :: "('e, 'ct, 'a, 'd) wallet_env \<Rightarrow> chain_db \<Rightarrow> bytes \<Rightarrow> i64 set" where
  "relevant_all env chain vk =
     {i. \<exists>r. (i, r) \<in> set (tx_rows chain) \<and> is_regular (i, r) \<and> row_relevant env vk (i, r)}"

lemma relevant_ids_iff: "relevant_ids env chain vk lo hi = {i \<in> relevant_all env chain vk. lo \<le> i \<and> i \<le> hi}"
  by (auto simp: relevant_ids_def relevant_all_def)

lemma plan_new:
  assumes ok: "row_ok env chain rec (Some plan) start r"
  shows "distinct (ids_of (plan_relevant plan)) \<and> set (ids_of (plan_relevant plan)) \<inter> rec = {}
    \<and> row_ok env chain (rec \<union> set (ids_of (plan_relevant plan))) None start (moved plan r)"
proof -
  note d = row_okD [OF ok]
  obtain vk where vk: "we_decrypt env (w_viewing_key r) (w_id r) = Inr vk" "w_viewing_key_hash r = we_hash env vk"
    and rec: "rec = relevant_ids env chain vk (w_first_indexed r) (w_last_indexed r) - {start}"
    and p: "plan_ok env chain (w_id r) (w_first_indexed r) (w_last_indexed r) vk plan"
    using ok unfolding row_ok_def by blast
  show ?thesis
  proof (cases plan)
    case (Backward wid rel f)
    have "w_wanted_start_index r \<le> as_i64 f" using d(7) Backward by blast
    moreover have f: "as_i64 f \<le> w_first_indexed r"
      and ids: "set (ids_of rel) = relevant_ids env chain vk (as_i64 f) (w_first_indexed r - 1)"
      using p Backward by simp_all
    moreover have "rec \<union> set (ids_of rel) = relevant_ids env chain vk (as_i64 f) (w_last_indexed r) - {start}"
      unfolding rec ids using f d(3,4) by (auto simp: relevant_ids_iff)
    moreover have "set (ids_of rel) \<inter> rec = {}" unfolding rec ids by (auto simp: relevant_ids_iff)
    ultimately show ?thesis using p vk d(1-6) Backward by (simp add: row_ok_def moved_def)
  next
    case (Forward wid vk' rel l)
    have l: "w_last_indexed r < as_i64 l" "as_i64 l < tab_next (transactions chain)"
      and ids: "set (ids_of rel) = relevant_ids env chain vk (w_last_indexed r + 1) (as_i64 l)"
      using p Forward by simp_all
    moreover have "rec \<union> set (ids_of rel) = relevant_ids env chain vk (w_first_indexed r) (as_i64 l) - {start}"
      unfolding rec ids using l d(3,4) by (auto simp: relevant_ids_iff)
    moreover have "set (ids_of rel) \<inter> rec = {}" unfolding rec ids by (auto simp: relevant_ids_iff)
    ultimately show ?thesis using p vk d(1-6) Forward by (simp add: row_ok_def moved_def)
  qed
qed

lemma index_wallet_write_insert:
  assumes inv: "wallet_inv env s" and r: "r \<in> set (wallets (sy_db s))" and p: "sy_pending s (w_id r) = Some plan"
    and enc: "\<forall>wid vk rel l. plan = Forward wid vk rel l \<longrightarrow> (\<exists>c. we_encrypt env vk new_id = Inr c)"
  shows "\<exists>f. index_wallet_write env new_id now plan (sy_db s) = map_err f (insert_relevant (w_id r) (plan_relevant plan)
      ((sy_db s)\<lparr>wallets := map (\<lambda>x. if w_id x = w_id r then moved plan x else x) (wallets (sy_db s))\<rparr>))"
proof -
  let ?db = "(sy_db s)\<lparr>wallets := map (\<lambda>x. if w_id x = w_id r then moved plan x else x) (wallets (sy_db s))\<rparr>"
  have base: "row_base env (Some plan) r" using row_inv_base [OF wallet_inv_row [OF inv r]] p by simp
  show ?thesis
  proof (cases plan)
    case (Backward wid rel f)
    have "wid = w_id r" using base Backward unfolding row_base_def by auto
    moreover have mv: "moved plan = (\<lambda>x. x\<lparr>w_first_indexed := as_i64 f\<rparr>)" by (simp add: fun_eq_iff moved_def Backward)
    ultimately show ?thesis using Backward
      unfolding mv by (auto simp: save_backward_relevant_transactions_def)
  next
    case (Forward wid vk rel l)
    obtain c where c: "we_encrypt env vk new_id = Inr c" using enc Forward by blast
    have h: "w_viewing_key_hash r = we_hash env vk" using base Forward unfolding row_base_def by auto
    have same: "w_viewing_key_hash x = we_hash env vk \<longleftrightarrow> w_id x = w_id r" if "x \<in> set (wallets (sy_db s))" for x
      using inv that r h unfolding wallet_inv_def by (metis distinct_map inj_onD)
    obtain x where x: "find (\<lambda>x. w_viewing_key_hash x = we_hash env vk) (wallets (sy_db s)) = Some x"
      using r h by (cases "find (\<lambda>x. w_viewing_key_hash x = we_hash env vk) (wallets (sy_db s))") (auto simp: find_None_iff)
    then have "x \<in> set (wallets (sy_db s))" "w_viewing_key_hash x = we_hash env vk"
      by (auto simp: find_Some_iff)
    then have id_x: "w_id x = w_id r" using same by blast
    have mp: "map (\<lambda>x. if w_viewing_key_hash x = we_hash env vk then x\<lparr>w_last_indexed := as_i64 l\<rparr> else x) (wallets (sy_db s))
        = map (\<lambda>x. if w_id x = w_id r then moved plan x else x) (wallets (sy_db s))"
      using same Forward by (simp add: moved_def)
    have "upsert_last_indexed \<lparr>w_id = new_id, w_viewing_key_hash = we_hash env vk, w_viewing_key = c,
          w_wanted_start_index = 0, w_first_indexed = 0, w_last_indexed = as_i64 l, w_last_active = now,
          w_session_id = None\<rparr> (sy_db s) = Inr (w_id r, ?db)"
      unfolding mp [symmetric] by (simp add: upsert_last_indexed_def x id_x cong: if_cong)
    then show ?thesis using c Forward by (auto simp: save_relevant_transactions_def)
  qed
qed

lemma index_wallet_write_Inr:
  assumes inv: "wallet_inv env s" and r: "r \<in> set (wallets (sy_db s))" and p: "sy_pending s (w_id r) = Some plan"
    and w: "index_wallet_write env new_id now plan (sy_db s) = Inr db"
  shows "\<exists>t. db = (sy_db s)\<lparr>wallets := map (\<lambda>x. if w_id x = w_id r then moved plan x else x) (wallets (sy_db s)),
             relevant_transactions := t\<rparr>
    \<and> unique relevant_key t
    \<and> recorded ((sy_db s)\<lparr>relevant_transactions := t\<rparr>)
      = (\<lambda>w. recorded (sy_db s) w \<union> (if w = w_id r then set (ids_of (plan_relevant plan)) else {}))
    \<and> rv_wallet_id ` snd ` set (tab_rows t) \<subseteq> w_id ` set (wallets (sy_db s))"
proof -
  let ?db = "(sy_db s)\<lparr>wallets := map (\<lambda>x. if w_id x = w_id r then moved plan x else x) (wallets (sy_db s))\<rparr>"
  have "\<forall>wid' vk rel l. plan = Forward wid' vk rel l \<longrightarrow> (\<exists>c. we_encrypt env vk new_id = Inr c)"
    using w by (auto simp: save_relevant_transactions_def res_simps)
  from index_wallet_write_insert [OF inv r p this, of now] obtain f where
    "index_wallet_write env new_id now plan (sy_db s) = map_err f (insert_relevant (w_id r) (plan_relevant plan) ?db)" by blast
  with w have ins: "insert_relevant (w_id r) (plan_relevant plan) ?db = Inr db" by (simp add: map_err_Inr_iff)
  have u: "unique relevant_key (relevant_transactions ?db)" using inv by (simp add: wallet_inv_def)
  obtain t where t: "db = ?db\<lparr>relevant_transactions := t\<rparr>" "unique relevant_key t"
      "recorded (?db\<lparr>relevant_transactions := t\<rparr>) = (\<lambda>w. recorded (sy_db s) w \<union> (if w = w_id r then set (ids_of (plan_relevant plan)) else {}))"
      "rv_wallet_id ` snd ` set (tab_rows t) \<subseteq> insert (w_id r) (rv_wallet_id ` snd ` set (tab_rows (relevant_transactions (sy_db s))))"
    using insert_relevant_Inr [OF u ins] by auto
  have "rv_wallet_id ` snd ` set (tab_rows t) \<subseteq> w_id ` set (wallets (sy_db s))"
  proof -
    have "rv_wallet_id ` snd ` set (tab_rows (relevant_transactions (sy_db s))) \<subseteq> w_id ` set (wallets (sy_db s))"
      using inv by (simp add: wallet_inv_def)
    then show ?thesis using t(4) r by (meson imageI insert_subset order_trans)
  qed
  moreover have "recorded ((sy_db s)\<lparr>relevant_transactions := t\<rparr>) = recorded (?db\<lparr>relevant_transactions := t\<rparr>)"
    by (simp add: recorded_def fun_eq_iff)
  ultimately show ?thesis using t(1,2,3) by auto
qed

lemma index_wallet_write_run:
  assumes inv: "wallet_inv env s" and r: "r \<in> set (wallets (sy_db s))" and p: "sy_pending s (w_id r) = Some plan"
    and enc: "\<forall>wid vk rel l. plan = Forward wid vk rel l \<longrightarrow> (\<exists>c. we_encrypt env vk new_id = Inr c)"
    and ahead: "\<not> sy_ahead s (w_id r)"
  shows "\<exists>t. index_wallet_write env new_id now plan (sy_db s)
      = Inr ((sy_db s)\<lparr>wallets := map (\<lambda>x. if w_id x = w_id r then moved plan x else x) (wallets (sy_db s)),
             relevant_transactions := t\<rparr>)"
proof -
  let ?db = "(sy_db s)\<lparr>wallets := map (\<lambda>x. if w_id x = w_id r then moved plan x else x) (wallets (sy_db s))\<rparr>"
  have ok: "row_ok env (sy_chain s) (recorded (sy_db s) (w_id r)) (Some plan) (sy_start s (w_id r)) r"
    using wallet_inv_row_ok [OF inv r ahead] p by simp
  have "set (ids_of (plan_relevant plan)) \<inter> recorded ?db (w_id r) = {}" using plan_new [OF ok] by simp
  then obtain db where "insert_relevant (w_id r) (plan_relevant plan) ?db = Inr db"
    using insert_relevant_ok plan_new [OF ok] by blast
  then have "index_wallet_write env new_id now plan (sy_db s) = Inr db"
    using index_wallet_write_insert [OF inv r p enc, of now] by auto
  then show ?thesis using index_wallet_write_Inr [OF inv r p, of new_id now db] by auto
qed

lemma wallet_inv_commit:
  assumes inv: "wallet_inv env s" and p: "sy_pending s wid = Some plan"
    and w: "index_wallet_write env new_id now plan (sy_db s) = Inr db"
  shows "wallet_inv env (s\<lparr>sy_db := db, sy_pending := (sy_pending s)(wid := None)\<rparr>)"
proof -
  obtain r where r: "r \<in> set (wallets (sy_db s))" and wid: "wid = w_id r"
    using inv p unfolding wallet_inv_def by blast
  obtain t where db0: "db = (sy_db s)\<lparr>wallets := map (\<lambda>x. if w_id x = w_id r then moved plan x else x) (wallets (sy_db s)),
             relevant_transactions := t\<rparr>"
    and t: "unique relevant_key t" "rv_wallet_id ` snd ` set (tab_rows t) \<subseteq> w_id ` set (wallets (sy_db s))"
    and rec: "recorded ((sy_db s)\<lparr>relevant_transactions := t\<rparr>)
      = (\<lambda>w. recorded (sy_db s) w \<union> (if w = w_id r then set (ids_of (plan_relevant plan)) else {}))"
    using index_wallet_write_Inr [OF inv r p [unfolded wid] w] by blast
  define f where "f = (\<lambda>x. if w_id x = w_id r then moved plan x else x)"
  have db: "db = (sy_db s)\<lparr>wallets := map f (wallets (sy_db s)), relevant_transactions := t\<rparr>"
    unfolding f_def by (rule db0)
  have f: "w_id (f x) = w_id x" "w_viewing_key_hash (f x) = w_viewing_key_hash x" "w_viewing_key (f x) = w_viewing_key x" for x
    by (simp_all add: f_def)
  have rec': "recorded db = recorded ((sy_db s)\<lparr>relevant_transactions := t\<rparr>)"
    by (simp add: db recorded_def fun_eq_iff)
  have maps: "map (w_id \<circ> f) (wallets (sy_db s)) = map w_id (wallets (sy_db s))"
    "map (w_viewing_key_hash \<circ> f) (wallets (sy_db s)) = map w_viewing_key_hash (wallets (sy_db s))" by (simp_all add: f)
  have ids: "w_id ` f ` set (wallets (sy_db s)) = w_id ` set (wallets (sy_db s))"
    by (simp add: image_image f)
  have rows: "row_inv env (sy_chain s) (recorded db (w_id (f x))) (((sy_pending s)(wid := None)) (w_id (f x)))
      (sy_start s (w_id (f x))) (sy_ahead s (w_id (f x))) (f x)" if x: "x \<in> set (wallets (sy_db s))" for x
  proof (cases "w_id x = w_id r \<and> \<not> sy_ahead s (w_id r)")
    case True
    then have "row_ok env (sy_chain s) (recorded (sy_db s) (w_id x)) (Some plan) (sy_start s (w_id x)) x"
      using wallet_inv_row_ok [OF inv x] p wid by simp
    from plan_new [OF this] show ?thesis using True by (simp add: rec' rec wid f_def row_inv_def)
  next
    case False
    have "row_base env (((sy_pending s)(wid := None)) (w_id x)) (f x)" if "sy_ahead s (w_id x)"
      using row_inv_base [OF wallet_inv_row [OF inv x]] by (auto simp: row_base_def f wid)
    moreover have "f x = x \<and> w_id x \<noteq> wid" if "\<not> sy_ahead s (w_id x)" using False that wid by (auto simp: f_def)
    ultimately show ?thesis using wallet_inv_row [OF inv x] by (auto simp: row_inv_def rec' rec wid f)
  qed
  have "distinct (map (w_id \<circ> f) (wallets (sy_db s)))" "distinct (map (w_viewing_key_hash \<circ> f) (wallets (sy_db s)))"
    unfolding maps using inv by (simp_all add: wallet_inv_def)
  moreover have "dom ((sy_pending s)(wid := None)) \<subseteq> w_id ` set (wallets (sy_db s))"
    using inv by (auto simp: wallet_inv_def)
  moreover have "\<forall>x \<in> set (map f (wallets (sy_db s))). row_inv env (sy_chain s) (recorded db (w_id x))
      (((sy_pending s)(wid := None)) (w_id x)) (sy_start s (w_id x)) (sy_ahead s (w_id x)) x"
    using rows by simp
  ultimately show ?thesis using inv t ids db unfolding wallet_inv_def by simp
qed

lemma wallet_step_inv:
  "wallet_step env batch s s' \<Longrightarrow> wallet_cipher env \<Longrightarrow> 0 < batch \<Longrightarrow> wallet_inv env s \<Longrightarrow> wallet_inv env s'"
proof (induction rule: wallet_step.induct)
  case (disconnect s session_id)
  then show ?case unfolding disconnect_wallet_def by (intro wallet_inv_touch) (simp_all add: touches_def)
next
  case (keep_active s now wid)
  then show ?case unfolding keep_wallet_active_def by (intro wallet_inv_touch) (simp_all add: touches_def)
next
  case (close s ids min_last_active)
  then show ?case unfolding close_sessions_def by (intro wallet_inv_touch) (simp_all add: touches_def)
next
  case (grow s chain)
  then show ?case by (intro wallet_inv_grow)
qed (simp_all add: wallet_inv_connect wallet_inv_read wallet_inv_commit wallet_inv_abort)

lemma wallet_reachable_inv:
  "wallet_reachable env batch s \<Longrightarrow> wallet_cipher env \<Longrightarrow> 0 < batch \<Longrightarrow> wallet_inv env s"
  by (induction rule: wallet_reachable.induct) (auto simp: wallet_inv_initial intro: wallet_step_inv)

section \<open>A sample\<close>

text \<open>
  A cipher that leaves the key in the clear, transactions of one output that the key with the same byte
  decrypts, a chain of two regular transactions and a system transaction, and a wallet that connects and
  is read once.
\<close>

definition wallet_sample_env :: "(string, u8, nat, string) wallet_env" where
  "wallet_sample_env = \<lparr>we_hash = id, we_encrypt = (\<lambda>vk _. Inr vk), we_decrypt = (\<lambda>c _. Inr c),
     we_deserialize = (\<lambda>raw _. Inr (TxV8 (Standard (Some \<lparr>of_outputs = map Some raw, of_transient = []\<rparr>) [] []))),
     we_decrypt_v8 = (\<lambda>vk ct. vk = [ct]), we_decrypt_v9 = (\<lambda>vk ct. vk = [ct])\<rparr>"

definition wallet_sample_tx :: "transaction_variant \<Rightarrow> u8 \<Rightarrow> transaction_row" where
  "wallet_sample_tx v b = \<lparr>t_block_id = 1, t_variant = v, t_hash = [b], t_protocol_version = 22000, t_raw = [b]\<rparr>"

definition wallet_sample_chain :: chain_db where
  "wallet_sample_chain = empty_chain_db\<lparr>transactions := \<lparr>tab_next = 4, tab_rows =
     [(1, wallet_sample_tx RegularVariant 7), (2, wallet_sample_tx SystemVariant 7), (3, wallet_sample_tx RegularVariant 8)]\<rparr>\<rparr>"

definition wallet_sample_row :: wallet_row where
  "wallet_sample_row = \<lparr>w_id = [5], w_viewing_key_hash = [7], w_viewing_key = [7], w_wanted_start_index = 0,
     w_first_indexed = 0, w_last_indexed = 0, w_last_active = 10, w_session_id = Some [9]\<rparr>"

definition wallet_sample_connected :: wallet_sys where
  "wallet_sample_connected = (initial_sys wallet_sample_chain)\<lparr>sy_db := empty_wallet_db\<lparr>wallets := [wallet_sample_row]\<rparr>,
     sy_start := (\<lambda>_. 0), sy_ahead := (\<lambda>_. False)\<rparr>"

definition wallet_sample_plan :: plan where
  "wallet_sample_plan = Forward [5] [7] [\<lparr>wt_id = 1, wt_protocol_version = V0_22 22000, wt_raw = [7]\<rparr>] 3"

definition wallet_sample_read :: wallet_sys where
  "wallet_sample_read = wallet_sample_connected\<lparr>sy_pending := [[5] \<mapsto> wallet_sample_plan]\<rparr>"

lemma wallet_sample_cipher: "wallet_cipher wallet_sample_env"
  by (simp add: wallet_cipher_def wallet_sample_env_def)

lemma wallet_sample_chain_ok: "chain_ids_ok wallet_sample_chain"
  by (simp add: chain_ids_ok_def table_ok_def wallet_sample_chain_def)

lemma wallet_sample_connected_reachable: "wallet_reachable wallet_sample_env 2 wallet_sample_connected"
proof -
  let ?s = "initial_sys wallet_sample_chain" and ?db = "empty_wallet_db\<lparr>wallets := [wallet_sample_row]\<rparr>"
  have c: "connect_wallet wallet_sample_env [5] [9] 10 [7] None (sy_db ?s) = Inr ([9], ?db)"
    by (simp add: connect_wallet_def wallet_sample_env_def initial_sys_def empty_wallet_db_def wallet_sample_row_def as_i64_def Let_def)
  have "start_of None = 0" by (simp add: start_of_def as_i64_def)
  then have "wallet_step wallet_sample_env 2 ?s wallet_sample_connected"
    using wallet_step.connect [OF c]
    by (simp add: initial_sys_def wallet_sample_connected_def wallet_sample_chain_def if_distrib cong: if_cong)
  then show ?thesis using wallet_reachable.initial [OF wallet_sample_chain_ok] wallet_reachable.step by blast
qed

lemma wallet_sample_plan_read: "index_wallet_read wallet_sample_env 2 3 [5] wallet_sample_chain (sy_db wallet_sample_connected) = Inr (Some wallet_sample_plan)"
  by (simp add: index_wallet_read_def get_wallet_by_id_def wallet_sample_connected_def wallet_sample_row_def empty_wallet_db_def
    wallet_try_from_def u64_try_from_def wallet_sample_env_def plan_forward_def get_transactions_def select_where_def
    wallet_sample_chain_def wallet_sample_tx_def as_i64_def wallet_transaction_from_row_def try_from_i64_def try_from_u32_def
    relevant_transactions_of_def wallet_transaction_relevant_def can_decrypt_def wallet_sample_plan_def)

lemma wallet_sample_read_reachable: "wallet_reachable wallet_sample_env 2 wallet_sample_read"
proof -
  have "wallet_step wallet_sample_env 2 wallet_sample_connected (wallet_sample_connected\<lparr>sy_pending := (sy_pending wallet_sample_connected)([5] \<mapsto> wallet_sample_plan)\<rparr>)"
    by (rule wallet_step.read [where max_id = 3]) (use wallet_sample_plan_read in \<open>simp_all add: wallet_sample_connected_def initial_sys_def\<close>)
  moreover have "sy_pending wallet_sample_connected = Map.empty" by (simp add: wallet_sample_connected_def initial_sys_def)
  ultimately show ?thesis using wallet_sample_connected_reachable wallet_reachable.step unfolding wallet_sample_read_def by metis
qed

text \<open>The same wallet once the plan has been written.\<close>

definition wallet_sample_indexed :: wallet_sys where
  "wallet_sample_indexed = wallet_sample_read\<lparr>sy_db := empty_wallet_db\<lparr>wallets := [wallet_sample_row\<lparr>w_last_indexed := 3\<rparr>],
     relevant_transactions := \<lparr>tab_next = 2, tab_rows = [(1, \<lparr>rv_wallet_id = [5], rv_transaction_id = 1\<rparr>)]\<rparr>\<rparr>,
     sy_pending := Map.empty\<rparr>"

lemma wallet_sample_indexed_reachable: "wallet_reachable wallet_sample_env 2 wallet_sample_indexed"
proof -
  have "index_wallet_write wallet_sample_env [6] 11 wallet_sample_plan (sy_db wallet_sample_read) = Inr (sy_db wallet_sample_indexed)"
    by code_simp
  then have "wallet_step wallet_sample_env 2 wallet_sample_read (wallet_sample_read\<lparr>sy_db := sy_db wallet_sample_indexed,
      sy_pending := (sy_pending wallet_sample_read)([5] := None)\<rparr>)"
    by (intro wallet_step.commit) (simp_all add: wallet_sample_read_def)
  moreover have "wallet_sample_read\<lparr>sy_db := sy_db wallet_sample_indexed, sy_pending := (sy_pending wallet_sample_read)([5] := None)\<rparr>
      = wallet_sample_indexed"
    by (simp add: wallet_sample_indexed_def wallet_sample_read_def)
  ultimately show ?thesis using wallet_reachable.step [OF wallet_sample_read_reachable] by metis
qed

section \<open>Properties\<close>

text \<open>
  C19. Whatever connects, disconnects, adds transactions, reads, writes or fails in between, and whatever start indices are asked
  for, the transactions recorded for a wallet are exactly the regular transactions of its indexed range that are relevant for its
  viewing key, each recorded once, with the exception of the one whose id is the start index the wallet was created
  with: that one is never recorded, although the API documents the start index as inclusive. The indexed range always includes the start index, and never
  reaches below the wanted start. This holds for every wallet whose start index was not beyond the next transaction id when it was created;
  \<^verbatim>\<open>connect_wallet\<close> accepts larger ones, for which transactions that arrive below the start index may be missed (\<open>ahead_wallet_misses\<close>).
\<close>

theorem wallet_records_exactly:
  assumes "wallet_reachable env batch s" and "wallet_cipher env" and "0 < batch"
    and "r \<in> set (wallets (sy_db s))" and "we_decrypt env (w_viewing_key r) (w_id r) = Inr vk" and "\<not> sy_ahead s (w_id r)"
  shows "recorded (sy_db s) (w_id r)
      = relevant_ids env (sy_chain s) vk (w_first_indexed r) (w_last_indexed r) - {sy_start s (w_id r)}
    \<and> unique relevant_key (relevant_transactions (sy_db s))
    \<and> w_wanted_start_index r \<le> w_first_indexed r \<and> w_first_indexed r \<le> sy_start s (w_id r)
    \<and> sy_start s (w_id r) \<le> w_last_indexed r"
proof -
  have inv: "wallet_inv env s" by (rule wallet_reachable_inv [OF assms(1-3)])
  then have "row_ok env (sy_chain s) (recorded (sy_db s) (w_id r)) (sy_pending s (w_id r)) (sy_start s (w_id r)) r"
    using wallet_inv_row_ok [OF _ assms(4,6)] by blast
  then show ?thesis using assms(5) inv unfolding row_ok_def wallet_inv_def by auto
qed

theorem wallet_records_exactly_witness:
  "recorded (sy_db wallet_sample_indexed) [5] = relevant_ids wallet_sample_env wallet_sample_chain [7] 0 3 - {0}
    \<and> recorded (sy_db wallet_sample_indexed) [5] = {1}"
proof -
  have "recorded (sy_db wallet_sample_indexed) [5] = {1}"
    by (auto simp: wallet_sample_indexed_def recorded_def)
  then show ?thesis using wallet_records_exactly [OF wallet_sample_indexed_reachable wallet_sample_cipher,
    of "wallet_sample_row\<lparr>w_last_indexed := 3\<rparr>" "[7]"]
  by (simp add: wallet_sample_indexed_def wallet_sample_read_def wallet_sample_connected_def initial_sys_def
    wallet_sample_row_def)
      (simp add: wallet_sample_env_def)
qed

text \<open>
  Writing what an indexer of a wallet has read never fails on the database: no transaction is
  recorded twice, whatever happened between reading and writing. Only the encryption of the viewing key
  may fail, and only in a forward scan.
\<close>

theorem index_wallet_write_never_conflicts:
  assumes "wallet_reachable env batch s" and "wallet_cipher env" and "0 < batch"
    and "sy_pending s wid = Some plan" and "\<not> sy_ahead s wid"
    and "\<forall>wid vk rel l. plan = Forward wid vk rel l \<longrightarrow> (\<exists>c. we_encrypt env vk new_id = Inr c)"
  shows "is_ok (index_wallet_write env new_id now plan (sy_db s))"
proof -
  have inv: "wallet_inv env s" by (rule wallet_reachable_inv [OF assms(1-3)])
  then obtain r where r: "r \<in> set (wallets (sy_db s))" "wid = w_id r"
    using assms(4) unfolding wallet_inv_def by blast
  from index_wallet_write_run [where now = now, OF inv r(1) assms(4) [unfolded r(2)] assms(6) assms(5) [unfolded r(2)]] show ?thesis by auto
qed

theorem index_wallet_write_never_conflicts_witness:
  "is_ok (index_wallet_write wallet_sample_env [6] 11 wallet_sample_plan (sy_db wallet_sample_read))"
proof -
  have "sy_pending wallet_sample_read [5] = Some wallet_sample_plan" by (simp add: wallet_sample_read_def)
  then show ?thesis
    by (rule index_wallet_write_never_conflicts [OF wallet_sample_read_reachable wallet_sample_cipher zero_less_numeral])
      (simp_all add: wallet_sample_env_def wallet_sample_read_def wallet_sample_connected_def)
qed

section \<open>A wallet created ahead of the chain\<close>

text \<open>
  The wallet is created with start index 5 on an empty chain and connects again with start index 0; the backward scan finds
  nothing and completes the range down to 0. The transactions 1 to 3 that arrive afterwards are inside the range, one of them is
  relevant, and it is not recorded.
\<close>

definition ahead_row :: wallet_row where
  "ahead_row = wallet_sample_row\<lparr>w_first_indexed := 5, w_last_indexed := 5\<rparr>"

definition wallet_sample_reaches :: "wallet_db \<Rightarrow> chain_db \<Rightarrow> (bytes \<Rightarrow> plan option) \<Rightarrow> bool" where
  "wallet_sample_reaches db chain pending \<longleftrightarrow> (\<exists>s. wallet_reachable wallet_sample_env 2 s
     \<and> sy_db s = db \<and> sy_chain s = chain \<and> sy_pending s = pending)"

lemma wallet_sample_reaches_step:
  assumes "wallet_sample_reaches db chain pending"
    and "\<And>s. sy_db s = db \<Longrightarrow> sy_chain s = chain \<Longrightarrow> sy_pending s = pending \<Longrightarrow> wallet_step wallet_sample_env 2 s (f s)"
    and "\<And>s. sy_db s = db \<Longrightarrow> sy_chain s = chain \<Longrightarrow> sy_pending s = pending \<Longrightarrow>
      sy_db (f s) = db' \<and> sy_chain (f s) = chain' \<and> sy_pending (f s) = pending'"
  shows "wallet_sample_reaches db' chain' pending'"
proof -
  obtain s where s: "wallet_reachable wallet_sample_env 2 s" "sy_db s = db" "sy_chain s = chain" "sy_pending s = pending"
    using assms(1) unfolding wallet_sample_reaches_def by blast
  from wallet_reachable.step [OF s(1) assms(2) [OF s(2-4)]] assms(3) [OF s(2-4)] show ?thesis
    unfolding wallet_sample_reaches_def by blast
qed

lemma wallet_sample_connects:
  assumes "wallet_sample_reaches db chain pending"
    and "connect_wallet wallet_sample_env new_id session_id now vk start_index db = Inr (sid, db')"
  shows "wallet_sample_reaches db' chain pending"
  by (rule wallet_sample_reaches_step [OF assms(1)], rule wallet_step.connect) (use assms(2) in simp_all)

lemma wallet_sample_indexes:
  assumes "wallet_sample_reaches db chain Map.empty"
    and "index_wallet_read wallet_sample_env 2 max_id wid chain db = Inr (Some plan)"
    and "index_wallet_write wallet_sample_env new_id now plan db = Inr db'"
  shows "wallet_sample_reaches db' chain Map.empty"
proof -
  have "wallet_sample_reaches db chain [wid \<mapsto> plan]"
    by (rule wallet_sample_reaches_step [OF assms(1)], rule wallet_step.read [where wid = wid]) (use assms(2) in simp_all)
  moreover have "wallet_step wallet_sample_env 2 s (s\<lparr>sy_db := db', sy_pending := (sy_pending s)(wid := None)\<rparr>)"
    if "sy_db s = db" "sy_pending s = [wid \<mapsto> plan]" for s
    by (rule wallet_step.commit [where plan = plan and new_id = new_id and now = now]) (use that assms(3) in simp_all)
  ultimately show ?thesis by (rule wallet_sample_reaches_step) simp_all
qed

lemma ahead_scanned:
  "wallet_sample_reaches (empty_wallet_db\<lparr>wallets := [ahead_row\<lparr>w_first_indexed := 0\<rparr>]\<rparr>) empty_chain_db Map.empty"
proof -
  let ?db = "empty_wallet_db\<lparr>wallets := [ahead_row]\<rparr>" and ?plan = "Backward [5] [] 0"
    and ?first = "empty_wallet_db\<lparr>wallets := [ahead_row\<lparr>w_wanted_start_index := 5\<rparr>]\<rparr>"
  have "chain_ids_ok empty_chain_db" by (simp add: chain_ids_ok_def table_ok_def empty_chain_db_def empty_table_def)
  then have "wallet_sample_reaches empty_wallet_db empty_chain_db Map.empty"
    unfolding wallet_sample_reaches_def
    by (intro exI [of _ "initial_sys empty_chain_db"] conjI wallet_reachable.initial) (simp_all add: initial_sys_def)
  moreover have "connect_wallet wallet_sample_env [5] [9] 10 [7] (Some 5) empty_wallet_db = Inr ([9], ?first)"
    by (simp add: connect_wallet_def wallet_sample_env_def empty_wallet_db_def wallet_sample_row_def ahead_row_def as_i64_def Let_def)
  ultimately have "wallet_sample_reaches ?first empty_chain_db Map.empty" by (rule wallet_sample_connects)
  moreover have "connect_wallet wallet_sample_env [6] [9] 10 [7] (Some 0) ?first = Inr ([9], ?db)"
    by (simp add: connect_wallet_def wallet_sample_env_def empty_wallet_db_def wallet_sample_row_def ahead_row_def as_i64_def Let_def)
  ultimately have "wallet_sample_reaches ?db empty_chain_db Map.empty" by (rule wallet_sample_connects)
  moreover have "index_wallet_read wallet_sample_env 2 0 [5] empty_chain_db ?db = Inr (Some ?plan)" by code_simp
  moreover have "index_wallet_write wallet_sample_env [6] 11 ?plan ?db = Inr (empty_wallet_db\<lparr>wallets := [ahead_row\<lparr>w_first_indexed := 0\<rparr>]\<rparr>)"
    by code_simp
  ultimately show ?thesis by (rule wallet_sample_indexes)
qed

lemma ahead_wallet_misses:
  "\<exists>s r. wallet_reachable wallet_sample_env 2 s \<and> r \<in> set (wallets (sy_db s))
     \<and> 1 \<in> relevant_ids wallet_sample_env (sy_chain s) [7] (w_first_indexed r) (w_last_indexed r) - {5}
     \<and> recorded (sy_db s) (w_id r) = {}"
proof -
  have "wallet_sample_reaches (empty_wallet_db\<lparr>wallets := [ahead_row\<lparr>w_first_indexed := 0\<rparr>]\<rparr>) wallet_sample_chain Map.empty"
    by (rule wallet_sample_reaches_step [OF ahead_scanned], rule wallet_step.grow [OF _ wallet_sample_chain_ok])
      (auto simp: empty_chain_db_def empty_table_def wallet_sample_chain_def)
  moreover have "1 \<in> relevant_ids wallet_sample_env wallet_sample_chain [7] 0 5"
    by (simp add: relevant_ids_def wallet_sample_chain_def wallet_sample_tx_def wallet_sample_env_def is_regular_def
      row_relevant_def wallet_transaction_relevant_def can_decrypt_def wallet_transaction_from_row_def u64_try_from_def try_from_i64_def try_from_u32_def)
  ultimately show ?thesis unfolding wallet_sample_reaches_def
    by (fastforce simp: ahead_row_def recorded_def empty_wallet_db_def empty_table_def wallet_sample_row_def)
qed

end
