(* ===== verification/Paging.thy ===== *)
theory Paging
  imports Prelude "HOL-Library.Sublist"
begin

text \<open>
  Streams read page by page, as the API's storage does (\<^verbatim>\<open>try_stream!\<close> loops over a query with
  \<^verbatim>\<open>WHERE key >= $cursor ORDER BY key LIMIT $batch_size\<close>, flattened by
  \<^verbatim>\<open>indexer-common/src/stream.rs\<close>), and subscriptions, which stream what exists and again
  whatever has been added each time an event arrives. Every page may see another state of the database.
\<close>

section \<open>Pages\<close>

text \<open>
  The loop. The list holds the states of the database the successive queries see; a stream that asks for
  more pages than the list has states has not ended and gives \<^term>\<open>None\<close>. An error ends the stream
  after the items already yielded.
\<close>

fun pages :: "('c \<Rightarrow> 'db \<Rightarrow> 'e + 'a list) \<Rightarrow> ('a \<Rightarrow> 'c) \<Rightarrow> 'c \<Rightarrow> 'db list \<Rightarrow> ('a list \<times> 'e option) option" where
  "pages fetch after cursor [] = None"
| "pages fetch after cursor (db # dbs) =
     (case fetch cursor db of
        Inl e \<Rightarrow> Some ([], Some e)
      | Inr items \<Rightarrow>
          if items = [] then Some ([], None)
          else map_option (\<lambda>(rest, e). (items @ rest, e)) (pages fetch after (after (last items)) dbs))"

text \<open>
  A subscription: a stream of pages for what exists, then one for each event. The cursor moves with every
  item yielded.
\<close>

fun subscription ::
  "('c \<Rightarrow> 'db \<Rightarrow> 'e + 'a list) \<Rightarrow> ('a \<Rightarrow> 'c) \<Rightarrow> 'c \<Rightarrow> 'db list list \<Rightarrow> (('c \<times> 'a) list \<times> 'c \<times> 'e option) option" where
  "subscription fetch after cursor [] = Some ([], cursor, None)"
| "subscription fetch after cursor (dbs # events) =
     (case pages fetch after cursor dbs of
        None \<Rightarrow> None
      | Some (items, e) \<Rightarrow>
          let cursors = cursor # map after items;
              yielded = zip cursors items in
          (case e of
             Some e \<Rightarrow> Some (yielded, last cursors, Some e)
           | None \<Rightarrow> map_option (\<lambda>(rest, c, e). (yielded @ rest, c, e))
                       (subscription fetch after (last cursors) events)))"

text \<open>States of a database, each grown from the ones before.\<close>

definition growing :: "('db \<Rightarrow> bool) \<Rightarrow> ('db \<Rightarrow> 'db \<Rightarrow> bool) \<Rightarrow> 'db list \<Rightarrow> bool" where
  "growing ok grown dbs \<longleftrightarrow> sorted_wrt grown dbs \<and> list_all ok dbs"

lemma growing_simps [simp]:
  "growing ok grown []" "growing ok grown (db # dbs) \<longleftrightarrow> ok db \<and> list_all (grown db) dbs \<and> growing ok grown dbs"
  "growing ok grown (dbs @ dbs') \<longleftrightarrow> growing ok grown dbs \<and> growing ok grown dbs' \<and> list_all (\<lambda>a. list_all (grown a) dbs') dbs"
  by (auto simp: growing_def list_all_iff sorted_wrt_append)

lemma growingD: "growing ok grown dbs \<Longrightarrow> db \<in> set dbs \<Longrightarrow> ok db"
  by (simp add: growing_def list_all_iff)

section \<open>Keyset pages\<close>

lemma is_ok_iff: "is_ok r \<longleftrightarrow> (\<exists>a. r = Inr a)"
  by (cases r) auto

lemma try_map_ok: "(\<And>x. x \<in> set xs \<Longrightarrow> is_ok (f x)) \<Longrightarrow> is_ok (try_map f xs)"
  by (induction xs) (auto simp: is_ok_iff split: sum.splits, fastforce)

lemma try_map_take_filter:
  assumes "\<And>x. x \<in> set xs \<Longrightarrow> f x = Inr (g x)" and "\<And>x. x \<in> set xs \<Longrightarrow> P x = Q (g x)"
  shows "try_map f (take n (filter P xs)) = Inr (take n (filter Q (map g xs)))"
proof -
  have "filter Q (map g xs) = map g (filter P xs)" using assms(2) by (simp add: filter_map comp_def cong: filter_cong)
  moreover have "try_map f (take n (filter P xs)) = Inr (map g (take n (filter P xs)))"
    using assms(1) by (intro try_map_total) (auto dest: in_set_takeD)
  ultimately show ?thesis by (simp add: take_map)
qed

text \<open>
  What a query must promise for its pages to be complete: a page is the first \<open>limit\<close> rows at or above
  the cursor, each row lies below the cursor after it and that at or below the rows that follow, and
  later states only add rows at the end.
\<close>

locale keyset =
  fixes ok :: "'q \<Rightarrow> 'db \<Rightarrow> bool"
    and grown :: "'q \<Rightarrow> 'db \<Rightarrow> 'db \<Rightarrow> bool"
    and rows :: "'q \<Rightarrow> 'db \<Rightarrow> 'a list"
    and key :: "'a \<Rightarrow> int"
    and pos :: "'c \<Rightarrow> int"
    and after :: "'a \<Rightarrow> 'c"
    and fetch :: "'q \<Rightarrow> nat \<Rightarrow> 'c \<Rightarrow> 'db \<Rightarrow> 'e + 'a list"
  assumes fetch_page: "ok q db \<Longrightarrow> fetch q limit c db = Inr (take limit (filter (\<lambda>x. pos c \<le> key x) (rows q db)))"
    and rows_apart: "ok q db \<Longrightarrow> sorted_wrt (\<lambda>x y. pos (after x) \<le> key y) (rows q db)"
    and key_before: "ok q db \<Longrightarrow> x \<in> set (rows q db) \<Longrightarrow> key x < pos (after x)"
    and rows_grown: "grown q db db' \<Longrightarrow> ok q db \<Longrightarrow> ok q db' \<Longrightarrow> prefix (rows q db) (rows q db')"
begin

abbreviation rows_from :: "'q \<Rightarrow> 'c \<Rightarrow> 'db \<Rightarrow> 'a list" where
  "rows_from q c db \<equiv> filter (\<lambda>x. pos c \<le> key x) (rows q db)"

lemma rest_after:
  assumes "sorted_wrt (\<lambda>x y. pos (after x) \<le> key y) (xs @ ys)" and "\<And>x. x \<in> set (xs @ ys) \<Longrightarrow> key x < pos (after x)"
    and "xs \<noteq> []"
  shows "filter (\<lambda>x. pos (after (last xs)) \<le> key x) (xs @ ys) = ys"
proof -
  have "xs = butlast xs @ [last xs]" using assms(3) by simp
  then obtain xs' x where xs: "xs = xs' @ [x]" by blast
  have "\<not> pos (after x) \<le> key y" if "y \<in> set xs" for y
  proof (cases "y = x")
    case True
    then show ?thesis using assms(2) [of y] that by simp
  next
    case False
    then have "y \<in> set xs'" using that xs by simp
    then have "pos (after y) \<le> key x" using assms(1) xs by (simp add: sorted_wrt_append)
    moreover have "key y < pos (after y)" "key x < pos (after x)" using assms(2) that xs by auto
    ultimately show ?thesis by simp
  qed
  then have "filter (\<lambda>y. pos (after x) \<le> key y) xs = []" by (simp add: filter_empty_conv)
  moreover have "filter (\<lambda>y. pos (after x) \<le> key y) ys = ys"
    using assms(1) xs by (simp add: sorted_wrt_append filter_id_conv)
  ultimately show ?thesis by (simp add: xs [symmetric] last_snoc [of xs' x, folded xs])
qed

lemma rows_from_apart: "ok q db \<Longrightarrow> sorted_wrt (\<lambda>x y. pos (after x) \<le> key y) (rows_from q c db)"
  by (rule sorted_wrt_filter) (rule rows_apart)

text \<open>A page, and what is left after it in any later state.\<close>

lemma page_then_rest:
  assumes ok: "ok q db" "ok q db'" and "grown q db db'" and ne: "take limit (rows_from q c db) \<noteq> []"
  shows "take limit (rows_from q c db) @ rows_from q (after (last (take limit (rows_from q c db)))) db' = rows_from q c db'"
proof -
  obtain zs where zs: "rows q db' = rows q db @ zs" using rows_grown [OF assms(3) ok] by (auto simp: prefix_def)
  let ?p = "take limit (rows_from q c db)"
  let ?r = "drop limit (rows_from q c db) @ filter (\<lambda>x. pos c \<le> key x) zs"
  have split: "rows_from q c db' = ?p @ ?r" unfolding zs by simp
  have "last ?p \<in> set (rows_from q c db)" using last_in_set [OF ne] by (rule in_set_takeD)
  then have lp: "pos c \<le> key (last ?p)" "last ?p \<in> set (rows q db')" using zs by auto
  then have below: "pos c \<le> key x" if "pos (after (last ?p)) \<le> key x" for x
    using key_before [OF ok(2) lp(2)] that by linarith
  have "rows_from q (after (last ?p)) db' = filter (\<lambda>x. pos (after (last ?p)) \<le> key x) (rows_from q c db')"
    unfolding filter_filter by (rule filter_cong [OF refl]) (use below in blast)
  also have "\<dots> = ?r"
    unfolding split
  proof (rule rest_after)
    show "sorted_wrt (\<lambda>x y. pos (after x) \<le> key y) (?p @ ?r)"
      unfolding split [symmetric] by (rule rows_from_apart [OF ok(2)])
    show "key x < pos (after x)" if "x \<in> set (?p @ ?r)" for x
      using that unfolding split [symmetric] by (intro key_before [OF ok(2)]) simp
  qed (rule ne)
  finally show ?thesis unfolding split by simp
qed

text \<open>A stream that ends has yielded all rows from its cursor on, as of one of the states it has seen.\<close>

lemma pages_complete:
  assumes "growing (ok q) (grown q) dbs" and "0 < limit" and "pages (fetch q limit) after c dbs = Some (xs, e)"
  shows "e = None \<and> (\<exists>db \<in> set dbs. xs = rows_from q c db)"
  using assms
proof (induction dbs arbitrary: c xs e)
  case (Cons db dbs)
  have ok: "ok q db" using Cons.prems by simp
  show ?case
  proof (cases "take limit (rows_from q c db) = []")
    case True
    then have "rows_from q c db = []" using Cons.prems(2) by simp
    then show ?thesis using Cons.prems(3) by (simp add: fetch_page [OF ok])
  next
    case False
    let ?p = "take limit (rows_from q c db)"
    obtain ys where p: "pages (fetch q limit) after (after (last ?p)) dbs = Some (ys, e)" and xs: "xs = ?p @ ys"
      using Cons.prems(3) False by (auto simp: fetch_page [OF ok])
    with Cons.IH [OF _ Cons.prems(2) p] Cons.prems(1) obtain db' where
      db': "e = None" "db' \<in> set dbs" "ys = rows_from q (after (last ?p)) db'" by auto
    then have "grown q db db'" "ok q db'" using Cons.prems(1) by (auto simp: growing_def list_all_iff)
    from page_then_rest [OF ok this(2,1) False] show ?thesis using db' xs by auto
  qed
qed simp

text \<open>It ends as soon as it has been asked for more pages than there are rows.\<close>

lemma pages_end:
  assumes "growing (ok q) (grown q) dbs" and "0 < limit" and "dbs \<noteq> []" and "\<And>db. db \<in> set dbs \<Longrightarrow> length (rows_from q c db) < length dbs"
  shows "pages (fetch q limit) after c dbs \<noteq> None"
  using assms
proof (induction dbs arbitrary: c)
  case (Cons db dbs)
  have ok: "ok q db" using Cons.prems by simp
  show ?case
  proof (cases "take limit (rows_from q c db) = []")
    case False
    let ?p = "take limit (rows_from q c db)"
    have "length (rows_from q (after (last ?p)) db') < length dbs" if "db' \<in> set dbs" for db'
    proof -
      have "grown q db db'" "ok q db'" using Cons.prems(1) that by (auto simp: growing_def list_all_iff)
      from arg_cong [OF page_then_rest [OF ok this(2,1) False], of length]
      have "length ?p + length (rows_from q (after (last ?p)) db') = length (rows_from q c db')" by simp
      moreover have "length (rows_from q c db') < Suc (length dbs)" using Cons.prems(4) that by simp
      moreover have "0 < length ?p" using False by blast
      ultimately show ?thesis by linarith
    qed
    moreover have "dbs \<noteq> []" using Cons.prems(4) [of db] False by auto
    ultimately show ?thesis using Cons.IH Cons.prems(1,2) False by (simp add: fetch_page [OF ok])
  qed (simp add: fetch_page [OF ok])
qed simp

text \<open>So does a subscription, after each event.\<close>

lemma subscription_ends:
  assumes "growing (ok q) (grown q) (concat events)" and "0 < limit"
    and "\<And>dbs db. dbs \<in> set events \<Longrightarrow> db \<in> set dbs \<Longrightarrow> length (rows q db) < length dbs" and "[] \<notin> set events"
  shows "subscription (fetch q limit) after c events \<noteq> None"
  using assms
proof (induction events arbitrary: c)
  case (Cons dbs events)
  have "length (rows_from q c db) < length dbs" if "db \<in> set dbs" for db
    using Cons.prems(3) [of dbs db] that by (intro le_less_trans [OF length_filter_le]) simp
  moreover have "growing (ok q) (grown q) dbs" "dbs \<noteq> []" using Cons.prems(1,4) by auto
  ultimately obtain xs e where p: "pages (fetch q limit) after c dbs = Some (xs, e)"
    using pages_end [of q dbs limit c] Cons.prems(2) by auto
  have "subscription (fetch q limit) after (last (c # map after xs)) events \<noteq> None"
    using Cons.IH Cons.prems by simp
  then show ?case using p by (cases e) (simp_all add: Let_def del: last.simps)
qed simp

text \<open>A subscription yields every row from its cursor on exactly once and in order.\<close>

lemma subscription_complete:
  assumes "growing (ok q) (grown q) (concat events)" and "0 < limit" and "events \<noteq> []"
    and "subscription (fetch q limit) after c events = Some (ys, c', e)"
  shows "e = None \<and> (\<exists>db \<in> set (last events). map snd ys = rows_from q c db)
    \<and> map fst ys = butlast (c # map after (map snd ys)) \<and> c' = last (c # map after (map snd ys))"
  using assms
proof (induction events arbitrary: c ys)
  case (Cons dbs events)
  obtain xs e1 where p: "pages (fetch q limit) after c dbs = Some (xs, e1)"
    using Cons.prems(4) by (auto split: option.splits)
  have "growing (ok q) (grown q) dbs" using Cons.prems(1) by simp
  from pages_complete [OF this Cons.prems(2) p] obtain db where
    db: "e1 = None" "db \<in> set dbs" "xs = rows_from q c db" by blast
  let ?c = "last (c # map after xs)"
  obtain zs where z: "subscription (fetch q limit) after ?c events = Some (zs, c', e)"
    and ys: "ys = zip (c # map after xs) xs @ zs"
    using Cons.prems(4) p db(1) by (auto simp: Let_def split: option.splits)
  have snd_ys: "map snd ys = xs @ map snd zs" by (simp add: ys map_snd_zip_take)
  have fst_xs: "map fst (zip (c # map after xs) xs) = butlast (c # map after xs)"
    by (simp add: map_fst_zip_take butlast_conv_take)
  show ?case
  proof (cases "events = []")
    case True
    then show ?thesis using z ys snd_ys fst_xs db(2,3) by auto
  next
    case False
    have "growing (ok q) (grown q) (concat events)" using Cons.prems(1) by simp
    from Cons.IH [OF this Cons.prems(2) False z] obtain db' where
      i: "e = None" "db' \<in> set (last events)" "map snd zs = rows_from q ?c db'"
        "map fst zs = butlast (?c # map after (map snd zs))" "c' = last (?c # map after (map snd zs))" by auto
    have "db' \<in> set (concat events)" using i(2) last_in_set [OF False] by auto
    then have "grown q db db'" "ok q db" "ok q db'"
      using Cons.prems(1) db(2) by (auto simp: growing_def list_all_iff sorted_wrt_append simp del: set_concat)
    then have all: "xs @ rows_from q ?c db' = rows_from q c db'"
      using page_then_rest [of q db db' "length xs" c] db(3) by (cases "xs = []") (auto simp: last_map)
    then have snd_ys': "map snd ys = rows_from q c db'" using snd_ys i(3) by simp
    have "map fst ys = butlast (c # map after xs) @ butlast (?c # map after (map snd zs))"
      using ys fst_xs i(4) by simp
    also have "\<dots> = butlast (c # map after xs @ map after (map snd zs))"
      by (cases xs rule: rev_cases) (auto simp: butlast_append)
    also have "\<dots> = butlast (c # map after (map snd ys))" by (simp only: snd_ys map_append)
    finally have "map fst ys = butlast (c # map after (map snd ys))" .
    moreover have "c' = last (c # map after (map snd ys))"
      unfolding i(5) snd_ys by (cases "map snd zs") auto
    moreover have "last (dbs # events) = last events" using False by simp
    ultimately show ?thesis using i(1,2) snd_ys' by metis
  qed
qed simp

end

end
