(* ===== verification/Wallet_Liveness.thy ===== *)
theory Wallet_Liveness
  imports Wallet_Props Paging
begin

text \<open>
  A wallet catches up: indexed again and again, its range grows down to the wanted start and up to the
  last regular transaction, in a number of rounds bounded by the number of transactions.
\<close>

section \<open>Rounds\<close>

text \<open>One call of \<open>index_wallet\<close> that gets its lock and whose message is sent.\<close>

definition index_round ::
  "('e, 'ct, 'a, 'd) wallet_env \<Rightarrow> nat \<Rightarrow> u64 \<Rightarrow> bytes \<Rightarrow> int \<Rightarrow> bytes \<Rightarrow> chain_db \<Rightarrow> wallet_db \<Rightarrow> wallet_db" where
  "index_round env batch max_id new_id now wid chain db =
     fst (snd (index_wallet env True batch max_id (\<lambda>_ q. Inr q :: string + unit) new_id now wid chain (db, ())))"

text \<open>Every regular transaction can be read and deserialized.\<close>

definition readable :: "('e, 'ct, 'a, 'd) wallet_env \<Rightarrow> i64 \<times> transaction_row \<Rightarrow> bool" where
  "readable env p \<longleftrightarrow> (\<exists>t. wallet_transaction_from_row p = Inr t
     \<and> is_ok (we_deserialize env (wt_raw t) (pv_ledger_version (wt_protocol_version t))))"

definition chain_readable :: "('e, 'ct, 'a, 'd) wallet_env \<Rightarrow> chain_db \<Rightarrow> bool" where
  "chain_readable env chain \<longleftrightarrow> list_all (\<lambda>p. is_regular p \<longrightarrow> readable env p) (tx_rows chain)"

lemma get_transactions_ok:
  assumes "chain_readable env chain"
  shows "is_ok (get_transactions from limit chain)" "is_ok (get_transactions_in_range from to limit chain)"
proof -
  have "is_ok (wallet_transaction_from_row (i, r))" if "(i, r) \<in> set (tx_rows chain)" "t_variant r = RegularVariant" for i r
    using assms that by (force simp: chain_readable_def list_all_iff is_regular_def readable_def is_ok_iff)
  then show "is_ok (get_transactions from limit chain)" "is_ok (get_transactions_in_range from to limit chain)"
    unfolding get_transactions_def get_transactions_in_range_def
    by (auto intro!: try_map_ok dest!: in_set_takeD simp: order_by_desc_def select_where_def)
qed

lemma batch_readable:
  assumes "chain_readable env chain" and "rows_batch rows txs" and "set rows \<subseteq> {p \<in> set (tx_rows chain). is_regular p}"
  shows "is_ok (relevant_transactions_of env w txs)"
proof -
  have "is_ok (wallet_transaction_relevant env t w)" if "t \<in> set txs" for t
  proof -
    have txs: "txs = map tx_of rows" and rows: "list_all (\<lambda>p. wallet_transaction_from_row p = Inr (tx_of p)) rows"
      using assms(2) unfolding rows_batch_def by blast+
    have "t \<in> tx_of ` set rows" using that txs by simp
    then obtain p where p: "p \<in> set rows" "t = tx_of p" by blast
    have conv: "wallet_transaction_from_row p = Inr t" using rows p by (simp add: list_all_iff)
    have "p \<in> set (tx_rows chain)" "is_regular p" using p(1) assms(3) by auto
    then have "readable env p" using assms(1) by (simp add: chain_readable_def list_all_iff)
    then show ?thesis using conv by (auto simp: readable_def wallet_transaction_relevant_def is_ok_iff)
  qed
  then have "is_ok (try_map (\<lambda>t. map_ok (\<lambda>rel. (rel, t))
      (map_err (\<lambda>_. WalletContext ''check transaction relevance'') (wallet_transaction_relevant env t w))) txs)"
    by (intro try_map_ok) (fastforce simp: is_ok_iff)
  then show ?thesis by (auto simp: relevant_transactions_of_def is_ok_iff)
qed

section \<open>Progress of one round\<close>

definition regular_between :: "chain_db \<Rightarrow> (i64 \<Rightarrow> bool) \<Rightarrow> nat" where
  "regular_between chain P = card {p \<in> set (tx_rows chain). is_regular p \<and> P (fst p)}"

text \<open>What is left to do for a wallet.\<close>

definition work :: "chain_db \<Rightarrow> wallet_row \<Rightarrow> nat" where
  "work chain r = (if w_wanted_start_index r < w_first_indexed r then 1 else 0)
     + regular_between chain (\<lambda>i. w_wanted_start_index r \<le> i \<and> i < w_first_indexed r)
     + regular_between chain (\<lambda>i. w_last_indexed r < i)"

definition caught_up_with :: "chain_db \<Rightarrow> wallet_row \<Rightarrow> bool" where
  "caught_up_with chain r \<longleftrightarrow> w_first_indexed r \<le> w_wanted_start_index r
     \<and> (\<forall>p \<in> set (tx_rows chain). is_regular p \<longrightarrow> fst p \<le> w_last_indexed r)"

lemma regular_between_mono:
  "(\<And>i. Q i \<Longrightarrow> P i) \<Longrightarrow> regular_between chain Q \<le> regular_between chain P"
  unfolding regular_between_def by (intro card_mono) auto

lemma regular_between_less:
  assumes "\<And>i. Q i \<Longrightarrow> P i" and "(i, t) \<in> set (tx_rows chain)" "is_regular (i, t)" "P i" "\<not> Q i"
  shows "regular_between chain Q < regular_between chain P"
proof -
  have "(i, t) \<in> {p \<in> set (tx_rows chain). is_regular p \<and> P (fst p)} - {p \<in> set (tx_rows chain). is_regular p \<and> Q (fst p)}"
    using assms(2-) by simp
  moreover have "{p \<in> set (tx_rows chain). is_regular p \<and> Q (fst p)} \<subseteq> {p \<in> set (tx_rows chain). is_regular p \<and> P (fst p)}"
    using assms(1) by auto
  ultimately have "{p \<in> set (tx_rows chain). is_regular p \<and> Q (fst p)} \<subset> {p \<in> set (tx_rows chain). is_regular p \<and> P (fst p)}"
    by blast
  then show ?thesis unfolding regular_between_def by (intro psubset_card_mono) auto
qed

lemma moved_work:
  assumes "plan = Backward wid rel f" and "w_wanted_start_index r \<le> as_i64 f" "as_i64 f < w_first_indexed r"
    and "as_i64 f = w_wanted_start_index r \<or> (\<exists>t. (as_i64 f, t) \<in> set (tx_rows chain) \<and> is_regular (as_i64 f, t))"
  shows "work chain (moved plan r) < work chain r"
proof (cases "as_i64 f = w_wanted_start_index r")
  case True
  have "regular_between chain (\<lambda>i. w_wanted_start_index r \<le> i \<and> i < as_i64 f)
      \<le> regular_between chain (\<lambda>i. w_wanted_start_index r \<le> i \<and> i < w_first_indexed r)"
    by (rule regular_between_mono) (use assms(3) in auto)
  then show ?thesis using True assms(1,3) by (simp add: work_def moved_def)
next
  case False
  then obtain t where "(as_i64 f, t) \<in> set (tx_rows chain)" "is_regular (as_i64 f, t)" using assms(4) by blast
  then have "regular_between chain (\<lambda>i. w_wanted_start_index r \<le> i \<and> i < as_i64 f)
      < regular_between chain (\<lambda>i. w_wanted_start_index r \<le> i \<and> i < w_first_indexed r)"
    by (rule regular_between_less [rotated]) (use assms(2,3) in auto)
  then show ?thesis using False assms(1-3) by (simp add: work_def moved_def)
qed

lemma moved_work_forward:
  assumes "plan = Forward wid vk rel l" and "w_last_indexed r < as_i64 l"
    and "(as_i64 l, t) \<in> set (tx_rows chain)" "is_regular (as_i64 l, t)"
  shows "work chain (moved plan r) < work chain r"
proof -
  have "regular_between chain (\<lambda>i. as_i64 l < i) < regular_between chain (\<lambda>i. w_last_indexed r < i)"
    by (rule regular_between_less [OF _ assms(3,4)]) (use assms(2) in auto)
  then show ?thesis using assms(1) by (simp add: work_def moved_def)
qed

text \<open>What a round needs besides the invariant: readable transactions, a working cipher, a current maximum.\<close>

definition round_env :: "('e, 'ct, 'a, 'd) wallet_env \<Rightarrow> chain_db \<Rightarrow> u64 \<Rightarrow> bytes \<Rightarrow> bool" where
  "round_env env chain max_id new_id \<longleftrightarrow> chain_readable env chain \<and> (\<forall>vk. is_ok (we_encrypt env vk new_id))
     \<and> list_all (\<lambda>p. fst p \<le> int (unat max_id)) (tx_rows chain)"

lemma u64_try_from_unat: "u64_try_from i = Some w \<Longrightarrow> i < 2 ^ 63 \<Longrightarrow> int (unat w) = i"
proof -
  assume "u64_try_from i = Some w" and i: "i < 2 ^ 63"
  then have w: "w = word_of_int i" and "0 \<le> i" by (simp_all add: u64_try_from_def split: if_splits)
  then have "uint w = i" using i by (simp add: uint_word_of_int_eq take_bit_int_eq_self)
  then show ?thesis by simp
qed

lemma get_wallet_by_id_row:
  assumes inv: "wallet_inv env s" and r: "r \<in> set (wallets (sy_db s))" and ahead: "\<not> sy_ahead s (w_id r)"
  obtains w where "get_wallet_by_id env (w_id r) (sy_db s) = Inr w"
    "we_decrypt env (w_viewing_key r) (w_id r) = Inr (wa_viewing_key w)"
    "u64_try_from (w_wanted_start_index r) = Some (wa_wanted_start_index w)"
    "u64_try_from (w_first_indexed r) = Some (wa_first_indexed_transaction_id w)"
    "u64_try_from (w_last_indexed r) = Some (wa_last_indexed_transaction_id w)"
proof -
  have ok: "row_ok env (sy_chain s) (recorded (sy_db s) (w_id r)) (sy_pending s (w_id r)) (sy_start s (w_id r)) r"
    by (rule wallet_inv_row_ok [OF inv r ahead])
  note d = row_okD(1-4) [OF ok]
  obtain vk where vk: "we_decrypt env (w_viewing_key r) (w_id r) = Inr vk" using ok unfolding row_ok_def by blast
  obtain r' where f: "find (\<lambda>x. w_id x = w_id r) (wallets (sy_db s)) = Some r'"
    using r by (cases "find (\<lambda>x. w_id x = w_id r) (wallets (sy_db s))") (auto simp: find_None_iff)
  then have "r' \<in> set (wallets (sy_db s))" "w_id r' = w_id r" by (auto simp: find_Some_iff)
  then have "r' = r" using inv r unfolding wallet_inv_def by (metis distinct_map inj_onD)
  then have "get_wallet_by_id env (w_id r) (sy_db s) = Inr \<lparr>wa_viewing_key = vk,
      wa_wanted_start_index = word_of_int (w_wanted_start_index r),
      wa_first_indexed_transaction_id = word_of_int (w_first_indexed r),
      wa_last_indexed_transaction_id = word_of_int (w_last_indexed r)\<rparr>"
    using f vk d by (simp add: get_wallet_by_id_def wallet_try_from_def u64_try_from_def)
  then show thesis by (rule that) (use vk d in \<open>simp_all add: u64_try_from_def\<close>)
qed

lemma round_reads:
  assumes inv: "wallet_inv env s" and batch: "0 < batch" and r: "r \<in> set (wallets (sy_db s))"
    and e: "round_env env (sy_chain s) max_id new_id" and ahead: "\<not> sy_ahead s (w_id r)"
  shows "(\<exists>plan. index_wallet_read env batch max_id (w_id r) (sy_chain s) (sy_db s) = Inr (Some plan)
      \<and> work (sy_chain s) (moved plan r) < work (sy_chain s) r)
    \<or> (index_wallet_read env batch max_id (w_id r) (sy_chain s) (sy_db s) = Inr None \<and> caught_up_with (sy_chain s) r)"
proof -
  let ?c = "sy_chain s"
  have ok: "row_ok env ?c (recorded (sy_db s) (w_id r)) (sy_pending s (w_id r)) (sy_start s (w_id r)) r"
    by (rule wallet_inv_row_ok [OF inv r ahead])
  have chain: "chain_ids_ok ?c" and rd: "chain_readable env ?c"
    and mx: "\<And>p. p \<in> set (tx_rows ?c) \<Longrightarrow> fst p \<le> int (unat max_id)"
    using inv e by (simp_all add: wallet_inv_def round_env_def list_all_iff)
  note d = row_okD(1-6) [OF ok]
  have small: "w_wanted_start_index r < 2 ^ 63" "w_first_indexed r < 2 ^ 63" "w_last_indexed r < 2 ^ 63 - 1"
    using d chain unfolding chain_ids_ok_def by linarith+
  obtain w where w: "get_wallet_by_id env (w_id r) (sy_db s) = Inr w"
    and u: "u64_try_from (w_wanted_start_index r) = Some (wa_wanted_start_index w)"
      "u64_try_from (w_first_indexed r) = Some (wa_first_indexed_transaction_id w)"
      "u64_try_from (w_last_indexed r) = Some (wa_last_indexed_transaction_id w)"
    by (rule get_wallet_by_id_row [OF inv r ahead])
  have idx: "as_i64 (wa_wanted_start_index w) = w_wanted_start_index r"
      "as_i64 (wa_first_indexed_transaction_id w) = w_first_indexed r"
    using as_i64_u64_try_from [OF u(1) small(1)] as_i64_u64_try_from [OF u(2) small(2)] by simp_all
  show ?thesis
  proof (cases "w_wanted_start_index r < w_first_indexed r")
    case True
    then have lt: "wa_wanted_start_index w < wa_first_indexed_transaction_id w"
      using as_i64_less [OF u(1,2) small(1,2)] by simp
    obtain txs where txs: "get_transactions_in_range (wa_wanted_start_index w) (wa_first_indexed_transaction_id w) batch ?c = Inr txs"
      using get_transactions_ok(2) [OF rd] by (meson is_ok_iff)
    obtain rows where rows: "rows_batch rows txs" "set rows \<subseteq> {p \<in> set (tx_rows ?c). is_regular p}"
      using get_transactions_in_range_batch [OF chain txs batch] by (auto split: if_splits)
    obtain rel where "relevant_transactions_of env w txs = Inr rel"
      using batch_readable [OF rd rows] by (meson is_ok_iff)
    then obtain plan where p: "plan_backward env batch (w_id r) w ?c = Inr (Some plan)"
      using txs by (simp add: plan_backward_def Let_def)
    obtain rel f where "plan = Backward (w_id r) rel f" "w_wanted_start_index r \<le> as_i64 f" "as_i64 f < w_first_indexed r"
      "as_i64 f = w_wanted_start_index r \<or> (\<exists>t. (as_i64 f, t) \<in> set (tx_rows ?c) \<and> is_regular (as_i64 f, t))"
      using plan_backward_ok [OF chain batch p idx d(1) True] by blast
    then have "work ?c (moved plan r) < work ?c r" by (rule moved_work)
    then show ?thesis using w lt p by (simp add: index_wallet_read_def)
  next
    case False
    then have nlt: "\<not> wa_wanted_start_index w < wa_first_indexed_transaction_id w"
      using as_i64_less [OF u(1,2) small(1,2)] by simp
    have last_w: "int (unat (wa_last_indexed_transaction_id w)) = w_last_indexed r"
      by (rule u64_try_from_unat [OF u(3)]) (use small(3) in linarith)
    show ?thesis
    proof (cases "wa_last_indexed_transaction_id w < max_id")
      case lt: True
      obtain txs where txs: "get_transactions (wa_last_indexed_transaction_id w + 1) batch ?c = Inr txs"
        using get_transactions_ok(1) [OF rd] by (meson is_ok_iff)
      obtain rows where rows: "rows_batch rows txs" "set rows \<subseteq> {p \<in> set (tx_rows ?c). is_regular p}"
        and all: "rows = [] \<Longrightarrow> {p \<in> set (tx_rows ?c). is_regular p \<and> w_last_indexed r + 1 \<le> fst p} = {}"
        using get_transactions_batch [OF chain txs batch] as_i64_Suc [OF u(3) small(3)] by (auto split: if_splits)
      show ?thesis
      proof (cases "txs = []")
        case True
        then have "rows = []" using rows(1) by (simp add: rows_batch_def)
        then have "caught_up_with ?c r" using all False by (fastforce simp: caught_up_with_def)
        then show ?thesis using w nlt lt txs True by (simp add: index_wallet_read_def plan_forward_def)
      next
        case ne: False
        obtain rel where "relevant_transactions_of env w txs = Inr rel"
          using batch_readable [OF rd rows] by (meson is_ok_iff)
        then obtain plan where p: "plan_forward env batch (w_id r) w ?c = Inr (Some plan)"
          using txs ne by (simp add: plan_forward_def)
        obtain rel l t where "plan = Forward (w_id r) (wa_viewing_key w) rel l" "w_last_indexed r < as_i64 l"
            "(as_i64 l, t) \<in> set (tx_rows ?c)" "is_regular (as_i64 l, t)"
          using plan_forward_ok [OF chain batch p as_i64_Suc [OF u(3) small(3)]] by blast
        then have "work ?c (moved plan r) < work ?c r" by (rule moved_work_forward)
        then show ?thesis using w nlt lt p by (simp add: index_wallet_read_def)
      qed
    next
      case ge: False
      then have "int (unat max_id) \<le> w_last_indexed r"
        unfolding last_w [symmetric] word_less_nat_alt by linarith
      then have "caught_up_with ?c r" using False mx by (fastforce simp: caught_up_with_def)
      then show ?thesis using w nlt ge by (simp add: index_wallet_read_def)
    qed
  qed
qed

section \<open>Rounds until caught up\<close>

lemma work_bound: "w_first_indexed r \<le> w_last_indexed r \<Longrightarrow> work chain r \<le> Suc (length (tx_rows chain))"
proof -
  assume le: "w_first_indexed r \<le> w_last_indexed r"
  let ?A = "{p \<in> set (tx_rows chain). is_regular p \<and> w_wanted_start_index r \<le> fst p \<and> fst p < w_first_indexed r}"
  let ?B = "{p \<in> set (tx_rows chain). is_regular p \<and> w_last_indexed r < fst p}"
  have "card ?A + card ?B = card (?A \<union> ?B)" by (rule card_Un_disjoint [symmetric]) (use le in auto)
  also have "\<dots> \<le> card (set (tx_rows chain))" by (rule card_mono) auto
  also have "\<dots> \<le> length (tx_rows chain)" by (rule card_length)
  finally show ?thesis by (simp add: work_def regular_between_def)
qed

text \<open>A wallet's row and its state are kept by a round but for the range, which grows unless it is complete.\<close>

definition same_wallet :: "wallet_row \<Rightarrow> wallet_row \<Rightarrow> bool" where
  "same_wallet r r' \<longleftrightarrow> w_id r' = w_id r \<and> w_viewing_key r' = w_viewing_key r
     \<and> w_wanted_start_index r' = w_wanted_start_index r"

lemma index_round_progress:
  fixes now :: int
  assumes inv: "wallet_inv env s" and batch: "0 < batch" and r: "r \<in> set (wallets (sy_db s))"
    and e: "round_env env (sy_chain s) max_id new_id" and ahead: "\<not> sy_ahead s (w_id r)"
  defines "db' \<equiv> index_round env batch max_id new_id now (w_id r) (sy_chain s) (sy_db s)"
  shows "wallet_inv env (s\<lparr>sy_db := db', sy_pending := (sy_pending s)(w_id r := None)\<rparr>)
    \<and> (db' = sy_db s \<and> caught_up_with (sy_chain s) r
       \<or> (\<exists>r' \<in> set (wallets db'). same_wallet r r' \<and> work (sy_chain s) r' < work (sy_chain s) r))"
proof -
  consider (plan) plan where "index_wallet_read env batch max_id (w_id r) (sy_chain s) (sy_db s) = Inr (Some plan)"
      "work (sy_chain s) (moved plan r) < work (sy_chain s) r"
    | (complete) "index_wallet_read env batch max_id (w_id r) (sy_chain s) (sy_db s) = Inr None" "caught_up_with (sy_chain s) r"
    using round_reads [OF inv batch r e ahead] by blast
  then show ?thesis
  proof cases
    case plan
    let ?s = "s\<lparr>sy_pending := (sy_pending s)(w_id r \<mapsto> plan)\<rparr>"
    have inv': "wallet_inv env ?s" by (rule wallet_inv_read [OF inv batch plan(1)])
    have "\<forall>wid vk rel l. plan = Forward wid vk rel l \<longrightarrow> (\<exists>c. we_encrypt env vk new_id = Inr c)"
      using e unfolding round_env_def is_ok_iff by blast
    with index_wallet_write_run [of env ?s r plan new_id now] inv' r ahead obtain t where
      w: "index_wallet_write env new_id now plan (sy_db s)
        = Inr ((sy_db s)\<lparr>wallets := map (\<lambda>x. if w_id x = w_id r then moved plan x else x) (wallets (sy_db s)),
             relevant_transactions := t\<rparr>)" by auto
    then have db': "db' = (sy_db s)\<lparr>wallets := map (\<lambda>x. if w_id x = w_id r then moved plan x else x) (wallets (sy_db s)),
             relevant_transactions := t\<rparr>"
      using plan(1) by (simp add: db'_def index_round_def index_wallet_def)
    have "wallet_inv env (?s\<lparr>sy_db := db', sy_pending := (sy_pending ?s)(w_id r := None)\<rparr>)"
      by (rule wallet_inv_commit [OF inv', of _ plan new_id now]) (simp_all add: w db')
    moreover have "moved plan r \<in> set (wallets db')" using r by (force simp: db')
    ultimately show ?thesis using plan(2) by (auto simp: same_wallet_def)
  next
    case complete
    then have "db' = sy_db s" by (simp add: db'_def index_round_def index_wallet_def)
    moreover have "wallet_inv env (s\<lparr>sy_pending := (sy_pending s)(w_id r := None)\<rparr>)" by (rule wallet_inv_abort [OF inv])
    ultimately show ?thesis using complete(2) by simp
  qed
qed

lemma rounds_catch_up:
  assumes "wallet_inv env s" and batch: "0 < batch" and "r \<in> set (wallets (sy_db s))"
    and "round_env env (sy_chain s) max_id new_id" and "\<not> sy_ahead s (w_id r)" and "work (sy_chain s) r < n"
  shows "\<exists>s' r'. sy_db s' = (index_round env batch max_id new_id now (w_id r) (sy_chain s) ^^ n) (sy_db s)
    \<and> wallet_inv env s' \<and> sy_chain s' = sy_chain s \<and> sy_start s' = sy_start s \<and> sy_ahead s' = sy_ahead s
    \<and> r' \<in> set (wallets (sy_db s')) \<and> same_wallet r r' \<and> caught_up_with (sy_chain s) r'"
  using assms
proof (induction n arbitrary: s r)
  case (Suc n)
  let ?f = "index_round env batch max_id new_id now (w_id r) (sy_chain s)"
  let ?s = "s\<lparr>sy_db := ?f (sy_db s), sy_pending := (sy_pending s)(w_id r := None)\<rparr>"
  note prog = index_round_progress [OF Suc.prems(1-5), of now]
  show ?case
  proof (cases "?f (sy_db s) = sy_db s \<and> caught_up_with (sy_chain s) r")
    case True
    then have "(?f ^^ m) (sy_db s) = sy_db s" for m by (induction m) simp_all
    then show ?thesis using True Suc.prems by (intro exI [of _ s] exI [of _ r]) (simp add: same_wallet_def)
  next
    case False
    then obtain r' where r': "r' \<in> set (wallets (?f (sy_db s)))" "same_wallet r r'" "work (sy_chain s) r' < work (sy_chain s) r"
      using prog by blast
    have id: "w_id r' = w_id r" using r'(2) by (simp add: same_wallet_def)
    have "\<exists>s' r''. sy_db s' = (?f ^^ n) (?f (sy_db s)) \<and> wallet_inv env s' \<and> sy_chain s' = sy_chain s
        \<and> sy_start s' = sy_start s \<and> sy_ahead s' = sy_ahead s \<and> r'' \<in> set (wallets (sy_db s')) \<and> same_wallet r' r'' \<and> caught_up_with (sy_chain s) r''"
      using Suc.IH [of ?s r'] prog batch r' Suc.prems(4-6) id by simp
    then show ?thesis using r'(2) by (auto simp: funpow_swap1 same_wallet_def)
  qed
qed simp

text \<open>
  C20. A wallet catches up: from whatever state is reached, as many rounds of \<open>index_wallet\<close> as there are transactions, and
  two more, leave every regular transaction from the wanted start on behind it, and exactly the relevant
  ones among them are recorded, except the one whose id is the start index the wallet was created with.
  That one is lost although the API documents the start index as inclusive. The rounds are assumed to read and decrypt
  (every regular transaction deserializes, the cipher works, the largest id has been announced), and the wallet
  was not created with a start index beyond the next transaction id.
\<close>

theorem wallet_catches_up:
  assumes "wallet_reachable env batch s" and "wallet_cipher env" and "0 < batch"
    and "r \<in> set (wallets (sy_db s))" and "we_decrypt env (w_viewing_key r) (w_id r) = Inr vk"
    and "round_env env (sy_chain s) max_id new_id" and "\<not> sy_ahead s (w_id r)" and "length (tx_rows (sy_chain s)) + 2 \<le> n"
    and "db' = (index_round env batch max_id new_id now (w_id r) (sy_chain s) ^^ n) (sy_db s)"
  shows "recorded db' (w_id r)
    = {i \<in> relevant_all env (sy_chain s) vk. w_wanted_start_index r \<le> i} - {sy_start s (w_id r)}"
proof -
  have inv: "wallet_inv env s" by (rule wallet_reachable_inv [OF assms(1-3)])
  then have "row_ok env (sy_chain s) (recorded (sy_db s) (w_id r)) (sy_pending s (w_id r)) (sy_start s (w_id r)) r"
    using wallet_inv_row_ok [OF _ assms(4,7)] by blast
  from row_okD(3,4) [OF this] have "work (sy_chain s) r < n"
    using work_bound [of r "sy_chain s"] assms(8) by linarith
  from rounds_catch_up [OF inv assms(3,4,6,7) this, of now] obtain s' r' where
    s': "sy_db s' = db'" "wallet_inv env s'" "sy_chain s' = sy_chain s" "sy_start s' = sy_start s" "sy_ahead s' = sy_ahead s"
    and r': "r' \<in> set (wallets db')" "same_wallet r r'" "caught_up_with (sy_chain s) r'"
    unfolding assms(9) by metis
  then have ok: "row_ok env (sy_chain s) (recorded db' (w_id r')) (sy_pending s' (w_id r')) (sy_start s (w_id r')) r'"
    using wallet_inv_row_ok [of env s' r'] assms(7) by (simp add: same_wallet_def)
  have "recorded db' (w_id r) = relevant_ids env (sy_chain s) vk (w_first_indexed r') (w_last_indexed r') - {sy_start s (w_id r)}"
    using ok r'(2) assms(5) unfolding row_ok_def same_wallet_def by auto
  moreover have "w_first_indexed r' = w_wanted_start_index r"
    using row_okD(2) [OF ok] r'(2,3) by (simp add: same_wallet_def caught_up_with_def)
  moreover have "i \<le> w_last_indexed r'" if "i \<in> relevant_all env (sy_chain s) vk" for i
    using that r'(3) by (fastforce simp: relevant_all_def caught_up_with_def)
  ultimately show ?thesis by (auto simp: relevant_ids_iff)
qed

theorem wallet_catches_up_witness:
  "recorded ((index_round wallet_sample_env 2 3 [6] 11 [5] wallet_sample_chain ^^ 5) (sy_db wallet_sample_connected)) [5]
    = {i \<in> relevant_all wallet_sample_env wallet_sample_chain [7]. 0 \<le> i} - {0}"
proof -
  have "round_env wallet_sample_env wallet_sample_chain 3 [6]"
    by (simp add: round_env_def chain_readable_def readable_def wallet_sample_env_def wallet_sample_chain_def
      wallet_sample_tx_def is_regular_def wallet_transaction_from_row_def u64_try_from_def try_from_i64_def try_from_u32_def)
  then show ?thesis
    using wallet_catches_up [OF wallet_sample_connected_reachable wallet_sample_cipher, of wallet_sample_row "[7]" 3 "[6]" 5 _ 11]
    by (simp add: wallet_sample_connected_def initial_sys_def wallet_sample_env_def wallet_sample_row_def wallet_sample_chain_def)
qed

section \<open>The transaction at the start index\<close>

text \<open>
  The forward scan starts after the start index and the backward scan ends before it: a transaction whose
  id is the start index the wallet was created with is never recorded, relevant or not.
\<close>

lemma start_index_never_recorded:
  assumes "wallet_reachable env batch s" and "wallet_cipher env" and "0 < batch" and "r \<in> set (wallets (sy_db s))"
    and "\<not> sy_ahead s (w_id r)"
  shows "sy_start s (w_id r) \<notin> recorded (sy_db s) (w_id r)"
proof -
  have "row_ok env (sy_chain s) (recorded (sy_db s) (w_id r)) (sy_pending s (w_id r)) (sy_start s (w_id r)) r"
    by (rule wallet_inv_row_ok [OF wallet_reachable_inv [OF assms(1-3)] assms(4,5)])
  then show ?thesis unfolding row_ok_def by auto
qed

end
