(* ===== verification/Api_Storage.thy ===== *)
theory Api_Storage
  imports Paging Chain_Storage Wallet_Indexer
begin

text \<open>
  What the API reads of blocks, transactions, unshielded UTXOs and contract actions:
  \<^verbatim>\<open>indexer-api/src/infra/storage/block.rs\<close>, \<^verbatim>\<open>transaction.rs\<close>, \<^verbatim>\<open>unshielded.rs\<close>
  and \<^verbatim>\<open>contract_action.rs\<close>, with the row types of \<^verbatim>\<open>indexer-api/src/domain\<close>, on the tables the chain
  indexer and the wallet indexer write. A query without \<^verbatim>\<open>ORDER BY\<close> gives its rows in the order of the table
  (the databases promise no order). An error of the database itself is not part of the model.
\<close>

section \<open>Columns\<close>

text \<open>Decoding of columns: \<^verbatim>\<open>#[sqlx(try_from = ..)]\<close> and \<^verbatim>\<open>sqlx::Decode\<close>.\<close>

definition col_u64 :: "i64 \<Rightarrow> sqlx_error + u64" where
  "col_u64 i = (case u64_try_from i of None \<Rightarrow> Inl Decode | Some w \<Rightarrow> Inr w)"

definition col_u32 :: "i64 \<Rightarrow> sqlx_error + u32" where
  "col_u32 i = (if 0 \<le> i \<and> i < 2 ^ 32 then Inr (word_of_int i) else Inl Decode)"

definition col_array :: "nat \<Rightarrow> bytes \<Rightarrow> sqlx_error + bytes" where
  "col_array n bs = map_err (\<lambda>_. Decode) (byte_array_try_from n bs)"

definition col_u128 :: "bytes \<Rightarrow> sqlx_error + u128" where
  "col_u128 bs = (if length bs = 16 then Inr (u128_from_be_bytes bs) else Inl Decode)"

definition col_version :: "i64 \<Rightarrow> sqlx_error + protocol_version" where
  "col_version i = map_err (\<lambda>_. Decode) (try_from_i64 i)"

definition col_opt :: "('a \<Rightarrow> sqlx_error + 'b) \<Rightarrow> 'a option \<Rightarrow> sqlx_error + 'b option" where
  "col_opt col v = (case v of None \<Rightarrow> Inr None | Some x \<Rightarrow> map_ok Some (col x))"

section \<open>Blocks\<close>

record api_block =
  ab_id :: u64
  ab_hash :: bytes
  ab_height :: u32
  ab_protocol_version :: protocol_version
  ab_parent_hash :: bytes
  ab_author :: "bytes option"
  ab_timestamp :: u64
  ab_zswap_merkle_tree_root :: bytes
  ab_ledger_parameters :: bytes
  ab_zswap_end_index :: u64
  ab_dust_commitment_end_index :: u64
  ab_dust_generation_end_index :: u64
  ab_dust_commitment_merkle_tree_root :: "bytes option"
  ab_dust_generation_merkle_tree_root :: "bytes option"

definition api_block_from_row :: "i64 \<times> block_row \<Rightarrow> sqlx_error + api_block" where
  "api_block_from_row = (\<lambda>(i, r).
     and_then (col_u64 i) (\<lambda>id.
     and_then (col_array 32 (b_hash r)) (\<lambda>hash.
     and_then (col_u32 (b_height r)) (\<lambda>height.
     and_then (col_version (b_protocol_version r)) (\<lambda>version.
     and_then (col_array 32 (b_parent_hash r)) (\<lambda>parent_hash.
     and_then (col_opt (col_array 32) (b_author r)) (\<lambda>author.
     and_then (col_u64 (b_timestamp r)) (\<lambda>timestamp.
     and_then (col_u64 (b_zswap_end_index r)) (\<lambda>zswap_end.
     and_then (col_u64 (b_dust_commitment_end_index r)) (\<lambda>commitment_end.
     map_ok (\<lambda>generation_end.
       \<lparr>ab_id = id, ab_hash = hash, ab_height = height, ab_protocol_version = version,
        ab_parent_hash = parent_hash, ab_author = author, ab_timestamp = timestamp,
        ab_zswap_merkle_tree_root = b_zswap_merkle_tree_root r, ab_ledger_parameters = b_ledger_parameters r,
        ab_zswap_end_index = zswap_end, ab_dust_commitment_end_index = commitment_end,
        ab_dust_generation_end_index = generation_end,
        ab_dust_commitment_merkle_tree_root = Some (b_dust_commitment_merkle_tree_root r),
        ab_dust_generation_merkle_tree_root = Some (b_dust_generation_merkle_tree_root r)\<rparr>)
       (col_u64 (b_dust_generation_end_index r))))))))))))"

text \<open>\<^verbatim>\<open>fetch_optional\<close>: the first row, if any.\<close>

definition fetch_optional :: "('r \<Rightarrow> sqlx_error + 'a) \<Rightarrow> 'r list \<Rightarrow> sqlx_error + 'a option" where
  "fetch_optional from_row rs = (case rs of [] \<Rightarrow> Inr None | r # _ \<Rightarrow> map_ok Some (from_row r))"

definition get_latest_block :: "chain_db \<Rightarrow> sqlx_error + api_block option" where
  "get_latest_block db =
     fetch_optional api_block_from_row (order_by_desc (\<lambda>(_, r). b_height r) (tab_rows (blocks db)))"

definition get_blocks_by_hashes :: "bytes list \<Rightarrow> chain_db \<Rightarrow> sqlx_error + api_block list" where
  "get_blocks_by_hashes hashes db =
     try_map api_block_from_row (select_where (\<lambda>(_, r). b_hash r \<in> set hashes) (blocks db))"

definition get_block_by_height :: "u32 \<Rightarrow> chain_db \<Rightarrow> sqlx_error + api_block option" where
  "get_block_by_height height db =
     fetch_optional api_block_from_row (select_where (\<lambda>(_, r). b_height r = u32_as_i64 height) (blocks db))"

definition get_blocks_page :: "nat \<Rightarrow> u32 \<Rightarrow> chain_db \<Rightarrow> sqlx_error + api_block list" where
  "get_blocks_page batch_size height db =
     try_map api_block_from_row (take batch_size (sort_key (\<lambda>(_, r). b_height r)
       (select_where (\<lambda>(_, r). u32_as_i64 height \<le> b_height r) (blocks db))))"

definition get_blocks ::
  "nat \<Rightarrow> u32 \<Rightarrow> chain_db list \<Rightarrow> (api_block list \<times> sqlx_error option) option" where
  "get_blocks batch_size height dbs =
     pages (get_blocks_page batch_size) (\<lambda>b. ab_height b + 1) height dbs"

section \<open>Transactions\<close>

record api_bridge_claim =
  abc_recipient :: bytes
  abc_amount :: u128

record api_regular_transaction =
  ar_id :: u64
  ar_hash :: bytes
  ar_protocol_version :: protocol_version
  ar_raw :: bytes
  ar_block_hash :: bytes
  ar_transaction_result :: transaction_result
  ar_identifiers :: "bytes list"
  ar_zswap_merkle_tree_root :: bytes
  ar_zswap_start_index :: u64
  ar_zswap_end_index :: u64
  ar_dust_commitment_start_index :: u64
  ar_dust_commitment_end_index :: u64
  ar_dust_generation_start_index :: u64
  ar_dust_generation_end_index :: u64
  ar_paid_fees :: "u128 option"
  ar_estimated_fees :: "u128 option"
  ar_bridge_claim :: "api_bridge_claim option"

record api_system_transaction =
  as_id :: u64
  as_hash :: bytes
  as_protocol_version :: protocol_version
  as_raw :: bytes
  as_block_hash :: bytes

datatype api_transaction = ApiRegular api_regular_transaction | ApiSystem api_system_transaction

fun api_transaction_id :: "api_transaction \<Rightarrow> u64" where
  "api_transaction_id (ApiRegular t) = ar_id t"
| "api_transaction_id (ApiSystem t) = as_id t"

text \<open>A row of the joins of \<^verbatim>\<open>transactions\<close>, \<^verbatim>\<open>blocks\<close> and \<^verbatim>\<open>regular_transactions\<close>.\<close>

type_synonym tx_join = "i64 \<times> transaction_row \<times> bytes \<times> regular_transaction_row option"

definition join_block :: "chain_db \<Rightarrow> i64 \<times> transaction_row \<Rightarrow> tx_join option" where
  "join_block db = (\<lambda>(i, t). map_option (\<lambda>b. (i, t, b_hash b, None)) (row_by_id (blocks db) (t_block_id t)))"

definition join_regular :: "chain_db \<Rightarrow> i64 \<times> transaction_row \<Rightarrow> tx_join option" where
  "join_regular db = (\<lambda>(i, t). Option.bind (row_by_id (blocks db) (t_block_id t)) (\<lambda>b.
     map_option (\<lambda>r. (i, t, b_hash b, Some r)) (find (\<lambda>r. r_id r = i) (regular_transactions db))))"

definition left_join_regular :: "chain_db \<Rightarrow> i64 \<times> transaction_row \<Rightarrow> tx_join option" where
  "left_join_regular db = (\<lambda>(i, t). map_option (\<lambda>b. (i, t, b_hash b, find (\<lambda>r. r_id r = i) (regular_transactions db)))
     (row_by_id (blocks db) (t_block_id t)))"

definition regular_from_row :: "tx_join \<Rightarrow> sqlx_error + api_regular_transaction" where
  "regular_from_row = (\<lambda>(i, t, block_hash, reg).
     case reg of
       None \<Rightarrow> Inl Decode
     | Some r \<Rightarrow>
         and_then (col_u64 i) (\<lambda>id.
         and_then (col_array 32 (t_hash t)) (\<lambda>hash.
         and_then (col_version (t_protocol_version t)) (\<lambda>version.
         and_then (col_array 32 block_hash) (\<lambda>block_hash.
         and_then (col_u64 (r_zswap_start_index r)) (\<lambda>zswap_start.
         and_then (col_u64 (r_zswap_end_index r)) (\<lambda>zswap_end.
         and_then (col_u64 (r_dust_commitment_start_index r)) (\<lambda>commitment_start.
         and_then (col_u64 (r_dust_commitment_end_index r)) (\<lambda>commitment_end.
         and_then (col_u64 (r_dust_generation_start_index r)) (\<lambda>generation_start.
         and_then (col_u64 (r_dust_generation_end_index r)) (\<lambda>generation_end.
         and_then (col_u128 (r_paid_fees r)) (\<lambda>paid_fees.
         map_ok (\<lambda>estimated_fees.
           \<lparr>ar_id = id, ar_hash = hash, ar_protocol_version = version, ar_raw = t_raw t, ar_block_hash = block_hash,
            ar_transaction_result = r_transaction_result r, ar_identifiers = r_identifiers r,
            ar_zswap_merkle_tree_root = r_zswap_merkle_tree_root r,
            ar_zswap_start_index = zswap_start, ar_zswap_end_index = zswap_end,
            ar_dust_commitment_start_index = commitment_start, ar_dust_commitment_end_index = commitment_end,
            ar_dust_generation_start_index = generation_start, ar_dust_generation_end_index = generation_end,
            ar_paid_fees = Some paid_fees, ar_estimated_fees = Some estimated_fees, ar_bridge_claim = None\<rparr>)
           (col_u128 (r_estimated_fees r))))))))))))))"

definition system_from_row :: "tx_join \<Rightarrow> sqlx_error + api_system_transaction" where
  "system_from_row = (\<lambda>(i, t, block_hash, _).
     and_then (col_u64 i) (\<lambda>id.
     and_then (col_array 32 (t_hash t)) (\<lambda>hash.
     and_then (col_version (t_protocol_version t)) (\<lambda>version.
     map_ok (\<lambda>block_hash. \<lparr>as_id = id, as_hash = hash, as_protocol_version = version, as_raw = t_raw t,
         as_block_hash = block_hash\<rparr>)
       (col_array 32 block_hash)))))"

definition make_transaction :: "tx_join \<Rightarrow> sqlx_error + api_transaction" where
  "make_transaction row =
     (case t_variant (fst (snd row)) of
        RegularVariant \<Rightarrow> map_ok ApiRegular (regular_from_row row)
      | SystemVariant \<Rightarrow> map_ok ApiSystem (system_from_row row))"

definition make_transaction_with_block_id :: "tx_join \<Rightarrow> sqlx_error + u64 \<times> api_transaction" where
  "make_transaction_with_block_id row = map_ok (Pair (as_u64 (t_block_id (fst (snd row))))) (make_transaction row)"

text \<open>\<^verbatim>\<open>identifiers\<close> is a column of PostgreSQL; with SQLite they have a table of their own.\<close>

definition get_identifiers_for_transaction :: "u64 \<Rightarrow> chain_db \<Rightarrow> bytes list" where
  "get_identifiers_for_transaction transaction_id db =
     map (snd \<circ> snd) (sort_key fst
       (select_where (\<lambda>(_, r). fst r = as_i64 transaction_id) (transaction_identifiers db)))"

definition set_identifiers :: "feature \<Rightarrow> chain_db \<Rightarrow> api_regular_transaction \<Rightarrow> api_regular_transaction" where
  "set_identifiers feat db t =
     (case feat of
        Cloud \<Rightarrow> t
      | Standalone \<Rightarrow> t\<lparr>ar_identifiers := get_identifiers_for_transaction (ar_id t) db\<rparr>)"

fun map_regular :: "(api_regular_transaction \<Rightarrow> api_regular_transaction) \<Rightarrow> api_transaction \<Rightarrow> api_transaction" where
  "map_regular f (ApiRegular t) = ApiRegular (f t)"
| "map_regular f (ApiSystem t) = ApiSystem t"

definition make_bridge_claim :: "bridge_claim_row \<Rightarrow> sqlx_error + api_bridge_claim" where
  "make_bridge_claim r =
     and_then (col_u128 (bcr_amount r)) (\<lambda>amount.
     map_ok (\<lambda>recipient. \<lparr>abc_recipient = recipient, abc_amount = amount\<rparr>) (col_array 32 (bcr_recipient r)))"

fun regular_ids :: "api_transaction list \<Rightarrow> i64 list" where
  "regular_ids [] = []"
| "regular_ids (ApiRegular t # ts) = as_i64 (ar_id t) # regular_ids ts"
| "regular_ids (ApiSystem _ # ts) = regular_ids ts"

definition attach_bridge_claims :: "chain_db \<Rightarrow> api_transaction list \<Rightarrow> sqlx_error + api_transaction list" where
  "attach_bridge_claims db ts =
     (if regular_ids ts = [] then Inr ts
      else map_ok (\<lambda>claims. map (map_regular (\<lambda>t. t\<lparr>ar_bridge_claim := map_of (rev claims) (ar_id t)\<rparr>)) ts)
        (try_map (\<lambda>(_, r). map_ok (Pair (as_u64 (bcr_transaction_id r))) (make_bridge_claim r))
           (select_where (\<lambda>(_, r). bcr_transaction_id r \<in> set (regular_ids ts)) (bridge_claims db))))"

text \<open>The two parts of the \<^verbatim>\<open>UNION ALL\<close>: regular transactions by inner joins, then system transactions.\<close>

definition union_rows :: "(i64 \<times> transaction_row \<Rightarrow> bool) \<Rightarrow> chain_db \<Rightarrow> tx_join list" where
  "union_rows p db =
     Chain_Storage.filter_map (join_regular db) (select_where p (transactions db))
   @ Chain_Storage.filter_map (join_block db)
       (select_where (\<lambda>(i, t). p (i, t) \<and> t_variant t = SystemVariant) (transactions db))"

definition finish_transactions :: "feature \<Rightarrow> chain_db \<Rightarrow> api_transaction list \<Rightarrow> sqlx_error + api_transaction list" where
  "finish_transactions feat db ts = attach_bridge_claims db (map (map_regular (set_identifiers feat db)) ts)"

definition get_transactions_by_ids :: "feature \<Rightarrow> u64 list \<Rightarrow> chain_db \<Rightarrow> sqlx_error + api_transaction list" where
  "get_transactions_by_ids feat ids db =
     (if ids = [] then Inr []
      else and_then (try_map make_transaction (union_rows (\<lambda>(i, _). i \<in> set (map as_i64 ids)) db))
             (finish_transactions feat db))"

definition get_transactions_by_block_ids ::
  "feature \<Rightarrow> u64 list \<Rightarrow> chain_db \<Rightarrow> sqlx_error + (u64 \<times> api_transaction) list" where
  "get_transactions_by_block_ids feat ids db =
     (if ids = [] then Inr []
      else and_then (try_map make_transaction_with_block_id
               (sort_key (\<lambda>(_, t, _). t_block_id t) (sort_key fst
                 (union_rows (\<lambda>(_, t). t_block_id t \<in> set (map as_i64 ids)) db)))) (\<lambda>ts.
             map_ok (zip (map fst ts)) (finish_transactions feat db (map snd ts))))"

definition get_transactions_by_hash :: "feature \<Rightarrow> bytes \<Rightarrow> chain_db \<Rightarrow> sqlx_error + api_transaction list" where
  "get_transactions_by_hash feat hash db =
     (let rows = union_rows (\<lambda>(_, t). t_hash t = hash) db;
          rows = (case feat of Cloud \<Rightarrow> order_by_desc fst rows | Standalone \<Rightarrow> sort_key fst rows) in
      and_then (try_map make_transaction rows) (finish_transactions feat db))"

definition get_transactions_by_identifier ::
  "feature \<Rightarrow> bytes \<Rightarrow> chain_db \<Rightarrow> sqlx_error + api_transaction list" where
  "get_transactions_by_identifier feat identifier db =
     (let rows = Chain_Storage.filter_map (join_regular db) (tab_rows (transactions db));
          rows = filter (\<lambda>(i, _, _, reg). case feat of
              Cloud \<Rightarrow> (case reg of None \<Rightarrow> False | Some r \<Rightarrow> identifier \<in> set (r_identifiers r))
            | Standalone \<Rightarrow> list_ex (\<lambda>(_, tid, ident). tid = i \<and> ident = identifier)
                              (tab_rows (transaction_identifiers db))) rows in
      and_then (try_map (\<lambda>row. map_ok ApiRegular (regular_from_row row)) (sort_key fst rows))
        (finish_transactions feat db))"

subsection \<open>Relevant transactions of a wallet\<close>

definition get_relevant_transactions_page ::
  "feature \<Rightarrow> bytes \<Rightarrow> nat \<Rightarrow> u64 \<Rightarrow> chain_db \<times> wallet_db \<Rightarrow> sqlx_error + api_regular_transaction list" where
  "get_relevant_transactions_page feat wallet_id batch_size index = (\<lambda>(db, wdb).
     let connected = list_ex (\<lambda>w. w_id w = wallet_id \<and> w_session_id w \<noteq> None) (wallets wdb);
         rows = filter (\<lambda>(i, _, _, reg). connected
             \<and> list_ex (\<lambda>(_, r). rv_wallet_id r = wallet_id \<and> rv_transaction_id r = i) (tab_rows (relevant_transactions wdb))
             \<and> (case reg of None \<Rightarrow> False | Some r \<Rightarrow> as_i64 index \<le> r_zswap_start_index r))
           (Chain_Storage.filter_map (join_regular db) (tab_rows (transactions db))) in
     map_ok (map (set_identifiers feat db)) (try_map regular_from_row (take batch_size (sort_key fst rows))))"

definition get_relevant_transactions ::
  "feature \<Rightarrow> bytes \<Rightarrow> u64 \<Rightarrow> nat \<Rightarrow> (chain_db \<times> wallet_db) list
     \<Rightarrow> (api_regular_transaction list \<times> sqlx_error option) option" where
  "get_relevant_transactions feat wallet_id index batch_size dbs =
     pages (get_relevant_transactions_page feat wallet_id batch_size) ar_zswap_end_index index dbs"

text \<open>The highest end indices of all, of checked and of the wallet's relevant transactions.\<close>

definition max_opt :: "int list \<Rightarrow> int option" where
  "max_opt xs = (if xs = [] then None else Some (Max (set xs)))"

definition get_highest_zswap_end_indices ::
  "bytes \<Rightarrow> chain_db \<Rightarrow> wallet_db \<Rightarrow> u64 option \<times> u64 option \<times> u64 option" where
  "get_highest_zswap_end_indices wallet_id db wdb =
     (map_option as_u64 (max_opt (map r_zswap_end_index (regular_transactions db))),
      Option.bind (max_opt (map w_last_indexed (wallets wdb))) (\<lambda>last_id.
        map_option (as_u64 \<circ> r_zswap_end_index) (find (\<lambda>r. r_id r = last_id) (regular_transactions db))),
      map_option as_u64 (max_opt (map r_zswap_end_index (filter (\<lambda>r.
          list_ex (\<lambda>(_, v). rv_wallet_id v = wallet_id \<and> rv_transaction_id v = r_id r) (tab_rows (relevant_transactions wdb))
          \<and> list_ex (\<lambda>w. w_id w = wallet_id \<and> w_session_id w \<noteq> None) (wallets wdb)) (regular_transactions db)))))"

subsection \<open>Transactions of an unshielded address\<close>

definition touching_ids :: "bytes \<Rightarrow> i64 \<Rightarrow> chain_db \<Rightarrow> i64 set" where
  "touching_ids address transaction_id db =
     set (map (\<lambda>(_, u). u_creating_transaction_id u)
       (select_where (\<lambda>(_, u). u_owner u = address \<and> transaction_id \<le> u_creating_transaction_id u) (unshielded_utxos db)))
   \<union> set (Chain_Storage.filter_map (\<lambda>(_, u). u_spending_transaction_id u)
       (select_where (\<lambda>(_, u). u_owner u = address \<and>
          (case u_spending_transaction_id u of None \<Rightarrow> False | Some i \<Rightarrow> transaction_id \<le> i)) (unshielded_utxos db)))"

definition get_transactions_by_unshielded_address_page ::
  "feature \<Rightarrow> bytes \<Rightarrow> nat \<Rightarrow> u64 \<Rightarrow> chain_db \<Rightarrow> sqlx_error + api_transaction list" where
  "get_transactions_by_unshielded_address_page feat address batch_size transaction_id db =
     (let rows = Chain_Storage.filter_map (left_join_regular db)
            (select_where (\<lambda>(i, _). i \<in> touching_ids address (as_i64 transaction_id) db) (transactions db)) in
      and_then (try_map make_transaction (take batch_size (sort_key fst rows))) (finish_transactions feat db))"

definition get_transactions_by_unshielded_address ::
  "feature \<Rightarrow> bytes \<Rightarrow> u64 \<Rightarrow> nat \<Rightarrow> chain_db list \<Rightarrow> (api_transaction list \<times> sqlx_error option) option" where
  "get_transactions_by_unshielded_address feat address transaction_id batch_size dbs =
     pages (get_transactions_by_unshielded_address_page feat address batch_size)
       (\<lambda>t. api_transaction_id t + 1) transaction_id dbs"

definition get_highest_transaction_id_for_unshielded_address :: "bytes \<Rightarrow> chain_db \<Rightarrow> u64 option" where
  "get_highest_transaction_id_for_unshielded_address address db =
     (let owned = map snd (select_where (\<lambda>(_, u). u_owner u = address) (unshielded_utxos db)) in
      map_option as_u64 (max_opt (map u_creating_transaction_id owned
        @ Chain_Storage.filter_map u_spending_transaction_id owned)))"

section \<open>Unshielded UTXOs\<close>

record api_utxo =
  au_creating_transaction_id :: u64
  au_spending_transaction_id :: "u64 option"
  au_owner :: bytes
  au_token_type :: bytes
  au_value :: u128
  au_intent_hash :: bytes
  au_output_index :: u32
  au_ctime :: "u64 option"
  au_initial_nonce :: bytes
  au_registered_for_dust_generation :: bool

definition api_utxo_from_row :: "i64 \<times> unshielded_utxo_row \<Rightarrow> sqlx_error + api_utxo" where
  "api_utxo_from_row = (\<lambda>(_, u).
     and_then (col_u64 (u_creating_transaction_id u)) (\<lambda>creating.
     and_then (col_opt col_u64 (u_spending_transaction_id u)) (\<lambda>spending.
     and_then (col_array 32 (u_owner u)) (\<lambda>owner.
     and_then (col_array 32 (u_token_type u)) (\<lambda>token_type.
     and_then (col_u128 (u_value u)) (\<lambda>v.
     and_then (col_array 32 (u_intent_hash u)) (\<lambda>intent_hash.
     and_then (col_u32 (u_output_index u)) (\<lambda>output_index.
     and_then (col_opt col_u64 (u_ctime u)) (\<lambda>ctime.
     map_ok (\<lambda>nonce. \<lparr>au_creating_transaction_id = creating, au_spending_transaction_id = spending, au_owner = owner,
         au_token_type = token_type, au_value = v, au_intent_hash = intent_hash, au_output_index = output_index,
         au_ctime = ctime, au_initial_nonce = nonce,
         au_registered_for_dust_generation = u_registered_for_dust_generation u\<rparr>)
       (col_array 32 (u_initial_nonce u)))))))))))"

definition get_unshielded_utxos_by_address :: "bytes \<Rightarrow> chain_db \<Rightarrow> sqlx_error + api_utxo list" where
  "get_unshielded_utxos_by_address address db =
     try_map api_utxo_from_row (sort_key fst (select_where (\<lambda>(_, u). u_owner u = address) (unshielded_utxos db)))"

definition utxos_by_output_index ::
  "(unshielded_utxo_row \<Rightarrow> bool) \<Rightarrow> chain_db \<Rightarrow> sqlx_error + api_utxo list" where
  "utxos_by_output_index p db =
     try_map api_utxo_from_row (sort_key (\<lambda>(_, u). u_output_index u) (select_where (\<lambda>(_, u). p u) (unshielded_utxos db)))"

definition get_unshielded_utxos_created_by_transaction :: "u64 \<Rightarrow> chain_db \<Rightarrow> sqlx_error + api_utxo list" where
  "get_unshielded_utxos_created_by_transaction transaction_id =
     utxos_by_output_index (\<lambda>u. u_creating_transaction_id u = as_i64 transaction_id)"

definition get_unshielded_utxos_spent_by_transaction :: "u64 \<Rightarrow> chain_db \<Rightarrow> sqlx_error + api_utxo list" where
  "get_unshielded_utxos_spent_by_transaction transaction_id =
     utxos_by_output_index (\<lambda>u. u_spending_transaction_id u = Some (as_i64 transaction_id))"

definition get_unshielded_utxos_by_address_created_by_transaction ::
  "bytes \<Rightarrow> u64 \<Rightarrow> chain_db \<Rightarrow> sqlx_error + api_utxo list" where
  "get_unshielded_utxos_by_address_created_by_transaction address transaction_id =
     utxos_by_output_index (\<lambda>u. u_creating_transaction_id u = as_i64 transaction_id \<and> u_owner u = address)"

definition get_unshielded_utxos_by_address_spent_by_transaction ::
  "bytes \<Rightarrow> u64 \<Rightarrow> chain_db \<Rightarrow> sqlx_error + api_utxo list" where
  "get_unshielded_utxos_by_address_spent_by_transaction address transaction_id =
     utxos_by_output_index (\<lambda>u. u_spending_transaction_id u = Some (as_i64 transaction_id) \<and> u_owner u = address)"

end
