(* ===== verification/Api_View.thy ===== *)
theory Api_View
  imports Api_Storage Chain_Storage_Props
begin

text \<open>
  The tables of blocks, transactions, identifiers, contract actions, unshielded UTXOs and bridge claims, which the API's streams
  over transactions read, and the rows that saving a block adds to them: the effect of a successful \<open>save_block\<close> on these tables
  without its checks, from which the proofs about the streams read off what is new.
\<close>

section \<open>The store\<close>

record api_view =
  v_blocks :: "block_row table"
  v_transactions :: "transaction_row table"
  v_regular :: "regular_transaction_row list"
  v_identifiers :: "(i64 \<times> bytes) table"
  v_actions :: "contract_action_row table"
  v_utxos :: "unshielded_utxo_row table"
  v_claims :: "bridge_claim_row table"

definition view :: "chain_db \<Rightarrow> api_view" where
  "view db = \<lparr>v_blocks = blocks db, v_transactions = transactions db, v_regular = regular_transactions db,
     v_identifiers = transaction_identifiers db, v_actions = contract_actions db,
     v_utxos = unshielded_utxos db, v_claims = bridge_claims db\<rparr>"

lemma view_simps [simp]:
  "v_blocks (view db) = blocks db" "v_transactions (view db) = transactions db" "v_regular (view db) = regular_transactions db"
  "v_identifiers (view db) = transaction_identifiers db" "v_actions (view db) = contract_actions db"
  "v_utxos (view db) = unshielded_utxos db" "v_claims (view db) = bridge_claims db"
  by (simp_all add: view_def)

definition add_rows :: "'r list \<Rightarrow> 'r table \<Rightarrow> 'r table" where
  "add_rows rs t = snd (insert_rows rs t)"

definition spend :: "i64 \<Rightarrow> unshielded_utxo list \<Rightarrow> unshielded_utxo_row table \<Rightarrow> unshielded_utxo_row table" where
  "spend tid us t = t\<lparr>tab_rows := map (\<lambda>(i, r). if utxo_key r \<in> set (utxo_keys us) \<and> u_spending_transaction_id r = None
     then (i, r\<lparr>u_spending_transaction_id := Some tid\<rparr>) else (i, r)) (tab_rows t)\<rparr>"

definition claim_rows :: "i64 \<Rightarrow> bridge_claim option \<Rightarrow> bridge_claim_row list" where
  "claim_rows tid claim = (case claim of None \<Rightarrow> [] | Some c \<Rightarrow>
     [\<lparr>bcr_transaction_id = tid, bcr_recipient = bc_recipient c, bcr_amount = U128BeBytes (bc_amount c)\<rparr>])"

fun put_transaction :: "feature \<Rightarrow> i64 \<Rightarrow> transaction \<Rightarrow> api_view \<Rightarrow> api_view" where
  "put_transaction feat bid (Regular t) v =
     (let tid = tab_next (v_transactions v) in
      v\<lparr>v_transactions := add_rows [transaction_row_of bid (Regular t)] (v_transactions v),
        v_regular := v_regular v @ [regular_transaction_row_of feat tid t],
        v_identifiers := (if feat = Standalone then add_rows (map (Pair tid) (rt_identifiers t)) (v_identifiers v)
                          else v_identifiers v),
        v_actions := add_rows (map (contract_action_row_of tid) (rt_contract_actions t)) (v_actions v),
        v_utxos := spend tid (rt_spent_unshielded_utxos t)
                     (add_rows (map (utxo_row_of tid) (rt_created_unshielded_utxos t)) (v_utxos v)),
        v_claims := add_rows (claim_rows tid (rt_bridge_claim t)) (v_claims v)\<rparr>)"
| "put_transaction feat bid (System t) v =
     (let tid = tab_next (v_transactions v) in
      v\<lparr>v_transactions := add_rows [transaction_row_of bid (System t)] (v_transactions v),
        v_utxos := add_rows (map (utxo_row_of tid) (st_created_unshielded_utxos t)) (v_utxos v)\<rparr>)"

definition put_block :: "feature \<Rightarrow> block \<Rightarrow> transaction list \<Rightarrow> bytes \<Rightarrow> api_view \<Rightarrow> api_view" where
  "put_block feat b txs key v =
     fold (put_transaction feat (tab_next (v_blocks v))) txs (v\<lparr>v_blocks := add_rows [block_row_of b key] (v_blocks v)\<rparr>)"

section \<open>Refinement\<close>

lemma add_rows_Nil [simp]: "add_rows [] t = t"
  by (simp add: add_rows_def)

lemma add_row: "add_rows [r] t = snd (insert_row r t)"
  by (simp add: add_rows_def split_def Let_def)

lemma view_other [simp]:
  "view (db\<lparr>contract_balances := x1\<rparr>) = view db" "view (db\<lparr>ledger_events := x2\<rparr>) = view db"
  "view (db\<lparr>indexed_fields := x3\<rparr>) = view db" "view (db\<lparr>dust_generation_infos := x4\<rparr>) = view db"
  "view (db\<lparr>dust_nullifiers := x5\<rparr>) = view db" "view (db\<lparr>zswap_nullifiers := x6\<rparr>) = view db"
  "view (db\<lparr>cnight_registrations := x7\<rparr>) = view db" "view (db\<lparr>system_parameters_d := x8\<rparr>) = view db"
  "view (db\<lparr>system_parameters_tc := x9\<rparr>) = view db" "view (db\<lparr>bridge_events := x10\<rparr>) = view db"
  by (simp_all add: view_def)

lemma view_set:
  "view (db\<lparr>transactions := t\<rparr>) = (view db)\<lparr>v_transactions := t\<rparr>"
  "view (db\<lparr>blocks := t1\<rparr>) = (view db)\<lparr>v_blocks := t1\<rparr>"
  "view (db\<lparr>regular_transactions := t2\<rparr>) = (view db)\<lparr>v_regular := t2\<rparr>"
  "view (db\<lparr>transaction_identifiers := t3\<rparr>) = (view db)\<lparr>v_identifiers := t3\<rparr>"
  "view (db\<lparr>contract_actions := t4\<rparr>) = (view db)\<lparr>v_actions := t4\<rparr>"
  "view (db\<lparr>unshielded_utxos := t5\<rparr>) = (view db)\<lparr>v_utxos := t5\<rparr>"
  "view (db\<lparr>bridge_claims := t6\<rparr>) = (view db)\<lparr>v_claims := t6\<rparr>"
  by (simp_all add: view_def)

lemma view_save_contract_actions:
  "save_contract_actions as tid db = Inr (ids, db') \<Longrightarrow>
     view db' = (view db)\<lparr>v_actions := add_rows (map (contract_action_row_of tid) as) (contract_actions db)\<rparr>"
  by (auto simp: save_contract_actions_def save_contract_balances_def Let_def split_def res_simps insert_unique_Inr
      view_set add_rows_def split: if_splits)

lemma view_save_created:
  "save_created_unshielded_utxos us tid db = Inr db' \<Longrightarrow>
     view db' = (view db)\<lparr>v_utxos := add_rows (map (utxo_row_of tid) us) (unshielded_utxos db)\<rparr>"
  by (auto simp: save_created_unshielded_utxos_def res_simps insert_unique_Inr view_set add_rows_def split: if_splits)

lemma view_save_spent:
  "save_spent_unshielded_utxos us tid db = Inr db' \<Longrightarrow> view db' = (view db)\<lparr>v_utxos := spend tid us (unshielded_utxos db)\<rparr>"
  by (auto simp: save_spent_def2 Let_def split_def view_set spend_def update_where_def split: if_splits)

lemma view_save_ledger_events: "save_ledger_events es as aids tid db = Inr db' \<Longrightarrow> view db' = view db"
  by (auto simp: save_ledger_events_def save_contract_event_indexed_fields_def Let_def split_def split: if_splits)

lemma view_save_dust_generation_info [simp]: "view (save_dust_generation_info es tid db) = view db"
proof -
  have "view (save_dust_generation_event tid e db) = view db" for e db
    by (auto simp: save_dust_generation_event_def split: ledger_event_attributes.splits)
  then have "view (fold (save_dust_generation_event tid) es db) = view db" by (induction es arbitrary: db) auto
  then show ?thesis by (simp add: save_dust_generation_info_def)
qed

lemma view_save_bridge_events [simp]: "view (save_bridge_events es bid db) = view db"
proof -
  have "view (fold (save_bridge_event bid) es db) = view db"
    by (induction es arbitrary: db) (auto simp: save_bridge_event_def)
  then show ?thesis by (simp add: save_bridge_events_def)
qed

lemma view_save_tables [simp]:
  "view (save_dust_nullifiers es tid bid db) = view db" "view (save_zswap_nullifiers es tid bid db) = view db"
  "view (save_dust_registration_events regs bid ts db) = view db" "view (save_system_parameters_change c db) = view db"
  by (auto simp: save_dust_nullifiers_def save_zswap_nullifiers_def save_dust_registration_events_def
      save_system_parameters_change_def Let_def split: option.splits)

lemma view_save_identifiers:
  "view (save_identifiers ids tid db) = (view db)\<lparr>v_identifiers := add_rows (map (Pair tid) ids) (transaction_identifiers db)\<rparr>"
  by (simp add: save_identifiers_def view_set add_rows_def)

lemma view_save_bridge_claim:
  "view (save_bridge_claim tid c db) = (view db)\<lparr>v_claims := add_rows (claim_rows tid (Some c)) (v_claims (view db))\<rparr>"
  by (simp add: save_bridge_claim_def view_set claim_rows_def add_row)

lemma view_save_transaction:
  assumes "save_transaction feat bid (h, db) t = Inr (h', db')"
  shows "view db' = put_transaction feat bid t (view db)"
proof (cases t)
  case (Regular r)
  let ?tid = "tab_next (transactions db)"
  let ?db1 = "db\<lparr>transactions := snd (insert_row (transaction_row_of bid t) (transactions db)),
     regular_transactions := regular_transactions db @ [regular_transaction_row_of feat ?tid r]\<rparr>"
  let ?db2 = "if feat = Standalone then save_identifiers (rt_identifiers r) ?tid ?db1 else ?db1"
  obtain aids db3 db4 db5 db6 where
        s3: "save_contract_actions (rt_contract_actions r) ?tid ?db2 = Inr (aids, db3)"
    and s4: "save_created_unshielded_utxos (rt_created_unshielded_utxos r) ?tid db3 = Inr db4"
    and s5: "save_spent_unshielded_utxos (rt_spent_unshielded_utxos r) ?tid db4 = Inr db5"
    and s6: "save_ledger_events (rt_ledger_events r) (rt_contract_actions r) aids ?tid db5 = Inr db6"
    and db': "db' = (let db = save_dust_generation_info (rt_ledger_events r) ?tid db6;
              db = save_dust_nullifiers (rt_ledger_events r) ?tid bid db;
              db = save_zswap_nullifiers (rt_ledger_events r) ?tid bid db
          in case rt_bridge_claim r of None \<Rightarrow> db | Some claim \<Rightarrow> save_bridge_claim ?tid claim db)"
    using assms Regular
    by (auto simp: save_transaction_def save_regular_transaction_def Let_def split_def insert_row_simps res_simps split: if_splits)
  note v = view_save_contract_actions [OF s3] view_save_created [OF s4] view_save_spent [OF s5] view_save_ledger_events [OF s6]
  have u: "unshielded_utxos x = v_utxos (view x)" "contract_actions x = v_actions (view x)"
    "bridge_claims x = v_claims (view x)" for x by simp_all
  let ?D = "save_zswap_nullifiers (rt_ledger_events r) ?tid bid (save_dust_nullifiers (rt_ledger_events r) ?tid bid
        (save_dust_generation_info (rt_ledger_events r) ?tid db6))"
  have v6: "view ?D = (view ?db2)\<lparr>v_actions := add_rows (map (contract_action_row_of ?tid) (rt_contract_actions r)) (v_actions (view ?db2)),
      v_utxos := spend ?tid (rt_spent_unshielded_utxos r)
        (add_rows (map (utxo_row_of ?tid) (rt_created_unshielded_utxos r)) (v_utxos (view ?db2)))\<rparr>"
    using v by (simp only: u view_save_tables view_save_dust_generation_info) simp
  have v2: "view ?db2 = (view db)\<lparr>v_transactions := add_rows [transaction_row_of bid t] (transactions db),
      v_regular := regular_transactions db @ [regular_transaction_row_of feat ?tid r],
      v_identifiers := (if feat = Standalone then add_rows (map (Pair ?tid) (rt_identifiers r)) (transaction_identifiers db)
         else transaction_identifiers db)\<rparr>"
    by (simp add: view_save_identifiers view_set add_row)
  have "view db' = (view ?D)\<lparr>v_claims := add_rows (claim_rows ?tid (rt_bridge_claim r)) (v_claims (view ?D))\<rparr>"
    by (cases "rt_bridge_claim r") (simp_all add: db' Let_def view_save_bridge_claim claim_rows_def del: view_simps)
  then show ?thesis unfolding v6 v2 by (simp add: Regular Let_def)
next
  case (System s)
  let ?tid = "tab_next (transactions db)"
  let ?db1 = "db\<lparr>transactions := snd (insert_row (transaction_row_of bid t) (transactions db))\<rparr>"
  obtain db1 db2 where s: "save_created_unshielded_utxos (st_created_unshielded_utxos s) ?tid ?db1 = Inr db1"
    "save_ledger_events (st_ledger_events s) [] [] ?tid db1 = Inr db2"
    "db' = save_dust_generation_info (st_ledger_events s) ?tid db2"
    using assms System by (auto simp: save_transaction_def save_system_transaction_def Let_def split_def insert_row_simps res_simps)
  then show ?thesis
    using view_save_created [OF s(1)] view_save_ledger_events [OF s(2)] by (simp add: System Let_def view_set add_row)
qed

lemma view_save_transactions:
  "try_fold (save_transaction feat bid) (h, db) txs = Inr (h', db') \<Longrightarrow> view db' = fold (put_transaction feat bid) txs (view db)"
proof (induction txs arbitrary: h db)
  case (Cons t txs)
  then obtain h1 db1 where "save_transaction feat bid (h, db) t = Inr (h1, db1)"
    "try_fold (save_transaction feat bid) (h1, db1) txs = Inr (h', db')"
    by (auto simp: res_simps split: sum.splits)
  then show ?case using Cons.IH view_save_transaction by simp
qed simp

lemma view_save_block:
  assumes "save_block feat b txs regs key change db = (Inr mx, db')"
  shows "view db' = put_block feat b txs key (view db)"
proof -
  obtain db1 db2 where 1: "db1 = db\<lparr>blocks := snd (insert_row (block_row_of b key) (blocks db))\<rparr>"
    "save_transactions feat txs (tab_next (blocks db)) db1 = Inr (mx, db2)" "view db' = view db2"
    using assms by (fastforce simp: save_block_def save_block_tx_def insert_block_def Let_def split_def res_simps insert_row_simps
        split: if_splits sum.splits option.splits)
  then show ?thesis
    using view_save_transactions [of feat "tab_next (blocks db)" None db1 txs mx db2]
    by (simp add: save_transactions_def put_block_def view_set add_row)
qed

end
