(* ===== verification/Api_Contract.thy ===== *)
theory Api_Contract
  imports Api_Storage
begin

text \<open>
  What the API reads of contract actions, \<^verbatim>\<open>indexer-api/src/infra/storage/contract_action.rs\<close>.
\<close>

section \<open>Rows\<close>

record api_contract_action =
  ac_id :: u64
  ac_address :: bytes
  ac_state :: bytes
  ac_attributes :: contract_attributes
  ac_zswap_state :: bytes
  ac_transaction_id :: u64

definition api_contract_action_from_row :: "i64 \<times> contract_action_row \<Rightarrow> sqlx_error + api_contract_action" where
  "api_contract_action_from_row = (\<lambda>(i, r).
     and_then (col_u64 i) (\<lambda>id.
     map_ok (\<lambda>transaction_id. \<lparr>ac_id = id, ac_address = a_address r, ac_state = a_state r,
         ac_attributes = a_attributes r, ac_zswap_state = a_zswap_state r, ac_transaction_id = transaction_id\<rparr>)
       (col_u64 (a_transaction_id r))))"

text \<open>The height of the block of a contract action, by the joins with \<^verbatim>\<open>transactions\<close> and \<^verbatim>\<open>blocks\<close>.\<close>

definition action_block :: "chain_db \<Rightarrow> contract_action_row \<Rightarrow> block_row option" where
  "action_block db r =
     Option.bind (row_by_id (transactions db) (a_transaction_id r)) (\<lambda>t. row_by_id (blocks db) (t_block_id t))"

definition action_height_where :: "(i64 \<Rightarrow> bool) \<Rightarrow> chain_db \<Rightarrow> contract_action_row \<Rightarrow> bool" where
  "action_height_where p db r = (case action_block db r of None \<Rightarrow> False | Some b \<Rightarrow> p (b_height b))"

definition height_by_hash :: "bytes \<Rightarrow> chain_db \<Rightarrow> i64 option" where
  "height_by_hash hash db = map_option b_height (find (\<lambda>b. b_hash b = hash) (map snd (tab_rows (blocks db))))"

definition block_id_by_hash :: "bytes \<Rightarrow> chain_db \<Rightarrow> i64 option" where
  "block_id_by_hash hash db = map_option fst (find (\<lambda>(_, b). b_hash b = hash) (tab_rows (blocks db)))"

section \<open>Queries\<close>

definition latest_action :: "(contract_action_row \<Rightarrow> bool) \<Rightarrow> chain_db \<Rightarrow> sqlx_error + api_contract_action option" where
  "latest_action p db =
     fetch_optional api_contract_action_from_row
       (order_by_desc fst (select_where (\<lambda>(_, r). p r) (contract_actions db)))"

text \<open>The assertion of \<^verbatim>\<open>get_contract_deploy_by_address\<close> is the outer option: \<^term>\<open>None\<close> is a panic.\<close>

definition get_contract_deploy_by_address :: "bytes \<Rightarrow> chain_db \<Rightarrow> (sqlx_error + api_contract_action option) option" where
  "get_contract_deploy_by_address address db =
     (case fetch_optional api_contract_action_from_row
             (sort_key fst (select_where (\<lambda>(_, r). a_address r = address) (contract_actions db))) of
        Inl e \<Rightarrow> Some (Inl e)
      | Inr None \<Rightarrow> Some (Inr None)
      | Inr (Some a) \<Rightarrow> if ac_attributes a = Deploy then Some (Inr (Some a)) else None)"

definition get_latest_contract_action_by_address :: "bytes \<Rightarrow> chain_db \<Rightarrow> sqlx_error + api_contract_action option" where
  "get_latest_contract_action_by_address address = latest_action (\<lambda>r. a_address r = address)"

definition get_contract_action_by_address_and_block_hash ::
  "bytes \<Rightarrow> bytes \<Rightarrow> chain_db \<Rightarrow> sqlx_error + api_contract_action option" where
  "get_contract_action_by_address_and_block_hash address hash db =
     latest_action (\<lambda>r. a_address r = address
       \<and> (case row_by_id (transactions db) (a_transaction_id r) of
            None \<Rightarrow> False
          | Some t \<Rightarrow> block_id_by_hash hash db = Some (t_block_id t))) db"

definition get_contract_action_by_address_and_block_height ::
  "bytes \<Rightarrow> u32 \<Rightarrow> chain_db \<Rightarrow> sqlx_error + api_contract_action option" where
  "get_contract_action_by_address_and_block_height address block_height db =
     latest_action (\<lambda>r. a_address r = address
       \<and> action_height_where (\<lambda>h. h = u32_as_i64 block_height) db r) db"

definition get_contract_action_by_address_as_of_block_hash ::
  "bytes \<Rightarrow> bytes \<Rightarrow> chain_db \<Rightarrow> sqlx_error + api_contract_action option" where
  "get_contract_action_by_address_as_of_block_hash address hash db =
     latest_action (\<lambda>r. a_address r = address
       \<and> (case height_by_hash hash db of None \<Rightarrow> False | Some m \<Rightarrow> action_height_where (\<lambda>h. h \<le> m) db r)) db"

definition contract_action_exists_by_address_as_of_block_hash :: "bytes \<Rightarrow> bytes \<Rightarrow> chain_db \<Rightarrow> bool" where
  "contract_action_exists_by_address_as_of_block_hash address hash db =
     list_ex (\<lambda>(_, r). a_address r = address
       \<and> (case height_by_hash hash db of None \<Rightarrow> False | Some m \<Rightarrow> action_height_where (\<lambda>h. h \<le> m) db r))
       (tab_rows (contract_actions db))"

definition get_contract_action_by_address_as_of_block_height ::
  "bytes \<Rightarrow> u32 \<Rightarrow> chain_db \<Rightarrow> sqlx_error + api_contract_action option" where
  "get_contract_action_by_address_as_of_block_height address block_height db =
     latest_action (\<lambda>r. a_address r = address
       \<and> action_height_where (\<lambda>h. h \<le> u32_as_i64 block_height) db r) db"

definition get_recent_contract_actions_by_address ::
  "bytes \<Rightarrow> u32 \<Rightarrow> contract_action_variant option \<Rightarrow> chain_db \<Rightarrow> sqlx_error + api_contract_action list" where
  "get_recent_contract_actions_by_address address limit variant db =
     try_map api_contract_action_from_row (take (unat limit) (order_by_desc fst
       (select_where (\<lambda>(_, r). a_address r = address \<and> (case variant of None \<Rightarrow> True | Some v \<Rightarrow> a_variant r = v))
         (contract_actions db))))"

definition get_contract_action_by_address_and_transaction_hash ::
  "bytes \<Rightarrow> bytes \<Rightarrow> chain_db \<Rightarrow> sqlx_error + api_contract_action option" where
  "get_contract_action_by_address_and_transaction_hash address hash db =
     (let tid = first_row (map fst (sort_key fst (select_where (\<lambda>(_, t). t_hash t = hash) (transactions db)))) in
      latest_action (\<lambda>r. a_address r = address \<and> tid = Some (a_transaction_id r)) db)"

definition get_contract_action_by_address_and_transaction_identifier ::
  "feature \<Rightarrow> bytes \<Rightarrow> bytes \<Rightarrow> chain_db \<Rightarrow> sqlx_error + api_contract_action option" where
  "get_contract_action_by_address_and_transaction_identifier feat address identifier db =
     latest_action (\<lambda>a. a_address a = address
       \<and> (case find (\<lambda>r. r_id r = a_transaction_id a) (regular_transactions db) of
            None \<Rightarrow> False
          | Some r \<Rightarrow> (case feat of
              Cloud \<Rightarrow> identifier \<in> set (r_identifiers r)
            | Standalone \<Rightarrow> list_ex (\<lambda>(_, tid, ident). tid = r_id r \<and> ident = identifier)
                              (tab_rows (transaction_identifiers db))))) db"

definition get_contract_actions_by_transaction_id :: "u64 \<Rightarrow> chain_db \<Rightarrow> sqlx_error + api_contract_action list" where
  "get_contract_actions_by_transaction_id transaction_id db =
     try_map api_contract_action_from_row
       (sort_key fst (select_where (\<lambda>(_, r). a_transaction_id r = as_i64 transaction_id) (contract_actions db)))"

definition get_contract_actions_by_transaction_ids :: "u64 list \<Rightarrow> chain_db \<Rightarrow> sqlx_error + api_contract_action list" where
  "get_contract_actions_by_transaction_ids ids db =
     (if ids = [] then Inr []
      else try_map api_contract_action_from_row
        (sort_key fst (select_where (\<lambda>(_, r). a_transaction_id r \<in> set (map as_i64 ids)) (contract_actions db))))"

definition get_contract_actions_by_address_page ::
  "bytes \<Rightarrow> nat \<Rightarrow> u64 \<Rightarrow> chain_db \<Rightarrow> sqlx_error + api_contract_action list" where
  "get_contract_actions_by_address_page address batch_size contract_action_id db =
     try_map api_contract_action_from_row (take batch_size (sort_key fst
       (select_where (\<lambda>(i, r). a_address r = address \<and> as_i64 contract_action_id \<le> i \<and> action_block db r \<noteq> None)
         (contract_actions db))))"

definition get_contract_actions_by_address ::
  "bytes \<Rightarrow> u64 \<Rightarrow> nat \<Rightarrow> chain_db list \<Rightarrow> (api_contract_action list \<times> sqlx_error option) option" where
  "get_contract_actions_by_address address contract_action_id batch_size dbs =
     pages (get_contract_actions_by_address_page address batch_size) (\<lambda>a. ac_id a + 1) contract_action_id dbs"

record api_contract_balance =
  acb_token_type :: bytes
  acb_amount :: u128

definition get_unshielded_balances_by_contract_action_id ::
  "u64 \<Rightarrow> chain_db \<Rightarrow> sqlx_error + api_contract_balance list" where
  "get_unshielded_balances_by_contract_action_id contract_action_id db =
     try_map (\<lambda>(_, r). and_then (col_array 32 (cbr_token_type r)) (\<lambda>token_type.
         map_ok (\<lambda>amount. \<lparr>acb_token_type = token_type, acb_amount = amount\<rparr>) (col_u128 (cbr_amount r))))
       (select_where (\<lambda>(_, r). cbr_contract_action_id r = as_i64 contract_action_id) (contract_balances db))"

definition get_contract_action_id_by_block_height :: "u32 \<Rightarrow> chain_db \<Rightarrow> u64 option" where
  "get_contract_action_id_by_block_height block_height db =
     map_option as_u64 (first_row (map fst (sort_key fst
       (select_where (\<lambda>(_, r). action_height_where (\<lambda>h. u32_as_i64 block_height \<le> h) db r) (contract_actions db)))))"

definition get_protocol_version_by_transaction_id :: "u64 \<Rightarrow> chain_db \<Rightarrow> sqlx_error + protocol_version option" where
  "get_protocol_version_by_transaction_id transaction_id db =
     col_opt col_version (map_option t_protocol_version (row_by_id (transactions db) (as_i64 transaction_id)))"

end
