(* ===== verification/Api_Types.thy ===== *)
theory Api_Types
  imports Api_View Api_Contract
begin

text \<open>
  Stored rows are well typed: what the chain indexer writes is what the API decodes. The columns are
  \<^verbatim>\<open>BIGINT\<close>s and byte strings; the domain types they stand for are unsigned integers, byte arrays
  and versions, and a row that does not fit them makes every query that reads it fail.
\<close>

section \<open>Values that fit\<close>

text \<open>
  The lengths and the versions are those of the Rust types (\<^verbatim>\<open>ByteArray<32>\<close>, \<^verbatim>\<open>ProtocolVersion\<close>);
  that a \<^verbatim>\<open>u64\<close> fits an \<^verbatim>\<open>i64\<close> and a height fits a \<^verbatim>\<open>u32\<close> is not promised by a type.
\<close>

definition fits :: "u64 \<Rightarrow> bool" where
  "fits w \<longleftrightarrow> unat w < 2 ^ 63"

definition version_ok :: "protocol_version \<Rightarrow> bool" where
  "version_ok v \<longleftrightarrow> try_from_u32 (u32_from v) = Inr v"

text \<open>A bridge event's hashes are \<^verbatim>\<open>ByteArray<32>\<close> and its recipient a \<^verbatim>\<open>BridgeRecipient\<close>.\<close>

definition bridge_event_fits :: "bridge_event \<Rightarrow> bool" where
  "bridge_event_fits e \<longleftrightarrow> length (be_midnight_tx_hash e) = 32 \<and> (\<forall>h. be_mc_tx_hash e = Some h \<longrightarrow> length h = 32)
     \<and> (\<forall>r. be_recipient e = Some r \<longrightarrow> length r \<le> BRIDGE_RECIPIENT_MAX_BYTES)"

definition block_fits :: "block \<Rightarrow> bool" where
  "block_fits b \<longleftrightarrow> length (bl_hash b) = 32 \<and> length (bl_parent_hash b) = 32
     \<and> (\<forall>a. bl_author b = Some a \<longrightarrow> length a = 32) \<and> version_ok (bl_protocol_version b)
     \<and> unat (bl_height b) < 2 ^ 32 - 1 \<and> fits (bl_timestamp b) \<and> fits (bl_zswap_end_index b)
     \<and> fits (bl_dust_commitment_end_index b) \<and> fits (bl_dust_generation_end_index b)
     \<and> list_all bridge_event_fits (bl_bridge_events b)"

definition utxo_fits :: "unshielded_utxo \<Rightarrow> bool" where
  "utxo_fits u \<longleftrightarrow> length (utxo_owner u) = 32 \<and> length (utxo_token_type u) = 32 \<and> length (utxo_intent_hash u) = 32
     \<and> length (utxo_initial_nonce u) = 32 \<and> (\<forall>t. utxo_ctime u = Some t \<longrightarrow> fits t)"

text \<open>A ledger event as its constructors make it: grouped by its attributes, with an address for a contract event.\<close>

fun grouping_of :: "ledger_event_attributes \<Rightarrow> ledger_event_grouping" where
  "grouping_of (ZswapInput _) = Zswap"
| "grouping_of ZswapOutput = Zswap"
| "grouping_of ParamChange = Dust"
| "grouping_of (DustInitialUtxo _ _ _) = Dust"
| "grouping_of (DustGenerationDtimeUpdate _ _ _) = Dust"
| "grouping_of (DustSpendProcessed _ _) = Dust"
| "grouping_of _ = Contract"

definition event_fits :: "ledger_event \<Rightarrow> bool" where
  "event_fits e \<longleftrightarrow> le_grouping e = grouping_of (le_attributes e)
     \<and> (le_grouping e = Contract \<longrightarrow> le_contract_address e \<noteq> None)
     \<and> (case le_attributes e of
          DustInitialUtxo output info index \<Rightarrow> fits (qdo_mt_index output) \<and> fits index \<and> fits (dgi_ctime info)
        | _ \<Rightarrow> True)"

fun tx_fits :: "transaction \<Rightarrow> bool" where
  "tx_fits (Regular t) \<longleftrightarrow> length (rt_hash t) = 32 \<and> version_ok (rt_protocol_version t)
     \<and> fits (rt_zswap_start_index t) \<and> fits (rt_zswap_end_index t)
     \<and> fits (rt_dust_commitment_start_index t) \<and> fits (rt_dust_commitment_end_index t)
     \<and> fits (rt_dust_generation_start_index t) \<and> fits (rt_dust_generation_end_index t)
     \<and> list_all utxo_fits (rt_created_unshielded_utxos t) \<and> list_all event_fits (rt_ledger_events t)
     \<and> (\<forall>c. rt_bridge_claim t = Some c \<longrightarrow> length (bc_recipient c) = 32)"
| "tx_fits (System t) \<longleftrightarrow> length (st_hash t) = 32 \<and> version_ok (st_protocol_version t)
     \<and> list_all utxo_fits (st_created_unshielded_utxos t) \<and> list_all event_fits (st_ledger_events t)"

section \<open>Typed rows\<close>

definition block_typed :: "block_row \<Rightarrow> bool" where
  "block_typed r \<longleftrightarrow> length (b_hash r) = 32 \<and> length (b_parent_hash r) = 32
     \<and> (\<forall>a. b_author r = Some a \<longrightarrow> length a = 32) \<and> is_ok (try_from_i64 (b_protocol_version r))
     \<and> 0 \<le> b_height r \<and> b_height r < 2 ^ 32 - 1 \<and> 0 \<le> b_timestamp r \<and> 0 \<le> b_zswap_end_index r
     \<and> 0 \<le> b_dust_commitment_end_index r \<and> 0 \<le> b_dust_generation_end_index r"

definition transaction_typed :: "transaction_row \<Rightarrow> bool" where
  "transaction_typed r \<longleftrightarrow> length (t_hash r) = 32 \<and> is_ok (try_from_i64 (t_protocol_version r))"

definition regular_typed :: "regular_transaction_row \<Rightarrow> bool" where
  "regular_typed r \<longleftrightarrow> 0 \<le> r_zswap_start_index r \<and> r_zswap_start_index r < 2 ^ 63
     \<and> 0 \<le> r_zswap_end_index r \<and> r_zswap_end_index r < 2 ^ 63
     \<and> 0 \<le> r_dust_commitment_start_index r \<and> 0 \<le> r_dust_commitment_end_index r
     \<and> 0 \<le> r_dust_generation_start_index r \<and> 0 \<le> r_dust_generation_end_index r
     \<and> length (r_paid_fees r) = 16 \<and> length (r_estimated_fees r) = 16"

definition utxo_typed :: "unshielded_utxo_row \<Rightarrow> bool" where
  "utxo_typed u \<longleftrightarrow> 0 \<le> u_creating_transaction_id u \<and> (\<forall>i. u_spending_transaction_id u = Some i \<longrightarrow> 0 \<le> i)
     \<and> length (u_owner u) = 32 \<and> length (u_token_type u) = 32 \<and> length (u_value u) = 16
     \<and> length (u_intent_hash u) = 32 \<and> 0 \<le> u_output_index u \<and> u_output_index u < 2 ^ 32
     \<and> (\<forall>t. u_ctime u = Some t \<longrightarrow> 0 \<le> t) \<and> length (u_initial_nonce u) = 32"

definition claim_typed :: "bridge_claim_row \<Rightarrow> bool" where
  "claim_typed r \<longleftrightarrow> length (bcr_recipient r) = 32 \<and> length (bcr_amount r) = 16"

abbreviation rows_all :: "('r \<Rightarrow> bool) \<Rightarrow> 'r table \<Rightarrow> bool" where
  "rows_all p t \<equiv> list_all (\<lambda>(i, r). 0 < i \<and> p r) (tab_rows t)"

text \<open>
  A typed store: ids are positive, rows are typed, every regular transaction has its row in
  \<^verbatim>\<open>regular_transactions\<close> and every block referenced exists.
\<close>

definition typed :: "api_view \<Rightarrow> bool" where
  "typed v \<longleftrightarrow> rows_all block_typed (v_blocks v) \<and> rows_all transaction_typed (v_transactions v)
     \<and> list_all regular_typed (v_regular v) \<and> rows_all utxo_typed (v_utxos v) \<and> rows_all claim_typed (v_claims v)
     \<and> rows_all (\<lambda>r. 0 < a_transaction_id r) (v_actions v)
     \<and> list_all (\<lambda>(i, t). t_variant t = RegularVariant \<longrightarrow> i \<in> r_id ` set (v_regular v)) (tab_rows (v_transactions v))
     \<and> 0 < tab_next (v_blocks v) \<and> 0 < tab_next (v_transactions v) \<and> 0 < tab_next (v_utxos v)
     \<and> 0 < tab_next (v_claims v) \<and> 0 < tab_next (v_actions v)"

subsection \<open>Saving keeps the store typed\<close>

lemma fits_nonneg: "fits w \<Longrightarrow> 0 \<le> as_i64 w"
  using as_i64_nonneg [of w] by (simp add: fits_def)

lemma version_ok_stored: "version_ok v \<Longrightarrow> is_ok (try_from_i64 (into_i64 v))"
  by (simp add: version_ok_def try_from_i64_into_i64_eq)

lemma block_row_typed: "block_fits b \<Longrightarrow> block_typed (block_row_of b key)"
proof -
  assume b: "block_fits b"
  then have h: "unat (bl_height b) < 2 ^ 32 - 1" by (simp add: block_fits_def)
  then have "as_i64 (bl_height b) = int (unat (bl_height b))" by (intro as_i64_nonneg) simp
  moreover have "int (unat (bl_height b)) < int (2 ^ 32 - 1)" using h by (simp only: of_nat_less_iff)
  ultimately have "0 \<le> as_i64 (bl_height b)" "as_i64 (bl_height b) < 2 ^ 32 - 1" by simp_all
  then show ?thesis using b by (simp add: block_fits_def block_typed_def block_row_of_def fits_nonneg version_ok_stored)
qed

lemma transaction_row_typed: "tx_fits t \<Longrightarrow> transaction_typed (transaction_row_of bid t)"
  by (cases t) (simp_all add: transaction_typed_def transaction_row_of_def version_ok_stored)

lemma as_i64_upper: "as_i64 w < 2 ^ 63"
  using sint_lt [of w] by (simp add: as_i64_def)

lemma regular_row_typed: "tx_fits (Regular t) \<Longrightarrow> regular_typed (regular_transaction_row_of feat tid t)"
  using as_i64_upper by (simp add: regular_typed_def regular_transaction_row_of_def fits_nonneg U128BeBytes_length)

lemma utxo_row_typed: "utxo_fits u \<Longrightarrow> 0 < tid \<Longrightarrow> utxo_typed (utxo_row_of tid u)"
  using uint_bounded [of "utxo_output_index u"]
  by (auto simp: utxo_fits_def utxo_typed_def utxo_row_of_def U128BeBytes_length u32_as_i64_def fits_nonneg)

lemma rows_all_add:
  "0 < tab_next t \<Longrightarrow> rows_all p t \<Longrightarrow> list_all p rs \<Longrightarrow> rows_all p (add_rows rs t) \<and> 0 < tab_next (add_rows rs t)"
  using insert_rows_eq [of rs t] by (force simp: add_rows_def list_all_iff dest: set_zip_leftD set_zip_rightD)

lemma rows_all_spend: "0 < tid \<Longrightarrow> rows_all utxo_typed t \<Longrightarrow> rows_all utxo_typed (spend tid us t)"
proof -
  assume tid: "0 < tid" and t: "rows_all utxo_typed t"
  have "utxo_typed (r\<lparr>u_spending_transaction_id := Some tid\<rparr>)" if "utxo_typed r" for r
    using that tid by (simp add: utxo_typed_def)
  then show ?thesis using t by (force simp: spend_def list.pred_map list_all_iff comp_def split_def)
qed

lemma spend_next [simp]: "tab_next (spend tid us t) = tab_next t"
  by (simp add: spend_def)

lemma put_transaction_typed:
  assumes v: "typed v" and t: "tx_fits t"
  shows "typed (put_transaction feat bid t v)"
proof -
  let ?tid = "tab_next (v_transactions v)"
  have n: "0 < ?tid" using v by (simp add: typed_def)
  have utxos: "list_all utxo_typed (map (utxo_row_of ?tid) us)" if "list_all utxo_fits us" for us
    using that utxo_row_typed n by (auto simp: list_all_iff)
  have acts: "list_all (\<lambda>r. 0 < a_transaction_id r) (map (contract_action_row_of ?tid) as)" for as
    using n by (simp add: list_all_iff contract_action_row_of_def)
  have rows: "tab_rows (add_rows [transaction_row_of bid t] (v_transactions v))
      = tab_rows (v_transactions v) @ [(?tid, transaction_row_of bid t)]"
    by (simp add: add_row insert_row_simps)
  have tx: "rows_all transaction_typed (add_rows [transaction_row_of bid t] (v_transactions v))
      \<and> 0 < tab_next (add_rows [transaction_row_of bid t] (v_transactions v))"
    using v t transaction_row_typed by (intro rows_all_add) (simp_all add: typed_def)
  show ?thesis
  proof (cases t)
    case (Regular r)
    have "list_all claim_typed (claim_rows ?tid (rt_bridge_claim r))"
      using t Regular by (auto simp: claim_rows_def claim_typed_def U128BeBytes_length split: option.splits)
    with v have c: "rows_all claim_typed (add_rows (claim_rows ?tid (rt_bridge_claim r)) (v_claims v))
      \<and> 0 < tab_next (add_rows (claim_rows ?tid (rt_bridge_claim r)) (v_claims v))"
      by (intro rows_all_add) (simp_all add: typed_def)
    have u: "rows_all utxo_typed (add_rows (map (utxo_row_of ?tid) (rt_created_unshielded_utxos r)) (v_utxos v))
      \<and> 0 < tab_next (add_rows (map (utxo_row_of ?tid) (rt_created_unshielded_utxos r)) (v_utxos v))"
      using v t Regular utxos by (intro rows_all_add) (simp_all add: typed_def)
    have a: "rows_all (\<lambda>r. 0 < a_transaction_id r) (add_rows (map (contract_action_row_of ?tid) (rt_contract_actions r)) (v_actions v))
      \<and> 0 < tab_next (add_rows (map (contract_action_row_of ?tid) (rt_contract_actions r)) (v_actions v))"
      using v acts by (intro rows_all_add) (simp_all add: typed_def)
    have "regular_typed (regular_transaction_row_of feat ?tid r)" using t Regular regular_row_typed by blast
    moreover have "list_all (\<lambda>(i, t). t_variant t = RegularVariant \<longrightarrow> i \<in> r_id ` set (v_regular v)) (tab_rows (v_transactions v))"
      using v by (simp add: typed_def)
    ultimately show ?thesis using v tx c u a rows_all_spend [OF n] rows
      by (simp add: typed_def Regular Let_def) (auto simp: list_all_iff regular_transaction_row_of_def)
  next
    case (System s)
    have u: "rows_all utxo_typed (add_rows (map (utxo_row_of ?tid) (st_created_unshielded_utxos s)) (v_utxos v))
      \<and> 0 < tab_next (add_rows (map (utxo_row_of ?tid) (st_created_unshielded_utxos s)) (v_utxos v))"
      using v t System utxos by (intro rows_all_add) (simp_all add: typed_def)
    then show ?thesis using v tx rows by (simp add: typed_def System Let_def transaction_row_of_def)
  qed
qed

lemma put_block_typed:
  assumes "typed v" and "block_fits b" and "list_all tx_fits txs"
  shows "typed (put_block feat b txs key v)"
proof -
  have "rows_all block_typed (add_rows [block_row_of b key] (v_blocks v)) \<and> 0 < tab_next (add_rows [block_row_of b key] (v_blocks v))"
    using assms(1,2) block_row_typed by (intro rows_all_add) (simp_all add: typed_def)
  then have "typed (v\<lparr>v_blocks := add_rows [block_row_of b key] (v_blocks v)\<rparr>)" using assms(1) by (simp add: typed_def)
  moreover have "typed (fold (put_transaction feat bid) txs w)" if "typed w" for w bid
    using assms(3) that by (induction txs arbitrary: w) (simp_all add: put_transaction_typed)
  ultimately show ?thesis by (simp add: put_block_def)
qed

section \<open>Stored databases\<close>

text \<open>
  A block is added: it is higher than the blocks stored, it and its transactions fit the columns, and the
  sequence of transaction ids is not exhausted. \<open>stored\<close> holds of the databases that arise.
\<close>

definition store_step :: "feature \<Rightarrow> chain_db \<Rightarrow> chain_db \<Rightarrow> bool" where
  "store_step feat db db' \<longleftrightarrow> (\<exists>b txs regs key change mx.
     save_block feat b txs regs key change db = (Inr mx, db') \<and> block_fits b \<and> list_all tx_fits txs
     \<and> above_all (as_i64 (bl_height b)) b_height (blocks db) \<and> tab_next (transactions db') < 2 ^ 63 - 1)"

abbreviation stored_later :: "feature \<Rightarrow> chain_db \<Rightarrow> chain_db \<Rightarrow> bool" where
  "stored_later feat \<equiv> (store_step feat)\<^sup>*\<^sup>*"

definition stored :: "feature \<Rightarrow> chain_db \<Rightarrow> bool" where
  "stored feat db \<longleftrightarrow> stored_later feat empty_chain_db db"

lemma typed_empty: "typed (view empty_chain_db)"
  by (simp add: typed_def empty_chain_db_def empty_table_def)

definition heights_sorted :: "chain_db \<Rightarrow> bool" where
  "heights_sorted db \<longleftrightarrow> sorted_wrt (\<lambda>x y. b_height (snd x) < b_height (snd y)) (tab_rows (blocks db))"

lemma store_step_keeps:
  assumes "store_step feat db db'" and "db_ok db" "typed (view db)" "heights_sorted db"
  shows "db_ok db'" "typed (view db')" "heights_sorted db'" "extends db db'" "tab_next (transactions db') < 2 ^ 63 - 1"
proof -
  obtain b txs regs key change mx where s: "save_block feat b txs regs key change db = (Inr mx, db')"
    and b: "block_fits b" "list_all tx_fits txs" "above_all (as_i64 (bl_height b)) b_height (blocks db)"
    and n: "tab_next (transactions db') < 2 ^ 63 - 1"
    using assms(1) unfolding store_step_def by blast
  show "db_ok db'" using save_block_Inr [OF s assms(2)] by blast
  show "typed (view db')" unfolding view_save_block [OF s] by (rule put_block_typed [OF assms(3) b(1,2)])
  have "tab_rows (blocks db') = tab_rows (blocks db) @ [(tab_next (blocks db), block_row_of b key)]"
    using save_block_Inr [OF s assms(2)] by (simp add: insert_row_simps)
  then show "heights_sorted db'" using assms(4) b(3)
    by (auto simp: heights_sorted_def sorted_wrt_append above_all_def list_all_iff block_row_of_def)
  show "extends db db'" using save_block_extends [of db feat b txs regs key change] by (simp add: s)
  show "tab_next (transactions db') < 2 ^ 63 - 1" by (rule n)
qed

lemma stored_ok:
  assumes "stored feat db"
  shows "db_ok db" "typed (view db)" "heights_sorted db" "tab_next (transactions db) < 2 ^ 63 - 1"
proof -
  have "db_ok db \<and> typed (view db) \<and> heights_sorted db \<and> tab_next (transactions db) < 2 ^ 63 - 1"
    using assms unfolding stored_def
  proof (induction rule: rtranclp_induct)
    case base
    then show ?case using db_ok_empty typed_empty
      by (simp add: heights_sorted_def empty_chain_db_def empty_table_def)
  next
    case (step db db')
    then show ?case using store_step_keeps by blast
  qed
  then show "db_ok db" "typed (view db)" "heights_sorted db" "tab_next (transactions db) < 2 ^ 63 - 1" by simp_all
qed

lemma stored_later_stored: "stored feat db \<Longrightarrow> stored_later feat db db' \<Longrightarrow> stored feat db'"
  by (simp add: stored_def)

lemma stored_later_extends: "stored_later feat db db' \<Longrightarrow> stored feat db \<Longrightarrow> extends db db'"
proof (induction rule: rtranclp_induct)
  case (step y z)
  then have "stored feat y" using stored_later_stored by blast
  then have "extends y z" using store_step_keeps(4) [OF step(2)] stored_ok by blast
  then show ?case using step extends_trans by blast
qed simp

section \<open>Rows decode\<close>

lemma map_ok_ok [simp]: "is_ok (map_ok f r) \<longleftrightarrow> is_ok r"
  by (cases r) auto

lemma col_ok:
  "0 \<le> i \<Longrightarrow> col_u64 i = Inr (word_of_int i)"
  "0 \<le> i \<Longrightarrow> i < 2 ^ 32 \<Longrightarrow> col_u32 i = Inr (word_of_int i)"
  "length bs = n \<Longrightarrow> col_array n bs = Inr bs"
  "length bs = 16 \<Longrightarrow> col_u128 bs = Inr (u128_from_be_bytes bs)"
  by (simp_all add: col_u64_def u64_try_from_def col_u32_def col_array_def byte_array_try_from_def col_u128_def)

lemma col_version_ok: "is_ok (try_from_i64 i) \<Longrightarrow> \<exists>v. col_version i = Inr v"
  by (cases "try_from_i64 i") (auto simp: col_version_def)

lemma col_opt_ok: "(\<And>x. v = Some x \<Longrightarrow> \<exists>y. col x = Inr y) \<Longrightarrow> \<exists>y. col_opt col v = Inr y"
  by (cases v) (auto simp: col_opt_def)

lemma api_block_from_row_ok:
  assumes "0 < i" and "block_typed r"
  shows "\<exists>b. api_block_from_row (i, r) = Inr b \<and> ab_height b = word_of_int (b_height r) \<and> ab_hash b = b_hash r"
proof -
  obtain v where v: "col_version (b_protocol_version r) = Inr v"
    using assms(2) col_version_ok by (auto simp: block_typed_def)
  obtain a where a: "col_opt (col_array 32) (b_author r) = Inr a"
    using assms(2) col_opt_ok [of "b_author r" "col_array 32"] by (auto simp: block_typed_def col_ok(3))
  show ?thesis using assms v a by (simp add: api_block_from_row_def block_typed_def col_ok)
qed

lemma api_utxo_from_row_ok:
  assumes "utxo_typed u"
  shows "\<exists>x. api_utxo_from_row (i, u) = Inr x"
proof -
  obtain s c where "col_opt col_u64 (u_spending_transaction_id u) = Inr s" "col_opt col_u64 (u_ctime u) = Inr c"
    using assms col_opt_ok [of "u_spending_transaction_id u" col_u64] col_opt_ok [of "u_ctime u" col_u64] col_ok(1)
    by (auto simp: utxo_typed_def)
  then show ?thesis using assms by (simp add: api_utxo_from_row_def utxo_typed_def col_ok)
qed

text \<open>The joined row of a transaction, and the transaction it stands for.\<close>

lemma joined_block:
  assumes "db_ok db" and "typed (view db)" and "(i, t) \<in> set (tab_rows (transactions db))"
  obtains b where "row_by_id (blocks db) (t_block_id t) = Some b" "length (b_hash b) = 32"
proof -
  have "t_block_id t \<in> table_ids (blocks db)" using assms(1,3) by (force simp: db_ok_def refs_ok_def fk_def)
  then obtain b where b: "(t_block_id t, b) \<in> set (tab_rows (blocks db))" by (auto simp: table_ids_def)
  have "distinct (map fst (tab_rows (blocks db)))"
    using assms(1) by (auto simp: db_ok_def tables_ok_def table_ok_def strict_sorted_iff)
  then have "row_by_id (blocks db) (t_block_id t) = Some b" using b by (simp add: row_by_id_def)
  moreover have "length (b_hash b) = 32" using assms(2) b by (auto simp: typed_def list_all_iff block_typed_def)
  ultimately show thesis by (rule that)
qed

lemma regular_from_row_ok:
  assumes "0 < i" "transaction_typed t" "length bh = 32" "regular_typed r"
  shows "\<exists>x. regular_from_row (i, t, bh, Some r) = Inr x \<and> ar_id x = word_of_int i
    \<and> ar_zswap_start_index x = word_of_int (r_zswap_start_index r) \<and> ar_zswap_end_index x = word_of_int (r_zswap_end_index r)"
proof -
  obtain v where "col_version (t_protocol_version t) = Inr v"
    using assms(2) col_version_ok by (auto simp: transaction_typed_def)
  then show ?thesis using assms
    by (simp add: regular_from_row_def regular_typed_def transaction_typed_def col_ok)
qed

lemma system_from_row_ok:
  assumes "0 < i" "transaction_typed t" "length bh = 32"
  shows "\<exists>x. system_from_row (i, t, bh, reg) = Inr x \<and> as_id x = word_of_int i"
proof -
  obtain v where "col_version (t_protocol_version t) = Inr v"
    using assms(2) col_version_ok by (auto simp: transaction_typed_def)
  then show ?thesis using assms by (simp add: system_from_row_def transaction_typed_def col_ok)
qed

lemma find_regular_typed:
  "typed v \<Longrightarrow> find (\<lambda>r. r_id r = i) (v_regular v) = Some r \<Longrightarrow> regular_typed r \<and> r_id r = i"
  by (auto simp: typed_def list_all_iff find_Some_iff)

lemma typed_rows:
  assumes "typed (view db)"
  shows "(i, r1) \<in> set (tab_rows (blocks db)) \<Longrightarrow> 0 < i \<and> block_typed r1"
    "(i, r2) \<in> set (tab_rows (transactions db)) \<Longrightarrow> 0 < i \<and> transaction_typed r2"
    "(i, r3) \<in> set (tab_rows (unshielded_utxos db)) \<Longrightarrow> 0 < i \<and> utxo_typed r3"
    "(i, r4) \<in> set (tab_rows (contract_actions db)) \<Longrightarrow> 0 < i \<and> 0 < a_transaction_id r4"
    "(i, r5) \<in> set (tab_rows (bridge_claims db)) \<Longrightarrow> 0 < i \<and> claim_typed r5"
  using assms unfolding typed_def list_all_iff view_simps by blast+

lemmas typed_transaction = typed_rows(2)

lemma make_transaction_ok:
  assumes "typed (view db)" and "(i, t) \<in> set (tab_rows (transactions db))" and "length bh = 32"
    and "t_variant t = RegularVariant \<Longrightarrow> \<exists>r. reg = Some r \<and> regular_typed r"
  shows "\<exists>x. make_transaction (i, t, bh, reg) = Inr x \<and> api_transaction_id x = word_of_int i"
proof (cases "t_variant t")
  case RegularVariant
  then obtain r where "reg = Some r" "regular_typed r" using assms(4) by blast
  then show ?thesis using regular_from_row_ok [of i t bh r] typed_transaction [OF assms(1,2)] assms(3) RegularVariant
    by (auto simp: make_transaction_def)
next
  case SystemVariant
  then show ?thesis using system_from_row_ok [of i t bh reg] typed_transaction [OF assms(1,2)] assms(3)
    by (auto simp: make_transaction_def)
qed

lemma left_join_ok:
  assumes ok: "db_ok db" "typed (view db)" and t: "(i, t) \<in> set (tab_rows (transactions db))"
  shows "\<exists>row x. left_join_regular db (i, t) = Some row \<and> fst row = i \<and> make_transaction row = Inr x
    \<and> api_transaction_id x = word_of_int i"
proof -
  obtain b where b: "row_by_id (blocks db) (t_block_id t) = Some b" "length (b_hash b) = 32"
    by (rule joined_block [OF ok t])
  let ?reg = "find (\<lambda>r. r_id r = i) (regular_transactions db)"
  have "\<exists>r. ?reg = Some r \<and> regular_typed r" if "t_variant t = RegularVariant"
  proof -
    have "i \<in> r_id ` set (regular_transactions db)" using ok(2) t that by (force simp: typed_def list_all_iff)
    then obtain r where r: "?reg = Some r" by (cases ?reg) (auto simp: find_None_iff)
    then show ?thesis using find_regular_typed [of "view db" i r] ok(2) by simp
  qed
  then show ?thesis using make_transaction_ok [OF ok(2) t b(2), of ?reg] b(1) by (auto simp: left_join_regular_def)
qed

lemma set_filter_map: "y \<in> set (Chain_Storage.filter_map f xs) \<longleftrightarrow> (\<exists>x \<in> set xs. f x = Some y)"
  by (induction xs) (auto simp: Chain_Storage.filter_map_def split: option.splits)

lemma join_regular_ok:
  assumes ok: "db_ok db" "typed (view db)" and row: "row \<in> set (Chain_Storage.filter_map (join_regular db) (select_where p (transactions db)))"
  shows "is_ok (make_transaction row) \<and> is_ok (regular_from_row row)"
proof -
  obtain i t where t: "(i, t) \<in> set (tab_rows (transactions db))" "join_regular db (i, t) = Some row"
    using row by (auto simp: set_filter_map select_where_def)
  obtain b where b: "row_by_id (blocks db) (t_block_id t) = Some b" "length (b_hash b) = 32"
    by (rule joined_block [OF ok t(1)])
  then obtain r where r: "find (\<lambda>r. r_id r = i) (regular_transactions db) = Some r" "row = (i, t, b_hash b, Some r)"
    using t(2) by (auto simp: join_regular_def)
  have "regular_typed r" using find_regular_typed [of "view db" i r] ok(2) r(1) by simp
  then show ?thesis
    using make_transaction_ok [OF ok(2) t(1) b(2), of "Some r"] regular_from_row_ok [of i t "b_hash b" r]
      typed_transaction [OF ok(2) t(1)] b(2) r(2) by (auto simp: is_ok_iff)
qed

lemma join_block_ok:
  assumes ok: "db_ok db" "typed (view db)"
    and row: "row \<in> set (Chain_Storage.filter_map (join_block db) (select_where (\<lambda>(i, t). p (i, t) \<and> t_variant t = SystemVariant) (transactions db)))"
  shows "is_ok (make_transaction row)"
proof -
  obtain i t where t: "(i, t) \<in> set (tab_rows (transactions db))" "t_variant t = SystemVariant" "join_block db (i, t) = Some row"
    using row by (auto simp: set_filter_map select_where_def)
  obtain b where b: "row_by_id (blocks db) (t_block_id t) = Some b" "length (b_hash b) = 32"
    by (rule joined_block [OF ok t(1)])
  then have "row = (i, t, b_hash b, None)" using t(3) by (auto simp: join_block_def)
  then show ?thesis using make_transaction_ok [OF ok(2) t(1) b(2), of None] t(2) by (auto simp: is_ok_iff)
qed

lemma union_rows_ok:
  "db_ok db \<Longrightarrow> typed (view db) \<Longrightarrow> row \<in> set (union_rows p db) \<Longrightarrow> is_ok (make_transaction row)"
  unfolding union_rows_def set_append Un_iff
  using join_regular_ok [of db row p] join_block_ok [of db row p] by blast

lemma attach_bridge_claims_ok: "typed (view db) \<Longrightarrow> is_ok (attach_bridge_claims db ts)"
proof -
  assume t: "typed (view db)"
  have "is_ok (make_bridge_claim r)" if "(i, r) \<in> set (tab_rows (bridge_claims db))" for i r
    using typed_rows(5) [OF t that] by (simp add: make_bridge_claim_def claim_typed_def col_ok)
  then have "is_ok (try_map (\<lambda>(_, r). map_ok (Pair (as_u64 (bcr_transaction_id r))) (make_bridge_claim r))
      (select_where p (bridge_claims db)))" for p
    by (intro try_map_ok) (auto simp: select_where_def)
  then show ?thesis by (simp add: attach_bridge_claims_def)
qed

section \<open>A sample\<close>

text \<open>A block whose transaction creates a UTXO and one whose transaction spends it.\<close>

definition api_sample_utxo :: unshielded_utxo where
  "api_sample_utxo = \<lparr>utxo_owner = replicate 32 7, utxo_token_type = replicate 32 0, utxo_value = 5,
     utxo_intent_hash = replicate 32 3, utxo_output_index = 0, utxo_ctime = None, utxo_initial_nonce = replicate 32 4,
     utxo_registered_for_dust_generation = False\<rparr>"

definition api_sample_tx ::
  "u8 \<Rightarrow> u64 \<Rightarrow> u64 \<Rightarrow> unshielded_utxo list \<Rightarrow> unshielded_utxo list \<Rightarrow> transaction" where
  "api_sample_tx h s e created spent = Regular \<lparr>rt_hash = replicate 32 h, rt_protocol_version = V2_1 2001000, rt_raw = [h],
     rt_identifiers = [[h]], rt_contract_actions = [], rt_paid_fees = 1, rt_estimated_fees = 1, rt_transaction_result = Success,
     rt_zswap_merkle_tree_root = [], rt_zswap_start_index = s, rt_zswap_end_index = e,
     rt_dust_commitment_start_index = 0, rt_dust_commitment_end_index = 0,
     rt_dust_generation_start_index = 0, rt_dust_generation_end_index = 0,
     rt_created_unshielded_utxos = created, rt_spent_unshielded_utxos = spent, rt_ledger_events = [],
     rt_bridge_claim = None\<rparr>"

definition api_sample_block :: "u8 \<Rightarrow> u64 \<Rightarrow> block" where
  "api_sample_block h height = (sample_block h height)\<lparr>bl_parent_hash := replicate 32 0\<rparr>"

definition api_sample_db1 :: chain_db where
  "api_sample_db1 = snd (save_block Cloud (api_sample_block 1 0) [api_sample_tx 11 0 2 [api_sample_utxo] []] [] [77] None
     empty_chain_db)"

definition api_sample_db2 :: chain_db where
  "api_sample_db2 = snd (save_block Cloud (api_sample_block 2 1) [api_sample_tx 12 2 3 [] [api_sample_utxo]] [] [78] None
     api_sample_db1)"

lemmas api_sample_defs = api_sample_utxo_def api_sample_tx_def api_sample_block_def sample_block_def

lemma api_sample_fits:
  "block_fits (api_sample_block h 0)" "block_fits (api_sample_block h 1)"
  "tx_fits (api_sample_tx 11 0 2 [api_sample_utxo] [])" "tx_fits (api_sample_tx 12 2 3 [] [api_sample_utxo])"
  by (simp_all add: api_sample_defs block_fits_def utxo_fits_def version_ok_def try_from_u32_def fits_def)

lemma api_sample_save1:
  "\<exists>mx. save_block Cloud (api_sample_block 1 0) [api_sample_tx 11 0 2 [api_sample_utxo] []] [] [77] None empty_chain_db
     = (Inr mx, api_sample_db1) \<and> tab_next (transactions api_sample_db1) = 2
     \<and> map (b_height \<circ> snd) (tab_rows (blocks api_sample_db1)) = [0]"
  by (simp add: api_sample_db1_def api_sample_defs sample_defs Let_def as_i64_def)

lemma api_sample_save2:
  "\<exists>mx. save_block Cloud (api_sample_block 2 1) [api_sample_tx 12 2 3 [] [api_sample_utxo]] [] [78] None api_sample_db1
     = (Inr mx, api_sample_db2) \<and> tab_next (transactions api_sample_db2) = 3"
  by (simp add: api_sample_db2_def api_sample_db1_def api_sample_defs sample_defs utxo_keys_def Let_def as_i64_def)

lemma api_sample_blocks: "length (tab_rows (blocks api_sample_db1)) = 1" "length (tab_rows (blocks api_sample_db2)) = 2"
  by (simp_all add: api_sample_db2_def api_sample_db1_def api_sample_defs sample_defs utxo_keys_def Let_def as_i64_def)

lemma api_sample_rows:
  "map fst (tab_rows (transactions api_sample_db1)) = [1]" "map fst (tab_rows (transactions api_sample_db2)) = [1, 2]"
  "map (\<lambda>(_, u). (u_owner u, u_creating_transaction_id u, u_spending_transaction_id u)) (tab_rows (unshielded_utxos api_sample_db1))
     = [(replicate 32 7, 1, None)]"
  "map (\<lambda>(_, u). (u_owner u, u_creating_transaction_id u, u_spending_transaction_id u)) (tab_rows (unshielded_utxos api_sample_db2))
     = [(replicate 32 7, 1, Some 2)]"
  by (simp_all add: api_sample_db2_def api_sample_db1_def api_sample_defs sample_defs utxo_keys_def Let_def as_i64_def)

lemma api_sample_step1: "store_step Cloud empty_chain_db api_sample_db1"
proof -
  have "above_all (as_i64 (bl_height (api_sample_block 1 0))) b_height (blocks empty_chain_db)"
    by (simp add: above_all_def empty_chain_db_def empty_table_def)
  then show ?thesis using api_sample_save1 api_sample_fits unfolding store_step_def by fastforce
qed

lemma api_sample_step2: "store_step Cloud api_sample_db1 api_sample_db2"
proof -
  have "list_all (\<lambda>h. h < 1) (map (b_height \<circ> snd) (tab_rows (blocks api_sample_db1)))"
    using api_sample_save1 by auto
  then have "above_all (as_i64 (bl_height (api_sample_block 2 1))) b_height (blocks api_sample_db1)"
    by (simp add: above_all_def api_sample_defs as_i64_def list.pred_map comp_def split_def)
  then show ?thesis using api_sample_save2 api_sample_fits unfolding store_step_def by fastforce
qed

lemma api_sample_stored: "stored Cloud api_sample_db1" "stored Cloud api_sample_db2"
  unfolding stored_def using api_sample_step1 api_sample_step2 by (blast intro: rtranclp.rtrancl_into_rtrancl)+

section \<open>Reads never fail\<close>

lemma fetch_optional_ok: "(\<And>r. r \<in> set rs \<Longrightarrow> is_ok (f r)) \<Longrightarrow> is_ok (fetch_optional f rs)"
  by (cases rs) (simp_all add: fetch_optional_def)

lemma and_then_ok: "is_ok r \<Longrightarrow> (\<And>a. r = Inr a \<Longrightarrow> is_ok (f a)) \<Longrightarrow> is_ok (and_then r f)"
  by (auto simp: is_ok_iff)

lemma finish_transactions_ok: "typed (view db) \<Longrightarrow> is_ok (finish_transactions feat db ts)"
  by (simp add: finish_transactions_def attach_bridge_claims_ok)

lemma blocks_rows_ok: "typed (view db) \<Longrightarrow> p \<in> set (tab_rows (blocks db)) \<Longrightarrow> is_ok (api_block_from_row p)"
  using api_block_from_row_ok typed_rows(1) by (cases p) (metis is_ok_iff)

lemma utxo_rows_ok: "typed (view db) \<Longrightarrow> p \<in> set (tab_rows (unshielded_utxos db)) \<Longrightarrow> is_ok (api_utxo_from_row p)"
  using api_utxo_from_row_ok typed_rows(3) by (cases p) (metis is_ok_iff)

lemma action_rows_ok:
  "typed (view db) \<Longrightarrow> p \<in> set (tab_rows (contract_actions db)) \<Longrightarrow> is_ok (api_contract_action_from_row p)"
  using typed_rows(4) by (cases p) (fastforce simp: api_contract_action_from_row_def col_ok is_ok_iff)

lemma block_reads_ok:
  assumes "typed (view db)"
  shows "is_ok (get_latest_block db)" "is_ok (get_blocks_by_hashes hashes db)" "is_ok (get_block_by_height height db)"
    "is_ok (get_blocks_page n height db)"
  unfolding get_latest_block_def get_blocks_by_hashes_def get_block_by_height_def get_blocks_page_def
  by (intro fetch_optional_ok try_map_ok blocks_rows_ok [OF assms];
      auto simp: order_by_desc_def select_where_def dest!: in_set_takeD)+

lemma transaction_reads_ok:
  assumes ok: "db_ok db" "typed (view db)"
  shows "is_ok (get_transactions_by_ids feat ids db)" "is_ok (get_transactions_by_block_ids feat ids db)"
    "is_ok (get_transactions_by_hash feat hash db)" "is_ok (get_transactions_by_identifier feat identifier db)"
    "is_ok (get_relevant_transactions_page feat wallet_id n index (db, wdb))"
    "is_ok (get_transactions_by_unshielded_address_page feat address n tid db)"
proof -
  note rows = union_rows_ok [OF ok] and fin = finish_transactions_ok [OF ok(2)]
  show "is_ok (get_transactions_by_ids feat ids db)"
    unfolding get_transactions_by_ids_def by (auto intro!: and_then_ok try_map_ok rows fin)
  have "is_ok (make_transaction_with_block_id row)" if "row \<in> set (union_rows p db)" for row p
    using rows [OF that] by (simp add: make_transaction_with_block_id_def)
  then show "is_ok (get_transactions_by_block_ids feat ids db)"
    unfolding get_transactions_by_block_ids_def by (auto intro!: and_then_ok try_map_ok fin)
  show "is_ok (get_transactions_by_hash feat hash db)"
    unfolding get_transactions_by_hash_def Let_def
    by (intro and_then_ok try_map_ok rows fin) (auto simp: order_by_desc_def split: feature.splits)
  have "is_ok (regular_from_row row)" if "row \<in> set (Chain_Storage.filter_map (join_regular db) (tab_rows (transactions db)))" for row
    using join_regular_ok [OF ok, of row "\<lambda>_. True"] that by (simp add: select_where_def)
  then show "is_ok (get_transactions_by_identifier feat identifier db)"
    unfolding get_transactions_by_identifier_def Let_def by (intro and_then_ok try_map_ok fin) auto
  have "is_ok (regular_from_row row)" if "row \<in> set (take n (sort_key fst (filter q
      (Chain_Storage.filter_map (join_regular db) (tab_rows (transactions db))))))" for row q
    using in_set_takeD [OF that] join_regular_ok [OF ok, of row "\<lambda>_. True"] by (simp add: select_where_def)
  then show "is_ok (get_relevant_transactions_page feat wallet_id n index (db, wdb))"
    unfolding get_relevant_transactions_page_def Let_def prod.case by (simp add: try_map_ok)
  have left: "is_ok (make_transaction row)" if row: "left_join_regular db p = Some row" and p: "p \<in> set (tab_rows (transactions db))" for row p
    using left_join_ok [OF ok, of "fst p" "snd p"] row p by (auto simp: is_ok_iff)
  then show "is_ok (get_transactions_by_unshielded_address_page feat address n tid db)"
    unfolding get_transactions_by_unshielded_address_page_def Let_def
    by (intro and_then_ok try_map_ok fin) (auto simp: set_filter_map select_where_def dest!: in_set_takeD)
qed

lemma utxo_reads_ok:
  assumes "typed (view db)"
  shows "is_ok (get_unshielded_utxos_by_address address db)" "is_ok (utxos_by_output_index p db)"
  unfolding get_unshielded_utxos_by_address_def utxos_by_output_index_def
  by (intro try_map_ok utxo_rows_ok [OF assms]; auto simp: select_where_def)+

lemma action_reads_ok:
  assumes "typed (view db)"
  shows "is_ok (latest_action p db)" "is_ok (get_contract_actions_by_transaction_ids ids db)"
    "is_ok (get_recent_contract_actions_by_address address limit variant db)"
    "is_ok (get_contract_actions_by_address_page address n i db)" "is_ok (get_contract_actions_by_transaction_id tid db)"
  unfolding latest_action_def get_contract_actions_by_transaction_ids_def get_contract_actions_by_transaction_id_def get_recent_contract_actions_by_address_def
    get_contract_actions_by_address_page_def
  by (auto intro!: fetch_optional_ok try_map_ok action_rows_ok [OF assms] simp: order_by_desc_def select_where_def
      dest!: in_set_takeD)

lemmas latest_action_queries = get_latest_contract_action_by_address_def get_contract_action_by_address_and_block_hash_def
  get_contract_action_by_address_and_block_height_def get_contract_action_by_address_as_of_block_hash_def
  get_contract_action_by_address_as_of_block_height_def get_contract_action_by_address_and_transaction_hash_def
  get_contract_action_by_address_and_transaction_identifier_def

lemmas utxo_transaction_queries = get_unshielded_utxos_created_by_transaction_def get_unshielded_utxos_spent_by_transaction_def
  get_unshielded_utxos_by_address_created_by_transaction_def get_unshielded_utxos_by_address_spent_by_transaction_def

text \<open>
  C22. Type safety of the shared database: whatever blocks the chain indexer has stored, as long as their
  numbers fit the columns, the API decodes every row it reads. None of the queries of its storage for blocks, transactions,
  unshielded UTXOs and contract actions fails, the pages of its subscriptions included. The query for the deploy of a contract, which asserts
  the kind of the action it finds, and those for contract balances and ledger events are not among them.
\<close>

theorem api_reads_never_fail:
  assumes "stored feat db"
  shows "is_ok (get_latest_block db) \<and> is_ok (get_blocks_by_hashes hashes db) \<and> is_ok (get_block_by_height height db)
    \<and> is_ok (get_blocks_page n height db)
    \<and> is_ok (get_transactions_by_ids feat ids db) \<and> is_ok (get_transactions_by_block_ids feat ids db)
    \<and> is_ok (get_transactions_by_hash feat hash db) \<and> is_ok (get_transactions_by_identifier feat identifier db)
    \<and> is_ok (get_relevant_transactions_page feat wallet_id n index (db, wdb))
    \<and> is_ok (get_transactions_by_unshielded_address_page feat address n tid db)
    \<and> is_ok (get_unshielded_utxos_by_address address db)
    \<and> is_ok (get_unshielded_utxos_created_by_transaction tid db) \<and> is_ok (get_unshielded_utxos_spent_by_transaction tid db)
    \<and> is_ok (get_unshielded_utxos_by_address_created_by_transaction address tid db)
    \<and> is_ok (get_unshielded_utxos_by_address_spent_by_transaction address tid db)
    \<and> is_ok (get_latest_contract_action_by_address address db)
    \<and> is_ok (get_contract_action_by_address_and_block_hash address hash db)
    \<and> is_ok (get_contract_action_by_address_and_block_height address height db)
    \<and> is_ok (get_contract_action_by_address_as_of_block_hash address hash db)
    \<and> is_ok (get_contract_action_by_address_as_of_block_height address height db)
    \<and> is_ok (get_contract_action_by_address_and_transaction_hash address hash db)
    \<and> is_ok (get_contract_action_by_address_and_transaction_identifier feat address identifier db)
    \<and> is_ok (get_contract_actions_by_transaction_id tid db) \<and> is_ok (get_contract_actions_by_transaction_ids ids db)
    \<and> is_ok (get_contract_actions_by_address_page address n tid db)
    \<and> is_ok (get_recent_contract_actions_by_address address limit variant db)"
  using transaction_reads_ok [OF stored_ok(1,2) [OF assms]] block_reads_ok [OF stored_ok(2) [OF assms]]
    utxo_reads_ok [OF stored_ok(2) [OF assms]] action_reads_ok [OF stored_ok(2) [OF assms]]
  by (simp add: utxo_transaction_queries latest_action_queries Let_def)

theorem api_reads_never_fail_witness:
  "is_ok (get_latest_block api_sample_db2) \<and> is_ok (get_transactions_by_hash Cloud (replicate 32 12) api_sample_db2)
    \<and> is_ok (get_transactions_by_unshielded_address_page Cloud (replicate 32 7) 10 0 api_sample_db2)"
  using api_reads_never_fail [OF api_sample_stored(2)] by blast

end
