(* ===== verification/Api_Subscriptions.thy ===== *)
theory Api_Subscriptions
  imports Api_Contract
begin

text \<open>
  The subscriptions of the API to blocks, contract actions, unshielded and shielded transactions,
  \<^verbatim>\<open>indexer-api/src/infra/api/v4/subscription\<close>. A subscription streams what exists and, for every event of its
  topic, what has been added; \<open>events\<close> holds, for the start and each event, the states of the
  database that the queries see. Hex-encoded and Bech32m arguments are taken decoded; the quota is a
  component of its own, and the progress items merged into a stream are left to the model of polling.
\<close>

section \<open>Errors\<close>

datatype api_error = Client string | Server string

definition server_error :: "string \<Rightarrow> 'e + 'a \<Rightarrow> api_error + 'a" where
  "server_error msg r = map_err (\<lambda>_. Server msg) r"

definition some_or_client_error :: "string \<Rightarrow> 'a option \<Rightarrow> api_error + 'a" where
  "some_or_client_error msg r = (case r of None \<Rightarrow> Inl (Client msg) | Some x \<Rightarrow> Inr x)"

section \<open>Blocks\<close>

datatype block_offset = HashOffset bytes | HeightOffset u32

definition resolve_height :: "block_offset option \<Rightarrow> chain_db \<Rightarrow> api_error + u32" where
  "resolve_height offset db =
     (case offset of
        Some (HashOffset hash) \<Rightarrow>
          and_then (server_error ''get block by hash'' (get_blocks_by_hashes [hash] db)) (\<lambda>bs.
          map_ok ab_height (some_or_client_error ''block with hash not found''
            (find (\<lambda>b. ab_hash b = hash) bs)))
      | Some (HeightOffset height) \<Rightarrow>
          and_then (server_error ''get block by height'' (get_block_by_height height db)) (\<lambda>b.
          map_ok (\<lambda>_. height) (some_or_client_error ''block with height not found'' b))
      | None \<Rightarrow>
          map_ok (\<lambda>b. case b of None \<Rightarrow> 0 | Some b \<Rightarrow> ab_height b)
            (server_error ''get latest block'' (get_latest_block db)))"

type_synonym ('c, 'a) streamed = "(('c \<times> 'a) list \<times> 'c \<times> sqlx_error option) option"

definition blocks_stream :: "nat \<Rightarrow> u32 \<Rightarrow> chain_db list list \<Rightarrow> (u32, api_block) streamed" where
  "blocks_stream batch_size height events =
     subscription (get_blocks_page batch_size) (\<lambda>b. ab_height b + 1) height events"

definition blocks_subscription ::
  "nat \<Rightarrow> block_offset option \<Rightarrow> chain_db \<Rightarrow> chain_db list list \<Rightarrow> api_error + (u32, api_block) streamed" where
  "blocks_subscription batch_size offset db events =
     map_ok (\<lambda>height. blocks_stream batch_size height events) (resolve_height offset db)"

section \<open>Contract actions\<close>

definition contract_actions_subscription ::
  "bytes \<Rightarrow> nat \<Rightarrow> block_offset option \<Rightarrow> chain_db \<Rightarrow> chain_db list list
     \<Rightarrow> api_error + (u64, api_contract_action) streamed" where
  "contract_actions_subscription address batch_size offset db events =
     map_ok (\<lambda>height.
         let contract_action_id = (case get_contract_action_id_by_block_height height db of None \<Rightarrow> 0 | Some i \<Rightarrow> i) in
         subscription (get_contract_actions_by_address_page address batch_size) (\<lambda>a. ac_id a + 1) contract_action_id events)
       (resolve_height offset db)"

section \<open>Unshielded transactions\<close>

record unshielded_transaction =
  ut_transaction :: api_transaction
  ut_created_utxos :: "api_utxo list"
  ut_spent_utxos :: "api_utxo list"

text \<open>The UTXOs are read for each transaction, in a state of the database of their own.\<close>

definition make_unshielded_transaction ::
  "bytes \<Rightarrow> chain_db \<Rightarrow> api_transaction \<Rightarrow> api_error + unshielded_transaction option" where
  "make_unshielded_transaction address db t =
     and_then (server_error ''get created UTXOs''
         (get_unshielded_utxos_by_address_created_by_transaction address (api_transaction_id t) db)) (\<lambda>created.
     map_ok (\<lambda>spent. if created \<noteq> [] \<or> spent \<noteq> []
         then Some \<lparr>ut_transaction = t, ut_created_utxos = created, ut_spent_utxos = spent\<rparr> else None)
       (server_error ''get spent UTXOs''
         (get_unshielded_utxos_by_address_spent_by_transaction address (api_transaction_id t) db)))"

definition unshielded_stream ::
  "feature \<Rightarrow> bytes \<Rightarrow> nat \<Rightarrow> u64 \<Rightarrow> chain_db list list \<Rightarrow> (u64, api_transaction) streamed" where
  "unshielded_stream feat address batch_size transaction_id events =
     subscription (get_transactions_by_unshielded_address_page feat address batch_size)
       (\<lambda>t. api_transaction_id t + 1) transaction_id events"

section \<open>Shielded transactions\<close>

text \<open>
  A relevant transaction with the range of the zswap state's collapsed update that goes with it, from
  the index that drives the subscription up to the transaction's start, both inclusive.
\<close>

record relevant_transaction =
  rl_transaction :: api_regular_transaction
  rl_collapsed_update :: "(u64 \<times> u64) option"

definition make_relevant_transaction :: "u64 \<Rightarrow> api_regular_transaction \<Rightarrow> relevant_transaction" where
  "make_relevant_transaction index t =
     \<lparr>rl_transaction = t,
      rl_collapsed_update = (if index < ar_zswap_start_index t then Some (index, ar_zswap_start_index t - 1) else None)\<rparr>"

definition shielded_stream ::
  "feature \<Rightarrow> bytes \<Rightarrow> nat \<Rightarrow> u64 \<Rightarrow> (chain_db \<times> wallet_db) list list \<Rightarrow> (u64, api_regular_transaction) streamed" where
  "shielded_stream feat wallet_id batch_size index events =
     subscription (get_relevant_transactions_page feat wallet_id batch_size) ar_zswap_end_index index events"

definition relevant_transactions_yielded ::
  "(u64 \<times> api_regular_transaction) list \<Rightarrow> relevant_transaction list" where
  "relevant_transactions_yielded items = map (\<lambda>(index, t). make_relevant_transaction index t) items"

text \<open>Progress: \<^verbatim>\<open>to_progress\<close> and the polling interval with its idle backoff, in nanoseconds.\<close>

record shielded_progress =
  sp_highest_zswap_end_index :: u64
  sp_highest_end_index :: u64
  sp_highest_checked_zswap_end_index :: u64
  sp_highest_checked_end_index :: u64
  sp_highest_relevant_zswap_end_index :: u64
  sp_highest_relevant_end_index :: u64

definition unwrap_or_default :: "u64 option \<Rightarrow> u64" where
  "unwrap_or_default v = (case v of None \<Rightarrow> 0 | Some x \<Rightarrow> x)"

definition to_progress :: "u64 option \<times> u64 option \<times> u64 option \<Rightarrow> shielded_progress" where
  "to_progress = (\<lambda>(highest, checked, rel).
     \<lparr>sp_highest_zswap_end_index = unwrap_or_default highest, sp_highest_end_index = unwrap_or_default highest,
      sp_highest_checked_zswap_end_index = unwrap_or_default checked, sp_highest_checked_end_index = unwrap_or_default checked,
      sp_highest_relevant_zswap_end_index = unwrap_or_default rel, sp_highest_relevant_end_index = unwrap_or_default rel\<rparr>)"

definition IDLE_BACKOFF_MAX_MULTIPLE :: nat where
  "IDLE_BACKOFF_MAX_MULTIPLE = 8"

definition next_poll_interval :: "nat \<Rightarrow> nat \<Rightarrow> bool \<Rightarrow> nat" where
  "next_poll_interval current_interval base changed =
     (if changed then base else min (current_interval * 2) (base * IDLE_BACKOFF_MAX_MULTIPLE))"

end
