(* ===== verification/Api_Block_Stream.thy ===== *)
theory Api_Block_Stream
  imports Api_Types Api_Subscriptions
begin

text \<open>
  The subscription to blocks yields every block from its height on exactly once and in order, however the chain
  indexer adds blocks while its pages are read.
\<close>

definition decoded_block :: "i64 \<times> block_row \<Rightarrow> api_block" where
  "decoded_block p = (case api_block_from_row p of Inl _ \<Rightarrow> undefined | Inr b \<Rightarrow> b)"

definition all_blocks :: "chain_db \<Rightarrow> api_block list" where
  "all_blocks db = map decoded_block (tab_rows (blocks db))"

lemma decoded_block_row:
  assumes "stored feat db" and "p \<in> set (tab_rows (blocks db))"
  shows "api_block_from_row p = Inr (decoded_block p)" "int (unat (ab_height (decoded_block p))) = b_height (snd p)"
    "b_height (snd p) < 2 ^ 32 - 1"
proof -
  obtain i r where p: "p = (i, r)" by (cases p)
  have t: "0 < i" "block_typed r" using typed_rows(1) [OF stored_ok(2) [OF assms(1)]] assms(2) p by blast+
  from api_block_from_row_ok [OF t] obtain b where
    b: "api_block_from_row p = Inr b" "ab_height b = word_of_int (b_height r)" using p by blast
  have h: "0 \<le> b_height r" "b_height r < 2 ^ 32 - 1" using t(2) by (simp_all add: block_typed_def)
  then have "uint (word_of_int (b_height r) :: u32) = b_height r"
    by (simp add: uint_word_of_int_eq take_bit_int_eq_self)
  then show "api_block_from_row p = Inr (decoded_block p)" "int (unat (ab_height (decoded_block p))) = b_height (snd p)"
    using b p by (simp_all add: decoded_block_def)
  show "b_height (snd p) < 2 ^ 32 - 1" using h p by simp
qed

lemma unat_height_Suc:
  assumes "int (unat (h :: u32)) < 2 ^ 32 - 1"
  shows "int (unat (h + 1)) = int (unat h) + 1"
proof -
  have "uint h + 1 < 2 ^ 32" using assms by simp
  then have "uint (h + 1) = uint h + 1" by (simp add: uint_word_ariths mod_pos_pos_trivial)
  then show ?thesis by simp
qed

lemma get_blocks_page_eq:
  assumes "stored feat db"
  shows "get_blocks_page limit height db
    = Inr (take limit (filter (\<lambda>b. int (unat height) \<le> int (unat (ab_height b))) (all_blocks db)))"
proof -
  let ?P = "\<lambda>p :: i64 \<times> block_row. u32_as_i64 height \<le> b_height (snd p)"
  let ?rows = "tab_rows (blocks db)"
  have sorted: "sorted_wrt (\<lambda>x y. b_height (snd x) < b_height (snd y)) (filter ?P ?rows)"
    using stored_ok(3) [OF assms] by (simp add: heights_sorted_def sorted_wrt_filter)
  then have "sort_key (\<lambda>x. b_height (snd x)) (filter ?P ?rows) = filter ?P ?rows"
    by (intro sort_key_id_if_sorted) (auto simp: sorted_map elim: sorted_wrt_mono_rel [rotated])
  then have "get_blocks_page limit height db = try_map api_block_from_row (take limit (filter ?P ?rows))"
    by (simp add: get_blocks_page_def select_where_def split_def)
  also have "\<dots> = Inr (take limit (filter (\<lambda>b. int (unat height) \<le> int (unat (ab_height b))) (map decoded_block ?rows)))"
    by (rule try_map_take_filter) (use decoded_block_row [OF assms] in \<open>simp_all add: u32_as_i64_def\<close>)
  finally show ?thesis by (simp add: all_blocks_def)
qed

interpretation block_pages: keyset stored stored_later "\<lambda>_. all_blocks" "\<lambda>b. int (unat (ab_height b))" "\<lambda>h. int (unat h)"
  "\<lambda>b. ab_height b + 1" "\<lambda>_ :: feature. get_blocks_page"
proof unfold_locales
  fix feat db limit and c :: u32
  assume "stored feat db"
  then show "get_blocks_page limit c db = Inr (take limit (filter (\<lambda>x. int (unat c) \<le> int (unat (ab_height x))) (all_blocks db)))"
    by (rule get_blocks_page_eq)
next
  fix feat db x
  assume s: "stored feat db" and x: "x \<in> set (all_blocks db)"
  then obtain p where p: "p \<in> set (tab_rows (blocks db))" "x = decoded_block p" by (auto simp: all_blocks_def)
  show "int (unat (ab_height x)) < int (unat (ab_height x + 1))"
    using decoded_block_row(2,3) [OF s p(1)] unat_height_Suc [of "ab_height x"] p(2) by simp
next
  fix feat db
  assume s: "stored feat db"
  have "sorted_wrt (\<lambda>p q. int (unat (ab_height (decoded_block p) + 1)) \<le> int (unat (ab_height (decoded_block q)))) (tab_rows (blocks db))"
    using stored_ok(3) [OF s] unfolding heights_sorted_def
  proof (rule sorted_wrt_mono_rel [rotated])
    fix p q
    assume pq: "p \<in> set (tab_rows (blocks db))" "q \<in> set (tab_rows (blocks db))" "b_height (snd p) < b_height (snd q)"
    note h = decoded_block_row(2,3) [OF s pq(1)] decoded_block_row(2) [OF s pq(2)]
    have "int (unat (ab_height (decoded_block p) + 1)) = b_height (snd p) + 1"
      using unat_height_Suc [of "ab_height (decoded_block p)"] h(1,2) by linarith
    then show "int (unat (ab_height (decoded_block p) + 1)) \<le> int (unat (ab_height (decoded_block q)))"
      using h(3) pq(3) by linarith
  qed
  then show "sorted_wrt (\<lambda>x y. int (unat (ab_height x + 1)) \<le> int (unat (ab_height y))) (all_blocks db)"
    by (simp add: all_blocks_def sorted_wrt_map)
next
  fix feat db db'
  assume "stored_later feat db db'" "stored feat db"
  then have "prefix (tab_rows (blocks db)) (tab_rows (blocks db'))"
    using stored_later_extends [of feat db db'] by (simp add: extends_def)
  then show "prefix (all_blocks db) (all_blocks db')" by (simp add: all_blocks_def map_mono_prefix)
qed

text \<open>
  C24. A subscription to blocks yields the blocks from its start height on, each exactly once and in
  ascending order, without gaps: after any events, with pages that see any states of a growing database, it has
  yielded exactly what one of the states seen at the last event holds. It never fails and never runs on without end:
  it comes to rest after each event once it has asked for more pages than there are blocks.
\<close>

theorem blocks_subscription_complete:
  assumes "growing (stored feat) (stored_later feat) (concat events)" and "0 < batch_size" and "events \<noteq> []"
    and "\<And>dbs db. dbs \<in> set events \<Longrightarrow> db \<in> set dbs \<Longrightarrow> length (all_blocks db) < length dbs"
    and "[] \<notin> set events"
  shows "\<exists>items height' db. blocks_stream batch_size height events = Some (items, height', None)
    \<and> db \<in> set (last events) \<and> map snd items = filter (\<lambda>b. height \<le> ab_height b) (all_blocks db)"
proof -
  have "subscription (get_blocks_page batch_size) (\<lambda>b. ab_height b + 1) height events \<noteq> None"
    using block_pages.subscription_ends [OF assms(1,2) assms(4,5)] .
  then obtain items c e where s: "subscription (get_blocks_page batch_size) (\<lambda>b. ab_height b + 1) height events = Some (items, c, e)"
    by (cases "subscription (get_blocks_page batch_size) (\<lambda>b. ab_height b + 1) height events") auto
  from block_pages.subscription_complete [OF assms(1-3) s] s show ?thesis
    by (auto simp: blocks_stream_def word_le_def)
qed

theorem blocks_subscription_complete_witness:
  "\<exists>items height'. blocks_stream 1 0 [[api_sample_db1, api_sample_db1], [api_sample_db2, api_sample_db2, api_sample_db2]]
     = Some (items, height', None) \<and> map snd items = filter (\<lambda>b. 0 \<le> ab_height b) (all_blocks api_sample_db2)"
proof -
  have len: "length (all_blocks api_sample_db1) = 1" "length (all_blocks api_sample_db2) = 2"
    by (simp_all add: all_blocks_def api_sample_blocks)
  let ?events = "[[api_sample_db1, api_sample_db1], [api_sample_db2, api_sample_db2, api_sample_db2]]"
  have grow: "growing (stored Cloud) (stored_later Cloud) (concat ?events)"
    using api_sample_stored api_sample_step2 by auto
  have more: "length (all_blocks db) < length dbs" if "dbs \<in> set ?events" "db \<in> set dbs" for dbs db
    using that len by auto
  have "\<exists>items height' db. blocks_stream 1 0 ?events = Some (items, height', None) \<and> db \<in> set (last ?events)
      \<and> map snd items = filter (\<lambda>b. 0 \<le> ab_height b) (all_blocks db)"
    by (rule blocks_subscription_complete [OF grow _ _ more]) simp_all
  then show ?thesis by auto
qed

end
