(* ===== verification/Api_Tx_Stream.thy ===== *)
theory Api_Tx_Stream
  imports Api_Types Api_Subscriptions
begin

text \<open>
  The subscription to the transactions of an unshielded address: what the store says of a transaction never changes
  once it is saved, so that pages read from different states of the database agree.
\<close>

section \<open>The past does not change\<close>

text \<open>What a store says of the transactions with ids below \<open>n\<close>.\<close>

definition touched :: "unshielded_utxo_row table \<Rightarrow> (bytes \<times> i64) set" where
  "touched t = {(u_owner u, i) | u i. u \<in> snd ` set (tab_rows t)
     \<and> (u_creating_transaction_id u = i \<or> u_spending_transaction_id u = Some i)}"

definition past_rows :: "i64 \<Rightarrow> api_view \<Rightarrow> (i64 \<times> transaction_row) list" where
  "past_rows n v = filter (\<lambda>p. fst p < n) (tab_rows (v_transactions v))"

definition same_past :: "i64 \<Rightarrow> api_view \<Rightarrow> api_view \<Rightarrow> bool" where
  "same_past n v w \<longleftrightarrow> past_rows n w = past_rows n v
     \<and> filter (\<lambda>r. r_id r < n) (v_regular w) = filter (\<lambda>r. r_id r < n) (v_regular v)
     \<and> filter (\<lambda>p. fst (snd p) < n) (tab_rows (v_identifiers w)) = filter (\<lambda>p. fst (snd p) < n) (tab_rows (v_identifiers v))
     \<and> filter (\<lambda>p. bcr_transaction_id (snd p) < n) (tab_rows (v_claims w))
        = filter (\<lambda>p. bcr_transaction_id (snd p) < n) (tab_rows (v_claims v))
     \<and> {p \<in> touched (v_utxos w). snd p < n} = {p \<in> touched (v_utxos v). snd p < n}"

lemma touched_iff:
  "(ow, i) \<in> touched t \<longleftrightarrow> (\<exists>u \<in> snd ` set (tab_rows t). u_owner u = ow
     \<and> (u_creating_transaction_id u = i \<or> u_spending_transaction_id u = Some i))"
  unfolding touched_def by blast

lemma same_pastD:
  assumes "same_past n v w"
  shows "filter (\<lambda>r. r_id r < n) (v_regular w) = filter (\<lambda>r. r_id r < n) (v_regular v)"
    "filter (\<lambda>p. fst (snd p) < n) (tab_rows (v_identifiers w)) = filter (\<lambda>p. fst (snd p) < n) (tab_rows (v_identifiers v))"
    "filter (\<lambda>p. bcr_transaction_id (snd p) < n) (tab_rows (v_claims w)) = filter (\<lambda>p. bcr_transaction_id (snd p) < n) (tab_rows (v_claims v))"
    "i < n \<Longrightarrow> (ow, i) \<in> touched (v_utxos w) \<longleftrightarrow> (ow, i) \<in> touched (v_utxos v)"
proof -
  show "(ow, i) \<in> touched (v_utxos w) \<longleftrightarrow> (ow, i) \<in> touched (v_utxos v)" if "i < n"
  proof -
    have "(ow, i) \<in> {p \<in> touched (v_utxos w). snd p < n} \<longleftrightarrow> (ow, i) \<in> {p \<in> touched (v_utxos v). snd p < n}"
      using assms unfolding same_past_def by blast
    then show ?thesis using that by simp
  qed
qed (use assms in \<open>simp_all add: same_past_def\<close>)

lemma same_past_refl [simp]: "same_past n v v"
  by (simp add: same_past_def)

lemma same_past_trans: "same_past n u v \<Longrightarrow> same_past n v w \<Longrightarrow> same_past n u w"
  by (simp add: same_past_def)

lemma rows_add_rows: "\<exists>is. length is = length rs \<and> tab_rows (add_rows rs t) = tab_rows t @ zip is rs"
  using insert_rows_eq [of rs t] by (intro exI [of _ "fst (insert_rows rs t)"]) (simp add: add_rows_def)

lemma filter_add_rows:
  assumes "\<And>r. r \<in> set rs \<Longrightarrow> \<not> P r"
  shows "filter (\<lambda>p. P (snd p)) (tab_rows (add_rows rs t)) = filter (\<lambda>p. P (snd p)) (tab_rows t)"
proof -
  obtain ks where k: "tab_rows (add_rows rs t) = tab_rows t @ zip ks rs" using rows_add_rows by blast
  have "filter (\<lambda>p. P (snd p)) (zip ks rs) = []" using assms by (auto simp: filter_empty_conv dest: set_zip_rightD)
  then show ?thesis by (simp add: k)
qed

lemma snd_add_rows: "snd ` set (tab_rows (add_rows rs t)) = snd ` set (tab_rows t) \<union> set rs"
  unfolding add_rows_def by (rule rows_insert_rows)

lemma touched_created:
  assumes "n \<le> tid"
  shows "{p \<in> touched (add_rows (map (utxo_row_of tid) us) t). snd p < n} = {p \<in> touched t. snd p < n}"
  using assms by (force simp: touched_def snd_add_rows utxo_row_of_def)

lemma touched_spend:
  assumes "n \<le> tid"
  shows "{p \<in> touched (spend tid us t). snd p < n} = {p \<in> touched t. snd p < n}"
proof -
  define f where "f = (\<lambda>r. if utxo_key r \<in> set (utxo_keys us) \<and> u_spending_transaction_id r = None
      then r\<lparr>u_spending_transaction_id := Some tid\<rparr> else r)"
  have s: "snd ` set (tab_rows (spend tid us t)) = f ` snd ` set (tab_rows t)"
    by (force simp: spend_def f_def image_image)
  have "u_owner (f u) = u_owner u" "u_creating_transaction_id (f u) = u_creating_transaction_id u" for u by (simp_all add: f_def)
  moreover have "u_spending_transaction_id (f u) = Some i \<longleftrightarrow> u_spending_transaction_id u = Some i" if "i < n" for u i
    using that assms by (auto simp: f_def)
  ultimately have "(ow, i) \<in> touched (spend tid us t) \<longleftrightarrow> (ow, i) \<in> touched t" if "i < n" for ow i
    unfolding touched_iff s bex_simps(7) using that by simp
  then show ?thesis by auto
qed

lemma same_past_put_transaction:
  assumes "n \<le> tab_next (v_transactions v)"
  shows "same_past n v (put_transaction feat bid t v) \<and> n \<le> tab_next (v_transactions (put_transaction feat bid t v))"
proof -
  let ?tid = "tab_next (v_transactions v)"
  have tx: "past_rows n (w\<lparr>v_transactions := add_rows [r] (v_transactions v)\<rparr>) = past_rows n v" for r w
    using assms by (simp add: past_rows_def add_row insert_row_simps)
  have past: "past_rows n (put_transaction feat bid t v) = past_rows n v"
    using assms by (cases t) (simp_all add: past_rows_def add_row insert_row_simps Let_def)
  have ids: "filter (\<lambda>p. fst (snd p) < n) (tab_rows (add_rows (map (Pair ?tid) is) (v_identifiers v)))
      = filter (\<lambda>p. fst (snd p) < n) (tab_rows (v_identifiers v))" for "is"
    using assms by (intro filter_add_rows [where P = "\<lambda>r. fst r < n"]) auto
  have claims: "filter (\<lambda>p. bcr_transaction_id (snd p) < n) (tab_rows (add_rows (claim_rows ?tid c) (v_claims v)))
      = filter (\<lambda>p. bcr_transaction_id (snd p) < n) (tab_rows (v_claims v))" for c
    using assms by (intro filter_add_rows [where P = "\<lambda>r. bcr_transaction_id r < n"]) (auto simp: claim_rows_def split: option.splits)
  have next_tx: "n \<le> tab_next (v_transactions (put_transaction feat bid t v))"
    using assms by (cases t) (simp_all add: Let_def add_row insert_row_simps)
  show ?thesis
    using assms past ids claims next_tx touched_created [OF assms] touched_spend [OF assms]
    by (cases t) (simp_all add: same_past_def Let_def regular_transaction_row_of_def)
qed

lemma same_past_put_block:
  assumes "n \<le> tab_next (v_transactions v)"
  shows "same_past n v (put_block feat b txs key v)"
proof -
  have "same_past n w (fold (put_transaction feat bid) txs w)" if "n \<le> tab_next (v_transactions w)" for w bid
    using that by (induction txs arbitrary: w) (auto intro: same_past_trans dest: same_past_put_transaction)
  then have "same_past n (v\<lparr>v_blocks := bs\<rparr>) (fold (put_transaction feat bid) txs (v\<lparr>v_blocks := bs\<rparr>))" for bid bs
    using assms by simp
  then show ?thesis by (simp add: put_block_def same_past_def past_rows_def)
qed

lemma tab_next_mono:
  assumes "store_step feat db db'" and "db_ok db"
  shows "tab_next (transactions db) \<le> tab_next (transactions db')"
proof -
  obtain b txs regs key change mx where s: "save_block feat b txs regs key change db = (Inr mx, db')"
    using assms(1) unfolding store_step_def by blast
  show ?thesis using save_block_Inr [OF s assms(2)] insert_rows_eq [of "map (transaction_row_of (tab_next (blocks db))) txs" "transactions db"]
    by simp
qed

lemma stored_later_past:
  assumes "stored_later feat db db'" and "stored feat db"
  shows "same_past (tab_next (transactions db)) (view db) (view db') \<and> tab_next (transactions db) \<le> tab_next (transactions db')"
  using assms
proof (induction rule: rtranclp_induct)
  case (step y z)
  have y: "stored feat y" using step stored_later_stored by blast
  obtain b txs regs key change mx where s: "save_block feat b txs regs key change y = (Inr mx, z)"
    using step(2) unfolding store_step_def by blast
  have "same_past (tab_next (transactions db)) (view y) (view z)"
    unfolding view_save_block [OF s] by (rule same_past_put_block) (use step in simp)
  then show ?case using step same_past_trans tab_next_mono [OF step(2) stored_ok(1) [OF y]] by fastforce
qed simp

section \<open>Transactions as the API gives them\<close>

lemma stored_ids:
  assumes "stored feat db" and "(i, t) \<in> set (tab_rows (transactions db))"
  shows "0 < i" "i < tab_next (transactions db)" "i < 2 ^ 63 - 1"
  using stored_ok(1,4) [OF assms(1)] typed_rows(2) [OF stored_ok(2) [OF assms(1)] assms(2)] assms(2)
  by (force simp: db_ok_def tables_ok_def table_ok_def list_all_iff)+

lemma as_i64_as_u64: "0 < i \<Longrightarrow> i < 2 ^ 63 \<Longrightarrow> as_i64 (as_u64 i) = i"
proof -
  assume i: "0 < i" "i < 2 ^ 63"
  have "unat (as_u64 i) = nat i"
    using i by (simp add: as_u64_def unat_eq_nat_uint uint_word_of_int_eq take_bit_int_eq_self)
  then show ?thesis using i as_i64_nonneg [of "as_u64 i"] by (simp add: nat_less_iff)
qed

text \<open>The rest of the pipeline for one transaction: its identifiers and its bridge claim.\<close>

definition claims_of :: "bridge_claim_row table \<Rightarrow> (u64 \<times> api_bridge_claim) list" where
  "claims_of t = map (\<lambda>(_, r). (as_u64 (bcr_transaction_id r),
     case make_bridge_claim r of Inl _ \<Rightarrow> undefined | Inr c \<Rightarrow> c)) (tab_rows t)"

definition finished :: "feature \<Rightarrow> chain_db \<Rightarrow> api_transaction \<Rightarrow> api_transaction" where
  "finished feat db = map_regular (\<lambda>t. (set_identifiers feat db t)\<lparr>ar_bridge_claim :=
     map_of (rev (claims_of (bridge_claims db))) (ar_id t)\<rparr>)"

lemma map_of_filter_key: "(\<And>x. x \<in> set xs \<Longrightarrow> fst x = k \<Longrightarrow> P x) \<Longrightarrow> map_of (filter P xs) k = map_of xs k"
  by (induction xs) auto

lemma regular_ids_iff: "i \<in> set (regular_ids ts) \<longleftrightarrow> (\<exists>t. ApiRegular t \<in> set ts \<and> i = as_i64 (ar_id t))"
  by (induction ts rule: regular_ids.induct) auto

lemma set_identifiers_id [simp]: "ar_id (set_identifiers feat db t) = ar_id t"
  by (cases feat) (simp_all add: set_identifiers_def)

lemma claims_in_range:
  assumes "stored feat db" and "(j, r) \<in> set (tab_rows (bridge_claims db))"
  shows "as_i64 (as_u64 (bcr_transaction_id r)) = bcr_transaction_id r"
proof -
  have "bcr_transaction_id r \<in> table_ids (transactions db)"
    using stored_ok(1) [OF assms(1)] assms(2) by (force simp: db_ok_def refs_ok_def fk_def)
  then obtain t where "(bcr_transaction_id r, t) \<in> set (tab_rows (transactions db))" by (auto simp: table_ids_def)
  then show ?thesis using stored_ids [OF assms(1)] by (intro as_i64_as_u64) force+
qed

lemma finish_transactions_eq:
  assumes s: "stored feat db"
  shows "finish_transactions feat db ts = Inr (map (finished feat db) ts)"
proof (cases "regular_ids ts = []")
  case True
  then have "map (map_regular f) ts = ts" for f by (induction ts rule: regular_ids.induct) auto
  moreover have "regular_ids (map (map_regular f) ts) = []" for f using True by (induction ts rule: regular_ids.induct) auto
  ultimately show ?thesis by (simp add: finish_transactions_def attach_bridge_claims_def finished_def)
next
  case False
  let ?ts = "map (map_regular (set_identifiers feat db)) ts"
  have ids: "regular_ids ?ts = regular_ids ts" by (induction ts rule: regular_ids.induct) auto
  let ?c = "\<lambda>p :: i64 \<times> bridge_claim_row. (as_u64 (bcr_transaction_id (snd p)),
     case make_bridge_claim (snd p) of Inl _ \<Rightarrow> undefined | Inr c \<Rightarrow> c)"
  let ?S = "\<lambda>p :: i64 \<times> bridge_claim_row. bcr_transaction_id (snd p) \<in> set (regular_ids ts)"
  let ?rows = "tab_rows (bridge_claims db)"
  have dec: "\<exists>c. make_bridge_claim r = Inr c" if "(j, r) \<in> set ?rows" for j r
  proof -
    have "claim_typed r" using typed_rows(5) [OF stored_ok(2) [OF s] that] by blast
    then show ?thesis by (simp add: make_bridge_claim_def claim_typed_def col_ok)
  qed
  have tm: "try_map (\<lambda>(_, r). map_ok (Pair (as_u64 (bcr_transaction_id r))) (make_bridge_claim r)) (filter ?S ?rows)
      = Inr (map ?c (filter ?S ?rows))"
    by (rule try_map_total) (auto dest!: dec)
  have lk: "map_of (rev (map ?c (filter ?S ?rows))) (ar_id t) = map_of (rev (claims_of (bridge_claims db))) (ar_id t)"
    if "ApiRegular t \<in> set ts" for t
  proof -
    let ?P = "\<lambda>e :: u64 \<times> api_bridge_claim. as_i64 (fst e) \<in> set (regular_ids ts)"
    have "filter ?P (map ?c ?rows) = map ?c (filter ?S ?rows)"
      unfolding filter_map comp_def using claims_in_range [OF s] by (intro arg_cong [of _ _ "map ?c"] filter_cong) auto
    then have "rev (map ?c (filter ?S ?rows)) = filter ?P (rev (claims_of (bridge_claims db)))"
      unfolding rev_filter [symmetric] claims_of_def split_def by simp
    moreover have "?P e" if "fst e = ar_id t" for e
      using that \<open>ApiRegular t \<in> set ts\<close> by (auto simp: regular_ids_iff)
    ultimately show ?thesis by (simp add: map_of_filter_key)
  qed
  have "map_regular (\<lambda>t. t\<lparr>ar_bridge_claim := map_of (rev (map ?c (filter ?S ?rows))) (ar_id t)\<rparr>)
      (map_regular (set_identifiers feat db) x) = finished feat db x" if "x \<in> set ts" for x
    using lk that by (cases x) (simp_all add: finished_def)
  then show ?thesis using False tm
    by (simp add: finish_transactions_def attach_bridge_claims_def ids select_where_def split_def comp_def)
qed

section \<open>Pages of an address\<close>

definition joined :: "chain_db \<Rightarrow> i64 \<times> transaction_row \<Rightarrow> tx_join" where
  "joined db p = the (left_join_regular db p)"

definition api_tx :: "feature \<Rightarrow> chain_db \<Rightarrow> i64 \<times> transaction_row \<Rightarrow> api_transaction" where
  "api_tx feat db p = finished feat db (case make_transaction (joined db p) of Inl _ \<Rightarrow> undefined | Inr x \<Rightarrow> x)"

definition address_rows :: "bytes \<Rightarrow> chain_db \<Rightarrow> (i64 \<times> transaction_row) list" where
  "address_rows address db = filter (\<lambda>p. (address, fst p) \<in> touched (unshielded_utxos db)) (tab_rows (transactions db))"

definition address_transactions :: "feature \<times> bytes \<Rightarrow> chain_db \<Rightarrow> api_transaction list" where
  "address_transactions = (\<lambda>(feat, address) db. map (api_tx feat db) (address_rows address db))"

lemma finished_id [simp]: "api_transaction_id (finished feat db x) = api_transaction_id x"
  by (cases x) (simp_all add: finished_def)

lemma joined_ok:
  assumes "stored feat db" and "p \<in> set (tab_rows (transactions db))"
  shows "left_join_regular db p = Some (joined db p)" "fst (joined db p) = fst p"
    "make_transaction (joined db p) = Inr (case make_transaction (joined db p) of Inl _ \<Rightarrow> undefined | Inr x \<Rightarrow> x)"
    "api_transaction_id (api_tx feat db p) = word_of_int (fst p)"
proof -
  obtain i t where p: "p = (i, t)" by (cases p)
  from left_join_ok [OF stored_ok(1,2) [OF assms(1)]] assms(2) p obtain row x where
    r: "left_join_regular db p = Some row" "fst row = i" "make_transaction row = Inr x" "api_transaction_id x = word_of_int i"
    by blast
  then show "left_join_regular db p = Some (joined db p)" "fst (joined db p) = fst p"
    "make_transaction (joined db p) = Inr (case make_transaction (joined db p) of Inl _ \<Rightarrow> undefined | Inr x \<Rightarrow> x)"
    "api_transaction_id (api_tx feat db p) = word_of_int (fst p)"
    by (simp_all add: joined_def api_tx_def p)
qed

lemma touching_ids_iff: "i \<in> touching_ids address c db \<longleftrightarrow> (address, i) \<in> touched (unshielded_utxos db) \<and> c \<le> i"
  unfolding touching_ids_def touched_iff
  by (auto simp: select_where_def set_filter_map split: option.splits) force+

lemma try_map_map: "try_map f (map g xs) = try_map (f \<circ> g) xs"
  by (induction xs) (simp_all split: sum.splits)

lemma filter_map_all: "(\<And>x. x \<in> set xs \<Longrightarrow> f x = Some (g x)) \<Longrightarrow> Chain_Storage.filter_map f xs = map g xs"
  by (induction xs) (simp_all add: Chain_Storage.filter_map_def)

lemma tx_rows_sorted: "stored feat db \<Longrightarrow> sorted_wrt (\<lambda>x y. fst x < fst y) (tab_rows (transactions db))"
  using stored_ok(1) [of feat db] by (simp add: db_ok_def tables_ok_def table_ok_def sorted_wrt_map)

lemma api_tx_key:
  assumes "stored feat db" and "p \<in> set (tab_rows (transactions db))"
  shows "uint (api_transaction_id (api_tx feat db p)) = fst p"
  using joined_ok(4) [OF assms] stored_ids [OF assms(1), of "fst p" "snd p"] assms(2)
  by (simp add: uint_word_of_int_eq take_bit_int_eq_self)

lemma api_tx_after:
  assumes "stored feat db" and "p \<in> set (tab_rows (transactions db))"
  shows "as_i64 (api_transaction_id (api_tx feat db p) + 1) = fst p + 1"
proof -
  have i: "0 < fst p" "fst p < 2 ^ 63 - 1" using stored_ids [OF assms(1), of "fst p" "snd p"] assms(2) by simp_all
  have "api_transaction_id (api_tx feat db p) + 1 = as_u64 (fst p + 1)"
    using joined_ok(4) [OF assms] by (simp add: as_u64_def)
  then show ?thesis using as_i64_as_u64 [of "fst p + 1"] i by simp
qed

lemma unshielded_page_eq:
  assumes s: "stored feat db"
  shows "get_transactions_by_unshielded_address_page feat address limit c db
    = Inr (take limit (filter (\<lambda>x. as_i64 c \<le> int (unat (api_transaction_id x))) (address_transactions (feat, address) db)))"
proof -
  let ?rows = "filter (\<lambda>p. as_i64 c \<le> fst p) (address_rows address db)"
  have sub: "p \<in> set (tab_rows (transactions db))" if "p \<in> set ?rows" for p using that by (simp add: address_rows_def)
  have sel: "select_where (\<lambda>(i, _). i \<in> touching_ids address (as_i64 c) db) (transactions db) = ?rows"
    by (simp add: select_where_def touching_ids_iff address_rows_def split_def)
  have fm: "Chain_Storage.filter_map (left_join_regular db) ?rows = map (joined db) ?rows"
    by (rule filter_map_all) (use joined_ok(1) [OF s] sub in blast)
  have "sorted_wrt (\<lambda>x y. fst x < fst y) ?rows"
    unfolding address_rows_def using tx_rows_sorted [OF s] by (simp add: sorted_wrt_filter)
  then have "sorted_wrt (\<lambda>x y. fst (joined db x) < fst (joined db y)) ?rows"
    by (rule sorted_wrt_mono_rel [rotated]) (use joined_ok(2) [OF s] sub in simp)
  then have srt: "sort_key fst (map (joined db) ?rows) = map (joined db) ?rows"
    by (intro sort_key_id_if_sorted) (auto simp: sorted_map sorted_wrt_map elim: sorted_wrt_mono_rel [rotated])
  let ?mk = "\<lambda>p. case make_transaction (joined db p) of Inl _ \<Rightarrow> undefined | Inr x \<Rightarrow> x"
  have "try_map make_transaction (take limit (map (joined db) ?rows)) = try_map (\<lambda>p. make_transaction (joined db p)) (take limit ?rows)"
    unfolding take_map by (simp add: try_map_map comp_def)
  also have "\<dots> = Inr (map ?mk (take limit ?rows))"
    by (rule try_map_total) (use joined_ok(3) [OF s] sub in \<open>blast dest: in_set_takeD\<close>)
  finally have "get_transactions_by_unshielded_address_page feat address limit c db = Inr (map (api_tx feat db) (take limit ?rows))"
    by (simp add: get_transactions_by_unshielded_address_page_def sel fm srt finish_transactions_eq [OF s] api_tx_def comp_def)
  also have "map (api_tx feat db) (take limit ?rows) = take limit (map (api_tx feat db) ?rows)" by (simp add: take_map)
  also have "map (api_tx feat db) ?rows
      = filter (\<lambda>x. as_i64 c \<le> int (unat (api_transaction_id x))) (address_transactions (feat, address) db)"
  proof -
    have "uint (api_transaction_id (api_tx feat db p)) = fst p" if "p \<in> set (address_rows address db)" for p
      using api_tx_key [OF s] that by (simp add: address_rows_def)
    then show ?thesis by (simp add: address_transactions_def filter_map comp_def cong: filter_cong)
  qed
  finally show ?thesis .
qed

section \<open>Pages agree\<close>

lemma row_by_id_prefix:
  "prefix (tab_rows t) (tab_rows t') \<Longrightarrow> row_by_id t i = Some r \<Longrightarrow> row_by_id t' i = Some r"
  by (auto simp: row_by_id_def prefix_def map_add_def)

lemma filter_filter_imp: "(\<And>x. Q x \<Longrightarrow> P x) \<Longrightarrow> filter Q (filter P xs) = filter Q xs"
  by (induction xs) auto

lemma find_filter: "(\<And>x. Q x \<Longrightarrow> P x) \<Longrightarrow> find Q (filter P xs) = find Q xs"
  by (induction xs) auto

lemma api_tx_later:
  assumes later: "stored_later feat db db'" and s: "stored feat db" and p: "p \<in> set (tab_rows (transactions db))"
  shows "api_tx feat db' p = api_tx feat db p"
proof -
  obtain i t where it: "p = (i, t)" by (cases p)
  let ?n = "tab_next (transactions db)"
  have s': "stored feat db'" by (rule stored_later_stored [OF s later])
  have i: "0 < i" "i < ?n" "i < 2 ^ 63 - 1" using stored_ids [OF s] p it by blast+
  have past: "same_past ?n (view db) (view db')" using stored_later_past [OF later s] by blast
  have ext: "extends db db'" by (rule stored_later_extends [OF later s])
  have p': "p \<in> set (tab_rows (transactions db'))" using p ext by (auto simp: extends_def dest: set_mono_prefix)
  note past = same_pastD [OF past, simplified]
  have reg: "find (\<lambda>r. r_id r = i) (regular_transactions db') = find (\<lambda>r. r_id r = i) (regular_transactions db)"
    using arg_cong [OF past(1), of "find (\<lambda>r. r_id r = i)"] i(2)
    by (simp add: find_filter [of "\<lambda>r. r_id r = i" "\<lambda>r. r_id r < ?n"])
  obtain b where b: "row_by_id (blocks db) (t_block_id t) = Some b"
    using joined_block [OF stored_ok(1,2) [OF s]] p it by blast
  then have "row_by_id (blocks db') (t_block_id t) = Some b"
    using ext row_by_id_prefix by (auto simp: extends_def)
  with b reg have join: "joined db' p = joined db p" by (simp add: joined_def left_join_regular_def it)
  let ?x = "case make_transaction (joined db p) of Inl _ \<Rightarrow> undefined | Inr x \<Rightarrow> x"
  have x: "api_transaction_id ?x = word_of_int i" using joined_ok(4) [OF s p] it by (simp add: api_tx_def)
  have key: "as_i64 (word_of_int i) = i" using as_i64_as_u64 [of i] i by (simp add: as_u64_def)
  have idents: "set_identifiers feat db' y = set_identifiers feat db y" if "ar_id y = word_of_int i" for y
  proof -
    have "filter (\<lambda>q. fst (snd q) = i) (tab_rows (transaction_identifiers db'))
        = filter (\<lambda>q. fst (snd q) = i) (tab_rows (transaction_identifiers db))"
      using arg_cong [OF past(2), of "filter (\<lambda>q. fst (snd q) = i)"] i(2)
      by (simp add: filter_filter_imp [of "\<lambda>q. fst (snd q) = i" "\<lambda>q. fst (snd q) < ?n"] del: filter_filter)
    then show ?thesis using that key
      by (simp add: set_identifiers_def get_identifiers_for_transaction_def select_where_def split_def split: feature.splits)
  qed
  have claims: "map_of (rev (claims_of (bridge_claims db'))) (word_of_int i) = map_of (rev (claims_of (bridge_claims db))) (word_of_int i)"
  proof -
    have "map_of (rev (claims_of (bridge_claims x))) (word_of_int i)
        = map_of (rev (claims_of \<lparr>tab_next = 0, tab_rows = filter (\<lambda>q. bcr_transaction_id (snd q) < ?n) (tab_rows (bridge_claims x))\<rparr>)) (word_of_int i)"
      if "stored feat x" for x
    proof -
      let ?P = "\<lambda>e :: u64 \<times> api_bridge_claim. as_i64 (fst e) < ?n"
      have "claims_of \<lparr>tab_next = 0, tab_rows = filter (\<lambda>q. bcr_transaction_id (snd q) < ?n) (tab_rows (bridge_claims x))\<rparr>
          = filter ?P (claims_of (bridge_claims x))"
        unfolding claims_of_def filter_map comp_def
        using claims_in_range [OF that] by (simp add: split_def cong: filter_cong) (metis (no_types, lifting) filter_cong prod.collapse)
      then show ?thesis using key i(2) by (simp add: rev_filter map_of_filter_key)
    qed
    then show ?thesis using s s' past(3) by simp
  qed
  have "finished feat db' ?x = finished feat db ?x"
    using x idents claims by (cases ?x) (simp_all add: finished_def)
  then show ?thesis by (simp add: api_tx_def join)
qed

lemma address_rows_later:
  assumes later: "stored_later feat db db'" and s: "stored feat db"
  shows "prefix (address_rows address db) (address_rows address db')"
proof -
  have "prefix (tab_rows (transactions db)) (tab_rows (transactions db'))"
    using stored_later_extends [OF later s] by (simp add: extends_def)
  then obtain new where new: "tab_rows (transactions db') = tab_rows (transactions db) @ new" by (auto simp: prefix_def)
  have "(address, fst p) \<in> touched (unshielded_utxos db') \<longleftrightarrow> (address, fst p) \<in> touched (unshielded_utxos db)"
    if "p \<in> set (tab_rows (transactions db))" for p
    using same_pastD(4) [OF conjunct1 [OF stored_later_past [OF later s]]] stored_ids(2) [OF s, of "fst p" "snd p"] that by simp
  then have "filter (\<lambda>p. (address, fst p) \<in> touched (unshielded_utxos db')) (tab_rows (transactions db)) = address_rows address db"
    unfolding address_rows_def by (intro filter_cong) auto
  then show ?thesis by (simp add: address_rows_def new)
qed

interpretation address_pages: keyset "\<lambda>(feat, _). stored feat" "\<lambda>(feat, _). stored_later feat" address_transactions
  "\<lambda>x. int (unat (api_transaction_id x))" as_i64 "\<lambda>x. api_transaction_id x + 1"
  "\<lambda>(feat, address). get_transactions_by_unshielded_address_page feat address"
proof (unfold_locales, goal_cases)
  case (1 q db limit c)
  then show ?case using unshielded_page_eq by (cases q) simp
next
  case (2 q db)
  obtain feat address where q: "q = (feat, address)" by (cases q)
  have s: "stored feat db" using 2 q by simp
  have "sorted_wrt (\<lambda>p p'. as_i64 (api_transaction_id (api_tx feat db p) + 1) \<le> int (unat (api_transaction_id (api_tx feat db p'))))
      (tab_rows (transactions db))"
    using tx_rows_sorted [OF s] by (rule sorted_wrt_mono_rel [rotated]) (simp add: api_tx_key [OF s] api_tx_after [OF s])
  then show ?case using q by (simp add: address_transactions_def sorted_wrt_map address_rows_def sorted_wrt_filter)
next
  case (3 q db x)
  then obtain feat address p where q: "q = (feat, address)" and s: "stored feat db"
    and p: "p \<in> set (tab_rows (transactions db))" "x = api_tx feat db p"
    by (auto simp: address_transactions_def address_rows_def)
  then show ?case by (simp add: api_tx_key [OF s] api_tx_after [OF s])
next
  case (4 q db db')
  obtain feat address where q: "q = (feat, address)" by (cases q)
  have eq: "map (api_tx feat db') (address_rows address db) = map (api_tx feat db) (address_rows address db)"
    using api_tx_later [of feat db db'] 4 q by (simp add: address_rows_def)
  have "prefix (map (api_tx feat db') (address_rows address db)) (map (api_tx feat db') (address_rows address db'))"
    using address_rows_later [of feat db db' address] 4 q by (intro map_mono_prefix) simp
  then show ?case unfolding eq by (simp add: address_transactions_def q)
qed

section \<open>Properties\<close>

lemma utxos_by_output_index_nonempty:
  assumes "typed (view db)" and "(j, u) \<in> set (tab_rows (unshielded_utxos db))" and "p u"
  shows "\<exists>us. utxos_by_output_index p db = Inr us \<and> us \<noteq> []"
proof -
  obtain us where us: "utxos_by_output_index p db = Inr us" using utxo_reads_ok(2) [OF assms(1)] by (auto simp: is_ok_iff)
  have "length us = length (filter (\<lambda>(_, u). p u) (tab_rows (unshielded_utxos db)))"
    using try_map_length us by (fastforce simp: utxos_by_output_index_def select_where_def)
  moreover have "filter (\<lambda>(_, u). p u) (tab_rows (unshielded_utxos db)) \<noteq> []"
    using assms(2,3) by (auto simp: filter_empty_conv)
  ultimately show ?thesis using us by auto
qed

lemma emitted_touched:
  assumes s: "stored feat db" and i: "as_i64 (api_transaction_id t) = i" and t: "(address, i) \<in> touched (unshielded_utxos db)"
  shows "\<exists>u. make_unshielded_transaction address db t = Inr (Some u) \<and> ut_transaction u = t"
proof -
  have ty: "typed (view db)" by (rule stored_ok(2) [OF s])
  obtain cs ss where q: "get_unshielded_utxos_by_address_created_by_transaction address (api_transaction_id t) db = Inr cs"
      "get_unshielded_utxos_by_address_spent_by_transaction address (api_transaction_id t) db = Inr ss"
    using utxo_reads_ok(2) [OF ty] unfolding get_unshielded_utxos_by_address_created_by_transaction_def
      get_unshielded_utxos_by_address_spent_by_transaction_def by (meson is_ok_iff)
  obtain j u where u: "(j, u) \<in> set (tab_rows (unshielded_utxos db))" "u_owner u = address"
      "u_creating_transaction_id u = i \<or> u_spending_transaction_id u = Some i"
    using t by (auto simp: touched_iff)
  have "cs \<noteq> []" if "u_creating_transaction_id u = i"
    using utxos_by_output_index_nonempty [OF ty u(1), of "\<lambda>u. u_creating_transaction_id u = i \<and> u_owner u = address"] that u(2) q(1)
    by (auto simp: get_unshielded_utxos_by_address_created_by_transaction_def i)
  moreover have "ss \<noteq> []" if "u_spending_transaction_id u = Some i"
    using utxos_by_output_index_nonempty [OF ty u(1), of "\<lambda>u. u_spending_transaction_id u = Some i \<and> u_owner u = address"] that u(2) q(2)
    by (auto simp: get_unshielded_utxos_by_address_spent_by_transaction_def i)
  ultimately have "cs \<noteq> [] \<or> ss \<noteq> []" using u(3) by blast
  then show ?thesis using q by (simp add: make_unshielded_transaction_def server_error_def)
qed

text \<open>
  C25. The subscription to the transactions of an unshielded address yields every transaction that creates or
  spends a UTXO of the address, from its start id on, exactly once and in order, however blocks are added while it
  reads its pages, and comes to rest after each event. What it says of a transaction does not depend on when it is read,
  and each one leads to an event for the client, whenever its UTXOs are read.
\<close>

theorem unshielded_subscription_complete:
  assumes "growing (stored feat) (stored_later feat) (concat events)" and "0 < batch_size" and "events \<noteq> []"
    and "\<And>dbs db. dbs \<in> set events \<Longrightarrow> db \<in> set dbs \<Longrightarrow> length (address_rows address db) < length dbs"
    and "[] \<notin> set events"
  shows "\<exists>items c' db. unshielded_stream feat address batch_size c events = Some (items, c', None) \<and> db \<in> set (last events)
    \<and> map snd items = map (api_tx feat db) (filter (\<lambda>p. as_i64 c \<le> fst p) (address_rows address db))
    \<and> (\<forall>later. stored_later feat db later \<longrightarrow>
         list_all (\<lambda>t. \<exists>u. make_unshielded_transaction address later t = Inr (Some u) \<and> ut_transaction u = t) (map snd items))"
proof -
  let ?fetch = "get_transactions_by_unshielded_address_page feat address batch_size"
  have len: "length (address_transactions (feat, address) db) = length (address_rows address db)" for db
    by (simp add: address_transactions_def)
  have "subscription ?fetch (\<lambda>x. api_transaction_id x + 1) c events \<noteq> None"
    using address_pages.subscription_ends [of "(feat, address)" events batch_size c] assms len by auto
  then obtain items c' e where s: "subscription ?fetch (\<lambda>x. api_transaction_id x + 1) c events = Some (items, c', e)" by auto
  with address_pages.subscription_complete [of "(feat, address)" events batch_size c items c' e] assms(1-3)
  obtain db where db: "e = None" "db \<in> set (last events)" and items:
    "map snd items = filter (\<lambda>x. as_i64 c \<le> int (unat (api_transaction_id x))) (address_transactions (feat, address) db)"
    by auto
  have st: "stored feat db" using growingD [OF assms(1)] db(2) last_in_set [OF assms(3)] by auto
  have rows: "map snd items = map (api_tx feat db) (filter (\<lambda>p. as_i64 c \<le> fst p) (address_rows address db))"
    unfolding items address_transactions_def using api_tx_key [OF st]
    by (simp add: filter_map comp_def address_rows_def cong: filter_cong)
  have "\<exists>u. make_unshielded_transaction address later t = Inr (Some u) \<and> ut_transaction u = t"
    if later: "stored_later feat db later" and t: "t \<in> set (map snd items)" for later t
  proof -
    obtain p where p: "p \<in> set (tab_rows (transactions db))" "(address, fst p) \<in> touched (unshielded_utxos db)" "t = api_tx feat db p"
      using t unfolding rows by (auto simp: address_rows_def)
    have i: "0 < fst p" "fst p < tab_next (transactions db)" "fst p < 2 ^ 63 - 1"
      using stored_ids [OF st, of "fst p" "snd p"] p(1) by simp_all
    have "as_i64 (api_transaction_id t) = fst p"
      using joined_ok(4) [OF st p(1)] as_i64_as_u64 [of "fst p"] i by (simp add: p(3) as_u64_def)
    moreover have "(address, fst p) \<in> touched (unshielded_utxos later)"
      using same_pastD(4) [OF conjunct1 [OF stored_later_past [OF later st]]] i(2) p(2) by simp
    ultimately show ?thesis using emitted_touched [OF stored_later_stored [OF st later]] by blast
  qed
  then have "\<forall>later. stored_later feat db later \<longrightarrow>
      list_all (\<lambda>t. \<exists>u. make_unshielded_transaction address later t = Inr (Some u) \<and> ut_transaction u = t) (map snd items)"
    unfolding list_all_iff by blast
  with s db rows show ?thesis unfolding unshielded_stream_def by blast
qed

lemma map_fst_address_rows:
  "map fst (address_rows a db) = filter (\<lambda>i. (a, i) \<in> touched (unshielded_utxos db)) (map fst (tab_rows (transactions db)))"
  by (simp add: address_rows_def filter_map comp_def)

lemma api_sample_touched:
  "touched (unshielded_utxos api_sample_db1) = {(replicate 32 7, 1)}"
  "touched (unshielded_utxos api_sample_db2) = {(replicate 32 7, 1), (replicate 32 7, 2)}"
  using api_sample_rows(3,4) by (auto simp: touched_def map_eq_Cons_conv split_def)

lemma api_sample_address_rows:
  "map fst (address_rows (replicate 32 7) api_sample_db1) = [1]" "map fst (address_rows (replicate 32 7) api_sample_db2) = [1, 2]"
  by (simp_all add: map_fst_address_rows api_sample_touched api_sample_rows)

theorem unshielded_subscription_complete_witness:
  "\<exists>items c'. unshielded_stream Cloud (replicate 32 7) 1 0
       [[api_sample_db1, api_sample_db1], [api_sample_db2, api_sample_db2, api_sample_db2]] = Some (items, c', None)
     \<and> map (api_transaction_id \<circ> snd) items = [1, 2]"
proof -
  let ?events = "[[api_sample_db1, api_sample_db1], [api_sample_db2, api_sample_db2, api_sample_db2]]"
  have grow: "growing (stored Cloud) (stored_later Cloud) (concat ?events)"
    using api_sample_stored api_sample_step2 by auto
  note ids = api_sample_address_rows
  have more: "length (address_rows (replicate 32 7) db) < length dbs" if "dbs \<in> set ?events" "db \<in> set dbs" for dbs db
    using that arg_cong [OF ids(1), of length] arg_cong [OF ids(2), of length] by auto
  have "\<exists>items c' db. unshielded_stream Cloud (replicate 32 7) 1 0 ?events = Some (items, c', None) \<and> db \<in> set (last ?events)
    \<and> map snd items = map (api_tx Cloud db) (filter (\<lambda>p. as_i64 0 \<le> fst p) (address_rows (replicate 32 7) db))
    \<and> (\<forall>later. stored_later Cloud db later \<longrightarrow> list_all (\<lambda>t. \<exists>u. make_unshielded_transaction (replicate 32 7) later t = Inr (Some u)
         \<and> ut_transaction u = t) (map snd items))"
    by (rule unshielded_subscription_complete [OF grow _ _ more]) simp_all
  then obtain items c' where i: "unshielded_stream Cloud (replicate 32 7) 1 0 ?events = Some (items, c', None)"
    "map snd items = map (api_tx Cloud api_sample_db2) (filter (\<lambda>p. as_i64 0 \<le> fst p) (address_rows (replicate 32 7) api_sample_db2))"
    by auto
  have "map (api_transaction_id \<circ> snd) items = map (word_of_int \<circ> fst) (filter (\<lambda>p. 0 \<le> fst p) (address_rows (replicate 32 7) api_sample_db2))"
    using arg_cong [OF i(2), of "map api_transaction_id"] joined_ok(4) [OF api_sample_stored(2)]
    by (simp add: as_i64_def address_rows_def)
  also have "\<dots> = map word_of_int (filter (\<lambda>i. 0 \<le> i) (map fst (address_rows (replicate 32 7) api_sample_db2)))"
    by (simp add: filter_map comp_def)
  finally show ?thesis using i(1) by (simp add: ids)
qed

end
