(* ===== verification/Api_Shielded_Stream.thy ===== *)
theory Api_Shielded_Stream
  imports Api_Tx_Stream Wallet_Props
begin

text \<open>
  The subscription of a wallet to its relevant transactions (\<^verbatim>\<open>indexer-api/src/infra/api/v4/subscription/shielded.rs\<close>).
  Its cursor is an index into the zswap state: a page starts at the first relevant transaction whose start index is at
  or above it, and the cursor moves to the end index of the last one. While the wallet indexer goes forward, and
  as long as every relevant transaction has added to the zswap state, the subscription yields every relevant transaction
  exactly once, and the collapsed updates fill exactly the gaps between them. A relevant transaction that has
  added nothing, such as a failed one, makes the stream of pages return it for ever.
\<close>

section \<open>Relevant transactions\<close>

definition wallet_ids :: "bytes \<Rightarrow> wallet_db \<Rightarrow> i64 set" where
  "wallet_ids wallet_id wdb =
     set (map rv_transaction_id (filter (\<lambda>r. rv_wallet_id r = wallet_id) (map snd (tab_rows (relevant_transactions wdb)))))"

definition connected :: "bytes \<Rightarrow> wallet_db \<Rightarrow> bool" where
  "connected wallet_id wdb \<longleftrightarrow> list_ex (\<lambda>w. w_id w = wallet_id \<and> w_session_id w \<noteq> None) (wallets wdb)"

definition wallet_rows :: "bytes \<Rightarrow> chain_db \<times> wallet_db \<Rightarrow> (i64 \<times> transaction_row) list" where
  "wallet_rows wallet_id = (\<lambda>(db, wdb). filter (\<lambda>p. fst p \<in> wallet_ids wallet_id wdb) (tab_rows (transactions db)))"

fun regular_part :: "api_transaction \<Rightarrow> api_regular_transaction" where
  "regular_part (ApiRegular t) = t\<lparr>ar_bridge_claim := None\<rparr>"
| "regular_part (ApiSystem t) = undefined"

text \<open>The transactions of a wallet as its subscription shows them: without the payload of a bridge claim.\<close>

definition wallet_transactions :: "feature \<times> bytes \<Rightarrow> chain_db \<times> wallet_db \<Rightarrow> api_regular_transaction list" where
  "wallet_transactions = (\<lambda>(feat, wallet_id) s. map (\<lambda>p. regular_part (api_tx feat (fst s) p)) (wallet_rows wallet_id s))"

text \<open>
  A state in which the stream works: the wallet is connected, its relevant transactions are regular ones, each has
  added to the zswap state, and a later one starts where an earlier one ends or above. A later state has more blocks,
  and more relevant transactions behind those the wallet had.
\<close>

definition shielded_ok :: "feature \<times> bytes \<Rightarrow> chain_db \<times> wallet_db \<Rightarrow> bool" where
  "shielded_ok = (\<lambda>(feat, wallet_id) s. stored feat (fst s) \<and> connected wallet_id (snd s)
     \<and> list_all (\<lambda>p. t_variant (snd p) = RegularVariant) (wallet_rows wallet_id s)
     \<and> list_all (\<lambda>t. ar_zswap_start_index t < ar_zswap_end_index t) (wallet_transactions (feat, wallet_id) s)
     \<and> sorted_wrt (\<lambda>t t'. ar_zswap_end_index t \<le> ar_zswap_start_index t') (wallet_transactions (feat, wallet_id) s))"

definition shielded_later :: "feature \<times> bytes \<Rightarrow> chain_db \<times> wallet_db \<Rightarrow> chain_db \<times> wallet_db \<Rightarrow> bool" where
  "shielded_later = (\<lambda>(feat, wallet_id) s s'. stored_later feat (fst s) (fst s')
     \<and> wallet_ids wallet_id (snd s) \<subseteq> wallet_ids wallet_id (snd s')
     \<and> (\<forall>i \<in> wallet_ids wallet_id (snd s') - wallet_ids wallet_id (snd s). \<forall>j \<in> wallet_ids wallet_id (snd s). j < i))"

section \<open>Pages of a wallet\<close>

lemma wallet_ids_iff:
  "i \<in> wallet_ids w wdb \<longleftrightarrow> list_ex (\<lambda>(_, r). rv_wallet_id r = w \<and> rv_transaction_id r = i) (tab_rows (relevant_transactions wdb))"
  by (force simp: wallet_ids_def list_ex_iff image_iff)

lemma as_i64_unat: "0 \<le> as_i64 w \<Longrightarrow> as_i64 w = int (unat w)"
proof -
  assume "0 \<le> as_i64 w"
  then have "uint (word_of_int (as_i64 w) :: u64) = as_i64 w"
    using as_i64_upper [of w] by (simp add: uint_word_of_int_eq take_bit_int_eq_self)
  then show ?thesis by (simp add: as_u64_def [symmetric])
qed

lemma as_i64_word_of_int: "0 \<le> i \<Longrightarrow> i < 2 ^ 63 \<Longrightarrow> as_i64 (word_of_int i) = i"
  using as_i64_as_u64 [of i] by (cases "i = 0") (simp_all add: as_u64_def as_i64_def)

lemma regular_api_tx:
  assumes s: "stored feat db" and p: "(i, t) \<in> set (tab_rows (transactions db))" and v: "t_variant t = RegularVariant"
  obtains r x bh where "join_regular db (i, t) = Some (i, t, bh, Some r)" "regular_from_row (i, t, bh, Some r) = Inr x"
    "regular_part (api_tx feat db (i, t)) = set_identifiers feat db x"
    "as_i64 (ar_zswap_start_index x) = r_zswap_start_index r" "as_i64 (ar_zswap_end_index x) = r_zswap_end_index r"
    "ar_zswap_start_index (regular_part (api_tx feat db (i, t))) = ar_zswap_start_index x"
    "ar_zswap_end_index (regular_part (api_tx feat db (i, t))) = ar_zswap_end_index x" "regular_typed r"
proof -
  note ok = stored_ok(1,2) [OF s]
  obtain b where b: "row_by_id (blocks db) (t_block_id t) = Some b" "length (b_hash b) = 32" by (rule joined_block [OF ok p])
  have "i \<in> r_id ` set (regular_transactions db)" using ok(2) p v by (force simp: typed_def list_all_iff)
  then obtain r where r: "find (\<lambda>r. r_id r = i) (regular_transactions db) = Some r"
    by (cases "find (\<lambda>r. r_id r = i) (regular_transactions db)") (auto simp: find_None_iff)
  then have ty: "regular_typed r" using find_regular_typed [of "view db" i r] ok(2) by simp
  obtain x where x: "regular_from_row (i, t, b_hash b, Some r) = Inr x"
    "ar_zswap_start_index x = word_of_int (r_zswap_start_index r)" "ar_zswap_end_index x = word_of_int (r_zswap_end_index r)"
    using regular_from_row_ok [OF _ _ b(2) ty] typed_rows(2) [OF ok(2) p] by blast
  have "ar_bridge_claim x = None" using x(1) by (auto simp: regular_from_row_def res_simps)
  then have "regular_part (api_tx feat db (i, t)) = set_identifiers feat db x"
    using b(1) r v x(1) by (simp add: api_tx_def joined_def left_join_regular_def make_transaction_def finished_def
        set_identifiers_def split: feature.splits)
  moreover have "as_i64 (ar_zswap_start_index x) = r_zswap_start_index r" "as_i64 (ar_zswap_end_index x) = r_zswap_end_index r"
    using ty by (simp_all add: x(2,3) regular_typed_def as_i64_word_of_int)
  ultimately show thesis using that [of "b_hash b" r x] b(1) r x(1) ty
    by (simp add: join_regular_def set_identifiers_def split: feature.splits)
qed

lemma relevant_page_eq:
  assumes ok: "shielded_ok (feat, w) (db, wdb)"
  shows "get_relevant_transactions_page feat w limit c (db, wdb)
    = Inr (take limit (filter (\<lambda>x. as_i64 c \<le> as_i64 (ar_zswap_start_index x)) (wallet_transactions (feat, w) (db, wdb))))"
proof -
  have s: "stored feat db" and con: "list_ex (\<lambda>w'. w_id w' = w \<and> w_session_id w' \<noteq> None) (wallets wdb)"
    and reg: "p \<in> set (wallet_rows w (db, wdb)) \<Longrightarrow> t_variant (snd p) = RegularVariant" for p
    using ok by (simp_all add: shielded_ok_def connected_def list_all_iff)
  let ?join = "\<lambda>p. the (join_regular db p)"
  let ?P = "\<lambda>row :: tx_join. case snd (snd (snd row)) of None \<Rightarrow> False | Some r \<Rightarrow> as_i64 c \<le> r_zswap_start_index r"
  let ?rows = "wallet_rows w (db, wdb)"
  have sel: "filter (\<lambda>(i, _, _, reg). True
             \<and> list_ex (\<lambda>(_, r). rv_wallet_id r = w \<and> rv_transaction_id r = i) (tab_rows (relevant_transactions wdb))
             \<and> (case reg of None \<Rightarrow> False | Some r \<Rightarrow> as_i64 c \<le> r_zswap_start_index r))
           (Chain_Storage.filter_map (join_regular db) (tab_rows (transactions db))) = filter ?P (map ?join ?rows)"
  proof -
    have "filter (\<lambda>row. fst row \<in> wallet_ids w wdb) (Chain_Storage.filter_map (join_regular db) ps)
      = map ?join (filter (\<lambda>p. fst p \<in> wallet_ids w wdb) ps)" if "set ps \<subseteq> set (tab_rows (transactions db))" for ps
      using that
    proof (induction ps)
      case (Cons p ps)
      obtain i t where p: "p = (i, t)" by (cases p)
      have "join_regular db p = Some j \<Longrightarrow> fst j = i" for j using p by (auto simp: join_regular_def bind_eq_Some_conv)
      moreover have "\<exists>j. join_regular db p = Some j" if "i \<in> wallet_ids w wdb"
      proof -
        have "p \<in> set ?rows" using Cons.prems that p by (simp add: wallet_rows_def)
        then show ?thesis using regular_api_tx [OF s, of i t] reg [of p] Cons.prems p by (metis (no_types, lifting) list.set_intros(1) snd_conv subset_iff)
      qed
      ultimately show ?case using Cons p by (cases "join_regular db p") (auto simp: Chain_Storage.filter_map_def)
    qed (simp add: Chain_Storage.filter_map_def)
    note this [OF subset_refl]
    then have "map ?join ?rows = filter (\<lambda>row. fst row \<in> wallet_ids w wdb) (Chain_Storage.filter_map (join_regular db) (tab_rows (transactions db)))"
      by (simp add: wallet_rows_def)
    then show ?thesis by (simp add: wallet_ids_iff split_def)
  qed
  have each: "regular_from_row (?join p) = Inr (case regular_from_row (?join p) of Inr x \<Rightarrow> x)"
    "set_identifiers feat db (case regular_from_row (?join p) of Inr x \<Rightarrow> x) = regular_part (api_tx feat db p)"
    "?P (?join p) \<longleftrightarrow> as_i64 c \<le> as_i64 (ar_zswap_start_index (regular_part (api_tx feat db p)))" "fst (?join p) = fst p"
    if "p \<in> set ?rows" for p
  proof -
    obtain i t where p: "p = (i, t)" by (cases p)
    have t: "(i, t) \<in> set (tab_rows (transactions db))" "t_variant t = RegularVariant"
      using that reg [OF that] p by (simp_all add: wallet_rows_def)
    show "regular_from_row (?join p) = Inr (case regular_from_row (?join p) of Inr x \<Rightarrow> x)"
      "set_identifiers feat db (case regular_from_row (?join p) of Inr x \<Rightarrow> x) = regular_part (api_tx feat db p)"
      "?P (?join p) \<longleftrightarrow> as_i64 c \<le> as_i64 (ar_zswap_start_index (regular_part (api_tx feat db p)))" "fst (?join p) = fst p"
      by (rule regular_api_tx [OF s t]; simp add: p)+
  qed
  have "sorted_wrt (\<lambda>x y. fst x < fst y) ?rows"
    using tx_rows_sorted [OF s] by (simp add: wallet_rows_def sorted_wrt_filter)
  then have "sorted_wrt (\<lambda>x y. fst (?join x) < fst (?join y)) ?rows"
    by (rule sorted_wrt_mono_rel [rotated]) (simp add: each(4))
  then have "sorted_wrt (\<lambda>x y. fst x < fst y) (filter ?P (map ?join ?rows))"
    by (intro sorted_wrt_filter) (simp add: sorted_wrt_map)
  then have srt: "sort_key fst (filter ?P (map ?join ?rows)) = filter ?P (map ?join ?rows)"
    by (intro sort_key_id_if_sorted) (auto simp: sorted_map elim: sorted_wrt_mono_rel [rotated])
  let ?rows' = "filter (\<lambda>p. ?P (?join p)) ?rows"
  have "try_map regular_from_row (take limit (filter ?P (map ?join ?rows)))
      = Inr (map (\<lambda>p. case regular_from_row (?join p) of Inr x \<Rightarrow> x) (take limit ?rows'))"
    unfolding filter_map take_map try_map_map comp_def
    by (rule try_map_total) (use each(1) in \<open>fastforce dest: in_set_takeD\<close>)
  then have "get_relevant_transactions_page feat w limit c (db, wdb)
      = Inr (map (\<lambda>p. set_identifiers feat db (case regular_from_row (?join p) of Inr x \<Rightarrow> x)) (take limit ?rows'))"
    using con sel srt by (simp add: get_relevant_transactions_page_def Let_def comp_def)
  also have "map (\<lambda>p. set_identifiers feat db (case regular_from_row (?join p) of Inr x \<Rightarrow> x)) (take limit ?rows')
      = take limit (map (\<lambda>p. regular_part (api_tx feat db p)) ?rows')"
    using each(2) by (simp add: take_map) (auto dest: in_set_takeD)
  also have "map (\<lambda>p. regular_part (api_tx feat db p)) ?rows'
      = filter (\<lambda>x. as_i64 c \<le> as_i64 (ar_zswap_start_index x)) (wallet_transactions (feat, w) (db, wdb))"
    using each(3) by (simp add: wallet_transactions_def filter_map comp_def cong: filter_cong)
  finally show ?thesis .
qed

section \<open>Pages agree\<close>

lemma prefix_filter:
  assumes "sorted_wrt R xs" and "\<And>x. P x \<Longrightarrow> Q x" and "\<And>x y. Q x \<Longrightarrow> \<not> P x \<Longrightarrow> R x y \<Longrightarrow> \<not> P y"
  shows "prefix (filter P xs) (filter Q xs)"
  using assms(1)
proof (induction xs)
  case (Cons x xs)
  show ?case
  proof (cases "P x \<or> \<not> Q x")
    case True
    then show ?thesis using Cons assms(2) by auto
  next
    case False
    then have "filter P xs = []" using Cons.prems assms(3) by (auto simp: filter_empty_conv)
    then show ?thesis using False by simp
  qed
qed simp

lemma wallet_rows_later:
  assumes later: "shielded_later (feat, w) s s'" and s: "stored feat (fst s)"
  shows "prefix (wallet_rows w s) (wallet_rows w s')"
proof -
  obtain db wdb db' wdb' where ss: "s = (db, wdb)" "s' = (db', wdb')" by (cases s, cases s')
  have l: "stored_later feat db db'" "wallet_ids w wdb \<subseteq> wallet_ids w wdb'"
    "\<And>i j. i \<in> wallet_ids w wdb' \<Longrightarrow> i \<notin> wallet_ids w wdb \<Longrightarrow> j \<in> wallet_ids w wdb \<Longrightarrow> j < i"
    using later by (auto simp: shielded_later_def ss)
  have st: "stored feat db" using s ss by simp
  obtain new where new: "tab_rows (transactions db') = tab_rows (transactions db) @ new"
    using stored_later_extends [OF l(1) st] by (auto simp: extends_def prefix_def)
  have "prefix (filter (\<lambda>p. fst p \<in> wallet_ids w wdb) (tab_rows (transactions db)))
      (filter (\<lambda>p. fst p \<in> wallet_ids w wdb') (tab_rows (transactions db)))"
    using tx_rows_sorted [OF st] by (rule prefix_filter) (use l(2,3) in force)+
  then show ?thesis by (simp add: wallet_rows_def ss new)
qed

lemma wallet_transactions_later:
  assumes later: "shielded_later (feat, w) s s'" and s: "stored feat (fst s)"
  shows "prefix (wallet_transactions (feat, w) s) (wallet_transactions (feat, w) s')"
proof -
  have "stored_later feat (fst s) (fst s')" using later by (simp add: shielded_later_def)
  then have "api_tx feat (fst s') p = api_tx feat (fst s) p" if "p \<in> set (wallet_rows w s)" for p
    using api_tx_later [OF _ s, of "fst s'" p] that by (cases s) (simp add: wallet_rows_def)
  then have "wallet_transactions (feat, w) s = map (\<lambda>p. regular_part (api_tx feat (fst s') p)) (wallet_rows w s)"
    by (simp add: wallet_transactions_def)
  moreover have "wallet_transactions (feat, w) s' = map (\<lambda>p. regular_part (api_tx feat (fst s') p)) (wallet_rows w s')"
    by (simp add: wallet_transactions_def)
  ultimately show ?thesis by (simp only: map_mono_prefix [OF wallet_rows_later [OF later s]])
qed

lemma wallet_transaction_indices:
  assumes "shielded_ok (feat, w) s" and "x \<in> set (wallet_transactions (feat, w) s)"
  shows "as_i64 (ar_zswap_start_index x) = int (unat (ar_zswap_start_index x))"
    "as_i64 (ar_zswap_end_index x) = int (unat (ar_zswap_end_index x))" "ar_zswap_start_index x < ar_zswap_end_index x"
proof -
  obtain db wdb where ss: "s = (db, wdb)" by (cases s)
  obtain i t where p: "(i, t) \<in> set (wallet_rows w s)" "x = regular_part (api_tx feat db (i, t))"
    using assms(2) ss by (auto simp: wallet_transactions_def)
  have t: "stored feat db" "(i, t) \<in> set (tab_rows (transactions db))" "t_variant t = RegularVariant"
    using assms(1) p ss by (auto simp: shielded_ok_def list_all_iff wallet_rows_def)
  have "0 \<le> as_i64 (ar_zswap_start_index x) \<and> 0 \<le> as_i64 (ar_zswap_end_index x)"
    by (rule regular_api_tx [OF t]) (simp add: p(2) regular_typed_def)
  then show "as_i64 (ar_zswap_start_index x) = int (unat (ar_zswap_start_index x))"
    "as_i64 (ar_zswap_end_index x) = int (unat (ar_zswap_end_index x))"
    using as_i64_unat by blast+
  show "ar_zswap_start_index x < ar_zswap_end_index x" using assms by (simp add: shielded_ok_def list_all_iff split: prod.splits)
qed

interpretation wallet_pages: keyset shielded_ok shielded_later wallet_transactions
  "\<lambda>x. as_i64 (ar_zswap_start_index x)" as_i64 ar_zswap_end_index
  "\<lambda>(feat, w). get_relevant_transactions_page feat w"
proof (unfold_locales, goal_cases)
  case (1 q s limit c)
  then show ?case using relevant_page_eq by (cases q, cases s) simp
next
  case (2 q s)
  obtain feat w where q: "q = (feat, w)" by (cases q)
  have "sorted_wrt (\<lambda>t t'. ar_zswap_end_index t \<le> ar_zswap_start_index t') (wallet_transactions (feat, w) s)"
    using 2 q by (simp add: shielded_ok_def)
  then show ?case unfolding q
    by (rule sorted_wrt_mono_rel [rotated]) (use 2 q wallet_transaction_indices in \<open>simp add: word_le_def\<close>)
next
  case (3 q s x)
  then show ?case using wallet_transaction_indices [of "fst q" "snd q" s x] by (simp add: word_less_def)
next
  case (4 q s s')
  then show ?case using wallet_transactions_later [of "fst q" "snd q" s s'] by (cases q) (simp add: shielded_ok_def)
qed

section \<open>Complete, without gaps\<close>

text \<open>The indices into the zswap state that a client gets with a relevant transaction.\<close>

definition indices_covered :: "relevant_transaction \<Rightarrow> nat list" where
  "indices_covered r = (case rl_collapsed_update r of None \<Rightarrow> [] | Some (a, b) \<Rightarrow> [unat a..<Suc (unat b)])
     @ [unat (ar_zswap_start_index (rl_transaction r))..<unat (ar_zswap_end_index (rl_transaction r))]"

lemma upt_append: "i \<le> j \<Longrightarrow> j \<le> k \<Longrightarrow> [i..<j] @ [j..<k] = [i..<k]"
  using upt_add_eq_append [of i j "k - j"] by simp

lemma indices_covered_make:
  assumes "c \<le> ar_zswap_start_index t" and "ar_zswap_start_index t < ar_zswap_end_index t"
  shows "indices_covered (make_relevant_transaction c t) = [unat c..<unat (ar_zswap_end_index t)]"
proof (cases "c = ar_zswap_start_index t")
  case False
  then have "c < ar_zswap_start_index t" using assms(1) by simp
  moreover from this have "Suc (unat (ar_zswap_start_index t - 1)) = unat (ar_zswap_start_index t)"
    by (metis Suc_pred' unat_gt_0 unat_minus_one word_not_simps(1))
  moreover have "unat c \<le> unat (ar_zswap_start_index t)" "unat (ar_zswap_start_index t) \<le> unat (ar_zswap_end_index t)"
    using assms calculation by (simp_all add: word_le_nat_alt word_less_nat_alt)
  ultimately show ?thesis using upt_append [of "unat c" "unat (ar_zswap_start_index t)" "unat (ar_zswap_end_index t)"]
    by (simp add: indices_covered_def make_relevant_transaction_def del: upt_Suc)
qed (simp add: indices_covered_def make_relevant_transaction_def)

lemma indices_tiled:
  assumes "sorted_wrt (\<lambda>t t'. ar_zswap_end_index t \<le> ar_zswap_start_index t') ts"
    and "\<And>t. t \<in> set ts \<Longrightarrow> c \<le> ar_zswap_start_index t \<and> ar_zswap_start_index t < ar_zswap_end_index t"
  shows "concat (map indices_covered (map2 make_relevant_transaction (butlast (c # map ar_zswap_end_index ts)) ts))
    = [unat c..<unat (last (c # map ar_zswap_end_index ts))]"
  using assms
proof (induction ts arbitrary: c)
  case (Cons t ts)
  have t: "c \<le> ar_zswap_start_index t" "ar_zswap_start_index t < ar_zswap_end_index t" using Cons.prems(2) by auto
  let ?e = "ar_zswap_end_index t"
  have "concat (map indices_covered (map2 make_relevant_transaction (butlast (?e # map ar_zswap_end_index ts)) ts))
      = [unat ?e..<unat (last (?e # map ar_zswap_end_index ts))]"
    using Cons.prems by (intro Cons.IH) auto
  moreover have "unat c \<le> unat ?e" using t by (simp add: word_le_nat_alt word_less_nat_alt)
  moreover have "unat ?e \<le> unat (last (?e # map ar_zswap_end_index ts))"
  proof (cases ts rule: rev_cases)
    case (snoc us u)
    then show ?thesis using Cons.prems(1) Cons.prems(2) [of u] by (simp add: word_le_nat_alt word_less_nat_alt)
  qed simp
  ultimately show ?case
    using upt_append [of "unat c" "unat ?e" "unat (last (?e # map ar_zswap_end_index ts))"]
    by (simp add: indices_covered_make [OF t])
qed simp

text \<open>
  C26. For a connected wallet, if every one of its relevant transactions has added to the zswap state (its start index is
  below its end index) and starts no lower than where the earlier ones end, and if the wallet indexer meanwhile only records
  relevant transactions behind those recorded already (it scans forward, not backward), the subscription yields every relevant
  transaction that starts at its index or above exactly once and in order, however the chain and the forward scan go on while
  it reads its pages, and comes to rest after each event. The ranges of the collapsed updates and of the transactions follow each
  other without gap or overlap from the index the wallet asked for to the index reached, so that the wallet can
  rebuild the zswap state. The first condition is needed: a relevant transaction that has added nothing, such as a failed one, makes the
  stream of pages repeat it for ever (\<open>relevant_transactions_never_end\<close>); so is the second: the cursor has passed a
  transaction that a backward scan records below it.
\<close>

theorem shielded_subscription_complete:
  assumes "growing (shielded_ok (feat, w)) (shielded_later (feat, w)) (concat events)" and "0 < batch_size" and "events \<noteq> []"
    and "\<And>dbs s. dbs \<in> set events \<Longrightarrow> s \<in> set dbs \<Longrightarrow> length (wallet_rows w s) < length dbs"
    and "[] \<notin> set events" and "unat index < 2 ^ 63"
  shows "\<exists>items index' s. shielded_stream feat w batch_size index events = Some (items, index', None) \<and> s \<in> set (last events)
    \<and> map snd items = filter (\<lambda>t. index \<le> ar_zswap_start_index t) (wallet_transactions (feat, w) s)
    \<and> concat (map indices_covered (relevant_transactions_yielded items)) = [unat index..<unat index']"
proof -
  let ?sub = "subscription (get_relevant_transactions_page feat w batch_size) ar_zswap_end_index index events"
  have "?sub \<noteq> None"
    using wallet_pages.subscription_ends [of "(feat, w)" events batch_size index] assms(1-5)
    by (simp add: wallet_transactions_def)
  then obtain items c' e where sub: "?sub = Some (items, c', e)" by auto
  from wallet_pages.subscription_complete [of "(feat, w)" events batch_size index items c' e, unfolded prod.case, OF assms(1-3) sub]
  obtain s where e: "e = None" "s \<in> set (last events)" and items:
    "map snd items = filter (\<lambda>x. as_i64 index \<le> as_i64 (ar_zswap_start_index x)) (wallet_transactions (feat, w) s)"
    "map fst items = butlast (index # map ar_zswap_end_index (map snd items))" "c' = last (index # map ar_zswap_end_index (map snd items))"
    by blast
  have ok: "shielded_ok (feat, w) s" using growingD [OF assms(1), of s] e(2) last_in_set [OF assms(3)] by (cases s) auto
  have i: "as_i64 index = int (unat index)" using assms(6) by (rule as_i64_nonneg)
  have yielded: "map snd items = filter (\<lambda>t. index \<le> ar_zswap_start_index t) (wallet_transactions (feat, w) s)"
    unfolding items(1) by (rule filter_cong [OF refl]) (simp add: i wallet_transaction_indices [OF ok] word_le_def)
  have "items = zip (map fst items) (map snd items)" by (simp add: zip_map_fst_snd)
  then have "relevant_transactions_yielded items
      = map2 make_relevant_transaction (butlast (index # map ar_zswap_end_index (map snd items))) (map snd items)"
    unfolding items(2) [symmetric] by (simp add: relevant_transactions_yielded_def)
  moreover have "sorted_wrt (\<lambda>t t'. ar_zswap_end_index t \<le> ar_zswap_start_index t') (map snd items)"
    unfolding yielded using ok by (intro sorted_wrt_filter) (simp add: shielded_ok_def)
  moreover have "index \<le> ar_zswap_start_index t \<and> ar_zswap_start_index t < ar_zswap_end_index t" if "t \<in> set (map snd items)" for t
    using that wallet_transaction_indices(3) [OF ok] unfolding yielded by simp
  ultimately have "concat (map indices_covered (relevant_transactions_yielded items)) = [unat index..<unat c']"
    unfolding items(3) by (simp only: indices_tiled)
  with sub e yielded show ?thesis unfolding shielded_stream_def by blast
qed

definition shielded_sample_wallet :: "i64 list \<Rightarrow> wallet_db" where
  "shielded_sample_wallet ids = \<lparr>wallets = [wallet_sample_row],
     relevant_transactions = snd (insert_rows (map (\<lambda>i. \<lparr>rv_wallet_id = [5], rv_transaction_id = i\<rparr>) ids) empty_table)\<rparr>"

lemma shielded_sample_ids:
  "wallet_ids [5] (shielded_sample_wallet [1]) = {1}" "wallet_ids [5] (shielded_sample_wallet [1, 2]) = {1, 2}"
  "connected [5] (shielded_sample_wallet ids)"
  by (auto simp: wallet_ids_def connected_def shielded_sample_wallet_def insert_row_def empty_table_def wallet_sample_row_def Let_def)

lemmas shielded_sample_defs = wallet_transactions_def api_tx_def joined_def left_join_regular_def make_transaction_def
  regular_from_row_def finished_def set_identifiers_def col_u64_def u64_try_from_def col_array_def byte_array_try_from_def
  col_version_def col_u128_def try_from_i64_def try_from_u32_def into_i64_def U128BeBytes_length row_by_id_def wallet_rows_def
  api_sample_defs sample_defs utxo_keys_def Let_def as_i64_def shielded_sample_ids

lemma shielded_sample_rows:
  "map (t_variant \<circ> snd) (wallet_rows [5] (api_sample_db1, shielded_sample_wallet [1])) = [RegularVariant]"
  "map (t_variant \<circ> snd) (wallet_rows [5] (api_sample_db2, shielded_sample_wallet [1, 2])) = [RegularVariant, RegularVariant]"
  by (simp_all add: api_sample_db2_def api_sample_db1_def shielded_sample_defs)

lemma shielded_sample_spans:
  "map (\<lambda>t. (ar_zswap_start_index t, ar_zswap_end_index t)) (wallet_transactions (Cloud, [5]) (api_sample_db1, shielded_sample_wallet [1]))
     = [(0, 2)]"
  "map (\<lambda>t. (ar_zswap_start_index t, ar_zswap_end_index t)) (wallet_transactions (Cloud, [5]) (api_sample_db2, shielded_sample_wallet [1, 2]))
     = [(0, 2), (2, 3)]"
  by (simp_all add: api_sample_db2_def api_sample_db1_def shielded_sample_defs)

lemma shielded_okI:
  assumes "stored feat db" and "connected w wdb"
    and "list_all (\<lambda>v. v = RegularVariant) (map (t_variant \<circ> snd) (wallet_rows w (db, wdb)))"
    and spans: "map (\<lambda>t. (ar_zswap_start_index t, ar_zswap_end_index t)) (wallet_transactions (feat, w) (db, wdb)) = spans"
    and "list_all (\<lambda>(a, b). a < b) spans" and "sorted_wrt (\<lambda>(_, b) (a, _). b \<le> a) spans"
  shows "shielded_ok (feat, w) (db, wdb)"
  using assms(1-3,5,6) unfolding spans [symmetric]
  by (simp add: shielded_ok_def list.pred_map comp_def sorted_wrt_map)

lemma shielded_sample_ok:
  "shielded_ok (Cloud, [5]) (api_sample_db1, shielded_sample_wallet [1])"
  "shielded_ok (Cloud, [5]) (api_sample_db2, shielded_sample_wallet [1, 2])"
  using shielded_okI [OF api_sample_stored(1) shielded_sample_ids(3) _ shielded_sample_spans(1)]
    shielded_okI [OF api_sample_stored(2) shielded_sample_ids(3) _ shielded_sample_spans(2)]
  by (simp_all only: shielded_sample_rows) simp_all

theorem shielded_subscription_complete_witness:
  "\<exists>items index'. shielded_stream Cloud [5] 1 0
       [[(api_sample_db1, shielded_sample_wallet [1]), (api_sample_db1, shielded_sample_wallet [1])],
        [(api_sample_db2, shielded_sample_wallet [1, 2]), (api_sample_db2, shielded_sample_wallet [1, 2]),
         (api_sample_db2, shielded_sample_wallet [1, 2])]] = Some (items, index', None)
     \<and> map (\<lambda>(_, t). (ar_zswap_start_index t, ar_zswap_end_index t)) items = [(0, 2), (2, 3)]
     \<and> concat (map indices_covered (relevant_transactions_yielded items)) = [0..<unat index']"
proof -
  let ?s1 = "(api_sample_db1, shielded_sample_wallet [1])" and ?s2 = "(api_sample_db2, shielded_sample_wallet [1, 2])"
  let ?events = "[[?s1, ?s1], [?s2, ?s2, ?s2]]"
  have "shielded_later (Cloud, [5]) ?s1 ?s1" "shielded_later (Cloud, [5]) ?s2 ?s2" "shielded_later (Cloud, [5]) ?s1 ?s2"
    using api_sample_step2 by (auto simp: shielded_later_def shielded_sample_ids)
  then have grow: "growing (shielded_ok (Cloud, [5])) (shielded_later (Cloud, [5])) (concat ?events)"
    using shielded_sample_ok by simp
  have more: "length (wallet_rows [5] s) < length dbs" if "dbs \<in> set ?events" "s \<in> set dbs" for dbs s
    using that arg_cong [OF shielded_sample_rows(1), of length] arg_cong [OF shielded_sample_rows(2), of length] by auto
  have "\<exists>items index' s. shielded_stream Cloud [5] 1 0 ?events = Some (items, index', None) \<and> s \<in> set (last ?events)
    \<and> map snd items = filter (\<lambda>t. 0 \<le> ar_zswap_start_index t) (wallet_transactions (Cloud, [5]) s)
    \<and> concat (map indices_covered (relevant_transactions_yielded items)) = [unat (0 :: u64)..<unat index']"
    by (rule shielded_subscription_complete [OF grow _ _ more]) simp_all
  then obtain items index' where i: "shielded_stream Cloud [5] 1 0 ?events = Some (items, index', None)"
    "map snd items = wallet_transactions (Cloud, [5]) ?s2"
    "concat (map indices_covered (relevant_transactions_yielded items)) = [0..<unat index']" by auto
  have sp: "map (\<lambda>(_, t). (ar_zswap_start_index t, ar_zswap_end_index t)) items = [(0, 2), (2, 3)]"
    unfolding shielded_sample_spans(2) [symmetric] i(2) [symmetric] by (simp add: split_def comp_def)
  show ?thesis by (intro exI conjI) (rule i(1), rule sp, rule i(3))
qed

section \<open>A transaction that added nothing\<close>

text \<open>
  A failed transaction whose outputs the wallet can decrypt is relevant for it, and its start and end index are equal.
  As the last one of a page it leaves the cursor where it was, and the stream of pages does not end: however many pages
  are read, each one returns the transaction again.
\<close>

definition failed_tx :: transaction where
  "failed_tx = (case api_sample_tx 11 0 0 [] [] of Regular t \<Rightarrow> Regular (t\<lparr>rt_transaction_result := Failure\<rparr>) | System t \<Rightarrow> System t)"

definition failed_db :: chain_db where
  "failed_db = snd (save_block Cloud (api_sample_block 1 0) [failed_tx] [] [77] None empty_chain_db)"

lemma failed_page:
  "\<exists>t. get_relevant_transactions_page Cloud [5] (Suc b) 0 (failed_db, shielded_sample_wallet [1]) = Inr [t] \<and> ar_zswap_end_index t = 0"
  by (simp add: get_relevant_transactions_page_def join_regular_def shielded_sample_wallet_def wallet_sample_row_def failed_db_def failed_tx_def
      shielded_sample_defs)

lemma relevant_transactions_never_end:
  "get_relevant_transactions Cloud [5] 0 (Suc b) (replicate n (failed_db, shielded_sample_wallet [1])) = None"
proof -
  obtain t where t: "get_relevant_transactions_page Cloud [5] (Suc b) 0 (failed_db, shielded_sample_wallet [1]) = Inr [t]"
    "ar_zswap_end_index t = 0" using failed_page by blast
  show ?thesis unfolding get_relevant_transactions_def by (induction n) (simp_all add: t)
qed

end
