(* ===== verification/Api_Action_Stream.thy ===== *)
theory Api_Action_Stream
  imports Api_Tx_Stream
begin

text \<open>
  The subscription to the actions of a contract (\<^verbatim>\<open>indexer-api/src/infra/api/v4/subscription/contract_action.rs\<close>):
  its pages are complete, and where it starts.
\<close>

definition actions_ok :: "feature \<Rightarrow> chain_db \<Rightarrow> bool" where
  "actions_ok feat db \<longleftrightarrow> stored feat db \<and> tab_next (contract_actions db) < 2 ^ 63 - 1"

definition action_rows :: "bytes \<Rightarrow> chain_db \<Rightarrow> (i64 \<times> contract_action_row) list" where
  "action_rows address db = filter (\<lambda>(_, r). a_address r = address) (tab_rows (contract_actions db))"

definition decoded_action :: "i64 \<times> contract_action_row \<Rightarrow> api_contract_action" where
  "decoded_action = (\<lambda>(i, r). \<lparr>ac_id = word_of_int i, ac_address = a_address r, ac_state = a_state r,
     ac_attributes = a_attributes r, ac_zswap_state = a_zswap_state r, ac_transaction_id = word_of_int (a_transaction_id r)\<rparr>)"

lemma action_row:
  assumes "actions_ok feat db" and "(i, r) \<in> set (tab_rows (contract_actions db))"
  shows "0 < i" "i < 2 ^ 63 - 1" "api_contract_action_from_row (i, r) = Inr (decoded_action (i, r))" "action_block db r \<noteq> None"
proof -
  have s: "stored feat db" using assms(1) by (simp add: actions_ok_def)
  note ok = stored_ok(1,2) [OF s]
  have t: "0 < i" "0 < a_transaction_id r" using typed_rows(4) [OF ok(2) assms(2)] by blast+
  then show "0 < i" "api_contract_action_from_row (i, r) = Inr (decoded_action (i, r))"
    by (simp_all add: api_contract_action_from_row_def decoded_action_def col_ok)
  have "i < tab_next (contract_actions db)"
    using ok(1) assms(2) by (force simp: db_ok_def tables_ok_def table_ok_def list_all_iff)
  then show "i < 2 ^ 63 - 1" using assms(1) by (simp add: actions_ok_def)
  have "a_transaction_id r \<in> table_ids (transactions db)"
    using ok(1) assms(2) by (force simp: db_ok_def refs_ok_def fk_def)
  then obtain x where x: "(a_transaction_id r, x) \<in> set (tab_rows (transactions db))" by (auto simp: table_ids_def)
  have "distinct (map fst (tab_rows (transactions db)))"
    using ok(1) by (auto simp: db_ok_def tables_ok_def table_ok_def strict_sorted_iff)
  then have "row_by_id (transactions db) (a_transaction_id r) = Some x" using x by (simp add: row_by_id_def)
  then show "action_block db r \<noteq> None" using joined_block [OF ok x] by (auto simp: action_block_def)
qed

lemma decoded_action_id:
  assumes "actions_ok feat db" and "p \<in> set (tab_rows (contract_actions db))"
  shows "int (unat (ac_id (decoded_action p))) = fst p" "as_i64 (ac_id (decoded_action p) + 1) = fst p + 1"
proof -
  have p: "0 < fst p" "fst p < 2 ^ 63 - 1" using action_row(1,2) [OF assms(1), of "fst p" "snd p"] assms(2) by simp_all
  then show "int (unat (ac_id (decoded_action p))) = fst p"
    by (simp add: decoded_action_def split_def uint_word_of_int_eq take_bit_int_eq_self)
  have "ac_id (decoded_action p) + 1 = as_u64 (fst p + 1)" by (simp add: decoded_action_def split_def as_u64_def)
  then show "as_i64 (ac_id (decoded_action p) + 1) = fst p + 1" using as_i64_as_u64 [of "fst p + 1"] p by simp
qed

lemma action_rows_sorted: "actions_ok feat db \<Longrightarrow> sorted_wrt (\<lambda>x y. fst x < fst y) (tab_rows (contract_actions db))"
  using stored_ok(1) [of feat db] by (simp add: actions_ok_def db_ok_def tables_ok_def table_ok_def sorted_wrt_map)

lemma action_page_eq:
  assumes ok: "actions_ok feat db"
  shows "get_contract_actions_by_address_page address limit c db
    = Inr (take limit (filter (\<lambda>x. as_i64 c \<le> int (unat (ac_id x))) (map decoded_action (action_rows address db))))"
proof -
  let ?rows = "action_rows address db" and ?P = "\<lambda>p :: i64 \<times> contract_action_row. as_i64 c \<le> fst p"
  have sub: "p \<in> set (tab_rows (contract_actions db))" if "p \<in> set ?rows" for p using that by (simp add: action_rows_def)
  have "select_where (\<lambda>(i, r). a_address r = address \<and> as_i64 c \<le> i \<and> action_block db r \<noteq> None) (contract_actions db)
      = filter ?P ?rows"
    unfolding select_where_def action_rows_def filter_filter
    by (rule filter_cong [OF refl]) (use action_row(4) [OF ok] in \<open>auto simp: split_def\<close>)
  moreover have "sort_key fst (filter ?P ?rows) = filter ?P ?rows"
    using action_rows_sorted [OF ok]
    by (intro sort_key_id_if_sorted)
      (auto simp: sorted_map action_rows_def intro!: sorted_wrt_filter elim: sorted_wrt_mono_rel [rotated])
  ultimately have "get_contract_actions_by_address_page address limit c db
      = try_map api_contract_action_from_row (take limit (filter ?P ?rows))"
    by (simp add: get_contract_actions_by_address_page_def)
  also have "\<dots> = Inr (take limit (filter (\<lambda>x. as_i64 c \<le> int (unat (ac_id x))) (map decoded_action ?rows)))"
    by (rule try_map_take_filter) (use action_row(3) [OF ok] decoded_action_id(1) [OF ok] sub in \<open>auto simp del: of_nat_unat\<close>)
  finally show ?thesis .
qed

interpretation action_pages: keyset "\<lambda>(feat, _). actions_ok feat" "\<lambda>(feat, _). stored_later feat"
  "\<lambda>(_, address) db. map decoded_action (action_rows address db)"
  "\<lambda>x. int (unat (ac_id x))" as_i64 "\<lambda>a. ac_id a + 1" "\<lambda>(_, address). get_contract_actions_by_address_page address"
proof (unfold_locales, goal_cases)
  case (1 q db limit c)
  then show ?case using action_page_eq by (cases q) simp
next
  case (2 q db)
  obtain feat address where q: "q = (feat, address)" by (cases q)
  have "sorted_wrt (\<lambda>x y. as_i64 (ac_id (decoded_action x) + 1) \<le> int (unat (ac_id (decoded_action y)))) (tab_rows (contract_actions db))"
  proof (rule sorted_wrt_mono_rel [rotated])
    have ok: "actions_ok feat db" using 2 q by simp
    show "sorted_wrt (\<lambda>x y. fst x < fst y) (tab_rows (contract_actions db))" by (rule action_rows_sorted [OF ok])
    fix x y assume "x \<in> set (tab_rows (contract_actions db))" "y \<in> set (tab_rows (contract_actions db))" "fst x < fst y"
    then show "as_i64 (ac_id (decoded_action x) + 1) \<le> int (unat (ac_id (decoded_action y)))"
      by (simp only: decoded_action_id [OF ok])
  qed
  then show ?case using q by (simp add: sorted_wrt_map action_rows_def sorted_wrt_filter)
next
  case (3 q db x)
  then obtain feat address p where "q = (feat, address)" "actions_ok feat db" "p \<in> set (tab_rows (contract_actions db))" "x = decoded_action p"
    by (auto simp: action_rows_def)
  then show ?case by (simp add: decoded_action_id del: of_nat_unat)
next
  case (4 q db db')
  then have "prefix (tab_rows (contract_actions db)) (tab_rows (contract_actions db'))"
    using stored_later_extends [of "fst q" db db'] by (simp add: extends_def actions_ok_def split_def)
  then show ?case by (auto simp: action_rows_def split_def prefix_def)
qed

text \<open>
  Once started at a contract action id, the subscription to the actions of a contract yields every action of the
  contract with that id or a higher one exactly once and in order, however blocks are added while it reads its pages,
  and comes to rest after each event.
\<close>

theorem contract_actions_complete:
  assumes "growing (actions_ok feat) (stored_later feat) (concat events)" and "0 < batch_size" and "events \<noteq> []"
    and "\<And>dbs db. dbs \<in> set events \<Longrightarrow> db \<in> set dbs \<Longrightarrow> length (action_rows address db) < length dbs"
    and "[] \<notin> set events" and "resolve_height offset db0 = Inr height"
  shows "\<exists>items c' db. contract_actions_subscription address batch_size offset db0 events = Inr (Some (items, c', None))
    \<and> db \<in> set (last events) \<and> map snd items = map decoded_action (filter
        (\<lambda>(i, _). as_i64 (case get_contract_action_id_by_block_height height db0 of None \<Rightarrow> 0 | Some c \<Rightarrow> c) \<le> i) (action_rows address db))"
proof -
  let ?c = "case get_contract_action_id_by_block_height height db0 of None \<Rightarrow> 0 | Some c \<Rightarrow> c"
  let ?sub = "subscription (get_contract_actions_by_address_page address batch_size) (\<lambda>a. ac_id a + 1) ?c events"
  have "?sub \<noteq> None"
    using action_pages.subscription_ends [of "(feat, address)" events batch_size ?c] assms(1-5) by simp
  then obtain items c' e where sub: "?sub = Some (items, c', e)" by auto
  from action_pages.subscription_complete [of "(feat, address)" events batch_size ?c items c' e, unfolded prod.case, OF assms(1-3) sub]
  obtain db where db: "e = None" "db \<in> set (last events)" and items:
    "map snd items = filter (\<lambda>x. as_i64 ?c \<le> int (unat (ac_id x))) (map decoded_action (action_rows address db))" by blast
  have ok: "actions_ok feat db" using growingD [OF assms(1)] db(2) last_in_set [OF assms(3)] by auto
  have "map snd items = map decoded_action (filter (\<lambda>p. as_i64 ?c \<le> fst p) (action_rows address db))"
    unfolding items filter_map comp_def using decoded_action_id(1) [OF ok]
    by (intro arg_cong [where f = "map decoded_action"] filter_cong) (auto simp: action_rows_def simp del: of_nat_unat)
  with sub db assms(6) show ?thesis by (auto simp: contract_actions_subscription_def Let_def split_def)
qed

definition action_sample_tx :: transaction where
  "action_sample_tx = (case api_sample_tx 11 0 2 [] [] of
     Regular t \<Rightarrow> Regular (t\<lparr>rt_contract_actions := [\<lparr>ca_address = [9], ca_state = [1], ca_zswap_state = [2],
         ca_extracted_balances = [], ca_attributes = Deploy\<rparr>]\<rparr>)
   | System t \<Rightarrow> System t)"

definition action_sample_db :: chain_db where
  "action_sample_db = snd (save_block Cloud (api_sample_block 1 0) [action_sample_tx] [] [77] None empty_chain_db)"

lemma action_sample_save:
  "\<exists>mx. save_block Cloud (api_sample_block 1 0) [action_sample_tx] [] [77] None empty_chain_db = (Inr mx, action_sample_db)
     \<and> tab_next (transactions action_sample_db) = 2 \<and> tab_next (contract_actions action_sample_db) = 2
     \<and> map (\<lambda>(i, r). (i, a_address r)) (tab_rows (contract_actions action_sample_db)) = [(1, [9])]"
  by (simp add: action_sample_db_def action_sample_tx_def api_sample_defs sample_defs contract_action_row_of_def
      save_contract_balances_def Let_def as_i64_def)

lemma action_sample_height:
  "resolve_height (Some (HeightOffset 0)) action_sample_db = Inr 0" "get_contract_action_id_by_block_height 0 action_sample_db = Some 1"
  by (simp_all add: resolve_height_def get_block_by_height_def fetch_optional_def api_block_from_row_def select_where_def server_error_def
      some_or_client_error_def col_u64_def u64_try_from_def col_u32_def col_array_def byte_array_try_from_def col_version_def col_opt_def
      try_from_i64_def try_from_u32_def into_i64_def get_contract_action_id_by_block_height_def first_row_def action_height_where_def
      action_block_def row_by_id_def action_sample_db_def action_sample_tx_def api_sample_defs sample_defs contract_action_row_of_def
      save_contract_balances_def Let_def as_i64_def)

lemma action_sample_ok: "actions_ok Cloud action_sample_db"
proof -
  have "tx_fits action_sample_tx"
    using api_sample_fits(3) by (simp add: action_sample_tx_def api_sample_tx_def)
  moreover have "above_all (as_i64 (bl_height (api_sample_block 1 0))) b_height (blocks empty_chain_db)"
    by (simp add: above_all_def empty_chain_db_def empty_table_def)
  ultimately have "store_step Cloud empty_chain_db action_sample_db"
    using action_sample_save api_sample_fits(1) unfolding store_step_def by fastforce
  then show ?thesis using action_sample_save unfolding actions_ok_def stored_def by auto
qed

theorem contract_actions_complete_witness:
  "\<exists>items c'. contract_actions_subscription [9] 1 (Some (HeightOffset 0)) action_sample_db [[action_sample_db, action_sample_db]]
     = Inr (Some (items, c', None)) \<and> map (ac_id \<circ> snd) items = [1]"
proof -
  let ?events = "[[action_sample_db, action_sample_db]]"
  have rows: "map fst (action_rows [9] action_sample_db) = [1]"
    using action_sample_save by (auto simp: action_rows_def map_eq_Cons_conv split_def)
  have grow: "growing (actions_ok Cloud) (stored_later Cloud) (concat ?events)" using action_sample_ok by simp
  have more: "length (action_rows [9] db) < length dbs" if "dbs \<in> set ?events" "db \<in> set dbs" for dbs db
    using that arg_cong [OF rows, of length] by auto
  have "\<exists>items c' db. contract_actions_subscription [9] 1 (Some (HeightOffset 0)) action_sample_db ?events = Inr (Some (items, c', None))
    \<and> db \<in> set (last ?events) \<and> map snd items = map decoded_action (filter
        (\<lambda>(i, _). as_i64 (case get_contract_action_id_by_block_height 0 action_sample_db of None \<Rightarrow> 0 | Some c \<Rightarrow> c) \<le> i) (action_rows [9] db))"
    by (rule contract_actions_complete [OF grow _ _ more _ action_sample_height(1)]) simp_all
  then obtain items c' where i: "contract_actions_subscription [9] 1 (Some (HeightOffset 0)) action_sample_db ?events = Inr (Some (items, c', None))"
    "map snd items = map decoded_action (filter (\<lambda>p. 1 \<le> fst p) (action_rows [9] action_sample_db))"
    by (auto simp: action_sample_height(2) as_i64_def split_def)
  have "filter (\<lambda>p. 1 \<le> fst p) (action_rows [9] action_sample_db) = action_rows [9] action_sample_db"
    using rows by (auto simp: map_eq_Cons_conv)
  then have "map (ac_id \<circ> snd) items = map word_of_int (map fst (action_rows [9] action_sample_db))"
    using arg_cong [OF i(2), of "map ac_id"] by (simp add: decoded_action_def split_def)
  then show ?thesis using i(1) by (simp add: rows)
qed

text \<open>
  The start: the first contract action at or above the height. When there is none, as for the latest block if it has no
  contract action, the subscription starts at id 0 and streams the whole history of the contract.
\<close>

lemma contract_actions_from_the_first:
  assumes "resolve_height offset db0 = Inr height"
    and "list_all (\<lambda>(_, r). \<not> action_height_where (\<lambda>h. u32_as_i64 height \<le> h) db0 r) (tab_rows (contract_actions db0))"
  shows "contract_actions_subscription address batch_size offset db0 events
    = Inr (subscription (get_contract_actions_by_address_page address batch_size) (\<lambda>a. ac_id a + 1) 0 events)"
proof -
  have "get_contract_action_id_by_block_height height db0 = None"
  proof -
    have "filter (\<lambda>(_, r). action_height_where (\<lambda>h. u32_as_i64 height \<le> h) db0 r) (tab_rows (contract_actions db0)) = []"
      using assms(2) by (auto simp: filter_empty_conv list_all_iff)
    then show ?thesis by (simp add: get_contract_action_id_by_block_height_def select_where_def first_row_def)
  qed
  then show ?thesis using assms(1) by (simp add: contract_actions_subscription_def)
qed

end
