(* ===== verification/Float64.thy ===== *)
theory Float64
  imports Complex_Main "HOL-Library.Log_Nat"
begin

text \<open>
  The arithmetic of the type \<^verbatim>\<open>f64\<close> as far as the sources compute with it: an operation gives the double precision number
  nearest to the exact result, the one with the even significand when two are equally near. A finite number of the type is
  represented by its value, a rational number; a significand has 53 bits and the least exponent is that of the subnormal numbers.
  Infinities and NaN are not represented: no operation modelled with \<open>fl\<close> divides by zero or comes near \<open>2 ^ 1024\<close>.
\<close>

section \<open>Rounding to the nearest double\<close>

definition round_even :: "rat \<Rightarrow> int" where
  "round_even y =
     (let f = \<lfloor>y\<rfloor>; d = y - of_int f in
      if d < 1 / 2 then f else if 1 / 2 < d then f + 1 else if even f then f else f + 1)"

definition ilog2 :: "rat \<Rightarrow> int" where
  "ilog2 x =
     (let (p, q) = quotient_of x; k = bitlen p - bitlen q in
      if 2 powi k \<le> x then k else k - 1)"

definition ulp :: "rat \<Rightarrow> rat" where
  "ulp x = 2 powi max (- 1074) (ilog2 \<bar>x\<bar> - 52)"

definition fl :: "rat \<Rightarrow> rat" where
  "fl x = (if x = 0 then 0 else of_int (round_even (x / ulp x)) * ulp x)"

lemma round_even_error: "\<bar>of_int (round_even y) - y\<bar> \<le> 1 / 2"
proof -
  have "of_int \<lfloor>y\<rfloor> \<le> y" "y < of_int \<lfloor>y\<rfloor> + 1" using floor_correct [of y] by simp_all
  then show ?thesis unfolding round_even_def Let_def by (simp add: abs_le_iff)
qed

lemma round_even_int [simp]: "round_even (of_int i) = i"
  by (simp add: round_even_def)

lemma round_even_nonneg: "0 \<le> y \<Longrightarrow> 0 \<le> round_even y"
  unfolding round_even_def Let_def by (auto simp: zero_le_floor)

lemma powi_neg: "(2 :: rat) powi (- numeral k) = 1 / 2 ^ numeral k"
proof -
  have "(2 :: rat) powi (- numeral k) = inverse (2 powi numeral k)" by (rule power_int_minus)
  then show ?thesis by (simp only: power_int_numeral inverse_eq_divide)
qed

lemma powi_less: "(2 :: rat) powi a < 2 powi b \<Longrightarrow> a < b"
  by (metis linorder_not_less one_le_numeral power_int_increasing)

lemma bitlen_rat:
  assumes "0 < (n :: int)"
  shows "2 powi (bitlen n - 1) \<le> (of_int n :: rat)" "(of_int n :: rat) < 2 powi bitlen n"
proof -
  have b: "2 ^ nat (bitlen n - 1) \<le> n" "n < 2 ^ nat (bitlen n)" using bitlen_bounds [OF assms] by auto
  have k: "1 \<le> bitlen n" using bitlen_nonneg [of n] bitlen_eq_zero_iff [of n] assms by linarith
  have "(of_int (2 ^ nat (bitlen n - 1)) :: rat) \<le> of_int n" "(of_int n :: rat) < of_int (2 ^ nat (bitlen n))"
    using b by (simp_all only: of_int_le_iff of_int_less_iff)
  then show "2 powi (bitlen n - 1) \<le> (of_int n :: rat)" "(of_int n :: rat) < 2 powi bitlen n"
    using k by (simp_all add: power_int_def)
qed

lemma ilog2_bounds:
  assumes "0 < x"
  shows "2 powi ilog2 x \<le> x" "x < 2 powi (ilog2 x + 1)"
proof -
  obtain p q where pq: "quotient_of x = (p, q)" by (cases "quotient_of x")
  then have x: "x = of_int p / of_int q" and q: "0 < q" by (auto simp: quotient_of_div quotient_of_denom_pos)
  then have p: "0 < p" using assms by (simp add: zero_less_divide_iff)
  define P Q where "P = bitlen p" and "Q = bitlen q"
  note P = bitlen_rat [OF p, folded P_def] and Q = bitlen_rat [OF q, folded Q_def]
  have "x < 2 powi P / 2 powi (Q - 1)" unfolding x
    by (rule frac_less) (use P(2) Q(1) p in \<open>auto simp: less_imp_le\<close>)
  then have up: "x < 2 powi (P - Q + 1)" by (simp flip: power_int_diff add: algebra_simps)
  have "2 powi (P - 1) / 2 powi Q \<le> x" unfolding x
    by (rule frac_le) (use P(1) Q(2) q p in \<open>auto simp: less_imp_le\<close>)
  then have lo: "2 powi (P - Q - 1) \<le> x" by (simp flip: power_int_diff add: algebra_simps)
  have i: "ilog2 x = (if 2 powi (P - Q) \<le> x then P - Q else P - Q - 1)" by (simp add: ilog2_def pq P_def Q_def Let_def)
  show "2 powi ilog2 x \<le> x" "x < 2 powi (ilog2 x + 1)" using up lo unfolding i by auto
qed

lemma ulp_pos [simp]: "0 < ulp x"
  by (simp add: ulp_def)

section \<open>The error of a rounding\<close>

definition unit_roundoff :: rat where
  "unit_roundoff = 1 / 2 ^ 53"

definition half_least :: rat where
  "half_least = 2 powi (- 1075)"

lemma half_least_bound: "0 < half_least" "half_least \<le> unit_roundoff"
proof -
  show "0 < half_least" by (simp add: half_least_def)
  have "half_least \<le> 2 powi (- 53)" unfolding half_least_def by (rule power_int_increasing) simp_all
  then show "half_least \<le> unit_roundoff" by (simp only: unit_roundoff_def powi_neg)
qed

lemma fl_0 [simp]: "fl 0 = 0"
  by (simp add: fl_def)

lemma fl_nonneg: "0 \<le> x \<Longrightarrow> 0 \<le> fl x"
  by (simp add: fl_def round_even_nonneg less_imp_le)

lemma fl_half_ulp: "\<bar>fl x - x\<bar> \<le> ulp x / 2"
proof (cases "x = 0")
  case False
  have "fl x - x = (of_int (round_even (x / ulp x)) - x / ulp x) * ulp x" using False by (simp add: fl_def left_diff_distrib less_imp_neq [OF ulp_pos, symmetric])
  then have "\<bar>fl x - x\<bar> = \<bar>of_int (round_even (x / ulp x)) - x / ulp x\<bar> * ulp x" by (simp add: abs_mult less_imp_le)
  then show ?thesis using mult_right_mono [OF round_even_error [of "x / ulp x"], of "ulp x"] by (simp add: less_imp_le)
qed (simp add: less_imp_le)

lemma ulp_normal:
  assumes "0 < x" "- 1022 \<le> ilog2 x"
  shows "ulp x / 2 \<le> x * unit_roundoff"
proof -
  have "ulp x / 2 = 2 powi ilog2 x * unit_roundoff"
    using assms by (simp add: ulp_def unit_roundoff_def max_def power_int_diff power_int_minus)
  then show ?thesis using ilog2_bounds(1) [OF assms(1)] by (simp add: unit_roundoff_def)
qed

lemma fl_error:
  assumes "0 \<le> x"
  shows "\<bar>fl x - x\<bar> \<le> x * unit_roundoff + half_least"
proof (cases "x = 0 \<or> ilog2 x < - 1022")
  case True
  then have "x = 0 \<or> ulp x = 2 powi (- 1074)" using assms by (auto simp: ulp_def)
  moreover have "(2 :: rat) powi (- 1074) / 2 = half_least" unfolding half_least_def powi_neg by simp
  ultimately show ?thesis using fl_half_ulp [of x] assms half_least_bound by (auto simp: unit_roundoff_def less_imp_le intro: order_trans add_increasing)
next
  case False
  then have "ulp x / 2 \<le> x * unit_roundoff" using assms ulp_normal by auto
  then show ?thesis using fl_half_ulp [of x] half_least_bound(1) by linarith
qed

text \<open>Away from the subnormal numbers the error is relative.\<close>

lemma fl_relative_error:
  assumes "x = 0 \<or> 1 / 2 ^ 200 \<le> x"
  shows "\<bar>fl x - x\<bar> \<le> x * unit_roundoff"
proof (cases "x = 0")
  case False
  have x: "1 / 2 ^ 200 \<le> x" "0 < x" using assms False by (auto elim: less_le_trans [rotated])
  have "(2 :: rat) powi (- 200) < 2 powi (ilog2 x + 1)"
    using le_less_trans [OF x(1) ilog2_bounds(2) [OF x(2)]] by (simp only: powi_neg)
  then have "- 200 < ilog2 x + 1" by (rule powi_less)
  then show ?thesis using ulp_normal [OF x(2)] fl_half_ulp [of x] by linarith
qed simp

lemma fl_upper:
  assumes "x = 0 \<or> 1 / 2 ^ 200 \<le> x"
  shows "fl x \<le> x * (1 + unit_roundoff)" "x / 2 \<le> fl x"
proof -
  have "0 \<le> x" using assms by (auto intro: order_trans [rotated])
  then have "x * unit_roundoff \<le> x / 2" by (simp add: unit_roundoff_def)
  then show "fl x \<le> x * (1 + unit_roundoff)" "x / 2 \<le> fl x"
    using fl_relative_error [OF assms] by (auto simp: distrib_left abs_le_iff)
qed

lemma fl_of_int:
  assumes "0 \<le> n" "n < 2 ^ 53"
  shows "fl (of_int n) = of_int n"
proof (cases "n = 0")
  case False
  let ?x = "of_int n :: rat"
  have x: "0 < ?x" using False assms(1) by simp
  have "(2 :: rat) powi ilog2 ?x \<le> ?x" by (rule ilog2_bounds(1) [OF x])
  also have "?x < 2 powi 53" using assms(2) by (metis of_int_less_iff of_int_numeral of_int_power power_int_numeral)
  finally have "ilog2 ?x < 53" by (rule powi_less)
  then have hi: "ilog2 ?x \<le> 52" by simp
  have "(2 :: rat) powi 0 < 2 powi (ilog2 ?x + 1)" using ilog2_bounds(2) [OF x] False assms(1) by (simp add: le_less_trans [of 1 ?x])
  then have "0 < ilog2 ?x + 1" by (rule powi_less)
  then have lo: "0 \<le> ilog2 ?x" by simp
  define j where "j = nat (52 - ilog2 ?x)"
  have "- 1074 \<le> ilog2 ?x - 52" "ilog2 ?x - 52 = - int j" using hi lo by (simp_all add: j_def)
  then have "ulp ?x = 2 powi (- int j)" using x by (simp add: ulp_def max_def)
  then have "ulp ?x = 1 / 2 ^ j" by (simp add: power_int_minus inverse_eq_divide)
  then have "fl ?x = of_int (round_even (of_int (n * 2 ^ j))) / 2 ^ j" using False by (simp add: fl_def)
  then show ?thesis unfolding round_even_int by simp
qed simp

end
