(* ===== verification/Api_Quota.thy ===== *)
theory Api_Quota
  imports Prelude Float64 "HOL-Library.Multiset"
begin

text \<open>
  The quotas of subscriptions, \<^verbatim>\<open>indexer-api/src/infra/api/quota.rs\<close>: a cap on the concurrent subscriptions of a
  WebSocket connection and a token bucket for the rate at which a session creates them. The operations on the
  counter of a connection and on the bucket of a session are atomic, but not both together: \<^verbatim>\<open>try_acquire\<close>
  reserves a place, asks the bucket and gives the place back when the bucket refuses, and other subscriptions may
  come in between. The tokens are \<^verbatim>\<open>f64\<close> numbers: every operation on them is rounded by \<open>fl\<close>. An \<^verbatim>\<open>Instant\<close> is a number of
  nanoseconds. The metrics are not modelled.
\<close>

section \<open>Token bucket\<close>

record quota_config =
  max_concurrent_per_connection :: u64
  max_session_subscriptions_per_minute :: u32

datatype quota_error = PerConnection u64 | PerSessionRate u32

record token_bucket =
  tb_tokens :: rat
  tb_capacity :: rat
  tb_refill_per_sec :: rat
  tb_last_refill :: int

text \<open>
  \<^verbatim>\<open>Duration::as_secs_f64\<close> adds the whole seconds and the quotient of the remaining nanoseconds, all as doubles;
  \<^verbatim>\<open>Instant::duration_since\<close> is zero for an earlier instant.
\<close>

definition as_secs_f64 :: "int \<Rightarrow> rat" where
  "as_secs_f64 nanos = fl (fl (of_int (nanos div 10 ^ 9)) + fl (fl (of_int (nanos mod 10 ^ 9)) / fl (of_int (10 ^ 9))))"

definition new_bucket :: "quota_config \<Rightarrow> int \<Rightarrow> token_bucket" where
  "new_bucket config now =
     (let capacity = fl (of_int (uint (max_session_subscriptions_per_minute config))) in
      \<lparr>tb_tokens = capacity, tb_capacity = capacity, tb_refill_per_sec = fl (capacity / 60), tb_last_refill = now\<rparr>)"

definition try_take_at :: "int \<Rightarrow> token_bucket \<Rightarrow> bool \<times> token_bucket" where
  "try_take_at now b =
     (let elapsed = as_secs_f64 (max 0 (now - tb_last_refill b));
          tokens = min (fl (tb_tokens b + fl (elapsed * tb_refill_per_sec b))) (tb_capacity b);
          b = b\<lparr>tb_tokens := tokens, tb_last_refill := now\<rparr> in
      if 1 \<le> tokens then (True, b\<lparr>tb_tokens := fl (tokens - 1)\<rparr>) else (False, b))"

section \<open>What a request takes\<close>

text \<open>
  The true time in seconds, against which the computed one is measured, and the error of a rounding relative to the
  capacity.
\<close>

definition secs :: "int \<Rightarrow> rat" where
  "secs nanos = of_int nanos / 10 ^ 9"

definition minute_rate :: "quota_config \<Rightarrow> rat" where
  "minute_rate config = of_int (uint (max_session_subscriptions_per_minute config))"

lemma minute_rate_bounds:
  assumes "0 < max_session_subscriptions_per_minute config"
  shows "1 \<le> minute_rate config" "minute_rate config \<le> 2 ^ 32"
proof -
  let ?n = "uint (max_session_subscriptions_per_minute config)"
  have "1 \<le> ?n" using assms by (simp add: word_less_def)
  then show "1 \<le> minute_rate config" unfolding minute_rate_def by (simp only: of_int_1_le_iff)
  have "?n < 2 ^ LENGTH(32)" by (rule unsigned_less)
  then have "?n \<le> 2 ^ 32" by simp
  then show "minute_rate config \<le> 2 ^ 32" unfolding minute_rate_def by (metis of_int_le_iff of_int_numeral of_int_power)
qed

lemma capacity_exact: "fl (minute_rate config) = minute_rate config"
proof -
  have "uint (max_session_subscriptions_per_minute config) < 2 ^ LENGTH(32)" by (rule unsigned_less)
  then show ?thesis unfolding minute_rate_def by (intro fl_of_int) simp_all
qed

lemma as_secs_f64_bounds:
  assumes "0 \<le> nanos"
  shows "as_secs_f64 nanos \<le> secs nanos * (1 + unit_roundoff) ^ 2" "secs nanos / 4 \<le> as_secs_f64 nanos"
proof -
  let ?s = "of_int (nanos div 10 ^ 9) :: rat" and ?n = "of_int (nanos mod 10 ^ 9) :: rat"
  let ?e = "1 + unit_roundoff"
  have n: "nanos mod 10 ^ 9 < 10 ^ 9" by simp
  then have n53: "nanos mod 10 ^ 9 < 2 ^ 53" by (rule less_trans) simp
  have g: "fl (of_int (10 ^ 9)) = 10 ^ 9" using fl_of_int [of "10 ^ 9"] by simp
  have ns: "fl (fl ?n / fl (of_int (10 ^ 9))) = fl (?n / 10 ^ 9)" unfolding g by (subst fl_of_int) (use n53 in simp_all)
  have sn: "?s + ?n / 10 ^ 9 = secs nanos"
  proof -
    have "(of_int nanos :: rat) = of_int (10 ^ 9 * (nanos div 10 ^ 9) + nanos mod 10 ^ 9)" by simp
    also have "\<dots> = 10 ^ 9 * ?s + ?n" by (simp only: of_int_add of_int_mult of_int_power of_int_numeral)
    finally show ?thesis by (simp add: secs_def field_simps)
  qed
  have int0: "x = 0 \<or> 1 \<le> (of_int x :: rat)" if "0 \<le> x" for x using that by (auto simp: of_int_1_le_iff)
  have nn: "0 \<le> nanos div 10 ^ 9" "0 \<le> nanos mod 10 ^ 9" using assms by (simp_all add: pos_imp_zdiv_nonneg_iff)
  have s: "fl ?s \<le> ?s * ?e" "?s / 2 \<le> fl ?s" using fl_upper [of ?s] int0 [OF nn(1)] by (auto intro: order_trans)
  have "?n / 10 ^ 9 = 0 \<or> 1 / 10 ^ 9 \<le> ?n / 10 ^ 9" using int0 [OF nn(2)] by (auto simp: divide_right_mono)
  then have "?n / 10 ^ 9 = 0 \<or> 1 / 2 ^ 200 \<le> ?n / 10 ^ 9" by (auto elim: order_trans [rotated])
  note q = fl_upper [OF this]
  let ?t = "fl ?s + fl (?n / 10 ^ 9)"
  have t: "?t \<le> secs nanos * ?e" "secs nanos / 2 \<le> ?t" using s q sn by (simp_all add: distrib_right flip: sn)
  have "secs nanos = 0 \<or> 1 / 10 ^ 9 \<le> secs nanos" using int0 [OF assms] by (auto simp: secs_def divide_right_mono)
  moreover have "?t = 0" if "secs nanos = 0"
  proof -
    have "0 \<le> ?t" using nn by (simp add: fl_nonneg)
    then show ?thesis using t(1) that by simp
  qed
  ultimately have "?t = 0 \<or> 1 / 2 ^ 200 \<le> ?t" using t(2) by (auto elim!: order_trans [rotated])
  note u = fl_upper [OF this]
  have e: "0 \<le> ?e" by (simp add: unit_roundoff_def)
  show "as_secs_f64 nanos \<le> secs nanos * ?e ^ 2" unfolding as_secs_f64_def ns
    using u(1) mult_right_mono [OF t(1) e] by (simp add: power2_eq_square mult.assoc)
  show "secs nanos / 4 \<le> as_secs_f64 nanos" unfolding as_secs_f64_def ns using u(2) t(2) by simp
qed

text \<open>The tokens that a request adds, as they are computed.\<close>

lemma refill_bound:
  assumes "0 < max_session_subscriptions_per_minute config" and "0 \<le> d"
  shows "fl (as_secs_f64 d * fl (minute_rate config / 60)) \<le> secs d * (minute_rate config / 60) * (1 + unit_roundoff) ^ 4"
proof -
  let ?c = "minute_rate config / 60" and ?e = "1 + unit_roundoff"
  have c: "1 / 60 \<le> ?c" using minute_rate_bounds(1) [OF assms(1)] by simp
  then have "?c = 0 \<or> 1 / 2 ^ 200 \<le> ?c" by (auto elim: order_trans [rotated])
  note r = fl_upper [OF this]
  have r0: "0 \<le> fl ?c" "1 / 120 \<le> fl ?c" using r(2) c by simp_all
  have s0: "0 \<le> secs d" using assms(2) by (simp add: secs_def)
  have e: "1 \<le> ?e" by (simp add: unit_roundoff_def)
  have "as_secs_f64 d * fl ?c \<le> (secs d * ?e ^ 2) * (?c * ?e)"
    by (rule mult_mono [OF as_secs_f64_bounds(1) [OF assms(2)] r(1)]) (use s0 e r0 in simp_all)
  then have up: "as_secs_f64 d * fl ?c \<le> secs d * ?c * ?e ^ 3" by (simp add: power2_eq_square power3_eq_cube mult_ac)
  have "as_secs_f64 d * fl ?c = 0 \<or> 1 / 2 ^ 200 \<le> as_secs_f64 d * fl ?c"
  proof (cases "d = 0")
    case False
    then have "1 \<le> (of_int d :: rat)" using assms(2) by (simp add: of_int_1_le_iff)
    then have "1 / 10 ^ 9 \<le> secs d" by (simp add: secs_def divide_right_mono)
    then have "1 / (4 * 10 ^ 9) \<le> as_secs_f64 d" using as_secs_f64_bounds(2) [OF assms(2)] by simp
    moreover have "0 \<le> as_secs_f64 d" using as_secs_f64_bounds(2) [OF assms(2)] s0 by linarith
    ultimately have "1 / (4 * 10 ^ 9) * (1 / 120) \<le> as_secs_f64 d * fl ?c" using r0 by (intro mult_mono) simp_all
    then show ?thesis by (auto elim: order_trans [rotated])
  qed (simp add: as_secs_f64_def)
  then have "fl (as_secs_f64 d * fl ?c) \<le> as_secs_f64 d * fl ?c * ?e" by (rule fl_upper)
  also have "\<dots> \<le> (secs d * ?c * ?e ^ 3) * ?e" by (rule mult_right_mono [OF up]) (use e in simp)
  also have "\<dots> = secs d * ?c * ?e ^ 4" by (simp add: power3_eq_cube power4_eq_xxxx)
  finally show ?thesis .
qed

definition bucket_ok :: "quota_config \<Rightarrow> token_bucket \<Rightarrow> bool" where
  "bucket_ok config b \<longleftrightarrow> tb_capacity b = minute_rate config \<and> tb_refill_per_sec b = fl (minute_rate config / 60)
     \<and> 0 \<le> tb_tokens b \<and> tb_tokens b \<le> minute_rate config"

lemma new_bucket_rate:
  "new_bucket config now = \<lparr>tb_tokens = minute_rate config, tb_capacity = minute_rate config,
     tb_refill_per_sec = fl (minute_rate config / 60), tb_last_refill = now\<rparr>"
  by (simp only: new_bucket_def Let_def capacity_exact flip: minute_rate_def)

lemma new_bucket_ok: "bucket_ok config (new_bucket config now)"
proof -
  have "0 \<le> minute_rate config" unfolding minute_rate_def by (simp only: of_int_0_le_iff unsigned_greater_eq)
  then show ?thesis by (simp add: bucket_ok_def new_bucket_rate)
qed

text \<open>
  The balance of one request: what it takes and leaves is at most what was there and what the elapsed time adds, up to the
  errors of the roundings.
\<close>

lemma try_take_at:
  assumes "0 < max_session_subscriptions_per_minute config" and "bucket_ok config b" and "try_take_at now b = (a, b1)"
  defines "C \<equiv> minute_rate config" and "taken \<equiv> (if a then 1 else 0) :: rat"
  shows "bucket_ok config b1" "tb_last_refill b1 = now"
    "taken + tb_tokens b1 \<le> C + 4 * C * unit_roundoff"
    "taken + tb_tokens b1 \<le> tb_tokens b + secs (max 0 (now - tb_last_refill b)) * (C / 60) * (1 + unit_roundoff) ^ 5 + 4 * C * unit_roundoff"
proof -
  let ?u = unit_roundoff and ?h = half_least and ?p = "fl (as_secs_f64 (max 0 (now - tb_last_refill b)) * fl (C / 60))"
  let ?x = "tb_tokens b + ?p" and ?w = "secs (max 0 (now - tb_last_refill b)) * (C / 60)"
  let ?t = "min (fl ?x) C"
  have C: "1 \<le> C" "C \<le> 2 ^ 32" unfolding C_def by (rule minute_rate_bounds [OF assms(1)])+
  have u: "0 < ?u" "?u \<le> 1 / 2 ^ 33" "?h \<le> ?u" "0 < ?h" using half_least_bound by (simp_all add: unit_roundoff_def)
  have cu: "?u \<le> C * ?u" "0 \<le> C * ?u" using C u(1) by simp_all
  have b: "tb_capacity b = C" "tb_refill_per_sec b = fl (C / 60)" "0 \<le> tb_tokens b" "tb_tokens b \<le> C"
    using assms(2) by (simp_all add: bucket_ok_def C_def)
  have w: "0 \<le> ?w" using C by (simp add: secs_def)
  have p: "0 \<le> ?p" "?p \<le> ?w * (1 + ?u) ^ 4"
    using refill_bound [OF assms(1), of "max 0 (now - tb_last_refill b)"] as_secs_f64_bounds(2) [of "max 0 (now - tb_last_refill b)"] C
    by (auto simp: C_def secs_def intro!: fl_nonneg mult_nonneg_nonneg intro: order_trans [rotated])
  have x0: "0 \<le> ?x" using p b by simp
  have t0: "0 \<le> ?t" "?t \<le> C" using fl_nonneg [OF x0] C by simp_all
  have "fl ?x \<le> ?x + (?x * ?u + ?h)" using fl_error [OF x0] by (simp add: abs_le_iff)
  also have "\<dots> = tb_tokens b + ?p * (1 + ?u) + tb_tokens b * ?u + ?h" by (simp add: algebra_simps)
  also have "\<dots> \<le> tb_tokens b + ?w * (1 + ?u) ^ 4 * (1 + ?u) + C * ?u + C * ?u"
    using mult_right_mono [OF p(2), of "1 + ?u"] mult_right_mono [OF b(4), of ?u] u cu by linarith
  finally have t1: "?t \<le> tb_tokens b + ?w * (1 + ?u) ^ 5 + 2 * C * ?u" by (simp add: power4_eq_xxxx power_numeral_reduce mult_ac min_le_iff_disj)
  have b1: "b1 = b\<lparr>tb_tokens := (if a then fl (?t - 1) else ?t), tb_last_refill := now\<rparr>" "a \<longleftrightarrow> 1 \<le> ?t"
    using assms(3) b by (auto simp: try_take_at_def Let_def split: if_splits)
  have m: "0 \<le> fl (?t - 1)" "fl (?t - 1) \<le> C" "1 + fl (?t - 1) \<le> ?t + 2 * C * ?u" if a
  proof -
    have d: "0 \<le> ?t - 1" using that b1(2) by simp
    then show "0 \<le> fl (?t - 1)" by (rule fl_nonneg)
    have "fl (?t - 1) \<le> (?t - 1) + ((?t - 1) * ?u + ?h)" using fl_error [OF d] by (simp add: abs_le_iff)
    moreover have du: "(?t - 1) * ?u \<le> C * ?u" using t0(2) u(1) by simp
    moreover have "C * ?u + ?u \<le> 1" using mult_mono [OF C(2) u(2)] u C by (simp add: unit_roundoff_def)
    ultimately show "fl (?t - 1) \<le> C" "1 + fl (?t - 1) \<le> ?t + 2 * C * ?u" using t0(2) u cu by linarith+
  qed
  have taken: "taken + tb_tokens b1 \<le> ?t + 2 * C * ?u" using m(3) cu by (simp add: b1(1) taken_def)
  show "bucket_ok config b1" using assms(2) m t0 by (auto simp: bucket_ok_def b1(1) C_def)
  show "tb_last_refill b1 = now" by (simp add: b1(1))
  show "taken + tb_tokens b1 \<le> C + 4 * C * ?u" using taken t0(2) cu by linarith
  show "taken + tb_tokens b1 \<le> tb_tokens b + ?w * (1 + ?u) ^ 5 + 4 * C * ?u" using taken t1 by linarith
qed

section \<open>Concurrent subscriptions of a connection\<close>

text \<open>
  The counters of the connections, the buckets of the sessions, the calls of \<^verbatim>\<open>try_acquire\<close> between their two steps and the
  guards that are alive.
\<close>

type_synonym connection = nat
type_synonym session = bytes

record quotas =
  qu_config :: quota_config
  qu_counters :: "connection \<Rightarrow> u64"
  qu_buckets :: "session \<rightharpoonup> token_bucket"
  qu_pending :: "(connection \<times> session option) multiset"
  qu_guards :: "connection multiset"

definition new_quotas :: "quota_config \<Rightarrow> quotas" where
  "new_quotas config = \<lparr>qu_config = config, qu_counters = (\<lambda>_. 0), qu_buckets = Map.empty, qu_pending = {#}, qu_guards = {#}\<rparr>"

definition reserve :: "connection \<Rightarrow> session option \<Rightarrow> quotas \<Rightarrow> (quota_error + unit) \<times> quotas" where
  "reserve c session q =
     (let max_concurrent = max_concurrent_per_connection (qu_config q); current = qu_counters q c in
      if current < max_concurrent
      then (Inr (), q\<lparr>qu_counters := (qu_counters q)(c := current + 1), qu_pending := add_mset (c, session) (qu_pending q)\<rparr>)
      else (Inl (PerConnection max_concurrent), q))"

text \<open>
  The bucket of a session that has none is created at the instant \<open>created\<close>, before the token is asked for at the instant
  \<open>now\<close>.
\<close>

definition ask_bucket :: "int \<Rightarrow> int \<Rightarrow> session option \<Rightarrow> quotas \<Rightarrow> bool \<times> quotas" where
  "ask_bucket created now session q =
     (case session of
        None \<Rightarrow> (True, q)
      | Some s \<Rightarrow>
          let bucket = (case qu_buckets q s of None \<Rightarrow> new_bucket (qu_config q) created | Some b \<Rightarrow> b);
              (allowed, bucket) = try_take_at now bucket in
          (allowed, q\<lparr>qu_buckets := (qu_buckets q)(s \<mapsto> bucket)\<rparr>))"

definition decide :: "int \<Rightarrow> int \<Rightarrow> connection \<Rightarrow> session option \<Rightarrow> quotas \<Rightarrow> (quota_error + unit) \<times> quotas" where
  "decide created now c session q =
     (let (allowed, q) = ask_bucket created now session q;
          q = q\<lparr>qu_pending := qu_pending q - {#(c, session)#}\<rparr> in
      if allowed then (Inr (), q\<lparr>qu_guards := add_mset c (qu_guards q)\<rparr>)
      else (Inl (PerSessionRate (max_session_subscriptions_per_minute (qu_config q))),
            q\<lparr>qu_counters := (qu_counters q)(c := qu_counters q c - 1)\<rparr>))"

definition try_acquire :: "int \<Rightarrow> int \<Rightarrow> connection \<Rightarrow> session option \<Rightarrow> quotas \<Rightarrow> (quota_error + unit) \<times> quotas" where
  "try_acquire created now c session q =
     (case reserve c session q of (Inl e, q) \<Rightarrow> (Inl e, q) | (Inr _, q) \<Rightarrow> decide created now c session q)"

definition drop_guard :: "connection \<Rightarrow> quotas \<Rightarrow> quotas" where
  "drop_guard c q = q\<lparr>qu_guards := qu_guards q - {#c#}, qu_counters := (qu_counters q)(c := qu_counters q c - 1)\<rparr>"

text \<open>
  The subscriptions of the schema. Ten of the resolvers acquire a place before they stream; the three of
  \<^verbatim>\<open>bridge_events.rs\<close> do not call \<^verbatim>\<open>try_acquire\<close> and are not counted.
\<close>

datatype subscription_type =
    BlocksSub | ContractActionsSub | ContractEventsSub | DustGenerationsSub | DustLedgerEventsSub | DustNullifierTransactionsSub
  | ShieldedTransactionsSub | ShieldedNullifierTransactionsSub | UnshieldedTransactionsSub | ZswapLedgerEventsSub
  | BridgeEventsSub | BridgePoolUpdatesSub | BridgeBalanceSub

definition acquires_place :: "subscription_type \<Rightarrow> bool" where
  "acquires_place t \<longleftrightarrow> t \<notin> {BridgeEventsSub, BridgePoolUpdatesSub, BridgeBalanceSub}"

text \<open>
  The runs of the subscriptions of all connections, with those that are live: the steps of \<^verbatim>\<open>try_acquire\<close> of a subscription that
  acquires a place, the start of one that does not, and the end of a live one.
\<close>

inductive connection_run :: "quota_config \<Rightarrow> quotas \<Rightarrow> (connection \<times> subscription_type) multiset \<Rightarrow> bool" for config where
  fresh: "connection_run config (new_quotas config) {#}"
| reserving: "connection_run config q live \<Longrightarrow> connection_run config (snd (reserve c session q)) live"
| deciding: "connection_run config q live \<Longrightarrow> (c, session) \<in># qu_pending q \<Longrightarrow> acquires_place t \<Longrightarrow> decide created now c session q = (r, q')
    \<Longrightarrow> connection_run config q' (if r = Inr () then add_mset (c, t) live else live)"
| uncounted: "connection_run config q live \<Longrightarrow> \<not> acquires_place t \<Longrightarrow> connection_run config q (add_mset (c, t) live)"
| ending: "connection_run config q live \<Longrightarrow> (c, t) \<in># live
    \<Longrightarrow> connection_run config (if acquires_place t then drop_guard c q else q) (live - {#(c, t)#})"

definition places :: "connection \<Rightarrow> quotas \<Rightarrow> nat" where
  "places c q = count (image_mset fst (qu_pending q)) c + count (qu_guards q) c"

lemma ask_bucket_keeps:
  assumes "ask_bucket created now s q = (a, q')"
  shows "qu_config q' = qu_config q" "qu_counters q' = qu_counters q" "qu_pending q' = qu_pending q" "qu_guards q' = qu_guards q"
  using assms by (auto simp: ask_bucket_def Let_def split: option.splits prod.splits)

lemma pending_removed:
  assumes "(c, s) \<in># P"
  shows "count (image_mset fst (P - {#(c, s)#})) d = count (image_mset fst P) d - (if d = c then 1 else 0)"
    "0 < count (image_mset fst P) c"
proof -
  obtain Q where "P = add_mset (c, s) Q" using assms by (metis insert_DiffM)
  then show "count (image_mset fst (P - {#(c, s)#})) d = count (image_mset fst P) d - (if d = c then 1 else 0)"
    "0 < count (image_mset fst P) c" by simp_all
qed

lemma unat_Suc_less: "(w :: 'a::len word) < m \<Longrightarrow> unat (w + 1) = Suc (unat w)"
proof -
  assume "w < m"
  moreover have "unat m < 2 ^ LENGTH('a)" by (rule unsigned_less)
  ultimately have "unat w + 1 < 2 ^ LENGTH('a)" unfolding word_less_nat_alt by linarith
  then show ?thesis by (simp add: unat_word_ariths(1))
qed

lemma unat_pred: "(w :: 'a::len word) \<noteq> 0 \<Longrightarrow> unat (w - 1) = unat w - 1"
  by (rule unat_minus_one)

definition counted :: "(connection \<times> subscription_type) multiset \<Rightarrow> connection multiset" where
  "counted live = image_mset fst (filter_mset (acquires_place \<circ> snd) live)"

lemma counted_simps [simp]:
  "counted {#} = {#}" "counted (add_mset (c, t) live) = (if acquires_place t then add_mset c (counted live) else counted live)"
  by (simp_all add: counted_def)

lemma counted_remove:
  assumes "(c, t) \<in># live"
  shows "counted (live - {#(c, t)#}) = (if acquires_place t then counted live - {#c#} else counted live)"
proof -
  obtain rest where "live = add_mset (c, t) rest" using assms by (metis insert_DiffM)
  then show ?thesis by simp
qed

lemma count_counted: "count (counted live) c = size {#s \<in># live. fst s = c \<and> acquires_place (snd s)#}"
  by (induction live) (auto simp: counted_def)

lemma connection_run_guards: "connection_run config q live \<Longrightarrow> qu_guards q = counted live"
proof (induction rule: connection_run.induct)
  case (deciding q live c session t created now r q')
  obtain a q1 where a: "ask_bucket created now session q = (a, q1)" by (cases "ask_bucket created now session q")
  show ?case using deciding.hyps(3,4) deciding.IH by (auto simp: decide_def a ask_bucket_keeps [OF a] Let_def split: if_splits)
next
  case (ending q live c t)
  then show ?case by (auto simp: drop_guard_def counted_remove)
qed (auto simp: new_quotas_def reserve_def Let_def)

lemma connection_run_counters:
  assumes "connection_run config q live"
  shows "qu_config q = config \<and> (\<forall>c. unat (qu_counters q c) = places c q \<and> places c q \<le> unat (max_concurrent_per_connection config))"
  using assms
proof induction
  case fresh
  then show ?case by (simp add: new_quotas_def places_def)
next
  case (reserving q live c session)
  show ?case
  proof (cases "qu_counters q c < max_concurrent_per_connection config")
    case True
    then show ?thesis using reserving.IH unat_Suc_less [OF True]
      by (auto simp: reserve_def Let_def places_def word_less_nat_alt)
  qed (use reserving.IH in \<open>simp add: reserve_def Let_def\<close>)
next
  case (deciding q live c session t created now r q')
  note p = pending_removed [OF deciding.hyps(2)]
  have nz: "qu_counters q c \<noteq> 0" using deciding.IH p(2) by (metis places_def add_is_0 less_numeral_extra(3) unat_0)
  obtain a q1 where a: "ask_bucket created now session q = (a, q1)" by (cases "ask_bucket created now session q")
  have q': "q' = snd (decide created now c session q)" using deciding.hyps(4) by simp
  show ?case using deciding.IH p(2) unat_pred [OF nz] unfolding q'
    by (auto simp: decide_def a ask_bucket_keeps [OF a] Let_def places_def p(1) intro: le_trans [OF diff_le_self] split: if_splits)
next
  case (ending q live c t)
  show ?case
  proof (cases "acquires_place t")
    case True
    then have "c \<in># counted live" using ending.hyps(2) by (force simp: counted_def)
    then have pos: "0 < count (qu_guards q) c" using connection_run_guards [OF ending.hyps(1)] by simp
    then have "qu_counters q c \<noteq> 0" using ending.IH by (metis places_def add_is_0 less_numeral_extra(3) unat_0)
    then show ?thesis using ending.IH pos unat_pred [of "qu_counters q c"] True
      by (auto simp: drop_guard_def places_def intro: le_trans [OF diff_le_self])
  qed (use ending.IH in simp)
qed simp

text \<open>
  C39. However the calls of \<^verbatim>\<open>try_acquire\<close> and the ends of subscriptions on all connections interleave, the counter of a
  connection is the number of its places taken, so that it never underflows, and no connection ever has more live
  subscriptions of the ten types that acquire a place than the configured maximum. The three bridge subscriptions acquire none and
  are not bounded (\<open>bridge_subscriptions_uncapped\<close>), although the documentation of the module speaks of all subscription types.
\<close>

theorem connection_cap_kept:
  assumes "connection_run config q live"
  shows "unat (qu_counters q c) = places c q
    \<and> size {#s \<in># live. fst s = c \<and> acquires_place (snd s)#} \<le> unat (max_concurrent_per_connection config)"
proof -
  have "places c q \<le> unat (max_concurrent_per_connection config)" "unat (qu_counters q c) = places c q"
    using connection_run_counters [OF assms] by simp_all
  moreover have "count (qu_guards q) c \<le> places c q" by (simp add: places_def)
  ultimately show ?thesis using connection_run_guards [OF assms] count_counted [of live c] by simp
qed

lemma bridge_subscriptions_uncapped: "connection_run config (new_quotas config) (replicate_mset n (c, BridgeEventsSub))"
  by (induction n) (auto intro: connection_run.intros simp: acquires_place_def)

lemma try_acquire_run:
  assumes "connection_run config q live" "acquires_place t" "try_acquire created now c session q = (r, q')"
  shows "connection_run config q' (if r = Inr () then add_mset (c, t) live else live)"
proof -
  obtain e q1 where e: "reserve c session q = (e, q1)" by (cases "reserve c session q")
  have q1: "connection_run config q1 live" using connection_run.reserving [OF assms(1), of c session] e by simp
  show ?thesis
  proof (cases e)
    case (Inr u)
    then have "(c, session) \<in># qu_pending q1" using e by (auto simp: reserve_def Let_def split: if_splits)
    then show ?thesis using connection_run.deciding [OF q1 _ assms(2)] e Inr assms(3) by (simp add: try_acquire_def)
  qed (use q1 e assms(3) in \<open>auto simp: try_acquire_def\<close>)
qed

theorem connection_cap_kept_witness:
  "let q = snd (try_acquire 0 0 7 None (new_quotas \<lparr>max_concurrent_per_connection = 1, max_session_subscriptions_per_minute = 2\<rparr>));
       live = {#(7, BlocksSub), (7, BridgeBalanceSub)#} in
   unat (qu_counters q 7) = places 7 q \<and> size {#s \<in># live. fst s = 7 \<and> acquires_place (snd s)#} \<le> 1"
proof -
  let ?config = "\<lparr>max_concurrent_per_connection = 1, max_session_subscriptions_per_minute = 2\<rparr>"
  obtain r q where r: "try_acquire 0 0 7 None (new_quotas ?config) = (r, q)" by (cases "try_acquire 0 0 7 None (new_quotas ?config)")
  have "r = Inr ()" using r by (auto simp: try_acquire_def reserve_def decide_def ask_bucket_def new_quotas_def Let_def)
  then have "connection_run ?config q {#(7, BlocksSub)#}"
    using try_acquire_run [OF connection_run.fresh _ r, of BlocksSub] by (simp add: acquires_place_def)
  then have "connection_run ?config q {#(7, BridgeBalanceSub), (7, BlocksSub)#}"
    using connection_run.uncounted [of ?config q "{#(7, BlocksSub)#}" BridgeBalanceSub 7] by (simp add: acquires_place_def)
  from connection_cap_kept [OF this, of 7] show ?thesis unfolding Let_def r snd_conv by (simp add: acquires_place_def)
qed

section \<open>The rate of a session\<close>

text \<open>
  The atomic steps of all calls in the order in which they happen, and what they answer: the places that are reserved, the
  decisions of the buckets (a bucket is created, if need be, and asked at the given instants) and the drops of guards.
\<close>

datatype quota_op = Reserve connection "session option" | Decide int int connection "session option" | DropGuard connection

fun quota_step :: "quota_op \<Rightarrow> quotas \<Rightarrow> (quota_error + unit) \<times> quotas" where
  "quota_step (Reserve c session) q = reserve c session q"
| "quota_step (Decide created now c session) q = decide created now c session q"
| "quota_step (DropGuard c) q = (Inr (), drop_guard c q)"

definition quota_steps :: "quota_op list \<Rightarrow> quotas \<Rightarrow> quotas" where
  "quota_steps ops q = fold (\<lambda>op q. snd (quota_step op q)) ops q"

fun asks :: "session \<Rightarrow> quota_op \<Rightarrow> int option" where
  "asks s (Decide created now c session) = (if session = Some s then Some now else None)"
| "asks s _ = None"

text \<open>The instants at which subscriptions of a session are asked for, and how many of them are granted.\<close>

definition instants :: "session \<Rightarrow> quota_op list \<Rightarrow> int list" where
  "instants s ops = List.map_filter (asks s) ops"

definition span :: "int list \<Rightarrow> int" where
  "span ts = (if ts = [] then 0 else last ts - hd ts)"

fun granted :: "session \<Rightarrow> quota_op list \<Rightarrow> quotas \<Rightarrow> nat" where
  "granted s [] q = 0"
| "granted s (op # ops) q =
     (let (r, q') = quota_step op q in (if asks s op \<noteq> None \<and> r = Inr () then 1 else 0) + granted s ops q')"

definition bucket_at :: "quota_config \<Rightarrow> session \<Rightarrow> int \<Rightarrow> quotas \<Rightarrow> token_bucket" where
  "bucket_at config s created q = (case qu_buckets q s of None \<Rightarrow> new_bucket config created | Some b \<Rightarrow> b)"

definition session_ok :: "quota_config \<Rightarrow> session \<Rightarrow> quotas \<Rightarrow> bool" where
  "session_ok config s q \<longleftrightarrow> qu_config q = config \<and> (\<forall>b. qu_buckets q s = Some b \<longrightarrow> bucket_ok config b)"

lemma quota_step_other:
  assumes "asks s op = None"
  shows "qu_buckets (snd (quota_step op q)) s = qu_buckets q s" "qu_config (snd (quota_step op q)) = qu_config q"
  using assms by (cases op; auto simp: reserve_def decide_def ask_bucket_def drop_guard_def Let_def split: option.splits prod.splits if_splits)+

lemma quota_step_asks:
  assumes "asks s op = Some now" and "qu_config q = config"
  obtains created a b1 where "try_take_at now (bucket_at config s created q) = (a, b1)"
    "qu_buckets (snd (quota_step op q)) s = Some b1" "qu_config (snd (quota_step op q)) = config" "fst (quota_step op q) = Inr () \<longleftrightarrow> a"
proof -
  obtain created c where op: "op = Decide created now c (Some s)" using assms(1) by (cases op) (auto split: if_splits)
  obtain a b1 where a: "try_take_at now (bucket_at config s created q) = (a, b1)" by (cases "try_take_at now (bucket_at config s created q)")
  show thesis by (rule that [OF a]) (use a assms(2) in \<open>auto simp: op decide_def ask_bucket_def bucket_at_def Let_def split: option.splits\<close>)
qed

lemma session_ok_step:
  assumes "0 < max_session_subscriptions_per_minute config" and "session_ok config s q"
  shows "session_ok config s (snd (quota_step op q))"
proof (cases "asks s op")
  case None
  then show ?thesis using assms(2) quota_step_other [OF None, of q] by (simp add: session_ok_def)
next
  case (Some now)
  have c: "qu_config q = config" using assms(2) by (simp add: session_ok_def)
  obtain created a b1 where t: "try_take_at now (bucket_at config s created q) = (a, b1)"
    "qu_buckets (snd (quota_step op q)) s = Some b1" "qu_config (snd (quota_step op q)) = config" "fst (quota_step op q) = Inr () \<longleftrightarrow> a"
    by (rule quota_step_asks [OF Some c])
  have "bucket_ok config (bucket_at config s created q)" using assms(2) new_bucket_ok by (simp add: bucket_at_def session_ok_def split: option.split)
  from try_take_at(1) [OF assms(1) this t(1)] show ?thesis using t by (simp add: session_ok_def)
qed

lemma session_ok_steps:
  assumes "0 < max_session_subscriptions_per_minute config" and "session_ok config s q"
  shows "session_ok config s (quota_steps ops q)"
  using assms(2) unfolding quota_steps_def
  by (induction ops arbitrary: q) (simp_all add: session_ok_step [OF assms(1)])

text \<open>What a session is granted and has left, from a state in which it has a bucket.\<close>

lemma granted_balance:
  assumes "0 < max_session_subscriptions_per_minute config" and "session_ok config s q" and "qu_buckets q s = Some b"
    and "sorted (tb_last_refill b # instants s ops)"
  defines "C \<equiv> minute_rate config"
  shows "of_nat (granted s ops q) \<le> tb_tokens b
    + secs (last (tb_last_refill b # instants s ops) - tb_last_refill b) * (C / 60) * (1 + unit_roundoff) ^ 5
    + of_nat (length (instants s ops)) * (4 * C * unit_roundoff)"
  using assms(2-4)
proof (induction ops arbitrary: q b)
  case Nil
  then show ?case by (simp add: instants_def secs_def session_ok_def bucket_ok_def map_filter_def)
next
  case (Cons op ops)
  let ?q = "snd (quota_step op q)" and ?u = unit_roundoff
  have ok: "session_ok config s ?q" by (rule session_ok_step [OF assms(1) Cons.prems(1)])
  show ?case
  proof (cases "asks s op")
    case None
    have "instants s (op # ops) = instants s ops" by (simp add: instants_def map_filter_simps None)
    moreover have "granted s (op # ops) q = granted s ops ?q" by (simp add: None split_beta)
    ultimately show ?thesis using Cons.IH [OF ok, of b] Cons.prems(2,3) quota_step_other(1) [OF None, of q] by simp
  next
    case (Some now)
    have c: "qu_config q = config" using Cons.prems(1) by (simp add: session_ok_def)
    obtain created a b1 where t: "try_take_at now (bucket_at config s created q) = (a, b1)"
      "qu_buckets ?q s = Some b1" "qu_config ?q = config" "fst (quota_step op q) = Inr () \<longleftrightarrow> a"
      by (rule quota_step_asks [OF Some c])
    have b: "bucket_at config s created q = b" "bucket_ok config b" using Cons.prems(1,2) by (simp_all add: bucket_at_def session_ok_def)
    note take = try_take_at [OF assms(1) b(2) t(1) [unfolded b(1)], folded C_def]
    have i: "instants s (op # ops) = now # instants s ops" by (simp add: instants_def map_filter_simps Some)
    let ?e = "last (now # instants s ops)" and ?k = "C / 60 * (1 + ?u) ^ 5"
    have s: "tb_last_refill b \<le> now" "now \<le> ?e" "sorted (tb_last_refill b1 # instants s ops)"
      using Cons.prems(3) take(2) by (auto simp: i)
    have g: "granted s (op # ops) q = (if a then 1 else 0) + granted s ops ?q" by (simp add: Some t(4) split_beta)
    have sec: "secs (now - tb_last_refill b) + secs (?e - now) = secs (?e - tb_last_refill b)"
      using s(1,2) by (simp add: secs_def flip: add_divide_distrib)
    have "of_nat (granted s ops ?q) \<le> tb_tokens b1 + secs (?e - now) * ?k + of_nat (length (instants s ops)) * (4 * C * ?u)"
      using Cons.IH [OF ok t(2) s(3)] take(2) by (simp add: mult.assoc)
    moreover have "(if a then 1 else 0) + tb_tokens b1 \<le> tb_tokens b + secs (now - tb_last_refill b) * ?k + 4 * C * ?u"
      using take(4) s(1) by (simp add: mult.assoc)
    ultimately have "of_nat (granted s (op # ops) q) \<le> tb_tokens b + (secs (now - tb_last_refill b) * ?k + secs (?e - now) * ?k)
        + (4 * C * ?u + of_nat (length (instants s ops)) * (4 * C * ?u))"
      unfolding g by (simp split: if_splits)
    also have "secs (now - tb_last_refill b) * ?k + secs (?e - now) * ?k = secs (?e - tb_last_refill b) * ?k"
      unfolding sec [symmetric] by (rule distrib_right [symmetric])
    finally show ?thesis by (simp add: i mult.assoc algebra_simps)
  qed
qed

lemma balance_trans: "x \<le> t + w + n \<Longrightarrow> w \<le> w' \<Longrightarrow> y + t \<le> c + d \<Longrightarrow> y + x \<le> c + w' + (d + n)" for x :: rat
  by linarith

lemma roundoff_5: "(1 + unit_roundoff) ^ 5 \<le> 1 + 1 / 2 ^ 50"
  by (simp add: unit_roundoff_def field_simps)

text \<open>
  C40. A session never creates subscriptions faster than its rate allows, with the tokens computed in double precision: among the
  requests of a session in any window of the run, interleaved in any way with the reservations and drops of all connections and
  with the requests of other sessions, at most one burst of the configured number and that number for every minute between the first
  and the last of the requests are granted, up to a relative rounding error of \<open>2 ^ -50\<close> of the time and of \<open>2 ^ -51\<close> of the
  configured number for each request. The clock must not run backwards within the window, and the configured number is not zero
  (a \<^verbatim>\<open>NonZeroU32\<close> in the code).
\<close>

theorem session_rate_limited:
  assumes "0 < max_session_subscriptions_per_minute config" and "sorted (instants s window)"
  shows "of_nat (granted s window (quota_steps before (new_quotas config)))
    \<le> minute_rate config * (1 + secs (span (instants s window)) / 60 * (1 + 1 / 2 ^ 50)
      + of_nat (length (instants s window)) / 2 ^ 51)"
proof -
  let ?C = "minute_rate config" and ?u = unit_roundoff
  have C: "1 \<le> ?C" by (rule minute_rate_bounds(1) [OF assms(1)])
  have "session_ok config s (new_quotas config)" by (simp add: session_ok_def new_quotas_def)
  then have "session_ok config s (quota_steps before (new_quotas config))" by (rule session_ok_steps [OF assms(1)])
  then show ?thesis using assms(2)
  proof (induction window arbitrary: before)
    case Nil
    then show ?case using C by (simp add: instants_def secs_def span_def map_filter_def)
  next
    case (Cons op ops)
    let ?start = "quota_steps before (new_quotas config)"
    let ?q = "snd (quota_step op ?start)"
    have steps: "quota_steps (before @ [op]) (new_quotas config) = ?q" by (simp add: quota_steps_def)
    have ok: "session_ok config s ?q" by (rule session_ok_step [OF assms(1) Cons.prems(1)])
    show ?case
    proof (cases "asks s op")
      case None
      have "instants s (op # ops) = instants s ops" by (simp add: instants_def map_filter_simps None)
      moreover have "granted s (op # ops) ?start = granted s ops ?q" by (simp add: None split_beta)
      ultimately show ?thesis using Cons.IH [of "before @ [op]"] ok Cons.prems(2) by (simp only: steps)
    next
      case (Some now)
      have c: "qu_config ?start = config" using Cons.prems(1) by (simp add: session_ok_def)
      obtain created a b1 where t: "try_take_at now (bucket_at config s created ?start) = (a, b1)"
        "qu_buckets ?q s = Some b1" "qu_config ?q = config" "fst (quota_step op ?start) = Inr () \<longleftrightarrow> a"
        by (rule quota_step_asks [OF Some c])
      have "bucket_ok config (bucket_at config s created ?start)"
        using Cons.prems(1) new_bucket_ok by (simp add: bucket_at_def session_ok_def split: option.split)
      note take = try_take_at [OF assms(1) this t(1)]
      have i: "instants s (op # ops) = now # instants s ops" by (simp add: instants_def map_filter_simps Some)
      have g: "granted s (op # ops) ?start = (if a then 1 else 0) + granted s ops ?q" by (simp add: Some t(4) split_beta)
      let ?w = "secs (last (now # instants s ops) - now) * (?C / 60)" and ?n = "of_nat (length (instants s ops)) :: rat"
      have "of_nat (granted s ops ?q) \<le> tb_tokens b1 + ?w * (1 + ?u) ^ 5 + ?n * (4 * ?C * ?u)"
        using granted_balance [OF assms(1) ok t(2)] take(2) Cons.prems(2) by (simp add: i)
      moreover have "?w * (1 + ?u) ^ 5 \<le> ?w * (1 + 1 / 2 ^ 50)"
        by (rule mult_left_mono [OF roundoff_5]) (use C Cons.prems(2) in \<open>simp add: secs_def i\<close>)
      ultimately have "(if a then 1 else 0) + of_nat (granted s ops ?q) \<le> ?C + ?w * (1 + 1 / 2 ^ 50) + (4 * ?C * ?u + ?n * (4 * ?C * ?u))"
        using take(3) by (rule balance_trans)
      then have "of_nat (granted s (op # ops) ?start) \<le> ?C + ?w * (1 + 1 / 2 ^ 50) + (1 + ?n) * (4 * ?C * ?u)"
        unfolding g by (simp add: distrib_right split: if_splits)
      also have "\<dots> = ?C * (1 + secs (last (now # instants s ops) - now) / 60 * (1 + 1 / 2 ^ 50) + (1 + ?n) / 2 ^ 51)"
        by (simp add: unit_roundoff_def field_simps)
      finally show ?thesis unfolding i by (simp add: span_def)
    qed
  qed
qed

text \<open>Two subscriptions a minute, asked for four times within 31 seconds.\<close>

theorem session_rate_limited_witness:
  "let config = \<lparr>max_concurrent_per_connection = 5, max_session_subscriptions_per_minute = 2\<rparr>;
       asked = (\<lambda>t. [Reserve 7 (Some [9]), Decide t t 7 (Some [9])]);
       window = asked (2 * 10 ^ 9) @ asked (2 * 10 ^ 9) @ [Decide 3 3 8 (Some [1])] @ asked (3 * 10 ^ 9) @ asked (33 * 10 ^ 9) in
   instants [9] window = [2 * 10 ^ 9, 2 * 10 ^ 9, 3 * 10 ^ 9, 33 * 10 ^ 9]
   \<and> (of_nat (granted [9] window (quota_steps (asked (10 ^ 9)) (new_quotas config))) :: rat)
     \<le> 2 * (1 + 31 / 60 * (1 + 1 / 2 ^ 50) + 4 / 2 ^ 51)"
proof -
  let ?config = "\<lparr>max_concurrent_per_connection = 5, max_session_subscriptions_per_minute = 2\<rparr>"
  let ?asked = "\<lambda>t. [Reserve 7 (Some [9]), Decide t t 7 (Some [9])]"
  let ?window = "?asked (2 * 10 ^ 9) @ ?asked (2 * 10 ^ 9) @ [Decide 3 3 8 (Some [1])] @ ?asked (3 * 10 ^ 9) @ ?asked (33 * 10 ^ 9)"
  let ?times = "[2 * 10 ^ 9, 2 * 10 ^ 9, 3 * 10 ^ 9, 33 * 10 ^ 9] :: int list"
  have i: "instants [9] ?window = ?times" by (simp add: instants_def map_filter_simps)
  have r: "minute_rate ?config = 2" "secs (span ?times) = 31" by (simp_all add: minute_rate_def secs_def span_def)
  have "(of_nat (granted [9] ?window (quota_steps (?asked (10 ^ 9)) (new_quotas ?config))) :: rat)
     \<le> minute_rate ?config * (1 + secs (span ?times) / 60 * (1 + 1 / 2 ^ 50) + of_nat (length ?times) / 2 ^ 51)"
    using session_rate_limited [of ?config "[9]" ?window "?asked (10 ^ 9)"] unfolding i by simp
  also have "\<dots> = 2 * (1 + 31 / 60 * (1 + 1 / 2 ^ 50) + 4 / 2 ^ 51)" unfolding r by simp
  finally show ?thesis unfolding Let_def using i by simp
qed

end
