(* ===== verification/Api_Event_Types.thy ===== *)
theory Api_Event_Types
  imports Api_Types
begin

text \<open>
  The tables of ledger events, nullifiers, dust generations and bridge events hold typed rows: what
  \<^verbatim>\<open>save_block\<close> of the chain indexer writes there is what the API's queries for events, dust and the bridge decode.
\<close>

section \<open>Typed rows\<close>

definition event_typed :: "ledger_event_row \<Rightarrow> bool" where
  "event_typed r \<longleftrightarrow> 0 < e_transaction_id r \<and> e_variant r = ledger_event_variant_from (e_attributes r)
     \<and> e_grouping r = grouping_of (e_attributes r) \<and> (e_grouping r = Contract \<longrightarrow> e_contract_address r \<noteq> None)"

definition generation_typed :: "dust_generation_row \<Rightarrow> bool" where
  "generation_typed r \<longleftrightarrow> length (g_value r) = 16 \<and> length (g_initial_value r) = 16 \<and> 0 \<le> g_merkle_index r
     \<and> 0 \<le> g_generation_index r \<and> g_generation_index r < 2 ^ 63 \<and> 0 \<le> g_ctime r \<and> 0 < g_transaction_id r"

definition bridge_typed :: "bridge_event_row \<Rightarrow> bool" where
  "bridge_typed r \<longleftrightarrow> length (ber_midnight_tx_hash r) = 32 \<and> (\<forall>h. ber_mc_tx_hash r = Some h \<longrightarrow> length h = 32)
     \<and> (\<forall>b. ber_recipient r = Some b \<longrightarrow> length b \<le> BRIDGE_RECIPIENT_MAX_BYTES) \<and> length (ber_amount r) = 8"

record event_view =
  w_events :: "ledger_event_row table"
  w_generations :: "dust_generation_row table"
  w_dust_nullifiers :: "nullifier_row table"
  w_zswap_nullifiers :: "nullifier_row table"
  w_bridge :: "bridge_event_row table"

definition eview :: "chain_db \<Rightarrow> event_view" where
  "eview db = \<lparr>w_events = ledger_events db, w_generations = dust_generation_infos db, w_dust_nullifiers = dust_nullifiers db,
     w_zswap_nullifiers = zswap_nullifiers db, w_bridge = bridge_events db\<rparr>"

definition rows_typed :: "('r \<Rightarrow> bool) \<Rightarrow> 'r table \<Rightarrow> bool" where
  "rows_typed p t \<longleftrightarrow> rows_all p t \<and> 0 < tab_next t"

definition etyped :: "event_view \<Rightarrow> bool" where
  "etyped v \<longleftrightarrow> rows_typed event_typed (w_events v) \<and> rows_typed generation_typed (w_generations v)
     \<and> rows_typed (\<lambda>r. n_commitment r \<noteq> None) (w_dust_nullifiers v) \<and> rows_typed (\<lambda>_. True) (w_zswap_nullifiers v)
     \<and> rows_typed bridge_typed (w_bridge v)"

section \<open>Saving keeps them typed\<close>

lemma rows_typed_insert: "rows_typed p t \<Longrightarrow> p r \<Longrightarrow> rows_typed p (snd (insert_row r t))"
  using rows_all_add [of t p "[r]"] by (simp add: rows_typed_def add_row)

lemma rows_typed_inserts: "rows_typed p t \<Longrightarrow> list_all p rs \<Longrightarrow> rows_typed p (snd (insert_rows rs t))"
  using rows_all_add [of t p rs] by (simp add: rows_typed_def add_rows_def)

lemma rows_typed_update: "rows_typed p t \<Longrightarrow> (\<And>r. p r \<Longrightarrow> p (f r)) \<Longrightarrow> rows_typed p (snd (update_where q f t))"
  by (auto simp: rows_typed_def update_where_def list_all_iff split: if_splits)

lemma eview_other [simp]:
  "eview (db\<lparr>blocks := x0\<rparr>) = eview db" "eview (db\<lparr>transactions := x1\<rparr>) = eview db"
  "eview (db\<lparr>regular_transactions := x2\<rparr>) = eview db" "eview (db\<lparr>transaction_identifiers := x3\<rparr>) = eview db"
  "eview (db\<lparr>contract_actions := x4\<rparr>) = eview db" "eview (db\<lparr>contract_balances := x5\<rparr>) = eview db"
  "eview (db\<lparr>unshielded_utxos := x6\<rparr>) = eview db" "eview (db\<lparr>indexed_fields := x7\<rparr>) = eview db"
  "eview (db\<lparr>cnight_registrations := x8\<rparr>) = eview db" "eview (db\<lparr>system_parameters_d := x9\<rparr>) = eview db"
  "eview (db\<lparr>system_parameters_tc := x10\<rparr>) = eview db" "eview (db\<lparr>bridge_claims := x11\<rparr>) = eview db"
  by (simp_all add: eview_def)

lemma eview_untouched [simp]:
  "eview (save_identifiers ids tid db) = eview db" "eview (save_bridge_claim tid c db) = eview db"
  "eview (save_dust_registration_events regs bid ts db) = eview db" "eview (save_system_parameters_change ch db) = eview db"
  by (auto simp: save_identifiers_def save_bridge_claim_def save_dust_registration_events_def
      save_system_parameters_change_def Let_def split: option.splits)

lemma eview_set:
  "eview (db\<lparr>ledger_events := t\<rparr>) = (eview db)\<lparr>w_events := t\<rparr>"
  by (simp add: eview_def)

lemma eview_save_indexed_fields [simp]: "eview (save_contract_event_indexed_fields es ids db) = eview db"
  by (simp add: save_contract_event_indexed_fields_def Let_def)

lemma eview_save_contract_actions: "save_contract_actions as tid db = Inr (ids, db') \<Longrightarrow> eview db' = eview db"
  by (auto simp: save_contract_actions_def save_contract_balances_def Let_def split_def res_simps insert_unique_Inr split: if_splits)

lemma eview_save_created: "save_created_unshielded_utxos us tid db = Inr db' \<Longrightarrow> eview db' = eview db"
  by (auto simp: save_created_unshielded_utxos_def res_simps insert_unique_Inr split: if_splits)

lemma eview_save_spent: "save_spent_unshielded_utxos us tid db = Inr db' \<Longrightarrow> eview db' = eview db"
  by (auto simp: save_spent_def2 Let_def split_def split: if_splits)

lemma etyped_save_ledger_events:
  assumes "save_ledger_events es as aids tid db = Inr db'" and "etyped (eview db)" "list_all event_fits es" "0 < tid"
  shows "etyped (eview db')"
proof -
  let ?rows = "map (\<lambda>(e, c). ledger_event_row_of tid e c) (zip es (correlate_contract_action_ids es as aids))"
  have "list_all event_typed ?rows"
    using assms(3,4) by (auto simp: list_all_iff event_typed_def ledger_event_row_of_def event_fits_def dest!: set_zip_leftD)
  moreover have "eview db' = eview db \<or> eview db' = (eview db)\<lparr>w_events := snd (insert_rows ?rows (ledger_events db))\<rparr>"
    using assms(1) unfolding save_ledger_events_def Let_def split_def
    by (simp split: if_splits) (auto simp: eview_set)
  ultimately show ?thesis using assms(2) rows_typed_inserts by (auto simp: etyped_def eview_def)
qed

lemma etyped_save_dust_generation_info:
  assumes "etyped (eview db)" "list_all event_fits es" "0 < tid"
  shows "etyped (eview (save_dust_generation_info es tid db))"
proof -
  have step: "etyped (eview (save_dust_generation_event tid e db))" if "etyped (eview db)" "event_fits e" for e db
  proof (cases "le_attributes e")
    case (DustInitialUtxo out info index)
    have "generation_typed (dust_generation_row_of tid out info index)"
      using that(2) assms(3) as_i64_upper [of index] DustInitialUtxo
      by (simp add: generation_typed_def dust_generation_row_of_def event_fits_def fits_nonneg U128BeBytes_length)
    then show ?thesis using that(1) DustInitialUtxo
      by (simp add: save_dust_generation_event_def etyped_def eview_def rows_typed_insert)
  next
    case (DustGenerationDtimeUpdate info index path)
    have "generation_typed (r\<lparr>g_dtime := x\<rparr>)" if "generation_typed r" for r x using that by (simp add: generation_typed_def)
    then show ?thesis using that(1) DustGenerationDtimeUpdate
      by (simp add: save_dust_generation_event_def etyped_def eview_def rows_typed_update)
  qed (use that in \<open>simp_all add: save_dust_generation_event_def\<close>)
  have "etyped (eview (fold (save_dust_generation_event tid) es db))"
    using assms(1,2) step by (induction es arbitrary: db) auto
  then show ?thesis using assms(1) by (simp add: save_dust_generation_info_def)
qed

lemma etyped_save_nullifiers:
  assumes "etyped (eview db)"
  shows "etyped (eview (save_dust_nullifiers es tid bid db))" "etyped (eview (save_zswap_nullifiers es tid bid db))"
  using assms
  by (auto simp: save_dust_nullifiers_def save_zswap_nullifiers_def Let_def etyped_def eview_def list_all_iff intro!: rows_typed_inserts)

lemma etyped_save_bridge_events:
  assumes "etyped (eview db)" and "list_all bridge_event_fits es"
  shows "etyped (eview (save_bridge_events es bid db))"
proof -
  have "etyped (eview (save_bridge_event bid e db))" if "etyped (eview db)" "bridge_event_fits e" for e db
    using that by (auto simp: save_bridge_event_def etyped_def eview_def bridge_typed_def bridge_event_fits_def intro!: rows_typed_insert)
  then have "etyped (eview (fold (save_bridge_event bid) es db))" using assms by (induction es arbitrary: db) auto
  then show ?thesis by (simp add: save_bridge_events_def)
qed

lemma etyped_save_transaction:
  assumes "save_transaction feat bid (h, db) t = Inr (h', db')" and "etyped (eview db)" "tx_fits t" "0 < tab_next (transactions db)"
  shows "etyped (eview db')"
proof (cases t)
  case (Regular r)
  let ?tid = "tab_next (transactions db)"
  let ?db1 = "db\<lparr>transactions := snd (insert_row (transaction_row_of bid t) (transactions db)),
     regular_transactions := regular_transactions db @ [regular_transaction_row_of feat ?tid r]\<rparr>"
  let ?db2 = "if feat = Standalone then save_identifiers (rt_identifiers r) ?tid ?db1 else ?db1"
  obtain aids db3 db4 db5 db6 where
        s: "save_contract_actions (rt_contract_actions r) ?tid ?db2 = Inr (aids, db3)"
           "save_created_unshielded_utxos (rt_created_unshielded_utxos r) ?tid db3 = Inr db4"
           "save_spent_unshielded_utxos (rt_spent_unshielded_utxos r) ?tid db4 = Inr db5"
    and s6: "save_ledger_events (rt_ledger_events r) (rt_contract_actions r) aids ?tid db5 = Inr db6"
    and db': "db' = (let db = save_dust_generation_info (rt_ledger_events r) ?tid db6;
              db = save_dust_nullifiers (rt_ledger_events r) ?tid bid db;
              db = save_zswap_nullifiers (rt_ledger_events r) ?tid bid db
          in case rt_bridge_claim r of None \<Rightarrow> db | Some claim \<Rightarrow> save_bridge_claim ?tid claim db)"
    using assms(1) Regular
    by (auto simp: save_transaction_def save_regular_transaction_def Let_def split_def insert_row_simps res_simps split: if_splits)
  have "eview db5 = eview db"
    using eview_save_contract_actions [OF s(1)] eview_save_created [OF s(2)] eview_save_spent [OF s(3)] by simp
  moreover have fits: "list_all event_fits (rt_ledger_events r)" using assms(3) Regular by simp
  ultimately have "etyped (eview db6)" using etyped_save_ledger_events [OF s6] assms(2,4) by simp
  then have "etyped (eview (save_dust_generation_info (rt_ledger_events r) ?tid db6))"
    using etyped_save_dust_generation_info fits assms(4) by blast
  then show ?thesis using etyped_save_nullifiers by (simp add: db' Let_def split: option.splits)
next
  case (System s)
  let ?tid = "tab_next (transactions db)"
  let ?db1 = "db\<lparr>transactions := snd (insert_row (transaction_row_of bid t) (transactions db))\<rparr>"
  obtain db1 db2 where s: "save_created_unshielded_utxos (st_created_unshielded_utxos s) ?tid ?db1 = Inr db1"
    "save_ledger_events (st_ledger_events s) [] [] ?tid db1 = Inr db2"
    "db' = save_dust_generation_info (st_ledger_events s) ?tid db2"
    using assms(1) System by (auto simp: save_transaction_def save_system_transaction_def Let_def split_def insert_row_simps res_simps)
  have fits: "list_all event_fits (st_ledger_events s)" using assms(3) System by simp
  then have "etyped (eview db2)"
    using etyped_save_ledger_events [OF s(2)] eview_save_created [OF s(1)] assms(2,4) by simp
  then show ?thesis using s(3) etyped_save_dust_generation_info fits assms(4) by blast
qed

lemma etyped_save_transactions:
  "try_fold (save_transaction feat bid) (h, db) txs = Inr (h', db') \<Longrightarrow> etyped (eview db) \<Longrightarrow> list_all tx_fits txs
     \<Longrightarrow> typed (view db) \<Longrightarrow> etyped (eview db')"
proof (induction txs arbitrary: h db)
  case (Cons t txs)
  then obtain h1 db1 where t: "save_transaction feat bid (h, db) t = Inr (h1, db1)"
    and r: "try_fold (save_transaction feat bid) (h1, db1) txs = Inr (h', db')"
    by (auto simp: res_simps split: sum.splits)
  have "0 < tab_next (transactions db)" using Cons.prems(4) by (simp add: typed_def)
  then have "etyped (eview db1)" using etyped_save_transaction [OF t] Cons.prems by simp
  moreover have "typed (view db1)" using view_save_transaction [OF t] put_transaction_typed Cons.prems by simp
  ultimately show ?case using Cons.IH [OF r] Cons.prems by simp
qed simp

lemma etyped_store_step:
  assumes "store_step feat db db'" and "etyped (eview db)" "typed (view db)"
  shows "etyped (eview db')"
proof -
  obtain b txs regs key change mx where s: "save_block feat b txs regs key change db = (Inr mx, db')"
    and fits: "block_fits b" "list_all tx_fits txs" using assms(1) unfolding store_step_def by blast
  obtain db1 db2 where 1: "db1 = db\<lparr>blocks := snd (insert_row (block_row_of b key) (blocks db))\<rparr>"
    "save_transactions feat txs (tab_next (blocks db)) db1 = Inr (mx, db2)"
    "eview db' = eview (save_bridge_events (bl_bridge_events b) (tab_next (blocks db))
       (save_dust_registration_events regs (tab_next (blocks db)) (bl_timestamp b) db2))"
    using s by (fastforce simp: save_block_def save_block_tx_def insert_block_def Let_def split_def res_simps insert_row_simps
        split: if_splits sum.splits option.splits)
  have "typed (view db1)" using put_block_typed [OF assms(3) fits(1), of "[]" feat key] by (simp add: 1(1) put_block_def view_set add_row)
  then have "etyped (eview db2)"
    using 1 etyped_save_transactions [of feat "tab_next (blocks db)" None db1 txs mx db2] fits assms(2) by (simp add: save_transactions_def)
  then show ?thesis using 1(3) etyped_save_bridge_events fits(1) by (simp add: block_fits_def)
qed

lemma stored_etyped: "stored feat db \<Longrightarrow> etyped (eview db)"
  unfolding stored_def
proof (induction rule: rtranclp_induct)
  case base
  then show ?case by (simp add: etyped_def eview_def rows_typed_def empty_chain_db_def empty_table_def)
next
  case (step db db')
  then show ?case using etyped_store_step stored_ok(2) by (auto simp: stored_def)
qed

lemma stored_rows:
  assumes "stored feat db"
  shows "(i, r) \<in> set (tab_rows (ledger_events db)) \<Longrightarrow> 0 < i \<and> event_typed r"
    and "(i, g) \<in> set (tab_rows (dust_generation_infos db)) \<Longrightarrow> 0 < i \<and> generation_typed g"
    and "(i, n) \<in> set (tab_rows (dust_nullifiers db)) \<Longrightarrow> 0 < i \<and> n_commitment n \<noteq> None"
    and "(i, n) \<in> set (tab_rows (zswap_nullifiers db)) \<Longrightarrow> 0 < i"
    and "(i, b) \<in> set (tab_rows (bridge_events db)) \<Longrightarrow> 0 < i \<and> bridge_typed b"
  using stored_etyped [OF assms] by (auto simp: etyped_def eview_def rows_typed_def list_all_iff)

end
