(* ===== verification/Api_Fresh.thy ===== *)
theory Api_Fresh
  imports Api_Event_Types
begin

text \<open>
  What a saved block adds belongs to it: the new ledger events, nullifiers and bridge events refer to the new
  transactions and the new block, new transactions to the new block, and the indexed fields to the new events. Rows
  stored before keep what they join with, and nothing is ever added below a height the chain has passed.
\<close>

section \<open>Appended rows\<close>

definition appended :: "('r \<Rightarrow> bool) \<Rightarrow> 'r table \<Rightarrow> 'r table \<Rightarrow> bool" where
  "appended p t t' \<longleftrightarrow> (\<exists>zs. tab_rows t' = tab_rows t @ zs \<and> list_all (\<lambda>(_, r). p r) zs)"

lemma appended_refl [simp]: "appended p t t"
  by (simp add: appended_def)

lemma appended_trans: "appended p t u \<Longrightarrow> appended p u v \<Longrightarrow> appended p t v"
  by (auto simp: appended_def)

lemma appended_mono: "appended p t u \<Longrightarrow> (\<And>r. p r \<Longrightarrow> p' r) \<Longrightarrow> appended p' t u"
  by (force simp: appended_def list_all_iff)

lemma appended_rows: "list_all p rs \<Longrightarrow> appended p t (snd (insert_rows rs t))"
  using insert_rows_eq [of rs t] by (force simp: appended_def list_all_iff dest: set_zip_rightD)

lemma appended_row: "p r \<Longrightarrow> appended p t (snd (insert_row r t))"
  by (simp add: appended_def insert_row_simps)

lemma appendedD: "appended p t t' \<Longrightarrow> (i, r) \<in> set (tab_rows t') \<Longrightarrow> (i, r) \<in> set (tab_rows t) \<or> p r"
  by (auto simp: appended_def list_all_iff)

text \<open>Relative to the first ids not used yet, of transactions, of ledger events and of blocks.\<close>

definition fresh :: "i64 \<Rightarrow> i64 \<Rightarrow> i64 \<Rightarrow> chain_db \<Rightarrow> chain_db \<Rightarrow> bool" where
  "fresh tn en bn db db' \<longleftrightarrow>
     appended (\<lambda>r. tn \<le> e_transaction_id r) (ledger_events db) (ledger_events db')
   \<and> appended (\<lambda>r. en \<le> f_ledger_event_id r) (indexed_fields db) (indexed_fields db')
   \<and> appended (\<lambda>r. tn \<le> n_transaction_id r \<and> bn \<le> n_block_id r) (dust_nullifiers db) (dust_nullifiers db')
   \<and> appended (\<lambda>r. tn \<le> n_transaction_id r \<and> bn \<le> n_block_id r) (zswap_nullifiers db) (zswap_nullifiers db')
   \<and> appended (\<lambda>r. bn \<le> ber_block_id r) (bridge_events db) (bridge_events db')
   \<and> appended (\<lambda>r. bn \<le> t_block_id r) (transactions db) (transactions db')
   \<and> tab_next (transactions db) \<le> tab_next (transactions db') \<and> tab_next (ledger_events db) \<le> tab_next (ledger_events db')
   \<and> tab_next (blocks db) \<le> tab_next (blocks db')"

lemma fresh_refl [simp]: "fresh tn en bn db db"
  by (simp add: fresh_def)

lemma fresh_trans: "fresh tn en bn a b \<Longrightarrow> fresh tn en bn b c \<Longrightarrow> fresh tn en bn a c"
  unfolding fresh_def by (meson appended_trans order_trans)

lemma fresh_mono: "fresh tn en bn a b \<Longrightarrow> tn' \<le> tn \<Longrightarrow> en' \<le> en \<Longrightarrow> bn' \<le> bn \<Longrightarrow> fresh tn' en' bn' a b"
  unfolding fresh_def by (auto elim!: appended_mono)

lemma fresh_next: "fresh tn en bn a b \<Longrightarrow> tab_next (transactions a) \<le> tab_next (transactions b)
    \<and> tab_next (ledger_events a) \<le> tab_next (ledger_events b) \<and> tab_next (blocks a) \<le> tab_next (blocks b)"
  by (simp add: fresh_def)

section \<open>Saving\<close>

lemma fresh_other [simp]:
  "fresh tn en bn a (b\<lparr>regular_transactions := x2\<rparr>) = fresh tn en bn a b"
  "fresh tn en bn a (b\<lparr>transaction_identifiers := x3\<rparr>) = fresh tn en bn a b"
  "fresh tn en bn a (b\<lparr>contract_actions := x4\<rparr>) = fresh tn en bn a b"
  "fresh tn en bn a (b\<lparr>contract_balances := x5\<rparr>) = fresh tn en bn a b"
  "fresh tn en bn a (b\<lparr>unshielded_utxos := x6\<rparr>) = fresh tn en bn a b"
  "fresh tn en bn a (b\<lparr>cnight_registrations := x8\<rparr>) = fresh tn en bn a b"
  "fresh tn en bn a (b\<lparr>system_parameters_d := x9\<rparr>) = fresh tn en bn a b"
  "fresh tn en bn a (b\<lparr>system_parameters_tc := x10\<rparr>) = fresh tn en bn a b"
  "fresh tn en bn a (b\<lparr>bridge_claims := x11\<rparr>) = fresh tn en bn a b"
  "fresh tn en bn a (b\<lparr>dust_generation_infos := x12\<rparr>) = fresh tn en bn a b"
  by (simp_all add: fresh_def)

lemma fresh_untouched [simp]:
  "fresh tn en bn db (save_identifiers ids tid db)" "fresh tn en bn db (save_bridge_claim tid c db)"
  "fresh tn en bn db (save_dust_registration_events regs bid ts db)" "fresh tn en bn db (save_system_parameters_change ch db)"
  by (auto simp: save_identifiers_def save_bridge_claim_def save_dust_registration_events_def
      save_system_parameters_change_def Let_def split: option.splits)

lemma fresh_save_contract_actions: "save_contract_actions as tid db = Inr (ids, db') \<Longrightarrow> fresh tn en bn db db'"
  by (auto simp: save_contract_actions_def save_contract_balances_def Let_def split_def res_simps insert_unique_Inr split: if_splits)

lemma fresh_save_created: "save_created_unshielded_utxos us tid db = Inr db' \<Longrightarrow> fresh tn en bn db db'"
  by (auto simp: save_created_unshielded_utxos_def res_simps insert_unique_Inr split: if_splits)

lemma fresh_save_spent: "save_spent_unshielded_utxos us tid db = Inr db' \<Longrightarrow> fresh tn en bn db db'"
  by (auto simp: save_spent_def2 Let_def split_def split: if_splits)

lemma fresh_save_dust_generation_info [simp]: "fresh tn en bn db (save_dust_generation_info es tid db)"
proof -
  have "fresh tn en bn db (save_dust_generation_event tid e db)" for e db
    by (auto simp: save_dust_generation_event_def split: ledger_event_attributes.splits)
  then have "fresh tn en bn db (fold (save_dust_generation_event tid) es db)"
    by (induction es arbitrary: db) (auto intro: fresh_trans)
  then show ?thesis by (simp add: save_dust_generation_info_def)
qed

lemma fresh_save_indexed_fields:
  assumes "list_all (\<lambda>i. en \<le> i) ids"
  shows "fresh tn en bn db (save_contract_event_indexed_fields es ids db)"
proof -
  have "list_all (\<lambda>f. en \<le> f_ledger_event_id f) (concat (map (\<lambda>(i, fields). map (\<lambda>(name, value).
          \<lparr>f_ledger_event_id = i, f_name = name, f_value = value\<rparr>) fields)
        (filter (\<lambda>(_, fields). fields \<noteq> []) (map (\<lambda>(e, i). (i, indexable_contract_fields e))
          (filter (\<lambda>(e, _). le_grouping e = Contract) (zip es ids))))))"
    using assms by (fastforce simp: list_all_iff dest: set_zip_rightD)
  then show ?thesis
    by (simp add: save_contract_event_indexed_fields_def Let_def fresh_def appended_rows)
qed

lemma insert_rows_next: "tab_next t \<le> tab_next (snd (insert_rows rs t))" "list_all (\<lambda>i. tab_next t \<le> i) (fst (insert_rows rs t))"
  using insert_rows_eq [of rs t] by (auto simp: list_all_iff)

lemma fresh_save_ledger_events:
  assumes "save_ledger_events es as aids tid db = Inr db'" and "tn \<le> tid" and "en \<le> tab_next (ledger_events db)"
  shows "fresh tn en bn db db'"
proof -
  let ?rows = "map (\<lambda>(e, c). ledger_event_row_of tid e c) (zip es (correlate_contract_action_ids es as aids))"
  let ?ids = "fst (insert_rows ?rows (ledger_events db))"
  let ?db = "db\<lparr>ledger_events := snd (insert_rows ?rows (ledger_events db))\<rparr>"
  have "list_all (\<lambda>r. tn \<le> e_transaction_id r) ?rows"
    using assms(2) by (auto simp: list_all_iff ledger_event_row_of_def)
  then have 1: "fresh tn en bn db ?db" by (simp add: fresh_def appended_rows insert_rows_next(1))
  have "list_all (\<lambda>i. en \<le> i) ?ids"
    using insert_rows_next(2) [of "ledger_events db" ?rows] assms(3) by (auto simp: list_all_iff)
  then have "fresh tn en bn db (save_contract_event_indexed_fields es ?ids ?db)"
    using 1 fresh_save_indexed_fields fresh_trans by blast
  then show ?thesis using assms(1) unfolding save_ledger_events_def Let_def split_def by (simp split: if_splits)
qed

lemma fresh_save_nullifiers:
  assumes "tn \<le> tid" and "bn \<le> bid"
  shows "fresh tn en bn db (save_dust_nullifiers es tid bid db)" "fresh tn en bn db (save_zswap_nullifiers es tid bid db)"
  using assms by (auto simp: save_dust_nullifiers_def save_zswap_nullifiers_def Let_def fresh_def list_all_iff intro!: appended_rows)

lemma fresh_save_bridge_events:
  assumes "bn \<le> bid"
  shows "fresh tn en bn db (save_bridge_events es bid db)"
proof -
  have "fresh tn en bn db (save_bridge_event bid e db)" for e db
    using assms by (simp add: save_bridge_event_def fresh_def appended_row)
  then have "fresh tn en bn db (fold (save_bridge_event bid) es db)" by (induction es arbitrary: db) (auto intro: fresh_trans)
  then show ?thesis by (simp add: save_bridge_events_def)
qed

lemma fresh_save_transaction:
  assumes "save_transaction feat bid (h, db) t = Inr (h', db')"
    and n: "tn \<le> tab_next (transactions db)" "en \<le> tab_next (ledger_events db)" "bn \<le> bid"
  shows "fresh tn en bn db db'"
proof (cases t)
  case (Regular r)
  let ?tid = "tab_next (transactions db)"
  let ?db1 = "db\<lparr>transactions := snd (insert_row (transaction_row_of bid t) (transactions db)),
     regular_transactions := regular_transactions db @ [regular_transaction_row_of feat ?tid r]\<rparr>"
  let ?db2 = "if feat = Standalone then save_identifiers (rt_identifiers r) ?tid ?db1 else ?db1"
  obtain aids db3 db4 db5 db6 where
        s: "save_contract_actions (rt_contract_actions r) ?tid ?db2 = Inr (aids, db3)"
           "save_created_unshielded_utxos (rt_created_unshielded_utxos r) ?tid db3 = Inr db4"
           "save_spent_unshielded_utxos (rt_spent_unshielded_utxos r) ?tid db4 = Inr db5"
    and s6: "save_ledger_events (rt_ledger_events r) (rt_contract_actions r) aids ?tid db5 = Inr db6"
    and db': "db' = (let db = save_dust_generation_info (rt_ledger_events r) ?tid db6;
              db = save_dust_nullifiers (rt_ledger_events r) ?tid bid db;
              db = save_zswap_nullifiers (rt_ledger_events r) ?tid bid db
          in case rt_bridge_claim r of None \<Rightarrow> db | Some claim \<Rightarrow> save_bridge_claim ?tid claim db)"
    using assms(1) Regular
    by (auto simp: save_transaction_def save_regular_transaction_def Let_def split_def insert_row_simps res_simps split: if_splits)
  have "fresh tn en bn db ?db1"
    using n by (simp add: fresh_def appended_row transaction_row_of_def insert_row_simps)
  moreover have "fresh tn en bn ?db1 ?db2" by simp
  ultimately have f5: "fresh tn en bn db db5"
    using fresh_save_contract_actions [OF s(1), of tn en bn] fresh_save_created [OF s(2), of tn en bn]
      fresh_save_spent [OF s(3), of tn en bn] by (meson fresh_trans)
  then have "en \<le> tab_next (ledger_events db5)" using fresh_next n(2) by (meson order_trans)
  from fresh_save_ledger_events [OF s6 n(1) this] f5 have f6: "fresh tn en bn db db6" using fresh_trans by blast
  let ?db7 = "save_dust_generation_info (rt_ledger_events r) ?tid db6"
  let ?db8 = "save_dust_nullifiers (rt_ledger_events r) ?tid bid ?db7"
  let ?db9 = "save_zswap_nullifiers (rt_ledger_events r) ?tid bid ?db8"
  have "fresh tn en bn db6 ?db7" by simp
  with f6 have "fresh tn en bn db ?db7" by (rule fresh_trans)
  then have "fresh tn en bn db ?db8" by (rule fresh_trans) (rule fresh_save_nullifiers(1) [OF n(1,3)])
  then have f9: "fresh tn en bn db ?db9" by (rule fresh_trans) (rule fresh_save_nullifiers(2) [OF n(1,3)])
  show ?thesis
  proof (cases "rt_bridge_claim r")
    case (Some c)
    have "fresh tn en bn ?db9 (save_bridge_claim ?tid c ?db9)" by simp
    with f9 have "fresh tn en bn db (save_bridge_claim ?tid c ?db9)" by (rule fresh_trans)
    then show ?thesis using Some by (simp add: db' Let_def)
  qed (use f9 in \<open>simp add: db' Let_def\<close>)
next
  case (System s)
  let ?tid = "tab_next (transactions db)"
  let ?db1 = "db\<lparr>transactions := snd (insert_row (transaction_row_of bid t) (transactions db))\<rparr>"
  obtain db1 db2 where s: "save_created_unshielded_utxos (st_created_unshielded_utxos s) ?tid ?db1 = Inr db1"
    "save_ledger_events (st_ledger_events s) [] [] ?tid db1 = Inr db2"
    "db' = save_dust_generation_info (st_ledger_events s) ?tid db2"
    using assms(1) System by (auto simp: save_transaction_def save_system_transaction_def Let_def split_def insert_row_simps res_simps)
  have "fresh tn en bn db ?db1" using n by (simp add: fresh_def appended_row transaction_row_of_def insert_row_simps)
  then have f1: "fresh tn en bn db db1" using fresh_save_created [OF s(1), of tn en bn] by (rule fresh_trans)
  then have "en \<le> tab_next (ledger_events db1)" using fresh_next n(2) by (meson order_trans)
  from fresh_save_ledger_events [OF s(2) n(1) this] f1 have "fresh tn en bn db db2" using fresh_trans by blast
  moreover have "fresh tn en bn db2 db'" unfolding s(3) by simp
  ultimately show ?thesis by (rule fresh_trans)
qed

lemma fresh_save_transactions:
  "try_fold (save_transaction feat bid) (h, db) txs = Inr (h', db') \<Longrightarrow> tn \<le> tab_next (transactions db)
     \<Longrightarrow> en \<le> tab_next (ledger_events db) \<Longrightarrow> bn \<le> bid \<Longrightarrow> fresh tn en bn db db'"
proof (induction txs arbitrary: h db)
  case (Cons t txs)
  then obtain h1 db1 where t: "save_transaction feat bid (h, db) t = Inr (h1, db1)"
    and r: "try_fold (save_transaction feat bid) (h1, db1) txs = Inr (h', db')"
    by (auto simp: res_simps split: sum.splits)
  have f: "fresh tn en bn db db1" using fresh_save_transaction [OF t] Cons.prems by blast
  then have "tn \<le> tab_next (transactions db1)" "en \<le> tab_next (ledger_events db1)"
    using fresh_next [OF f] Cons.prems(2,3) by linarith+
  then show ?case using Cons.IH [OF r] Cons.prems(4) f fresh_trans by blast
qed simp

section \<open>Blocks\<close>

lemma fold_put_blocks: "v_blocks (fold (put_transaction feat bid) txs v) = v_blocks v"
proof -
  have "v_blocks (put_transaction feat bid t v) = v_blocks v" for t v by (cases t) (simp_all add: Let_def)
  then show ?thesis by (induction txs arbitrary: v) simp_all
qed

text \<open>A later database: what it adds is fresh, and its new blocks are above the old ones.\<close>

definition later :: "chain_db \<Rightarrow> chain_db \<Rightarrow> bool" where
  "later db db' \<longleftrightarrow> fresh (tab_next (transactions db)) (tab_next (ledger_events db)) (tab_next (blocks db)) db db'
     \<and> appended (\<lambda>b. above_all (b_height b) b_height (blocks db)) (blocks db) (blocks db')"

lemma store_step_later:
  assumes "store_step feat db db'"
  shows "later db db'"
proof -
  obtain b txs regs key change mx where s: "save_block feat b txs regs key change db = (Inr mx, db')"
    and a: "above_all (as_i64 (bl_height b)) b_height (blocks db)" using assms unfolding store_step_def by blast
  let ?bid = "tab_next (blocks db)" and ?tn = "tab_next (transactions db)" and ?en = "tab_next (ledger_events db)"
  let ?db1 = "db\<lparr>blocks := snd (insert_row (block_row_of b key) (blocks db))\<rparr>"
  obtain db3 where tx: "save_block_tx feat b txs regs key db = Inr (mx, db3)"
    and db': "db' = (case change of None \<Rightarrow> db3 | Some c \<Rightarrow> save_system_parameters_change c db3)"
    using s by (auto simp: save_block_def split: sum.splits prod.splits)
  obtain db2 where 1: "save_transactions feat txs ?bid ?db1 = Inr (mx, db2)"
    and 3: "db3 = save_bridge_events (bl_bridge_events b) ?bid (save_dust_registration_events regs ?bid (bl_timestamp b) db2)"
    using tx by (auto simp: save_block_tx_def insert_block_def Let_def split_def res_simps insert_row_simps split: if_splits)
  have f1: "fresh ?tn ?en ?bid db ?db1" by (simp add: fresh_def insert_row_simps)
  have "fresh ?tn ?en ?bid ?db1 db2"
    using fresh_save_transactions [of feat ?bid None ?db1 txs mx db2] 1 by (simp add: save_transactions_def)
  with f1 have f2: "fresh ?tn ?en ?bid db db2" by (rule fresh_trans)
  have "fresh ?tn ?en ?bid db2 (save_dust_registration_events regs ?bid (bl_timestamp b) db2)" by simp
  with f2 have "fresh ?tn ?en ?bid db (save_dust_registration_events regs ?bid (bl_timestamp b) db2)" by (rule fresh_trans)
  then have f3: "fresh ?tn ?en ?bid db db3"
    unfolding 3 by (rule fresh_trans) (rule fresh_save_bridge_events, simp)
  have "fresh ?tn ?en ?bid db3 db'" unfolding db' by (simp split: option.splits)
  with f3 have "fresh ?tn ?en ?bid db db'" by (rule fresh_trans)
  moreover have "tab_rows (blocks db') = tab_rows (blocks db) @ [(tab_next (blocks db), block_row_of b key)]"
    using arg_cong [OF view_save_block [OF s], of v_blocks]
    by (simp add: put_block_def fold_put_blocks add_row insert_row_simps)
  ultimately show ?thesis using a by (simp add: later_def appended_def block_row_of_def)
qed

lemma stored_later_later: "stored_later feat db db' \<Longrightarrow> later db db'"
proof (induction rule: rtranclp_induct)
  case (step y z)
  have l: "later y z" using step(2) by (rule store_step_later)
  let ?tn = "tab_next (transactions db)" and ?en = "tab_next (ledger_events db)" and ?bn = "tab_next (blocks db)"
  have y: "fresh ?tn ?en ?bn db y" using step.IH by (simp add: later_def)
  have "fresh ?tn ?en ?bn y z"
    using l fresh_next [OF y] by (auto simp: later_def intro: fresh_mono)
  with y have "fresh ?tn ?en ?bn db z" by (rule fresh_trans)
  moreover have b: "appended (\<lambda>b. above_all (b_height b) b_height (blocks db)) (blocks db) (blocks y)"
    using step.IH by (simp add: later_def)
  moreover have "above_all h b_height (blocks db)" if "above_all h b_height (blocks y)" for h
    using that b by (auto simp: appended_def above_all_def)
  then have "appended (\<lambda>b. above_all (b_height b) b_height (blocks db)) (blocks y) (blocks z)"
    using l appended_mono [of "\<lambda>b. above_all (b_height b) b_height (blocks y)" "blocks y" "blocks z"] by (simp add: later_def)
  ultimately show ?case using appended_trans by (auto simp: later_def)
qed (simp add: later_def)

end
