(* ===== verification/Id_Paging.thy ===== *)
theory Id_Paging
  imports Paging
begin

text \<open>
  Streams over a table in the order of its ids: what the queries for ledger events, contract events, bridge events
  and nullifiers have in common, as a special case of keyset pages, and what is yielded when each item is converted
  or cut down on its way to the subscriber.
\<close>

section \<open>Pages by id\<close>

text \<open>
  The rows of one table with ascending ids, of which a query selects some and makes an item of each. What is selected
  and what is made of a row does not change while the table grows.
\<close>

locale id_paged =
  fixes ok :: "'q \<Rightarrow> 'db \<Rightarrow> bool"
    and grown :: "'q \<Rightarrow> 'db \<Rightarrow> 'db \<Rightarrow> bool"
    and tbl :: "'db \<Rightarrow> (int \<times> 'r) list"
    and sel :: "'q \<Rightarrow> 'db \<Rightarrow> int \<times> 'r \<Rightarrow> bool"
    and item :: "'q \<Rightarrow> 'db \<Rightarrow> int \<times> 'r \<Rightarrow> 'a"
    and key :: "'a \<Rightarrow> int"
    and pos :: "'c \<Rightarrow> int"
    and after :: "'a \<Rightarrow> 'c"
    and fetch :: "'q \<Rightarrow> nat \<Rightarrow> 'c \<Rightarrow> 'db \<Rightarrow> 'e + 'a list"
  assumes ids_ascend: "ok q db \<Longrightarrow> sorted_wrt (<) (map fst (tbl db))"
    and item_key: "ok q db \<Longrightarrow> p \<in> set (tbl db) \<Longrightarrow> key (item q db p) = fst p"
    and item_after: "ok q db \<Longrightarrow> p \<in> set (tbl db) \<Longrightarrow> pos (after (item q db p)) = fst p + 1"
    and table_grown: "grown q db db' \<Longrightarrow> ok q db \<Longrightarrow> ok q db' \<Longrightarrow> prefix (tbl db) (tbl db')"
    and rows_stable: "grown q db db' \<Longrightarrow> ok q db \<Longrightarrow> ok q db' \<Longrightarrow> p \<in> set (tbl db)
      \<Longrightarrow> sel q db' p = sel q db p \<and> item q db' p = item q db p"
    and fetch_rows: "ok q db \<Longrightarrow>
      fetch q limit c db = Inr (take limit (map (item q db) (filter (\<lambda>p. sel q db p \<and> pos c \<le> fst p) (tbl db))))"
begin

definition id_rows :: "'q \<Rightarrow> 'db \<Rightarrow> 'a list" where
  "id_rows q db = map (item q db) (filter (sel q db) (tbl db))"

lemma id_rows_from:
  assumes "ok q db"
  shows "filter (\<lambda>x. pos c \<le> key x) (id_rows q db) = map (item q db) (filter (\<lambda>p. sel q db p \<and> pos c \<le> fst p) (tbl db))"
  unfolding id_rows_def filter_map filter_filter
  by (intro arg_cong [where f = "map (item q db)"] filter_cong) (use item_key [OF assms] in auto)

lemma id_rows_grown:
  assumes "grown q db db'" and "ok q db" and "ok q db'"
  shows "prefix (id_rows q db) (id_rows q db')"
proof -
  obtain zs where "tbl db' = tbl db @ zs" using table_grown [OF assms] by (auto simp: prefix_def)
  moreover have "map (item q db') (filter (sel q db') (tbl db)) = id_rows q db"
    using rows_stable [OF assms] by (auto simp: id_rows_def cong: filter_cong)
  ultimately show ?thesis by (simp add: id_rows_def)
qed

end

sublocale id_paged \<subseteq> keyset ok grown id_rows key pos after fetch
proof (unfold_locales, goal_cases)
  case (1 q db limit c)
  then show ?case by (simp add: fetch_rows id_rows_from)
next
  case (2 q db)
  have "sorted_wrt (\<lambda>x y. pos (after (item q db x)) \<le> key (item q db y)) (tbl db)"
    using ids_ascend [OF 2] unfolding sorted_wrt_map
    by (rule sorted_wrt_mono_rel [rotated]) (use item_key [OF 2] item_after [OF 2] in auto)
  then show ?case by (simp add: id_rows_def sorted_wrt_map sorted_wrt_filter)
next
  case (3 q db x)
  then show ?case using item_key item_after by (auto simp: id_rows_def)
next
  case (4 q db db')
  then show ?case by (rule id_rows_grown)
qed

context id_paged
begin

lemma rows_from_items:
  "ok q db \<Longrightarrow> rows_from q c db = map (item q db) (filter (\<lambda>p. sel q db p \<and> pos c \<le> fst p) (tbl db))"
  by (simp add: id_rows_from)

lemma pages_all:
  assumes "growing (ok q) (grown q) dbs" and "0 < limit" and "dbs \<noteq> []" and "\<And>db. db \<in> set dbs \<Longrightarrow> length (tbl db) < length dbs"
  shows "\<exists>db\<in>set dbs. ok q db
    \<and> pages (fetch q limit) after c dbs = Some (map (item q db) (filter (\<lambda>p. sel q db p \<and> pos c \<le> fst p) (tbl db)), None)"
proof -
  have "length (rows_from q c db) < length dbs" if "db \<in> set dbs" for db
    using assms(4) [OF that] by (auto simp: id_rows_def intro!: le_less_trans [OF length_filter_le])
  then obtain xs e where p: "pages (fetch q limit) after c dbs = Some (xs, e)"
    using pages_end [OF assms(1-3), of c] by fast
  obtain db where "e = None" "db \<in> set dbs" "xs = rows_from q c db" using pages_complete [OF assms(1,2) p] by blast
  moreover from this have "ok q db" using growingD [OF assms(1)] by blast
  ultimately show ?thesis using p rows_from_items by auto
qed

end

section \<open>Bounded subscriptions\<close>

text \<open>
  A subscription that may end: before each drain it is decided whether it is the last one. \<open>events\<close> holds for each drain
  that decision and the states of the database its pages see. A stream waits for the next event, is complete or has
  failed.
\<close>

datatype 'e stream_end = Waiting | Completed | Failed 'e

fun bounded_subscription ::
  "('c \<Rightarrow> 'db \<Rightarrow> 'e + 'a list) \<Rightarrow> ('a \<Rightarrow> 'c) \<Rightarrow> 'c \<Rightarrow> (bool \<times> 'db list) list \<Rightarrow> ('a list \<times> 'e stream_end) option" where
  "bounded_subscription fetch after c [] = Some ([], Waiting)"
| "bounded_subscription fetch after c ((last_round, dbs) # events) =
     (case pages fetch after c dbs of
        None \<Rightarrow> None
      | Some (items, Some e) \<Rightarrow> Some (items, Failed e)
      | Some (items, None) \<Rightarrow>
          if last_round then Some (items, Completed)
          else map_option (\<lambda>(rest, fin). (items @ rest, fin))
            (bounded_subscription fetch after (last (c # map after items)) events))"

context keyset
begin

lemma rows_from_later:
  assumes "ok q db" and "ok q db'" and "grown q db db'"
  shows "rows_from q c db @ rows_from q (last (c # map after (rows_from q c db))) db' = rows_from q c db'"
proof (cases "rows_from q c db = []")
  case False
  then show ?thesis using page_then_rest [OF assms, of "length (rows q db)" c] by (simp add: last_map)
qed simp

lemma bounded_ends:
  assumes "growing (ok q) (grown q) (concat (map snd events))" and "0 < limit"
    and "\<And>r dbs db. (r, dbs) \<in> set events \<Longrightarrow> db \<in> set dbs \<Longrightarrow> length (rows q db) < length dbs"
    and "\<And>r. (r, []) \<notin> set events"
  shows "bounded_subscription (fetch q limit) after c events \<noteq> None"
  using assms
proof (induction events arbitrary: c)
  case (Cons ev events)
  obtain r dbs where ev: "ev = (r, dbs)" by (cases ev)
  have "length (rows_from q c db) < length dbs" if "db \<in> set dbs" for db
    using Cons.prems(3) [of r dbs db] that ev by (intro le_less_trans [OF length_filter_le]) simp
  moreover have "growing (ok q) (grown q) dbs" "dbs \<noteq> []" using Cons.prems(1) Cons.prems(4) [of r] ev by auto
  ultimately obtain xs e where p: "pages (fetch q limit) after c dbs = Some (xs, e)"
    using pages_end [of q dbs limit c] Cons.prems(2) by auto
  have "bounded_subscription (fetch q limit) after (last (c # map after xs)) events \<noteq> None"
  proof (rule Cons.IH)
    show "length (rows q db) < length dbs" if "(r, dbs) \<in> set events" "db \<in> set dbs" for r dbs db
      using Cons.prems(3) [of r dbs db] that by simp
    show "(r, []) \<notin> set events" for r using Cons.prems(4) [of r] by simp
  qed (use Cons.prems(1,2) in simp_all)
  then show ?case using p ev by (cases e) (auto simp del: last.simps)
qed simp

lemma bounded_complete:
  assumes "growing (ok q) (grown q) (concat (map snd events))" and "0 < limit" and "events \<noteq> []"
    and "bounded_subscription (fetch q limit) after c events = Some (xs, fin)"
  shows "\<exists>r dbs db. (r, dbs) \<in> set events \<and> db \<in> set dbs \<and> xs = rows_from q c db
    \<and> (fin = Completed \<and> r \<or> fin = Waiting \<and> (r, dbs) = last events)"
  using assms
proof (induction events arbitrary: c xs)
  case (Cons ev events)
  obtain r dbs where ev: "ev = (r, dbs)" by (cases ev)
  obtain xs1 e1 where p: "pages (fetch q limit) after c dbs = Some (xs1, e1)"
    using Cons.prems(4) ev by (auto split: option.splits)
  have "growing (ok q) (grown q) dbs" using Cons.prems(1) ev by simp
  from pages_complete [OF this Cons.prems(2) p] obtain db where
    db: "e1 = None" "db \<in> set dbs" "xs1 = rows_from q c db" by blast
  show ?case
  proof (cases "r \<or> events = []")
    case True
    then show ?thesis using Cons.prems(4) p db ev by (auto split: if_splits)
  next
    case False
    let ?c = "last (c # map after xs1)"
    obtain ys where y: "bounded_subscription (fetch q limit) after ?c events = Some (ys, fin)" and xs: "xs = xs1 @ ys"
      using Cons.prems(4) p db(1) ev False by (auto simp del: last.simps)
    have "growing (ok q) (grown q) (concat (map snd events))" using Cons.prems(1) by simp
    from Cons.IH [OF this Cons.prems(2) _ y] False obtain r' dbs' db' where
      i: "(r', dbs') \<in> set events" "db' \<in> set dbs'" "ys = rows_from q ?c db'"
        "fin = Completed \<and> r' \<or> fin = Waiting \<and> (r', dbs') = last events" by blast
    have "db' \<in> set (concat (map snd events))" using i(1,2) by force
    then have g: "grown q db db'" "ok q db" "ok q db'"
      using Cons.prems(1) db(2) ev by (auto simp: growing_def list_all_iff sorted_wrt_append simp del: set_concat)
    have "xs = rows_from q c db'" using rows_from_later [OF g(2,3,1), of c] xs i(3) db(3) by simp
    then show ?thesis using i False by auto
  qed
qed simp

end

section \<open>Polling\<close>

text \<open>One page for every event; an event may leave rows for the next one.\<close>

fun polled :: "('c \<Rightarrow> 'db \<Rightarrow> 'e + 'a list) \<Rightarrow> ('a \<Rightarrow> 'c) \<Rightarrow> 'c \<Rightarrow> 'db list \<Rightarrow> 'a list \<times> 'e option" where
  "polled fetch after c [] = ([], None)"
| "polled fetch after c (db # dbs) =
     (case fetch c db of
        Inl e \<Rightarrow> ([], Some e)
      | Inr items \<Rightarrow> (case polled fetch after (last (c # map after items)) dbs of (rest, e) \<Rightarrow> (items @ rest, e)))"

text \<open>How many rows have been yielded, given how many there are at each event.\<close>

fun progress :: "nat \<Rightarrow> nat \<Rightarrow> nat list \<Rightarrow> nat" where
  "progress limit n [] = n"
| "progress limit n (t # ts) = progress limit (min (n + limit) t) ts"

lemma progress_shift: "progress limit (k + n) (map ((+) k) ts) = k + progress limit n ts"
proof (induction ts arbitrary: n)
  case (Cons t ts)
  have "min (k + n + limit) (k + t) = k + min (n + limit) t" by simp
  then show ?case using Cons.IH by simp
qed simp

context keyset
begin

lemma page_rest:
  assumes "ok q db" and "ok q db'" and "grown q db db'"
  shows "take limit (rows_from q c db) @ rows_from q (last (c # map after (take limit (rows_from q c db)))) db' = rows_from q c db'"
proof (cases "take limit (rows_from q c db) = []")
  case False
  then show ?thesis using page_then_rest [OF assms False] by (simp add: last_map del: take_eq_Nil)
qed simp

lemma polled_progress:
  assumes "growing (ok q) (grown q) (dbs @ [final])"
  shows "polled (fetch q limit) after c dbs
    = (take (progress limit 0 (map (\<lambda>db. length (rows_from q c db)) dbs)) (rows_from q c final), None)"
  using assms
proof (induction dbs arbitrary: c)
  case (Cons db dbs)
  define p where "p = take limit (rows_from q c db)"
  define d where "d = last (c # map after p)"
  define m where "m = progress limit 0 (map (\<lambda>db. length (rows_from q d db)) dbs)"
  have ok: "ok q db" "ok q final" "grown q db final" using Cons.prems by simp_all
  have rest: "rows_from q c db' = p @ rows_from q d db'" if "db' \<in> set (dbs @ [final])" for db'
    using page_rest [of q db db' limit c] that Cons.prems growingD [OF Cons.prems, of db'] by (auto simp: list_all_iff p_def d_def)
  have len: "map (\<lambda>db. length (rows_from q c db)) dbs = map ((+) (length p)) (map (\<lambda>db. length (rows_from q d db)) dbs)"
    using rest by simp
  have "progress limit 0 (map (\<lambda>db. length (rows_from q c db)) (db # dbs)) = progress limit (length p) (map (\<lambda>db. length (rows_from q c db)) dbs)"
    by (simp add: p_def min.commute)
  also have "\<dots> = length p + m" unfolding len m_def using progress_shift [of limit "length p" 0] by (simp del: map_map)
  finally have "take (progress limit 0 (map (\<lambda>db. length (rows_from q c db)) (db # dbs))) (rows_from q c final) = p @ take m (rows_from q d final)"
    using rest [of final] by simp
  moreover have "polled (fetch q limit) after d dbs = (take m (rows_from q d final), None)"
    unfolding m_def using Cons.prems by (intro Cons.IH) simp
  moreover have "fetch q limit c db = Inr p" unfolding p_def by (rule fetch_page [OF ok(1)])
  ultimately show ?case by (simp add: d_def del: last.simps)
qed simp

end

section \<open>Projections and conversions\<close>

text \<open>Forgetting a part of every item, on which the cursor does not depend.\<close>

lemma pages_map:
  assumes "\<And>x. after' (p x) = after x"
  shows "pages (\<lambda>c db. map_ok (map p) (fetch c db)) after' c dbs
    = map_option (\<lambda>(xs, e). (map p xs, e)) (pages fetch after c dbs)"
proof (induction dbs arbitrary: c)
  case (Cons db dbs)
  have l: "after' (last (map p xs)) = after (last xs)" if "xs \<noteq> []" for xs
    using that by (simp add: last_map assms)
  show ?case
    by (cases "fetch c db") (auto simp: Cons.IH l option.map_comp comp_def split_def)
qed simp

lemma zip_map_snd: "zip cs (map p xs) = map (apsnd p) (zip cs xs)"
  by (simp add: zip_map2 apsnd_def map_prod_def split_def)

lemma subscription_map:
  assumes "\<And>x. after' (p x) = after x"
  shows "subscription (\<lambda>c db. map_ok (map p) (fetch c db)) after' c events
    = map_option (\<lambda>(ys, c', e). (map (apsnd p) ys, c', e)) (subscription fetch after c events)"
proof (induction events arbitrary: c)
  case (Cons dbs events)
  show ?case
    by (simp add: pages_map [where after' = after' and p = p and after = after, OF assms] Let_def zip_map_snd assms Cons.IH option.map_comp comp_def split_def
        split: option.splits del: last.simps zip_Cons_Cons zip_Cons1)
qed simp

lemma bounded_map:
  assumes "\<And>x. after' (p x) = after x"
  shows "bounded_subscription (\<lambda>c db. map_ok (map p) (fetch c db)) after' c events
    = map_option (\<lambda>(xs, fin). (map p xs, fin)) (bounded_subscription fetch after c events)"
proof (induction events arbitrary: c)
  case (Cons ev events)
  show ?case
    by (cases ev) (auto simp: pages_map [where after' = after' and p = p and after = after, OF assms] assms Cons.IH
        option.map_comp comp_def split_def split: option.splits simp del: last.simps)
qed simp

text \<open>
  A conversion of each item as it is yielded: the first item that cannot be converted ends the stream with an error.
\<close>

fun convert_items :: "('a \<Rightarrow> 'f + 'b) \<Rightarrow> 'a list \<Rightarrow> 'b list \<times> 'f option" where
  "convert_items conv [] = ([], None)"
| "convert_items conv (x # xs) =
     (case conv x of Inl f \<Rightarrow> ([], Some f) | Inr y \<Rightarrow> (case convert_items conv xs of (ys, f) \<Rightarrow> (y # ys, f)))"

lemma convert_items_all: "(\<And>x. x \<in> set xs \<Longrightarrow> conv x = Inr (g x)) \<Longrightarrow> convert_items conv xs = (map g xs, None)"
  by (induction xs) auto

lemma convert_items_prefix: "prefix (map Inr (fst (convert_items conv xs))) (map conv xs)"
  by (induction xs) (auto split: sum.splits prod.splits)

end
