(* ===== verification/Api_Events.thy ===== *)
theory Api_Events
  imports Id_Paging Api_Subscriptions
begin

text \<open>
  Ledger events and contract events as the API serves them: the queries of
  \<^verbatim>\<open>indexer-api/src/infra/storage/ledger_events.rs\<close> and \<^verbatim>\<open>contract_event.rs\<close>, the GraphQL types of
  \<^verbatim>\<open>indexer-api/src/infra/api/v4/ledger_events.rs\<close> and \<^verbatim>\<open>contract_event.rs\<close>, and the subscriptions to zswap, dust and
  contract events. Hex encoding is a parameter, since it is that of a library.
\<close>

section \<open>Ledger events\<close>

record api_ledger_event =
  ale_id :: u64
  ale_raw :: bytes
  ale_attributes :: ledger_event_attributes
  ale_max_id :: u64
  ale_protocol_version :: protocol_version

text \<open>\<^verbatim>\<open>(SELECT MAX(id) FROM ledger_events WHERE grouping = $1)\<close>.\<close>

definition max_event_id :: "ledger_event_grouping \<Rightarrow> chain_db \<Rightarrow> i64 option" where
  "max_event_id grouping db = max_opt (map fst (select_where (\<lambda>(_, r). e_grouping r = grouping) (ledger_events db)))"

definition col_not_null :: "('a \<Rightarrow> sqlx_error + 'b) \<Rightarrow> 'a option \<Rightarrow> sqlx_error + 'b" where
  "col_not_null col v = (case v of None \<Rightarrow> Inl Decode | Some x \<Rightarrow> col x)"

type_synonym event_join = "i64 \<times> ledger_event_row \<times> transaction_row"

definition join_transaction :: "chain_db \<Rightarrow> i64 \<times> ledger_event_row \<Rightarrow> event_join option" where
  "join_transaction db = (\<lambda>(i, r). map_option (\<lambda>t. (i, r, t)) (row_by_id (transactions db) (e_transaction_id r)))"

definition ledger_event_from_row :: "i64 option \<Rightarrow> event_join \<Rightarrow> sqlx_error + api_ledger_event" where
  "ledger_event_from_row max_id = (\<lambda>(i, r, t).
     and_then (col_u64 i) (\<lambda>id.
     and_then (col_not_null col_u64 max_id) (\<lambda>max_id.
     map_ok (\<lambda>version. \<lparr>ale_id = id, ale_raw = e_raw r, ale_attributes = e_attributes r, ale_max_id = max_id,
         ale_protocol_version = version\<rparr>)
       (col_version (t_protocol_version t)))))"

definition get_ledger_events_page ::
  "ledger_event_grouping \<Rightarrow> nat \<Rightarrow> u64 \<Rightarrow> chain_db \<Rightarrow> sqlx_error + api_ledger_event list" where
  "get_ledger_events_page grouping batch_size from_id db =
     try_map (ledger_event_from_row (max_event_id grouping db)) (take batch_size (sort_key fst
       (Chain_Storage.filter_map (join_transaction db)
         (select_where (\<lambda>(i, r). e_grouping r = grouping \<and> as_i64 from_id \<le> i) (ledger_events db)))))"

definition get_ledger_events ::
  "ledger_event_grouping \<Rightarrow> u64 \<Rightarrow> nat \<Rightarrow> chain_db list \<Rightarrow> (api_ledger_event list \<times> sqlx_error option) option" where
  "get_ledger_events grouping from_id batch_size dbs =
     pages (get_ledger_events_page grouping batch_size) (\<lambda>e. ale_id e + 1) from_id dbs"

definition get_ledger_events_by_transaction_id ::
  "ledger_event_grouping \<Rightarrow> u64 \<Rightarrow> chain_db \<Rightarrow> sqlx_error + api_ledger_event list" where
  "get_ledger_events_by_transaction_id grouping transaction_id db =
     try_map (ledger_event_from_row (max_event_id grouping db)) (sort_key fst
       (Chain_Storage.filter_map (join_transaction db)
         (select_where (\<lambda>(_, r). e_grouping r = grouping \<and> e_transaction_id r = as_i64 transaction_id) (ledger_events db))))"

subsection \<open>GraphQL types\<close>

datatype unexpected_ledger_event = UnexpectedLedgerEvent ledger_event_attributes

record zswap_ledger_event =
  zle_id :: u64
  zle_raw :: string
  zle_max_id :: u64
  zle_protocol_version :: u32

datatype dust_ledger_event =
    ParamChangeEvent zswap_ledger_event
  | DustInitialUtxoEvent zswap_ledger_event string
  | DustGenerationDtimeUpdateEvent zswap_ledger_event
  | DustSpendProcessedEvent zswap_ledger_event

text \<open>The fields every variant has, made of a ledger event.\<close>

definition event_base :: "(bytes \<Rightarrow> string) \<Rightarrow> api_ledger_event \<Rightarrow> zswap_ledger_event" where
  "event_base hex_encode e = \<lparr>zle_id = ale_id e, zle_raw = hex_encode (ale_raw e), zle_max_id = ale_max_id e,
     zle_protocol_version = u32_from (ale_protocol_version e)\<rparr>"

definition zswap_ledger_event_try_from ::
  "(bytes \<Rightarrow> string) \<Rightarrow> api_ledger_event \<Rightarrow> unexpected_ledger_event + zswap_ledger_event" where
  "zswap_ledger_event_try_from hex_encode e =
     (case ale_attributes e of
        ZswapInput _ \<Rightarrow> Inr (event_base hex_encode e)
      | ZswapOutput \<Rightarrow> Inr (event_base hex_encode e)
      | other \<Rightarrow> Inl (UnexpectedLedgerEvent other))"

definition dust_ledger_event_try_from ::
  "(bytes \<Rightarrow> string) \<Rightarrow> api_ledger_event \<Rightarrow> unexpected_ledger_event + dust_ledger_event" where
  "dust_ledger_event_try_from hex_encode e =
     (case ale_attributes e of
        ParamChange \<Rightarrow> Inr (ParamChangeEvent (event_base hex_encode e))
      | DustInitialUtxo out _ _ \<Rightarrow> Inr (DustInitialUtxoEvent (event_base hex_encode e) (hex_encode (qdo_nonce out)))
      | DustGenerationDtimeUpdate _ _ _ \<Rightarrow> Inr (DustGenerationDtimeUpdateEvent (event_base hex_encode e))
      | DustSpendProcessed _ _ \<Rightarrow> Inr (DustSpendProcessedEvent (event_base hex_encode e))
      | other \<Rightarrow> Inl (UnexpectedLedgerEvent other))"

subsection \<open>Subscriptions\<close>

text \<open>
  What a subscriber gets: converted items, then how the stream stands. A query or a conversion may have failed.
\<close>

datatype stream_error = QueryFailed sqlx_error | Unexpected

definition yield_all :: "('a \<Rightarrow> 'f + 'b) \<Rightarrow> 'a list \<Rightarrow> sqlx_error stream_end \<Rightarrow> 'b list \<times> stream_error stream_end" where
  "yield_all conv items fin = (case convert_items conv items of
     (ys, Some _) \<Rightarrow> (ys, Failed Unexpected) | (ys, None) \<Rightarrow> (ys, map_stream_end QueryFailed fin))"

definition ledger_events_subscription ::
  "ledger_event_grouping \<Rightarrow> (api_ledger_event \<Rightarrow> unexpected_ledger_event + 'b) \<Rightarrow> nat \<Rightarrow> u64 option \<Rightarrow> chain_db list list
     \<Rightarrow> ('b list \<times> stream_error stream_end) option" where
  "ledger_events_subscription grouping conv batch_size from_id events =
     map_option (\<lambda>(items, _, e). yield_all conv (map snd items) (case e of None \<Rightarrow> Waiting | Some e \<Rightarrow> Failed e))
       (subscription (get_ledger_events_page grouping batch_size) (\<lambda>e. ale_id e + 1)
         (case from_id of None \<Rightarrow> 1 | Some i \<Rightarrow> i) events)"

definition zswap_ledger_events ::
  "(bytes \<Rightarrow> string) \<Rightarrow> nat \<Rightarrow> u64 option \<Rightarrow> chain_db list list \<Rightarrow> (zswap_ledger_event list \<times> stream_error stream_end) option" where
  "zswap_ledger_events hex_encode = ledger_events_subscription Zswap (zswap_ledger_event_try_from hex_encode)"

definition dust_ledger_events ::
  "(bytes \<Rightarrow> string) \<Rightarrow> nat \<Rightarrow> u64 option \<Rightarrow> chain_db list list \<Rightarrow> (dust_ledger_event list \<times> stream_error stream_end) option" where
  "dust_ledger_events hex_encode = ledger_events_subscription Dust (dust_ledger_event_try_from hex_encode)"

section \<open>Contract events\<close>

record api_contract_event =
  ace_id :: u64
  ace_contract_address :: bytes
  ace_transaction_id :: u64
  ace_contract_action_id :: "u64 option"
  ace_raw :: bytes
  ace_attributes :: ledger_event_attributes
  ace_max_id :: u64
  ace_protocol_version :: protocol_version

definition contract_event_from_row :: "i64 option \<Rightarrow> event_join \<Rightarrow> sqlx_error + api_contract_event" where
  "contract_event_from_row max_id = (\<lambda>(i, r, t).
     and_then (col_u64 i) (\<lambda>id.
     and_then (col_not_null Inr (e_contract_address r)) (\<lambda>address.
     and_then (col_u64 (e_transaction_id r)) (\<lambda>transaction_id.
     and_then (col_opt col_u64 (e_contract_action_id r)) (\<lambda>action_id.
     and_then (col_not_null col_u64 max_id) (\<lambda>max_id.
     map_ok (\<lambda>version. \<lparr>ace_id = id, ace_contract_address = address, ace_transaction_id = transaction_id,
         ace_contract_action_id = action_id, ace_raw = e_raw r, ace_attributes = e_attributes r, ace_max_id = max_id,
         ace_protocol_version = version\<rparr>)
       (col_version (t_protocol_version t))))))))"

record event_filter =
  ef_contract_address :: bytes
  ef_variants :: "string list"
  ef_field_prefixes :: "(string \<times> bytes) list"
  ef_from_block :: "u32 option"
  ef_to_block :: "u32 option"
  ef_transaction_hash :: "bytes option"

text \<open>The text of the column \<^verbatim>\<open>variant\<close>.\<close>

fun variant_text :: "ledger_event_variant \<Rightarrow> string" where
  "variant_text VZswapInput = ''ZswapInput''"
| "variant_text VZswapOutput = ''ZswapOutput''"
| "variant_text VParamChange = ''ParamChange''"
| "variant_text VDustInitialUtxo = ''DustInitialUtxo''"
| "variant_text VDustGenerationDtimeUpdate = ''DustGenerationDtimeUpdate''"
| "variant_text VDustSpendProcessed = ''DustSpendProcessed''"
| "variant_text VShieldedSpend = ''ShieldedSpend''"
| "variant_text VShieldedReceive = ''ShieldedReceive''"
| "variant_text VShieldedMint = ''ShieldedMint''"
| "variant_text VShieldedBurn = ''ShieldedBurn''"
| "variant_text VUnshieldedSpend = ''UnshieldedSpend''"
| "variant_text VUnshieldedReceive = ''UnshieldedReceive''"
| "variant_text VUnshieldedMint = ''UnshieldedMint''"
| "variant_text VUnshieldedBurn = ''UnshieldedBurn''"
| "variant_text VPaused = ''Paused''"
| "variant_text VUnpaused = ''Unpaused''"
| "variant_text VMisc = ''Misc''"

definition opt_all :: "('a \<Rightarrow> bool) \<Rightarrow> 'a option \<Rightarrow> bool" where
  "opt_all p v = (case v of None \<Rightarrow> True | Some x \<Rightarrow> p x)"

text \<open>\<^verbatim>\<open>EXISTS (SELECT 1 FROM contract_event_indexed_fields ..)\<close> for one prefix.\<close>

definition field_starts :: "chain_db \<Rightarrow> i64 \<Rightarrow> string \<times> bytes \<Rightarrow> bool" where
  "field_starts db i = (\<lambda>(name, pre).
     list_ex (\<lambda>(_, f). f_ledger_event_id f = i \<and> f_name f = name \<and> take (length pre) (f_value f) = pre)
       (tab_rows (indexed_fields db)))"

definition base_query :: "event_filter \<Rightarrow> chain_db \<Rightarrow> i64 \<times> ledger_event_row \<Rightarrow> bool" where
  "base_query flt db = (\<lambda>(i, r). e_grouping r = Contract \<and> e_contract_address r = Some (ef_contract_address flt)
     \<and> (ef_variants flt = [] \<or> variant_text (e_variant r) \<in> set (ef_variants flt))
     \<and> (case row_by_id (transactions db) (e_transaction_id r) of
          None \<Rightarrow> False
        | Some t \<Rightarrow> (case row_by_id (blocks db) (t_block_id t) of
            None \<Rightarrow> False
          | Some b \<Rightarrow> opt_all (\<lambda>h. u32_as_i64 h \<le> b_height b) (ef_from_block flt)
              \<and> opt_all (\<lambda>h. b_height b \<le> u32_as_i64 h) (ef_to_block flt)
              \<and> opt_all (\<lambda>h. t_hash t = h) (ef_transaction_hash flt)))
     \<and> list_all (field_starts db i) (ef_field_prefixes flt))"

definition contract_event_rows :: "(i64 \<times> ledger_event_row \<Rightarrow> bool) \<Rightarrow> chain_db \<Rightarrow> event_join list" where
  "contract_event_rows p db =
     sort_key fst (Chain_Storage.filter_map (join_transaction db) (select_where p (ledger_events db)))"

definition get_contract_events ::
  "event_filter \<Rightarrow> u32 \<Rightarrow> u32 \<Rightarrow> chain_db \<Rightarrow> sqlx_error + api_contract_event list" where
  "get_contract_events flt limit offset db =
     try_map (contract_event_from_row (max_event_id Contract db))
       (take (unat limit) (drop (unat offset) (contract_event_rows (base_query flt db) db)))"

definition get_contract_events_chunk ::
  "event_filter \<Rightarrow> nat \<Rightarrow> u64 \<Rightarrow> chain_db \<Rightarrow> sqlx_error + api_contract_event list" where
  "get_contract_events_chunk flt batch_size from_id db =
     try_map (contract_event_from_row (max_event_id Contract db))
       (take batch_size (contract_event_rows (\<lambda>(i, r). base_query flt db (i, r) \<and> as_i64 from_id \<le> i) db))"

definition get_contract_events_from_id ::
  "event_filter \<Rightarrow> u64 \<Rightarrow> nat \<Rightarrow> chain_db list \<Rightarrow> (api_contract_event list \<times> sqlx_error option) option" where
  "get_contract_events_from_id flt from_id batch_size dbs =
     pages (get_contract_events_chunk flt batch_size) (\<lambda>e. ace_id e + 1) from_id dbs"

definition get_contract_events_by_contract_action_ids ::
  "u64 list \<Rightarrow> chain_db \<Rightarrow> sqlx_error + (u64 \<times> api_contract_event) list" where
  "get_contract_events_by_contract_action_ids ids db =
     (if ids = [] then Inr []
      else map_ok (Chain_Storage.filter_map (\<lambda>e. map_option (\<lambda>key. (key, e)) (ace_contract_action_id e)))
        (try_map (contract_event_from_row (max_event_id Contract db))
          (contract_event_rows (\<lambda>(_, r). e_grouping r = Contract
             \<and> (case e_contract_action_id r of None \<Rightarrow> False | Some i \<Rightarrow> i \<in> set (map as_i64 ids))) db)))"

subsection \<open>GraphQL types\<close>

record contract_event_base =
  ceb_id :: u64
  ceb_raw :: string
  ceb_max_id :: u64
  ceb_protocol_version :: u32
  ceb_version :: u32
  ceb_contract_address :: string
  ceb_transaction_id :: u64

datatype address_kind = UserKind | ContractKind

record graphql_address =
  ga_kind :: address_kind
  ga_user_address :: "string option"
  ga_contract_address :: "string option"

fun graphql_address_from :: "(bytes \<Rightarrow> string) \<Rightarrow> address_or_contract \<Rightarrow> graphql_address" where
  "graphql_address_from hex_encode (User b) = \<lparr>ga_kind = UserKind, ga_user_address = Some (hex_encode b), ga_contract_address = None\<rparr>"
| "graphql_address_from hex_encode (ContractAddress b) =
     \<lparr>ga_kind = ContractKind, ga_user_address = None, ga_contract_address = Some (hex_encode b)\<rparr>"

datatype graphql_contract_event =
    ShieldedSpendEvent contract_event_base string
  | ShieldedReceiveEvent contract_event_base string "string option" "string option"
  | ShieldedMintEvent contract_event_base string string "string option"
  | ShieldedBurnEvent contract_event_base string "string option"
  | UnshieldedSpendEvent contract_event_base graphql_address string string string
  | UnshieldedReceiveEvent contract_event_base graphql_address string string string
  | UnshieldedMintEvent contract_event_base string string string
  | UnshieldedBurnEvent contract_event_base graphql_address string string
  | PausedEvent contract_event_base
  | UnpausedEvent contract_event_base
  | MiscContractEvent contract_event_base string string

definition base_from_row :: "(bytes \<Rightarrow> string) \<Rightarrow> api_contract_event \<Rightarrow> u32 \<Rightarrow> contract_event_base" where
  "base_from_row hex_encode row version =
     \<lparr>ceb_id = ace_id row, ceb_raw = hex_encode (ace_raw row), ceb_max_id = ace_max_id row,
      ceb_protocol_version = u32_from (ace_protocol_version row), ceb_version = version,
      ceb_contract_address = hex_encode (ace_contract_address row), ceb_transaction_id = ace_transaction_id row\<rparr>"

definition contract_event_try_from ::
  "(bytes \<Rightarrow> string) \<Rightarrow> api_contract_event \<Rightarrow> unexpected_ledger_event + graphql_contract_event" where
  "contract_event_try_from hx row =
     (case ace_attributes row of
        ContractShieldedSpend version _ nullifier \<Rightarrow>
          Inr (ShieldedSpendEvent (base_from_row hx row version) (hx nullifier))
      | ContractShieldedReceive version _ commitment ciphertext receiving \<Rightarrow>
          Inr (ShieldedReceiveEvent (base_from_row hx row version) (hx commitment) (map_option hx ciphertext) (map_option hx receiving))
      | ContractShieldedMint version _ commitment domain_sep amount \<Rightarrow>
          Inr (ShieldedMintEvent (base_from_row hx row version) (hx commitment) (hx domain_sep) amount)
      | ContractShieldedBurn version _ nullifier amount \<Rightarrow>
          Inr (ShieldedBurnEvent (base_from_row hx row version) (hx nullifier) amount)
      | ContractUnshieldedSpend version _ sender domain_sep token_type amount \<Rightarrow>
          Inr (UnshieldedSpendEvent (base_from_row hx row version) (graphql_address_from hx sender) (hx domain_sep) (hx token_type) amount)
      | ContractUnshieldedReceive version _ recipient domain_sep token_type amount \<Rightarrow>
          Inr (UnshieldedReceiveEvent (base_from_row hx row version) (graphql_address_from hx recipient) (hx domain_sep) (hx token_type) amount)
      | ContractUnshieldedMint version _ domain_sep token_type amount \<Rightarrow>
          Inr (UnshieldedMintEvent (base_from_row hx row version) (hx domain_sep) (hx token_type) amount)
      | ContractUnshieldedBurn version _ sender token_type amount \<Rightarrow>
          Inr (UnshieldedBurnEvent (base_from_row hx row version) (graphql_address_from hx sender) (hx token_type) amount)
      | ContractPaused version _ \<Rightarrow> Inr (PausedEvent (base_from_row hx row version))
      | ContractUnpaused version _ \<Rightarrow> Inr (UnpausedEvent (base_from_row hx row version))
      | ContractMisc version _ name payload \<Rightarrow>
          Inr (MiscContractEvent (base_from_row hx row version) (hx name) (hx payload))
      | other \<Rightarrow> Inl (UnexpectedLedgerEvent other))"

subsection \<open>The filter\<close>

datatype contract_event_type =
    TShieldedSpend | TShieldedReceive | TShieldedMint | TShieldedBurn | TUnshieldedSpend | TUnshieldedReceive
  | TUnshieldedMint | TUnshieldedBurn | TPaused | TUnpaused | TMisc

fun variant_name :: "contract_event_type \<Rightarrow> string" where
  "variant_name TShieldedSpend = ''ShieldedSpend''"
| "variant_name TShieldedReceive = ''ShieldedReceive''"
| "variant_name TShieldedMint = ''ShieldedMint''"
| "variant_name TShieldedBurn = ''ShieldedBurn''"
| "variant_name TUnshieldedSpend = ''UnshieldedSpend''"
| "variant_name TUnshieldedReceive = ''UnshieldedReceive''"
| "variant_name TUnshieldedMint = ''UnshieldedMint''"
| "variant_name TUnshieldedBurn = ''UnshieldedBurn''"
| "variant_name TPaused = ''Paused''"
| "variant_name TUnpaused = ''Unpaused''"
| "variant_name TMisc = ''Misc''"

record graphql_event_filter =
  gf_contract_address :: string
  gf_types :: "contract_event_type list option"
  gf_field_prefixes :: "(string \<times> string) list option"
  gf_from_block :: "u32 option"
  gf_to_block :: "u32 option"
  gf_transaction_hash :: "string option"

datatype event_filter_error =
    InvalidContractAddress | EmptyContractAddress | EmptyTypes | UnknownFieldName string | InvalidFieldPrefix
  | InvalidBlockRange u32 u32 | InvalidTransactionHash

definition ok_or :: "'e \<Rightarrow> 'a option \<Rightarrow> 'e + 'a" where
  "ok_or e v = (case v of None \<Rightarrow> Inl e | Some x \<Rightarrow> Inr x)"

definition field_prefix_into :: "(string \<Rightarrow> bytes option) \<Rightarrow> string \<times> string \<Rightarrow> event_filter_error + string \<times> bytes" where
  "field_prefix_into hex_decode = (\<lambda>(name, pre).
     if name \<notin> set INDEXABLE_CONTRACT_FIELD_NAMES then Inl (UnknownFieldName name)
     else map_ok (Pair name) (ok_or InvalidFieldPrefix (hex_decode pre)))"

text \<open>\<^verbatim>\<open>hex_decode::<TransactionHash>\<close> also checks the length.\<close>

definition into_domain :: "(string \<Rightarrow> bytes option) \<Rightarrow> graphql_event_filter \<Rightarrow> event_filter_error + event_filter" where
  "into_domain hex_decode f =
     and_then (ok_or InvalidContractAddress (hex_decode (gf_contract_address f))) (\<lambda>address.
     and_then (if address = [] then Inl EmptyContractAddress else Inr ()) (\<lambda>_.
     and_then (case gf_types f of
         Some types \<Rightarrow> if types = [] then Inl EmptyTypes else Inr (map variant_name types)
       | None \<Rightarrow> Inr []) (\<lambda>variants.
     and_then (try_map (field_prefix_into hex_decode) (case gf_field_prefixes f of None \<Rightarrow> [] | Some ps \<Rightarrow> ps)) (\<lambda>prefixes.
     and_then (case (gf_from_block f, gf_to_block f) of
         (Some from_block, Some to_block) \<Rightarrow>
           if to_block < from_block then Inl (InvalidBlockRange from_block to_block) else Inr ()
       | _ \<Rightarrow> Inr ()) (\<lambda>_.
     map_ok (\<lambda>transaction_hash. \<lparr>ef_contract_address = address, ef_variants = variants, ef_field_prefixes = prefixes,
         ef_from_block = gf_from_block f, ef_to_block = gf_to_block f, ef_transaction_hash = transaction_hash\<rparr>)
       (case gf_transaction_hash f of
          None \<Rightarrow> Inr None
        | Some h \<Rightarrow> map_ok Some (ok_or InvalidTransactionHash
            (Option.bind (hex_decode h) (\<lambda>b. if length b = 32 then Some b else None)))))))))"

subsection \<open>The subscription\<close>

definition reached_to_block :: "chain_db \<Rightarrow> u32 option \<Rightarrow> api_error + bool" where
  "reached_to_block db to_block =
     (case to_block of
        None \<Rightarrow> Inr False
      | Some to_block \<Rightarrow> map_ok (\<lambda>latest. case latest of None \<Rightarrow> False | Some b \<Rightarrow> to_block \<le> ab_height b)
          (server_error ''get latest block to evaluate toBlock terminator'' (get_latest_block db)))"

definition live_last_round :: "u32 option \<Rightarrow> u64 \<Rightarrow> bool" where
  "live_last_round to_block height = (case to_block of None \<Rightarrow> False | Some t \<Rightarrow> ucast t \<le> height)"

text \<open>
  \<open>db\<close> is the state at the first check, \<open>existing\<close> the states of the first drain; a live event comes with the height of
  the indexed block and the states of its drain.
\<close>

definition contract_events_subscription ::
  "(bytes \<Rightarrow> string) \<Rightarrow> (string \<Rightarrow> bytes option) \<Rightarrow> graphql_event_filter \<Rightarrow> u64 option \<Rightarrow> nat \<Rightarrow> chain_db
     \<Rightarrow> chain_db list \<Rightarrow> (u64 \<times> chain_db list) list \<Rightarrow> api_error + (graphql_contract_event list \<times> stream_error stream_end) option" where
  "contract_events_subscription hex_encode hex_decode f from_id batch_size db existing live =
     and_then (map_err (\<lambda>_. Client ''invalid contract event filter'') (into_domain hex_decode f)) (\<lambda>flt.
     let from_id = (case from_id of None \<Rightarrow> 0 | Some i \<Rightarrow> i) in
     and_then (if 2 ^ 63 \<le> unat from_id then Inl (Client ''id out of range'') else Inr ()) (\<lambda>_.
     map_ok (\<lambda>last_round. map_option (\<lambda>(items, fin). yield_all (contract_event_try_from hex_encode) items fin)
         (bounded_subscription (get_contract_events_chunk flt batch_size) (\<lambda>e. ace_id e + 1) from_id
           ((last_round, existing) # map (\<lambda>(height, dbs). (live_last_round (ef_to_block flt) height, dbs)) live)))
       (reached_to_block db (ef_to_block flt))))"

end
