(* ===== verification/Api_Event_Streams.thy ===== *)
theory Api_Event_Streams
  imports Api_Fresh Api_Events Api_Tx_Stream
begin

text \<open>
  The subscriptions to ledger events and contract events: every event once, in order, whatever is saved meanwhile,
  and a subscription to contract events with an upper block completes with all events there will ever be.
\<close>

section \<open>Rows\<close>

definition events_ok :: "feature \<Rightarrow> chain_db \<Rightarrow> bool" where
  "events_ok feat db \<longleftrightarrow> stored feat db \<and> tab_next (ledger_events db) < 2 ^ 63 - 1"

lemma row_by_id_in:
  assumes "table_ok t" and "i \<in> table_ids t"
  obtains r where "row_by_id t i = Some r" "(i, r) \<in> set (tab_rows t)"
proof -
  obtain r where r: "(i, r) \<in> set (tab_rows t)" using assms(2) by (auto simp: table_ids_def)
  have "distinct (map fst (tab_rows t))" using assms(1) by (auto simp: table_ok_def strict_sorted_iff)
  then have "row_by_id t i = Some r" using r by (simp add: row_by_id_def)
  then show thesis using r that by blast
qed

lemma event_row:
  assumes "events_ok feat db" and "(i, r) \<in> set (tab_rows (ledger_events db))"
  shows "0 < i" "i < 2 ^ 63 - 1" "event_typed r" "\<And>a. e_contract_action_id r = Some a \<Longrightarrow> 0 < a"
    "\<exists>t v b. row_by_id (transactions db) (e_transaction_id r) = Some t \<and> col_version (t_protocol_version t) = Inr v
       \<and> row_by_id (blocks db) (t_block_id t) = Some b"
    "\<exists>m. max_event_id (e_grouping r) db = Some m \<and> 0 < m"
proof -
  have s: "stored feat db" using assms(1) by (simp add: events_ok_def)
  note ok = stored_ok(1,2) [OF s]
  show i: "0 < i" and "event_typed r" using stored_rows(1) [OF s assms(2)] by simp_all
  have "i < tab_next (ledger_events db)" using ok(1) assms(2) by (force simp: db_ok_defs table_ok_def list_all_iff)
  then show "i < 2 ^ 63 - 1" using assms(1) by (simp add: events_ok_def)
  show "0 < a" if "e_contract_action_id r = Some a" for a
  proof -
    have "a \<in> table_ids (contract_actions db)" using ok(1) assms(2) that by (force simp: db_ok_defs fk_opt_def)
    then show ?thesis using typed_rows(4) [OF ok(2)] by (auto simp: table_ids_def)
  qed
  have "e_transaction_id r \<in> table_ids (transactions db)" using ok(1) assms(2) by (force simp: db_ok_defs fk_def)
  then obtain t where t: "row_by_id (transactions db) (e_transaction_id r) = Some t" "(e_transaction_id r, t) \<in> set (tab_rows (transactions db))"
    using row_by_id_in [of "transactions db" "e_transaction_id r"] ok(1) by (auto simp: db_ok_defs)
  obtain b where "row_by_id (blocks db) (t_block_id t) = Some b" using joined_block [OF ok t(2)] by blast
  moreover obtain v where "col_version (t_protocol_version t) = Inr v"
    using typed_rows(2) [OF ok(2) t(2)] col_version_ok by (auto simp: transaction_typed_def)
  ultimately show "\<exists>t v b. row_by_id (transactions db) (e_transaction_id r) = Some t \<and> col_version (t_protocol_version t) = Inr v
       \<and> row_by_id (blocks db) (t_block_id t) = Some b" using t(1) by blast
  let ?ids = "map fst (select_where (\<lambda>(_, x). e_grouping x = e_grouping r) (ledger_events db))"
  have mem: "i \<in> set ?ids" using assms(2) by (force simp: select_where_def)
  then have "i \<le> Max (set ?ids)" by (intro Max_ge) simp_all
  moreover have "?ids \<noteq> []" using mem by auto
  ultimately show "\<exists>m. max_event_id (e_grouping r) db = Some m \<and> 0 < m"
    using i by (simp add: max_event_id_def max_opt_def)
qed

definition event_tx :: "chain_db \<Rightarrow> ledger_event_row \<Rightarrow> transaction_row" where
  "event_tx db r = the (row_by_id (transactions db) (e_transaction_id r))"

definition event_version :: "chain_db \<Rightarrow> ledger_event_row \<Rightarrow> protocol_version" where
  "event_version db r = projr (col_version (t_protocol_version (event_tx db r)))"

text \<open>The joined rows of a selection, in the order of the table.\<close>

lemma joined_rows:
  assumes "events_ok feat db"
  shows "sort_key fst (Chain_Storage.filter_map (join_transaction db) (select_where p (ledger_events db)))
    = map (\<lambda>(i, r). (i, r, event_tx db r)) (filter p (tab_rows (ledger_events db)))"
proof -
  let ?xs = "filter p (tab_rows (ledger_events db))"
  have "join_transaction db x = Some (fst x, snd x, event_tx db (snd x))" if "x \<in> set ?xs" for x
    using event_row(5) [OF assms, of "fst x" "snd x"] that by (auto simp: join_transaction_def event_tx_def split_def)
  then have "Chain_Storage.filter_map (join_transaction db) ?xs = map (\<lambda>(i, r). (i, r, event_tx db r)) ?xs"
    by (subst filter_map_all [where g = "\<lambda>x. (fst x, snd x, event_tx db (snd x))"]) (auto simp: split_def)
  moreover have "sorted_wrt (<) (map fst (tab_rows (ledger_events db)))"
    using stored_ok(1) assms by (auto simp: events_ok_def db_ok_defs table_ok_def)
  then have "sorted (map fst (map (\<lambda>(i, r). (i, r, event_tx db r)) ?xs))"
    by (auto simp: sorted_map sorted_wrt_map split_def intro!: sorted_wrt_filter elim: sorted_wrt_mono_rel [rotated])
  ultimately show ?thesis by (simp add: select_where_def sort_key_id_if_sorted)
qed

text \<open>What joins with an event does not change.\<close>

lemma event_joins_later:
  assumes "events_ok feat db" and "stored_later feat db db'" and "(i, r) \<in> set (tab_rows (ledger_events db))"
  shows "event_tx db' r = event_tx db r" "row_by_id (transactions db') (e_transaction_id r) = row_by_id (transactions db) (e_transaction_id r)"
    "\<And>t. row_by_id (transactions db) (e_transaction_id r) = Some t \<Longrightarrow> row_by_id (blocks db') (t_block_id t) = row_by_id (blocks db) (t_block_id t)"
    "field_starts db' i = field_starts db i"
proof -
  have s: "stored feat db" using assms(1) by (simp add: events_ok_def)
  have ext: "extends db db'" by (rule stored_later_extends [OF assms(2) s])
  obtain t b where t: "row_by_id (transactions db) (e_transaction_id r) = Some t" "row_by_id (blocks db) (t_block_id t) = Some b"
    using event_row(5) [OF assms(1,3)] by blast
  have t': "row_by_id (transactions db') (e_transaction_id r) = Some t"
    using row_by_id_prefix [OF _ t(1)] ext by (simp add: extends_def)
  then show "event_tx db' r = event_tx db r" "row_by_id (transactions db') (e_transaction_id r) = row_by_id (transactions db) (e_transaction_id r)"
    using t(1) by (simp_all add: event_tx_def)
  show "row_by_id (blocks db') (t_block_id u) = row_by_id (blocks db) (t_block_id u)"
    if "row_by_id (transactions db) (e_transaction_id r) = Some u" for u
    using row_by_id_prefix [OF _ t(2)] ext t that by (simp add: extends_def)
  have "i < tab_next (ledger_events db)" using stored_ok(1) [OF s] assms(3) by (force simp: db_ok_defs table_ok_def list_all_iff)
  moreover have "appended (\<lambda>f. tab_next (ledger_events db) \<le> f_ledger_event_id f) (indexed_fields db) (indexed_fields db')"
    using stored_later_later [OF assms(2)] by (simp add: later_def fresh_def)
  ultimately show "field_starts db' i = field_starts db i"
    by (fastforce simp: field_starts_def appended_def list_all_iff list_ex_iff fun_eq_iff)
qed

section \<open>Ledger events\<close>

definition ledger_item :: "chain_db \<Rightarrow> i64 \<times> ledger_event_row \<Rightarrow> api_ledger_event" where
  "ledger_item db = (\<lambda>(i, r). \<lparr>ale_id = as_u64 i, ale_raw = e_raw r, ale_attributes = e_attributes r, ale_max_id = 0,
     ale_protocol_version = event_version db r\<rparr>)"

text \<open>The highest id is that of the state a page is read from; apart from it, an event never changes.\<close>

definition forget_max :: "api_ledger_event \<Rightarrow> api_ledger_event" where
  "forget_max e = e\<lparr>ale_max_id := 0\<rparr>"

lemma forget_max_simps [simp]:
  "ale_id (forget_max e) = ale_id e" "ale_raw (forget_max e) = ale_raw e" "ale_attributes (forget_max e) = ale_attributes e"
  "ale_protocol_version (forget_max e) = ale_protocol_version e"
  by (simp_all add: forget_max_def)

lemma try_map_forget:
  "(\<And>x. x \<in> set xs \<Longrightarrow> \<exists>y. f x = Inr y \<and> g y = h x) \<Longrightarrow> map_ok (map g) (try_map f xs) = Inr (map h xs)"
proof (induction xs)
  case (Cons x xs)
  then obtain y where "f x = Inr y" "g y = h x" by auto
  moreover have "map_ok (map g) (try_map f xs) = Inr (map h xs)" using Cons by simp
  ultimately show ?case by (auto simp: map_ok_Inr_iff)
qed simp

lemma ledger_page_eq:
  assumes ok: "events_ok feat db"
  shows "map_ok (map forget_max) (get_ledger_events_page g limit c db)
    = Inr (take limit (map (ledger_item db) (filter (\<lambda>p. e_grouping (snd p) = g \<and> as_i64 c \<le> fst p) (tab_rows (ledger_events db)))))"
proof -
  let ?xs = "take limit (filter (\<lambda>p. e_grouping (snd p) = g \<and> as_i64 c \<le> fst p) (tab_rows (ledger_events db)))"
  have "map_ok (map forget_max) (get_ledger_events_page g limit c db)
      = map_ok (map forget_max) (try_map (\<lambda>(i, r). ledger_event_from_row (max_event_id g db) (i, r, event_tx db r)) ?xs)"
    by (simp add: get_ledger_events_page_def joined_rows [OF ok] split_def take_map try_map_map comp_def)
  also have "\<dots> = Inr (map (ledger_item db) ?xs)"
  proof (rule try_map_forget)
    fix p assume m: "p \<in> set ?xs"
    obtain i r where p: "p = (i, r)" by (cases p)
    have p: "p = (i, r)" "(i, r) \<in> set (tab_rows (ledger_events db))" "e_grouping r = g"
      using in_set_takeD [OF m] p by auto
    from event_row [OF ok p(2)] p(3) obtain t v m where
      "0 < i" "row_by_id (transactions db) (e_transaction_id r) = Some t" "col_version (t_protocol_version t) = Inr v"
      "max_event_id g db = Some m" "0 < m" by metis
    then show "\<exists>y. (case p of (i, r) \<Rightarrow> ledger_event_from_row (max_event_id g db) (i, r, event_tx db r)) = Inr y
        \<and> forget_max y = ledger_item db p"
      by (simp add: p(1) ledger_event_from_row_def ledger_item_def event_version_def event_tx_def col_not_null_def col_ok as_u64_def forget_max_def)
  qed
  finally show ?thesis by (simp add: take_map)
qed

lemma id_key: "0 < i \<Longrightarrow> i < 2 ^ 63 - 1 \<Longrightarrow> int (unat (as_u64 i)) = i \<and> as_i64 (as_u64 i + 1) = i + 1"
proof -
  assume i: "0 < i" "i < 2 ^ 63 - 1"
  then have "int (unat (as_u64 i)) = i" by (simp add: as_u64_def uint_word_of_int_eq take_bit_int_eq_self)
  moreover have "as_u64 i + 1 = as_u64 (i + 1)" by (simp add: as_u64_def)
  ultimately show ?thesis using as_i64_as_u64 [of "i + 1"] i by simp
qed

lemma event_tables_grown:
  "stored_later feat db db' \<Longrightarrow> events_ok feat db \<Longrightarrow> prefix (tab_rows (ledger_events db)) (tab_rows (ledger_events db'))"
  using stored_later_extends [of feat db db'] by (simp add: events_ok_def extends_def)

lemma event_ids_ascend: "events_ok feat db \<Longrightarrow> sorted_wrt (<) (map fst (tab_rows (ledger_events db)))"
  using stored_ok(1) [of feat db] by (simp add: events_ok_def db_ok_defs table_ok_def)

interpretation ledger_pages: id_paged "\<lambda>(feat, _). events_ok feat" "\<lambda>(feat, _). stored_later feat" "\<lambda>db. tab_rows (ledger_events db)"
  "\<lambda>(_, g) _ p. e_grouping (snd p) = g" "\<lambda>_. ledger_item" "\<lambda>x. int (unat (ale_id x))" as_i64 "\<lambda>e. ale_id e + 1"
  "\<lambda>(_, g) limit c db. map_ok (map forget_max) (get_ledger_events_page g limit c db)"
proof (unfold_locales, goal_cases)
  case (1 q db)
  then show ?case using event_ids_ascend by (auto simp: split_def)
next
  case (2 q db p)
  then show ?case using event_row(1,2) [of "fst q" db "fst p" "snd p"] id_key by (simp add: ledger_item_def split_def del: of_nat_unat)
next
  case (3 q db p)
  then show ?case using event_row(1,2) [of "fst q" db "fst p" "snd p"] id_key by (simp add: ledger_item_def split_def)
next
  case (4 q db db')
  then show ?case using event_tables_grown by (auto simp: split_def)
next
  case (5 q db db' p)
  then show ?case using event_joins_later(1) [of "fst q" db db' "fst p" "snd p"]
    by (simp add: ledger_item_def event_version_def split_def)
next
  case (6 q db limit c)
  then show ?case using ledger_page_eq [of "fst q" db "snd q" limit c] by (simp add: split_def)
qed

subsection \<open>The subscriptions\<close>

definition events_from :: "ledger_event_grouping \<Rightarrow> u64 option \<Rightarrow> chain_db \<Rightarrow> (i64 \<times> ledger_event_row) list" where
  "events_from g from_id db = filter (\<lambda>(i, r). e_grouping r = g \<and> as_i64 (case from_id of None \<Rightarrow> 1 | Some i \<Rightarrow> i) \<le> i)
     (tab_rows (ledger_events db))"

lemma ledger_subscription:
  assumes "growing (events_ok feat) (stored_later feat) (concat events)" and "0 < batch_size" and "events \<noteq> []"
    and "\<And>dbs db. dbs \<in> set events \<Longrightarrow> db \<in> set dbs \<Longrightarrow> length (tab_rows (ledger_events db)) < length dbs" and "[] \<notin> set events"
  obtains items c' db where
    "subscription (get_ledger_events_page g batch_size) (\<lambda>e. ale_id e + 1) (case from_id of None \<Rightarrow> 1 | Some i \<Rightarrow> i) events = Some (items, c', None)"
    "db \<in> set (last events)" "events_ok feat db" "map forget_max (map snd items) = map (ledger_item db) (events_from g from_id db)"
proof -
  let ?c = "case from_id of None \<Rightarrow> 1 | Some i \<Rightarrow> i"
  let ?sub = "subscription (get_ledger_events_page g batch_size) (\<lambda>e. ale_id e + 1) ?c events"
  let ?psub = "subscription (\<lambda>c db. map_ok (map forget_max) (get_ledger_events_page g batch_size c db)) (\<lambda>e. ale_id e + 1) ?c events"
  have proj: "?psub = map_option (\<lambda>(ys, c', e). (map (apsnd forget_max) ys, c', e)) ?sub" by (rule subscription_map) simp
  have fewer: "length (ledger_pages.id_rows (feat, g) db) < length dbs" if "dbs \<in> set events" "db \<in> set dbs" for dbs db
    using assms(4) [OF that] by (auto simp: ledger_pages.id_rows_def intro: le_less_trans [OF length_filter_le])
  have "?psub \<noteq> None"
    using ledger_pages.subscription_ends [of "(feat, g)" events batch_size ?c] assms(1,2,5) fewer by (simp add: ledger_pages.id_rows_def)
  then obtain items c' e where sub: "?sub = Some (items, c', e)" using proj by (cases ?sub) auto
  then have psub: "?psub = Some (map (apsnd forget_max) items, c', e)" using proj by simp
  from ledger_pages.subscription_complete [of "(feat, g)" events batch_size ?c "map (apsnd forget_max) items" c' e, unfolded prod.case, OF assms(1-3) psub]
  obtain db where db: "e = None" "db \<in> set (last events)" and items: "map snd (map (apsnd forget_max) items)
      = filter (\<lambda>x. as_i64 ?c \<le> int (unat (ale_id x))) (ledger_pages.id_rows (feat, g) db)" by blast
  have ok: "events_ok feat db" using growingD [OF assms(1)] db(2) last_in_set [OF assms(3)] by auto
  have "map forget_max (map snd items) = map (ledger_item db) (events_from g from_id db)"
    using items ledger_pages.id_rows_from [of "(feat, g)" db ?c] ok by (simp add: comp_def events_from_def split_def)
  then show thesis using that sub db ok by blast
qed

fun dust_base :: "dust_ledger_event \<Rightarrow> zswap_ledger_event" where
  "dust_base (ParamChangeEvent b) = b"
| "dust_base (DustInitialUtxoEvent b _) = b"
| "dust_base (DustGenerationDtimeUpdateEvent b) = b"
| "dust_base (DustSpendProcessedEvent b) = b"

lemma yield_ledger_items:
  assumes "events_ok feat db" and "map forget_max xs = map (ledger_item db) (events_from g from_id db)"
    and "\<And>x. grouping_of (ale_attributes x) = g \<Longrightarrow> \<exists>y. conv x = Inr y \<and> base y = event_base hx x"
  shows "\<exists>ys. yield_all conv xs Waiting = (ys, Waiting) \<and> map (\<lambda>y. (zle_id (base y), zle_raw (base y))) ys
    = map (\<lambda>(i, r). (as_u64 i, hx (e_raw r))) (events_from g from_id db)"
proof -
  have "\<exists>y. conv x = Inr y \<and> base y = event_base hx x" if "x \<in> set xs" for x
  proof (rule assms(3))
    have "forget_max x \<in> ledger_item db ` set (events_from g from_id db)"
      using that assms(2) by (metis image_eqI image_set)
    then obtain i r where x: "forget_max x = ledger_item db (i, r)" and r: "(i, r) \<in> set (tab_rows (ledger_events db))" "e_grouping r = g"
      by (auto simp: events_from_def)
    have "ale_attributes x = e_attributes r" using arg_cong [OF x, of ale_attributes] by (simp add: ledger_item_def)
    then show "grouping_of (ale_attributes x) = g" using event_row(3) [OF assms(1) r(1)] r(2) by (simp add: event_typed_def)
  qed
  then have y: "conv x = Inr (projr (conv x)) \<and> base (projr (conv x)) = event_base hx x" if "x \<in> set xs" for x using that by force
  let ?ys = "map (\<lambda>x. projr (conv x)) xs"
  have "yield_all conv xs Waiting = (?ys, Waiting)" using y by (simp add: yield_all_def convert_items_all [where g = "\<lambda>x. projr (conv x)"])
  moreover have "map (\<lambda>y. (zle_id (base y), zle_raw (base y))) ?ys = map (\<lambda>x. (ale_id x, hx (ale_raw x))) xs"
    using y by (auto simp: event_base_def)
  moreover have "\<dots> = map (\<lambda>x. (ale_id x, hx (ale_raw x))) (map forget_max xs)" by simp
  ultimately show ?thesis unfolding assms(2) by (simp add: ledger_item_def comp_def split_def)
qed

text \<open>
  C27. The subscriptions to zswap and dust ledger events yield every stored event of their kind from the given id on, or from
  the first one, exactly once and in order, with its id and its encoded content, however blocks are added while they read their
  pages; they never fail and then wait for the next block.
\<close>

theorem ledger_events_complete:
  assumes "growing (events_ok feat) (stored_later feat) (concat events)" and "0 < batch_size" and "events \<noteq> []"
    and "\<And>dbs db. dbs \<in> set events \<Longrightarrow> db \<in> set dbs \<Longrightarrow> length (tab_rows (ledger_events db)) < length dbs" and "[] \<notin> set events"
  shows "\<exists>zs ds db db'. db \<in> set (last events) \<and> db' \<in> set (last events)
    \<and> zswap_ledger_events hx batch_size from_id events = Some (zs, Waiting)
    \<and> map (\<lambda>e. (zle_id e, zle_raw e)) zs = map (\<lambda>(i, r). (as_u64 i, hx (e_raw r))) (events_from Zswap from_id db)
    \<and> dust_ledger_events hx batch_size from_id events = Some (ds, Waiting)
    \<and> map (\<lambda>e. (zle_id (dust_base e), zle_raw (dust_base e))) ds = map (\<lambda>(i, r). (as_u64 i, hx (e_raw r))) (events_from Dust from_id db')"
proof -
  obtain items c db where z: "subscription (get_ledger_events_page Zswap batch_size) (\<lambda>e. ale_id e + 1)
        (case from_id of None \<Rightarrow> 1 | Some i \<Rightarrow> i) events = Some (items, c, None)" "db \<in> set (last events)" "events_ok feat db"
      "map forget_max (map snd items) = map (ledger_item db) (events_from Zswap from_id db)"
    using ledger_subscription [OF assms] by blast
  obtain items' c' db' where d: "subscription (get_ledger_events_page Dust batch_size) (\<lambda>e. ale_id e + 1)
        (case from_id of None \<Rightarrow> 1 | Some i \<Rightarrow> i) events = Some (items', c', None)" "db' \<in> set (last events)" "events_ok feat db'"
      "map forget_max (map snd items') = map (ledger_item db') (events_from Dust from_id db')"
    using ledger_subscription [OF assms] by blast
  have zc: "\<exists>y. zswap_ledger_event_try_from hx x = Inr y \<and> id y = event_base hx x" if "grouping_of (ale_attributes x) = Zswap" for x
    using that by (cases "ale_attributes x") (simp_all add: zswap_ledger_event_try_from_def)
  have dc: "\<exists>y. dust_ledger_event_try_from hx x = Inr y \<and> dust_base y = event_base hx x" if "grouping_of (ale_attributes x) = Dust" for x
    using that by (cases "ale_attributes x") (simp_all add: dust_ledger_event_try_from_def)
  show ?thesis
    using yield_ledger_items [OF z(3,4) zc] yield_ledger_items [OF d(3,4) dc] z(1,2) d(1,2)
    by (auto simp: zswap_ledger_events_def dust_ledger_events_def ledger_events_subscription_def)
qed

definition event_sample_tx :: transaction where
  "event_sample_tx = (case api_sample_tx 11 0 2 [] [] of
     Regular t \<Rightarrow> Regular (t\<lparr>rt_ledger_events := [zswap_output [5], param_change [6], contract_event [7] [9] None (ContractPaused 1 [8])]\<rparr>)
   | System t \<Rightarrow> System t)"

definition event_sample_db :: chain_db where
  "event_sample_db = snd (save_block Cloud (api_sample_block 1 0) [event_sample_tx] [] [77] None empty_chain_db)"

lemma event_sample_save:
  "\<exists>mx. save_block Cloud (api_sample_block 1 0) [event_sample_tx] [] [77] None empty_chain_db = (Inr mx, event_sample_db)
     \<and> tab_next (transactions event_sample_db) = 2 \<and> tab_next (ledger_events event_sample_db) = 4
     \<and> map (\<lambda>(i, r). (i, e_grouping r, e_contract_address r, e_transaction_id r)) (tab_rows (ledger_events event_sample_db))
       = [(1, Zswap, None, 1), (2, Dust, None, 1), (3, Contract, Some [9], 1)]
     \<and> map (\<lambda>(i, t). (i, t_block_id t)) (tab_rows (transactions event_sample_db)) = [(1, 1)]
     \<and> map (\<lambda>(i, b). (i, b_height b)) (tab_rows (blocks event_sample_db)) = [(1, 0)]"
  by (simp add: event_sample_db_def event_sample_tx_def api_sample_defs sample_defs Let_def as_i64_def zswap_output_def param_change_def
      contract_event_def save_ledger_events_def ledger_event_row_of_def correlate_contract_action_ids_def correlate_contract_action_id_def
      save_contract_event_indexed_fields_def indexable_contract_fields_def save_dust_generation_info_def save_dust_generation_event_def
      save_dust_nullifiers_def save_zswap_nullifiers_def Chain_Storage.filter_map_def)

lemma event_sample_ok: "events_ok Cloud event_sample_db"
proof -
  have "tx_fits event_sample_tx"
    using api_sample_fits(3) by (simp add: event_sample_tx_def api_sample_tx_def event_fits_def zswap_output_def param_change_def contract_event_def)
  moreover have "above_all (as_i64 (bl_height (api_sample_block 1 0))) b_height (blocks empty_chain_db)"
    by (simp add: above_all_def empty_chain_db_def empty_table_def)
  ultimately have "store_step Cloud empty_chain_db event_sample_db"
    using event_sample_save api_sample_fits(1) unfolding store_step_def by fastforce
  then show ?thesis using event_sample_save unfolding events_ok_def stored_def by auto
qed

lemma event_sample_keys:
  "map (\<lambda>(i, r). (i, e_grouping r, e_contract_address r, e_transaction_id r)) (tab_rows (ledger_events event_sample_db))
     = [(1, Zswap, None, 1), (2, Dust, None, 1), (3, Contract, Some [9], 1)]"
  using event_sample_save by blast

lemma event_sample_rows: "length (tab_rows (ledger_events event_sample_db)) = 3"
  using arg_cong [OF event_sample_keys, of length] by simp

theorem ledger_events_complete_witness:
  "\<exists>zs. zswap_ledger_events (\<lambda>_. ''00'') 1 None [replicate 4 event_sample_db] = Some (zs, Waiting) \<and> map zle_id zs = [1]"
proof -
  let ?events = "[replicate 4 event_sample_db]"
  have grow: "growing (events_ok Cloud) (stored_later Cloud) (concat ?events)"
    using event_sample_ok by (simp add: numeral_eq_Suc)
  have more: "length (tab_rows (ledger_events db)) < length dbs" if "dbs \<in> set ?events" "db \<in> set dbs" for dbs db
    using that event_sample_rows by auto
  have side: "0 < (1 :: nat)" "?events \<noteq> []" "[] \<notin> set ?events" by simp_all
  have "\<exists>zs ds db db'. db \<in> set (last ?events) \<and> db' \<in> set (last ?events)
    \<and> zswap_ledger_events (\<lambda>_. ''00'') 1 None ?events = Some (zs, Waiting)
    \<and> map (\<lambda>e. (zle_id e, zle_raw e)) zs = map (\<lambda>(i, r). (as_u64 i, ''00'')) (events_from Zswap None db)
    \<and> dust_ledger_events (\<lambda>_. ''00'') 1 None ?events = Some (ds, Waiting)
    \<and> map (\<lambda>e. (zle_id (dust_base e), zle_raw (dust_base e))) ds = map (\<lambda>(i, r). (as_u64 i, ''00'')) (events_from Dust None db')"
    by (rule ledger_events_complete [where hx = "\<lambda>_. ''00''" and from_id = None, OF grow side(1,2) _ side(3)]) (rule more)
  then obtain zs db where db: "db \<in> set (last ?events)"
    and z: "zswap_ledger_events (\<lambda>_. ''00'') 1 None ?events = Some (zs, Waiting)"
    and zs: "map (\<lambda>e. (zle_id e, zle_raw e)) zs = map (\<lambda>(i, r). (as_u64 i, ''00'')) (events_from Zswap None db)" by blast
  have "db = event_sample_db" using db by simp
  with zs have zs: "map (\<lambda>e. (zle_id e, zle_raw e)) zs = map (\<lambda>(i, r). (as_u64 i, ''00'')) (events_from Zswap None event_sample_db)" by simp
  let ?keys = "map (\<lambda>(i, r). (i, e_grouping r, e_contract_address r, e_transaction_id r)) (tab_rows (ledger_events event_sample_db))"
  have "map fst (events_from Zswap None event_sample_db) = map fst (filter (\<lambda>(i, g, _). g = Zswap \<and> 1 \<le> i) ?keys)"
    by (simp add: events_from_def filter_map comp_def split_def as_i64_def)
  then have ids: "map fst (events_from Zswap None event_sample_db) = [1]" unfolding event_sample_keys by simp
  have "map zle_id zs = map as_u64 (map fst (events_from Zswap None event_sample_db))"
    using arg_cong [OF zs, of "map fst"] by (simp add: split_def comp_def)
  then have "map zle_id zs = [1]" unfolding ids by (simp add: as_u64_def)
  with z show ?thesis by (intro exI [of _ zs] conjI)
qed

section \<open>Contract events\<close>

definition contract_item :: "chain_db \<Rightarrow> i64 \<times> ledger_event_row \<Rightarrow> api_contract_event" where
  "contract_item db = (\<lambda>(i, r). \<lparr>ace_id = as_u64 i, ace_contract_address = the (e_contract_address r),
     ace_transaction_id = as_u64 (e_transaction_id r), ace_contract_action_id = map_option as_u64 (e_contract_action_id r),
     ace_raw = e_raw r, ace_attributes = e_attributes r, ace_max_id = 0, ace_protocol_version = event_version db r\<rparr>)"

definition forget_contract_max :: "api_contract_event \<Rightarrow> api_contract_event" where
  "forget_contract_max e = e\<lparr>ace_max_id := 0\<rparr>"

lemma forget_contract_max_simps [simp]:
  "ace_id (forget_contract_max e) = ace_id e" "ace_raw (forget_contract_max e) = ace_raw e"
  "ace_attributes (forget_contract_max e) = ace_attributes e"
  by (simp_all add: forget_contract_max_def)

lemma contract_row_decodes:
  assumes ok: "events_ok feat db" and r: "(i, r) \<in> set (tab_rows (ledger_events db))" and g: "e_grouping r = Contract"
  shows "\<exists>y. contract_event_from_row (max_event_id Contract db) (i, r, event_tx db r) = Inr y
    \<and> forget_contract_max y = contract_item db (i, r)"
proof -
  obtain t v m where *: "row_by_id (transactions db) (e_transaction_id r) = Some t" "col_version (t_protocol_version t) = Inr v"
      "max_event_id Contract db = Some m" "0 < m" using event_row(5,6) [OF ok r] g by metis
  obtain a where "e_contract_address r = Some a" "0 < e_transaction_id r"
    using event_row(3) [OF ok r] g by (auto simp: event_typed_def)
  moreover have "col_opt col_u64 (e_contract_action_id r) = Inr (map_option as_u64 (e_contract_action_id r))"
    using event_row(4) [OF ok r] by (cases "e_contract_action_id r") (simp_all add: col_opt_def col_ok as_u64_def)
  ultimately show ?thesis using event_row(1) [OF ok r] *
    by (simp add: contract_event_from_row_def contract_item_def event_version_def event_tx_def col_not_null_def col_ok as_u64_def
        forget_contract_max_def)
qed

lemma contract_page_eq:
  assumes ok: "events_ok feat db"
  shows "map_ok (map forget_contract_max) (get_contract_events_chunk flt limit c db)
    = Inr (take limit (map (contract_item db) (filter (\<lambda>p. base_query flt db p \<and> as_i64 c \<le> fst p) (tab_rows (ledger_events db)))))"
proof -
  let ?xs = "take limit (filter (\<lambda>p. base_query flt db p \<and> as_i64 c \<le> fst p) (tab_rows (ledger_events db)))"
  have "map_ok (map forget_contract_max) (get_contract_events_chunk flt limit c db)
      = map_ok (map forget_contract_max) (try_map (\<lambda>(i, r). contract_event_from_row (max_event_id Contract db) (i, r, event_tx db r)) ?xs)"
    by (simp add: get_contract_events_chunk_def contract_event_rows_def joined_rows [OF ok] split_def take_map try_map_map comp_def)
  also have "\<dots> = Inr (map (contract_item db) ?xs)"
  proof (rule try_map_forget)
    fix p assume m: "p \<in> set ?xs"
    obtain i r where p: "p = (i, r)" by (cases p)
    have "(i, r) \<in> set (tab_rows (ledger_events db))" "e_grouping r = Contract"
      using in_set_takeD [OF m] p by (auto simp: base_query_def)
    then show "\<exists>y. (case p of (i, r) \<Rightarrow> contract_event_from_row (max_event_id Contract db) (i, r, event_tx db r)) = Inr y
        \<and> forget_contract_max y = contract_item db p"
      using contract_row_decodes [OF ok] by (simp add: p)
  qed
  finally show ?thesis by (simp add: take_map)
qed

lemma base_query_later:
  assumes "events_ok feat db" and "stored_later feat db db'" and "p \<in> set (tab_rows (ledger_events db))"
  shows "base_query flt db' p = base_query flt db p"
proof -
  obtain i r where p: "p = (i, r)" by (cases p)
  note j = event_joins_later [OF assms(1,2), of i r]
  show ?thesis using assms(3) j(2-4) by (auto simp: base_query_def p split: option.splits)
qed

interpretation contract_event_pages: id_paged "\<lambda>(feat, _). events_ok feat" "\<lambda>(feat, _). stored_later feat"
  "\<lambda>db. tab_rows (ledger_events db)" "\<lambda>(_, flt). base_query flt" "\<lambda>_. contract_item" "\<lambda>x. int (unat (ace_id x))" as_i64
  "\<lambda>e. ace_id e + 1" "\<lambda>(_, flt) limit c db. map_ok (map forget_contract_max) (get_contract_events_chunk flt limit c db)"
proof (unfold_locales, goal_cases)
  case (1 q db)
  then show ?case using event_ids_ascend by (auto simp: split_def)
next
  case (2 q db p)
  then show ?case using event_row(1,2) [of "fst q" db "fst p" "snd p"] id_key by (simp add: contract_item_def split_def del: of_nat_unat)
next
  case (3 q db p)
  then show ?case using event_row(1,2) [of "fst q" db "fst p" "snd p"] id_key by (simp add: contract_item_def split_def)
next
  case (4 q db db')
  then show ?case using event_tables_grown by (auto simp: split_def)
next
  case (5 q db db' p)
  then show ?case using event_joins_later(1) [of "fst q" db db' "fst p" "snd p"] base_query_later [of "fst q" db db' p "snd q"]
    by (simp add: contract_item_def event_version_def split_def)
next
  case (6 q db limit c)
  then show ?case using contract_page_eq [of "fst q" db "snd q" limit c] by (simp add: split_def)
qed

subsection \<open>No event is added below a height the chain has reached\<close>

definition chain_reached :: "chain_db \<Rightarrow> u32 \<Rightarrow> bool" where
  "chain_reached db h = list_ex (\<lambda>(_, b). u32_as_i64 h \<le> b_height b) (tab_rows (blocks db))"

lemma new_event_above:
  assumes "events_ok feat db'" and "stored feat db" and "later db db'" and "(i, r) \<in> set (tab_rows (ledger_events db'))"
    and "tab_next (transactions db) \<le> e_transaction_id r" and "chain_reached db h"
    and "row_by_id (transactions db') (e_transaction_id r) = Some t" and "row_by_id (blocks db') (t_block_id t) = Some b"
  shows "u32_as_i64 h < b_height b"
proof -
  have ids: "x < tab_next tab" if "table_ok tab" "(x, y) \<in> set (tab_rows tab)" for x y and tab :: "'a table"
    using that by (force simp: table_ok_def list_all_iff)
  have t: "(e_transaction_id r, t) \<in> set (tab_rows (transactions db'))" using assms(7) by (auto simp: row_by_id_def dest: map_of_SomeD)
  have b: "(t_block_id t, b) \<in> set (tab_rows (blocks db'))" using assms(8) by (auto simp: row_by_id_def dest: map_of_SomeD)
  have ok: "table_ok (transactions db)" "table_ok (blocks db)" using stored_ok(1) [OF assms(2)] by (simp_all add: db_ok_defs)
  have "(e_transaction_id r, t) \<notin> set (tab_rows (transactions db))"
    using ok(1) assms(5) by (force simp: table_ok_def list_all_iff)
  then have "tab_next (blocks db) \<le> t_block_id t"
    using assms(3) t appendedD [of _ "transactions db" "transactions db'"] by (fastforce simp: later_def fresh_def)
  then have "(t_block_id t, b) \<notin> set (tab_rows (blocks db))" using ok(2) by (force simp: table_ok_def list_all_iff)
  then have "above_all (b_height b) b_height (blocks db)"
    using assms(3) b appendedD [of _ "blocks db" "blocks db'"] by (fastforce simp: later_def)
  then show ?thesis using assms(6) by (force simp: above_all_def chain_reached_def list_ex_iff list_all_iff)
qed

lemma contract_events_settled:
  assumes ok: "events_ok feat db" "events_ok feat db'" and l: "stored_later feat db db'"
    and to: "ef_to_block flt = Some h" "chain_reached db h"
  shows "filter (base_query flt db') (tab_rows (ledger_events db')) = filter (base_query flt db) (tab_rows (ledger_events db))"
proof -
  have lt: "later db db'" by (rule stored_later_later [OF l])
  then obtain zs where zs: "tab_rows (ledger_events db') = tab_rows (ledger_events db) @ zs"
    and new: "list_all (\<lambda>(_, r). tab_next (transactions db) \<le> e_transaction_id r) zs"
    by (auto simp: later_def fresh_def appended_def)
  have "\<not> base_query flt db' p" if "p \<in> set zs" for p
  proof
    assume q: "base_query flt db' p"
    obtain i r where p: "p = (i, r)" by (cases p)
    obtain t b where t: "row_by_id (transactions db') (e_transaction_id r) = Some t" "row_by_id (blocks db') (t_block_id t) = Some b"
      and "b_height b \<le> u32_as_i64 h" using q p to(1) by (auto simp: base_query_def opt_all_def split: option.splits)
    moreover have "(i, r) \<in> set (tab_rows (ledger_events db'))" "tab_next (transactions db) \<le> e_transaction_id r"
      using that p zs new by (auto simp: list_all_iff)
    ultimately show False
      using new_event_above [OF ok(2) _ lt _ _ to(2) t] ok(1) by (force simp: events_ok_def)
  qed
  then have "filter (base_query flt db') zs = []" by (simp add: filter_empty_conv)
  then show ?thesis using base_query_later [OF ok(1) l] by (simp add: zs cong: filter_cong)
qed

lemma reached_to_block_ok:
  assumes "stored feat db"
  shows "\<exists>r. reached_to_block db to_block = Inr r \<and> (r \<longrightarrow> (\<exists>h. to_block = Some h \<and> chain_reached db h))"
proof (cases to_block)
  case (Some h)
  note ok = stored_ok(1,2) [OF assms]
  let ?bs = "order_by_desc (\<lambda>(_, r). b_height r) (tab_rows (blocks db))"
  show ?thesis
  proof (cases ?bs)
    case Nil
    then show ?thesis by (auto simp: reached_to_block_def Some get_latest_block_def fetch_optional_def server_error_def map_err_def)
  next
    case (Cons p ps)
    have "p \<in> set ?bs" using Cons by simp
    then have p: "(fst p, snd p) \<in> set (tab_rows (blocks db))" by (simp add: order_by_desc_def)
    obtain blk where blk: "api_block_from_row p = Inr blk" using blocks_rows_ok [OF ok(2)] p is_ok_iff by (metis prod.collapse)
    have bt: "0 \<le> b_height (snd p)" "b_height (snd p) < 2 ^ 32 - 1" using typed_rows(1) [OF ok(2) p] by (simp_all add: block_typed_def)
    have "ab_height blk = word_of_int (b_height (snd p))"
      using blk bt by (auto simp: api_block_from_row_def split_def res_simps col_ok)
    then have "uint (ab_height blk) = b_height (snd p)" using bt by (simp add: uint_word_of_int_eq take_bit_int_eq_self)
    then have "u32_as_i64 h \<le> b_height (snd p)" if "h \<le> ab_height blk"
      using that by (simp add: u32_as_i64_def word_le_def)
    then have "chain_reached db h" if "h \<le> ab_height blk"
      using that p by (auto simp: chain_reached_def list_ex_iff split_def intro!: bexI [of _ p])
    then show ?thesis
      by (auto simp: reached_to_block_def Some get_latest_block_def fetch_optional_def server_error_def map_err_def Cons blk)
  qed
qed (auto simp: reached_to_block_def)

subsection \<open>The subscription\<close>

fun event_data :: "graphql_contract_event \<Rightarrow> contract_event_base" where
  "event_data (ShieldedSpendEvent b _) = b"
| "event_data (ShieldedReceiveEvent b _ _ _) = b"
| "event_data (ShieldedMintEvent b _ _ _) = b"
| "event_data (ShieldedBurnEvent b _ _) = b"
| "event_data (UnshieldedSpendEvent b _ _ _ _) = b"
| "event_data (UnshieldedReceiveEvent b _ _ _ _) = b"
| "event_data (UnshieldedMintEvent b _ _ _) = b"
| "event_data (UnshieldedBurnEvent b _ _ _) = b"
| "event_data (PausedEvent b) = b"
| "event_data (UnpausedEvent b) = b"
| "event_data (MiscContractEvent b _ _) = b"

definition selected_events :: "event_filter \<Rightarrow> u64 \<Rightarrow> chain_db \<Rightarrow> (i64 \<times> ledger_event_row) list" where
  "selected_events flt c db = filter (\<lambda>p. base_query flt db p \<and> as_i64 c \<le> fst p) (tab_rows (ledger_events db))"

lemma yield_contract_items:
  assumes ok: "events_ok feat db" and xs: "map forget_contract_max xs = map (contract_item db) (selected_events flt c db)"
  shows "\<exists>ys. yield_all (contract_event_try_from hx) xs fin = (ys, map_stream_end QueryFailed fin)
    \<and> map (\<lambda>y. (ceb_id (event_data y), ceb_raw (event_data y))) ys = map (\<lambda>(i, r). (as_u64 i, hx (e_raw r))) (selected_events flt c db)"
proof -
  have conv: "\<exists>y. contract_event_try_from hx x = Inr y \<and> ceb_id (event_data y) = ace_id x \<and> ceb_raw (event_data y) = hx (ace_raw x)"
    if "x \<in> set xs" for x
  proof -
    have "forget_contract_max x \<in> contract_item db ` set (selected_events flt c db)" using that xs by (metis image_eqI image_set)
    then obtain i r where x: "forget_contract_max x = contract_item db (i, r)" and r: "(i, r) \<in> set (tab_rows (ledger_events db))"
      "e_grouping r = Contract" by (auto simp: selected_events_def base_query_def)
    have "ace_attributes x = e_attributes r" using arg_cong [OF x, of ace_attributes] by (simp add: contract_item_def)
    then have "grouping_of (ace_attributes x) = Contract" using event_row(3) [OF ok r(1)] r(2) by (simp add: event_typed_def)
    then show ?thesis by (cases "ace_attributes x") (simp_all add: contract_event_try_from_def base_from_row_def)
  qed
  let ?g = "\<lambda>x. projr (contract_event_try_from hx x)"
  have g: "contract_event_try_from hx x = Inr (?g x) \<and> ceb_id (event_data (?g x)) = ace_id x \<and> ceb_raw (event_data (?g x)) = hx (ace_raw x)"
    if "x \<in> set xs" for x using conv [OF that] by auto
  have "yield_all (contract_event_try_from hx) xs fin = (map ?g xs, map_stream_end QueryFailed fin)"
    using g by (simp add: yield_all_def convert_items_all [where g = ?g])
  moreover have "map (\<lambda>y. (ceb_id (event_data y), ceb_raw (event_data y))) (map ?g xs) = map (\<lambda>x. (ace_id x, hx (ace_raw x))) xs"
    using g by auto
  moreover have "\<dots> = map (\<lambda>x. (ace_id x, hx (ace_raw x))) (map forget_contract_max xs)" by simp
  ultimately show ?thesis unfolding xs by (simp add: contract_item_def comp_def split_def)
qed

lemma contract_bounded:
  assumes "growing (events_ok feat) (stored_later feat) (concat (map snd events))" and "0 < batch_size" and "events \<noteq> []"
    and "\<And>r dbs db. (r, dbs) \<in> set events \<Longrightarrow> db \<in> set dbs \<Longrightarrow> length (tab_rows (ledger_events db)) < length dbs"
    and "\<And>r. (r, []) \<notin> set events"
  shows "\<exists>xs fin r dbs db. bounded_subscription (get_contract_events_chunk flt batch_size) (\<lambda>e. ace_id e + 1) c events = Some (xs, fin)
    \<and> (r, dbs) \<in> set events \<and> db \<in> set dbs \<and> events_ok feat db \<and> map forget_contract_max xs = map (contract_item db) (selected_events flt c db)
    \<and> (fin = Completed \<and> r \<or> fin = Waiting \<and> (r, dbs) = last events)"
proof -
  let ?b = "bounded_subscription (get_contract_events_chunk flt batch_size) (\<lambda>e. ace_id e + 1) c events"
  let ?pb = "bounded_subscription (\<lambda>c db. map_ok (map forget_contract_max) (get_contract_events_chunk flt batch_size c db)) (\<lambda>e. ace_id e + 1) c events"
  have proj: "?pb = map_option (\<lambda>(xs, fin). (map forget_contract_max xs, fin)) ?b" by (rule bounded_map) simp
  have fewer: "length (contract_event_pages.id_rows (feat, flt) db) < length dbs" if "(r, dbs) \<in> set events" "db \<in> set dbs" for r dbs db
    using assms(4) [OF that] by (auto simp: contract_event_pages.id_rows_def intro: le_less_trans [OF length_filter_le])
  have "?pb \<noteq> None"
    by (rule contract_event_pages.bounded_ends [of "(feat, flt)" events batch_size c, unfolded prod.case, OF assms(1,2) _ assms(5)])
      (rule fewer)
  then obtain xs fin where b: "?b = Some (xs, fin)" using proj by (cases ?b) auto
  then have pb: "?pb = Some (map forget_contract_max xs, fin)" using proj by simp
  from contract_event_pages.bounded_complete [of "(feat, flt)" events batch_size c, unfolded prod.case, OF assms(1-3) pb]
  obtain r dbs db where *: "(r, dbs) \<in> set events" "db \<in> set dbs" "fin = Completed \<and> r \<or> fin = Waiting \<and> (r, dbs) = last events"
    and xs: "map forget_contract_max xs = filter (\<lambda>x. as_i64 c \<le> int (unat (ace_id x))) (contract_event_pages.id_rows (feat, flt) db)" by blast
  have "db \<in> set (concat (map snd events))" using *(1,2) by force
  then have ok: "events_ok feat db" using growingD [OF assms(1)] by blast
  then have "map forget_contract_max xs = map (contract_item db) (selected_events flt c db)"
    using xs contract_event_pages.id_rows_from [of "(feat, flt)" db c] by (simp add: selected_events_def)
  then show ?thesis using b * ok by blast
qed

text \<open>
  C28. The subscription to contract events yields every event that its filter selects from the given id on exactly once and
  in order, however blocks are added while it reads its pages, and never fails. It ends only when the chain has reached the
  filter's last block, and then no event it selects can be added any more.
\<close>

theorem contract_events_complete:
  assumes "into_domain hex_decode f = Inr flt" and "unat (case from_id of None \<Rightarrow> 0 | Some i \<Rightarrow> i) < 2 ^ 63"
    and grow: "growing (events_ok feat) (stored_later feat) (db0 # existing @ concat (map snd live))" and "0 < batch_size"
    and indexed: "\<And>h dbs db. (h, dbs) \<in> set live \<Longrightarrow> db \<in> set dbs \<Longrightarrow> list_ex (\<lambda>(_, b). b_height b = int (unat h)) (tab_rows (blocks db))"
    and "\<And>dbs db. dbs = existing \<or> dbs \<in> snd ` set live \<Longrightarrow> db \<in> set dbs \<Longrightarrow> length (tab_rows (ledger_events db)) < length dbs"
    and "existing \<noteq> []" and "[] \<notin> snd ` set live"
  shows "\<exists>items fin db. contract_events_subscription hex_encode hex_decode f from_id batch_size db0 existing live = Inr (Some (items, fin))
    \<and> map (\<lambda>e. (ceb_id (event_data e), ceb_raw (event_data e))) items
        = map (\<lambda>(i, r). (as_u64 i, hex_encode (e_raw r))) (selected_events flt (case from_id of None \<Rightarrow> 0 | Some i \<Rightarrow> i) db)
    \<and> db \<in> set (existing @ concat (map snd live))
    \<and> (fin = Waiting \<and> db \<in> set (last (existing # map snd live))
      \<or> fin = Completed \<and> (\<forall>db'. stored_later feat db db' \<longrightarrow> events_ok feat db' \<longrightarrow>
          (\<forall>c. selected_events flt c db' = selected_events flt c db)))"
proof -
  let ?c = "case from_id of None \<Rightarrow> 0 | Some i \<Rightarrow> i"
  have "stored feat db0" using grow by (simp add: events_ok_def)
  from reached_to_block_ok [OF this] obtain fst_round where fr: "reached_to_block db0 (ef_to_block flt) = Inr fst_round"
    "fst_round \<longrightarrow> (\<exists>h. ef_to_block flt = Some h \<and> chain_reached db0 h)" by blast
  let ?events = "(fst_round, existing) # map (\<lambda>(h, dbs). (live_last_round (ef_to_block flt) h, dbs)) live"
  have snds: "map snd ?events = existing # map snd live" by (simp add: comp_def split_def)
  have g: "growing (events_ok feat) (stored_later feat) (concat (map snd ?events))" using grow by (simp only: snds concat.simps) simp
  have "\<exists>xs fin r dbs db. bounded_subscription (get_contract_events_chunk flt batch_size) (\<lambda>e. ace_id e + 1) ?c ?events = Some (xs, fin)
    \<and> (r, dbs) \<in> set ?events \<and> db \<in> set dbs \<and> events_ok feat db \<and> map forget_contract_max xs = map (contract_item db) (selected_events flt ?c db)
    \<and> (fin = Completed \<and> r \<or> fin = Waiting \<and> (r, dbs) = last ?events)"
  proof (rule contract_bounded [OF g assms(4)])
    show "length (tab_rows (ledger_events db)) < length dbs" if "(r, dbs) \<in> set ?events" "db \<in> set dbs" for r dbs db
    proof (rule assms(6) [OF _ that(2)])
      show "dbs = existing \<or> dbs \<in> snd ` set live" using imageI [OF that(1), of snd] by (simp add: image_image split_def)
    qed
    show "(r, []) \<notin> set ?events" for r using assms(7,8) by (auto simp: image_iff)
  qed simp
  then obtain xs fin r dbs db where b: "bounded_subscription (get_contract_events_chunk flt batch_size) (\<lambda>e. ace_id e + 1) ?c ?events = Some (xs, fin)"
    and r: "(r, dbs) \<in> set ?events" "db \<in> set dbs" and ok: "events_ok feat db"
    and xs: "map forget_contract_max xs = map (contract_item db) (selected_events flt ?c db)"
    and fin: "fin = Completed \<and> r \<or> fin = Waiting \<and> (r, dbs) = last ?events" by blast
  obtain ys where y: "yield_all (contract_event_try_from hex_encode) xs fin = (ys, map_stream_end QueryFailed fin)"
    "map (\<lambda>y. (ceb_id (event_data y), ceb_raw (event_data y))) ys = map (\<lambda>(i, r). (as_u64 i, hex_encode (e_raw r))) (selected_events flt ?c db)"
    using yield_contract_items [OF ok xs] by blast
  have run: "contract_events_subscription hex_encode hex_decode f from_id batch_size db0 existing live = Inr (Some (ys, map_stream_end QueryFailed fin))"
    using assms(1,2) fr(1) b y(1) by (simp add: contract_events_subscription_def Let_def)
  have "dbs \<in> set (map snd ?events)" using imageI [OF r(1), of snd] by (simp only: set_map) simp
  then have "db \<in> set (concat (existing # map snd live))" using r(2) by (simp only: snds) auto
  then have mem: "db \<in> set (existing @ concat (map snd live))" by simp
  show ?thesis
  proof (cases "fin = Completed")
    case True
    then have r': r using fin by auto
    have "\<exists>h. ef_to_block flt = Some h \<and> chain_reached db h"
    proof (cases "(r, dbs) = (fst_round, existing)")
      case True
      then obtain h where h: "ef_to_block flt = Some h" "chain_reached db0 h" using fr(2) r' by auto
      have "stored_later feat db0 db" using grow True r(2) by (auto simp: list_all_iff)
      then have "prefix (tab_rows (blocks db0)) (tab_rows (blocks db))"
        using stored_later_extends grow by (auto simp: extends_def events_ok_def)
      then show ?thesis using h by (auto simp: chain_reached_def prefix_def)
    next
      case False
      then obtain ht where ht: "(ht, dbs) \<in> set live" "live_last_round (ef_to_block flt) ht" using r(1) r' by auto
      then obtain h where h: "ef_to_block flt = Some h" "ucast h \<le> ht" by (auto simp: live_last_round_def split: option.splits)
      have "unat h < 2 ^ 32" using unsigned_less [of h] by simp
      then have "unat (ucast h :: u64) = unat h" by (simp add: unsigned_ucast_eq take_bit_nat_eq_self)
      then have "unat h \<le> unat ht" using h(2) by (simp add: word_le_nat_alt)
      then have "u32_as_i64 h \<le> int (unat ht)" unfolding u32_as_i64_def uint_nat by (simp only: of_nat_le_iff)
      moreover have "list_ex (\<lambda>(_, b). b_height b = int (unat ht)) (tab_rows (blocks db))" by (rule indexed [OF ht(1) r(2)])
      ultimately have "chain_reached db h" unfolding chain_reached_def list_ex_iff split_def by (metis (no_types, lifting))
      then show ?thesis using h(1) by blast
    qed
    then obtain h where "ef_to_block flt = Some h" "chain_reached db h" by blast
    then have "selected_events flt c db' = selected_events flt c db" if "stored_later feat db db'" "events_ok feat db'" for db' c
      using arg_cong [OF contract_events_settled [OF ok that(2,1)], of flt h "filter (\<lambda>p. as_i64 c \<le> fst p)"]
      by (simp add: selected_events_def conj_commute)
    then show ?thesis using run y(2) True mem by auto
  next
    case False
    then have w: "fin = Waiting" "(r, dbs) = last ?events" using fin by auto
    have "dbs = last (map snd ?events)" using arg_cong [OF w(2), of snd] by (simp add: last_map)
    then have "db \<in> set (last (existing # map snd live))" using r(2) by (simp only: snds)
    then show ?thesis using run y(2) w(1) mem by auto
  qed
qed

definition sample_filter :: graphql_event_filter where
  "sample_filter = \<lparr>gf_contract_address = ''09'', gf_types = Some [TPaused], gf_field_prefixes = None, gf_from_block = None,
     gf_to_block = Some 0, gf_transaction_hash = None\<rparr>"

theorem contract_events_complete_witness:
  "\<exists>items fin. contract_events_subscription (\<lambda>_. ''00'') (\<lambda>_. Some [9]) sample_filter None 1 event_sample_db
       (replicate 4 event_sample_db) [] = Inr (Some (items, fin))
     \<and> map (\<lambda>e. (ceb_id (event_data e), ceb_raw (event_data e))) items = map (\<lambda>(i, r). (as_u64 i, ''00''))
         (selected_events \<lparr>ef_contract_address = [9], ef_variants = [''Paused''], ef_field_prefixes = [], ef_from_block = None,
            ef_to_block = Some 0, ef_transaction_hash = None\<rparr> 0 event_sample_db)"
proof -
  let ?flt = "\<lparr>ef_contract_address = [9], ef_variants = [''Paused''], ef_field_prefixes = [], ef_from_block = None,
     ef_to_block = Some 0, ef_transaction_hash = None\<rparr>"
  let ?live = "[] :: (u64 \<times> chain_db list) list"
  have f: "into_domain (\<lambda>_. Some [9]) sample_filter = Inr ?flt" by (simp add: into_domain_def sample_filter_def ok_or_def)
  have grow: "growing (events_ok Cloud) (stored_later Cloud) (event_sample_db # replicate 4 event_sample_db @ concat (map snd ?live))"
    using event_sample_ok by (simp add: numeral_eq_Suc)
  have more: "length (tab_rows (ledger_events db)) < length dbs"
    if "dbs = replicate 4 event_sample_db \<or> dbs \<in> snd ` set ?live" "db \<in> set dbs" for dbs db
    using that event_sample_rows by auto
  have side: "unat (case None of None \<Rightarrow> 0 | Some (i :: u64) \<Rightarrow> i) < 2 ^ 63" "0 < (1 :: nat)" "replicate 4 event_sample_db \<noteq> []"
    "[] \<notin> snd ` set ?live" by simp_all
  have live: "list_ex (\<lambda>(_, b). b_height b = int (unat h)) (tab_rows (blocks db))"
    if "(h, dbs) \<in> set ?live" "db \<in> set dbs" for h dbs db using that by simp
  have "\<exists>items fin db. contract_events_subscription (\<lambda>_. ''00'') (\<lambda>_. Some [9]) sample_filter None 1 event_sample_db
        (replicate 4 event_sample_db) ?live = Inr (Some (items, fin))
    \<and> map (\<lambda>e. (ceb_id (event_data e), ceb_raw (event_data e))) items
        = map (\<lambda>(i, r). (as_u64 i, ''00'')) (selected_events ?flt (case None of None \<Rightarrow> 0 | Some i \<Rightarrow> i) db)
    \<and> db \<in> set (replicate 4 event_sample_db @ concat (map snd ?live))
    \<and> (fin = Waiting \<and> db \<in> set (last (replicate 4 event_sample_db # map snd ?live))
      \<or> fin = Completed \<and> (\<forall>db'. stored_later Cloud db db' \<longrightarrow> events_ok Cloud db' \<longrightarrow>
          (\<forall>c. selected_events ?flt c db' = selected_events ?flt c db)))"
    by (rule contract_events_complete [where hex_encode = "\<lambda>_. ''00''" and from_id = None, OF f side(1) grow side(2) _ _ side(3,4)])
      (rule live more, assumption+)+
  then obtain items fin db where "contract_events_subscription (\<lambda>_. ''00'') (\<lambda>_. Some [9]) sample_filter None 1 event_sample_db
        (replicate 4 event_sample_db) [] = Inr (Some (items, fin))"
    "map (\<lambda>e. (ceb_id (event_data e), ceb_raw (event_data e))) items = map (\<lambda>(i, r). (as_u64 i, ''00'')) (selected_events ?flt 0 db)"
    "db \<in> set (replicate 4 event_sample_db @ concat (map snd ?live))" unfolding option.case by blast
  moreover from this(3) have "db = event_sample_db" by simp
  ultimately show ?thesis by blast
qed

end
