(* ===== verification/Api_Nullifiers.thy ===== *)
theory Api_Nullifiers
  imports Api_Event_Streams
begin

text \<open>
  Transactions by nullifier prefix: \<^verbatim>\<open>get_dust_nullifier_transactions\<close> of
  \<^verbatim>\<open>indexer-api/src/infra/storage/dust_generations.rs\<close>, \<^verbatim>\<open>shielded_nullifiers.rs\<close> and the subscriptions
  \<^verbatim>\<open>dust_nullifier_transactions.rs\<close> and \<^verbatim>\<open>shielded_nullifier_transactions.rs\<close> of
  \<^verbatim>\<open>indexer-api/src/infra/api/v4/subscription\<close>.
\<close>

section \<open>Queries\<close>

text \<open>The exclusive upper end of the range that stands for a prefix.\<close>

definition next_prefix :: "bytes \<Rightarrow> bytes" where
  "next_prefix pre = (if pre = [] then [] else if last pre < 255 then butlast pre @ [last pre + 1] else pre @ [0])"

record nullifier_query =
  nq_prefix :: bytes
  nq_from_block :: u64
  nq_to_block :: u64

text \<open>\<^verbatim>\<open>to_block.min(i64::MAX as u64) as i64\<close>.\<close>

definition capped_i64 :: "u64 \<Rightarrow> i64" where
  "capped_i64 w = as_i64 (min w (2 ^ 63 - 1))"

definition nullifier_where :: "nullifier_query \<Rightarrow> chain_db \<Rightarrow> nullifier_row \<Rightarrow> bool" where
  "nullifier_where q db r \<longleftrightarrow> \<not> bytes_less (n_nullifier r) (nq_prefix q) \<and> bytes_less (n_nullifier r) (next_prefix (nq_prefix q))
     \<and> row_by_id (transactions db) (n_transaction_id r) \<noteq> None
     \<and> (case row_by_id (blocks db) (n_block_id r) of
          None \<Rightarrow> False
        | Some b \<Rightarrow> as_i64 (nq_from_block q) \<le> b_height b \<and> b_height b \<le> capped_i64 (nq_to_block q))"

type_synonym nullifier_joined = "i64 \<times> nullifier_row \<times> transaction_row \<times> block_row"

definition nullifier_join :: "chain_db \<Rightarrow> i64 \<times> nullifier_row \<Rightarrow> nullifier_joined" where
  "nullifier_join db = (\<lambda>(i, r). (i, r, the (row_by_id (transactions db) (n_transaction_id r)), the (row_by_id (blocks db) (n_block_id r))))"

definition nullifier_rows ::
  "(chain_db \<Rightarrow> nullifier_row table) \<Rightarrow> nullifier_query \<Rightarrow> nat \<Rightarrow> i64 \<Rightarrow> chain_db \<Rightarrow> nullifier_joined list" where
  "nullifier_rows table q batch_size cursor db =
     map (nullifier_join db) (take batch_size (sort_key fst
       (select_where (\<lambda>(i, r). nullifier_where q db r \<and> cursor < i) (table db))))"

record dust_nullifier_transaction =
  dnt_nullifier_le_bytes :: bytes
  dnt_commitment_le_bytes :: bytes
  dnt_transaction_id :: u64
  dnt_transaction_hash :: bytes
  dnt_block_height :: u32
  dnt_block_hash :: bytes

definition dust_nullifier_from_row :: "nullifier_joined \<Rightarrow> sqlx_error + i64 \<times> dust_nullifier_transaction" where
  "dust_nullifier_from_row = (\<lambda>(i, r, t, b).
     and_then (col_not_null Inr (n_commitment r)) (\<lambda>commitment.
     map_ok (\<lambda>hash. (i, \<lparr>dnt_nullifier_le_bytes = n_nullifier r, dnt_commitment_le_bytes = commitment,
         dnt_transaction_id = as_u64 (n_transaction_id r), dnt_transaction_hash = hash,
         dnt_block_height = word_of_int (b_height b), dnt_block_hash = b_hash b\<rparr>))
       (col_array 32 (t_hash t))))"

record shielded_nullifier_transaction =
  snt_transaction_id :: u64
  snt_transaction_hash :: bytes
  snt_block_hash :: bytes
  snt_block_height :: u32
  snt_nullifier :: bytes

definition shielded_nullifier_from_row :: "nullifier_joined \<Rightarrow> sqlx_error + i64 \<times> shielded_nullifier_transaction" where
  "shielded_nullifier_from_row = (\<lambda>(i, r, t, b).
     map_ok (\<lambda>hash. (i, \<lparr>snt_transaction_id = as_u64 (n_transaction_id r), snt_transaction_hash = hash,
         snt_block_hash = b_hash b, snt_block_height = word_of_int (b_height b), snt_nullifier = n_nullifier r\<rparr>))
       (col_array 32 (t_hash t)))"

text \<open>One page for one prefix, each item with the id of its row, which is the cursor.\<close>

definition dust_nullifiers_page ::
  "nullifier_query \<Rightarrow> nat \<Rightarrow> i64 \<Rightarrow> chain_db \<Rightarrow> sqlx_error + (i64 \<times> dust_nullifier_transaction) list" where
  "dust_nullifiers_page q batch_size cursor db = try_map dust_nullifier_from_row (nullifier_rows dust_nullifiers q batch_size cursor db)"

definition shielded_nullifiers_page ::
  "nullifier_query \<Rightarrow> nat \<Rightarrow> i64 \<Rightarrow> chain_db \<Rightarrow> sqlx_error + (i64 \<times> shielded_nullifier_transaction) list" where
  "shielded_nullifiers_page q batch_size cursor db =
     try_map shielded_nullifier_from_row (nullifier_rows zswap_nullifiers q batch_size cursor db)"

text \<open>The loop over the prefixes; each prefix has a list of states its pages see.\<close>

fun for_prefixes ::
  "(bytes \<Rightarrow> chain_db list \<Rightarrow> ('a list \<times> sqlx_error option) option) \<Rightarrow> bytes list \<Rightarrow> chain_db list list
     \<Rightarrow> ('a list \<times> sqlx_error option) option" where
  "for_prefixes f [] dbss = Some ([], None)"
| "for_prefixes f (p # ps) [] = None"
| "for_prefixes f (p # ps) (dbs # dbss) =
     (case f p dbs of
        None \<Rightarrow> None
      | Some (xs, Some e) \<Rightarrow> Some (xs, Some e)
      | Some (xs, None) \<Rightarrow> map_option (\<lambda>(ys, e). (xs @ ys, e)) (for_prefixes f ps dbss))"

definition get_dust_nullifier_transactions ::
  "bytes list \<Rightarrow> u64 \<Rightarrow> u64 \<Rightarrow> nat \<Rightarrow> chain_db list list \<Rightarrow> (dust_nullifier_transaction list \<times> sqlx_error option) option" where
  "get_dust_nullifier_transactions pres from_block to_block batch_size =
     for_prefixes (\<lambda>p dbs. map_option (apfst (map snd))
       (pages (dust_nullifiers_page \<lparr>nq_prefix = p, nq_from_block = from_block, nq_to_block = to_block\<rparr> batch_size) fst 0 dbs)) pres"

definition get_shielded_nullifier_transactions ::
  "bytes list \<Rightarrow> u64 \<Rightarrow> u64 \<Rightarrow> nat \<Rightarrow> chain_db list list \<Rightarrow> (shielded_nullifier_transaction list \<times> sqlx_error option) option" where
  "get_shielded_nullifier_transactions pres from_block to_block batch_size =
     for_prefixes (\<lambda>p dbs. map_option (apfst (map snd))
       (pages (shielded_nullifiers_page \<lparr>nq_prefix = p, nq_from_block = from_block, nq_to_block = to_block\<rparr> batch_size) fst 0 dbs)) pres"

section \<open>Subscriptions\<close>

definition validate_block_range :: "u64 \<Rightarrow> u64 \<Rightarrow> api_error + unit" where
  "validate_block_range from_block to_block =
     (if from_block \<le> to_block then Inr () else Inl (Client ''fromBlock must not exceed toBlock''))"

definition ensure :: "string \<Rightarrow> bool \<Rightarrow> api_error + unit" where
  "ensure msg c = (if c then Inr () else Inl (Client msg))"

definition decode_prefixes :: "(string \<Rightarrow> bytes option) \<Rightarrow> string list \<Rightarrow> api_error + bytes list" where
  "decode_prefixes hex_decode ps = try_map (\<lambda>p. ok_or (Client ''invalid hex-encoded nullifier prefix'') (hex_decode p)) ps"

text \<open>
  The rounds of a subscription, the first for what exists and one for each indexed block: every round reads all matches,
  then looks whether the latest block is \<^verbatim>\<open>toBlock\<close> or above. A round has the states its queries see and the one of that
  look.
\<close>

definition round_ends :: "u64 option \<Rightarrow> chain_db \<Rightarrow> sqlx_error + bool" where
  "round_ends to_block db =
     (case to_block of
        None \<Rightarrow> Inr False
      | Some t \<Rightarrow> map_ok (\<lambda>latest. case latest of None \<Rightarrow> False | Some b \<Rightarrow> t \<le> ucast (ab_height b)) (get_latest_block db))"

fun nullifier_rounds ::
  "(chain_db list list \<Rightarrow> ('a list \<times> sqlx_error option) option) \<Rightarrow> u64 option \<Rightarrow> (chain_db list list \<times> chain_db) list
     \<Rightarrow> ('a list \<times> sqlx_error stream_end) option" where
  "nullifier_rounds f to_block [] = Some ([], Waiting)"
| "nullifier_rounds f to_block ((dbss, db) # rounds) =
     (case f dbss of
        None \<Rightarrow> None
      | Some (xs, Some e) \<Rightarrow> Some (xs, Failed e)
      | Some (xs, None) \<Rightarrow>
          (case round_ends to_block db of
             Inl e \<Rightarrow> Some (xs, Failed e)
           | Inr True \<Rightarrow> Some (xs, Completed)
           | Inr False \<Rightarrow> map_option (\<lambda>(ys, fin). (xs @ ys, fin)) (nullifier_rounds f to_block rounds)))"

record graphql_dust_nullifier =
  gdn_nullifier_le_bytes :: string
  gdn_commitment_le_bytes :: string
  gdn_transaction_id :: u64
  gdn_transaction_hash :: string
  gdn_block_height :: u32
  gdn_block_hash :: string

definition graphql_dust_nullifier_from :: "(bytes \<Rightarrow> string) \<Rightarrow> dust_nullifier_transaction \<Rightarrow> graphql_dust_nullifier" where
  "graphql_dust_nullifier_from hex_encode e =
     \<lparr>gdn_nullifier_le_bytes = hex_encode (dnt_nullifier_le_bytes e), gdn_commitment_le_bytes = hex_encode (dnt_commitment_le_bytes e),
      gdn_transaction_id = dnt_transaction_id e, gdn_transaction_hash = hex_encode (dnt_transaction_hash e),
      gdn_block_height = dnt_block_height e, gdn_block_hash = hex_encode (dnt_block_hash e)\<rparr>"

record graphql_shielded_nullifier =
  gsn_transaction_id :: u64
  gsn_transaction_hash :: string
  gsn_block_hash :: string
  gsn_block_height :: u32
  gsn_nullifier :: string

definition graphql_shielded_nullifier_from :: "(bytes \<Rightarrow> string) \<Rightarrow> shielded_nullifier_transaction \<Rightarrow> graphql_shielded_nullifier" where
  "graphql_shielded_nullifier_from hex_encode t =
     \<lparr>gsn_transaction_id = snt_transaction_id t, gsn_transaction_hash = hex_encode (snt_transaction_hash t),
      gsn_block_hash = hex_encode (snt_block_hash t), gsn_block_height = snt_block_height t, gsn_nullifier = hex_encode (snt_nullifier t)\<rparr>"

definition block_bounds :: "u64 option \<Rightarrow> u64 option \<Rightarrow> u64 \<times> u64" where
  "block_bounds from_block to_block =
     (case from_block of None \<Rightarrow> 0 | Some b \<Rightarrow> b, case to_block of None \<Rightarrow> - 1 | Some b \<Rightarrow> b)"

definition dust_nullifier_subscription ::
  "(bytes \<Rightarrow> string) \<Rightarrow> (string \<Rightarrow> bytes option) \<Rightarrow> string list \<Rightarrow> u64 option \<Rightarrow> u64 option \<Rightarrow> nat \<Rightarrow> (chain_db list list \<times> chain_db) list
     \<Rightarrow> api_error + (graphql_dust_nullifier list \<times> sqlx_error stream_end) option" where
  "dust_nullifier_subscription hex_encode hex_decode pres from_block to_block batch_size rounds =
     and_then (ensure ''nullifierLeBytesPrefixes must not be empty'' (pres \<noteq> [])) (\<lambda>_.
     and_then (decode_prefixes hex_decode pres) (\<lambda>bs.
     and_then (ensure ''nullifierLeBytesPrefixes elements must not be empty'' (list_all (\<lambda>b. b \<noteq> []) bs)) (\<lambda>_.
     let (from, to) = block_bounds from_block to_block in
     map_ok (\<lambda>_. map_option (apfst (map (graphql_dust_nullifier_from hex_encode)))
         (nullifier_rounds (get_dust_nullifier_transactions bs from to batch_size) to_block rounds))
       (validate_block_range from to))))"

definition shielded_nullifier_subscription ::
  "(bytes \<Rightarrow> string) \<Rightarrow> (string \<Rightarrow> bytes option) \<Rightarrow> string list \<Rightarrow> u64 option \<Rightarrow> u64 option \<Rightarrow> nat \<Rightarrow> (chain_db list list \<times> chain_db) list
     \<Rightarrow> api_error + (graphql_shielded_nullifier list \<times> sqlx_error stream_end) option" where
  "shielded_nullifier_subscription hex_encode hex_decode pres from_block to_block batch_size rounds =
     and_then (ensure ''nullifierPrefixes must not be empty'' (pres \<noteq> [])) (\<lambda>_.
     and_then (ensure ''maximum of ten nullifier prefixes allowed'' (length pres \<le> 10)) (\<lambda>_.
     and_then (decode_prefixes hex_decode pres) (\<lambda>bs.
     and_then (ensure ''nullifierPrefixes elements must not be empty'' (list_all (\<lambda>b. b \<noteq> []) bs)) (\<lambda>_.
     let (from, to) = block_bounds from_block to_block in
     map_ok (\<lambda>_. map_option (apfst (map (graphql_shielded_nullifier_from hex_encode)))
         (nullifier_rounds (get_shielded_nullifier_transactions bs from to batch_size) to_block rounds))
       (validate_block_range from to)))))"

section \<open>Prefixes as ranges\<close>

lemma bytes_less_append: "bytes_less (xs @ as) (xs @ bs) = bytes_less as bs"
  by (induction xs) simp_all

lemma bytes_less_nil [simp]: "\<not> bytes_less as []"
  by (cases as) simp_all

lemma prefix_range_snoc:
  assumes "b < (255 :: u8)"
  shows "\<not> bytes_less n (ps @ [b]) \<and> bytes_less n (ps @ [b + 1]) \<longleftrightarrow> prefix (ps @ [b]) n"
proof (induction ps arbitrary: n)
  case Nil
  have "b < b + 1" using assms by (simp add: word_less_nat_alt unat_plus_if')
  moreover have "c < b + 1 \<longleftrightarrow> c \<le> b" for c :: u8
    using assms by (simp add: word_less_nat_alt word_le_nat_alt unat_plus_if') linarith
  ultimately show ?case by (cases n) (auto simp: not_less)
next
  case (Cons p ps)
  show ?case
  proof (cases n)
    case (Cons c n')
    then show ?thesis using Cons.IH [of n'] by auto
  qed simp
qed

lemma range_to_zero: "\<not> bytes_less n ps \<and> bytes_less n (ps @ [0]) \<longleftrightarrow> n = ps"
proof (induction ps arbitrary: n)
  case Nil
  show ?case by (cases n) auto
next
  case (Cons p ps)
  show ?case
  proof (cases n)
    case (Cons c n')
    then show ?thesis using Cons.IH [of n'] by auto
  qed simp
qed

text \<open>The range holds the nullifiers with the prefix; when its last byte is 255, of these only the prefix itself.\<close>

lemma prefix_range:
  "pre \<noteq> [] \<Longrightarrow> last pre < 255 \<Longrightarrow> \<not> bytes_less n pre \<and> bytes_less n (next_prefix pre) \<longleftrightarrow> prefix pre n"
  using prefix_range_snoc [of "last pre" n "butlast pre"] by (simp add: next_prefix_def)

lemma prefix_ff_misses:
  "pre \<noteq> [] \<Longrightarrow> last pre = 255 \<Longrightarrow> \<not> bytes_less n pre \<and> bytes_less n (next_prefix pre) \<longleftrightarrow> n = pre"
  using range_to_zero [of n pre] by (simp add: next_prefix_def)

section \<open>Pages of nullifiers\<close>

definition nullifiers_within :: "bytes \<Rightarrow> u64 \<Rightarrow> u64 \<Rightarrow> (chain_db \<Rightarrow> nullifier_row table) \<Rightarrow> chain_db \<Rightarrow> (i64 \<times> nullifier_row) list" where
  "nullifiers_within pre from_block to_block table db = filter (\<lambda>(_, r). prefix pre (n_nullifier r)
     \<and> (case row_by_id (blocks db) (n_block_id r) of None \<Rightarrow> False
        | Some b \<Rightarrow> int (unat from_block) \<le> b_height b \<and> b_height b \<le> int (unat to_block))) (tab_rows (table db))"

definition dust_nullifier_item :: "chain_db \<Rightarrow> i64 \<times> nullifier_row \<Rightarrow> dust_nullifier_transaction" where
  "dust_nullifier_item db = (\<lambda>(i, r). let t = the (row_by_id (transactions db) (n_transaction_id r)); b = the (row_by_id (blocks db) (n_block_id r))
     in \<lparr>dnt_nullifier_le_bytes = n_nullifier r, dnt_commitment_le_bytes = the (n_commitment r),
         dnt_transaction_id = as_u64 (n_transaction_id r), dnt_transaction_hash = t_hash t,
         dnt_block_height = word_of_int (b_height b), dnt_block_hash = b_hash b\<rparr>)"

definition shielded_nullifier_item :: "chain_db \<Rightarrow> i64 \<times> nullifier_row \<Rightarrow> shielded_nullifier_transaction" where
  "shielded_nullifier_item db = (\<lambda>(i, r). let t = the (row_by_id (transactions db) (n_transaction_id r)); b = the (row_by_id (blocks db) (n_block_id r))
     in \<lparr>snt_transaction_id = as_u64 (n_transaction_id r), snt_transaction_hash = t_hash t, snt_block_hash = b_hash b,
         snt_block_height = word_of_int (b_height b), snt_nullifier = n_nullifier r\<rparr>)"

definition nullifier_table :: "(chain_db \<Rightarrow> nullifier_row table) \<Rightarrow> bool" where
  "nullifier_table table \<longleftrightarrow> table = dust_nullifiers \<or> table = zswap_nullifiers"

lemma nullifier_tables:
  assumes "nullifier_table table" and "stored feat db"
  shows "table_ok (table db)"
    and "(i, r) \<in> set (tab_rows (table db)) \<Longrightarrow> \<exists>t b. row_by_id (transactions db) (n_transaction_id r) = Some t
      \<and> row_by_id (blocks db) (n_block_id r) = Some b \<and> length (t_hash t) = 32 \<and> b_height b < 2 ^ 32"
    and "stored_later feat db db' \<Longrightarrow> prefix (tab_rows (table db)) (tab_rows (table db'))"
proof -
  note ok = stored_ok(1,2) [OF assms(2)]
  show "table_ok (table db)" using assms(1) ok(1) by (auto simp: nullifier_table_def db_ok_defs)
  show "\<exists>t b. row_by_id (transactions db) (n_transaction_id r) = Some t \<and> row_by_id (blocks db) (n_block_id r) = Some b
      \<and> length (t_hash t) = 32 \<and> b_height b < 2 ^ 32" if r: "(i, r) \<in> set (tab_rows (table db))"
  proof -
    have "n_transaction_id r \<in> table_ids (transactions db)" "n_block_id r \<in> table_ids (blocks db)"
      using assms(1) ok(1) r by (auto simp: nullifier_table_def db_ok_defs fk_def list_all_iff)
    moreover have "table_ok (transactions db)" "table_ok (blocks db)" using ok(1) by (simp_all add: db_ok_defs)
    ultimately obtain t b where "row_by_id (transactions db) (n_transaction_id r) = Some t" "(n_transaction_id r, t) \<in> set (tab_rows (transactions db))"
      "row_by_id (blocks db) (n_block_id r) = Some b" "(n_block_id r, b) \<in> set (tab_rows (blocks db))"
      by (elim row_by_id_in [where t = "transactions db"] row_by_id_in [where t = "blocks db"]) blast
    moreover from this have "length (t_hash t) = 32" "b_height b < 2 ^ 32"
      using typed_rows(1) [OF ok(2), of "n_block_id r" b] typed_rows(2) [OF ok(2), of "n_transaction_id r" t]
      by (auto simp: transaction_typed_def block_typed_def)
    ultimately show ?thesis by blast
  qed
  show "prefix (tab_rows (table db)) (tab_rows (table db'))" if "stored_later feat db db'"
    using stored_later_later [OF that] assms(1) by (auto simp: nullifier_table_def later_def fresh_def appended_def prefix_def)
qed

lemma capped: "x < 2 ^ 32 \<Longrightarrow> x \<le> capped_i64 w \<longleftrightarrow> x \<le> int (unat w)"
proof -
  assume x: "x < 2 ^ 32"
  show ?thesis
  proof (cases "w \<le> 2 ^ 63 - 1")
    case True
    then have "unat w < 2 ^ 63" by (simp add: word_le_nat_alt)
    then show ?thesis using True by (simp add: capped_i64_def min_def as_i64_nonneg)
  next
    case False
    then have "2 ^ 63 - 1 < unat w" by (simp add: word_le_nat_alt)
    then have "int (2 ^ 63 - 1) < int (unat w)" by (simp only: of_nat_less_iff)
    then have "x \<le> int (unat w)" using x by (simp del: of_nat_unat)
    moreover have "capped_i64 w = 2 ^ 63 - 1" using False by (simp add: capped_i64_def min_def as_i64_def)
    ultimately show ?thesis using x by simp
  qed
qed

lemma nullifier_joins_later:
  assumes "nullifier_table table" and "stored feat db" and "stored_later feat db db'" and "(i, r) \<in> set (tab_rows (table db))"
  shows "row_by_id (transactions db') (n_transaction_id r) = row_by_id (transactions db) (n_transaction_id r)"
    "row_by_id (blocks db') (n_block_id r) = row_by_id (blocks db) (n_block_id r)"
proof -
  obtain t b where *: "row_by_id (transactions db) (n_transaction_id r) = Some t" "row_by_id (blocks db) (n_block_id r) = Some b"
    using nullifier_tables(2) [OF assms(1,2,4)] by blast
  have ext: "extends db db'" by (rule stored_later_extends [OF assms(3,2)])
  show "row_by_id (transactions db') (n_transaction_id r) = row_by_id (transactions db) (n_transaction_id r)"
    "row_by_id (blocks db') (n_block_id r) = row_by_id (blocks db) (n_block_id r)"
    using row_by_id_prefix [OF _ *(1)] row_by_id_prefix [OF _ *(2)] ext * by (simp_all add: extends_def)
qed

lemma nullifier_page_eq:
  assumes "nullifier_table table" and "stored feat db"
    and decode: "\<And>i r t b. (i, r) \<in> set (tab_rows (table db)) \<Longrightarrow> row_by_id (transactions db) (n_transaction_id r) = Some t
      \<Longrightarrow> row_by_id (blocks db) (n_block_id r) = Some b \<Longrightarrow> length (t_hash t) = 32 \<Longrightarrow> from_row (i, r, t, b) = Inr (i, item db (i, r))"
  shows "try_map from_row (nullifier_rows table q limit c db)
    = Inr (take limit (map (\<lambda>p. (fst p, item db p)) (filter (\<lambda>p. nullifier_where q db (snd p) \<and> c + 1 \<le> fst p) (tab_rows (table db)))))"
proof -
  let ?sel = "filter (\<lambda>p. nullifier_where q db (snd p) \<and> c + 1 \<le> fst p) (tab_rows (table db))"
  have "sorted_wrt (<) (map fst (tab_rows (table db)))" using nullifier_tables(1) [OF assms(1,2)] by (simp add: table_ok_def)
  then have "sorted (map fst ?sel)"
    by (auto simp: sorted_map sorted_wrt_map intro!: sorted_wrt_filter elim: sorted_wrt_mono_rel [rotated])
  then have rows: "nullifier_rows table q limit c db = map (nullifier_join db) (take limit ?sel)"
    by (simp add: nullifier_rows_def select_where_def split_def sort_key_id_if_sorted zless_iff_Suc_zadd add1_zle_eq)
  have "from_row (nullifier_join db p) = Inr (fst p, item db p)" if p: "p \<in> set (take limit ?sel)" for p
  proof -
    have m: "(fst p, snd p) \<in> set (tab_rows (table db))" using in_set_takeD [OF p] by simp
    obtain t b where "row_by_id (transactions db) (n_transaction_id (snd p)) = Some t"
      "row_by_id (blocks db) (n_block_id (snd p)) = Some b" "length (t_hash t) = 32" using nullifier_tables(2) [OF assms(1,2) m] by blast
    then show ?thesis using decode [OF m] by (simp add: nullifier_join_def split_def)
  qed
  then show ?thesis unfolding rows try_map_map by (subst try_map_total [where g = "\<lambda>p. (fst p, item db p)"]) (auto simp: take_map)
qed

lemma nullifier_where_later:
  assumes "nullifier_table table" and "stored feat db" and "stored_later feat db db'" and "p \<in> set (tab_rows (table db))"
  shows "nullifier_where q db' (snd p) = nullifier_where q db (snd p)"
  using nullifier_joins_later [OF assms(1-3), of "fst p" "snd p"] assms(4) by (simp add: nullifier_where_def)

lemma nullifier_id_paged:
  assumes "nullifier_table table"
    and decode: "\<And>feat db i r t b. stored feat db \<Longrightarrow> (i, r) \<in> set (tab_rows (table db)) \<Longrightarrow> row_by_id (transactions db) (n_transaction_id r) = Some t
      \<Longrightarrow> row_by_id (blocks db) (n_block_id r) = Some b \<Longrightarrow> length (t_hash t) = 32 \<Longrightarrow> from_row (i, r, t, b) = Inr (i, item db (i, r))"
    and stable: "\<And>db db' i r. row_by_id (transactions db') (n_transaction_id r) = row_by_id (transactions db) (n_transaction_id r)
      \<Longrightarrow> row_by_id (blocks db') (n_block_id r) = row_by_id (blocks db) (n_block_id r) \<Longrightarrow> item db' (i, r) = item db (i, r)"
  shows "id_paged (\<lambda>(feat, _). stored feat) (\<lambda>(feat, _). stored_later feat) (\<lambda>db. tab_rows (table db))
    (\<lambda>(_, q) db p. nullifier_where q db (snd p)) (\<lambda>_ db p. (fst p, item db p)) fst (\<lambda>c. c + 1) fst
    (\<lambda>(_, q) limit c db. try_map from_row (nullifier_rows table q limit c db))"
proof (unfold_locales, goal_cases)
  case (1 q db)
  then show ?case using nullifier_tables(1) [OF assms(1)] by (auto simp: table_ok_def split_def)
next
  case (4 q db db')
  then show ?case using nullifier_tables(3) [OF assms(1)] by (auto simp: split_def)
next
  case (5 q db db' p)
  then show ?case
    using nullifier_where_later [OF assms(1), of "fst q" db db' p "snd q"] nullifier_joins_later [OF assms(1), of "fst q" db db' "fst p" "snd p"]
      stable [of db' "snd p" db "fst p"] by (simp add: split_def)
next
  case (6 q db limit c)
  then show ?case using nullifier_page_eq [OF assms(1), of "fst q" db from_row item "snd q" limit c] decode [of "fst q" db] by (simp add: split_def)
qed simp_all

interpretation dust_nullifier_pages: id_paged "\<lambda>(feat, _). stored feat" "\<lambda>(feat, _). stored_later feat" "\<lambda>db. tab_rows (dust_nullifiers db)"
  "\<lambda>(_, q) db p. nullifier_where q db (snd p)" "\<lambda>_ db p. (fst p, dust_nullifier_item db p)" fst "\<lambda>c. c + 1" fst
  "\<lambda>(_, q) limit c db. try_map dust_nullifier_from_row (nullifier_rows dust_nullifiers q limit c db)"
proof (rule nullifier_id_paged, goal_cases)
  case (2 feat db i r t b)
  then obtain cm where "n_commitment r = Some cm" using stored_rows(3) by blast
  with 2 show ?case by (simp add: dust_nullifier_from_row_def dust_nullifier_item_def col_not_null_def col_ok)
qed (simp_all add: nullifier_table_def dust_nullifier_item_def)

interpretation shielded_nullifier_pages: id_paged "\<lambda>(feat, _). stored feat" "\<lambda>(feat, _). stored_later feat" "\<lambda>db. tab_rows (zswap_nullifiers db)"
  "\<lambda>(_, q) db p. nullifier_where q db (snd p)" "\<lambda>_ db p. (fst p, shielded_nullifier_item db p)" fst "\<lambda>c. c + 1" fst
  "\<lambda>(_, q) limit c db. try_map shielded_nullifier_from_row (nullifier_rows zswap_nullifiers q limit c db)"
proof (rule nullifier_id_paged, goal_cases)
  case (2 feat db i r t b)
  then show ?case by (simp add: shielded_nullifier_from_row_def shielded_nullifier_item_def col_ok)
qed (simp_all add: nullifier_table_def shielded_nullifier_item_def)

section \<open>All matches\<close>

lemma nullifier_where_within:
  assumes "nullifier_table table" and "stored feat db" and "pre \<noteq> []" and "last pre < 255" and "unat from_block < 2 ^ 63"
  shows "filter (\<lambda>p. nullifier_where \<lparr>nq_prefix = pre, nq_from_block = from_block, nq_to_block = to_block\<rparr> db (snd p) \<and> 0 < fst p) (tab_rows (table db))
    = nullifiers_within pre from_block to_block table db"
  unfolding nullifiers_within_def
proof (rule filter_cong [OF refl])
  fix p assume m: "p \<in> set (tab_rows (table db))"
  obtain i r where p: "p = (i, r)" by (cases p)
  have "0 < i" using m p assms(1) stored_rows(3,4) [OF assms(2), of i r] by (auto simp: nullifier_table_def)
  moreover obtain t b where "row_by_id (transactions db) (n_transaction_id r) = Some t" "row_by_id (blocks db) (n_block_id r) = Some b"
    "b_height b < 2 ^ 32" using nullifier_tables(2) [OF assms(1,2), of i r] m p by blast
  ultimately show "(nullifier_where \<lparr>nq_prefix = pre, nq_from_block = from_block, nq_to_block = to_block\<rparr> db (snd p) \<and> 0 < fst p)
      = (case p of (_, r) \<Rightarrow> prefix pre (n_nullifier r) \<and> (case row_by_id (blocks db) (n_block_id r) of None \<Rightarrow> False
        | Some b \<Rightarrow> int (unat from_block) \<le> b_height b \<and> b_height b \<le> int (unat to_block)))"
    using prefix_range [OF assms(3,4), of "n_nullifier r"] as_i64_nonneg [OF assms(5)] capped [of "b_height b" to_block]
    by (auto simp: p nullifier_where_def)
qed

lemma for_prefixes_all:
  assumes "length dbss = length ps"
    and "\<And>p dbs. p \<in> set ps \<Longrightarrow> dbs \<in> set dbss \<Longrightarrow> \<exists>db\<in>set dbs. f p dbs = Some (g p db, None)"
  shows "\<exists>seen. list_all2 (\<lambda>db dbs. db \<in> set dbs) seen dbss \<and> for_prefixes f ps dbss = Some (concat (map2 g ps seen), None)"
  using assms
proof (induction dbss ps rule: list_induct2)
  case (Cons dbs dbss p ps)
  obtain db where db: "db \<in> set dbs" "f p dbs = Some (g p db, None)" using Cons.prems by auto
  obtain seen where s: "list_all2 (\<lambda>db dbs. db \<in> set dbs) seen dbss" "for_prefixes f ps dbss = Some (concat (map2 g ps seen), None)"
    using Cons by (metis list.set_intros(2))
  show ?case using db s by (intro exI [of _ "db # seen"]) simp
qed simp

lemma dust_prefix_complete:
  assumes "growing (stored feat) (stored_later feat) dbs" and "dbs \<noteq> []" and "0 < batch_size"
    and "\<And>db. db \<in> set dbs \<Longrightarrow> length (tab_rows (dust_nullifiers db)) < length dbs"
    and "pre \<noteq> []" and "last pre < 255" and "unat from_block < 2 ^ 63"
  shows "\<exists>db\<in>set dbs. map_option (apfst (map snd)) (pages (dust_nullifiers_page \<lparr>nq_prefix = pre, nq_from_block = from_block, nq_to_block = to_block\<rparr>
      batch_size) fst 0 dbs) = Some (map (dust_nullifier_item db) (nullifiers_within pre from_block to_block dust_nullifiers db), None)"
proof -
  let ?q = "\<lparr>nq_prefix = pre, nq_from_block = from_block, nq_to_block = to_block\<rparr>"
  have fetch: "dust_nullifiers_page ?q batch_size = (\<lambda>c db. try_map dust_nullifier_from_row (nullifier_rows dust_nullifiers ?q batch_size c db))"
    by (simp add: dust_nullifiers_page_def fun_eq_iff)
  from dust_nullifier_pages.pages_all [of "(feat, ?q)" dbs batch_size 0, unfolded prod.case, OF assms(1,3,2,4)]
  obtain db where "db \<in> set dbs" "stored feat db" "pages (dust_nullifiers_page ?q batch_size) fst 0 dbs
      = Some (map (\<lambda>p. (fst p, dust_nullifier_item db p)) (filter (\<lambda>p. nullifier_where ?q db (snd p) \<and> 0 + 1 \<le> fst p) (tab_rows (dust_nullifiers db))), None)"
    unfolding fetch by auto
  then show ?thesis using nullifier_where_within [OF _ _ assms(5-7), of dust_nullifiers]
    by (intro bexI [of _ db]) (auto simp: nullifier_table_def comp_def zero_less_iff_neq_zero int_one_le_iff_zero_less)
qed

lemma shielded_prefix_complete:
  assumes "growing (stored feat) (stored_later feat) dbs" and "dbs \<noteq> []" and "0 < batch_size"
    and "\<And>db. db \<in> set dbs \<Longrightarrow> length (tab_rows (zswap_nullifiers db)) < length dbs"
    and "pre \<noteq> []" and "last pre < 255" and "unat from_block < 2 ^ 63"
  shows "\<exists>db\<in>set dbs. map_option (apfst (map snd)) (pages (shielded_nullifiers_page \<lparr>nq_prefix = pre, nq_from_block = from_block, nq_to_block = to_block\<rparr>
      batch_size) fst 0 dbs) = Some (map (shielded_nullifier_item db) (nullifiers_within pre from_block to_block zswap_nullifiers db), None)"
proof -
  let ?q = "\<lparr>nq_prefix = pre, nq_from_block = from_block, nq_to_block = to_block\<rparr>"
  have fetch: "shielded_nullifiers_page ?q batch_size = (\<lambda>c db. try_map shielded_nullifier_from_row (nullifier_rows zswap_nullifiers ?q batch_size c db))"
    by (simp add: shielded_nullifiers_page_def fun_eq_iff)
  from shielded_nullifier_pages.pages_all [of "(feat, ?q)" dbs batch_size 0, unfolded prod.case, OF assms(1,3,2,4)]
  obtain db where "db \<in> set dbs" "stored feat db" "pages (shielded_nullifiers_page ?q batch_size) fst 0 dbs
      = Some (map (\<lambda>p. (fst p, shielded_nullifier_item db p)) (filter (\<lambda>p. nullifier_where ?q db (snd p) \<and> 0 + 1 \<le> fst p) (tab_rows (zswap_nullifiers db))), None)"
    unfolding fetch by auto
  then show ?thesis using nullifier_where_within [OF _ _ assms(5-7), of zswap_nullifiers]
    by (intro bexI [of _ db]) (auto simp: nullifier_table_def comp_def zero_less_iff_neq_zero int_one_le_iff_zero_less)
qed

text \<open>
  The query for dust nullifiers and the one for shielded nullifiers return, for every prefix whose last byte is below 255,
  exactly the nullifiers that start with it and lie in the range of blocks, once, in order, with transaction and block,
  however blocks are added while it reads its pages.
\<close>

theorem nullifier_prefixes_complete:
  assumes "length dbss = length pres" and "0 < batch_size" and "unat from_block < 2 ^ 63"
    and "\<And>dbs. dbs \<in> set dbss \<Longrightarrow> growing (stored feat) (stored_later feat) dbs \<and> dbs \<noteq> []"
    and "\<And>dbs db. dbs \<in> set dbss \<Longrightarrow> db \<in> set dbs
      \<Longrightarrow> length (tab_rows (dust_nullifiers db)) < length dbs \<and> length (tab_rows (zswap_nullifiers db)) < length dbs"
    and "\<And>p. p \<in> set pres \<Longrightarrow> p \<noteq> [] \<and> last p < 255"
  shows "(\<exists>seen. list_all2 (\<lambda>db dbs. db \<in> set dbs) seen dbss
      \<and> get_dust_nullifier_transactions pres from_block to_block batch_size dbss
        = Some (concat (map2 (\<lambda>p db. map (dust_nullifier_item db) (nullifiers_within p from_block to_block dust_nullifiers db)) pres seen), None))
    \<and> (\<exists>seen. list_all2 (\<lambda>db dbs. db \<in> set dbs) seen dbss
      \<and> get_shielded_nullifier_transactions pres from_block to_block batch_size dbss
        = Some (concat (map2 (\<lambda>p db. map (shielded_nullifier_item db) (nullifiers_within p from_block to_block zswap_nullifiers db)) pres seen), None))"
  unfolding get_dust_nullifier_transactions_def get_shielded_nullifier_transactions_def
proof (intro conjI; rule for_prefixes_all [OF assms(1)])
  fix p dbs assume m: "p \<in> set pres" "dbs \<in> set dbss"
  show "\<exists>db\<in>set dbs. map_option (apfst (map snd)) (pages (dust_nullifiers_page \<lparr>nq_prefix = p, nq_from_block = from_block, nq_to_block = to_block\<rparr>
      batch_size) fst 0 dbs) = Some (map (dust_nullifier_item db) (nullifiers_within p from_block to_block dust_nullifiers db), None)"
    by (rule dust_prefix_complete) (use assms(2,3) assms(4-5) [OF m(2)] assms(6) [OF m(1)] in auto)
  show "\<exists>db\<in>set dbs. map_option (apfst (map snd)) (pages (shielded_nullifiers_page \<lparr>nq_prefix = p, nq_from_block = from_block, nq_to_block = to_block\<rparr>
      batch_size) fst 0 dbs) = Some (map (shielded_nullifier_item db) (nullifiers_within p from_block to_block zswap_nullifiers db), None)"
    by (rule shielded_prefix_complete) (use assms(2,3) assms(4-5) [OF m(2)] assms(6) [OF m(1)] in auto)
qed

definition nullifier_sample_tx :: transaction where
  "nullifier_sample_tx = (case api_sample_tx 11 0 2 [] [] of
     Regular t \<Rightarrow> Regular (t\<lparr>rt_ledger_events := [zswap_input [1] [7, 8], zswap_input [2] [7, 255, 9], zswap_input [3] [8, 8],
       dust_spend_processed [4] [7, 9] [5]]\<rparr>)
   | System t \<Rightarrow> System t)"

definition nullifier_sample_db :: chain_db where
  "nullifier_sample_db = snd (save_block Cloud (api_sample_block 1 0) [nullifier_sample_tx] [] [77] None empty_chain_db)"

lemma nullifier_sample_save:
  "\<exists>mx. save_block Cloud (api_sample_block 1 0) [nullifier_sample_tx] [] [77] None empty_chain_db = (Inr mx, nullifier_sample_db)
     \<and> tab_next (transactions nullifier_sample_db) = 2
     \<and> map (\<lambda>(i, r). (i, n_nullifier r, n_block_id r)) (tab_rows (dust_nullifiers nullifier_sample_db)) = [(1, [7, 9], 1)]
     \<and> map (\<lambda>(i, r). (i, n_nullifier r, n_block_id r)) (tab_rows (zswap_nullifiers nullifier_sample_db)) = [(1, [7, 8], 1), (2, [7, 255, 9], 1), (3, [8, 8], 1)]
     \<and> map (\<lambda>(i, b). (i, b_height b)) (tab_rows (blocks nullifier_sample_db)) = [(1, 0)]"
  by (simp add: nullifier_sample_db_def nullifier_sample_tx_def api_sample_defs sample_defs Let_def as_i64_def zswap_input_def dust_spend_processed_def
      save_ledger_events_def ledger_event_row_of_def correlate_contract_action_ids_def correlate_contract_action_id_def
      save_contract_event_indexed_fields_def indexable_contract_fields_def save_dust_generation_info_def save_dust_generation_event_def
      save_dust_nullifiers_def save_zswap_nullifiers_def Chain_Storage.filter_map_def)

lemma nullifier_sample_ok: "stored Cloud nullifier_sample_db"
proof -
  have "tx_fits nullifier_sample_tx"
    using api_sample_fits(3) by (simp add: nullifier_sample_tx_def api_sample_tx_def event_fits_def zswap_input_def dust_spend_processed_def)
  moreover have "above_all (as_i64 (bl_height (api_sample_block 1 0))) b_height (blocks empty_chain_db)"
    by (simp add: above_all_def empty_chain_db_def empty_table_def)
  ultimately have "store_step Cloud empty_chain_db nullifier_sample_db"
    using nullifier_sample_save api_sample_fits(1) unfolding store_step_def by fastforce
  then show ?thesis unfolding stored_def by auto
qed

lemma nullifier_sample_rows:
  "map (\<lambda>(i, r). (i, n_nullifier r, n_block_id r)) (tab_rows (dust_nullifiers nullifier_sample_db)) = [(1, [7, 9], 1)]"
  "map (\<lambda>(i, r). (i, n_nullifier r, n_block_id r)) (tab_rows (zswap_nullifiers nullifier_sample_db))
     = [(1, [7, 8], 1), (2, [7, 255, 9], 1), (3, [8, 8], 1)]"
  "map (\<lambda>(i, b). (i, b_height b)) (tab_rows (blocks nullifier_sample_db)) = [(1, 0)]"
  using nullifier_sample_save by blast+

lemma nullifier_sample_lengths:
  "length (tab_rows (dust_nullifiers nullifier_sample_db)) = 1" "length (tab_rows (zswap_nullifiers nullifier_sample_db)) = 3"
  using nullifier_sample_rows(1,2) [THEN arg_cong, of length] by simp_all

lemma nullifier_sample_within:
  "map (\<lambda>(i, r). n_nullifier r) (nullifiers_within [7] 0 5 zswap_nullifiers nullifier_sample_db) = [[7, 8], [7, 255, 9]]"
proof -
  obtain b where b: "tab_rows (blocks nullifier_sample_db) = [(1, b)]" "b_height b = 0"
    using nullifier_sample_rows(3) by (auto simp: map_eq_Cons_conv)
  obtain x y z where r: "tab_rows (zswap_nullifiers nullifier_sample_db) = [(1, x), (2, y), (3, z)]"
    "n_nullifier x = [7, 8]" "n_block_id x = 1" "n_nullifier y = [7, 255, 9]" "n_block_id y = 1" "n_nullifier z = [8, 8]" "n_block_id z = 1"
    using nullifier_sample_rows(2) by (auto simp: map_eq_Cons_conv)
  show ?thesis by (simp add: nullifiers_within_def r b row_by_id_def)
qed

theorem nullifier_prefixes_complete_witness:
  "\<exists>xs. get_shielded_nullifier_transactions [[7]] 0 5 1 [replicate 4 nullifier_sample_db] = Some (xs, None)
     \<and> map snt_nullifier xs = [[7, 8], [7, 255, 9]]"
proof -
  let ?dbss = "[replicate 4 nullifier_sample_db]" and ?pres = "[[7]] :: bytes list"
  have grow: "growing (stored Cloud) (stored_later Cloud) dbs \<and> dbs \<noteq> []" if "dbs \<in> set ?dbss" for dbs
    using that nullifier_sample_ok by (simp add: numeral_eq_Suc)
  have more: "length (tab_rows (dust_nullifiers db)) < length dbs \<and> length (tab_rows (zswap_nullifiers db)) < length dbs"
    if "dbs \<in> set ?dbss" "db \<in> set dbs" for dbs db
    using that nullifier_sample_lengths by auto
  have pre: "p \<noteq> [] \<and> last p < 255" if "p \<in> set ?pres" for p using that by simp
  have side: "length ?dbss = length ?pres" "0 < (1 :: nat)" "unat (0 :: u64) < 2 ^ 63" by simp_all
  have "(\<exists>seen. list_all2 (\<lambda>db dbs. db \<in> set dbs) seen ?dbss
      \<and> get_dust_nullifier_transactions ?pres 0 5 1 ?dbss
        = Some (concat (map2 (\<lambda>p db. map (dust_nullifier_item db) (nullifiers_within p 0 5 dust_nullifiers db)) ?pres seen), None))
    \<and> (\<exists>seen. list_all2 (\<lambda>db dbs. db \<in> set dbs) seen ?dbss
      \<and> get_shielded_nullifier_transactions ?pres 0 5 1 ?dbss
        = Some (concat (map2 (\<lambda>p db. map (shielded_nullifier_item db) (nullifiers_within p 0 5 zswap_nullifiers db)) ?pres seen), None))"
    by (rule nullifier_prefixes_complete [where feat = Cloud, OF side]) (rule grow more pre, assumption+)+
  then obtain seen where "list_all2 (\<lambda>db dbs. db \<in> set dbs) seen ?dbss"
    and r: "get_shielded_nullifier_transactions ?pres 0 5 1 ?dbss
      = Some (concat (map2 (\<lambda>p db. map (shielded_nullifier_item db) (nullifiers_within p 0 5 zswap_nullifiers db)) ?pres seen), None)" by blast
  then have "seen = [nullifier_sample_db]" by (auto simp: list_all2_Cons2)
  with r have "get_shielded_nullifier_transactions ?pres 0 5 1 ?dbss
      = Some (map (shielded_nullifier_item nullifier_sample_db) (nullifiers_within [7] 0 5 zswap_nullifiers nullifier_sample_db), None)" by simp
  then show ?thesis using nullifier_sample_within by (auto simp: shielded_nullifier_item_def Let_def split_def comp_def)
qed

end
