(* ===== verification/Api_Ledger_Cache.thy ===== *)
theory Api_Ledger_Cache
  imports Api_Nullifiers Ledger_Db
begin

text \<open>
  The stored ledger states the API reads (\<^verbatim>\<open>indexer-api/src/infra/storage/ledger_state.rs\<close>) and the
  \<^verbatim>\<open>LedgerStateCache\<close> of \<^verbatim>\<open>indexer-api/src/domain/ledger_state.rs\<close>, from which collapsed updates of the Merkle trees
  are served. What loading a state, its trees and its collapsed updates are is that of the ledger and a parameter here.
\<close>

section \<open>Stored ledger states\<close>

definition get_highest_ledger_state :: "chain_db \<Rightarrow> sqlx_error + (protocol_version \<times> bytes) option" where
  "get_highest_ledger_state db =
     (case first_row (blocks_desc db) of
        None \<Rightarrow> Inr None
      | Some r \<Rightarrow> map_ok (\<lambda>version. Some (version, b_ledger_state_key r)) (col_version (b_protocol_version r)))"

definition get_ledger_state_at :: "bytes \<Rightarrow> chain_db \<Rightarrow> sqlx_error + (u64 \<times> u32 \<times> protocol_version \<times> bytes) option" where
  "get_ledger_state_at hash db =
     (case first_row (select_where (\<lambda>(_, r). b_hash r = hash) (blocks db)) of
        None \<Rightarrow> Inr None
      | Some (i, r) \<Rightarrow>
          and_then (col_u64 i) (\<lambda>block_id.
          and_then (col_u32 (b_height r)) (\<lambda>height.
          map_ok (\<lambda>version. Some (block_id, height, version, b_ledger_state_key r)) (col_version (b_protocol_version r)))))"

section \<open>The cache\<close>

datatype 'e cache_error = CacheLoad sqlx_error | CacheNotFound | CacheLedger 'e

record 'u merkle_update =
  cu_start_index :: u64
  cu_end_index :: u64
  cu_update :: 'u
  cu_protocol_version :: protocol_version

text \<open>
  One tree of a ledger state: the first free index and the collapsed update of a range. The three operations of the
  cache are the same program over the trees of the zswap state, the dust commitments and the dust generations.
\<close>

record ('l, 'e, 'u) ledger_tree =
  lt_first_free :: "'l \<Rightarrow> u64"
  lt_collapse :: "'l \<Rightarrow> u64 \<Rightarrow> u64 \<Rightarrow> 'e + 'u"

definition stale :: "('l, 'e, 'u) ledger_tree \<Rightarrow> u64 \<Rightarrow> 'l option \<Rightarrow> bool" where
  "stale tree end_index cached \<longleftrightarrow> (case cached of None \<Rightarrow> 0 | Some l \<Rightarrow> lt_first_free tree l) \<le> end_index"

definition make_collapsed_update ::
  "('l, 'e, 'u) ledger_tree \<Rightarrow> 'l \<Rightarrow> u64 \<Rightarrow> u64 \<Rightarrow> protocol_version \<Rightarrow> 'e + 'u merkle_update" where
  "make_collapsed_update tree l start_index end_index version =
     map_ok (\<lambda>u. \<lparr>cu_start_index = start_index, cu_end_index = end_index, cu_update = u, cu_protocol_version = version\<rparr>)
       (lt_collapse tree l start_index end_index)"

text \<open>What happens under the write lock: the state is loaded unless it has been updated in the meantime.\<close>

definition refresh ::
  "(bytes \<Rightarrow> ledger_version \<Rightarrow> 'e + 'l) \<Rightarrow> ('l, 'e, 'u) ledger_tree \<Rightarrow> u64 \<Rightarrow> chain_db \<Rightarrow> 'l option \<Rightarrow> 'e cache_error + 'l option" where
  "refresh load tree end_index db cached =
     (if stale tree end_index cached then
        case get_highest_ledger_state db of
          Inl e \<Rightarrow> Inl (CacheLoad e)
        | Inr None \<Rightarrow> Inl CacheNotFound
        | Inr (Some (version, key)) \<Rightarrow> map_err CacheLedger (map_ok Some (load key (pv_ledger_version version)))
      else Inr cached)"

text \<open>
  A request. Between the read lock and the write lock other requests may replace the cached state, so the state seen under
  either lock is an argument; the result is the update, or an error, and the state left in the cache. With an error the cache
  is left as found. A cached state that is not stale always exists.
\<close>

definition serve ::
  "('l, 'e, 'u) ledger_tree \<Rightarrow> u64 \<Rightarrow> u64 \<Rightarrow> protocol_version \<Rightarrow> 'l option \<Rightarrow> panic + 'e cache_error + 'u merkle_update" where
  "serve tree start_index end_index version cached =
     (case cached of
        None \<Rightarrow> Inl (Panic ''ledger state should exist after loading'')
      | Some l \<Rightarrow> Inr (map_err CacheLedger (make_collapsed_update tree l start_index end_index version)))"

definition collapsed_update ::
  "(bytes \<Rightarrow> ledger_version \<Rightarrow> 'e + 'l) \<Rightarrow> ('l, 'e, 'u) ledger_tree \<Rightarrow> u64 \<Rightarrow> u64 \<Rightarrow> protocol_version \<Rightarrow> chain_db
     \<Rightarrow> 'l option \<Rightarrow> 'l option \<Rightarrow> (panic + 'e cache_error + 'u merkle_update) \<times> 'l option" where
  "collapsed_update load tree start_index end_index version db at_read at_write =
     (if stale tree end_index at_read then
        case refresh load tree end_index db at_write of
          Inl e \<Rightarrow> (Inr (Inl e), at_write)
        | Inr cached \<Rightarrow> (serve tree start_index end_index version cached, cached)
      else (serve tree start_index end_index version at_read, at_read))"

section \<open>The cache against uncached reads\<close>

text \<open>The reference: the update made from the highest stored state, read afresh for every request.\<close>

definition uncached_update ::
  "(bytes \<Rightarrow> ledger_version \<Rightarrow> 'e + 'l) \<Rightarrow> ('l, 'e, 'u) ledger_tree \<Rightarrow> u64 \<Rightarrow> u64 \<Rightarrow> protocol_version \<Rightarrow> chain_db
     \<Rightarrow> 'e cache_error + 'u merkle_update" where
  "uncached_update load tree start_index end_index version db =
     (case get_highest_ledger_state db of
        Inl e \<Rightarrow> Inl (CacheLoad e)
      | Inr None \<Rightarrow> Inl CacheNotFound
      | Inr (Some (v, key)) \<Rightarrow>
          map_err CacheLedger (and_then (load key (pv_ledger_version v)) (\<lambda>l. make_collapsed_update tree l start_index end_index version)))"

definition highest_state :: "(bytes \<Rightarrow> ledger_version \<Rightarrow> 'e + 'l) \<Rightarrow> chain_db \<Rightarrow> 'l option" where
  "highest_state load db =
     (case get_highest_ledger_state db of
        Inr (Some (v, key)) \<Rightarrow> (case load key (pv_ledger_version v) of Inr l \<Rightarrow> Some l | Inl _ \<Rightarrow> None)
      | _ \<Rightarrow> None)"

text \<open>
  What the cache can hold, with requests for any tree and any order of their steps while the chain grows: a request
  reads the cache in one state of the system and writes it in a later one.
\<close>

inductive cache_reached :: "feature \<Rightarrow> (bytes \<Rightarrow> ledger_version \<Rightarrow> 'e + 'l) \<Rightarrow> ('l, 'e, 'u) ledger_tree set \<Rightarrow> chain_db \<Rightarrow> 'l option \<Rightarrow> bool"
  for feat load trees where
  cache_empty: "stored feat db \<Longrightarrow> cache_reached feat load trees db None"
| cache_grow: "cache_reached feat load trees db c \<Longrightarrow> stored_later feat db db' \<Longrightarrow> cache_reached feat load trees db' c"
| cache_request: "cache_reached feat load trees db at_read \<Longrightarrow> stored_later feat db db' \<Longrightarrow> cache_reached feat load trees db' at_write
    \<Longrightarrow> tree \<in> trees \<Longrightarrow> stale tree end_index at_read
    \<Longrightarrow> cache_reached feat load trees db' (snd (collapsed_update load tree start_index end_index version db' at_read at_write))"

text \<open>The cache holds nothing or the state of the highest block at some earlier time.\<close>

lemma refresh_cases:
  assumes "refresh load tree end_index db cached = Inr c"
  shows "\<not> stale tree end_index cached \<and> c = cached \<or> stale tree end_index cached \<and> c = highest_state load db \<and> c \<noteq> None"
  using assms by (auto simp: refresh_def highest_state_def map_ok_Inr_iff split: if_splits sum.splits option.splits)

lemma cache_reached_state:
  "cache_reached feat load trees db c \<Longrightarrow> stored feat db
    \<and> (c \<noteq> None \<longrightarrow> (\<exists>db0. stored feat db0 \<and> stored_later feat db0 db \<and> highest_state load db0 = c))"
proof (induction rule: cache_reached.induct)
  case (cache_grow db c db')
  then show ?case using stored_later_stored by (blast intro: rtranclp_trans)
next
  case (cache_request db at_read db' at_write tree end_index start_index version)
  show ?case
  proof (cases "refresh load tree end_index db' at_write")
    case (Inr c)
    from refresh_cases [OF this] cache_request show ?thesis
      by (auto simp: collapsed_update_def Inr intro: exI [of _ db'])
  qed (use cache_request in \<open>simp add: collapsed_update_def\<close>)
qed simp

text \<open>
  What is relied on of a tree of the ledger: as the chain grows its first free index does not decrease, and the collapsed
  update of a range below the first free index stays the same.
\<close>

definition append_only :: "feature \<Rightarrow> (bytes \<Rightarrow> ledger_version \<Rightarrow> 'e + 'l) \<Rightarrow> ('l, 'e, 'u) ledger_tree \<Rightarrow> chain_db \<Rightarrow> bool" where
  "append_only feat load tree db \<longleftrightarrow> (\<forall>db0 l0 l. stored feat db0 \<longrightarrow> stored_later feat db0 db \<longrightarrow> highest_state load db0 = Some l0
     \<longrightarrow> highest_state load db = Some l \<longrightarrow> lt_first_free tree l0 \<le> lt_first_free tree l
     \<and> (\<forall>s e. e < lt_first_free tree l0 \<longrightarrow> lt_collapse tree l s e = lt_collapse tree l0 s e))"

lemma uncached_highest:
  "highest_state load db = Some l \<Longrightarrow> uncached_update load tree s e v db = map_err CacheLedger (make_collapsed_update tree l s e v)"
  by (auto simp: highest_state_def uncached_update_def split: sum.splits option.splits)

lemma not_stale: "\<not> stale tree e c \<Longrightarrow> \<exists>l. c = Some l \<and> e < lt_first_free tree l"
  by (auto simp: stale_def not_le split: option.splits)

lemma serve_current:
  assumes "cache_reached feat load trees db c" and "stored_later feat db db'" and "\<not> stale tree e c"
    and "append_only feat load tree db'" and "highest_state load db' = Some l"
  shows "serve tree s e v c = Inr (uncached_update load tree s e v db')"
proof -
  obtain l0 where l0: "c = Some l0" "e < lt_first_free tree l0" using not_stale [OF assms(3)] by blast
  obtain db0 where "stored feat db0" "stored_later feat db0 db" "highest_state load db0 = Some l0"
    using cache_reached_state [OF assms(1)] l0(1) by auto
  moreover from this have "stored_later feat db0 db'" using assms(2) by (blast intro: rtranclp_trans)
  ultimately have "lt_collapse tree l s e = lt_collapse tree l0 s e" using assms(4,5) l0(2) unfolding append_only_def by blast
  then show ?thesis using l0(1) by (simp add: serve_def uncached_highest [OF assms(5)] make_collapsed_update_def)
qed

text \<open>
  C31. A collapsed update served from the cache is the one made from the highest stored state, as if nothing were cached:
  for a tree that only grows, whatever requests for whatever trees were answered before or replace the cached state between
  the read and the write lock, and while blocks are added. The request never panics.
\<close>

theorem cache_matches_uncached:
  assumes "cache_reached feat load trees db at_read" and "stored_later feat db db'" and "cache_reached feat load trees db' at_write"
    and "append_only feat load tree db'" and "highest_state load db' = Some l"
  shows "fst (collapsed_update load tree start_index end_index version db' at_read at_write)
    = Inr (uncached_update load tree start_index end_index version db')"
proof (cases "stale tree end_index at_read")
  case True
  obtain v key where h: "get_highest_ledger_state db' = Inr (Some (v, key))" "load key (pv_ledger_version v) = Inr l"
    using assms(5) by (auto simp: highest_state_def split: sum.splits option.splits)
  show ?thesis
  proof (cases "stale tree end_index at_write")
    case True
    then have "refresh load tree end_index db' at_write = Inr (Some l)" using h by (simp add: refresh_def)
    then show ?thesis using \<open>stale tree end_index at_read\<close> by (simp add: collapsed_update_def serve_def uncached_highest [OF assms(5)])
  next
    case False
    then have "refresh load tree end_index db' at_write = Inr at_write" by (simp add: refresh_def)
    then show ?thesis using True serve_current [OF assms(3) rtranclp.rtrancl_refl False assms(4,5)] by (simp add: collapsed_update_def)
  qed
next
  case False
  then show ?thesis using serve_current [OF assms(1,2) False assms(4,5)] by (simp add: collapsed_update_def)
qed

definition sample_tree :: "(nat, unit, nat \<times> u64) ledger_tree" where
  "sample_tree = \<lparr>lt_first_free = word_of_nat, lt_collapse = (\<lambda>l s e. if e < 10 then Inr (7, s) else Inl ())\<rparr>"

definition sample_load :: "bytes \<Rightarrow> ledger_version \<Rightarrow> unit + nat" where
  "sample_load key v = (if key = [77] then Inr 10 else Inl ())"

lemma sample_load_Inr [simp]: "sample_load key v = Inr l \<longleftrightarrow> key = [77] \<and> l = 10"
  by (simp add: sample_load_def)

lemma sample_highest: "highest_state sample_load nullifier_sample_db = Some 10"
proof -
  have "\<exists>r. tab_rows (blocks nullifier_sample_db) = [(1, r)] \<and> b_ledger_state_key r = [77] \<and> b_protocol_version r = 2001000"
    by (simp add: nullifier_sample_db_def nullifier_sample_tx_def api_sample_defs sample_defs Let_def as_i64_def zswap_input_def dust_spend_processed_def
      save_ledger_events_def ledger_event_row_of_def correlate_contract_action_ids_def correlate_contract_action_id_def
      save_contract_event_indexed_fields_def indexable_contract_fields_def save_dust_generation_info_def save_dust_generation_event_def
      save_dust_nullifiers_def save_zswap_nullifiers_def Chain_Storage.filter_map_def into_i64_def)
  then obtain r where "tab_rows (blocks nullifier_sample_db) = [(1, r)]" "b_ledger_state_key r = [77]" "b_protocol_version r = 2001000" by blast
  then show ?thesis
    by (simp add: highest_state_def get_highest_ledger_state_def blocks_desc_def order_by_desc_def first_row_def sample_load_def col_version_def
        try_from_i64_def try_from_u32_def)
qed

lemma sample_append_only: "append_only Cloud sample_load sample_tree nullifier_sample_db"
proof -
  have "l = 10" if "highest_state sample_load db = Some l" for db l
    using that by (auto simp: highest_state_def split: sum.splits option.splits)
  then show ?thesis by (auto simp: append_only_def sample_tree_def)
qed

theorem cache_matches_uncached_witness:
  "\<exists>c. cache_reached Cloud sample_load {sample_tree} nullifier_sample_db c \<and> c = Some 10
     \<and> fst (collapsed_update sample_load sample_tree 2 4 (V2_1 2001000) nullifier_sample_db None c)
       = Inr (Inr \<lparr>cu_start_index = 2, cu_end_index = 4, cu_update = (7, 2), cu_protocol_version = V2_1 2001000\<rparr>)"
proof -
  have e: "cache_reached Cloud sample_load {sample_tree} nullifier_sample_db None" using nullifier_sample_ok by (rule cache_empty)
  have st: "stale sample_tree 3 (None :: nat option)" by (simp add: stale_def)
  have r: "refresh sample_load sample_tree 3 nullifier_sample_db None = Inr (Some 10)"
  proof -
    obtain v key where "get_highest_ledger_state nullifier_sample_db = Inr (Some (v, key))" "sample_load key (pv_ledger_version v) = Inr 10"
      using sample_highest by (auto simp: highest_state_def split: sum.splits option.splits)
    then show ?thesis by (simp add: refresh_def st del: sample_load_Inr)
  qed
  have c: "cache_reached Cloud sample_load {sample_tree} nullifier_sample_db (Some 10)"
    using cache_request [OF e rtranclp.rtrancl_refl e, of sample_tree 3 0 "V2_1 2001000"] st r by (simp add: collapsed_update_def)
  have "fst (collapsed_update sample_load sample_tree 2 4 (V2_1 2001000) nullifier_sample_db None (Some 10))
      = Inr (uncached_update sample_load sample_tree 2 4 (V2_1 2001000) nullifier_sample_db)"
    by (rule cache_matches_uncached [OF e rtranclp.rtrancl_refl c sample_append_only sample_highest])
  then show ?thesis using c uncached_highest [OF sample_highest, of sample_tree 2 4 "V2_1 2001000"]
    by (simp add: make_collapsed_update_def sample_tree_def)
qed

text \<open>
  A tree whose leaves change: while the requested range ends below the first free index of the cached state, the update is made
  from the cached leaves. The dust generations tree is such a tree, its leaves hold the decay time that an update event sets.
\<close>

lemma cache_outdated_leaves:
  assumes "e < lt_first_free tree old"
  shows "fst (collapsed_update load tree s e v db (Some old) at_write) = Inr (map_err CacheLedger (make_collapsed_update tree old s e v))"
  using assms by (simp add: collapsed_update_def stale_def serve_def not_le [symmetric])

end
