(* ===== verification/Api_Bridge.thy ===== *)
theory Api_Bridge
  imports Api_Ledger_Cache
begin

text \<open>
  The bridge from Cardano as the API shows it: \<^verbatim>\<open>indexer-api/src/infra/storage/bridge.rs\<close> with its filter of
  \<^verbatim>\<open>domain/storage/bridge.rs\<close> and types of \<^verbatim>\<open>domain/bridge.rs\<close>, the GraphQL types of \<^verbatim>\<open>infra/api/v4/bridge.rs\<close>, the
  bridge queries of \<^verbatim>\<open>v4/query.rs\<close> and the subscriptions of \<^verbatim>\<open>v4/subscription/bridge_events.rs\<close>.
\<close>

section \<open>Events\<close>

record api_bridge_event =
  abe_id :: u64
  abe_block_height :: u64
  abe_transaction_id :: "u64 option"
  abe_variant :: bridge_event_variant
  abe_mc_tx_hash :: "bytes option"
  abe_amount :: u64
  abe_recipient :: "bytes option"
  abe_midnight_tx_hash :: bytes
  abe_count :: "u32 option"

definition decode_u64_be :: "bytes \<Rightarrow> u64" where
  "decode_u64_be bs =
     (let len = min (length bs) 8;
          buf = replicate (8 - len) 0 @ drop (length bs - len) bs
      in word_of_nat (be_to_nat buf))"

definition map_event_row :: "i64 \<times> bridge_event_row \<times> block_row \<Rightarrow> sqlx_error + api_bridge_event" where
  "map_event_row = (\<lambda>(i, r, b).
     and_then (col_opt (col_array 32) (ber_mc_tx_hash r)) (\<lambda>mc_tx_hash.
     and_then (col_array 32 (ber_midnight_tx_hash r)) (\<lambda>midnight_tx_hash.
     map_ok (\<lambda>recipient. \<lparr>abe_id = as_u64 i, abe_block_height = as_u64 (b_height b),
         abe_transaction_id = map_option as_u64 (ber_transaction_id r), abe_variant = ber_variant r, abe_mc_tx_hash = mc_tx_hash,
         abe_amount = decode_u64_be (ber_amount r), abe_recipient = recipient, abe_midnight_tx_hash = midnight_tx_hash,
         abe_count = map_option word_of_int (ber_count r)\<rparr>)
       (col_opt (\<lambda>bs. map_err (\<lambda>_. Decode) (bridge_recipient_new bs)) (ber_recipient r)))))"

record bridge_event_filter =
  bf_variants :: "bridge_event_variant list"
  bf_recipient :: "bytes option"
  bf_block_height_from :: "u64 option"
  bf_block_height_to :: "u64 option"
  bf_id_from :: "u64 option"

definition no_bridge_filter :: bridge_event_filter where
  "no_bridge_filter = \<lparr>bf_variants = [], bf_recipient = None, bf_block_height_from = None, bf_block_height_to = None, bf_id_from = None\<rparr>"

definition push_filter :: "bridge_event_filter \<Rightarrow> i64 \<times> bridge_event_row \<times> block_row \<Rightarrow> bool" where
  "push_filter f = (\<lambda>(i, r, b).
     (bf_variants f \<noteq> [] \<longrightarrow> ber_variant r \<in> set (bf_variants f))
   \<and> (case bf_recipient f of None \<Rightarrow> True | Some a \<Rightarrow> ber_recipient r = Some a)
   \<and> (case bf_block_height_from f of None \<Rightarrow> True | Some h \<Rightarrow> as_i64 h \<le> b_height b)
   \<and> (case bf_block_height_to f of None \<Rightarrow> True | Some h \<Rightarrow> b_height b \<le> as_i64 h)
   \<and> (case bf_id_from f of None \<Rightarrow> True | Some id_from \<Rightarrow> as_i64 id_from < i))"

definition bridge_join :: "chain_db \<Rightarrow> i64 \<times> bridge_event_row \<Rightarrow> (i64 \<times> bridge_event_row \<times> block_row) option" where
  "bridge_join db = (\<lambda>(i, r). map_option (\<lambda>b. (i, r, b)) (row_by_id (blocks db) (ber_block_id r)))"

definition bridge_joined :: "chain_db \<Rightarrow> (i64 \<times> bridge_event_row \<times> block_row) list" where
  "bridge_joined db = Chain_Storage.filter_map (bridge_join db) (tab_rows (bridge_events db))"

text \<open>
  \<^verbatim>\<open>OFFSET\<close> with a value that is negative as \<^verbatim>\<open>i64\<close>: PostgreSQL rejects the statement, SQLite takes it as zero. A limit is at
  most 1000 in every call.
\<close>

definition offset_rows :: "feature \<Rightarrow> u64 \<Rightarrow> 'a list \<Rightarrow> sqlx_error + 'a list" where
  "offset_rows feat offset xs =
     (if 0 \<le> as_i64 offset then Inr (drop (unat offset) xs)
      else case feat of Cloud \<Rightarrow> Inl InvalidOffset | Standalone \<Rightarrow> Inr xs)"

definition get_bridge_events :: "feature \<Rightarrow> bridge_event_filter \<Rightarrow> u64 \<Rightarrow> nat \<Rightarrow> chain_db \<Rightarrow> sqlx_error + api_bridge_event list" where
  "get_bridge_events feat f offset limit db =
     and_then (offset_rows feat offset (sort_key fst (filter (push_filter f) (bridge_joined db)))) (\<lambda>rows.
       try_map map_event_row (take limit rows))"

definition get_bridge_reserve_inflows ::
  "feature \<Rightarrow> u64 option \<Rightarrow> u64 option \<Rightarrow> u64 \<Rightarrow> nat \<Rightarrow> chain_db \<Rightarrow> sqlx_error + api_bridge_event list" where
  "get_bridge_reserve_inflows feat from to offset limit db =
     get_bridge_events feat (no_bridge_filter\<lparr>bf_variants := [ReserveTransferVariant], bf_block_height_from := from,
       bf_block_height_to := to\<rparr>) offset limit db"

datatype treasury_reason = InvalidReason | UnapprovedReason | SubminimalFlushReason

fun as_variant :: "treasury_reason \<Rightarrow> bridge_event_variant" where
  "as_variant InvalidReason = InvalidTransferVariant"
| "as_variant UnapprovedReason = UnapprovedTransferVariant"
| "as_variant SubminimalFlushReason = SubminimalFlushTransferVariant"

definition get_bridge_treasury_inflows ::
  "feature \<Rightarrow> treasury_reason option \<Rightarrow> u64 option \<Rightarrow> u64 option \<Rightarrow> u64 \<Rightarrow> nat \<Rightarrow> chain_db \<Rightarrow> sqlx_error + api_bridge_event list" where
  "get_bridge_treasury_inflows feat reason from to offset limit db =
     and_then (offset_rows feat offset (sort_key fst (filter (\<lambda>(i, r, b).
         (case reason of
            Some rs \<Rightarrow> ber_variant r = as_variant rs
          | None \<Rightarrow> ber_variant r \<in> {InvalidTransferVariant, UnapprovedTransferVariant, SubminimalFlushTransferVariant})
       \<and> (case from of None \<Rightarrow> True | Some h \<Rightarrow> as_i64 h \<le> b_height b)
       \<and> (case to of None \<Rightarrow> True | Some h \<Rightarrow> b_height b \<le> as_i64 h)) (bridge_joined db)))) (\<lambda>rows.
       try_map map_event_row (take limit rows))"

section \<open>Balance and pools\<close>

record bridge_balance =
  bb_deposited :: u128
  bb_claimed :: u128
  bb_balance :: u128

definition saturating_add :: "'a :: len word \<Rightarrow> 'a word \<Rightarrow> 'a word" where
  "saturating_add a b = (if unat a + unat b < 2 ^ LENGTH('a) then a + b else - 1)"

text \<open>The deposits and the claims are read one after the other, each from the state of its time.\<close>

definition get_bridge_balance :: "bytes \<Rightarrow> chain_db \<Rightarrow> chain_db \<Rightarrow> sqlx_error + bridge_balance" where
  "get_bridge_balance recipient db db' =
     (let deposited = sum_list (map (\<lambda>(_, r). ucast (decode_u64_be (ber_amount r)) :: u128)
            (select_where (\<lambda>(_, r). ber_variant r = UserTransferVariant \<and> ber_recipient r = Some recipient) (bridge_events db)))
      in map_ok (\<lambda>amounts. \<lparr>bb_deposited = deposited, bb_claimed = sum_list amounts,
             bb_balance = saturating_sub deposited (sum_list amounts)\<rparr>)
           (try_map (\<lambda>(_, c). col_u128 (bcr_amount c)) (select_where (\<lambda>(_, c). bcr_recipient c = recipient) (bridge_claims db'))))"

record treasury_aggregate =
  ta_reason :: bridge_event_variant
  ta_total :: u128
  ta_count :: u64

record pool_totals =
  pt_reserve_total :: u128
  pt_invalid :: "u128 \<times> u64"
  pt_unapproved :: "u128 \<times> u64"
  pt_flush :: "u128 \<times> u64"
  pt_subminimum_tx_count :: u64

definition zero_totals :: pool_totals where
  "zero_totals = \<lparr>pt_reserve_total = 0, pt_invalid = (0, 0), pt_unapproved = (0, 0), pt_flush = (0, 0), pt_subminimum_tx_count = 0\<rparr>"

definition add_transfer :: "u128 \<Rightarrow> u128 \<times> u64 \<Rightarrow> u128 \<times> u64" where
  "add_transfer amount = (\<lambda>(total, count). (saturating_add total amount, count + 1))"

text \<open>The body of the loop; \<^verbatim>\<open>*c as u64\<close> of an \<^verbatim>\<open>i32\<close> extends the sign.\<close>

definition add_event :: "bridge_event_row \<Rightarrow> pool_totals \<Rightarrow> pool_totals" where
  "add_event r p =
     (let amount = ucast (decode_u64_be (ber_amount r)) in
      case ber_variant r of
        ReserveTransferVariant \<Rightarrow> p\<lparr>pt_reserve_total := saturating_add (pt_reserve_total p) amount\<rparr>
      | InvalidTransferVariant \<Rightarrow> p\<lparr>pt_invalid := add_transfer amount (pt_invalid p)\<rparr>
      | UnapprovedTransferVariant \<Rightarrow> p\<lparr>pt_unapproved := add_transfer amount (pt_unapproved p)\<rparr>
      | SubminimalFlushTransferVariant \<Rightarrow> p\<lparr>pt_flush := add_transfer amount (pt_flush p),
            pt_subminimum_tx_count := pt_subminimum_tx_count p + (case ber_count r of None \<Rightarrow> 0 | Some c \<Rightarrow> word_of_int c)\<rparr>
      | UserTransferVariant \<Rightarrow> p)"

record pool_summary =
  ps_reserve_total :: u128
  ps_treasury_by_reason :: "treasury_aggregate list"
  ps_subminimum_tx_count :: u64
  ps_last_event_block_height :: "u64 option"

definition summary_of :: "pool_totals \<Rightarrow> u64 option \<Rightarrow> pool_summary" where
  "summary_of p last_height =
     (let agg = (\<lambda>reason (total, count). \<lparr>ta_reason = reason, ta_total = total, ta_count = count\<rparr>)
      in \<lparr>ps_reserve_total = pt_reserve_total p,
          ps_treasury_by_reason = [agg InvalidTransferVariant (pt_invalid p), agg UnapprovedTransferVariant (pt_unapproved p),
            agg SubminimalFlushTransferVariant (pt_flush p)],
          ps_subminimum_tx_count = pt_subminimum_tx_count p, ps_last_event_block_height = last_height\<rparr>)"

definition events_to :: "u64 option \<Rightarrow> chain_db \<Rightarrow> (i64 \<times> bridge_event_row \<times> block_row) list" where
  "events_to at_block_height db =
     filter (\<lambda>(_, _, b). b_height b \<le> (case at_block_height of None \<Rightarrow> 2 ^ 63 - 1 | Some h \<Rightarrow> as_i64 h)) (bridge_joined db)"

definition get_bridge_pool_summary :: "u64 option \<Rightarrow> chain_db \<Rightarrow> chain_db \<Rightarrow> pool_summary" where
  "get_bridge_pool_summary at_block_height db db' =
     summary_of (fold (\<lambda>(_, r, _). add_event r) (events_to at_block_height db) zero_totals)
       (map_option as_u64 (max_opt (map (\<lambda>(_, _, b). b_height b) (events_to at_block_height db'))))"

section \<open>GraphQL types\<close>

record graphql_transfer =
  gt_id :: u64
  gt_block_height :: u64
  gt_midnight_tx_hash :: string
  gt_amount :: string

datatype graphql_bridge_event =
    GUserTransfer graphql_transfer string string
  | GReserveTransfer graphql_transfer string
  | GInvalidTransfer graphql_transfer string
  | GUnapprovedTransfer graphql_transfer string string
  | GSubminimalFlushTransfer graphql_transfer u32

definition graphql_bridge_event_from :: "(bytes \<Rightarrow> string) \<Rightarrow> api_bridge_event \<Rightarrow> graphql_bridge_event" where
  "graphql_bridge_event_from hex_encode e =
     (let common = \<lparr>gt_id = abe_id e, gt_block_height = abe_block_height e, gt_midnight_tx_hash = hex_encode (abe_midnight_tx_hash e),
            gt_amount = hex_encode (nat_to_be 8 (unat (abe_amount e)))\<rparr>;
          mc_or_empty = hex_encode (case abe_mc_tx_hash e of None \<Rightarrow> [] | Some h \<Rightarrow> h);
          recipient_or_empty = hex_encode (case abe_recipient e of None \<Rightarrow> [] | Some r \<Rightarrow> r)
      in case abe_variant e of
           UserTransferVariant \<Rightarrow> GUserTransfer common mc_or_empty recipient_or_empty
         | ReserveTransferVariant \<Rightarrow> GReserveTransfer common mc_or_empty
         | InvalidTransferVariant \<Rightarrow> GInvalidTransfer common mc_or_empty
         | UnapprovedTransferVariant \<Rightarrow> GUnapprovedTransfer common mc_or_empty recipient_or_empty
         | SubminimalFlushTransferVariant \<Rightarrow> GSubminimalFlushTransfer common (case abe_count e of None \<Rightarrow> 0 | Some c \<Rightarrow> c))"

record graphql_balance =
  gb_deposited :: string
  gb_claimed :: string
  gb_balance :: string

definition graphql_balance_from :: "(bytes \<Rightarrow> string) \<Rightarrow> bridge_balance \<Rightarrow> graphql_balance" where
  "graphql_balance_from hex_encode b =
     \<lparr>gb_deposited = hex_encode (U128BeBytes (bb_deposited b)), gb_claimed = hex_encode (U128BeBytes (bb_claimed b)),
      gb_balance = hex_encode (U128BeBytes (bb_balance b))\<rparr>"

record graphql_pool_summary =
  gp_reserve_total :: string
  gp_treasury_by_reason :: "(treasury_reason \<times> string \<times> u64) list"
  gp_subminimum_tx_count :: u64
  gp_last_event_block_height :: "u64 option"

fun reason_of :: "bridge_event_variant \<Rightarrow> treasury_reason option" where
  "reason_of InvalidTransferVariant = Some InvalidReason"
| "reason_of UnapprovedTransferVariant = Some UnapprovedReason"
| "reason_of SubminimalFlushTransferVariant = Some SubminimalFlushReason"
| "reason_of _ = None"

definition graphql_pool_summary_from :: "(bytes \<Rightarrow> string) \<Rightarrow> pool_summary \<Rightarrow> graphql_pool_summary" where
  "graphql_pool_summary_from hex_encode s =
     \<lparr>gp_reserve_total = hex_encode (U128BeBytes (ps_reserve_total s)),
      gp_treasury_by_reason = Chain_Storage.filter_map (\<lambda>a. map_option (\<lambda>reason. (reason, hex_encode (U128BeBytes (ta_total a)), ta_count a))
        (reason_of (ta_reason a))) (ps_treasury_by_reason s),
      gp_subminimum_tx_count = ps_subminimum_tx_count s, gp_last_event_block_height = ps_last_event_block_height s\<rparr>"

section \<open>Queries\<close>

definition decode_address :: "(string \<Rightarrow> bytes option) \<Rightarrow> string \<Rightarrow> api_error + bytes" where
  "decode_address hex_decode s =
     (case hex_decode s of
        None \<Rightarrow> Inl (Client ''invalid recipient address'')
      | Some bs \<Rightarrow> map_err (\<lambda>_. Client ''invalid recipient address'') (byte_array_try_from 32 bs))"

definition decode_opt :: "('a \<Rightarrow> 'e + 'b) \<Rightarrow> 'a option \<Rightarrow> 'e + 'b option" where
  "decode_opt dec v = (case v of None \<Rightarrow> Inr None | Some x \<Rightarrow> map_ok Some (dec x))"

definition page_limit :: "u64 option \<Rightarrow> u64" where
  "page_limit limit = min (case limit of None \<Rightarrow> 100 | Some l \<Rightarrow> l) 1000"

definition page_offset :: "u64 option \<Rightarrow> u64" where
  "page_offset offset = (case offset of None \<Rightarrow> 0 | Some x \<Rightarrow> x)"

definition bridge_events_query ::
  "(bytes \<Rightarrow> string) \<Rightarrow> (string \<Rightarrow> bytes option) \<Rightarrow> feature \<Rightarrow> string option \<Rightarrow> bridge_event_variant option \<Rightarrow> u64 option \<Rightarrow> u64 option
     \<Rightarrow> u64 option \<Rightarrow> u64 option \<Rightarrow> chain_db \<Rightarrow> api_error + graphql_bridge_event list" where
  "bridge_events_query hex_encode hex_decode feat recipient variant from to offset limit db =
     and_then (decode_opt (decode_address hex_decode) recipient) (\<lambda>recipient.
     map_ok (map (graphql_bridge_event_from hex_encode)) (server_error ''get bridge events''
       (get_bridge_events feat \<lparr>bf_variants = (case variant of None \<Rightarrow> [] | Some v \<Rightarrow> [v]), bf_recipient = recipient,
          bf_block_height_from = from, bf_block_height_to = to, bf_id_from = None\<rparr> (page_offset offset) (unat (page_limit limit)) db)))"

definition bridge_deposits_query ::
  "(bytes \<Rightarrow> string) \<Rightarrow> (string \<Rightarrow> bytes option) \<Rightarrow> feature \<Rightarrow> string \<Rightarrow> bool option \<Rightarrow> u64 option \<Rightarrow> u64 option \<Rightarrow> chain_db
     \<Rightarrow> api_error + graphql_bridge_event list" where
  "bridge_deposits_query hex_encode hex_decode feat recipient include_unapproved offset limit db =
     and_then (decode_address hex_decode recipient) (\<lambda>recipient.
     map_ok (map (graphql_bridge_event_from hex_encode)) (server_error ''get bridge deposits''
       (get_bridge_events feat (no_bridge_filter\<lparr>bf_variants := UserTransferVariant #
            (if include_unapproved = Some True then [UnapprovedTransferVariant] else []), bf_recipient := Some recipient\<rparr>)
          (page_offset offset) (unat (page_limit limit)) db)))"

definition bridge_reserve_inflows_query ::
  "(bytes \<Rightarrow> string) \<Rightarrow> feature \<Rightarrow> u64 option \<Rightarrow> u64 option \<Rightarrow> u64 option \<Rightarrow> u64 option \<Rightarrow> chain_db \<Rightarrow> api_error + graphql_bridge_event list" where
  "bridge_reserve_inflows_query hex_encode feat from to offset limit db =
     map_ok (map (graphql_bridge_event_from hex_encode)) (server_error ''get bridge reserve inflows''
       (get_bridge_reserve_inflows feat from to (page_offset offset) (unat (page_limit limit)) db))"

definition bridge_treasury_inflows_query ::
  "(bytes \<Rightarrow> string) \<Rightarrow> feature \<Rightarrow> treasury_reason option \<Rightarrow> u64 option \<Rightarrow> u64 option \<Rightarrow> u64 option \<Rightarrow> u64 option \<Rightarrow> chain_db
     \<Rightarrow> api_error + graphql_bridge_event list" where
  "bridge_treasury_inflows_query hex_encode feat reason from to offset limit db =
     map_ok (map (graphql_bridge_event_from hex_encode)) (server_error ''get bridge treasury inflows''
       (get_bridge_treasury_inflows feat reason from to (page_offset offset) (unat (page_limit limit)) db))"

definition bridge_pool_summary_query :: "(bytes \<Rightarrow> string) \<Rightarrow> u64 option \<Rightarrow> chain_db \<Rightarrow> chain_db \<Rightarrow> graphql_pool_summary" where
  "bridge_pool_summary_query hex_encode at_block db db' = graphql_pool_summary_from hex_encode (get_bridge_pool_summary at_block db db')"

text \<open>
  The balance of an address; what is still to be claimed is read from the ledger, whose \<^verbatim>\<open>load\<close> and \<^verbatim>\<open>bridge_receiving\<close>
  are arguments. \<open>dbs\<close> are the states seen by the three reads, \<open>context\<close> is what the text of an error ends with.
\<close>

type_synonym balance_dbs = "chain_db \<times> chain_db \<times> chain_db"

definition current_balance ::
  "(bytes \<Rightarrow> ledger_version \<Rightarrow> 'e + 'l) \<Rightarrow> ('l \<Rightarrow> bytes \<Rightarrow> u128) \<Rightarrow> bytes \<Rightarrow> string \<times> balance_dbs \<Rightarrow> api_error + bridge_balance" where
  "current_balance load bridge_receiving address = (\<lambda>(context, db1, db2, db3).
     and_then (server_error (''get bridge balance'' @ context) (get_bridge_balance address db1 db2)) (\<lambda>balance.
     and_then (server_error (''get highest ledger state'' @ context) (get_highest_ledger_state db3)) (\<lambda>state.
       case state of
         None \<Rightarrow> Inr (balance\<lparr>bb_balance := 0\<rparr>)
       | Some (version, key) \<Rightarrow> map_ok (\<lambda>l. balance\<lparr>bb_balance := bridge_receiving l address\<rparr>)
           (server_error (''load ledger state'' @ context) (load key (pv_ledger_version version))))))"

definition bridge_balance_query ::
  "(bytes \<Rightarrow> ledger_version \<Rightarrow> 'e + 'l) \<Rightarrow> ('l \<Rightarrow> bytes \<Rightarrow> u128) \<Rightarrow> (bytes \<Rightarrow> string) \<Rightarrow> (string \<Rightarrow> bytes option) \<Rightarrow> string \<Rightarrow> balance_dbs
     \<Rightarrow> api_error + graphql_balance" where
  "bridge_balance_query load bridge_receiving hex_encode hex_decode address dbs =
     and_then (decode_address hex_decode address) (\<lambda>address.
     map_ok (graphql_balance_from hex_encode) (current_balance load bridge_receiving address ('''', dbs)))"

section \<open>Subscriptions\<close>

text \<open>A message \<^verbatim>\<open>BridgeEventIndexed\<close>: the height of the block and the event.\<close>

type_synonym bridge_event_indexed = "u64 \<times> bridge_event"

definition synthesise_event :: "bridge_event_indexed \<Rightarrow> api_bridge_event" where
  "synthesise_event = (\<lambda>(block_height, event).
     \<lparr>abe_id = 0, abe_block_height = block_height, abe_transaction_id = None, abe_variant = be_variant event,
      abe_mc_tx_hash = be_mc_tx_hash event, abe_amount = be_amount event, abe_recipient = be_recipient event,
      abe_midnight_tx_hash = be_midnight_tx_hash event,
      abe_count = (case event of SubminimalFlushTransfer _ count _ \<Rightarrow> Some count | _ \<Rightarrow> None)\<rparr>)"

definition BACKFILL_BATCH :: u64 where
  "BACKFILL_BATCH = 100"

definition wanted :: "bytes option \<Rightarrow> bridge_event_variant option \<Rightarrow> bridge_event_indexed \<Rightarrow> bool" where
  "wanted recipient variant = (\<lambda>(_, event).
     (case recipient of None \<Rightarrow> True | Some r \<Rightarrow> be_recipient event = Some r)
   \<and> (case variant of None \<Rightarrow> True | Some v \<Rightarrow> be_variant event = v))"

definition bridge_page ::
  "feature \<Rightarrow> bytes option \<times> bridge_event_variant option \<Rightarrow> nat \<Rightarrow> u64 \<Rightarrow> chain_db \<Rightarrow> sqlx_error + api_bridge_event list" where
  "bridge_page feat = (\<lambda>(recipient, variant) limit last_id db.
     get_bridge_events feat \<lparr>bf_variants = (case variant of None \<Rightarrow> [] | Some v \<Rightarrow> [v]), bf_recipient = recipient, bf_block_height_from = None,
       bf_block_height_to = None, bf_id_from = Some last_id\<rparr> 0 limit db)"

text \<open>
  After the existing events one page is read for every message that matches. The id of the last event is the highest of those
  yielded, as every page has higher ids than the last one.
\<close>

fun bridge_live ::
  "(u64 \<Rightarrow> chain_db \<Rightarrow> sqlx_error + api_bridge_event list) \<Rightarrow> (bridge_event_indexed \<Rightarrow> bool) \<Rightarrow> u64 \<Rightarrow> (bridge_event_indexed \<times> chain_db) list
     \<Rightarrow> api_bridge_event list \<times> sqlx_error stream_end" where
  "bridge_live fetch want last_id [] = ([], Waiting)"
| "bridge_live fetch want last_id ((msg, db) # live) =
     (if want msg then
        case fetch last_id db of
          Inl e \<Rightarrow> ([], Failed e)
        | Inr events \<Rightarrow> (case bridge_live fetch want (fold (\<lambda>e m. max m (abe_id e)) events last_id) live of (rest, fin) \<Rightarrow> (events @ rest, fin))
      else bridge_live fetch want last_id live)"

fun backfill :: "(u64 \<Rightarrow> chain_db \<Rightarrow> sqlx_error + api_bridge_event list) \<Rightarrow> u64 \<Rightarrow> chain_db list
     \<Rightarrow> (api_bridge_event list \<times> u64 \<times> sqlx_error option) option" where
  "backfill fetch last_id [] = None"
| "backfill fetch last_id (db # dbs) =
     (case fetch last_id db of
        Inl e \<Rightarrow> Some ([], last_id, Some e)
      | Inr events \<Rightarrow>
          if events = [] then Some ([], last_id, None)
          else map_option (\<lambda>(rest, l, e). (events @ rest, l, e)) (backfill fetch (fold (\<lambda>e m. max m (abe_id e)) events last_id) dbs))"

definition bridge_events_subscription ::
  "(bytes \<Rightarrow> string) \<Rightarrow> (string \<Rightarrow> bytes option) \<Rightarrow> feature \<Rightarrow> u64 option \<Rightarrow> string option \<Rightarrow> bridge_event_variant option \<Rightarrow> chain_db list
     \<Rightarrow> (bridge_event_indexed \<times> chain_db) list \<Rightarrow> api_error + (graphql_bridge_event list \<times> sqlx_error stream_end) option" where
  "bridge_events_subscription hex_encode hex_decode feat from recipient variant existing live =
     map_ok (\<lambda>recipient.
       let fetch = bridge_page feat (recipient, variant) (unat BACKFILL_BATCH) in
       map_option (\<lambda>(events, last_id, err).
         apfst (map (graphql_bridge_event_from hex_encode))
           (case err of
              Some e \<Rightarrow> (events, Failed e)
            | None \<Rightarrow> apfst ((@) events) (bridge_live fetch (wanted recipient variant) last_id live)))
         (backfill fetch (case from of None \<Rightarrow> 0 | Some i \<Rightarrow> i) existing))
       (decode_opt (decode_address hex_decode) recipient)"

definition pool_affecting :: "bridge_event_indexed \<Rightarrow> bool" where
  "pool_affecting msg \<longleftrightarrow> be_variant (snd msg) \<in> {ReserveTransferVariant, InvalidTransferVariant, UnapprovedTransferVariant,
     SubminimalFlushTransferVariant}"

definition bridge_pool_updates ::
  "(bytes \<Rightarrow> string) \<Rightarrow> chain_db \<times> chain_db \<Rightarrow> (bridge_event_indexed \<times> chain_db \<times> chain_db) list
     \<Rightarrow> (graphql_bridge_event option \<times> graphql_pool_summary) list" where
  "bridge_pool_updates hex_encode first live =
     (None, graphql_pool_summary_from hex_encode (get_bridge_pool_summary None (fst first) (snd first)))
     # map (\<lambda>(msg, db, db'). (Some (graphql_bridge_event_from hex_encode (synthesise_event msg)),
           graphql_pool_summary_from hex_encode (get_bridge_pool_summary None db db')))
         (filter (\<lambda>(msg, _). pool_affecting msg) live)"

text \<open>Balances are yielded again for every bridge event to the address and every change of its unshielded outputs.\<close>

datatype balance_message = DepositIndexed bridge_event_indexed | UtxoIndexed bytes

fun balance_changed :: "bytes \<Rightarrow> balance_message \<Rightarrow> bool" where
  "balance_changed address (DepositIndexed msg) \<longleftrightarrow> be_recipient (snd msg) = Some address"
| "balance_changed address (UtxoIndexed owner) \<longleftrightarrow> owner = address"

definition bridge_balance_subscription ::
  "(bytes \<Rightarrow> ledger_version \<Rightarrow> 'e + 'l) \<Rightarrow> ('l \<Rightarrow> bytes \<Rightarrow> u128) \<Rightarrow> (bytes \<Rightarrow> string) \<Rightarrow> (string \<Rightarrow> bytes option) \<Rightarrow> string \<Rightarrow> balance_dbs
     \<Rightarrow> (balance_message \<times> balance_dbs) list \<Rightarrow> api_error + graphql_balance list \<times> api_error option" where
  "bridge_balance_subscription load bridge_receiving hex_encode hex_decode address first live =
     map_ok (\<lambda>address. convert_items (\<lambda>dbs. map_ok (graphql_balance_from hex_encode) (current_balance load bridge_receiving address dbs))
         (('''', first) # map (\<lambda>(_, dbs). ('' (live)'', dbs)) (filter (\<lambda>(msg, _). balance_changed address msg) live)))
       (decode_address hex_decode address)"

end
