(* ===== verification/Api_Dust.thy ===== *)
theory Api_Dust
  imports Api_Bridge Event_Decoder
begin

text \<open>
  Dust generation as the API shows it: \<^verbatim>\<open>indexer-api/src/infra/storage/dust.rs\<close>, \<^verbatim>\<open>dust_generations.rs\<close> with the types of
  \<^verbatim>\<open>domain/dust.rs\<close>, and the subscription \<^verbatim>\<open>v4/subscription/dust_generations.rs\<close>. The parameters of dust generation, the ledger
  states and the encoding of addresses are arguments.
\<close>

section \<open>Status of reward addresses\<close>

record dust_parameters =
  dp_generation_decay_rate :: u32
  dp_night_dust_ratio :: u64

definition saturating_mul :: "'a :: len word \<Rightarrow> 'a word \<Rightarrow> 'a word" where
  "saturating_mul a b = (if unat a * unat b < 2 ^ LENGTH('a) then a * b else - 1)"

record dust_generation_status =
  dgs_cardano_reward_address :: bytes
  dgs_dust_address :: "bytes option"
  dgs_registered :: bool
  dgs_night_balance :: u128
  dgs_generation_rate :: u128
  dgs_max_capacity :: u128
  dgs_current_capacity :: u128
  dgs_utxo_tx_hash :: "bytes option"
  dgs_utxo_output_index :: "u32 option"

definition active_registrations :: "bytes \<Rightarrow> chain_db \<Rightarrow> registration_row list" where
  "active_registrations reward_address db = order_by_desc c_registered_at (map snd (select_where (\<lambda>(_, r).
     c_cardano_stake_key r = reward_address \<and> c_removed_at r = None) (cnight_registrations db)))"

definition active_generations :: "bytes \<Rightarrow> chain_db \<Rightarrow> dust_generation_row list" where
  "active_generations owner db = map snd (select_where (\<lambda>(_, r). g_owner r = owner \<and> g_dtime r = None) (dust_generation_infos db))"

definition latest_timestamp :: "chain_db \<Rightarrow> u64 option" where
  "latest_timestamp db = map_option (\<lambda>r. as_u64 (b_timestamp r)) (first_row (blocks_desc db))"

text \<open>What one generation contributes: the rate, the capacity it grows to and what it has at the time given.\<close>

record contribution =
  co_value :: u128
  co_rate :: u128
  co_max :: u128
  co_current :: u128

definition contribution_of :: "dust_parameters \<Rightarrow> u128 \<Rightarrow> u64 \<Rightarrow> u64 \<Rightarrow> contribution" where
  "contribution_of params v ctime now =
     (let rate = saturating_mul v (ucast (dp_generation_decay_rate params));
          max_capacity = saturating_mul v (ucast (dp_night_dust_ratio params))
      in \<lparr>co_value = v, co_rate = rate, co_max = max_capacity,
          co_current = min (saturating_mul rate (ucast (elapsed_seconds_since now (to_ms ctime)))) max_capacity\<rparr>)"

text \<open>
  The body of the loop of \<^verbatim>\<open>get_dust_generation_status\<close> for one address; each of its queries has the state it sees. Only the
  newest generation of the address counts.
\<close>

definition generation_status ::
  "dust_parameters \<Rightarrow> chain_db \<times> chain_db \<times> chain_db \<Rightarrow> bytes \<Rightarrow> sqlx_error + dust_generation_status" where
  "generation_status params dbs reward_address =
     (let (db1, db2, db3) = dbs;
          registration = first_row (active_registrations reward_address db1);
          registered = (case registration of None \<Rightarrow> False | Some r \<Rightarrow> c_valid r);
          dust_address = (case registration of None \<Rightarrow> [] | Some r \<Rightarrow> c_dust_address r);
          newest = (if registered then first_row (order_by_desc g_ctime (active_generations dust_address db2)) else None);
          status = (\<lambda>c. \<lparr>dgs_cardano_reward_address = reward_address, dgs_dust_address = (if registered then Some dust_address else None),
              dgs_registered = registered, dgs_night_balance = co_value c, dgs_generation_rate = co_rate c, dgs_max_capacity = co_max c,
              dgs_current_capacity = co_current c, dgs_utxo_tx_hash = (case registration of None \<Rightarrow> None | Some r \<Rightarrow> c_utxo_tx_hash r),
              dgs_utxo_output_index = (case registration of None \<Rightarrow> None | Some r \<Rightarrow> map_option word_of_int (c_utxo_output_index r))\<rparr>)
      in case newest of
           None \<Rightarrow> Inr (status \<lparr>co_value = 0, co_rate = 0, co_max = 0, co_current = 0\<rparr>)
         | Some g \<Rightarrow> map_ok (\<lambda>v.
             let ctime = as_u64 (g_ctime g);
                 now = (case latest_timestamp db3 of None \<Rightarrow> to_ms ctime | Some t \<Rightarrow> t)
             in status (contribution_of params v ctime now)) (col_u128 (g_value g)))"

definition get_dust_generation_status ::
  "dust_parameters \<Rightarrow> (nat \<Rightarrow> chain_db \<times> chain_db \<times> chain_db) \<Rightarrow> bytes list \<Rightarrow> sqlx_error + dust_generation_status list" where
  "get_dust_generation_status params seen addresses = try_map (\<lambda>(i, a). generation_status params (seen i) a) (enumerate 0 addresses)"

section \<open>Generations of reward addresses\<close>

record dust_registration =
  dr_dust_address :: bytes
  dr_valid :: bool
  dr_night_balance :: u128
  dr_generation_rate :: u128
  dr_max_capacity :: u128
  dr_current_capacity :: u128
  dr_utxo_tx_hash :: "bytes option"
  dr_utxo_output_index :: "u32 option"

definition add_generation :: "dust_parameters \<Rightarrow> u64 option \<Rightarrow> u128 \<times> u64 \<Rightarrow> contribution \<Rightarrow> contribution" where
  "add_generation params now = (\<lambda>(v, ctime) acc.
     let c = contribution_of params v ctime (case now of None \<Rightarrow> 0 | Some t \<Rightarrow> t)
     in \<lparr>co_value = saturating_add (co_value acc) v, co_rate = saturating_add (co_rate acc) (co_rate c),
         co_max = saturating_add (co_max acc) (co_max c),
         co_current = (case now of None \<Rightarrow> co_current acc | Some _ \<Rightarrow> saturating_add (co_current acc) (co_current c))\<rparr>)"

definition registration_data ::
  "dust_parameters \<Rightarrow> u64 option \<Rightarrow> chain_db \<Rightarrow> registration_row \<Rightarrow> sqlx_error + dust_registration" where
  "registration_data params now db r =
     map_ok (\<lambda>generations.
       let c = fold (add_generation params now) generations \<lparr>co_value = 0, co_rate = 0, co_max = 0, co_current = 0\<rparr>
       in \<lparr>dr_dust_address = c_dust_address r, dr_valid = c_valid r, dr_night_balance = co_value c, dr_generation_rate = co_rate c,
           dr_max_capacity = co_max c, dr_current_capacity = co_current c, dr_utxo_tx_hash = c_utxo_tx_hash r,
           dr_utxo_output_index = map_option word_of_int (c_utxo_output_index r)\<rparr>)
       (try_map (\<lambda>g. map_ok (\<lambda>v. (v, as_u64 (g_ctime g))) (col_u128 (g_value g))) (active_generations (c_dust_address r) db))"

text \<open>\<open>reg_db i\<close> is the state seen by the query for the registrations of the address \<open>i\<close>, \<open>gen_db i j\<close> by that for the generations of its
  registration \<open>j\<close>.\<close>

definition get_dust_generations ::
  "dust_parameters \<Rightarrow> chain_db \<Rightarrow> (nat \<Rightarrow> chain_db) \<Rightarrow> (nat \<Rightarrow> nat \<Rightarrow> chain_db) \<Rightarrow> bytes list
     \<Rightarrow> sqlx_error + (bytes \<times> dust_registration list) list" where
  "get_dust_generations params db reg_db gen_db addresses =
     try_map (\<lambda>(i, a). map_ok (Pair a) (try_map (\<lambda>(j, r). registration_data params (latest_timestamp db) (gen_db i j) r)
       (enumerate 0 (active_registrations a (reg_db i))))) (enumerate 0 addresses)"

section \<open>Entries of the generation tree\<close>

record dust_generation_entry =
  dge_commitment_mt_index :: u64
  dge_generation_mt_index :: u64
  dge_owner :: bytes
  dge_value :: u128
  dge_initial_value :: u128
  dge_backing_night :: bytes
  dge_ctime :: u64
  dge_transaction_id :: u64
  dge_transaction_hash :: bytes

definition dust_entry_from_row :: "dust_generation_row \<times> transaction_row \<Rightarrow> sqlx_error + dust_generation_entry" where
  "dust_entry_from_row = (\<lambda>(g, t).
     and_then (col_u64 (g_merkle_index g)) (\<lambda>commitment_index.
     and_then (col_u64 (g_generation_index g)) (\<lambda>generation_index.
     and_then (col_u128 (g_value g)) (\<lambda>v.
     and_then (col_u128 (g_initial_value g)) (\<lambda>initial_value.
     and_then (col_u64 (g_ctime g)) (\<lambda>ctime.
     and_then (col_u64 (g_transaction_id g)) (\<lambda>transaction_id.
     map_ok (\<lambda>hash. \<lparr>dge_commitment_mt_index = commitment_index, dge_generation_mt_index = generation_index, dge_owner = g_owner g,
         dge_value = v, dge_initial_value = initial_value, dge_backing_night = g_backing_night g, dge_ctime = ctime,
         dge_transaction_id = transaction_id, dge_transaction_hash = hash\<rparr>)
       (col_array 32 (t_hash t)))))))))"

definition join_generation :: "chain_db \<Rightarrow> i64 \<times> dust_generation_row \<Rightarrow> (dust_generation_row \<times> transaction_row) option" where
  "join_generation db = (\<lambda>(_, g). map_option (Pair g) (row_by_id (transactions db) (g_transaction_id g)))"

definition dust_entries_page :: "bytes \<Rightarrow> u64 \<Rightarrow> nat \<Rightarrow> u64 \<Rightarrow> chain_db \<Rightarrow> sqlx_error + dust_generation_entry list" where
  "dust_entries_page dust_address end_index batch_size start_index db =
     try_map dust_entry_from_row (take batch_size (sort_key (\<lambda>(g, _). g_generation_index g) (Chain_Storage.filter_map (join_generation db)
       (select_where (\<lambda>(_, g). g_owner g = dust_address \<and> as_i64 start_index \<le> g_generation_index g \<and> g_generation_index g \<le> as_i64 end_index)
         (dust_generation_infos db)))))"

fun entries_stream ::
  "(u64 \<Rightarrow> chain_db \<Rightarrow> sqlx_error + dust_generation_entry list) \<Rightarrow> u64 \<Rightarrow> u64 \<Rightarrow> chain_db list
     \<Rightarrow> (dust_generation_entry list \<times> sqlx_error option) option" where
  "entries_stream fetch end_index start_index [] = None"
| "entries_stream fetch end_index start_index (db # dbs) =
     (case fetch start_index db of
        Inl e \<Rightarrow> Some ([], Some e)
      | Inr entries \<Rightarrow>
          if entries = [] then Some ([], None)
          else let last_index = dge_generation_mt_index (last entries) in
            if end_index \<le> last_index then Some (entries, None)
            else map_option (\<lambda>(rest, e). (entries @ rest, e)) (entries_stream fetch end_index (last_index + 1) dbs))"

definition get_dust_generation_entries ::
  "bytes \<Rightarrow> u64 \<Rightarrow> u64 \<Rightarrow> nat \<Rightarrow> chain_db list \<Rightarrow> (dust_generation_entry list \<times> sqlx_error option) option" where
  "get_dust_generation_entries dust_address start_index end_index batch_size dbs =
     entries_stream (dust_entries_page dust_address end_index batch_size) end_index start_index dbs"

section \<open>Updates of decay times\<close>

record dtime_update_entry =
  due_ledger_event_id :: u64
  due_generation_mt_index :: u64
  due_owner :: bytes
  due_night_utxo_hash :: bytes
  due_new_dtime :: u64
  due_transaction_id :: u64
  due_transaction_hash :: bytes
  due_tree_insertion_path :: bytes

type_synonym dtime_joined = "i64 \<times> ledger_event_row \<times> transaction_row \<times> dust_generation_row"

definition dtime_join :: "chain_db \<Rightarrow> i64 \<times> ledger_event_row \<Rightarrow> dtime_joined list" where
  "dtime_join db = (\<lambda>(i, r).
     case (e_attributes r, row_by_id (transactions db) (e_transaction_id r)) of
       (DustGenerationDtimeUpdate generation_info _ _, Some t) \<Rightarrow>
         map (\<lambda>(_, g). (i, r, t, g)) (select_where (\<lambda>(_, g). g_night_utxo_hash g = dgi_night_utxo_hash generation_info) (dust_generation_infos db))
     | _ \<Rightarrow> [])"

definition dtime_rows :: "bytes \<Rightarrow> u64 \<Rightarrow> u64 \<Rightarrow> nat \<Rightarrow> u64 \<Rightarrow> chain_db \<Rightarrow> dtime_joined list" where
  "dtime_rows dust_address cutoff_block_id upper_block_id batch_size after_event_id db =
     take batch_size (sort_key fst (filter (\<lambda>(_, _, t, g). as_i64 cutoff_block_id < t_block_id t \<and> t_block_id t \<le> as_i64 upper_block_id
         \<and> g_owner g = dust_address)
       (concat (map (dtime_join db) (select_where (\<lambda>(i, r). e_variant r = VDustGenerationDtimeUpdate \<and> as_i64 after_event_id < i) (ledger_events db))))))"

text \<open>Every column decodes or the page fails; an event with other attributes would be skipped.\<close>

definition dtime_update_from_row :: "dtime_joined \<Rightarrow> sqlx_error + dtime_update_entry list" where
  "dtime_update_from_row = (\<lambda>(i, r, t, g).
     map_ok (\<lambda>hash. case e_attributes r of
         DustGenerationDtimeUpdate generation_info _ path \<Rightarrow>
           [\<lparr>due_ledger_event_id = as_u64 i, due_generation_mt_index = as_u64 (g_generation_index g), due_owner = g_owner g,
             due_night_utxo_hash = g_night_utxo_hash g, due_new_dtime = dgi_dtime generation_info,
             due_transaction_id = as_u64 (e_transaction_id r), due_transaction_hash = hash, due_tree_insertion_path = path\<rparr>]
       | _ \<Rightarrow> []) (col_array 32 (t_hash t)))"

fun dtime_stream :: "(u64 \<Rightarrow> chain_db \<Rightarrow> dtime_joined list) \<Rightarrow> u64 \<Rightarrow> chain_db list \<Rightarrow> (dtime_update_entry list \<times> sqlx_error option) option" where
  "dtime_stream fetch after_event_id [] = None"
| "dtime_stream fetch after_event_id (db # dbs) =
     (let rows = fetch after_event_id db in
      case try_map dtime_update_from_row rows of
        Inl e \<Rightarrow> Some ([], Some e)
      | Inr items \<Rightarrow>
          if rows = [] then Some ([], None)
          else map_option (\<lambda>(rest, e). (concat items @ rest, e)) (dtime_stream fetch (as_u64 (fst (last rows))) dbs))"

definition get_dust_generation_dtime_updates ::
  "bytes \<Rightarrow> u64 \<Rightarrow> u64 \<Rightarrow> u64 \<Rightarrow> nat \<Rightarrow> chain_db list \<Rightarrow> (dtime_update_entry list \<times> sqlx_error option) option" where
  "get_dust_generation_dtime_updates dust_address cutoff_block_id upper_block_id after_event_id batch_size dbs =
     dtime_stream (dtime_rows dust_address cutoff_block_id upper_block_id batch_size) after_event_id dbs"

section \<open>The subscription to a snapshot of the generations\<close>

record 'u dust_generations_item =
  di_commitment_mt_index :: u64
  di_generation_mt_index :: u64
  di_owner :: string
  di_value :: string
  di_initial_value :: string
  di_backing_night :: string
  di_ctime :: u64
  di_transaction_id :: u64
  di_transaction_hash :: string
  di_collapsed_merkle_tree :: "'u merkle_update option"

record dtime_update_item =
  ui_generation_mt_index :: u64
  ui_owner :: string
  ui_night_utxo_hash :: string
  ui_new_dtime :: u64
  ui_transaction_id :: u64
  ui_transaction_hash :: string
  ui_tree_insertion_path :: string

datatype 'u dust_generations_event =
    DustGenerationsItem "'u dust_generations_item"
  | DustGenerationsProgress u64 "'u merkle_update option"
  | DustGenerationDtimeUpdateItem dtime_update_item

definition dtime_update_item_of :: "(bytes \<Rightarrow> string) \<Rightarrow> dtime_update_entry \<Rightarrow> dtime_update_item" where
  "dtime_update_item_of hex_encode u =
     \<lparr>ui_generation_mt_index = due_generation_mt_index u, ui_owner = hex_encode (due_owner u), ui_night_utxo_hash = hex_encode (due_night_utxo_hash u),
      ui_new_dtime = due_new_dtime u, ui_transaction_id = due_transaction_id u, ui_transaction_hash = hex_encode (due_transaction_hash u),
      ui_tree_insertion_path = hex_encode (due_tree_insertion_path u)\<rparr>"

definition dust_generations_item_of ::
  "(bytes \<Rightarrow> string) \<Rightarrow> dust_generation_entry \<Rightarrow> 'u merkle_update option \<Rightarrow> 'u dust_generations_item" where
  "dust_generations_item_of hex_encode e update =
     \<lparr>di_commitment_mt_index = dge_commitment_mt_index e, di_generation_mt_index = dge_generation_mt_index e, di_owner = hex_encode (dge_owner e),
      di_value = nat_to_string (unat (dge_value e)), di_initial_value = nat_to_string (unat (dge_initial_value e)),
      di_backing_night = hex_encode (dge_backing_night e), di_ctime = dge_ctime e, di_transaction_id = dge_transaction_id e,
      di_transaction_hash = hex_encode (dge_transaction_hash e), di_collapsed_merkle_tree = update\<rparr>"

text \<open>\<^verbatim>\<open>make_collapsed_update\<close> and \<^verbatim>\<open>make_final_collapsed_update\<close> of the subscription.\<close>

definition gap_update ::
  "('l, 'e, 'u) ledger_tree \<Rightarrow> 'l \<Rightarrow> protocol_version \<Rightarrow> u64 \<Rightarrow> u64 \<Rightarrow> api_error + 'u merkle_update option" where
  "gap_update tree l version cursor entry_index =
     (if entry_index \<le> cursor \<or> entry_index = 0 then Inr None
      else map_ok Some (server_error ''create dust generations collapsed update''
        (make_collapsed_update tree l cursor (entry_index - 1) version)))"

definition final_update ::
  "('l, 'e, 'u) ledger_tree \<Rightarrow> 'l \<Rightarrow> protocol_version \<Rightarrow> u64 \<Rightarrow> u64 \<Rightarrow> api_error + 'u merkle_update option" where
  "final_update tree l version cursor end_index =
     (if end_index < cursor then Inr None
      else map_ok Some (server_error ''create final dust generations collapsed update''
        (make_collapsed_update tree l cursor end_index version)))"

fun snapshot_entries ::
  "(u64 \<Rightarrow> u64 \<Rightarrow> api_error + 'u merkle_update option) \<Rightarrow> u64 \<Rightarrow> dust_generation_entry list
     \<Rightarrow> (dust_generation_entry \<times> 'u merkle_update option) list \<times> (api_error + u64)" where
  "snapshot_entries gap cursor [] = ([], Inr cursor)"
| "snapshot_entries gap cursor (e # es) =
     (case gap cursor (dge_generation_mt_index e) of
        Inl err \<Rightarrow> ([], Inl err)
      | Inr update \<Rightarrow> apfst ((#) (e, update)) (snapshot_entries gap (dge_generation_mt_index e + 1) es))"

text \<open>
  The entries and the final update. The entries are asked for up to the last index of the tree, which is zero for an empty
  tree as well.
\<close>

definition snapshot_stream ::
  "(bytes \<Rightarrow> string) \<Rightarrow> ('l, 'e, 'u) ledger_tree \<Rightarrow> 'l \<Rightarrow> protocol_version \<Rightarrow> bytes \<Rightarrow> nat \<Rightarrow> chain_db list
     \<Rightarrow> ('u dust_generations_event list \<times> api_error option) option" where
  "snapshot_stream hex_encode tree l version dust_address batch_size dbs =
     (let end_index = lt_first_free tree l; last_index = saturating_sub end_index 1 in
      map_option (\<lambda>(entries, err).
        let (items, cursor) = snapshot_entries (gap_update tree l version) 0 entries;
            events = map (\<lambda>(e, u). DustGenerationsItem (dust_generations_item_of hex_encode e u)) items
        in case cursor of
             Inl e \<Rightarrow> (events, Some e)
           | Inr cursor \<Rightarrow>
               (case err of
                  Some _ \<Rightarrow> (events, Some (Server ''get next dust generation entry''))
                | None \<Rightarrow>
                    (case (if end_index = 0 then Inr None else final_update tree l version cursor last_index) of
                       Inl e \<Rightarrow> (events, Some e)
                     | Inr u \<Rightarrow> (events @ [DustGenerationsProgress last_index u], None))))
        (get_dust_generation_entries dust_address 0 last_index batch_size dbs))"

text \<open>Mapping the cutoff height to a block; heights that do not exist, and zero, stand for the start.\<close>

definition cutoff_block :: "u64 \<Rightarrow> chain_db \<Rightarrow> api_error + u64" where
  "cutoff_block dtime_cutoff_height db =
     (if dtime_cutoff_height = 0 then Inr 0
      else if 2 ^ 32 \<le> unat dtime_cutoff_height then Inl (Client ''dtime_cutoff_height out of range'')
      else map_ok (\<lambda>b. case b of None \<Rightarrow> 0 | Some b \<Rightarrow> ab_id b)
        (server_error ''get block by height for dtime cutoff'' (get_block_by_height (ucast dtime_cutoff_height) db)))"

record ('l, 'e) snapshot_source =
  ss_load :: "bytes \<Rightarrow> ledger_version \<Rightarrow> 'e + 'l"
  ss_root_loadable :: "bytes \<Rightarrow> ledger_version \<Rightarrow> 'e + bool"

text \<open>
  What has to hold before anything is yielded: the block is known, not older than the window, and its ledger state is still
  there. Gives the state with its version, the id of the block and that of the cutoff.
\<close>

definition snapshot_start ::
  "('l, 'e) snapshot_source \<Rightarrow> u32 \<Rightarrow> bytes \<Rightarrow> u64 \<Rightarrow> chain_db \<times> chain_db \<times> chain_db \<Rightarrow> api_error + 'l \<times> protocol_version \<times> u64 \<times> u64" where
  "snapshot_start src max_snapshot_age block_hash dtime_cutoff_height = (\<lambda>(db1, db2, db3).
     and_then (server_error ''get ledger state at block'' (get_ledger_state_at block_hash db1)) (\<lambda>found.
     and_then (ok_or (Client ''unknown block hash'') found) (\<lambda>(block_id, height, version, key).
     and_then (server_error ''get latest block'' (get_latest_block db2)) (\<lambda>latest.
     let latest_height = (case latest of None \<Rightarrow> 0 | Some b \<Rightarrow> ab_height b) in
     and_then (ensure ''block hash is older than the snapshot freshness window, re-subscribe with a more recent block hash''
       (saturating_sub latest_height height \<le> max_snapshot_age)) (\<lambda>_.
     and_then (server_error ''check ledger state availability'' (ss_root_loadable src key (pv_ledger_version version))) (\<lambda>loadable.
     and_then (ensure ''ledger state for this block is no longer available, re-subscribe with a more recent block hash'' loadable) (\<lambda>_.
     and_then (server_error ''load ledger state at block'' (ss_load src key (pv_ledger_version version))) (\<lambda>l.
     map_ok (\<lambda>cutoff. (l, version, block_id, cutoff)) (cutoff_block dtime_cutoff_height db3)))))))))"

definition dust_generations_subscription ::
  "('l, 'e) snapshot_source \<Rightarrow> ('l, 'e, 'u) ledger_tree \<Rightarrow> (bytes \<Rightarrow> string) \<Rightarrow> (string \<Rightarrow> bytes option) \<Rightarrow> (string \<Rightarrow> bytes option) \<Rightarrow> u32 \<Rightarrow> nat
     \<Rightarrow> string \<Rightarrow> string \<Rightarrow> u64 \<Rightarrow> chain_db \<times> chain_db \<times> chain_db \<Rightarrow> chain_db list \<Rightarrow> chain_db list
     \<Rightarrow> ('u dust_generations_event list \<times> api_error option) option" where
  "dust_generations_subscription src tree hex_encode hex_decode decode_dust_address max_snapshot_age batch_size dust_address block_hash
       dtime_cutoff_height dbs dtime_dbs entry_dbs =
     (case and_then (ok_or (Client ''invalid bech32m dust address'') (decode_dust_address dust_address)) (\<lambda>address.
           and_then (ok_or (Client ''invalid block hash'') (hex_decode block_hash)) (\<lambda>hash.
           and_then (map_err (\<lambda>_. Client ''invalid block hash'') (byte_array_try_from 32 hash)) (\<lambda>hash.
           map_ok (Pair address) (snapshot_start src max_snapshot_age hash dtime_cutoff_height dbs)))) of
        Inl e \<Rightarrow> Some ([], Some e)
      | Inr (address, l, version, block_id, cutoff) \<Rightarrow>
          (case get_dust_generation_dtime_updates address cutoff block_id 0 batch_size dtime_dbs of
             None \<Rightarrow> None
           | Some (updates, err) \<Rightarrow>
               let events = map (\<lambda>u. DustGenerationDtimeUpdateItem (dtime_update_item_of hex_encode u)) updates in
               (case err of
                  Some _ \<Rightarrow> Some (events, Some (Server ''get next dtime update''))
                | None \<Rightarrow> map_option (apfst ((@) events)) (snapshot_stream hex_encode tree l version address batch_size entry_dbs))))"

end
