(* ===== verification/Api_Bridge_Props.thy ===== *)
theory Api_Bridge_Props
  imports Api_Bridge
begin

text \<open>
  What the chain indexer saves of the bridge is what the API shows: events read back, pool totals and balances, and
  the subscription to bridge events.
\<close>

section \<open>Saved events\<close>

lemma bridge_untouched [simp]:
  "bridge_events (save_identifiers ids tid db) = bridge_events db" "bridge_events (save_bridge_claim tid c db) = bridge_events db"
  "bridge_events (save_dust_registration_events regs bid ts db) = bridge_events db"
  "bridge_events (save_system_parameters_change ch db) = bridge_events db"
  "bridge_events (save_dust_nullifiers es tid bid db) = bridge_events db" "bridge_events (save_zswap_nullifiers es tid bid db) = bridge_events db"
  "bridge_events (save_contract_event_indexed_fields fs eids db) = bridge_events db"
  by (auto simp: save_identifiers_def save_bridge_claim_def save_dust_registration_events_def save_dust_nullifiers_def save_zswap_nullifiers_def
      save_contract_event_indexed_fields_def save_system_parameters_change_def Let_def split: option.splits)

lemma bridge_save_contract_actions: "save_contract_actions as tid db = Inr (ids, db') \<Longrightarrow> bridge_events db' = bridge_events db"
  by (auto simp: save_contract_actions_def save_contract_balances_def Let_def split_def res_simps insert_unique_Inr split: if_splits)

lemma bridge_save_utxos:
  "save_created_unshielded_utxos us tid db = Inr db' \<Longrightarrow> bridge_events db' = bridge_events db"
  "save_spent_unshielded_utxos us tid db = Inr db' \<Longrightarrow> bridge_events db' = bridge_events db"
  by (auto simp: save_created_unshielded_utxos_def save_spent_def2 Let_def split_def res_simps insert_unique_Inr split: if_splits)

lemma bridge_save_generations [simp]: "bridge_events (save_dust_generation_info es tid db) = bridge_events db"
proof -
  have "bridge_events (save_dust_generation_event tid e db) = bridge_events db" for e db
    by (auto simp: save_dust_generation_event_def split: ledger_event_attributes.splits)
  then have "bridge_events (fold (save_dust_generation_event tid) es db) = bridge_events db" by (induction es arbitrary: db) auto
  then show ?thesis by (simp add: save_dust_generation_info_def)
qed

lemma bridge_save_ledger_events: "save_ledger_events es as aids tid db = Inr db' \<Longrightarrow> bridge_events db' = bridge_events db"
  by (auto simp: save_ledger_events_def Let_def split_def res_simps split: if_splits)

lemma bridge_save_transaction: "save_transaction feat bid (h, db) t = Inr (h', db') \<Longrightarrow> bridge_events db' = bridge_events db"
  by (cases t) (auto simp: save_transaction_def save_regular_transaction_def save_system_transaction_def Let_def split_def res_simps
      dest!: bridge_save_contract_actions bridge_save_utxos bridge_save_ledger_events split: if_splits option.splits)

lemma bridge_save_transactions:
  "try_fold (save_transaction feat bid) (h, db) txs = Inr (h', db') \<Longrightarrow> bridge_events db' = bridge_events db"
proof (induction txs arbitrary: h db)
  case (Cons t txs)
  then obtain h1 db1 where "save_transaction feat bid (h, db) t = Inr (h1, db1)" "try_fold (save_transaction feat bid) (h1, db1) txs = Inr (h', db')"
    by (auto split: sum.splits)
  then show ?case using Cons.IH bridge_save_transaction by metis
qed simp

text \<open>The event a row, or an event of the API, stands for.\<close>

fun rebuild :: "bridge_event_variant \<Rightarrow> bytes option \<Rightarrow> u64 \<Rightarrow> bytes option \<Rightarrow> bytes \<Rightarrow> u32 option \<Rightarrow> bridge_event" where
  "rebuild UserTransferVariant mc a r m c = UserTransfer (the mc) a (the r) m"
| "rebuild ReserveTransferVariant mc a r m c = ReserveTransfer (the mc) a m"
| "rebuild InvalidTransferVariant mc a r m c = InvalidTransfer (the mc) a m"
| "rebuild UnapprovedTransferVariant mc a r m c = UnapprovedTransfer (the mc) a (the r) m"
| "rebuild SubminimalFlushTransferVariant mc a r m c = SubminimalFlushTransfer a (the c) m"

definition stored_event :: "bridge_event_row \<Rightarrow> bridge_event" where
  "stored_event r = rebuild (ber_variant r) (ber_mc_tx_hash r) (decode_u64_be (ber_amount r)) (ber_recipient r) (ber_midnight_tx_hash r)
     (map_option word_of_int (ber_count r))"

definition shown_event :: "api_bridge_event \<Rightarrow> bridge_event" where
  "shown_event e = rebuild (abe_variant e) (abe_mc_tx_hash e) (abe_amount e) (abe_recipient e) (abe_midnight_tx_hash e) (abe_count e)"

lemma decode_u64_be_inverse [simp]: "decode_u64_be (nat_to_be 8 (unat (v :: u64))) = v"
proof -
  have "unat v < 2 ^ 64" using unsigned_less [of v] by simp
  then have "unat v < 256 ^ 8" by simp
  then show ?thesis by (simp add: decode_u64_be_def Let_def be_to_nat_nat_to_be)
qed

definition row_saved :: "i64 \<Rightarrow> bridge_event \<Rightarrow> bridge_event_row \<Rightarrow> bool" where
  "row_saved bid e r \<longleftrightarrow> stored_event r = e \<and> ber_block_id r = bid \<and> ber_variant r = be_variant e \<and> ber_recipient r = be_recipient e
     \<and> ber_count r = bridge_event_count e"

lemma save_bridge_events_rows:
  "\<exists>ids rows. tab_rows (bridge_events (save_bridge_events es bid db)) = tab_rows (bridge_events db) @ zip ids rows
     \<and> length ids = length rows \<and> list_all2 (row_saved bid) es rows"
proof (induction es arbitrary: db)
  case Nil
  show ?case by (intro exI [of _ "[]"]) (simp add: save_bridge_events_def)
next
  case (Cons e es)
  let ?db1 = "save_bridge_event bid e db"
  obtain i r where r: "tab_rows (bridge_events ?db1) = tab_rows (bridge_events db) @ [(i, r)]" "row_saved bid e r"
  proof (rule that)
    let ?r = "\<lparr>ber_block_id = bid, ber_transaction_id = find_transaction bid (be_midnight_tx_hash e) db,
        ber_variant = be_variant e, ber_mc_tx_hash = be_mc_tx_hash e,
        ber_amount = nat_to_be 8 (unat (be_amount e)), ber_recipient = be_recipient e,
        ber_midnight_tx_hash = be_midnight_tx_hash e, ber_count = bridge_event_count e\<rparr>"
    show "tab_rows (bridge_events ?db1) = tab_rows (bridge_events db) @ [(tab_next (bridge_events db), ?r)]"
      by (simp add: save_bridge_event_def insert_row_simps)
    show "row_saved bid e ?r" by (cases e) (simp_all add: row_saved_def stored_event_def bridge_event_count_def as_i32_def)
  qed
  obtain ids rows where "tab_rows (bridge_events (save_bridge_events es bid ?db1)) = tab_rows (bridge_events ?db1) @ zip ids rows"
    "length ids = length rows" "list_all2 (row_saved bid) es rows" using Cons.IH by blast
  then show ?case using r by (intro exI [of _ "i # ids"] exI [of _ "r # rows"]) (simp add: save_bridge_events_def)
qed

lemma save_block_bridge:
  assumes "save_block feat b txs regs key change db = (Inr mx, db')"
  shows "\<exists>ids rows. tab_rows (bridge_events db') = tab_rows (bridge_events db) @ zip ids rows \<and> length ids = length rows
    \<and> list_all2 (row_saved (tab_next (blocks db))) (bl_bridge_events b) rows"
proof -
  let ?bid = "tab_next (blocks db)" and ?db1 = "db\<lparr>blocks := snd (insert_row (block_row_of b key) (blocks db))\<rparr>"
  obtain db3 where tx: "save_block_tx feat b txs regs key db = Inr (mx, db3)"
    and db': "db' = (case change of None \<Rightarrow> db3 | Some c \<Rightarrow> save_system_parameters_change c db3)"
    using assms by (auto simp: save_block_def split: sum.splits prod.splits)
  obtain db2 where 1: "save_transactions feat txs ?bid ?db1 = Inr (mx, db2)"
    and 3: "db3 = save_bridge_events (bl_bridge_events b) ?bid (save_dust_registration_events regs ?bid (bl_timestamp b) db2)"
    using tx by (auto simp: save_block_tx_def insert_block_def Let_def split_def res_simps insert_row_simps split: if_splits)
  have "bridge_events db2 = bridge_events db"
    using bridge_save_transactions [of feat ?bid None ?db1 txs mx db2] 1 by (simp add: save_transactions_def)
  moreover have "bridge_events db' = bridge_events db3" by (simp add: db' split: option.splits)
  ultimately show ?thesis
    using save_bridge_events_rows [of "bl_bridge_events b" ?bid "save_dust_registration_events regs ?bid (bl_timestamp b) db2"] 3 by simp
qed

section \<open>Reading\<close>

definition event_block :: "chain_db \<Rightarrow> bridge_event_row \<Rightarrow> block_row" where
  "event_block db r = the (row_by_id (blocks db) (ber_block_id r))"

definition bridge_item :: "chain_db \<Rightarrow> i64 \<times> bridge_event_row \<Rightarrow> api_bridge_event" where
  "bridge_item db = (\<lambda>(i, r). \<lparr>abe_id = as_u64 i, abe_block_height = as_u64 (b_height (event_block db r)),
     abe_transaction_id = map_option as_u64 (ber_transaction_id r), abe_variant = ber_variant r, abe_mc_tx_hash = ber_mc_tx_hash r,
     abe_amount = decode_u64_be (ber_amount r), abe_recipient = ber_recipient r, abe_midnight_tx_hash = ber_midnight_tx_hash r,
     abe_count = map_option word_of_int (ber_count r)\<rparr>)"

lemma shown_item [simp]: "shown_event (bridge_item db (i, r)) = stored_event r"
  by (simp add: shown_event_def stored_event_def bridge_item_def)

lemma bridge_row:
  assumes "stored feat db" and "(i, r) \<in> set (tab_rows (bridge_events db))"
  shows "row_by_id (blocks db) (ber_block_id r) = Some (event_block db r)" "(ber_block_id r, event_block db r) \<in> set (tab_rows (blocks db))"
    "0 \<le> b_height (event_block db r)" "b_height (event_block db r) < 2 ^ 32" "0 < i" "bridge_typed r"
proof -
  note ok = stored_ok(1,2) [OF assms(1)]
  have "ber_block_id r \<in> table_ids (blocks db)" using ok(1) assms(2) by (force simp: db_ok_defs fk_def)
  moreover have "table_ok (blocks db)" using ok(1) by (simp add: db_ok_defs)
  ultimately obtain b where b: "row_by_id (blocks db) (ber_block_id r) = Some b" "(ber_block_id r, b) \<in> set (tab_rows (blocks db))"
    using row_by_id_in [of "blocks db" "ber_block_id r"] by blast
  then show "row_by_id (blocks db) (ber_block_id r) = Some (event_block db r)" "(ber_block_id r, event_block db r) \<in> set (tab_rows (blocks db))"
    by (simp_all add: event_block_def)
  then show "0 \<le> b_height (event_block db r)" "b_height (event_block db r) < 2 ^ 32"
    using typed_rows(1) [OF ok(2)] by (fastforce simp: block_typed_def)+
  show "0 < i" "bridge_typed r" using stored_rows(5) [OF assms] by simp_all
qed

lemma bridge_joined_rows:
  assumes "stored feat db"
  shows "bridge_joined db = map (\<lambda>(i, r). (i, r, event_block db r)) (tab_rows (bridge_events db))"
  unfolding bridge_joined_def
  by (subst filter_map_all [where g = "\<lambda>(i, r). (i, r, event_block db r)"]) (use bridge_row(1) [OF assms] in \<open>auto simp: bridge_join_def\<close>)

lemma map_event_row_item:
  "bridge_typed r \<Longrightarrow> map_event_row (i, r, event_block db r) = Inr (bridge_item db (i, r))"
  by (auto simp: map_event_row_def bridge_item_def bridge_typed_def col_opt_def col_ok bridge_recipient_new_def split: option.splits)

lemma get_bridge_events_rows:
  assumes "stored feat db" and "0 \<le> as_i64 offset"
  shows "get_bridge_events feat' f offset limit db = Inr (map (bridge_item db) (take limit (drop (unat offset)
    (filter (\<lambda>(i, r). push_filter f (i, r, event_block db r)) (tab_rows (bridge_events db))))))"
proof -
  let ?rows = "filter (\<lambda>(i, r). push_filter f (i, r, event_block db r)) (tab_rows (bridge_events db))"
  have "sorted_wrt (<) (map fst (tab_rows (bridge_events db)))" using stored_ok(1) [OF assms(1)] by (simp add: db_ok_defs table_ok_def)
  then have "sorted (map fst (map (\<lambda>(i, r). (i, r, event_block db r)) ?rows))"
    by (auto simp: sorted_map sorted_wrt_map split_def intro!: sorted_wrt_filter elim: sorted_wrt_mono_rel [rotated])
  then have "sort_key fst (filter (push_filter f) (bridge_joined db)) = map (\<lambda>(i, r). (i, r, event_block db r)) ?rows"
    by (simp add: bridge_joined_rows [OF assms(1)] filter_map comp_def split_def sort_key_id_if_sorted)
  then have "get_bridge_events feat' f offset limit db
      = try_map (\<lambda>(i, r). map_event_row (i, r, event_block db r)) (take limit (drop (unat offset) ?rows))"
    using assms(2) by (simp add: get_bridge_events_def offset_rows_def take_map drop_map try_map_map comp_def split_def)
  also have "\<dots> = Inr (map (bridge_item db) (take limit (drop (unat offset) ?rows)))"
  proof (rule try_map_total)
    fix p assume "p \<in> set (take limit (drop (unat offset) ?rows))"
    then have "p \<in> set (tab_rows (bridge_events db))" by (meson filter_is_subset in_set_dropD in_set_takeD subsetD)
    then show "(case p of (i, r) \<Rightarrow> map_event_row (i, r, event_block db r)) = Inr (bridge_item db p)"
      using bridge_row(6) [OF assms(1), of "fst p" "snd p"] by (simp add: map_event_row_item split_def)
  qed
  finally show ?thesis .
qed

definition height_filter :: "u64 \<Rightarrow> bridge_event_filter" where
  "height_filter h = no_bridge_filter\<lparr>bf_block_height_from := Some h, bf_block_height_to := Some h\<rparr>"

text \<open>
  C21. The bridge events of a block reach the readers of the API unchanged: when a block that is higher than all stored ones and whose values fit
  the columns has been saved, the API's query for the height of the block gives the first events of the block, as many as the limit of the
  query, in their order and with every field as the ledger reported it, whether transfers to users, to the
  reserve or to the treasury, each with the height of the block.
\<close>

theorem bridge_events_roundtrip:
  assumes "stored feat db" and "save_block feat b txs regs key change db = (Inr mx, db')" and "block_fits b" and "list_all tx_fits txs"
    and "above_all (as_i64 (bl_height b)) b_height (blocks db)" and "tab_next (transactions db') < 2 ^ 63 - 1"
  shows "\<exists>events. get_bridge_events feat' (height_filter (bl_height b)) 0 limit db' = Inr events
    \<and> map shown_event events = take limit (bl_bridge_events b)
    \<and> list_all (\<lambda>e. abe_block_height e = bl_height b) events"
proof -
  have step: "store_step feat db db'" using assms(2-6) unfolding store_step_def by blast
  then have st': "stored feat db'" using assms(1) unfolding stored_def by simp
  obtain ids rows where rows: "tab_rows (bridge_events db') = tab_rows (bridge_events db) @ zip ids rows" "length ids = length rows"
    "list_all2 (row_saved (tab_next (blocks db))) (bl_bridge_events b) rows" using save_block_bridge [OF assms(2)] by blast
  have blk: "tab_rows (blocks db') = tab_rows (blocks db) @ [(tab_next (blocks db), block_row_of b key)]"
    using arg_cong [OF view_save_block [OF assms(2)], of v_blocks] by (simp add: put_block_def fold_put_blocks add_row insert_row_simps)
  let ?sel = "\<lambda>(i, r). push_filter (height_filter (bl_height b)) (i, r, event_block db' r)"
  have h: "?sel (i, r) \<longleftrightarrow> b_height (event_block db' r) = as_i64 (bl_height b)" for i r
    by (auto simp: push_filter_def height_filter_def no_bridge_filter_def)
  have old: "\<not> ?sel p" if p: "p \<in> set (tab_rows (bridge_events db))" for p
  proof -
    obtain i r where r: "p = (i, r)" by (cases p)
    have "row_by_id (blocks db') (ber_block_id r) = Some (event_block db r)"
      using row_by_id_prefix [OF _ bridge_row(1) [OF assms(1)], of "blocks db'"] blk p r by (auto simp: prefix_def)
    then have "event_block db' r = event_block db r" by (simp add: event_block_def)
    moreover have "b_height (event_block db r) < as_i64 (bl_height b)"
      using bridge_row(2) [OF assms(1), of i r] p r assms(5) by (auto simp: above_all_def list_all_iff)
    ultimately show ?thesis using h r by simp
  qed
  have new: "?sel p \<and> b_height (event_block db' (snd p)) = as_i64 (bl_height b)" if p: "p \<in> set (zip ids rows)" for p
  proof -
    obtain i r where r: "p = (i, r)" by (cases p)
    have m: "(i, r) \<in> set (tab_rows (bridge_events db'))" "r \<in> set rows" using p r rows(1) by (auto dest: set_zip_rightD)
    have "ber_block_id r = tab_next (blocks db)" using m(2) rows(3) by (auto simp: list_all2_conv_all_nth in_set_conv_nth row_saved_def)
    then have "(tab_next (blocks db), event_block db' r) \<in> set (tab_rows (blocks db'))" using bridge_row(2) [OF st' m(1)] by simp
    moreover have "(tab_next (blocks db), x) \<notin> set (tab_rows (blocks db))" for x
      using stored_ok(1) [OF assms(1)] by (force simp: db_ok_defs table_ok_def list_all_iff)
    ultimately have "event_block db' r = block_row_of b key" using blk by auto
    then show ?thesis using h r by (simp add: block_row_of_def)
  qed
  have "filter ?sel (tab_rows (bridge_events db')) = zip ids rows"
    unfolding rows(1) filter_append using old new by (simp add: filter_empty_conv filter_id_conv)
  then have ev: "get_bridge_events feat' (height_filter (bl_height b)) 0 limit db' = Inr (map (bridge_item db') (take limit (zip ids rows)))"
    using get_bridge_events_rows [OF st', of 0 feat' "height_filter (bl_height b)" limit] by (simp add: as_i64_def)
  have "map stored_event rows = bl_bridge_events b"
    using rows(3) by (induction rule: list_all2_induct) (simp_all add: row_saved_def)
  moreover have "map shown_event (map (bridge_item db') (zip ids rows)) = map stored_event rows"
    using rows(2) by (induction ids rows rule: list_induct2) simp_all
  ultimately have "map shown_event (map (bridge_item db') (take limit (zip ids rows))) = take limit (bl_bridge_events b)"
    by (simp add: take_map [symmetric] del: map_map)
  moreover have "abe_block_height (bridge_item db' p) = bl_height b" if "p \<in> set (take limit (zip ids rows))" for p
    using new [OF in_set_takeD [OF that]] by (simp add: bridge_item_def split_def)
  ultimately show ?thesis using ev by (auto simp: list_all_iff)
qed

definition bridge_sample_events :: "bridge_event list" where
  "bridge_sample_events = [UserTransfer (replicate 32 1) 500 (replicate 32 2) (replicate 32 3), ReserveTransfer (replicate 32 1) 70 (replicate 32 3),
     SubminimalFlushTransfer 9 3 (replicate 32 4)]"

definition bridge_sample_block :: block where
  "bridge_sample_block = (api_sample_block 1 0)\<lparr>bl_bridge_events := bridge_sample_events\<rparr>"

definition bridge_sample_db :: chain_db where
  "bridge_sample_db = snd (save_block Cloud bridge_sample_block [] [] [77] None empty_chain_db)"

lemma bridge_sample_save:
  "\<exists>mx. save_block Cloud bridge_sample_block [] [] [77] None empty_chain_db = (Inr mx, bridge_sample_db)
     \<and> tab_next (transactions bridge_sample_db) = 1 \<and> map fst (tab_rows (bridge_events bridge_sample_db)) = [1, 2, 3]"
  by (simp add: bridge_sample_db_def bridge_sample_block_def bridge_sample_events_def api_sample_defs sample_defs Let_def as_i64_def
      save_bridge_events_def save_bridge_event_def find_transaction_def)

lemma bridge_sample_fits: "block_fits bridge_sample_block"
  using api_sample_fits(1) by (simp add: bridge_sample_block_def bridge_sample_events_def block_fits_def bridge_event_fits_def BRIDGE_RECIPIENT_MAX_BYTES_def)

lemma empty_above: "above_all h b_height (blocks empty_chain_db)"
  by (simp add: above_all_def empty_chain_db_def empty_table_def)

lemma bridge_sample_step: "store_step Cloud empty_chain_db bridge_sample_db"
  using bridge_sample_save bridge_sample_fits empty_above unfolding store_step_def by fastforce

lemma bridge_sample_stored: "stored Cloud bridge_sample_db"
  using bridge_sample_step unfolding stored_def by auto

theorem bridge_events_roundtrip_witness:
  "\<exists>events. get_bridge_events Standalone (height_filter (bl_height bridge_sample_block)) 0 2 bridge_sample_db = Inr events
     \<and> map shown_event events = [UserTransfer (replicate 32 1) 500 (replicate 32 2) (replicate 32 3), ReserveTransfer (replicate 32 1) 70 (replicate 32 3)]"
proof -
  obtain mx where s: "save_block Cloud bridge_sample_block [] [] [77] None empty_chain_db = (Inr mx, bridge_sample_db)"
    "tab_next (transactions bridge_sample_db) < 2 ^ 63 - 1" using bridge_sample_save by fastforce
  have e: "stored Cloud empty_chain_db" by (simp add: stored_def)
  have n: "list_all tx_fits []" by simp
  have "\<exists>events. get_bridge_events Standalone (height_filter (bl_height bridge_sample_block)) 0 2 bridge_sample_db = Inr events
    \<and> map shown_event events = take 2 (bl_bridge_events bridge_sample_block) \<and> list_all (\<lambda>e. abe_block_height e = bl_height bridge_sample_block) events"
    by (rule bridge_events_roundtrip [OF e s(1) bridge_sample_fits n empty_above s(2)])
  then show ?thesis by (auto simp: bridge_sample_block_def bridge_sample_events_def)
qed

section \<open>Pool totals\<close>

lemma saturating_add_exact: "unat a + unat b < 2 ^ 128 \<Longrightarrow> unat (saturating_add a (b :: u128)) = unat a + unat b"
  by (simp add: saturating_add_def unat_plus_if')

lemma unat_ucast_amount: "unat (ucast (a :: u64) :: u128) = unat a"
proof -
  have "unat a < 2 ^ 64" using unsigned_less [of a] by simp
  then show ?thesis by (simp add: unsigned_ucast_eq take_bit_nat_eq_self)
qed

lemma amount_small: "unat (a :: u64) < 2 ^ 64"
  using unsigned_less [of a] by simp

text \<open>The sums of the events of one variant.\<close>

definition variant_total :: "bridge_event_variant \<Rightarrow> bridge_event list \<Rightarrow> nat" where
  "variant_total v es = sum_list (map (\<lambda>e. unat (be_amount e)) (filter (\<lambda>e. be_variant e = v) es))"

definition variant_number :: "bridge_event_variant \<Rightarrow> bridge_event list \<Rightarrow> nat" where
  "variant_number v es = length (filter (\<lambda>e. be_variant e = v) es)"

fun flushed :: "bridge_event \<Rightarrow> nat" where
  "flushed (SubminimalFlushTransfer _ count _) = unat count"
| "flushed _ = 0"

lemma variant_total_bound: "variant_total v es \<le> length es * 2 ^ 64"
proof (induction es)
  case (Cons e es)
  have "unat (be_amount e) \<le> 2 ^ 64" using amount_small less_imp_le by blast
  with Cons show ?case by (simp add: variant_total_def)
qed (simp add: variant_total_def)

lemma variant_snoc:
  "variant_total w (es @ [e]) = variant_total w es + (if be_variant e = w then unat (be_amount e) else 0)"
  "variant_number w (es @ [e]) = variant_number w es + (if be_variant e = w then 1 else 0)"
  by (simp_all add: variant_total_def variant_number_def)

lemma number_bound: "variant_number v es \<le> length es"
  by (simp add: variant_number_def)

definition totals_are :: "bridge_event list \<Rightarrow> pool_totals \<Rightarrow> bool" where
  "totals_are es p \<longleftrightarrow> unat (pt_reserve_total p) = variant_total ReserveTransferVariant es
     \<and> unat (fst (pt_invalid p)) = variant_total InvalidTransferVariant es \<and> unat (snd (pt_invalid p)) = variant_number InvalidTransferVariant es
     \<and> unat (fst (pt_unapproved p)) = variant_total UnapprovedTransferVariant es \<and> unat (snd (pt_unapproved p)) = variant_number UnapprovedTransferVariant es
     \<and> unat (fst (pt_flush p)) = variant_total SubminimalFlushTransferVariant es \<and> unat (snd (pt_flush p)) = variant_number SubminimalFlushTransferVariant es
     \<and> unat (pt_subminimum_tx_count p) = sum_list (map flushed es)"

definition row_of :: "bridge_event_row \<Rightarrow> bool" where
  "row_of r \<longleftrightarrow> be_variant (stored_event r) = ber_variant r \<and> be_amount (stored_event r) = decode_u64_be (ber_amount r)
     \<and> ber_count r = bridge_event_count (stored_event r)"

lemma unat_Suc: "unat (n :: u64) + 1 < 2 ^ 64 \<Longrightarrow> unat (n + 1) = unat n + 1"
  by (simp add: unat_plus_if')

lemma small_count:
  assumes "unat (c :: u32) < 2 ^ 31"
  shows "unat (word_of_int (as_i32 c) :: u64) = unat c"
proof -
  have "uint c < 2 ^ 31"
    using assms by (metis of_nat_less_iff of_nat_numeral of_nat_power uint_nat)
  moreover have "- (2 ^ 31) \<le> uint c"
    by (rule order_trans [OF _ uint_ge_0]) simp
  ultimately have "signed_take_bit 31 (uint c) = uint c"
    by (intro signed_take_bit_int_eq_self) auto
  then have "as_i32 c = int (unat c)" by (simp add: as_i32_def sint_uint)
  moreover have "unat c < 2 ^ 64" using assms by simp
  ultimately show ?thesis by (simp add: unsigned_ucast_eq take_bit_nat_eq_self)
qed

lemma add_event_totals:
  assumes "totals_are es p" and "length es < 2 ^ 63" and "row_of r" and "sum_list (map flushed (es @ [stored_event r])) < 2 ^ 64"
    and "flushed (stored_event r) < 2 ^ 31"
  shows "totals_are (es @ [stored_event r]) (add_event r p)"
proof -
  let ?e = "stored_event r"
  have t: "variant_total v es + unat (be_amount ?e) < 2 ^ 128" for v
    using variant_total_bound [of v es] amount_small [of "be_amount ?e"] assms(2) by (simp add: algebra_simps)
  have n: "variant_number v es + 1 < 2 ^ 64" for v using number_bound [of v es] assms(2) by simp
  have a: "unat (ucast (decode_u64_be (ber_amount r)) :: u128) = unat (be_amount ?e)"
    using assms(3) by (simp add: row_of_def unat_ucast_amount)
  have add: "unat (fst (add_transfer (ucast (decode_u64_be (ber_amount r))) q)) = variant_total v es + unat (be_amount ?e)
      \<and> unat (snd (add_transfer (ucast (decode_u64_be (ber_amount r))) q)) = variant_number v es + 1"
    if "unat (fst q) = variant_total v es" "unat (snd q) = variant_number v es" for q v
    using that t [of v] n [of v] a by (simp add: add_transfer_def split_def saturating_add_exact unat_Suc)
  have v: "be_variant ?e = ber_variant r" "ber_count r = bridge_event_count ?e" using assms(3) by (simp_all add: row_of_def)
  show ?thesis
  proof (cases ?e)
    case (SubminimalFlushTransfer amt c m)
    have c: "unat (word_of_int (as_i32 c) :: u64) = unat c" using assms(5) SubminimalFlushTransfer by (intro small_count) simp
    have "ber_variant r = SubminimalFlushTransferVariant" "ber_count r = Some (as_i32 c)"
      using v SubminimalFlushTransfer by (simp_all add: bridge_event_count_def)
    moreover have "unat (pt_subminimum_tx_count p + word_of_int (as_i32 c)) = unat (pt_subminimum_tx_count p) + unat c"
      using c assms(1,4) SubminimalFlushTransfer by (simp add: unat_plus_if' totals_are_def)
    ultimately show ?thesis using assms(1) add [of "pt_flush p" SubminimalFlushTransferVariant] SubminimalFlushTransfer
      by (simp add: totals_are_def add_event_def Let_def variant_snoc)
  next
    case (ReserveTransfer h amt m)
    then have "ber_variant r = ReserveTransferVariant" using v by simp
    then show ?thesis using assms(1) t [of ReserveTransferVariant] a ReserveTransfer
      by (simp add: totals_are_def add_event_def Let_def variant_snoc saturating_add_exact)
  next
    case (InvalidTransfer h amt m)
    then have "ber_variant r = InvalidTransferVariant" using v by simp
    then show ?thesis using assms(1) add [of "pt_invalid p" InvalidTransferVariant] InvalidTransfer
      by (simp add: totals_are_def add_event_def Let_def variant_snoc)
  next
    case (UnapprovedTransfer h amt rc m)
    then have "ber_variant r = UnapprovedTransferVariant" using v by simp
    then show ?thesis using assms(1) add [of "pt_unapproved p" UnapprovedTransferVariant] UnapprovedTransfer
      by (simp add: totals_are_def add_event_def Let_def variant_snoc)
  next
    case (UserTransfer h amt rc m)
    then have "ber_variant r = UserTransferVariant" using v by simp
    then show ?thesis using assms(1) UserTransfer by (simp add: totals_are_def add_event_def Let_def variant_snoc)
  qed
qed

lemma fold_totals:
  assumes "length rs < 2 ^ 63" and "list_all row_of rs" and "sum_list (map flushed (map stored_event rs)) < 2 ^ 64"
    and "list_all (\<lambda>r. flushed (stored_event r) < 2 ^ 31) rs"
  shows "totals_are (map stored_event rs) (fold add_event rs zero_totals)"
  using assms
proof (induction rs rule: rev_induct)
  case Nil
  show ?case by (simp add: totals_are_def zero_totals_def variant_total_def variant_number_def)
next
  case (snoc r rs)
  then have "totals_are (map stored_event rs) (fold add_event rs zero_totals)" by simp
  then have "totals_are (map stored_event rs @ [stored_event r]) (add_event r (fold add_event rs zero_totals))"
    by (rule add_event_totals) (use snoc.prems in simp_all)
  then show ?case by simp
qed

lemma stored_bridge_rows: "stored feat db \<Longrightarrow> list_all (\<lambda>(_, r). row_of r) (tab_rows (bridge_events db))"
  unfolding stored_def
proof (induction rule: rtranclp_induct)
  case base
  show ?case by (simp add: empty_chain_db_def empty_table_def)
next
  case (step db db')
  obtain b txs regs key change mx where "save_block feat b txs regs key change db = (Inr mx, db')"
    using step(2) unfolding store_step_def by blast
  then obtain ids rows where rows: "tab_rows (bridge_events db') = tab_rows (bridge_events db) @ zip ids rows"
    "list_all2 (row_saved (tab_next (blocks db))) (bl_bridge_events b) rows" using save_block_bridge by blast
  have "row_of r" if "row_saved bid e r" for bid e r
  proof -
    have "be_amount (stored_event r) = decode_u64_be (ber_amount r)"
      unfolding stored_event_def by (cases "ber_variant r") simp_all
    then show ?thesis using that by (simp add: row_saved_def row_of_def)
  qed
  then have "list_all row_of rows" using rows(2) by (auto simp: list_all2_conv_all_nth list_all_length)
  then show ?case using step.IH rows(1) by (auto simp: list_all_iff dest: set_zip_rightD)
qed

text \<open>The events up to a height, as saved.\<close>

definition events_until :: "u64 option \<Rightarrow> chain_db \<Rightarrow> bridge_event list" where
  "events_until at_block db = map (\<lambda>(_, r). stored_event r) (filter (\<lambda>(_, r). case at_block of None \<Rightarrow> True
     | Some h \<Rightarrow> b_height (event_block db r) \<le> int (unat h)) (tab_rows (bridge_events db)))"

lemma events_to_rows:
  assumes "stored feat db" and "case at_block of None \<Rightarrow> True | Some h \<Rightarrow> unat h < 2 ^ 63"
  shows "map (\<lambda>(_, r, _). stored_event r) (events_to at_block db) = events_until at_block db"
    "list_all (\<lambda>(_, r, _). row_of r) (events_to at_block db)" "length (events_to at_block db) \<le> length (tab_rows (bridge_events db))"
proof -
  have sel: "(b_height (event_block db r) \<le> (case at_block of None \<Rightarrow> 2 ^ 63 - 1 | Some h \<Rightarrow> as_i64 h))
      = (case at_block of None \<Rightarrow> True | Some h \<Rightarrow> b_height (event_block db r) \<le> int (unat h))"
    if "(i, r) \<in> set (tab_rows (bridge_events db))" for i r
    using bridge_row(4) [OF assms(1) that] assms(2) by (auto simp: as_i64_nonneg split: option.splits)
  have *: "events_to at_block db = map (\<lambda>(i, r). (i, r, event_block db r)) (filter (\<lambda>(_, r). case at_block of None \<Rightarrow> True
     | Some h \<Rightarrow> b_height (event_block db r) \<le> int (unat h)) (tab_rows (bridge_events db)))"
    unfolding events_to_def bridge_joined_rows [OF assms(1)] filter_map comp_def
    by (rule arg_cong [where f = "map _"], rule filter_cong) (use sel in auto)
  show "map (\<lambda>(_, r, _). stored_event r) (events_to at_block db) = events_until at_block db"
    by (simp add: * events_until_def comp_def split_def)
  show "list_all (\<lambda>(_, r, _). row_of r) (events_to at_block db)"
    using stored_bridge_rows [OF assms(1)] by (auto simp: * list_all_iff)
  show "length (events_to at_block db) \<le> length (tab_rows (bridge_events db))" by (simp add: *)
qed

text \<open>
  The summary of the bridge pools adds up exactly the saved events up to the given height: the total of the reserve, for every
  reason of the treasury its total and number of transfers, and the number of transfers flushed together, without saturation
  or wrap-around, provided that no flush gathers 2^31 transfers or more.
\<close>

theorem pool_summary_exact:
  assumes "stored feat db" and "case at_block of None \<Rightarrow> True | Some h \<Rightarrow> unat h < 2 ^ 63"
    and "length (tab_rows (bridge_events db)) < 2 ^ 63"
    and "list_all (\<lambda>e. flushed e < 2 ^ 31) (events_until at_block db)" and "sum_list (map flushed (events_until at_block db)) < 2 ^ 64"
  shows "let es = events_until at_block db; s = get_bridge_pool_summary at_block db db' in
      unat (ps_reserve_total s) = variant_total ReserveTransferVariant es
    \<and> map (\<lambda>a. (ta_reason a, unat (ta_total a), unat (ta_count a))) (ps_treasury_by_reason s)
      = map (\<lambda>v. (v, variant_total v es, variant_number v es)) [InvalidTransferVariant, UnapprovedTransferVariant, SubminimalFlushTransferVariant]
    \<and> unat (ps_subminimum_tx_count s) = sum_list (map flushed es)"
proof -
  let ?rs = "map (\<lambda>(_, r, _). r) (events_to at_block db)"
  have es: "map stored_event ?rs = events_until at_block db" using events_to_rows(1) [OF assms(1,2)] by (simp add: comp_def split_def)
  have "totals_are (map stored_event ?rs) (fold add_event ?rs zero_totals)"
  proof (rule fold_totals)
    show "length ?rs < 2 ^ 63" using events_to_rows(3) [OF assms(1,2)] assms(3) by simp
    show "list_all row_of ?rs" using events_to_rows(2) [OF assms(1,2)] by (auto simp: list_all_iff)
    show "sum_list (map flushed (map stored_event ?rs)) < 2 ^ 64" using assms(5) unfolding es .
    show "list_all (\<lambda>r. flushed (stored_event r) < 2 ^ 31) ?rs" using assms(4) unfolding es [symmetric] list_all_iff by auto
  qed
  then have "totals_are (events_until at_block db) (fold (\<lambda>(_, r, _). add_event r) (events_to at_block db) zero_totals)"
    unfolding es by (simp add: fold_map comp_def split_def)
  then show ?thesis by (simp add: Let_def get_bridge_pool_summary_def summary_of_def totals_are_def split_def)
qed

lemma bridge_sample_events_until: "events_until None bridge_sample_db = bridge_sample_events"
proof -
  obtain mx where s: "save_block Cloud bridge_sample_block [] [] [77] None empty_chain_db = (Inr mx, bridge_sample_db)"
    using bridge_sample_save by blast
  obtain ids rows where r: "tab_rows (bridge_events bridge_sample_db) = zip ids rows" "length ids = length rows"
    "list_all2 (row_saved (tab_next (blocks empty_chain_db))) (bl_bridge_events bridge_sample_block) rows"
    using save_block_bridge [OF s] by (auto simp: empty_chain_db_def empty_table_def)
  have "map stored_event rows = bl_bridge_events bridge_sample_block"
    using r(3) by (induction rule: list_all2_induct) (simp_all add: row_saved_def)
  moreover have "map (\<lambda>(_, r). stored_event r) (zip ids rows) = map stored_event rows"
    using r(2) by (induction ids rows rule: list_induct2) simp_all
  ultimately show ?thesis by (simp add: events_until_def r(1) bridge_sample_block_def)
qed

theorem pool_summary_exact_witness:
  "unat (ps_reserve_total (get_bridge_pool_summary None bridge_sample_db bridge_sample_db)) = 70
   \<and> unat (ps_subminimum_tx_count (get_bridge_pool_summary None bridge_sample_db bridge_sample_db)) = 3"
proof -
  have h: "case None :: u64 option of None \<Rightarrow> True | Some h \<Rightarrow> unat h < 2 ^ 63" by simp
  have "map fst (tab_rows (bridge_events bridge_sample_db)) = [1, 2, 3]" using bridge_sample_save by blast
  then have "length (map fst (tab_rows (bridge_events bridge_sample_db))) = 3" by simp
  then have n: "length (tab_rows (bridge_events bridge_sample_db)) < 2 ^ 63" by simp
  have e: "list_all (\<lambda>e. flushed e < 2 ^ 31) (events_until None bridge_sample_db)" "sum_list (map flushed (events_until None bridge_sample_db)) < 2 ^ 64"
    by (simp_all add: bridge_sample_events_until bridge_sample_events_def)
  show ?thesis
    using pool_summary_exact [OF bridge_sample_stored h n e, of bridge_sample_db]
    by (simp add: Let_def bridge_sample_events_until bridge_sample_events_def variant_total_def)
qed

text \<open>A flush of 2^31 or more transfers is stored as a negative number and counted with its sign extended.\<close>

lemma subminimum_count_wraps:
  "ber_variant r = SubminimalFlushTransferVariant \<Longrightarrow> ber_count r = Some (as_i32 (2 ^ 31))
    \<Longrightarrow> pt_subminimum_tx_count (add_event r zero_totals) = 2 ^ 64 - 2 ^ 31"
  by (simp add: add_event_def Let_def zero_totals_def as_i32_def)

section \<open>The subscription\<close>

definition bridge_ok :: "feature \<Rightarrow> chain_db \<Rightarrow> bool" where
  "bridge_ok feat db \<longleftrightarrow> stored feat db \<and> tab_next (bridge_events db) < 2 ^ 63 - 1"

definition bridge_selects :: "bytes option \<times> bridge_event_variant option \<Rightarrow> bridge_event_row \<Rightarrow> bool" where
  "bridge_selects = (\<lambda>(recipient, variant) r. (case recipient of None \<Rightarrow> True | Some a \<Rightarrow> ber_recipient r = Some a)
     \<and> (case variant of None \<Rightarrow> True | Some v \<Rightarrow> ber_variant r = v))"

lemma bridge_page_rows:
  assumes "stored feat db"
  shows "bridge_page feat' q limit c db
    = Inr (take limit (map (bridge_item db) (filter (\<lambda>p. bridge_selects q (snd p) \<and> as_i64 c + 1 \<le> fst p) (tab_rows (bridge_events db)))))"
proof -
  have "push_filter \<lparr>bf_variants = (case snd q of None \<Rightarrow> [] | Some v \<Rightarrow> [v]), bf_recipient = fst q, bf_block_height_from = None,
       bf_block_height_to = None, bf_id_from = Some c\<rparr> (i, r, b) = (bridge_selects q r \<and> as_i64 c + 1 \<le> i)" for i r b
    by (auto simp: push_filter_def bridge_selects_def split_def split: option.splits)
  then show ?thesis using get_bridge_events_rows [OF assms, of 0] by (simp add: bridge_page_def split_def as_i64_def take_map)
qed

lemma bridge_ids:
  assumes "bridge_ok feat db" and "(i, r) \<in> set (tab_rows (bridge_events db))"
  shows "0 < i" "i < 2 ^ 63 - 1"
proof -
  have s: "stored feat db" using assms(1) by (simp add: bridge_ok_def)
  show "0 < i" by (rule bridge_row(5) [OF s assms(2)])
  have "i < tab_next (bridge_events db)" using stored_ok(1) [OF s] assms(2) by (force simp: db_ok_defs table_ok_def list_all_iff)
  then show "i < 2 ^ 63 - 1" using assms(1) by (simp add: bridge_ok_def)
qed

lemma bridge_item_later:
  assumes "stored feat db" and "stored_later feat db db'" and "p \<in> set (tab_rows (bridge_events db))"
  shows "bridge_item db' p = bridge_item db p"
proof -
  have b: "row_by_id (blocks db) (ber_block_id (snd p)) = Some (event_block db (snd p))"
    using bridge_row(1) [OF assms(1), of "fst p" "snd p"] assms(3) by simp
  have "row_by_id (blocks db') (ber_block_id (snd p)) = Some (event_block db (snd p))"
    using row_by_id_prefix [OF _ b] stored_later_extends [OF assms(2,1)] by (simp add: extends_def)
  then have "event_block db' (snd p) = event_block db (snd p)" by (simp add: event_block_def)
  then show ?thesis by (simp add: bridge_item_def split_def)
qed

lemma bridge_rows_grown: "stored_later feat db db' \<Longrightarrow> prefix (tab_rows (bridge_events db)) (tab_rows (bridge_events db'))"
  using stored_later_later [of feat db db'] by (auto simp: later_def fresh_def appended_def prefix_def)

lemma id_key_as_i64: "0 < i \<Longrightarrow> i < 2 ^ 63 \<Longrightarrow> int (unat (as_u64 i)) = i \<and> as_i64 (as_u64 i) = i"
  using as_i64_as_u64 [of i] by (simp add: as_u64_def uint_word_of_int_eq take_bit_int_eq_self)

interpretation bridge_pages: id_paged "\<lambda>(feat, _). bridge_ok feat" "\<lambda>(feat, _). stored_later feat" "\<lambda>db. tab_rows (bridge_events db)"
  "\<lambda>(_, _, q) _ p. bridge_selects q (snd p)" "\<lambda>_. bridge_item" "\<lambda>e. int (unat (abe_id e))" "\<lambda>c. as_i64 c + 1" abe_id
  "\<lambda>(_, feat', q). bridge_page feat' q"
proof (unfold_locales, goal_cases)
  case (1 q db)
  then show ?case using stored_ok(1) [of "fst q" db] by (simp add: split_def bridge_ok_def db_ok_defs table_ok_def)
next
  case (2 q db p)
  then show ?case using bridge_ids [of "fst q" db "fst p" "snd p"] id_key_as_i64 [of "fst p"]
    by (simp add: bridge_item_def split_def del: of_nat_unat)
next
  case (3 q db p)
  then show ?case using bridge_ids [of "fst q" db "fst p" "snd p"] id_key_as_i64 [of "fst p"] by (simp add: bridge_item_def split_def)
next
  case (4 q db db')
  then show ?case using bridge_rows_grown by (auto simp: split_def)
next
  case (5 q db db' p)
  then show ?case using bridge_item_later [of "fst q" db db' p] by (simp add: split_def bridge_ok_def)
next
  case (6 q db limit c)
  then show ?case using bridge_page_rows [of "fst q" db "fst (snd q)" "snd (snd q)" limit c] by (simp add: split_def bridge_ok_def)
qed

lemma fold_max_last: "sorted_wrt (<) (c # map abe_id es) \<Longrightarrow> fold (\<lambda>e m. max m (abe_id e)) es c = last (c # map abe_id es)"
proof (induction es arbitrary: c)
  case (Cons e es)
  have "max c (abe_id e) = abe_id e" using Cons.prems by (simp add: max_def less_imp_le)
  then show ?case using Cons.IH [of "abe_id e"] Cons.prems by simp
qed simp

lemma as_u64_less: "0 < i \<Longrightarrow> i < j \<Longrightarrow> j < 2 ^ 63 \<Longrightarrow> as_u64 i < as_u64 j"
  using id_key_as_i64 [of i] id_key_as_i64 [of j] by (simp add: word_less_nat_alt zless_nat_eq_int_zless flip: of_nat_less_iff [where 'a = int])

lemma bridge_page_ascends:
  assumes ok: "bridge_ok feat db" and c: "unat c < 2 ^ 63" and p: "bridge_page feat' q limit c db = Inr es"
  shows "sorted_wrt (<) (c # map abe_id es)" "\<And>e. e \<in> set es \<Longrightarrow> unat (abe_id e) < 2 ^ 63"
proof -
  let ?sel = "filter (\<lambda>p. bridge_selects q (snd p) \<and> as_i64 c + 1 \<le> fst p) (tab_rows (bridge_events db))"
  have st: "stored feat db" using ok by (simp add: bridge_ok_def)
  have es: "es = take limit (map (bridge_item db) ?sel)" using p bridge_page_rows [OF st, of feat' q limit c] by simp
  have ids: "map abe_id es = map as_u64 (map fst (take limit ?sel))" by (simp add: es take_map bridge_item_def split_def)
  have mem: "0 < fst p \<and> fst p < 2 ^ 63 \<and> int (unat c) < fst p" if "p \<in> set (take limit ?sel)" for p
    using in_set_takeD [OF that] bridge_ids [OF ok, of "fst p" "snd p"] as_i64_nonneg [OF c] by auto
  have "sorted_wrt (<) (map fst ?sel)"
    using stored_ok(1) [OF st] by (auto simp: db_ok_defs table_ok_def sorted_wrt_map intro: sorted_wrt_filter)
  then have "sorted_wrt (<) (map fst (take limit ?sel))" by (simp add: take_map [symmetric] sorted_wrt_take)
  then have "sorted_wrt (\<lambda>i j. as_u64 i < as_u64 j) (map fst (take limit ?sel))"
    by (rule sorted_wrt_mono_rel [rotated]) (use mem in \<open>auto intro!: as_u64_less\<close>)
  then have "sorted_wrt (<) (map abe_id es)" unfolding ids by (simp add: sorted_wrt_map)
  moreover have "c < as_u64 (fst p)" if "p \<in> set (take limit ?sel)" for p
    using mem [OF that] id_key_as_i64 [of "fst p"] by (simp add: word_less_nat_alt flip: of_nat_less_iff [where 'a = int])
  then have "\<forall>x\<in>set (map abe_id es). c < x" unfolding ids by auto
  ultimately show "sorted_wrt (<) (c # map abe_id es)" by simp
  show "unat (abe_id e) < 2 ^ 63" if e: "e \<in> set es" for e
  proof -
    have "abe_id e \<in> set (map abe_id es)" using e by simp
    then obtain p where p: "p \<in> set (take limit ?sel)" "abe_id e = as_u64 (fst p)" unfolding ids set_map by blast
    then have "int (unat (abe_id e)) < 2 ^ 63" using mem [OF p(1)] id_key_as_i64 [of "fst p"] by (simp del: of_nat_unat)
    then show ?thesis by (simp flip: of_nat_less_iff [where 'a = int])
  qed
qed

lemma backfill_pages:
  assumes "list_all (bridge_ok feat) dbs" and "unat c < 2 ^ 63"
  shows "backfill (bridge_page feat' q limit) c dbs
    = map_option (\<lambda>(xs, e). (xs, last (c # map abe_id xs), e)) (pages (bridge_page feat' q limit) abe_id c dbs)"
  using assms
proof (induction dbs arbitrary: c)
  case (Cons db dbs)
  have ok: "bridge_ok feat db" using Cons.prems by simp
  obtain es where es: "bridge_page feat' q limit c db = Inr es"
    using bridge_page_rows [of feat db feat' q limit c] ok by (simp add: bridge_ok_def)
  note asc = bridge_page_ascends [OF ok Cons.prems(2) es]
  show ?case
  proof (cases "es = []")
    case False
    have f: "fold (\<lambda>e m. max m (abe_id e)) es c = abe_id (last es)" using fold_max_last [OF asc(1)] False by (simp add: last_map)
    have "unat (abe_id (last es)) < 2 ^ 63" using asc(2) [OF last_in_set [OF False]] .
    moreover have "last (map abe_id es) = abe_id (last es)" using False by (rule last_map)
    ultimately show ?thesis using Cons.IH [of "abe_id (last es)"] Cons.prems(1) es False
      by (cases "pages (bridge_page feat' q limit) abe_id (abe_id (last es)) dbs") (auto simp: f last_append)
  qed (simp add: es)
qed simp

lemma bridge_live_polled:
  assumes "list_all (bridge_ok feat) (map snd live)" and "unat c < 2 ^ 63"
  shows "bridge_live (bridge_page feat' q limit) want c live
    = apsnd (case_option Waiting Failed) (polled (bridge_page feat' q limit) abe_id c (map snd (filter (\<lambda>(m, _). want m) live)))"
  using assms
proof (induction live arbitrary: c)
  case (Cons x live)
  obtain m db where x: "x = (m, db)" by (cases x)
  show ?case
  proof (cases "want m")
    case True
    have ok: "bridge_ok feat db" using Cons.prems x by simp
    obtain es where es: "bridge_page feat' q limit c db = Inr es"
    using bridge_page_rows [of feat db feat' q limit c] ok by (simp add: bridge_ok_def)
    note asc = bridge_page_ascends [OF ok Cons.prems(2) es]
    let ?c = "last (c # map abe_id es)"
    have "unat ?c < 2 ^ 63" using Cons.prems(2) asc(2) last_in_set [of es] by (auto simp: last_map)
    then have "bridge_live (bridge_page feat' q limit) want ?c live
        = apsnd (case_option Waiting Failed) (polled (bridge_page feat' q limit) abe_id ?c (map snd (filter (\<lambda>(m, _). want m) live)))"
      using Cons.prems(1) by (intro Cons.IH) simp_all
    then show ?thesis using True es fold_max_last [OF asc(1)] by (simp add: x split_def del: last.simps)
  qed (use Cons x in simp)
qed simp

lemma growing_filter: "growing ok grown (map snd xs) \<Longrightarrow> growing ok grown (map snd (filter P xs))"
  by (auto simp: growing_def sorted_wrt_map list_all_iff intro: sorted_wrt_filter)

text \<open>The events a subscription is to yield, after the id it starts from.\<close>

definition bridge_events_after :: "bytes option \<times> bridge_event_variant option \<Rightarrow> u64 \<Rightarrow> chain_db \<Rightarrow> (i64 \<times> bridge_event_row) list" where
  "bridge_events_after q c db = filter (\<lambda>p. bridge_selects q (snd p) \<and> int (unat c) < fst p) (tab_rows (bridge_events db))"

lemma bridge_events_split:
  assumes "bridge_ok feat db" and "bridge_ok feat db'" and "stored_later feat db db'" and "unat c < 2 ^ 63"
  shows "map (bridge_item db) (bridge_events_after q c db)
      @ bridge_pages.rows_from (feat, feat', q) (last (c # map abe_id (map (bridge_item db) (bridge_events_after q c db)))) db'
    = map (bridge_item db') (bridge_events_after q c db')"
proof -
  have r: "bridge_pages.rows_from (feat, feat', q) c d = map (bridge_item d) (bridge_events_after q c d)" if "bridge_ok feat d" for d
    using bridge_pages.rows_from_items [of "(feat, feat', q)" d c] that as_i64_nonneg [OF assms(4)]
    by (simp add: bridge_events_after_def add1_zle_eq)
  show ?thesis
    using bridge_pages.rows_from_later [of "(feat, feat', q)" db db' c, unfolded prod.case, OF assms(1-3)] by (simp only: r [OF assms(1)] r [OF assms(2)])
qed

lemma progress_bound: "progress limit (f x) (map f xs) \<le> f (last (x # xs))"
proof -
  have "progress limit n ts \<le> last (n # ts)" for n ts
  proof (induction ts arbitrary: n)
    case (Cons t ts)
    from Cons.IH [of "min (n + limit) t"] show ?case by (cases "ts = []") simp_all
  qed simp
  from this [of "f x" "map f xs"] show ?thesis by (simp add: last_map split: if_splits)
qed

lemma progress_all:
  "successively (\<lambda>a b. f b \<le> f a + limit) (x # xs) \<Longrightarrow> progress limit (f x) (map f xs) = f (last (x # xs))"
  by (induction xs arbitrary: x) (simp_all add: min_absorb2)

text \<open>
  C29. With a start id below \<^verbatim>\<open>2 ^ 63\<close> (the backfill of a larger one never ends, \<open>backfill_stuck\<close>) and a recipient that decodes, the
  subscription to bridge events first yields all matching events after the given id that exist while it fills in, and then, for every
  message about a matching event, up to 100 more: always exactly the first \<open>n\<close> matching events in the order of their ids, where \<open>n\<close> follows the
  events stored at each such message in steps of at most 100, none twice and none left out in between; it never fails and goes on waiting. If
  from one matching message to the next no more than 100 matching events are stored, \<open>n\<close> is the number of all matching
  events stored when the last such message arrived; otherwise the rest waits for later messages.
\<close>

theorem bridge_events_complete:
  assumes "decode_opt (decode_address hex_decode) recipient = Inr rcp"
    and "growing (bridge_ok feat) (stored_later feat) (existing @ map snd live @ [final])" and "existing \<noteq> []"
    and "\<And>db. db \<in> set existing \<Longrightarrow> length (tab_rows (bridge_events db)) < length existing"
    and "unat (case from of None \<Rightarrow> 0 | Some i \<Rightarrow> i) < 2 ^ 63"
  shows "\<exists>db\<in>set existing. let sel = bridge_events_after (rcp, variant) (case from of None \<Rightarrow> 0 | Some i \<Rightarrow> i);
      told = map snd (filter (\<lambda>(msg, _). wanted rcp variant msg) live);
      n = progress 100 (length (sel db)) (map (\<lambda>db. length (sel db)) told) in
    bridge_events_subscription hex_encode hex_decode feat' from recipient variant existing live
      = Inr (Some (map (\<lambda>p. graphql_bridge_event_from hex_encode (bridge_item final p)) (take n (sel final)), Waiting))
    \<and> length (sel db) \<le> n \<and> n \<le> length (sel (last (db # told)))
    \<and> (successively (\<lambda>a b. length (sel b) \<le> length (sel a) + 100) (db # told) \<longrightarrow> n = length (sel (last (db # told))))"
proof -
  let ?c = "case from of None \<Rightarrow> 0 | Some i \<Rightarrow> i" and ?q = "(rcp, variant)"
  let ?sel = "bridge_events_after ?q ?c" and ?told = "map snd (filter (\<lambda>(msg, _). wanted rcp variant msg) live)"
  let ?fetch = "bridge_page feat' ?q 100"
  have g1: "growing (bridge_ok feat) (stored_later feat) existing" using assms(2) by simp
  from bridge_pages.pages_all [of "(feat, feat', ?q)" existing 100 ?c, unfolded prod.case, OF g1 _ assms(3,4)]
  obtain db where db: "db \<in> set existing" "bridge_ok feat db" and pg: "pages ?fetch abe_id ?c existing = Some (map (bridge_item db) (?sel db), None)"
    using as_i64_nonneg [OF assms(5)] by (auto simp: bridge_events_after_def add1_zle_eq)
  let ?xs = "map (bridge_item db) (?sel db)" and ?d = "last (?c # map abe_id (map (bridge_item db) (?sel db)))"
  have b: "backfill ?fetch ?c existing = Some (?xs, ?d, None)"
    using backfill_pages [OF _ assms(5), of feat existing feat' ?q 100] g1 pg by (simp add: growing_def del: last.simps)
  have "\<And>p. p \<in> set (?sel db) \<Longrightarrow> unat (abe_id (bridge_item db p)) < 2 ^ 63"
    using bridge_ids [OF db(2)] id_key_as_i64
    by (force simp: bridge_events_after_def bridge_item_def split_def simp flip: of_nat_less_iff [where 'a = int])
  then have d: "unat ?d < 2 ^ 63" using assms(5) last_in_set [of "?sel db"] by (cases "?sel db = []") (simp_all add: last_map)
  have g2: "growing (bridge_ok feat) (stored_later feat) (?told @ [final])"
    using growing_filter [of _ _ live "\<lambda>(msg, _). wanted rcp variant msg"] assms(2) by (auto simp: list_all_iff)
  have later: "bridge_ok feat e" "stored_later feat db e" if "e \<in> set (?told @ [final])" for e
    using growingD [OF g2 that] that assms(2) db(1) by (auto simp: list_all_iff)
  have split: "map (bridge_item e) (?sel e) = ?xs @ bridge_pages.rows_from (feat, feat', ?q) ?d e" if "e \<in> set (?told @ [final])" for e
    by (rule bridge_events_split [OF db(2) later [OF that] assms(5), symmetric])
  have len: "map (\<lambda>e. length (?sel e)) ?told = map ((+) (length (?sel db))) (map (\<lambda>e. length (bridge_pages.rows_from (feat, feat', ?q) ?d e)) ?told)"
    using arg_cong [OF split, of _ length] by (simp only: map_map comp_def length_append length_map) auto
  let ?m = "progress 100 0 (map (\<lambda>e. length (bridge_pages.rows_from (feat, feat', ?q) ?d e)) ?told)"
  have "polled ?fetch abe_id ?d ?told = (take ?m (bridge_pages.rows_from (feat, feat', ?q) ?d final), None)"
    using bridge_pages.polled_progress [of "(feat, feat', ?q)" ?told final 100 ?d, unfolded prod.case, OF g2] .
  moreover have "list_all (bridge_ok feat) (map snd live)" using assms(2) by (auto simp: growing_def)
  ultimately have l: "bridge_live ?fetch (wanted rcp variant) ?d live = (take ?m (bridge_pages.rows_from (feat, feat', ?q) ?d final), Waiting)"
    using bridge_live_polled [OF _ d, of feat live feat' ?q 100 "wanted rcp variant"] by (simp del: last.simps)
  have "progress 100 (length (?sel db)) (map (\<lambda>e. length (?sel e)) ?told) = length (?sel db) + ?m"
    unfolding len using progress_shift [of 100 "length (?sel db)" 0] by (simp only: add_0_right)
  then have t: "map (bridge_item final) (take (progress 100 (length (?sel db)) (map (\<lambda>e. length (?sel e)) ?told)) (?sel final))
      = ?xs @ take ?m (bridge_pages.rows_from (feat, feat', ?q) ?d final)"
    using split [of final] by (simp only: take_map [symmetric] take_append) simp
  have "bridge_events_subscription hex_encode hex_decode feat' from recipient variant existing live
      = Inr (Some (map (graphql_bridge_event_from hex_encode) (?xs @ take ?m (bridge_pages.rows_from (feat, feat', ?q) ?d final)), Waiting))"
    using b l assms(1) by (simp add: bridge_events_subscription_def BACKFILL_BATCH_def Let_def del: last.simps map_append)
  then have "bridge_events_subscription hex_encode hex_decode feat' from recipient variant existing live
      = Inr (Some (map (graphql_bridge_event_from hex_encode)
          (map (bridge_item final) (take (progress 100 (length (?sel db)) (map (\<lambda>e. length (?sel e)) ?told)) (?sel final))), Waiting))"
    unfolding t .
  moreover have "length (?sel db) \<le> progress 100 (length (?sel db)) (map (\<lambda>e. length (?sel e)) ?told)"
    using \<open>progress 100 (length (?sel db)) (map (\<lambda>e. length (?sel e)) ?told) = length (?sel db) + ?m\<close> by linarith
  moreover have "progress 100 (length (?sel db)) (map (\<lambda>e. length (?sel e)) ?told) \<le> length (?sel (last (db # ?told)))"
    by (rule progress_bound)
  moreover have "progress 100 (length (?sel db)) (map (\<lambda>e. length (?sel e)) ?told) = length (?sel (last (db # ?told)))"
    if "successively (\<lambda>a b. length (?sel b) \<le> length (?sel a) + 100) (db # ?told)"
    using that by (rule progress_all)
  ultimately show ?thesis unfolding Let_def map_map comp_def by (intro bexI [OF _ db(1)]) blast
qed

lemma bridge_sample_selected:
  "bridge_events_after (None, Some ReserveTransferVariant) 0 bridge_sample_db = [tab_rows (bridge_events bridge_sample_db) ! 1]"
  by (simp add: bridge_events_after_def bridge_selects_def bridge_sample_db_def bridge_sample_block_def bridge_sample_events_def api_sample_defs sample_defs
      Let_def as_i64_def save_bridge_events_def save_bridge_event_def find_transaction_def)

lemma bridge_sample_ok: "bridge_ok Cloud bridge_sample_db"
proof -
  have "tab_next (bridge_events bridge_sample_db) = 4"
    by (simp add: bridge_sample_db_def bridge_sample_block_def bridge_sample_events_def api_sample_defs sample_defs Let_def as_i64_def
      save_bridge_events_def save_bridge_event_def find_transaction_def)
  then show ?thesis using bridge_sample_stored by (simp add: bridge_ok_def)
qed

text \<open>The subscription starts on an empty database; the message about the second event of the first block makes it yield that event.\<close>

theorem bridge_events_complete_witness:
  "\<exists>e. bridge_events_subscription (\<lambda>_. ''00'') (\<lambda>_. None) Cloud None None (Some ReserveTransferVariant) [empty_chain_db]
       [((0, bridge_sample_events ! 0), bridge_sample_db), ((0, bridge_sample_events ! 1), bridge_sample_db)]
     = Inr (Some ([graphql_bridge_event_from (\<lambda>_. ''00'') e], Waiting)) \<and> e = bridge_item bridge_sample_db (tab_rows (bridge_events bridge_sample_db) ! 1)"
proof -
  let ?live = "[((0, bridge_sample_events ! 0), bridge_sample_db), ((0 :: u64, bridge_sample_events ! 1), bridge_sample_db)]"
  have dec: "decode_opt (decode_address (\<lambda>_. None)) None = Inr None" by (simp add: decode_opt_def)
  have "bridge_ok Cloud empty_chain_db" by (simp add: bridge_ok_def stored_def empty_chain_db_def empty_table_def)
  then have grow: "growing (bridge_ok Cloud) (stored_later Cloud) ([empty_chain_db] @ map snd ?live @ [bridge_sample_db])"
    using bridge_sample_ok bridge_sample_step by auto
  have more: "length (tab_rows (bridge_events db)) < length [empty_chain_db]" if "db \<in> set [empty_chain_db]" for db
    using that by (simp add: empty_chain_db_def empty_table_def)
  have none: "bridge_events_after q c empty_chain_db = []" for q c by (simp add: bridge_events_after_def empty_chain_db_def empty_table_def)
  have told: "map snd (filter (\<lambda>(msg, _). wanted None (Some ReserveTransferVariant) msg) ?live) = [bridge_sample_db]"
    by (simp add: wanted_def bridge_sample_events_def)
  show ?thesis
    using bridge_events_complete [where feat = Cloud and feat' = Cloud and hex_encode = "\<lambda>_. ''00''" and variant = "Some ReserveTransferVariant",
        OF dec grow, of None, simplified told Let_def] more
    by (simp add: none bridge_sample_selected)
qed

section \<open>Starts beyond the range of ids\<close>

text \<open>
  With a start of 2^63 or above the backfill does not end: the id is negative as \<^verbatim>\<open>i64\<close>, so every page holds the first events again,
  and as none of them has a higher id the cursor stays.
\<close>

lemma as_i64_negative:
  assumes "2 ^ 63 \<le> unat c"
  shows "as_i64 c < 0"
proof (rule ccontr)
  assume "\<not> as_i64 c < 0"
  then have "as_i64 c = 0 \<or> 0 < as_i64 c" by auto
  then have "int (unat (as_u64 (as_i64 c))) = as_i64 c" using id_key_as_i64 [of "as_i64 c"] as_i64_upper [of c] by (auto simp: as_u64_def)
  then have "int (unat c) < 2 ^ 63" using as_i64_upper [of c] by (simp del: of_nat_unat)
  then have "unat c < 2 ^ 63" by (simp flip: of_nat_less_iff [where 'a = int])
  then show False using assms by simp
qed

lemma backfill_stuck:
  assumes "bridge_ok feat db" and "2 ^ 63 \<le> unat c" and "0 < limit" and "bridge_events_after q 0 db \<noteq> []"
  shows "backfill (bridge_page feat' q limit) c (replicate n db) = None"
proof (induction n)
  case (Suc n)
  let ?sel = "filter (\<lambda>p. bridge_selects q (snd p) \<and> as_i64 c + 1 \<le> fst p) (tab_rows (bridge_events db))"
  have st: "stored feat db" using assms(1) by (simp add: bridge_ok_def)
  have pg: "bridge_page feat' q limit c db = Inr (take limit (map (bridge_item db) ?sel))" by (rule bridge_page_rows [OF st])
  have neg: "as_i64 c < 0" using as_i64_negative [OF assms(2)] .
  have ids: "0 < fst p \<and> fst p < 2 ^ 63 - 1" if "p \<in> set (tab_rows (bridge_events db))" for p
    using bridge_ids [OF assms(1), of "fst p" "snd p"] that by simp
  have "?sel = bridge_events_after q 0 db"
    unfolding bridge_events_after_def by (rule filter_cong [OF refl]) (use ids neg in fastforce)
  then have ne: "take limit (map (bridge_item db) ?sel) \<noteq> []" using assms(3,4) by simp
  have low: "abe_id e \<le> c" if e: "e \<in> set (take limit (map (bridge_item db) ?sel))" for e
  proof -
    obtain p where "p \<in> set (tab_rows (bridge_events db))" "abe_id e = as_u64 (fst p)"
      using in_set_takeD [OF e] by (auto simp: bridge_item_def)
    then have "int (unat (abe_id e)) < 2 ^ 63" using ids [of p] id_key_as_i64 [of "fst p"] by (simp del: of_nat_unat)
    then have "unat (abe_id e) < 2 ^ 63" by (simp flip: of_nat_less_iff [where 'a = int])
    then show ?thesis using assms(2) by (simp add: word_le_nat_alt)
  qed
  have "fold (\<lambda>e m. max m (abe_id e)) es c = c" if "\<forall>e\<in>set es. abe_id e \<le> c" for es
    using that by (induction es) (simp_all add: max_absorb1)
  then have "fold (\<lambda>e m. max m (abe_id e)) (take limit (map (bridge_item db) ?sel)) c = c" using low by blast
  then show ?case using Suc pg ne by simp
qed simp

end
