(* ===== verification/Api_Dust_Props.thy ===== *)
theory Api_Dust_Props
  imports Api_Dust Api_Bridge_Props
begin

text \<open>
  What the API says about dust generation: sums and capacities of registrations, and that a snapshot of the generation tree
  is complete, owned entries and collapsed updates together covering every leaf once.
\<close>

section \<open>Saturating sums\<close>

lemma unat_saturating_add: "unat (saturating_add a (b :: 'a :: len word)) = min (2 ^ LENGTH('a) - 1) (unat a + unat b)"
proof -
  have "unat (- 1 :: 'a word) = 2 ^ LENGTH('a) - 1" by (simp add: unsigned_minus_1_eq_mask mask_eq_exp_minus_1)
  then show ?thesis by (auto simp: saturating_add_def unat_plus_if' min_def)
qed

lemma unat_saturating_mul: "unat (saturating_mul a (b :: 'a :: len word)) = min (2 ^ LENGTH('a) - 1) (unat a * unat b)"
proof -
  have "unat (- 1 :: 'a word) = 2 ^ LENGTH('a) - 1" by (simp add: unsigned_minus_1_eq_mask mask_eq_exp_minus_1)
  moreover have "unat a * unat b < 2 ^ LENGTH('a) \<Longrightarrow> unat (a * b) = unat a * unat b" by (simp add: unat_mult_lem)
  ultimately show ?thesis by (auto simp: saturating_mul_def min_def)
qed

definition cap128 :: "nat \<Rightarrow> nat" where
  "cap128 n = min (2 ^ 128 - 1) n"

lemma cap128_add: "cap128 (cap128 m + n) = cap128 (m + n)"
  by (simp add: cap128_def)

lemma capacity_le_max: "co_current (contribution_of params v ctime now) \<le> co_max (contribution_of params v ctime now)"
  by (simp add: contribution_of_def Let_def)

section \<open>Registrations\<close>

definition no_contribution :: contribution where
  "no_contribution = \<lparr>co_value = 0, co_rate = 0, co_max = 0, co_current = 0\<rparr>"

definition sums_are :: "dust_parameters \<Rightarrow> (u128 \<times> u64) list \<Rightarrow> contribution \<Rightarrow> bool" where
  "sums_are params gs c \<longleftrightarrow> unat (co_value c) = cap128 (sum_list (map (\<lambda>(v, _). unat v) gs))
     \<and> unat (co_rate c) = cap128 (sum_list (map (\<lambda>(v, _). cap128 (unat v * unat (dp_generation_decay_rate params))) gs))
     \<and> unat (co_max c) = cap128 (sum_list (map (\<lambda>(v, _). cap128 (unat v * unat (dp_night_dust_ratio params))) gs))
     \<and> co_current c \<le> co_max c"

lemma unat_ucast_u32: "unat (ucast (w :: u32) :: u128) = unat w"
proof -
  have "unat w < 2 ^ 32" using unsigned_less [of w] by simp
  then show ?thesis by (simp add: unsigned_ucast_eq take_bit_nat_eq_self)
qed

lemma contribution_parts:
  "co_value (contribution_of params v ctime now) = v"
  "unat (co_rate (contribution_of params v ctime now)) = cap128 (unat v * unat (dp_generation_decay_rate params))"
  "unat (co_max (contribution_of params v ctime now)) = cap128 (unat v * unat (dp_night_dust_ratio params))"
  by (simp_all add: contribution_of_def Let_def unat_saturating_mul cap128_def unat_ucast_u32 unat_ucast_amount)

lemma saturating_add_mono: "a \<le> c \<Longrightarrow> b \<le> d \<Longrightarrow> saturating_add a b \<le> saturating_add c (d :: u128)"
  unfolding word_le_nat_alt unat_saturating_add by (intro min.mono add_mono) simp_all

lemma unat_add128: "unat (saturating_add a (b :: u128)) = cap128 (unat a + unat b)"
  by (simp add: unat_saturating_add cap128_def)

lemma add_generation_sums:
  assumes "sums_are params gs c"
  shows "sums_are params (gs @ [g]) (add_generation params now g c)"
proof -
  obtain v ctime where g: "g = (v, ctime)" by (cases g)
  let ?c = "contribution_of params v ctime (case now of None \<Rightarrow> 0 | Some t \<Rightarrow> t)"
  have "co_current (add_generation params now g c) \<le> co_max (add_generation params now g c)"
  proof (cases now)
    case None
    have "unat (co_max c) < 2 ^ 128" using unsigned_less [of "co_max c"] by simp
    then have "co_max c \<le> saturating_add (co_max c) (co_max ?c)"
      unfolding word_le_nat_alt unat_saturating_add by simp
    moreover have "co_current c \<le> co_max c" using assms by (simp add: sums_are_def)
    ultimately have "co_current c \<le> saturating_add (co_max c) (co_max ?c)" by (rule order_trans [rotated])
    then show ?thesis using None by (simp add: add_generation_def g Let_def)
  next
    case (Some t)
    then show ?thesis using assms saturating_add_mono [OF _ capacity_le_max] by (simp add: add_generation_def g Let_def sums_are_def)
  qed
  then show ?thesis using assms
    by (simp add: sums_are_def add_generation_def g Let_def unat_add128 contribution_parts cap128_add)
qed

lemma fold_sums: "sums_are params gs (fold (add_generation params now) gs no_contribution)"
proof (induction gs rule: rev_induct)
  case Nil
  show ?case by (simp add: sums_are_def no_contribution_def cap128_def)
next
  case (snoc g gs)
  then show ?case using add_generation_sums by simp
qed

lemma try_map_nth: "try_map f xs = Inr ys \<Longrightarrow> i < length xs \<Longrightarrow> f (xs ! i) = Inr (ys ! i)"
proof (induction xs arbitrary: ys i)
  case (Cons x xs)
  then obtain y ys' where "f x = Inr y" "try_map f xs = Inr ys'" "ys = y # ys'" by (auto split: sum.splits)
  then show ?case using Cons by (cases i) auto
qed simp

definition generation_values :: "bytes \<Rightarrow> chain_db \<Rightarrow> u128 list" where
  "generation_values owner db = map (\<lambda>g. u128_from_be_bytes (g_value g)) (active_generations owner db)"

lemma registration_data_sums:
  assumes "registration_data params now db row = Inr r"
  shows "dr_dust_address r = c_dust_address row" "dr_valid r = c_valid row"
    "unat (dr_night_balance r) = cap128 (sum_list (map unat (generation_values (c_dust_address row) db)))"
    "unat (dr_generation_rate r) = cap128 (sum_list (map (\<lambda>v. cap128 (unat v * unat (dp_generation_decay_rate params))) (generation_values (c_dust_address row) db)))"
    "unat (dr_max_capacity r) = cap128 (sum_list (map (\<lambda>v. cap128 (unat v * unat (dp_night_dust_ratio params))) (generation_values (c_dust_address row) db)))"
    "dr_current_capacity r \<le> dr_max_capacity r"
proof -
  let ?gens = "active_generations (c_dust_address row) db"
  obtain gs where gs: "try_map (\<lambda>g. map_ok (\<lambda>v. (v, as_u64 (g_ctime g))) (col_u128 (g_value g))) ?gens = Inr gs"
    and r: "r = (let c = fold (add_generation params now) gs no_contribution
       in \<lparr>dr_dust_address = c_dust_address row, dr_valid = c_valid row, dr_night_balance = co_value c, dr_generation_rate = co_rate c,
           dr_max_capacity = co_max c, dr_current_capacity = co_current c, dr_utxo_tx_hash = c_utxo_tx_hash row,
           dr_utxo_output_index = map_option word_of_int (c_utxo_output_index row)\<rparr>)"
    using assms by (auto simp: registration_data_def map_ok_Inr_iff no_contribution_def)
  have vs: "map fst gs = generation_values (c_dust_address row) db"
  proof (rule nth_equalityI)
    show "length (map fst gs) = length (generation_values (c_dust_address row) db)"
      using try_map_length [OF gs] by (simp add: generation_values_def)
    fix i assume i: "i < length (map fst gs)"
    then have "i < length ?gens" using try_map_length [OF gs] by simp
    from try_map_nth [OF gs this] show "map fst gs ! i = generation_values (c_dust_address row) db ! i"
      using i \<open>i < length ?gens\<close> by (auto simp: generation_values_def map_ok_Inr_iff col_u128_def split: if_splits)
  qed
  have *: "map (\<lambda>(v, _). f v) gs = map f (generation_values (c_dust_address row) db)" for f :: "u128 \<Rightarrow> nat"
    unfolding vs [symmetric] by (simp add: split_def comp_def)
  show "dr_dust_address r = c_dust_address row" "dr_valid r = c_valid row" by (simp_all add: r Let_def)
  show "unat (dr_night_balance r) = cap128 (sum_list (map unat (generation_values (c_dust_address row) db)))"
    "unat (dr_generation_rate r) = cap128 (sum_list (map (\<lambda>v. cap128 (unat v * unat (dp_generation_decay_rate params))) (generation_values (c_dust_address row) db)))"
    "unat (dr_max_capacity r) = cap128 (sum_list (map (\<lambda>v. cap128 (unat v * unat (dp_night_dust_ratio params))) (generation_values (c_dust_address row) db)))"
    "dr_current_capacity r \<le> dr_max_capacity r"
    using fold_sums [of params gs now] unfolding sums_are_def * by (simp_all add: r Let_def)
qed

text \<open>
  C32. The generations of reward addresses are reported per active registration with the exact sums over all generations of its dust
  address that are not spent, where a sum that does not fit stays at the largest value: the NIGHT that backs them, the rate and the capacity they
  grow to. The current capacity never exceeds the latter.
\<close>

theorem dust_generations_sums:
  assumes "get_dust_generations params db reg_db gen_db addresses = Inr out" and "i < length addresses"
    and "j < length (active_registrations (addresses ! i) (reg_db i))"
  shows "let row = active_registrations (addresses ! i) (reg_db i) ! j; vs = generation_values (c_dust_address row) (gen_db i j);
      r = snd (out ! i) ! j in
      fst (out ! i) = addresses ! i \<and> dr_dust_address r = c_dust_address row \<and> dr_valid r = c_valid row
    \<and> unat (dr_night_balance r) = cap128 (sum_list (map unat vs))
    \<and> unat (dr_generation_rate r) = cap128 (sum_list (map (\<lambda>v. cap128 (unat v * unat (dp_generation_decay_rate params))) vs))
    \<and> unat (dr_max_capacity r) = cap128 (sum_list (map (\<lambda>v. cap128 (unat v * unat (dp_night_dust_ratio params))) vs))
    \<and> dr_current_capacity r \<le> dr_max_capacity r"
proof -
  let ?regs = "active_registrations (addresses ! i) (reg_db i)"
  have "map_ok (Pair (addresses ! i)) (try_map (\<lambda>(j, r). registration_data params (latest_timestamp db) (gen_db i j) r) (enumerate 0 ?regs)) = Inr (out ! i)"
    using try_map_nth [OF assms(1) [unfolded get_dust_generations_def], of i] assms(2) by (simp add: nth_enumerate_eq)
  then obtain rs where rs: "out ! i = (addresses ! i, rs)"
    "try_map (\<lambda>(j, r). registration_data params (latest_timestamp db) (gen_db i j) r) (enumerate 0 ?regs) = Inr rs" by (auto simp: map_ok_Inr_iff)
  have "registration_data params (latest_timestamp db) (gen_db i j) (?regs ! j) = Inr (rs ! j)"
    using try_map_nth [OF rs(2), of j] assms(3) by (simp add: nth_enumerate_eq)
  from registration_data_sums [OF this] show ?thesis using rs(1) by (simp add: Let_def)
qed

text \<open>The status of a reward address counts one generation only, the newest.\<close>

lemma status_newest_only:
  assumes "generation_status params (db1, db2, db3) a = Inr s"
  shows "dgs_night_balance s = 0 \<or> dgs_night_balance s \<in> set (generation_values (the (dgs_dust_address s)) db2)"
proof -
  have "g \<in> set (active_generations owner db2)" if "first_row (order_by_desc g_ctime (active_generations owner db2)) = Some g" for g owner
    using that by (auto simp: first_row_def order_by_desc_def split: list.splits)
      (metis list.set_intros(1) set_sort)
  then show ?thesis using assms
    by (auto simp: generation_status_def Let_def map_ok_Inr_iff col_u128_def contribution_of_def generation_values_def
        split: if_splits option.splits)
qed

section \<open>Generations stay\<close>

text \<open>Rows of generations without the decay time, which an update sets.\<close>

definition gen_rows :: "chain_db \<Rightarrow> (i64 \<times> dust_generation_row) list" where
  "gen_rows db = map (apsnd (\<lambda>g. g\<lparr>g_dtime := None\<rparr>)) (tab_rows (dust_generation_infos db))"

lemma gens_untouched [simp]:
  "dust_generation_infos (save_identifiers ids tid db) = dust_generation_infos db" "dust_generation_infos (save_bridge_claim tid c db) = dust_generation_infos db"
  "dust_generation_infos (save_dust_registration_events regs bid ts db) = dust_generation_infos db"
  "dust_generation_infos (save_system_parameters_change ch db) = dust_generation_infos db"
  "dust_generation_infos (save_dust_nullifiers es tid bid db) = dust_generation_infos db"
  "dust_generation_infos (save_zswap_nullifiers es tid bid db) = dust_generation_infos db"
  "dust_generation_infos (save_contract_event_indexed_fields fs eids db) = dust_generation_infos db"
  by (auto simp: save_identifiers_def save_bridge_claim_def save_dust_registration_events_def save_dust_nullifiers_def save_zswap_nullifiers_def
      save_contract_event_indexed_fields_def save_system_parameters_change_def Let_def split: option.splits)

lemma gens_saves:
  "save_contract_actions as tid db = Inr (ids, db1) \<Longrightarrow> dust_generation_infos db1 = dust_generation_infos db"
  "save_created_unshielded_utxos us tid db = Inr db2 \<Longrightarrow> dust_generation_infos db2 = dust_generation_infos db"
  "save_spent_unshielded_utxos ss tid db = Inr db2 \<Longrightarrow> dust_generation_infos db2 = dust_generation_infos db"
  "save_ledger_events es as aids tid db = Inr db2 \<Longrightarrow> dust_generation_infos db2 = dust_generation_infos db"
  by (auto simp: save_contract_actions_def save_contract_balances_def save_created_unshielded_utxos_def save_spent_def2 save_ledger_events_def
      Let_def split_def res_simps insert_unique_Inr split: if_splits)

lemma gens_save_generation_info: "prefix (gen_rows db) (gen_rows (save_dust_generation_info es tid db))"
proof -
  have "prefix (gen_rows db) (gen_rows (save_dust_generation_event tid e db))" for e db
  proof (cases "le_attributes e")
    case (DustGenerationDtimeUpdate info i path)
    then have "gen_rows (save_dust_generation_event tid e db) = gen_rows db"
      by (simp add: save_dust_generation_event_def gen_rows_def update_where_def) (auto intro!: map_cong)
    then show ?thesis by simp
  qed (simp_all add: save_dust_generation_event_def gen_rows_def insert_row_simps)
  then have "prefix (gen_rows db) (gen_rows (fold (save_dust_generation_event tid) es db))"
    by (induction es arbitrary: db) (auto intro: prefix_order.trans)
  then show ?thesis by (simp add: save_dust_generation_info_def)
qed

lemma gens_bridge [simp]: "dust_generation_infos (save_bridge_events es bid db) = dust_generation_infos db"
proof -
  have "dust_generation_infos (fold (save_bridge_event bid) es db) = dust_generation_infos db"
    by (induction es arbitrary: db) (simp_all add: save_bridge_event_def)
  then show ?thesis by (simp add: save_bridge_events_def)
qed

lemma gen_rows_cong: "dust_generation_infos db = dust_generation_infos db' \<Longrightarrow> gen_rows db = gen_rows db'"
  by (simp add: gen_rows_def)

lemma gens_save_transaction: "save_transaction feat bid (h, db) t = Inr (h', db') \<Longrightarrow> prefix (gen_rows db) (gen_rows db')"
proof (cases t)
  case (Regular r)
  assume "save_transaction feat bid (h, db) t = Inr (h', db')"
  with Regular obtain db1 tid where 1: "dust_generation_infos db1 = dust_generation_infos db"
    "dust_generation_infos db' = dust_generation_infos (save_dust_generation_info (rt_ledger_events r) tid db1)"
    by (auto simp: save_transaction_def save_regular_transaction_def Let_def split_def res_simps dest!: gens_saves split: if_splits option.splits)
  show ?thesis using gens_save_generation_info [of db1 "rt_ledger_events r" tid] gen_rows_cong [OF 1(1)] gen_rows_cong [OF 1(2)] by simp
next
  case (System r)
  assume "save_transaction feat bid (h, db) t = Inr (h', db')"
  with System obtain db1 tid where 1: "dust_generation_infos db1 = dust_generation_infos db"
    "db' = save_dust_generation_info (st_ledger_events r) tid db1"
    by (auto simp: save_transaction_def save_system_transaction_def Let_def split_def res_simps dest!: gens_saves split: if_splits)
  show ?thesis using gens_save_generation_info [of db1 "st_ledger_events r" tid] gen_rows_cong [OF 1(1)] 1(2) by simp
qed

lemma gens_save_transactions: "try_fold (save_transaction feat bid) (h, db) txs = Inr (h', db') \<Longrightarrow> prefix (gen_rows db) (gen_rows db')"
proof (induction txs arbitrary: h db)
  case (Cons t txs)
  then obtain h1 db1 where "save_transaction feat bid (h, db) t = Inr (h1, db1)" "try_fold (save_transaction feat bid) (h1, db1) txs = Inr (h', db')"
    by (auto split: sum.splits)
  then show ?case using Cons.IH gens_save_transaction prefix_order.trans by metis
qed simp

lemma gens_store_step: "store_step feat db db' \<Longrightarrow> prefix (gen_rows db) (gen_rows db')"
proof -
  assume "store_step feat db db'"
  then obtain b txs regs key change mx where s: "save_block feat b txs regs key change db = (Inr mx, db')" unfolding store_step_def by blast
  let ?bid = "tab_next (blocks db)" and ?db1 = "db\<lparr>blocks := snd (insert_row (block_row_of b key) (blocks db))\<rparr>"
  obtain db3 where tx: "save_block_tx feat b txs regs key db = Inr (mx, db3)"
    and db': "db' = (case change of None \<Rightarrow> db3 | Some c \<Rightarrow> save_system_parameters_change c db3)"
    using s by (auto simp: save_block_def split: sum.splits prod.splits)
  obtain db2 where 1: "save_transactions feat txs ?bid ?db1 = Inr (mx, db2)"
    and 3: "db3 = save_bridge_events (bl_bridge_events b) ?bid (save_dust_registration_events regs ?bid (bl_timestamp b) db2)"
    using tx by (auto simp: save_block_tx_def insert_block_def Let_def split_def res_simps insert_row_simps split: if_splits)
  have "prefix (gen_rows ?db1) (gen_rows db2)"
    using gens_save_transactions [of feat ?bid None ?db1 txs mx db2] 1 by (simp add: save_transactions_def)
  moreover have "gen_rows ?db1 = gen_rows db" by (simp add: gen_rows_def)
  moreover have "gen_rows db' = gen_rows db2" by (rule gen_rows_cong) (simp add: db' 3 split: option.splits)
  ultimately show ?thesis by simp
qed

lemma gens_later: "stored_later feat db db' \<Longrightarrow> prefix (gen_rows db) (gen_rows db')"
  by (induction rule: rtranclp_induct) (auto dest: gens_store_step intro: prefix_order.trans)

section \<open>Entries\<close>

definition entry_of :: "chain_db \<Rightarrow> dust_generation_row \<Rightarrow> dust_generation_entry" where
  "entry_of db g = \<lparr>dge_commitment_mt_index = word_of_int (g_merkle_index g), dge_generation_mt_index = word_of_int (g_generation_index g),
     dge_owner = g_owner g, dge_value = u128_from_be_bytes (g_value g), dge_initial_value = u128_from_be_bytes (g_initial_value g),
     dge_backing_night = g_backing_night g, dge_ctime = word_of_int (g_ctime g), dge_transaction_id = word_of_int (g_transaction_id g),
     dge_transaction_hash = t_hash (the (row_by_id (transactions db) (g_transaction_id g)))\<rparr>"

text \<open>The entries of an address up to an index, in the order of the tree.\<close>

definition owned_entries :: "bytes \<Rightarrow> u64 \<Rightarrow> chain_db \<Rightarrow> dust_generation_entry list" where
  "owned_entries dust_address end_index db = map (entry_of db) (sort_key g_generation_index
     (filter (\<lambda>g. g_owner g = dust_address \<and> g_generation_index g \<le> int (unat end_index)) (map snd (gen_rows db))))"

lemma generation_row:
  assumes "stored feat db" and "(i, g) \<in> set (tab_rows (dust_generation_infos db))"
  shows "generation_typed g" "\<exists>t. row_by_id (transactions db) (g_transaction_id g) = Some t \<and> length (t_hash t) = 32"
proof -
  note ok = stored_ok(1,2) [OF assms(1)]
  show "generation_typed g" using stored_rows(2) [OF assms] by simp
  have "g_transaction_id g \<in> table_ids (transactions db)" using ok(1) assms(2) by (force simp: db_ok_defs fk_def)
  moreover have "table_ok (transactions db)" using ok(1) by (simp add: db_ok_defs)
  ultimately obtain t where "row_by_id (transactions db) (g_transaction_id g) = Some t" "(g_transaction_id g, t) \<in> set (tab_rows (transactions db))"
    using row_by_id_in [of "transactions db" "g_transaction_id g"] by blast
  moreover from this have "length (t_hash t) = 32" using typed_rows(2) [OF ok(2), of "g_transaction_id g" t] by (simp add: transaction_typed_def)
  ultimately show "\<exists>t. row_by_id (transactions db) (g_transaction_id g) = Some t \<and> length (t_hash t) = 32" by blast
qed

lemma sort_key_map: "sort_key f (map h xs) = map h (sort_key (f \<circ> h) xs)"
proof -
  have "insort_key f (h x) (map h ys) = map h (insort_key (f \<circ> h) x ys)" for x ys by (induction ys) simp_all
  then show ?thesis by (induction xs) simp_all
qed

lemma entry_decodes:
  assumes "generation_typed g" and "length (t_hash t) = 32" and "row_by_id (transactions db) (g_transaction_id g) = Some t"
  shows "dust_entry_from_row (g, t) = Inr (entry_of db g)"
  using assms by (simp add: dust_entry_from_row_def entry_of_def generation_typed_def col_ok)

lemma entry_of_dtime [simp]: "entry_of db (g\<lparr>g_dtime := d\<rparr>) = entry_of db g"
  by (simp add: entry_of_def)

lemma generation_index_unat:
  assumes "generation_typed g"
  shows "int (unat (dge_generation_mt_index (entry_of db g))) = g_generation_index g"
  using assms by (simp add: entry_of_def generation_typed_def uint_word_of_int_eq take_bit_int_eq_self)

lemma entries_page_eq:
  assumes st: "stored feat db" and s: "unat start_index < 2 ^ 63" and e: "unat end_index < 2 ^ 63"
  shows "dust_entries_page dust_address end_index batch_size start_index db
    = Inr (take batch_size (filter (\<lambda>x. start_index \<le> dge_generation_mt_index x) (owned_entries dust_address end_index db)))"
proof -
  let ?P = "\<lambda>g. g_owner g = dust_address \<and> g_generation_index g \<le> int (unat end_index)"
  let ?Q = "\<lambda>g. int (unat start_index) \<le> g_generation_index g"
  let ?gs = "map snd (filter (\<lambda>(_, g). ?P g \<and> ?Q g) (tab_rows (dust_generation_infos db)))"
  let ?tx = "\<lambda>g. the (row_by_id (transactions db) (g_transaction_id g))"
  have typed: "generation_typed g \<and> (\<exists>t. row_by_id (transactions db) (g_transaction_id g) = Some t \<and> length (t_hash t) = 32)"
    if m: "g \<in> snd ` set (tab_rows (dust_generation_infos db))" for g
  proof -
    obtain i where "(i, g) \<in> set (tab_rows (dust_generation_infos db))" using m by force
    then show ?thesis using generation_row [OF st] by blast
  qed
  have "Chain_Storage.filter_map (join_generation db) (filter (\<lambda>(_, g). ?P g \<and> ?Q g) (tab_rows (dust_generation_infos db)))
      = map (\<lambda>(i, g). (g, ?tx g)) (filter (\<lambda>(_, g). ?P g \<and> ?Q g) (tab_rows (dust_generation_infos db)))"
    by (rule filter_map_all) (use generation_row(2) [OF st] in \<open>force simp: join_generation_def\<close>)
  also have "\<dots> = map (\<lambda>g. (g, ?tx g)) ?gs" by (simp add: split_def comp_def)
  finally have "dust_entries_page dust_address end_index batch_size start_index db
      = try_map dust_entry_from_row (take batch_size (map (\<lambda>g. (g, ?tx g)) (sort_key g_generation_index ?gs)))"
    using as_i64_nonneg [OF s] as_i64_nonneg [OF e]
    by (simp add: dust_entries_page_def select_where_def sort_key_map comp_def conj_ac)
  also have "\<dots> = try_map (\<lambda>g. dust_entry_from_row (g, ?tx g)) (take batch_size (sort_key g_generation_index ?gs))"
    by (simp add: take_map try_map_map comp_def)
  also have "\<dots> = Inr (map (entry_of db) (take batch_size (sort_key g_generation_index ?gs)))"
  proof (rule try_map_total)
    fix g assume "g \<in> set (take batch_size (sort_key g_generation_index ?gs))"
    then have "g \<in> snd ` set (tab_rows (dust_generation_infos db))" using in_set_takeD by fastforce
    from typed [OF this] show "dust_entry_from_row (g, ?tx g) = Inr (entry_of db g)" using entry_decodes by force
  qed
  also have "map (entry_of db) (take batch_size (sort_key g_generation_index ?gs))
      = take batch_size (filter (\<lambda>x. start_index \<le> dge_generation_mt_index x) (owned_entries dust_address end_index db))"
  proof -
    let ?all = "map snd (filter (\<lambda>(_, g). ?P g) (tab_rows (dust_generation_infos db)))"
    let ?strip = "\<lambda>g. g\<lparr>g_dtime := None\<rparr> :: dust_generation_row"
    have "filter ?P (map snd (gen_rows db)) = map ?strip ?all"
      by (simp add: gen_rows_def filter_map comp_def split_def)
    then have o: "owned_entries dust_address end_index db = map (entry_of db) (sort_key g_generation_index ?all)"
      by (simp add: owned_entries_def sort_key_map comp_def)
    have "start_index \<le> dge_generation_mt_index (entry_of db g) \<longleftrightarrow> ?Q g" if "g \<in> set (sort_key g_generation_index ?all)" for g
    proof -
      have "g \<in> snd ` set (tab_rows (dust_generation_infos db))" using that by force
      then have "int (unat (dge_generation_mt_index (entry_of db g))) = g_generation_index g" using typed generation_index_unat by blast
      then show ?thesis by (simp add: word_le_nat_alt flip: of_nat_le_iff [where 'a = int])
    qed
    then have "filter (\<lambda>x. start_index \<le> dge_generation_mt_index x) (owned_entries dust_address end_index db)
        = map (entry_of db) (filter ?Q (sort_key g_generation_index ?all))"
      unfolding o filter_map comp_def by (intro arg_cong [where f = "map (entry_of db)"] filter_cong) auto
    also have "filter ?Q (sort_key g_generation_index ?all) = sort_key g_generation_index (filter ?Q ?all)" by (rule filter_sort)
    also have "filter ?Q ?all = ?gs" by (simp add: filter_map comp_def split_def conj_ac)
    finally show ?thesis by (simp add: take_map)
  qed
  finally show ?thesis .
qed

abbreviation index_of :: "dust_generation_entry \<Rightarrow> nat" where
  "index_of e \<equiv> unat (dge_generation_mt_index e)"

lemma entries_stream_all:
  assumes "\<And>db start. db \<in> set dbs \<Longrightarrow> unat start < 2 ^ 63
      \<Longrightarrow> fetch start db = Inr (take batch_size (filter (\<lambda>x. start \<le> dge_generation_mt_index x) es))"
    and "sorted_wrt (<) (map dge_generation_mt_index es)" and "\<And>x. x \<in> set es \<Longrightarrow> dge_generation_mt_index x \<le> end_index" and "unat end_index < 2 ^ 63 - 1"
    and "0 < batch_size" and "unat start_index < 2 ^ 63" and "length (filter (\<lambda>x. start_index \<le> dge_generation_mt_index x) es) < length dbs"
  shows "entries_stream fetch end_index start_index dbs = Some (filter (\<lambda>x. start_index \<le> dge_generation_mt_index x) es, None)"
  using assms(1,6,7)
proof (induction dbs arbitrary: start_index)
  case (Cons db dbs)
  let ?from = "\<lambda>s. filter (\<lambda>x. s \<le> dge_generation_mt_index x) es"
  define p where "p = take batch_size (?from start_index)"
  have f: "fetch start_index db = Inr p" using Cons.prems by (simp add: p_def)
  show ?case
  proof (cases "p = []")
    case True
    then show ?thesis using f assms(5) by (simp add: p_def)
  next
    case False
    define l where "l = dge_generation_mt_index (last p)"
    have lp: "last p \<in> set (?from start_index)" using last_in_set [OF False] unfolding p_def by (rule in_set_takeD)
    then have le: "l \<le> end_index" using assms(3) by (simp add: l_def)
    then have "unat l < 2 ^ 63 - 1" using assms(4) by (simp add: word_le_nat_alt)
    then have l1: "unat (l + 1) = unat l + 1" by (simp add: unat_plus_if')
    have asc: "sorted_wrt (\<lambda>x y. dge_generation_mt_index x < dge_generation_mt_index y) (?from start_index)"
      using assms(2) by (simp add: sorted_wrt_map sorted_wrt_filter)
    have split: "?from start_index = p @ drop batch_size (?from start_index)" by (simp add: p_def)
    have "filter (\<lambda>x. l + 1 \<le> dge_generation_mt_index x) (p @ drop batch_size (?from start_index)) = drop batch_size (?from start_index)"
    proof -
      have "p = butlast p @ [last p]" using False by simp
      then obtain q where q: "p = q @ [last p]" by blast
      have "sorted_wrt (\<lambda>x y. dge_generation_mt_index x < dge_generation_mt_index y) (q @ [last p] @ drop batch_size (?from start_index))"
        using asc split q by (metis append.assoc)
      then have a: "\<And>x. x \<in> set q \<Longrightarrow> dge_generation_mt_index x < l" "\<And>x. x \<in> set (drop batch_size (?from start_index)) \<Longrightarrow> l < dge_generation_mt_index x"
        by (auto simp: sorted_wrt_append l_def)
      have "\<not> l + 1 \<le> dge_generation_mt_index x" if "x \<in> set p" for x
      proof -
        have "x \<in> set (q @ [last p])" using that q by metis
        then have "dge_generation_mt_index x \<le> l" using a(1) less_imp_le by (auto simp: l_def)
        then show ?thesis by (simp add: word_le_nat_alt l1)
      qed
      moreover have "l + 1 \<le> dge_generation_mt_index x" if "x \<in> set (drop batch_size (?from start_index))" for x
        using a(2) [OF that] by (simp add: word_le_nat_alt word_less_nat_alt l1)
      ultimately show ?thesis unfolding filter_append by (simp add: filter_empty_conv filter_id_conv)
    qed
    moreover have "?from (l + 1) = filter (\<lambda>x. l + 1 \<le> dge_generation_mt_index x) (?from start_index)"
    proof -
      have "start_index \<le> dge_generation_mt_index x" if "l + 1 \<le> dge_generation_mt_index x" for x
        using lp that l1 by (simp add: word_le_nat_alt l_def)
      then show ?thesis unfolding filter_filter by (intro filter_cong) auto
    qed
    ultimately have rest: "?from (l + 1) = drop batch_size (?from start_index)" using split by metis
    show ?thesis
    proof (cases "end_index \<le> l")
      case True
      then have "?from (l + 1) = []" using assms(3) l1 by (fastforce simp: filter_empty_conv word_le_nat_alt)
      then have "p = ?from start_index" using rest split by simp
      then show ?thesis using f False True by (simp add: Let_def l_def)
    next
      case nt: False
      have "0 < length (?from start_index)" using False by (simp add: p_def)
      then have "length (?from (l + 1)) < length dbs"
        using Cons.prems(3) rest assms(5) by (simp del: length_greater_0_conv)
      then have "entries_stream fetch end_index (l + 1) dbs = Some (?from (l + 1), None)"
        using Cons.prems(1) l1 \<open>unat l < 2 ^ 63 - 1\<close> by (intro Cons.IH) auto
      then show ?thesis using f False nt rest split by (simp add: Let_def l_def)
    qed
  qed
qed simp

section \<open>The snapshot covers the tree\<close>

text \<open>The leaves an update stands for, those of an item with the update before it, and those of the whole stream.\<close>

definition update_leaves :: "'u merkle_update option \<Rightarrow> nat list" where
  "update_leaves u = (case u of None \<Rightarrow> [] | Some u \<Rightarrow> [unat (cu_start_index u)..<unat (cu_end_index u) + 1])"

fun event_leaves :: "'u dust_generations_event \<Rightarrow> nat list" where
  "event_leaves (DustGenerationsItem i) = update_leaves (di_collapsed_merkle_tree i) @ [unat (di_generation_mt_index i)]"
| "event_leaves (DustGenerationsProgress _ u) = update_leaves u"
| "event_leaves (DustGenerationDtimeUpdateItem _) = []"

definition collapses :: "('l, 'e, 'u) ledger_tree \<Rightarrow> 'l \<Rightarrow> bool" where
  "collapses tree l \<longleftrightarrow> (\<forall>s e. s \<le> e \<longrightarrow> e < lt_first_free tree l \<longrightarrow> (\<exists>u. lt_collapse tree l s e = Inr u))"

lemma make_update_leaves:
  assumes "collapses tree l" and "s \<le> e" and "e < lt_first_free tree l"
  shows "\<exists>u. make_collapsed_update tree l s e v = Inr u \<and> update_leaves (Some u) = [unat s..<unat e + 1]"
  using assms by (force simp: collapses_def make_collapsed_update_def update_leaves_def)

lemma gap_leaves:
  assumes "collapses tree l" and "cursor \<le> i" and "i < lt_first_free tree l"
  shows "\<exists>u. gap_update tree l v cursor i = Inr u \<and> update_leaves u = [unat cursor..<unat i]"
proof (cases "i \<le> cursor \<or> i = 0")
  case True
  then show ?thesis using assms(2) by (auto simp: gap_update_def update_leaves_def)
next
  case False
  then have i: "unat (i - 1) = unat i - 1" "0 < unat i" by (simp_all add: unat_minus_one unat_gt_0)
  have "unat cursor < unat i" using False by (simp add: word_le_nat_alt)
  then have "unat cursor \<le> unat i - 1" by simp
  then have "cursor \<le> i - 1" using i(1) by (simp add: word_le_nat_alt)
  moreover have "i - 1 < lt_first_free tree l" using assms(3) i by (simp add: word_less_nat_alt)
  ultimately have g: "cursor \<le> i - 1" "i - 1 < lt_first_free tree l" by simp_all
  from make_update_leaves [OF assms(1) g] obtain u where
    "make_collapsed_update tree l cursor (i - 1) v = Inr u" "update_leaves (Some u) = [unat cursor..<unat (i - 1) + 1]" by blast
  then show ?thesis using False i by (auto simp: gap_update_def server_error_def)
qed

lemma snapshot_entries_leaves:
  assumes "collapses tree l" and "sorted_wrt (<) (map dge_generation_mt_index es)"
    and "\<And>e. e \<in> set es \<Longrightarrow> cursor \<le> dge_generation_mt_index e \<and> dge_generation_mt_index e < lt_first_free tree l"
    and "unat (lt_first_free tree l) < 2 ^ 63" and "cursor \<le> lt_first_free tree l"
  shows "\<exists>items c. snapshot_entries (gap_update tree l v) cursor es = (items, Inr c) \<and> map fst items = es \<and> cursor \<le> c \<and> c \<le> lt_first_free tree l
    \<and> concat (map (\<lambda>(e, u). update_leaves u @ [index_of e]) items) = [unat cursor..<unat c]"
  using assms(2,3,5)
proof (induction es arbitrary: cursor)
  case (Cons e es)
  let ?i = "dge_generation_mt_index e"
  have i: "cursor \<le> ?i" "?i < lt_first_free tree l" using Cons.prems by auto
  then have i1: "unat (?i + 1) = unat ?i + 1" using assms(4) by (simp add: unat_plus_if' word_less_nat_alt)
  obtain u where u: "gap_update tree l v cursor ?i = Inr u" "update_leaves u = [unat cursor..<unat ?i]" using gap_leaves [OF assms(1) i] by blast
  have "\<exists>items c. snapshot_entries (gap_update tree l v) (?i + 1) es = (items, Inr c) \<and> map fst items = es \<and> ?i + 1 \<le> c \<and> c \<le> lt_first_free tree l
    \<and> concat (map (\<lambda>(e, u). update_leaves u @ [index_of e]) items) = [unat (?i + 1)..<unat c]"
  proof (rule Cons.IH)
    show "sorted_wrt (<) (map dge_generation_mt_index es)" using Cons.prems by simp
    show "?i + 1 \<le> dge_generation_mt_index x \<and> dge_generation_mt_index x < lt_first_free tree l" if "x \<in> set es" for x
      using Cons.prems(1,2) that i1 by (auto simp: word_le_nat_alt word_less_nat_alt)
    show "?i + 1 \<le> lt_first_free tree l" using i i1 by (simp add: word_le_nat_alt word_less_nat_alt)
  qed
  then obtain items c where c: "snapshot_entries (gap_update tree l v) (?i + 1) es = (items, Inr c)" "map fst items = es" "?i + 1 \<le> c"
    "c \<le> lt_first_free tree l" "concat (map (\<lambda>(e, u). update_leaves u @ [index_of e]) items) = [unat (?i + 1)..<unat c]" by blast
  have b: "unat cursor \<le> unat ?i" "unat ?i < unat c" using i c(3) i1 by (simp_all add: word_le_nat_alt)
  then have "[unat cursor..<unat ?i] @ [unat ?i] @ [unat ?i + 1..<unat c] = [unat cursor..<unat c]"
    using upt_add_eq_append [of "unat cursor" "unat ?i" "unat c - unat ?i"] upt_conv_Cons [of "unat ?i" "unat c"] by simp
  then show ?case using u c b i1 by (intro exI [of _ "(e, u) # items"] exI [of _ c]) (simp add: word_le_nat_alt)
qed simp

text \<open>
  What is relied on of the ledger: a leaf of the generation tree is used once, and generations created after the snapshot, which
  are those the first state does not have, lie beyond its end.
\<close>

definition leaves_unique :: "bytes \<Rightarrow> chain_db \<Rightarrow> bool" where
  "leaves_unique dust_address db \<longleftrightarrow>
     distinct (map g_generation_index (filter (\<lambda>g. g_owner g = dust_address) (map snd (gen_rows db))))"

definition created_beyond :: "u64 \<Rightarrow> chain_db \<Rightarrow> chain_db \<Rightarrow> bool" where
  "created_beyond first_free db0 db \<longleftrightarrow> (\<forall>p\<in>set (gen_rows db). p \<notin> set (gen_rows db0) \<longrightarrow> int (unat first_free) \<le> g_generation_index (snd p))"

lemma gen_row_typed: "stored feat db \<Longrightarrow> p \<in> set (gen_rows db) \<Longrightarrow> generation_typed (snd p)
    \<and> (\<exists>t. row_by_id (transactions db) (g_transaction_id (snd p)) = Some t)"
  using generation_row by (fastforce simp: gen_rows_def generation_typed_def)

lemma owned_entries_stay:
  assumes st: "stored feat db0" "stored_later feat db0 db" and beyond: "created_beyond first_free db0 db" and "end_index < first_free"
  shows "owned_entries dust_address end_index db = owned_entries dust_address end_index db0"
proof -
  have st': "stored feat db" using st stored_later_stored by blast
  obtain zs where zs: "gen_rows db = gen_rows db0 @ zs" using gens_later [OF st(2)] by (auto simp: prefix_def)
  have "map fst (gen_rows db) = map fst (tab_rows (dust_generation_infos db))" by (simp add: gen_rows_def comp_def)
  then have "distinct (map fst (gen_rows db))"
    using stored_ok(1) [OF st'] by (auto simp: db_ok_defs table_ok_def strict_sorted_iff)
  then have new: "p \<notin> set (gen_rows db0)" if "p \<in> set zs" for p using that unfolding zs by force
  have "\<not> g_generation_index (snd p) \<le> int (unat end_index)" if "p \<in> set zs" for p
  proof -
    have "int (unat first_free) \<le> g_generation_index (snd p)" using beyond new [OF that] that zs by (auto simp: created_beyond_def)
    moreover have "int (unat end_index) < int (unat first_free)" using assms(4) unfolding word_less_nat_alt by (simp only: of_nat_less_iff)
    ultimately show ?thesis by linarith
  qed
  then have f: "filter (\<lambda>g. g_owner g = dust_address \<and> g_generation_index g \<le> int (unat end_index)) (map snd (gen_rows db))
      = filter (\<lambda>g. g_owner g = dust_address \<and> g_generation_index g \<le> int (unat end_index)) (map snd (gen_rows db0))"
    by (auto simp: zs filter_empty_conv)
  have "entry_of db g = entry_of db0 g" if g: "g \<in> snd ` set (gen_rows db0)" for g
  proof -
    obtain t where t: "row_by_id (transactions db0) (g_transaction_id g) = Some t" using g gen_row_typed [OF st(1)] by blast
    have "row_by_id (transactions db) (g_transaction_id g) = Some t"
      using row_by_id_prefix [OF _ t] stored_later_extends [OF st(2,1)] by (simp add: extends_def)
    then show ?thesis using t by (simp add: entry_of_def)
  qed
  then show ?thesis unfolding owned_entries_def f by (auto intro!: map_cong)
qed

lemma owned_entries_ascend:
  assumes st: "stored feat db" and u: "leaves_unique dust_address db" and "unat end_index < 2 ^ 63"
  shows "sorted_wrt (<) (map dge_generation_mt_index (owned_entries dust_address end_index db))"
    "\<And>e. e \<in> set (owned_entries dust_address end_index db) \<Longrightarrow> dge_generation_mt_index e \<le> end_index"
    "length (owned_entries dust_address end_index db) \<le> length (tab_rows (dust_generation_infos db))"
proof -
  let ?gs = "filter (\<lambda>g. g_owner g = dust_address \<and> g_generation_index g \<le> int (unat end_index)) (map snd (gen_rows db))"
  let ?s = "sort_key g_generation_index ?gs"
  have ty: "int (unat (dge_generation_mt_index (entry_of db g))) = g_generation_index g" if "g \<in> set ?s" for g
    using that gen_row_typed [OF st] generation_index_unat by fastforce
  have "distinct (map g_generation_index ?gs)"
  proof -
    have "?gs = filter (\<lambda>g. g_generation_index g \<le> int (unat end_index)) (filter (\<lambda>g. g_owner g = dust_address) (map snd (gen_rows db)))"
      by (simp only: filter_filter)
    then show ?thesis using u unfolding leaves_unique_def by (simp only: distinct_map_filter)
  qed
  then have "distinct (map g_generation_index ?s)" by (auto simp: distinct_map)
  then have "sorted_wrt (<) (map g_generation_index ?s)" by (simp add: strict_sorted_iff)
  then have "sorted_wrt (\<lambda>g h. dge_generation_mt_index (entry_of db g) < dge_generation_mt_index (entry_of db h)) ?s"
    unfolding sorted_wrt_map
  proof (rule sorted_wrt_mono_rel [rotated])
    fix g h assume "g \<in> set ?s" "h \<in> set ?s" "g_generation_index g < g_generation_index h"
    then show "dge_generation_mt_index (entry_of db g) < dge_generation_mt_index (entry_of db h)"
      using ty [of g] ty [of h] unfolding word_less_nat_alt by linarith
  qed
  then show "sorted_wrt (<) (map dge_generation_mt_index (owned_entries dust_address end_index db))"
    by (simp add: owned_entries_def sorted_wrt_map)
  show "dge_generation_mt_index e \<le> end_index" if e: "e \<in> set (owned_entries dust_address end_index db)" for e
  proof -
    obtain g where g: "g \<in> set ?s" "e = entry_of db g" using e unfolding owned_entries_def by auto
    then have "g_generation_index g \<le> int (unat end_index)" by simp
    then show ?thesis using ty [OF g(1)] unfolding word_le_nat_alt g(2) by linarith
  qed
  show "length (owned_entries dust_address end_index db) \<le> length (tab_rows (dust_generation_infos db))"
    using length_filter_le [of _ "map snd (gen_rows db)"] by (simp add: owned_entries_def gen_rows_def del: filter_map)
qed

fun item_index :: "'u dust_generations_event \<Rightarrow> nat list" where
  "item_index (DustGenerationsItem i) = [unat (di_generation_mt_index i)]"
| "item_index _ = []"

text \<open>
  C30. The snapshot of the generation tree at a block is complete: the stream yields an item for each generation of the address
  up to that block, in the order of the tree, and the collapsed updates before the items and at the end cover exactly the other leaves: together
  every leaf of the tree once and in order. It does not fail and does not depend on blocks added meanwhile.
\<close>

theorem snapshot_covers_tree:
  assumes "collapses tree l" and "0 < lt_first_free tree l" and "unat (lt_first_free tree l) < 2 ^ 63"
    and grow: "growing (stored feat) (stored_later feat) (db0 # dbs)" and "0 < batch_size"
    and "length (tab_rows (dust_generation_infos db0)) \<le> length dbs"
    and "leaves_unique dust_address db0" and "list_all (created_beyond (lt_first_free tree l) db0) dbs"
  shows "\<exists>events. snapshot_stream hex_encode tree l version dust_address batch_size (db0 # dbs) = Some (events, None)
    \<and> concat (map event_leaves events) = [0..<unat (lt_first_free tree l)]
    \<and> concat (map item_index events) = map index_of (owned_entries dust_address (lt_first_free tree l - 1) db0)"
proof -
  let ?n = "lt_first_free tree l"
  define k where "k = ?n - 1"
  have k: "unat k = unat ?n - 1" "0 < unat ?n" using assms(2) by (simp_all add: k_def unat_minus_one unat_gt_0 word_gt_0)
  have last: "saturating_sub ?n 1 = k" using assms(2) by (auto simp: saturating_sub_def k_def)
  have kn: "k < ?n" using k by (simp add: word_less_nat_alt)
  let ?es = "owned_entries dust_address k db0"
  have st: "stored feat db0" using grow by simp
  have same: "owned_entries dust_address k db = ?es" if "db \<in> set (db0 # dbs)" for db
  proof (cases "db = db0")
    case False
    then have "stored_later feat db0 db" "created_beyond ?n db0 db" using that grow assms(8) by (auto simp: list_all_iff)
    then show ?thesis by (rule owned_entries_stay [OF st _ _ kn])
  qed simp
  note asc = owned_entries_ascend [OF st assms(7), of k]
  have k63: "unat k < 2 ^ 63 - 1" using assms(3) k by simp
  have str: "entries_stream (dust_entries_page dust_address k batch_size) k 0 (db0 # dbs) = Some (filter (\<lambda>x. 0 \<le> dge_generation_mt_index x) ?es, None)"
  proof (rule entries_stream_all [where batch_size = batch_size])
    show "dust_entries_page dust_address k batch_size start db = Inr (take batch_size (filter (\<lambda>x. start \<le> dge_generation_mt_index x) ?es))"
      if "db \<in> set (db0 # dbs)" "unat start < 2 ^ 63" for db start
      using entries_page_eq [OF growingD [OF grow that(1)] that(2), of k dust_address batch_size] k63 same [OF that(1)] by simp
    show "length (filter (\<lambda>x. 0 \<le> dge_generation_mt_index x) ?es) < length (db0 # dbs)" using asc(3) assms(6) k63 by simp
  qed (use asc(1,2) k63 assms(5) in simp_all)
  have bound: "0 \<le> dge_generation_mt_index e \<and> dge_generation_mt_index e < ?n" if "e \<in> set ?es" for e
    using asc(2) [OF _ that] k63 kn by simp
  have "sorted_wrt (<) (map dge_generation_mt_index ?es)" using asc(1) k63 by simp
  from snapshot_entries_leaves [OF assms(1) this bound assms(3), of version]
  obtain items c where it: "snapshot_entries (gap_update tree l version) 0 ?es = (items, Inr c)" "map fst items = ?es" "c \<le> ?n"
    "concat (map (\<lambda>(e, u). update_leaves u @ [index_of e]) items) = [0..<unat c]" by auto
  have "\<exists>u. final_update tree l version c k = Inr u \<and> update_leaves u = [unat c..<unat ?n]"
  proof (cases "k < c")
    case True
    then have "unat c = unat ?n" using it(3) k by (simp add: word_less_nat_alt word_le_nat_alt)
    then show ?thesis using True by (simp add: final_update_def update_leaves_def)
  next
    case False
    then have "c \<le> k" by simp
    from make_update_leaves [OF assms(1) this kn, of version] show ?thesis using False k by (auto simp: final_update_def server_error_def)
  qed
  then obtain u where u: "final_update tree l version c k = Inr u" "update_leaves u = [unat c..<unat ?n]" by blast
  let ?ev = "map (\<lambda>(e, u). DustGenerationsItem (dust_generations_item_of hex_encode e u)) items"
  have "snapshot_stream hex_encode tree l version dust_address batch_size (db0 # dbs) = Some (?ev @ [DustGenerationsProgress k u], None)"
    unfolding snapshot_stream_def Let_def last get_dust_generation_entries_def str using it(1) u(1) assms(2) by (auto simp: word_gt_0)
  moreover have "map event_leaves ?ev = map (\<lambda>(e, u). update_leaves u @ [index_of e]) items"
    by (auto simp: dust_generations_item_of_def)
  then have "concat (map event_leaves (?ev @ [DustGenerationsProgress k u])) = [0..<unat c] @ [unat c..<unat ?n]" using it(4) u(2) by (simp del: map_map)
  then have "concat (map event_leaves (?ev @ [DustGenerationsProgress k u])) = [0..<unat ?n]"
    using upt_add_eq_append [of 0 "unat c" "unat ?n - unat c"] it(3) by (simp add: word_le_nat_alt)
  moreover have "concat (map item_index ?ev) = map index_of (map fst items)"
    by (induction items) (auto simp: dust_generations_item_of_def)
  then have "concat (map item_index (?ev @ [DustGenerationsProgress k u])) = map index_of ?es" using it(2) by simp
  ultimately show ?thesis unfolding k_def by blast
qed

definition dust_sample_event :: "bytes \<Rightarrow> u64 \<Rightarrow> ledger_event" where
  "dust_sample_event owner i = dust_initial_utxo [5]
     \<lparr>qdo_initial_value = 3, qdo_owner = owner, qdo_nonce = [], qdo_seq = 0, qdo_ctime = 0, qdo_backing_night = [6], qdo_mt_index = i + 10\<rparr>
     \<lparr>dgi_night_utxo_hash = [ucast i], dgi_value = 40, dgi_owner = owner, dgi_nonce = [], dgi_ctime = 0, dgi_dtime = - 1\<rparr> i"

definition dust_sample_tx :: transaction where
  "dust_sample_tx = (case api_sample_tx 11 0 2 [] [] of
     Regular t \<Rightarrow> Regular (t\<lparr>rt_ledger_events := [dust_sample_event [1] 0, dust_sample_event [2] 1, dust_sample_event [1] 2]\<rparr>)
   | System t \<Rightarrow> System t)"

definition dust_sample_db :: chain_db where
  "dust_sample_db = snd (save_block Cloud (api_sample_block 1 0) [dust_sample_tx] [] [77] None empty_chain_db)"

lemma dust_sample_save:
  "\<exists>mx. save_block Cloud (api_sample_block 1 0) [dust_sample_tx] [] [77] None empty_chain_db = (Inr mx, dust_sample_db)
     \<and> tab_next (transactions dust_sample_db) = 2
     \<and> map (\<lambda>(i, g). (g_owner g, g_generation_index g)) (tab_rows (dust_generation_infos dust_sample_db)) = [([1], 0), ([2], 1), ([1], 2)]
     \<and> list_all (\<lambda>(i, g). g_value g = U128BeBytes 40 \<and> g_dtime g = None) (tab_rows (dust_generation_infos dust_sample_db))"
  by (simp add: dust_sample_db_def dust_sample_tx_def dust_sample_event_def api_sample_defs sample_defs Let_def as_i64_def dust_initial_utxo_def
      save_ledger_events_def ledger_event_row_of_def correlate_contract_action_ids_def correlate_contract_action_id_def
      save_contract_event_indexed_fields_def indexable_contract_fields_def save_dust_generation_info_def save_dust_generation_event_def
      dust_generation_row_of_def save_dust_nullifiers_def save_zswap_nullifiers_def Chain_Storage.filter_map_def)

lemma dust_sample_stored: "stored Cloud dust_sample_db"
proof -
  have "tx_fits dust_sample_tx"
    using api_sample_fits(3) by (simp add: dust_sample_tx_def dust_sample_event_def api_sample_tx_def event_fits_def dust_initial_utxo_def fits_def)
  then have "store_step Cloud empty_chain_db dust_sample_db"
    using dust_sample_save api_sample_fits(1) empty_above unfolding store_step_def by fastforce
  then show ?thesis unfolding stored_def by auto
qed

lemma dust_sample_rows:
  obtains i0 g0 i1 g1 i2 g2 where "tab_rows (dust_generation_infos dust_sample_db) = [(i0, g0), (i1, g1), (i2, g2)]"
    "g_owner g0 = [1]" "g_generation_index g0 = 0" "g_owner g1 = [2]" "g_generation_index g1 = 1" "g_owner g2 = [1]" "g_generation_index g2 = 2"
proof -
  have "map (\<lambda>(i, g). (g_owner g, g_generation_index g)) (tab_rows (dust_generation_infos dust_sample_db)) = [([1], 0), ([2], 1), ([1], 2)]"
    using dust_sample_save by blast
  then show thesis by (auto simp: map_eq_Cons_conv intro: that)
qed

definition snapshot_sample_tree :: "(unit, unit, u64 \<times> u64) ledger_tree" where
  "snapshot_sample_tree = \<lparr>lt_first_free = (\<lambda>_. 5), lt_collapse = (\<lambda>_ s e. Inr (s, e))\<rparr>"

theorem snapshot_covers_tree_witness:
  "\<exists>events. snapshot_stream (\<lambda>_. ''00'') snapshot_sample_tree () (V2_1 2001000) [1] 1 (replicate 4 dust_sample_db) = Some (events, None)
     \<and> concat (map event_leaves events) = [0, 1, 2, 3, 4] \<and> concat (map item_index events) = [0, 2]"
proof -
  let ?dbs = "replicate 3 dust_sample_db"
  obtain i0 g0 i1 g1 i2 g2 where r: "tab_rows (dust_generation_infos dust_sample_db) = [(i0, g0), (i1, g1), (i2, g2)]"
    "g_owner g0 = [1]" "g_generation_index g0 = 0" "g_owner g1 = [2]" "g_generation_index g1 = 1" "g_owner g2 = [1]" "g_generation_index g2 = 2"
    by (rule dust_sample_rows)
  have c: "collapses snapshot_sample_tree ()" by (simp add: collapses_def snapshot_sample_tree_def)
  have ff: "0 < lt_first_free snapshot_sample_tree ()" "unat (lt_first_free snapshot_sample_tree ()) < 2 ^ 63"
    by (simp_all add: snapshot_sample_tree_def)
  have grow: "growing (stored Cloud) (stored_later Cloud) (dust_sample_db # ?dbs)" using dust_sample_stored by (simp add: numeral_eq_Suc)
  have side: "0 < (1 :: nat)" "length (tab_rows (dust_generation_infos dust_sample_db)) \<le> length ?dbs" using r by simp_all
  have uniq: "leaves_unique [1] dust_sample_db" by (simp add: leaves_unique_def gen_rows_def r)
  have beyond: "list_all (created_beyond (lt_first_free snapshot_sample_tree ()) dust_sample_db) ?dbs" by (simp add: created_beyond_def numeral_eq_Suc)
  have owned: "map index_of (owned_entries [1] (lt_first_free snapshot_sample_tree () - 1) dust_sample_db) = [0, 2]"
    by (simp add: snapshot_sample_tree_def owned_entries_def gen_rows_def r entry_of_def)
  have "\<exists>events. snapshot_stream (\<lambda>_. ''00'') snapshot_sample_tree () (V2_1 2001000) [1] 1 (dust_sample_db # ?dbs) = Some (events, None)
    \<and> concat (map event_leaves events) = [0..<unat (lt_first_free snapshot_sample_tree ())]
    \<and> concat (map item_index events) = map index_of (owned_entries [1] (lt_first_free snapshot_sample_tree () - 1) dust_sample_db)"
    by (rule snapshot_covers_tree [OF c ff grow side uniq beyond])
  moreover have "[0..<unat (lt_first_free snapshot_sample_tree ())] = [0, 1, 2, 3, 4]" by (simp add: snapshot_sample_tree_def upt_rec)
  moreover have "replicate 4 dust_sample_db = dust_sample_db # ?dbs" by (simp add: numeral_eq_Suc)
  ultimately show ?thesis unfolding owned by simp
qed

definition sample_dust_parameters :: dust_parameters where
  "sample_dust_parameters = \<lparr>dp_generation_decay_rate = 8, dp_night_dust_ratio = 5\<rparr>"

definition registered_db :: chain_db where
  "registered_db = dust_sample_db\<lparr>cnight_registrations := \<lparr>tab_next = 2, tab_rows = [(1, \<lparr>c_cardano_stake_key = [9], c_dust_address = [1], c_valid = True,
     c_registered_at = 0, c_removed_at = None, c_block_id = 1, c_utxo_tx_hash = None, c_utxo_output_index = None\<rparr>)]\<rparr>\<rparr>"

lemma registered_values: "generation_values [1] registered_db = [40, 40]"
proof -
  obtain i0 g0 i1 g1 i2 g2 where r: "tab_rows (dust_generation_infos dust_sample_db) = [(i0, g0), (i1, g1), (i2, g2)]"
    "g_owner g0 = [1]" "g_generation_index g0 = 0" "g_owner g1 = [2]" "g_generation_index g1 = 1" "g_owner g2 = [1]" "g_generation_index g2 = 2"
    by (rule dust_sample_rows)
  have "list_all (\<lambda>(i, g). g_value g = U128BeBytes 40 \<and> g_dtime g = None) (tab_rows (dust_generation_infos dust_sample_db))"
    using dust_sample_save by blast
  then show ?thesis
    by (simp add: generation_values_def active_generations_def registered_db_def select_where_def r u128_from_be_bytes_inverse)
qed

lemma registered_rows:
  "list_all (\<lambda>g. g_value g = U128BeBytes 40) (active_generations [1] registered_db)"
  using dust_sample_save by (auto simp: active_generations_def registered_db_def select_where_def list_all_iff)

theorem dust_generations_sums_witness:
  "\<exists>out. get_dust_generations sample_dust_parameters registered_db (\<lambda>_. registered_db) (\<lambda>_ _. registered_db) [[9]] = Inr out
     \<and> unat (dr_night_balance (snd (out ! 0) ! 0)) = 80 \<and> unat (dr_max_capacity (snd (out ! 0) ! 0)) = 400"
proof -
  let ?get = "get_dust_generations sample_dust_parameters registered_db (\<lambda>_. registered_db) (\<lambda>_ _. registered_db) [[9]]"
  obtain row where row: "active_registrations [9] registered_db = [row]" "c_dust_address row = [1]"
    by (simp add: active_registrations_def registered_db_def select_where_def order_by_desc_def)
  have "is_ok (try_map (\<lambda>g. map_ok (\<lambda>v. (v, as_u64 (g_ctime g))) (col_u128 (g_value g))) (active_generations [1] registered_db))"
    using registered_rows by (intro try_map_ok) (auto simp: list_all_iff col_u128_def U128BeBytes_length is_ok_iff)
  then obtain gs where "try_map (\<lambda>g. map_ok (\<lambda>v. (v, as_u64 (g_ctime g))) (col_u128 (g_value g))) (active_generations [1] registered_db) = Inr gs"
    by (auto simp: is_ok_iff)
  then obtain out where out: "?get = Inr out"
    by (simp add: get_dust_generations_def row registration_data_def Let_def)
  have i: "0 < length [[9 :: u8]]" by simp
  have j: "0 < length (active_registrations ([[9]] ! 0) registered_db)" using row by simp
  from dust_generations_sums [OF out i j] show ?thesis
    using out row by (simp add: Let_def registered_values sample_dust_parameters_def cap128_def)
qed

text \<open>
  An empty tree: the entries are asked for up to index zero, so the first generation of the address is yielded when it was created
  after the snapshot, though the tree at the snapshot has no leaf.
\<close>

lemma empty_tree_yields_entry:
  assumes "lt_first_free tree l = 0" and "stored feat db" and "owned_entries dust_address 0 db = [e]" and "dge_generation_mt_index e = 0"
  shows "snapshot_stream hex_encode tree l version dust_address 1 [db]
    = Some ([DustGenerationsItem (dust_generations_item_of hex_encode e None), DustGenerationsProgress 0 None], None)"
  using assms entries_page_eq [OF assms(2), of 0 0 dust_address 1]
  by (simp add: snapshot_stream_def Let_def get_dust_generation_entries_def saturating_sub_def gap_update_def)

end
