(* ===== verification/Node_Access.thy ===== *)
theory Node_Access
  imports Chain_Domain Ledger_Transaction
begin

text \<open>
  Access to the node, \<^verbatim>\<open>chain-indexer/src/infra/subxt_node.rs\<close> with \<^verbatim>\<open>header.rs\<close> and \<^verbatim>\<open>runtimes\<close>: the stream of
  finalized blocks, which first catches up from the last stored block, and the construction of a block from what the node
  says of it.

  What the node answers is data: a block (\<open>chain_block\<close>) carries the answers to the calls made at it, and a subscription is
  the list of items it delivers. The decoding of extrinsics and events with types generated from the metadata is the
  parameter \<open>runtime\<close>; calls and events have the constructors that the code tells apart. The ledger crates are the parameter
  \<open>node_ledger\<close>. Errors of these parts have the type \<open>'ne\<close>.
\<close>

section \<open>Headers\<close>

datatype digest_item = PreRuntime bytes bytes | ConsensusDigest bytes bytes | OtherDigest

record header =
  hd_parent_hash :: bytes
  hd_logs :: "digest_item list"

text \<open>The bytes of \<^verbatim>\<open>MNSV\<close>, \<^verbatim>\<open>aura\<close> and \<^verbatim>\<open>BABE\<close>.\<close>

definition VERSION_ID :: bytes where
  "VERSION_ID = [77, 78, 83, 86]"

definition AURA_ENGINE_ID :: bytes where
  "AURA_ENGINE_ID = [97, 117, 114, 97]"

definition BABE_ENGINE_ID :: bytes where
  "BABE_ENGINE_ID = [66, 65, 66, 69]"

text \<open>SCALE decoding of a fixed-width integer: little-endian, the rest of the input is left.\<close>

definition scale_decode :: "nat \<Rightarrow> bytes \<Rightarrow> nat option" where
  "scale_decode n bs = (if length bs < n then None else Some (le_to_nat (take n bs)))"

definition decode_u32 :: "bytes \<Rightarrow> u32 option" where
  "decode_u32 bs = map_option word_of_nat (scale_decode 4 bs)"

fun header_protocol_version :: "digest_item list \<Rightarrow> protocol_version_error + protocol_version option" where
  "header_protocol_version [] = Inr None"
| "header_protocol_version (ConsensusDigest engine data # logs) =
     (if engine = VERSION_ID then map_ok Some (try_from_bytes decode_u32 data) else header_protocol_version logs)"
| "header_protocol_version (_ # logs) = header_protocol_version logs"

section \<open>What the node says of a block\<close>

datatype runtime_call =
    TimestampSet u64
  | SendMnTransaction bytes
  | SendMnSystemTransaction bytes
  | OtherCall

datatype c2m_bridge_event =
    C2MUserTransfer bytes u64 bytes bytes
  | C2MReserveTransfer bytes u64 bytes
  | C2MInvalidTransfer bytes u64 bytes
  | C2MUnapprovedTransfer bytes u64 bytes bytes
  | C2MSubminimalFlushTransfer u64 u32 bytes

text \<open>The events of the pallet \<^verbatim>\<open>cNightObservation\<close> that matter carry the data of a dust registration event.\<close>

datatype runtime_event =
    NewSession
  | SystemTransactionApplied bytes
  | CNightObservation dust_registration_event
  | C2MBridge c2m_bridge_event
  | OtherEvent

record mapping_entry =
  me_cardano_reward_address :: bytes
  me_dust_public_key :: bytes
  me_utxo_tx_hash :: bytes
  me_utxo_index :: u32

text \<open>A runtime API may be absent from the metadata a client is bound to (\<^verbatim>\<open>RuntimeApiError::IncompatibleCodegen\<close>).\<close>

datatype 'ne api_answer = IncompatibleCodegen 'ne | Answer "'ne + bytes"

record 'ne chain_block =
  kb_hash :: bytes
  kb_number :: u64
  kb_header :: "'ne + header"
  kb_spec_version :: u32
  kb_has_consensus_engine_api :: bool
  kb_extrinsics :: "'ne + bytes list"
  kb_legacy_body :: "'ne + bytes list option"
  kb_events :: "'ne + bytes"
  kb_authorities :: "node_version \<Rightarrow> 'ne + 'ne + bytes list"
  kb_zswap_state_root :: "node_version \<Rightarrow> 'ne api_answer"
  kb_ledger_state_root :: "node_version \<Rightarrow> 'ne + bytes"
  kb_contract_state :: "node_version \<Rightarrow> bytes \<Rightarrow> 'ne + bytes"
  kb_d_parameter :: "node_version \<Rightarrow> 'ne + d_parameter"
  kb_terms_and_conditions :: "node_version \<Rightarrow> 'ne + terms_and_conditions option"
  kb_mappings :: "'ne + ('ne + mapping_entry list) list"
  kb_mapping :: "'ne + (('ne + bytes \<times> bytes \<times> u32) \<times> ('ne + bytes)) list"

text \<open>
  The decoders for a node version, bound to the metadata of a spec version. A decoder of events gives an
  item for every event. Getting an item and decoding it fail with different errors, in that order.
\<close>

record 'ne runtime =
  rt_decode_call :: "node_version \<Rightarrow> u32 \<Rightarrow> bytes \<Rightarrow> 'ne + 'ne + runtime_call"
  rt_decode_events :: "node_version \<Rightarrow> u32 \<Rightarrow> bytes \<Rightarrow> ('ne + 'ne + runtime_event) list"

record ('ct, 'a, 'sys, 'r, 'ne) node_ledger =
  nl_deserialize_v8 :: "bytes \<Rightarrow> 'ne + ('ct, 'a) ledger_tx"
  nl_deserialize_v9 :: "bytes \<Rightarrow> 'ne + ('ct, 'a) ledger_tx"
  nl_hash :: "('ct, 'a) versioned_tx \<Rightarrow> bytes"
  nl_identifiers :: "('ct, 'a) versioned_tx \<Rightarrow> 'ne + bytes list"
  nl_address_v8 :: "'a \<Rightarrow> 'ne + bytes"
  nl_address_v9 :: "'a \<Rightarrow> 'ne + bytes"
  nl_deserialize_system :: "ledger_version \<Rightarrow> bytes \<Rightarrow> 'ne + 'sys"
  nl_system_hash :: "'sys \<Rightarrow> bytes"
  nl_deserialize_root :: "ledger_version \<Rightarrow> bytes \<Rightarrow> 'ne + 'r"

datatype 'ne node_error =
    SubscribeFinalizedBlocks 'ne
  | ReceiveBlock 'ne
  | GetOnlineClientAt bytes 'ne
  | GetOnlineClientAtHeight u64 'ne
  | ParentHashMismatch u64 bytes bytes
  | FetchExtrinsics 'ne
  | FetchBlockBody 'ne
  | BlockBodyNotFound
  | FetchEvents 'ne
  | GetBlockHeader 'ne
  | MissingProtocolVersionHeader
  | GetNextExtrinsic 'ne
  | DecodeExtrinsicAsCall 'ne
  | GetNextEvent 'ne
  | DecodeEvent 'ne
  | DecodeBridgeRecipient bridge_recipient_error
  | FetchAuthorities 'ne
  | DecodeAuthorities 'ne
  | InvalidBabePreDigestTag u8
  | FetchGenesisCnightRegistrations 'ne
  | DecodeGenesisCnightRegistrationKey 'ne
  | DecodeGenesisCnightRegistrations 'ne
  | GetZswapStateRoot 'ne
  | GetDParameter 'ne
  | GetTermsAndConditions 'ne
  | GetLedgerStateRoot 'ne
  | FetchSystemProperties 'ne
  | GenesisLedgerStateNotFound
  | HexDecodeGenesisLedgerState
  | ProtocolVersionError protocol_version_error
  | ScaleDecodeError
  | LedgerDeserialize 'ne
  | LedgerFailed "'ne ledger_error"

definition got_and_decoded :: "('ne \<Rightarrow> 'e) \<Rightarrow> ('ne \<Rightarrow> 'e) \<Rightarrow> 'ne + 'ne + 'x \<Rightarrow> 'e + 'x" where
  "got_and_decoded get_error decode_error item = and_then (map_err get_error item) (map_err decode_error)"

section \<open>The author of a block\<close>

definition decode_slot :: "bytes \<Rightarrow> 'ne node_error + u64" where
  "decode_slot bs = (case scale_decode 8 bs of None \<Rightarrow> Inl ScaleDecodeError | Some n \<Rightarrow> Inr (word_of_nat n))"

definition decode_babe_authority_index :: "bytes \<Rightarrow> 'ne node_error + u32" where
  "decode_babe_authority_index pre_digest =
     (case pre_digest of
        [] \<Rightarrow> Inl ScaleDecodeError
      | tag # rest \<Rightarrow>
          if \<not> (1 \<le> tag \<and> tag \<le> 3) then Inl (InvalidBabePreDigestTag tag)
          else (case decode_u32 rest of None \<Rightarrow> Inl ScaleDecodeError | Some index \<Rightarrow> Inr index))"

definition babe_author :: "bytes \<Rightarrow> bytes list \<Rightarrow> 'ne node_error + bytes option" where
  "babe_author pre_digest authorities =
     map_ok (\<lambda>index. index_get authorities (unat index)) (decode_babe_authority_index pre_digest)"

definition author_of_digest ::
  "bytes list \<Rightarrow> bool \<Rightarrow> digest_item \<Rightarrow> 'ne node_error + bytes option" where
  "author_of_digest authorities babe_supported log =
     (case log of
        PreRuntime engine pre_digest \<Rightarrow>
          if engine = AURA_ENGINE_ID then
            map_ok (\<lambda>slot. index_get authorities (unat (slot mod word_of_nat (length authorities)))) (decode_slot pre_digest)
          else if engine = BABE_ENGINE_ID \<and> babe_supported then babe_author pre_digest authorities
          else Inr None
      | _ \<Rightarrow> Inr None)"

fun first_author :: "bytes list \<Rightarrow> bool \<Rightarrow> digest_item list \<Rightarrow> 'ne node_error + bytes option" where
  "first_author authorities babe_supported [] = Inr None"
| "first_author authorities babe_supported (log # logs) =
     and_then (author_of_digest authorities babe_supported log) (\<lambda>author.
       case author of None \<Rightarrow> first_author authorities babe_supported logs | Some a \<Rightarrow> Inr (Some a))"

definition author_from_digest_logs :: "digest_item list \<Rightarrow> bytes list \<Rightarrow> bool \<Rightarrow> 'ne node_error + bytes option" where
  "author_from_digest_logs logs authorities babe_supported =
     (if authorities = [] then Inr None else first_author authorities babe_supported logs)"

section \<open>The details of a block\<close>

record block_details =
  bd_timestamp :: "u64 option"
  bd_transactions :: "(bool \<times> bytes) list"
  bd_dust_registration_events :: "dust_registration_event list"
  bd_bridge_events :: "bridge_event list"

text \<open>
  A transaction is its bytes and whether it is a system transaction. The first extrinsic or event that cannot be decoded
  fails the block.
\<close>

definition timestamp_of :: "runtime_call list \<Rightarrow> u64 option" where
  "timestamp_of calls = (case filter (\<lambda>c. \<exists>now. c = TimestampSet now) calls of
     TimestampSet now # _ \<Rightarrow> Some now | _ \<Rightarrow> None)"

fun transactions_of :: "runtime_call list \<Rightarrow> (bool \<times> bytes) list" where
  "transactions_of [] = []"
| "transactions_of (SendMnTransaction tx # calls) = (False, tx) # transactions_of calls"
| "transactions_of (SendMnSystemTransaction tx # calls) = (True, tx) # transactions_of calls"
| "transactions_of (_ # calls) = transactions_of calls"

definition c2m_bridge_event_from :: "c2m_bridge_event \<Rightarrow> 'ne node_error + bridge_event" where
  "c2m_bridge_event_from e =
     (case e of
        C2MUserTransfer mc_tx_hash amount recipient midnight_tx_hash \<Rightarrow>
          map_ok (\<lambda>r. UserTransfer mc_tx_hash amount r midnight_tx_hash) (map_err DecodeBridgeRecipient (bridge_recipient_new recipient))
      | C2MReserveTransfer mc_tx_hash amount midnight_tx_hash \<Rightarrow> Inr (ReserveTransfer mc_tx_hash amount midnight_tx_hash)
      | C2MInvalidTransfer mc_tx_hash amount midnight_tx_hash \<Rightarrow> Inr (InvalidTransfer mc_tx_hash amount midnight_tx_hash)
      | C2MUnapprovedTransfer mc_tx_hash amount recipient midnight_tx_hash \<Rightarrow>
          map_ok (\<lambda>r. UnapprovedTransfer mc_tx_hash amount r midnight_tx_hash) (map_err DecodeBridgeRecipient (bridge_recipient_new recipient))
      | C2MSubminimalFlushTransfer amount count midnight_tx_hash \<Rightarrow> Inr (SubminimalFlushTransfer amount count midnight_tx_hash))"

record event_effects =
  ee_authorities :: "bytes list option"
  ee_system_transactions :: "bytes list"
  ee_dust_registration_events :: "dust_registration_event list"
  ee_bridge_events :: "bridge_event list"

definition handle_event :: "bool \<Rightarrow> 'ne + 'ne + runtime_event \<Rightarrow> event_effects \<Rightarrow> 'ne node_error + event_effects" where
  "handle_event has_bridge item eff =
     and_then (got_and_decoded GetNextEvent DecodeEvent item) (\<lambda>event.
       case event of
         NewSession \<Rightarrow> Inr (eff\<lparr>ee_authorities := None\<rparr>)
       | SystemTransactionApplied tx \<Rightarrow> Inr (eff\<lparr>ee_system_transactions := ee_system_transactions eff @ [tx]\<rparr>)
       | CNightObservation e \<Rightarrow> Inr (eff\<lparr>ee_dust_registration_events := ee_dust_registration_events eff @ [e]\<rparr>)
       | C2MBridge e \<Rightarrow>
           if has_bridge
           then map_ok (\<lambda>b. eff\<lparr>ee_bridge_events := ee_bridge_events eff @ [b]\<rparr>) (c2m_bridge_event_from e)
           else Inr eff
       | OtherEvent \<Rightarrow> Inr eff)"

text \<open>
  At a block that enacts a runtime upgrade the content is decoded with the metadata of the parent, and the bodies of the
  extrinsics come from the legacy call: \<open>content\<close> is then the parent's spec version with these bodies.
\<close>

definition runtime_block_details ::
  "bool \<Rightarrow> 'ne runtime \<Rightarrow> node_version \<Rightarrow> bytes list option \<Rightarrow> 'ne chain_block \<Rightarrow> (u32 \<times> bytes list) option
     \<Rightarrow> 'ne node_error + bytes list option \<times> block_details" where
  "runtime_block_details has_bridge rt version authorities b content =
     (let spec = (case content of None \<Rightarrow> kb_spec_version b | Some (spec, _) \<Rightarrow> spec) in
      and_then (case content of None \<Rightarrow> map_err FetchExtrinsics (kb_extrinsics b) | Some (_, bodies) \<Rightarrow> Inr bodies) (\<lambda>extrinsics.
      and_then (try_map (\<lambda>x. got_and_decoded GetNextExtrinsic DecodeExtrinsicAsCall (rt_decode_call rt version spec x)) extrinsics) (\<lambda>calls.
      and_then (map_err FetchEvents (kb_events b)) (\<lambda>raw.
      map_ok (\<lambda>eff. (ee_authorities eff,
          \<lparr>bd_timestamp = timestamp_of calls,
           bd_transactions = map (Pair True) (ee_system_transactions eff) @ transactions_of calls,
           bd_dust_registration_events = ee_dust_registration_events eff,
           bd_bridge_events = ee_bridge_events eff\<rparr>))
        (try_fold (\<lambda>eff event. handle_event has_bridge event eff)
          \<lparr>ee_authorities = authorities, ee_system_transactions = [], ee_dust_registration_events = [], ee_bridge_events = []\<rparr>
          (rt_decode_events rt version spec raw))))))"

text \<open>The runtimes 0.22 and 1.0 have no bridge pallet.\<close>

definition block_details_v0_22 ::
  "'ne runtime \<Rightarrow> bytes list option \<Rightarrow> 'ne chain_block \<Rightarrow> (u32 \<times> bytes list) option \<Rightarrow> 'ne node_error + bytes list option \<times> block_details" where
  "block_details_v0_22 rt = runtime_block_details False rt NV0_22"

definition block_details_v1_0 ::
  "'ne runtime \<Rightarrow> bytes list option \<Rightarrow> 'ne chain_block \<Rightarrow> (u32 \<times> bytes list) option \<Rightarrow> 'ne node_error + bytes list option \<times> block_details" where
  "block_details_v1_0 rt = runtime_block_details False rt NV1_0"

definition block_details_v2_0 ::
  "'ne runtime \<Rightarrow> bytes list option \<Rightarrow> 'ne chain_block \<Rightarrow> (u32 \<times> bytes list) option \<Rightarrow> 'ne node_error + bytes list option \<times> block_details" where
  "block_details_v2_0 rt = runtime_block_details True rt NV2_0"

definition block_details_v2_1 ::
  "'ne runtime \<Rightarrow> bytes list option \<Rightarrow> 'ne chain_block \<Rightarrow> (u32 \<times> bytes list) option \<Rightarrow> 'ne node_error + bytes list option \<times> block_details" where
  "block_details_v2_1 rt = runtime_block_details True rt NV2_1"

definition make_block_details ::
  "'ne runtime \<Rightarrow> node_version \<Rightarrow> bytes list option \<Rightarrow> 'ne chain_block \<Rightarrow> (u32 \<times> bytes list) option
     \<Rightarrow> 'ne node_error + bytes list option \<times> block_details" where
  "make_block_details rt version =
     (case version of
        NV0_22 \<Rightarrow> block_details_v0_22 rt
      | NV1_0 \<Rightarrow> block_details_v1_0 rt
      | NV2_0 \<Rightarrow> block_details_v2_0 rt
      | NV2_1 \<Rightarrow> block_details_v2_1 rt)"

subsection \<open>Registrations at genesis\<close>

definition registration_events :: "mapping_entry \<Rightarrow> dust_registration_event list" where
  "registration_events m =
     [Registration (me_cardano_reward_address m) (me_dust_public_key m),
      MappingAdded (me_cardano_reward_address m) (me_dust_public_key m) (me_utxo_tx_hash m) (me_utxo_index m)]"

text \<open>Before ledger 9 the storage maps an address to a list of entries, of which the first is taken.\<close>

definition genesis_registrations_v1 :: "'ne chain_block \<Rightarrow> 'ne node_error + dust_registration_event list" where
  "genesis_registrations_v1 b =
     and_then (map_err FetchGenesisCnightRegistrations (kb_mappings b)) (\<lambda>mappings.
     map_ok (\<lambda>ms. concat (map (\<lambda>m. case m of [] \<Rightarrow> [] | first # _ \<Rightarrow> registration_events first) ms))
       (try_map (map_err DecodeGenesisCnightRegistrations) mappings))"

text \<open>Since ledger 9 the address and the UTXO are the keys of an entry and the dust public key is its value.\<close>

definition genesis_registrations_v2 :: "'ne chain_block \<Rightarrow> 'ne node_error + dust_registration_event list" where
  "genesis_registrations_v2 b =
     and_then (map_err FetchGenesisCnightRegistrations (kb_mapping b)) (\<lambda>entries.
     map_ok (\<lambda>ms. concat (map registration_events ms))
       (try_map (\<lambda>(key, val).
          and_then (map_err DecodeGenesisCnightRegistrationKey key) (\<lambda>(address, tx_hash, index).
          map_ok (\<lambda>dust_public_key. \<lparr>me_cardano_reward_address = address, me_dust_public_key = dust_public_key,
              me_utxo_tx_hash = tx_hash, me_utxo_index = index\<rparr>)
            (map_err DecodeGenesisCnightRegistrations val))) entries))"

definition fetch_genesis_cnight_registrations ::
  "node_version \<Rightarrow> 'ne chain_block \<Rightarrow> 'ne node_error + dust_registration_event list" where
  "fetch_genesis_cnight_registrations version =
     (case version of
        NV0_22 \<Rightarrow> genesis_registrations_v1
      | NV1_0 \<Rightarrow> genesis_registrations_v1
      | NV2_0 \<Rightarrow> genesis_registrations_v2
      | NV2_1 \<Rightarrow> genesis_registrations_v2)"

section \<open>Making a block\<close>

text \<open>
  The node's answers to lookups of blocks; \<open>nd_parent_at\<close> answers the calls of the walk back along parents, the others those
  made for a block that is to be yielded.
\<close>

record 'ne node =
  nd_at_hash :: "bytes \<Rightarrow> 'ne + 'ne chain_block"
  nd_at_height :: "u64 \<Rightarrow> 'ne + 'ne chain_block"
  nd_parent_at :: "bytes \<Rightarrow> 'ne + 'ne chain_block"
  nd_genesis_hash :: bytes

definition block_at :: "'ne node \<Rightarrow> bytes \<Rightarrow> 'ne node_error + 'ne chain_block" where
  "block_at nd hash = map_err (GetOnlineClientAt hash) (nd_at_hash nd hash)"

definition block_at_height :: "'ne node \<Rightarrow> u64 \<Rightarrow> 'ne node_error + 'ne chain_block" where
  "block_at_height nd height = map_err (GetOnlineClientAtHeight height) (nd_at_height nd height)"

definition block_header :: "'ne chain_block \<Rightarrow> 'ne node_error + header" where
  "block_header b = map_err GetBlockHeader (kb_header b)"

text \<open>The root is asked for at the parent when the runtime API is absent from the metadata of the block.\<close>

definition get_zswap_merkle_tree_root :: "'ne node \<Rightarrow> node_version \<Rightarrow> 'ne chain_block \<Rightarrow> 'ne node_error + bytes" where
  "get_zswap_merkle_tree_root nd version b =
     (case kb_zswap_state_root b version of
        Answer r \<Rightarrow> map_err GetZswapStateRoot r
      | IncompatibleCodegen _ \<Rightarrow>
          and_then (block_header b) (\<lambda>h.
          and_then (block_at nd (hd_parent_hash h)) (\<lambda>p.
            case kb_zswap_state_root p version of
              Answer r \<Rightarrow> map_err GetZswapStateRoot r
            | IncompatibleCodegen e \<Rightarrow> Inl (GetZswapStateRoot e))))"

subsection \<open>Transactions\<close>

definition make_regular_transaction ::
  "('ct, 'a, 'sys, 'r, 'ne) node_ledger \<Rightarrow> bytes \<Rightarrow> protocol_version \<Rightarrow> node_version \<Rightarrow> 'ne chain_block \<Rightarrow> 'ne node_error + node_transaction" where
  "make_regular_transaction nl tx version state_node_version b =
     and_then (map_err LedgerDeserialize (deserialize (nl_deserialize_v8 nl) (nl_deserialize_v9 nl) tx (pv_ledger_version version))) (\<lambda>t.
     and_then (map_err LedgerDeserialize (nl_identifiers nl t)) (\<lambda>identifiers.
     map_ok (\<lambda>actions. NodeRegular \<lparr>nr_hash = nl_hash nl t, nr_protocol_version = version, nr_raw = tx, nr_identifiers = identifiers,
         nr_contract_actions = map (\<lambda>a. contract_action_from (cad_address a) (cad_state a) (cad_attributes a)) actions\<rparr>)
       (map_err LedgerFailed (contract_actions_of (nl_address_v8 nl) (nl_address_v9 nl) (kb_contract_state b state_node_version) t))))"

definition make_system_transaction ::
  "('ct, 'a, 'sys, 'r, 'ne) node_ledger \<Rightarrow> bytes \<Rightarrow> protocol_version \<Rightarrow> 'ne node_error + node_transaction" where
  "make_system_transaction nl tx version =
     map_ok (\<lambda>t. NodeSystem \<lparr>ns_hash = nl_system_hash nl t, ns_protocol_version = version, ns_raw = tx\<rparr>)
       (map_err LedgerDeserialize (nl_deserialize_system nl (pv_ledger_version version) tx))"

definition make_transaction ::
  "('ct, 'a, 'sys, 'r, 'ne) node_ledger \<Rightarrow> protocol_version \<Rightarrow> node_version \<Rightarrow> 'ne chain_block \<Rightarrow> bool \<times> bytes \<Rightarrow> 'ne node_error + node_transaction" where
  "make_transaction nl version state_node_version b = (\<lambda>(is_system, tx).
     if is_system then make_system_transaction nl tx version else make_regular_transaction nl tx version state_node_version b)"

subsection \<open>The block\<close>

text \<open>
  Two runtimes are in play: that of the content, which built the block, and that of the state, which the block may have
  enacted.
\<close>

definition content_source ::
  "'ne node \<Rightarrow> node_version \<Rightarrow> node_version \<Rightarrow> header \<Rightarrow> 'ne chain_block \<Rightarrow> 'ne node_error + (u32 \<times> bytes list) option" where
  "content_source nd content_node_version state_node_version h b =
     (if content_node_version = state_node_version then Inr None
      else
        and_then (block_at nd (hd_parent_hash h)) (\<lambda>parent.
        and_then (map_err FetchBlockBody (kb_legacy_body b)) (\<lambda>body.
          case body of
            None \<Rightarrow> Inl BlockBodyNotFound
          | Some bodies \<Rightarrow> Inr (Some (kb_spec_version parent, bodies)))))"

definition cached_authorities :: "node_version \<Rightarrow> 'ne chain_block \<Rightarrow> bytes list option \<Rightarrow> 'ne node_error + bytes list" where
  "cached_authorities state_node_version b authorities =
     (case authorities of Some a \<Rightarrow> Inr a | None \<Rightarrow> got_and_decoded FetchAuthorities DecodeAuthorities (kb_authorities b state_node_version))"

text \<open>What is added at genesis, where no events are emitted: the registrations, and the root of the ledger state.\<close>

definition genesis_details ::
  "node_version \<Rightarrow> 'ne chain_block \<Rightarrow> block_details \<Rightarrow> 'ne node_error + block_details \<times> bytes option" where
  "genesis_details state_node_version b details =
     (if kb_number b = 0 then
        and_then (fetch_genesis_cnight_registrations state_node_version b) (\<lambda>registrations.
        map_ok (\<lambda>root. (details\<lparr>bd_dust_registration_events := bd_dust_registration_events details @ registrations\<rparr>, Some root))
          (map_err GetLedgerStateRoot (kb_ledger_state_root b state_node_version)))
      else Inr (details, None))"

definition make_block ::
  "'ne runtime \<Rightarrow> ('ct, 'a, 'sys, 'r, 'ne) node_ledger \<Rightarrow> 'ne node \<Rightarrow> bytes list option \<Rightarrow> 'ne chain_block
     \<Rightarrow> 'ne node_error + bytes list option \<times> 'r node_block" where
  "make_block rt nl nd authorities b =
     and_then (block_header b) (\<lambda>h.
     and_then (map_err ProtocolVersionError (header_protocol_version (hd_logs h))) (\<lambda>found.
     case found of None \<Rightarrow> Inl MissingProtocolVersionHeader | Some version \<Rightarrow>
     and_then (map_err ProtocolVersionError (try_from_u32 (kb_spec_version b))) (\<lambda>state_version.
     let content_node_version = pv_node_version version; state_node_version = pv_node_version state_version in
     and_then (cached_authorities state_node_version b authorities) (\<lambda>auths.
     and_then (author_from_digest_logs (hd_logs h) auths (kb_has_consensus_engine_api b)) (\<lambda>author.
     and_then (get_zswap_merkle_tree_root nd state_node_version b) (\<lambda>raw_root.
     and_then (map_err LedgerDeserialize (nl_deserialize_root nl (pv_ledger_version version) raw_root)) (\<lambda>root.
     and_then (content_source nd content_node_version state_node_version h b) (\<lambda>content.
     and_then (make_block_details rt content_node_version (Some auths) b content) (\<lambda>(authorities', details).
     and_then (genesis_details state_node_version b details) (\<lambda>(details, ledger_state_root).
     map_ok (\<lambda>transactions. (authorities',
         \<lparr>nb_hash = kb_hash b, nb_height = kb_number b, nb_protocol_version = version, nb_parent_hash = hd_parent_hash h,
          nb_author = author, nb_timestamp = (case bd_timestamp details of None \<Rightarrow> 0 | Some t \<Rightarrow> t),
          nb_zswap_merkle_tree_root = root, nb_ledger_state_root = ledger_state_root, nb_transactions = transactions,
          nb_dust_registration_events = bd_dust_registration_events details, nb_bridge_events = bd_bridge_events details\<rparr>))
       (try_map (make_transaction nl version state_node_version b) (bd_transactions details))))))))))))"

section \<open>The stream of finalized blocks\<close>

text \<open>
  What a subscription delivers: blocks, disconnections that subxt recovers from, and other errors. Afterwards it has
  ended, or it stays silent for longer than the recovery timeout.
\<close>

record received_block =
  rb_hash :: bytes
  rb_number :: u64
  rb_parent_hash :: bytes

datatype 'ne sub_item = Received received_block | DisconnectedWillReconnect | SubError 'ne

datatype sub_end = Ended | Stuck

type_synonym 'ne finalized_sub = "'ne + 'ne sub_item list \<times> sub_end"

text \<open>The order of \<^verbatim>\<open>Option<u64>\<close> has \<^verbatim>\<open>None\<close> below every \<^verbatim>\<open>Some\<close>.\<close>

definition is_duplicate :: "u64 \<Rightarrow> u64 option \<Rightarrow> bool" where
  "is_duplicate height last_height \<longleftrightarrow> (case last_height of None \<Rightarrow> False | Some l \<Rightarrow> height \<le> l)"

fun subscribe_finalized_blocks :: "u64 option \<Rightarrow> 'ne sub_item list \<Rightarrow> ('ne node_error + received_block) list" where
  "subscribe_finalized_blocks last_height [] = []"
| "subscribe_finalized_blocks last_height (Received b # items) =
     (if is_duplicate (rb_number b) last_height then subscribe_finalized_blocks last_height items
      else Inr b # subscribe_finalized_blocks (Some (rb_number b)) items)"
| "subscribe_finalized_blocks last_height (DisconnectedWillReconnect # items) = subscribe_finalized_blocks last_height items"
| "subscribe_finalized_blocks last_height (SubError e # items) = Inl (ReceiveBlock e) # subscribe_finalized_blocks last_height items"

definition highest_blocks :: "'ne finalized_sub \<Rightarrow> 'ne node_error + ('ne node_error + block_ref) list" where
  "highest_blocks sub =
     map_ok (\<lambda>(items, _). map (map_ok (\<lambda>b. \<lparr>br_hash = rb_hash b, br_height = rb_number b\<rparr>)) (subscribe_finalized_blocks None items))
       (map_err SubscribeFinalizedBlocks sub)"

text \<open>
  Making blocks one after the other: what is yielded, with the error that ends the stream or the cached authorities.
\<close>

fun make_all ::
  "(bytes list option \<Rightarrow> 'x \<Rightarrow> 'e + bytes list option \<times> 'b) \<Rightarrow> bytes list option \<Rightarrow> 'x list \<Rightarrow> 'b list \<times> ('e + bytes list option)" where
  "make_all mk authorities [] = ([], Inr authorities)"
| "make_all mk authorities (x # xs) =
     (case mk authorities x of
        Inl e \<Rightarrow> ([], Inl e)
      | Inr (authorities', b) \<Rightarrow> (case make_all mk authorities' xs of (bs, r) \<Rightarrow> (b # bs, r)))"

definition FINALIZATION_SAFETY_MARGIN :: u64 where
  "FINALIZATION_SAFETY_MARGIN = 400"

text \<open>Catching up by height, every block being checked against the hash of the one before.\<close>

fun catch_up_by_height ::
  "(bytes list option \<Rightarrow> 'ne chain_block \<Rightarrow> 'ne node_error + bytes list option \<times> 'r node_block) \<Rightarrow> 'ne node \<Rightarrow> bytes option \<Rightarrow> bytes list option \<Rightarrow> u64 list
     \<Rightarrow> 'r node_block list \<times> ('ne node_error + bytes option \<times> bytes list option)" where
  "catch_up_by_height mk nd last_hash authorities [] = ([], Inr (last_hash, authorities))"
| "catch_up_by_height mk nd last_hash authorities (height # heights) =
     (case and_then (block_at_height nd height) (\<lambda>b.
           and_then (mk authorities b) (\<lambda>(authorities', made).
             case last_hash of
               Some expected \<Rightarrow> if nb_parent_hash made \<noteq> expected then Inl (ParentHashMismatch height expected (nb_parent_hash made))
                 else Inr (kb_hash b, authorities', made)
             | None \<Rightarrow> Inr (kb_hash b, authorities', made))) of
        Inl e \<Rightarrow> ([], Inl e)
      | Inr (hash, authorities', made) \<Rightarrow>
          (case catch_up_by_height mk nd (Some hash) authorities' heights of (bs, r) \<Rightarrow> (made # bs, r)))"

text \<open>
  Walking back along parents. The number of steps is bounded by the first argument; \<^term>\<open>None\<close> says that the walk has not
  ended.
\<close>

fun walk_back :: "nat \<Rightarrow> 'ne node \<Rightarrow> bytes \<Rightarrow> bytes \<Rightarrow> bytes \<Rightarrow> ('ne node_error + bytes list) option" where
  "walk_back 0 nd stop_hash genesis_parent_hash parent_hash = None"
| "walk_back (Suc n) nd stop_hash genesis_parent_hash parent_hash =
     (if parent_hash = stop_hash \<or> parent_hash = genesis_parent_hash then Some (Inr [])
      else case and_then (map_err (GetOnlineClientAt parent_hash) (nd_parent_at nd parent_hash)) (\<lambda>parent.
             map_ok (\<lambda>h. (kb_hash parent, hd_parent_hash h)) (block_header parent)) of
          Inl e \<Rightarrow> Some (Inl e)
        | Inr (hash, grandparent_hash) \<Rightarrow>
            map_option (map_ok (\<lambda>hashes. hash # hashes)) (walk_back n nd stop_hash genesis_parent_hash grandparent_hash))"

definition make_at_hash ::
  "(bytes list option \<Rightarrow> 'ne chain_block \<Rightarrow> 'ne node_error + bytes list option \<times> 'b) \<Rightarrow> 'ne node \<Rightarrow> bytes list option \<Rightarrow> bytes
     \<Rightarrow> 'ne node_error + bytes list option \<times> 'b" where
  "make_at_hash mk nd authorities hash = and_then (block_at nd hash) (mk authorities)"

definition yields :: "'b list \<times> ('e + 'c) \<Rightarrow> ('c \<Rightarrow> ('e + 'b) list) \<Rightarrow> ('e + 'b) list" where
  "yields r k = (case r of (bs, Inl e) \<Rightarrow> map Inr bs @ [Inl e] | (bs, Inr c) \<Rightarrow> map Inr bs @ k c)"

text \<open>
  The blocks up to the first one received: by height while they are far enough below it, then by hash. While the walk back
  goes on nothing is yielded.
\<close>

definition catch_up ::
  "(bytes list option \<Rightarrow> 'ne chain_block \<Rightarrow> 'ne node_error + bytes list option \<times> 'r node_block) \<Rightarrow> 'ne node \<Rightarrow> nat \<Rightarrow> block_ref option \<Rightarrow> received_block
     \<Rightarrow> (u64 \<Rightarrow> bytes list option \<Rightarrow> ('ne node_error + 'r node_block) list) \<Rightarrow> ('ne node_error + 'r node_block) list" where
  "catch_up mk nd steps after first_block k =
     (let after_hash = (case after of None \<Rightarrow> byte_array_default 32 | Some r \<Rightarrow> br_hash r);
          start_height = (case after of None \<Rightarrow> 0 | Some r \<Rightarrow> br_height r + 1);
          safe_height = max (saturating_sub (rb_number first_block) FINALIZATION_SAFETY_MARGIN) start_height in
      yields (catch_up_by_height mk nd (map_option br_hash after) None (map word_of_nat [unat start_height..<unat safe_height]))
        (\<lambda>(last_forward_hash, authorities).
      case and_then (block_at nd (nd_genesis_hash nd)) block_header of
        Inl e \<Rightarrow> [Inl e]
      | Inr genesis_header \<Rightarrow>
          (case walk_back steps nd (case last_forward_hash of None \<Rightarrow> after_hash | Some hash \<Rightarrow> hash)
                  (hd_parent_hash genesis_header) (rb_parent_hash first_block) of
             None \<Rightarrow> []
           | Some (Inl e) \<Rightarrow> [Inl e]
           | Some (Inr hashes) \<Rightarrow>
               yields (make_all (make_at_hash mk nd) authorities (rev hashes)) (\<lambda>authorities'.
                 case make_at_hash mk nd authorities' (rb_hash first_block) of
                   Inl e \<Rightarrow> [Inl e]
                 | Inr (authorities'', made) \<Rightarrow> Inr made # k (nb_height made) authorities''))))"

text \<open>
  Afterwards every block received is yielded. A subscription that stays silent is replaced by the next one, from which
  blocks up to the last one yielded are filtered out.
\<close>

fun live_blocks ::
  "(bytes list option \<Rightarrow> 'ne chain_block \<Rightarrow> 'ne node_error + bytes list option \<times> 'r node_block) \<Rightarrow> 'ne node \<Rightarrow> u64 option \<Rightarrow> bytes list option
     \<Rightarrow> ('ne node_error + received_block) list \<Rightarrow> ('r node_block list \<times> ('ne node_error + u64 option \<times> bytes list option))" where
  "live_blocks mk nd last_height authorities [] = ([], Inr (last_height, authorities))"
| "live_blocks mk nd last_height authorities (Inl e # items) = ([], Inl e)"
| "live_blocks mk nd last_height authorities (Inr b # items) =
     (case make_at_hash mk nd authorities (rb_hash b) of
        Inl e \<Rightarrow> ([], Inl e)
      | Inr (authorities', made) \<Rightarrow>
          (case live_blocks mk nd (Some (nb_height made)) authorities' items of (bs, r) \<Rightarrow> (made # bs, r)))"

fun resubscribing ::
  "(bytes list option \<Rightarrow> 'ne chain_block \<Rightarrow> 'ne node_error + bytes list option \<times> 'r node_block) \<Rightarrow> 'ne node \<Rightarrow> u64 option \<Rightarrow> bytes list option
     \<Rightarrow> ('ne node_error + received_block) list \<Rightarrow> sub_end \<Rightarrow> 'ne finalized_sub list \<Rightarrow> ('ne node_error + 'r node_block) list" where
  "resubscribing mk nd last_height authorities items fin subs =
     yields (live_blocks mk nd last_height authorities items) (\<lambda>(last_height', authorities').
       case fin of
         Ended \<Rightarrow> []
       | Stuck \<Rightarrow>
           (case subs of
              [] \<Rightarrow> []
            | Inl e # _ \<Rightarrow> [Inl (SubscribeFinalizedBlocks e)]
            | Inr (items', fin') # subs' \<Rightarrow>
                resubscribing mk nd last_height' authorities' (subscribe_finalized_blocks last_height' items') fin' subs'))"

text \<open>
  The whole stream, given the subscriptions in the order they are made. The first block is awaited without a timeout.
\<close>

definition finalized_stream ::
  "(bytes list option \<Rightarrow> 'ne chain_block \<Rightarrow> 'ne node_error + bytes list option \<times> 'r node_block) \<Rightarrow> 'ne node \<Rightarrow> nat \<Rightarrow> block_ref option
     \<Rightarrow> 'ne finalized_sub list \<Rightarrow> ('ne node_error + 'r node_block) list" where
  "finalized_stream mk nd steps after subs =
     (case subs of
        [] \<Rightarrow> []
      | Inl e # _ \<Rightarrow> [Inl (SubscribeFinalizedBlocks e)]
      | Inr (items, fin) # subs' \<Rightarrow>
          (case subscribe_finalized_blocks (map_option br_height after) items of
             [] \<Rightarrow> []
           | Inl e # _ \<Rightarrow> [Inl e]
           | Inr first_block # later_items \<Rightarrow>
               if rb_hash first_block \<noteq> (case after of None \<Rightarrow> byte_array_default 32 | Some r \<Rightarrow> br_hash r)
               then catch_up mk nd steps after first_block (\<lambda>height authorities.
                 resubscribing mk nd (Some height) authorities later_items fin subs')
               else resubscribing mk nd (map_option br_height after) None later_items fin subs'))"

definition finalized_blocks ::
  "'ne runtime \<Rightarrow> ('ct, 'a, 'sys, 'r, 'ne) node_ledger \<Rightarrow> 'ne node \<Rightarrow> nat \<Rightarrow> block_ref option \<Rightarrow> 'ne finalized_sub list
     \<Rightarrow> ('ne node_error + 'r node_block) list" where
  "finalized_blocks rt nl nd steps after subs = finalized_stream (make_block rt nl nd) nd steps after subs"

section \<open>Other calls\<close>

definition fetch_system_parameters ::
  "'ne node \<Rightarrow> bytes \<Rightarrow> u64 \<Rightarrow> u64 \<Rightarrow> node_version \<Rightarrow> 'ne node_error + system_parameters_change" where
  "fetch_system_parameters nd block_hash block_height timestamp node_version =
     and_then (block_at nd block_hash) (\<lambda>b.
     and_then (map_err ProtocolVersionError (try_from_u32 (kb_spec_version b))) (\<lambda>v.
     and_then (map_err GetDParameter (kb_d_parameter b (pv_node_version v))) (\<lambda>d.
     map_ok (\<lambda>tc. \<lparr>spc_block_height = block_height, spc_block_hash = block_hash, spc_timestamp = timestamp,
         spc_d_parameter = Some d, spc_terms_and_conditions = tc\<rparr>)
       (map_err GetTermsAndConditions (kb_terms_and_conditions b (pv_node_version v))))))"

text \<open>\<open>properties\<close> is the text under \<^verbatim>\<open>genesis_state\<close> in the system properties, if there is one.\<close>

definition fetch_genesis_ledger_state :: "(string \<Rightarrow> bytes option) \<Rightarrow> 'ne + string option \<Rightarrow> 'ne node_error + bytes" where
  "fetch_genesis_ledger_state hex_decode properties =
     and_then (map_err FetchSystemProperties properties) (\<lambda>found.
       case found of
         None \<Rightarrow> Inl GenesisLedgerStateNotFound
       | Some text \<Rightarrow>
           (case hex_decode (if take 2 text = ''0x'' then drop 2 text else text) of
              None \<Rightarrow> Inl HexDecodeGenesisLedgerState | Some bs \<Rightarrow> Inr bs))"

end
