(* ===== verification/Node_Props.thy ===== *)
theory Node_Props
  imports Node_Access Chain_App_Props
begin

text \<open>
  What the indexer gets from the node: the stream of finalized blocks together with the application's loop that restarts
  it.
\<close>

section \<open>A node with a chain of finalized blocks\<close>

text \<open>The hash that block \<open>i\<close> has as its parent; that of genesis is zero.\<close>

definition parent_of :: "'ne chain_block list \<Rightarrow> nat \<Rightarrow> bytes" where
  "parent_of cs i = (case i of 0 \<Rightarrow> byte_array_default 32 | Suc j \<Rightarrow> kb_hash (cs ! j))"

definition ref_before :: "'ne chain_block list \<Rightarrow> nat \<Rightarrow> block_ref option" where
  "ref_before cs i = (case i of 0 \<Rightarrow> None | Suc j \<Rightarrow> Some \<lparr>br_hash = kb_hash (cs ! j), br_height = word_of_nat j\<rparr>)"

definition canonical :: "'ne node \<Rightarrow> 'ne chain_block list \<Rightarrow> bool" where
  "canonical nd cs \<longleftrightarrow> cs \<noteq> [] \<and> length cs < 2 ^ 64 \<and> distinct (byte_array_default 32 # map kb_hash cs)
     \<and> nd_genesis_hash nd = kb_hash (cs ! 0)
     \<and> (\<forall>i < length cs. kb_number (cs ! i) = word_of_nat i
         \<and> (\<exists>h. kb_header (cs ! i) = Inr h \<and> hd_parent_hash h = parent_of cs i)
         \<and> nd_at_height nd (word_of_nat i) = Inr (cs ! i)
         \<and> nd_at_hash nd (kb_hash (cs ! i)) = Inr (cs ! i)
         \<and> nd_parent_at nd (kb_hash (cs ! i)) = Inr (cs ! i))"

text \<open>Every block can be made, whatever authorities are cached.\<close>

definition makes :: "(bytes list option \<Rightarrow> 'ne chain_block \<Rightarrow> 'ne node_error + bytes list option \<times> 'r node_block) \<Rightarrow> 'ne chain_block list \<Rightarrow> bool" where
  "makes mk cs \<longleftrightarrow> (\<forall>i < length cs. \<forall>authorities. \<exists>r. mk authorities (cs ! i) = Inr r)"

text \<open>A yielded block is block \<open>i\<close> of the chain.\<close>

definition is_block :: "'ne chain_block list \<Rightarrow> nat \<Rightarrow> 'r node_block \<Rightarrow> bool" where
  "is_block cs i nb \<longleftrightarrow> nb_hash nb = kb_hash (cs ! i) \<and> nb_height nb = word_of_nat i \<and> nb_parent_hash nb = parent_of cs i"

definition makes_blocks ::
  "(bytes list option \<Rightarrow> 'ne chain_block \<Rightarrow> 'ne node_error + bytes list option \<times> 'r node_block) \<Rightarrow> 'ne chain_block list \<Rightarrow> bool" where
  "makes_blocks mk cs \<longleftrightarrow> (\<forall>i < length cs. \<forall>authorities. \<exists>a nb. mk authorities (cs ! i) = Inr (a, nb) \<and> is_block cs i nb)"

lemma make_block_data:
  assumes "make_block rt nl nd authorities b = Inr (a, nb)"
  shows "nb_hash nb = kb_hash b" "nb_height nb = kb_number b" "\<exists>h. kb_header b = Inr h \<and> nb_parent_hash nb = hd_parent_hash h"
  using assms
  by (auto simp: make_block_def block_header_def Let_def res_simps split: option.splits prod.splits)

lemma makes_make_block:
  assumes "canonical nd cs" "makes (make_block rt nl nd) cs"
  shows "makes_blocks (make_block rt nl nd) cs"
  unfolding makes_blocks_def
proof (intro allI impI)
  fix i authorities assume i: "i < length cs"
  with assms(2) obtain a nb where r: "make_block rt nl nd authorities (cs ! i) = Inr (a, nb)"
    unfolding makes_def by (metis surj_pair)
  moreover have "is_block cs i nb"
    using make_block_data [OF r] assms(1) i by (auto simp: is_block_def canonical_def)
  ultimately show "\<exists>a nb. make_block rt nl nd authorities (cs ! i) = Inr (a, nb) \<and> is_block cs i nb" by blast
qed

section \<open>Catching up\<close>

lemma parent_of_0 [simp]: "parent_of cs 0 = byte_array_default 32"
  by (simp add: parent_of_def)

lemma parent_of_Suc [simp]: "parent_of cs (Suc i) = kb_hash (cs ! i)"
  by (simp add: parent_of_def)

lemma canonical_at:
  assumes "canonical nd cs" "i < length cs"
  shows "block_at nd (kb_hash (cs ! i)) = Inr (cs ! i)" "block_at_height nd (word_of_nat i) = Inr (cs ! i)"
    "nd_parent_at nd (kb_hash (cs ! i)) = Inr (cs ! i)" "kb_number (cs ! i) = word_of_nat i"
    "map_ok hd_parent_hash (block_header (cs ! i)) = Inr (parent_of cs i)"
  using assms by (auto simp: canonical_def block_at_def block_at_height_def block_header_def)

lemma make_at_hash_block:
  assumes "canonical nd cs" "makes_blocks mk cs" "i < length cs"
  obtains a nb where "make_at_hash mk nd authorities (kb_hash (cs ! i)) = Inr (a, nb)" "is_block cs i nb"
proof -
  obtain a nb where "mk authorities (cs ! i) = Inr (a, nb)" "is_block cs i nb"
    using assms(2,3) unfolding makes_blocks_def by blast
  then show ?thesis using that by (simp add: make_at_hash_def canonical_at(1) [OF assms(1,3)])
qed

lemma make_all_blocks:
  assumes "canonical nd cs" "makes_blocks mk cs" "n \<le> length cs"
  obtains bs a where "make_all (make_at_hash mk nd) authorities (map (\<lambda>i. kb_hash (cs ! i)) [i..<n]) = (bs, Inr a)"
    "list_all2 (is_block cs) [i..<n] bs"
proof -
  have "\<exists>bs a. make_all (make_at_hash mk nd) authorities (map (\<lambda>i. kb_hash (cs ! i)) is) = (bs, Inr a) \<and> list_all2 (is_block cs) is bs"
    if "\<forall>i \<in> set is. i < length cs" for "is"
    using that
  proof (induction "is" arbitrary: authorities)
    case (Cons i "is")
    obtain a nb where m: "make_at_hash mk nd authorities (kb_hash (cs ! i)) = Inr (a, nb)" "is_block cs i nb"
      using make_at_hash_block [OF assms(1,2)] Cons.prems by (metis list.set_intros(1))
    show ?case using Cons.IH [of a] Cons.prems m by fastforce
  qed simp
  from this [of "[i..<n]"] assms(3) that show ?thesis by auto
qed

lemma catch_up_by_height_blocks:
  assumes "canonical nd cs" "makes_blocks mk cs" "n \<le> length cs" "last_hash = map_option br_hash (ref_before cs i)"
  obtains bs a where
    "catch_up_by_height mk nd last_hash authorities (map word_of_nat [i..<n]) = (bs, Inr (if i < n then Some (parent_of cs n) else last_hash, a))"
    "list_all2 (is_block cs) [i..<n] bs"
proof -
  have "\<exists>bs a. catch_up_by_height mk nd last_hash authorities (map word_of_nat [i..<n]) = (bs, Inr (if i < n then Some (parent_of cs n) else last_hash, a))
      \<and> list_all2 (is_block cs) [i..<n] bs"
    using assms(4)
  proof (induction "n - i" arbitrary: i authorities last_hash)
    case (Suc x)
    then have i: "i < n" "i < length cs" using assms(3) by auto
    obtain a nb where m: "mk authorities (cs ! i) = Inr (a, nb)" "is_block cs i nb"
      using assms(2) i(2) unfolding makes_blocks_def by blast
    have ok: "last_hash = None \<or> last_hash = Some (nb_parent_hash nb)"
      using Suc.prems m(2) by (cases i) (auto simp: ref_before_def is_block_def)
    obtain bs a' where ih: "catch_up_by_height mk nd (Some (kb_hash (cs ! i))) a (map word_of_nat [Suc i..<n])
        = (bs, Inr (if Suc i < n then Some (parent_of cs n) else Some (kb_hash (cs ! i)), a'))" "list_all2 (is_block cs) [Suc i..<n] bs"
      using Suc.hyps(1) [of "Suc i" "Some (kb_hash (cs ! i))" a] Suc.hyps(2) by (force simp: ref_before_def)
    have "(if Suc i < n then Some (parent_of cs n) else Some (kb_hash (cs ! i))) = Some (parent_of cs n)"
    proof (cases "Suc i < n")
      case False
      then have "n = Suc i" using i by simp
      then show ?thesis by simp
    qed simp
    with ih have "catch_up_by_height mk nd last_hash authorities (map word_of_nat (i # [Suc i..<n])) = (nb # bs, Inr (Some (parent_of cs n), a'))"
      using ok by (auto simp: canonical_at(2) [OF assms(1) i(2)] m)
    then show ?case using i ih(2) m(2) by (auto simp: upt_conv_Cons)
  qed auto
  then show ?thesis using that by blast
qed

lemma parent_of_neq:
  assumes "canonical nd cs" "i < length cs" "j \<le> i"
  shows "kb_hash (cs ! i) \<noteq> parent_of cs j"
proof (cases j)
  case 0
  have "kb_hash (cs ! i) \<in> set (map kb_hash cs)" using assms(2) by auto
  then show ?thesis using assms(1) 0 by (auto simp: canonical_def)
next
  case (Suc j')
  have "distinct (map kb_hash cs)" using assms(1) by (simp add: canonical_def)
  then have "map kb_hash cs ! i \<noteq> map kb_hash cs ! j'" using assms(2,3) Suc by (subst nth_eq_iff_index_eq) auto
  then show ?thesis using assms(2,3) Suc by simp
qed

lemma walk_back_hashes:
  assumes "canonical nd cs" "i \<le> m" "m \<le> length cs" "m - i < steps"
  shows "walk_back steps nd (parent_of cs i) (byte_array_default 32) (parent_of cs m) = Some (Inr (rev (map (\<lambda>i. kb_hash (cs ! i)) [i..<m])))"
  using assms(2-4)
proof (induction steps arbitrary: m)
  case (Suc steps)
  show ?case
  proof (cases "i = m")
    case False
    then obtain m' where m: "m = Suc m'" "i \<le> m'" "m' < length cs" using Suc.prems by (cases m) auto
    obtain h where h: "kb_header (cs ! m') = Inr h" "hd_parent_hash h = parent_of cs m'"
      using assms(1) m(3) unfolding canonical_def by blast
    have "walk_back steps nd (parent_of cs i) (byte_array_default 32) (parent_of cs m') = Some (Inr (rev (map (\<lambda>i. kb_hash (cs ! i)) [i..<m'])))"
      using Suc.IH [of m'] Suc.prems m by simp
    moreover have "kb_hash (cs ! m') \<noteq> byte_array_default 32" "kb_hash (cs ! m') \<noteq> parent_of cs i"
      using parent_of_neq [OF assms(1) m(3), of 0] parent_of_neq [OF assms(1) m(3), of i] m(2) by auto
    ultimately show ?thesis
      using m h by (simp add: canonical_at(3) [OF assms(1) m(3)] block_header_def)
  qed simp
qed simp

section \<open>What a subscription delivers\<close>

definition received :: "'ne chain_block list \<Rightarrow> nat \<Rightarrow> received_block" where
  "received cs i = \<lparr>rb_hash = kb_hash (cs ! i), rb_number = word_of_nat i, rb_parent_hash = parent_of cs i\<rparr>"

text \<open>
  An item of a subscription: a block of the chain, by its height, a disconnection, or an error. A subscription
  fails, or it delivers a list of items, in any order and with any blocks repeated or left out, and then ends or falls silent.
\<close>

datatype 'ne feed = AtHeight nat | Reconnect | Failure 'ne

type_synonym 'ne feed_sub = "'ne + 'ne feed list \<times> sub_end"

definition item_of :: "'ne chain_block list \<Rightarrow> 'ne feed \<Rightarrow> 'ne sub_item" where
  "item_of cs x = (case x of AtHeight i \<Rightarrow> Received (received cs i) | Reconnect \<Rightarrow> DisconnectedWillReconnect | Failure e \<Rightarrow> SubError e)"

definition sub_of :: "'ne chain_block list \<Rightarrow> 'ne feed_sub \<Rightarrow> 'ne finalized_sub" where
  "sub_of cs = map_ok (\<lambda>(xs, fin). (map (item_of cs) xs, fin))"

definition on_chain :: "'ne chain_block list \<Rightarrow> 'ne feed list \<Rightarrow> bool" where
  "on_chain cs xs \<longleftrightarrow> (\<forall>i. AtHeight i \<in> set xs \<longrightarrow> i < length cs)"

definition subs_on_chain :: "'ne chain_block list \<Rightarrow> 'ne feed_sub list \<Rightarrow> bool" where
  "subs_on_chain cs subs \<longleftrightarrow> (\<forall>xs fin. Inr (xs, fin) \<in> set subs \<longrightarrow> on_chain cs xs)"

text \<open>
  What the items of a subscription should give when block \<open>p\<close> is the next one wanted: the next one wanted afterwards, and whether the
  stream goes on. Blocks seen before are passed over; an error or a block that leaves a gap ends the stream.
\<close>

fun reach :: "nat \<Rightarrow> 'ne feed list \<Rightarrow> nat \<times> bool" where
  "reach p [] = (p, True)"
| "reach p (AtHeight i # xs) = (if i < p then reach p xs else if i = p then reach (Suc p) xs else (p, False))"
| "reach p (Reconnect # xs) = reach p xs"
| "reach p (Failure e # xs) = (p, False)"

text \<open>A subscription that falls silent is replaced by the next one, if that can be made.\<close>

fun reach_subs :: "nat \<Rightarrow> 'ne feed list \<Rightarrow> sub_end \<Rightarrow> 'ne feed_sub list \<Rightarrow> nat" where
  "reach_subs p xs fin subs =
     (case reach p xs of
        (p', False) \<Rightarrow> p'
      | (p', True) \<Rightarrow>
          (case fin of
             Ended \<Rightarrow> p'
           | Stuck \<Rightarrow> (case subs of Inr (xs', fin') # subs' \<Rightarrow> reach_subs p' xs' fin' subs' | _ \<Rightarrow> p')))"

text \<open>The first block of a stream that is new, if one comes before an error: all blocks up to it are caught up with.\<close>

fun first_fresh :: "nat \<Rightarrow> 'ne feed list \<Rightarrow> (nat \<times> 'ne feed list) option" where
  "first_fresh p [] = None"
| "first_fresh p (AtHeight i # xs) = (if i < p then first_fresh p xs else Some (i, xs))"
| "first_fresh p (Reconnect # xs) = first_fresh p xs"
| "first_fresh p (Failure e # xs) = None"

definition stream_reach :: "nat \<Rightarrow> 'ne feed_sub list \<Rightarrow> nat" where
  "stream_reach p subs =
     (case subs of
        Inr (xs, fin) # subs' \<Rightarrow>
          (case first_fresh p xs of None \<Rightarrow> p | Some (i, rest) \<Rightarrow> reach_subs (Suc i) rest fin subs')
      | _ \<Rightarrow> p)"

declare reach_subs.simps [simp del] resubscribing.simps [simp del]

lemma reach_ge: "reach p xs = (p', c) \<Longrightarrow> p \<le> p'"
  by (induction p xs rule: reach.induct) (auto split: if_splits)

lemma reach_subs_ge: "p \<le> reach_subs p xs fin subs"
proof (induction p xs fin subs rule: reach_subs.induct)
  case (1 p xs fin subs)
  obtain p' c where r: "reach p xs = (p', c)" by (cases "reach p xs")
  show ?case using reach_ge [OF r] 1 [OF r [symmetric]]
    by (subst reach_subs.simps) (auto simp: r split: bool.split sub_end.split list.split sum.split prod.split intro: order_trans)
qed

lemma first_fresh_ge: "first_fresh p xs = Some (i, rest) \<Longrightarrow> p \<le> i"
  by (induction p xs rule: first_fresh.induct) (auto split: if_splits)

lemma first_fresh_later: "first_fresh 0 xs = Some (i, rest) \<Longrightarrow> i < p \<or> first_fresh p xs = Some (i, rest)"
proof (induction xs)
  case (Cons x xs)
  then show ?case by (cases x) (auto split: if_splits)
qed simp

lemma stream_reach_ge: "p \<le> stream_reach p subs"
proof -
  have "p \<le> reach_subs (Suc i) rest fin subs'" if "first_fresh p xs = Some (i, rest)" for xs i rest fin subs'
    using reach_subs_ge [of "Suc i" rest fin subs'] first_fresh_ge [OF that] by linarith
  then show ?thesis by (auto simp: stream_reach_def split: list.split sum.split option.split)
qed

lemma on_chain_simps [simp]:
  "on_chain cs []" "on_chain cs (AtHeight i # xs) \<longleftrightarrow> i < length cs \<and> on_chain cs xs"
  "on_chain cs (Reconnect # xs) \<longleftrightarrow> on_chain cs xs" "on_chain cs (Failure e # xs) \<longleftrightarrow> on_chain cs xs"
  by (auto simp: on_chain_def)

lemma subs_on_chain_Cons: "subs_on_chain cs (Inr (xs, fin) # subs) \<longleftrightarrow> on_chain cs xs \<and> subs_on_chain cs subs"
  by (auto simp: subs_on_chain_def)

lemma is_duplicate_iff:
  assumes "i < 2 ^ 64" "n \<le> 2 ^ 64"
  shows "is_duplicate (word_of_nat i) (map_option br_height (ref_before cs n)) \<longleftrightarrow> i < n"
  using assms by (cases n) (auto simp: is_duplicate_def ref_before_def word_le_nat_alt unat_of_nat)

definition delivered :: "'ne chain_block list \<Rightarrow> nat \<Rightarrow> 'ne feed list \<Rightarrow> ('ne node_error + received_block) list" where
  "delivered cs p xs = subscribe_finalized_blocks (map_option br_height (ref_before cs p)) (map (item_of cs) xs)"

lemma delivered_simps:
  "delivered cs p [] = []" "delivered cs p (Reconnect # xs) = delivered cs p xs"
  "delivered cs p (Failure e # xs) = Inl (ReceiveBlock e) # delivered cs p xs"
  by (simp_all add: delivered_def item_of_def)

lemma delivered_AtHeight:
  assumes "length cs < 2 ^ 64" "i < length cs" "p \<le> length cs"
  shows "delivered cs p (AtHeight i # xs) = (if i < p then delivered cs p xs else Inr (received cs i) # delivered cs (Suc i) xs)"
proof -
  have "is_duplicate (word_of_nat i) (map_option br_height (ref_before cs p)) \<longleftrightarrow> i < p" using assms by (intro is_duplicate_iff) auto
  moreover have "Some (word_of_nat i) = map_option br_height (ref_before cs (Suc i))" by (simp add: ref_before_def)
  ultimately show ?thesis by (simp add: delivered_def item_of_def received_def)
qed

lemma delivered_first_fresh:
  assumes "length cs < 2 ^ 64" "p \<le> length cs" "on_chain cs xs"
  shows "(case first_fresh p xs of
      None \<Rightarrow> delivered cs p xs = [] \<or> (\<exists>e rest. delivered cs p xs = Inl e # rest)
    | Some (i, rest) \<Rightarrow> i < length cs \<and> on_chain cs rest \<and> delivered cs p xs = Inr (received cs i) # delivered cs (Suc i) rest)"
  using assms(3)
proof (induction xs)
  case (Cons x xs)
  show ?case
  proof (cases x)
    case (AtHeight i)
    have "i < length cs" using Cons.prems by (simp add: AtHeight)
    then show ?thesis using Cons delivered_AtHeight [OF assms(1) _ assms(2), of i xs] by (cases "first_fresh p xs"; cases "i < p") (simp_all add: AtHeight split_beta)
  next
    case Reconnect
    then show ?thesis using Cons by (cases "first_fresh p xs") (simp_all add: delivered_simps split_beta)
  qed (simp add: delivered_simps)
qed (simp add: delivered_simps)

section \<open>The stream and its restarts\<close>

lemma ref_before_hash:
  "(case map_option br_hash (ref_before cs i) of None \<Rightarrow> byte_array_default 32 | Some hash \<Rightarrow> hash) = parent_of cs i"
  "(case ref_before cs i of None \<Rightarrow> byte_array_default 32 | Some r \<Rightarrow> br_hash r) = parent_of cs i"
  "(case ref_before cs i of None \<Rightarrow> 0 | Some r \<Rightarrow> br_height r + 1) = word_of_nat i"
  by (cases i; simp add: ref_before_def add.commute)+

lemma list_all2_upt_append:
  assumes "list_all2 P [k..<m] xs" "list_all2 P [m..<n] ys" "k \<le> m" "m \<le> n"
  shows "list_all2 P [k..<n] (xs @ ys)"
  using list_all2_appendI [OF assms(1,2)] upt_add_eq_append [of k m "n - m"] assms(3,4) by simp

lemma catch_up_chain:
  assumes "canonical nd cs" "makes_blocks mk cs" "k \<le> m" "m < length cs" "length cs < steps"
  obtains bs a where "\<And>c. catch_up mk nd steps (ref_before cs k) (received cs m) c = map Inr bs @ c (word_of_nat m) a"
    "list_all2 (is_block cs) [k..<Suc m] bs"
proof -
  define s where "s = max (m - 400) k"
  have small: "m < 2 ^ 64" "k < 2 ^ 64" and s: "k \<le> s" "s \<le> m" using assms by (auto simp: canonical_def s_def)
  then have unats: "unat (word_of_nat k :: u64) = k" "unat (max (saturating_sub (word_of_nat m) FINALIZATION_SAFETY_MARGIN) (word_of_nat k :: u64)) = s"
    by (auto simp: unat_of_nat max_def word_le_nat_alt unat_saturating_sub FINALIZATION_SAFETY_MARGIN_def s_def)
  define lh where "lh = (if k < s then Some (parent_of cs s) else map_option br_hash (ref_before cs k))"
  obtain bs1 a1 where f: "catch_up_by_height mk nd (map_option br_hash (ref_before cs k)) None (map word_of_nat [k..<s]) = (bs1, Inr (lh, a1))"
      "list_all2 (is_block cs) [k..<s] bs1"
    using catch_up_by_height_blocks [OF assms(1,2) _ refl, of s k None] s assms(4) unfolding lh_def by auto
  have stop: "(case lh of None \<Rightarrow> parent_of cs k | Some hash \<Rightarrow> hash) = parent_of cs s"
    using s(1) by (cases "k < s"; cases k) (auto simp: lh_def ref_before_def)
  obtain h where g: "and_then (block_at nd (nd_genesis_hash nd)) block_header = Inr h" "hd_parent_hash h = byte_array_default 32"
    using assms(1) by (force simp: canonical_def block_at_def block_header_def)
  have w: "walk_back steps nd (parent_of cs s) (byte_array_default 32) (parent_of cs m) = Some (Inr (rev (map (\<lambda>i. kb_hash (cs ! i)) [s..<m])))"
    using s assms(4,5) by (intro walk_back_hashes [OF assms(1)]) auto
  obtain bs2 a2 where b: "make_all (make_at_hash mk nd) a1 (map (\<lambda>i. kb_hash (cs ! i)) [s..<m]) = (bs2, Inr a2)" "list_all2 (is_block cs) [s..<m] bs2"
    using make_all_blocks [OF assms(1,2), of m a1 s] assms(4) by auto
  obtain a3 nb where l: "make_at_hash mk nd a2 (kb_hash (cs ! m)) = Inr (a3, nb)" "is_block cs m nb"
    using make_at_hash_block [OF assms(1,2,4)] by blast
  have "catch_up mk nd steps (ref_before cs k) (received cs m) c = map Inr (bs1 @ bs2 @ [nb]) @ c (word_of_nat m) a3" for c
    using l unfolding catch_up_def Let_def ref_before_hash
    by (simp add: received_def unats f(1) yields_def stop g w b(1) is_block_def)
  moreover have "list_all2 (is_block cs) [k..<Suc m] (bs1 @ bs2 @ [nb])"
    using list_all2_upt_append [OF f(2) b(2) s] l(2) assms(3) by (simp add: list_all2_appendI flip: append_assoc)
  ultimately show ?thesis using that by blast
qed

text \<open>
  What the application makes of a part of a stream that starts with the blocks from \<open>p\<close> up to \<open>q\<close>: they are taken, and a
  following block that is not block \<open>q\<close> breaks the loop.
\<close>

definition takes_to :: "'ne chain_block list \<Rightarrow> nat \<Rightarrow> nat \<Rightarrow> ('e + 'r node_block) list \<Rightarrow> bool" where
  "takes_to cs p q ys \<longleftrightarrow> (\<exists>zs. node_blocks_inner (ref_before cs p) ys = (zs, ref_before cs q) \<and> list_all2 (is_block cs) [p..<q] (oks zs))"

lemma takes_to_Nil [simp]: "takes_to cs p p []"
  by (simp add: takes_to_def)

lemma takes_to_error: "takes_to cs p p [Inl e]"
  by (simp add: takes_to_def)

lemma takes_to_block:
  assumes "is_block cs p b" "p < q" "takes_to cs (Suc p) q ys"
  shows "takes_to cs p q (Inr b # ys)"
proof -
  have "nb_parent_hash b = highest_hash_or_default (ref_before cs p)"
    using assms(1) by (cases p) (auto simp: is_block_def ref_before_def highest_hash_or_default_def)
  moreover have "Some (block_ref_from b) = ref_before cs (Suc p)" using assms(1) by (simp add: ref_before_def is_block_def block_ref_from_def)
  ultimately show ?thesis using assms by (auto simp: takes_to_def upt_conv_Cons)
qed

lemma takes_to_blocks:
  assumes "list_all2 (is_block cs) [p..<m] bs" "p \<le> m" "m \<le> q" "takes_to cs m q ys"
  shows "takes_to cs p q (map Inr bs @ ys)"
  using assms
proof (induction bs arbitrary: p rule: list.induct)
  case (Cons b bs)
  then have "p < m" "is_block cs p b" "list_all2 (is_block cs) [Suc p..<m] bs" by (cases "p < m"; force simp: upt_conv_Cons)+
  moreover from this have "takes_to cs (Suc p) q (map Inr bs @ ys)" using Cons by simp
  ultimately show ?case using Cons.prems(3) by (simp add: takes_to_block)
qed auto

lemma takes_to_gap:
  assumes "canonical nd cs" "is_block cs i b" "i < length cs" "p < i"
  shows "takes_to cs p p (Inr b # ys)"
proof -
  obtain i' where i: "i = Suc i'" using assms(4) by (cases i) auto
  have "kb_hash (cs ! i') \<noteq> parent_of cs p" using parent_of_neq [OF assms(1)] assms(3,4) i by simp
  then have "nb_parent_hash b \<noteq> highest_hash_or_default (ref_before cs p)"
    using assms(2) by (cases p) (auto simp: i is_block_def ref_before_def highest_hash_or_default_def)
  then show ?thesis by (simp add: takes_to_def)
qed

lemma live_blocks_reach:
  assumes "canonical nd cs" "makes_blocks mk cs"
    and "on_chain cs xs" "p \<le> length cs" "reach p xs = (q, c)" "0 < p"
    and "\<And>a. c \<Longrightarrow> takes_to cs q t (k (map_option br_height (ref_before cs q)) a)" "c \<Longrightarrow> q \<le> t" "\<not> c \<Longrightarrow> t = q"
  shows "q \<le> length cs \<and> takes_to cs p t (yields (live_blocks mk nd (map_option br_height (ref_before cs p)) a (delivered cs p xs)) (\<lambda>(l, a). k l a))"
  using assms(3-9)
proof (induction p xs arbitrary: a rule: reach.induct)
  case (1 p)
  then show ?case by (auto simp: delivered_simps yields_def)
next
  case (2 p i xs)
  have len: "length cs < 2 ^ 64" using assms(1) by (simp add: canonical_def)
  have i: "i < length cs" "on_chain cs xs" using "2.prems"(1) by simp_all
  note d = delivered_AtHeight [OF len i(1) "2.prems"(2), of xs]
  show ?case
  proof (cases "i < p")
    case True
    then show ?thesis using "2.IH"(1) [OF True i(2)] "2.prems" by (simp add: d)
  next
    case False
    obtain a1 nb where m: "make_at_hash mk nd a (kb_hash (cs ! i)) = Inr (a1, nb)" "is_block cs i nb"
      by (rule make_at_hash_block [OF assms(1,2) i(1)])
    have h: "Some (nb_height nb) = map_option br_height (ref_before cs (Suc i))" using m(2) by (simp add: is_block_def ref_before_def)
    have y: "yields (live_blocks mk nd (map_option br_height (ref_before cs p)) a (delivered cs p (AtHeight i # xs))) K
        = Inr nb # yields (live_blocks mk nd (map_option br_height (ref_before cs (Suc i))) a1 (delivered cs (Suc i) xs)) K" for K
      using m(1) False by (auto simp: d received_def h yields_def split: prod.split sum.split)
    show ?thesis
    proof (cases "i = p")
      case True
      have r: "reach (Suc p) xs = (q, c)" using "2.prems"(3) True by simp
      have ih: "q \<le> length cs \<and> takes_to cs (Suc p) t (yields (live_blocks mk nd (map_option br_height (ref_before cs (Suc p))) a1 (delivered cs (Suc p) xs)) (\<lambda>(l, a). k l a))"
        using "2.IH"(2) [OF False True i(2), of a1] "2.prems" r i(1) True by simp
      have "p < t" using reach_ge [OF r] "2.prems"(6,7) by (cases c) auto
      with ih show ?thesis using m(2) True unfolding y by (blast intro: takes_to_block)
    next
      case gap: False
      then have "q = p" "\<not> c" "t = p" using "2.prems"(3,7) False by auto
      then show ?thesis unfolding y using "2.prems"(2) False gap by (simp add: takes_to_gap [OF assms(1) m(2) i(1)])
    qed
  qed
next
  case (3 p xs)
  then show ?case by (simp add: delivered_simps)
next
  case (4 p e xs)
  then show ?case by (auto simp: delivered_simps yields_def takes_to_error)
qed

lemma resubscribing_reach:
  assumes "canonical nd cs" "makes_blocks mk cs"
    and "on_chain cs xs" "subs_on_chain cs subs" "p \<le> length cs" "0 < p"
  shows "reach_subs p xs fin subs \<le> length cs
    \<and> takes_to cs p (reach_subs p xs fin subs)
        (resubscribing mk nd (map_option br_height (ref_before cs p)) a (delivered cs p xs) fin (map (sub_of cs) subs))"
  using assms(3-6)
proof (induction p xs fin subs arbitrary: a rule: reach_subs.induct)
  case (1 p xs fin subs)
  obtain q c where r: "reach p xs = (q, c)" by (cases "reach p xs")
  let ?t = "reach_subs p xs fin subs"
  let ?k = "\<lambda>l a. case fin of Ended \<Rightarrow> [] | Stuck \<Rightarrow> (case map (sub_of cs) subs of [] \<Rightarrow> [] | Inl e # _ \<Rightarrow> [Inl (SubscribeFinalizedBlocks e)]
      | Inr (items', fin') # subs' \<Rightarrow> resubscribing mk nd l a (subscribe_finalized_blocks l items') fin' subs')"
  have q: "p \<le> q" by (rule reach_ge [OF r])
  have ql: "q \<le> length cs" using live_blocks_reach [OF assms(1,2) "1.prems"(1,3) r "1.prems"(4), of q "\<lambda>_ _. []"] by simp
  have "?t \<le> length cs \<and> (c \<longrightarrow> q \<le> ?t \<and> takes_to cs q ?t (?k (map_option br_height (ref_before cs q)) a')) \<and> (\<not> c \<longrightarrow> ?t = q)" for a'
  proof (cases "\<exists>xs' fin' subs'. c \<and> fin = Stuck \<and> subs = Inr (xs', fin') # subs'")
    case True
    then obtain xs' fin' subs' where s: "c" "fin = Stuck" "subs = Inr (xs', fin') # subs'" by blast
    have on: "on_chain cs xs'" "subs_on_chain cs subs'" using "1.prems"(2) s(3) by (simp_all add: subs_on_chain_Cons)
    have t: "?t = reach_subs q xs' fin' subs'" using r s by (subst reach_subs.simps) simp
    have "?k (map_option br_height (ref_before cs q)) a'
        = resubscribing mk nd (map_option br_height (ref_before cs q)) a' (delivered cs q xs') fin' (map (sub_of cs) subs')"
      by (simp add: s sub_of_def delivered_def)
    moreover have "reach_subs q xs' fin' subs' \<le> length cs \<and> takes_to cs q (reach_subs q xs' fin' subs')
        (resubscribing mk nd (map_option br_height (ref_before cs q)) a' (delivered cs q xs') fin' (map (sub_of cs) subs'))"
      using "1.IH" [OF r [symmetric] _ s(2,3) refl refl on ql] s(1) "1.prems"(4) q by simp
    ultimately show ?thesis using reach_subs_ge [of q xs' fin' subs'] s(1) unfolding t by simp
  next
    case False
    have "?t = q" using False by (subst reach_subs.simps) (auto simp: r split: bool.split sub_end.split list.split sum.split prod.split)
    moreover have "takes_to cs q q (?k (map_option br_height (ref_before cs q)) a')" if c
    proof -
      have "fin = Ended \<or> subs = [] \<or> (\<exists>e subs'. subs = Inl e # subs')"
        using that False by (cases fin; cases subs; cases "hd subs") auto
      then show ?thesis by (auto simp: sub_of_def takes_to_error split: sub_end.split)
    qed
    ultimately show ?thesis using ql by simp
  qed
  then have k: "?t \<le> length cs" "\<And>a. c \<Longrightarrow> takes_to cs q ?t (?k (map_option br_height (ref_before cs q)) a)" "c \<Longrightarrow> q \<le> ?t" "\<not> c \<Longrightarrow> ?t = q" by blast+
  have "takes_to cs p ?t (yields (live_blocks mk nd (map_option br_height (ref_before cs p)) a (delivered cs p xs)) (\<lambda>(l, a). ?k l a))"
    using live_blocks_reach [OF assms(1,2) "1.prems"(1,3) r "1.prems"(4), of ?t ?k a] k by blast
  then show ?case using k(1) by (subst resubscribing.simps) simp
qed

lemma finalized_stream_reach:
  assumes "canonical nd cs" "makes_blocks mk cs" "p \<le> length cs" "length cs < steps" "subs_on_chain cs subs"
  shows "stream_reach p subs \<le> length cs \<and> takes_to cs p (stream_reach p subs) (finalized_stream mk nd steps (ref_before cs p) (map (sub_of cs) subs))"
proof (cases "\<exists>xs fin subs'. subs = Inr (xs, fin) # subs'")
  case False
  then show ?thesis using assms(3)
    by (auto simp: stream_reach_def finalized_stream_def sub_of_def takes_to_error split: list.split sum.split)
next
  case True
  then obtain xs fin subs' where s: "subs = Inr (xs, fin) # subs'" by blast
  have on: "on_chain cs xs" "subs_on_chain cs subs'" using assms(5) by (simp_all add: s subs_on_chain_Cons)
  have len: "length cs < 2 ^ 64" using assms(1) by (simp add: canonical_def)
  note d = delivered_first_fresh [OF len assms(3) on(1)]
  have st: "subscribe_finalized_blocks (map_option br_height (ref_before cs p)) (map (item_of cs) xs) = delivered cs p xs" by (simp add: delivered_def)
  show ?thesis
  proof (cases "first_fresh p xs")
    case None
    then show ?thesis using d assms(3) by (auto simp: s stream_reach_def finalized_stream_def sub_of_def st takes_to_error)
  next
    case (Some r)
    obtain i rest where r: "r = (i, rest)" by (cases r)
    have f: "i < length cs" "on_chain cs rest" "delivered cs p xs = Inr (received cs i) # delivered cs (Suc i) rest" "p \<le> i"
      using d first_fresh_ge [of p xs i rest] Some r by simp_all
    obtain bs a where c: "\<And>c. catch_up mk nd steps (ref_before cs p) (received cs i) c = map Inr bs @ c (word_of_nat i) a"
        "list_all2 (is_block cs) [p..<Suc i] bs"
      using catch_up_chain [OF assms(1,2) f(4,1) assms(4)] by blast
    let ?t = "reach_subs (Suc i) rest fin subs'"
    have "?t \<le> length cs \<and> takes_to cs (Suc i) ?t (resubscribing mk nd (map_option br_height (ref_before cs (Suc i))) a (delivered cs (Suc i) rest) fin (map (sub_of cs) subs'))"
      using resubscribing_reach [OF assms(1,2) f(2) on(2)] f(1) by simp
    moreover have "Suc i \<le> ?t" by (rule reach_subs_ge)
    moreover have "rb_hash (received cs i) \<noteq> parent_of cs p" using parent_of_neq [OF assms(1) f(1,4)] by (simp add: received_def)
    moreover have "map_option br_height (ref_before cs (Suc i)) = Some (word_of_nat i)" by (simp add: ref_before_def)
    ultimately show ?thesis using f(4)
      by (auto intro!: takes_to_blocks [OF c(2)] simp: s stream_reach_def Some r finalized_stream_def sub_of_def st f(3) ref_before_hash c(1))
  qed
qed

text \<open>
  C2. Whatever the node's subscriptions deliver of the finalized chain (blocks in any order, repeated or left out, disconnections,
  errors, subscriptions that fail, end or fall silent and are replaced within a stream), the blocks that the application gets over any
  number of streams are exactly those of the chain from the last stored one up to a height, once and in order. That height is the one
  that \<open>stream_reach\<close> gives from stream to stream: it is above the first block that the stream delivers, however far that is ahead, and
  follows the blocks received without a gap, across the replacement of silent subscriptions; a gap or an error ends the stream, and the
  next stream fills it. The node answers for every block of its chain, and every block can be made; a walk back along parents ends after
  at most as many steps as the chain has blocks.
\<close>

theorem indexer_receives_chain:
  assumes "canonical nd cs" "makes (make_block rt nl nd) cs" "k \<le> length cs" "length cs < steps"
    and "\<forall>j < n. subs_on_chain cs (subs j)"
  shows "let height = fold (\<lambda>j p. stream_reach p (subs j)) [0..<n] k in
    list_all2 (is_block cs) [k..<height]
      (oks (node_blocks (\<lambda>j after. finalized_blocks rt nl nd steps after (map (sub_of cs) (subs j))) 0 n (ref_before cs k)))
    \<and> k \<le> height
    \<and> (\<forall>j < n. \<forall>xs fin subs' i rest. subs j = Inr (xs, fin) # subs' \<and> first_fresh 0 xs = Some (i, rest) \<longrightarrow> i < height)"
proof -
  let ?top = "\<lambda>j p. stream_reach p (subs j)"
  let ?fin = "\<lambda>j after. finalized_blocks rt nl nd steps after (map (sub_of cs) (subs j))"
  have mb: "makes_blocks (make_block rt nl nd) cs" by (rule makes_make_block [OF assms(1,2)])
  have grows: "p \<le> fold ?top js p" for p js
    by (induction js arbitrary: p) (auto intro: order_trans [OF stream_reach_ge])
  have all: "list_all2 (is_block cs) [p..<fold ?top [j0..<j0 + m] p] (oks (node_blocks ?fin j0 m (ref_before cs p)))"
    if "j0 + m \<le> n" "p \<le> length cs" for j0 m p
    using that
  proof (induction m arbitrary: j0 p)
    case (Suc m)
    have "subs_on_chain cs (subs j0)" using assms(5) Suc.prems(1) by simp
    from finalized_stream_reach [OF assms(1) mb Suc.prems(2) assms(4) this]
    obtain zs where z: "?top j0 p \<le> length cs" "node_blocks_inner (ref_before cs p) (?fin j0 (ref_before cs p)) = (zs, ref_before cs (?top j0 p))"
        "list_all2 (is_block cs) [p..<?top j0 p] (oks zs)"
      unfolding takes_to_def finalized_blocks_def by blast
    have ih: "list_all2 (is_block cs) [?top j0 p..<fold ?top [Suc j0..<Suc j0 + m] (?top j0 p)] (oks (node_blocks ?fin (Suc j0) m (ref_before cs (?top j0 p))))"
      using Suc.IH [of "Suc j0" "?top j0 p"] Suc.prems(1) z(1) by simp
    have "fold ?top [j0..<j0 + Suc m] p = fold ?top [Suc j0..<Suc j0 + m] (?top j0 p)" by (simp add: upt_conv_Cons del: upt_Suc)
    then show ?case using list_all2_upt_append [OF z(3) ih stream_reach_ge grows] by (simp add: z(2))
  qed simp
  have first: "i < fold ?top [0..<n] k"
    if j: "j < n" "subs j = Inr (xs, fin) # subs'" "first_fresh 0 xs = Some (i, rest)" for j xs fin subs' i rest
  proof -
    let ?p = "fold ?top [0..<j] k"
    have up: "[0..<n] = [0..<j] @ j # [Suc j..<n]" using j(1) using upt_add_eq_append [of 0 j "n - j"] by (simp add: upt_conv_Cons)
    have "i < ?p \<or> first_fresh ?p xs = Some (i, rest)" using first_fresh_later [OF j(3)] by simp
    then have "i < ?top j ?p" using stream_reach_ge [of ?p "subs j"] reach_subs_ge [of "Suc i" rest fin subs']
      by (auto simp: j(2) stream_reach_def)
    then show ?thesis using grows [of "?top j ?p" "[Suc j..<n]"] unfolding up by simp
  qed
  show ?thesis unfolding Let_def using all [of 0 n k] assms(3) grows first by auto
qed

section \<open>Cached authorities\<close>











section \<open>A concrete node\<close>

text \<open>Blocks of runtime 2.1; a block whose raw events are not empty starts a session, and its state has other authorities.\<close>

definition sample_logs :: "digest_item list" where
  "sample_logs = [PreRuntime AURA_ENGINE_ID [5, 0, 0, 0, 0, 0, 0, 0], ConsensusDigest VERSION_ID [104, 136, 30, 0]]"

definition sample_kb :: "nat \<Rightarrow> bytes \<Rightarrow> bytes list \<Rightarrow> unit chain_block" where
  "sample_kb i events authorities =
     \<lparr>kb_hash = replicate 32 (word_of_nat (Suc i)), kb_number = word_of_nat i,
      kb_header = Inr \<lparr>hd_parent_hash = replicate 32 (word_of_nat i), hd_logs = sample_logs\<rparr>,
      kb_spec_version = 2001000, kb_has_consensus_engine_api = False, kb_extrinsics = Inr [], kb_legacy_body = Inr None, kb_events = Inr events,
      kb_authorities = (\<lambda>_. Inr (Inr authorities)), kb_zswap_state_root = (\<lambda>_. Answer (Inr [])), kb_ledger_state_root = (\<lambda>_. Inr []),
      kb_contract_state = (\<lambda>_ _. Inr []), kb_d_parameter = (\<lambda>_. Inl ()), kb_terms_and_conditions = (\<lambda>_. Inr None),
      kb_mappings = Inr [], kb_mapping = Inr []\<rparr>"

lemma sample_kb_simps [simp]:
  "kb_hash (sample_kb i ev a) = replicate 32 (word_of_nat (Suc i))" "kb_number (sample_kb i ev a) = word_of_nat i"
  "kb_header (sample_kb i ev a) = Inr \<lparr>hd_parent_hash = replicate 32 (word_of_nat i), hd_logs = sample_logs\<rparr>"
  "kb_spec_version (sample_kb i ev a) = 2001000" "\<not> kb_has_consensus_engine_api (sample_kb i ev a)" "kb_extrinsics (sample_kb i ev a) = Inr []"
  "kb_events (sample_kb i ev a) = Inr ev" "kb_authorities (sample_kb i ev a) = (\<lambda>_. Inr (Inr a))"
  "kb_zswap_state_root (sample_kb i ev a) = (\<lambda>_. Answer (Inr []))" "kb_ledger_state_root (sample_kb i ev a) = (\<lambda>_. Inr [])"
  "kb_mapping (sample_kb i ev a) = Inr []"
  by (simp_all add: sample_kb_def)

definition sample_runtime :: "unit runtime" where
  "sample_runtime = \<lparr>rt_decode_call = (\<lambda>_ _ _. Inr (Inr OtherCall)), rt_decode_events = (\<lambda>_ _ raw. if raw = [] then [] else [Inr (Inr NewSession)])\<rparr>"

definition sample_node_ledger :: "(unit, unit, unit, unit, unit) node_ledger" where
  "sample_node_ledger = \<lparr>nl_deserialize_v8 = (\<lambda>_. Inl ()), nl_deserialize_v9 = (\<lambda>_. Inl ()), nl_hash = (\<lambda>_. []), nl_identifiers = (\<lambda>_. Inr []),
     nl_address_v8 = (\<lambda>_. Inl ()), nl_address_v9 = (\<lambda>_. Inl ()), nl_deserialize_system = (\<lambda>_ _. Inl ()), nl_system_hash = (\<lambda>_. []),
     nl_deserialize_root = (\<lambda>_ _. Inr ())\<rparr>"

definition sample_chain :: "unit chain_block list" where
  "sample_chain = [sample_kb 0 [] [[1]], sample_kb 1 [1] [[2], [3]], sample_kb 2 [] [[2], [3]]]"

definition sample_node :: "unit node" where
  "sample_node =
     (let at = (\<lambda>hash. case find (\<lambda>b. kb_hash b = hash) sample_chain of None \<Rightarrow> Inl () | Some b \<Rightarrow> Inr b) in
      \<lparr>nd_at_hash = at, nd_at_height = (\<lambda>h. if unat h < length sample_chain then Inr (sample_chain ! unat h) else Inl ()),
       nd_parent_at = at, nd_genesis_hash = replicate 32 1\<rparr>)"

lemma sample_decode: "header_protocol_version sample_logs = Inr (Some (V2_1 2001000))"
  by (simp add: sample_logs_def try_from_bytes_def decode_u32_def scale_decode_def try_from_u32_def)

lemma sample_first_author:
  "first_author auths False sample_logs = Inr (index_get auths (unat (5 mod word_of_nat (length auths) :: u64)))"
  by (auto simp: sample_logs_def author_of_digest_def decode_slot_def scale_decode_def split: option.splits)

lemma sample_author:
  "author_from_digest_logs sample_logs auths False
     = Inr (if auths = [] then None else index_get auths (unat (5 mod word_of_nat (length auths) :: u64)))"
  by (simp add: author_from_digest_logs_def sample_first_author)

lemma sample_make_block:
  "make_block sample_runtime sample_node_ledger nd authorities (sample_kb i events auths) =
     (let a = (case authorities of None \<Rightarrow> auths | Some a \<Rightarrow> a) in
      Inr (if events = [] then Some a else None,
        \<lparr>nb_hash = replicate 32 (word_of_nat (Suc i)), nb_height = word_of_nat i, nb_protocol_version = V2_1 2001000,
         nb_parent_hash = replicate 32 (word_of_nat i),
         nb_author = (if a = [] then None else index_get a (unat (5 mod word_of_nat (length a) :: u64))), nb_timestamp = 0,
         nb_zswap_merkle_tree_root = (), nb_ledger_state_root = (if (word_of_nat i :: u64) = 0 then Some [] else None), nb_transactions = [],
         nb_dust_registration_events = [], nb_bridge_events = []\<rparr>))"
  by (simp add: make_block_def block_header_def sample_decode try_from_u32_def cached_authorities_def got_and_decoded_def sample_author
    get_zswap_merkle_tree_root_def sample_node_ledger_def sample_runtime_def content_source_def make_block_details_def block_details_v2_1_def
    runtime_block_details_def handle_event_def got_and_decoded_def genesis_details_def fetch_genesis_cnight_registrations_def genesis_registrations_v2_def
    timestamp_of_def Let_def split: option.split)

lemma sample_at: "nd_at_hash sample_node = (\<lambda>hash. case find (\<lambda>b. kb_hash b = hash) sample_chain of None \<Rightarrow> Inl () | Some b \<Rightarrow> Inr b)"
  "nd_parent_at sample_node = nd_at_hash sample_node" "nd_genesis_hash sample_node = replicate 32 1"
  "nd_at_height sample_node = (\<lambda>h. if unat h < length sample_chain then Inr (sample_chain ! unat h) else Inl ())"
  by (simp_all add: sample_node_def Let_def)

lemma sample_canonical: "canonical sample_node sample_chain"
proof -
  have "\<forall>i < 3. kb_number (sample_chain ! i) = word_of_nat i
         \<and> (\<exists>h. kb_header (sample_chain ! i) = Inr h \<and> hd_parent_hash h = parent_of sample_chain i)
         \<and> nd_at_height sample_node (word_of_nat i) = Inr (sample_chain ! i)
         \<and> nd_at_hash sample_node (kb_hash (sample_chain ! i)) = Inr (sample_chain ! i)
         \<and> nd_parent_at sample_node (kb_hash (sample_chain ! i)) = Inr (sample_chain ! i)"
    by (auto simp: sample_at sample_chain_def parent_of_def byte_array_default_def less_Suc_eq numeral_3_eq_3)
  then show ?thesis
    by (simp add: canonical_def sample_at(3) sample_chain_def byte_array_default_def)
qed

lemma sample_makes: "makes (make_block sample_runtime sample_node_ledger sample_node) sample_chain"
  by (auto simp: makes_def sample_chain_def sample_make_block Let_def less_Suc_eq numeral_3_eq_3)

text \<open>
  Two streams. In the first a subscription delivers block 1 after a disconnection and falls silent; the one that replaces it repeats
  block 1 and delivers block 2. In the second the subscription cannot be made.
\<close>

theorem indexer_receives_chain_witness:
  "let subs = (\<lambda>j :: nat. if j = 0 then [Inr ([Reconnect, AtHeight 1, AtHeight 0], Stuck), Inr ([AtHeight 1, AtHeight 2, Failure ()], Ended)]
        else [Inl ()]) in
   list_all2 (is_block sample_chain) [0, 1, 2]
     (oks (node_blocks (\<lambda>j after. finalized_blocks sample_runtime sample_node_ledger sample_node 4 after (map (sub_of sample_chain) (subs j))) 0 2 None))"
proof -
  let ?subs = "\<lambda>j :: nat. if j = 0 then [Inr ([Reconnect, AtHeight 1, AtHeight 0], Stuck), Inr ([AtHeight 1, AtHeight 2, Failure ()], Ended)]
        else [Inl ()]"
  have h: "fold (\<lambda>j p. stream_reach p (?subs j)) [0..<2] 0 = 3"
    by (simp add: stream_reach_def numeral_2_eq_2 reach_subs.simps)
  have on: "\<forall>j < 2. subs_on_chain sample_chain (?subs j)" by (auto simp: subs_on_chain_def on_chain_def sample_chain_def)
  have u: "[0..<3] = [0, 1, 2 :: nat]" by (simp add: upt_conv_Cons)
  have r: "ref_before sample_chain 0 = None" by (simp add: ref_before_def)
  show ?thesis
    using indexer_receives_chain [OF sample_canonical sample_makes, of 0 4 2 ?subs] on unfolding Let_def h u r by (simp add: sample_chain_def)
qed


text \<open>
  When the stream starts with a block in which a session starts, the authorities are read from its own state and the author is
  taken from the new ones, though the block was built by one of the old ones.
\<close>

lemma session_start_author:
  "map_ok (nb_author \<circ> snd) (make_block sample_runtime sample_node_ledger sample_node None (sample_chain ! 1)) = Inr (Some [3])"
  "map_ok (nb_author \<circ> snd) (make_block sample_runtime sample_node_ledger sample_node (Some [[1]]) (sample_chain ! 1)) = Inr (Some [1])"
  by (simp_all add: sample_chain_def sample_make_block index_get_def)

end
