(* ===== verification/Spo_Indexer.thy ===== *)
theory Spo_Indexer
  imports Chain_Schema "HOL-Library.List_Lexorder" "HOL-Library.Char_ord"
begin

text \<open>
  The SPO indexer (\<^verbatim>\<open>spo-indexer/src\<close>): it walks the epochs of the sidechain, records for each one the
  committee, the registered stake pools and their expected blocks, and refreshes stake data of the
  pools page by page in the background.

  What the node and Blockfrost answer is an argument, one answer for each call (\<open>spo_client\<close>); so
  are hex decoding, Blake2b and the calendar conversion of \<^verbatim>\<open>chrono\<close> (\<open>spo_env\<close>). Hash maps are association
  lists; the order in which the code meets the entries of a map it received is that of the list. Texts are compared
  by their characters. The columns \<^verbatim>\<open>updated_at\<close> and \<^verbatim>\<open>recorded_at\<close> of the stake tables and the pacing
  of requests are not modelled; a floating point number is stored as its bits.
\<close>

section \<open>Domain\<close>

record epoch =
  ep_no :: u32
  ep_starts_at :: i64
  ep_ends_at :: i64

record validator =
  va_epoch_no :: u64
  va_position :: u64
  va_sidechain_pubkey :: string

record validator_membership =
  vm_spo_sk :: string
  vm_sidechain_pubkey :: string
  vm_epoch_no :: u64
  vm_position :: u64
  vm_expected_slots :: u32

record pool_metadata =
  pm_pool_id :: string
  pm_hex_id :: string
  pm_name :: string
  pm_ticker :: string
  pm_homepage_url :: string
  pm_url :: string

definition placeholder :: "string \<Rightarrow> pool_metadata" where
  "placeholder cardano_id = \<lparr>pm_pool_id = cardano_id, pm_hex_id = cardano_id, pm_name = '''', pm_ticker = '''',
     pm_homepage_url = '''', pm_url = ''''\<rparr>"

record spo =
  spo_sk :: string
  spo_pool_id :: string
  spo_mainchain_pubkey :: string
  spo_sidechain_pubkey :: string
  spo_aura_pubkey :: string

record spo_epoch_performance =
  sp_spo_sk :: string
  sp_epoch_no :: u64
  sp_expected_blocks :: u32
  sp_produced_blocks :: u64
  sp_identity_label :: string

datatype spo_status = Valid | Invalid

record spo_history =
  sh_spo_sk :: string
  sh_epoch_no :: u64
  sh_status :: spo_status

definition status_to_string :: "spo_status \<Rightarrow> string" where
  "status_to_string s = (case s of Valid \<Rightarrow> ''VALID'' | Invalid \<Rightarrow> ''INVALID'')"

record utxo_ref =
  ur_utxo_id :: string
  ur_epoch_number :: u32
  ur_block_number :: u32
  ur_slot_number :: u64
  ur_tx_index_within_block :: u32

record candidate_registration =
  cr_sidechain_pub_key :: string
  cr_sidechain_account_id :: string
  cr_mainchain_pub_key :: string
  cr_cross_chain_pub_key :: string
  cr_aura :: string
  cr_gran :: string
  cr_sidechain_signature :: string
  cr_mainchain_signature :: string
  cr_cross_chain_signature :: string
  cr_utxo :: utxo_ref
  cr_is_valid :: bool
  cr_invalid_reasons :: "string option"

record pool_stake_data =
  psd_live_stake :: "i64 option"
  psd_active_stake :: "i64 option"
  psd_live_delegators :: "i64 option"
  psd_live_saturation :: "u64 option"
  psd_declared_pledge :: "i64 option"
  psd_live_pledge :: "i64 option"

definition remove_hex_prefix :: "string \<Rightarrow> string" where
  "remove_hex_prefix s = (if take 2 s = ''0x'' then drop 2 s else s)"

section \<open>Client\<close>

datatype spo_error = SpoClient string | SpoStorage sqlx_error | SpoPanic string

record chain_info =
  ci_epoch :: u32
  ci_next_epoch_timestamp :: i64

record sidechain_status =
  ss_mainchain :: chain_info
  ss_sidechain :: chain_info

record raw_pool_metadata =
  rpm_hex :: string
  rpm_name :: "string option"
  rpm_ticker :: "string option"
  rpm_homepage :: "string option"
  rpm_url :: "string option"

text \<open>
  The constants of the client and the answers to its calls: the status for the first and the second time it is
  asked, the timestamp of block 1, the committee (\<^term>\<open>None\<close> when the call fails, else the sidechain epoch and the
  keys, or an error of parsing), the registrations and Blockfrost's data of pools.
\<close>

record spo_client =
  cl_epoch_duration :: u32
  cl_slots_per_epoch :: u32
  cl_status :: "spo_error + sidechain_status"
  cl_status_again :: "spo_error + sidechain_status"
  cl_first_block_timestamp :: "spo_error + u64"
  cl_epoch_committee :: "u32 \<Rightarrow> (spo_error + u64 \<times> string list) option"
  cl_ariadne_parameters :: "u32 \<Rightarrow> spo_error + (string \<times> candidate_registration list) list"
  cl_pools_metadata :: "string \<Rightarrow> spo_error + raw_pool_metadata"
  cl_pool_data :: "string \<Rightarrow> spo_error + pool_stake_data"

record spo_env =
  se_hex_decode :: "string \<Rightarrow> bytes option"
  se_blake2b_28 :: "bytes \<Rightarrow> bytes"
  se_to_hex :: "bytes \<Rightarrow> string"
  se_from_timestamp :: "i64 \<Rightarrow> u32 \<Rightarrow> i64 option"

definition SLOT_DURATION :: u32 where
  "SLOT_DURATION = 6000"

definition current_epoch_of :: "spo_client \<Rightarrow> sidechain_status \<Rightarrow> epoch" where
  "current_epoch_of client st =
     \<lparr>ep_no = ci_epoch (ss_sidechain st),
      ep_starts_at = ci_next_epoch_timestamp (ss_sidechain st) - int (unat (cl_epoch_duration client)),
      ep_ends_at = ci_next_epoch_timestamp (ss_sidechain st)\<rparr>"

definition get_current_epoch :: "spo_client \<Rightarrow> spo_error + epoch" where
  "get_current_epoch client = map_ok (current_epoch_of client) (cl_status client)"

definition get_first_epoch_num :: "spo_client \<Rightarrow> spo_error + u32" where
  "get_first_epoch_num client =
     and_then (map_ok (current_epoch_of client) (cl_status_again client)) (\<lambda>current_epoch.
     and_then (cl_first_block_timestamp client) (\<lambda>block_timestamp.
       if cl_epoch_duration client = 0 then Inl (SpoPanic ''attempt to divide by zero'')
       else let num_epochs = (word_of_int (ep_ends_at current_epoch) - block_timestamp) div ucast (cl_epoch_duration client) :: u64 in
         Inr (ep_no current_epoch - ucast num_epochs)))"

definition clean_registration :: "candidate_registration \<Rightarrow> candidate_registration" where
  "clean_registration reg = reg\<lparr>cr_sidechain_pub_key := remove_hex_prefix (cr_sidechain_pub_key reg),
     cr_mainchain_pub_key := remove_hex_prefix (cr_mainchain_pub_key reg),
     cr_cross_chain_pub_key := remove_hex_prefix (cr_cross_chain_pub_key reg),
     cr_aura := remove_hex_prefix (cr_aura reg), cr_gran := remove_hex_prefix (cr_gran reg),
     cr_sidechain_signature := remove_hex_prefix (cr_sidechain_signature reg),
     cr_mainchain_signature := remove_hex_prefix (cr_mainchain_signature reg),
     cr_cross_chain_signature := remove_hex_prefix (cr_cross_chain_signature reg)\<rparr>"

fun map_insert :: "'k \<Rightarrow> 'v \<Rightarrow> ('k \<times> 'v) list \<Rightarrow> ('k \<times> 'v) list" where
  "map_insert k v [] = [(k, v)]"
| "map_insert k v ((k', v') # m) = (if k' = k then (k, v) # m else (k', v') # map_insert k v m)"

definition get_spo_registrations ::
  "spo_client \<Rightarrow> u32 \<Rightarrow> spo_error + (string \<times> candidate_registration list) list" where
  "get_spo_registrations client epoch_number =
     map_ok (\<lambda>response. fold (\<lambda>(key, registrations). map_insert (remove_hex_prefix key) (map clean_registration registrations)) response [])
       (cl_ariadne_parameters client epoch_number)"

definition get_committee :: "spo_client \<Rightarrow> u32 \<Rightarrow> spo_error + validator list" where
  "get_committee client epoch_number =
     (case cl_epoch_committee client epoch_number of
        None \<Rightarrow> Inr []
      | Some r \<Rightarrow> map_ok (\<lambda>(sidechain_epoch, keys). map (\<lambda>(index, pk).
            \<lparr>va_epoch_no = sidechain_epoch, va_position = word_of_nat index, va_sidechain_pubkey = remove_hex_prefix pk\<rparr>)
          (enumerate 0 keys)) r)"

definition text_or_default :: "string option \<Rightarrow> string" where
  "text_or_default t = (case t of None \<Rightarrow> '''' | Some s \<Rightarrow> s)"

definition get_pool_metadata :: "spo_client \<Rightarrow> string \<Rightarrow> spo_error + pool_metadata" where
  "get_pool_metadata client pool_id =
     map_ok (\<lambda>raw. \<lparr>pm_pool_id = pool_id, pm_hex_id = remove_hex_prefix (rpm_hex raw), pm_name = text_or_default (rpm_name raw),
         pm_ticker = text_or_default (rpm_ticker raw), pm_homepage_url = text_or_default (rpm_homepage raw),
         pm_url = text_or_default (rpm_url raw)\<rparr>)
       (cl_pools_metadata client pool_id)"

section \<open>Storage\<close>

record epoch_row =
  e_epoch_no :: i64
  e_starts_at :: i64
  e_ends_at :: i64

record pool_row =
  p_pool_id :: string
  p_hex_id :: string
  p_name :: string
  p_ticker :: string
  p_homepage_url :: string
  p_url :: string
  p_updated_at :: "i64 option"

record membership_row =
  m_spo_sk :: string
  m_sidechain_pubkey :: string
  m_epoch_no :: i64
  m_position :: i32
  m_expected_slots :: i32

record performance_row =
  f_spo_sk :: string
  f_identity_label :: string
  f_epoch_no :: i64
  f_expected_blocks :: i32
  f_produced_blocks :: i32

record history_row =
  h_spo_sk :: string
  h_epoch_no :: i64
  h_status :: string
  h_valid_from :: i64
  h_valid_to :: i64

record spo_db =
  epochs :: "epoch_row list"
  pool_metadata_cache :: "pool_row list"
  spo_identity :: "spo list"
  committee_membership :: "membership_row list"
  spo_performance :: "performance_row list"
  spo_histories :: "history_row list"
  stake_snapshots :: "(string \<times> pool_stake_data) list"
  stake_history :: "(string \<times> i64 option \<times> pool_stake_data) list"
  stake_refresh_cursor :: "string option"

definition empty_spo_db :: spo_db where
  "empty_spo_db = \<lparr>epochs = [], pool_metadata_cache = [], spo_identity = [], committee_membership = [], spo_performance = [],
     spo_histories = [], stake_snapshots = [], stake_history = [], stake_refresh_cursor = None\<rparr>"

definition get_latest_epoch :: "spo_db \<Rightarrow> epoch option" where
  "get_latest_epoch db =
     (case order_by_desc e_epoch_no (epochs db) of
        [] \<Rightarrow> None
      | r # _ \<Rightarrow> Some \<lparr>ep_no = word_of_int (e_epoch_no r), ep_starts_at = e_starts_at r, ep_ends_at = e_ends_at r\<rparr>)"

text \<open>
  \<^verbatim>\<open>DateTime::from_timestamp(millis / 1000, ((millis % 1000) * 1_000_000) as u32).unwrap_or_default()\<close>; the quotient
  and the remainder of Rust round towards zero.
\<close>

definition quot :: "int \<Rightarrow> int \<Rightarrow> int" where
  "quot a b = sgn a * sgn b * (\<bar>a\<bar> div \<bar>b\<bar>)"

definition rem :: "int \<Rightarrow> int \<Rightarrow> int" where
  "rem a b = a - quot a b * b"

definition datetime :: "spo_env \<Rightarrow> i64 \<Rightarrow> i64" where
  "datetime env millis =
     (case se_from_timestamp env (quot millis 1000) (word_of_int (rem millis 1000 * 1000000)) of None \<Rightarrow> 0 | Some t \<Rightarrow> t)"

definition save_epoch :: "spo_env \<Rightarrow> epoch \<Rightarrow> spo_db \<Rightarrow> sqlx_error + spo_db" where
  "save_epoch env e db =
     (if int (unat (ep_no e)) \<in> e_epoch_no ` set (epochs db) then Inl (UniqueViolation ''epochs'')
      else Inr (db\<lparr>epochs := epochs db @ [\<lparr>e_epoch_no = int (unat (ep_no e)),
          e_starts_at = datetime env (ep_starts_at e), e_ends_at = datetime env (ep_ends_at e)\<rparr>]\<rparr>))"

definition save_spo :: "spo \<Rightarrow> spo_db \<Rightarrow> sqlx_error + spo_db" where
  "save_spo s db =
     (if list_ex (\<lambda>si. spo_sk si = spo_sk s \<or> spo_mainchain_pubkey si = spo_mainchain_pubkey s
           \<or> spo_aura_pubkey si = spo_aura_pubkey s \<or> spo_sidechain_pubkey si = spo_sidechain_pubkey s) (spo_identity db)
      then Inr db
      else if spo_pool_id s \<notin> p_pool_id ` set (pool_metadata_cache db) then Inl (ForeignKeyViolation ''spo_identity'')
      else Inr (db\<lparr>spo_identity := spo_identity db @ [s]\<rparr>))"

definition insert_membership :: "spo_db \<Rightarrow> validator_membership \<Rightarrow> spo_db" where
  "insert_membership db member =
     (let row = \<lparr>m_spo_sk = vm_spo_sk member, m_sidechain_pubkey = vm_sidechain_pubkey member,
          m_epoch_no = as_i64 (vm_epoch_no member), m_position = sint (ucast (vm_position member) :: u32),
          m_expected_slots = sint (vm_expected_slots member)\<rparr> in
      if list_ex (\<lambda>r. m_epoch_no r = m_epoch_no row \<and> m_position r = m_position row) (committee_membership db) then db
      else db\<lparr>committee_membership := committee_membership db @ [row]\<rparr>)"

definition save_membership :: "validator_membership list \<Rightarrow> spo_db \<Rightarrow> spo_db" where
  "save_membership memberships db = foldl insert_membership db memberships"

definition save_spo_performance :: "spo_epoch_performance \<Rightarrow> spo_db \<Rightarrow> spo_db" where
  "save_spo_performance p db =
     (let row = \<lparr>f_spo_sk = sp_spo_sk p, f_identity_label = sp_identity_label p, f_epoch_no = as_i64 (sp_epoch_no p),
          f_expected_blocks = sint (sp_expected_blocks p), f_produced_blocks = sint (ucast (sp_produced_blocks p) :: u32)\<rparr> in
      if sp_spo_sk p \<notin> spo_sk ` set (spo_identity db) then db
      else if list_ex (\<lambda>r. f_epoch_no r = f_epoch_no row \<and> f_spo_sk r = f_spo_sk row) (spo_performance db) then db
      else db\<lparr>spo_performance := spo_performance db @ [row]\<rparr>)"

definition nonempty_or :: "string \<Rightarrow> string \<Rightarrow> string" where
  "nonempty_or new old = (if new \<noteq> '''' then new else old)"

definition save_pool_meta :: "i64 \<Rightarrow> pool_metadata \<Rightarrow> spo_db \<Rightarrow> sqlx_error + spo_db" where
  "save_pool_meta now m db =
     (if pm_pool_id m \<in> p_pool_id ` set (pool_metadata_cache db)
      then Inr (db\<lparr>pool_metadata_cache := map (\<lambda>r. if p_pool_id r = pm_pool_id m
          then r\<lparr>p_name := nonempty_or (pm_name m) (p_name r), p_ticker := nonempty_or (pm_ticker m) (p_ticker r),
                 p_homepage_url := nonempty_or (pm_homepage_url m) (p_homepage_url r),
                 p_url := nonempty_or (pm_url m) (p_url r), p_updated_at := Some now\<rparr>
          else r) (pool_metadata_cache db)\<rparr>)
      else if pm_hex_id m \<in> p_hex_id ` set (pool_metadata_cache db) then Inl (UniqueViolation ''pool_metadata_cache'')
      else Inr (db\<lparr>pool_metadata_cache := pool_metadata_cache db @ [\<lparr>p_pool_id = pm_pool_id m, p_hex_id = pm_hex_id m,
          p_name = pm_name m, p_ticker = pm_ticker m, p_homepage_url = pm_homepage_url m, p_url = pm_url m,
          p_updated_at = None\<rparr>]\<rparr>))"

definition save_spo_history_row :: "spo_history \<Rightarrow> spo_db \<Rightarrow> spo_db" where
  "save_spo_history_row h db =
     (let no = as_i64 (sh_epoch_no h); status = status_to_string (sh_status h) in
      if sh_spo_sk h \<notin> spo_sk ` set (spo_identity db) then db
      else if list_ex (\<lambda>r. h_spo_sk r = sh_spo_sk h \<and> h_epoch_no r = no) (spo_histories db)
      then db\<lparr>spo_histories := map (\<lambda>r. if h_spo_sk r = sh_spo_sk h \<and> h_epoch_no r = no
          then r\<lparr>h_valid_to := no, h_status := status\<rparr> else r) (spo_histories db)\<rparr>
      else db\<lparr>spo_histories := spo_histories db @ [\<lparr>h_spo_sk = sh_spo_sk h, h_epoch_no = no, h_status = status,
          h_valid_from = no, h_valid_to = no\<rparr>]\<rparr>)"

text \<open>
  \<^verbatim>\<open>ORDER BY updated_at DESC, pool_id ASC\<close>: PostgreSQL puts rows whose \<^verbatim>\<open>updated_at\<close> is null first, SQLite last.
\<close>

definition get_pool_ids :: "feature \<Rightarrow> nat \<Rightarrow> spo_db \<Rightarrow> string list" where
  "get_pool_ids feat limit db =
     (let rows = sort_key p_pool_id (pool_metadata_cache db);
          nulls = filter (\<lambda>r. p_updated_at r = None) rows;
          dated = sort_key (\<lambda>r. - the (p_updated_at r)) (filter (\<lambda>r. p_updated_at r \<noteq> None) rows) in
      map p_pool_id (take limit (case feat of Cloud \<Rightarrow> nulls @ dated | Standalone \<Rightarrow> dated @ nulls)))"

definition get_pool_ids_after :: "string \<Rightarrow> nat \<Rightarrow> spo_db \<Rightarrow> string list" where
  "get_pool_ids_after after limit db =
     take limit (sort (filter (\<lambda>i. after < i) (map p_pool_id (pool_metadata_cache db))))"

definition save_stake_snapshot :: "string \<Rightarrow> pool_stake_data \<Rightarrow> spo_db \<Rightarrow> sqlx_error + spo_db" where
  "save_stake_snapshot pool_id d db =
     (if pool_id \<notin> p_pool_id ` set (pool_metadata_cache db) then Inl (ForeignKeyViolation ''spo_stake_snapshot'')
      else Inr (db\<lparr>stake_snapshots := map_insert pool_id d (stake_snapshots db)\<rparr>))"

definition insert_stake_history :: "string \<Rightarrow> i64 option \<Rightarrow> pool_stake_data \<Rightarrow> spo_db \<Rightarrow> sqlx_error + spo_db" where
  "insert_stake_history pool_id mainchain_epoch d db =
     (if pool_id \<notin> p_pool_id ` set (pool_metadata_cache db) then Inl (ForeignKeyViolation ''spo_stake_history'')
      else Inr (db\<lparr>stake_history := stake_history db @ [(pool_id, mainchain_epoch, d)]\<rparr>))"

definition set_stake_refresh_cursor :: "string option \<Rightarrow> spo_db \<Rightarrow> spo_db" where
  "set_stake_refresh_cursor pool_id db = db\<lparr>stake_refresh_cursor := pool_id\<rparr>"

section \<open>Application\<close>

definition get_cardano_id :: "spo_env \<Rightarrow> string \<Rightarrow> spo_error + string" where
  "get_cardano_id env mainchain_pk =
     (case se_hex_decode env (remove_hex_prefix mainchain_pk) of
        None \<Rightarrow> Inl (SpoPanic ''input should be valid hex string'')
      | Some bs \<Rightarrow> Inr (remove_hex_prefix (se_to_hex env (se_blake2b_28 env bs))))"

definition get_epoch_to_process :: "spo_client \<Rightarrow> spo_db \<Rightarrow> spo_error + epoch option" where
  "get_epoch_to_process client db =
     and_then (get_current_epoch client) (\<lambda>current_epoch.
     map_ok (\<lambda>latest_epoch_num.
         let time_offset = (int (unat (ep_no current_epoch)) - int (unat latest_epoch_num)) * int (unat (cl_epoch_duration client)) in
         if time_offset = 0 then None
         else Some \<lparr>ep_no = latest_epoch_num + 1, ep_starts_at = ep_starts_at current_epoch - time_offset,
                ep_ends_at = ep_ends_at current_epoch - time_offset\<rparr>)
       (case get_latest_epoch db of Some e \<Rightarrow> Inr (ep_no e) | None \<Rightarrow> get_first_epoch_num client))"

definition get_expected_blocks :: "spo_client \<Rightarrow> epoch \<Rightarrow> u32 \<Rightarrow> u32" where
  "get_expected_blocks client e committee_size =
     min (cl_slots_per_epoch client) (word_of_int (ep_ends_at e - ep_starts_at e) div SLOT_DURATION) div committee_size"

definition committee_to_membership :: "spo_client \<Rightarrow> validator list \<Rightarrow> validator_membership list" where
  "committee_to_membership client committee =
     (if committee = [] then []
      else let slots_per_epoch = cl_slots_per_epoch client;
               num_validators = word_of_nat (length committee) :: u32;
               leftover = slots_per_epoch mod num_validators in
        map (\<lambda>(index, c). \<lparr>vm_spo_sk = remove_hex_prefix (va_sidechain_pubkey c),
            vm_sidechain_pubkey = remove_hex_prefix (va_sidechain_pubkey c), vm_epoch_no = va_epoch_no c,
            vm_position = va_position c,
            vm_expected_slots = slots_per_epoch div num_validators + (if word_of_nat index < leftover then 1 else 0)\<rparr>)
          (enumerate 0 committee))"

definition save_spo_history :: "candidate_registration \<Rightarrow> u64 \<Rightarrow> spo_db \<Rightarrow> spo_db" where
  "save_spo_history raw_spo no =
     save_spo_history_row \<lparr>sh_spo_sk = remove_hex_prefix (cr_sidechain_pub_key raw_spo), sh_epoch_no = no,
       sh_status = (if cr_is_valid raw_spo then Valid else Invalid)\<rparr>"

definition save_spo_identity :: "candidate_registration \<Rightarrow> string \<Rightarrow> spo_db \<Rightarrow> sqlx_error + spo_db" where
  "save_spo_identity raw_spo cardano_id =
     save_spo \<lparr>spo_sk = remove_hex_prefix (cr_sidechain_pub_key raw_spo), spo_pool_id = cardano_id,
       spo_mainchain_pubkey = remove_hex_prefix (cr_mainchain_pub_key raw_spo),
       spo_sidechain_pubkey = remove_hex_prefix (cr_sidechain_pub_key raw_spo), spo_aura_pubkey = remove_hex_prefix (cr_aura raw_spo)\<rparr>"

text \<open>The maps filled from the registrations before the transaction begins.\<close>

type_synonym entries = "(string \<times> candidate_registration) list"

definition val_to_registration :: "entries \<Rightarrow> (string \<times> candidate_registration) list" where
  "val_to_registration es = fold (\<lambda>(_, raw_spo). map_insert (remove_hex_prefix (cr_sidechain_pub_key raw_spo)) raw_spo) es []"

definition blocks_produced :: "entries \<Rightarrow> string \<Rightarrow> u32 option" where
  "blocks_produced es k =
     (let n = length (filter (\<lambda>(_, raw_spo). remove_hex_prefix (cr_sidechain_pub_key raw_spo) = k) es) in
      if n = 0 then None else Some (word_of_nat n))"

definition fetch_pool_metadata :: "spo_client \<Rightarrow> entries \<Rightarrow> (string \<times> pool_metadata) list" where
  "fetch_pool_metadata client es =
     fold (\<lambda>(cardano_id, _) ms. if cardano_id \<in> fst ` set ms then ms
        else ms @ [(cardano_id, case get_pool_metadata client cardano_id of Inl _ \<Rightarrow> placeholder cardano_id | Inr m \<Rightarrow> m)]) es []"

text \<open>The body of the loops over the registrations and over the committee.\<close>

definition save_entry ::
  "i64 \<Rightarrow> u32 \<Rightarrow> (string \<times> pool_metadata) list \<Rightarrow> spo_db \<Rightarrow> string \<times> candidate_registration \<Rightarrow> spo_error + spo_db" where
  "save_entry now no pools db = (\<lambda>(cardano_id, raw_spo).
     case map_of pools cardano_id of
       None \<Rightarrow> Inl (SpoPanic ''metadata inserted for every entry above'')
     | Some meta \<Rightarrow> map_err SpoStorage
         (and_then (save_pool_meta now meta db) (\<lambda>db.
          map_ok (save_spo_history raw_spo (ucast no)) (save_spo_identity raw_spo cardano_id db))))"

definition save_performance ::
  "spo_env \<Rightarrow> entries \<Rightarrow> epoch \<Rightarrow> u32 \<Rightarrow> u32 \<Rightarrow> spo_db \<Rightarrow> nat \<times> validator \<Rightarrow> spo_error + spo_db" where
  "save_performance env es e expected_blocks blocks_remainder db = (\<lambda>(index, v).
     let spo_sk = remove_hex_prefix (va_sidechain_pubkey v) in
     case blocks_produced es spo_sk of
       None \<Rightarrow> Inr db
     | Some produced_count \<Rightarrow>
         (case map_of (val_to_registration es) spo_sk of
            None \<Rightarrow> Inl (SpoPanic ''validator should have registration'')
          | Some raw_spo \<Rightarrow>
              map_ok (\<lambda>cardano_id. save_spo_performance \<lparr>sp_spo_sk = spo_sk, sp_epoch_no = ucast (ep_no e),
                  sp_expected_blocks = expected_blocks + (if word_of_nat index < blocks_remainder then 1 else 0),
                  sp_produced_blocks = ucast produced_count, sp_identity_label = cardano_id\<rparr> db)
                (get_cardano_id env (cr_mainchain_pub_key raw_spo))))"

definition save_performances ::
  "spo_env \<Rightarrow> spo_client \<Rightarrow> entries \<Rightarrow> epoch \<Rightarrow> validator list \<Rightarrow> spo_db \<Rightarrow> spo_error + spo_db" where
  "save_performances env client es e committee db =
     (if committee = [] then Inr db
      else let n = word_of_nat (length committee) :: u32 in
        try_fold (save_performance env es e (get_expected_blocks client e n) (cl_epoch_duration client mod n)) db
          (enumerate 0 committee))"

text \<open>
  One pass of the loop: what has been fetched is written in one transaction, so that an error leaves the database as it
  was. The result is the epoch processed, if any.
\<close>

definition save_epoch_data ::
  "spo_env \<Rightarrow> spo_client \<Rightarrow> i64 \<Rightarrow> epoch \<Rightarrow> validator list \<Rightarrow> entries \<Rightarrow> spo_db \<Rightarrow> spo_error + spo_db" where
  "save_epoch_data env client now e committee es db =
     and_then (map_err SpoStorage (save_epoch env e db)) (\<lambda>db.
     and_then (try_fold (save_entry now (ep_no e) (fetch_pool_metadata client es))
         (save_membership (committee_to_membership client committee) db) es)
       (save_performances env client es e committee))"

definition process_next_epoch ::
  "spo_env \<Rightarrow> spo_client \<Rightarrow> i64 \<Rightarrow> spo_db \<Rightarrow> (spo_error + epoch option) \<times> spo_db" where
  "process_next_epoch env client now db =
     (case get_epoch_to_process client db of
        Inl err \<Rightarrow> (Inl err, db)
      | Inr None \<Rightarrow> (Inr None, db)
      | Inr (Some e) \<Rightarrow>
          (case and_then (get_committee client (ep_no e)) (\<lambda>committee.
                and_then (get_spo_registrations client (ep_no e)) (\<lambda>registrations.
                and_then (try_map (\<lambda>reg. map_ok (\<lambda>i. (i, reg)) (get_cardano_id env (cr_mainchain_pub_key reg)))
                    (concat (map snd registrations))) (\<lambda>es.
                save_epoch_data env client now e committee es db))) of
             Inl err \<Rightarrow> (Inl err, db)
           | Inr db' \<Rightarrow> (Inr (Some e), db')))"

text \<open>
  A refresh of stake data. Each pool has a transaction of its own; the cursor moves after each pool, also when
  Blockfrost had no data for it. A failed transaction ends the refresh.
\<close>

definition refresh_pool :: "spo_client \<Rightarrow> i64 option \<Rightarrow> string \<Rightarrow> spo_db \<Rightarrow> spo_error option \<times> spo_db" where
  "refresh_pool client main_epoch pid db =
     (case cl_pool_data client pid of
        Inl _ \<Rightarrow> (None, set_stake_refresh_cursor (Some pid) db)
      | Inr d \<Rightarrow>
          (case and_then (save_stake_snapshot pid d db) (insert_stake_history pid main_epoch d) of
             Inl err \<Rightarrow> (Some (SpoStorage err), db)
           | Inr db' \<Rightarrow> (None, set_stake_refresh_cursor (Some pid) db')))"

fun refresh_pools :: "spo_client \<Rightarrow> i64 option \<Rightarrow> string list \<Rightarrow> spo_db \<Rightarrow> spo_error option \<times> spo_db" where
  "refresh_pools client main_epoch [] db = (None, db)"
| "refresh_pools client main_epoch (pid # pids) db =
     (case refresh_pool client main_epoch pid db of
        (Some err, db') \<Rightarrow> (Some err, db')
      | (None, db') \<Rightarrow> refresh_pools client main_epoch pids db')"

definition pools_to_refresh :: "feature \<Rightarrow> nat \<Rightarrow> spo_db \<Rightarrow> string list" where
  "pools_to_refresh feat limit db =
     (let first_page = (case stake_refresh_cursor db of Some after \<Rightarrow> get_pool_ids_after after limit db
        | None \<Rightarrow> get_pool_ids feat limit db) in
      if first_page = [] then get_pool_ids feat limit db else first_page)"

definition refresh_stake_snapshots :: "feature \<Rightarrow> spo_client \<Rightarrow> u32 \<Rightarrow> spo_db \<Rightarrow> spo_error option \<times> spo_db" where
  "refresh_stake_snapshots feat client page_size db =
     refresh_pools client (case cl_status client of Inl _ \<Rightarrow> None | Inr st \<Rightarrow> Some (int (unat (ci_epoch (ss_mainchain st)))))
       (pools_to_refresh feat (unat page_size) db) db"

end
