(* ===== verification/Spo_Props.thy ===== *)
theory Spo_Props
  imports Spo_Indexer Chain_Storage_Props "HOL-Library.Multiset"
begin

text \<open>
  What the SPO indexer keeps: the slots of an epoch are shared out exactly, the epochs are recorded one after the
  other, references between its tables hold, and a refresh of stake data reaches every pool when the pools are
  listed by their id. It also shows where the code departs from what it means to do.
\<close>

section \<open>Slots of the committee\<close>

lemma sum_enumerate_share:
  fixes q r :: nat
  assumes "r \<le> length xs"
  shows "sum_list (map (\<lambda>(i, _). q + (if i < r then 1 else 0)) (enumerate 0 xs)) = length xs * q + r"
proof -
  have shift: "sum_list (map (\<lambda>(i, _). q + (if i < r then 1 else 0)) (enumerate k ys)) = length ys * q + (min r (k + length ys) - min r k)"
    for k and ys :: "'a list"
  proof (induction ys arbitrary: k)
    case (Cons y ys)
    show ?case unfolding enumerate_simps list.map sum_list.Cons Cons.IH by (auto simp: min_def)
  qed simp
  show ?thesis using shift [of 0 xs] assms by simp
qed

lemma expected_slots:
  assumes "length committee < 2 ^ 32" and "index < length committee"
  shows "unat (cl_slots_per_epoch client div word_of_nat (length committee)
      + (if (word_of_nat index :: u32) < cl_slots_per_epoch client mod word_of_nat (length committee) then 1 else 0))
    = unat (cl_slots_per_epoch client) div length committee
      + (if index < unat (cl_slots_per_epoch client) mod length committee then 1 else 0)"
proof -
  let ?s = "cl_slots_per_epoch client" and ?n = "length committee"
  have n: "unat (word_of_nat ?n :: u32) = ?n" and i: "unat (word_of_nat index :: u32) = index"
    using assms by (simp_all add: unat_of_nat take_bit_nat_eq_self)
  have q: "unat (?s div word_of_nat ?n) = unat ?s div ?n" and r: "unat (?s mod word_of_nat ?n) = unat ?s mod ?n"
    using n by (simp_all add: unat_div unat_mod)
  show ?thesis
  proof (cases "index < unat ?s mod ?n")
    case True
    then have n2: "2 \<le> ?n" "0 < unat ?s" using assms(2) by (cases "?n = 1"; cases "unat ?s = 0"; force)+
    then have "unat ?s div ?n + 1 \<le> unat ?s"
      by (metis Suc_eq_plus1 Suc_leI div_less_dividend le_eq_less_or_eq less_le_trans one_less_numeral_iff semiring_norm(76))
    also have "\<dots> < 2 ^ 32" using unsigned_less [of ?s] by simp
    finally have "unat (?s div word_of_nat ?n + 1) = unat ?s div ?n + 1"
      using q by (simp add: unat_word_ariths(1))
    then show ?thesis using True by (simp add: word_less_nat_alt i r)
  qed (simp add: word_less_nat_alt i r q)
qed

text \<open>
  C37. The committee's membership shares out the slots of an epoch exactly: for a committee that is not empty and has fewer than
  \<^verbatim>\<open>2 ^ 32\<close> members, the entries follow the committee in order, each with the key of its member without its prefix, every member is expected to have
  the slots divided by the number of members, the first members, as many as the remainder, have one more, and the expected slots add up to
  the slots of the epoch.
\<close>

theorem membership_shares_slots:
  assumes "committee \<noteq> []" and "length committee < 2 ^ 32"
  shows "let q = unat (cl_slots_per_epoch client) div length committee; r = unat (cl_slots_per_epoch client) mod length committee in
    map (unat \<circ> vm_expected_slots) (committee_to_membership client committee)
      = map (\<lambda>i. q + (if i < r then 1 else 0)) [0..<length committee]
    \<and> sum_list (map (unat \<circ> vm_expected_slots) (committee_to_membership client committee)) = unat (cl_slots_per_epoch client)
    \<and> map (\<lambda>m. (vm_spo_sk m, vm_epoch_no m, vm_position m)) (committee_to_membership client committee)
      = map (\<lambda>c. (remove_hex_prefix (va_sidechain_pubkey c), va_epoch_no c, va_position c)) committee"
proof -
  let ?q = "unat (cl_slots_per_epoch client) div length committee" and ?r = "unat (cl_slots_per_epoch client) mod length committee"
  have slots: "map (unat \<circ> vm_expected_slots) (committee_to_membership client committee)
      = map (\<lambda>(i, _). ?q + (if i < ?r then 1 else 0)) (enumerate 0 committee)"
    unfolding committee_to_membership_def Let_def using assms
    by (auto simp: in_set_enumerate_eq expected_slots simp del: unat_plus_if')
  have "?r \<le> length committee" using assms(1) by (simp add: less_imp_le)
  then have "sum_list (map (unat \<circ> vm_expected_slots) (committee_to_membership client committee)) = length committee * ?q + ?r"
    unfolding slots by (rule sum_enumerate_share)
  then have total: "sum_list (map (unat \<circ> vm_expected_slots) (committee_to_membership client committee)) = unat (cl_slots_per_epoch client)"
    by (simp only: mult_div_mod_eq)
  have share: "map (\<lambda>(i, _). ?q + (if i < ?r then 1 else 0)) (enumerate 0 committee) = map (\<lambda>i. ?q + (if i < ?r then 1 else 0)) [0..<length committee]"
    by (rule nth_equalityI) (simp_all add: nth_enumerate_eq)
  have "map (\<lambda>m. (vm_spo_sk m, vm_epoch_no m, vm_position m)) (committee_to_membership client committee)
      = map (\<lambda>c. (remove_hex_prefix (va_sidechain_pubkey c), va_epoch_no c, va_position c)) committee"
    by (rule nth_equalityI) (use assms(1) in \<open>simp_all add: committee_to_membership_def Let_def nth_enumerate_eq\<close>)
  with total share slots show ?thesis unfolding Let_def by (metis (no_types, lifting))
qed

definition spo_sample_client :: spo_client where
  "spo_sample_client = \<lparr>cl_epoch_duration = 60000, cl_slots_per_epoch = 10,
     cl_status = Inr \<lparr>ss_mainchain = \<lparr>ci_epoch = 3, ci_next_epoch_timestamp = 900000\<rparr>,
       ss_sidechain = \<lparr>ci_epoch = 7, ci_next_epoch_timestamp = 480000\<rparr>\<rparr>,
     cl_status_again = Inl (SpoClient ''''), cl_first_block_timestamp = Inl (SpoClient ''''),
     cl_epoch_committee = (\<lambda>_. None), cl_ariadne_parameters = (\<lambda>_. Inr []), cl_pools_metadata = (\<lambda>_. Inl (SpoClient '''')),
     cl_pool_data = (\<lambda>_. Inr \<lparr>psd_live_stake = Some 5, psd_active_stake = None, psd_live_delegators = None,
       psd_live_saturation = None, psd_declared_pledge = None, psd_live_pledge = None\<rparr>)\<rparr>"

definition sample_validator :: "u64 \<Rightarrow> string \<Rightarrow> validator" where
  "sample_validator p k = \<lparr>va_epoch_no = 1, va_position = p, va_sidechain_pubkey = k\<rparr>"

theorem membership_shares_slots_witness:
  "map (unat \<circ> vm_expected_slots) (committee_to_membership spo_sample_client
     [sample_validator 0 ''0xa'', sample_validator 1 ''b'', sample_validator 2 ''c'']) = [4, 3, 3]"
  using membership_shares_slots [of "[sample_validator 0 ''0xa'', sample_validator 1 ''b'', sample_validator 2 ''c'']" spo_sample_client]
  by (simp add: spo_sample_client_def upt_rec)

text \<open>
  The expected blocks of the members' performance do not add up: the remainder is that of the epoch's duration in
  milliseconds and not that of its slots. Three members of an epoch of ten slots are expected to produce nine blocks.
\<close>

lemma expected_blocks_lose_slots:
  "let e = \<lparr>ep_no = 8, ep_starts_at = 420000, ep_ends_at = 480000\<rparr>;
       share = \<lambda>index. get_expected_blocks spo_sample_client e 3
         + (if word_of_nat index < cl_epoch_duration spo_sample_client mod 3 then 1 else 0) in
   sum_list (map (unat \<circ> share) [0, 1, 2]) = 9 \<and> unat (cl_slots_per_epoch spo_sample_client) = 10"
  by (simp add: get_expected_blocks_def spo_sample_client_def SLOT_DURATION_def)

text \<open>
  The epoch to process gets the number after the latest one, and the interval of the latest one: the interval recorded for an
  epoch is that of the epoch before.
\<close>

lemma epoch_interval_is_of_previous:
  assumes "get_epoch_to_process client db = Inr (Some e)" and "cl_status client = Inr st" and "ep_no e \<noteq> 0"
  defines "start \<equiv> \<lambda>k. ep_starts_at (current_epoch_of client st)
      - (int (unat (ci_epoch (ss_sidechain st))) - int k) * int (unat (cl_epoch_duration client))"
  shows "ep_starts_at e = start (unat (ep_no e) - 1)"
proof -
  obtain n where n: "ep_no e = n + 1" "ep_starts_at e = start (unat n)"
    using assms(1,2) by (auto simp: get_epoch_to_process_def get_current_epoch_def res_simps Let_def start_def current_epoch_of_def
        split: if_splits option.splits)
  moreover have "unat (n + 1) - 1 = unat n" using assms(3) n(1) by (metis unat_minus_one add_diff_cancel_right')
  ultimately show ?thesis by simp
qed

section \<open>Tables\<close>

definition pool_ids :: "spo_db \<Rightarrow> string list" where
  "pool_ids db = map p_pool_id (pool_metadata_cache db)"

definition hex_ids :: "spo_db \<Rightarrow> string list" where
  "hex_ids db = map p_hex_id (pool_metadata_cache db)"

definition history_keys :: "spo_db \<Rightarrow> (string \<times> i64) list" where
  "history_keys db = map (\<lambda>r. (h_spo_sk r, h_epoch_no r)) (spo_histories db)"

definition spo_keys :: "spo_db \<Rightarrow> string set" where
  "spo_keys db = spo_sk ` set (spo_identity db)"

text \<open>The constraints of the schema, which the indexer's statements rely on.\<close>

definition spo_ok :: "spo_db \<Rightarrow> bool" where
  "spo_ok db \<longleftrightarrow> distinct (pool_ids db) \<and> distinct (hex_ids db)
     \<and> distinct (map spo_sk (spo_identity db)) \<and> distinct (map spo_mainchain_pubkey (spo_identity db))
     \<and> distinct (map spo_aura_pubkey (spo_identity db)) \<and> distinct (map spo_sidechain_pubkey (spo_identity db))
     \<and> spo_pool_id ` set (spo_identity db) \<subseteq> set (pool_ids db)
     \<and> distinct (map (\<lambda>r. (m_epoch_no r, m_position r)) (committee_membership db))
     \<and> distinct (map (\<lambda>r. (f_epoch_no r, f_spo_sk r)) (spo_performance db))
     \<and> f_spo_sk ` set (spo_performance db) \<subseteq> spo_keys db
     \<and> distinct (history_keys db) \<and> fst ` set (history_keys db) \<subseteq> spo_keys db
     \<and> distinct (map fst (stake_snapshots db)) \<and> fst ` set (stake_snapshots db) \<subseteq> set (pool_ids db)
     \<and> fst ` set (stake_history db) \<subseteq> set (pool_ids db)"

text \<open>What a later state keeps of an earlier one, the epochs aside.\<close>

definition spo_extends :: "spo_db \<Rightarrow> spo_db \<Rightarrow> bool" where
  "spo_extends db db' \<longleftrightarrow> prefix (pool_ids db) (pool_ids db') \<and> prefix (spo_identity db) (spo_identity db')
     \<and> prefix (committee_membership db) (committee_membership db') \<and> prefix (spo_performance db) (spo_performance db')
     \<and> prefix (history_keys db) (history_keys db')"

definition spo_step_ok :: "spo_db \<Rightarrow> spo_db \<Rightarrow> bool" where
  "spo_step_ok db db' \<longleftrightarrow> (spo_ok db \<longrightarrow> spo_ok db') \<and> spo_extends db db' \<and> epochs db' = epochs db"

lemma spo_step_ok_refl [simp]: "spo_step_ok db db"
  by (simp add: spo_step_ok_def spo_extends_def)

lemma spo_step_ok_trans: "spo_step_ok db db' \<Longrightarrow> spo_step_ok db' db'' \<Longrightarrow> spo_step_ok db db''"
  unfolding spo_step_ok_def spo_extends_def by (auto dest: prefix_order.trans)

lemmas spo_view_defs = pool_ids_def hex_ids_def history_keys_def spo_keys_def

lemma spo_view_updates [simp]:
  "pool_ids (db\<lparr>spo_identity := a\<rparr>) = pool_ids db" "hex_ids (db\<lparr>spo_identity := a\<rparr>) = hex_ids db"
  "history_keys (db\<lparr>spo_identity := a\<rparr>) = history_keys db" "spo_keys (db\<lparr>spo_identity := a\<rparr>) = spo_sk ` set a"
  "pool_ids (db\<lparr>committee_membership := b\<rparr>) = pool_ids db" "hex_ids (db\<lparr>committee_membership := b\<rparr>) = hex_ids db"
  "history_keys (db\<lparr>committee_membership := b\<rparr>) = history_keys db" "spo_keys (db\<lparr>committee_membership := b\<rparr>) = spo_keys db"
  "pool_ids (db\<lparr>spo_performance := c\<rparr>) = pool_ids db" "hex_ids (db\<lparr>spo_performance := c\<rparr>) = hex_ids db"
  "history_keys (db\<lparr>spo_performance := c\<rparr>) = history_keys db" "spo_keys (db\<lparr>spo_performance := c\<rparr>) = spo_keys db"
  "pool_ids (db\<lparr>spo_histories := d\<rparr>) = pool_ids db" "hex_ids (db\<lparr>spo_histories := d\<rparr>) = hex_ids db"
  "history_keys (db\<lparr>spo_histories := d\<rparr>) = map (\<lambda>r. (h_spo_sk r, h_epoch_no r)) d" "spo_keys (db\<lparr>spo_histories := d\<rparr>) = spo_keys db"
  "pool_ids (db\<lparr>pool_metadata_cache := e\<rparr>) = map p_pool_id e" "hex_ids (db\<lparr>pool_metadata_cache := e\<rparr>) = map p_hex_id e"
  "history_keys (db\<lparr>pool_metadata_cache := e\<rparr>) = history_keys db" "spo_keys (db\<lparr>pool_metadata_cache := e\<rparr>) = spo_keys db"
  "pool_ids (db\<lparr>stake_snapshots := f\<rparr>) = pool_ids db" "hex_ids (db\<lparr>stake_snapshots := f\<rparr>) = hex_ids db"
  "history_keys (db\<lparr>stake_snapshots := f\<rparr>) = history_keys db" "spo_keys (db\<lparr>stake_snapshots := f\<rparr>) = spo_keys db"
  "pool_ids (db\<lparr>stake_history := g\<rparr>) = pool_ids db" "hex_ids (db\<lparr>stake_history := g\<rparr>) = hex_ids db"
  "history_keys (db\<lparr>stake_history := g\<rparr>) = history_keys db" "spo_keys (db\<lparr>stake_history := g\<rparr>) = spo_keys db"
  "pool_ids (db\<lparr>stake_refresh_cursor := k\<rparr>) = pool_ids db" "hex_ids (db\<lparr>stake_refresh_cursor := k\<rparr>) = hex_ids db"
  "history_keys (db\<lparr>stake_refresh_cursor := k\<rparr>) = history_keys db" "spo_keys (db\<lparr>stake_refresh_cursor := k\<rparr>) = spo_keys db"
  "pool_ids (db\<lparr>epochs := l\<rparr>) = pool_ids db" "hex_ids (db\<lparr>epochs := l\<rparr>) = hex_ids db"
  "history_keys (db\<lparr>epochs := l\<rparr>) = history_keys db" "spo_keys (db\<lparr>epochs := l\<rparr>) = spo_keys db"
  by (simp_all add: spo_view_defs)

lemma pool_ids_image: "p_pool_id ` set (pool_metadata_cache db) = set (pool_ids db)"
  "p_hex_id ` set (pool_metadata_cache db) = set (hex_ids db)" "spo_sk ` set (spo_identity db) = spo_keys db"
  by (simp_all add: spo_view_defs)

lemma map_update_key: "(\<And>x. k (f x) = k x) \<Longrightarrow> map k (map (\<lambda>x. if P x then f x else x) xs) = map k xs"
  by simp

lemma save_spo_step:
  assumes "save_spo s db = Inr db'"
  shows "spo_step_ok db db'"
proof (cases "db' = db")
  case False
  then have db': "db' = db\<lparr>spo_identity := spo_identity db @ [s]\<rparr>" "spo_pool_id s \<in> set (pool_ids db)"
    and new: "\<And>si. si \<in> set (spo_identity db) \<Longrightarrow> spo_sk si \<noteq> spo_sk s \<and> spo_mainchain_pubkey si \<noteq> spo_mainchain_pubkey s
      \<and> spo_aura_pubkey si \<noteq> spo_aura_pubkey s \<and> spo_sidechain_pubkey si \<noteq> spo_sidechain_pubkey s"
    using assms unfolding save_spo_def pool_ids_image by (auto simp: list_ex_iff split: if_splits)
  have "spo_sk s \<notin> spo_sk ` set (spo_identity db)" "spo_mainchain_pubkey s \<notin> spo_mainchain_pubkey ` set (spo_identity db)"
    "spo_aura_pubkey s \<notin> spo_aura_pubkey ` set (spo_identity db)" "spo_sidechain_pubkey s \<notin> spo_sidechain_pubkey ` set (spo_identity db)"
    using new by (metis imageE)+
  then show ?thesis using db'(2) unfolding db'(1) spo_step_ok_def spo_ok_def spo_extends_def
    by (simp add: spo_keys_def subset_insertI2)
qed simp

lemma insert_membership_step: "spo_step_ok db (insert_membership db m)"
  by (auto simp: insert_membership_def Let_def spo_step_ok_def spo_ok_def spo_extends_def list_ex_iff)

lemma save_membership_step: "spo_step_ok db (save_membership ms db)"
  unfolding save_membership_def
  by (induction ms arbitrary: db) (auto intro: spo_step_ok_trans insert_membership_step)

lemma save_spo_performance_step: "spo_step_ok db (save_spo_performance p db)"
  unfolding save_spo_performance_def pool_ids_image
  by (auto simp: Let_def spo_step_ok_def spo_ok_def spo_extends_def list_ex_iff)

lemma save_pool_meta_step:
  assumes "save_pool_meta now m db = Inr db'"
  shows "spo_step_ok db db'"
proof (cases "pm_pool_id m \<in> set (pool_ids db)")
  case True
  then obtain f P where "db' = db\<lparr>pool_metadata_cache := map (\<lambda>r. if P r then f r else r) (pool_metadata_cache db)\<rparr>"
    "\<And>r. p_pool_id (f r) = p_pool_id r" "\<And>r. p_hex_id (f r) = p_hex_id r"
    using assms unfolding save_pool_meta_def pool_ids_image by force
  then show ?thesis unfolding spo_step_ok_def spo_ok_def spo_extends_def
    by (simp add: map_update_key pool_ids_def [symmetric] hex_ids_def [symmetric] del: map_map)
next
  case False
  then obtain r where "db' = db\<lparr>pool_metadata_cache := pool_metadata_cache db @ [r]\<rparr>" "p_pool_id r \<notin> set (pool_ids db)"
    "p_hex_id r \<notin> set (hex_ids db)"
    using assms unfolding save_pool_meta_def pool_ids_image by (auto split: if_splits)
  then show ?thesis unfolding spo_step_ok_def spo_ok_def spo_extends_def
    by (auto simp: pool_ids_def hex_ids_def)
qed

lemma save_spo_history_row_step: "spo_step_ok db (save_spo_history_row h db)"
proof (cases "sh_spo_sk h \<in> spo_keys db")
  case known: True
  let ?k = "(sh_spo_sk h, as_i64 (sh_epoch_no h))"
  have ex: "list_ex (\<lambda>r. h_spo_sk r = sh_spo_sk h \<and> h_epoch_no r = as_i64 (sh_epoch_no h)) (spo_histories db) \<longleftrightarrow> ?k \<in> set (history_keys db)"
    by (force simp: list_ex_iff history_keys_def)
  show ?thesis
  proof (cases "?k \<in> set (history_keys db)")
    case True
    then obtain f P where "save_spo_history_row h db = db\<lparr>spo_histories := map (\<lambda>r. if P r then f r else r) (spo_histories db)\<rparr>"
      "\<And>r. (h_spo_sk (f r), h_epoch_no (f r)) = (h_spo_sk r, h_epoch_no r)"
      using known unfolding save_spo_history_row_def pool_ids_image Let_def ex by force
    then show ?thesis unfolding spo_step_ok_def spo_ok_def spo_extends_def
      by (simp add: map_update_key [of "\<lambda>r. (h_spo_sk r, h_epoch_no r)"] history_keys_def [symmetric] del: map_map)
  next
    case False
    then obtain r where "save_spo_history_row h db = db\<lparr>spo_histories := spo_histories db @ [r]\<rparr>" "(h_spo_sk r, h_epoch_no r) = ?k"
      using known unfolding save_spo_history_row_def pool_ids_image Let_def ex by auto
    then show ?thesis using False known unfolding spo_step_ok_def spo_ok_def spo_extends_def
      by (auto simp: history_keys_def [symmetric])
  qed
qed (simp add: save_spo_history_row_def spo_keys_def)

section \<open>Processing an epoch\<close>

lemma save_entry_step: "save_entry now no pools db en = Inr db' \<Longrightarrow> spo_step_ok db db'"
proof -
  assume "save_entry now no pools db en = Inr db'"
  then obtain meta db1 db2 s h where "save_pool_meta now meta db = Inr db1" "save_spo s db1 = Inr db2" "db' = save_spo_history_row h db2"
    by (auto simp: save_entry_def save_spo_identity_def save_spo_history_def res_simps split: prod.splits option.splits)
  then show ?thesis using save_pool_meta_step save_spo_step save_spo_history_row_step spo_step_ok_trans by metis
qed

lemma save_performance_step: "save_performance env es e x r db iv = Inr db' \<Longrightarrow> spo_step_ok db db'"
  by (auto simp: save_performance_def Let_def res_simps save_spo_performance_step split: prod.splits option.splits)

lemma try_fold_step:
  assumes "try_fold f db xs = Inr db'" and "\<And>db x db'. f db x = Inr db' \<Longrightarrow> spo_step_ok db db'"
  shows "spo_step_ok db db'"
  using try_fold_invariant [OF assms(1), of "spo_step_ok db"] assms(2) spo_step_ok_trans by auto

lemma save_performances_step: "save_performances env client es e committee db = Inr db' \<Longrightarrow> spo_step_ok db db'"
  by (auto simp: save_performances_def Let_def split: if_splits intro: try_fold_step save_performance_step)

lemma save_epoch_data_Inr:
  assumes "save_epoch_data env client now e committee es db = Inr db'"
  shows "epochs db' = epochs db @ [\<lparr>e_epoch_no = int (unat (ep_no e)), e_starts_at = datetime env (ep_starts_at e),
      e_ends_at = datetime env (ep_ends_at e)\<rparr>]"
    "int (unat (ep_no e)) \<notin> e_epoch_no ` set (epochs db)" "spo_extends db db'" "spo_ok db \<Longrightarrow> spo_ok db'"
proof -
  obtain db1 db3 where db1: "save_epoch env e db = Inr db1"
    and db3: "try_fold (save_entry now (ep_no e) (fetch_pool_metadata client es)) (save_membership (committee_to_membership client committee) db1) es = Inr db3"
    and db': "save_performances env client es e committee db3 = Inr db'"
    using assms by (auto simp: save_epoch_data_def res_simps)
  have "spo_step_ok db1 db'"
    using save_membership_step try_fold_step [OF db3] save_entry_step save_performances_step [OF db'] spo_step_ok_trans by meson
  moreover have db1_eq: "db1 = db\<lparr>epochs := epochs db1\<rparr>" and "int (unat (ep_no e)) \<notin> e_epoch_no ` set (epochs db)"
    "epochs db1 = epochs db @ [\<lparr>e_epoch_no = int (unat (ep_no e)), e_starts_at = datetime env (ep_starts_at e),
      e_ends_at = datetime env (ep_ends_at e)\<rparr>]"
    using db1 by (auto simp: save_epoch_def split: if_splits)
  moreover have "spo_ok (db\<lparr>epochs := l\<rparr>) = spo_ok db" "spo_extends (db\<lparr>epochs := l\<rparr>) db' = spo_extends db db'" for l
    by (simp_all add: spo_ok_def spo_extends_def)
  then have "spo_ok db1 = spo_ok db" "spo_extends db1 db' = spo_extends db db'" using db1_eq by metis+
  ultimately show "epochs db' = epochs db @ [\<lparr>e_epoch_no = int (unat (ep_no e)), e_starts_at = datetime env (ep_starts_at e),
      e_ends_at = datetime env (ep_ends_at e)\<rparr>]"
    "int (unat (ep_no e)) \<notin> e_epoch_no ` set (epochs db)" "spo_extends db db'" "spo_ok db \<Longrightarrow> spo_ok db'"
    by (auto simp: spo_step_ok_def)
qed

lemma process_next_epoch_cases:
  assumes "process_next_epoch env client now db = (r, db')"
  obtains "db' = db" "\<And>e. r \<noteq> Inr (Some e)"
  | e committee es where "r = Inr (Some e)" "get_epoch_to_process client db = Inr (Some e)"
      "save_epoch_data env client now e committee es db = Inr db'"
proof (cases "get_epoch_to_process client db")
  case (Inl err)
  then have "r = Inl err" "db' = db" using assms by (simp_all add: process_next_epoch_def)
  then show thesis using that(1) by simp
next
  case (Inr oe)
  show thesis
  proof (cases oe)
    case None
    then have "r = Inr None" "db' = db" using assms Inr by (simp_all add: process_next_epoch_def)
    then show thesis using that(1) by simp
  next
    case (Some e)
    let ?res = "and_then (get_committee client (ep_no e)) (\<lambda>committee.
                and_then (get_spo_registrations client (ep_no e)) (\<lambda>registrations.
                and_then (try_map (\<lambda>reg. map_ok (\<lambda>i. (i, reg)) (get_cardano_id env (cr_mainchain_pub_key reg)))
                    (concat (map snd registrations))) (\<lambda>es.
                save_epoch_data env client now e committee es db)))"
    show thesis
    proof (cases ?res)
      case (Inl err)
      then have "r = Inl err" "db' = db"
        using assms \<open>get_epoch_to_process client db = Inr oe\<close> Some by (simp_all add: process_next_epoch_def)
      then show thesis using that(1) by simp
    next
      case (Inr d)
      then have "r = Inr (Some e)" "d = db'"
        using assms \<open>get_epoch_to_process client db = Inr oe\<close> Some by (simp_all add: process_next_epoch_def)
      moreover obtain committee es where "save_epoch_data env client now e committee es db = Inr d" using Inr by (auto simp: res_simps)
      ultimately show thesis using that(2) \<open>get_epoch_to_process client db = Inr oe\<close> Some by blast
    qed
  qed
qed

text \<open>
  Runs of the indexer: epochs are processed one after the other, and at any time a pool's stake data may be refreshed. The
  number of the epoch does not wrap around.
\<close>

inductive spo_run :: "spo_env \<Rightarrow> spo_db \<Rightarrow> bool" for env where
  start: "spo_run env empty_spo_db"
| process: "spo_run env db \<Longrightarrow> process_next_epoch env client now db = (r, db') \<Longrightarrow> (\<And>e. r = Inr (Some e) \<Longrightarrow> ep_no e \<noteq> 0)
    \<Longrightarrow> spo_run env db'"
| refresh: "spo_run env db \<Longrightarrow> refresh_pool client main_epoch pid db = (r, db') \<Longrightarrow> spo_run env db'"

definition consecutive_epochs :: "spo_db \<Rightarrow> bool" where
  "consecutive_epochs db \<longleftrightarrow> (\<exists>first. map e_epoch_no (epochs db) = [first + 1..first + int (length (epochs db))])
     \<and> list_all (\<lambda>r. 0 \<le> e_epoch_no r \<and> e_epoch_no r < 2 ^ 32) (epochs db)"

lemma latest_epoch_last:
  assumes "consecutive_epochs db" and "epochs db \<noteq> []"
  shows "\<exists>e. get_latest_epoch db = Some e \<and> int (unat (ep_no e)) = e_epoch_no (last (epochs db))"
proof -
  obtain rs r where rs: "epochs db = rs @ [r]" using assms(2) by (metis append_butlast_last_id)
  obtain first where f: "map e_epoch_no (rs @ [r]) = [first + 1..first + int (length (rs @ [r]))]"
    using assms(1) rs by (auto simp: consecutive_epochs_def)
  have "[first + 1..first + int (length (rs @ [r]))] = [first + 1..first + int (length rs)] @ [first + int (length rs) + 1]"
    by (simp add: upto_rec2 add.assoc)
  then have "map e_epoch_no rs = [first + 1..first + int (length rs)]" "e_epoch_no r = first + int (length rs) + 1" using f by auto
  then have "e_epoch_no x < e_epoch_no r" if "x \<in> set rs" for x
    using that by (metis (no_types, lifting) atLeastAtMost_iff image_eqI le_imp_less_Suc list.set_map set_upto zless_add1_eq order_le_less_trans)
  then have "order_by_desc e_epoch_no (epochs db) = r # order_by_desc e_epoch_no rs" unfolding rs by (rule order_by_desc_snoc)
  moreover have "0 \<le> e_epoch_no r" "e_epoch_no r < 2 ^ 32" using assms(1) rs by (auto simp: consecutive_epochs_def)
  ultimately show ?thesis by (simp add: get_latest_epoch_def rs uint_word_of_int_eq take_bit_int_eq_self)
qed

lemma next_epoch_number:
  assumes "get_epoch_to_process client db = Inr (Some e)" and "get_latest_epoch db = Some l" and "ep_no e \<noteq> 0"
  shows "int (unat (ep_no e)) = int (unat (ep_no l)) + 1"
proof -
  have "ep_no e = ep_no l + 1"
    using assms(1,2) by (auto simp: get_epoch_to_process_def res_simps Let_def split: if_splits)
  moreover from this have "unat (ep_no l) = unat (ep_no e) - 1" using assms(3) by (metis add_diff_cancel_right' unat_minus_one)
  moreover have "0 < unat (ep_no e)" using assms(3) by (simp add: unat_gt_0)
  ultimately show ?thesis by linarith
qed

lemma process_consecutive:
  assumes "consecutive_epochs db" and "process_next_epoch env client now db = (r, db')" and "\<And>e. r = Inr (Some e) \<Longrightarrow> ep_no e \<noteq> 0"
  shows "consecutive_epochs db'"
  using assms(2)
proof (cases rule: process_next_epoch_cases)
  case (2 e committee es)
  let ?n = "int (unat (ep_no e))"
  obtain row where row: "epochs db' = epochs db @ [row]" "e_epoch_no row = ?n" using save_epoch_data_Inr(1) [OF 2(3)] by auto
  have n: "0 \<le> ?n" "?n < 2 ^ 32" using unsigned_less [of "ep_no e", where 'a = int] by simp_all
  obtain first where f: "map e_epoch_no (epochs db) = [first + 1..first + int (length (epochs db))]"
    using assms(1) by (auto simp: consecutive_epochs_def)
  have "\<exists>first. map e_epoch_no (epochs db') = [first + 1..first + int (length (epochs db'))]"
  proof (cases "epochs db = []")
    case True
    then show ?thesis using row by (intro exI [of _ "?n - 1"]) simp
  next
    case False
    obtain l where l: "get_latest_epoch db = Some l" "int (unat (ep_no l)) = e_epoch_no (last (epochs db))"
      using latest_epoch_last [OF assms(1) False] by blast
    have "e_epoch_no (last (epochs db)) = last [first + 1..first + int (length (epochs db))]"
      using f False by (metis last_map)
    also have "\<dots> = first + int (length (epochs db))" using False by (cases "epochs db") (simp_all add: upto_rec2)
    finally have "?n = first + int (length (epochs db)) + 1"
      using next_epoch_number [OF 2(2) l(1) assms(3) [OF 2(1)]] l(2) by simp
    then show ?thesis using f row by (intro exI [of _ first]) (simp add: upto_rec2 add.assoc)
  qed
  then show ?thesis using assms(1) row n by (auto simp: consecutive_epochs_def)
qed (use assms(1) in simp)

lemma keys_map_insert: "fst ` set (map_insert k v m) = insert k (fst ` set m)"
  by (induction k v m rule: map_insert.induct) auto

lemma distinct_map_insert: "distinct (map fst m) \<Longrightarrow> distinct (map fst (map_insert k v m))"
proof (induction m)
  case (Cons p m)
  then show ?case by (cases p) (auto simp: keys_map_insert)
qed simp

lemma refresh_pool_step: "refresh_pool client me pid db = (r, db') \<Longrightarrow> spo_step_ok db db'"
  by (auto simp: refresh_pool_def save_stake_snapshot_def insert_stake_history_def set_stake_refresh_cursor_def pool_ids_image
      split: sum.splits if_splits)
    (auto simp: spo_step_ok_def spo_ok_def spo_extends_def keys_map_insert distinct_map_insert)

lemma spo_run_ok:
  assumes "spo_run env db"
  shows "spo_ok db \<and> consecutive_epochs db"
  using assms
proof induction
  case start
  show ?case by (simp add: empty_spo_db_def spo_ok_def consecutive_epochs_def spo_view_defs)
next
  case (process db client now r db')
  have "spo_ok db'"
    using process(2) by (cases rule: process_next_epoch_cases) (use process save_epoch_data_Inr(4) in blast)+
  then show ?case using process_consecutive process by blast
next
  case (refresh db client main_epoch pid r db')
  then show ?case using refresh_pool_step [OF refresh(2)] by (simp add: spo_step_ok_def consecutive_epochs_def)
qed

text \<open>
  C35. However processing of epochs and refreshes of stake data interleave and fail, the tables of the SPO indexer
  keep their keys unique and their references intact, and the epochs recorded are consecutive: none is skipped
  and none is recorded twice.
\<close>

theorem spo_tables_consistent:
  assumes "spo_run env db"
  shows "spo_ok db \<and> consecutive_epochs db"
  by (rule spo_run_ok [OF assms])

definition spo_sample_env :: spo_env where
  "spo_sample_env = \<lparr>se_hex_decode = (\<lambda>_. Some []), se_blake2b_28 = (\<lambda>_. []), se_to_hex = (\<lambda>_. ''aa''),
     se_from_timestamp = (\<lambda>s n. Some (s * 1000 + int (unat n) div 1000000))\<rparr>"

definition spo_sample_pool :: "string \<Rightarrow> i64 option \<Rightarrow> pool_row" where
  "spo_sample_pool pid at = \<lparr>p_pool_id = pid, p_hex_id = pid, p_name = '''', p_ticker = '''', p_homepage_url = '''', p_url = '''',
     p_updated_at = at\<rparr>"

theorem spo_tables_consistent_witness:
  "consecutive_epochs (snd (process_next_epoch spo_sample_env (spo_sample_client\<lparr>cl_status_again := cl_status spo_sample_client,
     cl_first_block_timestamp := Inr 130000\<rparr>) 0 empty_spo_db))"
proof -
  let ?client = "spo_sample_client\<lparr>cl_status_again := cl_status spo_sample_client, cl_first_block_timestamp := Inr 130000\<rparr>"
  obtain db' where step: "process_next_epoch spo_sample_env ?client 0 empty_spo_db
      = (Inr (Some \<lparr>ep_no = 3, ep_starts_at = 120000, ep_ends_at = 180000\<rparr>), db')"
    by (simp add: process_next_epoch_def get_epoch_to_process_def get_current_epoch_def current_epoch_of_def get_latest_epoch_def
        get_first_epoch_num_def spo_sample_client_def empty_spo_db_def order_by_desc_def Let_def get_committee_def
        get_spo_registrations_def save_epoch_data_def save_epoch_def save_performances_def)
  have "spo_run spo_sample_env db'" by (rule spo_run.process [OF spo_run.start step]) simp
  from spo_tables_consistent [OF this] show ?thesis by (simp add: step)
qed

section \<open>Refreshing stake data\<close>

text \<open>
  The pools in the order of their ids. The position of the cursor is the number of ids up to it; a refresh
  takes the ids from there on, or from the start when there are none.
\<close>

definition refreshed :: "spo_db \<Rightarrow> string set" where
  "refreshed db = fst ` set (stake_snapshots db)"

definition cursor_position :: "spo_db \<Rightarrow> nat" where
  "cursor_position db = (case stake_refresh_cursor db of None \<Rightarrow> 0 | Some c \<Rightarrow> length (filter (\<lambda>i. i \<le> c) (pool_ids db)))"

definition same_age :: "spo_db \<Rightarrow> bool" where
  "same_age db \<longleftrightarrow> (\<exists>at. \<forall>r \<in> set (pool_metadata_cache db). p_updated_at r = at)"

lemma filter_sorted_le:
  fixes xs :: "'a::linorder list"
  assumes "sorted xs"
  shows "filter (\<lambda>x. c < x) xs = drop (length (filter (\<lambda>x. x \<le> c) xs)) xs"
  using assms
proof (induction xs)
  case (Cons x xs)
  show ?case
  proof (cases "x \<le> c")
    case False
    then have "filter (\<lambda>x. x \<le> c) xs = []" "filter (\<lambda>x. c < x) xs = xs"
      using Cons.prems by (auto simp: filter_empty_conv filter_id_conv)
    then show ?thesis using False by simp
  qed (use Cons in auto)
qed simp

lemma sort_filter: "sort (filter P xs) = filter P (sort xs)"
  by (simp add: filter_sort)

lemma get_pool_ids_after_drop:
  "get_pool_ids_after c limit db = take limit (drop (length (filter (\<lambda>i. i \<le> c) (pool_ids db))) (sort (pool_ids db)))"
proof -
  have "length (filter (\<lambda>i. i \<le> c) (sort (pool_ids db))) = length (filter (\<lambda>i. i \<le> c) (pool_ids db))"
    by (metis mset_eq_length mset_filter mset_sort)
  then show ?thesis using filter_sorted_le [of "sort (pool_ids db)" c]
    by (simp add: get_pool_ids_after_def sort_filter pool_ids_def)
qed

lemma map_sort_key: "map f (sort_key f xs) = sort (map f xs)"
  by (rule properties_for_sort [symmetric]) simp_all

lemma get_pool_ids_sorted:
  assumes "same_age db"
  shows "get_pool_ids feat limit db = take limit (sort (pool_ids db))"
proof -
  obtain at where "\<forall>r \<in> set (pool_metadata_cache db). p_updated_at r = at" using assms by (auto simp: same_age_def)
  then have same: "r \<in> set (sort_key p_pool_id (pool_metadata_cache db)) \<Longrightarrow> p_updated_at r = at" for r by simp
  then have "map (\<lambda>r. - the (p_updated_at r)) (sort_key p_pool_id (pool_metadata_cache db))
      = map (\<lambda>_. - the at) (sort_key p_pool_id (pool_metadata_cache db))" by (intro map_cong) auto
  then have "sorted (map (\<lambda>r. - the (p_updated_at r)) (sort_key p_pool_id (pool_metadata_cache db)))"
    by (simp add: map_replicate_const)
  with same have all: "filter (\<lambda>r. p_updated_at r = None) (sort_key p_pool_id (pool_metadata_cache db)) = (if at = None then sort_key p_pool_id (pool_metadata_cache db) else [])"
    "filter (\<lambda>r. p_updated_at r \<noteq> None) (sort_key p_pool_id (pool_metadata_cache db)) = (if at = None then [] else sort_key p_pool_id (pool_metadata_cache db))"
    "sort_key (\<lambda>r. - the (p_updated_at r)) (sort_key p_pool_id (pool_metadata_cache db)) = sort_key p_pool_id (pool_metadata_cache db)"
    by (auto simp: filter_id_conv filter_empty_conv intro!: sort_key_id_if_sorted)
  then show ?thesis
    by (cases feat) (simp_all add: get_pool_ids_def Let_def pool_ids_def take_map [symmetric] map_sort_key)
qed

lemma pools_to_refresh_slice:
  assumes "same_age db" and "0 < limit"
  shows "pools_to_refresh feat limit db = (if cursor_position db < length (pool_ids db)
    then take limit (drop (cursor_position db) (sort (pool_ids db))) else take limit (sort (pool_ids db)))"
  using assms(2) get_pool_ids_sorted [OF assms(1), of feat limit]
  by (auto simp: pools_to_refresh_def Let_def cursor_position_def get_pool_ids_after_drop split: option.splits)

lemma refresh_pools_ok:
  assumes "\<And>p. is_ok (cl_pool_data client p)" and "set pids \<subseteq> set (pool_ids db)"
  shows "\<exists>db'. refresh_pools client me pids db = (None, db') \<and> pool_metadata_cache db' = pool_metadata_cache db
    \<and> refreshed db' = refreshed db \<union> set pids \<and> stake_refresh_cursor db' = (if pids = [] then stake_refresh_cursor db else Some (last pids))"
  using assms(2)
proof (induction pids arbitrary: db)
  case (Cons p pids)
  obtain d where d: "cl_pool_data client p = Inr d" using assms(1) [of p] by (cases "cl_pool_data client p") auto
  have p: "p \<in> p_pool_id ` set (pool_metadata_cache db)" using Cons.prems by (simp add: pool_ids_image)
  obtain db1 where db1: "refresh_pool client me p db = (None, db1)" "pool_metadata_cache db1 = pool_metadata_cache db"
    "refreshed db1 = insert p (refreshed db)" "stake_refresh_cursor db1 = Some p"
    using d p by (simp add: refresh_pool_def save_stake_snapshot_def insert_stake_history_def set_stake_refresh_cursor_def
        refreshed_def keys_map_insert)
  have "set pids \<subseteq> set (pool_ids db1)" using Cons.prems db1(2) by (simp add: pool_ids_def)
  from Cons.IH [OF this] db1 show ?case by auto
qed simp

text \<open>One refresh: the slice it takes and where the cursor is after it.\<close>

lemma position_after:
  assumes "distinct (pool_ids db)" and "i < j" and "j \<le> length (pool_ids db)"
    and "stake_refresh_cursor db = Some (last (take (j - i) (drop i (sort (pool_ids db)))))"
  shows "cursor_position db = j"
proof -
  let ?s = "sort (pool_ids db)"
  have s: "sorted ?s" "distinct ?s" "length ?s = length (pool_ids db)" using assms(1) by simp_all
  have "last (take (j - i) (drop i ?s)) = ?s ! (j - 1)"
    using assms(2,3) by (subst last_conv_nth) (auto simp: min_def intro!: arg_cong [where f = "\<lambda>k. ?s ! k"])
  moreover have "length (filter (\<lambda>x. x \<le> ?s ! (j - 1)) ?s) = j"
  proof -
    have "{k. k < length ?s \<and> ?s ! k \<le> ?s ! (j - 1)} = {..<j}"
    proof (intro set_eqI iffI)
      fix k assume k: "k \<in> {k. k < length ?s \<and> ?s ! k \<le> ?s ! (j - 1)}"
      show "k \<in> {..<j}"
      proof (rule ccontr)
        assume "k \<notin> {..<j}"
        then have "j - 1 < k" using assms(2) by simp
        then have "?s ! (j - 1) < ?s ! k" using k s sorted_nth_mono [OF s(1), of "j - 1" k] assms(2,3)
          by (metis (no_types, lifting) antisym_conv2 less_le_trans mem_Collect_eq nth_eq_iff_index_eq order_less_imp_not_eq2 order_less_le_trans leD less_or_eq_imp_le)
        then show False using k leD by blast
      qed
    next
      fix k assume "k \<in> {..<j}"
      then show "k \<in> {k. k < length ?s \<and> ?s ! k \<le> ?s ! (j - 1)}"
        using sorted_nth_mono [OF s(1), of k "j - 1"] assms(2,3) s(3) by simp
    qed
    then show ?thesis by (simp add: length_filter_conv_card)
  qed
  moreover have "length (filter (\<lambda>x. x \<le> c) ?s) = length (filter (\<lambda>x. x \<le> c) (pool_ids db))" for c
    by (metis mset_eq_length mset_filter mset_sort)
  ultimately show ?thesis using assms(4) by (simp add: cursor_position_def)
qed

definition refresh_cycle :: "feature \<Rightarrow> spo_client \<Rightarrow> u32 \<Rightarrow> spo_db \<Rightarrow> spo_db" where
  "refresh_cycle feat client page_size db = snd (refresh_stake_snapshots feat client page_size db)"

definition refreshing :: "spo_db \<Rightarrow> bool" where
  "refreshing db \<longleftrightarrow> same_age db \<and> distinct (pool_ids db)"

lemma refresh_cycle_slice:
  assumes "refreshing db" and data: "\<And>p. is_ok (cl_pool_data client p)" and "0 < page_size" and "pool_ids db \<noteq> []"
  defines "n \<equiv> length (pool_ids db)" and "i \<equiv> if cursor_position db < length (pool_ids db) then cursor_position db else 0"
  shows "\<exists>j. i < j \<and> j \<le> n \<and> cursor_position (refresh_cycle feat client page_size db) = j
    \<and> pool_metadata_cache (refresh_cycle feat client page_size db) = pool_metadata_cache db
    \<and> refreshed (refresh_cycle feat client page_size db) = refreshed db \<union> set (take (j - i) (drop i (sort (pool_ids db))))"
proof -
  let ?s = "sort (pool_ids db)" and ?k = "unat page_size"
  have k: "0 < ?k" using assms(3) by (simp add: unat_gt_0)
  have i: "i < n" using assms(4) by (simp add: i_def n_def)
  let ?j = "min n (i + ?k)"
  have j: "i < ?j" "?j \<le> n" using i k by simp_all
  have page: "pools_to_refresh feat ?k db = take (?j - i) (drop i ?s)"
    using pools_to_refresh_slice [OF _ k, of db feat] assms(1) i
    by (auto simp: refreshing_def i_def n_def min_def)
  have sub: "set (take (?j - i) (drop i ?s)) \<subseteq> set (pool_ids db)"
    using set_take_subset [of "?j - i" "drop i ?s"] set_drop_subset [of i ?s] by simp
  let ?me = "case cl_status client of Inl _ \<Rightarrow> None | Inr st \<Rightarrow> Some (int (unat (ci_epoch (ss_mainchain st))))"
  have "take (?j - i) (drop i ?s) \<noteq> []" using j i by (simp add: n_def not_le)
  then obtain db' where run: "refresh_pools client ?me (take (?j - i) (drop i ?s)) db = (None, db')"
    and db': "pool_metadata_cache db' = pool_metadata_cache db" "refreshed db' = refreshed db \<union> set (take (?j - i) (drop i ?s))"
      "stake_refresh_cursor db' = Some (last (take (?j - i) (drop i ?s)))"
    using refresh_pools_ok [OF data sub, of ?me] by auto
  have cycle: "refresh_cycle feat client page_size db = db'"
    by (simp add: refresh_cycle_def refresh_stake_snapshots_def page run)
  have "pool_ids db' = pool_ids db" using db'(1) by (simp add: pool_ids_def)
  then have "cursor_position db' = ?j"
    using position_after [of db' i ?j] assms(1) j db'(3) by (simp add: refreshing_def n_def)
  then show ?thesis using db' j unfolding cycle by (intro exI [of _ ?j]) simp
qed

lemma refreshing_cong: "pool_metadata_cache db' = pool_metadata_cache db \<Longrightarrow> refreshing db' = refreshing db"
  by (simp add: refreshing_def same_age_def pool_ids_def)

text \<open>From a position on, the rest of the pools is reached in as many cycles; then all of them.\<close>

lemma refresh_rest:
  assumes "refreshing db" and data: "\<And>p. is_ok (cl_pool_data client p)" and "0 < page_size" and "cursor_position db \<le> length (pool_ids db)"
  shows "\<exists>m \<le> length (pool_ids db) - cursor_position db. \<exists>db'. (refresh_cycle feat client page_size ^^ m) db = db'
    \<and> cursor_position db' = length (pool_ids db) \<and> pool_metadata_cache db' = pool_metadata_cache db
    \<and> refreshed db \<union> set (drop (cursor_position db) (sort (pool_ids db))) \<subseteq> refreshed db'"
  using assms(1,4)
proof (induction "length (pool_ids db) - cursor_position db" arbitrary: db rule: less_induct)
  case less
  show ?case
  proof (cases "cursor_position db < length (pool_ids db)")
    case True
    let ?db = "refresh_cycle feat client page_size db" and ?i = "cursor_position db" and ?n = "length (pool_ids db)"
    have "pool_ids db \<noteq> []" using True by auto
    from refresh_cycle_slice [OF less.prems(1) data assms(3) this, of feat] True
    obtain j where j: "?i < j" "j \<le> ?n" "cursor_position ?db = j" "pool_metadata_cache ?db = pool_metadata_cache db"
      "refreshed ?db = refreshed db \<union> set (take (j - ?i) (drop ?i (sort (pool_ids db))))" by auto
    have ids: "pool_ids ?db = pool_ids db" using j(4) by (simp add: pool_ids_def)
    have lt: "length (pool_ids ?db) - cursor_position ?db < ?n - ?i" using j(1-3) unfolding ids by linarith
    obtain m db' where m: "m \<le> ?n - j" "(refresh_cycle feat client page_size ^^ m) ?db = db'" "cursor_position db' = ?n"
      "pool_metadata_cache db' = pool_metadata_cache db" "refreshed ?db \<union> set (drop j (sort (pool_ids db))) \<subseteq> refreshed db'"
      using less.hyps [OF lt] less.prems(1) j refreshing_cong [OF j(4)] unfolding ids by auto
    have "drop ?i (sort (pool_ids db)) = take (j - ?i) (drop ?i (sort (pool_ids db))) @ drop j (sort (pool_ids db))"
      using j(1) by (metis append_take_drop_id drop_drop le_add_diff_inverse2 less_imp_le)
    then have "refreshed db \<union> set (drop ?i (sort (pool_ids db))) \<subseteq> refreshed db'" using j(5) m(5) by (metis Un_assoc set_append)
    then show ?thesis using m j(1,2) by (intro exI [of _ "Suc m"] conjI exI [of _ db']) (simp_all add: funpow_swap1)
  next
    case False
    then show ?thesis using less.prems by (intro exI [of _ 0] conjI exI [of _ db]) simp_all
  qed
qed

lemma cursor_position_le: "cursor_position db \<le> length (pool_ids db)"
  by (simp add: cursor_position_def split: option.splits)

lemma refreshed_mono:
  assumes "refreshing db" and data: "\<And>p. is_ok (cl_pool_data client p)" and "0 < page_size" and "pool_ids db \<noteq> []"
  shows "pool_metadata_cache ((refresh_cycle feat client page_size ^^ m) db) = pool_metadata_cache db
    \<and> refreshed db \<subseteq> refreshed ((refresh_cycle feat client page_size ^^ m) db)"
proof (induction m)
  case (Suc m)
  let ?db = "(refresh_cycle feat client page_size ^^ m) db"
  have "refreshing ?db" "pool_ids ?db \<noteq> []" using Suc assms(1,4) refreshing_cong [of ?db db] by (simp_all add: pool_ids_def)
  from refresh_cycle_slice [OF this(1) data assms(3) this(2), of feat] Suc show ?case by auto
qed simp

text \<open>
  Provided that the pools were updated at the same time, so that they are listed by their ids, and that Blockfrost answers, a
  bounded number of refreshes, two for each pool, gives every pool a stake snapshot, whatever the size of the pages, if not zero, and
  wherever the cursor was.
\<close>

theorem refresh_reaches_every_pool:
  assumes "same_age db" and "distinct (pool_ids db)" and "\<And>p. is_ok (cl_pool_data client p)" and "0 < page_size"
    and "2 * length (pool_ids db) \<le> m"
  shows "set (pool_ids db) \<subseteq> refreshed ((refresh_cycle feat client page_size ^^ m) db)"
proof (cases "pool_ids db = []")
  case ne: False
  let ?f = "refresh_cycle feat client page_size" and ?n = "length (pool_ids db)"
  have r: "refreshing db" using assms(1,2) by (simp add: refreshing_def)
  obtain m1 db1 where 1: "m1 \<le> ?n" "(?f ^^ m1) db = db1" "cursor_position db1 = ?n" "pool_metadata_cache db1 = pool_metadata_cache db"
    using refresh_rest [OF r assms(3,4) cursor_position_le, of feat] by (meson diff_le_self le_trans)
  have ids1: "pool_ids db1 = pool_ids db" using 1(4) by (simp add: pool_ids_def)
  have r1: "refreshing db1" using refreshing_cong [OF 1(4)] r by simp
  obtain j where j: "0 < j" "j \<le> ?n" "cursor_position (?f db1) = j" "pool_metadata_cache (?f db1) = pool_metadata_cache db"
    "set (take j (sort (pool_ids db))) \<subseteq> refreshed (?f db1)"
    using refresh_cycle_slice [OF r1 assms(3,4), of feat] 1(3,4) ne unfolding ids1 by auto
  have ids2: "pool_ids (?f db1) = pool_ids db" using j(4) by (simp add: pool_ids_def)
  obtain m2 db2 where 2: "m2 \<le> ?n - j" "(?f ^^ m2) (?f db1) = db2" "pool_metadata_cache db2 = pool_metadata_cache db"
    "refreshed (?f db1) \<union> set (drop j (sort (pool_ids db))) \<subseteq> refreshed db2"
    using refresh_rest [of "?f db1" client page_size feat] r assms(3,4) j cursor_position_le [of "?f db1"] refreshing_cong [OF j(4)]
    unfolding ids2 by auto
  have "set (pool_ids db) = set (take j (sort (pool_ids db))) \<union> set (drop j (sort (pool_ids db)))"
    by (metis append_take_drop_id set_append set_sort)
  then have all: "set (pool_ids db) \<subseteq> refreshed db2" using j(5) 2(4) by blast
  have "m2 + Suc m1 \<le> m" using 1(1) 2(1) j(1,2) assms(5) by linarith
  then obtain d where d: "m = d + (m2 + Suc m1)" by (metis le_add_diff_inverse2)
  have "(?f ^^ (m2 + Suc m1)) db = db2" using 1(2) 2(2) by (simp only: funpow_add comp_apply funpow.simps(2))
  then have "(?f ^^ m) db = (?f ^^ d) db2" by (simp only: d funpow_add [of d] comp_apply)
  moreover have "refreshing db2" "pool_ids db2 \<noteq> []" using refreshing_cong [OF 2(3)] r ne 2(3) by (simp_all add: pool_ids_def)
  ultimately show ?thesis using refreshed_mono [OF _ assms(3,4), of db2 d feat] all by auto
qed simp

theorem refresh_reaches_every_pool_witness:
  "{''a'', ''b''} \<subseteq> refreshed ((refresh_cycle Cloud spo_sample_client 1 ^^ 4)
     (empty_spo_db\<lparr>pool_metadata_cache := [spo_sample_pool ''b'' None, spo_sample_pool ''a'' None]\<rparr>))"
  using refresh_reaches_every_pool [of "empty_spo_db\<lparr>pool_metadata_cache := [spo_sample_pool ''b'' None, spo_sample_pool ''a'' None]\<rparr>"
      spo_sample_client 1 4 Cloud]
  by (simp add: same_age_def spo_sample_pool_def pool_ids_def spo_sample_client_def)

text \<open>
  Pools that were last updated at different times are listed by that time when a refresh starts again, while the cursor
  goes on by id. A pool with a smaller id than one that was updated later can then stay without stake data for ever.
\<close>

lemma refresh_starves_pool:
  "''a'' \<notin> refreshed ((refresh_cycle feat spo_sample_client 1 ^^ m)
     (empty_spo_db\<lparr>pool_metadata_cache := [spo_sample_pool ''a'' (Some 1), spo_sample_pool ''b'' (Some 2)]\<rparr>))"
proof -
  let ?pools = "[spo_sample_pool ''a'' (Some 1), spo_sample_pool ''b'' (Some 2)]"
  let ?inv = "\<lambda>db. pool_metadata_cache db = ?pools \<and> stake_refresh_cursor db \<in> {None, Some ''b''} \<and> ''a'' \<notin> refreshed db"
  have "?inv (refresh_cycle feat spo_sample_client 1 db)" if "?inv db" for db
  proof -
    have "pools_to_refresh feat 1 db = [''b'']"
      using that by (cases feat) (auto simp: pools_to_refresh_def get_pool_ids_def get_pool_ids_after_def spo_sample_pool_def Let_def)
    then show ?thesis using that
      by (simp add: refresh_cycle_def refresh_stake_snapshots_def refresh_pool_def spo_sample_client_def save_stake_snapshot_def
          insert_stake_history_def set_stake_refresh_cursor_def refreshed_def keys_map_insert spo_sample_pool_def)
  qed
  then have "?inv ((refresh_cycle feat spo_sample_client 1 ^^ m) (empty_spo_db\<lparr>pool_metadata_cache := ?pools\<rparr>))"
    by (induction m) (simp_all add: empty_spo_db_def refreshed_def)
  then show ?thesis by blast
qed

end
