(* ===== verification/Api_Spo.thy ===== *)
theory Api_Spo
  imports Complex_Main Spo_Props Api_Subscriptions
begin

text \<open>
  The queries of the API for stake pools, \<^verbatim>\<open>indexer-api/src/infra/storage/spo.rs\<close>, and their resolvers in \<^verbatim>\<open>v4/query.rs\<close>, over
  the tables that the SPO indexer fills. A statement is a function of the tables; rows that an \<^verbatim>\<open>ORDER BY\<close> does not tell apart
  stay in the order of the table. Limits and offsets are natural numbers here: the resolvers, which are the only callers, make
  limits positive and offsets non-negative. Quotients are rational numbers, where the code has \<^verbatim>\<open>f64\<close>, and text is ASCII.
  The columns that the indexer always fills are not optional.
\<close>

section \<open>SQL\<close>

definition left_join :: "('a \<Rightarrow> 'b \<Rightarrow> bool) \<Rightarrow> 'a list \<Rightarrow> 'b list \<Rightarrow> ('a \<times> 'b option) list" where
  "left_join on xs ys = concat (map (\<lambda>x. case filter (on x) ys of [] \<Rightarrow> [(x, None)] | ms \<Rightarrow> map (\<lambda>y. (x, Some y)) ms) xs)"

definition inner_join :: "('a \<Rightarrow> 'b \<Rightarrow> bool) \<Rightarrow> 'a list \<Rightarrow> 'b list \<Rightarrow> ('a \<times> 'b) list" where
  "inner_join on xs ys = concat (map (\<lambda>x. map (Pair x) (filter (on x) ys)) xs)"

definition page :: "nat \<Rightarrow> nat \<Rightarrow> 'a list \<Rightarrow> 'a list" where
  "page limit offset xs = take limit (drop offset xs)"

text \<open>\<^verbatim>\<open>SELECT k, MIN(v) ... GROUP BY k\<close>\<close>

definition group_min :: "('k \<times> int) list \<Rightarrow> ('k \<times> int) list" where
  "group_min xs = map (\<lambda>k. (k, Min (snd ` set (filter (\<lambda>x. fst x = k) xs)))) (remdups (map fst xs))"

definition ascii_lower :: "char \<Rightarrow> char" where
  "ascii_lower c = (if CHR ''A'' \<le> c \<and> c \<le> CHR ''Z'' then char_of (of_char c + 32 :: nat) else c)"

definition to_ascii_lowercase :: "string \<Rightarrow> string" where
  "to_ascii_lowercase = map ascii_lower"

text \<open>\<^verbatim>\<open>LIKE\<close>; the backslash is an escape character in PostgreSQL and an ordinary one in SQLite.\<close>

fun like :: "feature \<Rightarrow> string \<Rightarrow> string \<Rightarrow> bool" where
  "like feat [] s \<longleftrightarrow> s = []"
| "like feat (c # p) s \<longleftrightarrow>
     (if c = CHR ''%'' then like feat p s \<or> (case s of [] \<Rightarrow> False | _ # s' \<Rightarrow> like feat (c # p) s')
      else if c = CHR ''_'' then (case s of [] \<Rightarrow> False | _ # s' \<Rightarrow> like feat p s')
      else if c = CHR 0x5C \<and> feat = Cloud
      then (case (p, s) of (e # p', x # s') \<Rightarrow> e = x \<and> like feat p' s' | _ \<Rightarrow> False)
      else (case s of [] \<Rightarrow> False | x # s' \<Rightarrow> c = x \<and> like feat p s'))"

text \<open>\<^verbatim>\<open>x ILIKE p\<close> and \<^verbatim>\<open>LOWER(x) LIKE LOWER(p)\<close>\<close>

definition ilike :: "feature \<Rightarrow> string \<Rightarrow> string \<Rightarrow> bool" where
  "ilike feat p s \<longleftrightarrow> like feat (to_ascii_lowercase p) (to_ascii_lowercase s)"

definition opt_ilike :: "feature \<Rightarrow> string \<Rightarrow> string option \<Rightarrow> bool" where
  "opt_ilike feat p s \<longleftrightarrow> (case s of None \<Rightarrow> False | Some s \<Rightarrow> ilike feat p s)"

definition like_pattern :: "string \<Rightarrow> string" where
  "like_pattern s = ''%'' @ s @ ''%''"

text \<open>\<^verbatim>\<open>input.strip_prefix("0x").unwrap_or(input).strip_prefix("0X").unwrap_or(input)\<close>\<close>

definition strip_prefix :: "string \<Rightarrow> string \<Rightarrow> string option" where
  "strip_prefix p s = (if take (length p) s = p then Some (drop (length p) s) else None)"

definition strip_hex_prefix :: "string \<Rightarrow> string" where
  "strip_hex_prefix input =
     (let s = (case strip_prefix ''0x'' input of None \<Rightarrow> input | Some r \<Rightarrow> r) in
      case strip_prefix ''0X'' s of None \<Rightarrow> input | Some r \<Rightarrow> r)"

definition is_ascii_hexdigit :: "char \<Rightarrow> bool" where
  "is_ascii_hexdigit c \<longleftrightarrow> CHR ''0'' \<le> c \<and> c \<le> CHR ''9'' \<or> CHR ''A'' \<le> c \<and> c \<le> CHR ''F'' \<or> CHR ''a'' \<le> c \<and> c \<le> CHR ''f''"

definition storage_normalize_hex :: "string \<Rightarrow> string option" where
  "storage_normalize_hex input =
     (if input = [] then None
      else let s = strip_hex_prefix input in
        if odd (length s) \<or> 256 < length s then None
        else if \<not> list_all is_ascii_hexdigit s then None
        else Some (to_ascii_lowercase s))"

definition UNKNOWN :: string where
  "UNKNOWN = ''UNKNOWN''"

section \<open>Identities and metadata\<close>

record api_spo_identity =
  ai_pool_id_hex :: string
  ai_mainchain_pubkey_hex :: string
  ai_sidechain_pubkey_hex :: string
  ai_aura_pubkey_hex :: "string option"
  ai_validator_class :: string

definition identity_from_row :: "spo \<Rightarrow> api_spo_identity" where
  "identity_from_row si = \<lparr>ai_pool_id_hex = spo_pool_id si, ai_mainchain_pubkey_hex = spo_mainchain_pubkey si,
     ai_sidechain_pubkey_hex = spo_sidechain_pubkey si, ai_aura_pubkey_hex = Some (spo_aura_pubkey si), ai_validator_class = UNKNOWN\<rparr>"

definition get_spo_identities :: "nat \<Rightarrow> nat \<Rightarrow> spo_db \<Rightarrow> api_spo_identity list" where
  "get_spo_identities limit offset db = map identity_from_row (page limit offset (sort_key spo_mainchain_pubkey (spo_identity db)))"

definition get_spo_identity_by_pool_id :: "string \<Rightarrow> spo_db \<Rightarrow> api_spo_identity option" where
  "get_spo_identity_by_pool_id pool_id db = map_option identity_from_row (find (\<lambda>si. spo_pool_id si = pool_id) (spo_identity db))"

definition get_spo_count :: "spo_db \<Rightarrow> i64" where
  "get_spo_count db = int (length (stake_snapshots db))"

record api_pool_metadata =
  ap_pool_id_hex :: string
  ap_hex_id :: "string option"
  ap_name :: "string option"
  ap_ticker :: "string option"
  ap_homepage_url :: "string option"
  ap_logo_url :: "string option"

definition metadata_from_row :: "pool_row \<Rightarrow> api_pool_metadata" where
  "metadata_from_row pm = \<lparr>ap_pool_id_hex = p_pool_id pm, ap_hex_id = Some (p_hex_id pm), ap_name = Some (p_name pm),
     ap_ticker = Some (p_ticker pm), ap_homepage_url = Some (p_homepage_url pm), ap_logo_url = Some (p_url pm)\<rparr>"

definition get_pool_metadata_api :: "string \<Rightarrow> spo_db \<Rightarrow> api_pool_metadata option" where
  "get_pool_metadata_api pool_id db = map_option metadata_from_row (find (\<lambda>pm. p_pool_id pm = pool_id) (pool_metadata_cache db))"

definition get_pool_metadata_list :: "nat \<Rightarrow> nat \<Rightarrow> bool \<Rightarrow> spo_db \<Rightarrow> api_pool_metadata list" where
  "get_pool_metadata_list limit offset with_name_only db =
     (let rows = sort_key ap_pool_id_hex (map metadata_from_row (pool_metadata_cache db)) in
      page limit offset (if with_name_only then filter (\<lambda>m. ap_name m \<noteq> None \<or> ap_ticker m \<noteq> None) rows else rows))"

section \<open>Stake pool operators\<close>

record api_spo =
  as_pool_id_hex :: string
  as_validator_class :: string
  as_sidechain_pubkey_hex :: string
  as_aura_pubkey_hex :: "string option"
  as_name :: "string option"
  as_ticker :: "string option"
  as_homepage_url :: "string option"
  as_logo_url :: "string option"

text \<open>
  A row of the joins: the pool, its identity and its metadata. The column \<^verbatim>\<open>sidechain_pubkey\<close> is read as a \<^verbatim>\<open>String\<close>, so that a
  row without identity cannot be decoded.
\<close>

type_synonym spo_join = "string \<times> spo option \<times> pool_row option"

definition spo_from_row :: "spo_join \<Rightarrow> sqlx_error + api_spo" where
  "spo_from_row = (\<lambda>(pool_id, si, pm).
     case si of
       None \<Rightarrow> Inl Decode
     | Some si \<Rightarrow> Inr \<lparr>as_pool_id_hex = pool_id, as_validator_class = UNKNOWN, as_sidechain_pubkey_hex = spo_sidechain_pubkey si,
         as_aura_pubkey_hex = Some (spo_aura_pubkey si), as_name = map_option p_name pm, as_ticker = map_option p_ticker pm,
         as_homepage_url = map_option p_homepage_url pm, as_logo_url = map_option p_url pm\<rparr>)"

definition get_spo_by_pool_id :: "string \<Rightarrow> spo_db \<Rightarrow> sqlx_error + api_spo option" where
  "get_spo_by_pool_id pool_id db =
     (case left_join (\<lambda>si pm. p_pool_id pm = spo_pool_id si) (filter (\<lambda>si. spo_pool_id si = pool_id) (spo_identity db)) (pool_metadata_cache db) of
        [] \<Rightarrow> Inr None
      | (si, pm) # _ \<Rightarrow> map_ok Some (spo_from_row (spo_pool_id si, Some si, pm)))"

definition spo_joins :: "spo_db \<Rightarrow> spo_join list" where
  "spo_joins db =
     map (\<lambda>((s, si), pm). (fst s, si, pm))
       (left_join (\<lambda>(s, _) pm. p_pool_id pm = fst s)
         (left_join (\<lambda>s si. spo_pool_id si = fst s) (stake_snapshots db) (spo_identity db)) (pool_metadata_cache db))"

definition join_order :: "spo_join \<Rightarrow> string" where
  "join_order = (\<lambda>(pool_id, si, _). case si of None \<Rightarrow> pool_id | Some si \<Rightarrow> spo_mainchain_pubkey si)"

definition spo_matches :: "feature \<Rightarrow> string \<Rightarrow> spo_join \<Rightarrow> bool" where
  "spo_matches feat s = (\<lambda>(pool_id, si, pm).
     let s_like = like_pattern s;
         s_hex_like = like_pattern (case storage_normalize_hex s of None \<Rightarrow> to_ascii_lowercase s | Some h \<Rightarrow> h) in
     opt_ilike feat s_like (map_option p_name pm) \<or> opt_ilike feat s_like (map_option p_ticker pm)
     \<or> opt_ilike feat s_like (map_option p_homepage_url pm) \<or> ilike feat s_hex_like pool_id
     \<or> opt_ilike feat s_hex_like (map_option spo_sidechain_pubkey si) \<or> opt_ilike feat s_hex_like (map_option spo_aura_pubkey si)
     \<or> opt_ilike feat s_hex_like (map_option spo_mainchain_pubkey si))"

definition get_spo_list :: "feature \<Rightarrow> nat \<Rightarrow> nat \<Rightarrow> string option \<Rightarrow> spo_db \<Rightarrow> sqlx_error + api_spo list" where
  "get_spo_list feat limit offset search db =
     try_map spo_from_row (page limit offset (sort_key join_order
       (case search of None \<Rightarrow> spo_joins db | Some s \<Rightarrow> filter (spo_matches feat s) (spo_joins db))))"

section \<open>Performance\<close>

record epoch_perf =
  ef_epoch_no :: i64
  ef_spo_sk_hex :: string
  ef_produced :: i64
  ef_expected :: i64
  ef_identity_label :: "string option"
  ef_stake_snapshot :: "string option"
  ef_pool_id_hex :: "string option"
  ef_validator_class :: "string option"

definition epoch_perf_from_row :: "performance_row \<times> spo option \<Rightarrow> epoch_perf" where
  "epoch_perf_from_row = (\<lambda>(f, si). \<lparr>ef_epoch_no = f_epoch_no f, ef_spo_sk_hex = f_spo_sk f, ef_produced = f_produced_blocks f,
     ef_expected = f_expected_blocks f, ef_identity_label = Some (f_identity_label f), ef_stake_snapshot = None,
     ef_pool_id_hex = map_option spo_pool_id si, ef_validator_class = Some UNKNOWN\<rparr>)"

definition performance_joins :: "spo_db \<Rightarrow> (performance_row \<times> spo option) list" where
  "performance_joins db = left_join (\<lambda>f si. spo_sk si = f_spo_sk f) (spo_performance db) (spo_identity db)"

definition get_stake_pool_operator_ids :: "nat \<Rightarrow> spo_db \<Rightarrow> string list" where
  "get_stake_pool_operator_ids limit db =
     take limit (sort_key (\<lambda>k. - Max (f_produced_blocks ` set (filter (\<lambda>f. f_spo_sk f = k) (spo_performance db))))
       (remdups (map f_spo_sk (spo_performance db))))"

definition get_spo_performance_latest :: "nat \<Rightarrow> nat \<Rightarrow> spo_db \<Rightarrow> epoch_perf list" where
  "get_spo_performance_latest limit offset db =
     map epoch_perf_from_row (page limit offset
       (sort_key (\<lambda>(f, _). - f_epoch_no f) (sort_key (\<lambda>(f, _). - f_produced_blocks f) (performance_joins db))))"

definition get_spo_performance_by_spo_sk :: "string \<Rightarrow> nat \<Rightarrow> nat \<Rightarrow> spo_db \<Rightarrow> epoch_perf list" where
  "get_spo_performance_by_spo_sk k limit offset db =
     map epoch_perf_from_row (page limit offset
       (sort_key (\<lambda>(f, _). - f_epoch_no f) (filter (\<lambda>(f, _). f_spo_sk f = k) (performance_joins db))))"

definition get_epoch_performance :: "i64 \<Rightarrow> nat \<Rightarrow> nat \<Rightarrow> spo_db \<Rightarrow> epoch_perf list" where
  "get_epoch_performance e limit offset db =
     map epoch_perf_from_row (page limit offset
       (sort_key (\<lambda>(f, _). - f_produced_blocks f) (filter (\<lambda>(f, _). f_epoch_no f = e) (performance_joins db))))"

record spo_composite =
  sc_identity :: "api_spo_identity option"
  sc_metadata :: "api_pool_metadata option"
  sc_performance :: "epoch_perf list"

definition get_spo_composite_by_pool_id :: "string \<Rightarrow> nat \<Rightarrow> spo_db \<Rightarrow> spo_composite option" where
  "get_spo_composite_by_pool_id pool_id perf_limit db =
     (let ident = get_spo_identity_by_pool_id pool_id db; metadata = get_pool_metadata_api pool_id db in
      if ident = None \<and> metadata = None then None
      else Some \<lparr>sc_identity = ident, sc_metadata = metadata,
        sc_performance = (case ident of None \<Rightarrow> []
          | Some i \<Rightarrow> get_spo_performance_by_spo_sk (ai_sidechain_pubkey_hex i) perf_limit 0 db)\<rparr>)"

section \<open>Epochs\<close>

text \<open>
  Seconds of an instant in milliseconds: the cast from \<^verbatim>\<open>NUMERIC\<close> rounds half away from zero, \<^verbatim>\<open>strftime\<close> rounds down.
\<close>

definition seconds_of :: "feature \<Rightarrow> i64 \<Rightarrow> i64" where
  "seconds_of feat ms = (case feat of Cloud \<Rightarrow> sgn ms * ((\<bar>ms\<bar> + 500) div 1000) | Standalone \<Rightarrow> ms div 1000)"

record epoch_info =
  ei_epoch_no :: i64
  ei_duration_seconds :: i64
  ei_elapsed_seconds :: i64

definition epoch_info_at :: "i64 \<Rightarrow> i64 \<Rightarrow> i64 \<Rightarrow> i64 \<Rightarrow> i64 \<Rightarrow> epoch_info" where
  "epoch_info_at no starts_s ends_s dur_s now_s =
     (let n = (if now_s < ends_s then 0 else if dur_s \<le> 0 then 0 else quot (now_s - ends_s) dur_s + 1) in
      \<lparr>ei_epoch_no = no + n, ei_duration_seconds = dur_s,
       ei_elapsed_seconds = (if dur_s \<le> 0 then 0
         else if n = 0 then min (max (now_s - starts_s) 0) dur_s
         else min (max (now_s - (ends_s + (n - 1) * dur_s)) 0) dur_s)\<rparr>)"

definition get_current_epoch_info :: "feature \<Rightarrow> i64 \<Rightarrow> spo_db \<Rightarrow> epoch_info option" where
  "get_current_epoch_info feat now db =
     (case order_by_desc e_epoch_no (epochs db) of
        [] \<Rightarrow> None
      | r # _ \<Rightarrow>
          (let starts_s = seconds_of feat (e_starts_at r); ends_s = seconds_of feat (e_ends_at r);
               dur_s = (case feat of Cloud \<Rightarrow> seconds_of feat (e_ends_at r - e_starts_at r) | Standalone \<Rightarrow> ends_s - starts_s) in
           Some (epoch_info_at (e_epoch_no r) starts_s ends_s dur_s (seconds_of feat now))))"

definition get_epoch_utilization :: "i64 \<Rightarrow> spo_db \<Rightarrow> rat option" where
  "get_epoch_utilization e db =
     (let rows = filter (\<lambda>f. f_epoch_no f = e) (spo_performance db); expected = sum_list (map f_expected_blocks rows) in
      Some (if 0 < expected then of_int (sum_list (map f_produced_blocks rows)) / of_int expected else 0))"

record committee_member =
  cm_epoch_no :: i64
  cm_position :: i32
  cm_sidechain_pubkey_hex :: string
  cm_expected_slots :: i32
  cm_aura_pubkey_hex :: "string option"
  cm_pool_id_hex :: "string option"
  cm_spo_sk_hex :: "string option"

definition committee_joins :: "spo_db \<Rightarrow> (membership_row \<times> spo option) list" where
  "committee_joins db = left_join (\<lambda>m si. spo_sidechain_pubkey si = m_sidechain_pubkey m) (committee_membership db) (spo_identity db)"

definition get_committee_api :: "i64 \<Rightarrow> spo_db \<Rightarrow> committee_member list" where
  "get_committee_api e db =
     map (\<lambda>(m, si). \<lparr>cm_epoch_no = m_epoch_no m, cm_position = m_position m, cm_sidechain_pubkey_hex = m_sidechain_pubkey m,
         cm_expected_slots = m_expected_slots m, cm_aura_pubkey_hex = map_option spo_aura_pubkey si,
         cm_pool_id_hex = map_option spo_pool_id si, cm_spo_sk_hex = map_option spo_sk si\<rparr>)
       (sort_key (\<lambda>(m, _). m_position m) (filter (\<lambda>(m, _). m_epoch_no m = e) (committee_joins db)))"

section \<open>Registrations\<close>

definition history_joins :: "spo_db \<Rightarrow> (history_row \<times> spo option) list" where
  "history_joins db = left_join (\<lambda>h si. spo_sk si = h_spo_sk h) (spo_histories db) (spo_identity db)"

text \<open>\<^verbatim>\<open>WHERE si.pool_id IS NOT NULL\<close>\<close>

definition pools_seen :: "('r \<Rightarrow> i64) \<Rightarrow> ('r \<times> spo option) list \<Rightarrow> (string \<times> i64) list" where
  "pools_seen epoch_no joins = [(spo_pool_id si, epoch_no r). (r, Some si) \<leftarrow> joins]"

definition union_firsts :: "spo_db \<Rightarrow> (string \<times> i64) list" where
  "union_firsts db =
     group_min (pools_seen h_epoch_no (history_joins db)) @ group_min (pools_seen m_epoch_no (committee_joins db))
     @ group_min (pools_seen f_epoch_no (performance_joins db))"

definition firsts_cur :: "i64 \<Rightarrow> spo_db \<Rightarrow> (string \<times> i64) list" where
  "firsts_cur end_epoch db =
     map (\<lambda>(s, f0). (fst s, case f0 of None \<Rightarrow> end_epoch | Some (_, e) \<Rightarrow> e))
       (left_join (\<lambda>s f0. fst f0 = fst s) (stake_snapshots db) (group_min (union_firsts db)))"

record registered_totals =
  rt_epoch_no :: i64
  rt_total_registered :: i64
  rt_newly_registered :: i64

text \<open>The cross join with the pools gives no row at all when there is no pool.\<close>

definition get_registered_totals_series :: "i64 \<Rightarrow> i64 \<Rightarrow> spo_db \<Rightarrow> registered_totals list" where
  "get_registered_totals_series from_epoch to_epoch db =
     (let start = min from_epoch to_epoch; end_epoch = max to_epoch from_epoch; firsts = map snd (firsts_cur end_epoch db) in
      if firsts = [] then []
      else map (\<lambda>e. \<lparr>rt_epoch_no = e, rt_total_registered = int (length (filter (\<lambda>f. f \<le> e) firsts)),
          rt_newly_registered = int (length (filter (\<lambda>f. f = e) firsts))\<rparr>) [start..end_epoch])"

record registered_stat =
  rs_epoch_no :: i64
  rs_federated_valid_count :: i64
  rs_federated_invalid_count :: i64
  rs_registered_valid_count :: i64
  rs_registered_invalid_count :: i64
  rs_dparam :: "rat option"

definition pools_with_status :: "string list \<Rightarrow> i64 \<Rightarrow> spo_db \<Rightarrow> i64" where
  "pools_with_status statuses e db =
     int (length (remdups (map fst (pools_seen h_epoch_no (filter (\<lambda>(h, _). h_status h \<in> set statuses \<and> h_epoch_no h = e) (history_joins db))))))"

definition get_registered_spo_series :: "i64 \<Rightarrow> i64 \<Rightarrow> spo_db \<Rightarrow> registered_stat list" where
  "get_registered_spo_series from_epoch to_epoch db =
     map (\<lambda>e. let valid = pools_with_status [''VALID'', ''Valid''] e db in
         \<lparr>rs_epoch_no = e,
          rs_federated_valid_count = int (length (remdups (map m_sidechain_pubkey
            (filter (\<lambda>m. m_epoch_no m = e \<and> 0 < m_expected_slots m) (committee_membership db))))),
          rs_federated_invalid_count = 0, rs_registered_valid_count = valid,
          rs_registered_invalid_count = pools_with_status [''INVALID'', ''Invalid''] e db, rs_dparam = Some (of_int valid)\<rparr>)
       [min from_epoch to_epoch..max to_epoch from_epoch]"

record presence_event =
  pe_epoch_no :: i64
  pe_id_key :: string
  pe_source :: string
  pe_status :: "string option"

definition presence_of :: "('r \<Rightarrow> i64) \<Rightarrow> ('r \<Rightarrow> string) \<Rightarrow> string \<Rightarrow> ('r \<Rightarrow> string option) \<Rightarrow> i64 \<Rightarrow> i64 \<Rightarrow> ('r \<times> spo option) list \<Rightarrow> presence_event list" where
  "presence_of epoch_no key source status start end_epoch joins =
     map (\<lambda>(r, si). \<lparr>pe_epoch_no = epoch_no r, pe_id_key = (case si of None \<Rightarrow> key r | Some si \<Rightarrow> spo_pool_id si),
         pe_source = source, pe_status = status r\<rparr>)
       (filter (\<lambda>(r, _). start \<le> epoch_no r \<and> epoch_no r \<le> end_epoch) joins)"

definition get_registered_presence :: "i64 \<Rightarrow> i64 \<Rightarrow> spo_db \<Rightarrow> presence_event list" where
  "get_registered_presence from_epoch to_epoch db =
     (let start = min from_epoch to_epoch; end_epoch = max to_epoch from_epoch in
      sort_key pe_epoch_no (sort_key pe_source (sort_key pe_id_key
        (presence_of h_epoch_no h_spo_sk ''history'' (Some \<circ> h_status) start end_epoch (history_joins db)
         @ presence_of m_epoch_no m_sidechain_pubkey ''committee'' (\<lambda>_. None) start end_epoch (committee_joins db)
         @ presence_of f_epoch_no f_spo_sk ''performance'' (\<lambda>_. None) start end_epoch (performance_joins db)))))"

definition get_registered_first_valid_epochs :: "i64 option \<Rightarrow> spo_db \<Rightarrow> (string \<times> i64) list" where
  "get_registered_first_valid_epochs upto_epoch db =
     sort_key snd (group_min (map (\<lambda>(h, si). (case si of None \<Rightarrow> h_spo_sk h | Some si \<Rightarrow> spo_pool_id si, h_epoch_no h))
       (filter (\<lambda>(h, _). h_status h \<in> {''VALID'', ''Valid''} \<and> (case upto_epoch of None \<Rightarrow> True | Some e \<Rightarrow> h_epoch_no h \<le> e))
         (history_joins db))))"

section \<open>Stake\<close>

text \<open>Amounts, which the rows have as decimal text, are numbers here. The sum of all stake stays far below \<^verbatim>\<open>2^63\<close>.\<close>

record stake_share =
  st_pool_id_hex :: string
  st_name :: "string option"
  st_ticker :: "string option"
  st_homepage_url :: "string option"
  st_logo_url :: "string option"
  st_live_stake :: "i64 option"
  st_active_stake :: "i64 option"
  st_live_delegators :: "i64 option"
  st_live_saturation :: "u64 option"
  st_declared_pledge :: "i64 option"
  st_live_pledge :: "i64 option"
  st_stake_share :: "rat option"

definition coalesce :: "i64 option \<Rightarrow> i64" where
  "coalesce v = (case v of None \<Rightarrow> 0 | Some x \<Rightarrow> x)"

definition total_live :: "spo_db \<Rightarrow> i64" where
  "total_live db = sum_list (map (coalesce \<circ> psd_live_stake \<circ> snd) (stake_snapshots db))"

definition share_from_row :: "i64 \<Rightarrow> pool_stake_data \<times> pool_row \<Rightarrow> stake_share" where
  "share_from_row total_stake = (\<lambda>(d, pm). \<lparr>st_pool_id_hex = p_pool_id pm, st_name = Some (p_name pm), st_ticker = Some (p_ticker pm),
     st_homepage_url = Some (p_homepage_url pm), st_logo_url = Some (p_url pm), st_live_stake = psd_live_stake d,
     st_active_stake = psd_active_stake d, st_live_delegators = psd_live_delegators d, st_live_saturation = psd_live_saturation d,
     st_declared_pledge = psd_declared_pledge d, st_live_pledge = psd_live_pledge d,
     st_stake_share = Some (if 0 < total_stake then of_int (coalesce (psd_live_stake d)) / of_int total_stake else 0)\<rparr>)"

definition stake_matches :: "feature \<Rightarrow> string \<Rightarrow> pool_stake_data \<times> pool_row \<Rightarrow> bool" where
  "stake_matches feat s = (\<lambda>(_, pm). let s_like = like_pattern s in
     ilike feat s_like (p_name pm) \<or> ilike feat s_like (p_ticker pm) \<or> ilike feat s_like (p_homepage_url pm) \<or> ilike feat s_like (p_pool_id pm))"

definition stake_joins :: "spo_db \<Rightarrow> (pool_stake_data \<times> pool_row) list" where
  "stake_joins db = map (\<lambda>(s, pm). (snd s, pm)) (inner_join (\<lambda>s pm. p_pool_id pm = fst s) (stake_snapshots db) (pool_metadata_cache db))"

definition get_stake_distribution ::
  "feature \<Rightarrow> nat \<Rightarrow> nat \<Rightarrow> string option \<Rightarrow> bool \<Rightarrow> spo_db \<Rightarrow> stake_share list \<times> rat" where
  "get_stake_distribution feat limit offset search order_desc db =
     (let rows = (case search of None \<Rightarrow> stake_joins db | Some s \<Rightarrow> filter (stake_matches feat s) (stake_joins db));
          order = (\<lambda>(d, _). if order_desc then - coalesce (psd_live_stake d) else coalesce (psd_live_stake d)) in
      (map (share_from_row (total_live db)) (page limit offset (sort_key order (sort_key (p_pool_id \<circ> snd) rows))),
       of_int (total_live db)))"

section \<open>Resolvers\<close>

text \<open>\<^verbatim>\<open>limit.unwrap_or(default).clamp(1, most) as i64\<close> and \<^verbatim>\<open>offset.unwrap_or(0).max(0) as i64\<close>; the arguments are \<^verbatim>\<open>i32\<close>.\<close>

definition clamp_limit :: "int \<Rightarrow> int \<Rightarrow> i32 option \<Rightarrow> nat" where
  "clamp_limit otherwise most limit = nat (min (max (case limit of None \<Rightarrow> otherwise | Some l \<Rightarrow> l) 1) most)"

definition clamp_offset :: "i32 option \<Rightarrow> nat" where
  "clamp_offset offset = nat (max (case offset of None \<Rightarrow> 0 | Some x \<Rightarrow> x) 0)"

definition is_whitespace :: "char \<Rightarrow> bool" where
  "is_whitespace c \<longleftrightarrow> c = CHR '' '' \<or> CHR 0x09 \<le> c \<and> c \<le> CHR 0x0D"

definition trim :: "string \<Rightarrow> string" where
  "trim s = rev (dropWhile is_whitespace (rev (dropWhile is_whitespace s)))"

definition search_text :: "string option \<Rightarrow> string option" where
  "search_text search = (case search of None \<Rightarrow> None | Some s \<Rightarrow> if trim s = [] then None else Some (trim s))"

definition normalize_hex :: "string \<Rightarrow> string" where
  "normalize_hex input = to_ascii_lowercase (strip_hex_prefix input)"

definition DEFAULT_PERFORMANCE_LIMIT :: int where
  "DEFAULT_PERFORMANCE_LIMIT = 20"

definition spo_identities_query :: "i32 option \<Rightarrow> i32 option \<Rightarrow> spo_db \<Rightarrow> api_spo_identity list" where
  "spo_identities_query limit offset = get_spo_identities (clamp_limit 50 500 limit) (clamp_offset offset)"

definition spo_identity_by_pool_id_query :: "string \<Rightarrow> spo_db \<Rightarrow> api_spo_identity option" where
  "spo_identity_by_pool_id_query pool_id_hex = get_spo_identity_by_pool_id (normalize_hex pool_id_hex)"

definition spo_count_query :: "spo_db \<Rightarrow> i64 option" where
  "spo_count_query db = Some (get_spo_count db)"

definition pool_metadata_query :: "string \<Rightarrow> spo_db \<Rightarrow> api_pool_metadata option" where
  "pool_metadata_query pool_id_hex = get_pool_metadata_api (normalize_hex pool_id_hex)"

definition pool_metadata_list_query :: "i32 option \<Rightarrow> i32 option \<Rightarrow> bool option \<Rightarrow> spo_db \<Rightarrow> api_pool_metadata list" where
  "pool_metadata_list_query limit offset with_name_only =
     get_pool_metadata_list (clamp_limit 50 500 limit) (clamp_offset offset) (with_name_only = Some True)"

definition spo_by_pool_id_query :: "string \<Rightarrow> spo_db \<Rightarrow> api_error + api_spo option" where
  "spo_by_pool_id_query pool_id_hex db = server_error ''get SPO by pool ID'' (get_spo_by_pool_id (normalize_hex pool_id_hex) db)"

definition spo_list_query :: "feature \<Rightarrow> i32 option \<Rightarrow> i32 option \<Rightarrow> string option \<Rightarrow> spo_db \<Rightarrow> api_error + api_spo list" where
  "spo_list_query feat limit offset search db =
     server_error ''get SPO list'' (get_spo_list feat (clamp_limit 20 200 limit) (clamp_offset offset) (search_text search) db)"

definition spo_composite_by_pool_id_query :: "string \<Rightarrow> spo_db \<Rightarrow> spo_composite option" where
  "spo_composite_by_pool_id_query pool_id_hex = get_spo_composite_by_pool_id (normalize_hex pool_id_hex) (nat DEFAULT_PERFORMANCE_LIMIT)"

definition stake_pool_operators_query :: "i32 option \<Rightarrow> spo_db \<Rightarrow> string list" where
  "stake_pool_operators_query limit = get_stake_pool_operator_ids (clamp_limit 20 100 limit)"

definition spo_performance_latest_query :: "i32 option \<Rightarrow> i32 option \<Rightarrow> spo_db \<Rightarrow> epoch_perf list" where
  "spo_performance_latest_query limit offset =
     get_spo_performance_latest (clamp_limit DEFAULT_PERFORMANCE_LIMIT 500 limit) (clamp_offset offset)"

definition spo_performance_by_spo_sk_query :: "string \<Rightarrow> i32 option \<Rightarrow> i32 option \<Rightarrow> spo_db \<Rightarrow> epoch_perf list" where
  "spo_performance_by_spo_sk_query spo_sk_hex limit offset =
     get_spo_performance_by_spo_sk (normalize_hex spo_sk_hex) (clamp_limit 100 500 limit) (clamp_offset offset)"

definition epoch_performance_query :: "i64 \<Rightarrow> i32 option \<Rightarrow> i32 option \<Rightarrow> spo_db \<Rightarrow> epoch_perf list" where
  "epoch_performance_query e limit offset = get_epoch_performance e (clamp_limit 100 500 limit) (clamp_offset offset)"

definition current_epoch_info_query :: "feature \<Rightarrow> i64 \<Rightarrow> spo_db \<Rightarrow> epoch_info option" where
  "current_epoch_info_query = get_current_epoch_info"

definition epoch_utilization_query :: "i32 \<Rightarrow> spo_db \<Rightarrow> rat option" where
  "epoch_utilization_query = get_epoch_utilization"

definition committee_query :: "i64 \<Rightarrow> spo_db \<Rightarrow> committee_member list" where
  "committee_query = get_committee_api"

definition registered_totals_series_query :: "i64 \<Rightarrow> i64 \<Rightarrow> spo_db \<Rightarrow> registered_totals list" where
  "registered_totals_series_query = get_registered_totals_series"

definition registered_spo_series_query :: "i64 \<Rightarrow> i64 \<Rightarrow> spo_db \<Rightarrow> registered_stat list" where
  "registered_spo_series_query = get_registered_spo_series"

definition registered_presence_query :: "i64 \<Rightarrow> i64 \<Rightarrow> spo_db \<Rightarrow> presence_event list" where
  "registered_presence_query = get_registered_presence"

definition registered_first_valid_epochs_query :: "i64 option \<Rightarrow> spo_db \<Rightarrow> (string \<times> i64) list" where
  "registered_first_valid_epochs_query = get_registered_first_valid_epochs"

definition stake_distribution_query ::
  "feature \<Rightarrow> i32 option \<Rightarrow> i32 option \<Rightarrow> string option \<Rightarrow> bool option \<Rightarrow> spo_db \<Rightarrow> stake_share list" where
  "stake_distribution_query feat limit offset search order_by_stake_desc db =
     fst (get_stake_distribution feat (clamp_limit 50 500 limit) (clamp_offset offset) (search_text search) (order_by_stake_desc \<noteq> Some False) db)"

end
