(* ===== verification/Api_Spo_Props.thy ===== *)
theory Api_Spo_Props
  imports Api_Spo
begin

text \<open>
  What the queries for stake pools return: the search finds the pools that contain a text, the current epoch is extrapolated from
  the last stored one, the registration totals count the pools seen so far, and the pages of the stake distribution have
  every pool once.
\<close>

lemma spo_tables_ok: "spo_run env db \<Longrightarrow> spo_ok db"
  using spo_run_ok by blast

section \<open>Search\<close>

definition plain_text :: "string \<Rightarrow> bool" where
  "plain_text s \<longleftrightarrow> list_all (\<lambda>c. c \<notin> {CHR ''%'', CHR ''_'', CHR 0x5C}) s"

lemma like_percent: "like feat (CHR ''%'' # p) s \<longleftrightarrow> (\<exists>a b. s = a @ b \<and> like feat p b)"
proof (induction s)
  case (Cons x s)
  have "like feat (CHR ''%'' # p) (x # s) \<longleftrightarrow> like feat p (x # s) \<or> like feat (CHR ''%'' # p) s" by simp
  also have "\<dots> \<longleftrightarrow> (\<exists>a b. x # s = a @ b \<and> like feat p b)" unfolding Cons.IH by (auto simp: Cons_eq_append_conv)
  finally show ?case .
qed simp

lemma like_plain: "plain_text p \<Longrightarrow> like feat (p @ q) s \<longleftrightarrow> (\<exists>b. s = p @ b \<and> like feat q b)"
  by (induction p arbitrary: s) (auto simp: plain_text_def split: list.splits)

lemma like_pattern_sublist:
  assumes "plain_text p"
  shows "like feat (like_pattern p) s \<longleftrightarrow> sublist p s"
proof -
  have "like feat ''%'' b" for b unfolding like_percent by simp
  then have "like feat (p @ ''%'') b \<longleftrightarrow> (\<exists>c. b = p @ c)" for b by (simp only: like_plain [OF assms] simp_thms)
  then show ?thesis unfolding like_pattern_def append_Cons append_Nil like_percent by (auto simp: sublist_def)
qed

lemma ascii_lower_upper:
  assumes "CHR ''A'' \<le> c" "c \<le> CHR ''Z''"
  shows "97 \<le> (of_char (ascii_lower c) :: nat) \<and> (of_char (ascii_lower c) :: nat) \<le> 122"
proof -
  have c: "65 \<le> (of_char c :: nat)" "(of_char c :: nat) \<le> 90" using assms by (simp_all add: less_eq_char_def)
  then have "(of_char (ascii_lower c) :: nat) = of_char c + 32" using assms by (simp add: ascii_lower_def of_char_of)
  then show ?thesis using c by simp
qed

lemma ascii_lower_idem: "ascii_lower (ascii_lower c) = ascii_lower c"
proof (cases "CHR ''A'' \<le> c \<and> c \<le> CHR ''Z''")
  case True
  then have "\<not> ascii_lower c \<le> CHR ''Z''" using ascii_lower_upper [of c] by (simp add: less_eq_char_def)
  then show ?thesis by (simp add: ascii_lower_def [of "ascii_lower c"])
qed (auto simp: ascii_lower_def)

lemma ascii_lower_plain: "ascii_lower c = d \<Longrightarrow> d \<in> {CHR ''%'', CHR ''_'', CHR 0x5C} \<Longrightarrow> c = d"
  using ascii_lower_upper [of c] by (cases "CHR ''A'' \<le> c \<and> c \<le> CHR ''Z''") (auto simp: ascii_lower_def [of c])

lemma plain_lowercase: "plain_text p \<Longrightarrow> plain_text (to_ascii_lowercase p)"
  using ascii_lower_plain by (fastforce simp: plain_text_def to_ascii_lowercase_def list_all_iff)

lemma ilike_contains:
  assumes "plain_text p"
  shows "ilike feat (like_pattern p) s \<longleftrightarrow> sublist (to_ascii_lowercase p) (to_ascii_lowercase s)"
proof -
  have "like feat (like_pattern (to_ascii_lowercase p)) (to_ascii_lowercase s) \<longleftrightarrow> sublist (to_ascii_lowercase p) (to_ascii_lowercase s)"
    by (rule like_pattern_sublist [OF plain_lowercase [OF assms]])
  moreover have "to_ascii_lowercase (like_pattern p) = like_pattern (to_ascii_lowercase p)"
    by (simp add: like_pattern_def to_ascii_lowercase_def ascii_lower_def)
  ultimately show ?thesis by (simp add: ilike_def)
qed

section \<open>The current epoch\<close>

lemma epoch_info_at_extrapolates:
  assumes "starts_s < ends_s" "starts_s \<le> now_s"
  shows "epoch_info_at no starts_s ends_s (ends_s - starts_s) now_s =
    \<lparr>ei_epoch_no = no + (now_s - starts_s) div (ends_s - starts_s), ei_duration_seconds = ends_s - starts_s,
     ei_elapsed_seconds = (now_s - starts_s) mod (ends_s - starts_s)\<rparr>"
proof -
  define d where "d = ends_s - starts_s"
  define q where "q = (now_s - starts_s) div d"
  have d: "0 < d" using assms(1) by (simp add: d_def)
  have mod: "(now_s - starts_s) mod d = now_s - starts_s - q * d" "0 \<le> (now_s - starts_s) mod d" "(now_s - starts_s) mod d < d"
    using d by (simp_all add: q_def minus_div_mult_eq_mod)
  show ?thesis
  proof (cases "now_s < ends_s")
    case True
    then have "q = 0" using assms(2) d by (simp add: q_def d_def div_pos_pos_trivial)
    then show ?thesis using True assms d mod by (simp add: epoch_info_at_def Let_def d_def q_def)
  next
    case False
    have "quot (now_s - ends_s) d = (now_s - ends_s) div d" using False d by (simp add: quot_def sgn_if)
    also have "\<dots> = q - 1"
    proof -
      have "now_s - ends_s = now_s - starts_s + (- 1) * d" by (simp add: d_def)
      then show ?thesis unfolding q_def using d by (metis div_mult_self1 less_irrefl uminus_add_conv_diff add.commute)
    qed
    finally have n: "quot (now_s - ends_s) d + 1 = q" by simp
    have "q \<noteq> 0" using False d zdiv_mono1 [of d "now_s - starts_s" d] by (simp add: q_def d_def)
    moreover have "now_s - (ends_s + (q - 1) * d) = (now_s - starts_s) mod d" using mod(1) by (simp add: d_def algebra_simps)
    ultimately show ?thesis using False d mod n by (simp add: epoch_info_at_def Let_def flip: d_def q_def)
  qed
qed

lemma seconds_of_whole: "seconds_of feat (1000 * s) = s"
  by (cases feat) (auto simp: seconds_of_def abs_mult sgn_if)

lemma seconds_of_mono: "a \<le> b \<Longrightarrow> seconds_of feat a \<le> seconds_of feat b"
proof (cases feat)
  case Cloud
  assume "a \<le> b"
  moreover have "0 \<le> x \<Longrightarrow> seconds_of Cloud x = (x + 500) div 1000" "x \<le> 0 \<Longrightarrow> seconds_of Cloud x = - ((500 - x) div 1000)" for x
    by (auto simp: seconds_of_def sgn_if)
  moreover have "x \<le> y \<Longrightarrow> (x + 500) div 1000 \<le> (y + 500) div 1000" "x \<le> y \<Longrightarrow> (500 - y) div 1000 \<le> (500 - x) div 1000" for x y :: int
    by (simp_all add: zdiv_mono1)
  moreover have "0 \<le> x \<Longrightarrow> 0 \<le> (x + 500) div 1000" "x \<le> 0 \<Longrightarrow> 0 \<le> (500 - x) div 1000" for x :: int by simp_all
  ultimately show ?thesis unfolding Cloud by (smt (verit))
qed (simp add: seconds_of_def zdiv_mono1)

lemma order_by_desc_first:
  assumes "x \<in> set xs" "\<forall>y \<in> set xs. y = x \<or> k y < k x"
  obtains rest where "order_by_desc k xs = x # rest"
proof (cases "order_by_desc k xs")
  case Nil
  then show thesis using assms(1) by (metis empty_iff empty_set order_by_desc_def set_sort)
next
  case (Cons y rest)
  have "x \<in> set (y # rest)" "y \<in> set xs" using assms(1) Cons set_sort [of "\<lambda>x. - k x" xs] by (simp_all add: order_by_desc_def, blast)
  moreover have "sorted (map (\<lambda>x. - k x) (y # rest))" unfolding Cons [symmetric] order_by_desc_def by simp
  ultimately have "y = x" using assms(2) by fastforce
  then show thesis using that Cons by simp
qed

text \<open>
  The current epoch is extrapolated from the last stored one: with the stored interval on whole seconds, as many epochs are
  added as whole durations have passed since its start, and the rest of the division is the elapsed time. Before the interval
  starts, nothing has elapsed.
\<close>

theorem current_epoch_extrapolated:
  assumes "r \<in> set (epochs db)" "\<forall>r' \<in> set (epochs db). r' = r \<or> e_epoch_no r' < e_epoch_no r"
    and "e_starts_at r = 1000 * s" "e_ends_at r = 1000 * t" "s < t"
  shows "get_current_epoch_info feat now db = Some
    (let passed = max (seconds_of feat now - s) 0 in
     \<lparr>ei_epoch_no = e_epoch_no r + passed div (t - s), ei_duration_seconds = t - s, ei_elapsed_seconds = passed mod (t - s)\<rparr>)"
proof -
  obtain rest where rest: "order_by_desc e_epoch_no (epochs db) = r # rest" using order_by_desc_first [OF assms(1,2)] .
  have dur: "(case feat of Cloud \<Rightarrow> seconds_of feat (e_ends_at r - e_starts_at r) | Standalone \<Rightarrow> t - s) = t - s"
    using seconds_of_whole [of feat "t - s"] assms(3,4) by (cases feat) (simp_all add: algebra_simps)
  have info: "get_current_epoch_info feat now db = Some (epoch_info_at (e_epoch_no r) s t (t - s) (seconds_of feat now))"
    by (simp only: get_current_epoch_info_def rest list.case Let_def assms(3,4) seconds_of_whole dur [unfolded assms(3,4)])
  show ?thesis
  proof (cases "s \<le> seconds_of feat now")
    case True
    then show ?thesis by (simp add: info epoch_info_at_extrapolates [OF assms(5)] Let_def)
  next
    case False
    then show ?thesis using assms(5) by (simp add: info epoch_info_at_def Let_def)
  qed
qed


theorem current_epoch_extrapolated_witness:
  "get_current_epoch_info Cloud 250499 (empty_spo_db\<lparr>epochs := [\<lparr>e_epoch_no = 7, e_starts_at = 60000, e_ends_at = 120000\<rparr>]\<rparr>)
     = Some \<lparr>ei_epoch_no = 10, ei_duration_seconds = 60, ei_elapsed_seconds = 10\<rparr>"
  using current_epoch_extrapolated [of "\<lparr>e_epoch_no = 7, e_starts_at = 60000, e_ends_at = 120000\<rparr>"
      "empty_spo_db\<lparr>epochs := [\<lparr>e_epoch_no = 7, e_starts_at = 60000, e_ends_at = 120000\<rparr>]\<rparr>" 60 120 Cloud 250499]
  by (simp add: seconds_of_def)

section \<open>Pages\<close>

lemma pages_concat: "concat (map (\<lambda>k. page limit (k * limit) xs) [0..<n]) = take (n * limit) xs"
  by (induction n) (simp_all add: page_def take_add [symmetric] add.commute)

lemma left_join_unmatched:
  "(\<And>y. y \<in> set ys \<Longrightarrow> \<not> on x y) \<Longrightarrow> left_join on (x # xs) ys = (x, None) # left_join on xs ys"
  by (simp add: left_join_def filter_empty_conv)

lemma set_left_join:
  "(x, Some y) \<in> set (left_join on xs ys) \<longleftrightarrow> x \<in> set xs \<and> y \<in> set ys \<and> on x y"
proof -
  have "(x, Some y) \<in> set (case filter (on z) ys of [] \<Rightarrow> [(z, None)] | ms \<Rightarrow> map (\<lambda>y. (z, Some y)) ms) \<longleftrightarrow> x = z \<and> y \<in> set (filter (on z) ys)" for z
    by (cases "filter (on z) ys") auto
  then show ?thesis by (auto simp: left_join_def)
qed

lemma set_left_join_none:
  "(x, None) \<in> set (left_join on xs ys) \<longleftrightarrow> x \<in> set xs \<and> (\<forall>y \<in> set ys. \<not> on x y)"
proof -
  have "(x, None) \<in> set (case filter (on z) ys of [] \<Rightarrow> [(z, None)] | ms \<Rightarrow> map (\<lambda>y. (z, Some y)) ms) \<longleftrightarrow> x = z \<and> filter (on z) ys = []" for z
    by (cases "filter (on z) ys") auto
  then show ?thesis by (auto simp: left_join_def filter_empty_conv)
qed

lemma left_join_unique:
  assumes "\<And>x. x \<in> set xs \<Longrightarrow> length (filter (on x) ys) \<le> 1"
  shows "left_join on xs ys = map (\<lambda>x. (x, find (on x) ys)) xs"
proof -
  have "(case filter (on x) ys of [] \<Rightarrow> [(x, None)] | ms \<Rightarrow> map (\<lambda>y. (x, Some y)) ms) = [(x, find (on x) ys)]" if "x \<in> set xs" for x
    using assms [OF that] by (induction ys) (auto split: if_splits list.splits simp: filter_empty_conv find_None_iff)
  then have "map (\<lambda>x. case filter (on x) ys of [] \<Rightarrow> [(x, None)] | ms \<Rightarrow> map (\<lambda>y. (x, Some y)) ms) xs = map (\<lambda>x. [(x, find (on x) ys)]) xs"
    by simp
  then show ?thesis unfolding left_join_def by (metis (no_types) concat_map_singleton)
qed

lemma filter_key_unique:
  assumes "distinct (map k ys)"
  shows "length (filter (\<lambda>y. k y = v) ys) \<le> 1"
  using assms by (induction ys) (auto simp: filter_empty_conv dest: image_eqI [OF sym])

section \<open>Registration totals\<close>

text \<open>A pool appears in an epoch when one of its identities has a registration, a seat in the committee or a performance there.\<close>

definition appears :: "spo_db \<Rightarrow> string \<Rightarrow> i64 \<Rightarrow> bool" where
  "appears db p e \<longleftrightarrow> (\<exists>si \<in> set (spo_identity db). spo_pool_id si = p \<and>
     ((\<exists>h \<in> set (spo_histories db). spo_sk si = h_spo_sk h \<and> h_epoch_no h = e)
      \<or> (\<exists>m \<in> set (committee_membership db). spo_sidechain_pubkey si = m_sidechain_pubkey m \<and> m_epoch_no m = e)
      \<or> (\<exists>f \<in> set (spo_performance db). spo_sk si = f_spo_sk f \<and> f_epoch_no f = e)))"

lemma group_min_iff:
  "(k, v) \<in> set (group_min xs) \<longleftrightarrow> (k, v) \<in> set xs \<and> (\<forall>v'. (k, v') \<in> set xs \<longrightarrow> v \<le> v')"
proof -
  let ?vs = "snd ` set (filter (\<lambda>x. fst x = k) xs)"
  have vs: "w \<in> ?vs \<longleftrightarrow> (k, w) \<in> set xs" for w by force
  have "(k, v) \<in> set (group_min xs) \<longleftrightarrow> ?vs \<noteq> {} \<and> v = Min ?vs" by (auto simp: group_min_def) force+
  also have "\<dots> \<longleftrightarrow> v \<in> ?vs \<and> (\<forall>w \<in> ?vs. v \<le> w)"
    by (metis (no_types, lifting) List.finite_set Min_eqI Min_in Min_le empty_iff finite_imageI)
  finally show ?thesis using vs by blast
qed

lemma group_min_keys: "distinct (map fst (group_min xs))" "fst ` set (group_min xs) = fst ` set xs"
  by (simp_all add: group_min_def comp_def image_image)

lemma pools_seen_iff: "(p, e) \<in> set (pools_seen epoch_no joins) \<longleftrightarrow> (\<exists>r si. (r, Some si) \<in> set joins \<and> spo_pool_id si = p \<and> epoch_no r = e)"
  by (induction joins) (auto simp: pools_seen_def split: option.splits)

lemma appears_seen:
  "appears db p e \<longleftrightarrow> (p, e) \<in> set (pools_seen h_epoch_no (history_joins db)) \<union> set (pools_seen m_epoch_no (committee_joins db))
     \<union> set (pools_seen f_epoch_no (performance_joins db))"
proof -
  have h: "(p, e) \<in> set (pools_seen h_epoch_no (history_joins db)) \<longleftrightarrow>
      (\<exists>si \<in> set (spo_identity db). \<exists>h \<in> set (spo_histories db). spo_pool_id si = p \<and> spo_sk si = h_spo_sk h \<and> h_epoch_no h = e)"
    unfolding pools_seen_iff history_joins_def set_left_join by blast
  have m: "(p, e) \<in> set (pools_seen m_epoch_no (committee_joins db)) \<longleftrightarrow>
      (\<exists>si \<in> set (spo_identity db). \<exists>m \<in> set (committee_membership db). spo_pool_id si = p \<and> spo_sidechain_pubkey si = m_sidechain_pubkey m \<and> m_epoch_no m = e)"
    unfolding pools_seen_iff committee_joins_def set_left_join by blast
  have f: "(p, e) \<in> set (pools_seen f_epoch_no (performance_joins db)) \<longleftrightarrow>
      (\<exists>si \<in> set (spo_identity db). \<exists>f \<in> set (spo_performance db). spo_pool_id si = p \<and> spo_sk si = f_spo_sk f \<and> f_epoch_no f = e)"
    unfolding pools_seen_iff performance_joins_def set_left_join by blast
  show ?thesis unfolding appears_def Un_iff h m f by blast
qed

lemma group_min_below: "(\<forall>v'. (k, v') \<in> set (group_min us) \<longrightarrow> v \<le> v') \<longleftrightarrow> (\<forall>v'. (k, v') \<in> set us \<longrightarrow> v \<le> v')"
proof safe
  fix w assume below: "\<forall>v'. (k, v') \<in> set (group_min us) \<longrightarrow> v \<le> v'" and w: "(k, w) \<in> set us"
  have "k \<in> fst ` set (group_min us)" using w group_min_keys(2) [of us] by force
  then obtain u where "(k, u) \<in> set (group_min us)" by force
  then show "v \<le> w" using below w group_min_iff by (meson order_trans)
qed (simp add: group_min_iff)

lemma group_min_union:
  "(k, v) \<in> set (group_min (group_min xs @ group_min ys @ group_min zs)) \<longleftrightarrow> (k, v) \<in> set (group_min (xs @ ys @ zs))"
proof -
  let ?below = "\<lambda>us. \<forall>v'. (k, v') \<in> set us \<longrightarrow> v \<le> v'"
  have "(k, v) \<in> set (group_min (us @ vs @ ws)) \<longleftrightarrow>
      ((k, v) \<in> set us \<or> (k, v) \<in> set vs \<or> (k, v) \<in> set ws) \<and> ?below us \<and> ?below vs \<and> ?below ws" for us vs ws
    by (auto simp: group_min_iff)
  then show ?thesis by (simp only: group_min_below) (simp only: group_min_iff, blast)
qed

lemma first_seen:
  "(p, v) \<in> set (group_min (union_firsts db)) \<longleftrightarrow> appears db p v \<and> (\<forall>e. appears db p e \<longrightarrow> v \<le> e)"
proof -
  let ?h = "pools_seen h_epoch_no (history_joins db)" and ?m = "pools_seen m_epoch_no (committee_joins db)"
    and ?f = "pools_seen f_epoch_no (performance_joins db)"
  have "(p, v) \<in> set (group_min (union_firsts db)) \<longleftrightarrow> (p, v) \<in> set (group_min (?h @ ?m @ ?f))"
    unfolding union_firsts_def by (rule group_min_union)
  also have "\<dots> \<longleftrightarrow> appears db p v \<and> (\<forall>e. appears db p e \<longrightarrow> v \<le> e)" unfolding group_min_iff [of p v "?h @ ?m @ ?f"] appears_seen by auto
  finally show ?thesis .
qed

text \<open>The epoch a pool counts from: its first appearance, or the end of the range when it never appears.\<close>

definition counts_from :: "spo_db \<Rightarrow> i64 \<Rightarrow> string \<Rightarrow> i64 \<Rightarrow> bool" where
  "counts_from db end_epoch p v \<longleftrightarrow> (appears db p v \<and> (\<forall>e. appears db p e \<longrightarrow> v \<le> e)) \<or> ((\<forall>e. \<not> appears db p e) \<and> v = end_epoch)"

lemma appears_least: "appears db p e \<Longrightarrow> \<exists>v. appears db p v \<and> (\<forall>e. appears db p e \<longrightarrow> v \<le> e)"
proof -
  assume "appears db p e"
  then have "p \<in> fst ` set (union_firsts db)" unfolding union_firsts_def appears_seen by (force simp: group_min_keys(2) image_Un)
  then have "p \<in> fst ` set (group_min (union_firsts db))" by (simp add: group_min_keys(2))
  then show ?thesis using first_seen by force
qed

lemma firsts_cur_pools: "map fst (firsts_cur end_epoch db) = map fst (stake_snapshots db)"
  and firsts_cur_from: "(p, v) \<in> set (firsts_cur end_epoch db) \<Longrightarrow> counts_from db end_epoch p v"
proof -
  let ?g = "group_min (union_firsts db)"
  have join: "left_join (\<lambda>s f0. fst f0 = fst s) (stake_snapshots db) ?g = map (\<lambda>s. (s, find (\<lambda>f0. fst f0 = fst s) ?g)) (stake_snapshots db)"
    by (rule left_join_unique) (rule filter_key_unique [OF group_min_keys(1)])
  show "map fst (firsts_cur end_epoch db) = map fst (stake_snapshots db)" by (simp add: firsts_cur_def join comp_def)
  assume "(p, v) \<in> set (firsts_cur end_epoch db)"
  then have v: "v = (case find (\<lambda>f0. fst f0 = p) ?g of None \<Rightarrow> end_epoch | Some (_, e) \<Rightarrow> e)" by (auto simp: firsts_cur_def join)
  show "counts_from db end_epoch p v"
  proof (cases "find (\<lambda>f0. fst f0 = p) ?g")
    case None
    then have "\<not> appears db p e" for e using appears_least [of db p e] first_seen by (fastforce simp: find_None_iff)
    then show ?thesis using v None by (simp add: counts_from_def)
  next
    case (Some f)
    then have "f \<in> set ?g" "fst f = p" by (auto simp: find_Some_iff)
    moreover have "v = snd f" using v Some by (simp add: case_prod_beta)
    ultimately have "(p, v) \<in> set ?g" by auto
    then show ?thesis using first_seen by (simp add: counts_from_def)
  qed
qed

lemma counts_from_unique: "counts_from db n p v \<Longrightarrow> counts_from db n p w \<Longrightarrow> v = w"
  unfolding counts_from_def by (meson order_antisym)

lemma count_firsts:
  assumes "distinct (map fst (stake_snapshots db))"
  shows "length (filter P (map snd (firsts_cur n db))) = card {p \<in> fst ` set (stake_snapshots db). \<exists>v. counts_from db n p v \<and> P v}"
proof -
  let ?fs = "filter (P \<circ> snd) (firsts_cur n db)"
  have "length (filter P (map snd (firsts_cur n db))) = card (fst ` set ?fs)"
    using distinct_card [of "map fst ?fs"] distinct_map_filter [of fst "firsts_cur n db" "P \<circ> snd"] assms
    by (simp add: firsts_cur_pools filter_map del: set_filter)
  also have "fst ` set ?fs = {p \<in> fst ` set (stake_snapshots db). \<exists>v. counts_from db n p v \<and> P v}"
  proof (intro equalityI subsetI)
    fix p assume "p \<in> fst ` set ?fs"
    then obtain v where "(p, v) \<in> set (firsts_cur n db)" "P v" by auto
    moreover from this have "p \<in> fst ` set (stake_snapshots db)" using firsts_cur_pools [of n db] by (metis fst_conv image_eqI list.set_map)
    ultimately show "p \<in> {p \<in> fst ` set (stake_snapshots db). \<exists>v. counts_from db n p v \<and> P v}" using firsts_cur_from by blast
  next
    fix p assume "p \<in> {p \<in> fst ` set (stake_snapshots db). \<exists>v. counts_from db n p v \<and> P v}"
    then obtain v where v: "p \<in> set (map fst (firsts_cur n db))" "counts_from db n p v" "P v" unfolding firsts_cur_pools by auto
    then obtain w where w: "(p, w) \<in> set (firsts_cur n db)" by auto
    then have "w = v" using firsts_cur_from v(2) counts_from_unique by blast
    then show "p \<in> fst ` set ?fs" using w v(3) by force
  qed
  finally show ?thesis .
qed

lemma filter_le_Suc: "length (filter (\<lambda>f. f \<le> e + 1) fs) = length (filter (\<lambda>f. f \<le> e) fs) + length (filter (\<lambda>f. f = e + 1) fs)" for e :: int
  by (induction fs) auto

text \<open>
  C38. The registration totals of a range of epochs: for every epoch, the number of pools with stake data that have appeared by
  then, as a registration, in a committee or with a performance, and the number that appear for the first time; a pool that
  never appears counts from the last epoch of the range. Each total is the one before plus the new ones. Without
  any pool the series is empty.
\<close>

theorem registered_totals_exact:
  assumes "spo_run env db"
  shows "get_registered_totals_series a b db = (if stake_snapshots db = [] then [] else
      map (\<lambda>e. \<lparr>rt_epoch_no = e,
          rt_total_registered = int (card {p \<in> fst ` set (stake_snapshots db). \<exists>v. counts_from db (max a b) p v \<and> v \<le> e}),
          rt_newly_registered = int (card {p \<in> fst ` set (stake_snapshots db). \<exists>v. counts_from db (max a b) p v \<and> v = e})\<rparr>) [min a b..max a b])
    \<and> (\<forall>i. Suc i < length (get_registered_totals_series a b db) \<longrightarrow>
        rt_total_registered (get_registered_totals_series a b db ! Suc i)
          = rt_total_registered (get_registered_totals_series a b db ! i) + rt_newly_registered (get_registered_totals_series a b db ! Suc i))"
proof -
  have d: "distinct (map fst (stake_snapshots db))" using spo_tables_ok [OF assms] by (simp add: spo_ok_def)
  have max: "max b a = max a b" by (rule max.commute)
  let ?fs = "map snd (firsts_cur (max a b) db)"
  let ?row = "\<lambda>e. \<lparr>rt_epoch_no = e, rt_total_registered = int (length (filter (\<lambda>f. f \<le> e) ?fs)), rt_newly_registered = int (length (filter (\<lambda>f. f = e) ?fs))\<rparr>"
  have empty: "?fs = [] \<longleftrightarrow> stake_snapshots db = []" using firsts_cur_pools [of "max a b" db] by (metis map_is_Nil_conv)
  have series: "get_registered_totals_series a b db = (if stake_snapshots db = [] then [] else map ?row [min a b..max a b])"
    unfolding get_registered_totals_series_def Let_def max empty by simp
  have step: "rt_total_registered (?row (e + 1)) = rt_total_registered (?row e) + rt_newly_registered (?row (e + 1))" for e
    by (simp add: filter_le_Suc del: filter_map)
  have "rt_total_registered (map ?row [x..y] ! Suc i) = rt_total_registered (map ?row [x..y] ! i) + rt_newly_registered (map ?row [x..y] ! Suc i)"
    if "Suc i < length [x..y]" for i x y
    using that step [of "x + int i"] by (simp add: add.commute [of 1] add.assoc del: filter_map)
  then have "\<forall>i. Suc i < length (get_registered_totals_series a b db) \<longrightarrow>
        rt_total_registered (get_registered_totals_series a b db ! Suc i)
          = rt_total_registered (get_registered_totals_series a b db ! i) + rt_newly_registered (get_registered_totals_series a b db ! Suc i)"
    unfolding series by (cases "stake_snapshots db = []") (simp_all only: if_True if_False length_map list.size not_less_zero simp_thms, blast?)
  then show ?thesis unfolding series count_firsts [OF d] by blast
qed

section \<open>Stake distribution\<close>

lemma sum_list_sort_key: "sum_list (map f (sort_key k xs)) = sum_list (map f xs)" for f :: "'a \<Rightarrow> 'b :: comm_monoid_add"
  by (metis mset_map mset_sort sum_mset_sum_list)

lemma sum_list_divided: "sum_list (map (\<lambda>(d, pm). of_int (f d) / c) xs) = of_int (sum_list (map (\<lambda>(d, pm). f d) xs)) / c" for c :: rat
  by (induction xs) (auto simp: add_divide_distrib)

lemma filter_key_one: "distinct (map k ys) \<Longrightarrow> v \<in> k ` set ys \<Longrightarrow> \<exists>y. filter (\<lambda>y. k y = v) ys = [y] \<and> k y = v"
proof (induction ys)
  case (Cons y ys)
  then have "k y = v \<Longrightarrow> filter (\<lambda>y. k y = v) ys = []" by (auto simp: filter_empty_conv dest: image_eqI [OF sym])
  then show ?case using Cons by auto
qed simp

lemma stake_joins_pools:
  assumes "spo_ok db"
  shows "map (\<lambda>(d, pm). (p_pool_id pm, d)) (stake_joins db) = stake_snapshots db"
proof -
  have d: "distinct (map p_pool_id (pool_metadata_cache db))" and sub: "fst ` set (stake_snapshots db) \<subseteq> p_pool_id ` set (pool_metadata_cache db)"
    using assms by (auto simp: spo_ok_def pool_ids_def)
  have "map (\<lambda>(d, pm). (p_pool_id pm, d)) (map (\<lambda>(s, pm). (snd s, pm)) (inner_join (\<lambda>s pm. p_pool_id pm = fst s) ss (pool_metadata_cache db))) = ss"
    if "set ss \<subseteq> set (stake_snapshots db)" for ss
    using that
  proof (induction ss)
    case (Cons s ss)
    then have "fst s \<in> p_pool_id ` set (pool_metadata_cache db)" using sub by auto
    then obtain pm where "filter (\<lambda>pm. p_pool_id pm = fst s) (pool_metadata_cache db) = [pm]" "p_pool_id pm = fst s"
      using filter_key_one [OF d] by blast
    then show ?case using Cons by (simp add: inner_join_def)
  qed (simp add: inner_join_def)
  then show ?thesis by (simp add: stake_joins_def)
qed

definition stake_pages :: "feature \<Rightarrow> nat \<Rightarrow> nat \<Rightarrow> bool \<Rightarrow> spo_db \<Rightarrow> stake_share list" where
  "stake_pages feat limit n desc db = concat (map (\<lambda>k. fst (get_stake_distribution feat limit (k * limit) None desc db)) [0..<n])"

text \<open>
  Paging through the stake distribution gives every pool with stake data exactly once, with its stake, in the order of
  stake, and the shares of all pages add up to one.
\<close>

theorem stake_pages_cover:
  assumes "spo_run env db" "length (stake_snapshots db) \<le> n * limit"
  shows "let shares = stake_pages feat limit n desc db in
    mset (map (\<lambda>s. (st_pool_id_hex s, st_live_stake s)) shares) = mset (map (\<lambda>(p, d). (p, psd_live_stake d)) (stake_snapshots db))
    \<and> distinct (map st_pool_id_hex shares)
    \<and> sorted (map (\<lambda>s. (if desc then - 1 else 1) * coalesce (st_live_stake s)) shares)
    \<and> (0 < total_live db \<longrightarrow> sum_list (map (the \<circ> st_stake_share) shares) = 1)"
proof -
  define shares where "shares = stake_pages feat limit n desc db"
  have ok: "spo_ok db" by (rule spo_tables_ok [OF assms(1)])
  let ?order = "\<lambda>(d, _ :: pool_row). if desc then - coalesce (psd_live_stake d) else coalesce (psd_live_stake d)"
  let ?rows = "sort_key ?order (sort_key (p_pool_id \<circ> snd) (stake_joins db))"
  let ?T = "total_live db"
  have joins: "map (\<lambda>(d, pm). (p_pool_id pm, d)) (stake_joins db) = stake_snapshots db" by (rule stake_joins_pools [OF ok])
  have len: "length ?rows = length (stake_snapshots db)" by (simp flip: joins)
  have "shares = map (share_from_row ?T) (concat (map (\<lambda>k. page limit (k * limit) ?rows) [0..<n]))"
    by (simp add: shares_def stake_pages_def get_stake_distribution_def map_concat comp_def)
  moreover have "take (n * limit) ?rows = ?rows" by (rule take_all) (use assms(2) in \<open>simp only: len\<close>)
  ultimately have sh: "shares = map (share_from_row ?T) ?rows" by (simp only: pages_concat)
  have same: "mset (map f ?rows) = mset (map g (stake_snapshots db))" if "\<And>x. f x = g (case x of (d, pm) \<Rightarrow> (p_pool_id pm, d))"
    for f :: "pool_stake_data \<times> pool_row \<Rightarrow> 'c" and g
  proof -
    have "map f (stake_joins db) = map g (stake_snapshots db)" unfolding joins [symmetric] map_map comp_def using that by simp
    moreover have "mset (map f ?rows) = mset (map f (stake_joins db))" by (simp only: mset_map mset_sort)
    ultimately show ?thesis by (simp only:)
  qed
  have one: "mset (map (\<lambda>s. (st_pool_id_hex s, st_live_stake s)) shares) = mset (map (\<lambda>(p, d). (p, psd_live_stake d)) (stake_snapshots db))"
    using same [of "\<lambda>(d, pm). (p_pool_id pm, psd_live_stake d)" "\<lambda>(p, d). (p, psd_live_stake d)"]
    by (simp add: sh share_from_row_def comp_def case_prod_unfold)
  have "mset (map st_pool_id_hex shares) = mset (map fst (stake_snapshots db))"
    using same [of "\<lambda>(d, pm). p_pool_id pm" fst] by (simp add: sh share_from_row_def comp_def case_prod_unfold)
  then have two: "distinct (map st_pool_id_hex shares)" using ok by (metis mset_eq_imp_distinct_iff spo_ok_def)
  have "sorted (map ?order ?rows)" by simp
  then have three: "sorted (map (\<lambda>s. (if desc then - 1 else 1) * coalesce (st_live_stake s)) shares)"
    by (simp add: sh share_from_row_def comp_def case_prod_unfold if_distrib [of "\<lambda>x. x * _"] cong: if_cong)
  have "sum_list (map (the \<circ> st_stake_share) shares) = 1" if T: "0 < ?T"
  proof -
    have "sum_list (map (the \<circ> st_stake_share) shares) = sum_list (map (\<lambda>(d, pm). of_int (coalesce (psd_live_stake d)) / of_int ?T) (stake_joins db))"
      using T by (simp add: sh share_from_row_def comp_def case_prod_unfold sum_list_sort_key)
    also have "\<dots> = of_int (sum_list (map (\<lambda>(d, pm). coalesce (psd_live_stake d)) (stake_joins db))) / of_int ?T"
      by (rule sum_list_divided)
    also have "sum_list (map (\<lambda>(d, pm). coalesce (psd_live_stake d)) (stake_joins db)) = ?T"
      unfolding total_live_def joins [symmetric] by (simp add: comp_def case_prod_unfold)
    finally show ?thesis using T by (simp add: comp_def)
  qed
  then show ?thesis using one two three by (simp add: Let_def flip: shares_def)
qed


section \<open>Listing and search\<close>

lemma joined_image: "(p, si, pm) \<in> (\<lambda>((s, si), pm). (fst s, si, pm)) ` J \<longleftrightarrow> (\<exists>s. fst s = p \<and> ((s, si), pm) \<in> J)"
  by force

lemma ex_key: "(\<exists>s. fst s = p \<and> s \<in> S \<and> Q (fst s)) \<longleftrightarrow> p \<in> fst ` S \<and> Q p"
  by force

definition id_row :: "spo_db \<Rightarrow> string \<Rightarrow> spo option \<Rightarrow> bool" where
  "id_row db p si \<longleftrightarrow>
     (case si of None \<Rightarrow> \<forall>si \<in> set (spo_identity db). spo_pool_id si \<noteq> p | Some si \<Rightarrow> si \<in> set (spo_identity db) \<and> spo_pool_id si = p)"

lemma spo_joins_iff:
  assumes "spo_ok db"
  shows "(p, si, pm) \<in> set (spo_joins db) \<longleftrightarrow> p \<in> fst ` set (stake_snapshots db) \<and> id_row db p si
    \<and> (\<exists>r \<in> set (pool_metadata_cache db). pm = Some r \<and> p_pool_id r = p)"
proof -
  have sub: "fst ` set (stake_snapshots db) \<subseteq> p_pool_id ` set (pool_metadata_cache db)" using assms by (simp add: spo_ok_def pool_ids_def)
  have inner: "(s, si) \<in> set (left_join (\<lambda>s si. spo_pool_id si = fst s) (stake_snapshots db) (spo_identity db)) \<longleftrightarrow>
      s \<in> set (stake_snapshots db) \<and> id_row db (fst s) si" for s
    by (cases si) (auto simp: set_left_join set_left_join_none id_row_def)
  have outer: "((s, si), pm) \<in> set (left_join (\<lambda>(s, _) pm. p_pool_id pm = fst s)
      (left_join (\<lambda>s si. spo_pool_id si = fst s) (stake_snapshots db) (spo_identity db)) (pool_metadata_cache db)) \<longleftrightarrow>
      s \<in> set (stake_snapshots db) \<and> id_row db (fst s) si \<and> (\<exists>r \<in> set (pool_metadata_cache db). pm = Some r \<and> p_pool_id r = fst s)" for s
  proof (cases pm)
    case None
    have "\<exists>r \<in> set (pool_metadata_cache db). p_pool_id r = fst s" if "s \<in> set (stake_snapshots db)"
      using subsetD [OF sub imageI [OF that]] by auto
    then show ?thesis by (auto simp: None set_left_join_none inner)
  next
    case (Some r)
    then show ?thesis by (auto simp: set_left_join inner)
  qed
  have "(p, si, pm) \<in> set (spo_joins db) \<longleftrightarrow> (\<exists>s. fst s = p \<and> s \<in> set (stake_snapshots db) \<and> id_row db (fst s) si
      \<and> (\<exists>r \<in> set (pool_metadata_cache db). pm = Some r \<and> p_pool_id r = fst s))"
    unfolding spo_joins_def set_map joined_image outer ..
  then show ?thesis using ex_key [of p "set (stake_snapshots db)" "\<lambda>p. id_row db p si \<and> (\<exists>r \<in> set (pool_metadata_cache db). pm = Some r \<and> p_pool_id r = p)"]
    by simp
qed

lemma ex_some_rows:
  assumes "\<And>x y. J x y \<longleftrightarrow> A \<and> I x \<and> (\<exists>r \<in> R. y = Some r \<and> Q r)" "\<And>x. A \<Longrightarrow> I x \<longleftrightarrow> (\<exists>s \<in> S. P s \<and> x = Some s)"
  shows "(\<exists>x y. J x y \<and> M x y) \<longleftrightarrow> A \<and> (\<exists>s \<in> S. \<exists>r \<in> R. P s \<and> Q r \<and> M (Some s) (Some r))"
proof (cases A)
  case True
  then have "J x y \<longleftrightarrow> (\<exists>s \<in> S. \<exists>r \<in> R. P s \<and> Q r \<and> x = Some s \<and> y = Some r)" for x y using assms by auto
  then show ?thesis using True by auto
qed (simp add: assms(1))

lemma spo_matches_contains:
  assumes "plain_text s" "strip_hex_prefix s = s"
  shows "spo_matches feat s (p, Some si, Some pm) \<longleftrightarrow>
    (\<exists>t \<in> {p_name pm, p_ticker pm, p_homepage_url pm, p, spo_sidechain_pubkey si, spo_aura_pubkey si, spo_mainchain_pubkey si}.
       sublist (to_ascii_lowercase s) (to_ascii_lowercase t))"
proof -
  have "(case storage_normalize_hex s of None \<Rightarrow> to_ascii_lowercase s | Some h \<Rightarrow> h) = to_ascii_lowercase s"
    using assms(2) by (simp add: storage_normalize_hex_def Let_def)
  moreover have "plain_text (to_ascii_lowercase s)" by (rule plain_lowercase [OF assms(1)])
  moreover have "to_ascii_lowercase (to_ascii_lowercase s) = to_ascii_lowercase s" by (simp add: to_ascii_lowercase_def ascii_lower_idem)
  ultimately show ?thesis using assms(1) by (simp add: spo_matches_def Let_def opt_ilike_def ilike_contains)
qed

text \<open>
  A search in the list of operators, when every pool with stake data has an identity and the page is large enough, succeeds
  and finds exactly the pools with stake data whose name, ticker, homepage, id or one of whose keys contains the text, in
  either case. The text has none of the characters that \<^verbatim>\<open>LIKE\<close> treats specially and no prefix that marks hex.
\<close>

theorem spo_search_exact:
  assumes "spo_run env db" "plain_text s" "strip_hex_prefix s = s" "length (spo_joins db) \<le> limit"
    and "\<forall>p \<in> fst ` set (stake_snapshots db). \<exists>si \<in> set (spo_identity db). spo_pool_id si = p"
  shows "\<exists>spos. get_spo_list feat limit 0 (Some s) db = Inr spos \<and>
    (\<forall>p. p \<in> as_pool_id_hex ` set spos \<longleftrightarrow> p \<in> fst ` set (stake_snapshots db) \<and>
      (\<exists>si \<in> set (spo_identity db). \<exists>pm \<in> set (pool_metadata_cache db). spo_pool_id si = p \<and> p_pool_id pm = p \<and>
        (\<exists>t \<in> {p_name pm, p_ticker pm, p_homepage_url pm, p, spo_sidechain_pubkey si, spo_aura_pubkey si, spo_mainchain_pubkey si}.
          sublist (to_ascii_lowercase s) (to_ascii_lowercase t))))"
proof -
  have ok: "spo_ok db" by (rule spo_tables_ok [OF assms(1)])
  let ?rows = "sort_key join_order (filter (spo_matches feat s) (spo_joins db))"
  have len: "length ?rows \<le> limit" using assms(4) by (simp add: le_trans [OF length_filter_le])
  define row where "row = (\<lambda>x. case spo_from_row x of Inr r \<Rightarrow> r)"
  have rows: "spo_from_row x = Inr (row x) \<and> as_pool_id_hex (row x) = fst x" if "x \<in> set ?rows" for x
  proof -
    obtain p si pm where x: "x = (p, si, pm)" by (cases x)
    then have j: "(p, si, pm) \<in> set (spo_joins db)" using that by simp
    then obtain si' where "si = Some si'" using assms(5) by (cases si) (auto simp: spo_joins_iff [OF ok] id_row_def)
    then show ?thesis by (simp add: x row_def spo_from_row_def)
  qed
  have found: "get_spo_list feat limit 0 (Some s) db = Inr (map row ?rows)"
    using try_map_total [of ?rows spo_from_row row] rows len by (simp add: get_spo_list_def page_def)
  have rows_iff: "p \<in> as_pool_id_hex ` set (map row ?rows) \<longleftrightarrow> (\<exists>si pm. (p, si, pm) \<in> set (spo_joins db) \<and> spo_matches feat s (p, si, pm))" for p
  proof -
    have "as_pool_id_hex ` set (map row ?rows) = fst ` set ?rows" unfolding set_map image_image using rows by (intro image_cong) simp_all
    moreover have "set ?rows = {x \<in> set (spo_joins db). spo_matches feat s x}" by simp
    ultimately show ?thesis by (simp add: image_iff)
  qed
  have joins_iff: "(\<exists>si pm. (p, si, pm) \<in> set (spo_joins db) \<and> spo_matches feat s (p, si, pm)) \<longleftrightarrow> p \<in> fst ` set (stake_snapshots db) \<and>
      (\<exists>si \<in> set (spo_identity db). \<exists>pm \<in> set (pool_metadata_cache db). spo_pool_id si = p \<and> p_pool_id pm = p \<and> spo_matches feat s (p, Some si, Some pm))" for p
  proof -
    have "id_row db p si \<longleftrightarrow> (\<exists>si' \<in> set (spo_identity db). spo_pool_id si' = p \<and> si = Some si')" if "p \<in> fst ` set (stake_snapshots db)" for si
      using that assms(5) by (cases si) (auto simp: id_row_def)
    then show ?thesis by (rule ex_some_rows [OF spo_joins_iff [OF ok]])
  qed
  show ?thesis
    by (intro exI [of _ "map row ?rows"] conjI allI found) (simp only: rows_iff joins_iff spo_matches_contains [OF assms(2,3)])
qed

section \<open>A concrete run\<close>

text \<open>One registration, a committee of one, and stake data for the registered pool.\<close>

definition sample_registration :: candidate_registration where
  "sample_registration = \<lparr>cr_sidechain_pub_key = ''0x51'', cr_sidechain_account_id = '''', cr_mainchain_pub_key = ''0x6D'', cr_cross_chain_pub_key = '''',
     cr_aura = ''0xa1'', cr_gran = '''', cr_sidechain_signature = '''', cr_mainchain_signature = '''', cr_cross_chain_signature = '''',
     cr_utxo = \<lparr>ur_utxo_id = '''', ur_epoch_number = 0, ur_block_number = 0, ur_slot_number = 0, ur_tx_index_within_block = 0\<rparr>,
     cr_is_valid = True, cr_invalid_reasons = None\<rparr>"

definition sample_spo_client :: spo_client where
  "sample_spo_client = spo_sample_client\<lparr>cl_status_again := cl_status spo_sample_client, cl_first_block_timestamp := Inr 130000,
     cl_ariadne_parameters := (\<lambda>_. Inr [(''k'', [sample_registration])]),
     cl_pools_metadata := (\<lambda>_. Inr \<lparr>rpm_hex = ''aa'', rpm_name = Some ''Alpha Pool'', rpm_ticker = Some ''ALP'', rpm_homepage = None, rpm_url = None\<rparr>),
     cl_pool_data := (\<lambda>_. Inr \<lparr>psd_live_stake = Some 40, psd_active_stake = None, psd_live_delegators = Some 2, psd_live_saturation = None,
       psd_declared_pledge = None, psd_live_pledge = None\<rparr>)\<rparr>"

definition sample_spo_db :: spo_db where
  "sample_spo_db = \<lparr>epochs = [\<lparr>e_epoch_no = 3, e_starts_at = 120000, e_ends_at = 180000\<rparr>],
     pool_metadata_cache = [\<lparr>p_pool_id = ''aa'', p_hex_id = ''aa'', p_name = ''Alpha Pool'', p_ticker = ''ALP'', p_homepage_url = '''', p_url = '''',
       p_updated_at = None\<rparr>],
     spo_identity = [\<lparr>spo_sk = ''51'', spo_pool_id = ''aa'', spo_mainchain_pubkey = ''6D'', spo_sidechain_pubkey = ''51'', spo_aura_pubkey = ''a1''\<rparr>],
     committee_membership = [], spo_performance = [],
     spo_histories = [\<lparr>h_spo_sk = ''51'', h_epoch_no = 3, h_status = ''VALID'', h_valid_from = 3, h_valid_to = 3\<rparr>],
     stake_snapshots = [(''aa'', \<lparr>psd_live_stake = Some 40, psd_active_stake = None, psd_live_delegators = Some 2, psd_live_saturation = None,
       psd_declared_pledge = None, psd_live_pledge = None\<rparr>)],
     stake_history = [(''aa'', None, \<lparr>psd_live_stake = Some 40, psd_active_stake = None, psd_live_delegators = Some 2, psd_live_saturation = None,
       psd_declared_pledge = None, psd_live_pledge = None\<rparr>)],
     stake_refresh_cursor = Some ''aa''\<rparr>"

lemmas sample_spo_defs = sample_registration_def sample_spo_client_def spo_sample_client_def spo_sample_env_def empty_spo_db_def

lemmas process_defs = process_next_epoch_def get_epoch_to_process_def get_current_epoch_def current_epoch_of_def get_latest_epoch_def
  get_first_epoch_num_def order_by_desc_def Let_def Spo_Indexer.get_committee_def get_spo_registrations_def save_epoch_data_def save_epoch_def
  save_performances_def clean_registration_def remove_hex_prefix_def get_cardano_id_def fetch_pool_metadata_def Spo_Indexer.get_pool_metadata_def
  save_entry_def save_pool_meta_def save_spo_identity_def save_spo_def save_spo_history_def save_spo_history_row_def text_or_default_def
  datetime_def quot_def rem_def save_membership_def committee_to_membership_def status_to_string_def

lemma sample_spo_run: "spo_run spo_sample_env sample_spo_db"
proof -
  let ?db = "sample_spo_db\<lparr>stake_snapshots := [], stake_history := [], stake_refresh_cursor := None\<rparr>"
  have "process_next_epoch spo_sample_env sample_spo_client 0 empty_spo_db =
      (Inr (Some \<lparr>ep_no = 3, ep_starts_at = 120000, ep_ends_at = 180000\<rparr>), ?db)"
    by (simp add: process_defs sample_spo_defs sample_spo_db_def as_i64_def)
  from spo_run.process [OF spo_run.start this] have run: "spo_run spo_sample_env ?db" by simp
  have "refresh_pool sample_spo_client None ''aa'' ?db = (None, sample_spo_db)"
    by (simp add: refresh_pool_def save_stake_snapshot_def insert_stake_history_def set_stake_refresh_cursor_def sample_spo_db_def sample_spo_defs)
  from spo_run.refresh [OF run this] show ?thesis .
qed

lemma sample_totals:
  "get_registered_totals_series 2 4 sample_spo_db =
     [\<lparr>rt_epoch_no = 2, rt_total_registered = 0, rt_newly_registered = 0\<rparr>, \<lparr>rt_epoch_no = 3, rt_total_registered = 1, rt_newly_registered = 1\<rparr>,
      \<lparr>rt_epoch_no = 4, rt_total_registered = 1, rt_newly_registered = 0\<rparr>]"
  by (simp add: get_registered_totals_series_def firsts_cur_def union_firsts_def pools_seen_def history_joins_def committee_joins_def
    performance_joins_def left_join_def group_min_def sample_spo_db_def upto_rec1)

theorem registered_totals_exact_witness:
  "int (card {p \<in> fst ` set (stake_snapshots sample_spo_db). \<exists>v. counts_from sample_spo_db 4 p v \<and> v \<le> 3}) = 1"
  using registered_totals_exact [OF sample_spo_run, of 2 4] unfolding sample_totals
  by (simp add: sample_spo_db_def upto_rec1)

theorem stake_pages_cover_witness:
  "sum_list (map (the \<circ> st_stake_share) (stake_pages Cloud 1 2 True sample_spo_db)) = 1"
  using stake_pages_cover [OF sample_spo_run, of 2 1 Cloud True]
  by (simp add: Let_def sample_spo_db_def total_live_def coalesce_def)

theorem spo_search_exact_witness:
  "\<exists>spos. get_spo_list Standalone 20 0 (Some ''pha p'') sample_spo_db = Inr spos \<and> ''aa'' \<in> as_pool_id_hex ` set spos"
proof -
  have "sublist ''pha p'' ''alpha pool''" unfolding sublist_def by (rule exI [of _ "''al''"], rule exI [of _ "''ool''"]) simp
  then have "sublist (to_ascii_lowercase ''pha p'') (to_ascii_lowercase ''Alpha Pool'')" by (simp add: to_ascii_lowercase_def ascii_lower_def char_of_def bit_Suc bit_0)
  moreover have "plain_text ''pha p''" "strip_hex_prefix ''pha p'' = ''pha p''" "length (spo_joins sample_spo_db) \<le> 20"
      "\<forall>p \<in> fst ` set (stake_snapshots sample_spo_db). \<exists>si \<in> set (spo_identity sample_spo_db). spo_pool_id si = p"
    by (simp_all add: plain_text_def strip_hex_prefix_def strip_prefix_def spo_joins_def left_join_def sample_spo_db_def)
  then obtain spos where "get_spo_list Standalone 20 0 (Some ''pha p'') sample_spo_db = Inr spos"
      "\<forall>p. p \<in> as_pool_id_hex ` set spos \<longleftrightarrow> p \<in> fst ` set (stake_snapshots sample_spo_db) \<and>
        (\<exists>si \<in> set (spo_identity sample_spo_db). \<exists>pm \<in> set (pool_metadata_cache sample_spo_db). spo_pool_id si = p \<and> p_pool_id pm = p \<and>
          (\<exists>t \<in> {p_name pm, p_ticker pm, p_homepage_url pm, p, spo_sidechain_pubkey si, spo_aura_pubkey si, spo_mainchain_pubkey si}.
            sublist (to_ascii_lowercase ''pha p'') (to_ascii_lowercase t)))"
    using spo_search_exact [OF sample_spo_run, of "''pha p''" 20 Standalone] by blast
  moreover have "\<exists>si \<in> set (spo_identity sample_spo_db). spo_pool_id si = ''aa''"
      "\<exists>pm \<in> set (pool_metadata_cache sample_spo_db). p_pool_id pm = ''aa'' \<and> p_name pm = ''Alpha Pool''"
      "''aa'' \<in> fst ` set (stake_snapshots sample_spo_db)"
    by (simp_all add: sample_spo_db_def)
  ultimately show ?thesis by (metis insertI1)
qed

text \<open>
  The stored interval of an epoch is that of the one before, so that the extrapolated epoch is one ahead of the node's:
  at this time the node is in epoch 7, which lasts from 420000 to 480000.
\<close>

lemma current_epoch_one_ahead:
  "get_current_epoch_info feat 430000 sample_spo_db = Some \<lparr>ei_epoch_no = 8, ei_duration_seconds = 60, ei_elapsed_seconds = 10\<rparr>"
  "map_ok (\<lambda>e. (ep_no e, ep_starts_at e, ep_ends_at e)) (get_current_epoch sample_spo_client) = Inr (7, 420000, 480000)"
  by (cases feat) (simp_all add: get_current_epoch_info_def order_by_desc_def sample_spo_db_def seconds_of_def epoch_info_at_def quot_def Let_def
    get_current_epoch_def current_epoch_of_def sample_spo_client_def spo_sample_client_def)

text \<open>
  An operator that registers the same sidechain key for another pool gives a pool without identity; with its stake data every
  listing that reaches it fails.
\<close>

lemma spo_list_fails_without_identity:
  "\<exists>db db'. save_entry 0 4 [(''bb'', placeholder ''bb'')] sample_spo_db (''bb'', sample_registration\<lparr>cr_mainchain_pub_key := ''7E''\<rparr>) = Inr db
     \<and> refresh_pool sample_spo_client None ''bb'' db = (None, db') \<and> get_spo_list feat 20 0 None db' = Inl Decode"
  by (simp add: process_defs placeholder_def refresh_pool_def save_stake_snapshot_def insert_stake_history_def set_stake_refresh_cursor_def
    sample_spo_db_def sample_spo_defs get_spo_list_def spo_joins_def left_join_def page_def join_order_def spo_from_row_def)

end
