(* ===== verification/Api_Address.thy ===== *)
theory Api_Address
  imports Common_Domain
begin

text \<open>
  Text that stands for bytes in the API: hex strings, session ids, Bech32m addresses of Midnight and Bech32 reward
  addresses of Cardano, \<^verbatim>\<open>indexer-api/src/infra/api/v4.rs\<close>, \<^verbatim>\<open>v4/viewing_key.rs\<close>, \<^verbatim>\<open>v4/unshielded.rs\<close> and
  \<^verbatim>\<open>v4/dust.rs\<close>, with the network id of \<^verbatim>\<open>indexer-common/src/domain.rs\<close>. The crates for hex and Bech32 are parameters; what
  is proved is that an address decodes on the network and for the type it was encoded for, and nowhere else.
\<close>

section \<open>Network ids\<close>

text \<open>Text is ASCII here: \<^verbatim>\<open>char::is_uppercase\<close> and \<^verbatim>\<open>to_ascii_lowercase\<close> look at the letters A to Z.\<close>

type_synonym network_id = string

datatype network_id_error = EmptyNetworkId | NotLowercase string

definition is_uppercase :: "char \<Rightarrow> bool" where
  "is_uppercase c \<longleftrightarrow> 65 \<le> (of_char c :: nat) \<and> of_char c \<le> (90 :: nat)"

definition network_id_try_from :: "string \<Rightarrow> network_id_error + network_id" where
  "network_id_try_from s =
     (if s = [] then Inl EmptyNetworkId
      else if list_ex is_uppercase s then Inl (NotLowercase s)
      else Inr s)"

definition ascii_lowercase :: "char \<Rightarrow> char" where
  "ascii_lowercase c = (if is_uppercase c then char_of (of_char c + (32 :: nat)) else c)"

definition eq_ignore_ascii_case :: "string \<Rightarrow> string \<Rightarrow> bool" where
  "eq_ignore_ascii_case s t \<longleftrightarrow> map ascii_lowercase s = map ascii_lowercase t"

section \<open>Hex\<close>

text \<open>\<^verbatim>\<open>HexEncoded::hex_decode\<close>: decode the text, then convert the bytes into the type asked for.\<close>

datatype hex_decode_error = HexDecode | HexConvert

definition hex_decode_as ::
  "(string \<Rightarrow> bytes option) \<Rightarrow> (bytes \<Rightarrow> 'e + 'a) \<Rightarrow> string \<Rightarrow> hex_decode_error + 'a" where
  "hex_decode_as hex_decode convert s =
     (case hex_decode s of
        None \<Rightarrow> Inl HexDecode
      | Some bs \<Rightarrow> map_err (\<lambda>_. HexConvert) (convert bs))"

definition hex_encoded_try_from :: "(string \<Rightarrow> bytes option) \<Rightarrow> string \<Rightarrow> hex_decode_error + string" where
  "hex_encoded_try_from hex_decode s = (if hex_decode s = None then Inl HexDecode else Inr s)"

datatype session_id_error = SessionHexDecode hex_decode_error | SessionLen byte_array_len_error

definition decode_session_id :: "(string \<Rightarrow> bytes option) \<Rightarrow> string \<Rightarrow> session_id_error + bytes" where
  "decode_session_id hex_decode s =
     and_then (map_err SessionHexDecode (hex_decode_as hex_decode (Inr :: bytes \<Rightarrow> unit + bytes) s)) (\<lambda>bs.
       map_err SessionLen (byte_array_try_from 32 bs))"

section \<open>Midnight addresses\<close>

text \<open>
  The crate \<^verbatim>\<open>bech32\<close>: decoding gives the human-readable part and the bytes, whichever of the two checksums the text has;
  encoding fails on a human-readable part or a length it does not allow, which the callers take for a panic.
\<close>

record 'e bech32 =
  b32_decode :: "string \<Rightarrow> 'e + string \<times> bytes"
  b32_encode_bech32m :: "string \<Rightarrow> bytes \<Rightarrow> string option"
  b32_encode_bech32 :: "string \<Rightarrow> bytes \<Rightarrow> string option"

datatype address_type = Unshielded | SecretEncryptionKey | DustAddressType

fun hrp_prefix :: "address_type \<Rightarrow> string" where
  "hrp_prefix Unshielded = ''mn_addr''"
| "hrp_prefix SecretEncryptionKey = ''mn_shield-esk''"
| "hrp_prefix DustAddressType = ''mn_dust''"

definition hrp :: "address_type \<Rightarrow> network_id \<Rightarrow> string" where
  "hrp ty network_id =
     (if eq_ignore_ascii_case network_id ''mainnet'' then hrp_prefix ty
      else hrp_prefix ty @ ''_'' @ network_id)"

text \<open>The HRP that was expected, and the one found.\<close>

datatype 'e decode_address_error = AddressDecode 'e | InvalidHrp string string

definition decode_bech32m_address ::
  "'e bech32 \<Rightarrow> string \<Rightarrow> address_type \<Rightarrow> network_id \<Rightarrow> 'e decode_address_error + bytes" where
  "decode_bech32m_address b32 address ty network_id =
     and_then (map_err AddressDecode (b32_decode b32 address)) (\<lambda>(found, bs).
       if found \<noteq> hrp ty network_id then Inl (InvalidHrp (hrp ty network_id) found) else Inr bs)"

text \<open>\<^term>\<open>None\<close> is a panic.\<close>

definition encode_bech32m_address :: "'e bech32 \<Rightarrow> bytes \<Rightarrow> address_type \<Rightarrow> network_id \<Rightarrow> string option" where
  "encode_bech32m_address b32 address ty network_id = b32_encode_bech32m b32 (hrp ty network_id) address"

datatype 'e unshielded_address_error = UnshieldedDecode "'e decode_address_error" | UnshieldedLen byte_array_len_error

definition unshielded_address_try_into_domain ::
  "'e bech32 \<Rightarrow> network_id \<Rightarrow> string \<Rightarrow> 'e unshielded_address_error + bytes" where
  "unshielded_address_try_into_domain b32 network_id address =
     and_then (map_err UnshieldedDecode (decode_bech32m_address b32 address Unshielded network_id)) (\<lambda>bs.
       map_err UnshieldedLen (byte_array_try_from 32 bs))"

definition dust_address_try_into_domain ::
  "'e bech32 \<Rightarrow> network_id \<Rightarrow> string \<Rightarrow> 'e decode_address_error + bytes" where
  "dust_address_try_into_domain b32 network_id address = decode_bech32m_address b32 address DustAddressType network_id"

datatype ('e, 'l) viewing_key_error = ViewingKeyDecode "'e decode_address_error" | ViewingKeyLedger 'l

text \<open>The secret key is deserialized by the ledger, which gives its representation back.\<close>

definition viewing_key_try_into_domain ::
  "'e bech32 \<Rightarrow> (bytes \<Rightarrow> 'l + bytes) \<Rightarrow> network_id \<Rightarrow> string \<Rightarrow> ('e, 'l) viewing_key_error + bytes" where
  "viewing_key_try_into_domain b32 secret_key_deserialize network_id viewing_key =
     and_then (map_err ViewingKeyDecode (decode_bech32m_address b32 viewing_key SecretEncryptionKey network_id)) (\<lambda>bs.
       map_err ViewingKeyLedger (secret_key_deserialize bs))"

section \<open>Cardano reward addresses\<close>

datatype cardano_network_id = Mainnet | Testnet

fun cardano_hrp :: "cardano_network_id \<Rightarrow> string" where
  "cardano_hrp Mainnet = ''stake''"
| "cardano_hrp Testnet = ''stake_test''"

definition cardano_from_hrp :: "string \<Rightarrow> cardano_network_id option" where
  "cardano_from_hrp s = (if s = ''stake'' then Some Mainnet else if s = ''stake_test'' then Some Testnet else None)"

definition cardano_network_from :: "network_id \<Rightarrow> cardano_network_id" where
  "cardano_network_from network_id = (if eq_ignore_ascii_case network_id ''mainnet'' then Mainnet else Testnet)"

datatype 'e reward_address_error =
    RewardDecode 'e | RewardHrp string | RewardLength nat | WrongNetwork string string

definition decode_cardano_reward_address_with_network ::
  "'e bech32 \<Rightarrow> string \<Rightarrow> 'e reward_address_error + cardano_network_id \<times> bytes" where
  "decode_cardano_reward_address_with_network b32 address =
     and_then (map_err RewardDecode (b32_decode b32 address)) (\<lambda>(found, bs).
       case cardano_from_hrp found of
         None \<Rightarrow> Inl (RewardHrp found)
       | Some network \<Rightarrow> map_ok (Pair network) (map_err (\<lambda>_. RewardLength (length bs)) (byte_array_try_from 29 bs)))"

definition decode_cardano_reward_address :: "'e bech32 \<Rightarrow> string \<Rightarrow> 'e reward_address_error + bytes" where
  "decode_cardano_reward_address b32 address = map_ok snd (decode_cardano_reward_address_with_network b32 address)"

definition cardano_reward_address_try_from :: "'e bech32 \<Rightarrow> string \<Rightarrow> 'e reward_address_error + string" where
  "cardano_reward_address_try_from b32 s = map_ok (\<lambda>_. s) (decode_cardano_reward_address b32 s)"

definition decode_cardano_reward_address_for_network ::
  "'e bech32 \<Rightarrow> string \<Rightarrow> cardano_network_id \<Rightarrow> 'e reward_address_error + bytes" where
  "decode_cardano_reward_address_for_network b32 address expected_network =
     and_then (decode_cardano_reward_address_with_network b32 address) (\<lambda>(actual_network, reward_address).
       if actual_network \<noteq> expected_network
       then Inl (WrongNetwork (cardano_hrp expected_network) (cardano_hrp actual_network))
       else Inr reward_address)"

text \<open>\<^term>\<open>None\<close> is a panic.\<close>

definition encode_cardano_reward_address :: "'e bech32 \<Rightarrow> bytes \<Rightarrow> cardano_network_id \<Rightarrow> string option" where
  "encode_cardano_reward_address b32 reward_address network = b32_encode_bech32 b32 (cardano_hrp network) reward_address"

section \<open>Round trips\<close>

text \<open>What is documented of the crate: text that was encoded decodes to the human-readable part and the bytes it was made of.\<close>

definition lawful :: "'e bech32 \<Rightarrow> bool" where
  "lawful b32 \<longleftrightarrow> (\<forall>h bs s. b32_encode_bech32m b32 h bs = Some s \<longrightarrow> b32_decode b32 s = Inr (h, bs))
     \<and> (\<forall>h bs s. b32_encode_bech32 b32 h bs = Some s \<longrightarrow> b32_decode b32 s = Inr (h, bs))"

lemma decode_encoded:
  assumes "lawful b32" and "encode_bech32m_address b32 bs ty n = Some s"
  shows "decode_bech32m_address b32 s ty' n'
    = (if hrp ty n = hrp ty' n' then Inr bs else Inl (InvalidHrp (hrp ty' n') (hrp ty n)))"
  using assms by (auto simp: lawful_def encode_bech32m_address_def decode_bech32m_address_def)

lemma decode_encoded_reward:
  assumes "lawful b32" and "encode_cardano_reward_address b32 bs network = Some s" and "length bs = 29"
  shows "decode_cardano_reward_address_for_network b32 s network'
    = (if network = network' then Inr bs else Inl (WrongNetwork (cardano_hrp network') (cardano_hrp network)))"
proof -
  have "b32_decode b32 s = Inr (cardano_hrp network, bs)"
    using assms(1,2) by (simp add: lawful_def encode_cardano_reward_address_def)
  then show ?thesis using assms(3)
    by (cases network; cases network')
      (simp_all add: decode_cardano_reward_address_for_network_def decode_cardano_reward_address_with_network_def
        cardano_from_hrp_def byte_array_try_from_def)
qed

text \<open>A codec that satisfies the laws: the human-readable part and the bytes, each byte as a character, around a separator.\<close>

definition plain_encode :: "string \<Rightarrow> bytes \<Rightarrow> string option" where
  "plain_encode h bs = (if CHR ''1'' \<in> set h then None else Some (h @ CHR ''1'' # map (\<lambda>b. char_of (unat b)) bs))"

definition plain_decode :: "string \<Rightarrow> unit + string \<times> bytes" where
  "plain_decode s =
     (case dropWhile (\<lambda>c. c \<noteq> CHR ''1'') s of
        [] \<Rightarrow> Inl ()
      | _ # cs \<Rightarrow> Inr (takeWhile (\<lambda>c. c \<noteq> CHR ''1'') s, map (\<lambda>c. word_of_nat (of_char c)) cs))"

definition plain_bech32 :: "unit bech32" where
  "plain_bech32 = \<lparr>b32_decode = plain_decode, b32_encode_bech32m = plain_encode, b32_encode_bech32 = plain_encode\<rparr>"

lemma plain_byte: "(word_of_nat (of_char (char_of (unat b) :: char)) :: u8) = b"
  using unsigned_less [of b, where ?'a = nat] by simp

lemma plain_decode_encode: "plain_encode h bs = Some s \<Longrightarrow> plain_decode s = Inr (h, bs)"
proof -
  assume s: "plain_encode h bs = Some s"
  then have h: "CHR ''1'' \<notin> set h" and s: "s = h @ CHR ''1'' # map (\<lambda>b. char_of (unat b)) bs"
    by (auto simp: plain_encode_def split: if_splits)
  have "dropWhile (\<lambda>c. c \<noteq> CHR ''1'') s = CHR ''1'' # map (\<lambda>b. char_of (unat b)) bs"
    "takeWhile (\<lambda>c. c \<noteq> CHR ''1'') s = h"
    unfolding s using h by (auto simp: dropWhile_append takeWhile_append)
  then show ?thesis using plain_byte by (simp add: plain_decode_def comp_def)
qed

lemma plain_lawful: "lawful plain_bech32"
  by (simp add: lawful_def plain_bech32_def plain_decode_encode)

subsection \<open>Networks and types do not mix\<close>

lemma lowercase_id: "\<not> list_ex is_uppercase s \<Longrightarrow> map ascii_lowercase s = s"
  by (induction s) (simp_all add: ascii_lowercase_def)

lemma mainnet_lower: "network_id_try_from s = Inr n \<Longrightarrow> eq_ignore_ascii_case n ''mainnet'' \<longleftrightarrow> n = ''mainnet''"
proof -
  assume n: "network_id_try_from s = Inr n"
  then have "\<not> list_ex is_uppercase n" by (auto simp: network_id_try_from_def split: if_splits)
  moreover have "\<not> list_ex is_uppercase ''mainnet''" by (simp add: is_uppercase_def)
  ultimately show ?thesis unfolding eq_ignore_ascii_case_def using lowercase_id by metis
qed

lemma network_nonempty: "network_id_try_from s = Inr n \<Longrightarrow> n \<noteq> []"
  by (auto simp: network_id_try_from_def split: if_splits)

lemma hrp_inj:
  assumes "network_id_try_from s = Inr n" and "network_id_try_from s' = Inr n'"
  shows "hrp ty n = hrp ty' n' \<longleftrightarrow> ty = ty' \<and> n = n'"
  unfolding hrp_def mainnet_lower [OF assms(1)] mainnet_lower [OF assms(2)]
  using network_nonempty [OF assms(1)] network_nonempty [OF assms(2)] by (cases ty; cases ty') auto

text \<open>
  C36. An address encoded for one type and one network decodes, for that type and network, to the bytes it was made of, and is
  rejected with both human-readable parts for every other type or network; a reward address of Cardano of 29 bytes decodes on its
  network and is rejected on the other.
\<close>

theorem address_roundtrip:
  assumes b: "lawful b32" and n: "network_id_try_from t = Inr n" "network_id_try_from t' = Inr n'"
  shows "(encode_bech32m_address b32 bs ty n = Some s \<longrightarrow>
        decode_bech32m_address b32 s ty' n'
          = (if ty = ty' \<and> n = n' then Inr bs else Inl (InvalidHrp (hrp ty' n') (hrp ty n))))
    \<and> (encode_cardano_reward_address b32 rs (cardano_network_from n) = Some s \<and> length rs = 29 \<longrightarrow>
        decode_cardano_reward_address_for_network b32 s (cardano_network_from n')
          = (if (n = ''mainnet'') = (n' = ''mainnet'') then Inr rs
             else Inl (WrongNetwork (cardano_hrp (cardano_network_from n')) (cardano_hrp (cardano_network_from n)))))"
proof -
  have "cardano_network_from n = cardano_network_from n' \<longleftrightarrow> (n = ''mainnet'') = (n' = ''mainnet'')"
    by (auto simp: cardano_network_from_def mainnet_lower [OF n(1)] mainnet_lower [OF n(2)])
  then show ?thesis
    using decode_encoded [OF b, of bs ty n s ty' n'] hrp_inj [OF n, of ty ty']
      decode_encoded_reward [OF b, of rs "cardano_network_from n" s "cardano_network_from n'"] by simp
qed

theorem address_roundtrip_witness:
  "\<exists>s. encode_bech32m_address plain_bech32 [7, 255] Unshielded ''preview'' = Some s
     \<and> decode_bech32m_address plain_bech32 s Unshielded ''preview'' = Inr [7, 255]
     \<and> decode_bech32m_address plain_bech32 s DustAddressType ''preview''
         = Inl (InvalidHrp ''mn_dust_preview'' ''mn_addr_preview'')"
proof -
  have n: "network_id_try_from ''preview'' = Inr ''preview''" by (simp add: network_id_try_from_def is_uppercase_def)
  have h: "hrp ty ''preview'' = hrp_prefix ty @ ''_preview''" for ty
    by (simp add: hrp_def mainnet_lower [OF n])
  obtain s where s: "encode_bech32m_address plain_bech32 [7, 255] Unshielded ''preview'' = Some s"
    by (simp add: encode_bech32m_address_def plain_bech32_def plain_encode_def h)
  show ?thesis
    using address_roundtrip [OF plain_lawful n n, of "[7, 255]" Unshielded s Unshielded]
      address_roundtrip [OF plain_lawful n n, of "[7, 255]" Unshielded s DustAddressType] s by (simp add: h)
qed

end
