(* ===== verification/Contract_State.thy ===== *)
theory Contract_State
  imports Common_Domain
begin

text \<open>
  The errors of \<^verbatim>\<open>indexer-common/src/domain/ledger.rs\<close> and the state of a contract,
  \<^verbatim>\<open>indexer-common/src/domain/ledger/contract_state.rs\<close>: its token balances and its maintenance authority.
  The contract states of the ledger crates are given by the parts the code reads; deserializing them
  and serializing token types and keys are arguments.
\<close>

section \<open>Errors\<close>

text \<open>\<^verbatim>\<open>domain::ledger::Error\<close> as far as the ledger and contract states raise it, and the panic of an \<^verbatim>\<open>expect\<close>.\<close>

datatype 'e lederr =
    LoadLedgerState bytes 'e
  | Serialize string 'e
  | Deserialize string 'e
  | ByteArrayLen byte_array_len_error
  | InvalidUpdate 'e
  | MalformedTransaction 'e
  | SystemTransaction 'e
  | BlockLimitExceeded 'e
  | TransactionCost 'e
  | BackwardsLedgerStateTranslation ledger_version ledger_version
  | LedgerStateTranslation ledger_version ledger_version 'e
  | UnsupportedEventVariant string
  | ExpectPanic string

definition expect_some :: "string \<Rightarrow> 'a option \<Rightarrow> 'e lederr + 'a" where
  "expect_some msg x = (case x of None \<Rightarrow> Inl (ExpectPanic msg) | Some a \<Rightarrow> Inr a)"

text \<open>The names the two versions give to what they serialize, \<^verbatim>\<open>"DustPublicKeyV8"\<close> and the like.\<close>

definition versioned :: "string \<Rightarrow> ledger_version \<Rightarrow> string" where
  "versioned name v = name @ (case v of LV8 \<Rightarrow> ''V8'' | LV9 \<Rightarrow> ''V9'')"

section \<open>Contract states\<close>

datatype verifying_key_kind = Schnorr | Ecdsa

record contract_maintenance_authority =
  cma_committee :: "(verifying_key_kind \<times> bytes) list"
  cma_threshold :: u32
  cma_counter :: u32

text \<open>\<open>'o\<close> are the token types that are not unshielded, \<open>'k\<close> is a verifying key.\<close>

datatype 'o token = UnshieldedToken bytes | OtherToken 'o

datatype 'k committee_key = SchnorrKey 'k | EcdsaKey 'k

record ('o, 'k) contract_data =
  cd_balance :: "('o token \<times> u128) list"
  cd_committee :: "'k list"
  cd_threshold :: u32
  cd_counter :: u32

datatype ('o, 'k) contract_state = ContractV3 "('o, 'k) contract_data" | ContractV4 "('o, 'k committee_key) contract_data"

record ('o, 'k, 'e) contract_crate =
  cc_deserialize_v3 :: "bytes \<Rightarrow> 'e + ('o, 'k) contract_data"
  cc_deserialize_v4 :: "bytes \<Rightarrow> 'e + ('o, 'k committee_key) contract_data"
  cc_serialize_token :: "ledger_version \<Rightarrow> 'o token \<Rightarrow> 'e + bytes"
  cc_serialize_key :: "'k \<Rightarrow> 'e + bytes"

definition deserialize_contract_state ::
  "('o, 'k, 'e) contract_crate \<Rightarrow> bytes \<Rightarrow> ledger_version \<Rightarrow> 'e lederr + ('o, 'k) contract_state" where
  "deserialize_contract_state cc raw ver =
     (case ver of
        LV8 \<Rightarrow> map_ok ContractV3 (map_err (Deserialize ''ContractStateV8'') (cc_deserialize_v3 cc raw))
      | LV9 \<Rightarrow> map_ok ContractV4 (map_err (Deserialize ''ContractStateV9'') (cc_deserialize_v4 cc raw)))"

text \<open>The balance of one token: its type is taken as it is, or serialized and required to have 32 bytes.\<close>

definition balance_of ::
  "('o, 'k, 'e) contract_crate \<Rightarrow> ledger_version \<Rightarrow> 'o token \<times> u128 \<Rightarrow> 'e lederr + contract_balance" where
  "balance_of cc ver entry =
     (let (token_type, amount) = entry in
      case token_type of
        UnshieldedToken unshielded \<Rightarrow> Inr \<lparr>cb_token_type = unshielded, cb_amount = amount\<rparr>
      | OtherToken _ \<Rightarrow>
          and_then (map_err (Serialize (versioned ''TokenType'' ver)) (cc_serialize_token cc ver token_type)) (\<lambda>raw.
          and_then (map_err ByteArrayLen (byte_array_try_from 32 raw)) (\<lambda>token_type.
          Inr \<lparr>cb_token_type = token_type, cb_amount = amount\<rparr>)))"

definition balances_of ::
  "('o, 'k, 'e) contract_crate \<Rightarrow> ledger_version \<Rightarrow> ('o token \<times> u128) list \<Rightarrow> 'e lederr + contract_balance list" where
  "balances_of cc ver balance = try_map (balance_of cc ver) [entry \<leftarrow> balance. 0 < snd entry]"

fun balances :: "('o, 'k, 'e) contract_crate \<Rightarrow> ('o, 'k) contract_state \<Rightarrow> 'e lederr + contract_balance list" where
  "balances cc (ContractV3 d) = balances_of cc LV8 (cd_balance d)"
| "balances cc (ContractV4 d) = balances_of cc LV9 (cd_balance d)"

fun serialize_committee_key :: "('o, 'k, 'e) contract_crate \<Rightarrow> 'k committee_key \<Rightarrow> verifying_key_kind \<times> ('e + bytes)" where
  "serialize_committee_key cc (SchnorrKey key) = (Schnorr, cc_serialize_key cc key)"
| "serialize_committee_key cc (EcdsaKey key) = (Ecdsa, cc_serialize_key cc key)"

fun maintenance_authority_of ::
  "('o, 'k, 'e) contract_crate \<Rightarrow> ('o, 'k) contract_state \<Rightarrow> 'e lederr + contract_maintenance_authority" where
  "maintenance_authority_of cc (ContractV3 d) =
     and_then (try_map (\<lambda>key. and_then (map_err (Serialize ''VerifyingKeyV8'') (cc_serialize_key cc key))
         (\<lambda>key. Inr (Schnorr, key))) (cd_committee d)) (\<lambda>committee.
     Inr \<lparr>cma_committee = committee, cma_threshold = cd_threshold d, cma_counter = cd_counter d\<rparr>)"
| "maintenance_authority_of cc (ContractV4 d) =
     and_then (try_map (\<lambda>key. let (kind, key) = serialize_committee_key cc key in
         and_then (map_err (Serialize ''VerifyingKeyV9'') key) (\<lambda>key. Inr (kind, key))) (cd_committee d)) (\<lambda>committee.
     Inr \<lparr>cma_committee = committee, cma_threshold = cd_threshold d, cma_counter = cd_counter d\<rparr>)"

end
