(* ===== verification/Api_Graph.thy ===== *)
theory Api_Graph
  imports Api_Address Api_Dust Api_Events Api_Ledger_Cache Contract_State
begin

text \<open>
  The objects of the GraphQL schema and the resolvers of their nested fields: blocks, transactions, contract actions,
  contracts, unshielded UTXOs, system parameters and dust generations (\<^verbatim>\<open>indexer-api/src/infra/api/v4\<close>), the data
  loaders they read through (\<^verbatim>\<open>v4/dataloader.rs\<close>) and the queries for system parameters
  (\<^verbatim>\<open>indexer-api/src/infra/storage/system_parameters.rs\<close>). A resolver takes the state of the database its query sees; a
  field is resolved on its own, so that every one may see a later state than the object it belongs to.
\<close>

section \<open>What resolvers share\<close>

text \<open>
  The network, the codecs for hex and Bech32, and for every data loader the keys that happen to be loaded together with a
  key: other fields of the same request, collected by the crate \<^verbatim>\<open>async-graphql\<close>.
\<close>

record 'e graph_env =
  ge_feature :: feature
  ge_network_id :: network_id
  ge_hex_encode :: "bytes \<Rightarrow> string"
  ge_hex_decode :: "string \<Rightarrow> bytes option"
  ge_bech32 :: "'e bech32"
  ge_block_batch :: "bytes \<Rightarrow> bytes list"
  ge_transaction_batch :: "u64 \<Rightarrow> u64 list"
  ge_block_transactions_batch :: "u64 \<Rightarrow> u64 list"
  ge_contract_actions_batch :: "u64 \<Rightarrow> u64 list"
  ge_contract_events_batch :: "u64 \<Rightarrow> u64 list"

definition client_error :: "string \<Rightarrow> 'e + 'a \<Rightarrow> api_error + 'a" where
  "client_error msg r = map_err (\<lambda>_. Client msg) r"

definition some_or_server_error :: "string \<Rightarrow> 'a option \<Rightarrow> api_error + 'a" where
  "some_or_server_error msg r = (case r of None \<Rightarrow> Inl (Server msg) | Some x \<Rightarrow> Inr x)"

abbreviation decode_hash :: "'e graph_env \<Rightarrow> string \<Rightarrow> hex_decode_error + bytes" where
  "decode_hash env \<equiv> hex_decode_as (ge_hex_decode env) (byte_array_try_from 32)"

abbreviation decode_bytes :: "'e graph_env \<Rightarrow> string \<Rightarrow> hex_decode_error + bytes" where
  "decode_bytes env \<equiv> hex_decode_as (ge_hex_decode env) (Inr :: bytes \<Rightarrow> unit + bytes)"

section \<open>System parameters\<close>

record api_terms =
  at_block_height :: u32
  at_block_hash :: bytes
  at_timestamp :: u64
  at_hash :: bytes
  at_url :: string

record api_d_parameter =
  ad_block_height :: u32
  ad_block_hash :: bytes
  ad_timestamp :: u64
  ad_num_permissioned_candidates :: u16
  ad_num_registered_candidates :: u16

definition col_u16 :: "i32 \<Rightarrow> sqlx_error + u16" where
  "col_u16 i = (if 0 \<le> i \<and> i < 2 ^ 16 then Inr (word_of_int i) else Inl Decode)"

definition api_terms_from_row :: "terms_row \<Rightarrow> sqlx_error + api_terms" where
  "api_terms_from_row r =
     and_then (col_u32 (tc_block_height r)) (\<lambda>block_height.
     and_then (col_array 32 (tc_block_hash r)) (\<lambda>block_hash.
     and_then (col_u64 (tc_timestamp r)) (\<lambda>timestamp.
     map_ok (\<lambda>hash. \<lparr>at_block_height = block_height, at_block_hash = block_hash, at_timestamp = timestamp,
         at_hash = hash, at_url = tc_row_url r\<rparr>)
       (col_array 32 (tc_row_hash r)))))"

definition api_d_parameter_from_row :: "d_parameter_row \<Rightarrow> sqlx_error + api_d_parameter" where
  "api_d_parameter_from_row r =
     and_then (col_u32 (d_block_height r)) (\<lambda>block_height.
     and_then (col_array 32 (d_block_hash r)) (\<lambda>block_hash.
     and_then (col_u64 (d_timestamp r)) (\<lambda>timestamp.
     and_then (col_u16 (d_num_permissioned r)) (\<lambda>permissioned.
     map_ok (\<lambda>registered. \<lparr>ad_block_height = block_height, ad_block_hash = block_hash, ad_timestamp = timestamp,
         ad_num_permissioned_candidates = permissioned, ad_num_registered_candidates = registered\<rparr>)
       (col_u16 (d_num_registered r))))))"

definition get_terms_and_conditions_at :: "u32 \<Rightarrow> chain_db \<Rightarrow> sqlx_error + api_terms option" where
  "get_terms_and_conditions_at block_height db =
     fetch_optional api_terms_from_row (order_by_desc tc_block_height (map snd
       (select_where (\<lambda>(_, r). tc_block_height r \<le> u32_as_i64 block_height) (system_parameters_tc db))))"

definition get_d_parameter_at :: "u32 \<Rightarrow> chain_db \<Rightarrow> sqlx_error + api_d_parameter option" where
  "get_d_parameter_at block_height db =
     fetch_optional api_d_parameter_from_row (order_by_desc d_block_height (map snd
       (select_where (\<lambda>(_, r). d_block_height r \<le> u32_as_i64 block_height) (system_parameters_d db))))"

definition get_terms_and_conditions_history :: "chain_db \<Rightarrow> sqlx_error + api_terms list" where
  "get_terms_and_conditions_history db =
     try_map api_terms_from_row (order_by_desc tc_block_height (map snd (tab_rows (system_parameters_tc db))))"

definition get_d_parameter_history :: "chain_db \<Rightarrow> sqlx_error + api_d_parameter list" where
  "get_d_parameter_history db =
     try_map api_d_parameter_from_row (order_by_desc d_block_height (map snd (tab_rows (system_parameters_d db))))"

subsection \<open>Their GraphQL objects\<close>

record d_parameter_object =
  dpo_num_permissioned_candidates :: u16
  dpo_num_registered_candidates :: u16

record terms_object =
  tco_hash :: string
  tco_url :: string

record system_parameters_object =
  spo_d_parameter :: d_parameter_object
  spo_terms_and_conditions :: "terms_object option"

record d_parameter_change =
  dpc_block_height :: u32
  dpc_block_hash :: string
  dpc_timestamp :: u64
  dpc_num_permissioned_candidates :: u16
  dpc_num_registered_candidates :: u16

record terms_change =
  tcc_block_height :: u32
  tcc_block_hash :: string
  tcc_timestamp :: u64
  tcc_hash :: string
  tcc_url :: string

definition d_parameter_object_from :: "api_d_parameter \<Rightarrow> d_parameter_object" where
  "d_parameter_object_from d = \<lparr>dpo_num_permissioned_candidates = ad_num_permissioned_candidates d,
     dpo_num_registered_candidates = ad_num_registered_candidates d\<rparr>"

definition terms_object_from :: "'e graph_env \<Rightarrow> api_terms \<Rightarrow> terms_object" where
  "terms_object_from env t = \<lparr>tco_hash = ge_hex_encode env (at_hash t), tco_url = at_url t\<rparr>"

definition d_parameter_change_from :: "'e graph_env \<Rightarrow> api_d_parameter \<Rightarrow> d_parameter_change" where
  "d_parameter_change_from env d =
     \<lparr>dpc_block_height = ad_block_height d, dpc_block_hash = ge_hex_encode env (ad_block_hash d),
      dpc_timestamp = ad_timestamp d, dpc_num_permissioned_candidates = ad_num_permissioned_candidates d,
      dpc_num_registered_candidates = ad_num_registered_candidates d\<rparr>"

definition terms_change_from :: "'e graph_env \<Rightarrow> api_terms \<Rightarrow> terms_change" where
  "terms_change_from env t =
     \<lparr>tcc_block_height = at_block_height t, tcc_block_hash = ge_hex_encode env (at_block_hash t),
      tcc_timestamp = at_timestamp t, tcc_hash = ge_hex_encode env (at_hash t), tcc_url = at_url t\<rparr>"

section \<open>Data loaders\<close>

text \<open>
  A loader maps a batch of keys to the values found; \<open>map_of (rev ..)\<close> is \<^verbatim>\<open>collect::<HashMap<_, _>>()\<close>, in which the last
  value of a key stays, and \<^verbatim>\<open>into_group_map\<close> has the values of a key in their order.
\<close>

definition into_group_map :: "('k \<times> 'v) list \<Rightarrow> 'k \<Rightarrow> 'v list option" where
  "into_group_map xs k = (case map snd (filter (\<lambda>(k', _). k' = k) xs) of [] \<Rightarrow> None | vs \<Rightarrow> Some vs)"

definition block_by_hash_load :: "bytes list \<Rightarrow> chain_db \<Rightarrow> sqlx_error + (bytes \<Rightarrow> api_block option)" where
  "block_by_hash_load keys db =
     map_ok (\<lambda>bs. map_of (rev (map (\<lambda>b. (ab_hash b, b)) bs))) (get_blocks_by_hashes keys db)"

definition transaction_by_id_load ::
  "feature \<Rightarrow> u64 list \<Rightarrow> chain_db \<Rightarrow> sqlx_error + (u64 \<Rightarrow> api_transaction option)" where
  "transaction_by_id_load feat keys db =
     map_ok (\<lambda>ts. map_of (rev (map (\<lambda>t. (api_transaction_id t, t)) ts))) (get_transactions_by_ids feat keys db)"

definition transactions_by_block_id_load ::
  "feature \<Rightarrow> u64 list \<Rightarrow> chain_db \<Rightarrow> sqlx_error + (u64 \<Rightarrow> api_transaction list option)" where
  "transactions_by_block_id_load feat keys db = map_ok into_group_map (get_transactions_by_block_ids feat keys db)"

definition contract_actions_by_transaction_id_load ::
  "u64 list \<Rightarrow> chain_db \<Rightarrow> sqlx_error + (u64 \<Rightarrow> api_contract_action list option)" where
  "contract_actions_by_transaction_id_load keys db =
     map_ok (\<lambda>as. into_group_map (map (\<lambda>a. (ac_transaction_id a, a)) as)) (get_contract_actions_by_transaction_ids keys db)"

definition contract_events_by_contract_action_id_load ::
  "u64 list \<Rightarrow> chain_db \<Rightarrow> sqlx_error + (u64 \<Rightarrow> api_contract_event list option)" where
  "contract_events_by_contract_action_id_load keys db =
     map_ok into_group_map (get_contract_events_by_contract_action_ids keys db)"

text \<open>\<^verbatim>\<open>DataLoader::load_one\<close>: the key is loaded in a batch, and its value is taken out of the result.\<close>

definition load_one ::
  "('k list \<Rightarrow> chain_db \<Rightarrow> sqlx_error + ('k \<Rightarrow> 'v option)) \<Rightarrow> ('k \<Rightarrow> 'k list) \<Rightarrow> 'k \<Rightarrow> chain_db \<Rightarrow> sqlx_error + 'v option" where
  "load_one load batch key db = map_ok (\<lambda>m. m key) (load (batch key) db)"

abbreviation load_block :: "'e graph_env \<Rightarrow> bytes \<Rightarrow> chain_db \<Rightarrow> sqlx_error + api_block option" where
  "load_block env \<equiv> load_one block_by_hash_load (ge_block_batch env)"

abbreviation load_transaction :: "'e graph_env \<Rightarrow> u64 \<Rightarrow> chain_db \<Rightarrow> sqlx_error + api_transaction option" where
  "load_transaction env \<equiv> load_one (transaction_by_id_load (ge_feature env)) (ge_transaction_batch env)"

abbreviation load_block_transactions :: "'e graph_env \<Rightarrow> u64 \<Rightarrow> chain_db \<Rightarrow> sqlx_error + api_transaction list option" where
  "load_block_transactions env \<equiv> load_one (transactions_by_block_id_load (ge_feature env)) (ge_block_transactions_batch env)"

abbreviation load_contract_actions :: "'e graph_env \<Rightarrow> u64 \<Rightarrow> chain_db \<Rightarrow> sqlx_error + api_contract_action list option" where
  "load_contract_actions env \<equiv> load_one contract_actions_by_transaction_id_load (ge_contract_actions_batch env)"

abbreviation load_contract_events :: "'e graph_env \<Rightarrow> u64 \<Rightarrow> chain_db \<Rightarrow> sqlx_error + api_contract_event list option" where
  "load_contract_events env \<equiv> load_one contract_events_by_contract_action_id_load (ge_contract_events_batch env)"

abbreviation list_or_empty :: "'a list option \<Rightarrow> 'a list" where
  "list_or_empty v \<equiv> (case v of None \<Rightarrow> [] | Some xs \<Rightarrow> xs)"

section \<open>Transactions\<close>

datatype transaction_result_status = StatusSuccess | StatusPartialSuccess | StatusFailure

record segment =
  sg_id :: u16
  sg_success :: bool

record transaction_result_object =
  tro_status :: transaction_result_status
  tro_segments :: "segment list option"

fun transaction_result_from :: "transaction_result \<Rightarrow> transaction_result_object" where
  "transaction_result_from Success = \<lparr>tro_status = StatusSuccess, tro_segments = None\<rparr>"
| "transaction_result_from (PartialSuccess segments) = \<lparr>tro_status = StatusPartialSuccess,
     tro_segments = Some (map (\<lambda>(i, success). \<lparr>sg_id = i, sg_success = success\<rparr>) segments)\<rparr>"
| "transaction_result_from Failure = \<lparr>tro_status = StatusFailure, tro_segments = None\<rparr>"

record transaction_fees =
  tf_paid_fees :: string
  tf_estimated_fees :: string

record regular_transaction_object =
  rto_id :: u64
  rto_hash :: string
  rto_protocol_version :: u32
  rto_raw :: string
  rto_block_hash :: bytes
  rto_transaction_result :: transaction_result_object
  rto_identifiers :: "string list"
  rto_zswap_merkle_tree_root :: string
  rto_merkle_tree_root :: string
  rto_zswap_start_index :: u64
  rto_start_index :: u64
  rto_zswap_end_index :: u64
  rto_end_index :: u64
  rto_dust_commitment_start_index :: u64
  rto_dust_commitment_end_index :: u64
  rto_dust_generation_start_index :: u64
  rto_dust_generation_end_index :: u64
  rto_fee :: string
  rto_fees :: transaction_fees

record system_transaction_object =
  sto_id :: u64
  sto_hash :: string
  sto_protocol_version :: u32
  sto_raw :: string
  sto_block_hash :: bytes

record bridge_claim_object =
  bco_id :: u64
  bco_hash :: string
  bco_protocol_version :: u32
  bco_raw :: string
  bco_block_hash :: bytes
  bco_recipient :: string
  bco_amount :: string

datatype transaction_object =
    RegularObject regular_transaction_object
  | SystemObject system_transaction_object
  | BridgeClaimObject bridge_claim_object

definition fee_text :: "u128 option \<Rightarrow> string" where
  "fee_text f = (case f of None \<Rightarrow> ''0'' | Some w \<Rightarrow> nat_to_string (unat w))"

definition regular_object_from :: "'e graph_env \<Rightarrow> api_regular_transaction \<Rightarrow> regular_transaction_object" where
  "regular_object_from env t =
     (let root = ge_hex_encode env (ar_zswap_merkle_tree_root t); fee = fee_text (ar_paid_fees t)
      in \<lparr>rto_id = ar_id t, rto_hash = ge_hex_encode env (ar_hash t),
          rto_protocol_version = u32_from (ar_protocol_version t), rto_raw = ge_hex_encode env (ar_raw t),
          rto_block_hash = ar_block_hash t, rto_transaction_result = transaction_result_from (ar_transaction_result t),
          rto_identifiers = map (ge_hex_encode env) (ar_identifiers t),
          rto_zswap_merkle_tree_root = root, rto_merkle_tree_root = root,
          rto_zswap_start_index = ar_zswap_start_index t, rto_start_index = ar_zswap_start_index t,
          rto_zswap_end_index = ar_zswap_end_index t, rto_end_index = ar_zswap_end_index t,
          rto_dust_commitment_start_index = ar_dust_commitment_start_index t,
          rto_dust_commitment_end_index = ar_dust_commitment_end_index t,
          rto_dust_generation_start_index = ar_dust_generation_start_index t,
          rto_dust_generation_end_index = ar_dust_generation_end_index t,
          rto_fee = fee, rto_fees = \<lparr>tf_paid_fees = fee, tf_estimated_fees = fee_text (ar_estimated_fees t)\<rparr>\<rparr>)"

definition system_object_from :: "'e graph_env \<Rightarrow> api_system_transaction \<Rightarrow> system_transaction_object" where
  "system_object_from env t =
     \<lparr>sto_id = as_id t, sto_hash = ge_hex_encode env (as_hash t), sto_protocol_version = u32_from (as_protocol_version t),
      sto_raw = ge_hex_encode env (as_raw t), sto_block_hash = as_block_hash t\<rparr>"

text \<open>The claim is that of the transaction: the only caller has checked that there is one.\<close>

definition bridge_claim_object_from ::
  "'e graph_env \<Rightarrow> api_regular_transaction \<Rightarrow> api_bridge_claim \<Rightarrow> bridge_claim_object" where
  "bridge_claim_object_from env t claim =
     \<lparr>bco_id = ar_id t, bco_hash = ge_hex_encode env (ar_hash t), bco_protocol_version = u32_from (ar_protocol_version t),
      bco_raw = ge_hex_encode env (ar_raw t), bco_block_hash = ar_block_hash t,
      bco_recipient = ge_hex_encode env (abc_recipient claim),
      bco_amount = ge_hex_encode env (U128BeBytes (abc_amount claim))\<rparr>"

fun transaction_object_from :: "'e graph_env \<Rightarrow> api_transaction \<Rightarrow> transaction_object" where
  "transaction_object_from env (ApiRegular t) =
     (case ar_bridge_claim t of
        Some claim \<Rightarrow> BridgeClaimObject (bridge_claim_object_from env t claim)
      | None \<Rightarrow> RegularObject (regular_object_from env t))"
| "transaction_object_from env (ApiSystem t) = SystemObject (system_object_from env t)"

text \<open>The fields of the interface that its resolvers start from.\<close>

fun transaction_object_id :: "transaction_object \<Rightarrow> u64" where
  "transaction_object_id (RegularObject t) = rto_id t"
| "transaction_object_id (SystemObject t) = sto_id t"
| "transaction_object_id (BridgeClaimObject t) = bco_id t"

fun transaction_object_block_hash :: "transaction_object \<Rightarrow> bytes" where
  "transaction_object_block_hash (RegularObject t) = rto_block_hash t"
| "transaction_object_block_hash (SystemObject t) = sto_block_hash t"
| "transaction_object_block_hash (BridgeClaimObject t) = bco_block_hash t"

section \<open>Blocks\<close>

record block_object =
  bo_hash :: string
  bo_height :: u32
  bo_protocol_version :: u32
  bo_timestamp :: u64
  bo_author :: "string option"
  bo_zswap_merkle_tree_root :: string
  bo_ledger_parameters :: string
  bo_zswap_end_index :: u64
  bo_dust_commitment_end_index :: u64
  bo_dust_generation_end_index :: u64
  bo_dust_commitment_merkle_tree_root :: "string option"
  bo_dust_generation_merkle_tree_root :: "string option"
  bo_id :: u64
  bo_raw_hash :: bytes
  bo_parent_hash :: bytes

definition block_object_from :: "'e graph_env \<Rightarrow> api_block \<Rightarrow> block_object" where
  "block_object_from env b =
     \<lparr>bo_hash = ge_hex_encode env (ab_hash b), bo_height = ab_height b,
      bo_protocol_version = u32_from (ab_protocol_version b), bo_timestamp = ab_timestamp b,
      bo_author = map_option (ge_hex_encode env) (ab_author b),
      bo_zswap_merkle_tree_root = ge_hex_encode env (ab_zswap_merkle_tree_root b),
      bo_ledger_parameters = ge_hex_encode env (ab_ledger_parameters b),
      bo_zswap_end_index = ab_zswap_end_index b, bo_dust_commitment_end_index = ab_dust_commitment_end_index b,
      bo_dust_generation_end_index = ab_dust_generation_end_index b,
      bo_dust_commitment_merkle_tree_root = map_option (ge_hex_encode env) (ab_dust_commitment_merkle_tree_root b),
      bo_dust_generation_merkle_tree_root = map_option (ge_hex_encode env) (ab_dust_generation_merkle_tree_root b),
      bo_id = ab_id b, bo_raw_hash = ab_hash b, bo_parent_hash = ab_parent_hash b\<rparr>"

definition block_parent :: "'e graph_env \<Rightarrow> block_object \<Rightarrow> chain_db \<Rightarrow> api_error + block_object option" where
  "block_parent env b db =
     map_ok (map_option (block_object_from env))
       (server_error ''get block by hash'' (load_block env (bo_parent_hash b) db))"

definition block_transactions :: "'e graph_env \<Rightarrow> block_object \<Rightarrow> chain_db \<Rightarrow> api_error + transaction_object list" where
  "block_transactions env b db =
     map_ok (\<lambda>ts. map (transaction_object_from env) (list_or_empty ts))
       (server_error ''get transactions by block id'' (load_block_transactions env (bo_id b) db))"

definition block_system_parameters ::
  "'e graph_env \<Rightarrow> block_object \<Rightarrow> chain_db \<Rightarrow> chain_db \<Rightarrow> api_error + system_parameters_object" where
  "block_system_parameters env b db1 db2 =
     and_then (server_error ''get D-parameter at block height'' (get_d_parameter_at (bo_height b) db1)) (\<lambda>d.
     map_ok (\<lambda>terms.
         \<lparr>spo_d_parameter = (case d of
            None \<Rightarrow> \<lparr>dpo_num_permissioned_candidates = 0, dpo_num_registered_candidates = 0\<rparr>
          | Some d \<Rightarrow> d_parameter_object_from d),
          spo_terms_and_conditions = map_option (terms_object_from env) terms\<rparr>)
       (server_error ''get T&C at block height'' (get_terms_and_conditions_at (bo_height b) db2)))"

definition block_contract_zswap_state ::
  "'f graph_env \<Rightarrow> ('l, 'e) snapshot_source \<Rightarrow> ('l \<Rightarrow> bytes \<Rightarrow> 'e + bytes) \<Rightarrow> block_object \<Rightarrow> string \<Rightarrow> chain_db \<Rightarrow> chain_db
     \<Rightarrow> api_error + string option" where
  "block_contract_zswap_state env src extract_contract_zswap_state b address db1 db2 =
     and_then (client_error ''invalid address'' (decode_bytes env address)) (\<lambda>address.
     if \<not> contract_action_exists_by_address_as_of_block_hash address (bo_raw_hash b) db1 then Inr None
     else
       and_then (server_error ''get ledger state at block'' (get_ledger_state_at (bo_raw_hash b) db2)) (\<lambda>found.
       and_then (some_or_server_error ''no ledger state for block'' found) (\<lambda>(_, _, version, key).
       and_then (server_error ''check ledger state availability'' (ss_root_loadable src key (pv_ledger_version version))) (\<lambda>loadable.
       and_then (some_or_client_error ''ledger state for this block is no longer available, query a more recent block''
           (if loadable then Some () else None)) (\<lambda>_.
       and_then (server_error ''load ledger state'' (ss_load src key (pv_ledger_version version))) (\<lambda>l.
       map_ok (\<lambda>s. Some (ge_hex_encode env s))
         (server_error ''extract zswap state for contract'' (extract_contract_zswap_state l address))))))))"

section \<open>Unshielded UTXOs\<close>

record utxo_object =
  uo_owner :: string
  uo_token_type :: string
  uo_value :: string
  uo_intent_hash :: string
  uo_output_index :: u32
  uo_ctime :: "u64 option"
  uo_initial_nonce :: string
  uo_registered_for_dust_generation :: bool
  uo_creating_transaction_id :: u64
  uo_spending_transaction_id :: "u64 option"

text \<open>\<^term>\<open>None\<close> is a panic: the address cannot be encoded for the network.\<close>

definition utxo_object_from :: "'e graph_env \<Rightarrow> api_utxo \<Rightarrow> utxo_object option" where
  "utxo_object_from env u =
     map_option (\<lambda>owner.
       \<lparr>uo_owner = owner, uo_token_type = ge_hex_encode env (au_token_type u),
        uo_value = nat_to_string (unat (au_value u)), uo_intent_hash = ge_hex_encode env (au_intent_hash u),
        uo_output_index = au_output_index u, uo_ctime = au_ctime u,
        uo_initial_nonce = ge_hex_encode env (au_initial_nonce u),
        uo_registered_for_dust_generation = au_registered_for_dust_generation u,
        uo_creating_transaction_id = au_creating_transaction_id u,
        uo_spending_transaction_id = au_spending_transaction_id u\<rparr>)
       (encode_bech32m_address (ge_bech32 env) (au_owner u) Unshielded (ge_network_id env))"

section \<open>Contract actions\<close>

text \<open>A deployment and an update have the same fields.\<close>

record contract_object_base =
  cao_address :: string
  cao_state :: string
  cao_zswap_state :: string
  cao_transaction_id :: u64
  cao_contract_action_id :: u64

record contract_call_object = contract_object_base +
  cco_entry_point :: bytes
  cco_raw_address :: bytes

datatype contract_action_object =
    DeployObject contract_object_base
  | CallObject contract_call_object
  | UpdateObject contract_object_base

definition contract_base_from :: "'e graph_env \<Rightarrow> api_contract_action \<Rightarrow> contract_object_base" where
  "contract_base_from env a =
     \<lparr>cao_address = ge_hex_encode env (ac_address a), cao_state = ge_hex_encode env (ac_state a),
      cao_zswap_state = ge_hex_encode env (ac_zswap_state a), cao_transaction_id = ac_transaction_id a,
      cao_contract_action_id = ac_id a\<rparr>"

definition contract_action_object_from :: "'e graph_env \<Rightarrow> api_contract_action \<Rightarrow> contract_action_object" where
  "contract_action_object_from env a =
     (case ac_attributes a of
        Deploy \<Rightarrow> DeployObject (contract_base_from env a)
      | Call entry_point \<Rightarrow> CallObject
          \<lparr>cao_address = ge_hex_encode env (ac_address a), cao_state = ge_hex_encode env (ac_state a),
           cao_zswap_state = ge_hex_encode env (ac_zswap_state a), cao_transaction_id = ac_transaction_id a,
           cao_contract_action_id = ac_id a, cco_entry_point = entry_point, cco_raw_address = ac_address a\<rparr>
      | Update \<Rightarrow> UpdateObject (contract_base_from env a))"

fun action_object_transaction_id :: "contract_action_object \<Rightarrow> u64" where
  "action_object_transaction_id (DeployObject a) = cao_transaction_id a"
| "action_object_transaction_id (CallObject a) = cao_transaction_id a"
| "action_object_transaction_id (UpdateObject a) = cao_transaction_id a"

fun action_object_id :: "contract_action_object \<Rightarrow> u64" where
  "action_object_id (DeployObject a) = cao_contract_action_id a"
| "action_object_id (CallObject a) = cao_contract_action_id a"
| "action_object_id (UpdateObject a) = cao_contract_action_id a"

definition get_transaction_by_id :: "'e graph_env \<Rightarrow> u64 \<Rightarrow> chain_db \<Rightarrow> api_error + transaction_object" where
  "get_transaction_by_id env i db =
     and_then (server_error ''get transaction by id'' (load_transaction env i db)) (\<lambda>t.
     map_ok (transaction_object_from env) (some_or_server_error ''transaction with id not found'' t))"

definition action_transaction :: "'e graph_env \<Rightarrow> contract_action_object \<Rightarrow> chain_db \<Rightarrow> api_error + transaction_object" where
  "action_transaction env a db = get_transaction_by_id env (action_object_transaction_id a) db"

record contract_balance_object =
  cbo_token_type :: string
  cbo_amount :: string

definition contract_balance_object_from :: "'e graph_env \<Rightarrow> api_contract_balance \<Rightarrow> contract_balance_object" where
  "contract_balance_object_from env b =
     \<lparr>cbo_token_type = ge_hex_encode env (acb_token_type b), cbo_amount = nat_to_string (unat (acb_amount b))\<rparr>"

definition action_unshielded_balances ::
  "'e graph_env \<Rightarrow> contract_action_object \<Rightarrow> chain_db \<Rightarrow> api_error + contract_balance_object list" where
  "action_unshielded_balances env a db =
     map_ok (map (contract_balance_object_from env))
       (server_error ''get contract balances by action id''
         (get_unshielded_balances_by_contract_action_id (action_object_id a) db))"

text \<open>\<^term>\<open>None\<close> is the panic of \<^verbatim>\<open>get_contract_deploy_by_address\<close>.\<close>

definition call_deploy ::
  "'e graph_env \<Rightarrow> contract_call_object \<Rightarrow> chain_db \<Rightarrow> (api_error + contract_object_base) option" where
  "call_deploy env a db =
     map_option (\<lambda>r.
       and_then (server_error ''get contract deploy by address'' r) (\<lambda>found.
       and_then (some_or_server_error ''no contract deploy for contract call address'' found) (\<lambda>action.
       some_or_server_error ''expected ContractDeploy variant for contract call address''
         (case contract_action_object_from env action of DeployObject d \<Rightarrow> Some d | _ \<Rightarrow> None))))
       (get_contract_deploy_by_address (cco_raw_address a) db)"

definition call_contract_events ::
  "'e graph_env \<Rightarrow> contract_call_object \<Rightarrow> chain_db \<Rightarrow> api_error + graphql_contract_event list" where
  "call_contract_events env a db =
     and_then (server_error ''load contract events for contract action id''
         (load_contract_events env (cao_contract_action_id a) db)) (\<lambda>rows.
     server_error ''convert contract event row for contract action id''
       (try_map (contract_event_try_from (ge_hex_encode env)) (list_or_empty rows)))"

section \<open>Fields of transactions\<close>

definition transaction_block :: "'e graph_env \<Rightarrow> transaction_object \<Rightarrow> chain_db \<Rightarrow> api_error + block_object" where
  "transaction_block env t db =
     and_then (server_error ''get block by hash'' (load_block env (transaction_object_block_hash t) db)) (\<lambda>b.
     map_ok (block_object_from env) (some_or_server_error ''block with hash not found'' b))"

definition transaction_contract_actions ::
  "'e graph_env \<Rightarrow> transaction_object \<Rightarrow> chain_db \<Rightarrow> api_error + contract_action_object list" where
  "transaction_contract_actions env t db =
     map_ok (\<lambda>as. map (contract_action_object_from env) (list_or_empty as))
       (server_error ''cannot get contract actions by transaction ID'' (load_contract_actions env (transaction_object_id t) db))"

definition transaction_created_outputs ::
  "'e graph_env \<Rightarrow> transaction_object \<Rightarrow> chain_db \<Rightarrow> (api_error + utxo_object list) option" where
  "transaction_created_outputs env t db =
     (case server_error ''cannot get unshielded UTXOs created by transaction with ID''
             (get_unshielded_utxos_created_by_transaction (transaction_object_id t) db) of
        Inl e \<Rightarrow> Some (Inl e)
      | Inr us \<Rightarrow> map_option Inr (those (map (utxo_object_from env) us)))"

definition transaction_spent_outputs ::
  "'e graph_env \<Rightarrow> transaction_object \<Rightarrow> chain_db \<Rightarrow> (api_error + utxo_object list) option" where
  "transaction_spent_outputs env t db =
     (case server_error ''cannot get unshielded UTXOs spent by transaction with ID''
             (get_unshielded_utxos_spent_by_transaction (transaction_object_id t) db) of
        Inl e \<Rightarrow> Some (Inl e)
      | Inr us \<Rightarrow> map_option Inr (those (map (utxo_object_from env) us)))"

definition transaction_zswap_ledger_events ::
  "'e graph_env \<Rightarrow> transaction_object \<Rightarrow> chain_db \<Rightarrow> api_error + zswap_ledger_event list" where
  "transaction_zswap_ledger_events env t db =
     and_then (server_error ''cannot get zswap ledger events for transaction with ID''
         (get_ledger_events_by_transaction_id Zswap (transaction_object_id t) db)) (\<lambda>events.
     try_map (\<lambda>e. server_error ''unexpected zswap ledger event'' (zswap_ledger_event_try_from (ge_hex_encode env) e)) events)"

definition transaction_dust_ledger_events ::
  "'e graph_env \<Rightarrow> transaction_object \<Rightarrow> chain_db \<Rightarrow> api_error + dust_ledger_event list" where
  "transaction_dust_ledger_events env t db =
     and_then (server_error ''cannot get dust ledger events for transaction with ID''
         (get_ledger_events_by_transaction_id Dust (transaction_object_id t) db)) (\<lambda>events.
     try_map (\<lambda>e. server_error ''unexpected dust ledger event'' (dust_ledger_event_try_from (ge_hex_encode env) e)) events)"

section \<open>Fields of UTXOs\<close>

definition created_at_transaction :: "'e graph_env \<Rightarrow> utxo_object \<Rightarrow> chain_db \<Rightarrow> api_error + transaction_object" where
  "created_at_transaction env u db =
     and_then (server_error ''get transaction by id'' (load_transaction env (uo_creating_transaction_id u) db)) (\<lambda>t.
     map_ok (transaction_object_from env) (some_or_server_error ''transaction with id not found'' t))"

definition spent_at_transaction :: "'e graph_env \<Rightarrow> utxo_object \<Rightarrow> chain_db \<Rightarrow> api_error + transaction_object option" where
  "spent_at_transaction env u db =
     (case uo_spending_transaction_id u of
        None \<Rightarrow> Inr None
      | Some i \<Rightarrow>
          and_then (server_error ''get transaction by id'' (load_transaction env i db)) (\<lambda>t.
          map_ok (\<lambda>t. Some (transaction_object_from env t)) (some_or_server_error ''transaction with id not found'' t)))"

section \<open>Contracts\<close>

record contract_object =
  co_address :: string
  co_state :: string
  co_raw_state :: bytes
  co_transaction_id :: u64
  co_raw_address :: bytes

definition contract_object_from :: "'e graph_env \<Rightarrow> api_contract_action \<Rightarrow> contract_object" where
  "contract_object_from env a =
     \<lparr>co_address = ge_hex_encode env (ac_address a), co_state = ge_hex_encode env (ac_state a), co_raw_state = ac_state a,
      co_transaction_id = ac_transaction_id a, co_raw_address = ac_address a\<rparr>"

record maintenance_authority_object =
  mao_committee :: "(verifying_key_kind \<times> string) list"
  mao_threshold :: u32
  mao_counter :: u32

definition maintenance_authority_from :: "'e graph_env \<Rightarrow> contract_maintenance_authority \<Rightarrow> maintenance_authority_object" where
  "maintenance_authority_from env a =
     \<lparr>mao_committee = map (\<lambda>(kind, key). (kind, ge_hex_encode env key)) (cma_committee a), mao_threshold = cma_threshold a,
      mao_counter = cma_counter a\<rparr>"

text \<open>Deserializing the state of a contract and reading its authority are operations of the ledger.\<close>

definition contract_maintenance_authority_field ::
  "'f graph_env \<Rightarrow> (bytes \<Rightarrow> ledger_version \<Rightarrow> 'e + 's) \<Rightarrow> ('s \<Rightarrow> 'e + contract_maintenance_authority) \<Rightarrow> contract_object \<Rightarrow> chain_db
     \<Rightarrow> api_error + maintenance_authority_object" where
  "contract_maintenance_authority_field env contract_state_deserialize maintenance_authority c db =
     and_then (server_error ''get protocol version for transaction id''
         (get_protocol_version_by_transaction_id (co_transaction_id c) db)) (\<lambda>found.
     and_then (some_or_server_error ''no transaction with id'' found) (\<lambda>version.
     and_then (server_error ''deserialize contract state''
         (contract_state_deserialize (co_raw_state c) (pv_ledger_version version))) (\<lambda>s.
     map_ok (maintenance_authority_from env)
       (server_error ''extract contract maintenance authority'' (maintenance_authority s)))))"

datatype contract_action_type = DeployType | CallType | UpdateType

fun action_variant_name :: "contract_action_type \<Rightarrow> contract_action_variant" where
  "action_variant_name DeployType = DeployVariant"
| "action_variant_name CallType = CallVariant"
| "action_variant_name UpdateType = UpdateVariant"

definition DEFAULT_ACTIONS_LIMIT :: i32 where
  "DEFAULT_ACTIONS_LIMIT = 100"

definition MAX_ACTIONS_LIMIT :: i32 where
  "MAX_ACTIONS_LIMIT = 500"

definition actions_limit :: "i32 option \<Rightarrow> u32" where
  "actions_limit limit =
     word_of_int (max 1 (min MAX_ACTIONS_LIMIT (case limit of None \<Rightarrow> DEFAULT_ACTIONS_LIMIT | Some l \<Rightarrow> l)))"

definition contract_actions_field ::
  "'e graph_env \<Rightarrow> contract_object \<Rightarrow> i32 option \<Rightarrow> contract_action_type option \<Rightarrow> chain_db
     \<Rightarrow> api_error + contract_action_object list" where
  "contract_actions_field env c limit ty db =
     map_ok (map (contract_action_object_from env))
       (server_error ''get recent contract actions for address''
         (get_recent_contract_actions_by_address (co_raw_address c) (actions_limit limit) (map_option action_variant_name ty) db))"

section \<open>Dust generations\<close>

record dust_status_object =
  dso_cardano_reward_address :: string
  dso_dust_address :: "string option"
  dso_registered :: bool
  dso_night_balance :: string
  dso_generation_rate :: string
  dso_max_capacity :: string
  dso_current_capacity :: string
  dso_utxo_tx_hash :: "string option"
  dso_utxo_output_index :: "u32 option"

abbreviation u128_text :: "u128 \<Rightarrow> string" where
  "u128_text w \<equiv> nat_to_string (unat w)"

text \<open>\<^term>\<open>None\<close> is a panic of the encoding of an address.\<close>

definition encode_dust_address :: "'e graph_env \<Rightarrow> bytes \<Rightarrow> string option" where
  "encode_dust_address env a = encode_bech32m_address (ge_bech32 env) a DustAddressType (ge_network_id env)"

definition encode_reward_address :: "'e graph_env \<Rightarrow> bytes \<Rightarrow> string option" where
  "encode_reward_address env a = encode_cardano_reward_address (ge_bech32 env) a (cardano_network_from (ge_network_id env))"

definition dust_status_object_from :: "'e graph_env \<Rightarrow> dust_generation_status \<Rightarrow> dust_status_object option" where
  "dust_status_object_from env s =
     Option.bind (encode_reward_address env (dgs_cardano_reward_address s)) (\<lambda>reward_address.
     map_option (\<lambda>dust_address.
         \<lparr>dso_cardano_reward_address = reward_address, dso_dust_address = dust_address, dso_registered = dgs_registered s,
          dso_night_balance = u128_text (dgs_night_balance s), dso_generation_rate = u128_text (dgs_generation_rate s),
          dso_max_capacity = u128_text (dgs_max_capacity s), dso_current_capacity = u128_text (dgs_current_capacity s),
          dso_utxo_tx_hash = map_option (ge_hex_encode env) (dgs_utxo_tx_hash s),
          dso_utxo_output_index = dgs_utxo_output_index s\<rparr>)
       (case dgs_dust_address s of None \<Rightarrow> Some None | Some a \<Rightarrow> map_option Some (encode_dust_address env a)))"

record dust_registration_object =
  dro_dust_address :: string
  dro_valid :: bool
  dro_night_balance :: string
  dro_generation_rate :: string
  dro_max_capacity :: string
  dro_current_capacity :: string
  dro_utxo_tx_hash :: "string option"
  dro_utxo_output_index :: "u32 option"

record dust_generations_object =
  dgo_cardano_reward_address :: string
  dgo_registrations :: "dust_registration_object list"

definition dust_registration_object_from :: "'e graph_env \<Rightarrow> dust_registration \<Rightarrow> dust_registration_object option" where
  "dust_registration_object_from env r =
     map_option (\<lambda>dust_address.
         \<lparr>dro_dust_address = dust_address, dro_valid = dr_valid r, dro_night_balance = u128_text (dr_night_balance r),
          dro_generation_rate = u128_text (dr_generation_rate r), dro_max_capacity = u128_text (dr_max_capacity r),
          dro_current_capacity = u128_text (dr_current_capacity r),
          dro_utxo_tx_hash = map_option (ge_hex_encode env) (dr_utxo_tx_hash r),
          dro_utxo_output_index = dr_utxo_output_index r\<rparr>)
       (encode_dust_address env (dr_dust_address r))"

definition dust_generations_from_domain ::
  "'e graph_env \<Rightarrow> bytes \<times> dust_registration list \<Rightarrow> dust_generations_object option" where
  "dust_generations_from_domain env = (\<lambda>(reward_address, registrations).
     Option.bind (encode_reward_address env reward_address) (\<lambda>reward_address.
     map_option (\<lambda>rs. \<lparr>dgo_cardano_reward_address = reward_address, dgo_registrations = rs\<rparr>)
       (those (map (dust_registration_object_from env) registrations))))"

end
