(* ===== verification/Api_Query.thy ===== *)
theory Api_Query
  imports Api_Graph
begin

text \<open>
  The queries and mutations of the GraphQL schema: \<^verbatim>\<open>indexer-api/src/infra/api/v4/query.rs\<close>, but for those about stake pools
  and the bridge, which have theories of their own, and \<^verbatim>\<open>v4/mutation.rs\<close>.
\<close>

section \<open>Blocks and transactions\<close>

datatype block_offset_input = HashInput string | HeightInput u32

definition block_query ::
  "'e graph_env \<Rightarrow> block_offset_input option \<Rightarrow> chain_db \<Rightarrow> api_error + block_object option" where
  "block_query env offset db =
     map_ok (map_option (block_object_from env))
       (case offset of
          Some (HashInput hash) \<Rightarrow>
            and_then (client_error ''invalid block hash'' (decode_hash env hash)) (\<lambda>hash.
            server_error ''get block by hash'' (load_block env hash db))
        | Some (HeightInput height) \<Rightarrow> server_error ''get block by height'' (get_block_by_height height db)
        | None \<Rightarrow> server_error ''get latest block'' (get_latest_block db))"

datatype transaction_offset_input = TransactionHashInput string | IdentifierInput string

definition transactions_query ::
  "'e graph_env \<Rightarrow> transaction_offset_input \<Rightarrow> chain_db \<Rightarrow> api_error + transaction_object list" where
  "transactions_query env offset db =
     (case offset of
        TransactionHashInput hash \<Rightarrow>
          and_then (client_error ''invalid transaction hash'' (decode_hash env hash)) (\<lambda>hash.
          map_ok (map (transaction_object_from env))
            (server_error ''get transactions by hash'' (get_transactions_by_hash (ge_feature env) hash db)))
      | IdentifierInput identifier \<Rightarrow>
          and_then (client_error ''invalid transaction identifier'' (decode_bytes env identifier)) (\<lambda>identifier.
          map_ok (map (transaction_object_from env))
            (server_error ''get transactions by identifier'' (get_transactions_by_identifier (ge_feature env) identifier db))))"

section \<open>Contracts\<close>

datatype action_offset_input = BlockOffsetInput block_offset_input | TransactionOffsetInput transaction_offset_input

definition contract_action_query ::
  "'e graph_env \<Rightarrow> string \<Rightarrow> action_offset_input option \<Rightarrow> chain_db \<Rightarrow> api_error + contract_action_object option" where
  "contract_action_query env address offset db =
     and_then (client_error ''invalid address'' (decode_bytes env address)) (\<lambda>address.
     map_ok (map_option (contract_action_object_from env))
       (case offset of
          Some (BlockOffsetInput (HashInput hash)) \<Rightarrow>
            and_then (client_error ''invalid offset'' (decode_hash env hash)) (\<lambda>hash.
            server_error ''get contract action by address and block hash''
              (get_contract_action_by_address_and_block_hash address hash db))
        | Some (BlockOffsetInput (HeightInput height)) \<Rightarrow>
            server_error ''get contract action by address and block height''
              (get_contract_action_by_address_and_block_height address height db)
        | Some (TransactionOffsetInput (TransactionHashInput hash)) \<Rightarrow>
            and_then (client_error ''invalid offset'' (decode_hash env hash)) (\<lambda>hash.
            server_error ''get contract action by address and transaction hash''
              (get_contract_action_by_address_and_transaction_hash address hash db))
        | Some (TransactionOffsetInput (IdentifierInput identifier)) \<Rightarrow>
            and_then (client_error ''invalid identifier'' (decode_bytes env identifier)) (\<lambda>identifier.
            server_error ''get contract action by address and transaction identifier''
              (get_contract_action_by_address_and_transaction_identifier (ge_feature env) address identifier db))
        | None \<Rightarrow>
            server_error ''get latest contract action by address'' (get_latest_contract_action_by_address address db)))"

definition contract_query ::
  "'e graph_env \<Rightarrow> string \<Rightarrow> block_offset_input option \<Rightarrow> chain_db \<Rightarrow> api_error + contract_object option" where
  "contract_query env address offset db =
     and_then (client_error ''invalid address'' (decode_bytes env address)) (\<lambda>address.
     map_ok (map_option (contract_object_from env))
       (case offset of
          Some (HashInput hash) \<Rightarrow>
            and_then (client_error ''invalid offset'' (decode_hash env hash)) (\<lambda>hash.
            server_error ''get contract by address as of block hash''
              (get_contract_action_by_address_as_of_block_hash address hash db))
        | Some (HeightInput height) \<Rightarrow>
            server_error ''get contract by address as of block height''
              (get_contract_action_by_address_as_of_block_height address height db)
        | None \<Rightarrow>
            server_error ''get latest contract action by address'' (get_latest_contract_action_by_address address db)))"

text \<open>The limit is clamped to 1 and 500, the offset to 0.\<close>

definition contract_events_query ::
  "'e graph_env \<Rightarrow> graphql_event_filter \<Rightarrow> i32 option \<Rightarrow> i32 option \<Rightarrow> chain_db \<Rightarrow> api_error + graphql_contract_event list" where
  "contract_events_query env flt limit offset db =
     and_then (client_error ''invalid contract event filter'' (into_domain (ge_hex_decode env) flt)) (\<lambda>flt.
     and_then (server_error ''get contract events''
         (get_contract_events flt (word_of_int (max 1 (min 500 (case limit of None \<Rightarrow> 100 | Some l \<Rightarrow> l))))
           (word_of_int (max 0 (case offset of None \<Rightarrow> 0 | Some k \<Rightarrow> k))) db)) (\<lambda>rows.
     server_error ''convert contract event row to GraphQL type''
       (try_map (contract_event_try_from (ge_hex_encode env)) rows)))"

section \<open>Collapsed updates\<close>

record merkle_update_object =
  muo_start_index :: u64
  muo_end_index :: u64
  muo_update :: string
  muo_protocol_version :: u32

definition merkle_update_object_from :: "'f graph_env \<Rightarrow> bytes merkle_update \<Rightarrow> merkle_update_object" where
  "merkle_update_object_from env u =
     \<lparr>muo_start_index = cu_start_index u, muo_end_index = cu_end_index u, muo_update = ge_hex_encode env (cu_update u),
      muo_protocol_version = u32_from (cu_protocol_version u)\<rparr>"

text \<open>An update that the ledger calls invalid is the fault of the client, \<^verbatim>\<open>ledger::Error::InvalidUpdate\<close>.\<close>

definition update_error :: "('e \<Rightarrow> bool) \<Rightarrow> string \<Rightarrow> 'e cache_error \<Rightarrow> api_error" where
  "update_error is_invalid_update msg e =
     (case e of
        CacheLedger l \<Rightarrow> if is_invalid_update l then Client ''invalid start_index and/or end_index'' else Server msg
      | _ \<Rightarrow> Server msg)"

text \<open>
  The query for the version of the highest block sees \<open>db1\<close>, the cache may read \<open>db2\<close>; the result is an update, an error or the
  panic of the cache, with the state left in the cache.
\<close>

definition collapsed_update_query ::
  "string \<Rightarrow> 'f graph_env \<Rightarrow> ('e \<Rightarrow> bool) \<Rightarrow> (bytes \<Rightarrow> ledger_version \<Rightarrow> 'e + 'l) \<Rightarrow> ('l, 'e, bytes) ledger_tree
     \<Rightarrow> u64 \<Rightarrow> u64 \<Rightarrow> chain_db \<Rightarrow> chain_db \<Rightarrow> 'l option \<Rightarrow> 'l option
     \<Rightarrow> (panic + api_error + merkle_update_object) \<times> 'l option" where
  "collapsed_update_query msg env is_invalid_update load tree start_index end_index db1 db2 at_read at_write =
     (case and_then (server_error ''get highest ledger state'' (get_highest_ledger_state db1))
             (some_or_server_error ''no ledger state available'') of
        Inl e \<Rightarrow> (Inr (Inl e), at_read)
      | Inr (version, _) \<Rightarrow>
          apfst (map_ok (\<lambda>r. map_ok (merkle_update_object_from env) (map_err (update_error is_invalid_update msg) r)))
            (collapsed_update load tree start_index end_index version db2 at_read at_write))"

definition zswap_merkle_tree_collapsed_update_query ::
  "'f graph_env \<Rightarrow> ('e \<Rightarrow> bool) \<Rightarrow> (bytes \<Rightarrow> ledger_version \<Rightarrow> 'e + 'l) \<Rightarrow> ('l, 'e, bytes) ledger_tree
     \<Rightarrow> u64 \<Rightarrow> u64 \<Rightarrow> chain_db \<Rightarrow> chain_db \<Rightarrow> 'l option \<Rightarrow> 'l option
     \<Rightarrow> (panic + api_error + merkle_update_object) \<times> 'l option" where
  "zswap_merkle_tree_collapsed_update_query = collapsed_update_query ''create zswap Merkle tree collapsed update''"

definition dust_commitment_merkle_tree_update_query ::
  "'f graph_env \<Rightarrow> ('e \<Rightarrow> bool) \<Rightarrow> (bytes \<Rightarrow> ledger_version \<Rightarrow> 'e + 'l) \<Rightarrow> ('l, 'e, bytes) ledger_tree
     \<Rightarrow> u64 \<Rightarrow> u64 \<Rightarrow> chain_db \<Rightarrow> chain_db \<Rightarrow> 'l option \<Rightarrow> 'l option
     \<Rightarrow> (panic + api_error + merkle_update_object) \<times> 'l option" where
  "dust_commitment_merkle_tree_update_query = collapsed_update_query ''create dust commitment collapsed update''"

definition dust_generation_merkle_tree_update_query ::
  "'f graph_env \<Rightarrow> ('e \<Rightarrow> bool) \<Rightarrow> (bytes \<Rightarrow> ledger_version \<Rightarrow> 'e + 'l) \<Rightarrow> ('l, 'e, bytes) ledger_tree
     \<Rightarrow> u64 \<Rightarrow> u64 \<Rightarrow> chain_db \<Rightarrow> chain_db \<Rightarrow> 'l option \<Rightarrow> 'l option
     \<Rightarrow> (panic + api_error + merkle_update_object) \<times> 'l option" where
  "dust_generation_merkle_tree_update_query = collapsed_update_query ''create dust generation collapsed update''"

section \<open>Dust and system parameters\<close>

definition decode_reward_addresses :: "'e graph_env \<Rightarrow> string list \<Rightarrow> api_error + bytes list" where
  "decode_reward_addresses env addresses =
     and_then (some_or_client_error ''maximum of ten reward addresses allowed''
         (if length addresses \<le> 10 then Some () else None)) (\<lambda>_.
     client_error ''invalid Cardano reward address''
       (try_map (\<lambda>a. decode_cardano_reward_address_for_network (ge_bech32 env) a (cardano_network_from (ge_network_id env))) addresses))"

text \<open>\<^term>\<open>None\<close> is a panic of the encoding of an address.\<close>

definition dust_generation_status_query ::
  "'e graph_env \<Rightarrow> dust_parameters \<Rightarrow> string list \<Rightarrow> (nat \<Rightarrow> chain_db \<times> chain_db \<times> chain_db)
     \<Rightarrow> (api_error + dust_status_object list) option" where
  "dust_generation_status_query env params addresses seen =
     (case and_then (decode_reward_addresses env addresses) (\<lambda>addresses.
           server_error ''get DUST generation status'' (get_dust_generation_status params seen addresses)) of
        Inl e \<Rightarrow> Some (Inl e)
      | Inr statuses \<Rightarrow> map_option Inr (those (map (dust_status_object_from env) statuses)))"

definition dust_generations_query ::
  "'e graph_env \<Rightarrow> dust_parameters \<Rightarrow> string list \<Rightarrow> chain_db \<Rightarrow> (nat \<Rightarrow> chain_db) \<Rightarrow> (nat \<Rightarrow> nat \<Rightarrow> chain_db)
     \<Rightarrow> (api_error + dust_generations_object list) option" where
  "dust_generations_query env params addresses db reg_db gen_db =
     (case and_then (decode_reward_addresses env addresses) (\<lambda>addresses.
           server_error ''get DUST generations'' (get_dust_generations params db reg_db gen_db addresses)) of
        Inl e \<Rightarrow> Some (Inl e)
      | Inr generations \<Rightarrow> map_option Inr (those (map (dust_generations_from_domain env) generations)))"

definition d_parameter_history_query :: "'e graph_env \<Rightarrow> chain_db \<Rightarrow> api_error + d_parameter_change list" where
  "d_parameter_history_query env db =
     map_ok (map (d_parameter_change_from env)) (server_error ''get D-parameter history'' (get_d_parameter_history db))"

definition terms_and_conditions_history_query :: "'e graph_env \<Rightarrow> chain_db \<Rightarrow> api_error + terms_change list" where
  "terms_and_conditions_history_query env db =
     map_ok (map (terms_change_from env))
       (server_error ''get Terms and Conditions history'' (get_terms_and_conditions_history db))"

section \<open>Mutations\<close>

text \<open>
  \<^verbatim>\<open>connect\<close> and \<^verbatim>\<open>disconnect\<close>. The id of a new wallet, the new session id and the time come from outside; \<open>meanwhile\<close>
  is what other sessions do to the table between the two statements of a mutation.
\<close>

definition connect_start_index :: "i64 option option \<Rightarrow> api_error + u64 option" where
  "connect_start_index options =
     (case Option.bind options id of
        None \<Rightarrow> Inr None
      | Some i \<Rightarrow> map_ok Some (some_or_client_error ''startIndex must not be negative'' (u64_try_from i)))"

definition connect_mutation ::
  "'f graph_env \<Rightarrow> ('e, 'ct, 'a, 'd) wallet_env \<Rightarrow> (bytes \<Rightarrow> 'l + bytes) \<Rightarrow> bytes \<Rightarrow> bytes \<Rightarrow> int \<Rightarrow> (wallet_db \<Rightarrow> wallet_db)
     \<Rightarrow> string \<Rightarrow> i64 option option \<Rightarrow> wallet_db \<Rightarrow> (api_error + string) \<times> wallet_db" where
  "connect_mutation env wenv secret_key_deserialize new_id new_session now meanwhile viewing_key options db =
     (case and_then (client_error ''invalid viewing key''
             (viewing_key_try_into_domain (ge_bech32 env) secret_key_deserialize (ge_network_id env) viewing_key)) (\<lambda>key.
           map_ok (Pair key) (connect_start_index options)) of
        Inl e \<Rightarrow> (Inl e, db)
      | Inr (key, start_index) \<Rightarrow>
          (case server_error ''connect wallet'' (connect_wallet wenv new_id new_session now key start_index db) of
             Inl e \<Rightarrow> (Inl e, db)
           | Inr (session_id, db) \<Rightarrow>
               let db = meanwhile db in
               (map_ok (\<lambda>_. ge_hex_encode env session_id)
                  (some_or_client_error ''unknown or expired session ID'' (resolve_session_id session_id db)), db)))"

definition disconnect_mutation ::
  "'f graph_env \<Rightarrow> (wallet_db \<Rightarrow> wallet_db) \<Rightarrow> string \<Rightarrow> wallet_db \<Rightarrow> (api_error + unit) \<times> wallet_db" where
  "disconnect_mutation env meanwhile session_id db =
     (case and_then (client_error ''invalid session ID'' (decode_session_id (ge_hex_decode env) session_id)) (\<lambda>session_id.
           map_ok (\<lambda>_. session_id)
             (some_or_client_error ''unknown or expired session ID'' (resolve_session_id session_id db))) of
        Inl e \<Rightarrow> (Inl e, db)
      | Inr session_id \<Rightarrow> (Inr (), disconnect_wallet session_id (meanwhile db)))"

end
