(* ===== verification/Api_Graph_Props.thy ===== *)
theory Api_Graph_Props
  imports Api_Query Api_Block_Stream Api_Action_Stream Api_Event_Streams
begin

text \<open>
  Properties of the resolvers: a data loader gives the same value for a key whatever else is in its batch, and
  walking from a block to its transactions, their contract actions and UTXOs and back leads to where one started.
\<close>

section \<open>Keys\<close>

lemma in_ids_iff: "0 < i \<Longrightarrow> i < 2 ^ 63 \<Longrightarrow> i \<in> set (map as_i64 ids) \<longleftrightarrow> as_u64 i \<in> set ids"
  using as_i64_as_u64 [of i] by (force simp: image_iff)

lemma as_u64_inj: "0 < i \<Longrightarrow> i < 2 ^ 63 \<Longrightarrow> 0 < j \<Longrightarrow> j < 2 ^ 63 \<Longrightarrow> as_u64 i = as_u64 j \<longleftrightarrow> i = j"
  using as_i64_as_u64 by metis

text \<open>Blocks have heights of 32 bits, all different, and consecutive ids: their ids fit.\<close>

lemma stored_block_next: "stored feat db \<Longrightarrow> tab_next (blocks db) = int (length (tab_rows (blocks db))) + 1"
  unfolding stored_def
proof (induction rule: rtranclp_induct)
  case (step db db')
  then have "db_ok db" using stored_ok(1) [of feat db] by (simp add: stored_def)
  moreover obtain b txs regs key change mx where "save_block feat b txs regs key change db = (Inr mx, db')"
    using step(2) unfolding store_step_def by blast
  ultimately show ?case using save_block_Inr step by (fastforce simp: insert_row_simps)
qed (simp add: empty_chain_db_def empty_table_def)

lemma stored_block_ids:
  assumes "stored feat db" and "(i, r) \<in> set (tab_rows (blocks db))"
  shows "0 < i" "i < 2 ^ 63"
proof -
  let ?hs = "map (b_height \<circ> snd) (tab_rows (blocks db))"
  show "0 < i" using typed_rows(1) [OF stored_ok(2) [OF assms(1)] assms(2)] by blast
  have "set ?hs \<subseteq> {0..<2 ^ 32}"
    using typed_rows(1) [OF stored_ok(2) [OF assms(1)]] by (force simp: block_typed_def)
  then have "card (set ?hs) \<le> card {0..<2 ^ 32 :: int}" by (intro card_mono) simp_all
  moreover have "distinct ?hs" using stored_ok(1) [OF assms(1)] by (simp add: db_ok_defs unique_def)
  then have "card (set ?hs) = length (tab_rows (blocks db))" using distinct_card [of ?hs] by simp
  ultimately have "length (tab_rows (blocks db)) \<le> 2 ^ 32" by simp
  moreover have "i < tab_next (blocks db)"
    using stored_ok(1) [OF assms(1)] assms(2) by (force simp: db_ok_defs table_ok_def list_all_iff)
  ultimately show "i < 2 ^ 63" using stored_block_next [OF assms(1)] by simp
qed

lemma tx_block_ids:
  assumes "stored feat db" and "(i, t) \<in> set (tab_rows (transactions db))"
  shows "0 < t_block_id t" "t_block_id t < 2 ^ 63"
proof -
  have "t_block_id t \<in> table_ids (blocks db)" using stored_ok(1) [OF assms(1)] assms(2) by (force simp: db_ok_defs fk_def)
  then show "0 < t_block_id t" "t_block_id t < 2 ^ 63" using stored_block_ids [OF assms(1)] by (auto simp: table_ids_def)
qed

section \<open>A regular transaction has its row, a system transaction none\<close>

definition regular_split :: "api_view \<Rightarrow> bool" where
  "regular_split v \<longleftrightarrow> (\<forall>r \<in> set (v_regular v). r_id r < tab_next (v_transactions v)
     \<and> (\<forall>t. (r_id r, t) \<in> set (tab_rows (v_transactions v)) \<longrightarrow> t_variant t = RegularVariant))"

lemma put_transaction_split:
  assumes "regular_split v" and "list_all (\<lambda>(i, _). i < tab_next (v_transactions v)) (tab_rows (v_transactions v))"
  shows "regular_split (put_transaction feat bid t v)
    \<and> list_all (\<lambda>(i, _). i < tab_next (v_transactions (put_transaction feat bid t v)))
        (tab_rows (v_transactions (put_transaction feat bid t v)))"
  using assms
  by (cases t) (fastforce simp: regular_split_def Let_def add_row insert_row_simps list_all_iff regular_transaction_row_of_def
      transaction_row_of_def)+

lemma fold_put_split:
  "regular_split v \<Longrightarrow> list_all (\<lambda>(i, _). i < tab_next (v_transactions v)) (tab_rows (v_transactions v)) \<Longrightarrow>
    regular_split (fold (put_transaction feat bid) txs v)"
  using put_transaction_split by (induction txs arbitrary: v) fastforce+

lemma stored_split: "stored feat db \<Longrightarrow> regular_split (view db)"
  unfolding stored_def
proof (induction rule: rtranclp_induct)
  case base
  then show ?case by (simp add: regular_split_def empty_chain_db_def)
next
  case (step db db')
  then have ok: "db_ok db" using stored_ok(1) [of feat db] by (simp add: stored_def)
  obtain b txs regs key change mx where s: "save_block feat b txs regs key change db = (Inr mx, db')"
    using step(2) unfolding store_step_def by blast
  have "list_all (\<lambda>(i, _). i < tab_next (transactions db)) (tab_rows (transactions db))"
    using ok by (force simp: db_ok_defs table_ok_def list_all_iff)
  then show ?case unfolding view_save_block [OF s] put_block_def
    by (intro fold_put_split) (use step(3) in \<open>simp_all add: regular_split_def\<close>)
qed

section \<open>Transactions by id and by block\<close>

lemma filter_map_filter:
  "(\<And>x y. f x = Some y \<Longrightarrow> q y = p x) \<Longrightarrow> Chain_Storage.filter_map f (filter p xs) = filter q (Chain_Storage.filter_map f xs)"
  by (induction xs) (auto simp: Chain_Storage.filter_map_def split: option.splits)

lemma union_rows_filter: "union_rows p db = filter (\<lambda>row. p (fst row, fst (snd row))) (union_rows (\<lambda>_. True) db)"
proof -
  have "Chain_Storage.filter_map (join_regular db) (filter p (tab_rows (transactions db)))
      = filter (\<lambda>row. p (fst row, fst (snd row))) (Chain_Storage.filter_map (join_regular db) (tab_rows (transactions db)))"
    by (rule filter_map_filter) (auto simp: join_regular_def bind_eq_Some_conv)
  moreover have "Chain_Storage.filter_map (join_block db) (filter (\<lambda>x. p x \<and> t_variant (snd x) = SystemVariant) (tab_rows (transactions db)))
      = filter (\<lambda>row. p (fst row, fst (snd row))) (Chain_Storage.filter_map (join_block db)
          (filter (\<lambda>x. t_variant (snd x) = SystemVariant) (tab_rows (transactions db))))"
    unfolding filter_filter [symmetric] conj_commute [of "p _"]
    by (rule filter_map_filter) (auto simp: join_block_def)
  ultimately show ?thesis by (simp add: union_rows_def select_where_def split_def)
qed

abbreviation row_tx :: "feature \<Rightarrow> chain_db \<Rightarrow> tx_join \<Rightarrow> api_transaction" where
  "row_tx feat db row \<equiv> finished feat db (projr (make_transaction row))"

lemma union_row:
  assumes s: "stored feat db" and row: "row \<in> set (union_rows (\<lambda>_. True) db)"
  shows "make_transaction row = Inr (projr (make_transaction row))"
    "(fst row, fst (snd row)) \<in> set (tab_rows (transactions db))"
    "row_tx feat db row = api_tx feat db (fst row, fst (snd row))"
proof -
  show m: "make_transaction row = Inr (projr (make_transaction row))"
    using union_rows_ok [OF stored_ok(1,2) [OF s] row] by (auto simp: is_ok_iff)
  obtain i t x where p: "(i, t) \<in> set (tab_rows (transactions db))" "row = (i, t, x)"
    and j: "join_regular db (i, t) = Some row \<or> join_block db (i, t) = Some row \<and> t_variant t = SystemVariant"
    using row by (fastforce simp: union_rows_def select_where_def set_filter_map join_regular_def join_block_def bind_eq_Some_conv)
  then show "(fst row, fst (snd row)) \<in> set (tab_rows (transactions db))" by simp
  from j have "make_transaction (joined db (i, t)) = make_transaction row"
  proof
    assume "join_regular db (i, t) = Some row"
    then have "left_join_regular db (i, t) = Some row" by (auto simp: join_regular_def left_join_regular_def bind_eq_Some_conv)
    then show ?thesis by (simp add: joined_def)
  next
    assume j: "join_block db (i, t) = Some row \<and> t_variant t = SystemVariant"
    then obtain b where "row_by_id (blocks db) (t_block_id t) = Some b" "row = (i, t, b_hash b, None)"
      by (auto simp: join_block_def)
    then show ?thesis using j by (simp add: joined_def left_join_regular_def make_transaction_def system_from_row_def)
  qed
  then show "row_tx feat db row = api_tx feat db (fst row, fst (snd row))"
    using m by (auto simp: api_tx_def p(2) split: sum.splits)
qed

lemma filter_map_Cons:
  "Chain_Storage.filter_map f (x # xs)
    = (case f x of None \<Rightarrow> Chain_Storage.filter_map f xs | Some y \<Rightarrow> y # Chain_Storage.filter_map f xs)"
  by (simp add: Chain_Storage.filter_map_def split: option.split)

lemma filter_map_distinct:
  "distinct (map fst xs) \<Longrightarrow> (\<And>x y. f x = Some y \<Longrightarrow> fst y = fst x) \<Longrightarrow> distinct (map fst (Chain_Storage.filter_map f xs))"
proof (induction xs)
  case (Cons a xs)
  have "fst y \<noteq> fst a" if y: "y \<in> set (Chain_Storage.filter_map f xs)" for y
  proof -
    obtain x where "x \<in> set xs" "f x = Some y" using y by (auto simp: set_filter_map)
    then show ?thesis using Cons.prems by (metis distinct.simps(2) list.simps(9) image_eqI set_map)
  qed
  then have "fst a \<notin> fst ` set (Chain_Storage.filter_map f xs)" by force
  then show ?case using Cons by (cases "f a") (simp_all add: filter_map_Cons)
qed (simp add: Chain_Storage.filter_map_def)

lemma union_rows_ids:
  assumes s: "stored feat db"
  shows "distinct (map fst (union_rows (\<lambda>_. True) db))" "set (map fst (union_rows (\<lambda>_. True) db)) = table_ids (transactions db)"
proof -
  let ?rows = "tab_rows (transactions db)"
  let ?A = "Chain_Storage.filter_map (join_regular db) ?rows"
  let ?B = "Chain_Storage.filter_map (join_block db) (filter (\<lambda>x. t_variant (snd x) = SystemVariant) ?rows)"
  have U: "union_rows (\<lambda>_. True) db = ?A @ ?B" by (simp add: union_rows_def select_where_def split_def)
  have ids: "distinct (map fst ?rows)" using stored_ok(1) [OF s] by (auto simp: db_ok_defs table_ok_def strict_sorted_iff)
  have "distinct (map fst ?A)" by (rule filter_map_distinct [OF ids]) (auto simp: join_regular_def bind_eq_Some_conv)
  moreover have "distinct (map fst ?B)"
    by (rule filter_map_distinct) (use ids in \<open>auto simp: join_block_def distinct_map_filter\<close>)
  moreover have "fst y \<noteq> fst x" if x: "x \<in> set ?A" and y: "y \<in> set ?B" for x y
  proof -
    obtain r where "find (\<lambda>r. r_id r = fst x) (regular_transactions db) = Some r"
      using x by (auto simp: set_filter_map join_regular_def bind_eq_Some_conv)
    then have "r \<in> set (regular_transactions db)" "r_id r = fst x" by (auto simp: find_Some_iff)
    moreover obtain t where "(fst y, t) \<in> set ?rows" "t_variant t = SystemVariant"
      using y by (auto simp: set_filter_map join_block_def)
    ultimately show ?thesis using stored_split [OF s] by (fastforce simp: regular_split_def)
  qed
  ultimately show "distinct (map fst (union_rows (\<lambda>_. True) db))" unfolding U by fastforce
  have "fst p \<in> set (map fst (union_rows (\<lambda>_. True) db))" if p: "p \<in> set ?rows" for p
  proof -
    obtain row where row: "left_join_regular db p = Some row" "fst row = fst p" using joined_ok [OF s p] by blast
    show ?thesis
    proof (cases "t_variant (snd p)")
      case RegularVariant
      have "\<forall>x \<in> set ?rows. t_variant (snd x) = RegularVariant \<longrightarrow> fst x \<in> r_id ` set (regular_transactions db)"
        using stored_ok(2) [OF s] by (simp add: typed_def list_all_iff split_def)
      with p RegularVariant have "fst p \<in> r_id ` set (regular_transactions db)" by blast
      then have "find (\<lambda>r. r_id r = fst p) (regular_transactions db) \<noteq> None" by (auto simp: find_None_iff)
      then have "join_regular db p = Some row" using row by (auto simp: left_join_regular_def join_regular_def split_def)
      then have "row \<in> set ?A" using p by (auto simp: set_filter_map)
      then show ?thesis using row(2) by (force simp: U)
    next
      case SystemVariant
      then obtain row' where "join_block db p = Some row'" "fst row' = fst p"
        using row by (auto simp: left_join_regular_def join_block_def split_def)
      moreover from this(1) have "row' \<in> set ?B" using p SystemVariant by (cases p) (auto simp: set_filter_map)
      ultimately show ?thesis by (force simp: U)
    qed
  qed
  moreover have "fst row \<in> table_ids (transactions db)" if "row \<in> set (union_rows (\<lambda>_. True) db)" for row
    using union_row(2) [OF s that] by (force simp: table_ids_def)
  ultimately show "set (map fst (union_rows (\<lambda>_. True) db)) = table_ids (transactions db)" by (auto simp: table_ids_def)
qed

text \<open>The transactions with the given ids, and those of a block, as the storage gives them.\<close>

lemma ids_in_batch:
  assumes s: "stored feat db" and row: "row \<in> set (union_rows (\<lambda>_. True) db)"
  shows "fst row \<in> set (map as_i64 ids) \<longleftrightarrow> as_u64 (fst row) \<in> set ids"
    "t_block_id (fst (snd row)) \<in> set (map as_i64 ids) \<longleftrightarrow> as_u64 (t_block_id (fst (snd row))) \<in> set ids"
proof -
  note r = union_row(2) [OF s row]
  show "fst row \<in> set (map as_i64 ids) \<longleftrightarrow> as_u64 (fst row) \<in> set ids"
    by (rule in_ids_iff) (use stored_ids(1,3) [OF s r] in simp_all)
  show "t_block_id (fst (snd row)) \<in> set (map as_i64 ids) \<longleftrightarrow> as_u64 (t_block_id (fst (snd row))) \<in> set ids"
    by (rule in_ids_iff) (use tx_block_ids [OF s r] in simp_all)
qed

lemma transactions_by_ids_eq:
  assumes s: "stored feat db"
  shows "get_transactions_by_ids feat ids db
    = Inr (map (row_tx feat db) (filter (\<lambda>row. as_u64 (fst row) \<in> set ids) (union_rows (\<lambda>_. True) db)))"
proof -
  let ?U = "union_rows (\<lambda>_. True) db"
  have U: "union_rows (\<lambda>(i, _). i \<in> set (map as_i64 ids)) db = filter (\<lambda>row. as_u64 (fst row) \<in> set ids) ?U"
    unfolding union_rows_filter [of "\<lambda>(i, _). i \<in> set (map as_i64 ids)"] using ids_in_batch(1) [OF s]
    by (intro filter_cong) auto
  have "try_map make_transaction (filter (\<lambda>row. as_u64 (fst row) \<in> set ids) ?U)
      = Inr (map (\<lambda>row. projr (make_transaction row)) (filter (\<lambda>row. as_u64 (fst row) \<in> set ids) ?U))"
    by (rule try_map_total) (use union_row(1) [OF s] in auto)
  then show ?thesis using U by (simp add: get_transactions_by_ids_def finish_transactions_eq [OF s] comp_def)
qed

lemma transactions_by_block_ids_eq:
  assumes s: "stored feat db"
  shows "get_transactions_by_block_ids feat ids db
    = Inr (map (\<lambda>row. (as_u64 (t_block_id (fst (snd row))), row_tx feat db row))
        (filter (\<lambda>row. as_u64 (t_block_id (fst (snd row))) \<in> set ids)
          (sort_key (\<lambda>row. t_block_id (fst (snd row))) (sort_key fst (union_rows (\<lambda>_. True) db)))))"
proof -
  let ?U = "union_rows (\<lambda>_. True) db" and ?blk = "\<lambda>row :: tx_join. t_block_id (fst (snd row))"
  let ?S = "filter (\<lambda>row. as_u64 (?blk row) \<in> set ids) (sort_key ?blk (sort_key fst ?U))"
  have "union_rows (\<lambda>(_, t). t_block_id t \<in> set (map as_i64 ids)) db = filter (\<lambda>row. as_u64 (?blk row) \<in> set ids) ?U"
    unfolding union_rows_filter [of "\<lambda>(_, t). t_block_id t \<in> set (map as_i64 ids)"] using ids_in_batch(2) [OF s]
    by (intro filter_cong) auto
  then have S: "sort_key (\<lambda>(_, t, _). t_block_id t) (sort_key fst (union_rows (\<lambda>(_, t). t_block_id t \<in> set (map as_i64 ids)) db)) = ?S"
    by (simp add: filter_sort split_def)
  have "try_map make_transaction_with_block_id ?S = Inr (map (\<lambda>row. (as_u64 (?blk row), projr (make_transaction row))) ?S)"
  proof (rule try_map_total)
    fix row assume "row \<in> set ?S"
    then have "row \<in> set ?U" by simp
    from union_row(1) [OF s this] show "make_transaction_with_block_id row = Inr (as_u64 (?blk row), projr (make_transaction row))"
      by (metis make_transaction_with_block_id_def map_ok_simps(2))
  qed
  then show ?thesis using S
    by (simp add: get_transactions_by_block_ids_def finish_transactions_eq [OF s] comp_def zip_map_map zip_same_conv_map split_def)
qed

section \<open>What a loader gives for a key\<close>

lemma map_of_determined:
  assumes "\<And>v. (k, v) \<in> set xs \<Longrightarrow> m = Some v" and "m \<noteq> None \<Longrightarrow> k \<in> fst ` set xs"
  shows "map_of xs k = m"
  using assms map_of_SomeD [of xs k] map_of_eq_None_iff [of xs k] by (cases "map_of xs k"; cases m) auto

definition block_with_hash :: "chain_db \<Rightarrow> bytes \<Rightarrow> api_block option" where
  "block_with_hash db = map_of (map (\<lambda>p. (b_hash (snd p), decoded_block p)) (tab_rows (blocks db)))"

definition tx_with_id :: "feature \<Rightarrow> chain_db \<Rightarrow> u64 \<Rightarrow> api_transaction option" where
  "tx_with_id feat db = map_of (map (\<lambda>p. (as_u64 (fst p), api_tx feat db p)) (tab_rows (transactions db)))"

lemma decoded_block_fields:
  assumes "stored feat db" and "p \<in> set (tab_rows (blocks db))"
  shows "ab_hash (decoded_block p) = b_hash (snd p)" "ab_id (decoded_block p) = as_u64 (fst p)"
    "ab_parent_hash (decoded_block p) = b_parent_hash (snd p)"
proof -
  obtain i r where p: "p = (i, r)" by (cases p)
  have t: "0 < i" "block_typed r" using typed_rows(1) [OF stored_ok(2) [OF assms(1)]] assms(2) p by blast+
  have "api_block_from_row (i, r) = Inr (decoded_block (i, r))" using decoded_block_row(1) [OF assms] p by simp
  then show "ab_hash (decoded_block p) = b_hash (snd p)" "ab_id (decoded_block p) = as_u64 (fst p)"
    "ab_parent_hash (decoded_block p) = b_parent_hash (snd p)"
    using t by (auto simp: api_block_from_row_def block_typed_def col_ok as_u64_def res_simps p)
qed

lemma block_with_hash_row:
  assumes "stored feat db" and "p \<in> set (tab_rows (blocks db))"
  shows "block_with_hash db (b_hash (snd p)) = Some (decoded_block p)"
proof -
  have "distinct (map fst (map (\<lambda>p. (b_hash (snd p), decoded_block p)) (tab_rows (blocks db))))"
    using stored_ok(1) [OF assms(1)] by (simp add: db_ok_defs unique_def comp_def)
  then show ?thesis unfolding block_with_hash_def using assms(2) by (intro map_of_is_SomeI) auto
qed

lemma tx_with_id_row:
  assumes "stored feat db" and "p \<in> set (tab_rows (transactions db))"
  shows "tx_with_id feat db (as_u64 (fst p)) = Some (api_tx feat db p)"
proof -
  have ids: "distinct (map fst (tab_rows (transactions db)))"
    using stored_ok(1) [OF assms(1)] by (auto simp: db_ok_defs table_ok_def strict_sorted_iff)
  have "inj_on as_u64 (set (map fst (tab_rows (transactions db))))"
  proof (rule inj_onI)
    fix i j assume ij: "i \<in> set (map fst (tab_rows (transactions db)))" "j \<in> set (map fst (tab_rows (transactions db)))"
      and e: "as_u64 i = as_u64 j"
    obtain t u where "(i, t) \<in> set (tab_rows (transactions db))" "(j, u) \<in> set (tab_rows (transactions db))" using ij by auto
    then show "i = j" using stored_ids(1,3) [OF assms(1), of i t] stored_ids(1,3) [OF assms(1), of j u] as_u64_inj [of i j] e by simp
  qed
  then have "distinct (map as_u64 (map fst (tab_rows (transactions db))))" using ids by (simp only: distinct_map)
  then have "distinct (map fst (map (\<lambda>p. (as_u64 (fst p), api_tx feat db p)) (tab_rows (transactions db))))" by (simp add: comp_def)
  then show ?thesis unfolding tx_with_id_def using assms(2) by (intro map_of_is_SomeI) auto
qed

lemma block_batch:
  assumes s: "stored feat db" and h: "h \<in> set (batch h)"
  shows "load_one block_by_hash_load batch h db = Inr (block_with_hash db h)"
proof -
  let ?rows = "filter (\<lambda>p. b_hash (snd p) \<in> set (batch h)) (tab_rows (blocks db))"
  have "get_blocks_by_hashes (batch h) db = Inr (map decoded_block ?rows)"
    unfolding get_blocks_by_hashes_def select_where_def split_def
    by (rule try_map_total) (use decoded_block_row(1) [OF s] in auto)
  moreover have "map_of (rev (map (\<lambda>b. (ab_hash b, b)) (map decoded_block ?rows))) h = block_with_hash db h"
  proof (rule map_of_determined)
    fix b assume "(h, b) \<in> set (rev (map (\<lambda>b. (ab_hash b, b)) (map decoded_block ?rows)))"
    then obtain p where "p \<in> set (tab_rows (blocks db))" "b = decoded_block p" "h = ab_hash b" by auto
    then show "block_with_hash db h = Some b" using decoded_block_fields(1) [OF s] block_with_hash_row [OF s] by simp
  next
    assume "block_with_hash db h \<noteq> None"
    then obtain b where "block_with_hash db h = Some b" by auto
    then have "(h, b) \<in> set (map (\<lambda>p. (b_hash (snd p), decoded_block p)) (tab_rows (blocks db)))"
      unfolding block_with_hash_def by (rule map_of_SomeD)
    then obtain p where p: "p \<in> set (tab_rows (blocks db))" "b_hash (snd p) = h" by auto
    then have "p \<in> set ?rows" using h by simp
    then show "h \<in> fst ` set (rev (map (\<lambda>b. (ab_hash b, b)) (map decoded_block ?rows)))"
      using decoded_block_fields(1) [OF s p(1)] p(2) by force
  qed
  ultimately show ?thesis by (simp add: load_one_def block_by_hash_load_def)
qed

lemma transaction_batch:
  assumes s: "stored feat db" and k: "k \<in> set (batch k)"
  shows "load_one (transaction_by_id_load feat) batch k db = Inr (tx_with_id feat db k)"
proof -
  let ?U = "union_rows (\<lambda>_. True) db"
  let ?rows = "filter (\<lambda>row. as_u64 (fst row) \<in> set (batch k)) ?U"
  have row: "api_transaction_id (row_tx feat db row) = as_u64 (fst row)"
    "tx_with_id feat db (as_u64 (fst row)) = Some (row_tx feat db row)" if "row \<in> set ?U" for row
    using union_row(2,3) [OF s that] joined_ok(4) [OF s] tx_with_id_row [OF s] by (force simp: as_u64_def)+
  have "map_of (rev (map (\<lambda>t. (api_transaction_id t, t)) (map (row_tx feat db) ?rows))) k = tx_with_id feat db k"
  proof (rule map_of_determined)
    fix t assume "(k, t) \<in> set (rev (map (\<lambda>t. (api_transaction_id t, t)) (map (row_tx feat db) ?rows)))"
    then obtain r where "r \<in> set ?U" "t = row_tx feat db r" "k = api_transaction_id t" by auto
    then show "tx_with_id feat db k = Some t" using row by metis
  next
    assume "tx_with_id feat db k \<noteq> None"
    then obtain t where "tx_with_id feat db k = Some t" by auto
    then have "(k, t) \<in> set (map (\<lambda>p. (as_u64 (fst p), api_tx feat db p)) (tab_rows (transactions db)))"
      unfolding tx_with_id_def by (rule map_of_SomeD)
    then obtain p where "p \<in> set (tab_rows (transactions db))" "as_u64 (fst p) = k" by auto
    moreover from this(1) have "fst p \<in> set (map fst ?U)" unfolding union_rows_ids(2) [OF s] table_ids_def by simp
    then obtain r where "r \<in> set ?U" "fst r = fst p" unfolding set_map by fastforce
    ultimately have r: "r \<in> set ?U" "as_u64 (fst r) = k" by simp_all
    then have "r \<in> set ?rows" using k by simp
    then have "(api_transaction_id (row_tx feat db r), row_tx feat db r)
        \<in> set (rev (map (\<lambda>t. (api_transaction_id t, t)) (map (row_tx feat db) ?rows)))" by auto
    moreover have "k = fst (api_transaction_id (row_tx feat db r), row_tx feat db r)" using row(1) [OF r(1)] r(2) by simp
    ultimately show "k \<in> fst ` set (rev (map (\<lambda>t. (api_transaction_id t, t)) (map (row_tx feat db) ?rows)))"
      by (rule image_eqI [rotated])
  qed
  then show ?thesis by (simp add: load_one_def transaction_by_id_load_def transactions_by_ids_eq [OF s])
qed

text \<open>The transactions of a block, in the order of their ids.\<close>

definition block_txs :: "feature \<Rightarrow> chain_db \<Rightarrow> u64 \<Rightarrow> api_transaction list" where
  "block_txs feat db k = map (api_tx feat db) (filter (\<lambda>p. as_u64 (t_block_id (snd p)) = k) (tab_rows (transactions db)))"

definition nonempty :: "'a list \<Rightarrow> 'a list option" where
  "nonempty xs = (if xs = [] then None else Some xs)"

lemma group_of: "into_group_map (map (\<lambda>x. (key x, v x)) xs) k = nonempty (map v (filter (\<lambda>x. key x = k) xs))"
  by (cases "filter (\<lambda>x. key x = k) xs") (simp_all add: into_group_map_def nonempty_def filter_map comp_def split: list.split)

lemma filter_in_batch: "(\<And>x. x \<in> set xs \<Longrightarrow> P x \<Longrightarrow> Q x) \<Longrightarrow> filter P (filter Q xs) = filter P xs"
  by (induction xs) auto

lemma sorted_union:
  assumes s: "stored feat db"
  shows "map (\<lambda>row. (fst row, fst (snd row))) (sort_key fst (union_rows (\<lambda>_. True) db)) = tab_rows (transactions db)"
proof -
  let ?U = "sort_key fst (union_rows (\<lambda>_. True) db)" and ?g = "\<lambda>i. the (row_by_id (transactions db) i)"
  have ids: "distinct (map fst (tab_rows (transactions db)))" "sorted (map fst (tab_rows (transactions db)))"
    using stored_ok(1) [OF s] by (auto simp: db_ok_defs table_ok_def strict_sorted_iff)
  have "map fst ?U = map fst (tab_rows (transactions db))"
    using union_rows_ids [OF s] ids
    by (intro sorted_distinct_set_unique) (auto simp: table_ids_def distinct_map)
  then have "map (\<lambda>i. (i, ?g i)) (map fst ?U) = map (\<lambda>i. (i, ?g i)) (map fst (tab_rows (transactions db)))" by simp
  moreover have "(fst p, ?g (fst p)) = p" if "p \<in> set (tab_rows (transactions db))" for p
  proof -
    obtain i t where "p = (i, t)" by (cases p)
    then show ?thesis using that ids(1) by (simp add: row_by_id_def)
  qed
  moreover from this union_row(2) [OF s] have "(fst row, ?g (fst row)) = (fst row, fst (snd row))" if "row \<in> set ?U" for row
    using that by fastforce
  ultimately show ?thesis
    by (simp add: map_idI comp_def) (metis (no_types, lifting) map_cong set_sort)
qed

lemma block_transactions_batch:
  assumes s: "stored feat db" and k: "k \<in> set (batch k)"
  shows "load_one (transactions_by_block_id_load feat) batch k db = Inr (nonempty (block_txs feat db k))"
proof -
  let ?U = "union_rows (\<lambda>_. True) db" and ?blk = "\<lambda>row :: tx_join. t_block_id (fst (snd row))"
  let ?B = "\<lambda>row :: tx_join. as_u64 (?blk row) = k"
  have fil: "filter ?B (sort_key ?blk (sort_key fst ?U)) = filter ?B (sort_key fst ?U)"
  proof (cases "\<exists>row \<in> set ?U. ?B row")
    case False
    then show ?thesis by (simp add: filter_empty_conv)
  next
    case True
    then obtain row0 where r0: "row0 \<in> set ?U" "?B row0" by blast
    have e: "?B row \<longleftrightarrow> ?blk row = ?blk row0" if "row \<in> set ?U" for row
      using tx_block_ids [OF s union_row(2) [OF s r0(1)]] tx_block_ids [OF s union_row(2) [OF s that]] as_u64_inj r0(2) by metis
    have f: "filter ?B xs = filter (\<lambda>row. ?blk row = ?blk row0) xs" if "set xs = set ?U" for xs
      by (rule filter_cong [OF refl]) (use e that in blast)
    have "filter (\<lambda>row. ?blk row = ?blk row0) (sort_key ?blk (sort_key fst ?U)) = filter (\<lambda>row. ?blk row = ?blk row0) (sort_key fst ?U)"
      by (rule sort_key_stable)
    then show ?thesis using f [of "sort_key ?blk (sort_key fst ?U)"] f [of "sort_key fst ?U"] by (simp only: set_sort)
  qed
  have "map (row_tx feat db) (filter ?B (sort_key fst ?U)) = map (\<lambda>row. api_tx feat db (fst row, fst (snd row))) (filter ?B (sort_key fst ?U))"
    using union_row(3) [OF s] by simp
  also have "\<dots> = map (api_tx feat db) (filter (\<lambda>p. as_u64 (t_block_id (snd p)) = k) (map (\<lambda>row. (fst row, fst (snd row))) (sort_key fst ?U)))"
    by (simp add: filter_map comp_def)
  finally have "map (row_tx feat db) (filter ?B (sort_key fst ?U)) = block_txs feat db k"
    by (simp add: sorted_union [OF s] block_txs_def)
  moreover have "filter ?B (filter (\<lambda>row. as_u64 (?blk row) \<in> set (batch k)) (sort_key ?blk (sort_key fst ?U))) = filter ?B (sort_key fst ?U)"
    using fil filter_in_batch [of _ ?B] k by (metis (mono_tags, lifting))
  ultimately show ?thesis
    by (simp add: load_one_def transactions_by_block_id_load_def transactions_by_block_ids_eq [OF s] group_of)
qed

text \<open>The contract actions of a transaction.\<close>

definition tx_actions :: "chain_db \<Rightarrow> u64 \<Rightarrow> api_contract_action list" where
  "tx_actions db k = map decoded_action (filter (\<lambda>p. as_u64 (a_transaction_id (snd p)) = k) (tab_rows (contract_actions db)))"

lemma action_decodes:
  assumes s: "stored feat db" and p: "p \<in> set (tab_rows (contract_actions db))"
  shows "api_contract_action_from_row p = Inr (decoded_action p)" "ac_transaction_id (decoded_action p) = as_u64 (a_transaction_id (snd p))"
    "a_transaction_id (snd p) \<in> table_ids (transactions db)" "0 < a_transaction_id (snd p)" "a_transaction_id (snd p) < 2 ^ 63"
proof -
  obtain i r where e: "p = (i, r)" by (cases p)
  have t: "0 < i" "0 < a_transaction_id r" using typed_rows(4) [OF stored_ok(2) [OF s]] p e by blast+
  then show "api_contract_action_from_row p = Inr (decoded_action p)" "ac_transaction_id (decoded_action p) = as_u64 (a_transaction_id (snd p))"
    "0 < a_transaction_id (snd p)"
    by (simp_all add: api_contract_action_from_row_def decoded_action_def col_ok as_u64_def e)
  show ref: "a_transaction_id (snd p) \<in> table_ids (transactions db)"
    using stored_ok(1) [OF s] p by (force simp: db_ok_defs fk_def)
  then obtain x where "(a_transaction_id (snd p), x) \<in> set (tab_rows (transactions db))" by (auto simp: table_ids_def)
  from stored_ids(3) [OF s this] show "a_transaction_id (snd p) < 2 ^ 63" by simp
qed

lemma contract_actions_batch:
  assumes s: "stored feat db" and k: "k \<in> set (batch k)"
  shows "load_one contract_actions_by_transaction_id_load batch k db = Inr (nonempty (tx_actions db k))"
proof -
  let ?key = "\<lambda>p :: i64 \<times> contract_action_row. as_u64 (a_transaction_id (snd p))"
  let ?rows = "filter (\<lambda>p. ?key p \<in> set (batch k)) (tab_rows (contract_actions db))"
  have "filter (\<lambda>p. a_transaction_id (snd p) \<in> set (map as_i64 (batch k))) (tab_rows (contract_actions db)) = ?rows"
    using action_decodes(4,5) [OF s] in_ids_iff by (intro filter_cong) auto
  moreover have "sorted_wrt (\<lambda>x y. fst x < fst y) ?rows"
    using stored_ok(1) [OF s] by (intro sorted_wrt_filter) (simp add: db_ok_defs table_ok_def sorted_wrt_map)
  then have "sort_key fst ?rows = ?rows"
    by (intro sort_key_id_if_sorted) (auto simp: sorted_map elim: sorted_wrt_mono_rel [rotated])
  moreover have "try_map api_contract_action_from_row ?rows = Inr (map decoded_action ?rows)"
    by (rule try_map_total) (use action_decodes(1) [OF s] in auto)
  ultimately have g: "get_contract_actions_by_transaction_ids (batch k) db = Inr (map decoded_action ?rows)"
    using k by (auto simp: get_contract_actions_by_transaction_ids_def select_where_def split_def)
  have "map (\<lambda>a. (ac_transaction_id a, a)) (map decoded_action ?rows) = map (\<lambda>p. (?key p, decoded_action p)) ?rows"
    using action_decodes(2) [OF s] by simp
  moreover have "filter (\<lambda>p. ?key p = k) ?rows = filter (\<lambda>p. ?key p = k) (tab_rows (contract_actions db))"
    by (rule filter_in_batch) (use k in auto)
  ultimately show ?thesis
    unfolding load_one_def contract_actions_by_transaction_id_load_def g map_ok_simps tx_actions_def by (simp only: group_of)
qed

text \<open>The contract events attributed to a contract action.\<close>

definition event_value :: "chain_db \<Rightarrow> i64 \<times> ledger_event_row \<Rightarrow> api_contract_event" where
  "event_value db p = projr (contract_event_from_row (max_event_id Contract db) (fst p, snd p, event_tx db (snd p)))"

definition action_events :: "chain_db \<Rightarrow> u64 \<Rightarrow> api_contract_event list" where
  "action_events db k = map (event_value db) (filter (\<lambda>p. e_grouping (snd p) = Contract
     \<and> map_option as_u64 (e_contract_action_id (snd p)) = Some k) (tab_rows (ledger_events db)))"

lemma event_value_decodes:
  assumes "events_ok feat db" and "p \<in> set (tab_rows (ledger_events db))" and "e_grouping (snd p) = Contract"
  shows "contract_event_from_row (max_event_id Contract db) (fst p, snd p, event_tx db (snd p)) = Inr (event_value db p)"
    "ace_contract_action_id (event_value db p) = map_option as_u64 (e_contract_action_id (snd p))"
proof -
  have "(fst p, snd p) \<in> set (tab_rows (ledger_events db))" using assms(2) by simp
  from contract_row_decodes [OF assms(1) this assms(3)] obtain y where
    y: "contract_event_from_row (max_event_id Contract db) (fst p, snd p, event_tx db (snd p)) = Inr y"
      "forget_contract_max y = contract_item db (fst p, snd p)" by blast
  have "ace_contract_action_id y = ace_contract_action_id (forget_contract_max y)" by (simp add: forget_contract_max_def)
  then show "contract_event_from_row (max_event_id Contract db) (fst p, snd p, event_tx db (snd p)) = Inr (event_value db p)"
    "ace_contract_action_id (event_value db p) = map_option as_u64 (e_contract_action_id (snd p))"
    using y by (simp_all add: event_value_def contract_item_def split_def)
qed

lemma action_id_in_batch:
  assumes "events_ok feat db" "actions_ok feat db" and "p \<in> set (tab_rows (ledger_events db))"
  shows "(case e_contract_action_id (snd p) of None \<Rightarrow> False | Some i \<Rightarrow> i \<in> set (map as_i64 ids))
    \<longleftrightarrow> (\<exists>k \<in> set ids. map_option as_u64 (e_contract_action_id (snd p)) = Some k)"
proof (cases "e_contract_action_id (snd p)")
  case (Some i)
  have "i \<in> table_ids (contract_actions db)"
    using stored_ok(1) [of feat db] assms(1,3) Some by (force simp: events_ok_def db_ok_defs fk_opt_def)
  then obtain r where "(i, r) \<in> set (tab_rows (contract_actions db))" by (auto simp: table_ids_def)
  from action_row(1,2) [OF assms(2) this] show ?thesis using in_ids_iff [of i ids] Some by auto
qed simp

lemma contract_events_batch:
  assumes ok: "events_ok feat db" "actions_ok feat db" and k: "k \<in> set (batch k)"
  shows "load_one contract_events_by_contract_action_id_load batch k db = Inr (nonempty (action_events db k))"
proof -
  let ?P = "\<lambda>p :: i64 \<times> ledger_event_row. e_grouping (snd p) = Contract
     \<and> (\<exists>k' \<in> set (batch k). map_option as_u64 (e_contract_action_id (snd p)) = Some k')"
  let ?rows = "filter ?P (tab_rows (ledger_events db))" and ?key = "\<lambda>p :: i64 \<times> ledger_event_row. as_u64 (the (e_contract_action_id (snd p)))"
  have "filter (\<lambda>p. e_grouping (snd p) = Contract
      \<and> (case e_contract_action_id (snd p) of None \<Rightarrow> False | Some i \<Rightarrow> i \<in> set (map as_i64 (batch k)))) (tab_rows (ledger_events db)) = ?rows"
    using action_id_in_batch [OF ok, of _ "batch k"] by (intro filter_cong) auto
  then have rows: "contract_event_rows (\<lambda>(_, r). e_grouping r = Contract
      \<and> (case e_contract_action_id r of None \<Rightarrow> False | Some i \<Rightarrow> i \<in> set (map as_i64 (batch k)))) db
      = map (\<lambda>p. (fst p, snd p, event_tx db (snd p))) ?rows"
    unfolding contract_event_rows_def joined_rows [OF ok(1)] by (simp add: split_def)
  have t: "try_map (contract_event_from_row (max_event_id Contract db)) (map (\<lambda>p. (fst p, snd p, event_tx db (snd p))) ?rows)
      = Inr (map (event_value db) ?rows)"
    unfolding try_map_map comp_def by (rule try_map_total) (use event_value_decodes(1) [OF ok(1)] in auto)
  have "Chain_Storage.filter_map (\<lambda>e. map_option (\<lambda>key. (key, e)) (ace_contract_action_id e)) (map (event_value db) ?rows)
      = map (\<lambda>e. (the (ace_contract_action_id e), e)) (map (event_value db) ?rows)"
    by (rule filter_map_all) (use event_value_decodes(2) [OF ok(1)] in auto)
  also have "\<dots> = map (\<lambda>p. (?key p, event_value db p)) ?rows"
    using event_value_decodes(2) [OF ok(1)] by auto
  finally have g: "get_contract_events_by_contract_action_ids (batch k) db = Inr (map (\<lambda>p. (?key p, event_value db p)) ?rows)"
    using k rows t by (auto simp: get_contract_events_by_contract_action_ids_def)
  have "filter (\<lambda>p. ?key p = k) ?rows = filter (\<lambda>p. e_grouping (snd p) = Contract
     \<and> map_option as_u64 (e_contract_action_id (snd p)) = Some k) (tab_rows (ledger_events db))"
    unfolding filter_filter using k by (intro filter_cong) auto
  then show ?thesis unfolding load_one_def contract_events_by_contract_action_id_load_def g map_ok_simps action_events_def group_of by simp
qed

section \<open>Batches do not matter\<close>

text \<open>What is documented of \<^verbatim>\<open>DataLoader\<close>: a key is loaded in a batch that has it.\<close>

definition batches_ok :: "'e graph_env \<Rightarrow> bool" where
  "batches_ok env \<longleftrightarrow> (\<forall>k. k \<in> set (ge_block_batch env k)) \<and> (\<forall>k. k \<in> set (ge_transaction_batch env k))
     \<and> (\<forall>k. k \<in> set (ge_block_transactions_batch env k)) \<and> (\<forall>k. k \<in> set (ge_contract_actions_batch env k))
     \<and> (\<forall>k. k \<in> set (ge_contract_events_batch env k))"

text \<open>
  The data loaders are transparent: whatever keys of other fields share a batch with a key, the value found for the
  key, or its absence, is what a request for that key alone gives, for each of the five loaders.
\<close>

theorem loaders_ignore_batches:
  assumes ok: "events_ok (ge_feature env) db" "actions_ok (ge_feature env) db" and b: "batches_ok env"
  shows "load_block env h db = load_one block_by_hash_load (\<lambda>k. [k]) h db
    \<and> load_transaction env i db = load_one (transaction_by_id_load (ge_feature env)) (\<lambda>k. [k]) i db
    \<and> load_block_transactions env i db = load_one (transactions_by_block_id_load (ge_feature env)) (\<lambda>k. [k]) i db
    \<and> load_contract_actions env i db = load_one contract_actions_by_transaction_id_load (\<lambda>k. [k]) i db
    \<and> load_contract_events env i db = load_one contract_events_by_contract_action_id_load (\<lambda>k. [k]) i db"
proof -
  have s: "stored (ge_feature env) db" using ok(1) by (simp add: events_ok_def)
  show ?thesis using b unfolding batches_ok_def
    by (simp add: block_batch [OF s] transaction_batch [OF s] block_transactions_batch [OF s] contract_actions_batch [OF s]
        contract_events_batch [OF ok])
qed

section \<open>Walking the graph\<close>

fun api_block_hash :: "api_transaction \<Rightarrow> bytes" where
  "api_block_hash (ApiRegular t) = ar_block_hash t"
| "api_block_hash (ApiSystem t) = as_block_hash t"

lemma transaction_object_fields [simp]:
  "transaction_object_id (transaction_object_from env t) = api_transaction_id t"
  "transaction_object_block_hash (transaction_object_from env t) = api_block_hash t"
  by (cases t; simp add: regular_object_from_def system_object_from_def bridge_claim_object_from_def Let_def split: option.split)+

lemma make_transaction_block_hash: "make_transaction (i, t, bh, reg) = Inr x \<Longrightarrow> api_block_hash x = bh"
  by (cases "t_variant t")
    (auto simp: make_transaction_def regular_from_row_def system_from_row_def col_array_def byte_array_try_from_def res_simps
      split: option.splits if_splits)

lemma finished_block_hash [simp]: "api_block_hash (finished feat db x) = api_block_hash x"
  by (cases x; cases feat) (simp_all add: finished_def set_identifiers_def)

lemma api_tx_block_hash:
  assumes s: "stored feat db" and p: "p \<in> set (tab_rows (transactions db))" and b: "(t_block_id (snd p), r) \<in> set (tab_rows (blocks db))"
  shows "api_block_hash (api_tx feat db p) = b_hash r"
proof -
  have "distinct (map fst (tab_rows (blocks db)))"
    using stored_ok(1) [OF s] by (auto simp: db_ok_defs table_ok_def strict_sorted_iff)
  then have "row_by_id (blocks db) (t_block_id (snd p)) = Some r" using b by (simp add: row_by_id_def)
  then obtain reg where j: "joined db p = (fst p, snd p, b_hash r, reg)" by (simp add: joined_def left_join_regular_def split_def)
  obtain x where x: "make_transaction (joined db p) = Inr x" using joined_ok(3) [OF s p] by blast
  then have "api_block_hash x = b_hash r" using make_transaction_block_hash j by metis
  then show ?thesis by (simp add: api_tx_def x)
qed

lemma action_object_transaction_id_from [simp]:
  "action_object_transaction_id (contract_action_object_from env a) = ac_transaction_id a"
  by (simp add: contract_action_object_from_def contract_base_from_def split: contract_attributes.split)

lemma list_or_empty_nonempty [simp]: "list_or_empty (nonempty xs) = xs"
  by (simp add: nonempty_def)

lemma fetched_block:
  assumes s: "stored feat db" and f: "fetch_optional api_block_from_row rs = Inr (Some b)" and rs: "set rs \<subseteq> set (tab_rows (blocks db))"
  shows "\<exists>p \<in> set (tab_rows (blocks db)). b = decoded_block p"
  using assms decoded_block_row(1) [OF s] by (cases rs) (auto simp: fetch_optional_def res_simps)

lemma queried_block:
  assumes s: "stored (ge_feature env) db" and bat: "batches_ok env" and q: "block_query env offset db = Inr (Some b)"
  shows "\<exists>p \<in> set (tab_rows (blocks db)). b = block_object_from env (decoded_block p)"
proof -
  obtain x where b: "b = block_object_from env x" and x: "(case offset of
          Some (HashInput hash) \<Rightarrow>
            and_then (client_error ''invalid block hash'' (decode_hash env hash)) (\<lambda>hash.
            server_error ''get block by hash'' (load_block env hash db))
        | Some (HeightInput height) \<Rightarrow> server_error ''get block by height'' (get_block_by_height height db)
        | None \<Rightarrow> server_error ''get latest block'' (get_latest_block db)) = Inr (Some x)"
    using q unfolding block_query_def by (auto simp: res_simps dest!: sym [of "Some b"])
  have "\<exists>p \<in> set (tab_rows (blocks db)). x = decoded_block p"
  proof (cases offset)
    case None
    then show ?thesis using x by (intro fetched_block [OF s]) (auto simp: get_latest_block_def server_error_def order_by_desc_def res_simps)
  next
    case (Some off)
    then show ?thesis
    proof (cases off)
      case (HashInput hash)
      then obtain h where "load_block env h db = Inr (Some x)" using x Some by (auto simp: server_error_def res_simps)
      moreover have "load_block env h db = Inr (block_with_hash db h)"
        using bat by (intro block_batch [OF s]) (simp add: batches_ok_def)
      ultimately have "block_with_hash db h = Some x" by simp
      then have "(h, x) \<in> set (map (\<lambda>p. (b_hash (snd p), decoded_block p)) (tab_rows (blocks db)))"
        unfolding block_with_hash_def by (rule map_of_SomeD)
      then show ?thesis by auto
    next
      case (HeightInput height)
      then show ?thesis using x Some
        by (intro fetched_block [OF s]) (auto simp: get_block_by_height_def server_error_def select_where_def res_simps)
    qed
  qed
  then show ?thesis using b by blast
qed

text \<open>A transaction row, and what its object leads to.\<close>

lemma transaction_leads_to_block:
  assumes s: "stored (ge_feature env) db" and bat: "batches_ok env" and p: "p \<in> set (tab_rows (blocks db))"
    and t: "x \<in> set (tab_rows (transactions db))" "as_u64 (t_block_id (snd x)) = as_u64 (fst p)"
  shows "transaction_block env (transaction_object_from env (api_tx (ge_feature env) db x)) db = Inr (block_object_from env (decoded_block p))"
proof -
  obtain i r where e: "p = (i, r)" by (cases p)
  obtain j u where f: "x = (j, u)" by (cases x)
  have "t_block_id (snd x) = fst p"
    using t(2) stored_block_ids [OF s, of i r] tx_block_ids [OF s, of j u] p t(1) as_u64_inj by (simp add: e f)
  then have "api_block_hash (api_tx (ge_feature env) db x) = b_hash (snd p)"
    using api_tx_block_hash [OF s t(1)] p by (simp add: e)
  moreover have "load_block env (b_hash (snd p)) db = Inr (block_with_hash db (b_hash (snd p)))"
    using bat by (intro block_batch [OF s]) (simp add: batches_ok_def)
  ultimately show ?thesis
    using block_with_hash_row [OF s p] by (simp add: transaction_block_def server_error_def some_or_server_error_def)
qed

lemma loaded_transaction:
  assumes s: "stored (ge_feature env) db" and bat: "batches_ok env" and x: "x \<in> set (tab_rows (transactions db))"
  shows "load_transaction env (as_u64 (fst x)) db = Inr (Some (api_tx (ge_feature env) db x))"
  using transaction_batch [OF s] tx_with_id_row [OF s x] bat by (simp add: batches_ok_def)

lemma actions_lead_back:
  assumes s: "stored (ge_feature env) db" and bat: "batches_ok env" and x: "x \<in> set (tab_rows (transactions db))"
  shows "\<exists>as. transaction_contract_actions env (transaction_object_from env (api_tx (ge_feature env) db x)) db = Inr as
    \<and> (\<forall>a \<in> set as. action_transaction env a db = Inr (transaction_object_from env (api_tx (ge_feature env) db x)))"
proof -
  have k: "api_transaction_id (api_tx (ge_feature env) db x) = as_u64 (fst x)" using joined_ok(4) [OF s x] by (simp add: as_u64_def)
  have "load_contract_actions env (as_u64 (fst x)) db = Inr (nonempty (tx_actions db (as_u64 (fst x))))"
    using bat by (intro contract_actions_batch [OF s]) (simp add: batches_ok_def)
  then have "transaction_contract_actions env (transaction_object_from env (api_tx (ge_feature env) db x)) db
      = Inr (map (contract_action_object_from env) (tx_actions db (as_u64 (fst x))))"
    by (simp add: transaction_contract_actions_def k server_error_def)
  moreover have "ac_transaction_id a = as_u64 (fst x)" if "a \<in> set (tx_actions db (as_u64 (fst x)))" for a
    using that action_decodes(2) [OF s] by (auto simp: tx_actions_def)
  ultimately show ?thesis
    using loaded_transaction [OF s bat x]
    by (auto simp: action_transaction_def get_transaction_by_id_def server_error_def some_or_server_error_def)
qed

lemma those_in: "those xs = Some ys \<Longrightarrow> y \<in> set ys \<Longrightarrow> Some y \<in> set xs"
  by (induction xs arbitrary: ys) (auto split: option.splits)

lemma utxo_object_ids:
  "utxo_object_from env u = Some o' \<Longrightarrow> uo_creating_transaction_id o' = au_creating_transaction_id u
    \<and> uo_spending_transaction_id o' = au_spending_transaction_id u"
  by (auto simp: utxo_object_from_def)

lemma utxos_read:
  assumes s: "stored feat db"
  shows "\<exists>us. utxos_by_output_index p db = Inr us \<and> (\<forall>u \<in> set us. \<exists>i r. (i, r) \<in> set (tab_rows (unshielded_utxos db)) \<and> p r
    \<and> api_utxo_from_row (i, r) = Inr u)"
proof -
  have ok: "is_ok (utxos_by_output_index p db)" by (rule utxo_reads_ok(2) [OF stored_ok(2) [OF s]])
  then obtain us where us: "utxos_by_output_index p db = Inr us" by (auto simp: is_ok_iff)
  have "\<exists>x \<in> set xs. f x = Inr u" if "try_map f xs = Inr ys" "u \<in> set ys" for f :: "i64 \<times> unshielded_utxo_row \<Rightarrow> sqlx_error + api_utxo" and xs ys u
    using that by (induction xs arbitrary: ys) (auto split: sum.splits)
  from this [OF us [unfolded utxos_by_output_index_def]] show ?thesis using us by (fastforce simp: select_where_def)
qed

lemma utxo_row_ids:
  "api_utxo_from_row (i, r) = Inr u \<Longrightarrow> au_creating_transaction_id u = as_u64 (u_creating_transaction_id r)
    \<and> au_spending_transaction_id u = map_option as_u64 (u_spending_transaction_id r)"
  by (auto simp: api_utxo_from_row_def col_u64_def u64_try_from_def col_opt_def as_u64_def res_simps split: option.splits if_splits)

lemma created_outputs_lead_back:
  assumes s: "stored (ge_feature env) db" and bat: "batches_ok env" and x: "x \<in> set (tab_rows (transactions db))"
    and r: "transaction_created_outputs env (transaction_object_from env (api_tx (ge_feature env) db x)) db = Some r"
  shows "\<exists>us. r = Inr us \<and> (\<forall>u \<in> set us. created_at_transaction env u db = Inr (transaction_object_from env (api_tx (ge_feature env) db x)))"
proof -
  let ?k = "as_u64 (fst x)"
  have k: "api_transaction_id (api_tx (ge_feature env) db x) = ?k" using joined_ok(4) [OF s x] by (simp add: as_u64_def)
  obtain vs where vs: "get_unshielded_utxos_created_by_transaction ?k db = Inr vs"
    and v: "\<And>v. v \<in> set vs \<Longrightarrow> au_creating_transaction_id v = ?k"
    using utxos_read [OF s, of "\<lambda>u. u_creating_transaction_id u = as_i64 ?k"] utxo_row_ids
    unfolding get_unshielded_utxos_created_by_transaction_def by fastforce
  then obtain us where us: "r = Inr us" "those (map (utxo_object_from env) vs) = Some us"
    using r by (auto simp: transaction_created_outputs_def k server_error_def)
  have "created_at_transaction env u db = Inr (transaction_object_from env (api_tx (ge_feature env) db x))" if u: "u \<in> set us" for u
  proof -
    obtain w where "w \<in> set vs" "utxo_object_from env w = Some u" using those_in [OF us(2) u] by auto
    then have "uo_creating_transaction_id u = ?k" using utxo_object_ids v by metis
    then show ?thesis using loaded_transaction [OF s bat x] by (simp add: created_at_transaction_def server_error_def some_or_server_error_def)
  qed
  then show ?thesis using us(1) by blast
qed

lemma spent_outputs_lead_back:
  assumes s: "stored (ge_feature env) db" and bat: "batches_ok env" and x: "x \<in> set (tab_rows (transactions db))"
    and r: "transaction_spent_outputs env (transaction_object_from env (api_tx (ge_feature env) db x)) db = Some r"
  shows "\<exists>us. r = Inr us \<and> (\<forall>u \<in> set us. spent_at_transaction env u db = Inr (Some (transaction_object_from env (api_tx (ge_feature env) db x))))"
proof -
  let ?k = "as_u64 (fst x)"
  have k: "api_transaction_id (api_tx (ge_feature env) db x) = ?k" using joined_ok(4) [OF s x] by (simp add: as_u64_def)
  obtain vs where vs: "get_unshielded_utxos_spent_by_transaction ?k db = Inr vs"
    and v: "\<And>v. v \<in> set vs \<Longrightarrow> au_spending_transaction_id v = Some ?k"
    using utxos_read [OF s, of "\<lambda>u. u_spending_transaction_id u = Some (as_i64 ?k)"] utxo_row_ids
    unfolding get_unshielded_utxos_spent_by_transaction_def by fastforce
  then obtain us where us: "r = Inr us" "those (map (utxo_object_from env) vs) = Some us"
    using r by (auto simp: transaction_spent_outputs_def k server_error_def)
  have "spent_at_transaction env u db = Inr (Some (transaction_object_from env (api_tx (ge_feature env) db x)))" if u: "u \<in> set us" for u
  proof -
    obtain w where "w \<in> set vs" "utxo_object_from env w = Some u" using those_in [OF us(2) u] by auto
    then have "uo_spending_transaction_id u = Some ?k" using utxo_object_ids v by metis
    then show ?thesis using loaded_transaction [OF s bat x] by (simp add: spent_at_transaction_def server_error_def some_or_server_error_def)
  qed
  then show ?thesis using us(1) by blast
qed

text \<open>
  C23. The graph of objects is consistent: for every block a query gives, its transactions are those stored with the
  block, in the order of their ids, without an error; each of them leads back to the block, each of its contract actions to the
  transaction, and each UTXO it created or spent to the transaction as the one that created or spent it. (The outer option of the
  UTXOs is the panic of an address that cannot be encoded.)
\<close>

theorem graph_navigation_consistent:
  assumes s: "stored (ge_feature env) db" and bat: "batches_ok env" and q: "block_query env offset db = Inr (Some b)"
  shows "\<exists>ts. block_transactions env b db = Inr ts
    \<and> map transaction_object_id ts
        = map (\<lambda>(i, _). as_u64 i) (filter (\<lambda>(_, t). as_u64 (t_block_id t) = bo_id b) (tab_rows (transactions db)))
    \<and> (\<forall>t \<in> set ts. transaction_block env t db = Inr b
        \<and> (\<exists>as. transaction_contract_actions env t db = Inr as \<and> (\<forall>a \<in> set as. action_transaction env a db = Inr t))
        \<and> (\<forall>r. transaction_created_outputs env t db = Some r \<longrightarrow>
            (\<exists>us. r = Inr us \<and> (\<forall>u \<in> set us. created_at_transaction env u db = Inr t)))
        \<and> (\<forall>r. transaction_spent_outputs env t db = Some r \<longrightarrow>
            (\<exists>us. r = Inr us \<and> (\<forall>u \<in> set us. spent_at_transaction env u db = Inr (Some t)))))"
proof -
  let ?obj = "\<lambda>x. transaction_object_from env (api_tx (ge_feature env) db x)"
  obtain p where p: "p \<in> set (tab_rows (blocks db))" "b = block_object_from env (decoded_block p)"
    using queried_block [OF s bat q] by blast
  let ?xs = "filter (\<lambda>x. as_u64 (t_block_id (snd x)) = as_u64 (fst p)) (tab_rows (transactions db))"
  have i: "bo_id b = as_u64 (fst p)" using decoded_block_fields(2) [OF s p(1)] p(2) by (simp add: block_object_from_def)
  have "load_block_transactions env (bo_id b) db = Inr (nonempty (block_txs (ge_feature env) db (bo_id b)))"
    using bat by (intro block_transactions_batch [OF s]) (simp add: batches_ok_def)
  then have ts: "block_transactions env b db = Inr (map ?obj ?xs)"
    by (simp add: block_transactions_def server_error_def block_txs_def i comp_def)
  have "map transaction_object_id (map ?obj ?xs) = map (\<lambda>x. as_u64 (fst x)) ?xs"
    using joined_ok(4) [OF s] by (simp add: as_u64_def)
  then have ids: "map transaction_object_id (map ?obj ?xs)
      = map (\<lambda>(i, _). as_u64 i) (filter (\<lambda>(_, t). as_u64 (t_block_id t) = bo_id b) (tab_rows (transactions db)))"
    by (simp add: i split_def)
  have "transaction_block env t db = Inr b
      \<and> (\<exists>as. transaction_contract_actions env t db = Inr as \<and> (\<forall>a \<in> set as. action_transaction env a db = Inr t))
      \<and> (\<forall>r. transaction_created_outputs env t db = Some r \<longrightarrow>
          (\<exists>us. r = Inr us \<and> (\<forall>u \<in> set us. created_at_transaction env u db = Inr t)))
      \<and> (\<forall>r. transaction_spent_outputs env t db = Some r \<longrightarrow>
          (\<exists>us. r = Inr us \<and> (\<forall>u \<in> set us. spent_at_transaction env u db = Inr (Some t))))" if t: "t \<in> set (map ?obj ?xs)" for t
  proof -
    obtain x where x: "x \<in> set (tab_rows (transactions db))" "as_u64 (t_block_id (snd x)) = as_u64 (fst p)" "t = ?obj x"
      using t by auto
    show ?thesis unfolding x(3) using transaction_leads_to_block [OF s bat p(1) x(1,2)] actions_lead_back [OF s bat x(1)]
      created_outputs_lead_back [OF s bat x(1)] spent_outputs_lead_back [OF s bat x(1)] by (simp add: p(2))
  qed
  with ts ids show ?thesis by blast
qed

definition sample_env :: "unit graph_env" where
  "sample_env = \<lparr>ge_feature = Cloud, ge_network_id = ''preview'', ge_hex_encode = map (\<lambda>b. char_of (unat b)),
     ge_hex_decode = (\<lambda>s. Some (map (\<lambda>c. word_of_nat (of_char c)) s)), ge_bech32 = plain_bech32,
     ge_block_batch = (\<lambda>k. [k]), ge_transaction_batch = (\<lambda>k. [1, k]), ge_block_transactions_batch = (\<lambda>k. [k, 7]),
     ge_contract_actions_batch = (\<lambda>k. [k]), ge_contract_events_batch = (\<lambda>k. [k, k + 1])\<rparr>"

lemma sample_env_ok: "batches_ok sample_env" "ge_feature sample_env = Cloud"
  by (simp_all add: batches_ok_def sample_env_def)

lemma sample_graph_rows:
  "map (\<lambda>(i, r). (i, b_height r)) (tab_rows (blocks api_sample_db2)) = [(1, 0), (2, 1)]"
  "map (\<lambda>(i, t). (i, t_block_id t)) (tab_rows (transactions api_sample_db2)) = [(1, 1), (2, 2)]"
  by (simp_all add: api_sample_db2_def api_sample_db1_def api_sample_defs sample_defs utxo_keys_def Let_def as_i64_def)

theorem graph_navigation_consistent_witness:
  "\<exists>b t. block_query sample_env (Some (HeightInput 1)) api_sample_db2 = Inr (Some b) \<and> bo_height b = 1
    \<and> block_transactions sample_env b api_sample_db2 = Inr [t] \<and> transaction_object_id t = 2
    \<and> transaction_block sample_env t api_sample_db2 = Inr b"
proof -
  note s = api_sample_stored(2)
  obtain p1 p2 where rows: "tab_rows (blocks api_sample_db2) = [p1, p2]" "fst p2 = 2" "b_height (snd p1) = 0" "b_height (snd p2) = 1"
    using sample_graph_rows(1) by (auto simp: map_eq_Cons_conv)
  have d: "api_block_from_row p2 = Inr (decoded_block p2)" "int (unat (ab_height (decoded_block p2))) = 1"
    using decoded_block_row(1,2) [OF s] rows by (simp_all del: of_nat_unat)
  have q: "block_query sample_env (Some (HeightInput 1)) api_sample_db2 = Inr (Some (block_object_from sample_env (decoded_block p2)))"
    using rows d(1) by (simp add: block_query_def server_error_def get_block_by_height_def select_where_def fetch_optional_def u32_as_i64_def split_def)
  have i: "bo_id (block_object_from sample_env (decoded_block p2)) = 2"
    using decoded_block_fields(2) [OF s, of p2] rows by (simp add: block_object_from_def as_u64_def)
  obtain ts where ts: "block_transactions sample_env (block_object_from sample_env (decoded_block p2)) api_sample_db2 = Inr ts"
    and ids: "map transaction_object_id ts = map (\<lambda>(i, _). as_u64 i)
        (filter (\<lambda>(_, t). as_u64 (t_block_id t) = 2) (tab_rows (transactions api_sample_db2)))"
    and leads: "\<And>t. t \<in> set ts \<Longrightarrow> transaction_block sample_env t api_sample_db2 = Inr (block_object_from sample_env (decoded_block p2))"
    using graph_navigation_consistent [OF _ sample_env_ok(1) q] s sample_env_ok(2) i by auto
  have "map (\<lambda>(i, _). as_u64 i) (filter (\<lambda>(_, t). as_u64 (t_block_id t) = 2) (tab_rows (transactions api_sample_db2)))
      = map (\<lambda>(i, b). as_u64 i) (filter (\<lambda>(i, b). as_u64 b = 2) (map (\<lambda>(i, t). (i, t_block_id t)) (tab_rows (transactions api_sample_db2))))"
    by (simp add: filter_map comp_def split_def)
  then have "map transaction_object_id ts = [2]" unfolding ids sample_graph_rows(2) by (simp add: as_u64_def)
  then obtain t where "ts = [t]" "transaction_object_id t = 2" by auto
  moreover have "ab_height (decoded_block p2) = 1" using d(2) by (metis of_nat_1 of_nat_eq_iff unsigned_1 word_unat_eq_iff)
  ultimately show ?thesis using q ts leads by (fastforce simp: block_object_from_def)
qed

theorem loaders_ignore_batches_witness:
  "load_transaction sample_env 2 api_sample_db2
      = load_one (transaction_by_id_load Cloud) (\<lambda>k. [k]) 2 api_sample_db2
    \<and> load_contract_events sample_env 1 api_sample_db2
      = load_one contract_events_by_contract_action_id_load (\<lambda>k. [k]) 1 api_sample_db2"
proof -
  have "tab_next (ledger_events api_sample_db2) = 1" "tab_next (contract_actions api_sample_db2) = 1"
    by (simp_all add: api_sample_db2_def api_sample_db1_def api_sample_defs sample_defs utxo_keys_def Let_def as_i64_def)
  then have "events_ok (ge_feature sample_env) api_sample_db2" "actions_ok (ge_feature sample_env) api_sample_db2"
    using api_sample_stored(2) sample_env_ok(2) by (simp_all add: events_ok_def actions_ok_def)
  from loaders_ignore_batches [OF this sample_env_ok(1)] show ?thesis using sample_env_ok(2) by metis
qed

section \<open>Sessions\<close>

text \<open>The session that \<^verbatim>\<open>connect\<close> gives can be disconnected once, and is unknown from then on.\<close>

lemma session_ends_with_disconnect:
  assumes hex: "ge_hex_decode env (ge_hex_encode env new_session) = Some new_session" and len: "length new_session = 32"
    and c: "connect_mutation env wenv sk new_id new_session now meanwhile viewing_key options db = (Inr s, db1)"
  shows "\<exists>db2. disconnect_mutation env (\<lambda>d. d) s db1 = (Inr (), db2)
    \<and> disconnect_mutation env (\<lambda>d. d) s db2 = (Inl (Client ''unknown or expired session ID''), db2)"
proof -
  have s: "s = ge_hex_encode env new_session" and r: "resolve_session_id new_session db1 \<noteq> None"
    using c by (auto simp: connect_mutation_def Let_def server_error_def some_or_client_error_def connect_wallet_def res_simps
        split: sum.splits option.splits if_splits)
  have d: "decode_session_id (ge_hex_decode env) s = Inr new_session"
    using hex len by (simp add: decode_session_id_def hex_decode_as_def s byte_array_try_from_def)
  have n: "resolve_session_id new_session (disconnect_wallet new_session db1) = None"
    by (auto simp: resolve_session_id_def disconnect_wallet_def find_None_iff)
  show ?thesis using r n d by (auto simp: disconnect_mutation_def client_error_def some_or_client_error_def)
qed

end
