(* ===== verification/Ledger_Crates.thy ===== *)
theory Ledger_Crates
  imports Chain_App Event_Decoder Contract_State
begin

unbundle bit_operations_syntax

text \<open>
  What the ledger state of \<^verbatim>\<open>indexer-common/src/domain/ledger/ledger_state.rs\<close> is built on: the values and
  operations of the ledger crates, the cost of a block, the conversion of the crates' events into ledger
  events, and of the crates' transactions into created and spent unshielded UTXOs.

  The ledger crates are third-party: their types are given by the parts the code reads, and their
  operations are the fields of \<open>crate\<close>, \<open>trees\<close> and \<open>arena\<close>, one of each per ledger version. The helpers
  for ledger 9 are a copy of those for ledger 8 over the types of the other crate, so each is written
  once over these records; where the copies differ there are two definitions.
\<close>

section \<open>Costs\<close>

text \<open>
  \<^verbatim>\<open>SyntheticCost\<close> and \<^verbatim>\<open>NormalizedCost\<close> have the same five dimensions, the first in units and the second in
  fixed point numbers. How costs are added and normalized is the cost model's, a parameter.
\<close>

record synthetic_cost =
  sc_read_time :: u64
  sc_compute_time :: u64
  sc_block_usage :: u64
  sc_bytes_written :: u64
  sc_bytes_churned :: u64

record 'f normalized_cost =
  nc_read_time :: 'f
  nc_compute_time :: 'f
  nc_block_usage :: 'f
  nc_bytes_written :: 'f
  nc_bytes_churned :: 'f

record 'f cost_model =
  cm_default :: synthetic_cost
  cm_add :: "synthetic_cost \<Rightarrow> synthetic_cost \<Rightarrow> synthetic_cost"
  cm_normalize :: "synthetic_cost \<Rightarrow> synthetic_cost \<Rightarrow> 'f normalized_cost option"

definition clamp :: "synthetic_cost \<Rightarrow> synthetic_cost \<Rightarrow> synthetic_cost" where
  "clamp cost limits =
     \<lparr>sc_read_time = min (sc_read_time cost) (sc_read_time limits),
      sc_compute_time = min (sc_compute_time cost) (sc_compute_time limits),
      sc_block_usage = min (sc_block_usage cost) (sc_block_usage limits),
      sc_bytes_written = min (sc_bytes_written cost) (sc_bytes_written limits),
      sc_bytes_churned = min (sc_bytes_churned cost) (sc_bytes_churned limits)\<rparr>"

definition clamp_and_normalize ::
  "'f cost_model \<Rightarrow> synthetic_cost \<Rightarrow> synthetic_cost \<Rightarrow> 'e lederr + 'f normalized_cost" where
  "clamp_and_normalize cm cost limits =
     expect_some ''clamped cost normalises'' (cm_normalize cm (clamp cost limits) limits)"

definition overall_fullness :: "'f::linorder normalized_cost \<Rightarrow> 'f" where
  "overall_fullness n =
     max (max (max (nc_read_time n) (nc_compute_time n)) (nc_block_usage n))
         (max (nc_bytes_written n) (nc_bytes_churned n))"

section \<open>Values of the ledger crates\<close>

text \<open>
  Hashes, keys and field elements are their bytes, times are seconds. An intent is given by its hash
  in each segment and its outputs and inputs; a standard transaction by \<^verbatim>\<open>segments()\<close> and \<^verbatim>\<open>intents\<close>.
\<close>

record utxo_output =
  ou_value :: u128
  ou_owner :: bytes
  ou_type :: bytes

record utxo_spend =
  us_value :: u128
  us_owner :: bytes
  us_type :: bytes
  us_intent_hash :: bytes
  us_output_no :: u32

record intent =
  in_intent_hash :: "u16 \<Rightarrow> bytes"
  in_guaranteed_outputs :: "utxo_output list"
  in_fallible_outputs :: "utxo_output list"
  in_guaranteed_inputs :: "utxo_spend list"
  in_fallible_inputs :: "utxo_spend list"

record standard_tx =
  sx_segments :: "u16 list"
  sx_intents :: "(u16 \<times> intent) list"

datatype claim_kind = Reward | CardanoBridge

record claim =
  cl_owner :: bytes
  cl_value :: u128
  cl_nonce :: bytes
  cl_kind :: claim_kind

datatype regular_tx = StandardTx standard_tx | ClaimRewardsTx claim

record output_instruction =
  oi_amount :: u128
  oi_target_address :: bytes
  oi_nonce :: bytes

datatype 'y system_tx = PayFromTreasuryUnshielded "output_instruction list" bytes | OtherSystemTx 'y

text \<open>A key of the ledger's map of unshielded UTXOs, \<^verbatim>\<open>Utxo\<close>.\<close>

record ledger_utxo_key =
  uk_value :: u128
  uk_owner :: bytes
  uk_type :: bytes
  uk_intent_hash :: bytes
  uk_output_no :: u32

record dust_output =
  do_initial_value :: u128
  do_owner :: bytes
  do_nonce :: bytes
  do_seq :: u32
  do_ctime :: u64
  do_backing_night :: bytes
  do_mt_index :: u64

record generation_info =
  gi_value :: u128
  gi_owner :: bytes
  gi_nonce :: bytes
  gi_dtime :: u64

text \<open>A path into the generation tree: whether each entry goes left, from the leaf upwards.\<close>

record insertion_path =
  ip_leaf :: generation_info
  ip_goes_left :: "bool list"

datatype event_details =
    EvZswapInput bytes
  | EvZswapOutput
  | EvContractDeploy
  | EvContractLog bytes bytes versioned_log_item
  | EvParamChange
  | EvDustInitialUtxo dust_output generation_info u64
  | EvDustGenerationDtimeUpdate insertion_path
  | EvDustSpendProcessed bytes bytes
  | EvOther string

text \<open>What applying a transaction reports: the events, and per segment whether it succeeded.\<close>

datatype ('v, 'x) applied =
    AppliedSuccess "'v list"
  | AppliedPartial "(u16 \<times> ('x + unit)) list" "'v list"
  | AppliedFailure 'x

record 's tx_context =
  cx_ref_state :: 's
  cx_tblock :: u64
  cx_tblock_err :: u32
  cx_parent_block_hash :: bytes
  cx_last_block_time :: u64

section \<open>The operations of a ledger crate\<close>

text \<open>
  The storage arena behind a ledger state: \<open>'s\<close> is the ledger state, \<open>'k\<close> a typed arena key, \<open>'g\<close> the
  ledger database and \<open>'e\<close> an error.
\<close>

record ('s, 'k, 'g, 'e) arena =
  ar_typed_key :: "'s \<Rightarrow> 'k"
  ar_serialize_key :: "'k \<Rightarrow> 'e + bytes"
  ar_deserialize_key :: "bytes \<Rightarrow> 'e + 'k"
  ar_key_hash :: "'k \<Rightarrow> bytes"
  ar_get_lazy :: "'k \<Rightarrow> 'g \<Rightarrow> 'e + 's"
  ar_persist :: "'s \<Rightarrow> 'g \<Rightarrow> 'g"

text \<open>
  The Merkle trees of a state: \<open>'m\<close> is a tree, \<open>'d\<close> its digest, \<open>'u\<close> a collapsed update and \<open>'z\<close> a zswap
  state.
\<close>

record ('s, 'm, 'd, 'u, 'z, 'e) trees =
  tr_zswap_first_free :: "'s \<Rightarrow> u64"
  tr_commitments_first_free :: "'s \<Rightarrow> u64"
  tr_generating_tree_first_free :: "'s \<Rightarrow> u64"
  tr_coin_coms :: "'s \<Rightarrow> 'm"
  tr_commitments :: "'s \<Rightarrow> 'm"
  tr_generating_tree :: "'s \<Rightarrow> 'm"
  tr_rehash :: "'m \<Rightarrow> 'm"
  tr_root :: "'m \<Rightarrow> 'd option"
  tr_serialize_digest :: "'d \<Rightarrow> 'e + bytes"
  tr_deserialize_digest :: "bytes \<Rightarrow> 'e + 'd"
  tr_collapsed_update :: "'m \<Rightarrow> u64 \<Rightarrow> u64 \<Rightarrow> 'e + 'u"
  tr_serialize_update :: "'u \<Rightarrow> 'e + bytes"
  tr_deserialize_address :: "bytes \<Rightarrow> 'e + bytes"
  tr_zswap_new :: 'z
  tr_zswap_filter :: "'s \<Rightarrow> bytes list \<Rightarrow> 'm"
  tr_set_coin_coms :: "'m \<Rightarrow> 'z \<Rightarrow> 'z"
  tr_serialize_zswap :: "'z \<Rightarrow> 'e + bytes"

text \<open>
  The ledger itself: \<open>'p\<close> is its parameters, \<open>'t\<close> a verified transaction, \<open>'v\<close> an event, \<open>'y\<close> the
  system transactions without unshielded outputs and \<open>'f\<close> a fixed point number. \<open>cr_well_formed\<close> takes
  \<^verbatim>\<open>enforce_balancing\<close>, the one setting of the strictness that is not the default.
\<close>

record ('s, 'p, 't, 'v, 'y, 'f, 'e) crate =
  cr_new :: "string \<Rightarrow> 's"
  cr_deserialize_state :: "bytes \<Rightarrow> 'e + 's"
  cr_parameters :: "'s \<Rightarrow> 'p"
  cr_serialize_parameters :: "'p \<Rightarrow> 'e + bytes"
  cr_block_limits :: "'p \<Rightarrow> synthetic_cost"
  cr_bridge_receiving :: "'s \<Rightarrow> bytes \<Rightarrow> u128 option"
  cr_deserialize_transaction :: "bytes \<Rightarrow> 'e + regular_tx"
  cr_deserialize_system :: "bytes \<Rightarrow> 'e + 'y system_tx"
  cr_cost :: "regular_tx \<Rightarrow> 'p \<Rightarrow> bool \<Rightarrow> 'e + synthetic_cost"
  cr_fees :: "regular_tx \<Rightarrow> 'p \<Rightarrow> bool \<Rightarrow> 'e + u128"
  cr_cost_with_state :: "regular_tx \<Rightarrow> 'p \<Rightarrow> 's \<Rightarrow> bool \<Rightarrow> 'e + synthetic_cost"
  cr_block_limit_exceeded :: 'e
  cr_overall_cost :: "'p \<Rightarrow> 'f normalized_cost \<Rightarrow> u128"
  cr_well_formed :: "regular_tx \<Rightarrow> 's \<Rightarrow> bool \<Rightarrow> u64 \<Rightarrow> 'e + 't"
  cr_apply :: "'s \<Rightarrow> 't \<Rightarrow> 's tx_context \<Rightarrow> 's \<times> ('v, 'e) applied"
  cr_system_cost :: "'y system_tx \<Rightarrow> 'p \<Rightarrow> synthetic_cost"
  cr_apply_system :: "'s \<Rightarrow> 'y system_tx \<Rightarrow> u64 \<Rightarrow> 'e + 's \<times> 'v list"
  cr_post_block_update :: "'s \<Rightarrow> u64 \<Rightarrow> 'f normalized_cost \<Rightarrow> 'f \<Rightarrow> 'e + 's"
  cr_content :: "'v \<Rightarrow> event_details"
  cr_serialize_event :: "'v \<Rightarrow> 'e + bytes"
  cr_serialize_dust_key :: "bytes \<Rightarrow> 'e + bytes"
  cr_serialize_path :: "insertion_path \<Rightarrow> 'e + bytes"
  cr_user_address :: "bytes \<Rightarrow> bytes"
  cr_mk_intent_hash :: "output_instruction \<Rightarrow> bytes \<Rightarrow> bytes"
  cr_persistent_commit :: "u32 \<Rightarrow> bytes \<Rightarrow> bytes"
  cr_night_indices :: "'s \<Rightarrow> bytes \<Rightarrow> bool"
  cr_utxo_ctime :: "'s \<Rightarrow> ledger_utxo_key \<Rightarrow> u64 option"

text \<open>The token type of NIGHT is all zeros, \<^verbatim>\<open>UnshieldedTokenType::default()\<close>.\<close>

definition NIGHT :: bytes where
  "NIGHT = byte_array_default 32"

definition OUTPUT_INDEX_ZERO :: u32 where
  "OUTPUT_INDEX_ZERO = 0"

text \<open>\<^verbatim>\<open>timestamp\<close>: the node's milliseconds as the ledger's seconds.\<close>

definition timestamp :: "u64 \<Rightarrow> u64" where
  "timestamp block_timestamp = block_timestamp div 1000"

section \<open>Ledger events\<close>

definition make_dust_initial_utxo ::
  "ledger_version \<Rightarrow> ('s, 'p, 't, 'v, 'y, 'f, 'e) crate \<Rightarrow> dust_output \<Rightarrow> generation_info \<Rightarrow> u64 \<Rightarrow> bytes
     \<Rightarrow> 'e lederr + ledger_event" where
  "make_dust_initial_utxo ver cr output generation generation_index raw =
     and_then (map_err (Serialize (versioned ''DustPublicKey'' ver)) (cr_serialize_dust_key cr (do_owner output)))
       (\<lambda>owner.
     let qualified_output =
           \<lparr>qdo_initial_value = do_initial_value output, qdo_owner = owner, qdo_nonce = do_nonce output,
            qdo_seq = do_seq output, qdo_ctime = do_ctime output,
            qdo_backing_night = do_backing_night output, qdo_mt_index = do_mt_index output\<rparr>
     in and_then (map_err (Serialize (versioned ''DustPublicKey'' ver))
            (cr_serialize_dust_key cr (gi_owner generation))) (\<lambda>owner.
        let generation_info =
              \<lparr>dgi_night_utxo_hash = do_backing_night output, dgi_value = gi_value generation,
               dgi_owner = owner, dgi_nonce = gi_nonce generation, dgi_ctime = do_ctime output,
               dgi_dtime = gi_dtime generation\<rparr>
        in Inr (dust_initial_utxo raw qualified_output generation_info generation_index)))"

text \<open>
  The fold over \<^verbatim>\<open>path.iter().rev().enumerate()\<close> that builds a leaf's index. \<^verbatim>\<open>1u64 << depth\<close> with a depth
  of 64 or more panics in debug builds and shifts by the depth modulo 64 in release builds, which is
  what is modelled.
\<close>

definition mt_index_step :: "u64 \<Rightarrow> nat \<times> bool \<Rightarrow> u64" where
  "mt_index_step mt_index entry =
     (let (depth, goes_left) = entry in
      if \<not> goes_left then mt_index OR push_bit (depth mod 64) 1 else mt_index)"

definition mt_index_of :: "bool list \<Rightarrow> u64" where
  "mt_index_of path = foldl mt_index_step 0 (List.enumerate 0 (rev path))"

definition make_dust_generation_dtime_update ::
  "ledger_version \<Rightarrow> ('s, 'p, 't, 'v, 'y, 'f, 'e) crate \<Rightarrow> insertion_path \<Rightarrow> bytes
     \<Rightarrow> 'e lederr + ledger_event" where
  "make_dust_generation_dtime_update ver cr update raw =
     (let generation = ip_leaf update in
      and_then (map_err (Serialize (versioned ''DustPublicKey'' ver))
          (cr_serialize_dust_key cr (gi_owner generation))) (\<lambda>owner.
      let generation_info =
            \<lparr>dgi_night_utxo_hash = gi_nonce generation, dgi_value = gi_value generation,
             dgi_owner = owner, dgi_nonce = gi_nonce generation, dgi_ctime = 0,
             dgi_dtime = gi_dtime generation\<rparr>;
          mt_index = mt_index_of (ip_goes_left update)
      in and_then (map_err (Serialize (versioned ''TreeInsertionPath<DustGenerationInfo'' ver @ ''>''))
             (cr_serialize_path cr update)) (\<lambda>tree_insertion_path.
         Inr (dust_generation_dtime_update raw generation_info mt_index tree_insertion_path))))"

text \<open>
  The closure of \<^verbatim>\<open>filter_map_ok\<close>: \<open>None\<close> skips the event. The arms the two versions share come first;
  a contract log is skipped for ledger 8 and decoded for ledger 9.
\<close>

definition make_common_event ::
  "ledger_version \<Rightarrow> ('s, 'p, 't, 'v, 'y, 'f, 'e) crate \<Rightarrow> event_details \<Rightarrow> bytes
     \<Rightarrow> ('e lederr + ledger_event) option" where
  "make_common_event ver cr content raw =
     (case content of
        EvZswapInput nullifier \<Rightarrow> Some (Inr (zswap_input raw nullifier))
      | EvZswapOutput \<Rightarrow> Some (Inr (zswap_output raw))
      | EvContractDeploy \<Rightarrow> None
      | EvContractLog _ _ _ \<Rightarrow> None
      | EvParamChange \<Rightarrow> Some (Inr (param_change raw))
      | EvDustInitialUtxo output generation generation_index \<Rightarrow>
          Some (make_dust_initial_utxo ver cr output generation generation_index raw)
      | EvDustGenerationDtimeUpdate update \<Rightarrow> Some (make_dust_generation_dtime_update ver cr update raw)
      | EvDustSpendProcessed nullifier commitment \<Rightarrow>
          Some (Inr (dust_spend_processed raw nullifier commitment))
      | EvOther other \<Rightarrow> Some (Inl (UnsupportedEventVariant other)))"

definition make_ledger_event_v8 ::
  "('s, 'p, 't, 'v, 'y, 'f, 'e) crate \<Rightarrow> event_details \<Rightarrow> bytes \<Rightarrow> ('e lederr + ledger_event) option" where
  "make_ledger_event_v8 cr content raw = make_common_event LV8 cr content raw"

definition make_ledger_event_v9 ::
  "('s, 'p, 't, 'v, 'y, 'f, 'e) crate \<Rightarrow> event_details \<Rightarrow> bytes \<Rightarrow> ('e lederr + ledger_event) option" where
  "make_ledger_event_v9 cr content raw =
     (case content of
        EvContractLog address entry_point logged_item \<Rightarrow>
          Some (Inr (contract_event raw address None (make_contract_event_attributes logged_item entry_point)))
      | _ \<Rightarrow> make_common_event LV9 cr content raw)"

text \<open>
  The iterator chain. \<open>filter_map_ok\<close> is itertools': \<^verbatim>\<open>Err\<close> items pass, \<^verbatim>\<open>Ok\<close> items are mapped and
  skipped where the closure returns \<^verbatim>\<open>None\<close>. Its items are results of results, and \<^verbatim>\<open>flatten\<close> is
  \<^verbatim>\<open>Iterator::flatten\<close> on items of type \<^verbatim>\<open>Result\<close>, which iterate over their \<^verbatim>\<open>Ok\<close> value only.
\<close>

fun filter_map_ok :: "('a \<Rightarrow> 'b option) \<Rightarrow> ('e + 'a) list \<Rightarrow> ('e + 'b) list" where
  "filter_map_ok f [] = []"
| "filter_map_ok f (Inl e # xs) = Inl e # filter_map_ok f xs"
| "filter_map_ok f (Inr a # xs) =
     (case f a of None \<Rightarrow> filter_map_ok f xs | Some b \<Rightarrow> Inr b # filter_map_ok f xs)"

fun flatten_results :: "('e + 'a) list \<Rightarrow> 'a list" where
  "flatten_results [] = []"
| "flatten_results (Inl _ # xs) = flatten_results xs"
| "flatten_results (Inr a # xs) = a # flatten_results xs"

definition make_ledger_events ::
  "ledger_version \<Rightarrow> ('s, 'p, 't, 'v, 'y, 'f, 'e) crate \<Rightarrow> (event_details \<Rightarrow> bytes \<Rightarrow> ('e lederr + ledger_event) option)
     \<Rightarrow> 'v list \<Rightarrow> 'e lederr + ledger_event list" where
  "make_ledger_events ver cr convert events =
     (let serialized = map (\<lambda>event. and_then (map_err (Serialize (versioned ''Event'' ver))
              (cr_serialize_event cr event)) (\<lambda>raw. Inr (event, raw))) events;
          made = filter_map_ok (\<lambda>(event, raw). convert (cr_content cr event) raw) serialized
      in try_map (\<lambda>r. r) (flatten_results made))"

definition make_ledger_events_v8 ::
  "('s, 'p, 't, 'v, 'y, 'f, 'e) crate \<Rightarrow> 'v list \<Rightarrow> 'e lederr + ledger_event list" where
  "make_ledger_events_v8 cr events = make_ledger_events LV8 cr (make_ledger_event_v8 cr) events"

definition make_ledger_events_v9 ::
  "('s, 'p, 't, 'v, 'y, 'f, 'e) crate \<Rightarrow> 'v list \<Rightarrow> 'e lederr + ledger_event list" where
  "make_ledger_events_v9 cr events = make_ledger_events LV9 cr (make_ledger_event_v9 cr) events"

section \<open>Unshielded UTXOs\<close>

definition make_initial_nonce :: "('s, 'p, 't, 'v, 'y, 'f, 'e) crate \<Rightarrow> u32 \<Rightarrow> bytes \<Rightarrow> bytes" where
  "make_initial_nonce cr output_index intent_hash = cr_persistent_commit cr output_index intent_hash"

definition registered_for_dust_generation ::
  "('s, 'p, 't, 'v, 'y, 'f, 'e) crate \<Rightarrow> u32 \<Rightarrow> bytes \<Rightarrow> 's \<Rightarrow> bool" where
  "registered_for_dust_generation cr output_index intent_hash ledger_state =
     cr_night_indices cr ledger_state (cr_persistent_commit cr output_index intent_hash)"

definition ctime :: "('s, 'p, 't, 'v, 'y, 'f, 'e) crate \<Rightarrow> ledger_utxo_key \<Rightarrow> 's \<Rightarrow> u64 option" where
  "ctime cr utxo ledger_state = cr_utxo_ctime cr ledger_state utxo"

text \<open>The UTXO each of the four places in the code builds from its value, owner, type, hash and index.\<close>

definition utxo_of ::
  "('s, 'p, 't, 'v, 'y, 'f, 'e) crate \<Rightarrow> 's \<Rightarrow> u128 \<Rightarrow> bytes \<Rightarrow> bytes \<Rightarrow> bytes \<Rightarrow> u32 \<Rightarrow> unshielded_utxo" where
  "utxo_of cr ledger_state val owner ty intent_hash output_index =
     \<lparr>utxo_owner = owner, utxo_token_type = ty, utxo_value = val, utxo_intent_hash = intent_hash,
      utxo_output_index = output_index,
      utxo_ctime = ctime cr \<lparr>uk_value = val, uk_owner = owner, uk_type = ty, uk_intent_hash = intent_hash,
          uk_output_no = output_index\<rparr> ledger_state,
      utxo_initial_nonce = make_initial_nonce cr output_index intent_hash,
      utxo_registered_for_dust_generation =
        registered_for_dust_generation cr output_index intent_hash ledger_state\<rparr>"

definition extend_unshielded_utxos ::
  "('s, 'p, 't, 'v, 'y, 'f, 'e) crate \<Rightarrow> unshielded_utxo list \<times> unshielded_utxo list \<Rightarrow> u16 \<Rightarrow> intent \<Rightarrow> bool \<Rightarrow> 's
     \<Rightarrow> unshielded_utxo list \<times> unshielded_utxo list" where
  "extend_unshielded_utxos cr acc segment_id intent guaranteed ledger_state =
     (let (outputs, inputs) = acc;
          intent_hash = in_intent_hash intent segment_id;
          intent_outputs = (if guaranteed then in_guaranteed_outputs intent else in_fallible_outputs intent);
          intent_inputs = (if guaranteed then in_guaranteed_inputs intent else in_fallible_inputs intent)
      in (outputs @ map (\<lambda>(output_index, output).
              utxo_of cr ledger_state (ou_value output) (ou_owner output) (ou_type output) intent_hash
                (of_nat output_index))
            (List.enumerate 0 intent_outputs),
          inputs @ map (\<lambda>spend.
              utxo_of cr ledger_state (us_value spend) (cr_user_address cr (us_owner spend)) (us_type spend)
                (us_intent_hash spend) (us_output_no spend))
            intent_inputs))"

text \<open>The segments that succeeded, from the transaction's own result.\<close>

fun successful_segments :: "u16 list \<Rightarrow> transaction_result \<Rightarrow> u16 list" where
  "successful_segments segments Success = segments"
| "successful_segments _ (PartialSuccess results) = map fst [r \<leftarrow> results. snd r]"
| "successful_segments _ Failure = []"

definition extend_segment ::
  "('s, 'p, 't, 'v, 'y, 'f, 'e) crate \<Rightarrow> standard_tx \<Rightarrow> transaction_result \<Rightarrow> 's
     \<Rightarrow> unshielded_utxo list \<times> unshielded_utxo list \<Rightarrow> u16 \<Rightarrow> unshielded_utxo list \<times> unshielded_utxo list" where
  "extend_segment cr tx result ledger_state acc segment =
     (if segment = 0 then
        foldl (\<lambda>acc intent. extend_unshielded_utxos cr acc segment intent True ledger_state) acc
          (map snd (sx_intents tx))
      else (case map_of (sx_intents tx) segment of
              None \<Rightarrow> acc
            | Some intent \<Rightarrow>
                if segment \<in> set (successful_segments (sx_segments tx) result)
                then extend_unshielded_utxos cr acc segment intent False ledger_state else acc))"

definition make_unshielded_utxos_for_regular_transaction ::
  "('s, 'p, 't, 'v, 'y, 'f, 'e) crate \<Rightarrow> regular_tx \<Rightarrow> transaction_result \<Rightarrow> 's
     \<Rightarrow> unshielded_utxo list \<times> unshielded_utxo list" where
  "make_unshielded_utxos_for_regular_transaction cr transaction result ledger_state =
     (if result = Failure then ([], [])
      else case transaction of
        StandardTx tx \<Rightarrow> foldl (extend_segment cr tx result ledger_state) ([], []) (sx_segments tx)
      | ClaimRewardsTx claim \<Rightarrow>
          let owner = cr_user_address cr (cl_owner claim);
              intent_hash = cr_mk_intent_hash cr
                \<lparr>oi_amount = cl_value claim, oi_target_address = owner, oi_nonce = cl_nonce claim\<rparr> NIGHT
          in ([utxo_of cr ledger_state (cl_value claim) owner NIGHT intent_hash OUTPUT_INDEX_ZERO], []))"

definition make_unshielded_utxos_for_system_transaction ::
  "('s, 'p, 't, 'v, 'y, 'f, 'e) crate \<Rightarrow> 'y system_tx \<Rightarrow> 's \<Rightarrow> unshielded_utxo list" where
  "make_unshielded_utxos_for_system_transaction cr transaction ledger_state =
     (case transaction of
        PayFromTreasuryUnshielded outputs token_type \<Rightarrow>
          map (\<lambda>(index, output).
              utxo_of cr ledger_state (oi_amount output) (oi_target_address output) token_type
                (cr_mk_intent_hash cr output token_type) (of_nat index))
            (List.enumerate 0 outputs)
      | OtherSystemTx _ \<Rightarrow> [])"

end
