(* ===== verification/Ledger_State.thy ===== *)
theory Ledger_State
  imports Ledger_Crates
begin

text \<open>
  The ledger state the indexers keep, \<^verbatim>\<open>LedgerState\<close> of
  \<^verbatim>\<open>indexer-common/src/domain/ledger/ledger_state.rs\<close>: a state of ledger 8 or of ledger 9 together with
  the cost of the block so far, and its operations: creating, loading, persisting and translating it,
  applying regular and system transactions, finalizing a block, its Merkle trees. At the end they are
  put together as the \<open>ledger_env\<close> the chain indexer is given.
\<close>

section \<open>The state and its facades\<close>

datatype 's ledger_state = StateV8 's synthetic_cost | StateV9 's synthetic_cost

datatype 'p ledger_parameters = ParametersV8 'p | ParametersV9 'p

datatype 'd zswap_root = RootV8 'd | RootV9 'd

fun ledger_version_of :: "'s ledger_state \<Rightarrow> ledger_version" where
  "ledger_version_of (StateV8 _ _) = LV8"
| "ledger_version_of (StateV9 _ _) = LV9"

fun inner_state :: "'s ledger_state \<Rightarrow> 's" where
  "inner_state (StateV8 s _) = s"
| "inner_state (StateV9 s _) = s"

fun block_fullness :: "'s ledger_state \<Rightarrow> synthetic_cost" where
  "block_fullness (StateV8 _ f) = f"
| "block_fullness (StateV9 _ f) = f"

text \<open>The crates of both versions; a function of the version chooses the crate a match arm names.\<close>

type_synonym ('s, 'p, 't, 'v, 'y, 'f, 'e) crates = "ledger_version \<Rightarrow> ('s, 'p, 't, 'v, 'y, 'f, 'e) crate"
type_synonym ('s, 'm, 'd, 'u, 'z, 'e) treess = "ledger_version \<Rightarrow> ('s, 'm, 'd, 'u, 'z, 'e) trees"
type_synonym ('s, 'k, 'g, 'e) arenas = "ledger_version \<Rightarrow> ('s, 'k, 'g, 'e) arena"

definition state_new ::
  "'f cost_model \<Rightarrow> ('s, 'p, 't, 'v, 'y, 'f, 'e) crates \<Rightarrow> string \<Rightarrow> ledger_version \<Rightarrow> 'e lederr + 's ledger_state" where
  "state_new cm cr network_id ver =
     Inr (case ver of
            LV8 \<Rightarrow> StateV8 (cr_new (cr LV8) network_id) (cm_default cm)
          | LV9 \<Rightarrow> StateV9 (cr_new (cr LV9) network_id) (cm_default cm))"

definition from_genesis ::
  "'f cost_model \<Rightarrow> ('s, 'p, 't, 'v, 'y, 'f, 'e) crates \<Rightarrow> bytes \<Rightarrow> ledger_version \<Rightarrow> 'e lederr + 's ledger_state" where
  "from_genesis cm cr raw ver =
     (case ver of
        LV8 \<Rightarrow> and_then (map_err (Deserialize ''GenesisLedgerStateV8'') (cr_deserialize_state (cr LV8) raw))
                 (\<lambda>s. Inr (StateV8 s (cm_default cm)))
      | LV9 \<Rightarrow> and_then (map_err (Deserialize ''GenesisLedgerStateV9'') (cr_deserialize_state (cr LV9) raw))
                 (\<lambda>s. Inr (StateV9 s (cm_default cm))))"

fun ledger_parameters_of :: "('s, 'p, 't, 'v, 'y, 'f, 'e) crates \<Rightarrow> 's ledger_state \<Rightarrow> 'p ledger_parameters" where
  "ledger_parameters_of cr (StateV8 s _) = ParametersV8 (cr_parameters (cr LV8) s)"
| "ledger_parameters_of cr (StateV9 s _) = ParametersV9 (cr_parameters (cr LV9) s)"

fun serialize_parameters :: "('s, 'p, 't, 'v, 'y, 'f, 'e) crates \<Rightarrow> 'p ledger_parameters \<Rightarrow> 'e lederr + bytes" where
  "serialize_parameters cr (ParametersV8 p) =
     map_err (Serialize ''SerializedLedgerParametersV8'') (cr_serialize_parameters (cr LV8) p)"
| "serialize_parameters cr (ParametersV9 p) =
     map_err (Serialize ''SerializedLedgerParametersV9'') (cr_serialize_parameters (cr LV9) p)"

fun bridge_receiving :: "('s, 'p, 't, 'v, 'y, 'f, 'e) crates \<Rightarrow> 's ledger_state \<Rightarrow> bytes \<Rightarrow> u128" where
  "bridge_receiving cr (StateV8 _ _) address = 0"
| "bridge_receiving cr (StateV9 s _) address =
     (case cr_bridge_receiving (cr LV9) s address of None \<Rightarrow> 0 | Some amount \<Rightarrow> amount)"

section \<open>The ledger database\<close>

text \<open>\<^verbatim>\<open>default_storage\<close>'s backend as far as this file calls it.\<close>

record 'g storage_db =
  sd_flush :: "'g \<Rightarrow> 'g"
  sd_unpersist :: "bytes \<Rightarrow> 'g \<Rightarrow> 'g"
  sd_contains :: "bytes \<Rightarrow> 'g \<Rightarrow> bool"
  sd_roots :: "'g \<Rightarrow> (bytes \<times> u32) list"
  sd_gc :: "nat \<Rightarrow> 'g \<Rightarrow> nat \<times> 'g"

definition arena_key :: "('s, 'k, 'g, 'e) arenas \<Rightarrow> bytes \<Rightarrow> ledger_version \<Rightarrow> 'e lederr + 'k" where
  "arena_key ar key ver =
     map_err (Deserialize (versioned ''TypedArenaKey'' ver)) (ar_deserialize_key (ar ver) key)"

definition load ::
  "'f cost_model \<Rightarrow> ('s, 'k, 'g, 'e) arenas \<Rightarrow> bytes \<Rightarrow> ledger_version \<Rightarrow> 'g \<Rightarrow> 'e lederr + 's ledger_state" where
  "load cm ar key ver g =
     and_then (arena_key ar key ver) (\<lambda>arena_key.
     and_then (map_err (LoadLedgerState key) (ar_get_lazy (ar ver) arena_key g)) (\<lambda>s.
     Inr (case ver of LV8 \<Rightarrow> StateV8 s (cm_default cm) | LV9 \<Rightarrow> StateV9 s (cm_default cm))))"

definition translate ::
  "('s \<Rightarrow> 'e + 's) \<Rightarrow> 's ledger_state \<Rightarrow> ledger_version \<Rightarrow> 'e lederr + 's ledger_state" where
  "translate translate_ledger_state st ver =
     (case (st, ver) of
        (StateV8 _ _, LV8) \<Rightarrow> Inr st
      | (StateV9 _ _, LV9) \<Rightarrow> Inr st
      | (StateV8 s f, LV9) \<Rightarrow>
          and_then (map_err (LedgerStateTranslation LV8 LV9) (translate_ledger_state s))
            (\<lambda>s'. Inr (StateV9 s' f))
      | (StateV9 _ _, LV8) \<Rightarrow> Inl (BackwardsLedgerStateTranslation LV9 LV8))"

text \<open>\<^verbatim>\<open>root\<close> allocates the state in the arena's memory only and serializes its key.\<close>

definition root :: "('s, 'k, 'g, 'e) arenas \<Rightarrow> 's ledger_state \<Rightarrow> 'e lederr + bytes" where
  "root ar st =
     (let ver = ledger_version_of st in
      map_err (Serialize (versioned ''LedgerState'' ver))
        (ar_serialize_key (ar ver) (ar_typed_key (ar ver) (inner_state st))))"

text \<open>\<^verbatim>\<open>persist\<close>: the database has the new root even when the key cannot be serialized.\<close>

definition persist ::
  "('s, 'k, 'g, 'e) arenas \<Rightarrow> 'g storage_db \<Rightarrow> 's ledger_state \<Rightarrow> 'g \<Rightarrow> ('e lederr + 's ledger_state \<times> bytes) \<times> 'g" where
  "persist ar sd st g =
     (let ver = ledger_version_of st; s = inner_state st;
          g = sd_flush sd (ar_persist (ar ver) s g)
      in (and_then (map_err (Serialize (versioned ''TypedArenaKey'' ver))
              (ar_serialize_key (ar ver) (ar_typed_key (ar ver) s))) (\<lambda>key. Inr (st, key)), g))"

definition arena_root_hash :: "('s, 'k, 'g, 'e) arenas \<Rightarrow> bytes \<Rightarrow> ledger_version \<Rightarrow> 'e lederr + bytes" where
  "arena_root_hash ar key ver = map_ok (ar_key_hash (ar ver)) (arena_key ar key ver)"

definition unpersist ::
  "('s, 'k, 'g, 'e) arenas \<Rightarrow> 'g storage_db \<Rightarrow> bytes \<Rightarrow> ledger_version \<Rightarrow> 'g \<Rightarrow> 'e lederr + 'g" where
  "unpersist ar sd key ver g = map_ok (\<lambda>hash. sd_unpersist sd hash g) (arena_root_hash ar key ver)"

definition root_hash_bytes :: "('s, 'k, 'g, 'e) arenas \<Rightarrow> bytes \<Rightarrow> ledger_version \<Rightarrow> 'e lederr + bytes" where
  "root_hash_bytes ar key ver = arena_root_hash ar key ver"

definition root_loadable ::
  "('s, 'k, 'g, 'e) arenas \<Rightarrow> 'g storage_db \<Rightarrow> bytes \<Rightarrow> ledger_version \<Rightarrow> 'g \<Rightarrow> 'e lederr + bool" where
  "root_loadable ar sd key ver g = map_ok (\<lambda>hash. sd_contains sd hash g) (arena_root_hash ar key ver)"

definition persisted_root_hashes :: "'g storage_db \<Rightarrow> 'g \<Rightarrow> bytes set" where
  "persisted_root_hashes sd g = set (map fst (sd_roots sd g))"

definition state_gc :: "'g storage_db \<Rightarrow> nat \<Rightarrow> 'g \<Rightarrow> nat \<times> 'g" where
  "state_gc sd bound g = sd_gc sd bound g"

section \<open>Applying transactions\<close>

text \<open>The result reported to the indexer, the events and whether the cost counts.\<close>

fun outcome_of :: "('v, 'x) applied \<Rightarrow> transaction_result \<times> 'v list \<times> bool" where
  "outcome_of (AppliedSuccess events) = (Success, events, True)"
| "outcome_of (AppliedPartial segments events) =
     (PartialSuccess (map (\<lambda>(seg, result). (seg, is_ok result)) segments), events, True)"
| "outcome_of (AppliedFailure _) = (Failure, [], False)"

definition make_context :: "'s \<Rightarrow> bytes \<Rightarrow> u64 \<Rightarrow> u64 \<Rightarrow> 's tx_context" where
  "make_context ledger_state parent_block_hash block_timestamp parent_block_timestamp =
     \<lparr>cx_ref_state = ledger_state, cx_tblock = timestamp block_timestamp, cx_tblock_err = 30,
      cx_parent_block_hash = parent_block_hash, cx_last_block_time = timestamp parent_block_timestamp\<rparr>"

definition add_cost :: "'f cost_model \<Rightarrow> bool \<Rightarrow> synthetic_cost \<Rightarrow> synthetic_cost \<Rightarrow> synthetic_cost" where
  "add_cost cm should_count_cost fullness cost = (if should_count_cost then cm_add cm fullness cost else fullness)"

definition apply_regular_v8 ::
  "'f cost_model \<Rightarrow> ('s, 'p, 't, 'v, 'y, 'f, 'e) crate \<Rightarrow> 's \<Rightarrow> synthetic_cost \<Rightarrow> bytes \<Rightarrow> bytes \<Rightarrow> u64 \<Rightarrow> u64 \<Rightarrow> u64
     \<Rightarrow> 'e lederr + apply_regular_outcome \<times> 's ledger_state" where
  "apply_regular_v8 cm cr s fullness raw parent_hash ts parent_ts wf_ts =
     and_then (map_err (Deserialize ''LedgerTransactionV8'') (cr_deserialize_transaction cr raw)) (\<lambda>tx.
     let cx = make_context s parent_hash ts parent_ts in
     and_then (map_err TransactionCost (cr_cost cr tx (cr_parameters cr s) True)) (\<lambda>cost.
     and_then (map_err TransactionCost (cr_fees cr tx (cr_parameters cr s) True)) (\<lambda>fees.
     and_then (map_err MalformedTransaction
         (cr_well_formed cr tx (cx_ref_state cx) False (timestamp wf_ts))) (\<lambda>verified.
     let (s', applied) = cr_apply cr s verified cx;
         (result, events, should_count_cost) = outcome_of applied;
         fullness = add_cost cm should_count_cost fullness cost;
         (created, spent) = make_unshielded_utxos_for_regular_transaction cr tx result s'
     in and_then (make_ledger_events_v8 cr events) (\<lambda>ledger_events.
        Inr (\<lparr>ro_transaction_result = result, ro_created_unshielded_utxos = created,
              ro_spent_unshielded_utxos = spent, ro_ledger_events = ledger_events, ro_fees = fees,
              ro_bridge_claim = None\<rparr>,
             StateV8 s' fullness))))))"

text \<open>Ledger 9: the fees come from the cost with the state, the fullness from the cost without it.\<close>

definition fees_v9 ::
  "'f cost_model \<Rightarrow> ('s, 'p, 't, 'v, 'y, 'f, 'e) crate \<Rightarrow> 's \<Rightarrow> synthetic_cost \<Rightarrow> 'e lederr + u128" where
  "fees_v9 cm cr s cost =
     (case cm_normalize cm cost (cr_block_limits cr (cr_parameters cr s)) of
        None \<Rightarrow> Inl (TransactionCost (cr_block_limit_exceeded cr))
      | Some normalized \<Rightarrow> Inr (cr_overall_cost cr (cr_parameters cr s) normalized))"

fun bridge_claim_of :: "('s, 'p, 't, 'v, 'y, 'f, 'e) crate \<Rightarrow> regular_tx \<Rightarrow> bridge_claim option" where
  "bridge_claim_of cr (ClaimRewardsTx claim) =
     (if cl_kind claim = CardanoBridge
      then Some \<lparr>bc_recipient = cr_user_address cr (cl_owner claim), bc_amount = cl_value claim\<rparr> else None)"
| "bridge_claim_of cr (StandardTx _) = None"

definition apply_regular_v9 ::
  "'f cost_model \<Rightarrow> ('s, 'p, 't, 'v, 'y, 'f, 'e) crate \<Rightarrow> 's \<Rightarrow> synthetic_cost \<Rightarrow> bytes \<Rightarrow> bytes \<Rightarrow> u64 \<Rightarrow> u64 \<Rightarrow> u64
     \<Rightarrow> 'e lederr + apply_regular_outcome \<times> 's ledger_state" where
  "apply_regular_v9 cm cr s fullness raw parent_hash ts parent_ts wf_ts =
     and_then (map_err (Deserialize ''LedgerTransactionV9'') (cr_deserialize_transaction cr raw)) (\<lambda>tx.
     let cx = make_context s parent_hash ts parent_ts in
     and_then (map_err TransactionCost (cr_cost cr tx (cr_parameters cr s) True)) (\<lambda>fullness_cost.
     and_then (map_err TransactionCost (cr_cost_with_state cr tx (cr_parameters cr s) s True)) (\<lambda>cost.
     and_then (fees_v9 cm cr s cost) (\<lambda>fees.
     and_then (map_err MalformedTransaction
         (cr_well_formed cr tx (cx_ref_state cx) False (timestamp wf_ts))) (\<lambda>verified.
     let (s', applied) = cr_apply cr s verified cx;
         (result, events, should_count_cost) = outcome_of applied;
         fullness = add_cost cm should_count_cost fullness fullness_cost;
         bridge_claim = bridge_claim_of cr tx;
         (created, spent) = make_unshielded_utxos_for_regular_transaction cr tx result s'
     in and_then (make_ledger_events_v9 cr events) (\<lambda>ledger_events.
        Inr (\<lparr>ro_transaction_result = result, ro_created_unshielded_utxos = created,
              ro_spent_unshielded_utxos = spent, ro_ledger_events = ledger_events, ro_fees = fees,
              ro_bridge_claim = bridge_claim\<rparr>,
             StateV9 s' fullness)))))))"

definition state_apply_regular ::
  "'f cost_model \<Rightarrow> ('s, 'p, 't, 'v, 'y, 'f, 'e) crates \<Rightarrow> 's ledger_state \<Rightarrow> bytes \<Rightarrow> bytes \<Rightarrow> u64 \<Rightarrow> u64 \<Rightarrow> u64
     \<Rightarrow> 'e lederr + apply_regular_outcome \<times> 's ledger_state" where
  "state_apply_regular cm cr st raw parent_hash ts parent_ts wf_ts =
     (case st of
        StateV8 s fullness \<Rightarrow> apply_regular_v8 cm (cr LV8) s fullness raw parent_hash ts parent_ts wf_ts
      | StateV9 s fullness \<Rightarrow> apply_regular_v9 cm (cr LV9) s fullness raw parent_hash ts parent_ts wf_ts)"

definition apply_system ::
  "ledger_version \<Rightarrow> 'f cost_model \<Rightarrow> ('s, 'p, 't, 'v, 'y, 'f, 'e) crate \<Rightarrow> ('v list \<Rightarrow> 'e lederr + ledger_event list)
     \<Rightarrow> 's \<Rightarrow> synthetic_cost \<Rightarrow> bytes \<Rightarrow> u64 \<Rightarrow> 'e lederr + apply_system_outcome \<times> 's \<times> synthetic_cost" where
  "apply_system ver cm cr make_events s fullness raw ts =
     and_then (map_err (Deserialize (versioned ''SystemTransaction'' ver)) (cr_deserialize_system cr raw)) (\<lambda>tx.
     let cost = cr_system_cost cr tx (cr_parameters cr s) in
     and_then (map_err SystemTransaction (cr_apply_system cr s tx (timestamp ts))) (\<lambda>(s', events).
     let fullness = cm_add cm fullness cost;
         created = make_unshielded_utxos_for_system_transaction cr tx s'
     in and_then (make_events events) (\<lambda>ledger_events.
        Inr (\<lparr>so_created_unshielded_utxos = created, so_ledger_events = ledger_events\<rparr>, s', fullness))))"

definition state_apply_system ::
  "'f cost_model \<Rightarrow> ('s, 'p, 't, 'v, 'y, 'f, 'e) crates \<Rightarrow> 's ledger_state \<Rightarrow> bytes \<Rightarrow> u64
     \<Rightarrow> 'e lederr + apply_system_outcome \<times> 's ledger_state" where
  "state_apply_system cm cr st raw ts =
     (case st of
        StateV8 s fullness \<Rightarrow>
          map_ok (\<lambda>(out, s', f'). (out, StateV8 s' f'))
            (apply_system LV8 cm (cr LV8) (make_ledger_events_v8 (cr LV8)) s fullness raw ts)
      | StateV9 s fullness \<Rightarrow>
          map_ok (\<lambda>(out, s', f'). (out, StateV9 s' f'))
            (apply_system LV9 cm (cr LV9) (make_ledger_events_v9 (cr LV9)) s fullness raw ts))"

section \<open>Finalizing a block\<close>

definition finalize_state ::
  "'f::linorder cost_model \<Rightarrow> ('s, 'p, 't, 'v, 'y, 'f, 'e) crate \<Rightarrow> 's \<Rightarrow> synthetic_cost \<Rightarrow> u64 \<Rightarrow> 'e lederr + 's" where
  "finalize_state cm cr s fullness ts =
     (let block_limits = cr_block_limits cr (cr_parameters cr s) in
      and_then (clamp_and_normalize cm fullness block_limits) (\<lambda>normalized_fullness.
      map_err BlockLimitExceeded (cr_post_block_update cr s (timestamp ts) normalized_fullness
        (overall_fullness normalized_fullness))))"

definition finalize_apply_transactions ::
  "'f::linorder cost_model \<Rightarrow> ('s, 'p, 't, 'v, 'y, 'f, 'e) crates \<Rightarrow> 's ledger_state \<Rightarrow> u64
     \<Rightarrow> 'e lederr + 'p ledger_parameters \<times> 's ledger_state" where
  "finalize_apply_transactions cm cr st ts =
     (case st of
        StateV8 s fullness \<Rightarrow>
          and_then (finalize_state cm (cr LV8) s fullness ts) (\<lambda>s'.
          Inr (ParametersV8 (cr_parameters (cr LV8) s'), StateV8 s' (cm_default cm)))
      | StateV9 s fullness \<Rightarrow>
          and_then (finalize_state cm (cr LV9) s fullness ts) (\<lambda>s'.
          Inr (ParametersV9 (cr_parameters (cr LV9) s'), StateV9 s' (cm_default cm))))"

section \<open>Merkle trees\<close>

definition zswap_first_free :: "('s, 'm, 'd, 'u, 'z, 'e) treess \<Rightarrow> 's ledger_state \<Rightarrow> u64" where
  "zswap_first_free tr st = tr_zswap_first_free (tr (ledger_version_of st)) (inner_state st)"

definition dust_commitments_first_free :: "('s, 'm, 'd, 'u, 'z, 'e) treess \<Rightarrow> 's ledger_state \<Rightarrow> u64" where
  "dust_commitments_first_free tr st = tr_commitments_first_free (tr (ledger_version_of st)) (inner_state st)"

definition dust_generations_first_free :: "('s, 'm, 'd, 'u, 'z, 'e) treess \<Rightarrow> 's ledger_state \<Rightarrow> u64" where
  "dust_generations_first_free tr st = tr_generating_tree_first_free (tr (ledger_version_of st)) (inner_state st)"

definition zswap_merkle_tree_root ::
  "('s, 'm, 'd, 'u, 'z, 'e) treess \<Rightarrow> 's ledger_state \<Rightarrow> 'e lederr + 'd zswap_root" where
  "zswap_merkle_tree_root tr st =
     (let t = tr (ledger_version_of st) in
      and_then (expect_some ''zswap state Merkle tree root should exist''
          (tr_root t (tr_rehash t (tr_coin_coms t (inner_state st))))) (\<lambda>d.
      Inr (case st of StateV8 _ _ \<Rightarrow> RootV8 d | StateV9 _ _ \<Rightarrow> RootV9 d)))"

definition dust_root ::
  "('s \<Rightarrow> 'm) \<Rightarrow> string \<Rightarrow> string \<Rightarrow> ('s, 'm, 'd, 'u, 'z, 'e) trees \<Rightarrow> 's \<Rightarrow> 'e lederr + bytes" where
  "dust_root tree msg name t s =
     and_then (expect_some msg (tr_root t (tr_rehash t (tree s)))) (\<lambda>d.
     map_err (Serialize name) (tr_serialize_digest t d))"

definition dust_commitment_merkle_tree_root ::
  "('s, 'm, 'd, 'u, 'z, 'e) treess \<Rightarrow> 's ledger_state \<Rightarrow> 'e lederr + bytes" where
  "dust_commitment_merkle_tree_root tr st =
     (let t = tr (ledger_version_of st) in
      dust_root (tr_commitments t) ''dust commitment merkle tree root should exist''
        ''DustCommitmentMerkleTreeRoot'' t (inner_state st))"

definition dust_generation_merkle_tree_root ::
  "('s, 'm, 'd, 'u, 'z, 'e) treess \<Rightarrow> 's ledger_state \<Rightarrow> 'e lederr + bytes" where
  "dust_generation_merkle_tree_root tr st =
     (let t = tr (ledger_version_of st) in
      dust_root (tr_generating_tree t) ''dust generation merkle tree root should exist''
        ''DustGenerationMerkleTreeRoot'' t (inner_state st))"

definition extract_contract_zswap_state ::
  "('s, 'm, 'd, 'u, 'z, 'e) treess \<Rightarrow> 's ledger_state \<Rightarrow> bytes \<Rightarrow> 'e lederr + bytes" where
  "extract_contract_zswap_state tr st address =
     (let ver = ledger_version_of st; t = tr ver in
      and_then (map_err (Deserialize (versioned ''ContractAddress'' ver)) (tr_deserialize_address t address))
        (\<lambda>address.
      map_err (Serialize (versioned ''ZswapState'' ver)) (tr_serialize_zswap t
        (tr_set_coin_coms t (tr_zswap_filter t (inner_state st) [address]) (tr_zswap_new t)))))"

definition tree_collapsed_update ::
  "('s \<Rightarrow> 'm) \<Rightarrow> string \<Rightarrow> ('s, 'm, 'd, 'u, 'z, 'e) trees \<Rightarrow> 's \<Rightarrow> u64 \<Rightarrow> u64 \<Rightarrow> 'e lederr + bytes" where
  "tree_collapsed_update tree name t s start_index end_index =
     and_then (map_err InvalidUpdate (tr_collapsed_update t (tr_rehash t (tree s)) start_index end_index))
       (\<lambda>update. map_err (Serialize name) (tr_serialize_update t update))"

definition make_zswap_collapsed_update ::
  "('s, 'm, 'd, 'u, 'z, 'e) treess \<Rightarrow> 's ledger_state \<Rightarrow> u64 \<Rightarrow> u64 \<Rightarrow> 'e lederr + bytes" where
  "make_zswap_collapsed_update tr st =
     (let t = tr (ledger_version_of st) in
      tree_collapsed_update (tr_coin_coms t) ''MerkleTreeCollapsedUpdate'' t (inner_state st))"

definition dust_generations_collapsed_update ::
  "('s, 'm, 'd, 'u, 'z, 'e) treess \<Rightarrow> 's ledger_state \<Rightarrow> u64 \<Rightarrow> u64 \<Rightarrow> 'e lederr + bytes" where
  "dust_generations_collapsed_update tr st =
     (let t = tr (ledger_version_of st) in
      tree_collapsed_update (tr_generating_tree t) ''DustGenerationsMerkleTreeCollapsedUpdate'' t (inner_state st))"

definition dust_commitments_collapsed_update ::
  "('s, 'm, 'd, 'u, 'z, 'e) treess \<Rightarrow> 's ledger_state \<Rightarrow> u64 \<Rightarrow> u64 \<Rightarrow> 'e lederr + bytes" where
  "dust_commitments_collapsed_update tr st =
     (let t = tr (ledger_version_of st) in
      tree_collapsed_update (tr_commitments t) ''DustCommitmentsMerkleTreeCollapsedUpdate'' t (inner_state st))"

definition deserialize_root ::
  "('s, 'm, 'd, 'u, 'z, 'e) treess \<Rightarrow> bytes \<Rightarrow> ledger_version \<Rightarrow> 'e lederr + 'd zswap_root" where
  "deserialize_root tr raw ver =
     and_then (map_err (Deserialize (versioned ''MerkleTreeDigest'' ver)) (tr_deserialize_digest (tr ver) raw))
       (\<lambda>digest. Inr (case ver of LV8 \<Rightarrow> RootV8 digest | LV9 \<Rightarrow> RootV9 digest))"

fun serialize_root :: "('s, 'm, 'd, 'u, 'z, 'e) treess \<Rightarrow> 'd zswap_root \<Rightarrow> 'e lederr + bytes" where
  "serialize_root tr (RootV8 digest) = map_err (Serialize ''MerkleTreeDigestV8'') (tr_serialize_digest (tr LV8) digest)"
| "serialize_root tr (RootV9 digest) = map_err (Serialize ''MerkleTreeDigestV9'') (tr_serialize_digest (tr LV9) digest)"

section \<open>The ledger of the chain indexer\<close>

text \<open>
  The operations of a ledger state, as the chain indexer's model takes them. A tree without a root, which
  panics in the code, is \<open>None\<close> here and so never equal to the root a node reports.
\<close>

definition state_ops ::
  "'f::linorder cost_model \<Rightarrow> ('s, 'p, 't, 'v, 'y, 'f, 'e) crates \<Rightarrow> ('s, 'm, 'd, 'u, 'z, 'e) treess
     \<Rightarrow> ('o, 'ck, 'e) contract_crate
     \<Rightarrow> ('s ledger_state, 'e lederr, ('o, 'ck) contract_state, 'p ledger_parameters) ledger_ops" where
  "state_ops cm cr tr cc =
     \<lparr>ld_zswap_first_free = zswap_first_free tr,
      ld_dust_commitments_first_free = dust_commitments_first_free tr,
      ld_dust_generations_first_free = dust_generations_first_free tr,
      ld_apply_regular = state_apply_regular cm cr,
      ld_apply_system = state_apply_system cm cr,
      ld_finalize = finalize_apply_transactions cm cr,
      ld_zswap_merkle_tree_root = (\<lambda>st. and_then (zswap_merkle_tree_root tr st) (serialize_root tr)),
      ld_extract_contract_zswap_state = extract_contract_zswap_state tr,
      ld_contract_state_deserialize = deserialize_contract_state cc,
      ld_contract_state_balances = balances cc\<rparr>"

definition state_env ::
  "string \<Rightarrow> nat \<Rightarrow> 'f::linorder cost_model \<Rightarrow> ('s, 'p, 't, 'v, 'y, 'f, 'e) crates \<Rightarrow> ('s, 'm, 'd, 'u, 'z, 'e) treess
     \<Rightarrow> ('s, 'k, 'g, 'e) arenas \<Rightarrow> 'g storage_db \<Rightarrow> ('o, 'ck, 'e) contract_crate \<Rightarrow> ('s \<Rightarrow> 'e + 's)
     \<Rightarrow> ('s ledger_state, 'e lederr, ('o, 'ck) contract_state, 'p ledger_parameters,
         'd zswap_root option, 'g) ledger_env" where
  "state_env network_id gc_bound cm cr tr ar sd cc translate_ledger_state =
     \<lparr>la_ops = state_ops cm cr tr cc,
      la_new = state_new cm cr network_id,
      la_load = load cm ar,
      la_ledger_version = ledger_version_of,
      la_translate = translate translate_ledger_state,
      la_from_genesis = from_genesis cm cr,
      la_root = root ar,
      la_zswap_root = (\<lambda>st. case zswap_merkle_tree_root tr st of Inl _ \<Rightarrow> None | Inr r \<Rightarrow> Some r),
      la_ser_root = (\<lambda>r. and_then (expect_some ''zswap state Merkle tree root should exist'' r) (serialize_root tr)),
      la_dust_commitment_root = dust_commitment_merkle_tree_root tr,
      la_dust_generation_root = dust_generation_merkle_tree_root tr,
      la_ser_params = serialize_parameters cr,
      la_persist = (\<lambda>st g. let (r, g') = persist ar sd st g in map_ok (\<lambda>x. (x, g')) r),
      la_unpersist = unpersist ar sd,
      la_gc = (\<lambda>g. snd (state_gc sd gc_bound g))\<rparr>"

end
