(* ===== verification/Ledger_State_Props.thy ===== *)
theory Ledger_State_Props
  imports Ledger_State
begin

text \<open>
  Properties of the ledger state: which ledger events and which unshielded UTXOs a transaction leaves
  behind, the index computed from a path, what a failed transaction changes, the cost of a block, and the
  ledger state as the ledger of the chain indexer.
\<close>

unbundle bit_operations_syntax

section \<open>The index of a path\<close>

lemma mt_index_fold:
  "n + length es \<le> 64 \<Longrightarrow>
     bit (foldl mt_index_step acc (List.enumerate n es)) d \<longleftrightarrow> bit acc d \<or> (n \<le> d \<and> d < n + length es \<and> \<not> es ! (d - n))"
proof (induction es arbitrary: n acc)
  case (Cons e es)
  have "bit (mt_index_step acc (n, e)) d \<longleftrightarrow> bit acc d \<or> (d = n \<and> \<not> e)"
    using Cons.prems by (auto simp: mt_index_step_def bit_or_iff bit_exp_iff)
  then show ?case using Cons.IH [of "Suc n" "mt_index_step acc (n, e)"] Cons.prems
    by (cases "d = n") (auto simp: nth_Cons')
qed auto

lemma mt_index_bit:
  assumes "length path \<le> 64"
  shows "bit (mt_index_of path) d \<longleftrightarrow> d < length path \<and> \<not> rev path ! d"
  using mt_index_fold [of 0 "rev path" 0 d] assms by (simp add: mt_index_of_def)

lemma mt_index_bound:
  assumes "length path \<le> 64"
  shows "unat (mt_index_of path) < 2 ^ length path"
proof -
  have "take_bit (length path) (mt_index_of path) = mt_index_of path"
    using assms by (intro bit_eqI) (auto simp: bit_take_bit_iff mt_index_bit)
  then have "take_bit (length path) (unat (mt_index_of path)) = unat (mt_index_of path)"
    by (metis unsigned_take_bit_eq)
  then show ?thesis by (metis take_bit_nat_less_exp)
qed

text \<open>
  The index recorded for an update of a dust generation determines the path it came from: for a path
  of at most 64 entries the index is below two to the length of the path, and reading its bits from the
  highest to the lowest gives back, for every entry, whether it goes left. Two paths of the same length
  with the same index are therefore the same path.
\<close>

theorem mt_index_roundtrip:
  assumes "length path \<le> 64"
  shows "unat (mt_index_of path) < 2 ^ length path
    \<and> map (\<lambda>d. \<not> bit (mt_index_of path) d) (rev [0..<length path]) = path"
proof -
  have "map (\<lambda>d. \<not> bit (mt_index_of path) d) [0..<length path] = rev path"
    using assms by (intro nth_equalityI) (auto simp: mt_index_bit)
  then show ?thesis using mt_index_bound [OF assms] by (simp flip: rev_map)
qed

theorem mt_index_roundtrip_witness:
  "unat (mt_index_of [False, True, True]) < 2 ^ 3
    \<and> map (\<lambda>d. \<not> bit (mt_index_of [False, True, True]) d) (rev [0..<3]) = [False, True, True]"
  using mt_index_roundtrip [of "[False, True, True]"] by (simp add: numeral_3_eq_3)

section \<open>Ledger events\<close>

text \<open>Which events are reported and in which group, by version.\<close>

definition reported :: "ledger_version \<Rightarrow> event_details \<Rightarrow> bool" where
  "reported ver content = (case content of EvContractDeploy \<Rightarrow> False | EvContractLog _ _ _ \<Rightarrow> ver = LV9 | _ \<Rightarrow> True)"

definition event_grouping :: "event_details \<Rightarrow> ledger_event_grouping" where
  "event_grouping content = (case content of EvZswapInput _ \<Rightarrow> Zswap | EvZswapOutput \<Rightarrow> Zswap
     | EvContractLog _ _ _ \<Rightarrow> Contract | _ \<Rightarrow> Dust)"

definition convert_of ::
  "ledger_version \<Rightarrow> ('s, 'p, 't, 'v, 'y, 'f, 'e) crate \<Rightarrow> event_details \<Rightarrow> bytes \<Rightarrow> ('e lederr + ledger_event) option" where
  "convert_of ver cr = (case ver of LV8 \<Rightarrow> make_ledger_event_v8 cr | LV9 \<Rightarrow> make_ledger_event_v9 cr)"

definition events_of ::
  "ledger_version \<Rightarrow> ('s, 'p, 't, 'v, 'y, 'f, 'e) crate \<Rightarrow> 'v list \<Rightarrow> 'e lederr + ledger_event list" where
  "events_of ver cr = (case ver of LV8 \<Rightarrow> make_ledger_events_v8 cr | LV9 \<Rightarrow> make_ledger_events_v9 cr)"

lemma convert_none: "convert_of ver cr content raw = None \<longleftrightarrow> \<not> reported ver content"
  by (cases content; cases ver)
    (simp_all add: convert_of_def make_ledger_event_v8_def make_ledger_event_v9_def make_common_event_def reported_def)

lemma convert_event:
  assumes "convert_of ver cr content raw = Some (Inr e)"
  shows "le_grouping e = event_grouping content \<and> le_raw e = raw"
  using assms
  by (cases content; cases ver)
    (auto simp: convert_of_def make_ledger_event_v8_def make_ledger_event_v9_def make_common_event_def
      make_dust_initial_utxo_def make_dust_generation_dtime_update_def Let_def event_grouping_def zswap_input_def
      zswap_output_def param_change_def dust_initial_utxo_def dust_generation_dtime_update_def
      dust_spend_processed_def contract_event_def res_simps)

lemma events_of_eq: "events_of ver cr events = make_ledger_events ver cr (convert_of ver cr) events"
  by (cases ver) (simp_all add: events_of_def convert_of_def make_ledger_events_v8_def make_ledger_events_v9_def)

lemma make_ledger_events_Nil: "make_ledger_events ver cr convert [] = Inr []"
  by (simp add: make_ledger_events_def)

lemma make_ledger_events_Cons:
  "make_ledger_events ver cr convert (ev # events) =
     (case cr_serialize_event cr ev of
        Inl _ \<Rightarrow> make_ledger_events ver cr convert events
      | Inr raw \<Rightarrow>
          (case convert (cr_content cr ev) raw of
             None \<Rightarrow> make_ledger_events ver cr convert events
           | Some r \<Rightarrow> and_then r (\<lambda>e. map_ok ((#) e) (make_ledger_events ver cr convert events))))"
  by (auto simp: make_ledger_events_def Let_def and_then_def map_err_def map_ok_def split: sum.splits option.splits)

text \<open>What is kept of one event: nothing when it cannot be serialized or is not reported.\<close>

definition kept ::
  "ledger_version \<Rightarrow> ('s, 'p, 't, 'v, 'y, 'f, 'e) crate \<Rightarrow> 'v \<Rightarrow> (ledger_event_grouping \<times> bytes) list" where
  "kept ver cr ev =
     (case cr_serialize_event cr ev of
        Inl _ \<Rightarrow> []
      | Inr raw \<Rightarrow> if reported ver (cr_content cr ev) then [(event_grouping (cr_content cr ev), raw)] else [])"

lemma events_kept:
  "events_of ver cr events = Inr out \<Longrightarrow>
     map (\<lambda>e. (le_grouping e, le_raw e)) out = concat (map (kept ver cr) events)"
proof (induction events arbitrary: out)
  case Nil
  then show ?case by (simp add: events_of_eq make_ledger_events_Nil)
next
  case (Cons ev events)
  show ?case
  proof (cases "cr_serialize_event cr ev")
    case (Inl e)
    then show ?thesis using Cons by (simp add: events_of_eq make_ledger_events_Cons kept_def)
  next
    case (Inr raw)
    show ?thesis
    proof (cases "convert_of ver cr (cr_content cr ev) raw")
      case None
      then show ?thesis using Inr Cons convert_none [of ver cr "cr_content cr ev" raw]
        by (simp add: events_of_eq make_ledger_events_Cons kept_def)
    next
      case (Some r)
      then obtain e rest where e: "r = Inr e" "events_of ver cr events = Inr rest" "out = e # rest"
        using Cons.prems Inr by (auto simp: events_of_eq make_ledger_events_Cons res_simps)
      then show ?thesis
        using Inr Some Cons.IH [OF e(2)] convert_event [of ver cr "cr_content cr ev" raw e]
          convert_none [of ver cr "cr_content cr ev" raw]
        by (simp add: kept_def)
    qed
  qed
qed

lemma events_skip_unserializable:
  "events_of ver cr [ev \<leftarrow> events. is_ok (cr_serialize_event cr ev)] = events_of ver cr events"
  by (induction events)
    (auto simp: events_of_eq make_ledger_events_Cons is_ok_def split: sum.splits option.splits)

text \<open>
  C8. The ledger events of a transaction are, in the order of the crate's events, one event for each
  reported event that could be serialized, with the event's group and its serialized bytes: contract
  deployments are never reported and contract logs only for ledger 9. An event whose serialization fails
  is left out without an error, so that the conversion of a list of events is the conversion of the list
  without them.
\<close>

theorem ledger_events_exact:
  assumes "(case ver of LV8 \<Rightarrow> make_ledger_events_v8 cr events | LV9 \<Rightarrow> make_ledger_events_v9 cr events) = Inr out"
  shows "map (\<lambda>e. (le_grouping e, le_raw e)) out = concat (map (kept ver cr) events)
    \<and> (case ver of LV8 \<Rightarrow> make_ledger_events_v8 cr [ev \<leftarrow> events. is_ok (cr_serialize_event cr ev)]
       | LV9 \<Rightarrow> make_ledger_events_v9 cr [ev \<leftarrow> events. is_ok (cr_serialize_event cr ev)]) = Inr out"
proof -
  have e: "events_of ver cr events = Inr out" using assms by (cases ver) (simp_all add: events_of_def)
  then have "events_of ver cr [ev \<leftarrow> events. is_ok (cr_serialize_event cr ev)] = Inr out"
    by (simp add: events_skip_unserializable)
  then have "(case ver of LV8 \<Rightarrow> make_ledger_events_v8 cr [ev \<leftarrow> events. is_ok (cr_serialize_event cr ev)]
       | LV9 \<Rightarrow> make_ledger_events_v9 cr [ev \<leftarrow> events. is_ok (cr_serialize_event cr ev)]) = Inr out"
    by (cases ver) (simp_all add: events_of_def)
  then show ?thesis using events_kept [OF e] by simp
qed

section \<open>Unshielded UTXOs\<close>

text \<open>The outputs an intent has in one of its phases, and which intents take part in a segment.\<close>

definition phase_outputs :: "bool \<Rightarrow> intent \<Rightarrow> utxo_output list" where
  "phase_outputs guaranteed i = (if guaranteed then in_guaranteed_outputs i else in_fallible_outputs i)"

definition phase_utxos ::
  "('s, 'p, 't, 'v, 'y, 'f, 'e) crate \<Rightarrow> 's \<Rightarrow> u16 \<Rightarrow> bool \<Rightarrow> intent \<Rightarrow> unshielded_utxo list" where
  "phase_utxos cr s segment guaranteed i =
     map (\<lambda>(n, output). utxo_of cr s (ou_value output) (ou_owner output) (ou_type output)
            (in_intent_hash i segment) (of_nat n))
       (List.enumerate 0 (phase_outputs guaranteed i))"

definition segment_intents :: "standard_tx \<Rightarrow> transaction_result \<Rightarrow> u16 \<Rightarrow> intent list" where
  "segment_intents tx result segment =
     (if segment = 0 then map snd (sx_intents tx)
      else (case map_of (sx_intents tx) segment of
              None \<Rightarrow> []
            | Some i \<Rightarrow> if segment \<in> set (successful_segments (sx_segments tx) result) then [i] else []))"

lemma fst_extend:
  "fst (extend_unshielded_utxos cr acc segment i guaranteed s) = fst acc @ phase_utxos cr s segment guaranteed i"
  by (cases acc) (simp add: extend_unshielded_utxos_def phase_utxos_def phase_outputs_def Let_def)

lemma fst_extend_intents:
  "fst (foldl (\<lambda>acc i. extend_unshielded_utxos cr acc segment i guaranteed s) acc is)
     = fst acc @ concat (map (phase_utxos cr s segment guaranteed) is)"
  by (induction "is" arbitrary: acc) (simp_all add: fst_extend)

lemma fst_extend_segment:
  "fst (extend_segment cr tx result s acc segment)
     = fst acc @ concat (map (phase_utxos cr s segment (segment = 0)) (segment_intents tx result segment))"
  by (auto simp: extend_segment_def segment_intents_def fst_extend_intents fst_extend split: option.splits)

lemma fst_extend_segments:
  "fst (foldl (extend_segment cr tx result s) acc segments)
     = fst acc @ concat (map (\<lambda>seg. concat (map (phase_utxos cr s seg (seg = 0)) (segment_intents tx result seg))) segments)"
  by (induction segments arbitrary: acc) (simp_all add: fst_extend_segment)

lemma created_standard:
  assumes "result \<noteq> Failure"
  shows "fst (make_unshielded_utxos_for_regular_transaction cr (StandardTx tx) result s)
    = concat (map (\<lambda>seg. concat (map (phase_utxos cr s seg (seg = 0)) (segment_intents tx result seg))) (sx_segments tx))"
  using assms by (simp add: make_unshielded_utxos_for_regular_transaction_def fst_extend_segments)

text \<open>One UTXO of a phase, by its position among the outputs.\<close>

definition phase_utxo ::
  "('s, 'p, 't, 'v, 'y, 'f, 'e) crate \<Rightarrow> 's \<Rightarrow> u16 \<Rightarrow> bool \<Rightarrow> intent \<Rightarrow> nat \<Rightarrow> unshielded_utxo" where
  "phase_utxo cr s segment guaranteed i n =
     (let output = phase_outputs guaranteed i ! n in
      utxo_of cr s (ou_value output) (ou_owner output) (ou_type output) (in_intent_hash i segment) (of_nat n))"

lemma phase_utxos_nth:
  "phase_utxos cr s segment guaranteed i = map (phase_utxo cr s segment guaranteed i) [0..<length (phase_outputs guaranteed i)]"
  by (rule nth_equalityI) (simp_all add: phase_utxos_def phase_utxo_def nth_enumerate_eq Let_def)

lemma phase_utxos_mem:
  "u \<in> set (phase_utxos cr s segment guaranteed i) \<longleftrightarrow>
     (\<exists>n < length (phase_outputs guaranteed i). u = phase_utxo cr s segment guaranteed i n)"
  by (auto simp: phase_utxos_nth)

lemma segment_intents_0: "set (segment_intents tx result 0) = snd ` set (sx_intents tx)"
  by (simp add: segment_intents_def)

lemma segment_intents_fallible:
  assumes "distinct (map fst (sx_intents tx))" and "seg \<noteq> 0"
  shows "i \<in> set (segment_intents tx result seg) \<longleftrightarrow>
    (seg, i) \<in> set (sx_intents tx) \<and> seg \<in> set (successful_segments (sx_segments tx) result)"
proof (cases "map_of (sx_intents tx) seg")
  case None
  then show ?thesis using assms by (auto simp: segment_intents_def map_of_eq_None_iff image_iff)
next
  case (Some j)
  have "(seg, i) \<in> set (sx_intents tx) \<longleftrightarrow> i = j" using assms Some by (metis map_of_eq_Some_iff option.inject)
  then show ?thesis using assms Some by (auto simp: segment_intents_def)
qed

lemma bex_image_fst:
  assumes "\<And>seg i. seg \<noteq> z \<Longrightarrow> i \<in> I seg \<longleftrightarrow> (seg, i) \<in> S \<and> P seg"
  shows "(\<exists>seg \<in> fst ` S - {z}. \<exists>i \<in> I seg. Q seg i) \<longleftrightarrow> (\<exists>(seg, i) \<in> S. seg \<noteq> z \<and> P seg \<and> Q seg i)"
proof
  assume "\<exists>seg \<in> fst ` S - {z}. \<exists>i \<in> I seg. Q seg i"
  then obtain seg i where "seg \<noteq> z" "i \<in> I seg" "Q seg i" by blast
  then show "\<exists>(seg, i) \<in> S. seg \<noteq> z \<and> P seg \<and> Q seg i" using assms [of seg i] by blast
next
  assume "\<exists>(seg, i) \<in> S. seg \<noteq> z \<and> P seg \<and> Q seg i"
  then obtain seg i where s: "(seg, i) \<in> S" "seg \<noteq> z" "P seg" "Q seg i" by blast
  then have "seg \<in> fst ` S - {z}" by (auto simp: image_iff) (metis fst_conv)
  then show "\<exists>seg \<in> fst ` S - {z}. \<exists>i \<in> I seg. Q seg i" using s assms [of seg i] by blast
qed

text \<open>
  The contract of \<^verbatim>\<open>segments()\<close>: every segment once, the guaranteed segment 0 and the segments of the
  intents; \<^verbatim>\<open>intents\<close> is a map.
\<close>

definition segments_ok :: "standard_tx \<Rightarrow> bool" where
  "segments_ok tx \<longleftrightarrow> distinct (sx_segments tx) \<and> distinct (map fst (sx_intents tx))
     \<and> set (sx_segments tx) = insert 0 (fst ` set (sx_intents tx))"

text \<open>
  C6. A failed transaction creates no unshielded UTXO. One that succeeds, in whole or in part, creates
  exactly the guaranteed outputs of all its intents, under the intent hash of segment 0, and the fallible
  outputs of the intents of the segments that succeeded, under the intent hash of their segment, each with
  its position among the intent's outputs as its index.
\<close>

theorem created_utxos_exact:
  assumes "segments_ok tx"
  shows "make_unshielded_utxos_for_regular_transaction cr (StandardTx tx) Failure s = ([], [])
    \<and> (result \<noteq> Failure \<longrightarrow>
        (\<forall>u. u \<in> set (fst (make_unshielded_utxos_for_regular_transaction cr (StandardTx tx) result s)) \<longleftrightarrow>
           (\<exists>(seg, i) \<in> set (sx_intents tx). \<exists>n < length (in_guaranteed_outputs i). u = phase_utxo cr s 0 True i n)
         \<or> (\<exists>(seg, i) \<in> set (sx_intents tx). seg \<noteq> 0 \<and> seg \<in> set (successful_segments (sx_segments tx) result)
              \<and> (\<exists>n < length (in_fallible_outputs i). u = phase_utxo cr s seg False i n))))"
proof -
  have d: "distinct (map fst (sx_intents tx))" and segs: "set (sx_segments tx) = insert 0 (fst ` set (sx_intents tx))"
    using assms by (simp_all add: segments_ok_def)
  show ?thesis
  proof (intro conjI impI allI)
    fix u
    assume ok: "result \<noteq> Failure"
    have split: "(\<exists>seg \<in> insert 0 A. R seg) \<longleftrightarrow> R 0 \<or> (\<exists>seg \<in> A - {0}. R seg)" for A :: "u16 set" and R by blast
    let ?Q = "\<lambda>seg i. u \<in> set (phase_utxos cr s seg (seg = 0) i)"
    have "u \<in> set (fst (make_unshielded_utxos_for_regular_transaction cr (StandardTx tx) result s)) \<longleftrightarrow>
        (\<exists>seg \<in> set (sx_segments tx). \<exists>i \<in> set (segment_intents tx result seg). ?Q seg i)"
      using ok by (simp add: created_standard)
    also have "\<dots> \<longleftrightarrow> (\<exists>i \<in> snd ` set (sx_intents tx). ?Q 0 i)
        \<or> (\<exists>seg \<in> fst ` set (sx_intents tx) - {0}. \<exists>i \<in> set (segment_intents tx result seg). ?Q seg i)"
      unfolding segs split segment_intents_0 by simp
    also have "(\<exists>seg \<in> fst ` set (sx_intents tx) - {0}. \<exists>i \<in> set (segment_intents tx result seg). ?Q seg i) \<longleftrightarrow>
        (\<exists>(seg, i) \<in> set (sx_intents tx). seg \<noteq> 0 \<and> seg \<in> set (successful_segments (sx_segments tx) result) \<and> ?Q seg i)"
      by (rule bex_image_fst [OF segment_intents_fallible [OF d]])
    finally show "u \<in> set (fst (make_unshielded_utxos_for_regular_transaction cr (StandardTx tx) result s)) \<longleftrightarrow>
           (\<exists>(seg, i) \<in> set (sx_intents tx). \<exists>n < length (in_guaranteed_outputs i). u = phase_utxo cr s 0 True i n)
         \<or> (\<exists>(seg, i) \<in> set (sx_intents tx). seg \<noteq> 0 \<and> seg \<in> set (successful_segments (sx_segments tx) result)
              \<and> (\<exists>n < length (in_fallible_outputs i). u = phase_utxo cr s seg False i n))"
      by (simp add: phase_utxos_mem phase_outputs_def split_def cong: conj_cong)
  qed (simp add: make_unshielded_utxos_for_regular_transaction_def)
qed

section \<open>Applying a transaction\<close>

lemma created_failure: "make_unshielded_utxos_for_regular_transaction cr tx Failure s = ([], [])"
  by (simp add: make_unshielded_utxos_for_regular_transaction_def)

lemma events_of_Nil: "events_of ver cr [] = Inr []"
  by (simp add: events_of_eq make_ledger_events_Nil)

text \<open>The steps of a transaction that was applied, for both versions.\<close>

lemma state_apply_regular_ok:
  assumes "state_apply_regular cm cr st raw ph ts pts wts = Inr (out, st')"
  obtains tx cost verified s' ap where
    "cr_deserialize_transaction (cr (ledger_version_of st)) raw = Inr tx"
    and "cr_cost (cr (ledger_version_of st)) tx (cr_parameters (cr (ledger_version_of st)) (inner_state st)) True = Inr cost"
    and "cr_well_formed (cr (ledger_version_of st)) tx (inner_state st) False (timestamp wts) = Inr verified"
    and "cr_apply (cr (ledger_version_of st)) (inner_state st) verified (make_context (inner_state st) ph ts pts) = (s', ap)"
    and "ledger_version_of st' = ledger_version_of st" and "inner_state st' = s'"
    and "block_fullness st' = add_cost cm (snd (snd (outcome_of ap))) (block_fullness st) cost"
    and "ro_transaction_result out = fst (outcome_of ap)"
    and "(ro_created_unshielded_utxos out, ro_spent_unshielded_utxos out)
      = make_unshielded_utxos_for_regular_transaction (cr (ledger_version_of st)) tx (fst (outcome_of ap)) s'"
    and "events_of (ledger_version_of st) (cr (ledger_version_of st)) (fst (snd (outcome_of ap))) = Inr (ro_ledger_events out)"
    and "ro_bridge_claim out = (if ledger_version_of st = LV9 then bridge_claim_of (cr LV9) tx else None)"
proof (cases st)
  case (StateV8 s f)
  with assms show thesis
    by (auto simp: state_apply_regular_def apply_regular_v8_def make_context_def Let_def split_def events_of_def res_simps
        intro!: that)
next
  case (StateV9 s f)
  with assms show thesis
    by (auto simp: state_apply_regular_def apply_regular_v9_def make_context_def Let_def split_def events_of_def res_simps
        intro!: that)
qed

text \<open>
  C7. Applying a regular transaction keeps the version of the ledger state. When the transaction failed,
  it creates and spends no UTXO, has no ledger events and adds nothing to the fullness of the block; in
  every other case the fullness grows by the transaction's stateless cost under the parameters of the
  state it was applied to, for ledger 8 and ledger 9 alike. A claim of bridged NIGHT is reported whatever
  the result of the transaction, also when it failed.
\<close>

theorem failed_transaction_changes_nothing:
  assumes "state_apply_regular cm cr st raw ph ts pts wts = Inr (out, st')"
  shows "ledger_version_of st' = ledger_version_of st
    \<and> (ro_transaction_result out = Failure \<longrightarrow>
         ro_created_unshielded_utxos out = [] \<and> ro_spent_unshielded_utxos out = [] \<and> ro_ledger_events out = []
         \<and> block_fullness st' = block_fullness st)
    \<and> (\<exists>tx. cr_deserialize_transaction (cr (ledger_version_of st)) raw = Inr tx
         \<and> ro_bridge_claim out = (if ledger_version_of st = LV9 then bridge_claim_of (cr LV9) tx else None)
         \<and> (ro_transaction_result out \<noteq> Failure \<longrightarrow>
              (\<exists>cost. cr_cost (cr (ledger_version_of st)) tx (cr_parameters (cr (ledger_version_of st)) (inner_state st)) True = Inr cost
                 \<and> block_fullness st' = cm_add cm (block_fullness st) cost)))"
  using assms
proof (rule state_apply_regular_ok, goal_cases)
  case (1 tx cost verified s' ap)
  show ?case
  proof (cases ap)
    case (AppliedFailure x)
    then show ?thesis using 1(1,5,7-11) by (auto simp: add_cost_def created_failure events_of_Nil)
  qed (use 1(1,2,5,7,8,11) in \<open>auto simp: add_cost_def\<close>)
qed

section \<open>Finalizing a block\<close>

definition within :: "synthetic_cost \<Rightarrow> synthetic_cost \<Rightarrow> bool" where
  "within cost limits \<longleftrightarrow> sc_read_time cost \<le> sc_read_time limits \<and> sc_compute_time cost \<le> sc_compute_time limits
     \<and> sc_block_usage cost \<le> sc_block_usage limits \<and> sc_bytes_written cost \<le> sc_bytes_written limits
     \<and> sc_bytes_churned cost \<le> sc_bytes_churned limits"

lemma clamp_within: "within (clamp cost limits) limits"
  by (simp add: within_def clamp_def)

lemma clamp_id: "within cost limits \<Longrightarrow> clamp cost limits = cost"
  by (cases cost) (simp add: within_def clamp_def)

lemma overall_fullness_Max:
  "overall_fullness n = Max {nc_read_time n, nc_compute_time n, nc_block_usage n, nc_bytes_written n, nc_bytes_churned n}"
  by (simp add: overall_fullness_def max.assoc)

lemma finalize_version:
  "finalize_apply_transactions cm cr st ts = Inr (params, st') \<Longrightarrow>
     ledger_version_of st' = ledger_version_of st \<and> block_fullness st' = cm_default cm \<and> params = ledger_parameters_of cr st'"
  by (cases st) (auto simp: finalize_apply_transactions_def res_simps)

text \<open>
  A block over its limits is finalized all the same. When the cost model normalizes every cost within
  the limits, as it promises, finalizing a block never panics whatever its fullness is: the ledger is
  given the normalized cost of the fullness clamped to the limits, which is the fullness itself when that
  is within the limits, and as the overall fullness the largest of its five dimensions; the state that
  results has an empty block, and the parameters reported are its own.
\<close>

theorem finalize_within_limits:
  fixes cm :: "'f::linorder cost_model"
  assumes "\<And>cost limits. within cost limits \<Longrightarrow> cm_normalize cm cost limits \<noteq> None"
  shows "let c = cr (ledger_version_of st); limits = cr_block_limits c (cr_parameters c (inner_state st)) in
    \<exists>n. cm_normalize cm (clamp (block_fullness st) limits) limits = Some n
    \<and> (within (block_fullness st) limits \<longrightarrow> cm_normalize cm (block_fullness st) limits = Some n)
    \<and> (case cr_post_block_update c (inner_state st) (timestamp ts) n
           (Max {nc_read_time n, nc_compute_time n, nc_block_usage n, nc_bytes_written n, nc_bytes_churned n}) of
         Inl e \<Rightarrow> finalize_apply_transactions cm cr st ts = Inl (BlockLimitExceeded e)
       | Inr s' \<Rightarrow> \<exists>st'. finalize_apply_transactions cm cr st ts = Inr (ledger_parameters_of cr st', st')
           \<and> ledger_version_of st' = ledger_version_of st \<and> inner_state st' = s' \<and> block_fullness st' = cm_default cm)"
proof -
  define limits where
    "limits = cr_block_limits (cr (ledger_version_of st)) (cr_parameters (cr (ledger_version_of st)) (inner_state st))"
  obtain n where n: "cm_normalize cm (clamp (block_fullness st) limits) limits = Some n"
    using assms [OF clamp_within] by (metis not_None_eq)
  show ?thesis
    unfolding Let_def limits_def [symmetric]
  proof (intro exI [of _ n] conjI impI)
    show "cm_normalize cm (block_fullness st) limits = Some n" if "within (block_fullness st) limits"
      using n clamp_id [OF that] by simp
  qed (use n in \<open>cases st; auto simp: finalize_apply_transactions_def finalize_state_def clamp_and_normalize_def
      expect_some_def limits_def overall_fullness_Max Let_def map_err_def split: sum.splits\<close>)+
qed

section \<open>Persisting and loading\<close>

text \<open>
  What the arena promises: a serialized key is read back, and a state that was persisted and flushed is
  found under its key.
\<close>

definition arena_ok :: "('s, 'k, 'g, 'e) arena \<Rightarrow> 'g storage_db \<Rightarrow> bool" where
  "arena_ok ar sd \<longleftrightarrow>
     (\<forall>k raw. ar_serialize_key ar k = Inr raw \<longrightarrow> ar_deserialize_key ar raw = Inr k)
   \<and> (\<forall>s g. ar_get_lazy ar (ar_typed_key ar s) (sd_flush sd (ar_persist ar s g)) = Inr s)"

text \<open>
  A persisted ledger state can be loaded again: under the key that \<open>persist\<close> returns, with the version
  of the state, \<open>load\<close> finds the same state with an empty block; the key is the root the state reports,
  and the hash unpersisting it uses is the hash of the state's arena key.
\<close>

theorem persist_load_roundtrip:
  assumes "arena_ok (ar (ledger_version_of st)) sd" and "persist ar sd st g = (Inr (st', key), g')"
  shows "st' = st \<and> root ar st = Inr key
    \<and> (\<exists>loaded. load cm ar key (ledger_version_of st) g' = Inr loaded \<and> ledger_version_of loaded = ledger_version_of st
         \<and> inner_state loaded = inner_state st \<and> block_fullness loaded = cm_default cm)
    \<and> arena_root_hash ar key (ledger_version_of st)
        = Inr (ar_key_hash (ar (ledger_version_of st)) (ar_typed_key (ar (ledger_version_of st)) (inner_state st)))"
proof -
  let ?a = "ar (ledger_version_of st)"
  have k: "ar_serialize_key ?a (ar_typed_key ?a (inner_state st)) = Inr key" and st': "st' = st"
    and g': "g' = sd_flush sd (ar_persist ?a (inner_state st) g)"
    using assms(2) by (auto simp: persist_def Let_def res_simps)
  have d: "ar_deserialize_key ?a key = Inr (ar_typed_key ?a (inner_state st))"
    and get: "ar_get_lazy ?a (ar_typed_key ?a (inner_state st)) g' = Inr (inner_state st)"
    using assms(1) k by (auto simp: arena_ok_def g')
  show ?thesis using k d get st'
    by (cases "ledger_version_of st") (auto simp: root_def load_def arena_key_def arena_root_hash_def Let_def res_simps)
qed

section \<open>A block through the ledger state\<close>

text \<open>
  The trees of a ledger crate are append-only: applying transactions and finalizing a block never lower
  the first free index \<open>ff\<close>.
\<close>

definition crate_grows :: "('s, 'p, 't, 'v, 'y, 'f, 'e) crate \<Rightarrow> ('s \<Rightarrow> u64) \<Rightarrow> bool" where
  "crate_grows cr ff \<longleftrightarrow>
     (\<forall>s t cx. ff s \<le> ff (fst (cr_apply cr s t cx)))
   \<and> (\<forall>s t ts s' evs. cr_apply_system cr s t ts = Inr (s', evs) \<longrightarrow> ff s \<le> ff s')
   \<and> (\<forall>s ts n f s'. cr_post_block_update cr s ts n f = Inr s' \<longrightarrow> ff s \<le> ff s')"

lemma crate_grows_system:
  "crate_grows cr ff \<Longrightarrow> cr_apply_system cr s t ts = Inr (s', evs) \<Longrightarrow> ff s \<le> ff s'"
  unfolding crate_grows_def by blast

lemma crate_grows_post:
  "crate_grows cr ff \<Longrightarrow> cr_post_block_update cr s ts n f = Inr s' \<Longrightarrow> ff s \<le> ff s'"
  unfolding crate_grows_def by blast

lemma apply_system_grows:
  "crate_grows cr ff \<Longrightarrow> apply_system ver cm cr mk s f raw ts = Inr (out, s', f') \<Longrightarrow> ff s \<le> ff s'"
  by (auto simp: apply_system_def Let_def res_simps dest: crate_grows_system)

lemma finalize_grows: "crate_grows cr ff \<Longrightarrow> finalize_state cm cr s f ts = Inr s' \<Longrightarrow> ff s \<le> ff s'"
  by (auto simp: finalize_state_def Let_def res_simps dest: crate_grows_post)

lemma state_apply_system_version:
  "state_apply_system cm cr st raw ts = Inr (out, st') \<Longrightarrow> ledger_version_of st' = ledger_version_of st"
  by (cases st) (auto simp: state_apply_system_def res_simps)

lemma state_ops_never_shrink:
  assumes "\<And>ver. crate_grows (cr ver) (ff ver)"
  shows "never_shrinks (state_ops cm cr tr cc) (\<lambda>st. ff (ledger_version_of st) (inner_state st))"
  unfolding never_shrinks_def
proof (intro conjI allI impI)
  fix l raw ph ts pts wts out l'
  assume "ld_apply_regular (state_ops cm cr tr cc) l raw ph ts pts wts = Inr (out, l')"
  then have "state_apply_regular cm cr l raw ph ts pts wts = Inr (out, l')" by (simp add: state_ops_def)
  then show "ff (ledger_version_of l) (inner_state l) \<le> ff (ledger_version_of l') (inner_state l')"
    by (rule state_apply_regular_ok) (use assms in \<open>metis crate_grows_def fst_conv\<close>)
next
  fix l raw ts out l'
  assume "ld_apply_system (state_ops cm cr tr cc) l raw ts = Inr (out, l')"
  then show "ff (ledger_version_of l) (inner_state l) \<le> ff (ledger_version_of l') (inner_state l')"
    using apply_system_grows [OF assms]
    by (cases l) (auto simp: state_ops_def state_apply_system_def res_simps)
next
  fix l ts p l'
  assume "ld_finalize (state_ops cm cr tr cc) l ts = Inr (p, l')"
  then show "ff (ledger_version_of l) (inner_state l) \<le> ff (ledger_version_of l') (inner_state l')"
    using finalize_grows [OF assms]
    by (cases l) (auto simp: state_ops_def finalize_apply_transactions_def res_simps)
qed

lemma state_ops_simps:
  "ld_apply_regular (state_ops cm cr tr cc) = state_apply_regular cm cr"
  "ld_apply_system (state_ops cm cr tr cc) = state_apply_system cm cr"
  "ld_finalize (state_ops cm cr tr cc) = finalize_apply_transactions cm cr"
  "ld_zswap_first_free (state_ops cm cr tr cc) = zswap_first_free tr"
  "ld_dust_commitments_first_free (state_ops cm cr tr cc) = dust_commitments_first_free tr"
  "ld_dust_generations_first_free (state_ops cm cr tr cc) = dust_generations_first_free tr"
  by (simp_all add: state_ops_def)

text \<open>What one transaction of a block keeps of the ledger state and reports when it failed.\<close>

definition failed_clean :: "transaction \<Rightarrow> bool" where
  "failed_clean t = (case t of
     Regular r \<Rightarrow> rt_transaction_result r = Failure \<longrightarrow>
       rt_created_unshielded_utxos r = [] \<and> rt_spent_unshielded_utxos r = [] \<and> rt_ledger_events r = []
   | System _ \<Rightarrow> True)"

lemma regular_failure_clean:
  assumes "state_apply_regular cm cr st raw ph ts pts wts = Inr (out, st')" and "ro_transaction_result out = Failure"
  shows "ro_created_unshielded_utxos out = [] \<and> ro_spent_unshielded_utxos out = [] \<and> ro_ledger_events out = []"
  using assms(1)
proof (rule state_apply_regular_ok, goal_cases)
  case (1 tx cost verified s' ap)
  then show ?case using assms(2) by (cases ap) (auto simp: created_failure events_of_Nil)
qed

lemma state_apply_regular_version:
  "state_apply_regular cm cr st raw ph ts pts wts = Inr (out, st') \<Longrightarrow> ledger_version_of st' = ledger_version_of st"
  by (erule state_apply_regular_ok)

lemma apply_one_state:
  assumes "apply_one (state_ops cm cr tr cc) ph ts pts st (t, w) = Inr (tx, st')"
  shows "ledger_version_of st' = ledger_version_of st \<and> failed_clean tx"
proof (cases t)
  case (NodeRegular r)
  with assms obtain out root actions where
    "state_apply_regular cm cr st (rt_raw (regular_transaction_from r)) ph ts pts w = Inr (out, st')"
    "tx = Regular (regular_transaction_from r\<lparr>rt_transaction_result := ro_transaction_result out,
               rt_zswap_merkle_tree_root := root,
               rt_zswap_start_index := zswap_first_free tr st, rt_zswap_end_index := zswap_first_free tr st',
               rt_dust_commitment_start_index := dust_commitments_first_free tr st,
               rt_dust_commitment_end_index := dust_commitments_first_free tr st',
               rt_dust_generation_start_index := dust_generations_first_free tr st,
               rt_dust_generation_end_index := dust_generations_first_free tr st',
               rt_created_unshielded_utxos := ro_created_unshielded_utxos out,
               rt_spent_unshielded_utxos := ro_spent_unshielded_utxos out,
               rt_ledger_events := ro_ledger_events out, rt_paid_fees := ro_fees out,
               rt_estimated_fees := ro_fees out, rt_bridge_claim := ro_bridge_claim out,
               rt_contract_actions := actions\<rparr>)"
    by (auto simp: apply_one_def apply_regular_transaction_def Let_def res_simps state_ops_simps)
  then show ?thesis using regular_failure_clean state_apply_regular_version by (fastforce simp: failed_clean_def)
next
  case (NodeSystem r)
  with assms show ?thesis using state_apply_system_version
    by (fastforce simp: apply_one_def apply_system_transaction_def Let_def res_simps state_ops_simps failed_clean_def)
qed

lemma apply_all_state:
  "apply_all (state_ops cm cr tr cc) ph ts pts st txs = Inr (out, st') \<Longrightarrow>
     ledger_version_of st' = ledger_version_of st \<and> list_all failed_clean out"
proof (induction txs arbitrary: st out)
  case (Cons tw txs)
  then obtain t st1 rest where one: "apply_one (state_ops cm cr tr cc) ph ts pts st tw = Inr (t, st1)" and "out = t # rest"
    "apply_all (state_ops cm cr tr cc) ph ts pts st1 txs = Inr (rest, st')"
    by (auto simp: apply_all_Cons res_simps)
  then show ?case using Cons.IH apply_one_state [of cm cr tr cc ph ts pts st "fst tw" "snd tw" t st1] by auto
qed (simp add: apply_all_Nil)

text \<open>
  C5. A block applied by the chain indexer to the ledger state: there is one transaction per node
  transaction in the same order, the version of the state is kept, transactions that failed are reported
  with no UTXOs and no ledger events (their contract actions and their bridge claim are reported all the same), the fullness of the block is reset, the parameters reported are those of the new
  state, and the intervals of zswap and dust indices of the transactions follow each other from the first
  free index before the block to the one after it. The trees of both ledger crates are append-only.
\<close>

theorem ledger_state_block:
  assumes "\<And>ver. crate_grows (cr ver) (tr_zswap_first_free (tr ver))"
    and "\<And>ver. crate_grows (cr ver) (tr_commitments_first_free (tr ver))"
    and "\<And>ver. crate_grows (cr ver) (tr_generating_tree_first_free (tr ver))"
    and "apply_transactions (state_ops cm cr tr cc) st txs ph ts pts bump = Inr ((out, params), st')"
  shows "map tx_key out = map node_tx_key txs
    \<and> ledger_version_of st' = ledger_version_of st \<and> block_fullness st' = cm_default cm
    \<and> params = ledger_parameters_of cr st' \<and> list_all failed_clean out
    \<and> interval_chain (zswap_first_free tr st)
        (regular_intervals rt_zswap_start_index rt_zswap_end_index out) (zswap_first_free tr st')
    \<and> interval_chain (dust_commitments_first_free tr st)
        (regular_intervals rt_dust_commitment_start_index rt_dust_commitment_end_index out)
        (dust_commitments_first_free tr st')
    \<and> interval_chain (dust_generations_first_free tr st)
        (regular_intervals rt_dust_generation_start_index rt_dust_generation_end_index out)
        (dust_generations_first_free tr st')"
proof -
  let ?ops = "state_ops cm cr tr cc"
  have ns: "never_shrinks ?ops (ld_zswap_first_free ?ops)" "never_shrinks ?ops (ld_dust_commitments_first_free ?ops)"
    "never_shrinks ?ops (ld_dust_generations_first_free ?ops)"
    using state_ops_never_shrink [OF assms(1), where cm = cm and tr = tr and cc = cc] state_ops_never_shrink [OF assms(2), where cm = cm and tr = tr and cc = cc]
      state_ops_never_shrink [OF assms(3), where cm = cm and tr = tr and cc = cc]
    by (simp_all add: state_ops_simps zswap_first_free_def [abs_def] dust_commitments_first_free_def [abs_def]
        dust_generations_first_free_def [abs_def])
  obtain st1 where all: "apply_all ?ops ph ts pts st
        (with_tblock (if bump then pts + MEMPOOL_TBLOCK_BUMP_MILLIS else ts) ts txs) = Inr (out, st1)"
    and fin: "finalize_apply_transactions cm cr st1 ts = Inr (params, st')"
    using assms(4) by (auto simp: apply_transactions_def apply_loop_tblock state_ops_simps res_simps split del: if_split)
  show ?thesis
    using apply_transactions_indices [OF assms(4) ns] apply_all_state [OF all] finalize_version [OF fin]
    by (simp add: state_ops_simps)
qed

section \<open>A small ledger to run the definitions on\<close>

text \<open>
  The state counts the zswap outputs; a standard transaction succeeds in its guaranteed segment only, a
  claim fails; a parameter change cannot be serialized.
\<close>

definition demo_cost :: "u64 \<Rightarrow> synthetic_cost" where
  "demo_cost n = \<lparr>sc_read_time = n, sc_compute_time = n, sc_block_usage = n, sc_bytes_written = n, sc_bytes_churned = n\<rparr>"

definition demo_cost_model :: "nat cost_model" where
  "demo_cost_model = \<lparr>cm_default = demo_cost 0, cm_add = (\<lambda>a b. demo_cost (sc_read_time a + sc_read_time b)),
     cm_normalize = (\<lambda>cost limits. Some \<lparr>nc_read_time = 1, nc_compute_time = 2, nc_block_usage = 3, nc_bytes_written = 4,
        nc_bytes_churned = 5\<rparr>)\<rparr>"

definition demo_output :: "u8 \<Rightarrow> utxo_output" where
  "demo_output b = \<lparr>ou_value = 100, ou_owner = [b], ou_type = [0]\<rparr>"

definition demo_intent :: intent where
  "demo_intent = \<lparr>in_intent_hash = (\<lambda>seg. if seg = 0 then [10] else [11]), in_guaranteed_outputs = [demo_output 1, demo_output 2],
     in_fallible_outputs = [demo_output 3], in_guaranteed_inputs = [], in_fallible_inputs = []\<rparr>"

definition demo_tx :: standard_tx where
  "demo_tx = \<lparr>sx_segments = [0, 1], sx_intents = [(1, demo_intent)]\<rparr>"

definition demo_claim :: claim where
  "demo_claim = \<lparr>cl_owner = [9], cl_value = 50, cl_nonce = [], cl_kind = CardanoBridge\<rparr>"

definition demo_apply :: "u64 \<Rightarrow> regular_tx \<Rightarrow> u64 tx_context \<Rightarrow> u64 \<times> (event_details, unit) applied" where
  "demo_apply s tx cx = (case tx of
     StandardTx _ \<Rightarrow> (if s < 100 then s + 1 else s, AppliedPartial [(0, Inr ()), (1, Inl ())] [EvZswapOutput, EvParamChange])
   | ClaimRewardsTx _ \<Rightarrow> (s, AppliedFailure ()))"

definition demo_crate :: "(u64, unit, regular_tx, event_details, unit, nat, unit) crate" where
  "demo_crate =
     \<lparr>cr_new = (\<lambda>_. 0), cr_deserialize_state = (\<lambda>_. Inr 0), cr_parameters = (\<lambda>_. ()), cr_serialize_parameters = (\<lambda>_. Inr []),
      cr_block_limits = (\<lambda>_. demo_cost 10), cr_bridge_receiving = (\<lambda>_ _. None),
      cr_deserialize_transaction = (\<lambda>raw. Inr (if raw = [] then ClaimRewardsTx demo_claim else StandardTx demo_tx)),
      cr_deserialize_system = (\<lambda>raw. Inr (OtherSystemTx ())), cr_cost = (\<lambda>_ _ _. Inr (demo_cost 4)),
      cr_fees = (\<lambda>_ _ _. Inr 7), cr_cost_with_state = (\<lambda>_ _ _ _. Inr (demo_cost 5)), cr_block_limit_exceeded = (),
      cr_overall_cost = (\<lambda>_ _. 7), cr_well_formed = (\<lambda>tx _ _ _. Inr tx), cr_apply = demo_apply,
      cr_system_cost = (\<lambda>_ _. demo_cost 1), cr_apply_system = (\<lambda>s _ _. Inr (s, [])),
      cr_post_block_update = (\<lambda>s _ _ _. Inr s), cr_content = (\<lambda>ev. ev),
      cr_serialize_event = (\<lambda>ev. if ev = EvParamChange then Inl () else Inr [1]), cr_serialize_dust_key = Inr,
      cr_serialize_path = (\<lambda>_. Inr []), cr_user_address = (\<lambda>key. key), cr_mk_intent_hash = (\<lambda>_ _. [12]),
      cr_persistent_commit = (\<lambda>_ h. h), cr_night_indices = (\<lambda>_ _. False), cr_utxo_ctime = (\<lambda>_ _. None)\<rparr>"

definition demo_trees :: "(u64, unit, unit, unit, unit, unit) trees" where
  "demo_trees =
     \<lparr>tr_zswap_first_free = (\<lambda>s. s), tr_commitments_first_free = (\<lambda>_. 0), tr_generating_tree_first_free = (\<lambda>_. 0),
      tr_coin_coms = (\<lambda>_. ()), tr_commitments = (\<lambda>_. ()), tr_generating_tree = (\<lambda>_. ()), tr_rehash = (\<lambda>t. t),
      tr_root = Some, tr_serialize_digest = (\<lambda>_. Inr [8]), tr_deserialize_digest = (\<lambda>_. Inr ()),
      tr_collapsed_update = (\<lambda>_ _ _. Inr ()), tr_serialize_update = (\<lambda>_. Inr []), tr_deserialize_address = Inr,
      tr_zswap_new = (), tr_zswap_filter = (\<lambda>_ _. ()), tr_set_coin_coms = (\<lambda>_ z. z), tr_serialize_zswap = (\<lambda>_. Inr [])\<rparr>"

definition demo_contract_crate :: "(unit, unit, unit) contract_crate" where
  "demo_contract_crate =
     \<lparr>cc_deserialize_v3 = (\<lambda>_. Inl ()), cc_deserialize_v4 = (\<lambda>_. Inl ()), cc_serialize_token = (\<lambda>_ _. Inl ()),
      cc_serialize_key = (\<lambda>_. Inl ())\<rparr>"

lemmas demo_ledger_defs = demo_crate_def demo_cost_model_def demo_cost_def demo_tx_def demo_claim_def demo_intent_def
  demo_output_def demo_apply_def

lemma demo_grows:
  "crate_grows demo_crate (tr_zswap_first_free demo_trees)" "crate_grows demo_crate (tr_commitments_first_free demo_trees)"
  "crate_grows demo_crate (tr_generating_tree_first_free demo_trees)"
proof -
  have "l \<le> l + 1" if "l < 100" for l :: u64
  proof -
    have "unat l < 100" using that by (simp add: word_less_nat_alt)
    then show ?thesis by (simp add: word_le_nat_alt unat_word_ariths)
  qed
  then show "crate_grows demo_crate (tr_zswap_first_free demo_trees)"
    by (auto simp: crate_grows_def demo_crate_def demo_trees_def demo_apply_def split: regular_tx.splits)
qed (auto simp: crate_grows_def demo_crate_def demo_trees_def)

theorem ledger_events_exact_witness:
  "make_ledger_events_v9 demo_crate [EvZswapOutput, EvParamChange, EvContractDeploy] = Inr [zswap_output [1]]
    \<and> map (\<lambda>e. (le_grouping e, le_raw e)) [zswap_output [1]] = [(Zswap, [1])]"
proof -
  have run: "make_ledger_events_v9 demo_crate [EvZswapOutput, EvParamChange, EvContractDeploy] = Inr [zswap_output [1]]"
    by (simp add: make_ledger_events_v9_def make_ledger_events_def make_ledger_event_v9_def make_common_event_def demo_crate_def
        and_then_def map_err_def)
  have "concat (map (kept LV9 demo_crate) [EvZswapOutput, EvParamChange, EvContractDeploy]) = [(Zswap, [1])]"
    by (simp add: kept_def demo_crate_def reported_def event_grouping_def)
  then show ?thesis
    using run ledger_events_exact [where ver = LV9 and cr = demo_crate
      and events = "[EvZswapOutput, EvParamChange, EvContractDeploy]" and out = "[zswap_output [1]]"]
    by simp
qed

theorem created_utxos_exact_witness:
  "segments_ok demo_tx
    \<and> phase_utxo demo_crate 5 0 True demo_intent 1
        \<in> set (fst (make_unshielded_utxos_for_regular_transaction demo_crate (StandardTx demo_tx) (PartialSuccess [(0, True), (1, False)]) 5))
    \<and> phase_utxo demo_crate 5 1 False demo_intent 0
        \<in> set (fst (make_unshielded_utxos_for_regular_transaction demo_crate (StandardTx demo_tx) Success 5))"
proof -
  have ok: "segments_ok demo_tx" by (auto simp: segments_ok_def demo_tx_def)
  have "length (in_guaranteed_outputs demo_intent) = 2" "length (in_fallible_outputs demo_intent) = 1"
    "sx_intents demo_tx = [(1, demo_intent)]" "sx_segments demo_tx = [0, 1]"
    by (simp_all add: demo_intent_def demo_tx_def)
  moreover have "\<exists>n < 2. phase_utxo demo_crate 5 0 True demo_intent 1 = phase_utxo demo_crate 5 0 True demo_intent n"
    by (rule exI [of _ 1]) simp
  ultimately show ?thesis
    using ok created_utxos_exact [OF ok, of demo_crate 5 "PartialSuccess [(0, True), (1, False)]"]
      created_utxos_exact [OF ok, of demo_crate 5 Success]
    by (auto simp del: One_nat_def)
qed

theorem failed_transaction_changes_nothing_witness:
  "\<exists>out. state_apply_regular demo_cost_model (\<lambda>_. demo_crate) (StateV9 5 (demo_cost 3)) [] [] 0 0 0 = Inr (out, StateV9 5 (demo_cost 3))
    \<and> ro_transaction_result out = Failure \<and> ro_created_unshielded_utxos out = []
    \<and> ro_bridge_claim out = Some \<lparr>bc_recipient = [9], bc_amount = 50\<rparr>"
proof -
  define run where "run = state_apply_regular demo_cost_model (\<lambda>_. demo_crate) (StateV9 5 (demo_cost 3)) [] [] 0 0 0"
  obtain out where r: "run = Inr (out, StateV9 5 (demo_cost 3))" and f: "ro_transaction_result out = Failure"
    by (simp add: run_def state_apply_regular_def apply_regular_v9_def fees_v9_def add_cost_def created_failure
        make_ledger_events_v9_def make_ledger_events_def demo_ledger_defs map_err_def and_then_def)
  have "cr_deserialize_transaction demo_crate [] = Inr (ClaimRewardsTx demo_claim)" by (simp add: demo_crate_def)
  then show ?thesis
    using r f failed_transaction_changes_nothing [OF r [unfolded run_def]] unfolding run_def
    by (auto simp: demo_claim_def demo_crate_def)
qed

theorem ledger_state_block_witness:
  "\<exists>out. apply_transactions (state_ops demo_cost_model (\<lambda>_. demo_crate) (\<lambda>_. demo_trees) demo_contract_crate) (StateV9 5 (demo_cost 0))
       [NodeRegular (sample_tx 1), NodeRegular (sample_tx 2)] [7] 20000 6000 True
     = Inr ((out, ParametersV9 ()), StateV9 7 (demo_cost 0))
   \<and> regular_intervals rt_zswap_start_index rt_zswap_end_index out = [(5, 6), (6, 7)]
   \<and> interval_chain 5 (regular_intervals rt_zswap_start_index rt_zswap_end_index out) 7"
proof -
  let ?ops = "state_ops demo_cost_model (\<lambda>_. demo_crate) (\<lambda>_. demo_trees) demo_contract_crate"
  define run where "run = apply_transactions ?ops (StateV9 5 (demo_cost 0))
      [NodeRegular (sample_tx 1), NodeRegular (sample_tx 2)] [7] 20000 6000 True"
  have ap: "\<exists>o1. apply_regular_transaction ?ops (StateV9 n f) (sample_tx b) [7] 20000 6000 w = Inr (Regular o1, StateV9 (n + 1) (demo_cost (sc_read_time f + 4)))
      \<and> rt_zswap_start_index o1 = n \<and> rt_zswap_end_index o1 = n + 1" if "n < 100" for n f b w
    using that
    by (simp add: apply_regular_transaction_def state_ops_def state_apply_regular_def apply_regular_v9_def fees_v9_def add_cost_def
        make_ledger_events_v9_def make_ledger_events_def make_ledger_event_v9_def make_common_event_def demo_ledger_defs map_err_def
        and_then_def sample_tx_def regular_transaction_from_def zswap_merkle_tree_root_def demo_trees_def expect_some_def
        zswap_first_free_def Let_def split_def)
  obtain o1 where o1: "apply_regular_transaction ?ops (StateV9 5 (demo_cost 0)) (sample_tx 1) [7] 20000 6000 18000 = Inr (Regular o1, StateV9 6 (demo_cost 4))"
    "rt_zswap_start_index o1 = 5" "rt_zswap_end_index o1 = 6"
    using ap [of 5 "demo_cost 0" 1 18000] by (auto simp: demo_cost_def)
  obtain o2 where o2: "apply_regular_transaction ?ops (StateV9 6 (demo_cost 4)) (sample_tx 2) [7] 20000 6000 20000 = Inr (Regular o2, StateV9 7 (demo_cost 8))"
    "rt_zswap_start_index o2 = 6" "rt_zswap_end_index o2 = 7"
    using ap [of 6 "demo_cost 4" 2 20000] by (auto simp: demo_cost_def)
  have fin: "finalize_apply_transactions demo_cost_model (\<lambda>_. demo_crate) (StateV9 7 (demo_cost 8)) 20000 = Inr (ParametersV9 (), StateV9 7 (demo_cost 0))"
    by (simp add: finalize_apply_transactions_def finalize_state_def clamp_and_normalize_def expect_some_def demo_ledger_defs map_err_def
        and_then_def)
  have r: "run = Inr (([Regular o1, Regular o2], ParametersV9 ()), StateV9 7 (demo_cost 0))"
    using o1 o2 fin by (simp add: run_def apply_transactions_def MEMPOOL_TBLOCK_BUMP_MILLIS_def state_ops_simps)
  have iv: "regular_intervals rt_zswap_start_index rt_zswap_end_index [Regular o1, Regular o2] = [(5, 6), (6, 7)]"
    using o1 o2 by (simp add: regular_intervals_def)
  have "zswap_first_free (\<lambda>_. demo_trees) (StateV9 n f) = n" for n f by (simp add: zswap_first_free_def demo_trees_def)
  then have "interval_chain 5 (regular_intervals rt_zswap_start_index rt_zswap_end_index [Regular o1, Regular o2]) 7"
    using ledger_state_block [OF demo_grows r [unfolded run_def]] by simp
  then show ?thesis using r iv unfolding run_def by blast
qed

end
