(* ===== verification/Ledger_Retention.thy ===== *)
theory Ledger_Retention
  imports Retention Ledger_State_Props
begin

text \<open>
  The retention window on the ledger state itself: \<^verbatim>\<open>LedgerState::persist\<close>, \<^verbatim>\<open>unpersist\<close>, \<^verbatim>\<open>root_hash_bytes\<close>
  and \<^verbatim>\<open>gc\<close> are shown to be a \<open>root_store\<close>, given what the storage crate under them promises (locale \<open>ledger_storage\<close>).
\<close>

section \<open>The storage crate\<close>

text \<open>
  What is relied on of the arena and the backend of \<^verbatim>\<open>default_storage\<close>: a serialized arena key is read back; \<^verbatim>\<open>Sp::persist\<close>
  raises the count of the root under the hash of the state's key, unless the 32-bit count is exhausted, and
  \<^verbatim>\<open>unpersist\<close> lowers a positive one; \<^verbatim>\<open>gc\<close> keeps the counts. \<open>ops\<close> is the same backend as the repair of the root counts
  uses it.
\<close>

locale ledger_storage = storage_backend ops cnt nd ok flushed
  for ops :: "('g, 'n) backend" and cnt and nd and ok and flushed +
  fixes ar :: "('s, 'k, 'g, 'e) arenas" and sd :: "'g storage_db"
  assumes key_roundtrip: "ar_serialize_key (ar ver) k = Inr raw \<Longrightarrow> ar_deserialize_key (ar ver) raw = Inr k"
    and arena_persist: "ok g \<Longrightarrow> cnt g (ar_key_hash (ar ver) (ar_typed_key (ar ver) s)) + 1 < 2 ^ 32 \<Longrightarrow>
      ok (ar_persist (ar ver) s g)
      \<and> cnt (ar_persist (ar ver) s g) = (cnt g)(ar_key_hash (ar ver) (ar_typed_key (ar ver) s) := cnt g (ar_key_hash (ar ver) (ar_typed_key (ar ver) s)) + 1)"
    and flush_same: "sd_flush sd = bk_flush ops"
    and db_unpersist: "ok g \<Longrightarrow> 0 < cnt g h \<Longrightarrow> ok (sd_unpersist sd h g) \<and> cnt (sd_unpersist sd h g) = (cnt g)(h := cnt g h - 1)"
    and db_gc: "ok g \<Longrightarrow> ok (snd (sd_gc sd n g)) \<and> cnt (snd (sd_gc sd n g)) = cnt g"
begin

lemma persist_root:
  assumes "ok g" and "\<forall>h. cnt g h + 1 < 2 ^ 32" and "persist ar sd st g = (Inr (st', key), g')"
  shows "ok g' \<and> (\<exists>h. root_hash_bytes ar key (ledger_version_of st') = Inr h \<and> cnt g' = (cnt g)(h := cnt g h + 1))"
proof -
  let ?v = "ledger_version_of st" and ?s = "inner_state st"
  let ?h = "ar_key_hash (ar ?v) (ar_typed_key (ar ?v) ?s)"
  have k: "ar_serialize_key (ar ?v) (ar_typed_key (ar ?v) ?s) = Inr key" and st': "st' = st"
    and g': "g' = sd_flush sd (ar_persist (ar ?v) ?s g)"
    using assms(3) by (auto simp: persist_def Let_def res_simps)
  have p: "ok (ar_persist (ar ?v) ?s g)" "cnt (ar_persist (ar ?v) ?s g) = (cnt g)(?h := cnt g ?h + 1)"
    using arena_persist [OF assms(1)] assms(2) by blast+
  have "root_hash_bytes ar key (ledger_version_of st') = Inr ?h"
    using key_roundtrip [OF k] by (simp add: st' root_hash_bytes_def arena_root_hash_def arena_key_def)
  then show ?thesis using flush [OF p(1)] p(2) by (simp add: g' flush_same)
qed

lemma unpersist_root:
  assumes "ok g" and "root_hash_bytes ar key v = Inr h" and "0 < cnt g h"
  shows "\<exists>g'. unpersist ar sd key v g = Inr g' \<and> ok g' \<and> cnt g' = (cnt g)(h := cnt g h - 1)"
  using db_unpersist [OF assms(1,3)] assms(2) by (simp add: unpersist_def root_hash_bytes_def)

end

sublocale ledger_storage \<subseteq> roots: root_store
  "\<lambda>st g. let (r, g') = persist ar sd st g in map_ok (\<lambda>x. (x, g')) r" ledger_version_of "unpersist ar sd"
  "\<lambda>g. snd (state_gc sd bound g)" "root_hash_bytes ar" cnt ok for bound
proof
  fix g l l' key g'
  assume ok: "ok g" "\<forall>h. cnt g h + 1 < 2 ^ 32" and "(let (r, g') = persist ar sd l g in map_ok (\<lambda>x. (x, g')) r) = Inr ((l', key), g')"
  then have "persist ar sd l g = (Inr (l', key), g')" by (cases "persist ar sd l g") (auto simp: res_simps)
  then show "ok g' \<and> (\<exists>h. root_hash_bytes ar key (ledger_version_of l') = Inr h \<and> cnt g' = (cnt g)(h := cnt g h + 1))"
    by (rule persist_root [OF ok])
next
  fix g assume "ok g"
  then show "ok (snd (state_gc sd bound g)) \<and> cnt (snd (state_gc sd bound g)) = cnt g" using db_gc by (simp add: state_gc_def)
qed (rule unpersist_root)

text \<open>The ledger environment of the chain indexer satisfies the contract of the retention window.\<close>

context ledger_storage
begin

lemma state_env_roots:
  "root_store (la_persist (state_env network_id bound cm cr tr ar sd cc translation)) (la_ledger_version (state_env network_id bound cm cr tr ar sd cc translation))
     (la_unpersist (state_env network_id bound cm cr tr ar sd cc translation)) (la_gc (state_env network_id bound cm cr tr ar sd cc translation))
     (root_hash_bytes ar) cnt ok"
  using roots.root_store_axioms [of bound] by (simp add: state_env_def)

end

section \<open>On the ledger database\<close>

text \<open>
  The storage written through to the ledger database of \<^verbatim>\<open>ledger_db/v1_1.rs\<close>, with the states under the keys that \<open>ser\<close>
  gives.
\<close>

definition through_arenas :: "('s \<Rightarrow> bytes) \<Rightarrow> ('s, bytes, ledger_db, unit) arenas" where
  "through_arenas ser = (\<lambda>_. \<lparr>ar_typed_key = ser, ar_serialize_key = Inr, ar_deserialize_key = Inr, ar_key_hash = (\<lambda>k. k),
     ar_get_lazy = (\<lambda>_ _. Inl ()), ar_persist = (\<lambda>s. bk_persist (ledger_backend (\<lambda>_. [])) (ser s))\<rparr>)"

definition through_db :: "ledger_db storage_db" where
  "through_db = \<lparr>sd_flush = id, sd_unpersist = (\<lambda>h db. set_root_count h (get_root_count db h - 1) db),
     sd_contains = (\<lambda>h db. map_of (ldb_nodes db) h \<noteq> None), sd_roots = get_roots, sd_gc = (\<lambda>_ db. (0, db))\<rparr>"

interpretation lst: ledger_storage "ledger_backend (\<lambda>_. [])" "\<lambda>db h. unat (get_root_count db h)"
  "\<lambda>db. map_of (ldb_nodes db)" ledger_db_ok "\<lambda>_. True" "through_arenas ser" through_db
  for ser :: "'s \<Rightarrow> bytes"
proof
  fix g :: ledger_db and h
  assume ok: "ledger_db_ok g" and pos: "0 < unat (get_root_count g h)"
  then have nz: "get_root_count g h \<noteq> 0" by auto
  then have "unat (get_root_count g h - 1) = unat (get_root_count g h) - 1" by (simp add: unat_minus_one)
  then show "ledger_db_ok (sd_unpersist through_db h g)
      \<and> (\<lambda>ha. unat (get_root_count (sd_unpersist through_db h g) ha)) = (\<lambda>ha. unat (get_root_count g ha))(h := unat (get_root_count g h) - 1)"
    using ledger_db_ok_set_root_count [OF ok] by (auto simp: through_db_def get_root_count_set fun_eq_iff)
qed (use ldb.persist [of _ _ "\<lambda>_. []"] in \<open>auto simp: through_arenas_def through_db_def ledger_backend_def\<close>)

section \<open>Property\<close>

text \<open>
  C16. From startup on, the indexing loop never unpersists a ledger state more often than it was persisted: it never fails in the
  step that trims the retention window, whatever blocks the node delivers and wherever the loop stops. The window never
  exceeds the configured retention, and each of its keys stays backed by a persist of its own. The ledger states are those of
  the code, persisted and unpersisted through the storage crate; a root is not persisted more often than 32 bits can count.
\<close>

theorem retention_never_underflows:
  assumes "ledger_storage ops cnt nd ok flushed ar sd"
    and "ok g" and "flushed g" and "finite (dom (nd g))" and "0 < retention" and "retention < 2 ^ 32"
    and "run_startup (state_env network_id gc_bound cm cr tr ar sd cc translation) (chain_storage feat) (root_hash_bytes ar)
      (repair_root_counts ops (root_hash_bytes ar)) (\<lambda>g. map fst (bk_get_roots ops g)) retention db g = Some (Inr (su, as_ledger_db st))"
    and "\<forall>k. ae_ledger (env_at k) = state_env network_id gc_bound cm cr tr ar sd cc translation"
    and "\<forall>h. cnt (as_ledger_db st) h + length items < 2 ^ 32"
    and "index_blocks env_at 0 retention gc_enabled items (su_ledger_state su, su_window su) st = (r, st')"
  shows "r \<noteq> Inl (Context ''unpersist ledger state beyond retention window'')
    \<and> (\<forall>l window. r = Inr (l, window) \<longrightarrow>
          length window \<le> retention \<and> backed (root_hash_bytes ar) (cnt (as_ledger_db st')) window)"
proof -
  have be: "storage_backend ops cnt nd ok flushed" using assms(1) by (rule ledger_storage.axioms)
  have roots: "env_roots (ae_ledger (env_at k)) (root_hash_bytes ar) cnt ok" for k
    unfolding assms(8) [rule_format] by (rule ledger_storage.state_env_roots [OF assms(1)])
  note start = run_startup_backed [OF be assms(2,3,4,6,7)]
  show ?thesis using index_blocks_backed [OF roots assms(5) _ _ _ assms(9,10)] start by blast
qed

text \<open>The small ledger of \<open>Ledger_State_Props\<close> on the storage written through, and a node with two blocks.\<close>

definition retention_ledger ::
  "(u64 ledger_state, unit lederr, (unit, unit) contract_state, unit ledger_parameters, unit zswap_root option, ledger_db) ledger_env" where
  "retention_ledger = state_env ''net'' 0 demo_cost_model (\<lambda>_. demo_crate) (\<lambda>_. demo_trees)
     (through_arenas (\<lambda>s. nat_to_be 8 (unat s))) through_db demo_contract_crate Inr"

definition retention_env ::
  "(u64 ledger_state, unit lederr, (unit, unit) contract_state, unit ledger_parameters, unit zswap_root option, ledger_db,
    chain_db, unit, message list, unit) app_env" where
  "retention_env =
     \<lparr>ae_caught_up_max_distance = 10, ae_caught_up_leeway = 5, ae_ledger = retention_ledger, ae_storage = chain_storage Standalone,
      ae_node = \<lparr>no_fetch_genesis_ledger_state = Inr [],
                 no_fetch_system_parameters = (\<lambda>hash height ts v. Inr \<lparr>spc_block_height = height,
                   spc_block_hash = hash, spc_timestamp = ts, spc_d_parameter = None, spc_terms_and_conditions = None\<rparr>)\<rparr>,
      ae_publish = (\<lambda>m q. Inr (q @ [m])), ae_highest_block_on_node = None, ae_hash_order = sorted_list_of_set\<rparr>"

definition retention_block :: "u64 \<Rightarrow> u8 \<Rightarrow> u8 \<Rightarrow> unit zswap_root option node_block" where
  "retention_block height hash parent =
     \<lparr>nb_hash = replicate 32 hash, nb_height = height, nb_protocol_version = V0_22 22000,
      nb_parent_hash = replicate 32 parent, nb_author = None, nb_timestamp = 6000 * height,
      nb_zswap_merkle_tree_root = Some (RootV8 ()), nb_ledger_state_root = None, nb_transactions = [],
      nb_dust_registration_events = [], nb_bridge_events = []\<rparr>"

definition retention_startup :: "u64 ledger_state startup" where
  "retention_startup = \<lparr>su_highest_block_ref = None, su_parent_block_timestamp = 0, su_window = [],
     su_ledger_state = StateV8 0 (demo_cost 0)\<rparr>"

lemma retention_startup_run:
  "run_startup retention_ledger (chain_storage Standalone) (root_hash_bytes (through_arenas (\<lambda>s :: u64. nat_to_be 8 (unat s))))
     (repair_root_counts (ledger_backend (\<lambda>_. [])) (root_hash_bytes (through_arenas (\<lambda>s :: u64. nat_to_be 8 (unat s)))))
     (\<lambda>g. map fst (bk_get_roots (ledger_backend (\<lambda>_. [])) g)) 1 empty_chain_db (as_ledger_db demo_state)
   = Some (Inr (retention_startup, as_ledger_db demo_state))"
  by (simp add: run_startup_def chain_storage_def get_highest_block_def get_highest_block_timestamp_def
      get_newest_ledger_state_keys_def blocks_desc_def order_by_desc_def first_row_def empty_chain_db_def
      empty_table_def repair_root_counts_def window_root_counts_def raise_root_counts_def ledger_backend_def
      get_roots_def demo_state_def seed_window_def initial_ledger_state_def retention_ledger_def state_env_def state_new_def
      OLDEST_def demo_crate_def demo_cost_model_def retention_startup_def unwrap_or_zero_def Let_def)

theorem retention_never_underflows_witness:
  "\<exists>r st'. index_blocks (\<lambda>_. retention_env) 0 1 True [Inr (retention_block 0 1 0), Inr (retention_block 1 2 1)]
       (su_ledger_state retention_startup, su_window retention_startup) demo_state = (r, st')
     \<and> r \<noteq> Inl (Context ''unpersist ledger state beyond retention window'')"
proof -
  let ?items = "[Inr (retention_block 0 1 0), Inr (retention_block 1 2 1)]"
  obtain r st' where run: "index_blocks (\<lambda>_. retention_env) 0 1 True ?items
       (su_ledger_state retention_startup, su_window retention_startup) demo_state = (r, st')" by (metis surj_pair)
  have ok: "ledger_db_ok (as_ledger_db demo_state)" "finite (dom (map_of (ldb_nodes (as_ledger_db demo_state))))"
    by (simp_all add: demo_state_def ledger_db_ok_def)
  have env: "\<forall>k :: nat. ae_ledger retention_env = state_env ''net'' 0 demo_cost_model (\<lambda>_. demo_crate) (\<lambda>_. demo_trees)
     (through_arenas (\<lambda>s. nat_to_be 8 (unat s))) through_db demo_contract_crate Inr"
    by (simp add: retention_env_def retention_ledger_def)
  have room: "\<forall>h. unat (get_root_count (as_ledger_db demo_state) h) + length ?items < 2 ^ 32"
    by (simp add: demo_state_def get_root_count_def)
  show ?thesis
    using run retention_never_underflows [OF lst.ledger_storage_axioms ok(1) TrueI ok(2) _ _
        retention_startup_run [unfolded retention_ledger_def] env room run]
    by auto
qed

end
