(* ===== verification/State_Translation.thy ===== *)
theory State_Translation
  imports Ledger_State
begin

text \<open>
  The translation of a ledger 8 state into a ledger 9 state,
  \<^verbatim>\<open>indexer-common/src/domain/ledger/state_translation_v8_to_v9.rs\<close>: the table of translations, what each
  of them requires and produces, and the driver. The walk over the state is the storage crate's: it calls
  \<open>finalize\<close> on an object once the translations it asked for are in the cache, which is a parameter.
\<close>

section \<open>Objects in the arena\<close>

text \<open>
  A pointer \<^verbatim>\<open>Sp\<close> is the arena key of what it points to. A cache gives for a translation and a key the
  pointer to the translated object, if it is known; \<^verbatim>\<open>try_resopt!\<close> returns early on an error and on \<^verbatim>\<open>None\<close>.
\<close>

type_synonym sp = bytes

datatype translation_id = TranslationId string string

type_synonym 'e cache = "translation_id \<Rightarrow> sp \<Rightarrow> 'e + sp option"

definition try_resopt :: "'e + 'a option \<Rightarrow> ('a \<Rightarrow> 'e + 'b option) \<Rightarrow> 'e + 'b option" where
  "try_resopt r f = (case r of Inl e \<Rightarrow> Inl e | Inr None \<Rightarrow> Inr None | Inr (Some a) \<Rightarrow> f a)"

fun resolve_all :: "'e cache \<Rightarrow> (translation_id \<times> sp) list \<Rightarrow> 'e + sp list option" where
  "resolve_all cache [] = Inr (Some [])"
| "resolve_all cache ((tid, child) # tls) =
     try_resopt (cache tid child) (\<lambda>q. try_resopt (resolve_all cache tls) (\<lambda>qs. Inr (Some (q # qs))))"

text \<open>\<open>other\<close> is \<^verbatim>\<open>io::Error::other\<close>, \<open>get_lazy\<close> the arena's lookup by key, which fails for a key it does not have.\<close>

definition recast :: "(string \<Rightarrow> 'e) \<Rightarrow> (sp \<Rightarrow> 'e + sp) \<Rightarrow> string \<Rightarrow> string \<Rightarrow> sp \<Rightarrow> 'e + sp" where
  "recast other get_lazy tag_a tag_b a = (if tag_a \<noteq> tag_b then Inl (other ''tags do not match'') else get_lazy a)"

definition recast_base ::
  "(string \<Rightarrow> 'e) \<Rightarrow> ('a \<Rightarrow> 'e + bytes) \<Rightarrow> (bytes \<Rightarrow> 'e + 'b) \<Rightarrow> string \<Rightarrow> string \<Rightarrow> 'a \<Rightarrow> 'e + 'b" where
  "recast_base other ser de tag_a tag_b a =
     (if tag_a \<noteq> tag_b then Inl (other ''tags do not match'') else and_then (ser a) de)"

section \<open>Tries\<close>

datatype 'a mpt_node =
    NEmpty
  | NLeaf 'a sp
  | NBranch 'a "sp list"
  | NExtension 'a "nat list" sp
  | NMidBranchLeaf 'a sp sp

text \<open>Annotations of the new trie: the monoid, the annotation of a value, and of the node a pointer points to.\<close>

record 'b annotation =
  an_empty :: 'b
  an_append :: "'b \<Rightarrow> 'b \<Rightarrow> 'b"
  an_from_value :: "sp \<Rightarrow> 'b"
  an_node :: "sp \<Rightarrow> 'b"

definition mpt_node_children :: "translation_id \<Rightarrow> translation_id \<Rightarrow> 'a mpt_node \<Rightarrow> (translation_id \<times> sp) list" where
  "mpt_node_children entry_tl self_tl source =
     (case source of
        NEmpty \<Rightarrow> []
      | NBranch _ children \<Rightarrow> map (\<lambda>child. (self_tl, child)) children
      | NExtension _ _ child \<Rightarrow> [(self_tl, child)]
      | NMidBranchLeaf _ val child \<Rightarrow> [(entry_tl, val), (self_tl, child)]
      | NLeaf _ val \<Rightarrow> [(entry_tl, val)])"

text \<open>\<open>new_empty\<close> is \<^verbatim>\<open>Sp::new(Node::Empty)\<close>, which fills the sixteen children before they are overwritten.\<close>

definition mpt_node_finalize ::
  "'b annotation \<Rightarrow> sp \<Rightarrow> translation_id \<Rightarrow> translation_id \<Rightarrow> 'e cache \<Rightarrow> 'a mpt_node \<Rightarrow> 'e + 'b mpt_node option" where
  "mpt_node_finalize an new_empty entry_tl self_tl cache source =
     (let tls = mpt_node_children entry_tl self_tl source in
      case source of
        NEmpty \<Rightarrow> Inr (Some NEmpty)
      | NBranch _ _ \<Rightarrow>
          try_resopt (resolve_all cache (take 16 tls)) (\<lambda>resolved.
          let new_children = resolved @ drop (length resolved) (replicate 16 new_empty);
              ann = foldl (\<lambda>acc x. an_append an acc (an_node an x)) (an_empty an) new_children
          in Inr (Some (NBranch ann new_children)))
      | NExtension _ compressed_path _ \<Rightarrow>
          try_resopt (cache (fst (tls ! 0)) (snd (tls ! 0))) (\<lambda>child.
          Inr (Some (NExtension (an_node an child) compressed_path child)))
      | NLeaf _ _ \<Rightarrow>
          try_resopt (cache (fst (tls ! 0)) (snd (tls ! 0))) (\<lambda>val.
          Inr (Some (NLeaf (an_from_value an val) val)))
      | NMidBranchLeaf _ _ _ \<Rightarrow>
          try_resopt (cache (fst (tls ! 0)) (snd (tls ! 0))) (\<lambda>val.
          try_resopt (cache (fst (tls ! 1)) (snd (tls ! 1))) (\<lambda>child.
          Inr (Some (NMidBranchLeaf (an_append an (an_from_value an val) (an_node an child)) val child)))))"

text \<open>A trie is the pointer to its root node.\<close>

definition mpt_children :: "translation_id \<Rightarrow> sp \<Rightarrow> (translation_id \<times> sp) list" where
  "mpt_children node_tl root_node = [(node_tl, root_node)]"

definition mpt_finalize :: "translation_id \<Rightarrow> 'e cache \<Rightarrow> sp \<Rightarrow> 'e + sp option" where
  "mpt_finalize node_tl cache root_node =
     (let tls = mpt_children node_tl root_node in
      try_resopt (cache (fst (tls ! 0)) (snd (tls ! 0))) (\<lambda>q. Inr (Some q)))"

definition identity_finalize :: "'v \<Rightarrow> 'e + 'v option" where
  "identity_finalize source = Inr (Some source)"

section \<open>Tags and the table\<close>

text \<open>The tags of the types of the crates that the translation names.\<close>

record tags =
  tg_u128 :: string
  tg_size_ann :: string
  tg_night_ann_v8 :: string
  tg_night_ann_v9 :: string
  tg_contract_v8 :: string
  tg_contract_v9 :: string
  tg_parameters_v8 :: string
  tg_parameters_v9 :: string
  tg_state_v8 :: string
  tg_state_v9 :: string
  tg_mpt :: "string \<Rightarrow> string \<Rightarrow> string"
  tg_mpt_node :: "string \<Rightarrow> string \<Rightarrow> string"

definition contract_mpt :: "tags \<Rightarrow> translation_id" where
  "contract_mpt tg = TranslationId (tg_mpt tg (tg_contract_v8 tg) (tg_night_ann_v8 tg)) (tg_mpt tg (tg_contract_v9 tg) (tg_night_ann_v9 tg))"

definition bridge_receiving_mpt :: "tags \<Rightarrow> translation_id" where
  "bridge_receiving_mpt tg = TranslationId (tg_mpt tg (tg_u128 tg) (tg_size_ann tg)) (tg_mpt tg (tg_u128 tg) (tg_night_ann_v9 tg))"

definition parameters_tl :: "tags \<Rightarrow> translation_id" where
  "parameters_tl tg = TranslationId (tg_parameters_v8 tg) (tg_parameters_v9 tg)"

datatype translation =
    LedgerStateTl | LedgerParametersTl | ContractStateTl | ContractMptTl | ContractNodeTl | IdentityTl | BridgeMptTl | BridgeNodeTl

text \<open>\<^verbatim>\<open>required_translations\<close> of the entries; \<open>mpt_required\<close> and \<open>mpt_node_required\<close> are those of \<^verbatim>\<open>MptTl\<close>.\<close>

definition mpt_required :: "tags \<Rightarrow> string \<Rightarrow> string \<Rightarrow> string \<Rightarrow> string \<Rightarrow> translation_id list" where
  "mpt_required tg a b ann_a ann_b = [TranslationId (tg_mpt_node tg a ann_a) (tg_mpt_node tg b ann_b)]"

definition mpt_node_required :: "tags \<Rightarrow> string \<Rightarrow> string \<Rightarrow> string \<Rightarrow> string \<Rightarrow> translation_id list" where
  "mpt_node_required tg a b ann_a ann_b =
     [TranslationId a b, TranslationId (tg_mpt_node tg a ann_a) (tg_mpt_node tg b ann_b)]"

fun required_translations :: "tags \<Rightarrow> translation \<Rightarrow> translation_id list" where
  "required_translations tg LedgerStateTl = [parameters_tl tg, bridge_receiving_mpt tg, contract_mpt tg]"
| "required_translations tg LedgerParametersTl = []"
| "required_translations tg ContractStateTl = []"
| "required_translations tg ContractMptTl =
     mpt_required tg (tg_contract_v8 tg) (tg_contract_v9 tg) (tg_night_ann_v8 tg) (tg_night_ann_v9 tg)"
| "required_translations tg ContractNodeTl =
     mpt_node_required tg (tg_contract_v8 tg) (tg_contract_v9 tg) (tg_night_ann_v8 tg) (tg_night_ann_v9 tg)"
| "required_translations tg IdentityTl = []"
| "required_translations tg BridgeMptTl = mpt_required tg (tg_u128 tg) (tg_u128 tg) (tg_size_ann tg) (tg_night_ann_v9 tg)"
| "required_translations tg BridgeNodeTl = mpt_node_required tg (tg_u128 tg) (tg_u128 tg) (tg_size_ann tg) (tg_night_ann_v9 tg)"

definition TABLE :: "(translation_id \<times> translation) list" where
  "TABLE =
     [(TranslationId ''ledger-state[v13]'' ''ledger-state[v18]'', LedgerStateTl),
      (TranslationId ''ledger-parameters[v5]'' ''ledger-parameters[v8]'', LedgerParametersTl),
      (TranslationId ''contract-state[v6]'' ''contract-state[v8]'', ContractStateTl),
      (TranslationId ''mpt(contract-state[v6],night-annotation)'' ''mpt(contract-state[v8],night-annotation)'', ContractMptTl),
      (TranslationId ''mpt-node(contract-state[v6],night-annotation)'' ''mpt-node(contract-state[v8],night-annotation)'',
        ContractNodeTl),
      (TranslationId ''u128'' ''u128'', IdentityTl),
      (TranslationId ''mpt(u128,size-annotation)'' ''mpt(u128,night-annotation)'', BridgeMptTl),
      (TranslationId ''mpt-node(u128,size-annotation)'' ''mpt-node(u128,night-annotation)'', BridgeNodeTl)]"

section \<open>The ledger state\<close>

record lstate =
  ls_network_id :: string
  ls_parameters :: sp
  ls_locked_pool :: u128
  ls_bridge_receiving :: sp
  ls_reserve_pool :: u128
  ls_block_reward_pool :: u128
  ls_unclaimed_block_rewards :: sp
  ls_treasury :: sp
  ls_zswap :: sp
  ls_contract :: sp
  ls_utxo :: sp
  ls_replay_protection :: sp
  ls_dust :: sp

definition lstate_children :: "tags \<Rightarrow> lstate \<Rightarrow> (translation_id \<times> sp) list" where
  "lstate_children tg source =
     [(parameters_tl tg, ls_parameters source), (bridge_receiving_mpt tg, ls_bridge_receiving source),
      (contract_mpt tg, ls_contract source)]"

text \<open>\<open>lookup\<close> is the cache's; \<open>rc\<close> recasts a subtree, given the name of the field whose tags it compares.\<close>

definition lstate_finalize ::
  "tags \<Rightarrow> (translation_id \<Rightarrow> sp \<Rightarrow> sp option) \<Rightarrow> (string \<Rightarrow> sp \<Rightarrow> 'e + sp) \<Rightarrow> lstate \<Rightarrow> 'e + lstate option" where
  "lstate_finalize tg lookup rc source =
     (case lookup (parameters_tl tg) (ls_parameters source) of None \<Rightarrow> Inr None | Some parameters \<Rightarrow>
      case lookup (bridge_receiving_mpt tg) (ls_bridge_receiving source) of None \<Rightarrow> Inr None | Some bridge_recv_mpt \<Rightarrow>
      case lookup (contract_mpt tg) (ls_contract source) of None \<Rightarrow> Inr None | Some contract_trie \<Rightarrow>
      and_then (rc ''unclaimed_block_rewards'' (ls_unclaimed_block_rewards source)) (\<lambda>unclaimed.
      and_then (rc ''treasury'' (ls_treasury source)) (\<lambda>treasury.
      and_then (rc ''zswap'' (ls_zswap source)) (\<lambda>zswap.
      and_then (rc ''utxo'' (ls_utxo source)) (\<lambda>utxo.
      and_then (rc ''replay_protection'' (ls_replay_protection source)) (\<lambda>replay_protection.
      and_then (rc ''dust'' (ls_dust source)) (\<lambda>dust.
      Inr (Some \<lparr>ls_network_id = ls_network_id source, ls_parameters = parameters, ls_locked_pool = ls_locked_pool source,
        ls_bridge_receiving = bridge_recv_mpt, ls_reserve_pool = ls_reserve_pool source,
        ls_block_reward_pool = ls_block_reward_pool source, ls_unclaimed_block_rewards = unclaimed, ls_treasury = treasury,
        ls_zswap = zswap, ls_contract = contract_trie, ls_utxo = utxo, ls_replay_protection = replay_protection,
        ls_dust = dust\<rparr>))))))))"

section \<open>Ledger parameters\<close>

text \<open>
  \<open>'w\<close> are the values of types both versions share, which are assigned directly; \<open>'a\<close> and \<open>'b\<close> the types of
  ledger 8 and of ledger 9 that go through the serializer.
\<close>

record ('w, 'a) parameters_v8 =
  p8_runtime_cost_model :: 'a
  p8_baseline_cost :: 'a
  p8_parallelism_factor :: 'w
  p8_transaction_byte_limit :: 'w
  p8_time_to_dismiss_per_byte :: 'w
  p8_min_time_to_dismiss :: 'w
  p8_block_limits :: 'w
  p8_block_withdrawal_minimum_multiple :: 'w
  p8_dust :: 'a
  p8_fee_prices :: 'a
  p8_global_ttl :: 'w
  p8_cost_dimension_min_ratio :: 'w
  p8_price_adjustment_a_parameter :: 'w
  p8_bridge_fee_basis_points :: 'w
  p8_bridge_min_amount :: 'w

record ('w, 'b) parameters_v9 =
  p9_runtime_cost_model :: 'b
  p9_baseline_cost :: 'b
  p9_validation_factor :: 'w
  p9_guaranteed_factor :: 'w
  p9_fallible_factor :: 'w
  p9_transaction_byte_limit :: 'w
  p9_time_to_dismiss_per_byte :: 'w
  p9_min_time_to_dismiss :: 'w
  p9_block_limits :: 'w
  p9_block_withdrawal_minimum_multiple :: 'w
  p9_max_contract_metadata_size :: 'w
  p9_dust :: 'b
  p9_fee_prices :: 'b
  p9_global_ttl :: 'w
  p9_cost_dimension_min_ratio :: 'w
  p9_price_adjustment_a_parameter :: 'w
  p9_bridge_fee_basis_points :: 'w
  p9_bridge_min_amount :: 'w
  p9_min_block_price :: 'w

definition parameters_finalize ::
  "('w, 'b) parameters_v9 \<Rightarrow> (string \<Rightarrow> 'a \<Rightarrow> 'e + 'b) \<Rightarrow> ('w, 'a) parameters_v8 \<Rightarrow> 'e + ('w, 'b) parameters_v9 option" where
  "parameters_finalize INITIAL_PARAMETERS rcb source =
     and_then (rcb ''runtime_cost_model'' (p8_runtime_cost_model source)) (\<lambda>runtime_cost_model.
     and_then (rcb ''baseline_cost'' (p8_baseline_cost source)) (\<lambda>baseline_cost.
     and_then (rcb ''dust'' (p8_dust source)) (\<lambda>dust.
     and_then (rcb ''fee_prices'' (p8_fee_prices source)) (\<lambda>fee_prices.
     Inr (Some \<lparr>p9_runtime_cost_model = runtime_cost_model, p9_baseline_cost = baseline_cost,
       p9_validation_factor = p9_validation_factor INITIAL_PARAMETERS,
       p9_guaranteed_factor = p9_guaranteed_factor INITIAL_PARAMETERS,
       p9_fallible_factor = p9_fallible_factor INITIAL_PARAMETERS,
       p9_transaction_byte_limit = p8_transaction_byte_limit source,
       p9_time_to_dismiss_per_byte = p8_time_to_dismiss_per_byte source,
       p9_min_time_to_dismiss = p8_min_time_to_dismiss source, p9_block_limits = p8_block_limits source,
       p9_block_withdrawal_minimum_multiple = p8_block_withdrawal_minimum_multiple source,
       p9_max_contract_metadata_size = p9_max_contract_metadata_size INITIAL_PARAMETERS,
       p9_dust = dust, p9_fee_prices = fee_prices, p9_global_ttl = p8_global_ttl source,
       p9_cost_dimension_min_ratio = p8_cost_dimension_min_ratio source,
       p9_price_adjustment_a_parameter = p8_price_adjustment_a_parameter source,
       p9_bridge_fee_basis_points = p8_bridge_fee_basis_points source,
       p9_bridge_min_amount = p8_bridge_min_amount source,
       p9_min_block_price = p9_min_block_price INITIAL_PARAMETERS\<rparr>)))))"

section \<open>Contract states\<close>

record 'q operation_v9 =
  op_v2 :: "'q option"
  op_v3 :: "'q option"
  op_ir :: "'q option"

definition translate_contract_operation :: "'q option \<Rightarrow> 'q operation_v9" where
  "translate_contract_operation v2 = (let op = \<lparr>op_v2 = None, op_v3 = None, op_ir = None\<rparr> in op\<lparr>op_v2 := v2\<rparr>)"

record ('q, 'k) contract_v8 =
  c8_data :: sp
  c8_operations :: "(bytes \<times> 'q option) list"
  c8_committee :: "'k list"
  c8_threshold :: u32
  c8_counter :: u32
  c8_balance :: sp

record ('q, 'k) contract_v9 =
  c9_data :: sp
  c9_operations :: "bytes \<rightharpoonup> 'q operation_v9"
  c9_committee :: "'k committee_key list"
  c9_threshold :: u32
  c9_counter :: u32
  c9_balance :: sp

definition contract_finalize ::
  "(string \<Rightarrow> sp \<Rightarrow> 'e + sp) \<Rightarrow> ('q, 'k) contract_v8 \<Rightarrow> 'e + ('q, 'k) contract_v9 option" where
  "contract_finalize rc source =
     (let operations = foldl (\<lambda>m (key, op). m(key \<mapsto> translate_contract_operation op)) Map.empty (c8_operations source);
          committee_v9 = map SchnorrKey (c8_committee source)
      in and_then (rc ''data'' (c8_data source)) (\<lambda>data.
         and_then (rc ''balance'' (c8_balance source)) (\<lambda>balance.
         Inr (Some \<lparr>c9_data = data, c9_operations = operations, c9_committee = committee_v9,
           c9_threshold = c8_threshold source, c9_counter = c8_counter source, c9_balance = balance\<rparr>))))"

section \<open>The driver\<close>

definition MAX_STEPS :: nat where
  "MAX_STEPS = 100000"

text \<open>\<open>steps\<close> more iterations are allowed; \<open>run\<close> spends one budget and \<open>result\<close> is \<open>Some\<close> when the walk is done.\<close>

fun translate_loop :: "(string \<Rightarrow> 'e) \<Rightarrow> ('q \<Rightarrow> 'e + 'q) \<Rightarrow> ('q \<Rightarrow> 'e + 's option) \<Rightarrow> nat \<Rightarrow> 'q \<Rightarrow> 'e + 's" where
  "translate_loop other run result 0 walk = Inl (other ''v8->v9 ledger state translation did not converge'')"
| "translate_loop other run result (Suc steps) walk =
     and_then (run walk) (\<lambda>walk.
     and_then (result walk) (\<lambda>r.
     case r of Some res \<Rightarrow> Inr res | None \<Rightarrow> translate_loop other run result steps walk))"

definition translate_ledger_state ::
  "(string \<Rightarrow> 'e) \<Rightarrow> ('s \<Rightarrow> 'e + 'q) \<Rightarrow> ('q \<Rightarrow> 'e + 'q) \<Rightarrow> ('q \<Rightarrow> 'e + 's option) \<Rightarrow> 's \<Rightarrow> 'e + 's" where
  "translate_ledger_state other start run result input =
     and_then (start input) (translate_loop other run result MAX_STEPS)"

section \<open>Tries as trees\<close>

text \<open>A trie followed through its pointers, its entries by path, and the tree a translation should produce.\<close>

datatype 'a mpt =
    MEmpty
  | MLeaf 'a sp
  | MBranch 'a "'a mpt list"
  | MExtension 'a "nat list" "'a mpt"
  | MMid 'a sp "'a mpt"

inductive represents :: "(sp \<rightharpoonup> 'a mpt_node) \<Rightarrow> sp \<Rightarrow> 'a mpt \<Rightarrow> bool" for store where
  rep_empty: "store p = Some NEmpty \<Longrightarrow> represents store p MEmpty"
| rep_leaf: "store p = Some (NLeaf a v) \<Longrightarrow> represents store p (MLeaf a v)"
| rep_branch: "store p = Some (NBranch a ps) \<Longrightarrow> length ps = 16 \<Longrightarrow> list_all2 (represents store) ps cs \<Longrightarrow>
    represents store p (MBranch a cs)"
| rep_extension: "store p = Some (NExtension a path q) \<Longrightarrow> represents store q c \<Longrightarrow> represents store p (MExtension a path c)"
| rep_mid: "store p = Some (NMidBranchLeaf a v q) \<Longrightarrow> represents store q c \<Longrightarrow> represents store p (MMid a v c)"

fun tree_ann :: "'b annotation \<Rightarrow> 'b mpt \<Rightarrow> 'b" where
  "tree_ann an MEmpty = an_empty an"
| "tree_ann an (MLeaf a _) = a"
| "tree_ann an (MBranch a _) = a"
| "tree_ann an (MExtension a _ _) = a"
| "tree_ann an (MMid a _ _) = a"

fun translated :: "'b annotation \<Rightarrow> (sp \<Rightarrow> sp) \<Rightarrow> 'a mpt \<Rightarrow> 'b mpt" where
  "translated an vf MEmpty = MEmpty"
| "translated an vf (MLeaf _ v) = MLeaf (an_from_value an (vf v)) (vf v)"
| "translated an vf (MBranch _ cs) =
     (let cs' = map (translated an vf) cs in MBranch (foldl (\<lambda>acc c. an_append an acc (tree_ann an c)) (an_empty an) cs') cs')"
| "translated an vf (MExtension _ path c) = (let c' = translated an vf c in MExtension (tree_ann an c') path c')"
| "translated an vf (MMid _ v c) =
     (let c' = translated an vf c in MMid (an_append an (an_from_value an (vf v)) (tree_ann an c')) (vf v) c')"

definition branch_entries :: "nat \<Rightarrow> (nat list \<times> sp) list list \<Rightarrow> (nat list \<times> sp) list" where
  "branch_entries n ess = concat (map (\<lambda>(i, es). map (apfst ((#) i)) es) (List.enumerate n ess))"

fun trie_entries :: "'a mpt \<Rightarrow> (nat list \<times> sp) list" where
  "trie_entries MEmpty = []"
| "trie_entries (MLeaf _ v) = [([], v)]"
| "trie_entries (MBranch _ cs) = branch_entries 0 (map trie_entries cs)"
| "trie_entries (MExtension _ path c) = map (apfst ((@) path)) (trie_entries c)"
| "trie_entries (MMid _ v c) = ([], v) # trie_entries c"

lemma branch_entries_map: "branch_entries n (map (map (apsnd f)) ess) = map (apsnd f) (branch_entries n ess)"
  by (induction ess arbitrary: n) (auto simp: branch_entries_def comp_def)

lemma branch_entries_values: "map snd (branch_entries n ess) = concat (map (map snd) ess)"
  by (induction ess arbitrary: n) (auto simp: branch_entries_def comp_def)

lemma entries_translated: "trie_entries (translated an vf t) = map (apsnd vf) (trie_entries t)"
proof (induction t)
  case (MBranch a cs)
  have "map (\<lambda>c. trie_entries (translated an vf c)) cs = map (map (apsnd vf)) (map trie_entries cs)" using MBranch by simp
  moreover have "trie_entries (translated an vf (MBranch a cs)) = branch_entries 0 (map (\<lambda>c. trie_entries (translated an vf c)) cs)"
    by (simp add: Let_def comp_def)
  ultimately show ?case by (simp only: branch_entries_map trie_entries.simps)
qed (auto simp: Let_def comp_def)

text \<open>The annotation of a translated trie is the sum over its values, in order.\<close>

definition monoid_annotation :: "'b annotation \<Rightarrow> bool" where
  "monoid_annotation an \<longleftrightarrow> (\<forall>x. an_append an (an_empty an) x = x \<and> an_append an x (an_empty an) = x)
     \<and> (\<forall>x y z. an_append an (an_append an x y) z = an_append an x (an_append an y z))"

definition sum_values :: "'b annotation \<Rightarrow> sp list \<Rightarrow> 'b" where
  "sum_values an vs = foldr (\<lambda>v acc. an_append an (an_from_value an v) acc) vs (an_empty an)"

lemma sum_values_append:
  "monoid_annotation an \<Longrightarrow> sum_values an (vs @ ws) = an_append an (sum_values an vs) (sum_values an ws)"
  by (induction vs) (auto simp: sum_values_def monoid_annotation_def)

lemma foldl_sum:
  assumes "monoid_annotation an" and "\<And>c. c \<in> set cs \<Longrightarrow> tree_ann an (f c) = sum_values an (g c)"
  shows "foldl (\<lambda>acc c. an_append an acc (tree_ann an c)) (sum_values an vs) (map f cs) = sum_values an (vs @ concat (map g cs))"
  using assms(2)
proof (induction cs arbitrary: vs)
  case (Cons c cs)
  then show ?case using Cons.IH [of "vs @ g c"] by (simp add: sum_values_append [OF assms(1)])
qed simp

lemma tree_ann_translated:
  assumes "monoid_annotation an"
  shows "tree_ann an (translated an vf t) = sum_values an (map (vf \<circ> snd) (trie_entries t))"
proof (induction t)
  case (MBranch a cs)
  have "map (vf \<circ> snd) (trie_entries (MBranch a cs)) = map vf (concat (map (map snd) (map trie_entries cs)))"
    by (simp only: list.map_comp [symmetric] branch_entries_values trie_entries.simps)
  also have "\<dots> = concat (map (\<lambda>c. map (vf \<circ> snd) (trie_entries c)) cs)"
    by (simp add: map_concat comp_def)
  finally have "map (vf \<circ> snd) (trie_entries (MBranch a cs)) = concat (map (\<lambda>c. map (vf \<circ> snd) (trie_entries c)) cs)" .
  moreover have "sum_values an [] = an_empty an" by (simp add: sum_values_def)
  moreover have "foldl (\<lambda>acc c. an_append an acc (tree_ann an c)) (sum_values an []) (map (translated an vf) cs)
      = sum_values an ([] @ concat (map (\<lambda>c. map (vf \<circ> snd) (trie_entries c)) cs))"
    by (rule foldl_sum [OF assms]) (rule MBranch)
  ultimately show ?case by (simp only: translated.simps Let_def tree_ann.simps append_Nil)
qed (use assms in \<open>auto simp: Let_def sum_values_def monoid_annotation_def comp_def\<close>)

section \<open>The translation of a trie\<close>

fun node_ann :: "'b annotation \<Rightarrow> 'b mpt_node \<Rightarrow> 'b" where
  "node_ann an NEmpty = an_empty an"
| "node_ann an (NLeaf a _) = a"
| "node_ann an (NBranch a _) = a"
| "node_ann an (NExtension a _ _) = a"
| "node_ann an (NMidBranchLeaf a _ _) = a"

fun node_values :: "'a mpt_node \<Rightarrow> sp list" where
  "node_values (NLeaf _ v) = [v]"
| "node_values (NMidBranchLeaf _ v _) = [v]"
| "node_values _ = []"

text \<open>
  What the storage crate's walk promises when it is done: the values of the stored nodes are cached as \<open>vf\<close>
  says, every stored node is cached as a pointer to the node its \<open>finalize\<close> returned, and the annotation
  read through a pointer is the one of the node it points to.
\<close>

definition walk_done ::
  "'b annotation \<Rightarrow> sp \<Rightarrow> translation_id \<Rightarrow> translation_id \<Rightarrow> 'e cache \<Rightarrow> (sp \<Rightarrow> sp) \<Rightarrow> (sp \<rightharpoonup> 'a mpt_node) \<Rightarrow> (sp \<rightharpoonup> 'b mpt_node)
     \<Rightarrow> bool" where
  "walk_done an new_empty entry_tl self_tl cache vf store8 store9 \<longleftrightarrow>
     (\<forall>p n. store8 p = Some n \<longrightarrow> (\<forall>v \<in> set (node_values n). cache entry_tl v = Inr (Some (vf v)))
        \<and> (\<exists>q n'. cache self_tl p = Inr (Some q) \<and> mpt_node_finalize an new_empty entry_tl self_tl cache n = Inr (Some n')
            \<and> store9 q = Some n'))
   \<and> (\<forall>q n. store9 q = Some n \<longrightarrow> an_node an q = node_ann an n)"

lemma walk_node:
  assumes "walk_done an new_empty entry_tl self_tl cache vf store8 store9" and "store8 p = Some n"
  obtains q n' where "cache self_tl p = Inr (Some q)" "mpt_node_finalize an new_empty entry_tl self_tl cache n = Inr (Some n')"
    "store9 q = Some n'"
  using assms unfolding walk_done_def by blast

lemma walk_value:
  "walk_done an new_empty entry_tl self_tl cache vf store8 store9 \<Longrightarrow> store8 p = Some n \<Longrightarrow> v \<in> set (node_values n) \<Longrightarrow>
     cache entry_tl v = Inr (Some (vf v))"
  unfolding walk_done_def by blast

lemma represents_ann:
  assumes "represents store9 q t" and "\<And>q n. store9 q = Some n \<Longrightarrow> an_node an q = node_ann an n"
  shows "tree_ann an t = an_node an q"
  using assms(1) by cases (simp_all add: assms(2))

lemma resolve_children:
  "list_all2 (\<lambda>p q. cache self_tl p = Inr (Some q)) ps qs \<Longrightarrow> resolve_all cache (map (\<lambda>child. (self_tl, child)) ps) = Inr (Some qs)"
  by (induction ps qs rule: list_all2_induct) (simp_all add: try_resopt_def)

lemma foldl_ann:
  assumes "list_all2 (\<lambda>q c. tree_ann an c = an_node an q) qs cs"
  shows "foldl (\<lambda>acc q. an_append an acc (an_node an q)) z qs = foldl (\<lambda>acc c. an_append an acc (tree_ann an c)) z cs"
  using assms by (induction qs cs arbitrary: z rule: list_all2_induct) simp_all

lemma represents_translated:
  assumes walk: "walk_done an new_empty entry_tl self_tl cache vf store8 store9" and "represents store8 p t"
  shows "\<exists>q. cache self_tl p = Inr (Some q) \<and> represents store9 q (translated an vf t)"
  using assms(2)
proof (induction rule: represents.induct)
  case (rep_empty p)
  then show ?case using walk_node [OF walk rep_empty]
    by (auto simp: mpt_node_finalize_def intro: represents.rep_empty)
next
  case (rep_leaf p a v)
  from walk_node [OF walk rep_leaf] obtain q n' where q: "cache self_tl p = Inr (Some q)" "store9 q = Some n'"
    and n': "mpt_node_finalize an new_empty entry_tl self_tl cache (NLeaf a v) = Inr (Some n')" .
  have "cache entry_tl v = Inr (Some (vf v))" using walk_value [OF walk rep_leaf] by simp
  then have "n' = NLeaf (an_from_value an (vf v)) (vf v)"
    using n' by (simp add: mpt_node_finalize_def mpt_node_children_def try_resopt_def)
  then show ?case using q by (auto intro: represents.rep_leaf)
next
  case (rep_extension p a path r c)
  from walk_node [OF walk rep_extension(1)] obtain q n' where q: "cache self_tl p = Inr (Some q)" "store9 q = Some n'"
    and n': "mpt_node_finalize an new_empty entry_tl self_tl cache (NExtension a path r) = Inr (Some n')" .
  obtain r' where r': "cache self_tl r = Inr (Some r')" "represents store9 r' (translated an vf c)" using rep_extension.IH by blast
  have "tree_ann an (translated an vf c) = an_node an r'"
    using represents_ann [OF r'(2)] walk by (auto simp: walk_done_def)
  then have "n' = NExtension (tree_ann an (translated an vf c)) path r'"
    using n' r'(1) by (simp add: mpt_node_finalize_def mpt_node_children_def try_resopt_def)
  then show ?case using q r'(2) by (auto simp: Let_def intro: represents.rep_extension)
next
  case (rep_mid p a v r c)
  from walk_node [OF walk rep_mid(1)] obtain q n' where q: "cache self_tl p = Inr (Some q)" "store9 q = Some n'"
    and n': "mpt_node_finalize an new_empty entry_tl self_tl cache (NMidBranchLeaf a v r) = Inr (Some n')" .
  obtain r' where r': "cache self_tl r = Inr (Some r')" "represents store9 r' (translated an vf c)" using rep_mid.IH by blast
  have v: "cache entry_tl v = Inr (Some (vf v))" using walk_value [OF walk rep_mid(1)] by simp
  have "tree_ann an (translated an vf c) = an_node an r'"
    using represents_ann [OF r'(2)] walk by (auto simp: walk_done_def)
  then have "n' = NMidBranchLeaf (an_append an (an_from_value an (vf v)) (tree_ann an (translated an vf c))) (vf v) r'"
    using n' r'(1) v by (simp add: mpt_node_finalize_def mpt_node_children_def try_resopt_def)
  then show ?case using q r'(2) by (auto simp: Let_def intro: represents.rep_mid)
next
  case (rep_branch p a ps cs)
  from walk_node [OF walk rep_branch(1)] obtain q n' where q: "cache self_tl p = Inr (Some q)" "store9 q = Some n'"
    and n': "mpt_node_finalize an new_empty entry_tl self_tl cache (NBranch a ps) = Inr (Some n')" .
  define qs where "qs = map (\<lambda>p. the (projr (cache self_tl p))) ps"
  have each: "cache self_tl (ps ! i) = Inr (Some (qs ! i)) \<and> represents store9 (qs ! i) (translated an vf (cs ! i))" if "i < length ps" for i
    using rep_branch(3) that by (auto simp: qs_def dest: list_all2_nthD)
  have len: "length qs = 16" "length cs = 16" using rep_branch(2) rep_branch(3) by (auto simp: qs_def dest: list_all2_lengthD)
  have res: "resolve_all cache (map (\<lambda>child. (self_tl, child)) ps) = Inr (Some qs)"
    using each len rep_branch(2) by (intro resolve_children) (simp add: list_all2_conv_all_nth)
  have rep: "list_all2 (represents store9) qs (map (translated an vf) cs)"
    using each len rep_branch(2) by (simp add: list_all2_conv_all_nth)
  then have "list_all2 (\<lambda>q c. tree_ann an c = an_node an q) qs (map (translated an vf) cs)"
    using represents_ann walk by (fastforce simp: walk_done_def elim: list_all2_mono)
  then have "n' = NBranch (foldl (\<lambda>acc c. an_append an acc (tree_ann an c)) (an_empty an) (map (translated an vf) cs)) qs"
    using n' res len rep_branch(2) foldl_ann [of an qs "map (translated an vf) cs" "an_empty an"]
    by (simp add: mpt_node_finalize_def mpt_node_children_def try_resopt_def)
  then have "store9 q = Some (NBranch (foldl (\<lambda>acc c. an_append an acc (tree_ann an c)) (an_empty an) (map (translated an vf) cs)) qs)"
    using q by simp
  from represents.rep_branch [OF this len(1) rep] q(1) show ?case by (auto simp: Let_def)
qed

text \<open>
  C17. Translating a trie keeps its contents. When the walk over the stored nodes is done, the translation of
  a trie is a trie with the same paths in the same order, the value under each path replaced by its
  translation, and the annotation of its root is the sum of the annotations of the translated values,
  recomputed and not carried over from the old trie.
\<close>

theorem mpt_translation_correct:
  assumes "walk_done an new_empty entry_tl self_tl cache vf store8 store9" and "monoid_annotation an"
    and "represents store8 p t"
  shows "\<exists>q t'. mpt_finalize self_tl cache p = Inr (Some q) \<and> represents store9 q t'
    \<and> trie_entries t' = map (apsnd vf) (trie_entries t)
    \<and> tree_ann an t' = sum_values an (map (vf \<circ> snd) (trie_entries t))"
proof -
  obtain q where q: "cache self_tl p = Inr (Some q)" "represents store9 q (translated an vf t)"
    using represents_translated [OF assms(1,3)] by blast
  have "mpt_finalize self_tl cache p = Inr (Some q)"
    using q(1) by (simp add: mpt_finalize_def mpt_children_def try_resopt_def)
  then show ?thesis using q(2) entries_translated tree_ann_translated [OF assms(2)] by blast
qed

text \<open>A trie of one entry under an extension, annotated with the lengths of its values.\<close>

definition sample_annotation :: "nat annotation" where
  "sample_annotation = \<lparr>an_empty = 0, an_append = (+), an_from_value = length, an_node = (\<lambda>_. 2)\<rparr>"

definition sample_cache :: "unit cache" where
  "sample_cache tid key = Inr (Some (100 # key))"

definition sample_store8 :: "sp \<rightharpoonup> unit mpt_node" where
  "sample_store8 = [[1] \<mapsto> NExtension () [3] [2], [2] \<mapsto> NLeaf () [7]]"

definition sample_store9 :: "sp \<rightharpoonup> nat mpt_node" where
  "sample_store9 = [[100, 1] \<mapsto> NExtension 2 [3] [100, 2], [100, 2] \<mapsto> NLeaf 2 [100, 7]]"

theorem mpt_translation_correct_witness:
  "\<exists>q t'. mpt_finalize (TranslationId ''a'' ''b'') sample_cache [1] = Inr (Some q) \<and> represents sample_store9 q t'
    \<and> trie_entries t' = [([3], [100, 7])] \<and> tree_ann sample_annotation t' = 2"
proof -
  let ?t = "MExtension () [3] (MLeaf () [7])"
  have walk: "walk_done sample_annotation [] (TranslationId ''v'' ''w'') (TranslationId ''a'' ''b'') sample_cache ((#) 100) sample_store8 sample_store9"
    by (auto simp: walk_done_def sample_store8_def sample_store9_def sample_cache_def sample_annotation_def mpt_node_finalize_def
        mpt_node_children_def try_resopt_def split: if_splits)
  have "represents sample_store8 [2] (MLeaf () [7])" by (rule represents.rep_leaf) (simp add: sample_store8_def)
  then have "represents sample_store8 [1] ?t"
    by (rule represents.rep_extension [rotated]) (simp add: sample_store8_def)
  moreover have "monoid_annotation sample_annotation" by (simp add: monoid_annotation_def sample_annotation_def)
  ultimately show ?thesis
    using mpt_translation_correct [OF walk] by (fastforce simp: sum_values_def sample_annotation_def)
qed

section \<open>The table, contracts and the driver\<close>

text \<open>The tags the module's documentation gives.\<close>

definition documented_tags :: tags where
  "documented_tags =
     \<lparr>tg_u128 = ''u128'', tg_size_ann = ''size-annotation'', tg_night_ann_v8 = ''night-annotation'',
      tg_night_ann_v9 = ''night-annotation'', tg_contract_v8 = ''contract-state[v6]'', tg_contract_v9 = ''contract-state[v8]'',
      tg_parameters_v8 = ''ledger-parameters[v5]'', tg_parameters_v9 = ''ledger-parameters[v8]'',
      tg_state_v8 = ''ledger-state[v13]'', tg_state_v9 = ''ledger-state[v18]'',
      tg_mpt = (\<lambda>a ann. ''mpt('' @ a @ '','' @ ann @ '')''), tg_mpt_node = (\<lambda>a ann. ''mpt-node('' @ a @ '','' @ ann @ '')'')\<rparr>"

text \<open>Every translation an entry of the table requires is itself in the table, once.\<close>

lemma table_is_closed:
  "distinct (map fst TABLE)
    \<and> (\<forall>(tid, entry) \<in> set TABLE. set (required_translations documented_tags entry) \<subseteq> fst ` set TABLE)"
  by (simp add: TABLE_def documented_tags_def parameters_tl_def bridge_receiving_mpt_def contract_mpt_def mpt_required_def
      mpt_node_required_def)

lemma foldl_operations:
  "foldl (\<lambda>m (key, op). m(key \<mapsto> f op)) m ops k
     = (case map_of (rev ops) k of None \<Rightarrow> m k | Some op \<Rightarrow> Some (f op))"
proof (induction ops arbitrary: m)
  case (Cons x ops)
  then show ?case by (cases x) (auto simp: map_add_def split: option.splits)
qed simp

text \<open>A translated contract has the same operations with their only key in slot v2, and a committee of Schnorr keys.\<close>

lemma contract_translation:
  assumes "contract_finalize rc c = Inr (Some c')" and "distinct (map fst (c8_operations c))"
  shows "c9_operations c' k = map_option (\<lambda>v2. \<lparr>op_v2 = v2, op_v3 = None, op_ir = None\<rparr>) (map_of (c8_operations c) k)
    \<and> c9_committee c' = map SchnorrKey (c8_committee c) \<and> c9_threshold c' = c8_threshold c \<and> c9_counter c' = c8_counter c"
proof -
  have "map_of (rev (c8_operations c)) = map_of (c8_operations c)" using assms(2) by (metis map_of_inject_set distinct_rev rev_map set_rev)
  then show ?thesis
    using assms(1) foldl_operations [of translate_contract_operation Map.empty "c8_operations c" k]
    by (auto simp: contract_finalize_def translate_contract_operation_def Let_def res_simps split: option.splits)
qed

lemma try_map_schnorr:
  "(\<And>key. key \<in> set keys \<Longrightarrow> \<exists>raw. ser key = Inr raw) \<Longrightarrow>
     try_map (\<lambda>key. and_then (map_err e8 (ser key)) (\<lambda>raw. Inr (Schnorr, raw))) keys
       = try_map (\<lambda>key. and_then (map_err e9 (ser key)) (\<lambda>raw. Inr (Schnorr, raw))) keys"
proof (induction keys)
  case (Cons key keys)
  obtain raw where "ser key = Inr raw" using Cons.prems [of key] by auto
  then show ?case using Cons by (simp add: and_then_def map_err_def)
qed simp

lemma try_map_of_map: "try_map g (map h xs) = try_map (\<lambda>x. g (h x)) xs"
  by (induction xs) (auto split: sum.splits)

text \<open>The API reports the same maintenance authority before and after the translation.\<close>

lemma authority_survives_translation:
  assumes "\<And>key. key \<in> set (cd_committee d) \<Longrightarrow> \<exists>raw. cc_serialize_key cc key = Inr raw"
  shows "maintenance_authority_of cc (ContractV4 \<lparr>cd_balance = b, cd_committee = map SchnorrKey (cd_committee d),
      cd_threshold = cd_threshold d, cd_counter = cd_counter d\<rparr>) = maintenance_authority_of cc (ContractV3 d)"
  using try_map_schnorr [of "cd_committee d" "cc_serialize_key cc" "Serialize ''VerifyingKeyV9''" "Serialize ''VerifyingKeyV8''"] assms
  by (simp add: try_map_of_map)

text \<open>The driver returns what the walk first reports, provided it does so within the cap on steps.\<close>

fun walked :: "('q \<Rightarrow> 'e + 'q) \<Rightarrow> nat \<Rightarrow> 'q \<Rightarrow> 'q option" where
  "walked run 0 w = Some w"
| "walked run (Suc k) w = (case run w of Inl _ \<Rightarrow> None | Inr w' \<Rightarrow> walked run k w')"

lemma translate_loop_returns:
  "k < steps \<Longrightarrow> walked run (Suc k) w = Some done_walk \<Longrightarrow> result done_walk = Inr (Some s) \<Longrightarrow>
     (\<And>j w'. 0 < j \<Longrightarrow> j \<le> k \<Longrightarrow> walked run j w = Some w' \<Longrightarrow> result w' = Inr None) \<Longrightarrow>
     translate_loop other run result steps w = Inr s"
proof (induction k arbitrary: steps w)
  case 0
  then show ?case by (cases steps) (auto simp: and_then_def split: sum.splits)
next
  case (Suc k)
  obtain n where n: "steps = Suc n" using Suc.prems(1) by (cases steps) auto
  obtain w1 where w1: "run w = Inr w1" using Suc.prems(2) by (auto split: sum.splits)
  have none: "result w1 = Inr None" using Suc.prems(4) [of 1 w1] w1 by simp
  have "translate_loop other run result n w1 = Inr s"
  proof (rule Suc.IH)
    show "k < n" using Suc.prems(1) n by simp
    show "walked run (Suc k) w1 = Some done_walk" using Suc.prems(2) w1 by simp
    show "result done_walk = Inr (Some s)" by (rule Suc.prems(3))
    show "result w' = Inr None" if "0 < j" "j \<le> k" "walked run j w1 = Some w'" for j w'
      using Suc.prems(4) [of "Suc j" w'] that w1 by simp
  qed
  then show ?case using n w1 none by (simp add: and_then_def)
qed

end
