(* ===== verification/Spec2Isabelle.thy ===== *)
theory Spec2Isabelle
  imports Event_Decoder Stored_Chain Wallet_Liveness Api_Block_Stream Api_Tx_Stream Api_Shielded_Stream
    Api_Action_Stream Api_Quota Api_Dust_Props Node_Props Api_Spo_Props Api_Graph_Props
    Ledger_Retention State_Translation
begin

text \<open>
  Verification of the Midnight indexer.

  \<^bold>\<open>The program.\<close> The indexer consists of four services around one relational database. The
  chain indexer (\<^verbatim>\<open>src/chain-indexer\<close>) follows the finalized blocks of a node, applies their transactions to a
  ledger state, persists that state in a key-value store of nodes (\<^verbatim>\<open>src/indexer-common/src/infra/ledger_db\<close>) and
  saves the block with everything derived from it. The wallet indexer (\<^verbatim>\<open>src/wallet-indexer\<close>) tries the viewing
  keys of connected wallets on the stored transactions and records the relevant ones. The SPO indexer
  (\<^verbatim>\<open>src/spo-indexer\<close>) records epochs, committees and stake of stake pool operators. The API
  (\<^verbatim>\<open>src/indexer-api\<close>) answers queries and streams subscriptions out of the database, woken up by messages of
  the chain and wallet indexers. \<^verbatim>\<open>src/indexer-common\<close> holds what they share.

  \<^bold>\<open>Shared vocabulary.\<close>
  \<^item> \<open>Prelude\<close>: Rust integers as words with the casts of the sources, \<^verbatim>\<open>Result\<close> as a sum type with
    its combinators, tables with ascending ids (locale \<open>id_table\<close>, interpreted on \<open>insert_row\<close>).
  \<^item> \<open>Common_Domain\<close> (\<^verbatim>\<open>indexer-common/src/domain\<close>): versions, byte arrays, timestamps, ledger events, dust and
    bridge data, messages, encodings of columns, each with its parser or printer and their round trips.
  \<^item> \<open>Event_Decoder\<close> (\<^verbatim>\<open>domain/ledger/ledger_state.rs\<close>, \<open>make_contract_event_attributes\<close> and the functions that
    take bytes): decoding is total; it inverts the wire format for atoms that keep the minimum length of their type when their trailing zeros
    are stripped, and yields empty fields for shorter ones.
  \<^item> \<open>Ledger_Transaction\<close> (\<^verbatim>\<open>domain/ledger/transaction.rs\<close>, \<^verbatim>\<open>domain/viewing_key.rs\<close>): relevance for a viewing key is
    decryptability of an offer, and encrypted viewing keys are read back. Decryption and the cipher
    are parameters.

  \<^bold>\<open>Ledger states.\<close>
  \<^item> \<open>Ledger_Db\<close> (\<^verbatim>\<open>infra/ledger_db/v1_1.rs\<close>): nodes and root counts as tables; the buffered batches
    equal updates one by one (locale \<open>update_log\<close>, interpreted for nodes and for roots), and a sweep
    visits every node.
  \<^item> \<open>Root_Repair\<close> (\<open>repair_root_counts\<close>): the startup repair over any storage backend (locale
    \<open>storage_backend\<close>, interpreted on the ledger database). The traversal of a subtree takes fuel;
    the theorem shows that a number of steps given by the nodes of the store is enough.
  \<^item> \<open>Retention\<close>: the window of persisted states that \<open>index_iteration\<close> keeps never releases a state
    twice, over any ledger environment that counts its roots (locale \<open>root_store\<close>). \<open>Ledger_Retention\<close>: the environment of the code, whose
    \<open>persist\<close>, \<open>unpersist\<close>, \<open>root_hash_bytes\<close> and \<open>state_gc\<close> go through the storage crate, is one. What is relied on of that crate is
    the locale \<open>ledger_storage\<close>, an extension of \<open>storage_backend\<close> with \<open>root_store\<close> as sublocale, interpreted on the ledger database
    written through. Roots are counted in 32 bits, and no root is persisted more often than that.
  \<^item> \<open>Contract_State\<close> (\<^verbatim>\<open>domain/ledger.rs\<close>, \<^verbatim>\<open>domain/ledger/contract_state.rs\<close>): the errors of the ledger, the balances of a
    contract and its maintenance authority.
  \<^item> \<open>Ledger_Crates\<close>, \<open>Ledger_State\<close> (\<^verbatim>\<open>domain/ledger/ledger_state.rs\<close>): the values and operations of the ledger crates as
    records of functions, one for each ledger version; the conversion of their events and of the outputs and inputs of their
    transactions; the state of either version with the fullness of the block, its loading, persisting, applying of transactions,
    finalizing and Merkle trees. \<open>state_ops\<close> and \<open>state_env\<close> put these together as the ledger that \<open>Chain_Domain\<close> and
    \<open>Chain_App\<close> take as a parameter. \<open>Ledger_State_Props\<close>: which events and UTXOs a transaction leaves, what a failed one
    leaves, that a block over its limits is finalized, that a persisted state is loaded again, and a block applied by the chain
    indexer through this state.
  \<^item> \<open>State_Translation\<close> (\<^verbatim>\<open>domain/ledger/state_translation_v8_to_v9.rs\<close>): the table of translations from ledger 8 to ledger 9 is
    closed, a translated trie has the same paths with translated values and recomputed annotations, the maintenance authority
    of a contract survives. The driver has a cap on its steps in the code itself. The walk over the state is the storage
    crate's and its cache a parameter.

  \<^bold>\<open>Chain indexer.\<close>
  \<^item> \<open>Chain_Domain\<close> (\<^verbatim>\<open>chain-indexer/src/domain\<close>): node blocks and transactions, their application to a ledger
    state, whose operations are the parameter \<open>ledger_ops\<close>, and the domain data built from them.
  \<^item> \<open>Chain_Schema\<close>, \<open>Chain_Storage\<close> (\<^verbatim>\<open>chain-indexer/src/infra/storage.rs\<close> and the migrations): one record of
    tables; every statement of \<open>save_block\<close> and of the readers, for PostgreSQL and SQLite. A failed
    transaction returns the error, and the state is the old one. \<open>Chain_Storage_Props\<close> shows that
    saving keeps the constraints, what it adds, and what the readers return. It keeps the history: besides the spending transaction of a UTXO only
    the \<^verbatim>\<open>dtime\<close> of dust generations and the cNIGHT registrations change (\<open>extends\<close>, \<open>others_extend\<close>).
  \<^item> \<open>Chain_App\<close> (\<^verbatim>\<open>chain-indexer/src/application.rs\<close>): the stream of node blocks as recursion over the answers of the
    node, \<open>index_block\<close>, catching up, system parameters, startup and the loop.
    \<open>Chain_App_Props\<close> shows safety and progress; \<open>Stored_Chain\<close> gives the states of the database after
    any number of runs as an inductive predicate, with the chain of blocks as its invariant.
  \<^item> \<open>Node_Access\<close> (\<^verbatim>\<open>chain-indexer/src/infra/subxt_node.rs\<close> and \<^verbatim>\<open>subxt_node\<close>): the stream of finalized blocks, with its catching
    up by height and along parents and its renewed subscriptions, and the making of a block from the answers of the node.
    The walk along parents takes fuel, and one step for each block of the chain is enough. \<open>Node_Props\<close> composes these streams
    with the application: whatever the subscriptions repeat, leave out or fail to deliver, the blocks of the chain arrive once and in order up to the
    height that \<open>stream_reach\<close> computes from what they deliver. It also shows in the state of which block the cached authorities are
    read (\<open>read_at\<close>), and when these are the ones in force.

  \<^bold>\<open>Wallet indexer.\<close> \<open>Wallet_Indexer\<close> (\<^verbatim>\<open>wallet-indexer/src\<close> and \<^verbatim>\<open>indexer-api/src/infra/storage/wallet.rs\<close>):
  sessions, activation, forward and backward ranges, and the recording of relevant transactions, where reading and
  writing are separate steps. \<open>Wallet_Props\<close> has the step relation of all interleavings and its
  invariant, for wallets that connect with any start index; what is recorded is exact for those that were not created ahead of
  the chain, and \<open>ahead_wallet_misses\<close> shows what happens to the others. \<open>Wallet_Liveness\<close> bounds the number of rounds until a
  wallet has caught up. The transaction at the start index itself is never recorded.

  \<^bold>\<open>API.\<close>
  \<^item> \<open>Api_Storage\<close>, \<open>Api_Contract\<close> (\<^verbatim>\<open>indexer-api/src/infra/storage\<close>, \<^verbatim>\<open>block.rs\<close>, \<^verbatim>\<open>transaction.rs\<close>, \<^verbatim>\<open>unshielded.rs\<close>,
    \<^verbatim>\<open>contract_action.rs\<close>): the queries as functions of the database, with the decoding of rows.
  \<^item> \<open>Paging\<close>: a stream of pages as a function of the list of database states its queries meet, one
    for each page; the result \<^const>\<open>None\<close> says that the stream has not ended after those. The locale
    \<open>keyset\<close> states what pages need (states only grow, keys order the rows, new rows come last), and
    its lemmas say that the pages yield every row once, in order. It is interpreted for blocks,
    contract actions, relevant and unshielded transactions.
  \<^item> \<open>Api_Subscriptions\<close> (\<^verbatim>\<open>indexer-api/src/infra/api/v4/subscription\<close>) and \<open>Api_Block_Stream\<close>, \<open>Api_Tx_Stream\<close>,
    \<open>Api_Shielded_Stream\<close>, \<open>Api_Action_Stream\<close>: existing items, then items on every event; each theorem says
    what a subscriber gets while blocks are saved. The one about relevant transactions holds while all of them have added to the zswap
    state and the wallet indexer scans forward.
  \<^item> \<open>Api_View\<close>: the rows that \<open>save_block\<close> adds to the tables of blocks, transactions, contract actions and UTXOs.
    \<open>Api_Types\<close>: whatever the chain indexer writes to these tables, the API decodes.
  \<^item> \<open>Id_Paging\<close>: pages whose cursor is the id of a row (locale \<open>id_paged\<close>, which is a sublocale of \<open>keyset\<close>), streams
    that complete, and the progress of polling with a page for each message. \<open>Api_Fresh\<close>: rows saved later have
    greater ids and leave the events, dust and bridge rows of earlier blocks as they are. \<open>Api_Event_Types\<close>: those
    rows decode.
  \<^item> \<open>Api_Events\<close> (\<^verbatim>\<open>storage/ledger_events.rs\<close>, \<^verbatim>\<open>storage/contract_event.rs\<close>, \<^verbatim>\<open>v4/contract_event.rs\<close>, \<^verbatim>\<open>v4/ledger_events.rs\<close>
    and their subscriptions) with \<open>Api_Event_Streams\<close>: what the zswap, dust and contract event subscriptions yield and
    when the bounded one completes.
  \<^item> \<open>Api_Nullifiers\<close> (\<^verbatim>\<open>storage/shielded_nullifiers.rs\<close>, \<^verbatim>\<open>get_dust_nullifier_transactions\<close> and their subscriptions): the
    nullifiers with given prefixes in a range of blocks.
  \<^item> \<open>Api_Ledger_Cache\<close> (\<^verbatim>\<open>domain/ledger_state.rs\<close>, \<^verbatim>\<open>storage/ledger_state.rs\<close>): a collapsed update from the cached state
    equals one from the highest stored state, for trees that are only appended to.
  \<^item> \<open>Api_Bridge\<close> (\<^verbatim>\<open>storage/bridge.rs\<close>, \<^verbatim>\<open>v4/bridge.rs\<close>, the bridge queries and subscriptions) with \<open>Api_Bridge_Props\<close>:
    saved events are read back, the sums of the pool are exact, and the subscription yields the matching events without a gap, up to 100 for each
    message.
  \<^item> \<open>Api_Dust\<close> (\<^verbatim>\<open>storage/dust.rs\<close>, \<^verbatim>\<open>storage/dust_generations.rs\<close> and the subscription) with \<open>Api_Dust_Props\<close>: the sums over
    the generations of a registration, and a snapshot that covers every leaf of the generation tree once.
  \<^item> \<open>Api_Address\<close> (\<^verbatim>\<open>v4.rs\<close>, \<^verbatim>\<open>v4/viewing_key.rs\<close>, \<^verbatim>\<open>v4/unshielded.rs\<close>, \<^verbatim>\<open>v4/dust.rs\<close>): hex text, session ids, Bech32m
    addresses and Cardano reward addresses; an address decodes on the network and for the type it was encoded for only.
  \<^item> \<open>Api_Graph\<close> (\<^verbatim>\<open>v4/block.rs\<close>, \<^verbatim>\<open>transaction.rs\<close>, \<^verbatim>\<open>contract_action.rs\<close>, \<^verbatim>\<open>contract.rs\<close>, \<^verbatim>\<open>dataloader.rs\<close> and others,
    \<^verbatim>\<open>storage/system_parameters.rs\<close>): the GraphQL objects, the resolvers of their fields and the data loaders, where the keys that
    share a batch with a key are an argument. \<open>Api_Query\<close> (\<^verbatim>\<open>v4/query.rs\<close>, \<^verbatim>\<open>v4/mutation.rs\<close>): the queries and mutations.
    \<open>Api_Graph_Props\<close>: batches do not change what a loader finds, and walking from a block through its objects
    leads back to it.
  \<^item> \<open>Float64\<close>, \<open>Api_Quota\<close> (\<^verbatim>\<open>indexer-api/src/infra/api/quota.rs\<close>): rounding to nearest, ties to even, of rational
    numbers to double precision, with its relative error; the cap of a connection under every interleaving of acquiring
    and ending, for the subscriptions that acquire a place; and the rate of a session, whose tokens are computed with that
    rounding. Instants are whole nanoseconds. No value comes near the overflow of \<^verbatim>\<open>f64\<close>, so that infinities are not modelled.

  \<^bold>\<open>SPO indexer.\<close> \<open>Spo_Indexer\<close> (\<^verbatim>\<open>spo-indexer/src\<close>): epochs, committee, registrations, performance,
  stake refresh and their tables, with the answers of the node and of Blockfrost as a parameter. \<open>Spo_Props\<close>: the
  tables stay consistent under any interleaving of the two tasks, slots are shared out exactly, and pools of the same age
  are all refreshed if Blockfrost answers. \<open>Api_Spo\<close> (\<^verbatim>\<open>indexer-api/src/infra/storage/spo.rs\<close> and the resolvers in \<^verbatim>\<open>v4/query.rs\<close>) has the queries over these tables
  with their joins and patterns, and \<open>Api_Spo_Props\<close> what they return in every state that the indexer reaches: registration
  totals, pages of the stake distribution, search, and the current epoch.

  \<^bold>\<open>Parameters.\<close> Code that is not part of the repository is an argument: the ledger crates
  (application of transactions, serialization, decryption), the node, Blockfrost, the codecs for hex and Bech32, cipher and
  random numbers. What is
  relied on is a named hypothesis and each theorem with one has a witness at a concrete instance. The clock is an
  argument of the operations that read it.

  \<^bold>\<open>Where the code departs from what it says.\<close> Lemmas at concrete inputs show: the start index of
  a wallet is never examined (\<open>Wallet_Liveness\<close>), and a wallet created ahead of the chain may miss transactions (\<open>Wallet_Props\<close>); the
  three bridge subscriptions are not capped (\<open>Api_Quota\<close>); a page of relevant transactions that ends with one that added
  nothing repeats for ever (\<open>Api_Shielded_Stream\<close>); contract actions are streamed from the first one when the
  offset has none yet (\<open>Api_Action_Stream\<close>); trailing zeros of a nullifier are lost (\<open>Event_Decoder\<close>); the interval of
  an epoch is that of the one before, expected blocks lose slots, and the order by update time starves a
  pool (\<open>Spo_Props\<close>); a nullifier prefix that ends in the byte 255 matches itself only (\<open>Api_Nullifiers\<close>); cached leaves
  that change in place are outdated (\<open>Api_Ledger_Cache\<close>); ids from \<^verbatim>\<open>2^63\<close> on are read as negative and the backfill of
  bridge events then never ends, and a count of flushed transfers from \<^verbatim>\<open>2^31\<close> on is added with its sign extended
  (\<open>Api_Bridge_Props\<close>); the generation status counts the newest generation only, and the snapshot of an empty tree may
  contain an entry (\<open>Api_Dust_Props\<close>); a stream that starts with the first block of a session takes the author from the new
  authorities (\<open>Node_Props\<close>); the current epoch of the API is one ahead of the node's, and one pool without identity makes the
  list of operators fail (\<open>Api_Spo_Props\<close>). Two of these are theorems: an event that cannot be serialized is dropped without an
  error, and a failed claim of bridged NIGHT is reported as a claim (\<open>Ledger_State_Props\<close>).

  \<^bold>\<open>Not modelled.\<close> The ledger crates behind \<^verbatim>\<open>ledger_state.rs\<close>, which are parameters; the wrapper of the secret key; the decoding of extrinsics and events with
  generated types, which is a parameter of \<open>Node_Access\<close>; the channels under \<^verbatim>\<open>pub_sub\<close> (messages are lists here); the
  cache of progress, which is a timed cache of a third-party crate in front of two queries; the serving of HTTP and WebSockets;
  configuration, migrations as text, telemetry, executables and tests.
\<close>

end
